(* ===== verification/Prelude.thy ===== *)
theory Prelude
  imports Main "HOL-Library.Word" "HOL-Library.Sublist"
begin

section \<open>What every component shares\<close>

text \<open>
  The results of C code, with the ways a C function of this program can go wrong as values;
  C strings (arrays of characters read up to the first zero byte) and the functions of
  \<^verbatim>\<open>string.h\<close> that the sources call; and generic facts on lists that several components use.
\<close>

subsection \<open>Results\<close>

text \<open>
  \<open>RunError\<close> is a Lua error with its message (a C function leaving through
  \<^verbatim>\<open>longjmp\<close>), \<open>ErrValue\<close> one whose value is not a string and is on top of the stack,
  \<open>ErrSyntax\<close> and \<open>ErrErr\<close> the errors \<^verbatim>\<open>LUA_ERRSYNTAX\<close> and \<^verbatim>\<open>LUA_ERRERR\<close>,
  \<open>ErrMem\<close> the error \<^verbatim>\<open>LUA_ERRMEM\<close>. The next two are
  what C leaves undefined: a write past the end of an array of a known size, and any other access
  the standard gives no meaning. \<open>OutOfFuel\<close> is the value of a loop that was given fewer rounds
  than it needs; the theorems show that it is not the value on valid data.
\<close>

datatype lua_error =
    RunError string
  | ErrValue
  | ErrSyntax string
  | ErrErr
  | ErrMem
  | BufferOverflow
  | UndefinedAccess
  | OutOfFuel

type_synonym 'a res = "lua_error + 'a"

definition rbind :: "'a res \<Rightarrow> ('a \<Rightarrow> 'b res) \<Rightarrow> 'b res" where
  "rbind m f = (case m of Inl e \<Rightarrow> Inl e | Inr x \<Rightarrow> f x)"

lemma rbind_simps [simp]: "rbind (Inl e) f = Inl e" "rbind (Inr x) f = f x"
  by (simp_all add: rbind_def)

lemma rbind_eq_Inr: "rbind m f = Inr y \<longleftrightarrow> (\<exists>x. m = Inr x \<and> f x = Inr y)"
  by (cases m) auto

lemma rbind_eq_Inl: "rbind m f = Inl e \<longleftrightarrow> m = Inl e \<or> (\<exists>x. m = Inr x \<and> f x = Inl e)"
  by (cases m) auto

lemma rbind_assoc: "rbind (rbind m f) g = rbind m (\<lambda>x. rbind (f x) g)"
  by (cases m) auto

lemma rbind_cong [fundef_cong]:
  "m = m' \<Longrightarrow> (\<And>x. m' = Inr x \<Longrightarrow> f x = f' x) \<Longrightarrow> rbind m f = rbind m' f'"
  by (cases m') auto

subsection \<open>Characters and C strings\<close>

abbreviation NUL :: char where "NUL \<equiv> CHR 0x00"

text \<open>The bytes of an array up to its first zero byte: what C reads as a string.\<close>

definition cstr :: "string \<Rightarrow> string" where
  "cstr s = takeWhile (\<lambda>c. c \<noteq> NUL) s"

text \<open>Byte \<open>i\<close> of a C string of length at least \<open>i\<close>: its terminator is a zero byte.\<close>

definition char_at :: "string \<Rightarrow> nat \<Rightarrow> char" where
  "char_at s i = (if i < length s then s ! i else NUL)"

lemma cstr_id: "NUL \<notin> set s \<Longrightarrow> cstr s = s"
  by (auto simp: cstr_def takeWhile_eq_all_conv)

lemma NUL_notin_cstr [simp]: "NUL \<notin> set (cstr s)"
  by (auto simp: cstr_def dest: set_takeWhileD)

lemma char_at_simps [simp]:
  "char_at [] i = NUL" "char_at (c # s) 0 = c" "char_at (c # s) (Suc i) = char_at s i"
  by (simp_all add: char_at_def)

text \<open>\<^verbatim>\<open>strcpy\<close> and \<^verbatim>\<open>strcat\<close> into an array of \<open>cap\<close> bytes.\<close>

definition strcpy :: "nat \<Rightarrow> string \<Rightarrow> string res" where
  "strcpy cap s = (if length s < cap then Inr s else Inl BufferOverflow)"

definition strcat :: "nat \<Rightarrow> string \<Rightarrow> string \<Rightarrow> string res" where
  "strcat cap d s = (if length d + length s < cap then Inr (d @ s) else Inl BufferOverflow)"

text \<open>\<^verbatim>\<open>strchr\<close> and \<^verbatim>\<open>strrchr\<close>, as offsets into the string.\<close>

fun strchr :: "string \<Rightarrow> char \<Rightarrow> nat option" where
  "strchr [] c = None"
| "strchr (x # s) c = (if x = c then Some 0 else map_option Suc (strchr s c))"

fun strrchr :: "string \<Rightarrow> char \<Rightarrow> nat option" where
  "strrchr [] c = None"
| "strrchr (x # s) c =
     (case strrchr s c of Some i \<Rightarrow> Some (Suc i) | None \<Rightarrow> if x = c then Some 0 else None)"

text \<open>
  One call of \<^verbatim>\<open>strtok\<close> on the text that is left: the next token, and what the following
  call goes on with.
\<close>

definition strtok :: "string \<Rightarrow> string \<Rightarrow> (string \<times> string) option" where
  "strtok delims s =
     (let t = dropWhile (\<lambda>c. c \<in> set delims) s
      in if t = [] then None
         else Some (takeWhile (\<lambda>c. c \<notin> set delims) t,
                    drop 1 (dropWhile (\<lambda>c. c \<notin> set delims) t)))"

lemma strtok_Cons:
  "strtok ds (c # s) =
     (if c \<in> set ds then strtok ds s
      else Some (c # takeWhile (\<lambda>c. c \<notin> set ds) s, drop 1 (dropWhile (\<lambda>c. c \<notin> set ds) s)))"
  by (simp add: strtok_def)

lemma strtok_Nil [simp]: "strtok ds [] = None"
  by (simp add: strtok_def)

lemma strtok_shorter: "strtok ds s = Some (tok, rest) \<Longrightarrow> length rest < length s"
proof (induction s)
  case (Cons c s)
  have "length (dropWhile (\<lambda>c. c \<notin> set ds) s) \<le> length s"
    by (rule length_dropWhile_le)
  then have "length (drop 1 (dropWhile (\<lambda>c. c \<notin> set ds) s)) < length (c # s)"
    by simp
  with Cons show ?case
    by (fastforce simp: strtok_Cons split: if_splits)
qed simp

text \<open>All the tokens of a string: what the loop over \<^verbatim>\<open>strtok\<close> sees.\<close>

function tokens :: "string \<Rightarrow> string \<Rightarrow> string list" where
  "tokens ds s = (case strtok ds s of None \<Rightarrow> [] | Some (tok, rest) \<Rightarrow> tok # tokens ds rest)"
  by pat_completeness auto
termination
  by (relation "measure (\<lambda>(ds, s). length s)") (auto dest: strtok_shorter)

declare tokens.simps [simp del]

lemma tokens_Nil [simp]: "tokens ds [] = []"
  by (simp add: tokens.simps)

lemma tokens_delim: "c \<in> set ds \<Longrightarrow> tokens ds (c # s) = tokens ds s"
  by (subst (1 2) tokens.simps) (simp add: strtok_Cons)

text \<open>A word without delimiters, followed by a delimiter or the end, is the first token.\<close>

lemma strtok_word:
  "w \<noteq> [] \<Longrightarrow> \<forall>c \<in> set w. c \<notin> set ds \<Longrightarrow> d \<in> set ds \<Longrightarrow>
     strtok ds (w @ d # s) = Some (w, s)"
  by (cases w) (auto simp: strtok_Cons takeWhile_append2 dropWhile_append2)

lemma tokens_word:
  "w \<noteq> [] \<Longrightarrow> \<forall>c \<in> set w. c \<notin> set ds \<Longrightarrow> d \<in> set ds \<Longrightarrow>
     tokens ds (w @ d # s) = w # tokens ds s"
  by (subst tokens.simps) (simp add: strtok_word)

lemma tokens_last_word:
  assumes "w \<noteq> []" "\<forall>c \<in> set w. c \<notin> set ds" shows "tokens ds w = [w]"
proof (cases w)
  case (Cons c v)
  with assms(2) have v: "takeWhile (\<lambda>c. c \<notin> set ds) v = v" "dropWhile (\<lambda>c. c \<notin> set ds) v = []"
    by (simp_all add: takeWhile_eq_all_conv)
  from Cons assms(2) have "strtok ds w = Some (w, [])"
    by (simp only: strtok_Cons v) simp
  then show ?thesis by (subst tokens.simps) simp
qed (use assms in simp)

lemma strtok_token:
  "strtok ds s = Some (tok, rest) \<Longrightarrow> tok \<noteq> [] \<and> set tok \<inter> set ds = {}"
  by (induction s) (auto simp: strtok_Cons split: if_splits dest: set_takeWhileD)

lemma tokens_ok: "tok \<in> set (tokens ds s) \<Longrightarrow> tok \<noteq> [] \<and> set tok \<inter> set ds = {}"
proof (induction ds s rule: tokens.induct)
  case (1 ds s)
  show ?case
  proof (cases "strtok ds s")
    case None
    with "1.prems" show ?thesis by (simp add: tokens.simps)
  next
    case (Some p)
    obtain t r where p: "p = (t, r)" by force
    with Some "1.prems" have "tok = t \<or> tok \<in> set (tokens ds r)"
      by (subst (asm) tokens.simps) simp
    with Some p "1.IH" strtok_token show ?thesis by blast
  qed
qed

subsection \<open>Lists\<close>

lemma take_Suc_snoc: "i < length xs \<Longrightarrow> take (Suc i) xs = take i xs @ [xs ! i]"
  by (rule take_Suc_conv_app_nth)

lemma nth_append_sing [simp]: "(xs @ [x]) ! length xs = x"
  by simp

end
