(* ===== verification/PathCore.thy ===== *)
theory PathCore
  imports Prelude
begin

section \<open>The path functions of the host\<close>

text \<open>
  \<^verbatim>\<open>old/src/host/path_*.c\<close> on C strings: the buffers are arrays of 0x4000 bytes, a write
  past their end is \<open>BufferOverflow\<close>. The working directory comes from the operating system, so
  it is a parameter: \<open>getcwd n\<close> is the result of \<^verbatim>\<open>do_getcwd (buffer, n)\<close> and the
  string it leaves in the buffer. The Lua side of these functions (arguments, results, tables of
  paths) is in the theory \<^verbatim>\<open>HostPath\<close>.
\<close>

abbreviation slash :: char where "slash \<equiv> CHR ''/''"
abbreviation backslash :: char where "backslash \<equiv> CHR 0x5C"

type_synonym getcwd = "nat \<Rightarrow> bool \<times> string"

definition path_buf :: nat where
  "path_buf = 0x4000"

subsection \<open>Definitions\<close>

definition do_isabsolute :: "string \<Rightarrow> bool" where
  "do_isabsolute path \<longleftrightarrow>
     char_at path 0 = slash \<or>
     char_at path 0 = backslash \<or>
     char_at path 0 = CHR ''$'' \<or>
     (char_at path 0 = CHR 0x22 \<and> char_at path 1 = CHR ''$'') \<or>
     (char_at path 0 \<noteq> NUL \<and> char_at path 1 = CHR '':'')"

definition do_translate :: "string \<Rightarrow> char \<Rightarrow> string" where
  "do_translate value sep = map (\<lambda>ch. if ch = slash \<or> ch = backslash then sep else ch) value"

text \<open>\<^verbatim>\<open>translate\<close>: the result is read back as a C string.\<close>

definition translate :: "string \<Rightarrow> char \<Rightarrow> string res" where
  "translate value sep = rbind (strcpy path_buf value) (\<lambda>r. Inr (cstr (do_translate r sep)))"

text \<open>
  The loop \<^verbatim>\<open>while (i >= 0 && result[i] != '/') --i\<close>: the argument is \<open>i + 1\<close>, the
  result the final \<open>i\<close>, \<open>None\<close> when it is -1.
\<close>

fun back_to_slash :: "string \<Rightarrow> nat \<Rightarrow> nat option" where
  "back_to_slash r 0 = None"
| "back_to_slash r (Suc i) = (if r ! i = slash then Some i else back_to_slash r i)"

text \<open>Removing the last component of \<^verbatim>\<open>result\<close> for a \<^verbatim>\<open>..\<close>, where there is one to remove.\<close>

definition drop_last_part :: "string \<Rightarrow> string" where
  "drop_last_part result =
     (case back_to_slash result (length result - 1) of
        Some i \<Rightarrow> take (i + 1) result
      | None \<Rightarrow> result)"

text \<open>The test of line 43: a \<^verbatim>\<open>..\<close> that takes back the part before it.\<close>

definition is_parent_ref :: "string \<Rightarrow> string option \<Rightarrow> bool" where
  "is_parent_ref ch prev \<longleftrightarrow>
     ch = ''..'' \<and>
     (case prev of None \<Rightarrow> True | Some p \<Rightarrow> char_at p 0 \<noteq> CHR ''$'' \<and> p \<noteq> ''..'')"

function getabs_loop :: "string \<Rightarrow> string \<Rightarrow> string option \<Rightarrow> string res" where
  "getabs_loop buffer result prev =
     (case strtok ''/'' buffer of
        None \<Rightarrow> Inr result
      | Some (ch, rest) \<Rightarrow>
          if is_parent_ref ch prev then getabs_loop rest (drop_last_part result) None
          else if ch \<noteq> ''.'' then
            rbind (strcat path_buf result ch) (\<lambda>r.
            rbind (strcat path_buf r ''/'') (\<lambda>r. getabs_loop rest r (Some ch)))
          else getabs_loop rest result (Some ch))"
  by pat_completeness auto
termination
  by (relation "measure (\<lambda>(buffer, result, prev). length buffer)") (auto dest: strtok_shorter)

declare getabs_loop.simps [simp del]

text \<open>Lines 16 to 31: the text that is normalised.\<close>

definition getabs_input :: "getcwd \<Rightarrow> string \<Rightarrow> string option \<Rightarrow> string res" where
  "getabs_input getcwd value relative_to =
     rbind (if \<not> do_isabsolute value then
              rbind (case relative_to of
                       Some r \<Rightarrow> strcpy path_buf r
                     | None \<Rightarrow> Inr (snd (getcwd path_buf))) (\<lambda>b.
              strcat path_buf b ''/'')
            else Inr []) (\<lambda>b.
     rbind (strcat path_buf b value) (\<lambda>b.
     Inr (do_translate b slash)))"

text \<open>Lines 64 to 68: \<open>i\<close> is -1 for an empty result, and \<^verbatim>\<open>result[-1]\<close> is read.\<close>

definition strip_last_slash :: "string \<Rightarrow> string res" where
  "strip_last_slash result =
     (if result = [] then Inl UndefinedAccess
      else if last result = slash then Inr (butlast result) else Inr result)"

definition do_getabsolute :: "getcwd \<Rightarrow> string \<Rightarrow> string option \<Rightarrow> string res" where
  "do_getabsolute getcwd value relative_to =
     rbind (getabs_input getcwd value relative_to) (\<lambda>buffer.
     rbind (getabs_loop buffer (if char_at buffer 0 = slash then ''/'' else '''') None)
       strip_last_slash)"

text \<open>The loop of lines 42 to 49; the result is \<^verbatim>\<open>last\<close>.\<close>

fun last_common_slash :: "string \<Rightarrow> string \<Rightarrow> nat \<Rightarrow> int \<Rightarrow> int" where
  "last_common_slash (a # src) (b # dst) i lst =
     (if a = b then last_common_slash src dst (Suc i) (if a = slash then int i else lst) else lst)"
| "last_common_slash _ _ i lst = lst"

fun count_slashes :: "string \<Rightarrow> nat" where
  "count_slashes [] = 0"
| "count_slashes (c # s) = (if c = slash then Suc (count_slashes s) else count_slashes s)"

fun back_out :: "nat \<Rightarrow> string \<Rightarrow> string res" where
  "back_out 0 src = Inr src"
| "back_out (Suc n) src = rbind (strcat path_buf src ''../'') (back_out n)"

definition getrelative :: "getcwd \<Rightarrow> string \<Rightarrow> string \<Rightarrow> string res" where
  "getrelative getcwd p1 p2 =
     rbind (do_getabsolute getcwd p1 None) (\<lambda>src.
     rbind (do_getabsolute getcwd p2 None) (\<lambda>dst.
     if src = dst then Inr ''.''
     else if char_at dst 0 = CHR ''$'' then Inr dst
     else
       rbind (strcat path_buf src ''/'') (\<lambda>src.
       rbind (strcat path_buf dst ''/'') (\<lambda>dst.
       let lst = last_common_slash src dst 0 (-1)
       in if lst \<le> 0 \<or> (lst = 2 \<and> char_at src 1 = CHR '':'') then Inr (butlast dst)
          else
            rbind (back_out (count_slashes (drop (nat lst + 1) src)) '''') (\<lambda>src.
            rbind (strcat path_buf src (drop (nat lst + 1) dst)) (\<lambda>src.
            if src = [] then Inl UndefinedAccess else Inr (butlast src)))))))"

text \<open>
  \<^verbatim>\<open>path_join\<close>: the arguments, \<open>None\<close> for nil. The text in \<^verbatim>\<open>buffer\<close> up to
  \<^verbatim>\<open>ptr\<close> is the first argument; the copied part goes into the buffer whole, its trailing
  slashes included, so its whole length has to fit.
\<close>

fun trimmed_len :: "string \<Rightarrow> nat \<Rightarrow> nat" where
  "trimmed_len part 0 = 0"
| "trimmed_len part (Suc n) =
     (if Suc n > 1 \<and> part ! n = slash then trimmed_len part n else Suc n)"

definition join_part :: "string \<Rightarrow> string option \<Rightarrow> string res" where
  "join_part buf arg =
     (case arg of
        None \<Rightarrow> Inr buf
      | Some part \<Rightarrow>
          let len = trimmed_len part (length part)
          in if len = 0 \<or> (len = 1 \<and> char_at part 0 = CHR ''.'') then Inr buf
             else
               let buf = (if do_isabsolute part then [] else buf);
                   buf = (if buf \<noteq> [] \<and> last buf \<noteq> slash then buf @ [slash] else buf)
               in if length buf + length part < path_buf then Inr (buf @ take len part)
                  else Inl BufferOverflow)"

fun join_loop :: "string \<Rightarrow> string option list \<Rightarrow> string res" where
  "join_loop buf [] = Inr buf"
| "join_loop buf (a # args) = rbind (join_part buf a) (\<lambda>buf. join_loop buf args)"

definition join :: "string option list \<Rightarrow> string res" where
  "join args = join_loop [] args"

text \<open>
  \<^verbatim>\<open>path_normalize\<close> works in place on one buffer; the index \<open>src\<close> reads ahead of
  \<open>dst\<close>, and the byte kept in \<open>last\<close> is read back from the buffer after the write.
\<close>

function squeeze :: "string \<Rightarrow> nat \<Rightarrow> nat \<Rightarrow> char \<Rightarrow> string \<times> nat \<times> nat" where
  "squeeze buffer src dst lst =
     (if src < length buffer \<and> buffer ! src \<noteq> NUL then
        let ch = (if buffer ! src = backslash then slash else buffer ! src);
            keep = (ch \<noteq> slash \<or> lst \<noteq> slash);
            buffer' = (if keep then buffer[dst := ch] else buffer);
            dst' = (if keep then Suc dst else dst);
            lst' = (if src \<noteq> 0 then buffer' ! src else lst)
        in squeeze buffer' (Suc src) dst' lst'
      else (buffer, src, dst))"
  by pat_completeness auto
termination
  by (relation "measure (\<lambda>(buffer, src, dst, lst). length buffer - src)") (auto simp: Let_def)

declare squeeze.simps [simp del]

fun strip_trailing :: "string \<Rightarrow> nat \<Rightarrow> string" where
  "strip_trailing buffer 0 = buffer"
| "strip_trailing buffer (Suc i) =
     (if buffer ! Suc i = slash then strip_trailing (buffer[Suc i := NUL]) i else buffer)"

function skip_dot_slash :: "string \<Rightarrow> nat \<Rightarrow> nat" where
  "skip_dot_slash buffer src =
     (if Suc src < length buffer \<and> buffer ! src = CHR ''.'' \<and> buffer ! Suc src = slash
      then skip_dot_slash buffer (src + 2) else src)"
  by pat_completeness auto
termination
  by (relation "measure (\<lambda>(buffer, src). length buffer - src)") auto

declare skip_dot_slash.simps [simp del]

definition normalize :: "string \<Rightarrow> string res" where
  "normalize path =
     rbind (strcpy path_buf path) (\<lambda>s.
     let (buffer, src, dst) = squeeze (s @ [NUL]) 0 0 NUL;
         buffer = strip_trailing buffer (src - 1);
         src = skip_dot_slash buffer 0;
         buffer = buffer[dst := NUL]
     in Inr (cstr (drop src buffer)))"

text \<open>\<^verbatim>\<open>string_endswith\<close>: no result where an argument is missing or the needle is longer.\<close>

definition endswith :: "string option \<Rightarrow> string option \<Rightarrow> bool option" where
  "endswith haystack needle =
     (case (haystack, needle) of
        (Some h, Some n) \<Rightarrow>
          if length h \<ge> length n then Some (drop (length h - length n) h = n) else None
      | _ \<Rightarrow> None)"

end
