(* ===== verification/PathAbsolute.thy ===== *)
theory PathAbsolute
  imports PathCore
begin

section \<open>What getabsolute computes\<close>

text \<open>
  The buffer algorithm of \<^verbatim>\<open>do_getabsolute\<close> against its meaning on lists of path
  components: \<open>canon_parts\<close> is the loop over the tokens, \<open>resolve\<close> the plain resolution of
  \<^verbatim>\<open>.\<close> and \<^verbatim>\<open>..\<close> that it amounts to where no component is a dollar macro.
\<close>

subsection \<open>Lists of components\<close>

definition good_part :: "string \<Rightarrow> bool" where
  "good_part c \<longleftrightarrow> c \<noteq> [] \<and> slash \<notin> set c"

text \<open>The text \<^verbatim>\<open>result\<close> holds in the loop: a slash after every component.\<close>

definition render :: "bool \<Rightarrow> string list \<Rightarrow> string" where
  "render rooted cs = (if rooted then [slash] else []) @ concat (map (\<lambda>c. c @ [slash]) cs)"

text \<open>Without a leading slash the first component stays: it may be a drive or a macro.\<close>

definition pop_part :: "bool \<Rightarrow> string list \<Rightarrow> string list" where
  "pop_part rooted cs = (if rooted \<or> length cs > 1 then butlast cs else cs)"

fun canon_parts :: "bool \<Rightarrow> string list \<Rightarrow> string list \<Rightarrow> string option \<Rightarrow> string list" where
  "canon_parts rooted acc [] prev = acc"
| "canon_parts rooted acc (c # cs) prev =
     (if is_parent_ref c prev then canon_parts rooted (pop_part rooted acc) cs None
      else if c \<noteq> ''.'' then canon_parts rooted (acc @ [c]) cs (Some c)
      else canon_parts rooted acc cs (Some c))"

definition resolve :: "bool \<Rightarrow> string list \<Rightarrow> string \<Rightarrow> string list" where
  "resolve rooted acc c =
     (if c = ''..'' then pop_part rooted acc else if c = ''.'' then acc else acc @ [c])"

lemma render_simps [simp]:
  "render r [] = (if r then [slash] else [])"
  "render r (cs @ [c]) = render r cs @ c @ [slash]"
  by (simp_all add: render_def)

lemma render_last: "render r cs \<noteq> [] \<Longrightarrow> last (render r cs) = slash"
  by (cases cs rule: rev_cases) (simp_all split: if_splits)

lemma render_eq_Nil: "render r cs = [] \<longleftrightarrow> \<not> r \<and> cs = []"
  by (auto simp: render_def)

lemma back_to_slash_skip:
  "slash \<notin> set w \<Longrightarrow> back_to_slash (p @ w @ q) (length p + length w) = back_to_slash (p @ w @ q) (length p)"
proof (induction w arbitrary: q rule: rev_induct)
  case (snoc x w)
  from snoc.prems have "x \<noteq> slash" "slash \<notin> set w" by auto
  moreover from this snoc.IH [of "x # q"]
  have "back_to_slash (p @ w @ x # q) (length p + length w) = back_to_slash (p @ w @ x # q) (length p)"
    by simp
  moreover have "(p @ w @ x # q) ! (length p + length w) = x"
    by (metis append.assoc length_append nth_append_length)
  ultimately show ?case by simp
qed simp

lemma is_parent_ref_dot [simp]: "\<not> is_parent_ref ''.'' prev"
  by (simp add: is_parent_ref_def)

lemma drop_last_part_render:
  assumes "\<forall>c \<in> set cs. good_part c"
  shows "drop_last_part (render r cs) = render r (pop_part r cs)"
proof (cases cs rule: rev_cases)
  case Nil
  then show ?thesis by (simp add: drop_last_part_def pop_part_def)
next
  case (snoc ds c)
  let ?p = "render r ds"
  from snoc assms have c: "slash \<notin> set c" by (simp add: good_part_def)
  have eq: "render r cs = ?p @ c @ [slash]" by (simp add: snoc)
  have bk: "back_to_slash (render r cs) (length (render r cs) - 1) =
      back_to_slash (?p @ c @ [slash]) (length ?p)"
    using back_to_slash_skip [OF c, of ?p "[slash]"] by (simp add: eq)
  show ?thesis
  proof (cases "?p = []")
    case True
    with bk have "drop_last_part (render r cs) = render r cs"
      by (simp add: drop_last_part_def)
    moreover from True have "pop_part r cs = cs"
      by (simp add: pop_part_def snoc render_eq_Nil)
    ultimately show ?thesis by simp
  next
    case False
    then obtain p where p: "?p = p @ [slash]"
      using render_last [OF False] by (metis append_butlast_last_id)
    have "drop_last_part (render r cs) = ?p"
      unfolding drop_last_part_def bk by (simp add: p eq)
    moreover from False have "pop_part r cs = ds"
      by (auto simp: pop_part_def snoc render_eq_Nil)
    ultimately show ?thesis by simp
  qed
qed

subsection \<open>The loop is canon_parts\<close>

lemma strtok_length:
  "strtok ds s = Some (tok, rest) \<Longrightarrow> rest \<noteq> [] \<Longrightarrow> length tok + 1 + length rest \<le> length s"
proof (induction s)
  case (Cons c s)
  show ?case
  proof (cases "c \<in> set ds")
    case False
    have "length (takeWhile (\<lambda>c. c \<notin> set ds) s) + length (dropWhile (\<lambda>c. c \<notin> set ds) s) = length s"
      by (metis length_append takeWhile_dropWhile_id)
    with False Cons.prems show ?thesis by (auto simp: strtok_Cons)
  qed (use Cons in \<open>auto simp: strtok_Cons\<close>)
qed simp

lemma strtok_tok_length: "strtok ds s = Some (tok, rest) \<Longrightarrow> length tok \<le> length s"
proof (induction s)
  case (Cons c s)
  have "length (takeWhile (\<lambda>c. c \<notin> set ds) s) \<le> length s"
    by (rule length_takeWhile_le)
  with Cons show ?case by (auto simp: strtok_Cons split: if_splits)
qed simp

lemma good_parts_tokens: "tok \<in> set (tokens ''/'' s) \<Longrightarrow> good_part tok"
  using tokens_ok [of tok "''/''" s] by (auto simp: good_part_def)

lemma good_parts_pop: "\<forall>c \<in> set cs. good_part c \<Longrightarrow> \<forall>c \<in> set (pop_part r cs). good_part c"
  by (auto simp: pop_part_def dest: in_set_butlastD)

lemma pop_part_length: "length (render r (pop_part r cs)) \<le> length (render r cs)"
  by (cases cs rule: rev_cases) (simp_all add: pop_part_def render_def)

lemma getabs_loop_canon:
  assumes "\<forall>c \<in> set acc. good_part c"
    and "buffer = [] \<or> length (render r acc) + length buffer + 1 < path_buf"
  shows "getabs_loop buffer (render r acc) prev =
         Inr (render r (canon_parts r acc (tokens ''/'' buffer) prev))"
  using assms
proof (induction "length buffer" arbitrary: buffer acc prev rule: less_induct)
  case less
  show ?case
  proof (cases "strtok ''/'' buffer")
    case None
    then show ?thesis by (simp add: getabs_loop.simps tokens.simps)
  next
    case (Some p)
    obtain ch rest where st: "strtok ''/'' buffer = Some (ch, rest)" using Some by (cases p) auto
    then have ne: "buffer \<noteq> []" by auto
    with less.prems have fit: "length (render r acc) + length buffer + 1 < path_buf" by simp
    have sh: "length rest < length buffer" by (rule strtok_shorter [OF st])
    have len: "length ch \<le> length buffer" by (rule strtok_tok_length [OF st])
    have len2: "rest = [] \<or> length ch + 1 + length rest \<le> length buffer"
      using strtok_length [OF st] by blast
    have good: "good_part ch"
      using strtok_token [OF st] by (auto simp: good_part_def)
    have tk: "tokens ''/'' buffer = ch # tokens ''/'' rest"
      by (subst tokens.simps) (simp add: st)
    have pop: "getabs_loop rest (drop_last_part (render r acc)) None =
        Inr (render r (canon_parts r (pop_part r acc) (tokens ''/'' rest) None))"
      using less.prems(1) fit sh pop_part_length [of r acc]
      by (subst drop_last_part_render) (auto intro!: less.hyps good_parts_pop)
    have snoc: "getabs_loop rest (render r (acc @ [ch])) (Some ch) =
        Inr (render r (canon_parts r (acc @ [ch]) (tokens ''/'' rest) (Some ch)))"
      using less.prems(1) good fit len2 sh by (intro less.hyps) auto
    have skip: "getabs_loop rest (render r acc) (Some ch) =
        Inr (render r (canon_parts r acc (tokens ''/'' rest) (Some ch)))"
      using less.prems(1) fit sh by (intro less.hyps) auto
    show ?thesis
      by (subst getabs_loop.simps)
        (use pop snoc skip fit len in \<open>auto simp: st tk strcat_def\<close>)
  qed
qed

lemma getabs_loop_slash: "getabs_loop (slash # b) result prev = getabs_loop b result prev"
  by (subst (1 2) getabs_loop.simps) (simp add: strtok_Cons)

lemma getabs_loop_start:
  assumes "length buffer + 1 < path_buf"
  shows "getabs_loop buffer (if char_at buffer 0 = slash then ''/'' else '''') None =
    (let rooted = (char_at buffer 0 = slash)
     in Inr (render rooted (canon_parts rooted [] (tokens ''/'' buffer) None)))"
proof (cases "char_at buffer 0 = slash")
  case True
  then obtain b where b: "buffer = slash # b" by (cases buffer) auto
  have "getabs_loop b (render True []) None = Inr (render True (canon_parts True [] (tokens ''/'' b) None))"
    using assms by (intro getabs_loop_canon) (auto simp: b)
  with True b show ?thesis by (simp add: getabs_loop_slash tokens_delim)
next
  case False
  have "getabs_loop buffer (render False []) None =
      Inr (render False (canon_parts False [] (tokens ''/'' buffer) None))"
    using assms by (intro getabs_loop_canon) auto
  with False show ?thesis by simp
qed

lemma do_getabsolute_canon:
  assumes "getabs_input g v rel = Inr buffer" "length buffer + 1 < path_buf"
    and "cs = canon_parts (char_at buffer 0 = slash) [] (tokens ''/'' buffer) None"
  shows "do_getabsolute g v rel =
     (if cs = [] \<and> char_at buffer 0 \<noteq> slash then Inl UndefinedAccess
      else Inr (butlast (render (char_at buffer 0 = slash) cs)))"
proof -
  let ?r = "char_at buffer 0 = slash"
  have "do_getabsolute g v rel = strip_last_slash (render ?r cs)"
    unfolding do_getabsolute_def assms(1) rbind_simps getabs_loop_start [OF assms(2)]
    by (simp add: assms(3) Let_def)
  then show ?thesis
    using render_last [of ?r cs] by (auto simp: strip_last_slash_def render_eq_Nil)
qed

subsection \<open>Without macros: plain resolution\<close>

lemma canon_parts_resolve:
  assumes "\<forall>c \<in> set cs. char_at c 0 \<noteq> CHR ''$''"
    and "case prev of None \<Rightarrow> True | Some p \<Rightarrow> char_at p 0 \<noteq> CHR ''$'' \<and> p \<noteq> ''..''"
  shows "canon_parts r acc cs prev = foldl (resolve r) acc cs"
  using assms
proof (induction cs arbitrary: acc prev)
  case (Cons c cs)
  have "is_parent_ref c prev \<longleftrightarrow> c = ''..''"
    using Cons.prems(2) by (auto simp: is_parent_ref_def)
  with Cons show ?case by (auto simp: resolve_def)
qed simp

text \<open>
  C1: \<^verbatim>\<open>do_getabsolute\<close> is the textbook resolution of a path: where no component starts
  with a dollar sign and the text to normalise leaves room for one byte more, its buffer algorithm
  returns the components left after resolving every \<^verbatim>\<open>.\<close> and \<^verbatim>\<open>..\<close>, joined by
  single slashes; it reads outside its result exactly when a relative text resolves to nothing.
\<close>

theorem do_getabsolute_resolves:
  assumes "getabs_input g v rel = Inr buffer" and "length buffer + 1 < path_buf"
    and "\<forall>c \<in> set (tokens ''/'' buffer). char_at c 0 \<noteq> CHR ''$''"
  shows "do_getabsolute g v rel =
     (let rooted = (char_at buffer 0 = slash);
          cs = foldl (resolve rooted) [] (tokens ''/'' buffer)
      in if cs = [] \<and> \<not> rooted then Inl UndefinedAccess
         else Inr (butlast (render rooted cs)))"
proof -
  have "canon_parts r [] (tokens ''/'' buffer) None = foldl (resolve r) [] (tokens ''/'' buffer)" for r
    by (rule canon_parts_resolve) (use assms(3) in simp_all)
  with do_getabsolute_canon [OF assms(1,2) refl] show ?thesis
    by (simp only: Let_def)
qed

lemma char_at_append [simp]: "i < length s \<Longrightarrow> char_at (s @ t) i = char_at s i"
  by (simp add: char_at_def nth_append)

text \<open>Evaluation of the model on concrete texts.\<close>

lemmas path_eval =
  do_isabsolute_def do_translate_def getabs_input_def strcpy_def strcat_def path_buf_def
  tokens.simps strtok_def getabs_loop.simps is_parent_ref_def drop_last_part_def
  do_getabsolute_def strip_last_slash_def

theorem do_getabsolute_resolves_witness:
  "do_getabsolute (\<lambda>n. (True, ''/home/me'')) ''../lib/./x/..'' None = Inr ''/home/lib''"
proof -
  let ?g = "\<lambda>n::nat. (True, ''/home/me'')"
  let ?b = "''/home/me/../lib/./x/..''"
  have b: "getabs_input ?g ''../lib/./x/..'' None = Inr ?b" "length ?b + 1 < path_buf"
    "(char_at ?b 0 = slash) = True"
    by (simp_all add: path_eval)
  have tk: "tokens ''/'' ?b = [''home'', ''me'', ''..'', ''lib'', ''.'', ''x'', ''..'']"
    by code_simp
  have "\<forall>c \<in> set (tokens ''/'' ?b). char_at c 0 \<noteq> CHR ''$''"
    unfolding tk by simp
  from do_getabsolute_resolves [OF b(1,2) this] show ?thesis
    unfolding tk b(3) by (simp add: resolve_def pop_part_def render_def)
qed

subsection \<open>Canonical texts\<close>

text \<open>
  What every returned text looks like: components without slashes and backslashes, no
  \<^verbatim>\<open>.\<close>, and a \<^verbatim>\<open>..\<close> only where the loop would keep it (after a macro or another
  kept \<^verbatim>\<open>..\<close>).
\<close>

fun dots_ok :: "string option \<Rightarrow> string list \<Rightarrow> bool" where
  "dots_ok prev [] = True"
| "dots_ok prev (c # cs) \<longleftrightarrow> c \<noteq> ''.'' \<and> \<not> is_parent_ref c prev \<and> dots_ok (Some c) cs"

definition canonical :: "string list \<Rightarrow> bool" where
  "canonical cs \<longleftrightarrow> (\<forall>c \<in> set cs. good_part c \<and> backslash \<notin> set c) \<and> dots_ok None cs"

definition last_part :: "string option \<Rightarrow> string list \<Rightarrow> string option" where
  "last_part prev cs = (if cs = [] then prev else Some (last cs))"

lemma dots_ok_snoc:
  "dots_ok prev (cs @ [c]) \<longleftrightarrow>
     dots_ok prev cs \<and> c \<noteq> ''.'' \<and> \<not> is_parent_ref c (last_part prev cs)"
  by (induction cs arbitrary: prev) (auto simp: last_part_def)

lemma dots_ok_butlast: "dots_ok prev cs \<Longrightarrow> dots_ok prev (butlast cs)"
  by (cases cs rule: rev_cases) (simp_all add: dots_ok_snoc)

lemma dots_ok_pop: "dots_ok prev cs \<Longrightarrow> dots_ok prev (pop_part r cs)"
  by (simp add: pop_part_def dots_ok_butlast)

lemma canon_parts_dots_ok:
  assumes "dots_ok None acc"
    and "prev = None \<or> prev = Some ''.'' \<or> (acc \<noteq> [] \<and> prev = Some (last acc))"
  shows "dots_ok None (canon_parts r acc cs prev)"
  using assms
proof (induction cs arbitrary: acc prev)
  case (Cons c cs)
  show ?case
  proof (cases "is_parent_ref c prev \<or> c = ''.''")
    case True
    with Cons show ?thesis by (auto simp: dots_ok_pop is_parent_ref_def)
  next
    case False
    then have "\<not> is_parent_ref c (last_part None acc)"
      using Cons.prems(2)
      by (auto simp: last_part_def is_parent_ref_def split: option.splits)
    with False Cons show ?thesis by (simp add: dots_ok_snoc)
  qed
qed simp

lemma canon_parts_set: "c \<in> set (canon_parts r acc cs prev) \<Longrightarrow> c \<in> set acc \<union> set cs"
proof (induction cs arbitrary: acc prev)
  case (Cons d cs)
  have "set (pop_part r acc) \<subseteq> set acc"
    by (auto simp: pop_part_def dest: in_set_butlastD)
  with Cons.prems Cons.IH [of "pop_part r acc" None] Cons.IH [of "acc @ [d]" "Some d"]
    Cons.IH [of acc "Some d"]
  show ?case by (auto split: if_splits)
qed simp

text \<open>A canonical list goes through the loop unchanged.\<close>

lemma canon_parts_fixed: "dots_ok prev cs \<Longrightarrow> canon_parts r acc cs prev = acc @ cs"
  by (induction cs arbitrary: acc prev) auto

lemma getabs_loop_Inr:
  assumes "getabs_loop buffer (render r acc) prev = Inr x" and "\<forall>c \<in> set acc. good_part c"
  shows "x = render r (canon_parts r acc (tokens ''/'' buffer) prev)"
  using assms
proof (induction "length buffer" arbitrary: buffer acc prev rule: less_induct)
  case less
  show ?case
  proof (cases "strtok ''/'' buffer")
    case None
    with less.prems show ?thesis by (simp add: getabs_loop.simps tokens.simps)
  next
    case (Some p)
    obtain ch rest where st: "strtok ''/'' buffer = Some (ch, rest)" using Some by (cases p) auto
    have tk: "tokens ''/'' buffer = ch # tokens ''/'' rest"
      by (subst tokens.simps) (simp add: st)
    have good: "\<forall>c \<in> set (acc @ [ch]). good_part c"
      using less.prems(2) strtok_token [OF st] by (auto simp: good_part_def)
    have step: "(if is_parent_ref ch prev then getabs_loop rest (render r (pop_part r acc)) None
        else if ch \<noteq> ''.'' then getabs_loop rest (render r (acc @ [ch])) (Some ch)
        else getabs_loop rest (render r acc) (Some ch)) = Inr x"
      using less.prems(1) unfolding getabs_loop.simps [of buffer] st
      by (auto simp: drop_last_part_render [OF less.prems(2)] strcat_def split: if_splits)
    note IH = less.hyps [OF strtok_shorter [OF st]]
    consider "is_parent_ref ch prev" | "\<not> is_parent_ref ch prev" "ch \<noteq> ''.''"
      | "\<not> is_parent_ref ch prev" "ch = ''.''" by blast
    then show ?thesis
    proof cases
      case 1
      with step IH [of "pop_part r acc" None] good_parts_pop [OF less.prems(2)]
      show ?thesis by (simp add: tk)
    next
      case 2
      with step IH [OF _ good] show ?thesis by (simp add: tk)
    next
      case 3
      with step IH [OF _ less.prems(2), of "Some ch"] show ?thesis by (simp add: tk)
    qed
  qed
qed

lemma tokens_render: "\<forall>c \<in> set cs. good_part c \<Longrightarrow> tokens ''/'' (render r cs) = cs"
proof (induction cs arbitrary: r)
  case (Cons c cs)
  then have "tokens ''/'' (c @ slash # render False cs) = c # cs"
    by (subst tokens_word) (auto simp: good_part_def)
  moreover have "render r (c # cs) = (if r then [slash] else []) @ c @ slash # render False cs"
    by (simp add: render_def)
  ultimately show ?case by (simp add: tokens_delim)
qed (simp add: tokens_delim)

lemma tokens_append_word:
  assumes "good_part c" "\<forall>d \<in> set cs. good_part d"
  shows "tokens ''/'' (render r cs @ c) = cs @ [c]"
  using assms(2)
proof (induction cs arbitrary: r)
  case Nil
  have "tokens ''/'' c = [c]"
    using assms(1) by (intro tokens_last_word) (auto simp: good_part_def)
  then show ?case by (simp add: tokens_delim)
next
  case (Cons d cs)
  then have "tokens ''/'' (d @ slash # (render False cs @ c)) = d # cs @ [c]"
    by (subst tokens_word) (auto simp: good_part_def)
  moreover have "render r (d # cs) @ c = (if r then [slash] else []) @ d @ slash # (render False cs @ c)"
    by (simp add: render_def)
  ultimately show ?case by (simp add: tokens_delim)
qed

text \<open>The text the function returns for a list of components.\<close>

definition path_text :: "bool \<Rightarrow> string list \<Rightarrow> string" where
  "path_text r cs = butlast (render r cs)"

lemma path_text_snoc: "path_text r (cs @ [c]) = render r cs @ c"
  by (simp add: path_text_def butlast_append)

lemma render_path_text: "r \<or> cs \<noteq> [] \<Longrightarrow> render r cs = path_text r cs @ [slash]"
  using render_last [of r cs] by (metis append_butlast_last_id path_text_def render_eq_Nil)

lemma tokens_path_text:
  assumes "\<forall>c \<in> set cs. good_part c" shows "tokens ''/'' (path_text r cs) = cs"
proof (cases cs rule: rev_cases)
  case (snoc ds c)
  with assms show ?thesis by (simp add: path_text_snoc tokens_append_word)
qed (simp add: path_text_def)

lemma char_at_path_text:
  assumes "\<forall>c \<in> set cs. good_part c" "path_text r cs \<noteq> []"
  shows "(char_at (path_text r cs) 0 = slash) = r"
proof (cases cs)
  case Nil
  with assms(2) show ?thesis by (simp add: path_text_def)
next
  case (Cons c ds)
  with assms(1) have "c \<noteq> []" "slash \<notin> set c" by (auto simp: good_part_def)
  then obtain x c' where c: "c = x # c'" "x \<noteq> slash" by (cases c) auto
  have "render r cs = (if r then slash # x # c' else x # c') @ slash # render False ds"
    by (simp add: render_def Cons c)
  then show ?thesis
    using c by (simp add: path_text_def butlast_append)
qed

lemma no_backslash_translate: "backslash \<notin> set (do_translate s slash)"
  by (auto simp: do_translate_def)

lemma do_translate_id: "backslash \<notin> set s \<Longrightarrow> do_translate s slash = s"
  by (induction s) (auto simp: do_translate_def)

lemma strtok_subset: "strtok ds s = Some (t, r) \<Longrightarrow> set t \<subseteq> set s \<and> set r \<subseteq> set s"
  by (induction s) (auto simp: strtok_Cons split: if_splits
      dest!: set_takeWhileD in_set_dropD set_dropWhileD)

lemma set_tokens_subset: "tok \<in> set (tokens ds s) \<Longrightarrow> set tok \<subseteq> set s"
proof (induction ds s rule: tokens.induct)
  case (1 ds s)
  show ?case
  proof (cases "strtok ds s")
    case None
    with "1.prems" show ?thesis by (simp add: tokens.simps)
  next
    case (Some p)
    obtain t r where st: "strtok ds s = Some (t, r)" using Some by (cases p) auto
    have "tok = t \<or> tok \<in> set (tokens ds r)"
      using "1.prems" by (subst (asm) tokens.simps) (simp add: st)
    then show ?thesis using "1.IH" st strtok_subset [OF st] by blast
  qed
qed

lemma do_getabsolute_canonical:
  assumes "do_getabsolute g v rel = Inr t"
  obtains r cs where "canonical cs" "t = path_text r cs"
proof -
  from assms obtain b x where b: "getabs_input g v rel = Inr b"
    and x: "getabs_loop b (if char_at b 0 = slash then ''/'' else '''') None = Inr x"
    and t: "strip_last_slash x = Inr t"
    by (auto simp: do_getabsolute_def rbind_eq_Inr)
  let ?r = "char_at b 0 = slash" and ?cs = "canon_parts (char_at b 0 = slash) [] (tokens ''/'' b) None"
  from x have "getabs_loop b (render ?r []) None = Inr x" by simp
  from getabs_loop_Inr [OF this] have xr: "x = render ?r ?cs" by simp
  have "backslash \<notin> set b"
    using b by (auto simp: getabs_input_def rbind_eq_Inr no_backslash_translate)
  then have "\<forall>c \<in> set ?cs. good_part c \<and> backslash \<notin> set c"
    using canon_parts_set [of _ ?r "[]" "tokens ''/'' b" None]
    by (auto dest: good_parts_tokens set_tokens_subset)
  then have "canonical ?cs"
    by (simp add: canonical_def canon_parts_dots_ok)
  moreover have "t = path_text ?r ?cs"
    using t render_last [of ?r ?cs] by (auto simp: strip_last_slash_def xr path_text_def split: if_splits)
  ultimately show thesis by (rule that)
qed

subsection \<open>Properties\<close>

lemma path_text_no_backslash:
  "\<forall>c \<in> set cs. backslash \<notin> set c \<Longrightarrow> backslash \<notin> set (path_text r cs)"
  by (auto simp: path_text_def render_def dest: in_set_butlastD split: if_splits)

lemma canonical_path_text:
  assumes "canonical cs" "path_text r cs \<noteq> []" "length (path_text r cs) + 1 < path_buf"
    and "do_isabsolute (path_text r cs)"
  shows "do_getabsolute g (path_text r cs) rel = Inr (path_text r cs)"
proof -
  let ?t = "path_text r cs"
  have good: "\<forall>c \<in> set cs. good_part c" and bs: "\<forall>c \<in> set cs. backslash \<notin> set c"
    and dots: "dots_ok None cs" using assms(1) by (auto simp: canonical_def)
  have "getabs_input g ?t rel = Inr ?t"
    using assms(3,4) do_translate_id [OF path_text_no_backslash [OF bs]]
    by (simp add: getabs_input_def strcat_def)
  from do_getabsolute_canon [OF this assms(3) refl]
  have "do_getabsolute g ?t rel =
      (if cs = [] \<and> \<not> r then Inl UndefinedAccess else Inr (path_text r cs))"
    unfolding tokens_path_text [OF good] char_at_path_text [OF good assms(2)]
      canon_parts_fixed [OF dots] append_Nil by (simp add: path_text_def)
  moreover have "\<not> (cs = [] \<and> \<not> r)" using assms(2) by (auto simp: path_text_def)
  ultimately show ?thesis by (simp only: if_False)
qed

text \<open>
  C3: \<^verbatim>\<open>do_getabsolute\<close> is idempotent: a non-empty absolute result, made absolute again
  against any directory, is itself, macros and kept \<^verbatim>\<open>..\<close> included.
\<close>

theorem do_getabsolute_idempotent:
  assumes "do_getabsolute g v rel = Inr t" and "t \<noteq> []" and "do_isabsolute t"
    and "length t + 1 < path_buf"
  shows "do_getabsolute g' t rel' = Inr t"
proof -
  from assms(1) obtain r cs where "canonical cs" "t = path_text r cs"
    by (rule do_getabsolute_canonical)
  with canonical_path_text assms(2-4) show ?thesis by blast
qed

theorem do_getabsolute_idempotent_witness:
  "do_getabsolute (\<lambda>n. (True, [])) ''$(SDK)/..'' (Some ''/x'') = Inr ''$(SDK)/..''"
proof -
  have "do_getabsolute (\<lambda>n. (True, ''/a'')) ''$(SDK)/../b/./..'' None = Inr ''$(SDK)/..''"
    by (simp add: path_eval)
  then show ?thesis
    by (rule do_getabsolute_idempotent) (simp_all add: path_eval)
qed

lemma drop_last_part_length: "length (drop_last_part r) \<le> length r"
  by (auto simp: drop_last_part_def split: option.split)

lemma getabs_loop_fits:
  "getabs_loop buffer result prev = Inr r \<Longrightarrow> length result < path_buf \<Longrightarrow> length r < path_buf"
proof (induction buffer result prev rule: getabs_loop.induct)
  case (1 buffer result prev)
  show ?case
  proof (cases "strtok ''/'' buffer")
    case None
    then show ?thesis using "1.prems" by (subst (asm) getabs_loop.simps) simp
  next
    case (Some p)
    obtain ch rest where p: "p = (ch, rest)" by fastforce
    note s = Some [unfolded p]
    consider "is_parent_ref ch prev" | "\<not> is_parent_ref ch prev" "ch = ''.''" | "\<not> is_parent_ref ch prev" "ch \<noteq> ''.''" by blast
    then show ?thesis
    proof cases
      case 1
      then show ?thesis using "1.IH"(1) [OF s refl] "1.prems" drop_last_part_length [of result] s
        by (subst (asm) getabs_loop.simps) simp
    next
      case 2
      then show ?thesis using "1.IH"(3) [OF s refl] "1.prems" s by (subst (asm) getabs_loop.simps) simp
    next
      case 3
      obtain r1 r2 where r: "strcat path_buf result ch = Inr r1" "strcat path_buf r1 ''/'' = Inr r2" "getabs_loop rest r2 (Some ch) = Inr r"
        using "1.prems"(1) s 3 by (subst (asm) getabs_loop.simps) (auto simp: rbind_eq_Inr)
      then have "length r2 < path_buf" by (auto simp: strcat_def split: if_splits)
      with "1.IH"(2) [OF s refl 3(1,2) r] show ?thesis .
    qed
  qed
qed

lemma canon_parts_empty:
  assumes "case prev of None \<Rightarrow> True | Some p \<Rightarrow> p = ''.''"
  shows "canon_parts False [] cs prev = [] \<longleftrightarrow> set cs \<subseteq> {''.'', ''..''}"
proof -
  have keep: "canon_parts False acc cs prev \<noteq> []" if "acc \<noteq> []" for acc cs prev
    using that
  proof (induction cs arbitrary: acc prev)
    case (Cons c cs)
    have "pop_part False acc \<noteq> []" using Cons.prems by (cases acc rule: rev_cases) (auto simp: pop_part_def)
    then show ?case using Cons by simp
  qed simp
  show ?thesis using assms
  proof (induction cs arbitrary: prev)
    case (Cons c cs)
    then have "is_parent_ref c prev \<longleftrightarrow> c = ''..''" by (auto simp: is_parent_ref_def char_at_def split: option.splits)
    then show ?case using Cons.IH [of None] Cons.IH [of "Some ''.''"] keep [of "[c]" cs "Some c"]
      by (auto simp: pop_part_def)
  qed simp
qed

text \<open>
  C4: \<^verbatim>\<open>do_getabsolute\<close> stays inside its buffers, with one exception. For a text to normalise that is two bytes
  shorter than the buffer, it returns a result that fits the caller's array, without a read or a write outside
  of its arrays on the way, if and only if the text is absolute or has a component besides \<^verbatim>\<open>.\<close> and \<^verbatim>\<open>..\<close>.
  Otherwise nothing is left of the text, and the code reads before the start of the empty result.
\<close>

theorem do_getabsolute_in_bounds:
  assumes "getabs_input g v rel = Inr buffer" and "length buffer + 1 < path_buf"
  shows "(\<exists>t. do_getabsolute g v rel = Inr t \<and> length t < path_buf) \<longleftrightarrow>
     char_at buffer 0 = slash \<or> \<not> set (tokens ''/'' buffer) \<subseteq> {''.'', ''..''}"
proof -
  have "length t < path_buf" if t: "do_getabsolute g v rel = Inr t" for t
  proof -
    obtain r where r: "getabs_loop buffer (if char_at buffer 0 = slash then ''/'' else '''') None = Inr r" "strip_last_slash r = Inr t"
      using t unfolding do_getabsolute_def assms(1) rbind_simps rbind_eq_Inr by blast
    have "length r < path_buf" by (rule getabs_loop_fits [OF r(1)]) (simp add: path_buf_def)
    then show ?thesis using r(2) by (auto simp: strip_last_slash_def split: if_splits)
  qed
  moreover have "(\<exists>t. do_getabsolute g v rel = Inr t) \<longleftrightarrow>
      char_at buffer 0 = slash \<or> canon_parts False [] (tokens ''/'' buffer) None \<noteq> []"
  proof -
    have "(\<exists>t. x = Inr t) \<longleftrightarrow> \<not> A" if "x = (if A then Inl UndefinedAccess else Inr z)" for x :: "string res" and A z using that by simp
    from this [OF do_getabsolute_canon [OF assms refl]] show ?thesis by (cases "char_at buffer 0 = slash") simp_all
  qed
  moreover have "canon_parts False [] (tokens ''/'' buffer) None = [] \<longleftrightarrow> set (tokens ''/'' buffer) \<subseteq> {''.'', ''..''}"
    by (rule canon_parts_empty) simp
  ultimately show ?thesis by blast
qed

theorem do_getabsolute_in_bounds_witness:
  "(\<exists>t. do_getabsolute (\<lambda>n. (True, ''/'')) ''../../..'' None = Inr t \<and> length t < path_buf) \<and>
   \<not> (\<exists>t. do_getabsolute (\<lambda>n. (True, ''/'')) ''.'' (Some ''.'') = Inr t \<and> length t < path_buf)"
proof
  have "getabs_input (\<lambda>n. (True, ''/'')) ''../../..'' None = Inr ''//../../..''" by (simp add: path_eval)
  from do_getabsolute_in_bounds [OF this]
  show "\<exists>t. do_getabsolute (\<lambda>n. (True, ''/'')) ''../../..'' None = Inr t \<and> length t < path_buf"
    by (simp add: path_buf_def char_at_def)
  have "getabs_input (\<lambda>n. (True, ''/'')) ''.'' (Some ''.'') = Inr ''./.''" by (simp add: path_eval)
  then show "\<not> (\<exists>t. do_getabsolute (\<lambda>n. (True, ''/'')) ''.'' (Some ''.'') = Inr t \<and> length t < path_buf)"
  proof -
    have "tokens ''/'' ''./.'' = [''.'', ''.'']" by code_simp
    then show ?thesis using do_getabsolute_in_bounds [OF \<open>getabs_input _ ''.'' _ = _\<close>] by (simp add: path_buf_def char_at_def)
  qed
qed

text \<open>
  C5: the bound of two bytes is exact. An absolute path of 0x3FFF bytes fits the buffer it is copied to, but the
  slash the loop puts after the last component does not fit the result: its terminating zero is
  written one byte past the end of the caller's array.
\<close>

theorem do_getabsolute_off_by_one:
  "length (slash # replicate (path_buf - 2) CHR ''a'') < path_buf \<and>
   do_getabsolute g (slash # replicate (path_buf - 2) CHR ''a'') rel = Inl BufferOverflow"
proof -
  let ?w = "replicate (path_buf - 2) CHR ''a''"
  have ne: "?w \<noteq> []" by (simp add: path_buf_def)
  have "do_translate (slash # ?w) slash = slash # ?w"
    by (rule do_translate_id) auto
  then have inp: "getabs_input g (slash # ?w) rel = Inr (slash # ?w)"
    by (simp add: getabs_input_def do_isabsolute_def strcat_def path_buf_def)
  have "takeWhile (\<lambda>c. c \<noteq> slash) ?w = ?w" "dropWhile (\<lambda>c. c = slash) ?w = ?w"
    "dropWhile (\<lambda>c. c \<noteq> slash) ?w = []"
    by (simp_all add: takeWhile_eq_all_conv dropWhile_eq_self_iff)
  with ne have "strtok ''/'' ?w = Some (?w, [])"
    by (simp add: strtok_def)
  moreover have "length ?w \<noteq> length ''.''" "length ?w \<noteq> length ''..''"
    by (simp_all add: path_buf_def)
  then have "?w \<noteq> ''.''" "?w \<noteq> ''..''" by metis+
  ultimately have "getabs_loop ?w ''/'' None = Inl BufferOverflow"
    by (subst getabs_loop.simps) (simp add: is_parent_ref_def strcat_def path_buf_def)
  with inp have "do_getabsolute g (slash # ?w) rel = Inl BufferOverflow"
    by (simp add: do_getabsolute_def getabs_loop_slash)
  then show ?thesis by (simp add: path_buf_def)
qed


end
