(* ===== verification/PathRelative.thy ===== *)
theory PathRelative
  imports PathAbsolute
begin

section \<open>What getrelative computes\<close>

text \<open>
  \<^verbatim>\<open>path_getrelative\<close> compares two normalised texts character by character; its meaning is
  on lists of components: \<^verbatim>\<open>..\<close> for every component of the source after the common ones, then
  the components of the target after the common ones.
\<close>

subsection \<open>The common components\<close>

fun split_common :: "string list \<Rightarrow> string list \<Rightarrow> string list \<times> string list \<times> string list" where
  "split_common (a # ss) (b # ds) =
     (if a = b then (case split_common ss ds of (ps, xs, ys) \<Rightarrow> (a # ps, xs, ys))
      else ([], a # ss, b # ds))"
| "split_common ss ds = ([], ss, ds)"

definition apart :: "string list \<Rightarrow> string list \<Rightarrow> bool" where
  "apart xs ys \<longleftrightarrow> xs = [] \<or> ys = [] \<or> hd xs \<noteq> hd ys"

lemma split_common_correct:
  "split_common ss ds = (ps, xs, ys) \<Longrightarrow> ss = ps @ xs \<and> ds = ps @ ys \<and> apart xs ys"
  by (induction ss ds arbitrary: ps xs ys rule: split_common.induct)
    (auto simp: apart_def split: if_splits prod.splits)

lemma common_prefix_exists: "\<exists>ps xs ys. ss = ps @ xs \<and> ds = ps @ ys \<and> apart xs ys"
  using split_common_correct [of ss ds] by (metis prod_cases3)

lemma render_append: "render r (ps @ xs) = render r ps @ render False xs"
  by (simp add: render_def)

lemma last_common_slash_apart_words:
  "slash \<notin> set c \<Longrightarrow> slash \<notin> set d \<Longrightarrow> c \<noteq> d \<Longrightarrow>
     last_common_slash (c @ slash # x) (d @ slash # y) i l = l"
proof (induction c arbitrary: d i)
  case Nil
  then show ?case by (cases d) auto
next
  case (Cons a c)
  then show ?case by (cases d) auto
qed

lemma last_common_slash_apart:
  assumes "\<forall>c \<in> set xs. good_part c" "\<forall>c \<in> set ys. good_part c" "apart xs ys"
  shows "last_common_slash (render False xs) (render False ys) i l = l"
proof (cases "xs = [] \<or> ys = []")
  case True
  then show ?thesis by (cases "render False xs") auto
next
  case False
  then obtain c cs d ds where xy: "xs = c # cs" "ys = d # ds" by (cases xs; cases ys) auto
  with assms have "slash \<notin> set c" "slash \<notin> set d" "c \<noteq> d"
    by (auto simp: good_part_def apart_def)
  then show ?thesis
    using last_common_slash_apart_words by (simp add: xy render_def)
qed

lemma last_common_slash_same:
  "last_common_slash (p @ x) (p @ y) i l =
     last_common_slash x y (i + length p)
       (case strrchr p slash of Some k \<Rightarrow> int i + int k | None \<Rightarrow> l)"
  by (induction p arbitrary: i l) (auto split: option.splits simp: algebra_simps)

lemma strrchr_snoc [simp]: "strrchr (p @ [c]) c = Some (length p)"
  by (induction p) auto

text \<open>The position of the last slash in the common part, and -1 where there is none.\<close>

lemma last_common_slash_render:
  assumes "\<forall>c \<in> set (ps @ xs). good_part c" "\<forall>c \<in> set (ps @ ys). good_part c" "apart xs ys"
  shows "last_common_slash (render r (ps @ xs)) (render r (ps @ ys)) 0 (-1) =
         int (length (render r ps)) - 1"
proof -
  have "last_common_slash (render r (ps @ xs)) (render r (ps @ ys)) 0 (-1) =
      (case strrchr (render r ps) slash of Some k \<Rightarrow> int k | None \<Rightarrow> -1)"
    unfolding render_append last_common_slash_same
    using assms by (subst last_common_slash_apart) (auto split: option.splits)
  also have "\<dots> = int (length (render r ps)) - 1"
  proof (cases "render r ps = []")
    case False
    then obtain p where "render r ps = p @ [slash]"
      using render_last [OF False] by (metis append_butlast_last_id)
    then show ?thesis by simp
  qed simp
  finally show ?thesis .
qed

lemma count_slashes_append: "count_slashes (s @ t) = count_slashes s + count_slashes t"
  by (induction s) auto

lemma count_slashes_none: "slash \<notin> set s \<Longrightarrow> count_slashes s = 0"
  by (induction s) auto

lemma count_slashes_render: "\<forall>c \<in> set xs. good_part c \<Longrightarrow> count_slashes (render False xs) = length xs"
  by (induction xs) (auto simp: render_def count_slashes_append count_slashes_none good_part_def)

lemma back_out_Inr:
  "back_out n s = Inr t \<Longrightarrow> t = s @ concat (replicate n ''../'')"
proof (induction n arbitrary: s)
  case (Suc n)
  then have "back_out n (s @ ''../'') = Inr t"
    by (auto simp: rbind_eq_Inr strcat_def split: if_splits)
  from Suc.IH [OF this] show ?case by simp
qed simp

lemma back_out_render: "concat (replicate n ''../'') = render False (replicate n ''..'')"
  by (induction n) (auto simp: render_def)

subsection \<open>The relative text\<close>

text \<open>
  Every result for two canonical absolute texts: the target itself where only the root is common,
  otherwise the text of the components described above.
\<close>

lemma getrelative_cases:
  assumes src: "do_getabsolute g p1 None = Inr (path_text True ss)"
    and dst: "do_getabsolute g p2 None = Inr (path_text True ds)"
    and good: "\<forall>c \<in> set ss \<union> set ds. good_part c"
    and ne: "path_text True ss \<noteq> path_text True ds" "path_text True ds \<noteq> []"
    and r: "getrelative g p1 p2 = Inr t"
  obtains (absolute) "t = path_text True ds"
  | (relative) ps xs ys where "ss = ps @ xs" "ds = ps @ ys" "apart xs ys" "ps \<noteq> []"
      "t = path_text False (replicate (length xs) ''..'' @ ys)"
proof -
  obtain ps xs ys where sp: "ss = ps @ xs" "ds = ps @ ys" "apart xs ys"
    using common_prefix_exists by blast
  have R: "path_text True zs @ ''/'' = render True zs" for zs
    by (simp add: render_path_text)
  have nd: "char_at (path_text True ds) 0 \<noteq> CHR ''$''"
    using char_at_path_text [of ds True] good ne(2) by auto
  let ?last = "int (length (render True ps)) - 1"
  have lst: "last_common_slash (render True ss) (render True ds) 0 (-1) = ?last"
    using last_common_slash_render [of ps xs ys True] good sp by simp
  have L: "nat ?last + 1 = length (render True ps)"
    by (simp add: render_def)
  have drops: "drop (nat ?last + 1) (render True ss) = render False xs"
    "drop (nat ?last + 1) (render True ds) = render False ys"
    unfolding L by (simp_all add: sp render_append)
  have cnt: "count_slashes (render False xs) = length xs"
    using good sp by (intro count_slashes_render) auto
  have step: "(if ?last \<le> 0 \<or> ?last = 2 \<and> char_at (render True ss) 1 = CHR '':''
      then Inr (butlast (render True ds))
      else rbind (back_out (length xs) '''') (\<lambda>u. rbind (strcat path_buf u (render False ys)) (\<lambda>v.
        if v = [] then Inl UndefinedAccess else Inr (butlast v)))) = Inr t"
  proof -
    from r ne(1) nd obtain u v where "strcat path_buf (path_text True ss) ''/'' = Inr u"
      and "strcat path_buf (path_text True ds) ''/'' = Inr v"
      and F: "(let lst = last_common_slash u v 0 (-1)
       in if lst \<le> 0 \<or> (lst = 2 \<and> char_at u 1 = CHR '':'') then Inr (butlast v)
          else
            rbind (back_out (count_slashes (drop (nat lst + 1) u)) '''') (\<lambda>src.
            rbind (strcat path_buf src (drop (nat lst + 1) v)) (\<lambda>src.
            if src = [] then Inl UndefinedAccess else Inr (butlast src)))) = Inr t"
      unfolding getrelative_def src dst rbind_simps by (simp only: if_False) (simp only: rbind_eq_Inr, blast)
    then have "u = render True ss" "v = render True ds"
      by (simp_all add: strcat_def R split: if_splits)
    with F show ?thesis by (simp only: lst drops cnt Let_def)
  qed
  show thesis
  proof (cases "?last \<le> 0 \<or> ?last = 2 \<and> char_at (render True ss) 1 = CHR '':''")
    case True
    with step have "t = path_text True ds" by (simp add: path_text_def)
    then show thesis by (rule absolute)
  next
    case False
    then have "ps \<noteq> []" by auto
    from False step obtain u where "back_out (length xs) '''' = Inr u"
      and "t = butlast (u @ render False ys)"
      by (auto simp: rbind_eq_Inr strcat_def split: if_splits)
    moreover from this have "u = render False (replicate (length xs) ''..'')"
      using back_out_Inr [of "length xs" "''''" u] by (simp add: back_out_render)
    ultimately have "t = path_text False (replicate (length xs) ''..'' @ ys)"
      by (simp add: path_text_def render_append)
    with sp \<open>ps \<noteq> []\<close> show thesis by (intro relative)
  qed
qed

subsection \<open>The relative text leads back to the target\<close>

lemma dots_ok_no_dots:
  assumes "dots_ok prev cs" "\<forall>c \<in> set cs. char_at c 0 \<noteq> CHR ''$''"
    and "case prev of None \<Rightarrow> True | Some p \<Rightarrow> char_at p 0 \<noteq> CHR ''$'' \<and> p \<noteq> ''..''"
  shows "''.'' \<notin> set cs \<and> ''..'' \<notin> set cs"
  using assms
proof (induction cs arbitrary: prev)
  case (Cons c cs)
  from Cons.prems have "c \<noteq> ''..''" by (auto simp: is_parent_ref_def)
  moreover from this Cons.prems have "''.'' \<notin> set cs \<and> ''..'' \<notin> set cs"
    by (intro Cons.IH [of "Some c"]) auto
  ultimately show ?case using Cons.prems(1) by auto
qed simp

lemma resolve_plain: "''.'' \<notin> set cs \<Longrightarrow> ''..'' \<notin> set cs \<Longrightarrow> foldl (resolve r) acc cs = acc @ cs"
  by (induction cs arbitrary: acc) (auto simp: resolve_def)

lemma resolve_back_out:
  "foldl (resolve True) (ps @ xs) (replicate (length xs) ''..'') = ps"
proof (induction xs rule: rev_induct)
  case (snoc x xs)
  have "resolve True (ps @ xs @ [x]) ''..'' = ps @ xs"
    by (simp add: resolve_def pop_part_def butlast_append)
  with snoc show ?case by simp
qed simp

lemma isabsolute_path_text:
  assumes "good_part c" "do_isabsolute (path_text False (c # cs))"
  shows "do_isabsolute c"
proof -
  obtain s where s: "path_text False (c # cs) = c @ s" "s = [] \<or> hd s = slash"
  proof (cases cs rule: rev_cases)
    case Nil
    then show thesis by (intro that [of "[]"]) (simp_all add: path_text_def render_def)
  next
    case (snoc ds d)
    then show thesis
      by (intro that [of "slash # render False ds @ d"])
        (simp_all add: path_text_def render_def butlast_append)
  qed
  from assms(1) obtain a b where c: "c = a # b" "a \<noteq> slash"
    by (cases c) (auto simp: good_part_def)
  have "char_at (c @ s) 0 = a" "b = [] \<Longrightarrow> char_at (c @ s) 1 = char_at s 0"
    "b \<noteq> [] \<Longrightarrow> char_at (c @ s) 1 = char_at c 1"
    by (auto simp: c char_at_def nth_append)
  moreover have "char_at s 0 = NUL \<or> char_at s 0 = slash"
    using s(2) by (cases s) auto
  ultimately show ?thesis
    using assms(2) c unfolding s(1) do_isabsolute_def by (cases "b = []") auto
qed

lemma getabs_input_relative:
  assumes "\<not> do_isabsolute (path_text False zs)" "zs \<noteq> []"
    and "length (path_text True ss) + length (path_text False zs) + 2 < path_buf"
    and "\<forall>c \<in> set (ss @ zs). backslash \<notin> set c"
  shows "getabs_input g (path_text False zs) (Some (path_text True ss)) = Inr (path_text True (ss @ zs))"
proof -
  have ne: "render False zs \<noteq> []" using assms(2) by (simp add: render_eq_Nil)
  have eq: "path_text True ss @ slash # path_text False zs = path_text True (ss @ zs)"
    using render_path_text [of True ss] ne by (simp add: path_text_def render_append butlast_append)
  have "backslash \<notin> set (path_text True (ss @ zs))"
    using assms(4) by (intro path_text_no_backslash) auto
  from do_translate_id [OF this] show ?thesis
    using assms(1,3) by (simp add: getabs_input_def strcpy_def strcat_def eq)
qed

text \<open>A relative path made absolute against a canonical directory: its components resolved onto it.\<close>

lemma getabsolute_relative:
  assumes ss: "canonical ss" and zs: "\<forall>c \<in> set zs. good_part c \<and> backslash \<notin> set c" "zs \<noteq> []"
    and rel: "\<forall>c \<in> set ss \<union> set zs. \<not> do_isabsolute c"
    and len: "length (path_text True ss) + length (path_text False zs) + 2 < path_buf"
  shows "do_getabsolute g (path_text False zs) (Some (path_text True ss)) =
         Inr (path_text True (foldl (resolve True) ss zs))"
proof -
  let ?b = "path_text True (ss @ zs)"
  have dollar: "char_at c 0 \<noteq> CHR ''$''" if "c \<in> set ss \<union> set zs" for c
    using rel that by (auto simp: do_isabsolute_def)
  have good: "\<forall>c \<in> set (ss @ zs). good_part c \<and> backslash \<notin> set c"
    using ss zs by (auto simp: canonical_def)
  have nabs: "\<not> do_isabsolute (path_text False zs)"
  proof
    assume "do_isabsolute (path_text False zs)"
    moreover obtain c cs where "zs = c # cs" using zs(2) by (cases zs) auto
    ultimately have "do_isabsolute c" "c \<in> set zs"
      using isabsolute_path_text [of c cs] zs by auto
    with rel show False by blast
  qed
  have inp: "getabs_input g (path_text False zs) (Some (path_text True ss)) = Inr ?b"
    using good by (intro getabs_input_relative nabs zs len) auto
  have tk: "tokens ''/'' ?b = ss @ zs" using good by (intro tokens_path_text) auto
  have bne: "?b \<noteq> []"
    using good zs(2) by (cases zs rule: rev_cases)
      (auto simp: path_text_snoc simp flip: append_assoc, auto simp: good_part_def)
  have rooted: "(char_at ?b 0 = slash) = True"
    using char_at_path_text [OF _ bne] good by blast
  have "''.'' \<notin> set ss \<and> ''..'' \<notin> set ss"
    using ss dollar by (intro dots_ok_no_dots [of None]) (auto simp: canonical_def)
  then have fold: "foldl (resolve True) [] (ss @ zs) = foldl (resolve True) ss zs"
    by (simp add: resolve_plain)
  have "length ?b = length (path_text True ss) + 1 + length (path_text False zs)"
  proof -
    have "render False zs \<noteq> []" "render True ss \<noteq> []" using zs(2) by (simp_all add: render_eq_Nil)
    then show ?thesis
      by (simp add: path_text_def render_append [of True ss zs] butlast_append)
  qed
  then have "length ?b + 1 < path_buf" using len by simp
  from do_getabsolute_resolves [OF inp this] show ?thesis
    using dollar unfolding tk rooted fold Let_def
    by (auto simp: path_text_def)
qed

text \<open>
  C2: the relative path leads back: for two paths whose absolute forms start with a slash and have
  no component that would itself count as absolute, what \<^verbatim>\<open>path_getrelative\<close> returns, made
  absolute against the first path, is exactly the second path.
\<close>

theorem getrelative_roundtrip:
  assumes src: "do_getabsolute g p1 None = Inr src" and dst: "do_getabsolute g p2 None = Inr dst"
    and sl: "char_at src 0 = slash" "char_at dst 0 = slash"
    and rel: "\<forall>c \<in> set (tokens ''/'' src) \<union> set (tokens ''/'' dst). \<not> do_isabsolute c"
    and t: "getrelative g p1 p2 = Inr t" and len: "length src + length t + 2 < path_buf"
  shows "do_getabsolute g' t (Some src) = Inr dst"
proof -
  have ne: "src \<noteq> []" "dst \<noteq> []" using sl by auto
  obtain r ss where ss: "canonical ss" "src = path_text r ss"
    using src by (rule do_getabsolute_canonical)
  obtain r' ds where ds: "canonical ds" "dst = path_text r' ds"
    using dst by (rule do_getabsolute_canonical)
  have good: "\<forall>c \<in> set ss. good_part c" "\<forall>c \<in> set ds. good_part c"
    using ss(1) ds(1) by (auto simp: canonical_def)
  have r: "r" "r'"
    using char_at_path_text [OF good(1), of r] char_at_path_text [OF good(2), of r'] sl ne ss(2) ds(2)
    by auto
  have tx: "src = path_text True ss" "dst = path_text True ds" using ss ds r by simp_all
  have tks: "tokens ''/'' src = ss" "tokens ''/'' dst = ds"
    using tokens_path_text good tx by auto
  note onto = getabsolute_relative [OF ss(1), of _ g', folded tx(1)]
  show ?thesis
  proof (cases "src = dst")
    case True
    have dot: "t = path_text False [''.'']"
      using t src dst True by (simp add: getrelative_def path_text_def render_def)
    have "do_getabsolute g' (path_text False [''.'']) (Some src) =
        Inr (path_text True (foldl (resolve True) ss [''.'']))"
      using rel len tks by (intro onto) (auto simp: good_part_def do_isabsolute_def dot)
    with True tx show ?thesis by (simp add: dot resolve_def)
  next
    case False
    from getrelative_cases [OF src [unfolded tx] dst [unfolded tx] _ _ _ t] good False ne(2)
    consider (absolute) "t = dst"
      | (relative) ps xs ys where "ss = ps @ xs" "ds = ps @ ys" "apart xs ys" "ps \<noteq> []"
        "t = path_text False (replicate (length xs) ''..'' @ ys)"
      unfolding tx by blast
    then show ?thesis
    proof cases
      case absolute
      have "do_isabsolute dst" using sl by (simp add: do_isabsolute_def)
      then show ?thesis
        using canonical_path_text [OF ds(1), of True] ne(2) len by (simp add: absolute tx)
    next
      case relative
      let ?zs = "replicate (length xs) ''..'' @ ys"
      have nd: "''.'' \<notin> set ds \<and> ''..'' \<notin> set ds"
        using ds(1) rel tks by (intro dots_ok_no_dots [of None])
          (auto simp: canonical_def do_isabsolute_def)
      have "do_getabsolute g' (path_text False ?zs) (Some src) =
          Inr (path_text True (foldl (resolve True) ss ?zs))"
      proof (rule onto)
        show "\<forall>c \<in> set ?zs. good_part c \<and> backslash \<notin> set c"
          using ds(1) relative(2) by (auto simp: canonical_def good_part_def)
        show "?zs \<noteq> []" using False tx relative(1,2) by auto
        show "\<forall>c \<in> set ss \<union> set ?zs. \<not> do_isabsolute c"
          using rel tks relative(1,2) by (auto simp: do_isabsolute_def)
        show "length src + length (path_text False ?zs) + 2 < path_buf"
          using len relative(5) by simp
      qed
      moreover have "foldl (resolve True) ss ?zs = ds"
        using resolve_back_out [of ps xs] nd relative(1,2) by (simp add: resolve_plain)
      ultimately show ?thesis by (simp add: relative(5) tx)
    qed
  qed
qed

theorem getrelative_roundtrip_witness:
  "getrelative (\<lambda>n. (True, ''/w'')) ''/w/a/b'' ''c//d'' = Inr ''../../c/d'' \<and>
   do_getabsolute (\<lambda>n. (True, [])) ''../../c/d'' (Some ''/w/a/b'') = Inr ''/w/c/d''"
proof -
  let ?g = "\<lambda>n::nat. (True, ''/w'')"
  have a: "do_getabsolute ?g ''/w/a/b'' None = Inr ''/w/a/b''"
    "do_getabsolute ?g ''c//d'' None = Inr ''/w/c/d''"
    by (simp_all add: path_eval)
  then have t: "getrelative ?g ''/w/a/b'' ''c//d'' = Inr ''../../c/d''"
    by (simp add: getrelative_def strcat_def path_buf_def)
  have tk: "tokens ''/'' ''/w/a/b'' = [''w'', ''a'', ''b'']" "tokens ''/'' ''/w/c/d'' = [''w'', ''c'', ''d'']"
    by code_simp+
  have "do_getabsolute (\<lambda>n. (True, [])) ''../../c/d'' (Some ''/w/a/b'') = Inr ''/w/c/d''"
    by (rule getrelative_roundtrip [OF a _ _ _ t])
      (unfold tk, simp_all add: do_isabsolute_def path_buf_def)
  with t show ?thesis by blast
qed

subsection \<open>Backing out of a deep directory\<close>

lemma back_out_overflow:
  "path_buf \<le> length s + 3 * n \<Longrightarrow> 0 < n \<Longrightarrow> back_out n s = Inl BufferOverflow"
proof (induction n arbitrary: s)
  case (Suc n)
  show ?case
  proof (cases "length s + 3 < path_buf")
    case True
    then have "0 < n" using Suc.prems by (cases n) auto
    with True Suc.prems have "back_out n (s @ ''../'') = Inl BufferOverflow"
      by (intro Suc.IH) auto
    with True show ?thesis by (simp add: strcat_def)
  qed (simp add: strcat_def)
qed simp

text \<open>
  C6: \<^verbatim>\<open>path_getrelative\<close> has no bound on its result: it writes three bytes for every directory
  it backs out of, into a buffer that was sized for a path with two bytes per directory. From a
  directory 6000 levels deep (12002 bytes, well inside the buffers) it writes past the end.
\<close>

theorem getrelative_overflow:
  "length (path_text True (''r'' # replicate 6000 ''a'')) + 4 < path_buf \<and>
   getrelative g (path_text True (''r'' # replicate 6000 ''a'')) ''/r/b'' = Inl BufferOverflow"
proof -
  let ?xs = "replicate 6000 ''a''" and ?ss = "''r'' # replicate 6000 ''a''" and ?ds = "[''r'', ''b'']"
  have lenR: "length (render r (replicate n ''a'')) = (if r then 1 else 0) + 2 * n" for r n
    by (induction n) (auto simp: render_def)
  have "render True ?ss = ''/r/'' @ render False ?xs" by (simp add: render_def)
  then have len: "length (path_text True ?ss) = 12002"
    using lenR [of False 6000] by (simp add: path_text_def render_eq_Nil)
  have dots: "dots_ok (Some c) (replicate n ''a'')" for c n
    by (induction n arbitrary: c) (simp_all add: is_parent_ref_def)
  have can: "canonical ?ss" "canonical ?ds"
    using dots by (simp_all add: canonical_def good_part_def is_parent_ref_def)
  then have good: "\<forall>c \<in> set ?ss \<union> set ?ds. good_part c"
    by (simp add: canonical_def)
  have ne: "path_text True ?ss \<noteq> []" using len by auto
  have "char_at (path_text True ?ss) 0 = slash"
    using char_at_path_text [of ?ss True] good ne by simp
  then have src: "do_getabsolute g (path_text True ?ss) None = Inr (path_text True ?ss)"
    using len by (intro canonical_path_text can ne) (simp_all add: path_buf_def do_isabsolute_def)
  have ds: "path_text True ?ds = ''/r/b''" by (simp add: path_text_def render_def)
  have dst: "do_getabsolute g ''/r/b'' None = Inr ''/r/b''"
    by (simp add: path_eval)
  have lst: "last_common_slash (render True ?ss) (render True ?ds) 0 (-1) = 2"
    using last_common_slash_render [of "[''r'']" ?xs "[''b'']" True] good
    by (simp add: apart_def render_def)
  have R: "path_text True ?ss @ ''/'' = render True ?ss" "''/r/b'' @ ''/'' = render True ?ds"
    by (simp_all add: render_path_text ds [symmetric] del: append_Cons)
  have "count_slashes (drop 3 (render True ?ss)) = 6000"
    using count_slashes_render [of ?xs] good by (simp add: render_def)
  moreover have "back_out 6000 '''' = Inl BufferOverflow"
    by (rule back_out_overflow) (simp_all add: path_buf_def)
  moreover have "path_text True ?ss \<noteq> ''/r/b''" using len by (auto dest: arg_cong [of _ _ length])
  moreover have c1: "char_at (render True ?ss) (Suc 0) \<noteq> CHR '':''" by (simp add: render_def)
  moreover have rd: "render True ?ds = ''/r/b/''" by (simp add: render_def)
  ultimately have "getrelative g (path_text True ?ss) ''/r/b'' = Inl BufferOverflow"
    unfolding getrelative_def src dst rbind_simps
    using lst len ds c1 rd by (simp add: strcat_def R Let_def path_buf_def)
  with len show ?thesis by (simp add: path_buf_def)
qed

end
