(* ===== verification/PathJoin.thy ===== *)
theory PathJoin
  imports PathCore
begin

section \<open>join and normalize\<close>

text \<open>What \<^verbatim>\<open>path_join\<close> and \<^verbatim>\<open>path_normalize\<close> compute.\<close>

subsection \<open>join\<close>

lemma trimmed_len_le: "trimmed_len part n \<le> n"
proof (induction n)
  case (Suc n)
  then show ?case by simp
qed simp

lemma trimmed_len_pos: "0 < n \<Longrightarrow> 0 < trimmed_len part n"
  by (induction n) auto

lemma trimmed_len_nth: "1 < trimmed_len part n \<Longrightarrow> part ! (trimmed_len part n - 1) \<noteq> slash"
  by (induction n) auto

lemma trimmed_len_id: "n \<le> 1 \<or> part ! (n - 1) \<noteq> slash \<Longrightarrow> trimmed_len part n = n"
  by (cases n) auto

text \<open>What the buffer holds between two arguments.\<close>

definition joined :: "string \<Rightarrow> bool" where
  "joined buf \<longleftrightarrow>
     buf \<noteq> ''.'' \<and> (1 < length buf \<longrightarrow> last buf \<noteq> slash) \<and> length buf < path_buf"

lemma joined_part:
  assumes "joined buf" "join_part buf a = Inr buf'"
  shows "joined buf'"
proof (cases a)
  case (Some part)
  let ?n = "trimmed_len part (length part)"
  show ?thesis
  proof (cases "?n = 0 \<or> (?n = 1 \<and> char_at part 0 = CHR ''.'')")
    case False
    define pre where "pre = (let b = (if do_isabsolute part then [] else buf)
                             in if b \<noteq> [] \<and> last b \<noteq> slash then b @ [slash] else b)"
    have len: "?n \<le> length part" by (rule trimmed_len_le)
    from assms(2) False have buf': "buf' = pre @ take ?n part" and fit: "length pre + length part < path_buf"
      by (auto simp: join_part_def Some pre_def Let_def split: if_splits)
    have tk: "take ?n part \<noteq> []" using False len by auto
    have lt: "last (take ?n part) = part ! (?n - 1)"
      using False len tk by (simp add: last_conv_nth min_def)
    have one: "?n = 1 \<Longrightarrow> part ! 0 \<noteq> CHR ''.''"
      using False len by (auto simp: char_at_def split: if_splits)
    have sl: "1 < length buf' \<Longrightarrow> part ! (?n - 1) \<noteq> slash"
    proof (cases "1 < ?n")
      case True
      then show ?thesis by (rule trimmed_len_nth)
    next
      case False
      with \<open>\<not> (?n = 0 \<or> _)\<close> have n: "?n = 1" by simp
      assume "1 < length buf'"
      with buf' n have "pre \<noteq> []" by (auto simp: min_def split: if_splits)
      then have "\<not> do_isabsolute part" by (auto simp: pre_def)
      moreover have "part \<noteq> []" using n by auto
      ultimately have "part ! 0 \<noteq> slash" by (auto simp: do_isabsolute_def char_at_def)
      then show ?thesis using n by simp
    qed
    have "buf' \<noteq> ''.''"
    proof
      assume d: "buf' = ''.''"
      with buf' have eq: "pre @ take ?n part = ''.''" by simp
      have "length pre + length (take ?n part) = 1"
        using arg_cong [OF eq, of length] by simp
      then have "pre = []" using tk by (cases "take ?n part") auto
      with eq have te: "take ?n part = ''.''" by simp
      have "length (take ?n part) = ?n" using len by simp
      with te have "?n = 1" by simp
      moreover from te this have "part ! 0 = CHR ''.''"
        by (metis nth_Cons_0 nth_take zero_less_one)
      ultimately show False using one by simp
    qed
    moreover have "length buf' < path_buf" using fit len by (simp add: buf')
    ultimately show ?thesis using sl tk lt by (simp add: joined_def buf')
  qed (use assms Some in \<open>auto simp: join_part_def Let_def\<close>)
qed (use assms in \<open>auto simp: join_part_def\<close>)

lemma joined_loop: "joined buf \<Longrightarrow> join_loop buf args = Inr buf' \<Longrightarrow> joined buf'"
  by (induction args arbitrary: buf) (auto simp: rbind_eq_Inr dest: joined_part)

lemma join_loop_append: "join_loop buf (xs @ ys) = rbind (join_loop buf xs) (\<lambda>b. join_loop b ys)"
  by (induction xs arbitrary: buf) (simp_all add: rbind_assoc)

lemma join_part_joined:
  assumes "joined buf" shows "join_part [] (Some buf) = Inr buf"
proof -
  have "trimmed_len buf (length buf) = length buf"
    using assms by (intro trimmed_len_id, cases "buf = []") (auto simp: joined_def last_conv_nth)
  moreover have "buf = '''' \<or> \<not> (length buf = 1 \<and> char_at buf 0 = CHR ''.'')"
    using assms by (cases buf) (auto simp: joined_def)
  ultimately show ?thesis
    using assms by (auto simp: join_part_def Let_def joined_def)
qed

text \<open>
  \<^verbatim>\<open>path_join\<close> can be done in steps: joining a list of parts is joining the first few and
  passing the result on as one part, whatever absolute parts, nils, empty parts, dots and trailing
  slashes the list has.
\<close>

theorem join_stepwise:
  assumes "join xs = Inr r"
  shows "join (xs @ ys) = join (Some r # ys)"
proof -
  have "joined r"
    using assms joined_loop [of "[]" xs r] by (simp add: join_def joined_def path_buf_def)
  then show ?thesis
    using assms by (simp add: join_def join_loop_append join_part_joined)
qed

theorem join_stepwise_witness:
  "join [Some ''a/'', Some ''.'', Some ''b''] = Inr ''a/b'' \<and>
   join ([Some ''a/'', Some ''.'', Some ''b''] @ [None, Some ''c//'']) = join [Some ''a/b'', None, Some ''c//'']"
proof
  show r: "join [Some ''a/'', Some ''.'', Some ''b''] = Inr ''a/b''"
    by code_simp
  show "join ([Some ''a/'', Some ''.'', Some ''b''] @ [None, Some ''c//'']) = join [Some ''a/b'', None, Some ''c//'']"
    by (rule join_stepwise [OF r])
qed

end
