(* ===== verification/LuaObject.thy ===== *)
theory LuaObject
  imports Prelude
begin

unbundle bit_operations_syntax

section \<open>Lua values\<close>

text \<open>
  The data of \<^verbatim>\<open>lobject.h\<close> and the functions of \<^verbatim>\<open>lobject.c\<close> that need no state.
  A \<^verbatim>\<open>lua_Number\<close> is a C \<^verbatim>\<open>double\<close>: its 64 bits in IEEE 754 binary64 format, so
  that the hash of a number, the two zeros and the NaNs are those of the code. Collectable objects
  other than strings are identified by their address; strings are interned, so a string value is
  identified with its bytes (the theory \<^verbatim>\<open>LuaString\<close> proves that two references to interned
  strings are equal exactly when the bytes are).
\<close>

subsection \<open>Numbers\<close>

type_synonym lua_Number = "64 word"

definition dbl_neg :: "lua_Number \<Rightarrow> bool" where
  "dbl_neg d \<longleftrightarrow> 2 ^ 63 \<le> unat d"

definition dbl_exp :: "lua_Number \<Rightarrow> nat" where
  "dbl_exp d = unat d div 2 ^ 52 mod 2 ^ 11"

definition dbl_frac :: "lua_Number \<Rightarrow> nat" where
  "dbl_frac d = unat d mod 2 ^ 52"

definition dbl_zero :: "lua_Number \<Rightarrow> bool" where
  "dbl_zero d \<longleftrightarrow> dbl_exp d = 0 \<and> dbl_frac d = 0"

definition dbl_nan :: "lua_Number \<Rightarrow> bool" where
  "dbl_nan d \<longleftrightarrow> dbl_exp d = 2047 \<and> dbl_frac d \<noteq> 0"

definition luai_numeq :: "lua_Number \<Rightarrow> lua_Number \<Rightarrow> bool" where
  "luai_numeq a b \<longleftrightarrow> \<not> dbl_nan a \<and> \<not> dbl_nan b \<and> (a = b \<or> dbl_zero a \<and> dbl_zero b)"

definition luai_numisnan :: "lua_Number \<Rightarrow> bool" where
  "luai_numisnan a \<longleftrightarrow> \<not> luai_numeq a a"

text \<open>The position of the highest bit.\<close>

fun ilog2 :: "nat \<Rightarrow> nat" where
  "ilog2 n = (if n \<le> 1 then 0 else Suc (ilog2 (n div 2)))"

declare ilog2.simps [simp del]

text \<open>
  \<^verbatim>\<open>cast_num (k)\<close>: the double of an integer. It is exact for every C \<^verbatim>\<open>int\<close>, whose
  magnitude fits the 53 bits of the significand.
\<close>

definition cast_num :: "int \<Rightarrow> lua_Number" where
  "cast_num k =
     (if k = 0 then 0
      else
        let n = nat \<bar>k\<bar>; e = ilog2 n
        in of_nat ((if k < 0 then 2 ^ 63 else 0) + (1023 + e) * 2 ^ 52 +
                   (n * 2 ^ (52 - e) - 2 ^ 52)))"

definition int_min :: int where "int_min = - 2147483648"
definition int_max :: int where "int_max = 2147483647"

text \<open>
  \<^verbatim>\<open>lua_number2int\<close> is \<^verbatim>\<open>(int) (d)\<close>: truncation towards zero. Outside the range of
  \<^verbatim>\<open>int\<close>, for infinities and NaN, C leaves the result undefined; \<open>int_min\<close> is what the x86
  conversion gives. The callers compare the result with the number, and \<open>numeq_number2int\<close> shows
  that no choice passes that test.
\<close>

definition dbl_trunc :: "lua_Number \<Rightarrow> int" where
  "dbl_trunc d =
     (let m = 2 ^ 52 + dbl_frac d;
          a = (if dbl_exp d = 0 then 0
               else if dbl_exp d \<ge> 1075 then m * 2 ^ (dbl_exp d - 1075)
               else m div 2 ^ (1075 - dbl_exp d))
      in if dbl_neg d then - int a else int a)"

definition number2int :: "lua_Number \<Rightarrow> int" where
  "number2int d =
     (if dbl_exp d = 2047 \<or> dbl_trunc d < int_min \<or> int_max < dbl_trunc d then int_min
      else dbl_trunc d)"

subsection \<open>Values\<close>

datatype tvalue =
    Nil
  | Boolean bool
  | LightUserdata nat
  | Number lua_Number
  | String string
  | TableRef nat
  | FunctionRef nat
  | UserdataRef nat
  | ThreadRef nat

datatype ttag =
    LUA_TNIL | LUA_TBOOLEAN | LUA_TLIGHTUSERDATA | LUA_TNUMBER | LUA_TSTRING | LUA_TTABLE
  | LUA_TFUNCTION | LUA_TUSERDATA | LUA_TTHREAD

fun ttype :: "tvalue \<Rightarrow> ttag" where
  "ttype Nil = LUA_TNIL"
| "ttype (Boolean b) = LUA_TBOOLEAN"
| "ttype (LightUserdata p) = LUA_TLIGHTUSERDATA"
| "ttype (Number n) = LUA_TNUMBER"
| "ttype (String s) = LUA_TSTRING"
| "ttype (TableRef a) = LUA_TTABLE"
| "ttype (FunctionRef a) = LUA_TFUNCTION"
| "ttype (UserdataRef a) = LUA_TUSERDATA"
| "ttype (ThreadRef a) = LUA_TTHREAD"

definition l_isfalse :: "tvalue \<Rightarrow> bool" where
  "l_isfalse v \<longleftrightarrow> v = Nil \<or> v = Boolean False"

definition luaO_rawequalObj :: "tvalue \<Rightarrow> tvalue \<Rightarrow> bool" where
  "luaO_rawequalObj t1 t2 =
     (if ttype t1 \<noteq> ttype t2 then False
      else case (t1, t2) of
        (Nil, Nil) \<Rightarrow> True
      | (Number a, Number b) \<Rightarrow> luai_numeq a b
      | (Boolean a, Boolean b) \<Rightarrow> a = b
      | (LightUserdata a, LightUserdata b) \<Rightarrow> a = b
      | _ \<Rightarrow> t1 = t2)"

subsection \<open>Small numeric functions of lobject.c\<close>

function int2fb_loop :: "32 word \<Rightarrow> int \<Rightarrow> 32 word \<times> int" where
  "int2fb_loop x e = (if x \<ge> 16 then int2fb_loop (drop_bit 1 (x + 1)) (e + 1) else (x, e))"
  by pat_completeness auto
termination
proof (relation "measure (\<lambda>(x, e). unat x)")
  fix x :: "32 word" and e :: int
  assume "x \<ge> 16"
  then have g: "unat x \<ge> 16" by (simp add: word_le_nat_alt)
  have "unat (drop_bit 1 (x + 1)) = unat (x + 1) div 2"
    by (simp add: drop_bit_eq_div unat_div)
  moreover have "unat (x + 1) \<le> unat x + 1"
    by (simp add: unat_plus_if') linarith
  ultimately show "((drop_bit 1 (x + 1), e + 1), x, e) \<in> measure (\<lambda>(x, e). unat x)"
    using g by simp
qed simp

definition luaO_int2fb :: "32 word \<Rightarrow> int" where
  "luaO_int2fb x =
     (case int2fb_loop x 0 of (x, e) \<Rightarrow>
        if x < 8 then uint x else (push_bit 3 (e + 1)) OR (uint x - 8))"

definition luaO_fb2int :: "int \<Rightarrow> int" where
  "luaO_fb2int x =
     (let e = drop_bit 3 x AND 31
      in if e = 0 then x else push_bit (nat (e - 1)) ((x AND 7) + 8))"

text \<open>The table \<^verbatim>\<open>log_2\<close>: entry \<open>x\<close> is the number of bits of \<open>x\<close>.\<close>

definition log_2 :: "int list" where
  "log_2 = [0,1] @ replicate 2 2 @ replicate 4 3 @ replicate 8 4 @ replicate 16 5 @
           replicate 32 6 @ replicate 64 7 @ replicate 128 8"

function log2_loop :: "32 word \<Rightarrow> int \<Rightarrow> int" where
  "log2_loop x l = (if x \<ge> 256 then log2_loop (drop_bit 8 x) (l + 8) else l + log_2 ! unat x)"
  by pat_completeness auto
termination
  by (relation "measure (\<lambda>(x, l). unat x)")
    (auto simp: drop_bit_eq_div unat_div word_le_nat_alt)

definition luaO_log2 :: "32 word \<Rightarrow> int" where
  "luaO_log2 x = log2_loop x (-1)"

definition ceillog2 :: "32 word \<Rightarrow> int" where
  "ceillog2 x = luaO_log2 (x - 1) + 1"

declare int2fb_loop.simps [simp del] log2_loop.simps [simp del]

subsection \<open>Integers as numbers\<close>

lemma ilog2_bounds: "0 < n \<Longrightarrow> 2 ^ ilog2 n \<le> n \<and> n < 2 * 2 ^ ilog2 n"
proof (induction n rule: ilog2.induct)
  case (1 n)
  show ?case
  proof (cases "n \<le> 1")
    case False
    then have "2 ^ ilog2 (n div 2) \<le> n div 2 \<and> n div 2 < 2 * 2 ^ ilog2 (n div 2)"
      using 1 by simp
    with False show ?thesis by (simp add: ilog2.simps [of n]) linarith
  qed (use "1.prems" in \<open>simp add: ilog2.simps [of n]\<close>)
qed

lemma ilog2_less: "0 < n \<Longrightarrow> n < 2 ^ b \<Longrightarrow> ilog2 n < b"
  using ilog2_bounds [of n] by (meson le_less_trans nat_power_less_imp_less zero_less_numeral)

lemma div_mod_digits:
  "f < c \<Longrightarrow> (a * c + f) div c = a \<and> (a * c + f) mod c = (f :: nat)"
  by simp

text \<open>The fields of the double of a non-zero integer of at most 53 bits.\<close>

lemma cast_num_fields:
  assumes "k \<noteq> 0" "\<bar>k\<bar> < 2 ^ 53"
  defines "n \<equiv> nat \<bar>k\<bar>" and "e \<equiv> ilog2 (nat \<bar>k\<bar>)"
  shows "dbl_exp (cast_num k) = 1023 + e" "dbl_frac (cast_num k) = n * 2 ^ (52 - e) - 2 ^ 52"
    "dbl_neg (cast_num k) \<longleftrightarrow> k < 0" "2 ^ 52 \<le> n * 2 ^ (52 - e)" "e \<le> 52"
proof -
  have n: "0 < n" "n < 2 ^ 53" using assms by (auto simp: n_def nat_less_iff)
  have "e < 53" using ilog2_less [OF n] by (simp add: e_def n_def)
  then show e: "e \<le> 52" by simp
  have b: "2 ^ e \<le> n" "n < 2 * 2 ^ e" using ilog2_bounds [OF n(1)] by (simp_all add: e_def n_def)
  have pw: "(2::nat) ^ e * 2 ^ (52 - e) = 2 ^ 52" using e by (simp flip: power_add)
  have lo: "2 ^ 52 \<le> n * 2 ^ (52 - e)" using mult_le_mono1 [OF b(1), of "2 ^ (52 - e)"] pw by simp
  have hi: "n * 2 ^ (52 - e) < 2 * 2 ^ 52"
    using mult_strict_right_mono [OF b(2), of "2 ^ (52 - e)"] pw by (simp add: mult.assoc)
  define f where "f = n * 2 ^ (52 - e) - 2 ^ 52"
  define s :: nat where "s = (if k < 0 then 2 ^ 63 else 0)"
  have f: "f < 2 ^ 52" using hi lo by (simp add: f_def)
  have lt: "(1023 + e) * 2 ^ 52 + f < 2 ^ 63" using f e by simp
  have "s + (1023 + e) * 2 ^ 52 + f < 2 ^ 64" using lt by (simp add: s_def)
  moreover have "cast_num k = of_nat (s + (1023 + e) * 2 ^ 52 + f)"
    using assms(1) by (simp only: cast_num_def Let_def n_def e_def f_def s_def if_False)
  ultimately have "unat (cast_num k) = s + (1023 + e) * 2 ^ 52 + f"
    by (simp only: unat_of_nat) simp
  moreover have "2 ^ 63 \<le> s + (1023 + e) * 2 ^ 52 + f \<longleftrightarrow> k < 0"
  proof (cases "k < 0")
    case False
    then have "s = 0" by (simp add: s_def)
    with lt False show ?thesis by linarith
  qed (simp add: s_def)
  moreover define h :: nat where "h = (if k < 0 then 2 ^ 11 else 0)"
  have "s + (1023 + e) * 2 ^ 52 + f = (h + (1023 + e)) * 2 ^ 52 + f"
    by (simp add: s_def h_def)
  then have "(s + (1023 + e) * 2 ^ 52 + f) div 2 ^ 52 = h + (1023 + e)"
    "(s + (1023 + e) * 2 ^ 52 + f) mod 2 ^ 52 = f"
    using div_mod_digits [OF f, of "h + (1023 + e)"] by (simp_all only:)
  moreover have "(h + (1023 + e)) mod 2 ^ 11 = 1023 + e"
    using e mod_add_self1 [of "2 ^ 11" "1023 + e"] by (simp add: h_def del: mod_add_self1)
  ultimately show "dbl_exp (cast_num k) = 1023 + e"
    "dbl_frac (cast_num k) = n * 2 ^ (52 - e) - 2 ^ 52" "dbl_neg (cast_num k) \<longleftrightarrow> k < 0"
    "2 ^ 52 \<le> n * 2 ^ (52 - e)"
    using lo by (simp_all only: dbl_exp_def dbl_frac_def dbl_neg_def f_def)
qed

text \<open>The range of C \<^verbatim>\<open>int\<close>, where every integer has a double of its own.\<close>

definition is_int :: "int \<Rightarrow> bool" where
  "is_int k \<longleftrightarrow> int_min \<le> k \<and> k \<le> int_max"

lemma is_int_small: "is_int k \<Longrightarrow> \<bar>k\<bar> < 2 ^ 53"
  by (auto simp: is_int_def int_min_def int_max_def)

lemma number2int_is_int: "is_int (number2int d)"
  by (auto simp: is_int_def number2int_def int_min_def int_max_def)

lemma dbl_trunc_cast:
  assumes "is_int k" shows "dbl_trunc (cast_num k) = k"
proof (cases "k = 0")
  case True
  then show ?thesis by (simp add: cast_num_def dbl_trunc_def dbl_exp_def dbl_frac_def dbl_neg_def)
next
  case False
  let ?n = "nat \<bar>k\<bar>" and ?e = "ilog2 (nat \<bar>k\<bar>)"
  note f = cast_num_fields [OF False is_int_small [OF assms]]
  have m: "2 ^ 52 + dbl_frac (cast_num k) = ?n * 2 ^ (52 - ?e)" using f(2,4) by simp
  have "(if dbl_exp (cast_num k) \<ge> 1075 then ?n * 2 ^ (52 - ?e) * 2 ^ (dbl_exp (cast_num k) - 1075)
      else ?n * 2 ^ (52 - ?e) div 2 ^ (1075 - dbl_exp (cast_num k))) = ?n"
  proof (cases "?e = 52")
    case False
    with f(5) have "1075 - (1023 + ?e) = 52 - ?e" "\<not> 1023 + ?e \<ge> 1075" by auto
    then show ?thesis unfolding f(1) by simp
  qed (simp add: f(1))
  with f(1,3) m show ?thesis by (simp only: dbl_trunc_def Let_def) simp
qed

lemma cast_num_exp:
  assumes "is_int k" "k \<noteq> 0" shows "0 < dbl_exp (cast_num k)" "dbl_exp (cast_num k) < 2047"
proof -
  note f = cast_num_fields [OF assms(2) is_int_small [OF assms(1)]]
  show "0 < dbl_exp (cast_num k)" "dbl_exp (cast_num k) < 2047"
    using f(5) unfolding f(1) by simp_all
qed

lemma cast_num_0: "cast_num 0 = 0"
  by (simp add: cast_num_def)

lemma dbl_zero_0 [simp]: "dbl_zero 0" "dbl_exp 0 = 0"
  by (simp_all add: dbl_zero_def dbl_exp_def dbl_frac_def)

lemma cast_num_finite: "is_int k \<Longrightarrow> dbl_exp (cast_num k) < 2047"
  using cast_num_exp [of k] by (cases "k = 0") (simp_all add: cast_num_0)

lemma cast_num_zero: "is_int k \<Longrightarrow> dbl_zero (cast_num k) \<longleftrightarrow> k = 0"
  using cast_num_exp [of k] by (cases "k = 0") (simp_all add: cast_num_0, simp add: dbl_zero_def)

lemma number2int_cast [simp]: "is_int k \<Longrightarrow> number2int (cast_num k) = k"
  using cast_num_finite [of k] by (auto simp: number2int_def dbl_trunc_cast is_int_def)

lemma cast_num_not_nan [simp]: "is_int k \<Longrightarrow> \<not> dbl_nan (cast_num k)"
  using cast_num_finite [of k] by (simp add: dbl_nan_def)

lemma luai_numeq_cast [simp]:
  assumes "is_int a" "is_int b" shows "luai_numeq (cast_num a) (cast_num b) \<longleftrightarrow> a = b"
proof -
  have "cast_num a = cast_num b \<Longrightarrow> a = b" using assms number2int_cast by metis
  with assms show ?thesis by (auto simp: luai_numeq_def cast_num_zero)
qed

text \<open>
  The test \<^verbatim>\<open>luai_numeq(cast_num(k), n)\<close> that follows every conversion to \<^verbatim>\<open>int\<close>
  in the sources passes for the one \<open>k\<close> that \<open>number2int\<close> gives, if for any.
\<close>

lemma numeq_number2int:
  assumes "is_int k" "luai_numeq (cast_num k) d" shows "number2int d = k"
proof (cases "cast_num k = d")
  case False
  then have "dbl_zero (cast_num k)" "dbl_zero d" using assms by (auto simp: luai_numeq_def)
  then have "k = 0" "dbl_exp d = 0"
    using cast_num_zero [OF assms(1)] by (simp, simp add: dbl_zero_def)
  then show ?thesis by (simp add: number2int_def dbl_trunc_def int_min_def int_max_def)
qed (use assms in auto)

subsection \<open>Equality of values\<close>

text \<open>A value with its zero made positive: values are raw equal when these are, but for NaN.\<close>

definition norm_num :: "lua_Number \<Rightarrow> lua_Number" where
  "norm_num d = (if dbl_zero d then 0 else d)"

definition norm_key :: "tvalue \<Rightarrow> tvalue" where
  "norm_key v = (case v of Number d \<Rightarrow> Number (norm_num d) | _ \<Rightarrow> v)"

definition is_nan :: "tvalue \<Rightarrow> bool" where
  "is_nan v = (case v of Number d \<Rightarrow> dbl_nan d | _ \<Rightarrow> False)"

lemma dbl_zero_not_nan: "dbl_zero d \<Longrightarrow> \<not> dbl_nan d"
  by (simp add: dbl_zero_def dbl_nan_def)

lemma luai_numeq_norm: "luai_numeq a b \<longleftrightarrow> \<not> dbl_nan a \<and> \<not> dbl_nan b \<and> norm_num a = norm_num b"
  by (auto simp: luai_numeq_def norm_num_def)

lemma luai_numisnan_iff: "luai_numisnan d \<longleftrightarrow> dbl_nan d"
  by (simp add: luai_numisnan_def luai_numeq_def)

lemma norm_num_nan [simp]: "dbl_nan (norm_num d) \<longleftrightarrow> dbl_nan d"
  using dbl_zero_not_nan by (auto simp: norm_num_def)

lemma is_nan_norm_key [simp]: "is_nan (norm_key v) \<longleftrightarrow> is_nan v"
  by (cases v) (simp_all add: norm_key_def is_nan_def)

lemma norm_key_Nil [simp]: "norm_key v = Nil \<longleftrightarrow> v = Nil" "norm_key Nil = Nil"
  by (cases v; simp add: norm_key_def)+

lemma luaO_rawequalObj_norm:
  "luaO_rawequalObj a b \<longleftrightarrow> norm_key a = norm_key b \<and> \<not> is_nan a"
proof (cases "\<exists>x y. a = Number x \<and> b = Number y")
  case True
  then obtain x y where ab: "a = Number x" "b = Number y" by blast
  have "norm_num x = norm_num y \<Longrightarrow> dbl_nan x = dbl_nan y" by (metis norm_num_nan)
  then have "luai_numeq x y \<longleftrightarrow> norm_num x = norm_num y \<and> \<not> dbl_nan x"
    unfolding luai_numeq_norm by blast
  then show ?thesis by (simp add: ab luaO_rawequalObj_def norm_key_def is_nan_def)
next
  case False
  then show ?thesis
    by (cases a; cases b; simp add: luaO_rawequalObj_def norm_key_def is_nan_def)
qed


subsection \<open>The floating byte\<close>

lemma int2fb_step:
  assumes "x \<ge> 16" "x \<noteq> - 1"
  shows "unat (drop_bit 1 (x + 1)) = (unat x + 1) div 2" "drop_bit 1 (x + 1) \<noteq> - 1"
    "16 \<le> unat (x :: 32 word)"
proof -
  show "16 \<le> unat x" using assms(1) by (simp add: word_le_nat_alt)
  have "unat x \<noteq> unat (- 1 :: 32 word)" using assms(2) word_unat_eq_iff by blast
  then have "unat x \<noteq> 2 ^ 32 - 1" by (simp add: unsigned_minus_1_eq_mask mask_eq_exp_minus_1)
  then have "unat x + 1 < 2 ^ 32" using unsigned_less [of x, where 'a = nat] by simp
  then have "unat (x + 1) = unat x + 1" by (simp add: unat_plus_if')
  then show e: "unat (drop_bit 1 (x + 1)) = (unat x + 1) div 2"
    by (simp add: drop_bit_eq_div unat_div)
  have "unat x < 2 ^ 32" using unsigned_less [of x, where 'a = nat] by simp
  then have "unat (drop_bit 1 (x + 1)) \<noteq> unat (- 1 :: 32 word)"
    unfolding e by (simp add: unsigned_minus_1_eq_mask mask_eq_exp_minus_1)
  then show "drop_bit 1 (x + 1) \<noteq> - 1" by metis
qed

lemma ceil_half:
  assumes "a = (x + 1) div (2::nat)" "a \<le> m * p" "m * p < a + p"
  shows "x \<le> m * (2 * p) \<and> m * (2 * p) < x + 2 * p"
  using assms by (auto simp: mult.left_commute [of m 2])

lemma int2fb_loop_bounds:
  assumes "int2fb_loop x e = (m, f)" "x \<noteq> - 1"
  shows "e \<le> f \<and> unat m < 16 \<and> (8 \<le> unat x \<longrightarrow> 8 \<le> unat m) \<and> (unat x < 16 \<longrightarrow> m = x \<and> f = e) \<and>
    unat x \<le> unat m * 2 ^ nat (f - e) \<and> unat m * 2 ^ nat (f - e) < unat x + 2 ^ nat (f - e)"
  using assms
proof (induction x e rule: int2fb_loop.induct)
  case (1 x e)
  show ?case
  proof (cases "x \<ge> 16")
    case True
    let ?y = "drop_bit 1 (x + 1)"
    note s = int2fb_step [OF True "1.prems"(2)]
    have "int2fb_loop ?y (e + 1) = (m, f)"
      using "1.prems"(1) True by (simp add: int2fb_loop.simps [of x])
    note ih = "1.IH" [OF True this s(2)]
    have p: "2 ^ nat (f - e) = 2 * (2 ^ nat (f - (e + 1)) :: nat)"
    proof -
      have "e + 1 \<le> f" using ih by blast
      then have "nat (f - e) = Suc (nat (f - (e + 1)))" by arith
      then show ?thesis by simp
    qed
    have "8 \<le> unat ?y" using s(1,3) by simp
    with ih s(3) ceil_half [OF s(1), of "unat m" "2 ^ nat (f - (e + 1))"] show ?thesis
      unfolding p by auto
  next
    case False
    with "1.prems"(1) have "m = x" "f = e" by (simp_all add: int2fb_loop.simps [of x])
    with False show ?thesis by (simp add: word_le_nat_alt not_le)
  qed
qed

lemma fb_fields:
  assumes "0 \<le> h" "0 \<le> l" "l < 8"
  shows "drop_bit 3 (push_bit 3 h OR l) = (h :: int)" "(push_bit 3 h OR l) AND 7 = l"
proof -
  have "drop_bit 3 l = 0" using assms by (simp add: drop_bit_eq_div)
  then show "drop_bit 3 (push_bit 3 h OR l) = h" 
    by (simp only: drop_bit_or) (simp add: drop_bit_eq_div push_bit_eq_mult)
  have "(push_bit 3 h OR l) AND 7 = take_bit 3 (push_bit 3 h OR l)"
    by (simp add: take_bit_eq_mask mask_eq_exp_minus_1)
  also have "\<dots> = l" using assms by (simp add: take_bit_push_bit take_bit_int_eq_self)
  finally show "(push_bit 3 h OR l) AND 7 = l" .
qed

lemma fb2int_parts:
  assumes "0 \<le> f" "f < 30" "8 \<le> m" "m < 16"
  defines "b \<equiv> push_bit 3 (f + 1) OR (m - 8)"
  shows "luaO_fb2int b = m * 2 ^ nat f" "0 \<le> b" "b < 256"
proof -
  have l: "0 \<le> m - 8" "m - 8 < 8" and h: "0 \<le> f + 1" "f + 1 < 32" "f + 1 \<noteq> 0" using assms by simp_all
  note ff = fb_fields [OF h(1) l, folded b_def]
  have "(f + 1) AND 31 = take_bit 5 (f + 1)" by (simp add: take_bit_eq_mask mask_eq_exp_minus_1)
  also have "\<dots> = f + 1" using h by (simp add: take_bit_int_eq_self)
  finally show "luaO_fb2int b = m * 2 ^ nat f"
    using h(3) unfolding luaO_fb2int_def Let_def ff by (simp add: push_bit_eq_mult)
  show "0 \<le> b" unfolding b_def using h(1) l(1) by simp
  have "drop_bit 3 b < 32" unfolding ff(1) by (rule h(2))
  then show "b < 256" by (simp add: drop_bit_eq_div)
qed

lemma fb_exponent:
  assumes "8 \<le> unat m" "unat m * 2 ^ nat f < unat (x :: 32 word) + 2 ^ nat f"
  shows "7 * 2 ^ nat f < unat x" "f < 30"
proof -
  have "8 * 2 ^ nat f \<le> unat m * 2 ^ nat f" using assms(1) by simp
  with assms(2) show p7: "7 * 2 ^ nat f < unat x" by linarith
  also have "unat x < 2 ^ 32" using unsigned_less [of x, where 'a = nat] by simp
  finally have "(2::nat) ^ nat f < 2 ^ 30" by simp
  then have "nat f < 30" by (simp only: power_strict_increasing_iff one_less_numeral_iff semiring_norm)
  then show "f < 30" by simp
qed

lemma int2fb_cases:
  assumes "x \<noteq> - 1"
  obtains "uint x < 8" "luaO_int2fb x = uint x"
  | m f where "0 \<le> f" "f < 30" "8 \<le> m" "m < 16" "luaO_int2fb x = push_bit 3 (f + 1) OR (m - 8)"
    "uint x \<le> m * 2 ^ nat f" "m * 2 ^ nat f < uint x + 2 ^ nat f" "7 * 2 ^ nat f < uint x"
proof -
  obtain m f where mf: "int2fb_loop x 0 = (m, f)" by (cases "int2fb_loop x 0")
  have b: "0 \<le> f" "unat m < 16" "8 \<le> unat x \<longrightarrow> 8 \<le> unat m" "unat x < 16 \<longrightarrow> m = x \<and> f = 0"
    "unat x \<le> unat m * 2 ^ nat f" "unat m * 2 ^ nat f < unat x + 2 ^ nat f"
    using int2fb_loop_bounds [OF mf assms] unfolding diff_0_right by blast+
  show ?thesis
  proof (cases "m < 8")
    case True
    then have m8: "unat m < 8" by (simp add: word_less_nat_alt)
    then have x8: "unat x < 8" using b(3) by linarith
    then have "m = x" using b(4) by simp
    with mf True have "luaO_int2fb x = uint x" by (simp add: luaO_int2fb_def)
    moreover have "int (unat x) < int 8" using x8 by (rule iffD2 [OF of_nat_less_iff])
    then have "uint x < 8" by simp
    ultimately show ?thesis using that(1) by blast
  next
    case False
    then have m8: "8 \<le> unat m" by (simp add: word_less_nat_alt)
    note bd = b(5,6,1)
    note e = fb_exponent [OF m8 bd(2)]
    have i: "int a \<le> int b" "int c < int d" if "a \<le> b" "c < d" for a b c d using that by simp_all
    have u1: "uint x \<le> uint m * 2 ^ nat f" and u2: "uint m * 2 ^ nat f < uint x + 2 ^ nat f"
      using i [OF bd(1,2)] by (simp_all only: uint_nat of_nat_mult of_nat_power of_nat_numeral of_nat_add)
    have u3: "7 * 2 ^ nat f < uint x"
      using i(2) [OF bd(1) e(1)] by (simp only: uint_nat of_nat_mult of_nat_power of_nat_numeral)
    have r: "luaO_int2fb x = push_bit 3 (f + 1) OR (uint m - 8)"
      using mf False by (simp add: luaO_int2fb_def)
    have m: "8 \<le> uint m" "uint m < 16" 
      using i [OF m8 b(2)] by (simp_all only: uint_nat of_nat_numeral)
    show ?thesis by (rule that(2) [OF bd(3) e(2) m r u1 u2 u3])
  qed
qed

text \<open>
  \<^verbatim>\<open>luaO_int2fb\<close> rounds an integer up to a floating byte: the byte fits
  eight bits and \<^verbatim>\<open>luaO_fb2int\<close> gives back at least the integer, and less than a
  seventh more. \<^verbatim>\<open>UINT_MAX\<close>, whose increment wraps, is excepted.
\<close>

theorem int2fb_rounds_up:
  assumes "x \<noteq> - 1"
  shows "0 \<le> luaO_int2fb x \<and> luaO_int2fb x < 256 \<and> uint x \<le> luaO_fb2int (luaO_int2fb x) \<and>
    7 * (luaO_fb2int (luaO_int2fb x) - uint x) \<le> uint x"
proof (cases rule: int2fb_cases [OF assms])
  case 1
  then have "drop_bit 3 (uint x) = 0" by (simp add: drop_bit_eq_div)
  with 1 show ?thesis by (simp add: luaO_fb2int_def)
next
  case (2 f m)
  note p = fb2int_parts [OF 2(1-4), folded 2(5)]
  have "7 * (q - a) \<le> a" if "q < a + p" "7 * p < a" for a p q :: int using that by presburger
  from this [OF 2(7,8)] 2(6) p(2,3) show ?thesis unfolding p(1) by blast
qed

theorem int2fb_rounds_up_witness: "luaO_fb2int (luaO_int2fb 1000) - 1000 \<le> 142"
  using int2fb_rounds_up [of 1000] by simp

subsection \<open>Logarithms\<close>

lemma ilog2_unique:
  assumes "2 ^ k \<le> n" "n < 2 * 2 ^ k" shows "ilog2 n = k"
proof -
  have "0 < n" using assms(1) by (metis gr0I not_le zero_less_numeral zero_less_power)
  then have b: "2 ^ ilog2 n \<le> n" "n < 2 * 2 ^ ilog2 n" using ilog2_bounds by auto
  have "(2::nat) ^ k < 2 ^ Suc (ilog2 n)" "(2::nat) ^ ilog2 n < 2 ^ Suc k"
    using assms b by simp_all
  then have "k < Suc (ilog2 n)" "ilog2 n < Suc k" by (simp_all only: power_strict_increasing_iff one_less_numeral_iff semiring_norm)
  then show ?thesis by simp
qed

lemma log_2_nth:
  assumes "0 < n" "n < 256" shows "log_2 ! n = int (ilog2 n) + 1"
proof -
  have l: "log_2 = 0 # map (\<lambda>n. int (ilog2 n) + 1) [1..<256]" by code_simp
  from assms(1) obtain k where "n = Suc k" by (cases n) simp_all
  with assms(2) nth_upt [of 1 k 256] show ?thesis
    unfolding l by (simp only: nth_Cons_Suc nth_map length_upt plus_1_eq_Suc less_diff_conv2) simp
qed

lemma ilog2_div_256: "256 \<le> n \<Longrightarrow> ilog2 n = ilog2 (n div 256) + 8"
proof (rule ilog2_unique)
  assume a: "256 \<le> n"
  have "2 ^ ilog2 (n div 256) \<le> n div 256" "n div 256 < 2 * 2 ^ ilog2 (n div 256)"
    using a ilog2_bounds [of "n div 256"] by (simp_all add: div_greater_zero_iff)
  then show "2 ^ (ilog2 (n div 256) + 8) \<le> n" "n < 2 * 2 ^ (ilog2 (n div 256) + 8)"
    by (simp_all add: power_add less_eq_div_iff_mult_less_eq div_less_iff_less_mult)
qed

lemma log2_loop_ilog2: "x \<noteq> 0 \<Longrightarrow> log2_loop x l = l + 1 + int (ilog2 (unat x))"
proof (induction x l rule: log2_loop.induct)
  case (1 x l)
  show ?case
  proof (cases "x \<ge> 256")
    case True
    then have g: "256 \<le> unat x" by (simp add: word_le_nat_alt)
    have d: "unat (drop_bit 8 x) = unat x div 256" by (simp add: drop_bit_eq_div unat_div)
    then have "0 < unat (drop_bit 8 x)" using g by (simp add: div_greater_zero_iff)
    then have "drop_bit 8 x \<noteq> 0" by auto
    from "1.IH" [OF True this] True show ?thesis
      by (simp add: log2_loop.simps [of x] d ilog2_div_256 [OF g])
  next
    case False
    then have "unat x < 256" "0 < unat x" using "1.prems" by (auto simp: word_le_nat_alt unat_gt_0)
    then show ?thesis using False log_2_nth [of "unat x"] by (simp add: log2_loop.simps [of x])
  qed
qed

text \<open>
  \<^verbatim>\<open>luaO_log2\<close>, which shifts bytes and looks up a table, is the floor of
  the logarithm of its argument, and -1 for zero.
\<close>

theorem luaO_log2_floor:
  "if x = 0 then luaO_log2 x = -1
   else 0 \<le> luaO_log2 x \<and> 2 ^ nat (luaO_log2 x) \<le> unat x \<and> unat x < 2 * 2 ^ nat (luaO_log2 x)"
proof (cases "x = 0")
  case False
  then have "0 < unat x" by (simp add: unat_gt_0)
  with False ilog2_bounds [of "unat x"] show ?thesis by (simp add: luaO_log2_def log2_loop_ilog2)
next
  case True
  then show ?thesis by (simp add: luaO_log2_def log2_loop.simps log_2_def)
qed

end
