(* ===== verification/LuaString.thy ===== *)
theory LuaString
  imports LuaObject "HOL-Library.Multiset"
begin

unbundle bit_operations_syntax

section \<open>The string table\<close>

text \<open>
  \<^verbatim>\<open>lstring.c\<close>: every Lua string is interned in the global hash table of strings, whose
  buckets are linked lists. A bucket is the list of its strings in the order of the links; a string
  object carries its address, its colour, its hash and its bytes. Allocation succeeds.
\<close>

subsection \<open>Data\<close>

record TString =
  ts_addr :: nat
  ts_marked :: "8 word"
  ts_hash :: "32 word"
  ts_str :: string

record stringtable =
  st_hash :: "TString list list"
  st_nuse :: nat

record global_State =
  strt :: stringtable
  currentwhite :: "8 word"
  gc_sweepstring :: bool
  next_addr :: nat

definition WHITEBITS :: "8 word" where "WHITEBITS = 3"

definition luaC_white :: "global_State \<Rightarrow> 8 word" where
  "luaC_white g = currentwhite g AND WHITEBITS"

definition isdead :: "global_State \<Rightarrow> TString \<Rightarrow> bool" where
  "isdead g ts \<longleftrightarrow> ts_marked ts AND (currentwhite g XOR WHITEBITS) AND WHITEBITS \<noteq> 0"

definition changewhite :: "TString \<Rightarrow> TString" where
  "changewhite ts = ts\<lparr>ts_marked := ts_marked ts XOR WHITEBITS\<rparr>"

definition lmod :: "32 word \<Rightarrow> nat \<Rightarrow> nat" where
  "lmod h sz = unat (h AND of_nat (sz - 1))"

abbreviation st_size :: "stringtable \<Rightarrow> nat" where "st_size tb \<equiv> length (st_hash tb)"

definition MAX_SIZET :: nat where "MAX_SIZET = 18446744073709551613"

definition sizeof_TString :: nat where "sizeof_TString = 24"

definition MAX_INT :: nat where "MAX_INT = 2147483645"

subsection \<open>Operations\<close>

function hash_loop :: "string \<Rightarrow> nat \<Rightarrow> nat \<Rightarrow> 32 word \<Rightarrow> 32 word" where
  "hash_loop str step l1 h =
     (if l1 \<ge> step \<and> step > 0
      then hash_loop str step (l1 - step)
             (h XOR (push_bit 5 h + drop_bit 2 h + of_char (str ! (l1 - 1))))
      else h)"
  by pat_completeness auto
termination by (relation "measure (\<lambda>(str, step, l1, h). l1)") auto

declare hash_loop.simps [simp del]

definition luaS_hash :: "string \<Rightarrow> 32 word" where
  "luaS_hash str =
     (let l = length str; step = l div 32 + 1 in hash_loop str step l (of_nat l))"

definition chain_into :: "TString \<Rightarrow> TString list list \<Rightarrow> TString list list" where
  "chain_into ts newhash =
     (let h1 = lmod (ts_hash ts) (length newhash) in newhash[h1 := ts # newhash ! h1])"

definition luaS_resize :: "global_State \<Rightarrow> nat \<Rightarrow> global_State" where
  "luaS_resize g newsize =
     (if gc_sweepstring g then g
      else g\<lparr>strt := (strt g)\<lparr>st_hash :=
             fold chain_into (concat (st_hash (strt g))) (replicate newsize [])\<rparr>\<rparr>)"

definition newlstr :: "global_State \<Rightarrow> string \<Rightarrow> 32 word \<Rightarrow> (TString \<times> global_State) res" where
  "newlstr g str h =
     (if length str + 1 > MAX_SIZET - sizeof_TString
      then Inl (RunError ''memory allocation error: block too big'')
      else
        let ts = \<lparr>ts_addr = next_addr g, ts_marked = luaC_white g, ts_hash = h, ts_str = str\<rparr>;
            tb = (strt g)\<lparr>st_hash := chain_into ts (st_hash (strt g)),
                          st_nuse := st_nuse (strt g) + 1\<rparr>;
            g' = g\<lparr>strt := tb, next_addr := next_addr g + 1\<rparr>
        in Inr (ts, if st_nuse tb > st_size tb \<and> st_size tb \<le> MAX_INT div 2
                    then luaS_resize g' (st_size tb * 2) else g'))"

text \<open>The walk of a bucket: the string with the bytes, whitened again if it was dead.\<close>

fun find_string :: "global_State \<Rightarrow> string \<Rightarrow> TString list \<Rightarrow> (TString \<times> TString list) option" where
  "find_string g str [] = None"
| "find_string g str (ts # o_next) =
     (if ts_str ts = str
      then let ts' = (if isdead g ts then changewhite ts else ts) in Some (ts', ts' # o_next)
      else map_option (\<lambda>(r, os). (r, ts # os)) (find_string g str o_next))"

definition luaS_newlstr :: "global_State \<Rightarrow> string \<Rightarrow> (TString \<times> global_State) res" where
  "luaS_newlstr g str =
     (let h = luaS_hash str; i = lmod h (st_size (strt g)) in
      case find_string g str (st_hash (strt g) ! i) of
        Some (ts, bucket) \<Rightarrow>
          Inr (ts, g\<lparr>strt := (strt g)\<lparr>st_hash := (st_hash (strt g))[i := bucket]\<rparr>\<rparr>)
      | None \<Rightarrow> newlstr g str h)"

subsection \<open>The invariant\<close>

definition bucket_ok :: "nat \<Rightarrow> nat \<Rightarrow> TString list \<Rightarrow> bool" where
  "bucket_ok sz i b \<longleftrightarrow> (\<forall>ts\<in>set b. ts_hash ts = luaS_hash (ts_str ts) \<and> lmod (ts_hash ts) sz = i)"

definition table_strings :: "global_State \<Rightarrow> TString list" where
  "table_strings g = concat (st_hash (strt g))"

definition power_of_two :: "nat \<Rightarrow> bool" where
  "power_of_two n \<longleftrightarrow> (\<exists>k. n = 2 ^ k)"

definition strt_ok :: "global_State \<Rightarrow> bool" where
  "strt_ok g \<longleftrightarrow>
     power_of_two (st_size (strt g)) \<and> st_size (strt g) \<le> 2 ^ 31 \<and>
     (\<forall>i < st_size (strt g). bucket_ok (st_size (strt g)) i (st_hash (strt g) ! i)) \<and>
     distinct (map ts_str (table_strings g)) \<and> distinct (map ts_addr (table_strings g)) \<and>
     (\<forall>ts\<in>set (table_strings g). ts_addr ts < next_addr g) \<and>
     currentwhite g AND WHITEBITS \<in> {1, 2} \<and>
     (\<forall>ts\<in>set (table_strings g). ts_marked ts AND WHITEBITS \<noteq> 3)"

text \<open>What the interned strings are: which address stands for which bytes.\<close>

definition interned :: "global_State \<Rightarrow> (string \<times> nat) set" where
  "interned g = (\<lambda>ts. (ts_str ts, ts_addr ts)) ` set (table_strings g)"

lemma lmod_less: "0 < sz \<Longrightarrow> sz \<le> 2 ^ 32 \<Longrightarrow> lmod h sz < sz"
proof -
  assume "0 < sz" "sz \<le> 2 ^ 32"
  have "h AND of_nat (sz - 1) \<le> (of_nat (sz - 1) :: 32 word)" by (rule word_and_le1)
  then have "unat (h AND of_nat (sz - 1)) \<le> unat (of_nat (sz - 1) :: 32 word)"
    by (simp only: word_le_nat_alt)
  also have "\<dots> \<le> sz - 1" by (simp add: unat_of_nat)
  finally show ?thesis using \<open>0 < sz\<close> by (simp add: lmod_def)
qed

lemma power_of_two_pos: "power_of_two n \<Longrightarrow> 0 < n"
  by (auto simp: power_of_two_def)


lemma mset_concat_update:
  "i < length hs \<Longrightarrow> mset (concat (hs[i := x # hs ! i])) = add_mset x (mset (concat hs))"
  by (induction hs arbitrary: i) (auto split: nat.splits simp: nth_Cons')

lemma mset_concat_replace:
  "i < length hs \<Longrightarrow> mset (hs ! i) = mset b \<Longrightarrow> mset (concat (hs[i := b])) = mset (concat hs)"
  by (induction hs arbitrary: i) (auto split: nat.splits simp: nth_Cons')

lemma distinct_map_mset: "mset xs = mset ys \<Longrightarrow> distinct (map f xs) = distinct (map f ys)"
  by (metis distinct_count_atmost_1 mset_map mset_eq_setD)

definition buckets_ok :: "TString list list \<Rightarrow> bool" where
  "buckets_ok hs \<longleftrightarrow> (\<forall>i < length hs. bucket_ok (length hs) i (hs ! i))"

lemma bucket_ok_Cons:
  "bucket_ok sz i (ts # b) \<longleftrightarrow>
     ts_hash ts = luaS_hash (ts_str ts) \<and> lmod (ts_hash ts) sz = i \<and> bucket_ok sz i b"
  by (auto simp: bucket_ok_def)

lemma chain_into_ok:
  assumes "0 < length hs" "length hs \<le> 2 ^ 32"
  shows "length (chain_into ts hs) = length hs"
    "mset (concat (chain_into ts hs)) = add_mset ts (mset (concat hs))"
    "ts_hash ts = luaS_hash (ts_str ts) \<Longrightarrow> buckets_ok hs \<Longrightarrow> buckets_ok (chain_into ts hs)"
proof -
  show "length (chain_into ts hs) = length hs"
    "mset (concat (chain_into ts hs)) = add_mset ts (mset (concat hs))"
    using lmod_less [OF assms] by (simp_all add: chain_into_def Let_def mset_concat_update)
  assume h: "ts_hash ts = luaS_hash (ts_str ts)" and ok: "buckets_ok hs"
  let ?h = "lmod (ts_hash ts) (length hs)"
  have "bucket_ok (length hs) i ((hs[?h := ts # hs ! ?h]) ! i)" if "i < length hs" for i
    using that h ok by (cases "i = ?h") (simp_all add: buckets_ok_def bucket_ok_Cons)
  then show "buckets_ok (chain_into ts hs)"
    by (simp add: buckets_ok_def chain_into_def Let_def)
qed

lemma fold_chain_into:
  assumes "0 < length hs" "length hs \<le> 2 ^ 32" "\<forall>ts\<in>set tss. ts_hash ts = luaS_hash (ts_str ts)" "buckets_ok hs"
  shows "length (fold chain_into tss hs) = length hs"
    "mset (concat (fold chain_into tss hs)) = mset tss + mset (concat hs)"
    "buckets_ok (fold chain_into tss hs)"
proof (atomize (full), use assms in \<open>induction tss arbitrary: hs\<close>)
  case (Cons ts tss)
  note c = chain_into_ok [OF Cons.prems(1,2), of ts]
  have "buckets_ok (chain_into ts hs)" using c(3) Cons.prems(3,4) by simp
  with Cons.IH [of "chain_into ts hs"] Cons.prems c(1,2) show ?case by simp
qed simp

lemma interned_mset: "mset (table_strings g) = mset (table_strings g') \<Longrightarrow> interned g = interned g'"
  by (auto simp: interned_def dest: mset_eq_setD)

lemma buckets_hash: "buckets_ok hs \<Longrightarrow> \<forall>ts\<in>set (concat hs). ts_hash ts = luaS_hash (ts_str ts)"
  by (fastforce simp: buckets_ok_def bucket_ok_def in_set_conv_nth)

lemma strt_ok_alt:
  "strt_ok g \<longleftrightarrow> power_of_two (st_size (strt g)) \<and> st_size (strt g) \<le> 2 ^ 31 \<and>
     buckets_ok (st_hash (strt g)) \<and>
     distinct (map ts_str (table_strings g)) \<and> distinct (map ts_addr (table_strings g)) \<and>
     (\<forall>ts\<in>set (table_strings g). ts_addr ts < next_addr g) \<and>
     currentwhite g AND WHITEBITS \<in> {1, 2} \<and>
     (\<forall>ts\<in>set (table_strings g). ts_marked ts AND WHITEBITS \<noteq> 3)"
  by (simp add: strt_ok_def buckets_ok_def)

lemma luaS_resize_ok:
  assumes "strt_ok g" "power_of_two newsize" "newsize \<le> 2 ^ 31"
  shows "strt_ok (luaS_resize g newsize) \<and> interned (luaS_resize g newsize) = interned g"
proof (cases "gc_sweepstring g")
  case False
  let ?hs = "replicate newsize []" and ?g = "luaS_resize g newsize"
  have ok: "buckets_ok (st_hash (strt g))" using assms(1) by (simp add: strt_ok_alt)
  have e: "buckets_ok ?hs" by (simp add: buckets_ok_def bucket_ok_def)
  have n: "0 < length ?hs" "length ?hs \<le> 2 ^ 32" using assms(2,3) power_of_two_pos by auto
  note f = fold_chain_into [OF n buckets_hash [OF ok] e]
  have m: "mset (table_strings ?g) = mset (table_strings g)"
    using f(2) False by (simp add: table_strings_def luaS_resize_def)
  have s: "st_size (strt ?g) = newsize" "buckets_ok (st_hash (strt ?g))" "next_addr ?g = next_addr g"
    "currentwhite ?g = currentwhite g"
    using f(1,3) False by (simp_all add: luaS_resize_def)
  have "strt_ok ?g"
    using assms s unfolding strt_ok_alt s mset_eq_setD [OF m] distinct_map_mset [OF m] by blast
  with interned_mset [OF m] show ?thesis by simp
qed (use assms in \<open>simp add: luaS_resize_def\<close>)



subsection \<open>Interning\<close>

lemma and_mask_dist: "a AND ((b XOR m) AND m) = (a AND m) AND ((b AND m) XOR (m :: 8 word))"
  by (rule bit_word_eqI) (auto simp: bit_simps)

lemma xor_mask_dist: "(a XOR m) AND m = (a AND m) XOR (m :: 8 word)"
  by (rule bit_word_eqI) (auto simp: bit_simps)

lemma and_3_cases: "(a :: 8 word) AND 3 = 0 \<or> a AND 3 = 1 \<or> a AND 3 = 2 \<or> a AND 3 = 3"
proof -
  have "a AND 3 = take_bit 2 a" by (simp add: take_bit_eq_mask mask_eq_exp_minus_1)
  then have "unat (a AND 3) = take_bit 2 (unat a)" by (simp only: unsigned_take_bit_eq)
  then have "unat (a AND 3) < 4" by (simp add: take_bit_eq_mod)
  then have "unat (a AND 3) \<in> {0, 1, 2, 3}" by auto
  then show ?thesis by (auto simp: word_unat_eq_iff)
qed

lemma isdead_iff:
  "isdead g ts \<longleftrightarrow> (ts_marked ts AND 3) AND ((currentwhite g AND 3) XOR 3) \<noteq> 0"
  unfolding isdead_def WHITEBITS_def and_mask_dist ..

lemma changewhite_alive:
  assumes "currentwhite g AND WHITEBITS \<in> {1, 2}" "ts_marked ts AND WHITEBITS \<noteq> 3" "isdead g ts"
  shows "\<not> isdead g (changewhite ts)" "ts_marked (changewhite ts) AND WHITEBITS \<noteq> 3"
  using assms and_3_cases [of "ts_marked ts"]
  by (auto simp: isdead_iff changewhite_def WHITEBITS_def xor_mask_dist)

lemma find_string_None: "find_string g str b = None \<longleftrightarrow> str \<notin> ts_str ` set b"
  by (induction b) (auto simp: Let_def)

text \<open>What a walk that finds the string keeps of the bucket: all but the colours.\<close>

abbreviation "ts_id ts \<equiv> (ts_hash ts, ts_str ts, ts_addr ts)"

lemma find_string_Some:
  assumes "find_string g str b = Some (r, b')"
    "currentwhite g AND WHITEBITS \<in> {1, 2}" "\<forall>ts\<in>set b. ts_marked ts AND WHITEBITS \<noteq> 3"
  shows "ts_str r = str" "r \<in> set b'" "map ts_id b' = map ts_id b" "\<not> isdead g r"
    "\<forall>ts\<in>set b'. ts_marked ts AND WHITEBITS \<noteq> 3"
proof (atomize (full), use assms in \<open>induction b arbitrary: b'\<close>)
  case (Cons ts b)
  show ?case
  proof (cases "ts_str ts = str")
    case True
    then show ?thesis
      using Cons.prems changewhite_alive [of g ts] by (auto simp: Let_def changewhite_def split: if_splits)
  next
    case False
    with Cons show ?thesis by (auto split: option.splits)
  qed
qed simp

lemma table_strings_update:
  assumes "i < length hs" "map ts_id b = map ts_id (hs ! i)"
  shows "map ts_id (concat (hs[i := b])) = map ts_id (concat hs)"
proof -
  have "map (map ts_id) (hs[i := b]) = (map (map ts_id) hs)[i := map (map ts_id) hs ! i]"
    using assms by (simp add: map_update)
  then show ?thesis by (simp only: map_concat list_update_id)
qed


lemma bucket_ok_ids: "map ts_id b = map ts_id b' \<Longrightarrow> bucket_ok sz i b = bucket_ok sz i b'"
proof -
  have "bucket_ok sz i b \<longleftrightarrow> (\<forall>(h, s, a)\<in>set (map ts_id b). h = luaS_hash s \<and> lmod h sz = i)" for b
    by (auto simp: bucket_ok_def)
  note e = this
  show "map ts_id b = map ts_id b' \<Longrightarrow> ?thesis" by (simp only: e)
qed

lemma map_ts_ids:
  assumes "map ts_id xs = map ts_id ys"
  shows "map ts_str xs = map ts_str ys" "map ts_addr xs = map ts_addr ys"
  using arg_cong [OF assms, of "map (\<lambda>(h, s, a). s)"] arg_cong [OF assms, of "map (\<lambda>(h, s, a). a)"]
  by (simp_all add: comp_def)

lemma interned_ids: "map ts_id (table_strings g) = map ts_id (table_strings g') \<Longrightarrow> interned g = interned g'"
proof -
  have "interned g = (\<lambda>(h, s, a). (s, a)) ` set (map ts_id (table_strings g))" for g
    by (simp only: set_map image_image interned_def split_beta fst_conv snd_conv)
  note e = this
  show "map ts_id (table_strings g) = map ts_id (table_strings g') \<Longrightarrow> ?thesis" by (simp only: e)
qed

lemma luaS_newlstr_found:
  assumes "strt_ok g" "i = lmod (luaS_hash str) (st_size (strt g))"
    "find_string g str (st_hash (strt g) ! i) = Some (ts, b)"
    "g' = g\<lparr>strt := (strt g)\<lparr>st_hash := (st_hash (strt g))[i := b]\<rparr>\<rparr>"
  shows "strt_ok g' \<and> ts_str ts = str \<and> \<not> isdead g' ts \<and> ts \<in> set (table_strings g') \<and>
    interned g' = interned g"
proof -
  let ?hs = "st_hash (strt g)"
  have i: "i < length ?hs"
    unfolding assms(2) using assms(1) by (intro lmod_less power_of_two_pos) (simp_all add: strt_ok_def)
  have sub: "set (?hs ! i) \<subseteq> set (table_strings g)"
    using nth_mem [OF i] by (auto simp: table_strings_def)
  have w: "currentwhite g AND WHITEBITS \<in> {1, 2}" "\<forall>ts\<in>set (table_strings g). ts_marked ts AND WHITEBITS \<noteq> 3"
    using assms(1) by (simp_all add: strt_ok_def)
  note f = find_string_Some [OF assms(3) w(1)]
  have wi: "\<forall>ts\<in>set (?hs ! i). ts_marked ts AND WHITEBITS \<noteq> 3" using w(2) sub by blast
  note f = f [OF wi]
  have t: "table_strings g' = concat (?hs[i := b])" by (simp add: assms(4) table_strings_def)
  have ids: "map ts_id (table_strings g') = map ts_id (table_strings g)"
    unfolding t table_strings_def [of g] by (rule table_strings_update [OF i f(3)])
  have bk: "buckets_ok (st_hash (strt g'))"
  proof -
    have "buckets_ok ?hs" using assms(1) unfolding strt_ok_alt by blast
    then have "bucket_ok (length ?hs) j (?hs[i := b] ! j)" if "j < length ?hs" for j
      using that bucket_ok_ids [OF f(3)] by (cases "j = i") (simp_all add: buckets_ok_def)
    then show ?thesis by (simp add: assms(4) buckets_ok_def)
  qed
  have st: "set (table_strings g') \<subseteq> set b \<union> set (table_strings g)"
    unfolding t using set_update_subset_insert [of ?hs i b] by (auto simp: table_strings_def)
  have mk: "\<forall>ts\<in>set (table_strings g'). ts_marked ts AND WHITEBITS \<noteq> 3" using st w(2) f(5) by blast
  have ad: "\<forall>ts\<in>set (table_strings g'). ts_addr ts < next_addr g'"
  proof -
    have "\<forall>a\<in>set (map ts_addr (table_strings g)). a < next_addr g" using assms(1) by (simp add: strt_ok_def)
    then show ?thesis unfolding map_ts_ids(2) [OF ids, symmetric] by (simp add: assms(4))
  qed
  have c: "st_size (strt g') = st_size (strt g)" "currentwhite g' = currentwhite g"
    "isdead g' ts = isdead g ts" by (simp_all add: assms(4) isdead_def)
  have "strt_ok g'"
    using assms(1) bk mk ad unfolding strt_ok_alt c map_ts_ids [OF ids] by blast
  moreover have "b \<in> set (?hs[i := b])" using i by (rule set_update_memI)
  then have "ts \<in> set (table_strings g')" unfolding t using f(2) by auto
  ultimately show ?thesis using f(1,4) interned_ids [OF ids] unfolding c by blast
qed

lemma table_strings_in_bucket:
  assumes "strt_ok g" "ts \<in> set (table_strings g)"
  shows "ts \<in> set (st_hash (strt g) ! lmod (luaS_hash (ts_str ts)) (st_size (strt g)))"
proof -
  obtain i where "i < length (st_hash (strt g))" "ts \<in> set (st_hash (strt g) ! i)"
    using assms(2) unfolding table_strings_def by (metis UN_E in_set_conv_nth set_concat)
  moreover from this assms(1) have "lmod (ts_hash ts) (st_size (strt g)) = i" "ts_hash ts = luaS_hash (ts_str ts)"
    unfolding strt_ok_def bucket_ok_def by blast+
  ultimately show ?thesis by metis
qed


lemma power_of_two_double: "power_of_two n \<Longrightarrow> power_of_two (n * 2)"
  unfolding power_of_two_def by (metis power_Suc2)

lemma newlstr_ok:
  assumes "strt_ok g" "length str < MAX_SIZET - sizeof_TString" "str \<notin> ts_str ` set (table_strings g)"
  shows "\<exists>ts g'. newlstr g str (luaS_hash str) = Inr (ts, g') \<and> strt_ok g' \<and> ts_str ts = str \<and>
    \<not> isdead g' ts \<and> interned g' = insert (str, ts_addr ts) (interned g)"
proof -
  define ts where "ts = \<lparr>ts_addr = next_addr g, ts_marked = luaC_white g,
    ts_hash = luaS_hash str, ts_str = str\<rparr>"
  define tb where "tb = (strt g)\<lparr>st_hash := chain_into ts (st_hash (strt g)), st_nuse := st_nuse (strt g) + 1\<rparr>"
  define g1 where "g1 = g\<lparr>strt := tb, next_addr := next_addr g + 1\<rparr>"
  define grow where "grow = (st_nuse tb > st_size tb \<and> st_size tb \<le> MAX_INT div 2)"
  define g2 where "g2 = (if grow then luaS_resize g1 (st_size tb * 2) else g1)"
  have n: "newlstr g str (luaS_hash str) = Inr (ts, g2)"
    using assms(2) by (simp add: newlstr_def Let_def ts_def tb_def g1_def g2_def grow_def)
  have sz: "0 < st_size (strt g)" "st_size (strt g) \<le> 2 ^ 32" "buckets_ok (st_hash (strt g))"
    using assms(1) power_of_two_pos unfolding strt_ok_alt by auto
  note c = chain_into_ok [OF sz(1,2), of ts]
  have tab: "mset (table_strings g1) = mset (ts # table_strings g)"
    using c(2) by (simp add: g1_def tb_def table_strings_def)
  have fields: "st_size (strt g1) = st_size (strt g)" "next_addr g1 = Suc (next_addr g)"
    "currentwhite g1 = currentwhite g" "buckets_ok (st_hash (strt g1))"
    using c(1,3) sz(3) by (simp_all add: g1_def tb_def ts_def)
  have w: "currentwhite g AND WHITEBITS \<in> {1, 2}" using assms(1) by (simp add: strt_ok_def)
  have "luaC_white g AND WHITEBITS = luaC_white g"
    unfolding luaC_white_def by (rule bit_word_eqI) (auto simp: bit_simps)
  then have wh: "ts_marked ts AND WHITEBITS \<noteq> 3" "\<not> isdead g ts"
    using w by (auto simp: ts_def luaC_white_def isdead_iff WHITEBITS_def)
  have d: "distinct (map ts_str (ts # table_strings g))" "distinct (map ts_addr (ts # table_strings g))"
    using assms(1,3) unfolding strt_ok_alt by (auto simp: ts_def)
  have s: "set (table_strings g1) = insert ts (set (table_strings g))"
    using mset_eq_setD [OF tab] by simp
  have ok1: "strt_ok g1"
    using assms(1) d wh(1) fields(4) unfolding strt_ok_alt distinct_map_mset [OF tab] fields(1-3) s
    by (auto simp: ts_def less_Suc_eq)
  have "strt_ok g2 \<and> interned g2 = interned g1"
  proof (cases grow)
    case True
    have "st_size tb * 2 \<le> 2 ^ 31" "power_of_two (st_size tb * 2)"
      using True ok1 by (auto simp: grow_def MAX_INT_def strt_ok_def g1_def intro: power_of_two_double)
    from luaS_resize_ok [OF ok1 this(2,1)] True show ?thesis by (simp add: g2_def)
  qed (simp add: g2_def ok1)
  moreover have "interned g1 = insert (str, ts_addr ts) (interned g)"
    unfolding interned_def s by (simp add: ts_def)
  moreover have "currentwhite g2 = currentwhite g" by (simp add: g2_def g1_def luaS_resize_def)
  then have "\<not> isdead g2 ts" using wh(2) by (simp add: isdead_def)
  ultimately show ?thesis using n by (auto simp: ts_def)
qed

lemma luaS_newlstr_ok:
  assumes "strt_ok g" "length str < MAX_SIZET - sizeof_TString"
  shows "\<exists>ts g'. luaS_newlstr g str = Inr (ts, g') \<and> strt_ok g' \<and> ts_str ts = str \<and>
    \<not> isdead g' ts \<and> interned g' = insert (str, ts_addr ts) (interned g)"
proof -
  define i where "i = lmod (luaS_hash str) (st_size (strt g))"
  show ?thesis
  proof (cases "find_string g str (st_hash (strt g) ! i)")
    case None
    then have "str \<notin> ts_str ` set (table_strings g)"
      unfolding find_string_None i_def using table_strings_in_bucket [OF assms(1)] by auto
    from newlstr_ok [OF assms this] None show ?thesis by (simp add: luaS_newlstr_def i_def)
  next
    case (Some r)
    obtain ts b where r: "r = (ts, b)" by (cases r)
    define g' where "g' = g\<lparr>strt := (strt g)\<lparr>st_hash := (st_hash (strt g))[i := b]\<rparr>\<rparr>"
    have n: "luaS_newlstr g str = Inr (ts, g')"
      using Some unfolding r by (simp add: luaS_newlstr_def i_def g'_def)
    note f = luaS_newlstr_found [OF assms(1) i_def Some [unfolded r] g'_def]
    then have "(str, ts_addr ts) \<in> interned g'" by (auto simp: interned_def)
    then have "interned g' = insert (str, ts_addr ts) (interned g)" using f by auto
    with n f show ?thesis by blast
  qed
qed

lemma interned_inj:
  assumes "strt_ok g" "(s, a) \<in> interned g" "(s', a') \<in> interned g"
  shows "s = s' \<longleftrightarrow> a = a'"
  using assms unfolding strt_ok_def distinct_map interned_def inj_on_def by fastforce

text \<open>
  C7: \<^verbatim>\<open>luaS_newlstr\<close> returns a string with the given bytes that is not dead, so
  the collector keeps it; the invariant of the string table holds after the call, the string is in
  the table and every address still stands for the bytes it stood for.
\<close>

theorem luaS_newlstr_interns:
  assumes "strt_ok g" "length str < MAX_SIZET - sizeof_TString"
  shows "\<exists>ts g'. luaS_newlstr g str = Inr (ts, g') \<and> strt_ok g' \<and> ts_str ts = str \<and>
    \<not> isdead g' ts \<and> interned g' = insert (str, ts_addr ts) (interned g)"
  by (rule luaS_newlstr_ok [OF assms])

text \<open>
  C8: two references to interned strings are equal exactly when the bytes are: two calls
  of \<^verbatim>\<open>luaS_newlstr\<close> return the same address if and only if they get the same bytes.
\<close>

theorem luaS_newlstr_unique:
  assumes "strt_ok g" "length s1 < MAX_SIZET - sizeof_TString" "length s2 < MAX_SIZET - sizeof_TString"
    "luaS_newlstr g s1 = Inr (t1, g1)" "luaS_newlstr g1 s2 = Inr (t2, g2)"
  shows "ts_addr t1 = ts_addr t2 \<longleftrightarrow> s1 = s2"
proof -
  have 1: "strt_ok g1" "interned g1 = insert (s1, ts_addr t1) (interned g)"
    using luaS_newlstr_ok [OF assms(1,2)] assms(4) by auto
  have 2: "strt_ok g2" "interned g2 = insert (s2, ts_addr t2) (interned g1)"
    using luaS_newlstr_ok [OF 1(1) assms(3)] assms(5) by auto
  show ?thesis using interned_inj [OF 2(1), of s1 "ts_addr t1" s2 "ts_addr t2"] 1(2) 2(2) by auto
qed

definition strt_init :: global_State where
  "strt_init = \<lparr>strt = \<lparr>st_hash = replicate 2 [], st_nuse = 0\<rparr>, currentwhite = 33,
     gc_sweepstring = False, next_addr = 0\<rparr>"

lemma strt_ok_init: "strt_ok strt_init"
proof -
  have "power_of_two 2" unfolding power_of_two_def by (metis power_one_right)
  then show ?thesis
    by (auto simp: strt_init_def strt_ok_def bucket_ok_def table_strings_def WHITEBITS_def less_2_cases_iff)
qed

theorem luaS_newlstr_interns_witness:
  "\<exists>ts g. luaS_newlstr strt_init ''print'' = Inr (ts, g) \<and> strt_ok g \<and> ts_str ts = ''print''"
  using luaS_newlstr_interns [OF strt_ok_init, of "''print''"]
  by (auto simp: MAX_SIZET_def sizeof_TString_def)

theorem luaS_newlstr_unique_witness:
  "\<exists>t1 g1 t2 g2. luaS_newlstr strt_init ''a'' = Inr (t1, g1) \<and> luaS_newlstr g1 ''b'' = Inr (t2, g2) \<and>
    ts_addr t1 \<noteq> ts_addr t2"
proof -
  have l: "length ''a'' < MAX_SIZET - sizeof_TString" "length ''b'' < MAX_SIZET - sizeof_TString"
    by (simp_all add: MAX_SIZET_def sizeof_TString_def)
  obtain t1 g1 where 1: "luaS_newlstr strt_init ''a'' = Inr (t1, g1)" "strt_ok g1"
    using luaS_newlstr_ok [OF strt_ok_init l(1)] by auto
  obtain t2 g2 where 2: "luaS_newlstr g1 ''b'' = Inr (t2, g2)"
    using luaS_newlstr_ok [OF 1(2) l(2)] by auto
  have "ts_addr t1 = ts_addr t2 \<longleftrightarrow> ''a'' = ''b''"
    by (rule luaS_newlstr_unique [OF strt_ok_init l 1(1) 2])
  with 1 2 show ?thesis by auto
qed

end
