(* ===== verification/LuaTable.thy ===== *)
theory LuaTable
  imports LuaString
begin

unbundle bit_operations_syntax

section \<open>Tables\<close>

text \<open>
  \<^verbatim>\<open>ltable.c\<close>: a table has an array part for the values of the integer keys
  \<open>1 .. sizearray\<close> and a hash part, a chained scatter table with Brent's variation. The node
  vector is a list and \<^verbatim>\<open>gnext\<close> an index into it; \<open>lastfree\<close> is an index too, that
  runs below zero as the pointer of the code does. \<open>isdummy\<close> says that the node vector is the
  shared \<^verbatim>\<open>dummynode\<close>. A pointer to a value that \<^verbatim>\<open>luaH_get\<close> and \<^verbatim>\<open>luaH_set\<close>
  return is a \<open>slot\<close>. Keys are never marked dead here: the collector alone does that. Allocation
  succeeds.
\<close>

subsection \<open>Data\<close>

record node =
  i_val :: tvalue
  i_key :: tvalue
  nk_next :: "nat option"

record table =
  flags :: "8 word"
  t_array :: "tvalue list"
  sizearray :: nat
  t_node :: "node list"
  lsizenode :: nat
  lastfree :: int
  isdummy :: bool
  metatable :: "nat option"

datatype slot = NilObject | ArraySlot nat | NodeSlot nat

definition empty_node :: node where
  "empty_node = \<lparr>i_val = Nil, i_key = Nil, nk_next = None\<rparr>"

definition MAXBITS :: nat where "MAXBITS = 26"

definition MAXASIZE :: int where "MAXASIZE = 2 ^ MAXBITS"

definition sizenode :: "table \<Rightarrow> nat" where
  "sizenode t = 2 ^ lsizenode t"

text \<open>Reading and writing through a pointer to a value.\<close>

definition slot_val :: "table \<Rightarrow> slot \<Rightarrow> tvalue" where
  "slot_val t p = (case p of NilObject \<Rightarrow> Nil | ArraySlot i \<Rightarrow> t_array t ! i
                   | NodeSlot i \<Rightarrow> i_val (t_node t ! i))"

definition set_slot :: "table \<Rightarrow> slot \<Rightarrow> tvalue \<Rightarrow> table" where
  "set_slot t p v = (case p of
       NilObject \<Rightarrow> t
     | ArraySlot i \<Rightarrow> t\<lparr>t_array := (t_array t)[i := v]\<rparr>
     | NodeSlot i \<Rightarrow> t\<lparr>t_node := (t_node t)[i := (t_node t ! i)\<lparr>i_val := v\<rparr>]\<rparr>)"

subsection \<open>Hashing\<close>

definition hashpow2 :: "nat \<Rightarrow> 32 word \<Rightarrow> nat" where
  "hashpow2 ls n = lmod n (2 ^ ls)"

definition hashmod :: "nat \<Rightarrow> 32 word \<Rightarrow> nat" where
  "hashmod ls n = unat n mod ((2 ^ ls - 1) OR 1)"

definition hashnum :: "nat \<Rightarrow> lua_Number \<Rightarrow> nat" where
  "hashnum ls n =
     (if luai_numeq n 0 then 0
      else hashmod ls (ucast n + ucast (drop_bit 32 n)))"

definition hashpointer :: "nat \<Rightarrow> nat \<Rightarrow> nat" where
  "hashpointer ls p = hashmod ls (of_nat p)"

text \<open>The main position of a key in a node vector of \<open>2 ^ ls\<close> nodes; nil is never asked for.\<close>

fun mainpos :: "nat \<Rightarrow> tvalue \<Rightarrow> nat" where
  "mainpos ls (Number n) = hashnum ls n"
| "mainpos ls (String s) = hashpow2 ls (luaS_hash s)"
| "mainpos ls (Boolean b) = hashpow2 ls (if b then 1 else 0)"
| "mainpos ls (LightUserdata p) = hashpointer ls p"
| "mainpos ls (TableRef p) = hashpointer ls p"
| "mainpos ls (FunctionRef p) = hashpointer ls p"
| "mainpos ls (UserdataRef p) = hashpointer ls p"
| "mainpos ls (ThreadRef p) = hashpointer ls p"
| "mainpos ls Nil = hashpointer ls 0"

definition mainposition :: "table \<Rightarrow> tvalue \<Rightarrow> nat" where
  "mainposition t key = mainpos (lsizenode t) key"

definition arrayindex :: "tvalue \<Rightarrow> int" where
  "arrayindex key =
     (case key of
        Number n \<Rightarrow> (let k = number2int n in if luai_numeq (cast_num k) n then k else -1)
      | _ \<Rightarrow> -1)"

subsection \<open>Searching\<close>

text \<open>
  The \<^verbatim>\<open>do ... while (n)\<close> along a chain; \<open>Some i\<close> is the node found. A chain has at most as
  many nodes as the vector, which is the fuel it gets.
\<close>

fun find_chain :: "(tvalue \<Rightarrow> bool) \<Rightarrow> node list \<Rightarrow> nat \<Rightarrow> nat \<Rightarrow> nat option res" where
  "find_chain P ns 0 n = Inl OutOfFuel"
| "find_chain P ns (Suc fuel) n =
     (if n \<ge> length ns then Inl UndefinedAccess
      else if P (i_key (ns ! n)) then Inr (Some n)
      else case nk_next (ns ! n) of None \<Rightarrow> Inr None | Some m \<Rightarrow> find_chain P ns fuel m)"

definition chain_slot :: "(tvalue \<Rightarrow> bool) \<Rightarrow> table \<Rightarrow> nat \<Rightarrow> slot res" where
  "chain_slot P t n =
     rbind (find_chain P (t_node t) (length (t_node t)) n)
       (\<lambda>r. Inr (case r of None \<Rightarrow> NilObject | Some i \<Rightarrow> NodeSlot i))"

definition luaH_getnum :: "table \<Rightarrow> int \<Rightarrow> slot res" where
  "luaH_getnum t key =
     (if (of_int (key - 1) :: 32 word) < of_nat (sizearray t) then Inr (ArraySlot (nat (key - 1)))
      else let nk = cast_num key in
        chain_slot (\<lambda>k. case k of Number d \<Rightarrow> luai_numeq d nk | _ \<Rightarrow> False) t (hashnum (lsizenode t) nk))"

definition luaH_getstr :: "table \<Rightarrow> string \<Rightarrow> slot res" where
  "luaH_getstr t key =
     chain_slot (\<lambda>k. case k of String s \<Rightarrow> s = key | _ \<Rightarrow> False) t (hashpow2 (lsizenode t) (luaS_hash key))"

definition get_generic :: "table \<Rightarrow> tvalue \<Rightarrow> slot res" where
  "get_generic t key = chain_slot (\<lambda>k. luaO_rawequalObj k key) t (mainposition t key)"

definition luaH_get :: "table \<Rightarrow> tvalue \<Rightarrow> slot res" where
  "luaH_get t key =
     (case key of
        Nil \<Rightarrow> Inr NilObject
      | String s \<Rightarrow> luaH_getstr t s
      | Number n \<Rightarrow>
          (let k = number2int n in
           if luai_numeq (cast_num k) n then luaH_getnum t k else get_generic t key)
      | _ \<Rightarrow> get_generic t key)"

subsection \<open>Traversal\<close>

text \<open>\<^verbatim>\<open>LUA_QL\<close>, quotes around a name in a message.\<close>

definition quoted :: "string \<Rightarrow> string" where
  "quoted s = CHR 0x27 # s @ [CHR 0x27]"

definition findindex :: "table \<Rightarrow> tvalue \<Rightarrow> int res" where
  "findindex t key =
     (if key = Nil then Inr (-1)
      else let i = arrayindex key in
        if 0 < i \<and> i \<le> int (sizearray t) then Inr (i - 1)
        else rbind (find_chain (\<lambda>k. luaO_rawequalObj k key) (t_node t) (length (t_node t))
                      (mainposition t key))
          (\<lambda>r. case r of
             Some n \<Rightarrow> Inr (int n + int (sizearray t))
           | None \<Rightarrow> Inl (RunError (''invalid key to '' @ quoted ''next''))))"

text \<open>The two loops of \<^verbatim>\<open>luaH_next\<close>, from index \<open>i\<close> on.\<close>

function next_array :: "table \<Rightarrow> nat \<Rightarrow> (tvalue \<times> tvalue) option" where
  "next_array t i =
     (if i < sizearray t
      then if t_array t ! i \<noteq> Nil then Some (Number (cast_num (int i + 1)), t_array t ! i)
           else next_array t (i + 1)
      else None)"
  by pat_completeness auto
termination by (relation "measure (\<lambda>(t, i). sizearray t - i)") auto

function next_node :: "table \<Rightarrow> nat \<Rightarrow> (tvalue \<times> tvalue) option" where
  "next_node t i =
     (if i < sizenode t
      then if i_val (t_node t ! i) \<noteq> Nil then Some (i_key (t_node t ! i), i_val (t_node t ! i))
           else next_node t (i + 1)
      else None)"
  by pat_completeness auto
termination by (relation "measure (\<lambda>(t, i). sizenode t - i)") auto

declare next_array.simps [simp del] next_node.simps [simp del]

definition luaH_next :: "table \<Rightarrow> tvalue \<Rightarrow> (tvalue \<times> tvalue) option res" where
  "luaH_next t key =
     rbind (findindex t key) (\<lambda>i0.
       let i = nat (i0 + 1) in
       Inr (case next_array t i of
              Some kv \<Rightarrow> Some kv
            | None \<Rightarrow> next_node t (i - sizearray t)))"

subsection \<open>Rehash\<close>

text \<open>
  \<^verbatim>\<open>computesizes\<close>: the counters, the loop from \<open>i\<close> with the elements \<open>a\<close> counted so far,
  and the pair of the array size and the number of elements that go to the array.
\<close>

function computesizes_loop :: "nat list \<Rightarrow> nat \<Rightarrow> nat \<Rightarrow> nat \<Rightarrow> nat \<Rightarrow> nat \<Rightarrow> (nat \<times> nat) res" where
  "computesizes_loop nums narray i a na n =
     (if 2 ^ i div 2 < narray then
        if i \<ge> length nums then Inl UndefinedAccess
        else
          let a' = a + nums ! i;
              (n', na') = (if nums ! i > 0 \<and> a' > 2 ^ i div 2 then (2 ^ i, a') else (n, na))
          in if a' = narray then Inr (n', na')
             else computesizes_loop nums narray (i + 1) a' na' n'
      else Inr (n, na))"
  by pat_completeness auto
termination
  by (relation "measure (\<lambda>(nums, narray, i, a, na, n). length nums - i)") auto

declare computesizes_loop.simps [simp del]

definition computesizes :: "nat list \<Rightarrow> nat \<Rightarrow> (nat \<times> nat) res" where
  "computesizes nums narray = computesizes_loop nums narray 0 0 0 0"

definition countint :: "tvalue \<Rightarrow> nat list \<Rightarrow> nat \<times> nat list" where
  "countint key nums =
     (let k = arrayindex key in
      if 0 < k \<and> k \<le> MAXASIZE
      then let j = nat (ceillog2 (of_int k)) in (1, nums[j := nums ! j + 1])
      else (0, nums))"

text \<open>The values in use among the array slots \<open>i \<dots> lim\<close>, counted from 1.\<close>

definition count_slice :: "table \<Rightarrow> nat \<Rightarrow> nat \<Rightarrow> nat" where
  "count_slice t i lim = length (filter (\<lambda>j. t_array t ! (j - 1) \<noteq> Nil) [i..<lim + 1])"

function numusearray_loop :: "table \<Rightarrow> nat list \<Rightarrow> nat \<Rightarrow> nat \<Rightarrow> nat \<Rightarrow> nat \<times> nat list" where
  "numusearray_loop t nums lg i ause =
     (if lg \<le> MAXBITS then
        let ttlg = 2 ^ lg; lim = (if ttlg > sizearray t then sizearray t else ttlg) in
        if ttlg > sizearray t \<and> i > lim then (ause, nums)
        else
          let lc = count_slice t i lim
          in numusearray_loop t (nums[lg := nums ! lg + lc]) (lg + 1) (max i (lim + 1)) (ause + lc)
      else (ause, nums))"
  by pat_completeness auto
termination
  by (relation "measure (\<lambda>(t, nums, lg, i, ause). MAXBITS + 1 - lg)") auto

declare numusearray_loop.simps [simp del]

definition numusearray :: "table \<Rightarrow> nat list \<Rightarrow> nat \<times> nat list" where
  "numusearray t nums = numusearray_loop t nums 0 1 0"

text \<open>\<^verbatim>\<open>numusehash\<close>: the total, the addition to \<^verbatim>\<open>*pnasize\<close> and the counters.\<close>

fun numusehash_loop :: "node list \<Rightarrow> nat list \<Rightarrow> nat \<Rightarrow> nat \<Rightarrow> nat \<times> nat \<times> nat list" where
  "numusehash_loop [] nums totaluse ause = (totaluse, ause, nums)"
| "numusehash_loop (n # ns) nums totaluse ause =
     (if i_val n \<noteq> Nil
      then case countint (i_key n) nums of (c, nums') \<Rightarrow> numusehash_loop ns nums' (totaluse + 1) (ause + c)
      else numusehash_loop ns nums totaluse ause)"

definition numusehash :: "table \<Rightarrow> nat list \<Rightarrow> nat \<Rightarrow> nat \<times> nat \<times> nat list" where
  "numusehash t nums pnasize =
     (case numusehash_loop (rev (t_node t)) nums 0 0 of
        (totaluse, ause, nums') \<Rightarrow> (totaluse, pnasize + ause, nums'))"

definition setarrayvector :: "table \<Rightarrow> nat \<Rightarrow> table" where
  "setarrayvector t sz =
     t\<lparr>t_array := take sz (t_array t) @ replicate (sz - sizearray t) Nil, sizearray := sz\<rparr>"

definition setnodevector :: "table \<Rightarrow> nat \<Rightarrow> table res" where
  "setnodevector t sz =
     (if sz = 0
      then Inr (t\<lparr>t_node := [empty_node], isdummy := True, lsizenode := 0, lastfree := 0\<rparr>)
      else
        let lsize = nat (ceillog2 (of_nat sz)) in
        if lsize > MAXBITS then Inl (RunError ''table overflow'')
        else Inr (t\<lparr>t_node := replicate (2 ^ lsize) empty_node, isdummy := False,
                    lsizenode := lsize, lastfree := 2 ^ lsize\<rparr>))"

subsection \<open>Inserting a key\<close>

text \<open>The search from \<^verbatim>\<open>lastfree\<close> down for a node with a nil key.\<close>

function getfreepos :: "node list \<Rightarrow> int \<Rightarrow> nat option \<times> int" where
  "getfreepos ns lf =
     (if lf > 0 then
        if i_key (ns ! nat (lf - 1)) = Nil then (Some (nat (lf - 1)), lf - 1)
        else getfreepos ns (lf - 1)
      else (None, lf - 1))"
  by pat_completeness auto
termination by (relation "measure (\<lambda>(ns, lf). nat lf)") auto

declare getfreepos.simps [simp del]

text \<open>The loop that finds the predecessor of \<open>mp\<close> in its chain.\<close>

fun find_prev :: "node list \<Rightarrow> nat \<Rightarrow> nat \<Rightarrow> nat \<Rightarrow> nat res" where
  "find_prev ns 0 othern mp = Inl OutOfFuel"
| "find_prev ns (Suc fuel) othern mp =
     (case nk_next (ns ! othern) of
        None \<Rightarrow> Inl UndefinedAccess
      | Some m \<Rightarrow> if m = mp then Inr othern else find_prev ns fuel m mp)"

text \<open>
  \<^verbatim>\<open>newkey\<close>; \<open>grow t key\<close> is what it does when no position is free: the rehash and the
  \<^verbatim>\<open>luaH_set\<close> in the grown table.
\<close>

definition newkey :: "(table \<Rightarrow> tvalue \<Rightarrow> (slot \<times> table) res) \<Rightarrow> table \<Rightarrow> tvalue \<Rightarrow> (slot \<times> table) res" where
  "newkey grow t key =
     (let mp = mainposition t key; ns = t_node t in
      if i_val (ns ! mp) \<noteq> Nil \<or> isdummy t then
        case getfreepos ns (lastfree t) of
          (None, lf) \<Rightarrow> grow (t\<lparr>lastfree := lf\<rparr>) key
        | (Some n, lf) \<Rightarrow>
            (let othern = mainposition t (i_key (ns ! mp)) in
             if othern \<noteq> mp then
               rbind (find_prev ns (length ns) othern mp) (\<lambda>prev.
                 let ns1 = ns[prev := (ns ! prev)\<lparr>nk_next := Some n\<rparr>];
                     ns2 = ns1[n := ns1 ! mp];
                     ns3 = ns2[mp := \<lparr>i_val = Nil, i_key = key, nk_next = None\<rparr>]
                 in Inr (NodeSlot mp, t\<lparr>t_node := ns3, lastfree := lf\<rparr>))
             else
               let ns1 = ns[n := (ns ! n)\<lparr>nk_next := nk_next (ns ! mp)\<rparr>];
                   ns2 = ns1[mp := (ns1 ! mp)\<lparr>nk_next := Some n\<rparr>];
                   ns3 = ns2[n := (ns2 ! n)\<lparr>i_key := key\<rparr>]
               in Inr (NodeSlot n, t\<lparr>t_node := ns3, lastfree := lf\<rparr>))
      else Inr (NodeSlot mp, t\<lparr>t_node := ns[mp := (ns ! mp)\<lparr>i_key := key\<rparr>]\<rparr>))"

definition set_with :: "(table \<Rightarrow> tvalue \<Rightarrow> (slot \<times> table) res) \<Rightarrow> table \<Rightarrow> tvalue \<Rightarrow> (slot \<times> table) res" where
  "set_with grow t key =
     rbind (luaH_get t key) (\<lambda>p.
       let t' = t\<lparr>flags := 0\<rparr> in
       if p \<noteq> NilObject then Inr (p, t')
       else if key = Nil then Inl (RunError ''table index is nil'')
       else if (case key of Number n \<Rightarrow> luai_numisnan n | _ \<Rightarrow> False)
       then Inl (RunError ''table index is NaN'')
       else newkey grow t' key)"

definition setnum_with :: "(table \<Rightarrow> tvalue \<Rightarrow> (slot \<times> table) res) \<Rightarrow> table \<Rightarrow> int \<Rightarrow> (slot \<times> table) res" where
  "setnum_with grow t key =
     rbind (luaH_getnum t key) (\<lambda>p.
       if p \<noteq> NilObject then Inr (p, t) else newkey grow t (Number (cast_num key)))"

definition setstr_with :: "(table \<Rightarrow> tvalue \<Rightarrow> (slot \<times> table) res) \<Rightarrow> table \<Rightarrow> string \<Rightarrow> (slot \<times> table) res" where
  "setstr_with grow t key =
     rbind (luaH_getstr t key) (\<lambda>p.
       if p \<noteq> NilObject then Inr (p, t) else newkey grow t (String key))"

subsection \<open>Resizing\<close>

text \<open>The two loops of \<^verbatim>\<open>resize\<close> over the indices of the old array and the old nodes.\<close>

fun reinsert_array :: "(table \<Rightarrow> tvalue \<Rightarrow> (slot \<times> table) res) \<Rightarrow> nat list \<Rightarrow> table \<Rightarrow> table res" where
  "reinsert_array grow [] t = Inr t"
| "reinsert_array grow (i # is) t =
     (if t_array t ! i \<noteq> Nil
      then rbind (setnum_with grow t (int i + 1)) (\<lambda>(p, t').
             reinsert_array grow is (set_slot t' p (t_array t ! i)))
      else reinsert_array grow is t)"

fun reinsert_nodes :: "(table \<Rightarrow> tvalue \<Rightarrow> (slot \<times> table) res) \<Rightarrow> node list \<Rightarrow> table \<Rightarrow> table res" where
  "reinsert_nodes grow [] t = Inr t"
| "reinsert_nodes grow (old # olds) t =
     (if i_val old \<noteq> Nil
      then rbind (set_with grow t (i_key old)) (\<lambda>(p, t').
             reinsert_nodes grow olds (set_slot t' p (i_val old)))
      else reinsert_nodes grow olds t)"

definition resize :: "(table \<Rightarrow> tvalue \<Rightarrow> (slot \<times> table) res) \<Rightarrow> table \<Rightarrow> nat \<Rightarrow> nat \<Rightarrow> table res" where
  "resize grow t nasize nhsize =
     (let oldasize = sizearray t; nold = t_node t;
          t1 = (if nasize > oldasize then setarrayvector t nasize else t)
      in rbind (setnodevector t1 nhsize) (\<lambda>t2.
         rbind (if nasize < oldasize then
                  rbind (reinsert_array grow [nasize..<oldasize] (t2\<lparr>sizearray := nasize\<rparr>)) (\<lambda>t3.
                    Inr (t3\<lparr>t_array := take nasize (t_array t3)\<rparr>))
                else Inr t2) (\<lambda>t4.
         reinsert_nodes grow (rev nold) t4)))"

definition rehash :: "(table \<Rightarrow> tvalue \<Rightarrow> (slot \<times> table) res) \<Rightarrow> table \<Rightarrow> tvalue \<Rightarrow> table res" where
  "rehash grow t ek =
     (let nums0 = replicate (MAXBITS + 1) 0;
          (nasize0, nums1) = numusearray t nums0;
          (totalhash, nasize1, nums2) = numusehash t nums1 nasize0;
          (c, nums3) = countint ek nums2;
          totaluse = nasize0 + totalhash + 1
      in rbind (computesizes nums3 (nasize1 + c)) (\<lambda>(nasize, na).
           resize grow t nasize (totaluse - na)))"

text \<open>
  \<^verbatim>\<open>newkey\<close>, \<^verbatim>\<open>rehash\<close> and \<^verbatim>\<open>luaH_set\<close> call each other; \<open>regrow d\<close> lets the calls
  nest \<open>d\<close> deep. One level is enough: \<^verbatim>\<open>LuaTableMap\<close> shows that the calls made while a table is
  resized always find a free position.
\<close>

primrec regrow :: "nat \<Rightarrow> table \<Rightarrow> tvalue \<Rightarrow> (slot \<times> table) res" where
  "regrow 0 t key = Inl OutOfFuel"
| "regrow (Suc d) t key = rbind (rehash (regrow d) t key) (\<lambda>t'. set_with (regrow d) t' key)"

definition luaH_set :: "table \<Rightarrow> tvalue \<Rightarrow> (slot \<times> table) res" where
  "luaH_set = set_with (regrow 1)"

definition luaH_setnum :: "table \<Rightarrow> int \<Rightarrow> (slot \<times> table) res" where
  "luaH_setnum = setnum_with (regrow 1)"

definition luaH_setstr :: "table \<Rightarrow> string \<Rightarrow> (slot \<times> table) res" where
  "luaH_setstr = setstr_with (regrow 1)"

definition luaH_resizearray :: "table \<Rightarrow> nat \<Rightarrow> table res" where
  "luaH_resizearray t nasize =
     resize (regrow 1) t nasize (if isdummy t then 0 else sizenode t)"

definition luaH_new :: "nat \<Rightarrow> nat \<Rightarrow> table res" where
  "luaH_new narray nhash =
     (let t = \<lparr>flags = - 1, t_array = [], sizearray = 0, t_node = [empty_node], lsizenode = 0,
               lastfree = 0, isdummy = True, metatable = None\<rparr>
      in setnodevector (setarrayvector t narray) nhash)"

subsection \<open>The length\<close>

definition getnum_val :: "table \<Rightarrow> nat \<Rightarrow> tvalue res" where
  "getnum_val t j = rbind (luaH_getnum t (int j)) (\<lambda>p. Inr (slot_val t p))"

text \<open>The linear search, at most one round for each value of the table and one more.\<close>

fun linear_search :: "table \<Rightarrow> nat \<Rightarrow> nat \<Rightarrow> nat res" where
  "linear_search t 0 i = Inl OutOfFuel"
| "linear_search t (Suc fuel) i =
     rbind (getnum_val t i) (\<lambda>v. if v \<noteq> Nil then linear_search t fuel (i + 1) else Inr (i - 1))"

function binary_search :: "(nat \<Rightarrow> tvalue res) \<Rightarrow> nat \<Rightarrow> nat \<Rightarrow> nat res" where
  "binary_search f i j =
     (if j - i > 1 then
        let m = (i + j) div 2 in
        rbind (f m) (\<lambda>v. if v = Nil then binary_search f i m else binary_search f m j)
      else Inr i)"
  by pat_completeness auto
termination by (relation "measure (\<lambda>(f, i, j). j - i)") auto

text \<open>
  The loop that doubles \<open>j\<close>: \<open>None\<close> when the doubled \<open>j\<close> passes \<^verbatim>\<open>MAX_INT\<close>. As \<open>j\<close> is
  at most \<^verbatim>\<open>MAX_INT\<close> before, the product is below \<open>2 ^ 32\<close> and does not wrap.
\<close>

function double_search :: "table \<Rightarrow> nat \<Rightarrow> nat \<Rightarrow> (nat \<times> nat) option res" where
  "double_search t i j =
     (if j = 0 then Inl UndefinedAccess
      else rbind (getnum_val t j) (\<lambda>v.
        if v \<noteq> Nil
        then if j * 2 > MAX_INT then Inr None else double_search t j (j * 2)
        else Inr (Some (i, j))))"
  by pat_completeness auto
termination by (relation "measure (\<lambda>(t, i, j). MAX_INT - j)") auto

declare binary_search.simps [simp del] double_search.simps [simp del]

definition unbound_search :: "table \<Rightarrow> nat \<Rightarrow> nat res" where
  "unbound_search t j =
     rbind (double_search t j (j + 1)) (\<lambda>r. case r of
         None \<Rightarrow> linear_search t (sizearray t + sizenode t + 1) 1
       | Some (i, j) \<Rightarrow> binary_search (getnum_val t) i j)"

definition luaH_getn :: "table \<Rightarrow> nat res" where
  "luaH_getn t =
     (let j = sizearray t in
      if j > 0 \<and> t_array t ! (j - 1) = Nil
      then binary_search (\<lambda>m. Inr (t_array t ! (m - 1))) 0 j
      else if isdummy t then Inr j
      else unbound_search t j)"

end
