(* ===== verification/LuaTableInv.thy ===== *)
theory LuaTableInv
  imports LuaTable
begin

unbundle bit_operations_syntax

section \<open>The chains of the hash part\<close>

text \<open>
  The invariant of the node vector and the correctness of the searches: the chains are disjoint
  and end, a node with a key is in the chain of the main position of its key, and a node at its
  own main position is where the chains of that position start (the ``main invariant'' that the
  head of \<^verbatim>\<open>ltable.c\<close> states). The last part shows that the three ways in which
  \<^verbatim>\<open>newkey\<close> changes the vector keep the invariant and the contents.
\<close>

subsection \<open>Main positions\<close>

lemma hashmod_less: "hashmod ls n < 2 ^ ls"
proof (cases ls)
  case (Suc l)
  then have "odd ((2::nat) ^ ls - 1)" by simp
  then have "((2::nat) ^ ls - 1) OR 1 = 2 ^ ls - 1" unfolding or_one_eq by simp
  moreover have "(1::nat) < 2 ^ ls" unfolding Suc by (simp add: Suc_lessI)
  ultimately have "unat n mod ((2 ^ ls - 1) OR 1) < 2 ^ ls - 1"
    by (simp only: mod_less_divisor zero_less_diff)
  then show ?thesis unfolding hashmod_def by linarith
qed (simp add: hashmod_def)

lemma mainpos_less: "ls \<le> MAXBITS \<Longrightarrow> mainpos ls k < 2 ^ ls"
proof -
  assume "ls \<le> MAXBITS"
  then have "(2::nat) ^ ls \<le> 2 ^ 32" by (intro power_increasing) (simp_all add: MAXBITS_def)
  then have "lmod h (2 ^ ls) < 2 ^ ls" for h by (intro lmod_less) simp_all
  then show ?thesis
    by (cases k) (simp_all add: hashmod_less hashnum_def hashpointer_def hashpow2_def)
qed

lemma luai_numeq_0: "luai_numeq d 0 \<longleftrightarrow> dbl_zero d"
proof -
  have "\<not> dbl_nan 0" using dbl_zero_0(1) dbl_zero_not_nan by blast
  then show ?thesis using dbl_zero_not_nan [of d] by (auto simp: luai_numeq_def)
qed

lemma mainpos_norm [simp]: "mainpos ls (norm_key k) = mainpos ls k"
  by (cases k) (simp_all add: norm_key_def norm_num_def hashnum_def luai_numeq_0)

lemma mainpos_eqI: "norm_key k = norm_key k' \<Longrightarrow> mainpos ls k = mainpos ls k'"
  by (metis mainpos_norm)

subsection \<open>Chains\<close>

definition edge :: "node list \<Rightarrow> nat \<Rightarrow> nat \<Rightarrow> bool" where
  "edge ns i j \<longleftrightarrow> i < length ns \<and> nk_next (ns ! i) = Some j"

abbreviation reach :: "node list \<Rightarrow> nat \<Rightarrow> nat \<Rightarrow> bool" where
  "reach ns \<equiv> (edge ns)\<^sup>*\<^sup>*"

definition keyed :: "node list \<Rightarrow> nat \<Rightarrow> bool" where
  "keyed ns i \<longleftrightarrow> i < length ns \<and> i_key (ns ! i) \<noteq> Nil"

definition links_ok :: "node list \<Rightarrow> bool" where
  "links_ok ns \<longleftrightarrow>
     (\<forall>i j. edge ns i j \<longrightarrow> keyed ns i \<and> keyed ns j) \<and>
     (\<forall>i i' j. edge ns i j \<and> edge ns i' j \<longrightarrow> i = i') \<and>
     (\<exists>r :: nat \<Rightarrow> nat. \<forall>i j. edge ns i j \<longrightarrow> r j < r i)"

definition heads_ok :: "nat \<Rightarrow> node list \<Rightarrow> bool" where
  "heads_ok ls ns \<longleftrightarrow>
     (\<forall>i. keyed ns i \<longrightarrow>
        (let p = mainpos ls (i_key (ns ! i)) in
         reach ns p i \<and> keyed ns p \<and> mainpos ls (i_key (ns ! p)) = p))"

definition keys_ok :: "node list \<Rightarrow> bool" where
  "keys_ok ns \<longleftrightarrow>
     (\<forall>i < length ns. i_val (ns ! i) \<noteq> Nil \<longrightarrow> i_key (ns ! i) \<noteq> Nil) \<and>
     (\<forall>i j. keyed ns i \<and> keyed ns j \<and> norm_key (i_key (ns ! i)) = norm_key (i_key (ns ! j)) \<longrightarrow> i = j) \<and>
     (\<forall>i < length ns. \<not> is_nan (i_key (ns ! i)))"

definition nodes_ok :: "nat \<Rightarrow> node list \<Rightarrow> bool" where
  "nodes_ok ls ns \<longleftrightarrow>
     ls \<le> MAXBITS \<and> length ns = 2 ^ ls \<and> links_ok ns \<and> heads_ok ls ns \<and> keys_ok ns"

lemma links_okD:
  assumes "links_ok ns"
  shows "edge ns i j \<Longrightarrow> keyed ns i" "edge ns i j \<Longrightarrow> keyed ns j"
    "edge ns i j \<Longrightarrow> edge ns i' j \<Longrightarrow> i = i'"
  using assms unfolding links_ok_def by blast+

lemma heads_okD:
  assumes "heads_ok ls ns" "keyed ns i"
  shows "reach ns (mainpos ls (i_key (ns ! i))) i" "keyed ns (mainpos ls (i_key (ns ! i)))"
    "mainpos ls (i_key (ns ! mainpos ls (i_key (ns ! i)))) = mainpos ls (i_key (ns ! i))"
  using assms unfolding heads_ok_def Let_def by blast+

lemma reach_in_range:
  assumes "links_ok ns" "reach ns n j" "n < length ns" shows "j < length ns"
  using assms(2,3)
proof (induction rule: rtranclp_induct)
  case (step y z)
  then show ?case using links_okD(2) [OF assms(1)] by (simp add: keyed_def)
qed

lemma edge_functional: "edge ns i j \<Longrightarrow> edge ns i j' \<Longrightarrow> j = j'"
  by (simp add: edge_def)

lemma reach_Some: "n < length ns \<Longrightarrow> nk_next (ns ! n) = Some m \<Longrightarrow> reach ns n j \<longleftrightarrow> j = n \<or> reach ns m j"
  by (metis converse_rtranclpE converse_rtranclp_into_rtranclp edge_def option.inject rtranclp.rtrancl_refl)

lemma reach_None: "nk_next (ns ! n) = None \<Longrightarrow> reach ns n j \<longleftrightarrow> j = n"
  by (auto simp: edge_def elim: converse_rtranclpE)

lemma links_acyclic:
  assumes "links_ok ns" "edge ns n m" shows "\<not> reach ns m n"
proof -
  obtain r :: "nat \<Rightarrow> nat" where r: "\<And>i j. edge ns i j \<Longrightarrow> r j < r i"
    using assms(1) unfolding links_ok_def by blast
  have "r j \<le> r i" if "reach ns i j" for i j
    using that by (induction rule: rtranclp_induct) (auto dest: r)
  with r [OF assms(2)] show ?thesis using not_le by blast
qed

lemma finite_reach: "links_ok ns \<Longrightarrow> n < length ns \<Longrightarrow> finite {j. reach ns n j}"
  by (rule finite_subset [of _ "{..<length ns}"]) (auto intro: reach_in_range)

lemma find_chain_fuel:
  assumes "links_ok ns" "n < length ns" "card {j. reach ns n j} \<le> fuel"
  shows "\<exists>r. find_chain P ns fuel n = Inr r \<and>
    (case r of None \<Rightarrow> \<forall>j. reach ns n j \<longrightarrow> \<not> P (i_key (ns ! j)) | Some j \<Rightarrow> reach ns n j \<and> P (i_key (ns ! j)))"
  using assms(2,3)
proof (induction fuel arbitrary: n)
  case 0
  then have "{j. reach ns n j} = {}" using finite_reach [OF assms(1)] by simp
  then show ?case by blast
next
  case (Suc fuel)
  show ?case
  proof (cases "nk_next (ns ! n)")
    case None
    then show ?thesis using Suc.prems(1) by (auto simp: reach_None)
  next
    case (Some m)
    then have e: "edge ns n m" using Suc.prems(1) by (simp add: edge_def)
    then have m: "m < length ns" using links_okD(2) [OF assms(1)] by (simp add: keyed_def)
    have s: "{j. reach ns n j} = insert n {j. reach ns m j}"
      using reach_Some [OF Suc.prems(1) Some] by blast
    have "n \<notin> {j. reach ns m j}" using links_acyclic [OF assms(1) e] by simp
    then have "card {j. reach ns m j} \<le> fuel"
      using Suc.prems(2) finite_reach [OF assms(1) m] unfolding s by simp
    from Suc.IH [OF m this] Some Suc.prems(1) show ?thesis
      by (auto simp: reach_Some [OF Suc.prems(1) Some] split: option.splits)
  qed
qed

lemma find_chain_ok:
  assumes "links_ok ns" "n < length ns"
  shows "\<exists>r. find_chain P ns (length ns) n = Inr r \<and>
    (case r of None \<Rightarrow> \<forall>j. reach ns n j \<longrightarrow> \<not> P (i_key (ns ! j)) | Some j \<Rightarrow> reach ns n j \<and> P (i_key (ns ! j)))"
proof (rule find_chain_fuel [OF assms])
  have "{j. reach ns n j} \<subseteq> {..<length ns}" using reach_in_range [OF assms(1) _ assms(2)] by blast
  then show "card {j. reach ns n j} \<le> length ns" using card_mono [of "{..<length ns}"] by fastforce
qed

subsection \<open>Lookup in the nodes\<close>

definition matches :: "tvalue \<Rightarrow> node \<Rightarrow> bool" where
  "matches key n \<longleftrightarrow> i_key n \<noteq> Nil \<and> norm_key (i_key n) = norm_key key"

definition node_of :: "node list \<Rightarrow> tvalue \<Rightarrow> nat option" where
  "node_of ns key = find (\<lambda>i. matches key (ns ! i)) [0..<length ns]"

lemma node_of_None: "node_of ns key = None \<longleftrightarrow> (\<forall>i < length ns. \<not> matches key (ns ! i))"
  by (auto simp: node_of_def find_None_iff)

lemma node_of_SomeD: "node_of ns key = Some i \<Longrightarrow> i < length ns \<and> matches key (ns ! i)"
  unfolding node_of_def find_Some_iff by auto

lemma matches_unique:
  assumes "keys_ok ns" "matches key (ns ! i)" "matches key (ns ! j)" "i < length ns" "j < length ns"
  shows "i = j"
proof -
  have "keyed ns i \<and> keyed ns j \<and> norm_key (i_key (ns ! i)) = norm_key (i_key (ns ! j))"
    using assms(2-5) by (simp add: matches_def keyed_def)
  then show ?thesis using assms(1) unfolding keys_ok_def by blast
qed

lemma node_of_unique:
  assumes "keys_ok ns" shows "node_of ns key = Some i \<longleftrightarrow> i < length ns \<and> matches key (ns ! i)"
proof
  assume i: "i < length ns \<and> matches key (ns ! i)"
  then obtain j where "node_of ns key = Some j" using node_of_None by fastforce
  with node_of_SomeD [OF this] i matches_unique [OF assms] show "node_of ns key = Some i" by blast
qed (rule node_of_SomeD)

lemma find_chain_node_of:
  assumes "nodes_ok ls ns" "\<And>k. k \<noteq> Nil \<Longrightarrow> \<not> is_nan k \<Longrightarrow> P k \<longleftrightarrow> norm_key k = norm_key key" "\<not> P Nil"
  shows "find_chain P ns (length ns) (mainpos ls key) = Inr (node_of ns key)"
proof -
  have ok: "links_ok ns" "keys_ok ns" "heads_ok ls ns" "length ns = 2 ^ ls" "ls \<le> MAXBITS"
    using assms(1) by (simp_all add: nodes_ok_def)
  have start: "mainpos ls key < length ns" using mainpos_less ok(4,5) by simp
  have P: "P (i_key (ns ! i)) \<longleftrightarrow> matches key (ns ! i)" if "i < length ns" for i
  proof (cases "i_key (ns ! i) = Nil")
    case False
    have "\<not> is_nan (i_key (ns ! i))" using that ok(2) unfolding keys_ok_def by blast
    with False show ?thesis by (simp add: matches_def assms(2))
  qed (simp add: matches_def assms(3))
  obtain r where r: "find_chain P ns (length ns) (mainpos ls key) = Inr r"
    "case r of None \<Rightarrow> \<forall>j. reach ns (mainpos ls key) j \<longrightarrow> \<not> P (i_key (ns ! j))
     | Some j \<Rightarrow> reach ns (mainpos ls key) j \<and> P (i_key (ns ! j))"
    using find_chain_ok [OF ok(1) start] by blast
  have "r = node_of ns key"
  proof (cases r)
    case (Some j)
    with r(2) have j: "reach ns (mainpos ls key) j" "P (i_key (ns ! j))" by simp_all
    then have "j < length ns" using reach_in_range [OF ok(1)] start by blast
    then have "node_of ns key = Some j"
      unfolding node_of_unique [OF ok(2)] using j(2) P by blast
    with Some show ?thesis by simp
  next
    case None
    have "\<not> matches key (ns ! i)" if i: "i < length ns" for i
    proof
      assume m: "matches key (ns ! i)"
      then have k: "keyed ns i" using i by (simp add: matches_def keyed_def)
      have e: "mainpos ls (i_key (ns ! i)) = mainpos ls key"
        by (rule mainpos_eqI) (use m in \<open>simp add: matches_def\<close>)
      have "reach ns (mainpos ls key) i" using heads_okD(1) [OF ok(3) k] unfolding e .
      moreover have "\<forall>j. reach ns (mainpos ls key) j \<longrightarrow> \<not> P (i_key (ns ! j))"
        using r(2) unfolding None by simp
      ultimately show False using P [OF i] m by blast
    qed
    then have "node_of ns key = None" unfolding node_of_None by blast
    with None show ?thesis by simp
  qed
  with r(1) show ?thesis by simp
qed

subsection \<open>Contents\<close>

definition contents :: "node list \<Rightarrow> (tvalue \<times> tvalue) set" where
  "contents ns = {(norm_key (i_key (ns ! i)), i_val (ns ! i)) |i. i < length ns \<and> i_val (ns ! i) \<noteq> Nil}"

definition node_val :: "node list \<Rightarrow> tvalue \<Rightarrow> tvalue" where
  "node_val ns key = (case node_of ns key of None \<Rightarrow> Nil | Some i \<Rightarrow> i_val (ns ! i))"

lemma keys_okD:
  assumes "keys_ok ns" "i < length ns"
  shows "i_val (ns ! i) \<noteq> Nil \<Longrightarrow> i_key (ns ! i) \<noteq> Nil" "\<not> is_nan (i_key (ns ! i))"
  using assms unfolding keys_ok_def by blast+

lemma node_val_contents:
  assumes "keys_ok ns" "v \<noteq> Nil"
  shows "node_val ns key = v \<longleftrightarrow> (norm_key key, v) \<in> contents ns"
proof
  assume v: "node_val ns key = v"
  then obtain i where i: "node_of ns key = Some i" "i_val (ns ! i) = v"
    using assms(2) by (auto simp: node_val_def split: option.splits)
  from node_of_SomeD [OF i(1)] assms(2) i(2) show "(norm_key key, v) \<in> contents ns"
    unfolding contents_def matches_def by (intro CollectI exI [of _ i]) simp
next
  assume "(norm_key key, v) \<in> contents ns"
  then obtain i where i: "i < length ns" "i_val (ns ! i) = v" "norm_key (i_key (ns ! i)) = norm_key key"
    unfolding contents_def by auto
  then have "matches key (ns ! i)" using keys_okD(1) [OF assms(1) i(1)] assms(2) by (simp add: matches_def)
  then have "node_of ns key = Some i" using node_of_unique [OF assms(1)] i(1) by blast
  then show "node_val ns key = v" by (simp add: node_val_def i(2))
qed

lemma node_val_eqI:
  assumes "keys_ok ns" "keys_ok ns'" "contents ns = contents ns'"
  shows "node_val ns key = node_val ns' key"
  using node_val_contents [OF assms(1)] node_val_contents [OF assms(2)] assms(3) by metis

lemma contents_cong:
  assumes "length ns' = length ns" "\<And>i. i < length ns \<Longrightarrow> i_val (ns' ! i) = i_val (ns ! i)"
    "\<And>i. i < length ns \<Longrightarrow> i_val (ns ! i) \<noteq> Nil \<Longrightarrow> i_key (ns' ! i) = i_key (ns ! i)"
  shows "contents ns' = contents ns"
  unfolding contents_def assms(1) using assms(2,3) by (intro Collect_cong ex_cong1) auto

subsection \<open>The three updates of newkey\<close>

lemma keyedI: "edge ns i j \<Longrightarrow> links_ok ns \<Longrightarrow> i < length ns \<and> j < length ns \<and> i_key (ns ! i) \<noteq> Nil \<and> i_key (ns ! j) \<noteq> Nil"
  using links_okD by (simp add: keyed_def)

text \<open>The main position is free: the key goes there.\<close>

lemma overwrite_key:
  assumes ok: "nodes_ok ls ns" and mp: "mp = mainpos ls key" and v: "i_val (ns ! mp) = Nil"
    and key: "key \<noteq> Nil" "\<not> is_nan key" "node_of ns key = None"
  defines "ns' \<equiv> ns[mp := (ns ! mp)\<lparr>i_key := key\<rparr>]"
  shows "nodes_ok ls ns'" "contents ns' = contents ns" "\<And>i. keyed ns' i \<longleftrightarrow> keyed ns i \<or> i = mp"
proof -
  have o: "links_ok ns" "keys_ok ns" "heads_ok ls ns" "length ns = 2 ^ ls" "ls \<le> MAXBITS"
    using ok by (simp_all add: nodes_ok_def)
  have m: "mp < length ns" using mainpos_less [OF o(5)] o(4) mp by simp
  have n: "ns' ! i = (if i = mp then (ns ! mp)\<lparr>i_key := key\<rparr> else ns ! i)" for i
    using m by (simp add: ns'_def nth_list_update)
  have len: "length ns' = length ns" by (simp add: ns'_def)
  have e: "edge ns' = edge ns" by (intro ext) (simp add: edge_def len n)
  show k: "keyed ns' i \<longleftrightarrow> keyed ns i \<or> i = mp" for i
    using m key(1) by (auto simp: keyed_def len n)
  have "links_ok ns'" using o(1) unfolding links_ok_def e k by blast
  moreover have "heads_ok ls ns'"
    unfolding heads_ok_def Let_def k e
  proof (intro allI impI)
    fix i assume i: "keyed ns i \<or> i = mp"
    let ?p = "mainpos ls (i_key (ns' ! i))"
    show "reach ns ?p i \<and> (keyed ns ?p \<or> ?p = mp) \<and> mainpos ls (i_key (ns' ! ?p)) = ?p"
    proof (cases "i = mp")
      case True
      then have "?p = mp" by (simp add: n mp)
      then show ?thesis using True by (simp add: n mp)
    next
      case False
      then have p: "?p = mainpos ls (i_key (ns ! i))" and i: "keyed ns i" using i by (simp_all add: n)
      have "mainpos ls (i_key (ns' ! ?p)) = ?p"
      proof (cases "?p = mp")
        case False
        then show ?thesis using heads_okD(3) [OF o(3) i] unfolding p by (simp add: n)
      qed (simp add: n mp)
      then show ?thesis using heads_okD(1,2) [OF o(3) i] unfolding p by blast
    qed
  qed
  moreover have "keys_ok ns'"
  proof -
    have no: "norm_key (i_key (ns ! i)) \<noteq> norm_key key" if "keyed ns i" for i
      using key(3) that unfolding node_of_None matches_def keyed_def by blast
    have kk: "i_key (ns' ! i) = (if i = mp then key else i_key (ns ! i))" for i by (simp add: n)
    have "i = j" if ij: "keyed ns' i" "keyed ns' j" "norm_key (i_key (ns' ! i)) = norm_key (i_key (ns' ! j))" for i j
    proof (rule ccontr)
      assume ne: "i \<noteq> j"
      consider "i = mp" "keyed ns j" | "j = mp" "keyed ns i" | "i \<noteq> mp" "j \<noteq> mp" "keyed ns i" "keyed ns j"
        using ij(1,2) ne unfolding k by blast
      then show False
      proof cases
        case 1
        with ij(3) no [of j] ne show ?thesis by (simp add: kk)
      next
        case 2
        with ij(3) no [of i] ne show ?thesis by (simp add: kk)
      next
        case 3
        then have "norm_key (i_key (ns ! i)) = norm_key (i_key (ns ! j))" using ij(3) by (simp add: kk)
        with 3 o(2) ne show ?thesis unfolding keys_ok_def by blast
      qed
    qed
    moreover have "\<not> is_nan (i_key (ns' ! i))" "i_val (ns' ! i) \<noteq> Nil \<Longrightarrow> i_key (ns' ! i) \<noteq> Nil"
      if "i < length ns" for i
      using keys_okD [OF o(2) that] key(1,2) v by (simp_all add: n split: if_splits)
    ultimately show ?thesis unfolding keys_ok_def len by blast
  qed
  ultimately show "nodes_ok ls ns'" using o(4,5) by (simp add: nodes_ok_def len)
  have "i_val (ns' ! i) = i_val (ns ! i)" for i by (simp add: n)
  moreover have "i_key (ns' ! i) = i_key (ns ! i)" if "i_val (ns ! i) \<noteq> Nil" for i
    using that v by (auto simp: n)
  ultimately show "contents ns' = contents ns" by (intro contents_cong [OF len]) simp_all
qed


text \<open>
  A move: the colliding node, not at its own main position, goes to the free node \<open>n\<close>. The links
  of the new vector are those of the old one with \<open>mp\<close> and \<open>n\<close> swapped.
\<close>

definition swap :: "nat \<Rightarrow> nat \<Rightarrow> nat \<Rightarrow> nat" where
  "swap a b i = (if i = a then b else if i = b then a else i)"

lemma swap_swap [simp]: "swap a b (swap a b i) = i"
  by (simp add: swap_def)

lemma reach_map:
  assumes "\<And>i j. R' i j \<longleftrightarrow> R (s i) (s j)" "\<And>i :: nat. s (s i) = i"
  shows "R'\<^sup>*\<^sup>* i j \<longleftrightarrow> R\<^sup>*\<^sup>* (s i) (s j)"
proof
  show "R'\<^sup>*\<^sup>* i j \<Longrightarrow> R\<^sup>*\<^sup>* (s i) (s j)"
    by (induction rule: rtranclp_induct) (auto simp: assms(1) intro: rtranclp.rtrancl_into_rtrancl)
  have "R\<^sup>*\<^sup>* a b \<Longrightarrow> R'\<^sup>*\<^sup>* (s a) (s b)" for a b
    by (induction rule: rtranclp_induct) (auto simp: assms intro: rtranclp.rtrancl_into_rtrancl)
  from this [of "s i" "s j"] show "R\<^sup>*\<^sup>* (s i) (s j) \<Longrightarrow> R'\<^sup>*\<^sup>* i j" by (simp add: assms(2))
qed

definition move_node :: "node list \<Rightarrow> nat \<Rightarrow> nat \<Rightarrow> nat \<Rightarrow> tvalue \<Rightarrow> node list" where
  "move_node ns prev n mp key =
     (let ns1 = ns[prev := (ns ! prev)\<lparr>nk_next := Some n\<rparr>]; ns2 = ns1[n := ns1 ! mp]
      in ns2[mp := \<lparr>i_val = Nil, i_key = key, nk_next = None\<rparr>])"

lemma move_node_nth:
  assumes "n < length ns" "mp < length ns" "prev < length ns" "n \<noteq> mp" "n \<noteq> prev" "prev \<noteq> mp"
  shows "move_node ns prev n mp key ! i =
    (if i = mp then \<lparr>i_val = Nil, i_key = key, nk_next = None\<rparr> else if i = n then ns ! mp
     else if i = prev then (ns ! prev)\<lparr>nk_next := Some n\<rparr> else ns ! i)"
  using assms by (simp add: move_node_def nth_list_update)

lemma move_node_edge:
  assumes l: "links_ok ns" and n: "n < length ns" "i_key (ns ! n) = Nil" and e: "edge ns prev mp"
  shows "edge (move_node ns prev n mp key) i j \<longleftrightarrow> edge ns (swap mp n i) (swap mp n j)"
proof -
  note r = keyedI [OF e l]
  have ne: "n \<noteq> mp" "n \<noteq> prev" "prev \<noteq> mp"
    using r n(2) links_acyclic [OF l e] by auto
  note nth = move_node_nth [OF n(1) _ _ ne, of key]
  have noE: "\<not> edge ns n j" "\<not> edge ns j n" "\<not> edge ns mp mp" for j
    using keyedI [OF _ l] n(2) links_acyclic [OF l, of mp mp] by blast+
  have uniq: "edge ns i mp \<longleftrightarrow> i = prev" for i using links_okD(3) [OF l] e by blast
  have prevE: "edge ns prev j \<longleftrightarrow> j = mp" for j using e edge_functional by blast
  have len: "length (move_node ns prev n mp key) = length ns" by (simp add: move_node_def Let_def)
  consider "i = mp" | "i = n" | "i = prev" | "i \<noteq> mp" "i \<noteq> n" "i \<noteq> prev" by blast
  then show ?thesis
  proof cases
    case 1
    then show ?thesis using noE(1) r ne by (simp add: edge_def len nth swap_def)
  next
    case 2
    have "edge (move_node ns prev n mp key) n j \<longleftrightarrow> edge ns mp j"
      using r n ne by (simp add: edge_def len nth)
    also have "\<dots> \<longleftrightarrow> edge ns mp (swap mp n j)" using noE by (auto simp: swap_def)
    finally show ?thesis using 2 ne by (simp add: swap_def)
  next
    case 3
    have "edge (move_node ns prev n mp key) prev j \<longleftrightarrow> j = n" using r ne by (auto simp: edge_def len nth)
    also have "\<dots> \<longleftrightarrow> edge ns prev (swap mp n j)" unfolding prevE using ne by (auto simp: swap_def)
    finally show ?thesis using 3 ne by (simp add: swap_def)
  next
    case 4
    have "edge (move_node ns prev n mp key) i j \<longleftrightarrow> edge ns i j" using r 4 by (simp add: edge_def len nth)
    also have "\<dots> \<longleftrightarrow> edge ns i (swap mp n j)" using noE(2) uniq 4(3) by (auto simp: swap_def)
    finally show ?thesis using 4 by (simp add: swap_def)
  qed
qed

lemma move_node_ok:
  assumes ok: "nodes_ok ls ns" and mp: "mp = mainpos ls key"
    and key: "key \<noteq> Nil" "\<not> is_nan key" "node_of ns key = None"
    and n: "n < length ns" "i_key (ns ! n) = Nil"
    and e: "edge ns prev mp" and other: "mainpos ls (i_key (ns ! mp)) \<noteq> mp"
  defines "ns' \<equiv> move_node ns prev n mp key"
  shows "nodes_ok ls ns'" "contents ns' = contents ns" "\<And>i. keyed ns' i \<longleftrightarrow> keyed ns i \<or> i = n"
proof -
  have o: "links_ok ns" "keys_ok ns" "heads_ok ls ns" "length ns = 2 ^ ls" "ls \<le> MAXBITS"
    using ok by (simp_all add: nodes_ok_def)
  note r = keyedI [OF e o(1)]
  have ne: "n \<noteq> mp" "n \<noteq> prev" "prev \<noteq> mp" using r n(2) links_acyclic [OF o(1) e] by auto
  have nth: "ns' ! i = (if i = mp then \<lparr>i_val = Nil, i_key = key, nk_next = None\<rparr> else if i = n then ns ! mp
     else if i = prev then (ns ! prev)\<lparr>nk_next := Some n\<rparr> else ns ! i)" for i
    unfolding ns'_def using move_node_nth n(1) r ne by simp
  let ?s = "swap mp n"
  have kk: "i_key (ns' ! i) = (if i = mp then key else i_key (ns ! ?s i))"
    and vv: "i_val (ns' ! i) = i_val (ns ! ?s i) \<or> i = mp \<and> i_val (ns' ! i) = Nil" for i
    using ne by (auto simp: nth swap_def)
  have len: "length ns' = length ns" by (simp add: ns'_def move_node_def Let_def)
  have sl: "?s i < length ns \<longleftrightarrow> i < length ns" for i using n(1) r by (simp add: swap_def)
  have ed: "edge ns' i j \<longleftrightarrow> edge ns (?s i) (?s j)" for i j
    unfolding ns'_def by (rule move_node_edge [OF o(1) n e])
  have re: "reach ns' i j \<longleftrightarrow> reach ns (?s i) (?s j)" for i j
    using reach_map [of "edge ns'" "edge ns" ?s] ed by simp
  have nk: "\<not> keyed ns n" using n(2) by (simp add: keyed_def)
  show k: "keyed ns' i \<longleftrightarrow> keyed ns i \<or> i = n" for i
    using r n ne key(1) by (auto simp: keyed_def len nth)
  have ks: "keyed ns' i \<longleftrightarrow> keyed ns (?s i) \<or> i = mp" for i
    unfolding k using nk r by (auto simp: swap_def keyed_def)
  have "links_ok ns'"
  proof -
    obtain f :: "nat \<Rightarrow> nat" where f: "\<And>i j. edge ns i j \<Longrightarrow> f j < f i"
      using o(1) unfolding links_ok_def by blast
    have "keyed ns' i \<and> keyed ns' j" if "edge ns' i j" for i j
      using that links_okD(1,2) [OF o(1)] unfolding ed ks by blast
    moreover have "i = i'" if "edge ns' i j" "edge ns' i' j" for i i' j
      using that links_okD(3) [OF o(1)] unfolding ed by (metis swap_swap)
    moreover have "(f \<circ> ?s) j < (f \<circ> ?s) i" if "edge ns' i j" for i j
      using that f unfolding ed comp_def by blast
    ultimately show ?thesis unfolding links_ok_def by blast
  qed
  moreover have "heads_ok ls ns'"
    unfolding heads_ok_def Let_def
  proof (intro allI impI)
    fix i assume i: "keyed ns' i"
    let ?p = "mainpos ls (i_key (ns' ! i))"
    show "reach ns' ?p i \<and> keyed ns' ?p \<and> mainpos ls (i_key (ns' ! ?p)) = ?p"
    proof (cases "i = mp")
      case True
      then have "?p = mp" by (simp add: kk mp)
      then show ?thesis using True by (simp add: kk mp ks)
    next
      case False
      then have p: "?p = mainpos ls (i_key (ns ! ?s i))" and si: "keyed ns (?s i)"
        using i by (simp_all add: kk ks)
      note h = heads_okD [OF o(3) si, folded p]
      have "?p \<noteq> mp" using h(3) other by metis
      moreover have "?p \<noteq> n" using h(2) nk by metis
      ultimately have sp: "?s ?p = ?p" by (simp add: swap_def)
      have kp: "i_key (ns' ! ?p) = i_key (ns ! ?p)"
        using kk [of ?p] \<open>?p \<noteq> mp\<close> unfolding sp by simp
      have "reach ns' ?p i" unfolding re sp by (rule h(1))
      moreover have "keyed ns' ?p" unfolding ks sp using h(2) by blast
      ultimately show ?thesis unfolding kp using h(3) by blast
    qed
  qed
  moreover have "keys_ok ns'"
  proof -
    have no: "norm_key (i_key (ns ! i)) \<noteq> norm_key key" if "keyed ns i" for i
      using key(3) that unfolding node_of_None matches_def keyed_def by blast
    have "i = j" if ij: "keyed ns' i" "keyed ns' j" "norm_key (i_key (ns' ! i)) = norm_key (i_key (ns' ! j))" for i j
    proof (rule ccontr)
      assume d: "i \<noteq> j"
      consider "i = mp" "j \<noteq> mp" "keyed ns (?s j)" | "j = mp" "i \<noteq> mp" "keyed ns (?s i)"
        | "i \<noteq> mp" "j \<noteq> mp" "keyed ns (?s i)" "keyed ns (?s j)"
        using ij(1,2) d unfolding ks by blast
      then show False
      proof cases
        case 1
        with ij(3) no [of "?s j"] show ?thesis by (simp add: kk)
      next
        case 2
        with ij(3) no [of "?s i"] show ?thesis by (simp add: kk)
      next
        case 3
        then have "norm_key (i_key (ns ! ?s i)) = norm_key (i_key (ns ! ?s j))" using ij(3) by (simp add: kk)
        with 3 o(2) have "?s i = ?s j" unfolding keys_ok_def by blast
        then show ?thesis using d by (metis swap_swap)
      qed
    qed
    moreover have "\<not> is_nan (i_key (ns' ! i))" "i_val (ns' ! i) \<noteq> Nil \<Longrightarrow> i_key (ns' ! i) \<noteq> Nil"
      if "i < length ns" for i
      using keys_okD [OF o(2), of "?s i"] that key(1,2) vv [of i] by (simp_all add: kk sl split: if_splits)
    ultimately show ?thesis unfolding keys_ok_def len by blast
  qed
  ultimately show "nodes_ok ls ns'" using o(4,5) by (simp add: nodes_ok_def len)
  have vn: "i_val (ns ! n) = Nil" using keys_okD(1) [OF o(2) n(1)] n(2) by blast
  have v: "i_val (ns' ! i) = (if i = mp then Nil else i_val (ns ! ?s i))" for i
    using ne by (simp add: nth swap_def)
  show "contents ns' = contents ns"
  proof (intro equalityI subsetI)
    fix x assume "x \<in> contents ns'"
    then obtain i where "i < length ns" "i \<noteq> mp" "i_val (ns ! ?s i) \<noteq> Nil"
      "x = (norm_key (i_key (ns ! ?s i)), i_val (ns ! ?s i))"
      unfolding contents_def len v kk by (auto split: if_splits)
    then show "x \<in> contents ns" unfolding contents_def using sl by blast
  next
    fix x assume "x \<in> contents ns"
    then obtain i where i: "i < length ns" "i_val (ns ! i) \<noteq> Nil" "x = (norm_key (i_key (ns ! i)), i_val (ns ! i))"
      unfolding contents_def by blast
    then have "?s i \<noteq> mp" using vn by (auto simp: swap_def)
    with i show "x \<in> contents ns'"
      unfolding contents_def len v kk using sl [of i] by (intro CollectI exI [of _ "?s i"]) simp
  qed
qed


text \<open>An insertion: the colliding node is at its own main position, the new one goes after it.\<close>

definition chain_node :: "node list \<Rightarrow> nat \<Rightarrow> nat \<Rightarrow> tvalue \<Rightarrow> node list" where
  "chain_node ns n mp key =
     (let ns1 = ns[n := (ns ! n)\<lparr>nk_next := nk_next (ns ! mp)\<rparr>];
          ns2 = ns1[mp := (ns1 ! mp)\<lparr>nk_next := Some n\<rparr>]
      in ns2[n := (ns2 ! n)\<lparr>i_key := key\<rparr>])"

lemma chain_node_nth:
  assumes "n < length ns" "mp < length ns" "n \<noteq> mp"
  shows "chain_node ns n mp key ! i =
    (if i = mp then (ns ! mp)\<lparr>nk_next := Some n\<rparr>
     else if i = n then (ns ! n)\<lparr>nk_next := nk_next (ns ! mp), i_key := key\<rparr> else ns ! i)"
  using assms by (simp add: chain_node_def Let_def nth_list_update)

lemma chain_node_ok:
  assumes ok: "nodes_ok ls ns" and mp: "mp = mainpos ls key"
    and key: "key \<noteq> Nil" "\<not> is_nan key" "node_of ns key = None"
    and n: "n < length ns" "i_key (ns ! n) = Nil"
    and own: "keyed ns mp" "mainpos ls (i_key (ns ! mp)) = mp"
  defines "ns' \<equiv> chain_node ns n mp key"
  shows "nodes_ok ls ns'" "contents ns' = contents ns" "\<And>i. keyed ns' i \<longleftrightarrow> keyed ns i \<or> i = n"
    "i_val (ns' ! n) = Nil"
proof -
  have o: "links_ok ns" "keys_ok ns" "heads_ok ls ns" "length ns = 2 ^ ls" "ls \<le> MAXBITS"
    using ok by (simp_all add: nodes_ok_def)
  have nk: "\<not> keyed ns n" using n(2) by (simp add: keyed_def)
  have m: "mp < length ns" "n \<noteq> mp" using own(1) nk by (auto simp: keyed_def)
  have nth: "ns' ! i = (if i = mp then (ns ! mp)\<lparr>nk_next := Some n\<rparr>
     else if i = n then (ns ! n)\<lparr>nk_next := nk_next (ns ! mp), i_key := key\<rparr> else ns ! i)" for i
    unfolding ns'_def by (rule chain_node_nth [OF n(1) m])
  have kk: "i_key (ns' ! i) = (if i = n then key else i_key (ns ! i))"
    and vv: "i_val (ns' ! i) = i_val (ns ! i)" for i using m(2) by (simp_all add: nth)
  have len: "length ns' = length ns" by (simp add: ns'_def chain_node_def Let_def)
  have ed: "edge ns' i j \<longleftrightarrow> (if i = mp then j = n else if i = n then edge ns mp j else edge ns i j)" for i j
    using m n(1) by (auto simp: edge_def len nth)
  have noE: "\<not> edge ns n j" "\<not> edge ns j n" for j using keyedI [OF _ o(1)] n(2) by blast+
  show k: "keyed ns' i \<longleftrightarrow> keyed ns i \<or> i = n" for i
    using n m key(1) by (auto simp: keyed_def len kk)
  have vn: "i_val (ns ! n) = Nil" using keys_okD(1) [OF o(2) n(1)] n(2) by blast
  then show "i_val (ns' ! n) = Nil" by (simp add: vv)
  have re: "reach ns' i j" if "reach ns i j" for i j
    using that
  proof (induction rule: rtranclp_induct)
    case (step a b)
    have "reach ns' a b"
    proof (cases "a = mp")
      case True
      then have "edge ns' mp n" "edge ns' n b" using step(2) m(2) by (simp_all add: ed)
      then show ?thesis using True by (meson converse_rtranclp_into_rtranclp r_into_rtranclp)
    next
      case False
      then have "edge ns' a b" using step(2) noE(1) by (auto simp: ed)
      then show ?thesis by (rule r_into_rtranclp)
    qed
    with step(3) show ?case by (rule rtranclp_trans)
  qed simp
  have "links_ok ns'"
  proof -
    obtain f :: "nat \<Rightarrow> nat" where f: "\<And>i j. edge ns i j \<Longrightarrow> f j < f i"
      using o(1) unfolding links_ok_def by blast
    define g where "g i = (if i = n then 2 * f mp else 2 * f i + 1)" for i
    have "keyed ns' i \<and> keyed ns' j" if "edge ns' i j" for i j
      using that links_okD(1,2) [OF o(1)] own(1) unfolding ed k by (auto split: if_splits)
    moreover have "i = i'" if "edge ns' i j" "edge ns' i' j" for i i' j
      using that links_okD(3) [OF o(1)] noE unfolding ed by (auto split: if_splits)
    moreover have "g j < g i" if ij: "edge ns' i j" for i j
    proof -
      consider "i = mp" "j = n" | "i = n" "edge ns mp j" | "i \<noteq> mp" "i \<noteq> n" "edge ns i j"
        using ij unfolding ed by (auto split: if_splits)
      then show ?thesis
      proof cases
        case 2
        then have "j \<noteq> n" using noE(2) by blast
        with 2 f [OF 2(2)] show ?thesis by (simp add: g_def)
      next
        case 3
        then have "j \<noteq> n" using noE(2) by blast
        with 3 f [OF 3(3)] show ?thesis by (simp add: g_def)
      qed (use m(2) in \<open>simp add: g_def\<close>)
    qed
    ultimately show ?thesis unfolding links_ok_def by blast
  qed
  moreover have "heads_ok ls ns'"
    unfolding heads_ok_def Let_def
  proof (intro allI impI)
    fix i assume i: "keyed ns' i"
    let ?p = "mainpos ls (i_key (ns' ! i))"
    show "reach ns' ?p i \<and> keyed ns' ?p \<and> mainpos ls (i_key (ns' ! ?p)) = ?p"
    proof (cases "i = n")
      case True
      then have "?p = mp" by (simp add: kk mp)
      moreover have "reach ns' mp n" by (rule r_into_rtranclp) (simp add: ed)
      ultimately show ?thesis using True own m(2) by (simp add: kk k)
    next
      case False
      then have p: "?p = mainpos ls (i_key (ns ! i))" and si: "keyed ns i"
        using i by (simp_all add: kk k)
      note h = heads_okD [OF o(3) si, folded p]
      then have "?p \<noteq> n" using nk by metis
      then have kp: "i_key (ns' ! ?p) = i_key (ns ! ?p)" using kk [of ?p] by simp
      show ?thesis unfolding kp k using h re [OF h(1)] by blast
    qed
  qed
  moreover have "keys_ok ns'"
  proof -
    have no: "norm_key (i_key (ns ! i)) \<noteq> norm_key key" if "keyed ns i" for i
      using key(3) that unfolding node_of_None matches_def keyed_def by blast
    have "i = j" if ij: "keyed ns' i" "keyed ns' j" "norm_key (i_key (ns' ! i)) = norm_key (i_key (ns' ! j))" for i j
    proof (rule ccontr)
      assume d: "i \<noteq> j"
      consider "i = n" "j \<noteq> n" "keyed ns j" | "j = n" "i \<noteq> n" "keyed ns i"
        | "i \<noteq> n" "j \<noteq> n" "keyed ns i" "keyed ns j"
        using ij(1,2) d unfolding k by blast
      then show False
      proof cases
        case 1
        with ij(3) no [of j] show ?thesis by (simp add: kk)
      next
        case 2
        with ij(3) no [of i] show ?thesis by (simp add: kk)
      next
        case 3
        then have "norm_key (i_key (ns ! i)) = norm_key (i_key (ns ! j))" using ij(3) by (simp add: kk)
        with 3 o(2) d show ?thesis unfolding keys_ok_def by blast
      qed
    qed
    moreover have "\<not> is_nan (i_key (ns' ! i))" "i_val (ns' ! i) \<noteq> Nil \<Longrightarrow> i_key (ns' ! i) \<noteq> Nil"
      if "i < length ns" for i
      using keys_okD [OF o(2) that] key(1,2) by (simp_all add: kk vv)
    ultimately show ?thesis unfolding keys_ok_def len by blast
  qed
  ultimately show "nodes_ok ls ns'" using o(4,5) by (simp add: nodes_ok_def len)
  show "contents ns' = contents ns"
    by (rule contents_cong [OF len]) (use vn in \<open>auto simp: kk vv\<close>)
qed


subsection \<open>Finding the predecessor and a free node\<close>

lemma find_prev_fuel:
  assumes l: "links_ok ns"
  shows "\<lbrakk>reach ns a mp; a \<noteq> mp; a < length ns; card {j. reach ns a j} \<le> fuel\<rbrakk>
    \<Longrightarrow> \<exists>p. find_prev ns fuel a mp = Inr p \<and> edge ns p mp"
proof (induction fuel arbitrary: a)
  case 0
  then have "{j. reach ns a j} = {}" using finite_reach [OF l] by simp
  then show ?case by blast
next
  case (Suc fuel)
  obtain m where e: "edge ns a m" and m: "reach ns m mp"
    using Suc.prems(1,2) by (blast elim: converse_rtranclpE)
  then have nx: "nk_next (ns ! a) = Some m" by (simp add: edge_def)
  show ?case
  proof (cases "m = mp")
    case True
    then show ?thesis using nx e by auto
  next
    case False
    have ml: "m < length ns" using keyedI [OF e l] by simp
    have s: "{j. reach ns a j} = insert a {j. reach ns m j}"
      using reach_Some [OF Suc.prems(3) nx] by blast
    have "a \<notin> {j. reach ns m j}" using links_acyclic [OF l e] by simp
    then have "card {j. reach ns m j} \<le> fuel"
      using Suc.prems(4) finite_reach [OF l ml] unfolding s by simp
    from Suc.IH [OF m False ml this] False nx show ?thesis by simp
  qed
qed

lemma find_prev_ok:
  assumes "links_ok ns" "reach ns a mp" "a \<noteq> mp" "a < length ns"
  shows "\<exists>p. find_prev ns (length ns) a mp = Inr p \<and> edge ns p mp"
proof (rule find_prev_fuel [OF assms])
  have "{j. reach ns a j} \<subseteq> {..<length ns}" using reach_in_range [OF assms(1) _ assms(4)] by blast
  then show "card {j. reach ns a j} \<le> length ns" using card_mono [of "{..<length ns}"] by fastforce
qed

text \<open>The nodes from \<open>lastfree\<close> on are in use.\<close>

definition used_from :: "node list \<Rightarrow> int \<Rightarrow> bool" where
  "used_from ns lf \<longleftrightarrow> lf \<le> int (length ns) \<and> (\<forall>i < length ns. lf \<le> int i \<longrightarrow> i_key (ns ! i) \<noteq> Nil)"

lemma getfreepos_ok:
  assumes "used_from ns lf"
  shows "case getfreepos ns lf of
      (Some n, lf') \<Rightarrow> n < length ns \<and> i_key (ns ! n) = Nil \<and> lf' = int n \<and> used_from ns (int n + 1)
    | (None, lf') \<Rightarrow> used_from ns lf' \<and> (\<forall>i < length ns. keyed ns i)"
  using assms
proof (induction ns lf rule: getfreepos.induct)
  case (1 ns lf)
  show ?case
  proof (cases "lf > 0")
    case True
    then have l: "nat (lf - 1) < length ns" "int (nat (lf - 1)) = lf - 1"
      using "1.prems" by (auto simp: used_from_def)
    show ?thesis
    proof (cases "i_key (ns ! nat (lf - 1)) = Nil")
      case True
      then have "getfreepos ns lf = (Some (nat (lf - 1)), lf - 1)"
        using \<open>lf > 0\<close> by (subst getfreepos.simps) simp
      moreover have "int (nat (lf - 1)) + 1 = lf" using \<open>lf > 0\<close> by simp
      ultimately show ?thesis using True l(1) "1.prems" \<open>lf > 0\<close> by (simp only: prod.case option.case) simp
    next
      case False
      have "i_key (ns ! i) \<noteq> Nil" if "i < length ns" "lf - 1 \<le> int i" for i
      proof (cases "int i = lf - 1")
        case True
        then have "i = nat (lf - 1)" by simp
        with False show ?thesis by simp
      next
        case False
        then show ?thesis using that "1.prems" by (simp add: used_from_def)
      qed
      then have "used_from ns (lf - 1)" using l by (simp add: used_from_def)
      from "1.IH" [OF True False this] True False show ?thesis
        by (simp add: getfreepos.simps [of ns lf])
    qed
  next
    case False
    then show ?thesis using "1.prems" by (auto simp: getfreepos.simps [of ns lf] used_from_def keyed_def)
  qed
qed

end
