(* ===== verification/LuaTableSet.thy ===== *)
theory LuaTableSet
  imports LuaTableInv
begin

unbundle bit_operations_syntax

section \<open>Tables as maps\<close>

text \<open>
  The invariant of a table, the map from keys to values that it stands for, and the proofs that
  \<^verbatim>\<open>luaH_get\<close> reads this map and \<^verbatim>\<open>newkey\<close> leaves it alone while it makes room for a key.
\<close>

subsection \<open>Integer keys\<close>

definition in_array :: "nat \<Rightarrow> tvalue \<Rightarrow> bool" where
  "in_array n key \<longleftrightarrow> 0 < arrayindex key \<and> arrayindex key \<le> int n"

lemma arrayindex_cast [simp]: "is_int k \<Longrightarrow> arrayindex (Number (cast_num k)) = k"
  by (simp add: arrayindex_def)

lemma arrayindex_key:
  assumes "0 < arrayindex key"
  shows "norm_key key = norm_key (Number (cast_num (arrayindex key)))" "is_int (arrayindex key)" "\<not> is_nan key"
proof -
  obtain d where d: "key = Number d" "luai_numeq (cast_num (number2int d)) d" "arrayindex key = number2int d"
    using assms by (auto simp: arrayindex_def Let_def split: tvalue.splits if_splits)
  then show "norm_key key = norm_key (Number (cast_num (arrayindex key)))" "\<not> is_nan key"
    by (simp_all add: luai_numeq_norm norm_key_def is_nan_def)
  show "is_int (arrayindex key)" using number2int_is_int d(3) by simp
qed

lemma arrayindex_norm_num:
  assumes "norm_num d = norm_num d'" "arrayindex (Number d) = k" "k \<noteq> -1"
  shows "arrayindex (Number d') = k"
proof -
  have k: "luai_numeq (cast_num (number2int d)) d" "k = number2int d"
    using assms(2,3) by (auto simp: arrayindex_def Let_def split: if_splits)
  then have "luai_numeq (cast_num k) d'"
    using assms(1) norm_num_nan unfolding luai_numeq_norm by metis
  moreover from numeq_number2int [OF _ this] have "number2int d' = k"
    using number2int_is_int k(2) by simp
  ultimately show ?thesis by (simp add: arrayindex_def)
qed

lemma arrayindex_norm:
  assumes "norm_key k = norm_key k'" shows "arrayindex k = arrayindex k'"
proof (cases "\<exists>d d'. k = Number d \<and> k' = Number d'")
  case True
  then obtain d d' where d: "k = Number d" "k' = Number d'" by blast
  then have e: "norm_num d = norm_num d'" using assms by (simp add: norm_key_def)
  show ?thesis
    using arrayindex_norm_num [OF e] arrayindex_norm_num [OF e [symmetric]] unfolding d by metis
next
  case False
  then have "\<not> (\<exists>d. k = Number d)" "\<not> (\<exists>d. k' = Number d)"
    using assms by (cases k; cases k'; simp add: norm_key_def)+
  then show ?thesis by (cases k; cases k'; simp add: arrayindex_def)
qed

lemma in_array_norm: "norm_key k = norm_key k' \<Longrightarrow> in_array n k = in_array n k'"
  by (drule arrayindex_norm) (simp add: in_array_def)

lemma trans_sym: "a = c \<Longrightarrow> b = c \<Longrightarrow> a = b"
  by simp

lemma in_array_inj: "in_array n k \<Longrightarrow> in_array n k' \<Longrightarrow> arrayindex k = arrayindex k' \<longleftrightarrow> norm_key k = norm_key k'"
proof
  assume "in_array n k" "in_array n k'" and e: "arrayindex k = arrayindex k'"
  then have "norm_key k = norm_key (Number (cast_num (arrayindex k)))"
    "norm_key k' = norm_key (Number (cast_num (arrayindex k)))"
    using arrayindex_key(1) [of k] arrayindex_key(1) [of k'] unfolding in_array_def e by blast+
  then show "norm_key k = norm_key k'" by (rule trans_sym)
qed (rule arrayindex_norm)

subsection \<open>The invariant and the map\<close>

definition table_inv :: "table \<Rightarrow> bool" where
  "table_inv t \<longleftrightarrow>
     nodes_ok (lsizenode t) (t_node t) \<and> sizearray t \<le> length (t_array t) \<and> sizearray t \<le> 2 ^ 26 \<and>
     (if isdummy t then t_node t = [empty_node] \<and> lastfree t \<le> 0 else used_from (t_node t) (lastfree t)) \<and>
     (\<forall>i. keyed (t_node t) i \<longrightarrow> \<not> in_array (sizearray t) (i_key (t_node t ! i)))"

definition slot_of :: "table \<Rightarrow> tvalue \<Rightarrow> slot" where
  "slot_of t key =
     (if in_array (sizearray t) key then ArraySlot (nat (arrayindex key - 1))
      else case node_of (t_node t) key of None \<Rightarrow> NilObject | Some i \<Rightarrow> NodeSlot i)"

definition amap :: "table \<Rightarrow> tvalue \<Rightarrow> tvalue" where
  "amap t key = slot_val t (slot_of t key)"

lemma amap_alt:
  "amap t key = (if in_array (sizearray t) key then t_array t ! nat (arrayindex key - 1)
                 else node_val (t_node t) key)"
  by (simp add: amap_def slot_of_def slot_val_def node_val_def split: option.splits)

lemma matches_norm: "norm_key k = norm_key k' \<Longrightarrow> matches k = matches k'"
  by (simp add: matches_def fun_eq_iff)

lemma slot_of_norm: "norm_key k = norm_key k' \<Longrightarrow> slot_of t k = slot_of t k'"
proof -
  assume e: "norm_key k = norm_key k'"
  show ?thesis
    unfolding slot_of_def node_of_def in_array_norm [OF e] arrayindex_norm [OF e] matches_norm [OF e] ..
qed

lemma amap_norm: "norm_key k = norm_key k' \<Longrightarrow> amap t k = amap t k'"
  unfolding amap_def by (drule slot_of_norm [of _ _ t]) simp

lemma slot_of_cases:
  assumes "table_inv t"
  obtains "slot_of t k = NilObject" "\<not> in_array (sizearray t) k" "node_of (t_node t) k = None" "amap t k = Nil"
  | i where "slot_of t k = ArraySlot i" "i < sizearray t" "i < length (t_array t)" "arrayindex k = int i + 1"
      "amap t k = t_array t ! i"
  | i where "slot_of t k = NodeSlot i" "\<not> in_array (sizearray t) k" "i < length (t_node t)"
      "keyed (t_node t) i" "norm_key (i_key (t_node t ! i)) = norm_key k" "amap t k = i_val (t_node t ! i)"
proof (cases "in_array (sizearray t) k")
  case True
  define i where "i = nat (arrayindex k - 1)"
  have "i < sizearray t" "arrayindex k = int i + 1" using True by (auto simp: in_array_def i_def)
  moreover have "slot_of t k = ArraySlot i" using True by (simp add: slot_of_def i_def)
  moreover have "i < length (t_array t)" using assms \<open>i < sizearray t\<close> by (simp add: table_inv_def)
  ultimately show ?thesis using that(2) by (simp add: amap_def slot_val_def)
next
  case False
  show ?thesis
  proof (cases "node_of (t_node t) k")
    case None
    then show ?thesis using that(1) False by (simp add: amap_def slot_of_def slot_val_def)
  next
    case (Some i)
    note m = node_of_SomeD [OF Some]
    show ?thesis using that(3) [of i] False Some m
      by (simp add: amap_def slot_of_def slot_val_def matches_def keyed_def)
  qed
qed


subsection \<open>Searching\<close>

lemma table_inv_nodes: "table_inv t \<Longrightarrow> nodes_ok (lsizenode t) (t_node t)"
  by (simp add: table_inv_def)

lemma chain_slot_ok:
  assumes "table_inv t" "\<not> in_array (sizearray t) key" "\<not> P Nil"
    "\<And>k. k \<noteq> Nil \<Longrightarrow> \<not> is_nan k \<Longrightarrow> P k \<longleftrightarrow> norm_key k = norm_key key"
    "mp = mainpos (lsizenode t) key"
  shows "chain_slot P t mp = Inr (slot_of t key)"
proof -
  have "find_chain P (t_node t) (length (t_node t)) mp = Inr (node_of (t_node t) key)"
    unfolding assms(5) by (rule find_chain_node_of [OF table_inv_nodes [OF assms(1)] assms(4,3)])
  then show ?thesis using assms(2) by (simp add: chain_slot_def slot_of_def)
qed

lemma word_index_less:
  assumes "is_int k" "n \<le> 2 ^ 30"
  shows "(of_int (k - 1) :: 32 word) < of_nat n \<longleftrightarrow> 0 < k \<and> k \<le> int n"
proof -
  have n: "uint (of_nat n :: 32 word) = int n"
  proof -
    have "unat (of_nat n :: 32 word) = n" using assms(2) by (simp add: unat_of_nat)
    then show ?thesis using uint_nat [of "of_nat n :: 32 word"] by (simp only:)
  qed
  have k: "uint (of_int (k - 1) :: 32 word) = (k - 1) mod 2 ^ 32"
    unfolding uint_word_of_int by simp
  have b: "- 2147483648 \<le> k" "k \<le> 2147483647" using assms(1) by (auto simp: is_int_def int_min_def int_max_def)
  show ?thesis
  proof (cases "0 < k")
    case True
    then have "(k - 1) mod 2 ^ 32 = k - 1" using b by simp
    then show ?thesis using True unfolding word_less_def n k by linarith
  next
    case False
    then have "(k - 1) mod 2 ^ 32 = (k - 1) + 2 ^ 32"
      using b mod_add_self2 [of "k - 1" "2 ^ 32"] by (simp add: mod_pos_pos_trivial flip: mod_add_self2 [of "k - 1"])
    moreover have "\<not> (k - 1) + 2 ^ 32 < int n" using b assms(2) by simp
    ultimately show ?thesis using False unfolding word_less_def n k by simp
  qed
qed

lemma norm_cast: "norm_key (Number a) = norm_key (Number b) \<longleftrightarrow> norm_num a = norm_num b"
  by (simp add: norm_key_def)

lemma number_match:
  assumes "\<not> dbl_nan d" "k \<noteq> Nil" "\<not> is_nan k"
  shows "(case k of Number x \<Rightarrow> luai_numeq x d | _ \<Rightarrow> False) \<longleftrightarrow> norm_key k = norm_key (Number d)"
  using assms by (cases k) (simp_all add: norm_key_def luai_numeq_norm is_nan_def)

lemma luaH_getnum_ok:
  assumes "table_inv t" "is_int k"
  shows "luaH_getnum t k = Inr (slot_of t (Number (cast_num k)))"
proof -
  have s: "sizearray t \<le> 2 ^ 30" using assms(1) by (simp add: table_inv_def)
  note w = word_index_less [OF assms(2) s]
  show ?thesis
  proof (cases "0 < k \<and> k \<le> int (sizearray t)")
    case True
    then show ?thesis using w assms(2) by (simp add: luaH_getnum_def slot_of_def in_array_def)
  next
    case False
    then have na: "\<not> in_array (sizearray t) (Number (cast_num k))" using assms(2) by (simp add: in_array_def)
    have "chain_slot (\<lambda>x. case x of Number d \<Rightarrow> luai_numeq d (cast_num k) | _ \<Rightarrow> False) t
        (hashnum (lsizenode t) (cast_num k)) = Inr (slot_of t (Number (cast_num k)))"
      by (rule chain_slot_ok [OF assms(1) na _ number_match]) (simp_all add: assms(2))
    then show ?thesis using False w unfolding luaH_getnum_def Let_def by (simp only: if_False)
  qed
qed

lemma luaH_getstr_ok:
  assumes "table_inv t" shows "luaH_getstr t s = Inr (slot_of t (String s))"
  unfolding luaH_getstr_def
proof (rule chain_slot_ok [OF assms])
  fix k assume "k \<noteq> Nil" "\<not> is_nan k"
  show "(case k of String s' \<Rightarrow> s' = s | _ \<Rightarrow> False) = (norm_key k = norm_key (String s))"
    by (cases k) (simp_all add: norm_key_def)
qed (simp_all add: in_array_def arrayindex_def)

lemma not_rawequal_Nil: "key \<noteq> Nil \<Longrightarrow> \<not> luaO_rawequalObj Nil key"
  by (cases key) (simp_all add: luaO_rawequalObj_def)

lemma get_generic_ok:
  assumes "table_inv t" "key \<noteq> Nil" "\<not> in_array (sizearray t) key"
  shows "get_generic t key = Inr (slot_of t key)"
  unfolding get_generic_def
proof (rule chain_slot_ok [OF assms(1,3)])
  show "\<not> luaO_rawequalObj Nil key" using assms(2) by (rule not_rawequal_Nil)
qed (simp_all add: luaO_rawequalObj_norm mainposition_def)

lemma get_generic_match:
  assumes "table_inv t" "key \<noteq> Nil" "\<not> in_array (sizearray t) key"
  shows "find_chain (\<lambda>k. luaO_rawequalObj k key) (t_node t) (length (t_node t)) (mainposition t key) =
    Inr (node_of (t_node t) key)"
  unfolding mainposition_def
proof (rule find_chain_node_of [OF table_inv_nodes [OF assms(1)]])
  show "\<not> luaO_rawequalObj Nil key" using assms(2) by (rule not_rawequal_Nil)
qed (simp add: luaO_rawequalObj_norm)

lemma luaH_get_ok:
  assumes inv: "table_inv t" shows "luaH_get t key = Inr (slot_of t key)"
proof -
  have g: "get_generic t key = Inr (slot_of t key)" if "key \<noteq> Nil" "arrayindex key = -1" for key
    using get_generic_ok [OF inv that(1)] that(2) by (simp add: in_array_def)
  show ?thesis
  proof (cases key)
    case Nil
    have "node_of (t_node t) Nil = None" by (simp add: node_of_None matches_def)
    then show ?thesis using Nil by (simp add: luaH_get_def slot_of_def in_array_def arrayindex_def)
  next
    case (String s)
    then show ?thesis by (simp add: luaH_get_def luaH_getstr_ok [OF inv])
  next
    case (Number d)
    show ?thesis
    proof (cases "luai_numeq (cast_num (number2int d)) d")
      case True
      then have "norm_key (Number (cast_num (number2int d))) = norm_key key"
        unfolding Number norm_cast luai_numeq_norm by blast
      from slot_of_norm [OF this] True Number show ?thesis
        by (simp add: luaH_get_def luaH_getnum_ok [OF inv number2int_is_int])
    next
      case False
      then have "arrayindex key = -1" by (simp add: Number arrayindex_def)
      with g [of key] False show ?thesis by (simp add: Number luaH_get_def)
    qed
  qed (use g [of key] in \<open>simp_all add: luaH_get_def arrayindex_def\<close>)
qed

subsection \<open>Writing through a slot\<close>

lemma edge_update_val: "edge (ns[i := (ns ! i)\<lparr>i_val := v\<rparr>]) = edge ns"
  by (intro ext, cases "i < length ns") (auto simp: edge_def nth_list_update list_update_beyond)

lemma key_update_val: "i_key (ns[i := (ns ! i)\<lparr>i_val := v\<rparr>] ! j) = i_key (ns ! j)"
  by (cases "i < length ns") (auto simp: nth_list_update list_update_beyond)

lemma val_update_val:
  "i < length ns \<Longrightarrow> i_val (ns[i := (ns ! i)\<lparr>i_val := v\<rparr>] ! j) = (if j = i then v else i_val (ns ! j))"
  by (simp add: nth_list_update)

lemmas nth_update_val = key_update_val val_update_val

lemma keyed_update_val: "keyed (ns[i := (ns ! i)\<lparr>i_val := v\<rparr>]) = keyed ns"
  by (intro ext) (simp add: keyed_def nth_update_val(1))

lemma nodes_ok_update_val:
  assumes "nodes_ok ls ns" "keyed ns i" shows "nodes_ok ls (ns[i := (ns ! i)\<lparr>i_val := v\<rparr>])"
proof -
  let ?ns = "ns[i := (ns ! i)\<lparr>i_val := v\<rparr>]"
  have i: "i < length ns" "i_key (ns ! i) \<noteq> Nil" using assms(2) by (simp_all add: keyed_def)
  have "links_ok ?ns = links_ok ns" by (simp only: links_ok_def edge_update_val keyed_update_val)
  moreover have "heads_ok ls ?ns = heads_ok ls ns"
    by (simp only: heads_ok_def edge_update_val keyed_update_val nth_update_val(1))
  moreover have "keys_ok ns \<Longrightarrow> keys_ok ?ns"
    using i by (auto simp only: keys_ok_def keyed_update_val nth_update_val length_list_update split: if_splits)
  ultimately show ?thesis using assms(1) by (simp add: nodes_ok_def)
qed

lemma node_of_update_val: "node_of (ns[i := (ns ! i)\<lparr>i_val := v\<rparr>]) k = node_of ns k"
  by (simp only: node_of_def matches_def nth_update_val(1) length_list_update)

lemma set_slot_fields [simp]:
  "sizearray (set_slot t p v) = sizearray t" "lsizenode (set_slot t p v) = lsizenode t"
  "isdummy (set_slot t p v) = isdummy t" "length (t_array (set_slot t p v)) = length (t_array t)"
  "length (t_node (set_slot t p v)) = length (t_node t)" "lastfree (set_slot t p v) = lastfree t"
  "keyed (t_node (set_slot t p v)) = keyed (t_node t)"
  "i_key (t_node (set_slot t p v) ! i) = i_key (t_node t ! i)"
  by (cases p; simp add: set_slot_def keyed_update_val nth_update_val(1))+

lemma slot_of_set_slot [simp]: "slot_of (set_slot t p v) k = slot_of t k"
proof -
  have "node_of (t_node (set_slot t p v)) k = node_of (t_node t) k"
    by (cases p) (simp_all add: set_slot_def node_of_update_val)
  then show ?thesis by (simp add: slot_of_def)
qed

lemma not_dummy_keyed: "table_inv t \<Longrightarrow> keyed (t_node t) i \<Longrightarrow> \<not> isdummy t"
  by (cases i) (auto simp: table_inv_def keyed_def empty_node_def)

lemma slot_neq: "slot_of t k \<noteq> slot_of t k' \<Longrightarrow> norm_key k \<noteq> norm_key k'"
  using slot_of_norm by blast

lemma slot_inj:
  assumes "table_inv t" "slot_of t k = slot_of t key" "slot_of t key \<noteq> NilObject"
  shows "norm_key k = norm_key key"
proof (cases rule: slot_of_cases [OF assms(1), of key])
  case (2 i)
  then have k: "in_array (sizearray t) key" "slot_of t k = ArraySlot i" using assms(2) by (simp_all add: in_array_def)
  have "in_array (sizearray t) k \<and> arrayindex k = arrayindex key"
    by (cases rule: slot_of_cases [OF assms(1), of k]) (use k 2 in \<open>simp_all add: in_array_def\<close>)
  then show ?thesis using in_array_inj k(1) by blast
next
  case (3 i)
  have "norm_key (i_key (t_node t ! i)) = norm_key k"
    by (cases rule: slot_of_cases [OF assms(1), of k]) (use 3 assms(2) in simp_all)
  with 3(5) show ?thesis by simp
qed (use assms(3) in simp)

lemma slot_val_set:
  assumes "table_inv t" "slot_of t key \<noteq> NilObject"
  shows "slot_val (set_slot t (slot_of t key) v) (slot_of t k) =
    (if slot_of t k = slot_of t key then v else slot_val t (slot_of t k))"
  by (cases rule: slot_of_cases [OF assms(1), of key])
    (use assms(2) in \<open>simp_all add: slot_val_def set_slot_def nth_list_update nth_update_val split: slot.splits\<close>)

lemma set_slot_ok:
  assumes inv: "table_inv t" and p: "slot_of t key \<noteq> NilObject"
  shows "table_inv (set_slot t (slot_of t key) v)"
    "amap (set_slot t (slot_of t key) v) k = (if norm_key k = norm_key key then v else amap t k)"
proof -
  show "amap (set_slot t (slot_of t key) v) k = (if norm_key k = norm_key key then v else amap t k)"
    using slot_val_set [OF inv p] slot_inj [OF inv _ p] slot_of_norm [of k key t]
    unfolding amap_def slot_of_set_slot by metis
  show "table_inv (set_slot t (slot_of t key) v)"
  proof (cases rule: slot_of_cases [OF inv, of key])
    case (3 i)
    have nd: "\<not> isdummy t" by (rule not_dummy_keyed [OF inv 3(4)])
    show ?thesis
      unfolding 3(1) using inv nd nodes_ok_update_val [OF table_inv_nodes [OF inv] 3(4), of v]
      by (simp add: table_inv_def set_slot_def keyed_update_val used_from_def nth_update_val(1))
  qed (use inv p in \<open>simp_all add: table_inv_def set_slot_def\<close>)
qed


subsection \<open>Adding a key\<close>

definition key_ok :: "tvalue \<Rightarrow> bool" where
  "key_ok key \<longleftrightarrow> key \<noteq> Nil \<and> \<not> is_nan key"

text \<open>
  What \<^verbatim>\<open>newkey\<close> leaves of a table: the map, the array part and the sizes are the same, and
  at most one more node is in use.
\<close>

definition same_map :: "table \<Rightarrow> table \<Rightarrow> bool" where
  "same_map t t' \<longleftrightarrow> table_inv t' \<and> amap t' = amap t \<and> t_array t' = t_array t \<and>
     sizearray t' = sizearray t \<and> lsizenode t' = lsizenode t \<and> isdummy t' = isdummy t \<and>
     flags t' = flags t \<and> metatable t' = metatable t"

definition keyed_count :: "table \<Rightarrow> nat" where
  "keyed_count t = card {i. keyed (t_node t) i}"

lemma finite_keyed [simp]: "finite {i. keyed ns i}"
  by (rule finite_subset [of _ "{..<length ns}"]) (auto simp: keyed_def)

lemma keyed_count_le: "keyed_count t \<le> length (t_node t)"
  unfolding keyed_count_def
  by (rule order_trans [OF card_mono [of "{..<length (t_node t)}"]]) (auto simp: keyed_def)

lemma used_from_update:
  assumes "used_from ns lf" "length ns' = length ns" "\<And>i. keyed ns i \<Longrightarrow> keyed ns' i"
  shows "used_from ns' lf"
  using assms by (auto simp: used_from_def keyed_def)

lemma replace_nodes:
  assumes inv: "table_inv t" and nd: "\<not> isdummy t"
    and ns: "nodes_ok (lsizenode t) ns'" "contents ns' = contents (t_node t)"
    and uf: "used_from ns' lf"
    and na: "\<And>i. keyed ns' i \<Longrightarrow> \<not> in_array (sizearray t) (i_key (ns' ! i))"
  shows "same_map t (t\<lparr>t_node := ns', lastfree := lf\<rparr>)"
proof -
  let ?t = "t\<lparr>t_node := ns', lastfree := lf\<rparr>"
  have k: "keys_ok (t_node t)" "keys_ok ns'" using inv ns(1) by (simp_all add: table_inv_def nodes_ok_def)
  have "table_inv ?t" using inv nd ns(1) uf na by (simp add: table_inv_def)
  moreover have "amap ?t = amap t"
    using node_val_eqI [OF k(2,1) ns(2)] by (intro ext) (simp add: amap_alt)
  ultimately show ?thesis by (simp add: same_map_def)
qed

lemma slot_of_new:
  assumes "nodes_ok (lsizenode t') (t_node t')" "i < length (t_node t')" "i_key (t_node t' ! i) = key"
    "key \<noteq> Nil" "\<not> in_array (sizearray t') key"
  shows "slot_of t' key = NodeSlot i"
proof -
  have "keys_ok (t_node t')" using assms(1) by (simp add: nodes_ok_def)
  then have "node_of (t_node t') key = Some i"
    using assms(2-4) by (simp add: node_of_unique matches_def)
  then show ?thesis using assms(5) by (simp add: slot_of_def)
qed

definition key_added :: "table \<Rightarrow> tvalue \<Rightarrow> slot \<Rightarrow> table \<Rightarrow> bool" where
  "key_added t key p t' \<longleftrightarrow> same_map t t' \<and> slot_of t' key = p \<and> p \<noteq> NilObject \<and>
     keyed_count t' \<le> Suc (keyed_count t)"

lemma key_addedI:
  assumes inv: "table_inv t" and nd: "\<not> isdummy t"
    and ns: "nodes_ok (lsizenode t) ns'" "contents ns' = contents (t_node t)"
    and uf: "used_from ns' lf"
    and keyed: "\<And>j. keyed ns' j \<longleftrightarrow> keyed (t_node t) j \<or> j = m"
    and keys: "\<And>j. keyed ns' j \<Longrightarrow> i_key (ns' ! j) = key \<or> (\<exists>j'. keyed (t_node t) j' \<and> i_key (ns' ! j) = i_key (t_node t ! j'))"
    and i: "i < length ns'" "i_key (ns' ! i) = key" "key \<noteq> Nil" "\<not> in_array (sizearray t) key"
  shows "key_added t key (NodeSlot i) (t\<lparr>t_node := ns', lastfree := lf\<rparr>)"
proof -
  have "same_map t (t\<lparr>t_node := ns', lastfree := lf\<rparr>)"
  proof (rule replace_nodes [OF inv nd ns uf])
    fix j assume "keyed ns' j"
    from keys [OF this] show "\<not> in_array (sizearray t) (i_key (ns' ! j))"
      using i(4) inv unfolding table_inv_def by auto
  qed
  moreover have "slot_of (t\<lparr>t_node := ns', lastfree := lf\<rparr>) key = NodeSlot i"
    by (rule slot_of_new) (use ns(1) i in simp_all)
  moreover have "{j. keyed ns' j} \<subseteq> insert m {j. keyed (t_node t) j}" using keyed by blast
  then have "card {j. keyed ns' j} \<le> card (insert m {j. keyed (t_node t) j})"
    by (intro card_mono) simp_all
  then have "card {j. keyed ns' j} \<le> Suc (card {j. keyed (t_node t) j})"
    by (rule order_trans) (simp add: card_insert_if)
  ultimately show ?thesis by (simp add: key_added_def keyed_count_def)
qed

lemma used_from_fill:
  assumes "used_from ns (int n + 1)" "n < length ns" "length ns' = length ns"
    "\<And>i. keyed ns' i \<longleftrightarrow> keyed ns i \<or> i = n"
  shows "used_from ns' (int n)"
  unfolding used_from_def
proof (intro conjI allI impI)
  fix i assume i: "i < length ns'" "int n \<le> int i"
  have "keyed ns' i"
  proof (cases "i = n")
    case False
    then have "keyed ns i" using i assms(1,3) by (simp add: used_from_def keyed_def)
    then show ?thesis by (simp add: assms(4))
  qed (simp add: assms(4))
  then show "i_key (ns' ! i) \<noteq> Nil" by (simp add: keyed_def)
qed (use assms(2,3) in simp)

text \<open>A key that is not in the table, with its main position.\<close>

definition new_key_at :: "table \<Rightarrow> tvalue \<Rightarrow> nat \<Rightarrow> bool" where
  "new_key_at t key mp \<longleftrightarrow> table_inv t \<and> key \<noteq> Nil \<and> \<not> is_nan key \<and> mp = mainposition t key \<and>
     mp = mainpos (lsizenode t) key \<and> mp < length (t_node t) \<and> node_of (t_node t) key = None \<and>
     \<not> in_array (sizearray t) key"

lemma new_key_atI:
  assumes "table_inv t" "key_ok key" "slot_of t key = NilObject"
  shows "new_key_at t key (mainposition t key)"
proof -
  have "length (t_node t) = 2 ^ lsizenode t" "lsizenode t \<le> MAXBITS"
    using table_inv_nodes [OF assms(1)] by (simp_all add: nodes_ok_def)
  then show ?thesis
    using assms mainpos_less
    by (auto simp: new_key_at_def key_ok_def mainposition_def slot_of_def split: if_splits option.splits)
qed

lemma new_key_atD:
  assumes "new_key_at t key mp"
  shows "table_inv t" "key \<noteq> Nil" "\<not> is_nan key" "mainposition t key = mp" "mp = mainpos (lsizenode t) key"
    "mp < length (t_node t)" "node_of (t_node t) key = None" "\<not> in_array (sizearray t) key"
    "nodes_ok (lsizenode t) (t_node t)" "links_ok (t_node t)" "heads_ok (lsizenode t) (t_node t)"
    "keys_ok (t_node t)" "length (t_node t) = 2 ^ lsizenode t" "lsizenode t \<le> MAXBITS"
  using assms table_inv_nodes [of t] unfolding new_key_at_def nodes_ok_def by metis+

lemma newkey_overwrite:
  assumes n: "new_key_at t key mp" and v: "i_val (t_node t ! mp) = Nil" and nd: "\<not> isdummy t"
  shows "\<exists>t'. newkey grow t key = Inr (NodeSlot mp, t') \<and> key_added t key (NodeSlot mp) t'"
proof -
  note d = new_key_atD [OF n]
  let ?ns = "t_node t"
  let ?ns' = "?ns[mp := (?ns ! mp)\<lparr>i_key := key\<rparr>]"
  note w = overwrite_key [OF d(9,5) v d(2,3,7)]
  have uf: "used_from ?ns (lastfree t)" using d(1) nd by (simp add: table_inv_def)
  have "key_added t key (NodeSlot mp) (t\<lparr>t_node := ?ns', lastfree := lastfree t\<rparr>)"
  proof (rule key_addedI [OF d(1) nd w(1,2) _ w(3)])
    show "used_from ?ns' (lastfree t)" by (rule used_from_update [OF uf]) (simp_all add: w(3))
    show "i_key (?ns' ! j) = key \<or> (\<exists>j'. keyed ?ns j' \<and> i_key (?ns' ! j) = i_key (?ns ! j'))"
      if "keyed ?ns' j" for j
      using that d(6) unfolding w(3) by (cases "j = mp") auto
  qed (use d in simp_all)
  moreover have "newkey grow t key = Inr (NodeSlot mp, t\<lparr>t_node := ?ns', lastfree := lastfree t\<rparr>)"
    using v nd d(4) by (simp add: newkey_def Let_def)
  ultimately show ?thesis by blast
qed

lemma newkey_move:
  assumes n: "new_key_at t key mp" and v: "i_val (t_node t ! mp) \<noteq> Nil" and nd: "\<not> isdummy t"
    and g: "getfreepos (t_node t) (lastfree t) = (Some f, lf)"
    and f: "f < length (t_node t)" "i_key (t_node t ! f) = Nil" "lf = int f" "used_from (t_node t) (int f + 1)"
    and other: "mainposition t (i_key (t_node t ! mp)) \<noteq> mp"
  shows "\<exists>t'. newkey grow t key = Inr (NodeSlot mp, t') \<and> key_added t key (NodeSlot mp) t'"
proof -
  note d = new_key_atD [OF n]
  let ?ns = "t_node t" and ?o = "mainposition t (i_key (t_node t ! mp))"
  have km: "keyed ?ns mp" using keys_okD(1) [OF d(12,6)] v d(6) by (simp add: keyed_def)
  have oo: "?o = mainpos (lsizenode t) (i_key (?ns ! mp))" by (simp add: mainposition_def)
  have ol: "?o < length ?ns" using mainpos_less [OF d(14)] d(13) by (simp add: oo)
  have "reach ?ns ?o mp" using heads_okD(1) [OF d(11) km] by (simp add: oo)
  then obtain prev where pv: "find_prev ?ns (length ?ns) ?o mp = Inr prev" "edge ?ns prev mp"
    using find_prev_ok [OF d(10) _ other ol] by blast
  let ?ns' = "move_node ?ns prev f mp key"
  note w = move_node_ok [OF d(9,5,2,3,7) f(1,2) pv(2) other [unfolded oo]]
  have ne: "f \<noteq> mp" "f \<noteq> prev" "prev \<noteq> mp" "prev < length ?ns"
    using keyedI [OF pv(2) d(10)] f(2) links_acyclic [OF d(10) pv(2)] by auto
  have len: "length ?ns' = length ?ns" by (simp add: move_node_def Let_def)
  note nth = move_node_nth [OF f(1) d(6) ne(4) ne(1-3), of key]
  have "key_added t key (NodeSlot mp) (t\<lparr>t_node := ?ns', lastfree := lf\<rparr>)"
    unfolding f(3)
  proof (rule key_addedI [OF d(1) nd w(1,2) used_from_fill [OF f(4,1) len w(3)] w(3)])
    fix j assume "keyed ?ns' j"
    then have "keyed ?ns j \<or> j = f" by (simp only: w(3))
    then show "i_key (?ns' ! j) = key \<or> (\<exists>j'. keyed ?ns j' \<and> i_key (?ns' ! j) = i_key (?ns ! j'))"
      using km unfolding nth by (cases "j = mp"; cases "j = f"; cases "j = prev") auto
  qed (use len d(2,6,8) in \<open>simp_all add: nth\<close>)
  moreover have "newkey grow t key = Inr (NodeSlot mp, t\<lparr>t_node := ?ns', lastfree := lf\<rparr>)"
    using v g other pv(1) d(4) by (simp add: newkey_def Let_def move_node_def)
  ultimately show ?thesis by blast
qed

lemma newkey_chain:
  assumes n: "new_key_at t key mp" and v: "i_val (t_node t ! mp) \<noteq> Nil" and nd: "\<not> isdummy t"
    and g: "getfreepos (t_node t) (lastfree t) = (Some f, lf)"
    and f: "f < length (t_node t)" "i_key (t_node t ! f) = Nil" "lf = int f" "used_from (t_node t) (int f + 1)"
    and own: "mainposition t (i_key (t_node t ! mp)) = mp"
  shows "\<exists>t'. newkey grow t key = Inr (NodeSlot f, t') \<and> key_added t key (NodeSlot f) t'"
proof -
  note d = new_key_atD [OF n]
  let ?ns = "t_node t" and ?ns' = "chain_node (t_node t) f mp key"
  have km: "keyed ?ns mp" using keys_okD(1) [OF d(12,6)] v d(6) by (simp add: keyed_def)
  note w = chain_node_ok [OF d(9,5,2,3,7) f(1,2) km own [unfolded mainposition_def]]
  have ne: "f \<noteq> mp" using km f(2) by (auto simp: keyed_def)
  have len: "length ?ns' = length ?ns" by (simp add: chain_node_def Let_def)
  note nth = chain_node_nth [OF f(1) d(6) ne, of key]
  have "key_added t key (NodeSlot f) (t\<lparr>t_node := ?ns', lastfree := lf\<rparr>)"
    unfolding f(3)
  proof (rule key_addedI [OF d(1) nd w(1,2) used_from_fill [OF f(4,1) len w(3)] w(3)])
    fix j assume "keyed ?ns' j"
    then have "keyed ?ns j \<or> j = f" by (simp only: w(3))
    then show "i_key (?ns' ! j) = key \<or> (\<exists>j'. keyed ?ns j' \<and> i_key (?ns' ! j) = i_key (?ns ! j'))"
      using ne unfolding nth by (cases "j = mp"; cases "j = f") auto
  qed (use len f(1) d(2,6,8) ne in \<open>simp_all add: nth\<close>)
  moreover have "newkey grow t key = Inr (NodeSlot f, t\<lparr>t_node := ?ns', lastfree := lf\<rparr>)"
    using v g own d(4) by (simp add: newkey_def Let_def chain_node_def)
  ultimately show ?thesis by blast
qed

lemma all_keyed_count: "\<forall>i < length (t_node t). keyed (t_node t) i \<Longrightarrow> keyed_count t = length (t_node t)"
proof -
  assume "\<forall>i < length (t_node t). keyed (t_node t) i"
  then have "{i. keyed (t_node t) i} = {..<length (t_node t)}" by (auto simp: keyed_def)
  then show ?thesis by (simp add: keyed_count_def)
qed

lemma same_map_lastfree:
  assumes "table_inv t" "isdummy t \<Longrightarrow> lf \<le> 0" "\<not> isdummy t \<Longrightarrow> used_from (t_node t) lf"
  shows "same_map t (t\<lparr>lastfree := lf\<rparr>)"
proof -
  have "amap (t\<lparr>lastfree := lf\<rparr>) = amap t" by (intro ext) (simp add: amap_alt)
  then show ?thesis using assms by (simp add: same_map_def table_inv_def)
qed

lemma newkey_cases:
  assumes inv: "table_inv t" and key: "key_ok key" and p: "slot_of t key = NilObject"
  obtains t' q where "newkey grow t key = Inr (q, t')" "key_added t key q t'"
  | lf where "newkey grow t key = grow (t\<lparr>lastfree := lf\<rparr>) key" "same_map t (t\<lparr>lastfree := lf\<rparr>)"
      "isdummy t \<or> keyed_count t = length (t_node t)"
proof -
  let ?ns = "t_node t" and ?mp = "mainposition t key"
  note n = new_key_atI [OF assms]
  consider "isdummy t" | "\<not> isdummy t" "i_val (?ns ! ?mp) = Nil" | "\<not> isdummy t" "i_val (?ns ! ?mp) \<noteq> Nil"
    by blast
  then show ?thesis
  proof cases
    case 1
    then have l: "lastfree t \<le> 0" using inv by (simp add: table_inv_def)
    then have "newkey grow t key = grow (t\<lparr>lastfree := lastfree t - 1\<rparr>) key"
      using 1 by (simp add: newkey_def Let_def getfreepos.simps)
    moreover have "same_map t (t\<lparr>lastfree := lastfree t - 1\<rparr>)"
      by (rule same_map_lastfree [OF inv]) (use 1 l in simp_all)
    ultimately show ?thesis using that(2) 1 by blast
  next
    case 2
    then show ?thesis using newkey_overwrite [OF n] that(1) by blast
  next
    case 3
    have uf: "used_from ?ns (lastfree t)" using inv 3(1) by (simp add: table_inv_def)
    obtain r lf where g: "getfreepos ?ns (lastfree t) = (r, lf)" by (cases "getfreepos ?ns (lastfree t)")
    note gf = getfreepos_ok [OF uf, unfolded g]
    show ?thesis
    proof (cases r)
      case None
      have "newkey grow t key = grow (t\<lparr>lastfree := lf\<rparr>) key"
        using 3 g None by (simp add: newkey_def Let_def)
      moreover have "same_map t (t\<lparr>lastfree := lf\<rparr>)"
        by (rule same_map_lastfree [OF inv]) (use 3 gf None in simp_all)
      ultimately show ?thesis using that(2) all_keyed_count gf None by simp
    next
      case (Some f)
      then have f: "f < length ?ns" "i_key (?ns ! f) = Nil" "lf = int f" "used_from ?ns (int f + 1)"
        using gf by simp_all
      show ?thesis
        using newkey_move [OF n 3(2,1) g [unfolded Some] f] newkey_chain [OF n 3(2,1) g [unfolded Some] f] that(1)
        by blast
    qed
  qed
qed

end
