(* ===== verification/LuaTableRehash.thy ===== *)
theory LuaTableRehash
  imports LuaTableSet
begin

unbundle bit_operations_syntax

section \<open>Resizing and rehashing\<close>

text \<open>
  Insertions that find room, the re-insertion of all entries when a table is resized, and the
  choice of the new sizes. The invariant of a table bounds the array part by \<open>2 ^ 26\<close>, the bound
  \<^verbatim>\<open>MAXASIZE\<close> of the code.
\<close>

subsection \<open>Insertions that find room\<close>

definition room :: "table \<Rightarrow> nat \<Rightarrow> bool" where
  "room t m \<longleftrightarrow> m = 0 \<or> \<not> isdummy t \<and> keyed_count t + m \<le> length (t_node t)"

definition hash_bound :: "table \<Rightarrow> tvalue \<Rightarrow> nat" where
  "hash_bound t key = (if in_array (sizearray t) key then 0 else 1)"

text \<open>The table \<open>t'\<close> is \<open>t\<close> with the value \<open>v\<close> at \<open>key\<close>.\<close>

definition put_rel :: "table \<Rightarrow> tvalue \<Rightarrow> tvalue \<Rightarrow> table \<Rightarrow> bool" where
  "put_rel t key v t' \<longleftrightarrow> table_inv t' \<and>
     (\<forall>k. amap t' k = (if norm_key k = norm_key key then v else amap t k)) \<and>
     sizearray t' = sizearray t \<and> lsizenode t' = lsizenode t \<and> isdummy t' = isdummy t \<and>
     metatable t' = metatable t \<and> length (t_array t') = length (t_array t) \<and>
     (\<not> in_array (sizearray t) key \<longrightarrow> t_array t' = t_array t) \<and>
     keyed_count t' \<le> keyed_count t + hash_bound t key"

lemma keyed_count_set_slot [simp]: "keyed_count (set_slot t p v) = keyed_count t"
  by (simp add: keyed_count_def)

lemma t_array_set_node [simp]: "t_array (set_slot t (NodeSlot i) v) = t_array t" "t_array (set_slot t NilObject v) = t_array t"
  by (simp_all add: set_slot_def)

lemma metatable_set_slot [simp]: "metatable (set_slot t p v) = metatable t"
  by (cases p) (simp_all add: set_slot_def)

lemma slot_of_node: "\<not> in_array (sizearray t) key \<Longrightarrow> slot_of t key = NilObject \<or> (\<exists>i. slot_of t key = NodeSlot i)"
  by (auto simp: slot_of_def split: option.splits)

lemma put_rel_present:
  assumes "table_inv t" "slot_of t key \<noteq> NilObject"
  shows "put_rel t key v (set_slot t (slot_of t key) v)"
  using set_slot_ok [OF assms] slot_of_node [of t key] by (auto simp: put_rel_def)

lemma put_rel_added:
  assumes "key_added t key p t'" "\<not> in_array (sizearray t) key"
  shows "put_rel t key v (set_slot t' p v)"
proof -
  have a: "same_map t t'" "slot_of t' key = p" "p \<noteq> NilObject" "keyed_count t' \<le> Suc (keyed_count t)"
    using assms(1) by (simp_all add: key_added_def)
  then have "table_inv t'" by (simp add: same_map_def)
  from put_rel_present [OF this, of key v] a assms(2) show ?thesis
    by (auto simp: put_rel_def same_map_def hash_bound_def)
qed

lemma amap_flags [simp]: "slot_of (t\<lparr>flags := x\<rparr>) = slot_of t" "amap (t\<lparr>flags := x\<rparr>) = amap t"
  "table_inv (t\<lparr>flags := x\<rparr>) = table_inv t" "keyed_count (t\<lparr>flags := x\<rparr>) = keyed_count t"
  "hash_bound (t\<lparr>flags := x\<rparr>) = hash_bound t"
  by (auto simp: fun_eq_iff slot_of_def amap_alt table_inv_def keyed_count_def hash_bound_def)

lemma put_rel_flags [simp]: "put_rel (t\<lparr>flags := x\<rparr>) = put_rel t"
  by (intro ext) (simp add: put_rel_def)

lemma set_with_cases:
  assumes "table_inv t" "key_ok key"
  shows "set_with grow t key =
    (if slot_of t key \<noteq> NilObject then Inr (slot_of t key, t\<lparr>flags := 0\<rparr>)
     else newkey grow (t\<lparr>flags := 0\<rparr>) key)"
proof -
  have "\<not> (case key of Number n \<Rightarrow> luai_numisnan n | _ \<Rightarrow> False)" "key \<noteq> Nil"
    using assms(2) by (cases key; simp add: key_ok_def is_nan_def luai_numisnan_iff)+
  then show ?thesis by (simp add: set_with_def luaH_get_ok [OF assms(1)])
qed

lemma room_not_full:
  assumes "slot_of t key = NilObject" "room t (hash_bound t key)"
  shows "\<not> (isdummy t \<or> keyed_count t = length (t_node t))"
  using assms by (auto simp: slot_of_def room_def hash_bound_def split: if_splits)

lemma set_with_room:
  assumes inv: "table_inv t" and key: "key_ok key" and rm: "room t (hash_bound t key)"
  shows "\<exists>p t'. set_with grow t key = Inr (p, t') \<and> (\<forall>v. put_rel t key v (set_slot t' p v)) \<and>
    same_map t (t'\<lparr>flags := flags t\<rparr>) \<and> slot_of t' key = p \<and> p \<noteq> NilObject"
proof (cases "slot_of t key = NilObject")
  case False
  let ?t = "t\<lparr>flags := 0\<rparr>"
  have "put_rel ?t key v (set_slot ?t (slot_of ?t key) v)" for v
    by (rule put_rel_present) (use inv False in simp_all)
  moreover have "same_map t t" using inv by (simp add: same_map_def)
  ultimately show ?thesis using False by (simp add: set_with_cases [OF inv key])
next
  case True
  let ?t = "t\<lparr>flags := 0\<rparr>"
  have t: "table_inv ?t" "slot_of ?t key = NilObject" using inv True by simp_all
  have na: "\<not> in_array (sizearray ?t) key" using True by (auto simp: slot_of_def split: if_splits)
  show ?thesis
  proof (cases rule: newkey_cases [OF t(1) key t(2), of grow])
    case (1 t' q)
    then have "put_rel ?t key v (set_slot t' q v)" for v using put_rel_added na by blast
    moreover have "same_map t (t'\<lparr>flags := flags t\<rparr>)" "slot_of t' key = q" "q \<noteq> NilObject"
      using 1(2) by (simp_all add: key_added_def same_map_def)
    ultimately show ?thesis using True 1(1) by (simp add: set_with_cases [OF inv key])
  next
    case (2 lf)
    then show ?thesis using room_not_full [OF True rm] by simp
  qed
qed

lemma key_ok_int: "is_int k \<Longrightarrow> key_ok (Number (cast_num k))"
  by (simp add: key_ok_def is_nan_def)

lemma setnum_with_room:
  assumes inv: "table_inv t" and k: "is_int k" and rm: "room t (hash_bound t (Number (cast_num k)))"
  shows "\<exists>p t'. setnum_with grow t k = Inr (p, t') \<and> (\<forall>v. put_rel t (Number (cast_num k)) v (set_slot t' p v))"
proof (cases "slot_of t (Number (cast_num k)) = NilObject")
  case False
  then show ?thesis using put_rel_present [OF inv False] by (simp add: setnum_with_def luaH_getnum_ok [OF inv k])
next
  case True
  have na: "\<not> in_array (sizearray t) (Number (cast_num k))"
    using True by (auto simp: slot_of_def split: if_splits)
  show ?thesis
  proof (cases rule: newkey_cases [OF inv key_ok_int [OF k] True, of grow])
    case (1 t' q)
    then show ?thesis using put_rel_added na True by (simp add: setnum_with_def luaH_getnum_ok [OF inv k])
  next
    case (2 lf)
    then show ?thesis using room_not_full [OF True rm] by simp
  qed
qed

subsection \<open>Re-insertion\<close>

text \<open>The value that a list of nodes with distinct keys has for a key.\<close>

definition olds_val :: "node list \<Rightarrow> tvalue \<Rightarrow> tvalue" where
  "olds_val olds key =
     (case find (\<lambda>old. i_val old \<noteq> Nil \<and> norm_key (i_key old) = norm_key key) olds of
        None \<Rightarrow> Nil | Some old \<Rightarrow> i_val old)"

lemma olds_val_Cons:
  "olds_val (old # olds) key =
     (if i_val old \<noteq> Nil \<and> norm_key (i_key old) = norm_key key then i_val old else olds_val olds key)"
  by (simp add: olds_val_def)

lemma olds_val_Nil [simp]: "olds_val [] key = Nil"
  by (simp add: olds_val_def)

definition distinct_keys :: "node list \<Rightarrow> bool" where
  "distinct_keys olds \<longleftrightarrow> distinct (map (norm_key \<circ> i_key) (filter (\<lambda>old. i_val old \<noteq> Nil) olds))"

lemma olds_val_notin:
  "norm_key key \<notin> set (map (norm_key \<circ> i_key) (filter (\<lambda>old. i_val old \<noteq> Nil) olds)) \<Longrightarrow> olds_val olds key = Nil"
  by (induction olds) (auto simp: olds_val_Cons split: if_splits)

definition node_bound :: "nat \<Rightarrow> node list \<Rightarrow> nat" where
  "node_bound n olds = length (filter (\<lambda>old. i_val old \<noteq> Nil \<and> \<not> in_array n (i_key old)) olds)"

lemma node_bound_Cons:
  "node_bound n (old # olds) = (if i_val old \<noteq> Nil \<and> \<not> in_array n (i_key old) then 1 else 0) + node_bound n olds"
  by (simp add: node_bound_def)

lemma distinct_keys_Cons:
  "distinct_keys (old # olds) \<longleftrightarrow> distinct_keys olds \<and> (i_val old \<noteq> Nil \<longrightarrow>
     norm_key (i_key old) \<notin> set (map (norm_key \<circ> i_key) (filter (\<lambda>old. i_val old \<noteq> Nil) olds)))"
  by (auto simp: distinct_keys_def)

text \<open>What a table becomes when entries are put in one by one.\<close>

definition resized :: "table \<Rightarrow> table \<Rightarrow> nat \<Rightarrow> bool" where
  "resized t t' m \<longleftrightarrow> table_inv t' \<and> sizearray t' = sizearray t \<and> lsizenode t' = lsizenode t \<and>
     isdummy t' = isdummy t \<and> metatable t' = metatable t \<and> length (t_array t') = length (t_array t) \<and>
     keyed_count t' \<le> keyed_count t + m"

lemma put_rel_resized: "put_rel t k v t' \<Longrightarrow> resized t t' (hash_bound t k)"
  by (simp add: put_rel_def resized_def)

lemma resized_trans: "resized t t' m \<Longrightarrow> resized t' t'' m' \<Longrightarrow> resized t t'' (m + m')"
  by (simp add: resized_def)

lemma resized_room: "resized t t' m \<Longrightarrow> table_inv t \<Longrightarrow> room t (m + m') \<Longrightarrow> room t' m'"
  by (auto simp: resized_def room_def table_inv_def nodes_ok_def)

lemma room_mono: "room t m \<Longrightarrow> m' \<le> m \<Longrightarrow> room t m'"
  by (auto simp: room_def)

lemma reinsert_nodes_ok:
  assumes "table_inv t" "\<forall>old\<in>set olds. i_val old \<noteq> Nil \<longrightarrow> key_ok (i_key old)" "distinct_keys olds"
    "room t (node_bound (sizearray t) olds)"
  shows "\<exists>t'. reinsert_nodes grow olds t = Inr t' \<and> resized t t' (node_bound (sizearray t) olds) \<and>
    (\<forall>k. amap t' k = (if olds_val olds k \<noteq> Nil then olds_val olds k else amap t k))"
  using assms
proof (induction olds arbitrary: t)
  case Nil
  then show ?case by (simp add: resized_def)
next
  case (Cons old olds)
  show ?case
  proof (cases "i_val old = Nil")
    case True
    then have b: "node_bound n (old # olds) = node_bound n olds" for n by (simp add: node_bound_Cons)
    have "\<exists>t'. reinsert_nodes grow olds t = Inr t' \<and> resized t t' (node_bound (sizearray t) olds) \<and>
      (\<forall>k. amap t' k = (if olds_val olds k \<noteq> Nil then olds_val olds k else amap t k))"
      by (rule Cons.IH) (use Cons.prems b in \<open>simp_all add: distinct_keys_Cons\<close>)
    moreover have "olds_val (old # olds) k = olds_val olds k" for k using True by (simp add: olds_val_Cons)
    moreover have "reinsert_nodes grow (old # olds) t = reinsert_nodes grow olds t" using True by simp
    ultimately show ?thesis by (simp only: b)
  next
    case False
    have b: "node_bound (sizearray t) (old # olds) = hash_bound t (i_key old) + node_bound (sizearray t) olds"
      using False by (simp add: node_bound_Cons hash_bound_def)
    have k: "key_ok (i_key old)" using Cons.prems(2) False by simp
    have d: "norm_key (i_key old) \<notin> set (map (norm_key \<circ> i_key) (filter (\<lambda>old. i_val old \<noteq> Nil) olds))"
      "distinct_keys olds" using Cons.prems(3) False by (simp_all only: distinct_keys_Cons) simp
    have "room t (hash_bound t (i_key old))" by (rule room_mono [OF Cons.prems(4)]) (simp add: b)
    then obtain p t1 where s: "set_with grow t (i_key old) = Inr (p, t1)"
      and r: "put_rel t (i_key old) (i_val old) (set_slot t1 p (i_val old))"
      using set_with_room [OF Cons.prems(1) k] by blast
    let ?t1 = "set_slot t1 p (i_val old)"
    note rs = put_rel_resized [OF r]
    have i1: "table_inv ?t1" "sizearray ?t1 = sizearray t" using rs unfolding resized_def by blast+
    have rm: "room ?t1 (node_bound (sizearray ?t1) olds)"
      unfolding i1(2) by (rule resized_room [OF rs Cons.prems(1)]) (use Cons.prems(4) b in simp)
    obtain t' where t': "reinsert_nodes grow olds ?t1 = Inr t'" "resized ?t1 t' (node_bound (sizearray t) olds)"
      "\<forall>k. amap t' k = (if olds_val olds k \<noteq> Nil then olds_val olds k else amap ?t1 k)"
      using Cons.IH [OF i1(1) _ d(2) rm] Cons.prems(2) unfolding i1(2) by auto
    have "amap t' k = (if olds_val (old # olds) k \<noteq> Nil then olds_val (old # olds) k else amap t k)" for k
    proof (cases "norm_key (i_key old) = norm_key k")
      case True
      then have "olds_val olds k = Nil" using olds_val_notin d(1) by metis
      then show ?thesis using t'(3) r True False by (simp add: put_rel_def olds_val_Cons)
    next
      case ne: False
      then have "amap ?t1 k = amap t k" using r unfolding put_rel_def by metis
      then show ?thesis using t'(3) ne by (simp add: olds_val_Cons)
    qed
    then show ?thesis using s t'(1) resized_trans [OF rs t'(2)] False by (simp add: b)
  qed
qed

definition array_bound :: "tvalue list \<Rightarrow> nat list \<Rightarrow> nat" where
  "array_bound arr is = length (filter (\<lambda>i. arr ! i \<noteq> Nil) is)"

lemma reinsert_array_ok:
  assumes "table_inv t" "distinct is" "\<forall>i\<in>set is. sizearray t \<le> i \<and> i < 2 ^ 26"
    "room t (array_bound (t_array t) is)"
  shows "\<exists>t'. reinsert_array grow is t = Inr t' \<and> resized t t' (array_bound (t_array t) is) \<and>
    t_array t' = t_array t \<and>
    (\<forall>k. amap t' k =
       (if \<exists>i\<in>set is. arrayindex k = int i + 1 \<and> t_array t ! i \<noteq> Nil
        then t_array t ! nat (arrayindex k - 1) else amap t k))"
  using assms
proof (induction "is" arbitrary: t)
  case Nil
  then show ?case by (simp add: resized_def)
next
  case (Cons i "is")
  show ?case
  proof (cases "t_array t ! i = Nil")
    case True
    then have b: "array_bound (t_array t) (i # is) = array_bound (t_array t) is" by (simp add: array_bound_def)
    have "(\<exists>j\<in>set (i # is). arrayindex k = int j + 1 \<and> t_array t ! j \<noteq> Nil) \<longleftrightarrow>
        (\<exists>j\<in>set is. arrayindex k = int j + 1 \<and> t_array t ! j \<noteq> Nil)" for k using True by auto
    moreover have "reinsert_array grow (i # is) t = reinsert_array grow is t" using True by simp
    ultimately show ?thesis using Cons.IH [of t] Cons.prems unfolding b by (simp only:) simp
  next
    case False
    let ?k = "Number (cast_num (int i + 1))"
    have b: "array_bound (t_array t) (i # is) = 1 + array_bound (t_array t) is"
      using False by (simp add: array_bound_def)
    have i: "sizearray t \<le> i" "i < 2 ^ 26" using Cons.prems(3) by simp_all
    then have k: "is_int (int i + 1)" by (simp add: is_int_def int_min_def int_max_def)
    then have na: "\<not> in_array (sizearray t) ?k" using i(1) by (simp add: in_array_def)
    then have h: "hash_bound t ?k = 1" by (simp add: hash_bound_def)
    have "room t (hash_bound t ?k)" by (rule room_mono [OF Cons.prems(4)]) (simp add: b h)
    then obtain p t1 where s: "setnum_with grow t (int i + 1) = Inr (p, t1)"
      and r: "put_rel t ?k (t_array t ! i) (set_slot t1 p (t_array t ! i))"
      using setnum_with_room [OF Cons.prems(1) k] by blast
    let ?t1 = "set_slot t1 p (t_array t ! i)"
    note rs = put_rel_resized [OF r, unfolded h]
    have i1: "table_inv ?t1" "sizearray ?t1 = sizearray t" "t_array ?t1 = t_array t"
      using r na unfolding put_rel_def by blast+
    have rm: "room ?t1 (array_bound (t_array ?t1) is)"
      unfolding i1(3) by (rule resized_room [OF rs Cons.prems(1)]) (use Cons.prems(4) b in simp)
    obtain t' where t': "reinsert_array grow is ?t1 = Inr t'" "resized ?t1 t' (array_bound (t_array t) is)"
      "t_array t' = t_array t"
      "\<forall>k. amap t' k = (if \<exists>i\<in>set is. arrayindex k = int i + 1 \<and> t_array t ! i \<noteq> Nil
        then t_array t ! nat (arrayindex k - 1) else amap ?t1 k)"
      using Cons.IH [OF i1(1) _ _ rm] Cons.prems(2,3) unfolding i1(2,3) by auto
    have "amap t' k = (if \<exists>j\<in>set (i # is). arrayindex k = int j + 1 \<and> t_array t ! j \<noteq> Nil
        then t_array t ! nat (arrayindex k - 1) else amap t k)" for k
    proof (cases "arrayindex k = int i + 1")
      case True
      then have "norm_key k = norm_key ?k" using arrayindex_key(1) [of k] by simp
      then have "amap ?t1 k = t_array t ! i" using r unfolding put_rel_def by simp
      then show ?thesis using t'(4) True False by simp
    next
      case ne: False
      then have "norm_key k \<noteq> norm_key ?k" using arrayindex_norm [of k ?k] k by auto
      then have a: "amap ?t1 k = amap t k" using r unfolding put_rel_def by metis
      have "(\<exists>j\<in>set (i # is). arrayindex k = int j + 1 \<and> t_array t ! j \<noteq> Nil) \<longleftrightarrow>
        (\<exists>j\<in>set is. arrayindex k = int j + 1 \<and> t_array t ! j \<noteq> Nil)" using ne by auto
      then show ?thesis using t'(4) by (simp only: a)
    qed
    then show ?thesis using s t'(1,3) resized_trans [OF rs t'(2)] False by (simp add: b)
  qed
qed

subsection \<open>Resizing\<close>

lemma ceillog2_bounds:
  assumes "0 < n" "n \<le> 2 ^ 31"
  shows "0 \<le> ceillog2 (of_nat n)" "n \<le> 2 ^ nat (ceillog2 (of_nat n))"
    "n = 1 \<and> ceillog2 (of_nat n) = 0 \<or> 2 ^ (nat (ceillog2 (of_nat n)) - 1) < n \<and> 0 < ceillog2 (of_nat n)"
proof (atomize (full), cases "n = 1")
  case False
  then have n: "2 \<le> n" using assms(1) by simp
  have u: "unat (of_nat n - 1 :: 32 word) = n - 1"
  proof -
    have "(of_nat n - 1 :: 32 word) = of_nat (n - 1)" using n by (simp add: of_nat_diff)
    then show ?thesis using assms(2) by (simp only: unat_of_nat) simp
  qed
  then have "unat (of_nat n - 1 :: 32 word) \<noteq> 0" using n by simp
  then have nz: "(of_nat n - 1 :: 32 word) \<noteq> 0" by auto
  define l where "l = ilog2 (n - 1)"
  have c: "ceillog2 (of_nat n) = int l + 1"
    by (simp only: ceillog2_def luaO_log2_def log2_loop_ilog2 [OF nz] u l_def)
  have "0 < n - 1" using n by simp
  from ilog2_bounds [OF this] have b: "2 ^ l \<le> n - 1" "n - 1 < 2 * 2 ^ l" by (simp_all add: l_def)
  have "n \<le> 2 ^ Suc l" "2 ^ l < n" using b n by simp_all
  moreover have "nat (int l + 1) = Suc l" by simp
  ultimately show "0 \<le> ceillog2 (of_nat n) \<and> n \<le> 2 ^ nat (ceillog2 (of_nat n)) \<and>
    (n = 1 \<and> ceillog2 (of_nat n) = 0 \<or> 2 ^ (nat (ceillog2 (of_nat n)) - 1) < n \<and> 0 < ceillog2 (of_nat n))"
    unfolding c by simp
qed (simp add: ceillog2_def luaO_log2_def log2_loop.simps log_2_def)

lemma ceillog2_le: "0 < n \<Longrightarrow> n \<le> 2 ^ k \<Longrightarrow> k \<le> 31 \<Longrightarrow> ceillog2 (of_nat n) \<le> int k"
proof -
  assume a: "0 < n" "n \<le> 2 ^ k" "k \<le> 31"
  have "(2::nat) ^ k \<le> 2 ^ 31" using a(3) by (intro power_increasing) simp_all
  then have "n \<le> 2 ^ 31" using a(2) by linarith
  from ceillog2_bounds(3) [OF a(1) this] show ?thesis
  proof
    assume c: "2 ^ (nat (ceillog2 (of_nat n)) - 1) < n \<and> 0 < ceillog2 (of_nat n)"
    then have "(2::nat) ^ (nat (ceillog2 (of_nat n)) - 1) < 2 ^ k" using a(2) by linarith
    then have "nat (ceillog2 (of_nat n)) - 1 < k" by (simp only: power_strict_increasing_iff one_less_numeral_iff semiring_norm)
    with c show ?thesis by linarith
  next
    assume "n = 1 \<and> ceillog2 (of_nat n) = 0"
    then have "ceillog2 (of_nat n) = 0" by (rule conjunct2)
    then show ?thesis by linarith
  qed
qed

lemma nodes_ok_empty: "ls \<le> MAXBITS \<Longrightarrow> nodes_ok ls (replicate (2 ^ ls) empty_node)"
  by (auto simp: nodes_ok_def links_ok_def heads_ok_def keys_ok_def edge_def keyed_def empty_node_def is_nan_def)

lemma keyed_empty: "\<not> keyed (replicate n empty_node) i"
  by (auto simp: keyed_def empty_node_def)

lemma card_keyed_empty: "card (Collect (keyed (replicate n empty_node))) = 0"
  using keyed_empty by (metis card.empty Collect_empty_eq)

lemma node_of_empty: "node_of (replicate n empty_node) k = None"
  by (simp add: node_of_None matches_def empty_node_def)

text \<open>A table whose hash part is empty.\<close>

definition emptied :: "table \<Rightarrow> nat \<Rightarrow> table \<Rightarrow> bool" where
  "emptied t m t' \<longleftrightarrow> table_inv t' \<and> t_array t' = t_array t \<and> sizearray t' = sizearray t \<and>
     metatable t' = metatable t \<and> room t' m \<and> keyed_count t' = 0 \<and>
     (\<forall>k. amap t' k = (if in_array (sizearray t) k then t_array t ! nat (arrayindex k - 1) else Nil))"

lemma setnodevector_ok:
  assumes "sizearray t \<le> length (t_array t)" "sizearray t \<le> 2 ^ 26" "nh \<le> 2 ^ 26"
  shows "\<exists>t'. setnodevector t nh = Inr t' \<and> emptied t nh t'"
proof (cases "nh = 0")
  case True
  have "nodes_ok 0 [empty_node]" using nodes_ok_empty [of 0] by simp
  moreover have "\<not> keyed [empty_node] i" "node_of [empty_node] k = None" for i k
    using keyed_empty [of 1] node_of_empty [of 1] by simp_all
  ultimately show ?thesis using assms True
    by (simp add: setnodevector_def emptied_def table_inv_def amap_alt node_val_def room_def keyed_count_def)
next
  case False
  define l where "l = nat (ceillog2 (of_nat nh))"
  have b: "nh \<le> 2 ^ l" using ceillog2_bounds(2) [of nh] False assms(3) by (simp add: l_def)
  have "l \<le> MAXBITS" using ceillog2_le [of nh 26] False assms(3) by (simp add: l_def MAXBITS_def)
  then show ?thesis
    using assms False b nodes_ok_empty [of l] keyed_empty [of "2 ^ l"] node_of_empty [of "2 ^ l"]
    by (simp add: setnodevector_def Let_def l_def [symmetric] emptied_def table_inv_def amap_alt node_val_def
        room_def keyed_count_def used_from_def card_keyed_empty)
qed

text \<open>The entries that do not fit an array part of size \<open>n\<close>.\<close>

definition outside :: "table \<Rightarrow> nat \<Rightarrow> nat" where
  "outside t n = array_bound (t_array t) [n..<sizearray t] + node_bound n (t_node t)"

lemma olds_val_rev:
  assumes "table_inv t" shows "olds_val (rev (t_node t)) k = node_val (t_node t) k"
proof -
  have k: "keys_ok (t_node t)" using table_inv_nodes [OF assms] by (simp add: nodes_ok_def)
  show ?thesis
  proof (cases "find (\<lambda>old. i_val old \<noteq> Nil \<and> norm_key (i_key old) = norm_key k) (rev (t_node t))")
    case None
    then have "(norm_key k, v) \<notin> contents (t_node t)" if "v \<noteq> Nil" for v
      unfolding find_None_iff contents_def using nth_mem by fastforce
    then have "node_val (t_node t) k = Nil" using node_val_contents [OF k] by metis
    then show ?thesis using None by (simp add: olds_val_def)
  next
    case (Some old)
    then have o: "old \<in> set (t_node t)" "i_val old \<noteq> Nil" "norm_key (i_key old) = norm_key k"
      unfolding find_Some_iff by (metis length_rev nth_mem set_rev)+
    then obtain i where "i < length (t_node t)" "t_node t ! i = old" by (auto simp: in_set_conv_nth)
    then have "(norm_key k, i_val old) \<in> contents (t_node t)"
      unfolding contents_def using o(2,3) by (intro CollectI exI [of _ i]) simp
    then have "node_val (t_node t) k = i_val old" using node_val_contents [OF k o(2)] by blast
    then show ?thesis using Some by (simp add: olds_val_def)
  qed
qed

lemma distinct_map_filter_nth:
  assumes "\<And>i j. i < j \<Longrightarrow> j < length xs \<Longrightarrow> P (xs ! i) \<Longrightarrow> P (xs ! j) \<Longrightarrow> f (xs ! i) \<noteq> f (xs ! j)"
  shows "distinct (map f (filter P xs))"
  using assms
proof (induction xs)
  case (Cons x xs)
  have "f x \<noteq> f y" if "P x" "y \<in> set xs" "P y" for y
  proof -
    obtain j where "j < length xs" "xs ! j = y" using \<open>y \<in> set xs\<close> by (auto simp: in_set_conv_nth)
    then show ?thesis using Cons.prems [of 0 "Suc j"] that by simp
  qed
  moreover have "distinct (map f (filter P xs))"
    using Cons.IH Cons.prems [of "Suc i" "Suc j" for i j] by simp
  ultimately show ?case by auto
qed simp

lemma distinct_keys_nodes:
  assumes "keys_ok ns" shows "distinct_keys (rev ns)"
proof -
  have "(norm_key \<circ> i_key) (ns ! i) \<noteq> (norm_key \<circ> i_key) (ns ! j)"
    if ij: "i < j" "j < length ns" "i_val (ns ! i) \<noteq> Nil" "i_val (ns ! j) \<noteq> Nil" for i j
  proof
    assume e: "(norm_key \<circ> i_key) (ns ! i) = (norm_key \<circ> i_key) (ns ! j)"
    have "keyed ns i" "keyed ns j" using keys_okD(1) [OF assms] ij by (simp_all add: keyed_def)
    then show False using assms e ij(1) unfolding keys_ok_def comp_def by blast
  qed
  then have "distinct_keys ns" unfolding distinct_keys_def by (rule distinct_map_filter_nth)
  then show ?thesis by (simp add: distinct_keys_def flip: rev_filter rev_map)
qed

lemma node_bound_rev [simp]: "node_bound n (rev ns) = node_bound n ns"
  by (simp add: node_bound_def flip: rev_filter)

lemma reinsert_all:
  assumes inv: "table_inv t0" and t: "table_inv t" "room t (m + node_bound (sizearray t) (t_node t0))"
    and r: "resized t t1 m"
  shows "\<exists>t'. reinsert_nodes grow (rev (t_node t0)) t1 = Inr t' \<and>
    resized t t' (m + node_bound (sizearray t) (t_node t0)) \<and>
    (\<forall>k. amap t' k = (if node_val (t_node t0) k \<noteq> Nil then node_val (t_node t0) k else amap t1 k))"
proof -
  have k: "keys_ok (t_node t0)" using table_inv_nodes [OF inv] by (simp add: nodes_ok_def)
  have i1: "table_inv t1" "sizearray t1 = sizearray t" using r by (simp_all add: resized_def)
  have ko: "\<forall>old\<in>set (rev (t_node t0)). i_val old \<noteq> Nil \<longrightarrow> key_ok (i_key old)"
    using keys_okD [OF k] by (auto simp: in_set_conv_nth key_ok_def)
  have rm: "room t1 (node_bound (sizearray t1) (rev (t_node t0)))"
    using resized_room [OF r t] unfolding i1(2) by simp
  from reinsert_nodes_ok [OF i1(1) ko distinct_keys_nodes [OF k] rm, of grow]
  show ?thesis using resized_trans [OF r] unfolding i1(2) olds_val_rev [OF inv] node_bound_rev by blast
qed

lemma node_val_in_array:
  assumes "table_inv t" "in_array (sizearray t) k" shows "node_val (t_node t) k = Nil"
proof -
  have "\<not> matches k (t_node t ! i)" if "i < length (t_node t)" for i
  proof
    assume m: "matches k (t_node t ! i)"
    then have "in_array (sizearray t) (i_key (t_node t ! i))"
      using in_array_norm [of "i_key (t_node t ! i)" k] assms(2) by (simp add: matches_def)
    moreover have "keyed (t_node t) i" using m that by (simp add: matches_def keyed_def)
    ultimately show False using assms(1) by (simp add: table_inv_def)
  qed
  then have "node_of (t_node t) k = None" by (simp add: node_of_None)
  then show ?thesis by (simp add: node_val_def)
qed

text \<open>What a resize gives: the same map in a table of the new sizes.\<close>

definition resize_result :: "table \<Rightarrow> nat \<Rightarrow> nat \<Rightarrow> table \<Rightarrow> bool" where
  "resize_result t n nh t' \<longleftrightarrow> table_inv t' \<and> amap t' = amap t \<and> sizearray t' = n \<and>
     length (t_array t') = n \<and> metatable t' = metatable t \<and> keyed_count t' \<le> outside t n \<and> room t' (nh - outside t n)"

lemma resized_room_left:
  assumes "emptied t nh t2" "resized t2 t' m" "m \<le> nh" shows "room t' (nh - m)"
proof (cases "nh - m = 0")
  case False
  then have "room t2 nh" "nh \<noteq> 0" "length (t_node t') = length (t_node t2)"
    using assms by (simp_all add: emptied_def resized_def table_inv_def nodes_ok_def)
  then show ?thesis using assms by (auto simp: room_def emptied_def resized_def)
qed (simp add: room_def)

lemma resize_grow:
  assumes inv: "table_inv t" "length (t_array t) = sizearray t" and n: "sizearray t \<le> n" "n \<le> 2 ^ 26"
    and nh: "outside t n \<le> nh" "nh \<le> 2 ^ 26"
  shows "\<exists>t'. resize grow t n nh = Inr t' \<and> resize_result t n nh t'"
proof -
  define t1 where "t1 = (if n > sizearray t then setarrayvector t n else t)"
  have s1: "sizearray t1 = n" "length (t_array t1) = n" "metatable t1 = metatable t"
    using inv(2) n(1) by (simp_all add: t1_def setarrayvector_def)
  have a1: "t_array t1 ! i = (if i < sizearray t then t_array t ! i else Nil)" if "i < n" for i
    using that inv(2) n(1) by (auto simp: t1_def setarrayvector_def nth_append)
  obtain t2 where t2: "setnodevector t1 nh = Inr t2" "emptied t1 nh t2"
    using setnodevector_ok [of t1 nh] s1 n nh by auto
  have i2: "table_inv t2" "sizearray t2 = n" "length (t_array t2) = n" "room t2 nh" "keyed_count t2 = 0"
    "metatable t2 = metatable t" using t2(2) s1 by (simp_all add: emptied_def)
  have o: "outside t n = node_bound n (t_node t)" using n(1) by (simp add: outside_def array_bound_def)
  have rm: "room t2 (0 + node_bound (sizearray t2) (t_node t))"
    using room_mono [OF i2(4)] nh(1) by (simp add: i2(2) o)
  have r0: "resized t2 t2 0" using i2(1) by (simp add: resized_def)
  obtain t' where t': "reinsert_nodes grow (rev (t_node t)) t2 = Inr t'" "resized t2 t' (outside t n)"
    "\<forall>k. amap t' k = (if node_val (t_node t) k \<noteq> Nil then node_val (t_node t) k else amap t2 k)"
    using reinsert_all [OF inv(1) i2(1) rm r0] by (auto simp: i2(2) o)
  have "amap t' k = amap t k" for k
  proof (cases "in_array (sizearray t) k")
    case True
    then have "in_array n k" "nat (arrayindex k - 1) < sizearray t" using n(1) by (auto simp: in_array_def)
    then have "amap t2 k = t_array t ! nat (arrayindex k - 1)"
      using t2(2) a1 [of "nat (arrayindex k - 1)"] n(1) by (simp add: emptied_def s1)
    then show ?thesis using t'(3) True node_val_in_array [OF inv(1) True] by (simp add: amap_alt)
  next
    case False
    have "amap t2 k = Nil"
    proof (cases "in_array n k")
      case True
      then have "nat (arrayindex k - 1) < n" "\<not> nat (arrayindex k - 1) < sizearray t"
        using False by (auto simp: in_array_def)
      then show ?thesis using True t2(2) a1 [of "nat (arrayindex k - 1)"] by (simp add: emptied_def s1)
    qed (use t2(2) in \<open>simp add: emptied_def s1\<close>)
    then show ?thesis using t'(3) False by (simp add: amap_alt)
  qed
  moreover have "resize grow t n nh = Inr t'"
    using t2(1) t'(1) n(1) by (simp add: resize_def Let_def t1_def split: if_splits)
  ultimately show ?thesis
    using t'(2) i2 resized_room_left [OF t2(2) t'(2) nh(1)]
    by (auto simp: resize_result_def resized_def fun_eq_iff)
qed

lemma amap_take:
  assumes "table_inv t" shows "table_inv (t\<lparr>t_array := take (sizearray t) (t_array t)\<rparr>)"
    "amap (t\<lparr>t_array := take (sizearray t) (t_array t)\<rparr>) = amap t"
  using assms by (auto simp: table_inv_def amap_alt fun_eq_iff in_array_def)

lemma setnodevector_sizearray:
  "setnodevector t nh = Inr t2 \<Longrightarrow> setnodevector (t\<lparr>sizearray := n\<rparr>) nh = Inr (t2\<lparr>sizearray := n\<rparr>)"
  by (auto simp: setnodevector_def Let_def split: if_splits)

lemma array_slice_index:
  assumes "n \<le> sz"
  shows "(\<exists>i\<in>set [n..<sz]. arrayindex k = int i + 1 \<and> arr ! i \<noteq> Nil) \<longleftrightarrow>
    in_array sz k \<and> \<not> in_array n k \<and> arr ! nat (arrayindex k - 1) \<noteq> Nil"
proof
  assume "\<exists>i\<in>set [n..<sz]. arrayindex k = int i + 1 \<and> arr ! i \<noteq> Nil"
  then obtain i where "n \<le> i" "i < sz" "arrayindex k = int i + 1" "arr ! i \<noteq> Nil" by auto
  then show "in_array sz k \<and> \<not> in_array n k \<and> arr ! nat (arrayindex k - 1) \<noteq> Nil"
    by (simp add: in_array_def)
next
  assume a: "in_array sz k \<and> \<not> in_array n k \<and> arr ! nat (arrayindex k - 1) \<noteq> Nil"
  then have "n \<le> nat (arrayindex k - 1)" "nat (arrayindex k - 1) < sz"
    "arrayindex k = int (nat (arrayindex k - 1)) + 1" by (auto simp: in_array_def)
  with a show "\<exists>i\<in>set [n..<sz]. arrayindex k = int i + 1 \<and> arr ! i \<noteq> Nil"
    by (intro bexI [of _ "nat (arrayindex k - 1)"]) simp_all
qed

text \<open>The vanishing slice of the array goes to the new, empty hash part.\<close>

lemma reinsert_slice:
  assumes em: "emptied (t\<lparr>sizearray := n\<rparr>) nh t2" and n: "n \<le> sizearray t" "sizearray t \<le> 2 ^ 26"
    and rm: "array_bound (t_array t) [n..<sizearray t] \<le> nh"
  shows "\<exists>t3. reinsert_array grow [n..<sizearray t] t2 = Inr t3 \<and>
    resized t2 t3 (array_bound (t_array t) [n..<sizearray t]) \<and> t_array t3 = t_array t \<and>
    (\<forall>k. amap t3 k = (if in_array (sizearray t) k then t_array t ! nat (arrayindex k - 1) else Nil))"
proof -
  have e: "table_inv t2" "t_array t2 = t_array t" "sizearray t2 = n" "room t2 nh"
    and am: "\<And>k. amap t2 k = (if in_array n k then t_array t ! nat (arrayindex k - 1) else Nil)"
    using em by (simp_all add: emptied_def)
  have "\<forall>i\<in>set [n..<sizearray t]. sizearray t2 \<le> i \<and> i < 2 ^ 26" using n e(3) by simp
  from reinsert_array_ok [OF e(1) distinct_upt this room_mono [OF e(4)], of grow] rm
  obtain t3 where t3: "reinsert_array grow [n..<sizearray t] t2 = Inr t3"
    "resized t2 t3 (array_bound (t_array t) [n..<sizearray t])" "t_array t3 = t_array t"
    "\<forall>k. amap t3 k = (if in_array (sizearray t) k \<and> \<not> in_array n k \<and> t_array t ! nat (arrayindex k - 1) \<noteq> Nil
        then t_array t ! nat (arrayindex k - 1) else amap t2 k)"
    unfolding e(2) array_slice_index [OF n(1)] by blast
  have "in_array n k \<Longrightarrow> in_array (sizearray t) k" for k using n(1) by (auto simp: in_array_def)
  then have "amap t3 k = (if in_array (sizearray t) k then t_array t ! nat (arrayindex k - 1) else Nil)" for k
    using t3(4) am by auto
  with t3(1-3) show ?thesis by blast
qed

lemma resize_shrink:
  assumes inv: "table_inv t" "length (t_array t) = sizearray t" and n: "n < sizearray t"
    and nh: "outside t n \<le> nh" "nh \<le> 2 ^ 26"
  shows "\<exists>t'. resize grow t n nh = Inr t' \<and> resize_result t n nh t'"
proof -
  have sz: "sizearray t \<le> 2 ^ 26" "n \<le> sizearray t" using inv(1) n by (simp_all add: table_inv_def)
  let ?ab = "array_bound (t_array t) [n..<sizearray t]"
  obtain t0 where t0: "setnodevector t nh = Inr t0"
    using setnodevector_ok [of t nh] inv(2) sz nh by auto
  define t2 where "t2 = t0\<lparr>sizearray := n\<rparr>"
  have em: "emptied (t\<lparr>sizearray := n\<rparr>) nh t2"
    using setnodevector_ok [of "t\<lparr>sizearray := n\<rparr>" nh] setnodevector_sizearray [OF t0, of n] sz n inv(2) nh
    by (simp add: t2_def)
  then have e: "table_inv t2" "t_array t2 = t_array t" "sizearray t2 = n" "room t2 nh" "metatable t2 = metatable t"
    "keyed_count t2 = 0" by (simp_all add: emptied_def)
  have "?ab \<le> nh" using nh(1) by (simp add: outside_def)
  then obtain t3 where t3: "reinsert_array grow [n..<sizearray t] t2 = Inr t3" "resized t2 t3 ?ab"
    "t_array t3 = t_array t"
    "\<forall>k. amap t3 k = (if in_array (sizearray t) k then t_array t ! nat (arrayindex k - 1) else Nil)"
    using reinsert_slice [OF em sz(2,1)] by blast
  have s3: "table_inv t3" "sizearray t3 = n" using t3(2) e(3) by (simp_all add: resized_def)
  define t4 where "t4 = t3\<lparr>t_array := take n (t_array t3)\<rparr>"
  define t2' where "t2' = t2\<lparr>t_array := take n (t_array t2)\<rparr>"
  have i4: "table_inv t4" "amap t4 = amap t3" using amap_take [OF s3(1)] unfolding t4_def s3(2) by blast+
  have i2: "table_inv t2'" using amap_take(1) [OF e(1)] unfolding t2'_def e(3) .
  have r4: "resized t2' t4 ?ab"
    using t3(2,3) i4(1) e(2) by (simp add: resized_def keyed_count_def t4_def t2'_def)
  have s2: "sizearray t2' = n" by (simp add: t2'_def e(3))
  have "room t2 (outside t n)" by (rule room_mono [OF e(4) nh(1)])
  then have rm: "room t2' (?ab + node_bound (sizearray t2') (t_node t))"
    unfolding s2 outside_def by (simp add: room_def keyed_count_def t2'_def)
  obtain t' where t': "reinsert_nodes grow (rev (t_node t)) t4 = Inr t'" "resized t2' t' (outside t n)"
    "\<forall>k. amap t' k = (if node_val (t_node t) k \<noteq> Nil then node_val (t_node t) k else amap t3 k)"
    using reinsert_all [OF inv(1) i2 rm r4, of grow] unfolding i4(2) s2 outside_def by blast
  have "amap t' k = amap t k" for k
    using t'(3) t3(4) node_val_in_array [OF inv(1), of k]
    by (cases "in_array (sizearray t) k") (simp_all add: amap_alt)
  moreover have "resize grow t n nh = Inr t'"
    using t0 t3(1) t'(1) n by (simp add: resize_def Let_def t2_def t4_def)
  moreover have "emptied (t2\<lparr>t_array := take n (t_array t2), flags := 0\<rparr>) nh t2'"
    using em i2 amap_take(2) [OF e(1)]
    by (auto simp: emptied_def room_def keyed_count_def t2'_def in_array_def e(3))
  then have "room t' (nh - outside t n)" by (rule resized_room_left [OF _ t'(2) nh(1)])
  moreover have "length (t_array t2') = n" "keyed_count t2' = 0" "metatable t2' = metatable t"
    using e inv(2) n by (simp_all add: t2'_def keyed_count_def)
  ultimately show ?thesis
    using t'(2) s2 by (auto simp: resize_result_def resized_def fun_eq_iff)
qed

lemma resize_ok:
  assumes "table_inv t" "length (t_array t) = sizearray t" "n \<le> 2 ^ 26" "outside t n \<le> nh" "nh \<le> 2 ^ 26"
  shows "\<exists>t'. resize grow t n nh = Inr t' \<and> resize_result t n nh t'"
  using resize_grow [OF assms(1,2) _ assms(3-5)] resize_shrink [OF assms(1,2) _ assms(4,5)] by (meson not_le)

end
