(* ===== verification/LuaTableSizes.thy ===== *)
theory LuaTableSizes
  imports LuaTableRehash
begin

unbundle bit_operations_syntax

section \<open>The choice of the table sizes\<close>

text \<open>
  \<^verbatim>\<open>computesizes\<close> picks the largest power of two such that more than half of the array
  slots up to it are in use, and the functions that count the keys give it the numbers it needs.
\<close>

subsection \<open>Counting by powers of two\<close>

definition in_bucket :: "nat \<Rightarrow> nat \<Rightarrow> bool" where
  "in_bucket lg k \<longleftrightarrow> 2 ^ lg div 2 < k \<and> k \<le> 2 ^ lg"

text \<open>\<open>nums\<close> holds the counts of the integer keys \<open>S\<close>.\<close>

definition nums_for :: "nat set \<Rightarrow> nat list \<Rightarrow> bool" where
  "nums_for S nums \<longleftrightarrow> length nums = MAXBITS + 1 \<and> finite S \<and> S \<subseteq> {1..2 ^ 26} \<and>
     (\<forall>lg \<le> MAXBITS. nums ! lg = card {k \<in> S. in_bucket lg k})"

definition upto_count :: "nat set \<Rightarrow> nat \<Rightarrow> nat" where
  "upto_count S m = card {k \<in> S. k \<le> m}"

lemma in_bucket_unique: "in_bucket a k \<Longrightarrow> in_bucket b k \<Longrightarrow> a = b"
proof -
  have "False" if ab: "a < b" "in_bucket a k" "in_bucket b k" for a b
  proof -
    obtain c where b: "b = Suc c" "a \<le> c" using ab(1) by (cases b) auto
    have "(2::nat) ^ a \<le> 2 ^ c" using b(2) by (rule power_increasing) simp
    with ab(2,3) b(1) show False by (simp add: in_bucket_def)
  qed
  then show "in_bucket a k \<Longrightarrow> in_bucket b k \<Longrightarrow> a = b" by (metis nat_neq_iff)
qed

lemma in_bucket_ceillog2:
  assumes "0 < k" "k \<le> 2 ^ 26"
  shows "in_bucket (nat (ceillog2 (of_nat k))) k" "nat (ceillog2 (of_nat k)) \<le> MAXBITS"
proof -
  have k: "k \<le> 2 ^ 31" using assms(2) by simp
  show "nat (ceillog2 (of_nat k)) \<le> MAXBITS"
    using ceillog2_le [of k 26] assms by (simp add: MAXBITS_def)
  have b: "k \<le> 2 ^ nat (ceillog2 (of_nat k))" by (rule ceillog2_bounds(2) [OF assms(1) k])
  show "in_bucket (nat (ceillog2 (of_nat k))) k"
  proof (cases "nat (ceillog2 (of_nat k))")
    case 0
    then show ?thesis unfolding in_bucket_def using assms(1) b by simp
  next
    case (Suc l)
    then have "2 ^ l < k" using ceillog2_bounds(3) [OF assms(1) k] by auto
    then show ?thesis unfolding in_bucket_def using b by (simp add: Suc)
  qed
qed

lemma upto_count_step:
  assumes "nums_for S nums" "lg \<le> MAXBITS"
  shows "upto_count S (2 ^ lg) = upto_count S (2 ^ lg div 2) + nums ! lg"
proof -
  have "{k \<in> S. k \<le> 2 ^ lg} = {k \<in> S. k \<le> 2 ^ lg div 2} \<union> {k \<in> S. in_bucket lg k}"
    by (auto simp: in_bucket_def)
  moreover have "{k \<in> S. k \<le> 2 ^ lg div 2} \<inter> {k \<in> S. in_bucket lg k} = {}" by (auto simp: in_bucket_def)
  ultimately show ?thesis
    using assms by (simp add: upto_count_def nums_for_def card_Un_disjoint)
qed

lemma upto_count_le:
  assumes "finite S" "S \<subseteq> {1..2 ^ 26}"
  shows "upto_count S m \<le> card S" "upto_count S m \<le> m" "m \<ge> 2 ^ 26 \<Longrightarrow> upto_count S m = card S"
    "m \<le> m' \<Longrightarrow> upto_count S m \<le> upto_count S m'"
proof -
  show "upto_count S m \<le> card S" using assms(1) unfolding upto_count_def by (intro card_mono) auto
  have "{k \<in> S. k \<le> m} \<subseteq> {1..m}" using assms(2) by auto
  then have "card {k \<in> S. k \<le> m} \<le> card {1..m}" by (intro card_mono) auto
  then show "upto_count S m \<le> m" by (simp add: upto_count_def)
  show "m \<ge> 2 ^ 26 \<Longrightarrow> upto_count S m = card S"
    unfolding upto_count_def using assms(2) by (intro arg_cong [of _ _ card]) force
  show "m \<le> m' \<Longrightarrow> upto_count S m \<le> upto_count S m'"
    unfolding upto_count_def using assms(1) by (intro card_mono) auto
qed

lemma upto_count_0: "S \<subseteq> {1..2 ^ 26} \<Longrightarrow> upto_count S 0 = 0"
proof -
  assume "S \<subseteq> {1..2 ^ 26}"
  then have "{k \<in> S. k \<le> 0} = {}" by auto
  then show ?thesis by (simp only: upto_count_def card.empty)
qed

lemma half_mono: "i < j \<Longrightarrow> (2::nat) ^ i \<le> 2 ^ j div 2"
  by (cases j) (simp_all add: power_increasing)

subsection \<open>computesizes\<close>

text \<open>The size \<open>n\<close> is the best one for the keys \<open>S\<close>.\<close>

definition best_size :: "nat set \<Rightarrow> nat \<Rightarrow> nat \<Rightarrow> bool" where
  "best_size S n na \<longleftrightarrow> na = upto_count S n \<and> (n = 0 \<or> (\<exists>j \<le> MAXBITS. n = 2 ^ j) \<and> n div 2 < na) \<and>
     (\<forall>j. n < 2 ^ j \<longrightarrow> upto_count S (2 ^ j) \<le> 2 ^ j div 2)"

text \<open>What the loop knows at round \<open>i\<close>.\<close>

definition sizes_inv :: "nat set \<Rightarrow> nat \<Rightarrow> nat \<Rightarrow> nat \<Rightarrow> bool" where
  "sizes_inv S i na n \<longleftrightarrow> na = upto_count S n \<and> (n = 0 \<or> (\<exists>j \<le> MAXBITS. n = 2 ^ j) \<and> n div 2 < na) \<and>
     n \<le> 2 ^ i div 2 \<and> (\<forall>j < i. n < 2 ^ j \<longrightarrow> upto_count S (2 ^ j) \<le> 2 ^ j div 2)"

lemma sizes_inv_best:
  assumes "finite S" "S \<subseteq> {1..2 ^ 26}" "sizes_inv S i na n" "card S \<le> 2 ^ i div 2"
  shows "best_size S n na"
  unfolding best_size_def
proof (intro conjI allI impI)
  fix j assume j: "n < 2 ^ j"
  show "upto_count S (2 ^ j) \<le> 2 ^ j div 2"
  proof (cases "j < i")
    case True
    then show ?thesis using assms(3) j by (simp add: sizes_inv_def)
  next
    case False
    then have "(2::nat) ^ i div 2 \<le> 2 ^ j div 2" by (intro div_le_mono power_increasing) simp_all
    then show ?thesis using upto_count_le(1) [OF assms(1,2), of "2 ^ j"] assms(4) by linarith
  qed
qed (use assms(3) in \<open>auto simp: sizes_inv_def\<close>)

lemma sizes_inv_step:
  assumes S: "nums_for S nums" and i: "i \<le> MAXBITS" and inv: "sizes_inv S i na n"
    and a: "a = upto_count S (2 ^ i div 2)"
    and n': "(n', na') = (if nums ! i > 0 \<and> a + nums ! i > 2 ^ i div 2 then (2 ^ i, a + nums ! i) else (n, na))"
  shows "sizes_inv S (i + 1) na' n'" "a + nums ! i = upto_count S (2 ^ i)"
proof -
  have fs: "finite S" "S \<subseteq> {1..2 ^ 26}" using S by (simp_all add: nums_for_def)
  show a': "a + nums ! i = upto_count S (2 ^ i)" using upto_count_step [OF S i] a by simp
  show "sizes_inv S (i + 1) na' n'"
  proof (cases "nums ! i > 0 \<and> a + nums ! i > 2 ^ i div 2")
    case True
    then have e: "n' = 2 ^ i" "na' = a + nums ! i" using n' by simp_all
    have "\<not> (2::nat) ^ i < 2 ^ j" if "j < i + 1" for j
      using that power_increasing [of j i "2::nat"] by (simp add: not_less)
    then show ?thesis using True i unfolding sizes_inv_def e a' by auto
  next
    case False
    have e: "n' = n" "na' = na" using n' unfolding if_not_P [OF False] by simp_all
    have "upto_count S (2 ^ i) \<le> 2 ^ i div 2"
      using False upto_count_le(2) [OF fs, of "2 ^ i div 2"] a unfolding a' [symmetric] by linarith
    moreover have "n \<le> 2 ^ i" using inv by (simp add: sizes_inv_def) linarith
    ultimately show ?thesis using inv unfolding sizes_inv_def e by (auto simp: less_Suc_eq)
  qed
qed

lemma computesizes_loop_step:
  assumes "2 ^ i div 2 < narray" "\<not> i \<ge> length nums"
    "(n', na') = (if nums ! i > 0 \<and> a + nums ! i > 2 ^ i div 2 then (2 ^ i, a + nums ! i) else (n, na))"
  shows "computesizes_loop nums narray i a na n =
    (if a + nums ! i = narray then Inr (n', na')
     else computesizes_loop nums narray (i + 1) (a + nums ! i) na' n')"
  by (subst computesizes_loop.simps) (simp only: assms(1,2) Let_def if_True if_False assms(3) [symmetric] prod.case)

lemma computesizes_loop_ok:
  assumes "nums_for S nums" "narray = card S" "a = upto_count S (2 ^ i div 2)" "sizes_inv S i na n"
    "a < narray \<or> narray = 0"
  shows "\<exists>n' na'. computesizes_loop nums narray i a na n = Inr (n', na') \<and> best_size S n' na'"
  using assms
proof (induction nums narray i a na n rule: computesizes_loop.induct)
  case (1 nums narray i a na n)
  have fs: "finite S" "S \<subseteq> {1..2 ^ 26}" "length nums = 27" using "1.prems"(1) by (simp_all add: nums_for_def MAXBITS_def)
  show ?case
  proof (cases "2 ^ i div 2 < narray")
    case False
    then have "computesizes_loop nums narray i a na n = Inr (n, na)"
      by (subst computesizes_loop.simps) (simp only: if_False)
    moreover have "best_size S n na"
      by (rule sizes_inv_best [OF fs(1,2) "1.prems"(4)]) (use False "1.prems"(2) in simp)
    ultimately show ?thesis by blast
  next
    case True
    have "\<not> i \<ge> 27"
    proof
      assume "i \<ge> 27"
      then have "(2::nat) ^ 26 \<le> 2 ^ i div 2" using half_mono [of 26 i] by simp
      then have "a = narray" using upto_count_le(3) [OF fs(1,2)] "1.prems"(2,3) by simp
      then show False using "1.prems"(5) True by simp
    qed
    then have i: "i \<le> MAXBITS" "\<not> i \<ge> length nums" using fs(3) by (simp_all add: MAXBITS_def)
    obtain n' na' where n': "(n', na') = (if nums ! i > 0 \<and> a + nums ! i > 2 ^ i div 2 then (2 ^ i, a + nums ! i) else (n, na))"
      by (metis surj_pair)
    note st = sizes_inv_step [OF "1.prems"(1) i(1) "1.prems"(4,3) n']
    show ?thesis
    proof (cases "a + nums ! i = narray")
      case eq: True
      have "card S \<le> 2 ^ (i + 1) div 2"
        using upto_count_le(2) [OF fs(1,2), of "2 ^ i"] st(2) eq "1.prems"(2) by simp
      then have "best_size S n' na'" by (rule sizes_inv_best [OF fs(1,2) st(1)])
      moreover have "computesizes_loop nums narray i a na n = Inr (n', na')"
        unfolding computesizes_loop_step [OF True i(2) n'] by (simp add: eq)
      ultimately show ?thesis by blast
    next
      case ne: False
      have "upto_count S (2 ^ i) \<le> narray" using upto_count_le(1) [OF fs(1,2)] "1.prems"(2) by simp
      then have lt: "a + nums ! i < narray" using ne st(2) by linarith
      have "computesizes_loop nums narray i a na n = computesizes_loop nums narray (i + 1) (a + nums ! i) na' n'"
        unfolding computesizes_loop_step [OF True i(2) n'] by (simp only: ne if_False)
      moreover have "a + nums ! i = upto_count S (2 ^ (i + 1) div 2)" using st(2) by simp
      ultimately show ?thesis
        using "1.IH" [OF True i(2) refl n' refl ne "1.prems"(1,2) _ st(1)] lt by (simp only:) blast
    qed
  qed
qed

lemma computesizes_ok:
  assumes "nums_for S nums"
  shows "\<exists>n na. computesizes nums (card S) = Inr (n, na) \<and> best_size S n na"
  unfolding computesizes_def
proof (rule computesizes_loop_ok [OF assms refl])
  have "S \<subseteq> {1..2 ^ 26}" "finite S" using assms by (simp_all add: nums_for_def)
  then show "0 = upto_count S (2 ^ 0 div 2)" "sizes_inv S 0 0 0" "0 < card S \<or> card S = 0"
    by (auto simp: upto_count_0 sizes_inv_def)
qed


subsection \<open>The counting functions\<close>

lemma nums_for_insert:
  assumes "nums_for S nums" "1 \<le> k" "k \<le> 2 ^ 26" "k \<notin> S" "j = nat (ceillog2 (of_nat k))"
  shows "nums_for (insert k S) (nums[j := nums ! j + 1])"
proof -
  have j: "in_bucket j k" "j \<le> MAXBITS" using in_bucket_ceillog2 [of k] assms(2,3,5) by simp_all
  have S: "length nums = MAXBITS + 1" "finite S" "S \<subseteq> {1..2 ^ 26}" "\<And>lg. lg \<le> MAXBITS \<Longrightarrow> nums ! lg = card {k \<in> S. in_bucket lg k}"
    using assms(1) by (simp_all add: nums_for_def)
  have "nums[j := nums ! j + 1] ! lg = card {x \<in> insert k S. in_bucket lg x}" if lg: "lg \<le> MAXBITS" for lg
  proof (cases "lg = j")
    case True
    then have "{x \<in> insert k S. in_bucket lg x} = insert k {x \<in> S. in_bucket lg x}" using j(1) by auto
    then show ?thesis using True S lg assms(4) by simp
  next
    case False
    then have "\<not> in_bucket lg k" using in_bucket_unique j(1) by blast
    then have "{x \<in> insert k S. in_bucket lg x} = {x \<in> S. in_bucket lg x}" by auto
    then show ?thesis using False S(4) [OF lg] by simp
  qed
  then show ?thesis using S(1-3) assms(2,3) by (simp add: nums_for_def)
qed

definition int_key :: "tvalue \<Rightarrow> nat option" where
  "int_key k = (if 0 < arrayindex k \<and> arrayindex k \<le> MAXASIZE then Some (nat (arrayindex k)) else None)"

lemma countint_ok:
  assumes "nums_for S nums"
  shows "int_key key = None \<Longrightarrow> countint key nums = (0, nums)"
    "int_key key = Some k \<Longrightarrow> k \<notin> S \<Longrightarrow> \<exists>nums'. countint key nums = (1, nums') \<and> nums_for (insert k S) nums'"
proof -
  show "int_key key = None \<Longrightarrow> countint key nums = (0, nums)"
    by (auto simp: int_key_def countint_def Let_def split: if_splits)
  assume k: "int_key key = Some k" "k \<notin> S"
  then have a: "0 < arrayindex key" "arrayindex key \<le> 2 ^ 26" "k = nat (arrayindex key)"
    by (auto simp: int_key_def MAXASIZE_def MAXBITS_def split: if_splits)
  then have k': "1 \<le> k" "k \<le> 2 ^ 26" "arrayindex key = int k" by simp_all
  have "0 < int k \<and> int k \<le> MAXASIZE" using k'(1,2) by (simp add: MAXASIZE_def MAXBITS_def)
  then have "countint key nums = (1, nums[nat (ceillog2 (of_nat k)) := nums ! nat (ceillog2 (of_nat k)) + 1])"
    unfolding countint_def Let_def k'(3) by (simp only: if_True of_int_of_nat_eq simp_thms)
  with nums_for_insert [OF assms k'(1,2) k(2) refl] show "\<exists>nums'. countint key nums = (1, nums') \<and> nums_for (insert k S) nums'"
    by blast
qed

text \<open>The array part.\<close>

definition array_keys :: "table \<Rightarrow> nat set" where
  "array_keys t = {k. 1 \<le> k \<and> k \<le> sizearray t \<and> t_array t ! (k - 1) \<noteq> Nil}"

lemma array_keys_fin: "sizearray t \<le> 2 ^ 26 \<Longrightarrow> finite (array_keys t) \<and> array_keys t \<subseteq> {1..2 ^ 26}"
  by (auto simp: array_keys_def intro: finite_subset [of _ "{..sizearray t}"])

lemma count_slice_card:
  assumes "1 \<le> i" "lim \<le> sizearray t"
  shows "count_slice t i lim = card {k \<in> array_keys t. i \<le> k \<and> k \<le> lim}"
proof -
  have "count_slice t i lim = card (set (filter (\<lambda>j. t_array t ! (j - 1) \<noteq> Nil) [i..<lim + 1]))"
    unfolding count_slice_def by (rule distinct_card [symmetric]) simp
  also have "set (filter (\<lambda>j. t_array t ! (j - 1) \<noteq> Nil) [i..<lim + 1]) = {k \<in> array_keys t. i \<le> k \<and> k \<le> lim}"
  proof (intro set_eqI)
    fix k
    have "k \<in> {k \<in> array_keys t. i \<le> k \<and> k \<le> lim} \<longleftrightarrow> i \<le> k \<and> k \<le> lim \<and> t_array t ! (k - 1) \<noteq> Nil"
      unfolding array_keys_def mem_Collect_eq using assms by linarith
    then show "k \<in> set (filter (\<lambda>j. t_array t ! (j - 1) \<noteq> Nil) [i..<lim + 1]) \<longleftrightarrow>
        k \<in> {k \<in> array_keys t. i \<le> k \<and> k \<le> lim}"
      unfolding set_filter set_upt by (simp add: less_Suc_eq_le conj_ac)
  qed
  finally show ?thesis .
qed

lemma nums_for_slice:
  assumes "nums_for {k \<in> A. k \<le> 2 ^ lg div 2} nums" "lg \<le> MAXBITS" "finite A" "A \<subseteq> {1..2 ^ 26}"
    "lc = card {k \<in> A. in_bucket lg k}"
  shows "nums_for {k \<in> A. k \<le> 2 ^ lg} (nums[lg := nums ! lg + lc])"
proof -
  have n: "length nums = MAXBITS + 1"
    "\<And>j. j \<le> MAXBITS \<Longrightarrow> nums ! j = card {k \<in> {k \<in> A. k \<le> 2 ^ lg div 2}. in_bucket j k}"
    using assms(1) by (simp_all add: nums_for_def)
  have "nums[lg := nums ! lg + lc] ! j = card {k \<in> {k \<in> A. k \<le> 2 ^ lg}. in_bucket j k}" if j: "j \<le> MAXBITS" for j
  proof (cases "j = lg")
    case True
    have "{k \<in> {k \<in> A. k \<le> 2 ^ lg div 2}. in_bucket lg k} = {}" "{k \<in> {k \<in> A. k \<le> 2 ^ lg}. in_bucket lg k} = {k \<in> A. in_bucket lg k}"
      by (auto simp: in_bucket_def)
    then show ?thesis using True n j assms(5) by simp
  next
    case False
    have "{k \<in> {k \<in> A. k \<le> 2 ^ lg div 2}. in_bucket j k} = {k \<in> {k \<in> A. k \<le> 2 ^ lg}. in_bucket j k}"
    proof -
      have "k \<le> 2 ^ lg div 2" if "k \<le> 2 ^ lg" "in_bucket j k" for k
      proof (rule ccontr)
        assume "\<not> k \<le> 2 ^ lg div 2"
        then have "in_bucket lg k" using that(1) by (simp add: in_bucket_def)
        then show False using in_bucket_unique that(2) False by blast
      qed
      moreover have "2 ^ lg div 2 \<le> (2::nat) ^ lg" by simp
      ultimately show ?thesis by (blast intro: order_trans)
    qed
    then show ?thesis using False n(2) [OF j] by simp
  qed
  then show ?thesis using n(1) assms(3,4) by (auto simp: nums_for_def)
qed

lemma numusearray_loop_ok:
  assumes "sizearray t \<le> 2 ^ 26" "lg \<le> MAXBITS + 1" "i = min (2 ^ lg div 2) (sizearray t) + 1"
    "nums_for {k \<in> array_keys t. k \<le> 2 ^ lg div 2} nums" "ause = upto_count (array_keys t) (2 ^ lg div 2)"
  shows "\<exists>nums'. numusearray_loop t nums lg i ause = (card (array_keys t), nums') \<and> nums_for (array_keys t) nums'"
  using assms
proof (induction t nums lg i ause rule: numusearray_loop.induct)
  case (1 t nums lg i ause)
  note A = array_keys_fin [OF "1.prems"(1), THEN conjunct1] array_keys_fin [OF "1.prems"(1), THEN conjunct2]
  have all: "{k \<in> array_keys t. k \<le> m} = array_keys t" if "sizearray t \<le> m" for m
    using that by (auto simp: array_keys_def)
  show ?case
  proof (cases "lg \<le> MAXBITS \<and> \<not> (2 ^ lg > sizearray t \<and> i > sizearray t)")
    case False
    have "sizearray t \<le> 2 ^ lg div 2"
    proof (cases "lg \<le> MAXBITS")
      case True
      with False "1.prems"(3) show ?thesis by (simp add: min_def split: if_splits)
    next
      case False
      then have "lg = 27" using "1.prems"(2) by (simp add: MAXBITS_def)
      then show ?thesis using "1.prems"(1) by simp
    qed
    note a = all [OF this]
    have "numusearray_loop t nums lg i ause = (ause, nums)"
      using False by (subst numusearray_loop.simps) (auto simp: Let_def)
    then show ?thesis using "1.prems"(4,5) unfolding upto_count_def a by simp
  next
    case True
    then have lg: "lg \<le> MAXBITS" by simp
    define lim where "lim = (if 2 ^ lg > sizearray t then sizearray t else 2 ^ lg)"
    define lc where "lc = count_slice t i lim"
    have brk: "\<not> (2 ^ lg > sizearray t \<and> i > lim)" using True by (auto simp: lim_def)
    have step: "numusearray_loop t nums lg i ause =
        numusearray_loop t (nums[lg := nums ! lg + lc]) (lg + 1) (max i (lim + 1)) (ause + lc)"
      by (subst numusearray_loop.simps) (simp only: lg brk Let_def lim_def [symmetric] lc_def if_True if_False)
    have "lc = card {k \<in> array_keys t. i \<le> k \<and> k \<le> lim}"
      unfolding lc_def by (rule count_slice_card) (simp_all add: "1.prems"(3) lim_def)
    also have "{k \<in> array_keys t. i \<le> k \<and> k \<le> lim} = {k \<in> array_keys t. in_bucket lg k}"
      unfolding "1.prems"(3) lim_def in_bucket_def by (auto simp: array_keys_def)
    finally have lc: "lc = card {k \<in> array_keys t. in_bucket lg k}" .
    have nf: "nums_for {k \<in> array_keys t. k \<le> 2 ^ (lg + 1) div 2} (nums[lg := nums ! lg + lc])"
      using nums_for_slice [OF "1.prems"(4) lg A lc] by simp
    have "{k \<in> array_keys t. k \<le> 2 ^ lg} = {k \<in> array_keys t. k \<le> 2 ^ lg div 2} \<union> {k \<in> array_keys t. in_bucket lg k}"
      "{k \<in> array_keys t. k \<le> 2 ^ lg div 2} \<inter> {k \<in> array_keys t. in_bucket lg k} = {}"
      by (auto simp: in_bucket_def)
    then have au: "ause + lc = upto_count (array_keys t) (2 ^ (lg + 1) div 2)"
      using "1.prems"(5) A(1) lc by (simp add: upto_count_def card_Un_disjoint)
    have "(2::nat) ^ lg div 2 \<le> 2 ^ lg" by simp
    then have i: "max i (lim + 1) = min (2 ^ (lg + 1) div 2) (sizearray t) + 1"
      using "1.prems"(3) by (auto simp: lim_def min_def max_def)
    have lg1: "lg + 1 \<le> MAXBITS + 1" using lg by simp
    show ?thesis
      unfolding step using "1.IH" [OF lg refl refl _ refl "1.prems"(1) lg1 _ _] nf au i brk
      by (simp add: lim_def lc_def)
  qed
qed


lemma numusearray_ok:
  assumes "sizearray t \<le> 2 ^ 26"
  shows "\<exists>nums. numusearray t (replicate (MAXBITS + 1) 0) = (card (array_keys t), nums) \<and> nums_for (array_keys t) nums"
  unfolding numusearray_def
proof (rule numusearray_loop_ok [OF assms])
  have e: "{k \<in> array_keys t. k \<le> 2 ^ 0 div 2} = {}" by (auto simp: array_keys_def)
  then show "0 = upto_count (array_keys t) (2 ^ 0 div 2)" unfolding upto_count_def by (simp only: card.empty)
  show "nums_for {k \<in> array_keys t. k \<le> 2 ^ 0 div 2} (replicate (MAXBITS + 1) 0)"
    unfolding e nums_for_def by (simp del: replicate_Suc)
qed simp_all

text \<open>The hash part.\<close>

definition used_nodes :: "node list \<Rightarrow> node list" where
  "used_nodes ns = filter (\<lambda>n. i_val n \<noteq> Nil) ns"

definition int_keys :: "node list \<Rightarrow> nat list" where
  "int_keys ns = concat (map (\<lambda>n. case int_key (i_key n) of None \<Rightarrow> [] | Some k \<Rightarrow> [k]) (used_nodes ns))"

lemma int_keys_simps [simp]:
  "int_keys [] = []"
  "i_val n = Nil \<Longrightarrow> int_keys (n # ns) = int_keys ns"
  "int_key (i_key n) = None \<Longrightarrow> int_keys (n # ns) = int_keys ns"
  "i_val n \<noteq> Nil \<Longrightarrow> int_key (i_key n) = Some k \<Longrightarrow> int_keys (n # ns) = k # int_keys ns"
  by (simp_all add: int_keys_def used_nodes_def)

lemma numusehash_loop_ok:
  assumes "nums_for S nums" "distinct (int_keys ns)" "set (int_keys ns) \<inter> S = {}"
  shows "\<exists>nums'. numusehash_loop ns nums tot au = (tot + length (used_nodes ns), au + length (int_keys ns), nums') \<and>
    nums_for (S \<union> set (int_keys ns)) nums'"
  using assms
proof (induction ns arbitrary: S nums tot au)
  case (Cons n ns)
  show ?case
  proof (cases "i_val n = Nil")
    case True
    with Cons show ?thesis by (simp add: used_nodes_def)
  next
    case used: False
    show ?thesis
    proof (cases "int_key (i_key n)")
      case None
      with used countint_ok(1) [OF Cons.prems(1) None] Cons.IH [OF Cons.prems(1), of "tot + 1" au] Cons.prems(2,3)
      show ?thesis by (auto simp: used_nodes_def)
    next
      case (Some k)
      then have k: "k \<notin> S" "k \<notin> set (int_keys ns)" "distinct (int_keys ns)" "set (int_keys ns) \<inter> insert k S = {}"
        using Cons.prems(2,3) used by auto
      obtain nums1 where n1: "countint (i_key n) nums = (1, nums1)" "nums_for (insert k S) nums1"
        using countint_ok(2) [OF Cons.prems(1) Some k(1)] by blast
      from Cons.IH [OF n1(2) k(3,4), of "tot + 1" "au + 1"] n1(1) Some used show ?thesis
        by (auto simp: used_nodes_def)
    qed
  qed
qed (simp add: used_nodes_def)

lemma int_key_arrayindex: "int_key a = Some k \<Longrightarrow> arrayindex a = int k \<and> 1 \<le> k \<and> k \<le> 2 ^ 26"
  by (auto simp: int_key_def MAXASIZE_def MAXBITS_def split: if_splits)

lemma int_key_norm: "int_key a = Some k \<Longrightarrow> int_key b = Some k \<Longrightarrow> norm_key a = norm_key b"
proof -
  assume "int_key a = Some k" "int_key b = Some k"
  then have "in_array (2 ^ 26) a" "in_array (2 ^ 26) b" "arrayindex a = arrayindex b"
    using int_key_arrayindex by (fastforce simp: in_array_def)+
  then show ?thesis using in_array_inj by blast
qed

lemma int_keys_mem: "k \<in> set (int_keys ns) \<longleftrightarrow> (\<exists>n\<in>set ns. i_val n \<noteq> Nil \<and> int_key (i_key n) = Some k)"
  by (auto simp: int_keys_def used_nodes_def split: option.splits)

lemma int_keys_distinct: "distinct_keys ns \<Longrightarrow> distinct (int_keys ns)"
proof (induction ns)
  case (Cons n ns)
  then have d: "distinct (int_keys ns)" by (simp add: distinct_keys_Cons)
  have "k \<notin> set (int_keys ns)" if k: "i_val n \<noteq> Nil" "int_key (i_key n) = Some k" for k
  proof
    assume "k \<in> set (int_keys ns)"
    then obtain m where m: "m \<in> set ns" "i_val m \<noteq> Nil" "int_key (i_key m) = Some k"
      unfolding int_keys_mem by blast
    then have "norm_key (i_key m) = norm_key (i_key n)" using int_key_norm k(2) by blast
    moreover have "(norm_key \<circ> i_key) m \<in> (norm_key \<circ> i_key) ` set (filter (\<lambda>n. i_val n \<noteq> Nil) ns)"
      by (rule imageI) (use m(1,2) in simp)
    ultimately have "norm_key (i_key n) \<in> (norm_key \<circ> i_key) ` set (filter (\<lambda>n. i_val n \<noteq> Nil) ns)"
      by (simp only: comp_def)
    then show False using Cons.prems k(1) by (simp add: distinct_keys_Cons)
  qed
  then show ?case using d by (cases "i_val n = Nil"; cases "int_key (i_key n)") simp_all
qed simp

subsection \<open>Rehash\<close>

lemma length_int_keys_upto:
  assumes "n \<le> 2 ^ 26"
  shows "length (used_nodes ns) = length (filter (\<lambda>k. k \<le> n) (int_keys ns)) + node_bound n ns"
proof (induction ns)
  case (Cons x ns)
  have "in_array n (i_key x) \<longleftrightarrow> (case int_key (i_key x) of None \<Rightarrow> False | Some k \<Rightarrow> k \<le> n)"
  proof (cases "0 < arrayindex (i_key x) \<and> arrayindex (i_key x) \<le> MAXASIZE")
    case True
    then show ?thesis by (simp add: int_key_def in_array_def nat_le_iff)
  next
    case False
    have "int n \<le> MAXASIZE" using assms by (simp add: MAXASIZE_def MAXBITS_def)
    with False show ?thesis unfolding int_key_def if_not_P [OF False] in_array_def by auto
  qed
  then show ?case
    using Cons by (cases "i_val x = Nil"; cases "int_key (i_key x)") (simp_all add: used_nodes_def node_bound_Cons)
qed (simp add: used_nodes_def node_bound_def)

lemma card_array_keys_upto:
  "card (array_keys t) = upto_count (array_keys t) n + array_bound (t_array t) [n..<sizearray t]"
proof -
  have f: "finite (array_keys t)" by (auto simp: array_keys_def intro: finite_subset [of _ "{..sizearray t}"])
  have "array_bound (t_array t) [n..<sizearray t] = card {k \<in> array_keys t. n < k}"
  proof -
    have "array_bound (t_array t) [n..<sizearray t] = card (set (filter (\<lambda>i. t_array t ! i \<noteq> Nil) [n..<sizearray t]))"
      unfolding array_bound_def by (rule distinct_card [symmetric]) simp
    also have "\<dots> = card (Suc ` set (filter (\<lambda>i. t_array t ! i \<noteq> Nil) [n..<sizearray t]))"
      by (rule card_image [symmetric]) simp
    also have "Suc ` set (filter (\<lambda>i. t_array t ! i \<noteq> Nil) [n..<sizearray t]) = {k \<in> array_keys t. n < k}"
    proof (intro set_eqI iffI)
      fix k assume "k \<in> {k \<in> array_keys t. n < k}"
      then show "k \<in> Suc ` set (filter (\<lambda>i. t_array t ! i \<noteq> Nil) [n..<sizearray t])"
        by (intro image_eqI [of _ _ "k - 1"]) (auto simp: array_keys_def)
    qed (auto simp: array_keys_def)
    finally show ?thesis .
  qed
  moreover have "array_keys t = {k \<in> array_keys t. k \<le> n} \<union> {k \<in> array_keys t. n < k}" by auto
  then have "card (array_keys t) = card ({k \<in> array_keys t. k \<le> n} \<union> {k \<in> array_keys t. n < k})" by simp
  then have "card (array_keys t) = upto_count (array_keys t) n + card {k \<in> array_keys t. n < k}"
    unfolding upto_count_def using f by (subst (asm) card_Un_disjoint) auto
  ultimately show ?thesis by simp
qed

lemma node_keys_not_array:
  assumes "table_inv t" "n \<in> set (t_node t)" "i_val n \<noteq> Nil" "int_key (i_key n) = Some k"
  shows "k \<notin> array_keys t"
proof
  assume "k \<in> array_keys t"
  then have "in_array (sizearray t) (i_key n)"
    using int_key_arrayindex [OF assms(4)] by (simp add: in_array_def array_keys_def)
  moreover obtain i where i: "i < length (t_node t)" "t_node t ! i = n" using assms(2) by (auto simp: in_set_conv_nth)
  moreover have "keyed (t_node t) i"
    using keys_okD(1) [of "t_node t" i] table_inv_nodes [OF assms(1)] i assms(3) by (simp add: keyed_def nodes_ok_def)
  ultimately show False using assms(1) by (auto simp: table_inv_def)
qed

definition entry_count :: "table \<Rightarrow> nat" where
  "entry_count t = card (array_keys t) + length (used_nodes (t_node t))"

lemma int_keys_perm: "mset ns = mset ns' \<Longrightarrow> mset (int_keys ns) = mset (int_keys ns')"
proof -
  assume m: "mset ns = mset ns'"
  have "mset (int_keys ns) = \<Sum>\<^sub># (image_mset (\<lambda>n. mset (case int_key (i_key n) of None \<Rightarrow> [] | Some k \<Rightarrow> [k]))
      (filter_mset (\<lambda>n. i_val n \<noteq> Nil) (mset ns)))" for ns
    by (induction ns) (auto split: option.splits)
  then show ?thesis using m by metis
qed

end
