(* ===== verification/LuaTableMap.thy ===== *)
theory LuaTableMap
  imports LuaTableSizes
begin

unbundle bit_operations_syntax

section \<open>The contract of tables\<close>

text \<open>
  \<^verbatim>\<open>luaH_set\<close> with the rehash it may need, and the properties of tables: a table is a
  map, a traversal visits each of its entries, its length is a border. The locale \<open>value_map\<close> is
  the interface that the other components use.
\<close>

definition table_ok :: "table \<Rightarrow> bool" where
  "table_ok t \<longleftrightarrow> table_inv t \<and> length (t_array t) = sizearray t"

text \<open>The integer keys of a table and of a new key.\<close>

definition key_counts :: "table \<Rightarrow> tvalue \<Rightarrow> nat set \<Rightarrow> nat \<Rightarrow> bool" where
  "key_counts t key S c \<longleftrightarrow>
     card S = card (array_keys t) + length (int_keys (rev (t_node t))) + c \<and>
     (\<forall>n \<le> 2 ^ 26. upto_count S n =
        upto_count (array_keys t) n + length (filter (\<lambda>k. k \<le> n) (int_keys (rev (t_node t)))) +
        (if in_array n key then 1 else 0))"

lemma int_key_in_array:
  "n \<le> 2 ^ 26 \<Longrightarrow> in_array n key \<longleftrightarrow> (case int_key key of None \<Rightarrow> False | Some k \<Rightarrow> k \<le> n)"
proof (cases "0 < arrayindex key \<and> arrayindex key \<le> MAXASIZE")
  case True
  then show ?thesis by (simp add: int_key_def in_array_def nat_le_iff)
next
  case False
  assume "n \<le> 2 ^ 26"
  then have "int n \<le> MAXASIZE" by (simp add: MAXASIZE_def MAXBITS_def)
  with False show ?thesis unfolding int_key_def if_not_P [OF False] in_array_def by auto
qed

lemma upto_count_Un:
  "finite A \<Longrightarrow> finite B \<Longrightarrow> A \<inter> B = {} \<Longrightarrow> upto_count (A \<union> B) n = upto_count A n + upto_count B n"
proof -
  assume a: "finite A" "finite B" "A \<inter> B = {}"
  have "{k \<in> A \<union> B. k \<le> n} = {k \<in> A. k \<le> n} \<union> {k \<in> B. k \<le> n}" by blast
  moreover have "{k \<in> A. k \<le> n} \<inter> {k \<in> B. k \<le> n} = {}" using a(3) by blast
  ultimately show ?thesis using a(1,2) by (simp add: upto_count_def card_Un_disjoint)
qed

lemma upto_count_list: "distinct xs \<Longrightarrow> upto_count (set xs) n = length (filter (\<lambda>k. k \<le> n) xs)"
proof -
  assume "distinct xs"
  then have "card (set (filter (\<lambda>k. k \<le> n) xs)) = length (filter (\<lambda>k. k \<le> n) xs)"
    by (intro distinct_card) simp
  then show ?thesis by (simp add: upto_count_def)
qed

lemma count_keys_ok:
  assumes inv: "table_inv t" and key: "slot_of t key = NilObject"
    and n2: "nums_for (array_keys t \<union> set (int_keys (rev (t_node t)))) nums"
  shows "\<exists>S c nums'. countint key nums = (c, nums') \<and> nums_for S nums' \<and> key_counts t key S c"
proof -
  let ?A = "array_keys t" and ?I = "int_keys (rev (t_node t))"
  have kok: "keys_ok (t_node t)" using table_inv_nodes [OF inv] by (simp add: nodes_ok_def)
  have dI: "distinct ?I" by (rule int_keys_distinct [OF distinct_keys_nodes [OF kok]])
  have AI: "?A \<inter> set ?I = {}" using node_keys_not_array [OF inv] by (auto simp: int_keys_mem)
  have fA: "finite ?A" using n2 by (simp add: nums_for_def)
  have cAI: "card (?A \<union> set ?I) = card ?A + length ?I"
    using card_Un_disjoint [OF fA _ AI] distinct_card [OF dI] by simp
  have uAI: "upto_count (?A \<union> set ?I) n = upto_count ?A n + length (filter (\<lambda>k. k \<le> n) ?I)" for n
    using upto_count_Un [OF fA _ AI] upto_count_list [OF dI] by simp
  show ?thesis
  proof (cases "int_key key")
    case None
    then have "key_counts t key (?A \<union> set ?I) 0"
      by (simp add: key_counts_def cAI uAI int_key_in_array)
    then show ?thesis using countint_ok(1) [OF n2 None] n2 by blast
  next
    case (Some k)
    have "k \<notin> ?A"
    proof
      assume "k \<in> ?A"
      then have "in_array (sizearray t) key"
        using int_key_arrayindex [OF Some] by (simp add: in_array_def array_keys_def)
      then show False using key by (simp add: slot_of_def)
    qed
    moreover have "k \<notin> set ?I"
    proof
      assume "k \<in> set ?I"
      then obtain m where m: "m \<in> set (t_node t)" "int_key (i_key m) = Some k"
        by (auto simp: int_keys_mem)
      then obtain j where j: "j < length (t_node t)" "t_node t ! j = m" by (auto simp: in_set_conv_nth)
      have "matches key m"
        using int_key_norm [OF m(2) Some] m(2) by (auto simp: matches_def int_key_def arrayindex_def)
      then have "node_of (t_node t) key \<noteq> None" using j node_of_None by blast
      then show False using key by (auto simp: slot_of_def split: if_splits)
    qed
    ultimately have kn: "k \<notin> ?A \<union> set ?I" by blast
    have "upto_count (insert k (?A \<union> set ?I)) n = upto_count (?A \<union> set ?I) n + (if k \<le> n then 1 else 0)" for n
    proof -
      have "{x \<in> insert k (?A \<union> set ?I). x \<le> n} =
          (if k \<le> n then insert k {x \<in> ?A \<union> set ?I. x \<le> n} else {x \<in> ?A \<union> set ?I. x \<le> n})" by auto
      then show ?thesis using kn fA by (simp add: upto_count_def)
    qed
    then have "key_counts t key (insert k (?A \<union> set ?I)) 1"
      using kn fA by (simp add: key_counts_def cAI uAI int_key_in_array Some)
    then show ?thesis using countint_ok(2) [OF n2 Some kn] by blast
  qed
qed

lemma rehash_ok:
  assumes ok: "table_ok t" and key: "slot_of t key = NilObject" and cnt: "entry_count t < 2 ^ 26"
  shows "\<exists>t'. rehash grow t key = Inr t' \<and> table_ok t' \<and> amap t' = amap t \<and> metatable t' = metatable t \<and>
    room t' (hash_bound t' key)"
proof -
  have inv: "table_inv t" "length (t_array t) = sizearray t" using ok by (simp_all add: table_ok_def)
  have sz: "sizearray t \<le> 2 ^ 26" using inv(1) by (simp add: table_inv_def)
  let ?A = "array_keys t" and ?I = "int_keys (rev (t_node t))" and ?u = "length (used_nodes (t_node t))"
  obtain nums1 where n1: "numusearray t (replicate (MAXBITS + 1) 0) = (card ?A, nums1)" "nums_for ?A nums1"
    using numusearray_ok [OF sz] by blast
  have kok: "keys_ok (t_node t)" using table_inv_nodes [OF inv(1)] by (simp add: nodes_ok_def)
  have dI: "distinct ?I" by (rule int_keys_distinct [OF distinct_keys_nodes [OF kok]])
  have IA: "set ?I \<inter> ?A = {}" using node_keys_not_array [OF inv(1)] by (auto simp: int_keys_mem)
  obtain nums2 where n2: "numusehash t nums1 (card ?A) = (?u, card ?A + length ?I, nums2)"
    "nums_for (?A \<union> set ?I) nums2"
    using numusehash_loop_ok [OF n1(2) dI IA, of 0 0]
    by (auto simp: numusehash_def used_nodes_def simp flip: rev_filter)
  obtain S c nums3 where n3: "countint key nums2 = (c, nums3)" "nums_for S nums3" "key_counts t key S c"
    using count_keys_ok [OF inv(1) key n2(2)] by blast
  obtain n na where cs: "computesizes nums3 (card S) = Inr (n, na)" "best_size S n na"
    using computesizes_ok [OF n3(2)] by blast
  have n: "n \<le> 2 ^ 26"
    using cs(2) power_increasing [of _ MAXBITS "2 :: nat"] by (auto simp: best_size_def MAXBITS_def)
  have "length (used_nodes (rev (t_node t))) = ?u" by (simp add: used_nodes_def flip: rev_filter)
  then have u: "?u = length (filter (\<lambda>k. k \<le> n) ?I) + node_bound n (t_node t)"
    using length_int_keys_upto [OF n, of "rev (t_node t)"] by simp
  define nh where "nh = card ?A + ?u + 1 - na"
  have "na = upto_count ?A n + length (filter (\<lambda>k. k \<le> n) ?I) + (if in_array n key then 1 else 0)"
    using cs(2) n3(3) n by (simp add: best_size_def key_counts_def)
  then have nh: "nh = outside t n + (if in_array n key then 0 else 1)"
    using card_array_keys_upto [of t n] u by (simp add: nh_def outside_def)
  have le: "outside t n \<le> nh" "nh \<le> 2 ^ 26"
    using cnt by (simp add: nh, simp add: nh_def entry_count_def)
  then obtain t' where t': "resize grow t n nh = Inr t'" "resize_result t n nh t'"
    using resize_ok [OF inv n le] by blast
  have "card S = card ?A + length ?I + c" using n3(3) by (simp add: key_counts_def)
  then have "rehash grow t key = Inr t'"
    using t'(1) cs(1) n1(1) n2(1) n3(1) by (simp add: rehash_def nh_def)
  moreover have "room t' (hash_bound t' key)"
    using t'(2) nh by (simp add: resize_result_def hash_bound_def room_def)
  ultimately show ?thesis using t'(2) by (auto simp: resize_result_def table_ok_def)
qed

subsection \<open>luaH_set\<close>

text \<open>What a call that makes room for a key gives: a pointer to its value, the map unchanged.\<close>

definition set_result :: "table \<Rightarrow> tvalue \<Rightarrow> slot \<Rightarrow> table \<Rightarrow> bool" where
  "set_result t key p t' \<longleftrightarrow> table_ok t' \<and> amap t' = amap t \<and> metatable t' = metatable t \<and>
     slot_of t' key = p \<and> p \<noteq> NilObject"

lemma set_resultI:
  "same_map t (t'\<lparr>flags := f\<rparr>) \<Longrightarrow> table_ok t \<Longrightarrow> slot_of t' key = p \<Longrightarrow> p \<noteq> NilObject \<Longrightarrow> set_result t key p t'"
  by (simp add: set_result_def table_ok_def same_map_def)

lemma slot_of_lastfree [simp]: "slot_of (t\<lparr>lastfree := lf\<rparr>) = slot_of t"
  by (simp add: fun_eq_iff slot_of_def)

lemma entry_count_same:
  "t_array t' = t_array t \<Longrightarrow> sizearray t' = sizearray t \<Longrightarrow> t_node t' = t_node t \<Longrightarrow> entry_count t' = entry_count t"
  by (simp add: entry_count_def array_keys_def)

lemma newkey_regrow:
  assumes ok: "table_ok t" and key: "key_ok key" "slot_of t key = NilObject" and cnt: "entry_count t < 2 ^ 26"
  shows "\<exists>p t'. newkey (regrow (Suc d)) t key = Inr (p, t') \<and> set_result t key p t'"
proof -
  have inv: "table_inv t" using ok by (simp add: table_ok_def)
  show ?thesis
  proof (cases rule: newkey_cases [OF inv key, of "regrow (Suc d)"])
    case (1 t' q)
    have "same_map t (t'\<lparr>flags := flags t'\<rparr>)" using 1(2) by (simp add: key_added_def)
    then have "set_result t key q t'"
      by (rule set_resultI [OF _ ok]) (use 1(2) in \<open>simp_all add: key_added_def\<close>)
    then show ?thesis using 1(1) by blast
  next
    case (2 lf)
    let ?t = "t\<lparr>lastfree := lf\<rparr>"
    have t: "table_ok ?t" "slot_of ?t key = NilObject" "entry_count ?t < 2 ^ 26" "amap ?t = amap t"
      using 2(2) ok key(2) cnt entry_count_same [of ?t t]
      by (simp_all add: same_map_def table_ok_def)
    obtain t1 where t1: "rehash (regrow d) ?t key = Inr t1" "table_ok t1" "amap t1 = amap ?t"
      "metatable t1 = metatable ?t" "room t1 (hash_bound t1 key)"
      using rehash_ok [OF t(1-3)] by blast
    have i1: "table_inv t1" using t1(2) by (simp add: table_ok_def)
    obtain p t' where t': "set_with (regrow d) t1 key = Inr (p, t')" "same_map t1 (t'\<lparr>flags := flags t1\<rparr>)"
      "slot_of t' key = p" "p \<noteq> NilObject"
      using set_with_room [OF i1 key(1) t1(5)] by blast
    have "set_result t1 key p t'" by (rule set_resultI [OF t'(2) t1(2) t'(3,4)])
    then have "set_result t key p t'" using t1(3,4) t(4) by (simp add: set_result_def)
    moreover have "newkey (regrow (Suc d)) t key = Inr (p, t')"
      unfolding 2(1) by (simp add: t1(1) t'(1))
    ultimately show ?thesis by blast
  qed
qed

lemma luaH_set_makes_room:
  assumes ok: "table_ok t" and key: "key_ok key" and cnt: "entry_count t < 2 ^ 26"
  shows "\<exists>p t'. luaH_set t key = Inr (p, t') \<and> set_result t key p t'"
proof -
  have inv: "table_inv t" using ok by (simp add: table_ok_def)
  let ?t = "t\<lparr>flags := 0\<rparr>"
  have t: "table_ok ?t" "entry_count ?t < 2 ^ 26"
    using ok cnt entry_count_same [of ?t t] by (simp_all add: table_ok_def)
  show ?thesis
  proof (cases "slot_of t key = NilObject")
    case True
    then have s: "slot_of ?t key = NilObject" by simp
    obtain p t' where n: "newkey (regrow (Suc 0)) ?t key = Inr (p, t')" "set_result ?t key p t'"
      using newkey_regrow [OF t(1) key s t(2)] by blast
    then have "set_result t key p t'" by (simp add: set_result_def)
    then show ?thesis using n(1) True by (simp add: luaH_set_def set_with_cases [OF inv key])
  next
    case False
    then have "set_result t key (slot_of t key) ?t" using t(1) by (simp add: set_result_def)
    then show ?thesis using False by (simp add: luaH_set_def set_with_cases [OF inv key])
  qed
qed

text \<open>\<^verbatim>\<open>luaH_set\<close> followed by the assignment through the pointer, as its callers do.\<close>

definition table_put :: "table \<Rightarrow> tvalue \<Rightarrow> tvalue \<Rightarrow> table res" where
  "table_put t key v = rbind (luaH_set t key) (\<lambda>(p, t'). Inr (set_slot t' p v))"

lemma table_put_ok:
  assumes "table_ok t" "key_ok key" "entry_count t < 2 ^ 26"
  shows "\<exists>t'. table_put t key v = Inr t' \<and> table_ok t' \<and> metatable t' = metatable t \<and>
    (\<forall>k. amap t' k = (if norm_key k = norm_key key then v else amap t k))"
proof -
  obtain p t1 where s: "luaH_set t key = Inr (p, t1)" "set_result t key p t1"
    using luaH_set_makes_room [OF assms] by blast
  then have i: "table_inv t1" "slot_of t1 key \<noteq> NilObject" "p = slot_of t1 key"
    by (auto simp: set_result_def table_ok_def)
  note w = set_slot_ok [OF i(1,2), of v]
  have "table_ok (set_slot t1 p v)" using w(1) s(2) i(3) by (simp add: table_ok_def set_result_def)
  moreover have "amap (set_slot t1 p v) k = (if norm_key k = norm_key key then v else amap t k)" for k
    using w(2) s(2) unfolding i(3) by (simp add: set_result_def)
  ultimately show ?thesis using s by (simp add: table_put_def set_result_def)
qed

text \<open>
  C9: \<^verbatim>\<open>luaH_set\<close> and \<^verbatim>\<open>luaH_get\<close> implement a map. For every key but nil
  and NaN \<^verbatim>\<open>luaH_set\<close> succeeds, whatever moves, rehashes and resizes it takes, and never
  rehashes while it rehashes; after the assignment to the slot it returns, \<^verbatim>\<open>luaH_get\<close> finds
  the new value for that key (and for the other keys raw equal to it, as 0 and -0 are) and the old
  value for any other key; the invariant of the table holds.
\<close>

theorem luaH_set_get:
  assumes "table_ok t" "key_ok key" "entry_count t < 2 ^ 26"
  shows "\<exists>p t1. luaH_set t key = Inr (p, t1) \<and> p \<noteq> NilObject \<and> table_ok (set_slot t1 p v) \<and>
    (\<forall>k. \<exists>q q'. luaH_get t k = Inr q \<and> luaH_get (set_slot t1 p v) k = Inr q' \<and>
      slot_val (set_slot t1 p v) q' = (if luaO_rawequalObj k key then v else slot_val t q))"
proof -
  obtain p t1 where s: "luaH_set t key = Inr (p, t1)" "set_result t key p t1"
    using luaH_set_makes_room [OF assms] by blast
  obtain t' where t': "table_put t key v = Inr t'" "table_ok t'"
    "\<forall>k. amap t' k = (if norm_key k = norm_key key then v else amap t k)"
    using table_put_ok [OF assms, of v] by blast
  have e: "t' = set_slot t1 p v" using s(1) t'(1) by (simp add: table_put_def)
  have inv: "table_inv t" "table_inv t'" using assms(1) t'(2) by (simp_all add: table_ok_def)
  have nn: "luaO_rawequalObj k key \<longleftrightarrow> norm_key k = norm_key key" for k
  proof -
    have "\<not> is_nan k" if "norm_key k = norm_key key"
      using assms(2) is_nan_norm_key [of k] is_nan_norm_key [of key] unfolding that key_ok_def by simp
    then show ?thesis unfolding luaO_rawequalObj_norm by blast
  qed
  have "\<exists>q q'. luaH_get t k = Inr q \<and> luaH_get t' k = Inr q' \<and>
      slot_val t' q' = (if luaO_rawequalObj k key then v else slot_val t q)" for k
    using t'(3) unfolding luaH_get_ok [OF inv(1)] luaH_get_ok [OF inv(2)] nn amap_def by simp
  then show ?thesis using s t'(2) unfolding e by (auto simp: set_result_def)
qed

subsection \<open>Construction\<close>

lemma luaH_new_ok:
  assumes "narray \<le> 2 ^ 26" "nhash \<le> 2 ^ 26"
  shows "\<exists>t. luaH_new narray nhash = Inr t \<and> table_ok t \<and> amap t = (\<lambda>k. Nil) \<and> entry_count t = 0"
proof -
  define t0 where "t0 = \<lparr>flags = - 1 :: 8 word, t_array = [], sizearray = 0, t_node = [empty_node], lsizenode = 0,
    lastfree = 0, isdummy = True, metatable = None\<rparr>"
  define t1 where "t1 = setarrayvector t0 narray"
  have s1: "sizearray t1 = narray" "t_array t1 = replicate narray Nil"
    by (simp_all add: t1_def t0_def setarrayvector_def)
  obtain t where t: "setnodevector t1 nhash = Inr t" "emptied t1 nhash t"
    using setnodevector_ok [of t1 nhash] assms s1 by auto
  have f: "t_array t = replicate narray Nil" "sizearray t = narray" "table_inv t" "keyed_count t = 0"
    using t(2) s1 by (simp_all add: emptied_def)
  have "amap t k = Nil" for k
    using t(2) s1 by (auto simp: emptied_def in_array_def)
  moreover have "array_keys t = {}" using f by (auto simp: array_keys_def)
  moreover have "used_nodes (t_node t) = []"
  proof -
    have "\<not> keyed (t_node t) i" for i using f(4) by (simp add: keyed_count_def)
    then have "i_val x = Nil" if "x \<in> set (t_node t)" for x
      using that keys_okD(1) [of "t_node t"] table_inv_nodes [OF f(3)]
      by (auto simp: in_set_conv_nth keyed_def nodes_ok_def)
    then show ?thesis by (simp add: used_nodes_def filter_empty_conv)
  qed
  ultimately show ?thesis
    using t(1) f by (intro exI [of _ t]) (auto simp: luaH_new_def t1_def t0_def table_ok_def entry_count_def)
qed

lemma node_val_outside:
  assumes "n \<ge> sizearray t" "sizearray t \<le> length (t_array t)"
  shows "outside t n = node_bound n (t_node t)"
  using assms by (simp add: outside_def array_bound_def)

text \<open>
  Growing the array part with \<^verbatim>\<open>luaH_resizearray\<close> never fails and keeps the map and
  the invariant: the values of the hash part that move to the array leave room for the others.
\<close>

theorem luaH_resizearray_ok:
  assumes "table_ok t" "sizearray t \<le> n" "n \<le> 2 ^ 26"
  shows "\<exists>t'. luaH_resizearray t n = Inr t' \<and> table_ok t' \<and> amap t' = amap t \<and> sizearray t' = n"
proof -
  have inv: "table_inv t" "length (t_array t) = sizearray t" using assms(1) by (simp_all add: table_ok_def)
  let ?nh = "if isdummy t then 0 else sizenode t"
  have l: "length (t_node t) = sizenode t" "lsizenode t \<le> 26"
    using table_inv_nodes [OF inv(1)] by (simp_all add: nodes_ok_def sizenode_def MAXBITS_def)
  then have "sizenode t \<le> 2 ^ 26" using power_increasing [of "lsizenode t" 26 "2::nat"] by (simp add: sizenode_def)
  moreover have "outside t n \<le> ?nh"
  proof -
    have "node_bound n (t_node t) = 0" if "isdummy t"
      using inv(1) that by (simp add: table_inv_def node_bound_def empty_node_def)
    moreover have "node_bound n (t_node t) \<le> sizenode t"
      using length_filter_le l(1) unfolding node_bound_def by metis
    ultimately show ?thesis using assms(2) inv(2) by (simp add: node_val_outside)
  qed
  ultimately show ?thesis
    using resize_ok [OF inv assms(3), of ?nh "regrow 1"]
    by (auto simp: luaH_resizearray_def resize_result_def table_ok_def)
qed

theorem luaH_set_get_witness:
  "\<exists>t p t1. luaH_new 0 0 = Inr t \<and> luaH_set t (String ''x'') = Inr (p, t1) \<and> p \<noteq> NilObject \<and>
    (\<exists>q'. luaH_get (set_slot t1 p (Boolean True)) (String ''x'') = Inr q' \<and>
       slot_val (set_slot t1 p (Boolean True)) q' = Boolean True)"
proof -
  obtain t where t: "luaH_new 0 0 = Inr t" "table_ok t" "entry_count t = 0"
    using luaH_new_ok [of 0 0] by auto
  have k: "key_ok (String ''x'')" by (simp add: key_ok_def is_nan_def)
  have "luaO_rawequalObj (String ''x'') (String ''x'')" by (simp add: luaO_rawequalObj_def)
  with luaH_set_get [OF t(2) k, of "Boolean True"] t(1,3) show ?thesis by fastforce
qed

theorem luaH_resizearray_ok_witness:
  "\<exists>t t'. luaH_new 2 4 = Inr t \<and> luaH_resizearray t 50 = Inr t' \<and> sizearray t' = 50"
proof -
  obtain t0 where t0: "luaH_new 2 4 = Inr t0" "table_ok t0" using luaH_new_ok [of 2 4] by auto
  have "sizearray t0 = 2"
    using t0(1) by (auto simp: luaH_new_def setnodevector_def setarrayvector_def Let_def split: if_splits)
  with luaH_resizearray_ok [OF t0(2), of 50] t0(1) show ?thesis by auto
qed

subsection \<open>Traversal\<close>

text \<open>The entries of a table in the order in which \<^verbatim>\<open>luaH_next\<close> gives them.\<close>

definition array_entries :: "table \<Rightarrow> nat \<Rightarrow> (tvalue \<times> tvalue) list" where
  "array_entries t i =
     map (\<lambda>j. (Number (cast_num (int j + 1)), t_array t ! j))
       (filter (\<lambda>j. t_array t ! j \<noteq> Nil) [i..<sizearray t])"

definition node_entries :: "table \<Rightarrow> nat \<Rightarrow> (tvalue \<times> tvalue) list" where
  "node_entries t i =
     map (\<lambda>j. (i_key (t_node t ! j), i_val (t_node t ! j)))
       (filter (\<lambda>j. i_val (t_node t ! j) \<noteq> Nil) [i..<sizenode t])"

definition entries_from :: "table \<Rightarrow> nat \<Rightarrow> (tvalue \<times> tvalue) list" where
  "entries_from t i = array_entries t i @ node_entries t (i - sizearray t)"

definition entries :: "table \<Rightarrow> (tvalue \<times> tvalue) list" where
  "entries t = entries_from t 0"

definition hd_option :: "'a list \<Rightarrow> 'a option" where
  "hd_option xs = (case xs of [] \<Rightarrow> None | x # _ \<Rightarrow> Some x)"

lemma next_array_entries: "next_array t i = hd_option (array_entries t i)"
proof (induction t i rule: next_array.induct)
  case (1 t i)
  then show ?case
    by (cases "i < sizearray t"; cases "t_array t ! i = Nil")
      (simp_all add: next_array.simps [of t i] array_entries_def hd_option_def upt_conv_Cons add.commute)
qed

lemma next_node_entries: "next_node t i = hd_option (node_entries t i)"
proof (induction t i rule: next_node.induct)
  case (1 t i)
  then show ?case
    by (cases "i < sizenode t"; cases "i_val (t_node t ! i) = Nil")
      (simp_all add: next_node.simps [of t i] node_entries_def hd_option_def upt_conv_Cons)
qed

lemma hd_option_append: "hd_option (xs @ ys) = (case hd_option xs of None \<Rightarrow> hd_option ys | Some x \<Rightarrow> Some x)"
  by (cases xs) (simp_all add: hd_option_def)

lemma luaH_next_entries:
  "findindex t key = Inr i \<Longrightarrow> luaH_next t key = Inr (hd_option (entries_from t (nat (i + 1))))"
  by (simp only: luaH_next_def rbind_simps Let_def next_array_entries next_node_entries hd_option_append entries_from_def)

text \<open>The index of a key: where the traversal goes on.\<close>

lemma findindex_array:
  assumes "j < sizearray t" "sizearray t \<le> 2 ^ 26"
  shows "findindex t (Number (cast_num (int j + 1))) = Inr (int j)"
proof -
  have "is_int (int j + 1)" using assms by (simp add: is_int_def int_min_def int_max_def)
  then show ?thesis using assms by (simp add: findindex_def Let_def)
qed

lemma findindex_node:
  assumes inv: "table_inv t" and j: "keyed (t_node t) j"
  shows "findindex t (i_key (t_node t ! j)) = Inr (int j + int (sizearray t))"
proof -
  let ?k = "i_key (t_node t ! j)"
  have k: "?k \<noteq> Nil" "\<not> in_array (sizearray t) ?k" "j < length (t_node t)"
    using inv j by (simp_all add: keyed_def table_inv_def)
  have "keys_ok (t_node t)" using table_inv_nodes [OF inv] by (simp add: nodes_ok_def)
  then have "node_of (t_node t) ?k = Some j" using k by (simp add: node_of_unique matches_def)
  then show ?thesis
    using k get_generic_match [OF inv k(1,2)] by (auto simp: findindex_def Let_def in_array_def)
qed

lemma filter_upt_Cons:
  "filter P [i..<n] = j # js \<Longrightarrow> i \<le> j \<and> j < n \<and> P j \<and> js = filter P [Suc j..<n]"
proof (induction "n - i" arbitrary: i)
  case (Suc d)
  then have i: "i < n" by simp
  show ?case
  proof (cases "P i")
    case True
    then show ?thesis using Suc.prems i by (auto simp: upt_conv_Cons)
  next
    case False
    then have "filter P [Suc i..<n] = j # js" using Suc.prems i by (simp add: upt_conv_Cons)
    moreover have "d = n - Suc i" using Suc.hyps(2) by simp
    ultimately show ?thesis using Suc.hyps(1) by fastforce
  qed
qed simp

lemma entries_from_Cons:
  assumes inv: "table_inv t" and e: "entries_from t i = (k, v) # rest"
  shows "\<exists>j. findindex t k = Inr (int j) \<and> rest = entries_from t (Suc j)"
proof (cases "filter (\<lambda>j. t_array t ! j \<noteq> Nil) [i..<sizearray t]")
  case (Cons j js)
  note f = filter_upt_Cons [OF Cons]
  have s: "sizearray t \<le> 2 ^ 26" using inv by (simp add: table_inv_def)
  have k: "k = Number (cast_num (int j + 1))" using e Cons by (simp add: entries_from_def array_entries_def)
  have "i - sizearray t = Suc j - sizearray t" using f by simp
  then have "rest = entries_from t (Suc j)"
    using e Cons f by (simp add: entries_from_def array_entries_def)
  then show ?thesis using findindex_array [of j t] f s k by auto
next
  case Nil
  then have a: "array_entries t i = []" by (simp add: array_entries_def)
  then obtain j js where f: "filter (\<lambda>j. i_val (t_node t ! j) \<noteq> Nil) [i - sizearray t..<sizenode t] = j # js"
    and k: "k = i_key (t_node t ! j)"
    using e by (auto simp: entries_from_def node_entries_def)
  note g = filter_upt_Cons [OF f]
  have no: "nodes_ok (lsizenode t) (t_node t)" by (rule table_inv_nodes [OF inv])
  then have "j < length (t_node t)" using g by (simp add: nodes_ok_def sizenode_def)
  then have "keyed (t_node t) j"
    using keys_okD(1) [of "t_node t" j] no g by (simp add: nodes_ok_def keyed_def)
  from findindex_node [OF inv this] have "findindex t k = Inr (int (j + sizearray t))" by (simp add: k)
  moreover have "array_entries t (Suc (j + sizearray t)) = []" by (simp add: array_entries_def)
  then have "rest = entries_from t (Suc (j + sizearray t))"
    using e a f g by (simp add: entries_from_def node_entries_def Suc_diff_le)
  ultimately show ?thesis by blast
qed

text \<open>A traversal: \<^verbatim>\<open>luaH_next\<close> called with the key it gave before, until it gives none.\<close>

fun traverse :: "nat \<Rightarrow> table \<Rightarrow> tvalue \<Rightarrow> (tvalue \<times> tvalue) list res" where
  "traverse 0 t key = Inl OutOfFuel"
| "traverse (Suc fuel) t key =
     rbind (luaH_next t key) (\<lambda>r. case r of
         None \<Rightarrow> Inr []
       | Some (k, v) \<Rightarrow> rbind (traverse fuel t k) (\<lambda>rest. Inr ((k, v) # rest)))"

lemma traverse_entries:
  assumes inv: "table_inv t"
  shows "findindex t key = Inr i \<Longrightarrow> length (entries_from t (nat (i + 1))) < fuel \<Longrightarrow>
    traverse fuel t key = Inr (entries_from t (nat (i + 1)))"
proof (induction fuel arbitrary: key i)
  case (Suc fuel)
  show ?case
  proof (cases "entries_from t (nat (i + 1))")
    case Nil
    then show ?thesis using luaH_next_entries [OF Suc.prems(1)] by (simp add: hd_option_def)
  next
    case (Cons kv rest)
    obtain k v where kv: "kv = (k, v)" by (cases kv)
    obtain j where j: "findindex t k = Inr (int j)" "rest = entries_from t (Suc j)"
      using entries_from_Cons [OF inv Cons [unfolded kv]] by blast
    have n: "nat (int j + 1) = Suc j" by simp
    have "traverse fuel t k = Inr rest"
      using Suc.IH [OF j(1)] Suc.prems(2) Cons unfolding n j(2) by simp
    then show ?thesis using luaH_next_entries [OF Suc.prems(1)] Cons by (simp add: hd_option_def kv)
  qed
qed simp

lemma entries_amap:
  assumes inv: "table_inv t" and kv: "(k, v) \<in> set (entries t)"
  shows "amap t k = v" "v \<noteq> Nil"
proof -
  have s: "sizearray t \<le> 2 ^ 26" using inv by (simp add: table_inv_def)
  have no: "nodes_ok (lsizenode t) (t_node t)" by (rule table_inv_nodes [OF inv])
  from kv consider (arr) j where "j < sizearray t" "t_array t ! j \<noteq> Nil" "k = Number (cast_num (int j + 1))" "v = t_array t ! j"
    | (nod) j where "j < length (t_node t)" "i_val (t_node t ! j) \<noteq> Nil" "k = i_key (t_node t ! j)" "v = i_val (t_node t ! j)"
    using no by (auto simp: entries_def entries_from_def array_entries_def node_entries_def nodes_ok_def sizenode_def)
  then have "amap t k = v \<and> v \<noteq> Nil"
  proof cases
    case arr
    have i: "is_int (int j + 1)" using arr(1) s by (simp add: is_int_def int_min_def int_max_def)
    then have "in_array (sizearray t) k" using arr(1,3) by (simp add: in_array_def)
    then show ?thesis using arr i by (simp add: amap_alt)
  next
    case nod
    then have kd: "keyed (t_node t) j" using keys_okD(1) [of "t_node t" j] no by (simp add: nodes_ok_def keyed_def)
    have "slot_of t k = NodeSlot j"
      unfolding nod(3) by (rule slot_of_new [OF no nod(1) refl]) (use kd inv in \<open>simp_all add: keyed_def table_inv_def\<close>)
    then show ?thesis using nod by (simp add: amap_def slot_val_def)
  qed
  then show "amap t k = v" "v \<noteq> Nil" by simp_all
qed

lemma amap_entries:
  assumes ok: "table_inv t" and v: "amap t k \<noteq> Nil"
  shows "\<exists>k'. (k', amap t k) \<in> set (entries t) \<and> norm_key k' = norm_key k"
proof (cases rule: slot_of_cases [OF ok, of k])
  case (2 i)
  have "(Number (cast_num (int i + 1)), t_array t ! i) \<in> set (array_entries t 0)"
    unfolding array_entries_def using 2 v by (auto intro!: image_eqI [of _ _ i])
  moreover have "norm_key k = norm_key (Number (cast_num (int i + 1)))" using arrayindex_key(1) [of k] 2(4) by simp
  ultimately show ?thesis using 2(5) by (auto simp: entries_def entries_from_def)
next
  case (3 i)
  have "(i_key (t_node t ! i), i_val (t_node t ! i)) \<in> set (node_entries t 0)"
    unfolding node_entries_def using 3 v table_inv_nodes [OF ok]
    by (auto simp: nodes_ok_def sizenode_def intro!: image_eqI [of _ _ i])
  then show ?thesis using 3(5,6) by (auto simp: entries_def entries_from_def)
qed (use v in simp)

lemma entries_distinct:
  assumes inv: "table_inv t" shows "distinct (map (norm_key \<circ> fst) (entries t))"
proof -
  have s: "sizearray t \<le> 2 ^ 26" using inv by (simp add: table_inv_def)
  have no: "nodes_ok (lsizenode t) (t_node t)" by (rule table_inv_nodes [OF inv])
  let ?f = "\<lambda>j. norm_key (Number (cast_num (int j + 1)))" and ?g = "\<lambda>j. norm_key (i_key (t_node t ! j))"
  have int: "is_int (int j + 1)" if "j < sizearray t" for j
    using that s by (simp add: is_int_def int_min_def int_max_def)
  have f: "arrayindex (Number (cast_num (int j + 1))) = int j + 1" if "j < sizearray t" for j
    using int [OF that] by simp
  have keyed: "keyed (t_node t) j" if "j < sizenode t" "i_val (t_node t ! j) \<noteq> Nil" for j
    using that keys_okD(1) [of "t_node t" j] no by (simp add: nodes_ok_def keyed_def sizenode_def)
  have "inj_on ?f (set (filter (\<lambda>j. t_array t ! j \<noteq> Nil) [0..<sizearray t]))"
  proof (rule inj_onI)
    fix a b assume ab: "a \<in> set (filter (\<lambda>j. t_array t ! j \<noteq> Nil) [0..<sizearray t])"
      "b \<in> set (filter (\<lambda>j. t_array t ! j \<noteq> Nil) [0..<sizearray t])" "?f a = ?f b"
    then have "int a + 1 = int b + 1" using arrayindex_norm [OF ab(3)] f [of a] f [of b] by simp
    then show "a = b" by simp
  qed
  then have d1: "distinct (map (norm_key \<circ> fst) (array_entries t 0))"
    by (simp add: array_entries_def distinct_map comp_def)
  have "inj_on ?g (set (filter (\<lambda>j. i_val (t_node t ! j) \<noteq> Nil) [0..<sizenode t]))"
  proof (rule inj_onI)
    fix a b assume ab: "a \<in> set (filter (\<lambda>j. i_val (t_node t ! j) \<noteq> Nil) [0..<sizenode t])"
      "b \<in> set (filter (\<lambda>j. i_val (t_node t ! j) \<noteq> Nil) [0..<sizenode t])" "?g a = ?g b"
    then have "keyed (t_node t) a" "keyed (t_node t) b" using keyed by simp_all
    then show "a = b" using ab(3) no unfolding nodes_ok_def keys_ok_def by blast
  qed
  then have d2: "distinct (map (norm_key \<circ> fst) (node_entries t 0))"
    by (simp add: node_entries_def distinct_map comp_def)
  have "?f a \<noteq> ?g b" if "a < sizearray t" "b < sizenode t" "i_val (t_node t ! b) \<noteq> Nil" for a b
  proof
    assume "?f a = ?g b"
    then have "in_array (sizearray t) (i_key (t_node t ! b))"
      using arrayindex_norm [of "Number (cast_num (int a + 1))" "i_key (t_node t ! b)"] f [OF that(1)] that(1)
      by (simp add: in_array_def)
    then show False using inv keyed [OF that(2,3)] by (simp add: table_inv_def)
  qed
  then have "set (map (norm_key \<circ> fst) (array_entries t 0)) \<inter> set (map (norm_key \<circ> fst) (node_entries t 0)) = {}"
    by (auto simp: array_entries_def node_entries_def)
  with d1 d2 show ?thesis by (simp add: entries_def entries_from_def)
qed

text \<open>
  C10: a traversal with \<^verbatim>\<open>luaH_next\<close> from nil ends, and gives each key with a value
  exactly once (up to raw equality), with the value that \<^verbatim>\<open>luaH_get\<close> reads for it.
\<close>

theorem luaH_next_visits:
  assumes "table_ok t"
  shows "\<exists>es. traverse (Suc (length (entries t))) t Nil = Inr es \<and> distinct (map (norm_key \<circ> fst) es) \<and>
    (\<forall>k v. v \<noteq> Nil \<longrightarrow> ((\<exists>p. luaH_get t k = Inr p \<and> slot_val t p = v) \<longleftrightarrow>
       (\<exists>k'. (k', v) \<in> set es \<and> norm_key k' = norm_key k)))"
proof -
  have inv: "table_inv t" using assms by (simp add: table_ok_def)
  have "findindex t Nil = Inr (-1)" by (simp add: findindex_def)
  from traverse_entries [OF inv this, of "Suc (length (entries t))"]
  have t: "traverse (Suc (length (entries t))) t Nil = Inr (entries t)" by (simp add: entries_def)
  have "amap t k = v \<longleftrightarrow> (\<exists>k'. (k', v) \<in> set (entries t) \<and> norm_key k' = norm_key k)" if v: "v \<noteq> Nil" for k v
    using amap_entries [OF inv, of k] entries_amap(1) [OF inv] amap_norm [of _ k t] v by metis
  then show ?thesis
    using t entries_distinct [OF inv] luaH_get_ok [OF inv] by (auto simp: amap_def)
qed

theorem luaH_next_visits_witness:
  "\<exists>t. luaH_new 3 3 = Inr t \<and> traverse (Suc (length (entries t))) t Nil = Inr []"
proof -
  obtain t where t: "luaH_new 3 3 = Inr t" "table_ok t" "amap t = (\<lambda>k. Nil)"
    using luaH_new_ok [of 3 3] by auto
  have inv: "table_inv t" using t(2) by (simp add: table_ok_def)
  from luaH_next_visits [OF t(2)] obtain es where es: "traverse (Suc (length (entries t))) t Nil = Inr es"
    "\<forall>k v. v \<noteq> Nil \<longrightarrow> ((\<exists>p. luaH_get t k = Inr p \<and> slot_val t p = v) \<longleftrightarrow>
       (\<exists>k'. (k', v) \<in> set es \<and> norm_key k' = norm_key k))" by blast
  have "(k, v) \<notin> set es" if "v \<noteq> Nil" for k v
    using es(2) that t(3) by (auto simp: luaH_get_ok [OF inv] amap_def fun_eq_iff)
  moreover have "(k, Nil) \<notin> set es" for k
    using es(1) traverse_entries [OF inv, of Nil "-1" "Suc (length (entries t))"] entries_amap(2) [OF inv]
    by (auto simp: findindex_def entries_def)
  ultimately have "es = []" by (cases es) (metis list.set_intros(1) prod.exhaust)+
  then show ?thesis using t(1) es(1) by blast
qed


subsection \<open>The length\<close>

definition nth_val :: "table \<Rightarrow> nat \<Rightarrow> tvalue" where
  "nth_val t j = amap t (Number (cast_num (int j)))"

definition border :: "table \<Rightarrow> nat \<Rightarrow> bool" where
  "border t n \<longleftrightarrow> (n = 0 \<or> nth_val t n \<noteq> Nil) \<and> nth_val t (n + 1) = Nil"

lemma is_int_nat: "j < 2 ^ 31 \<Longrightarrow> is_int (int j)"
  by (simp add: is_int_def int_min_def int_max_def)

lemma getnum_val_ok: "table_inv t \<Longrightarrow> j < 2 ^ 31 \<Longrightarrow> getnum_val t j = Inr (nth_val t j)"
  by (simp add: getnum_val_def luaH_getnum_ok is_int_nat nth_val_def amap_def)

lemma nth_val_array:
  assumes "1 \<le> j" "j \<le> sizearray t" "sizearray t \<le> 2 ^ 26" shows "nth_val t j = t_array t ! (j - 1)"
proof -
  have "is_int (int j)" using assms by (intro is_int_nat) simp
  then show ?thesis using assms by (simp add: nth_val_def amap_alt in_array_def nat_diff_distrib)
qed

lemma binary_search_ok:
  assumes "\<forall>m. i < m \<and> m < j \<longrightarrow> f m = Inr (nth_val t m)" "i < j" "i = 0 \<or> nth_val t i \<noteq> Nil" "nth_val t j = Nil"
  shows "\<exists>n. binary_search f i j = Inr n \<and> border t n"
  using assms
proof (induction f i j rule: binary_search.induct)
  case (1 f i j)
  show ?case
  proof (cases "j - i > 1")
    case True
    let ?m = "(i + j) div 2"
    have m: "i < ?m" "?m < j" using True by auto
    then have f: "f ?m = Inr (nth_val t ?m)" using "1.prems"(1) by blast
    show ?thesis
    proof (cases "nth_val t ?m = Nil")
      case n: True
      have "\<exists>n. binary_search f i ?m = Inr n \<and> border t n"
        by (rule "1.IH"(1) [OF True refl f n]) (use "1.prems" m n in auto)
      then show ?thesis using True f n by (simp add: binary_search.simps [of f i j] Let_def)
    next
      case n: False
      have "\<exists>n. binary_search f ?m j = Inr n \<and> border t n"
        by (rule "1.IH"(2) [OF True refl f n]) (use "1.prems" m n in auto)
      then show ?thesis using True f n by (simp add: binary_search.simps [of f i j] Let_def)
    qed
  next
    case False
    then have "binary_search f i j = Inr i" by (subst binary_search.simps) simp
    moreover have "j = i + 1" using False "1.prems"(2) by simp
    ultimately show ?thesis using "1.prems"(3,4) by (simp add: border_def)
  qed
qed

lemma values_bounded:
  assumes inv: "table_inv t" and v: "\<forall>j. 1 \<le> j \<and> j \<le> k \<longrightarrow> nth_val t j \<noteq> Nil" and k: "k < 2 ^ 31"
  shows "k \<le> sizearray t + sizenode t"
proof -
  let ?s = "\<lambda>j. slot_of t (Number (cast_num (int j)))"
  have ne: "?s j \<noteq> NilObject" if "j \<in> {1..k}" for j
    using v that by (auto simp: nth_val_def amap_def slot_val_def)
  have "inj_on ?s {1..k}"
  proof (rule inj_onI)
    fix a b assume ab: "a \<in> {1..k}" "b \<in> {1..k}" "?s a = ?s b"
    have "norm_key (Number (cast_num (int a))) = norm_key (Number (cast_num (int b)))"
      using slot_inj [OF inv ab(3) ne [OF ab(2)]] .
    then have "arrayindex (Number (cast_num (int a))) = arrayindex (Number (cast_num (int b)))"
      by (rule arrayindex_norm)
    then show "a = b" using is_int_nat [of a] is_int_nat [of b] ab(1,2) k by simp
  qed
  moreover have "?s ` {1..k} \<subseteq> ArraySlot ` {..<sizearray t} \<union> NodeSlot ` {..<sizenode t}"
  proof
    fix x assume "x \<in> ?s ` {1..k}"
    then obtain j where j: "j \<in> {1..k}" "x = ?s j" by blast
    show "x \<in> ArraySlot ` {..<sizearray t} \<union> NodeSlot ` {..<sizenode t}"
      by (cases rule: slot_of_cases [OF inv, of "Number (cast_num (int j))"])
        (use ne [OF j(1)] j(2) table_inv_nodes [OF inv] in \<open>auto simp: nodes_ok_def sizenode_def\<close>)
  qed
  ultimately have "card {1..k} \<le> card (ArraySlot ` {..<sizearray t} \<union> NodeSlot ` {..<sizenode t})"
    by (meson card_inj_on_le finite_Un finite_imageI finite_lessThan)
  also have "\<dots> \<le> card (ArraySlot ` {..<sizearray t}) + card (NodeSlot ` {..<sizenode t})" by (rule card_Un_le)
  also have "\<dots> \<le> sizearray t + sizenode t"
    using card_image_le [of "{..<sizearray t}" ArraySlot] card_image_le [of "{..<sizenode t}" NodeSlot] by simp
  finally show ?thesis by simp
qed

lemma sizes_small: "table_inv t \<Longrightarrow> sizearray t + sizenode t \<le> 2 ^ 27"
proof -
  assume inv: "table_inv t"
  then have "lsizenode t \<le> 26" "sizearray t \<le> 2 ^ 26"
    using table_inv_nodes [OF inv] by (simp_all add: nodes_ok_def MAXBITS_def table_inv_def)
  then show ?thesis using power_increasing [of "lsizenode t" 26 "2::nat"] by (simp add: sizenode_def)
qed

lemma linear_search_ok:
  assumes inv: "table_inv t"
  shows "1 \<le> i \<Longrightarrow> \<forall>j. 1 \<le> j \<and> j < i \<longrightarrow> nth_val t j \<noteq> Nil \<Longrightarrow> i + fuel = sizearray t + sizenode t + 2 \<Longrightarrow>
    \<exists>n. linear_search t fuel i = Inr n \<and> border t n"
proof (induction fuel arbitrary: i)
  case 0
  then have "sizearray t + sizenode t + 1 \<le> sizearray t + sizenode t"
    using sizes_small [OF inv] by (intro values_bounded [OF inv]) auto
  then show ?case by simp
next
  case (Suc fuel)
  have "i < 2 ^ 31" using Suc.prems(3) sizes_small [OF inv] by simp
  note g = getnum_val_ok [OF inv this]
  show ?case
  proof (cases "nth_val t i = Nil")
    case True
    have "border t (i - 1)" using True Suc.prems(1,2) by (auto simp: border_def)
    then show ?thesis using True g by simp
  next
    case False
    have "\<exists>n. linear_search t fuel (i + 1) = Inr n \<and> border t n"
      by (rule Suc.IH) (use Suc.prems False in \<open>auto simp: less_Suc_eq\<close>)
    then show ?thesis using False g by simp
  qed
qed

lemma double_search_ok:
  assumes "table_inv t" "0 < j" "j \<le> MAX_INT" "i < j" "i = 0 \<or> nth_val t i \<noteq> Nil"
  shows "double_search t i j = Inr None \<or>
    (\<exists>i' j'. double_search t i j = Inr (Some (i', j')) \<and> i' < j' \<and> j' \<le> MAX_INT \<and>
       (i' = 0 \<or> nth_val t i' \<noteq> Nil) \<and> nth_val t j' = Nil)"
  using assms
proof (induction t i j rule: double_search.induct)
  case (1 t i j)
  have "j < 2 ^ 31" using "1.prems"(3) by (simp add: MAX_INT_def)
  note g = getnum_val_ok [OF "1.prems"(1) this]
  have j0: "j \<noteq> 0" using "1.prems"(2) by simp
  show ?case
  proof (cases "nth_val t j = Nil")
    case True
    then show ?thesis using g j0 "1.prems" by (simp add: double_search.simps [of t i j])
  next
    case False
    show ?thesis
    proof (cases "j * 2 > MAX_INT")
      case True
      then show ?thesis using g j0 False by (simp add: double_search.simps [of t i j])
    next
      case le: False
      have "double_search t i j = double_search t j (j * 2)"
        using g j0 False le by (simp add: double_search.simps [of t i j])
      then show ?thesis using "1.IH" [OF j0 g False le "1.prems"(1)] le j0 False by simp
    qed
  qed
qed

text \<open>
  C11: \<^verbatim>\<open>luaH_getn\<close> returns a border of the table, as the comment above it says: the
  value at the index is not nil, or the index is 0, and the next value is nil. All its searches end,
  the linear one of \<^verbatim>\<open>unbound_search\<close> included.
\<close>

theorem luaH_getn_border:
  assumes "table_ok t"
  shows "\<exists>n. luaH_getn t = Inr n \<and> border t n"
proof -
  have inv: "table_inv t" and s: "sizearray t \<le> 2 ^ 26"
    using assms by (simp_all add: table_ok_def table_inv_def)
  let ?j = "sizearray t"
  consider (arr) "?j > 0 \<and> t_array t ! (?j - 1) = Nil"
    | (dummy) "\<not> (?j > 0 \<and> t_array t ! (?j - 1) = Nil)" "isdummy t"
    | (hash) "\<not> (?j > 0 \<and> t_array t ! (?j - 1) = Nil)" "\<not> isdummy t" by blast
  then show ?thesis
  proof cases
    case arr
    have "\<exists>n. binary_search (\<lambda>m. Inr (t_array t ! (m - 1))) 0 ?j = Inr n \<and> border t n"
      by (rule binary_search_ok) (use arr s nth_val_array [of _ t] in auto)
    then show ?thesis using arr by (simp add: luaH_getn_def)
  next
    case dummy
    have "nth_val t (?j + 1) = Nil"
    proof -
      have "is_int (int (?j + 1))" using s by (intro is_int_nat) simp
      then have "\<not> in_array ?j (Number (cast_num (int (?j + 1))))" by (simp add: in_array_def)
      moreover have "node_val (t_node t) k = Nil" for k
        using inv dummy(2) node_of_empty [of 1 k] by (simp add: table_inv_def node_val_def)
      ultimately show ?thesis by (simp add: nth_val_def amap_alt)
    qed
    then have "border t ?j" using dummy(1) nth_val_array [of ?j t] s by (auto simp: border_def)
    moreover have "luaH_getn t = Inr ?j" using dummy by (auto simp: luaH_getn_def Let_def)
    ultimately show ?thesis by blast
  next
    case hash
    have e: "luaH_getn t = unbound_search t ?j" using hash by (auto simp: luaH_getn_def Let_def)
    have v: "?j = 0 \<or> nth_val t ?j \<noteq> Nil" using hash(1) nth_val_array [of ?j t] s by auto
    have "double_search t ?j (?j + 1) = Inr None \<or> (\<exists>i' j'. double_search t ?j (?j + 1) = Inr (Some (i', j')) \<and>
        i' < j' \<and> j' \<le> MAX_INT \<and> (i' = 0 \<or> nth_val t i' \<noteq> Nil) \<and> nth_val t j' = Nil)"
      by (rule double_search_ok [OF inv]) (use s v in \<open>simp_all add: MAX_INT_def\<close>)
    then show ?thesis
    proof
      assume "double_search t ?j (?j + 1) = Inr None"
      then show ?thesis
        using linear_search_ok [OF inv, of 1 "?j + sizenode t + 1"] unfolding e by (simp add: unbound_search_def)
    next
      assume "\<exists>i' j'. double_search t ?j (?j + 1) = Inr (Some (i', j')) \<and>
        i' < j' \<and> j' \<le> MAX_INT \<and> (i' = 0 \<or> nth_val t i' \<noteq> Nil) \<and> nth_val t j' = Nil"
      then obtain i' j' where d: "double_search t ?j (?j + 1) = Inr (Some (i', j'))"
        "i' < j'" "j' \<le> MAX_INT" "i' = 0 \<or> nth_val t i' \<noteq> Nil" "nth_val t j' = Nil" by blast
      have "\<exists>n. binary_search (getnum_val t) i' j' = Inr n \<and> border t n"
        by (rule binary_search_ok [OF _ d(2,4,5)]) (use d(3) in \<open>auto simp: MAX_INT_def intro: getnum_val_ok [OF inv]\<close>)
      then show ?thesis unfolding e using d(1) by (simp add: unbound_search_def)
    qed
  qed
qed

theorem luaH_getn_border_witness: "\<exists>t n. luaH_new 8 2 = Inr t \<and> luaH_getn t = Inr n \<and> n = 0"
proof -
  obtain t where t: "luaH_new 8 2 = Inr t" "table_ok t" "amap t = (\<lambda>k. Nil)" using luaH_new_ok [of 8 2] by auto
  obtain n where "luaH_getn t = Inr n" "border t n" using luaH_getn_border [OF t(2)] by blast
  with t show ?thesis by (auto simp: border_def nth_val_def)
qed

subsection \<open>The interface\<close>

text \<open>
  What the other components use of a table: the operations as they call them and the laws that
  the theorems above show. A client that keeps its data in a table gets its own lemmas from the locale.
\<close>

locale value_map =
  fixes get :: "'t \<Rightarrow> tvalue \<Rightarrow> tvalue"
    and put :: "'t \<Rightarrow> tvalue \<Rightarrow> tvalue \<Rightarrow> 't res"
    and size_of :: "'t \<Rightarrow> nat"
    and ok :: "'t \<Rightarrow> bool"
  assumes put_total: "ok t \<Longrightarrow> key_ok k \<Longrightarrow> size_of t < 2 ^ 26 \<Longrightarrow> \<exists>t'. put t k v = Inr t'"
    and put_ok: "ok t \<Longrightarrow> key_ok k \<Longrightarrow> size_of t < 2 ^ 26 \<Longrightarrow> put t k v = Inr t' \<Longrightarrow> ok t'"
    and get_put: "ok t \<Longrightarrow> key_ok k \<Longrightarrow> size_of t < 2 ^ 26 \<Longrightarrow> put t k v = Inr t' \<Longrightarrow>
      get t' k' = (if norm_key k' = norm_key k then v else get t k')"
begin

lemma get_put_same: "ok t \<Longrightarrow> key_ok k \<Longrightarrow> size_of t < 2 ^ 26 \<Longrightarrow> put t k v = Inr t' \<Longrightarrow> get t' k = v"
  by (simp add: get_put)

lemma put_put:
  assumes "ok t" "key_ok k" "size_of t < 2 ^ 26" "put t k v = Inr t1" "size_of t1 < 2 ^ 26" "put t1 k v' = Inr t2"
  shows "get t2 k' = (if norm_key k' = norm_key k then v' else get t k')"
  using get_put [OF assms(1-4)] get_put [OF put_ok [OF assms(1-4)] assms(2,5,6)] by simp

lemma put_commute:
  assumes "ok t" "key_ok a" "key_ok b" "norm_key a \<noteq> norm_key b" "size_of t < 2 ^ 26"
    "put t a v = Inr t1" "size_of t1 < 2 ^ 26" "put t1 b w = Inr t2"
    "put t b w = Inr s1" "size_of s1 < 2 ^ 26" "put s1 a v = Inr s2"
  shows "get t2 k = get s2 k"
  using get_put [OF assms(1,2,5,6)] get_put [OF put_ok [OF assms(1,2,5,6)] assms(3,7,8)]
    get_put [OF assms(1,3,5,9)] get_put [OF put_ok [OF assms(1,3,5,9)] assms(2,10,11)] assms(4) by simp

end

interpretation tbl: value_map amap table_put entry_count table_ok
proof
  fix t k v t' k'
  assume a: "table_ok t" "key_ok k" "entry_count t < 2 ^ 26"
  from table_put_ok [OF a, of v] show "\<exists>t'. table_put t k v = Inr t'" by blast
  assume p: "table_put t k v = Inr t'"
  with table_put_ok [OF a, of v] show "table_ok t'"
    "amap t' k' = (if norm_key k' = norm_key k then v else amap t k')" by auto
qed

end
