(* ===== verification/LuaOpcodes.thy ===== *)
theory LuaOpcodes
  imports LuaObject
begin

unbundle bit_operations_syntax

section \<open>Instructions\<close>

text \<open>
  \<^verbatim>\<open>lopcodes.h\<close> and \<^verbatim>\<open>lopcodes.c\<close>: an instruction is a 32-bit word with an
  opcode of 6 bits and the arguments A (8 bits), C and B (9 bits each), or A and Bx (18 bits).
\<close>

type_synonym Instruction = "32 word"

datatype OpMode = iABC | iABx | iAsBx

datatype OpArgMask = OpArgN | OpArgU | OpArgR | OpArgK

definition SIZE_C :: nat where "SIZE_C = 9"
definition SIZE_B :: nat where "SIZE_B = 9"
definition SIZE_Bx :: nat where "SIZE_Bx = SIZE_C + SIZE_B"
definition SIZE_A :: nat where "SIZE_A = 8"
definition SIZE_OP :: nat where "SIZE_OP = 6"

definition POS_OP :: nat where "POS_OP = 0"
definition POS_A :: nat where "POS_A = POS_OP + SIZE_OP"
definition POS_C :: nat where "POS_C = POS_A + SIZE_A"
definition POS_B :: nat where "POS_B = POS_C + SIZE_C"
definition POS_Bx :: nat where "POS_Bx = POS_C"

definition MAXARG_Bx :: int where "MAXARG_Bx = 2 ^ SIZE_Bx - 1"
definition MAXARG_sBx :: int where "MAXARG_sBx = drop_bit 1 MAXARG_Bx"
definition MAXARG_A :: int where "MAXARG_A = 2 ^ SIZE_A - 1"
definition MAXARG_B :: int where "MAXARG_B = 2 ^ SIZE_B - 1"
definition MAXARG_C :: int where "MAXARG_C = 2 ^ SIZE_C - 1"

definition MASK1 :: "nat \<Rightarrow> nat \<Rightarrow> Instruction" where
  "MASK1 n p = push_bit p (NOT (push_bit n (NOT 0)))"

definition MASK0 :: "nat \<Rightarrow> nat \<Rightarrow> Instruction" where
  "MASK0 n p = NOT (MASK1 n p)"

text \<open>The shape that all the \<^verbatim>\<open>GETARG\<close> and \<^verbatim>\<open>SETARG\<close> macros share.\<close>

definition get_field :: "nat \<Rightarrow> nat \<Rightarrow> Instruction \<Rightarrow> int" where
  "get_field sz pos i = uint (drop_bit pos i AND MASK1 sz 0)"

definition set_field :: "nat \<Rightarrow> nat \<Rightarrow> Instruction \<Rightarrow> int \<Rightarrow> Instruction" where
  "set_field sz pos i u = (i AND MASK0 sz pos) OR (push_bit pos (word_of_int u) AND MASK1 sz pos)"

definition GET_OPCODE :: "Instruction \<Rightarrow> int" where "GET_OPCODE = get_field SIZE_OP POS_OP"
definition SET_OPCODE :: "Instruction \<Rightarrow> int \<Rightarrow> Instruction" where "SET_OPCODE = set_field SIZE_OP POS_OP"
definition GETARG_A :: "Instruction \<Rightarrow> int" where "GETARG_A = get_field SIZE_A POS_A"
definition SETARG_A :: "Instruction \<Rightarrow> int \<Rightarrow> Instruction" where "SETARG_A = set_field SIZE_A POS_A"
definition GETARG_B :: "Instruction \<Rightarrow> int" where "GETARG_B = get_field SIZE_B POS_B"
definition SETARG_B :: "Instruction \<Rightarrow> int \<Rightarrow> Instruction" where "SETARG_B = set_field SIZE_B POS_B"
definition GETARG_C :: "Instruction \<Rightarrow> int" where "GETARG_C = get_field SIZE_C POS_C"
definition SETARG_C :: "Instruction \<Rightarrow> int \<Rightarrow> Instruction" where "SETARG_C = set_field SIZE_C POS_C"
definition GETARG_Bx :: "Instruction \<Rightarrow> int" where "GETARG_Bx = get_field SIZE_Bx POS_Bx"
definition SETARG_Bx :: "Instruction \<Rightarrow> int \<Rightarrow> Instruction" where "SETARG_Bx = set_field SIZE_Bx POS_Bx"

definition GETARG_sBx :: "Instruction \<Rightarrow> int" where "GETARG_sBx i = GETARG_Bx i - MAXARG_sBx"
definition SETARG_sBx :: "Instruction \<Rightarrow> int \<Rightarrow> Instruction" where
  "SETARG_sBx i b = SETARG_Bx i ((b + MAXARG_sBx) mod 2 ^ 32)"

definition CREATE_ABC :: "int \<Rightarrow> int \<Rightarrow> int \<Rightarrow> int \<Rightarrow> Instruction" where
  "CREATE_ABC ops a b c =
     push_bit POS_OP (word_of_int ops) OR push_bit POS_A (word_of_int a) OR
     push_bit POS_B (word_of_int b) OR push_bit POS_C (word_of_int c)"

definition CREATE_ABx :: "int \<Rightarrow> int \<Rightarrow> int \<Rightarrow> Instruction" where
  "CREATE_ABx ops a bc =
     push_bit POS_OP (word_of_int ops) OR push_bit POS_A (word_of_int a) OR push_bit POS_Bx (word_of_int bc)"

text \<open>RK indices: a constant when the high bit is set.\<close>

definition BITRK :: int where "BITRK = push_bit (SIZE_B - 1) 1"
definition ISK :: "int \<Rightarrow> bool" where "ISK x \<longleftrightarrow> x AND BITRK \<noteq> 0"
definition INDEXK :: "int \<Rightarrow> int" where "INDEXK r = r AND NOT BITRK"
definition MAXINDEXRK :: int where "MAXINDEXRK = BITRK - 1"
definition RKASK :: "int \<Rightarrow> int" where "RKASK x = x OR BITRK"
definition NO_REG :: int where "NO_REG = MAXARG_A"

subsection \<open>Opcodes\<close>

datatype OpCode =
    OP_MOVE | OP_LOADK | OP_LOADBOOL | OP_LOADNIL | OP_GETUPVAL
  | OP_GETGLOBAL | OP_GETTABLE
  | OP_SETGLOBAL | OP_SETUPVAL | OP_SETTABLE
  | OP_NEWTABLE
  | OP_SELF
  | OP_ADD | OP_SUB | OP_MUL | OP_DIV | OP_MOD | OP_POW | OP_UNM | OP_NOT | OP_LEN
  | OP_CONCAT
  | OP_JMP
  | OP_EQ | OP_LT | OP_LE
  | OP_TEST | OP_TESTSET
  | OP_CALL | OP_TAILCALL | OP_RETURN
  | OP_FORLOOP | OP_FORPREP
  | OP_TFORLOOP | OP_SETLIST
  | OP_CLOSE | OP_CLOSURE
  | OP_VARARG

text \<open>The opcodes in the order of their numbers.\<close>

definition opcodes :: "OpCode list" where
  "opcodes =
     [OP_MOVE, OP_LOADK, OP_LOADBOOL, OP_LOADNIL, OP_GETUPVAL,
      OP_GETGLOBAL, OP_GETTABLE,
      OP_SETGLOBAL, OP_SETUPVAL, OP_SETTABLE,
      OP_NEWTABLE,
      OP_SELF,
      OP_ADD, OP_SUB, OP_MUL, OP_DIV, OP_MOD, OP_POW, OP_UNM, OP_NOT, OP_LEN,
      OP_CONCAT,
      OP_JMP,
      OP_EQ, OP_LT, OP_LE,
      OP_TEST, OP_TESTSET,
      OP_CALL, OP_TAILCALL, OP_RETURN,
      OP_FORLOOP, OP_FORPREP,
      OP_TFORLOOP, OP_SETLIST,
      OP_CLOSE, OP_CLOSURE,
      OP_VARARG]"

definition NUM_OPCODES :: int where "NUM_OPCODES = 38"

text \<open>The opcode of a number that is less than \<^verbatim>\<open>NUM_OPCODES\<close>.\<close>

definition opcode_of :: "int \<Rightarrow> OpCode option" where
  "opcode_of n = (if 0 \<le> n \<and> n < NUM_OPCODES then Some (opcodes ! nat n) else None)"

text \<open>The properties of an instruction: test, sets A, the modes of B and C and the format.\<close>

fun luaP_opmodes :: "OpCode \<Rightarrow> bool \<times> bool \<times> OpArgMask \<times> OpArgMask \<times> OpMode" where
  "luaP_opmodes OP_MOVE = (False, True, OpArgR, OpArgN, iABC)"
| "luaP_opmodes OP_LOADK = (False, True, OpArgK, OpArgN, iABx)"
| "luaP_opmodes OP_LOADBOOL = (False, True, OpArgU, OpArgU, iABC)"
| "luaP_opmodes OP_LOADNIL = (False, True, OpArgR, OpArgN, iABC)"
| "luaP_opmodes OP_GETUPVAL = (False, True, OpArgU, OpArgN, iABC)"
| "luaP_opmodes OP_GETGLOBAL = (False, True, OpArgK, OpArgN, iABx)"
| "luaP_opmodes OP_GETTABLE = (False, True, OpArgR, OpArgK, iABC)"
| "luaP_opmodes OP_SETGLOBAL = (False, False, OpArgK, OpArgN, iABx)"
| "luaP_opmodes OP_SETUPVAL = (False, False, OpArgU, OpArgN, iABC)"
| "luaP_opmodes OP_SETTABLE = (False, False, OpArgK, OpArgK, iABC)"
| "luaP_opmodes OP_NEWTABLE = (False, True, OpArgU, OpArgU, iABC)"
| "luaP_opmodes OP_SELF = (False, True, OpArgR, OpArgK, iABC)"
| "luaP_opmodes OP_ADD = (False, True, OpArgK, OpArgK, iABC)"
| "luaP_opmodes OP_SUB = (False, True, OpArgK, OpArgK, iABC)"
| "luaP_opmodes OP_MUL = (False, True, OpArgK, OpArgK, iABC)"
| "luaP_opmodes OP_DIV = (False, True, OpArgK, OpArgK, iABC)"
| "luaP_opmodes OP_MOD = (False, True, OpArgK, OpArgK, iABC)"
| "luaP_opmodes OP_POW = (False, True, OpArgK, OpArgK, iABC)"
| "luaP_opmodes OP_UNM = (False, True, OpArgR, OpArgN, iABC)"
| "luaP_opmodes OP_NOT = (False, True, OpArgR, OpArgN, iABC)"
| "luaP_opmodes OP_LEN = (False, True, OpArgR, OpArgN, iABC)"
| "luaP_opmodes OP_CONCAT = (False, True, OpArgR, OpArgR, iABC)"
| "luaP_opmodes OP_JMP = (False, False, OpArgR, OpArgN, iAsBx)"
| "luaP_opmodes OP_EQ = (True, False, OpArgK, OpArgK, iABC)"
| "luaP_opmodes OP_LT = (True, False, OpArgK, OpArgK, iABC)"
| "luaP_opmodes OP_LE = (True, False, OpArgK, OpArgK, iABC)"
| "luaP_opmodes OP_TEST = (True, True, OpArgR, OpArgU, iABC)"
| "luaP_opmodes OP_TESTSET = (True, True, OpArgR, OpArgU, iABC)"
| "luaP_opmodes OP_CALL = (False, True, OpArgU, OpArgU, iABC)"
| "luaP_opmodes OP_TAILCALL = (False, True, OpArgU, OpArgU, iABC)"
| "luaP_opmodes OP_RETURN = (False, False, OpArgU, OpArgN, iABC)"
| "luaP_opmodes OP_FORLOOP = (False, True, OpArgR, OpArgN, iAsBx)"
| "luaP_opmodes OP_FORPREP = (False, True, OpArgR, OpArgN, iAsBx)"
| "luaP_opmodes OP_TFORLOOP = (True, False, OpArgN, OpArgU, iABC)"
| "luaP_opmodes OP_SETLIST = (False, False, OpArgU, OpArgU, iABC)"
| "luaP_opmodes OP_CLOSE = (False, False, OpArgN, OpArgN, iABC)"
| "luaP_opmodes OP_CLOSURE = (False, True, OpArgU, OpArgN, iABx)"
| "luaP_opmodes OP_VARARG = (False, True, OpArgU, OpArgN, iABC)"

definition testTMode :: "OpCode \<Rightarrow> bool" where "testTMode m = fst (luaP_opmodes m)"
definition testAMode :: "OpCode \<Rightarrow> bool" where "testAMode m = fst (snd (luaP_opmodes m))"
definition getBMode :: "OpCode \<Rightarrow> OpArgMask" where "getBMode m = fst (snd (snd (luaP_opmodes m)))"
definition getCMode :: "OpCode \<Rightarrow> OpArgMask" where "getCMode m = fst (snd (snd (snd (luaP_opmodes m))))"
definition getOpMode :: "OpCode \<Rightarrow> OpMode" where "getOpMode m = snd (snd (snd (snd (luaP_opmodes m))))"

definition luaP_opnames :: "string list" where
  "luaP_opnames =
     [''MOVE'', ''LOADK'', ''LOADBOOL'', ''LOADNIL'', ''GETUPVAL'', ''GETGLOBAL'', ''GETTABLE'',
      ''SETGLOBAL'', ''SETUPVAL'', ''SETTABLE'', ''NEWTABLE'', ''SELF'', ''ADD'', ''SUB'', ''MUL'',
      ''DIV'', ''MOD'', ''POW'', ''UNM'', ''NOT'', ''LEN'', ''CONCAT'', ''JMP'', ''EQ'', ''LT'', ''LE'',
      ''TEST'', ''TESTSET'', ''CALL'', ''TAILCALL'', ''RETURN'', ''FORLOOP'', ''FORPREP'', ''TFORLOOP'',
      ''SETLIST'', ''CLOSE'', ''CLOSURE'', ''VARARG'']"

definition LFIELDS_PER_FLUSH :: int where "LFIELDS_PER_FLUSH = 50"

subsection \<open>The fields of an instruction\<close>

lemma bit_MASK1: "bit (MASK1 n p) k \<longleftrightarrow> p \<le> k \<and> k < p + n \<and> k < 32"
  by (auto simp: MASK1_def bit_simps)

lemma get_field_take_bit: "get_field sz pos i = uint (take_bit sz (drop_bit pos i))"
proof -
  have "drop_bit pos i AND MASK1 sz 0 = take_bit sz (drop_bit pos i)"
    by (rule bit_word_eqI) (auto simp: bit_simps bit_MASK1)
  then show ?thesis by (simp add: get_field_def)
qed

lemma get_field_range: "0 \<le> get_field sz pos i \<and> get_field sz pos i < 2 ^ sz"
  by (simp add: get_field_take_bit unsigned_take_bit_eq)

lemma get_set_field:
  assumes "pos + sz \<le> 32" "0 \<le> u" "u < 2 ^ sz"
  shows "get_field sz pos (set_field sz pos i u) = u"
proof -
  have "take_bit sz (drop_bit pos (set_field sz pos i u)) = take_bit sz (word_of_int u)"
    using assms(1) by (intro bit_word_eqI) (auto simp: set_field_def MASK0_def bit_simps bit_MASK1)
  moreover have "uint (word_of_int u :: Instruction) = u"
  proof -
    have "u < 2 ^ 32" using assms power_increasing [of sz 32 "2::int"] by simp
    then show ?thesis using assms(2) by (simp add: uint_word_of_int)
  qed
  ultimately show ?thesis
    using assms(2,3) by (simp add: get_field_take_bit unsigned_take_bit_eq take_bit_int_eq_self)
qed

lemma get_set_other:
  assumes "pos + sz \<le> pos' \<or> pos' + sz' \<le> pos"
  shows "get_field sz' pos' (set_field sz pos i u) = get_field sz' pos' i"
proof -
  have "take_bit sz' (drop_bit pos' (set_field sz pos i u)) = take_bit sz' (drop_bit pos' i)"
    using assms bit_imp_le_length [of i]
    by (intro bit_word_eqI) (auto simp: set_field_def MASK0_def bit_simps bit_MASK1)
  then show ?thesis by (simp add: get_field_take_bit)
qed

lemmas field_defs = SIZE_A_def SIZE_B_def SIZE_C_def SIZE_Bx_def SIZE_OP_def
  POS_A_def POS_B_def POS_C_def POS_Bx_def POS_OP_def

lemmas arg_defs = GET_OPCODE_def SET_OPCODE_def GETARG_A_def SETARG_A_def GETARG_B_def SETARG_B_def
  GETARG_C_def SETARG_C_def GETARG_Bx_def SETARG_Bx_def

lemma arg_ranges:
  "0 \<le> GETARG_A i" "GETARG_A i \<le> 255" "0 \<le> GETARG_B i" "GETARG_B i \<le> 511"
  "0 \<le> GETARG_C i" "GETARG_C i \<le> 511" "0 \<le> GETARG_Bx i" "GETARG_Bx i \<le> 262143"
  "0 \<le> GET_OPCODE i" "GET_OPCODE i \<le> 63"
  using get_field_range [of SIZE_A POS_A i] get_field_range [of SIZE_B POS_B i] get_field_range [of SIZE_C POS_C i]
    get_field_range [of SIZE_Bx POS_Bx i] get_field_range [of SIZE_OP POS_OP i]
  by (auto simp: arg_defs field_defs)

lemma bit_small: "0 \<le> (a::int) \<Longrightarrow> a < 2 ^ s \<Longrightarrow> bit a n \<Longrightarrow> n < s"
  using take_bit_int_eq_self [of a s] by (metis bit_take_bit_iff)

lemma take_bit_inj:
  assumes "0 \<le> u" "u < 2 ^ sz" "sz \<le> 32" "take_bit sz w = take_bit sz (word_of_int u)"
  shows "uint (take_bit sz (w :: Instruction)) = u"
proof -
  have "u < 2 ^ 32" using assms(2,3) power_increasing [of sz 32 "2::int"] by simp
  then have "uint (word_of_int u :: Instruction) = u" using assms(1) by (simp add: uint_word_of_int)
  then show ?thesis
    using assms(1,2) unfolding assms(4) by (simp add: unsigned_take_bit_eq take_bit_int_eq_self)
qed

definition ABC_args :: "int \<Rightarrow> int \<Rightarrow> int \<Rightarrow> int \<Rightarrow> bool" where
  "ABC_args n a b c \<longleftrightarrow> 0 \<le> n \<and> n < NUM_OPCODES \<and> 0 \<le> a \<and> a \<le> MAXARG_A \<and> 0 \<le> b \<and> b \<le> MAXARG_B \<and>
     0 \<le> c \<and> c \<le> MAXARG_C"

lemma create_ABC_fields:
  assumes "ABC_args n a b c"
  shows "GET_OPCODE (CREATE_ABC n a b c) = n" "GETARG_A (CREATE_ABC n a b c) = a"
    "GETARG_B (CREATE_ABC n a b c) = b" "GETARG_C (CREATE_ABC n a b c) = c"
proof -
  have r: "0 \<le> n" "n < 2 ^ 6" "0 \<le> a" "a < 2 ^ 8" "0 \<le> b" "b < 2 ^ 9" "0 \<le> c" "c < 2 ^ 9"
    using assms by (auto simp: ABC_args_def NUM_OPCODES_def MAXARG_A_def MAXARG_B_def MAXARG_C_def field_defs)
  note bs = bit_small [OF r(1,2)] bit_small [OF r(3,4)] bit_small [OF r(5,6)] bit_small [OF r(7,8)]
  have "take_bit 6 (drop_bit 0 (CREATE_ABC n a b c)) = take_bit 6 (word_of_int n)"
    "take_bit 8 (drop_bit 6 (CREATE_ABC n a b c)) = take_bit 8 (word_of_int a)"
    "take_bit 9 (drop_bit 23 (CREATE_ABC n a b c)) = take_bit 9 (word_of_int b)"
    "take_bit 9 (drop_bit 14 (CREATE_ABC n a b c)) = take_bit 9 (word_of_int c)"
    by (rule bit_word_eqI; auto simp: CREATE_ABC_def field_defs bit_simps dest: bs)+
  with r show "GET_OPCODE (CREATE_ABC n a b c) = n" "GETARG_A (CREATE_ABC n a b c) = a"
    "GETARG_B (CREATE_ABC n a b c) = b" "GETARG_C (CREATE_ABC n a b c) = c"
    unfolding arg_defs field_defs get_field_take_bit by (auto intro: take_bit_inj)
qed

definition ABx_args :: "int \<Rightarrow> int \<Rightarrow> int \<Rightarrow> bool" where
  "ABx_args n a bx \<longleftrightarrow> 0 \<le> n \<and> n < NUM_OPCODES \<and> 0 \<le> a \<and> a \<le> MAXARG_A \<and> 0 \<le> bx \<and> bx \<le> MAXARG_Bx"

lemma create_ABx_fields:
  assumes "ABx_args n a bx"
  shows "GET_OPCODE (CREATE_ABx n a bx) = n" "GETARG_A (CREATE_ABx n a bx) = a" "GETARG_Bx (CREATE_ABx n a bx) = bx"
proof -
  have r: "0 \<le> n" "n < 2 ^ 6" "0 \<le> a" "a < 2 ^ 8" "0 \<le> bx" "bx < 2 ^ 18"
    using assms by (auto simp: ABx_args_def NUM_OPCODES_def MAXARG_A_def MAXARG_Bx_def field_defs)
  note bs = bit_small [OF r(1,2)] bit_small [OF r(3,4)] bit_small [OF r(5,6)]
  have "take_bit 6 (drop_bit 0 (CREATE_ABx n a bx)) = take_bit 6 (word_of_int n)"
    "take_bit 8 (drop_bit 6 (CREATE_ABx n a bx)) = take_bit 8 (word_of_int a)"
    "take_bit 18 (drop_bit 14 (CREATE_ABx n a bx)) = take_bit 18 (word_of_int bx)"
    by (rule bit_word_eqI; auto simp: CREATE_ABx_def field_defs bit_simps dest: bs)+
  with r show "GET_OPCODE (CREATE_ABx n a bx) = n" "GETARG_A (CREATE_ABx n a bx) = a" "GETARG_Bx (CREATE_ABx n a bx) = bx"
    unfolding arg_defs field_defs get_field_take_bit by (auto intro: take_bit_inj)
qed

text \<open>
  C12: an instruction gives back what it was made of: \<^verbatim>\<open>CREATE_ABC\<close> followed by
  \<^verbatim>\<open>GET_OPCODE\<close> and the \<^verbatim>\<open>GETARG\<close> macros is the identity on arguments in
  range, and setting an argument afterwards changes that argument alone; a signed jump offset comes
  back from \<^verbatim>\<open>SETARG_sBx\<close> as well.
\<close>

theorem instruction_roundtrip:
  assumes "ABC_args n a b c" "0 \<le> u" "u \<le> MAXARG_A" "- MAXARG_sBx \<le> s" "s \<le> MAXARG_sBx"
  shows "(let i = CREATE_ABC n a b c in
      GET_OPCODE i = n \<and> GETARG_A i = a \<and> GETARG_B i = b \<and> GETARG_C i = c \<and>
      GETARG_A (SETARG_A i u) = u \<and> GETARG_B (SETARG_A i u) = b \<and> GETARG_C (SETARG_A i u) = c \<and>
      GET_OPCODE (SETARG_A i u) = n \<and>
      GETARG_sBx (SETARG_sBx i s) = s \<and> GETARG_A (SETARG_sBx i s) = a \<and> GET_OPCODE (SETARG_sBx i s) = n)"
proof -
  note f = create_ABC_fields [OF assms(1)]
  have u: "u < 2 ^ 8" using assms(3) by (simp add: MAXARG_A_def field_defs)
  have m: "MAXARG_sBx = 131071" by (simp add: MAXARG_sBx_def MAXARG_Bx_def field_defs drop_bit_eq_div)
  have s: "(s + MAXARG_sBx) mod 2 ^ 32 = s + MAXARG_sBx" "0 \<le> s + MAXARG_sBx" "s + MAXARG_sBx < 2 ^ 18"
    using assms(4,5) by (simp_all add: m)
  show ?thesis
    unfolding Let_def GETARG_sBx_def SETARG_sBx_def s(1) using f assms(2) u s(2,3)
    by (simp add: arg_defs field_defs get_set_field get_set_other)
qed

theorem instruction_roundtrip_witness:
  "GETARG_A (SETARG_A (CREATE_ABC 12 1 2 3) 7) = 7 \<and> GETARG_B (SETARG_A (CREATE_ABC 12 1 2 3) 7) = 2"
  using instruction_roundtrip [of 12 1 2 3 7 "-5"]
  by (simp add: Let_def ABC_args_def NUM_OPCODES_def MAXARG_A_def MAXARG_B_def MAXARG_C_def MAXARG_sBx_def
      MAXARG_Bx_def field_defs drop_bit_eq_div)

end
