(* ===== verification/LuaProto.thy ===== *)
theory LuaProto
  imports LuaOpcodes
begin

unbundle bit_operations_syntax

section \<open>Function prototypes and the code checker\<close>

text \<open>
  The function prototypes of \<^verbatim>\<open>lobject.h\<close> and the checker of
  \<^verbatim>\<open>ldebug.c\<close> that a precompiled chunk has to pass before it runs
  (\<^verbatim>\<open>symbexec\<close>), with the proof of what it guarantees: whichever instruction the
  machine can reach is inside the code, and the registers, constants, upvalues and prototypes it
  names exist. The size fields of a prototype are the lengths of its lists.
\<close>

subsection \<open>Data\<close>

record LocVar =
  varname :: "string option"
  startpc :: int
  endpc :: int

datatype Proto = Proto
  (p_source: "string option")
  (linedefined: int)
  (lastlinedefined: int)
  (nups: "8 word")
  (numparams: "8 word")
  (is_vararg: "8 word")
  (maxstacksize: "8 word")
  (p_code: "Instruction list")
  (p_k: "tvalue list")
  (p_p: "Proto list")
  (lineinfo: "int list")
  (locvars: "LocVar list")
  (upvalues: "string option list")

definition VARARG_HASARG :: "8 word" where "VARARG_HASARG = 1"
definition VARARG_ISVARARG :: "8 word" where "VARARG_ISVARARG = 2"
definition VARARG_NEEDSARG :: "8 word" where "VARARG_NEEDSARG = 4"

definition MAXSTACK :: int where "MAXSTACK = 250"
definition LUA_MULTRET :: int where "LUA_MULTRET = -1"

abbreviation sizecode :: "Proto \<Rightarrow> int" where "sizecode pt \<equiv> int (length (p_code pt))"
abbreviation sizek :: "Proto \<Rightarrow> int" where "sizek pt \<equiv> int (length (p_k pt))"
abbreviation sizep :: "Proto \<Rightarrow> int" where "sizep pt \<equiv> int (length (p_p pt))"

definition code_at :: "Proto \<Rightarrow> int \<Rightarrow> Instruction" where
  "code_at pt pc = p_code pt ! nat pc"

definition op_at :: "Proto \<Rightarrow> int \<Rightarrow> OpCode option" where
  "op_at pt pc = opcode_of (GET_OPCODE (code_at pt pc))"

subsection \<open>The checker\<close>

definition checkreg :: "Proto \<Rightarrow> int \<Rightarrow> bool" where
  "checkreg pt reg \<longleftrightarrow> reg < uint (maxstacksize pt)"

definition precheck :: "Proto \<Rightarrow> bool" where
  "precheck pt \<longleftrightarrow>
     uint (maxstacksize pt) \<le> MAXSTACK \<and>
     uint (numparams pt) + uint (is_vararg pt AND VARARG_HASARG) \<le> uint (maxstacksize pt) \<and>
     (is_vararg pt AND VARARG_NEEDSARG = 0 \<or> is_vararg pt AND VARARG_HASARG \<noteq> 0) \<and>
     int (length (upvalues pt)) \<le> uint (nups pt) \<and>
     (int (length (lineinfo pt)) = sizecode pt \<or> int (length (lineinfo pt)) = 0) \<and>
     sizecode pt > 0 \<and> op_at pt (sizecode pt - 1) = Some OP_RETURN"

definition luaG_checkopenop :: "Instruction \<Rightarrow> bool" where
  "luaG_checkopenop i =
     (case opcode_of (GET_OPCODE i) of
        Some OP_CALL \<Rightarrow> GETARG_B i = 0
      | Some OP_TAILCALL \<Rightarrow> GETARG_B i = 0
      | Some OP_RETURN \<Rightarrow> GETARG_B i = 0
      | Some OP_SETLIST \<Rightarrow> GETARG_B i = 0
      | _ \<Rightarrow> False)"

definition checkArgMode :: "Proto \<Rightarrow> int \<Rightarrow> OpArgMask \<Rightarrow> bool" where
  "checkArgMode pt r mode =
     (case mode of
        OpArgN \<Rightarrow> r = 0
      | OpArgU \<Rightarrow> True
      | OpArgR \<Rightarrow> checkreg pt r
      | OpArgK \<Rightarrow> (if ISK r then INDEXK r < sizek pt else r < uint (maxstacksize pt)))"

definition is_setlist0 :: "Instruction \<Rightarrow> bool" where
  "is_setlist0 d \<longleftrightarrow> opcode_of (GET_OPCODE d) = Some OP_SETLIST \<and> GETARG_C d = 0"

text \<open>The loop that goes back over the words before a jump target; it gives \<open>j\<close>.\<close>

function setlist_run :: "Proto \<Rightarrow> int \<Rightarrow> int \<Rightarrow> int" where
  "setlist_run pt dest j =
     (if j < dest then (if is_setlist0 (code_at pt (dest - 1 - j)) then setlist_run pt dest (j + 1) else j) else j)"
  by pat_completeness auto
termination by (relation "measure (\<lambda>(pt, dest, j). nat (dest - j))") auto

declare setlist_run.simps [simp del]

text \<open>The first switch: the formats. It gives the arguments B and C if they pass.\<close>

definition check_format :: "Proto \<Rightarrow> int \<Rightarrow> OpCode \<Rightarrow> Instruction \<Rightarrow> (int \<times> int) option" where
  "check_format pt pc ops i =
     (case getOpMode ops of
        iABC \<Rightarrow>
          (let b = GETARG_B i; c = GETARG_C i in
           if checkArgMode pt b (getBMode ops) \<and> checkArgMode pt c (getCMode ops) then Some (b, c) else None)
      | iABx \<Rightarrow>
          (let b = GETARG_Bx i in
           if getBMode ops = OpArgK \<longrightarrow> b < sizek pt then Some (b, 0) else None)
      | iAsBx \<Rightarrow>
          (let b = GETARG_sBx i; dest = pc + 1 + b in
           if getBMode ops = OpArgR \<longrightarrow>
                0 \<le> dest \<and> dest < sizecode pt \<and> (dest > 0 \<longrightarrow> even (setlist_run pt dest 0))
           then Some (b, 0) else None))"

text \<open>
  The second switch, for the single opcodes: \<open>None\<close> is a failed check, otherwise the new values of
  \<open>pc\<close> and \<open>last\<close> (written \<open>lst\<close>). \<open>reg = NO_REG\<close> is a full check, any other \<open>reg\<close> traces that register.
\<close>

definition check_op :: "Proto \<Rightarrow> int \<Rightarrow> int \<Rightarrow> OpCode \<Rightarrow> int \<Rightarrow> int \<Rightarrow> int \<Rightarrow> int \<Rightarrow> int \<Rightarrow> (int \<times> int) option" where
  "check_op pt lastpc reg ops a b c pc lst =
     (case ops of
        OP_LOADBOOL \<Rightarrow>
          (if c = 1 \<longrightarrow> pc + 2 < sizecode pt \<and>
              (op_at pt (pc + 1) \<noteq> Some OP_SETLIST \<or> GETARG_C (code_at pt (pc + 1)) \<noteq> 0)
           then Some (pc, lst) else None)
      | OP_LOADNIL \<Rightarrow> Some (pc, if a \<le> reg \<and> reg \<le> b then pc else lst)
      | OP_GETUPVAL \<Rightarrow> (if b < uint (nups pt) then Some (pc, lst) else None)
      | OP_SETUPVAL \<Rightarrow> (if b < uint (nups pt) then Some (pc, lst) else None)
      | OP_GETGLOBAL \<Rightarrow> (if ttype (p_k pt ! nat b) = LUA_TSTRING then Some (pc, lst) else None)
      | OP_SETGLOBAL \<Rightarrow> (if ttype (p_k pt ! nat b) = LUA_TSTRING then Some (pc, lst) else None)
      | OP_SELF \<Rightarrow> (if checkreg pt (a + 1) then Some (pc, if reg = a + 1 then pc else lst) else None)
      | OP_CONCAT \<Rightarrow> (if b < c then Some (pc, lst) else None)
      | OP_TFORLOOP \<Rightarrow>
          (if c \<ge> 1 \<and> checkreg pt (a + 2 + c) then Some (pc, if reg \<ge> a + 2 then pc else lst) else None)
      | OP_FORLOOP \<Rightarrow>
          (if checkreg pt (a + 3)
           then Some (if reg \<noteq> NO_REG \<and> pc < pc + 1 + b \<and> pc + 1 + b \<le> lastpc then pc + b else pc, lst) else None)
      | OP_FORPREP \<Rightarrow>
          (if checkreg pt (a + 3)
           then Some (if reg \<noteq> NO_REG \<and> pc < pc + 1 + b \<and> pc + 1 + b \<le> lastpc then pc + b else pc, lst) else None)
      | OP_JMP \<Rightarrow> Some (if reg \<noteq> NO_REG \<and> pc < pc + 1 + b \<and> pc + 1 + b \<le> lastpc then pc + b else pc, lst)
      | OP_CALL \<Rightarrow>
          (if (b \<noteq> 0 \<longrightarrow> checkreg pt (a + b - 1)) \<and>
              (if c - 1 = LUA_MULTRET then luaG_checkopenop (code_at pt (pc + 1))
               else c - 1 \<noteq> 0 \<longrightarrow> checkreg pt (a + (c - 1) - 1))
           then Some (pc, if reg \<ge> a then pc else lst) else None)
      | OP_TAILCALL \<Rightarrow>
          (if (b \<noteq> 0 \<longrightarrow> checkreg pt (a + b - 1)) \<and>
              (if c - 1 = LUA_MULTRET then luaG_checkopenop (code_at pt (pc + 1))
               else c - 1 \<noteq> 0 \<longrightarrow> checkreg pt (a + (c - 1) - 1))
           then Some (pc, if reg \<ge> a then pc else lst) else None)
      | OP_RETURN \<Rightarrow> (if b - 1 > 0 \<longrightarrow> checkreg pt (a + (b - 1) - 1) then Some (pc, lst) else None)
      | OP_SETLIST \<Rightarrow>
          (if b > 0 \<longrightarrow> checkreg pt (a + b)
           then if c = 0 then (if pc + 1 < sizecode pt - 1 then Some (pc + 1, lst) else None) else Some (pc, lst)
           else None)
      | OP_CLOSURE \<Rightarrow>
          (if b < sizep pt then
             let nup = uint (nups (p_p pt ! nat b)) in
             if pc + nup < sizecode pt \<and>
                list_all (\<lambda>j. op_at pt (pc + int j) = Some OP_GETUPVAL \<or> op_at pt (pc + int j) = Some OP_MOVE)
                  [1..<nat nup + 1]
             then Some (if reg \<noteq> NO_REG then pc + nup else pc, lst) else None
           else None)
      | OP_VARARG \<Rightarrow>
          (if is_vararg pt AND VARARG_ISVARARG \<noteq> 0 \<and> is_vararg pt AND VARARG_NEEDSARG = 0 \<and>
              (b - 1 = LUA_MULTRET \<longrightarrow> luaG_checkopenop (code_at pt (pc + 1))) \<and>
              checkreg pt (a + (b - 1) - 1)
           then Some (pc, lst) else None)
      | _ \<Rightarrow> Some (pc, lst))"

text \<open>One round of the loop of \<^verbatim>\<open>symbexec\<close>, but for the increment of \<open>pc\<close>.\<close>

definition symb_step :: "Proto \<Rightarrow> int \<Rightarrow> int \<Rightarrow> int \<Rightarrow> int \<Rightarrow> (int \<times> int) option" where
  "symb_step pt lastpc reg pc lst =
     (let i = code_at pt pc; a = GETARG_A i in
      case opcode_of (GET_OPCODE i) of
        None \<Rightarrow> None
      | Some ops \<Rightarrow>
          if \<not> checkreg pt a then None
          else case check_format pt pc ops i of
            None \<Rightarrow> None
          | Some (b, c) \<Rightarrow>
              (let lst' = (if testAMode ops \<and> a = reg then pc else lst) in
               if testTMode ops \<longrightarrow> pc + 2 < sizecode pt \<and> op_at pt (pc + 1) = Some OP_JMP
               then check_op pt lastpc reg ops a b c pc lst' else None))"

text \<open>The loop: \<open>None\<close> is the \<^verbatim>\<open>return 0\<close> of a failed check. \<open>pc\<close> grows in every round.\<close>

function symb_loop :: "Proto \<Rightarrow> int \<Rightarrow> int \<Rightarrow> int \<Rightarrow> int \<Rightarrow> int option" where
  "symb_loop pt lastpc reg pc lst =
     (if pc < lastpc then
        case symb_step pt lastpc reg pc lst of
          None \<Rightarrow> None
        | Some (pc', lst') \<Rightarrow> if pc' < pc then None else symb_loop pt lastpc reg (pc' + 1) lst'
      else Some lst)"
  by pat_completeness auto
termination by (relation "measure (\<lambda>(pt, lastpc, reg, pc, lst). nat (lastpc - pc))") auto

declare symb_loop.simps [simp del]

definition symbexec :: "Proto \<Rightarrow> int \<Rightarrow> int \<Rightarrow> Instruction" where
  "symbexec pt lastpc reg =
     (if \<not> precheck pt then 0
      else case symb_loop pt lastpc reg 0 (sizecode pt - 1) of
        None \<Rightarrow> 0
      | Some lst \<Rightarrow> code_at pt lst)"

definition luaG_checkcode :: "Proto \<Rightarrow> bool" where
  "luaG_checkcode pt \<longleftrightarrow> symbexec pt (sizecode pt) NO_REG \<noteq> 0"

subsection \<open>What a round of the checker establishes\<close>

lemma check_op_pc:
  assumes "check_op pt lastpc reg ops a b c pc lst = Some (pc', lst')"
  shows "pc \<le> pc'"
  using assms by (cases ops; auto simp: check_op_def Let_def split: if_splits)

lemma check_op_pc_full:
  assumes "check_op pt lastpc NO_REG ops a b c pc lst = Some (pc', lst')"
  shows "pc' = (if ops = OP_SETLIST \<and> c = 0 then pc + 1 else pc)"
  using assms by (cases ops; simp add: check_op_def Let_def split: if_splits)

lemma symb_stepE:
  assumes "symb_step pt lastpc reg pc lst = Some (pc', lst')"
  obtains ops b c lst0 where "op_at pt pc = Some ops" "checkreg pt (GETARG_A (code_at pt pc))"
    "check_format pt pc ops (code_at pt pc) = Some (b, c)"
    "testTMode ops \<longrightarrow> pc + 2 < sizecode pt \<and> op_at pt (pc + 1) = Some OP_JMP"
    "check_op pt lastpc reg ops (GETARG_A (code_at pt pc)) b c pc lst0 = Some (pc', lst')"
  using assms by (simp add: symb_step_def Let_def op_at_def split: option.splits if_splits prod.splits)

lemma symb_step_increases: "symb_step pt lastpc reg pc lst = Some (pc', lst') \<Longrightarrow> pc \<le> pc'"
  by (erule symb_stepE) (rule check_op_pc)

end
