(* ===== verification/LuaChecker.thy ===== *)
theory LuaChecker
  imports LuaProto
begin

unbundle bit_operations_syntax

section \<open>What the code checker guarantees\<close>

text \<open>
  \<open>cf_next\<close> gives the positions an instruction of the machine (\<^verbatim>\<open>luaV_execute\<close>) can
  pass control to inside its function; \<open>cf_reach\<close> is what the machine can reach from the entry.
  The checker looks at the words in order, not at the control flow, and has to tell the words that
  are instructions from the counts that follow a \<^verbatim>\<open>SETLIST\<close>. The theorem says that it
  does: everything reachable in an accepted prototype is an instruction it has checked.
\<close>

subsection \<open>Control flow of the machine\<close>

definition cf_next :: "Proto \<Rightarrow> int \<Rightarrow> int list" where
  "cf_next pt pc =
     (let i = code_at pt pc in
      case op_at pt pc of
        None \<Rightarrow> []
      | Some ops \<Rightarrow>
          (if ops = OP_LOADBOOL then [if GETARG_C i \<noteq> 0 then pc + 2 else pc + 1]
           else if ops = OP_JMP \<or> ops = OP_FORPREP then [pc + 1 + GETARG_sBx i]
           else if ops = OP_FORLOOP then [pc + 1 + GETARG_sBx i, pc + 1]
           else if ops \<in> {OP_EQ, OP_LT, OP_LE, OP_TEST, OP_TESTSET, OP_TFORLOOP}
             then [pc + 1 + GETARG_sBx (code_at pt (pc + 1)) + 1, pc + 2]
           else if ops = OP_RETURN then []
           else if ops = OP_SETLIST then [if GETARG_C i = 0 then pc + 2 else pc + 1]
           else if ops = OP_CLOSURE then [pc + 1 + uint (nups (p_p pt ! nat (GETARG_Bx i)))]
           else [pc + 1]))"

inductive cf_reach :: "Proto \<Rightarrow> int \<Rightarrow> bool" for pt where
  entry: "cf_reach pt 0"
| step: "cf_reach pt pc \<Longrightarrow> pc' \<in> set (cf_next pt pc) \<Longrightarrow> cf_reach pt pc'"

inductive_cases cf_reachE: "cf_reach pt pc"

subsection \<open>What an instruction needs\<close>

text \<open>The registers that an instruction names, those beyond its operands A, B and C first.\<close>

fun special_regs :: "OpCode \<Rightarrow> int \<Rightarrow> int \<Rightarrow> int \<Rightarrow> int set" where
  "special_regs OP_LOADNIL a b c = {a..b}"
| "special_regs OP_SELF a b c = {a + 1}"
| "special_regs OP_CONCAT a b c = {b..c}"
| "special_regs OP_FORLOOP a b c = {a..a + 3}"
| "special_regs OP_FORPREP a b c = {a..a + 3}"
| "special_regs OP_TFORLOOP a b c = {a..a + 2 + c}"
| "special_regs OP_CALL a b c = {a..a + b - 1} \<union> {a..a + c - 2}"
| "special_regs OP_TAILCALL a b c = {a..a + b - 1} \<union> {a..a + c - 2}"
| "special_regs OP_RETURN a b c = {a..a + b - 2}"
| "special_regs OP_SETLIST a b c = {a..a + b}"
| "special_regs OP_VARARG a b c = {a..a + b - 2}"
| "special_regs _ a b c = {}"

definition regs_of :: "Proto \<Rightarrow> int \<Rightarrow> int set" where
  "regs_of pt pc =
     (let i = code_at pt pc; a = GETARG_A i; b = GETARG_B i; c = GETARG_C i in
      case op_at pt pc of
        None \<Rightarrow> {}
      | Some ops \<Rightarrow>
          {a} \<union>
          (if getOpMode ops = iABC \<and> (getBMode ops = OpArgR \<or> getBMode ops = OpArgK \<and> \<not> ISK b) then {b} else {}) \<union>
          (if getOpMode ops = iABC \<and> (getCMode ops = OpArgR \<or> getCMode ops = OpArgK \<and> \<not> ISK c) then {c} else {}) \<union>
          special_regs ops a b c)"

text \<open>The constants, upvalues and prototypes it names.\<close>

definition refs_ok :: "Proto \<Rightarrow> int \<Rightarrow> bool" where
  "refs_ok pt pc \<longleftrightarrow>
     (let i = code_at pt pc; b = GETARG_B i; c = GETARG_C i; bx = GETARG_Bx i in
      case op_at pt pc of
        None \<Rightarrow> False
      | Some ops \<Rightarrow>
          (getOpMode ops = iABC \<and> getBMode ops = OpArgK \<and> ISK b \<longrightarrow> INDEXK b < sizek pt) \<and>
          (getOpMode ops = iABC \<and> getCMode ops = OpArgK \<and> ISK c \<longrightarrow> INDEXK c < sizek pt) \<and>
          (getOpMode ops = iABx \<and> getBMode ops = OpArgK \<longrightarrow> bx < sizek pt) \<and>
          (ops = OP_GETGLOBAL \<or> ops = OP_SETGLOBAL \<longrightarrow> ttype (p_k pt ! nat bx) = LUA_TSTRING) \<and>
          (ops = OP_GETUPVAL \<or> ops = OP_SETUPVAL \<longrightarrow> b < uint (nups pt)) \<and>
          (ops = OP_CLOSURE \<longrightarrow> bx < sizep pt) \<and>
          (ops = OP_CLOSURE \<longrightarrow>
            (\<forall>q. pc < q \<and> q \<le> pc + uint (nups (p_p pt ! nat bx)) \<longrightarrow> q < sizecode pt \<and>
               (op_at pt q = Some OP_GETUPVAL \<and> GETARG_B (code_at pt q) < uint (nups pt) \<or>
                op_at pt q = Some OP_MOVE \<and> GETARG_B (code_at pt q) < uint (maxstacksize pt)))))"

definition instr_ok :: "Proto \<Rightarrow> int \<Rightarrow> bool" where
  "instr_ok pt pc \<longleftrightarrow> 0 \<le> pc \<and> pc < sizecode pt \<and> refs_ok pt pc \<and>
     (\<forall>r\<in>regs_of pt pc. 0 \<le> r \<and> r < uint (maxstacksize pt))"

subsection \<open>The words the checker visits\<close>

definition next_pc :: "Proto \<Rightarrow> int \<Rightarrow> int" where
  "next_pc pt pc = (if is_setlist0 (code_at pt pc) then pc + 2 else pc + 1)"

inductive walk :: "Proto \<Rightarrow> int \<Rightarrow> int \<Rightarrow> bool" for pt where
  here: "walk pt s s"
| onward: "walk pt s pc \<Longrightarrow> pc < sizecode pt \<Longrightarrow> walk pt s (next_pc pt pc)"

abbreviation visited :: "Proto \<Rightarrow> int \<Rightarrow> bool" where "visited pt \<equiv> walk pt 0"

abbreviation checked :: "Proto \<Rightarrow> int \<Rightarrow> bool" where
  "checked pt pc \<equiv> (\<exists>lst q. symb_step pt (sizecode pt) NO_REG pc lst = Some q)"

lemma walk_ge: "walk pt s pc \<Longrightarrow> s \<le> pc"
  by (induction rule: walk.induct) (auto simp: next_pc_def)

lemma is_setlist0_code: "is_setlist0 (code_at pt pc) \<longleftrightarrow> op_at pt pc = Some OP_SETLIST \<and> GETARG_C (code_at pt pc) = 0"
  by (simp add: is_setlist0_def op_at_def)

lemma check_format_abc: "check_format pt pc ops i = Some (b, c) \<Longrightarrow> getOpMode ops = iABC \<Longrightarrow>
    b = GETARG_B i \<and> c = GETARG_C i \<and> checkArgMode pt b (getBMode ops) \<and> checkArgMode pt c (getCMode ops)"
  by (simp add: check_format_def Let_def split: if_splits)

lemma check_format_abx: "check_format pt pc ops i = Some (b, c) \<Longrightarrow> getOpMode ops = iABx \<Longrightarrow>
    b = GETARG_Bx i \<and> (getBMode ops = OpArgK \<longrightarrow> b < sizek pt)"
  by (simp add: check_format_def Let_def split: if_splits)

lemma check_format_asbx: "check_format pt pc ops i = Some (b, c) \<Longrightarrow> getOpMode ops = iAsBx \<Longrightarrow>
    b = GETARG_sBx i \<and> (getBMode ops = OpArgR \<longrightarrow> 0 \<le> pc + 1 + b \<and> pc + 1 + b < sizecode pt \<and>
      (pc + 1 + b > 0 \<longrightarrow> even (setlist_run pt (pc + 1 + b) 0)))"
  by (simp add: check_format_def Let_def split: if_splits)

lemma symb_step_next:
  assumes "symb_step pt lastpc NO_REG pc lst = Some (pc', lst')"
  shows "pc' + 1 = next_pc pt pc"
  using assms
proof (rule symb_stepE)
  fix ops b c lst0
  assume o: "op_at pt pc = Some ops"
    and f: "check_format pt pc ops (code_at pt pc) = Some (b, c)"
    and ck: "check_op pt lastpc NO_REG ops (GETARG_A (code_at pt pc)) b c pc lst0 = Some (pc', lst')"
  have "ops = OP_SETLIST \<Longrightarrow> c = GETARG_C (code_at pt pc)"
    using check_format_abc [OF f] by (simp add: getOpMode_def)
  then show ?thesis using o check_op_pc_full [OF ck] by (auto simp: next_pc_def is_setlist0_code)
qed

lemma symb_loop_walk:
  assumes "symb_loop pt (sizecode pt) NO_REG s lst = Some r" "walk pt s pc"
  shows "\<exists>l. symb_loop pt (sizecode pt) NO_REG pc l = Some r"
  using assms(2,1)
proof (induction rule: walk.induct)
  case (here s)
  then show ?case by blast
next
  case (onward s pc)
  then obtain l where l: "symb_loop pt (sizecode pt) NO_REG pc l = Some r" by blast
  then obtain p1 l1 where st: "symb_step pt (sizecode pt) NO_REG pc l = Some (p1, l1)"
      and r: "symb_loop pt (sizecode pt) NO_REG (p1 + 1) l1 = Some r"
    using \<open>pc < sizecode pt\<close>
    by (subst (asm) symb_loop.simps) (auto split: option.splits if_splits)
  then show ?case using symb_step_next [OF st] by auto
qed

lemma accepted_visited:
  assumes "luaG_checkcode pt" "visited pt pc" "pc < sizecode pt"
  shows "checked pt pc"
proof -
  obtain r where "symb_loop pt (sizecode pt) NO_REG 0 (sizecode pt - 1) = Some r"
    using assms(1) by (auto simp: luaG_checkcode_def symbexec_def split: if_splits option.splits)
  from symb_loop_walk [OF this assms(2)] obtain l where
    "symb_loop pt (sizecode pt) NO_REG pc l = Some r" by blast
  then show ?thesis using assms(3)
    by (subst (asm) symb_loop.simps) (auto split: option.splits)
qed

subsection \<open>Telling instructions from counts\<close>

lemma setlist_run_spec:
  assumes "j \<le> dest"
  shows "j \<le> setlist_run pt dest j \<and> setlist_run pt dest j \<le> dest \<and>
    (\<forall>k. j \<le> k \<and> k < setlist_run pt dest j \<longrightarrow> is_setlist0 (code_at pt (dest - 1 - k))) \<and>
    (setlist_run pt dest j < dest \<longrightarrow> \<not> is_setlist0 (code_at pt (dest - 1 - setlist_run pt dest j)))"
  using assms
proof (induction pt dest j rule: setlist_run.induct)
  case (1 pt dest j)
  show ?case
  proof (cases "j < dest \<and> is_setlist0 (code_at pt (dest - 1 - j))")
    case True
    then have e: "setlist_run pt dest j = setlist_run pt dest (j + 1)" by (subst setlist_run.simps) simp
    have "is_setlist0 (code_at pt (dest - 1 - k))" if "j \<le> k" "k < setlist_run pt dest (j + 1)" for k
      using 1(1) True that by (cases "k = j") auto
    then show ?thesis using 1(1) True unfolding e by auto
  next
    case False
    then have "setlist_run pt dest j = j" by (subst setlist_run.simps) auto
    then show ?thesis using False 1(2) by auto
  qed
qed

lemma visited_or_data:
  assumes "int n \<le> sizecode pt"
  shows "visited pt (int n) \<or> n > 0 \<and> visited pt (int n - 1) \<and> is_setlist0 (code_at pt (int n - 1))"
  using assms
proof (induction n)
  case 0
  then show ?case by (simp add: walk.here)
next
  case (Suc n)
  then have IH: "visited pt (int n) \<or> n > 0 \<and> visited pt (int n - 1) \<and> is_setlist0 (code_at pt (int n - 1))" by simp
  show ?case
  proof (cases "visited pt (int n)")
    case True
    then have "visited pt (next_pc pt (int n))" using Suc.prems by (intro walk.onward) auto
    then show ?thesis using True by (simp add: next_pc_def add.commute split: if_splits)
  next
    case False
    then have "visited pt (next_pc pt (int n - 1))" using IH Suc.prems by (intro walk.onward) auto
    then show ?thesis using False IH by (simp add: next_pc_def)
  qed
qed

lemma visited_after_nonsetlist:
  assumes "0 < p" "p \<le> sizecode pt" "\<not> is_setlist0 (code_at pt (p - 1))"
  shows "visited pt p"
  using visited_or_data [of "nat p" pt] assms by auto

lemma even_run_visited:
  assumes "0 < dest" "dest < sizecode pt" "even (setlist_run pt dest 0)"
  shows "visited pt dest"
proof -
  define r where "r = setlist_run pt dest 0"
  have sp: "0 \<le> r" "r \<le> dest" "\<And>k. 0 \<le> k \<Longrightarrow> k < r \<Longrightarrow> is_setlist0 (code_at pt (dest - 1 - k))"
    "r < dest \<Longrightarrow> \<not> is_setlist0 (code_at pt (dest - 1 - r))"
    using setlist_run_spec [of 0 dest pt] assms(1) by (auto simp: r_def)
  have s: "visited pt (dest - r)"
  proof (cases "r = dest")
    case False
    then show ?thesis using sp assms visited_after_nonsetlist [of "dest - r" pt] by (simp add: algebra_simps)
  qed (simp add: walk.here)
  have "2 * int m \<le> r \<Longrightarrow> visited pt (dest - r + 2 * int m)" for m
  proof (induction m)
    case (Suc m)
    let ?q = "dest - r + 2 * int m"
    have "visited pt ?q" using Suc by simp
    moreover have "is_setlist0 (code_at pt ?q)" using sp(3) [of "r - 1 - 2 * int m"] Suc.prems by (simp add: algebra_simps)
    ultimately have "visited pt (next_pc pt ?q)" using Suc.prems assms(2) by (intro walk.onward) auto
    then show ?case using \<open>is_setlist0 (code_at pt ?q)\<close> by (simp add: next_pc_def algebra_simps)
  qed (use s in simp)
  moreover obtain m where "r = 2 * int m" using assms(3) sp(1) r_def by (metis evenE nonneg_int_cases zero_le_mult_iff not_numeral_le_zero)
  ultimately show ?thesis by (metis diff_add_cancel order_refl)
qed

lemma jump_target_visited:
  assumes "checked pt pc" "op_at pt pc = Some ops" "ops = OP_JMP \<or> ops = OP_FORLOOP \<or> ops = OP_FORPREP"
  defines "d \<equiv> pc + 1 + GETARG_sBx (code_at pt pc)"
  shows "0 \<le> d \<and> d < sizecode pt \<and> visited pt d"
proof -
  obtain lst p l where st: "symb_step pt (sizecode pt) NO_REG pc lst = Some (p, l)" using assms(1) by auto
  obtain b c where f: "check_format pt pc ops (code_at pt pc) = Some (b, c)"
    using symb_stepE [OF st] assms(2) by (metis option.inject)
  have "getOpMode ops = iAsBx" "getBMode ops = OpArgR" using assms(3) by (auto simp: getOpMode_def getBMode_def)
  from check_format_asbx [OF f this(1)] this(2) have
    "0 \<le> d" "d < sizecode pt" "d > 0 \<longrightarrow> even (setlist_run pt d 0)" by (auto simp: d_def)
  then show ?thesis using even_run_visited [of d pt] by (cases "d = 0") (auto simp: walk.here)
qed

subsection \<open>Control stays on checked instructions\<close>

definition loadbool_ok :: "Proto \<Rightarrow> bool" where
  "loadbool_ok pt \<longleftrightarrow> list_all (\<lambda>i. opcode_of (GET_OPCODE i) = Some OP_LOADBOOL \<longrightarrow> GETARG_C i \<le> 1) (p_code pt)"

lemma checked_op:
  assumes "checked pt pc"
  obtains ops b c lst p l where "op_at pt pc = Some ops" "checkreg pt (GETARG_A (code_at pt pc))"
    "check_format pt pc ops (code_at pt pc) = Some (b, c)"
    "testTMode ops \<longrightarrow> pc + 2 < sizecode pt \<and> op_at pt (pc + 1) = Some OP_JMP"
    "check_op pt (sizecode pt) NO_REG ops (GETARG_A (code_at pt pc)) b c pc lst = Some (p, l)"
  using assms by (auto elim: symb_stepE)

lemma accepted_last: "luaG_checkcode pt \<Longrightarrow> op_at pt (sizecode pt - 1) = Some OP_RETURN \<and> 0 < sizecode pt"
  by (auto simp: luaG_checkcode_def symbexec_def precheck_def split: if_splits)

lemma not_return_inside:
  assumes "luaG_checkcode pt" "pc < sizecode pt" "op_at pt pc \<noteq> Some OP_RETURN"
  shows "pc + 1 < sizecode pt"
  using accepted_last [OF assms(1)] assms(2,3) by (cases "pc = sizecode pt - 1") auto

lemma visited_Suc: "visited pt pc \<Longrightarrow> pc < sizecode pt \<Longrightarrow> \<not> is_setlist0 (code_at pt pc) \<Longrightarrow> visited pt (pc + 1)"
  by (drule (1) walk.onward) (simp add: next_pc_def)

lemma test_next_ok:
  assumes acc: "luaG_checkcode pt" and v: "visited pt pc" "pc < sizecode pt" and o: "op_at pt pc = Some ops"
    and t: "testTMode ops" and q: "q = pc + 1 + GETARG_sBx (code_at pt (pc + 1)) + 1 \<or> q = pc + 2"
  shows "0 \<le> q \<and> q < sizecode pt \<and> visited pt q"
proof -
  have ge: "0 \<le> pc" using walk_ge [OF v(1)] .
  have j: "pc + 2 < sizecode pt" "op_at pt (pc + 1) = Some OP_JMP"
    using checked_op [OF accepted_visited [OF acc v]] o t by (metis option.inject)+
  have "\<not> is_setlist0 (code_at pt pc)" using o t by (auto simp: is_setlist0_code testTMode_def)
  then have v1: "visited pt (pc + 1)" by (rule visited_Suc [OF v])
  have "\<not> is_setlist0 (code_at pt (pc + 1))" using j by (simp add: is_setlist0_code)
  then have v2: "visited pt (pc + 2)" using visited_Suc [OF v1] j by (simp add: add.assoc)
  have "checked pt (pc + 1)" using accepted_visited [OF acc v1] j by simp
  from jump_target_visited [OF this j(2)] v2 j(1) ge q show ?thesis by (auto simp: algebra_simps)
qed

lemma closure_words:
  assumes acc: "luaG_checkcode pt" and v: "visited pt pc" "pc < sizecode pt" and o: "op_at pt pc = Some OP_CLOSURE"
  defines "nup \<equiv> uint (nups (p_p pt ! nat (GETARG_Bx (code_at pt pc))))"
  shows "pc + nup < sizecode pt \<and> GETARG_Bx (code_at pt pc) < sizep pt \<and>
    (\<forall>j. 1 \<le> j \<and> j \<le> nup \<longrightarrow> op_at pt (pc + j) = Some OP_GETUPVAL \<or> op_at pt (pc + j) = Some OP_MOVE)"
proof -
  from checked_op [OF accepted_visited [OF acc v]] o obtain b c lst p l where
    f: "check_format pt pc OP_CLOSURE (code_at pt pc) = Some (b, c)"
    and ck: "check_op pt (sizecode pt) NO_REG OP_CLOSURE (GETARG_A (code_at pt pc)) b c pc lst = Some (p, l)"
    by (metis option.inject)
  have b: "b = GETARG_Bx (code_at pt pc)" using check_format_abx [OF f] by (simp add: getOpMode_def)
  have *: "pc + nup < sizecode pt" "b < sizep pt"
    "list_all (\<lambda>j. op_at pt (pc + int j) = Some OP_GETUPVAL \<or> op_at pt (pc + int j) = Some OP_MOVE) [1..<nat nup + 1]"
    using ck unfolding check_op_def nup_def b Let_def by (simp_all split: if_splits)
  have "op_at pt (pc + j) = Some OP_GETUPVAL \<or> op_at pt (pc + j) = Some OP_MOVE" if "1 \<le> j" "j \<le> nup" for j
  proof -
    have "nat j \<in> set [1..<nat nup + 1]" "int (nat j) = j" using that by (auto simp: nat_le_iff nat_mono)
    with bspec [OF *(3) [unfolded list_all_iff] this(1)] show ?thesis by simp
  qed
  then show ?thesis using * b by simp
qed

lemma closure_visited:
  assumes acc: "luaG_checkcode pt" and v: "visited pt pc" "pc < sizecode pt" and o: "op_at pt pc = Some OP_CLOSURE"
  shows "int n \<le> uint (nups (p_p pt ! nat (GETARG_Bx (code_at pt pc)))) \<Longrightarrow> visited pt (pc + int n) \<and>
    pc + int n + 1 < sizecode pt \<and> visited pt (pc + int n + 1)"
proof (induction n)
  case 0
  have "\<not> is_setlist0 (code_at pt pc)" using o by (simp add: is_setlist0_code)
  then show ?case using not_return_inside [OF acc v(2)] visited_Suc [OF v] v o by simp
next
  case (Suc n)
  note w = closure_words [OF acc v o]
  have v': "visited pt (pc + int (Suc n))" using Suc by (simp add: algebra_simps)
  have l: "pc + int (Suc n) < sizecode pt" using w Suc.prems by linarith
  have op: "op_at pt (pc + int (Suc n)) = Some OP_GETUPVAL \<or> op_at pt (pc + int (Suc n)) = Some OP_MOVE"
    using w Suc.prems by (metis le_add1 of_nat_1 of_nat_mono plus_1_eq_Suc)
  have "\<not> is_setlist0 (code_at pt (pc + int (Suc n)))" using op by (auto simp: is_setlist0_code)
  from visited_Suc [OF v' l this] not_return_inside [OF acc l] op v' show ?case by auto
qed

abbreviation at_instr :: "Proto \<Rightarrow> int \<Rightarrow> bool" where
  "at_instr pt pc \<equiv> 0 \<le> pc \<and> pc < sizecode pt \<and> visited pt pc"

lemma loadbool_next_ok:
  assumes acc: "luaG_checkcode pt" and lb: "loadbool_ok pt" and i: "at_instr pt pc"
    and o: "op_at pt pc = Some OP_LOADBOOL" and c: "GETARG_C (code_at pt pc) \<noteq> 0"
  shows "at_instr pt (pc + 2)"
proof -
  have v: "visited pt pc" "pc < sizecode pt" using i by auto
  have "code_at pt pc \<in> set (p_code pt)" using i by (auto simp: code_at_def intro!: nth_mem)
  then have "GETARG_C (code_at pt pc) \<le> 1" using lb o by (auto simp: loadbool_ok_def list_all_iff op_at_def)
  then have c1: "GETARG_C (code_at pt pc) = 1" using c arg_ranges(5) [of "code_at pt pc"] by linarith
  from checked_op [OF accepted_visited [OF acc v]] o obtain b c lst p l where
    f: "check_format pt pc OP_LOADBOOL (code_at pt pc) = Some (b, c)"
    and ck: "check_op pt (sizecode pt) NO_REG OP_LOADBOOL (GETARG_A (code_at pt pc)) b c pc lst = Some (p, l)"
    by (metis option.inject)
  have "c = 1" using check_format_abc [OF f] c1 by (simp add: getOpMode_def)
  then have k: "pc + 2 < sizecode pt" "\<not> is_setlist0 (code_at pt (pc + 1))"
    using ck by (auto simp: check_op_def is_setlist0_code split: if_splits)
  have "\<not> is_setlist0 (code_at pt pc)" using o by (simp add: is_setlist0_code)
  from visited_Suc [OF visited_Suc [OF v this]] k i show ?thesis by (simp add: add.assoc)
qed

lemma setlist_next_ok:
  assumes acc: "luaG_checkcode pt" and i: "at_instr pt pc"
    and o: "op_at pt pc = Some OP_SETLIST" and c: "GETARG_C (code_at pt pc) = 0"
  shows "at_instr pt (pc + 2)"
proof -
  have v: "visited pt pc" "pc < sizecode pt" using i by auto
  from checked_op [OF accepted_visited [OF acc v]] o obtain b c lst p l where
    f: "check_format pt pc OP_SETLIST (code_at pt pc) = Some (b, c)"
    and ck: "check_op pt (sizecode pt) NO_REG OP_SETLIST (GETARG_A (code_at pt pc)) b c pc lst = Some (p, l)"
    by (metis option.inject)
  have "c = 0" using check_format_abc [OF f] c by (simp add: getOpMode_def)
  then have k: "pc + 2 < sizecode pt" using ck by (auto simp: check_op_def split: if_splits)
  from walk.onward [OF v] k i o c show ?thesis by (simp add: next_pc_def is_setlist0_code)
qed

lemma plain_next_ok:
  assumes acc: "luaG_checkcode pt" and i: "at_instr pt pc" and o: "op_at pt pc \<noteq> Some OP_RETURN"
    "\<not> is_setlist0 (code_at pt pc)"
  shows "at_instr pt (pc + 1)"
  using not_return_inside [OF acc _ o(1)] visited_Suc [OF _ _ o(2)] i by auto

lemma cf_next_ok:
  assumes acc: "luaG_checkcode pt" and lb: "loadbool_ok pt" and i: "at_instr pt pc" and q: "q \<in> set (cf_next pt pc)"
  shows "at_instr pt q"
proof -
  have v: "visited pt pc" "pc < sizecode pt" using i by auto
  obtain ops where o: "op_at pt pc = Some ops" using q by (cases "op_at pt pc") (simp_all add: cf_next_def)
  consider "ops = OP_LOADBOOL" "GETARG_C (code_at pt pc) \<noteq> 0" "q = pc + 2"
    | "ops = OP_JMP \<or> ops = OP_FORLOOP \<or> ops = OP_FORPREP" "q = pc + 1 + GETARG_sBx (code_at pt pc)"
    | "testTMode ops" "q = pc + 1 + GETARG_sBx (code_at pt (pc + 1)) + 1 \<or> q = pc + 2"
    | "ops = OP_SETLIST" "GETARG_C (code_at pt pc) = 0" "q = pc + 2"
    | "ops = OP_CLOSURE" "q = pc + 1 + uint (nups (p_p pt ! nat (GETARG_Bx (code_at pt pc))))"
    | "ops \<noteq> OP_RETURN" "\<not> is_setlist0 (code_at pt pc)" "q = pc + 1"
    using q o by (auto simp: cf_next_def Let_def is_setlist0_code testTMode_def split: if_splits)
  then show ?thesis
  proof cases
    case 1
    then show ?thesis using loadbool_next_ok [OF acc lb i] o by simp
  next
    case 2
    show ?thesis using jump_target_visited [OF accepted_visited [OF acc v] o 2(1)] 2(2) by simp
  next
    case 3
    then show ?thesis using test_next_ok [OF acc v o] by blast
  next
    case 4
    then show ?thesis using setlist_next_ok [OF acc i] o by simp
  next
    case 5
    let ?nup = "uint (nups (p_p pt ! nat (GETARG_Bx (code_at pt pc))))"
    have "int (nat ?nup) = ?nup" by simp
    then show ?thesis using closure_visited [OF acc v, of "nat ?nup"] o 5 i by (simp add: algebra_simps)
  next
    case 6
    then show ?thesis using plain_next_ok [OF acc i] o by simp
  qed
qed

lemma cf_reach_instr:
  assumes "luaG_checkcode pt" "loadbool_ok pt" "cf_reach pt pc"
  shows "at_instr pt pc"
  using assms(3)
proof induction
  case entry
  then show ?case using accepted_last [OF assms(1)] by (simp add: walk.here)
next
  case (step pc q)
  then show ?case using cf_next_ok [OF assms(1,2)] by blast
qed

subsection \<open>Operands exist\<close>

lemma checkArgMode_reg: "checkArgMode pt r m \<Longrightarrow> m = OpArgR \<or> m = OpArgK \<and> \<not> ISK r \<Longrightarrow> r < uint (maxstacksize pt)"
  by (auto simp: checkArgMode_def checkreg_def split: if_splits)

lemma checkArgMode_const: "checkArgMode pt r OpArgK \<Longrightarrow> ISK r \<Longrightarrow> INDEXK r < sizek pt"
  by (simp add: checkArgMode_def)

lemma checked_special_regs:
  assumes "check_op pt lastpc NO_REG ops a b c pc lst = Some (p, l)" "a < uint (maxstacksize pt)" "0 \<le> a"
    "ops = OP_LOADNIL \<or> ops = OP_CONCAT \<longrightarrow> b < uint (maxstacksize pt)"
    "ops = OP_CONCAT \<longrightarrow> 0 \<le> b \<and> c < uint (maxstacksize pt)"
  shows "special_regs ops a b c
    \<subseteq> {0..<uint (maxstacksize pt)}"
  using assms by (cases ops; auto simp: check_op_def checkreg_def LUA_MULTRET_def split: if_splits)

lemma checked_regs:
  assumes "checked pt pc" "r \<in> regs_of pt pc"
  shows "0 \<le> r \<and> r < uint (maxstacksize pt)"
proof -
  let ?i = "code_at pt pc"
  obtain ops b c lst p l where o: "op_at pt pc = Some ops" and a: "checkreg pt (GETARG_A ?i)"
    and f: "check_format pt pc ops ?i = Some (b, c)"
    and ck: "check_op pt (sizecode pt) NO_REG ops (GETARG_A ?i) b c pc lst = Some (p, l)"
    using checked_op [OF assms(1)] by metis
  have abc: "b = GETARG_B ?i \<and> c = GETARG_C ?i \<and> checkArgMode pt b (getBMode ops) \<and> checkArgMode pt c (getCMode ops)"
    if "getOpMode ops = iABC" using check_format_abc [OF f that] .
  have sp: "special_regs ops (GETARG_A ?i) b c = special_regs ops (GETARG_A ?i) (GETARG_B ?i) (GETARG_C ?i)"
    using abc by (cases ops) (simp_all add: getOpMode_def)
  have m: "ops = OP_LOADNIL \<or> ops = OP_CONCAT \<longrightarrow> b < uint (maxstacksize pt)"
    "ops = OP_CONCAT \<longrightarrow> 0 \<le> b \<and> c < uint (maxstacksize pt)"
    using abc arg_ranges(3) [of ?i] by (auto simp: getOpMode_def getBMode_def getCMode_def checkArgMode_def checkreg_def)
  have a': "GETARG_A ?i < uint (maxstacksize pt)" "0 \<le> GETARG_A ?i"
    using a arg_ranges(1) [of ?i] by (auto simp: checkreg_def)
  note set = checked_special_regs [OF ck a' m]
  consider "r = GETARG_A ?i"
    | "getOpMode ops = iABC" "getBMode ops = OpArgR \<or> getBMode ops = OpArgK \<and> \<not> ISK (GETARG_B ?i)" "r = GETARG_B ?i"
    | "getOpMode ops = iABC" "getCMode ops = OpArgR \<or> getCMode ops = OpArgK \<and> \<not> ISK (GETARG_C ?i)" "r = GETARG_C ?i"
    | "r \<in> {0..<uint (maxstacksize pt)}"
    using assms(2) set unfolding sp regs_of_def Let_def o option.case by (auto split: if_splits)
  then show ?thesis
  proof cases
    case 2
    then show ?thesis using abc checkArgMode_reg arg_ranges(3) [of ?i] by blast
  next
    case 3
    then show ?thesis using abc checkArgMode_reg arg_ranges(5) [of ?i] by blast
  qed (use a' in auto)
qed

lemma checked_upval:
  assumes "checked pt q" "op_at pt q = Some OP_GETUPVAL \<or> op_at pt q = Some OP_SETUPVAL"
  shows "GETARG_B (code_at pt q) < uint (nups pt)"
  using assms(1)
proof (rule checked_op)
  fix uop b c lst p l
  assume u: "op_at pt q = Some uop" and f: "check_format pt q uop (code_at pt q) = Some (b, c)"
    and ck: "check_op pt (sizecode pt) NO_REG uop (GETARG_A (code_at pt q)) b c q lst = Some (p, l)"
  show "GETARG_B (code_at pt q) < uint (nups pt)"
  proof -
    have "uop = OP_GETUPVAL \<or> uop = OP_SETUPVAL" using assms(2) u by auto
    then show ?thesis using check_format_abc [OF f] ck
      by (elim disjE) (simp_all add: check_op_def getOpMode_def split: if_splits)
  qed
qed

lemma checked_refs:
  assumes acc: "luaG_checkcode pt" and i: "at_instr pt pc"
  shows "refs_ok pt pc"
proof -
  let ?i = "code_at pt pc"
  have v: "visited pt pc" "pc < sizecode pt" using i by auto
  obtain ops b c lst p l where o: "op_at pt pc = Some ops"
    and f: "check_format pt pc ops ?i = Some (b, c)"
    and ck: "check_op pt (sizecode pt) NO_REG ops (GETARG_A ?i) b c pc lst = Some (p, l)"
    by (rule checked_op [OF accepted_visited [OF acc v]]) (rule that; assumption)
  have abc: "b = GETARG_B ?i \<and> c = GETARG_C ?i \<and> checkArgMode pt b (getBMode ops) \<and> checkArgMode pt c (getCMode ops)"
    if "getOpMode ops = iABC" using check_format_abc [OF f that] .
  have abx: "b = GETARG_Bx ?i \<and> (getBMode ops = OpArgK \<longrightarrow> b < sizek pt)" if "getOpMode ops = iABx"
    using check_format_abx [OF f that] .
  have glob: "ops = OP_GETGLOBAL \<or> ops = OP_SETGLOBAL \<longrightarrow> ttype (p_k pt ! nat (GETARG_Bx ?i)) = LUA_TSTRING"
  proof
    assume "ops = OP_GETGLOBAL \<or> ops = OP_SETGLOBAL"
    then show "ttype (p_k pt ! nat (GETARG_Bx ?i)) = LUA_TSTRING"
      using ck abx by (elim disjE) (simp_all add: check_op_def getOpMode_def split: if_splits)
  qed
  have upv: "GETARG_B (code_at pt q) < uint (nups pt)"
    if "at_instr pt q" "op_at pt q = Some OP_GETUPVAL \<or> op_at pt q = Some OP_SETUPVAL" for q
    using checked_upval [OF accepted_visited [OF acc] that(2)] that(1) by blast
  have clo: "\<forall>q. pc < q \<and> q \<le> pc + uint (nups (p_p pt ! nat (GETARG_Bx ?i))) \<longrightarrow> q < sizecode pt \<and>
      (op_at pt q = Some OP_GETUPVAL \<and> GETARG_B (code_at pt q) < uint (nups pt) \<or>
       op_at pt q = Some OP_MOVE \<and> GETARG_B (code_at pt q) < uint (maxstacksize pt))"
    if c: "ops = OP_CLOSURE"
  proof (intro allI impI)
    fix q assume q: "pc < q \<and> q \<le> pc + uint (nups (p_p pt ! nat (GETARG_Bx ?i)))"
    have q': "pc + int (nat (q - pc)) = q" using q by simp
    have w: "visited pt q" "q < sizecode pt" "op_at pt q = Some OP_GETUPVAL \<or> op_at pt q = Some OP_MOVE"
      using closure_visited [OF acc v, of "nat (q - pc)"] closure_words [OF acc v] o c q unfolding q'
      by (auto dest: spec [where x = "q - pc"])
    have "GETARG_B (code_at pt q) < uint (maxstacksize pt)" if "op_at pt q = Some OP_MOVE"
      using checked_regs [OF accepted_visited [OF acc w(1,2)], of "GETARG_B (code_at pt q)"] that
      by (simp add: regs_of_def Let_def getOpMode_def getBMode_def)
    then show "q < sizecode pt \<and> (op_at pt q = Some OP_GETUPVAL \<and> GETARG_B (code_at pt q) < uint (nups pt) \<or>
       op_at pt q = Some OP_MOVE \<and> GETARG_B (code_at pt q) < uint (maxstacksize pt))"
      using w upv [of q] i q by auto
  qed
  have "ops = OP_CLOSURE \<longrightarrow> GETARG_Bx ?i < sizep pt" using closure_words [OF acc v] o by simp
  then show ?thesis
    unfolding refs_ok_def Let_def o option.case
    using glob abc abx upv [OF i] o clo by (auto intro: checkArgMode_const)
qed

lemma reach_instr_ok:
  assumes "luaG_checkcode p" "loadbool_ok p" "cf_reach p pc"
  shows "instr_ok p pc"
  using cf_reach_instr [OF assms] checked_refs [OF assms(1)] accepted_visited [OF assms(1)] checked_regs
  unfolding instr_ok_def by blast

text \<open>
  C13: the guarantee of the code checker. In a prototype that \<^verbatim>\<open>luaG_checkcode\<close> accepts,
  every position that the machine can reach from the entry, by jumps, tests, skips and the words that
  \<^verbatim>\<open>SETLIST\<close> and \<^verbatim>\<open>CLOSURE\<close> consume, is an instruction inside the
  code; the registers it names are inside the frame, its constants, upvalues and prototypes exist, and the
  words that follow a \<^verbatim>\<open>CLOSURE\<close> are moves or upvalue reads. In particular control never
  falls off the end and never lands on the count of a \<^verbatim>\<open>SETLIST\<close>. The hypothesis
  \<open>loadbool_ok\<close> excludes the one hole of the checker.
\<close>

theorem luaG_checkcode_sound:
  assumes "luaG_checkcode pt" "loadbool_ok pt" "cf_reach pt pc"
  shows "instr_ok pt pc"
  by (rule reach_instr_ok [OF assms])

definition proto_of :: "Instruction list \<Rightarrow> Proto" where
  "proto_of code = Proto None 0 0 0 0 0 2 code [] [] [] [] []"

text \<open>LOADBOOL with a skip, a jump, and a return.\<close>

lemma sample_checked:
  "luaG_checkcode (proto_of [8404994, 2147467286, 8388638])" "loadbool_ok (proto_of [8404994, 2147467286, 8388638])"
  by code_simp+

theorem luaG_checkcode_sound_witness: "instr_ok (proto_of [8404994, 2147467286, 8388638]) 2"
proof (rule luaG_checkcode_sound)
  show "luaG_checkcode (proto_of [8404994, 2147467286, 8388638])" by (rule sample_checked)
  show "loadbool_ok (proto_of [8404994, 2147467286, 8388638])" by (rule sample_checked)
  have "cf_next (proto_of [8404994, 2147467286, 8388638]) 0 = [2]" by code_simp
  then show "cf_reach (proto_of [8404994, 2147467286, 8388638]) 2"
    by (intro cf_reach.step [OF cf_reach.entry]) simp
qed

text \<open>
  C14: the hole of the checker. It looks for the skip of \<^verbatim>\<open>LOADBOOL\<close> only when C is 1,
  while the machine skips whenever C is not 0: the two instructions \<^verbatim>\<open>LOADBOOL 0 1 2\<close>
  and \<^verbatim>\<open>RETURN 0 1\<close> are accepted, and the machine runs past the end of the code.
\<close>

theorem luaG_checkcode_hole:
  "luaG_checkcode (proto_of [8421378, 8388638]) \<and> cf_reach (proto_of [8421378, 8388638]) 2 \<and>
   \<not> instr_ok (proto_of [8421378, 8388638]) 2"
proof -
  have a: "luaG_checkcode (proto_of [8421378, 8388638])" by code_simp
  have "cf_next (proto_of [8421378, 8388638]) 0 = [2]" by code_simp
  then have b: "cf_reach (proto_of [8421378, 8388638]) 2"
    by (intro cf_reach.step [OF cf_reach.entry]) simp
  have "\<not> instr_ok (proto_of [8421378, 8388638]) 2" by (simp add: instr_ok_def proto_of_def)
  with a b show ?thesis by blast
qed

end
