(* ===== verification/LuaDump.thy ===== *)
theory LuaDump
  imports LuaProto
begin

section \<open>Saving precompiled chunks\<close>

text \<open>
  The functions of \<^verbatim>\<open>ldump.c\<close> on a machine with 4-byte integers and instructions and
  8-byte sizes and numbers, least significant byte first. The writer is a parameter: it takes its own
  data and a block and gives its status and its new data. \<open>dump_bytes\<close> says what is written;
  the locale \<open>byte_writer\<close> is the contract under which it arrives.
\<close>

subsection \<open>Bytes of machine values\<close>

primrec le_bytes :: "nat \<Rightarrow> int \<Rightarrow> string" where
  "le_bytes 0 x = []"
| "le_bytes (Suc k) x = char_of (x mod 256) # le_bytes k (x div 256)"

primrec le_val :: "string \<Rightarrow> int" where
  "le_val [] = 0"
| "le_val (c # s) = of_char c + 256 * le_val s"

lemma length_le_bytes [simp]: "length (le_bytes k x) = k"
  by (induction k arbitrary: x) auto

lemma le_val_bytes: "le_val (le_bytes k x) = x mod 256 ^ k"
proof (induction k arbitrary: x)
  case (Suc k)
  have "of_char (char_of (x mod 256) :: char) = x mod 256" by (simp add: of_char_of)
  then show ?case using Suc by (simp add: zmod_zmult2_eq)
qed simp

declare le_bytes.simps(2) [simp del]

subsection \<open>Header\<close>

definition LUA_SIGNATURE :: string where "LUA_SIGNATURE = CHR 0x1B # ''Lua''"
definition LUAC_VERSION :: int where "LUAC_VERSION = 0x51"
definition LUAC_FORMAT :: int where "LUAC_FORMAT = 0"
definition LUAC_HEADERSIZE :: nat where "LUAC_HEADERSIZE = 12"

definition luaU_header :: string where
  "luaU_header = LUA_SIGNATURE @ le_bytes 1 LUAC_VERSION @ le_bytes 1 LUAC_FORMAT @
     le_bytes 1 1 @ le_bytes 1 4 @ le_bytes 1 8 @ le_bytes 1 4 @ le_bytes 1 8 @ le_bytes 1 0"

subsection \<open>Dumping\<close>

type_synonym 'w lua_Writer = "'w \<Rightarrow> string \<Rightarrow> int \<times> 'w"

record 'w DumpState =
  writer :: "'w lua_Writer"
  ddata :: 'w
  strip :: bool
  status :: int

definition DumpBlock :: "string \<Rightarrow> 'w DumpState \<Rightarrow> 'w DumpState" where
  "DumpBlock b D =
     (if status D = 0 then
        (let (st, d) = writer D (ddata D) b in D\<lparr>status := st, ddata := d\<rparr>)
      else D)"

definition DumpChar :: "int \<Rightarrow> 'w DumpState \<Rightarrow> 'w DumpState" where
  "DumpChar y D = DumpBlock (le_bytes 1 y) D"

definition DumpInt :: "int \<Rightarrow> 'w DumpState \<Rightarrow> 'w DumpState" where
  "DumpInt x D = DumpBlock (le_bytes 4 x) D"

definition DumpNumber :: "lua_Number \<Rightarrow> 'w DumpState \<Rightarrow> 'w DumpState" where
  "DumpNumber x D = DumpBlock (le_bytes 8 (uint x)) D"

text \<open>\<open>b\<close> is the memory of the \<open>n\<close> elements.\<close>

definition DumpVector :: "string \<Rightarrow> nat \<Rightarrow> 'w DumpState \<Rightarrow> 'w DumpState" where
  "DumpVector b n D = DumpBlock b (DumpInt (int n) D)"

definition DumpString :: "string option \<Rightarrow> 'w DumpState \<Rightarrow> 'w DumpState" where
  "DumpString s D =
     (case s of
        None \<Rightarrow> DumpBlock (le_bytes 8 0) D
      | Some s \<Rightarrow> DumpBlock (s @ [NUL]) (DumpBlock (le_bytes 8 (int (length s) + 1)) D))"

definition code_bytes :: "Instruction list \<Rightarrow> string" where
  "code_bytes is = concat (map (\<lambda>i. le_bytes 4 (uint i)) is)"

definition int_bytes :: "int list \<Rightarrow> string" where
  "int_bytes xs = concat (map (le_bytes 4) xs)"

definition DumpCode :: "Proto \<Rightarrow> 'w DumpState \<Rightarrow> 'w DumpState" where
  "DumpCode f D = DumpVector (code_bytes (p_code f)) (length (p_code f)) D"

fun tag_code :: "ttag \<Rightarrow> int" where
  "tag_code LUA_TNIL = 0"
| "tag_code LUA_TBOOLEAN = 1"
| "tag_code LUA_TLIGHTUSERDATA = 2"
| "tag_code LUA_TNUMBER = 3"
| "tag_code LUA_TSTRING = 4"
| "tag_code LUA_TTABLE = 5"
| "tag_code LUA_TFUNCTION = 6"
| "tag_code LUA_TUSERDATA = 7"
| "tag_code LUA_TTHREAD = 8"

definition DumpConstant :: "tvalue \<Rightarrow> 'w DumpState \<Rightarrow> 'w DumpState" where
  "DumpConstant v D =
     (let D' = DumpChar (tag_code (ttype v)) D in
      case v of
        Boolean b \<Rightarrow> DumpChar (of_bool b) D'
      | Number x \<Rightarrow> DumpNumber x D'
      | String s \<Rightarrow> DumpString (Some s) D'
      | _ \<Rightarrow> D')"

definition DumpLocVar :: "LocVar \<Rightarrow> 'w DumpState \<Rightarrow> 'w DumpState" where
  "DumpLocVar v D = DumpInt (endpc v) (DumpInt (startpc v) (DumpString (varname v) D))"

definition DumpDebug :: "Proto \<Rightarrow> 'w DumpState \<Rightarrow> 'w DumpState" where
  "DumpDebug f D =
     (let ls = (if strip D then [] else lineinfo f);
          vs = (if strip D then [] else locvars f);
          us = (if strip D then [] else upvalues f);
          D = DumpVector (int_bytes ls) (length ls) D;
          D = fold DumpLocVar vs (DumpInt (int (length vs)) D)
      in fold DumpString us (DumpInt (int (length us)) D))"

text \<open>The constants and the inner functions; \<open>dumpf\<close> dumps one of the latter.\<close>

definition DumpConstants :: "(Proto \<Rightarrow> 'w DumpState \<Rightarrow> 'w DumpState) \<Rightarrow> Proto \<Rightarrow> 'w DumpState \<Rightarrow> 'w DumpState" where
  "DumpConstants dumpf f D =
     (let D = fold DumpConstant (p_k f) (DumpInt (int (length (p_k f))) D)
      in fold dumpf (p_p f) (DumpInt (int (length (p_p f))) D))"

lemma DumpConstants_cong [fundef_cong]:
  "f = f' \<Longrightarrow> D = D' \<Longrightarrow> (\<And>g E. g \<in> set (p_p f') \<Longrightarrow> dumpf g E = dumpf' g E) \<Longrightarrow>
     DumpConstants dumpf f D = DumpConstants dumpf' f' D'"
  by (auto simp: DumpConstants_def Let_def intro: fold_cong)

lemma size_inner [termination_simp]: "g \<in> set (p_p f) \<Longrightarrow> size g < size f"
  by (cases f) (auto dest!: size_list_estimation' [where f = size, OF _ order_refl])

text \<open>Strings are interned: the pointers \<^verbatim>\<open>f->source\<close> and \<^verbatim>\<open>p\<close> are equal when the strings are.\<close>

fun DumpFunction :: "string option \<Rightarrow> Proto \<Rightarrow> 'w DumpState \<Rightarrow> 'w DumpState" where
  "DumpFunction p f D =
     (let D = DumpString (if p_source f = p \<or> strip D then None else p_source f) D;
          D = DumpInt (linedefined f) D;
          D = DumpInt (lastlinedefined f) D;
          D = DumpChar (uint (nups f)) D;
          D = DumpChar (uint (numparams f)) D;
          D = DumpChar (uint (is_vararg f)) D;
          D = DumpChar (uint (maxstacksize f)) D;
          D = DumpCode f D;
          D = DumpConstants (\<lambda>g E. DumpFunction (p_source f) g E) f D
      in DumpDebug f D)"

declare DumpFunction.simps [simp del]

definition DumpHeader :: "'w DumpState \<Rightarrow> 'w DumpState" where
  "DumpHeader D = DumpBlock luaU_header D"

definition luaU_dump :: "Proto \<Rightarrow> 'w lua_Writer \<Rightarrow> 'w \<Rightarrow> bool \<Rightarrow> int \<times> 'w" where
  "luaU_dump f w data st =
     (let D = \<lparr>writer = w, ddata = data, strip = st, status = 0\<rparr>;
          D = DumpFunction None f (DumpHeader D)
      in (status D, ddata D))"

subsection \<open>What is written\<close>

definition str_bytes :: "string option \<Rightarrow> string" where
  "str_bytes s = (case s of None \<Rightarrow> le_bytes 8 0 | Some s \<Rightarrow> le_bytes 8 (int (length s) + 1) @ s @ [NUL])"

definition vec_bytes :: "nat \<Rightarrow> string \<Rightarrow> string" where
  "vec_bytes n b = le_bytes 4 (int n) @ b"

definition seq_bytes :: "('a \<Rightarrow> string) \<Rightarrow> 'a list \<Rightarrow> string" where
  "seq_bytes f xs = le_bytes 4 (int (length xs)) @ concat (map f xs)"

definition const_bytes :: "tvalue \<Rightarrow> string" where
  "const_bytes v = le_bytes 1 (tag_code (ttype v)) @
     (case v of
        Boolean b \<Rightarrow> le_bytes 1 (of_bool b)
      | Number x \<Rightarrow> le_bytes 8 (uint x)
      | String s \<Rightarrow> str_bytes (Some s)
      | _ \<Rightarrow> [])"

definition locvar_bytes :: "LocVar \<Rightarrow> string" where
  "locvar_bytes v = str_bytes (varname v) @ le_bytes 4 (startpc v) @ le_bytes 4 (endpc v)"

definition debug_bytes :: "bool \<Rightarrow> Proto \<Rightarrow> string" where
  "debug_bytes st f =
     seq_bytes (le_bytes 4) (if st then [] else lineinfo f) @
     seq_bytes locvar_bytes (if st then [] else locvars f) @
     seq_bytes str_bytes (if st then [] else upvalues f)"

lemma seq_bytes_cong [fundef_cong]:
  "xs = ys \<Longrightarrow> (\<And>x. x \<in> set ys \<Longrightarrow> f x = g x) \<Longrightarrow> seq_bytes f xs = seq_bytes g ys"
  by (simp add: seq_bytes_def cong: map_cong)

fun func_bytes :: "bool \<Rightarrow> string option \<Rightarrow> Proto \<Rightarrow> string" where
  "func_bytes st p f =
     str_bytes (if p_source f = p \<or> st then None else p_source f) @
     le_bytes 4 (linedefined f) @ le_bytes 4 (lastlinedefined f) @
     le_bytes 1 (uint (nups f)) @ le_bytes 1 (uint (numparams f)) @
     le_bytes 1 (uint (is_vararg f)) @ le_bytes 1 (uint (maxstacksize f)) @
     seq_bytes (\<lambda>i. le_bytes 4 (uint i)) (p_code f) @
     seq_bytes const_bytes (p_k f) @
     seq_bytes (\<lambda>g. func_bytes st (p_source f) g) (p_p f) @
     debug_bytes st f"

declare func_bytes.simps [simp del]

definition dump_bytes :: "bool \<Rightarrow> Proto \<Rightarrow> string" where
  "dump_bytes st f = luaU_header @ func_bytes st None f"

text \<open>A writer that, when it reports success, has added the block to its output.\<close>

locale byte_writer =
  fixes w :: "'w lua_Writer" and out :: "'w \<Rightarrow> string"
  assumes writes: "w d b = (0, d') \<Longrightarrow> out d' = out d @ b"
begin

definition emits :: "'w DumpState \<Rightarrow> string \<Rightarrow> 'w DumpState \<Rightarrow> bool" where
  "emits D s D' \<longleftrightarrow> writer D' = writer D \<and> strip D' = strip D \<and>
     (writer D = w \<and> status D' = 0 \<longrightarrow> status D = 0 \<and> out (ddata D') = out (ddata D) @ s) \<and>
     (writer D = w \<and> status D = 0 \<and> (\<forall>d b. fst (w d b) = 0) \<longrightarrow> status D' = 0)"

lemma emits_refl: "emits D [] D"
  by (simp add: emits_def)

lemma emits_strip: "emits D s D' \<Longrightarrow> strip D' = strip D"
  by (simp add: emits_def)

lemma emits_trans:
  assumes "emits D s D'" "emits D' s' D''"
  shows "emits D (s @ s') D''"
proof -
  note e = assms(1) [unfolded emits_def, THEN conjunct2, THEN conjunct2]
  note e' = assms(2) [unfolded emits_def, THEN conjunct2, THEN conjunct2]
  have w: "writer D' = writer D" using assms(1) [unfolded emits_def] by (rule conjunct1)
  have w': "writer D'' = writer D" using assms(2) [unfolded emits_def, THEN conjunct1] w by (rule trans)
  have s: "strip D'' = strip D"
    using assms(2) [unfolded emits_def, THEN conjunct2, THEN conjunct1]
      assms(1) [unfolded emits_def, THEN conjunct2, THEN conjunct1] by (rule trans)
  show ?thesis
    unfolding emits_def
  proof (intro conjI impI w' s)
    assume h: "writer D = w \<and> status D'' = 0"
    then have 1: "status D' = 0 \<and> out (ddata D'') = out (ddata D') @ s'" using e' w by metis
    then have 2: "status D = 0 \<and> out (ddata D') = out (ddata D) @ s" using e h by blast
    then show "status D = 0" by blast
    show "out (ddata D'') = out (ddata D) @ s @ s'" using 1 2 by simp
  next
    assume h: "writer D = w \<and> status D = 0 \<and> (\<forall>d b. fst (w d b) = 0)"
    then have "status D' = 0" using e by blast
    then show "status D'' = 0" using e' h w by metis
  qed
qed

lemma emits_block: "emits D b (DumpBlock b D)"
  using writes [of "ddata D" b "snd (w (ddata D) b)"]
  by (auto simp: emits_def DumpBlock_def split_def prod_eq_iff Let_def)

lemma emits_char: "emits D (le_bytes 1 y) (DumpChar y D)"
  and emits_int: "emits D (le_bytes 4 x) (DumpInt x D)"
  and emits_number: "emits D (le_bytes 8 (uint n)) (DumpNumber n D)"
  unfolding DumpChar_def DumpInt_def DumpNumber_def by (rule emits_block)+

lemma emits_vector: "emits D (le_bytes 4 (int n) @ b) (DumpVector b n D)"
  unfolding DumpVector_def by (rule emits_trans [OF emits_int emits_block])

lemma emits_string: "emits D (str_bytes s) (DumpString s D)"
  by (cases s) (auto simp: DumpString_def str_bytes_def intro: emits_block emits_trans [OF emits_block emits_block])

lemma emits_fold:
  "(\<And>x E. x \<in> set xs \<Longrightarrow> strip E = strip D \<Longrightarrow> emits E (g x) (h x E)) \<Longrightarrow>
     emits D (concat (map g xs)) (fold h xs D)"
proof (induction xs arbitrary: D)
  case (Cons x xs)
  then have x: "emits D (g x) (h x D)" by simp
  moreover have "emits (h x D) (concat (map g xs)) (fold h xs (h x D))"
    using Cons emits_strip [OF x] by simp
  ultimately show ?case by (auto intro: emits_trans)
qed (simp add: emits_refl)

lemma emits_seq:
  "(\<And>x E. x \<in> set xs \<Longrightarrow> strip E = strip D \<Longrightarrow> emits E (g x) (h x E)) \<Longrightarrow>
     emits D (seq_bytes g xs) (fold h xs (DumpInt (int (length xs)) D))"
  unfolding seq_bytes_def by (rule emits_trans [OF emits_int emits_fold]) (simp add: emits_strip [OF emits_int])

lemma then_char: "emits D s E \<Longrightarrow> emits D (s @ le_bytes 1 y) (DumpChar y E)"
  and then_int: "emits D s E \<Longrightarrow> emits D (s @ le_bytes 4 x) (DumpInt x E)"
  and then_string: "emits D s E \<Longrightarrow> emits D (s @ str_bytes t) (DumpString t E)"
  by (rule emits_trans, assumption, rule emits_char emits_int emits_string)+

lemma then_seq:
  "emits D s E \<Longrightarrow> (\<And>x E. x \<in> set xs \<Longrightarrow> strip E = strip D \<Longrightarrow> emits E (g x) (h x E)) \<Longrightarrow>
     emits D (s @ seq_bytes g xs) (fold h xs (DumpInt (int (length xs)) E))"
  by (rule emits_trans [OF _ emits_seq]) (auto dest: emits_strip)

lemma emits_constant: "emits D (const_bytes v) (DumpConstant v D)"
  unfolding const_bytes_def DumpConstant_def Let_def
  by (cases v) (auto intro: emits_trans [OF emits_char] emits_char emits_number emits_string simp del: tag_code.simps ttype.simps One_nat_def)

lemma emits_locvar: "emits D (locvar_bytes v) (DumpLocVar v D)"
  unfolding locvar_bytes_def DumpLocVar_def append_assoc [symmetric]
  by (intro then_int emits_string)

lemma emits_lines: "emits D (seq_bytes (le_bytes 4) xs) (DumpVector (int_bytes xs) (length xs) D)"
  using emits_vector [of D "length xs" "int_bytes xs"] by (simp add: seq_bytes_def int_bytes_def)

lemma emits_debug: "emits D (debug_bytes (strip D) f) (DumpDebug f D)"
  unfolding debug_bytes_def DumpDebug_def Let_def append_assoc [symmetric]
  by (intro then_seq emits_lines emits_locvar emits_string)

lemma then_code: "emits D s E \<Longrightarrow> emits D (s @ seq_bytes (\<lambda>i. le_bytes 4 (uint i)) (p_code f)) (DumpCode f E)"
  using emits_vector [of E "length (p_code f)" "code_bytes (p_code f)"]
  by (auto simp: seq_bytes_def code_bytes_def DumpCode_def intro: emits_trans)

lemma then_constants:
  "emits D s E \<Longrightarrow> (\<And>g D'. g \<in> set (p_p f) \<Longrightarrow> strip D' = strip D \<Longrightarrow> emits D' (fb g) (df g D')) \<Longrightarrow>
     emits D ((s @ seq_bytes const_bytes (p_k f)) @ seq_bytes fb (p_p f)) (DumpConstants df f E)"
  unfolding DumpConstants_def Let_def by (intro then_seq emits_constant) auto

lemma emits_function: "strip D = st \<Longrightarrow> emits D (func_bytes st p f) (DumpFunction p f D)"
proof (induction p f D rule: DumpFunction.induct)
  case (1 p f D)
  have IH: "emits E (func_bytes st (p_source f) g) (DumpFunction (p_source f) g E)"
    if "g \<in> set (p_p f)" "strip E = strip D" for g E
    using 1 that by blast
  have "emits D (((((((((str_bytes (if p_source f = p \<or> st then None else p_source f) @
     le_bytes 4 (linedefined f)) @ le_bytes 4 (lastlinedefined f)) @
     le_bytes 1 (uint (nups f))) @ le_bytes 1 (uint (numparams f))) @
     le_bytes 1 (uint (is_vararg f))) @ le_bytes 1 (uint (maxstacksize f))) @
     seq_bytes (\<lambda>i. le_bytes 4 (uint i)) (p_code f)) @
     seq_bytes const_bytes (p_k f)) @
     seq_bytes (\<lambda>g. func_bytes st (p_source f) g) (p_p f))
    (DumpConstants (\<lambda>g E. DumpFunction (p_source f) g E) f (DumpCode f (DumpChar (uint (maxstacksize f))
      (DumpChar (uint (is_vararg f)) (DumpChar (uint (numparams f)) (DumpChar (uint (nups f))
      (DumpInt (lastlinedefined f) (DumpInt (linedefined f)
      (DumpString (if p_source f = p \<or> st then None else p_source f) D)))))))))"
    (is "emits D ?s ?E")
    by (intro then_constants then_code then_char then_int emits_string IH)
  moreover from this have "emits ?E (debug_bytes st f) (DumpDebug f ?E)"
    using emits_debug [of ?E f] emits_strip [of D ?s ?E] 1(2) by simp
  ultimately have "emits D (?s @ debug_bytes st f) (DumpDebug f ?E)" by (rule emits_trans)
  then show ?case using 1(2)
    by (simp add: DumpFunction.simps [of p f D] func_bytes.simps [of st p f] Let_def)
qed

lemma dump_ok:
  "luaU_dump f w d st = (0, d') \<Longrightarrow> out d' = out d @ dump_bytes st f"
  "(\<And>d b. fst (w d b) = 0) \<Longrightarrow> fst (luaU_dump f w d st) = 0"
proof -
  let ?D = "\<lparr>writer = w, ddata = d, strip = st, status = 0\<rparr>"
  have e: "emits ?D (luaU_header @ func_bytes st None f) (DumpFunction None f (DumpHeader ?D))"
    unfolding DumpHeader_def
    by (rule emits_trans [OF emits_block emits_function]) (simp add: emits_strip [OF emits_block])
  show "luaU_dump f w d st = (0, d') \<Longrightarrow> out d' = out d @ dump_bytes st f"
    using e by (auto simp: emits_def luaU_dump_def dump_bytes_def Let_def)
  show "(\<And>d b. fst (w d b) = 0) \<Longrightarrow> fst (luaU_dump f w d st) = 0"
    using e by (simp add: emits_def luaU_dump_def Let_def)
qed

end

text \<open>The writer of \<^verbatim>\<open>string.dump\<close>: it adds the block to a buffer.\<close>

definition str_writer :: "string lua_Writer" where
  "str_writer B b = (0, B @ b)"

interpretation str_dump: byte_writer str_writer "\<lambda>B. B"
  by unfold_locales (simp add: str_writer_def)

lemma dump_to_string: "luaU_dump f str_writer B st = (0, B @ dump_bytes st f)"
proof -
  obtain r D where d: "luaU_dump f str_writer B st = (r, D)" by (cases "luaU_dump f str_writer B st")
  moreover have "r = 0" using str_dump.dump_ok(2) [of f B st] d by (simp add: str_writer_def)
  ultimately show ?thesis using str_dump.dump_ok(1) [of f B st D] by simp
qed

end
