(* ===== verification/LuaZio.thy ===== *)
theory LuaZio
  imports Prelude
begin

section \<open>Buffered input streams\<close>

text \<open>
  The streams of \<^verbatim>\<open>lzio.c\<close> and \<^verbatim>\<open>lzio.h\<close>. The reader is a function the caller supplies:
  it takes its own data and gives a buffer (or \<^verbatim>\<open>NULL\<close>) and its data for the next call; the size it
  reports is the length of the buffer. The pointer \<^verbatim>\<open>p\<close> into the last buffer is the pair of
  that buffer and a position. What a stream delivers does not depend on how the reader cuts its
  bytes into buffers: the locale \<open>byte_reader\<close> states the contract of a reader, and the
  readers of \<^verbatim>\<open>lauxlib.c\<close> satisfy it.
\<close>

subsection \<open>Operations\<close>

type_synonym size_t = "64 word"
type_synonym 'd lua_Reader = "'d \<Rightarrow> string option \<times> 'd"

definition EOZ :: int where "EOZ = -1"

definition char2int :: "char \<Rightarrow> int" where "char2int c = int (of_char c)"

record 'd zio =
  zn :: size_t
  zbuf :: string
  zpos :: nat
  reader :: "'d lua_Reader"
  zdata :: 'd

definition luaZ_fill :: "'d zio \<Rightarrow> int \<times> 'd zio" where
  "luaZ_fill z =
     (case reader z (zdata z) of
        (None, d) \<Rightarrow> (EOZ, z\<lparr>zdata := d\<rparr>)
      | (Some buff, d) \<Rightarrow>
          (let sz = (of_nat (length buff) :: size_t) in
           if sz = 0 then (EOZ, z\<lparr>zdata := d\<rparr>)
           else (char2int (buff ! 0), z\<lparr>zn := sz - 1, zbuf := buff, zpos := 1, zdata := d\<rparr>)))"

definition luaZ_lookahead :: "'d zio \<Rightarrow> int \<times> 'd zio" where
  "luaZ_lookahead z =
     (if zn z = 0 then
        (let (c, z') = luaZ_fill z in
         if c = EOZ then (EOZ, z')
         else (let z'' = z'\<lparr>zn := zn z' + 1, zpos := zpos z' - 1\<rparr> in (char2int (zbuf z'' ! zpos z''), z'')))
      else (char2int (zbuf z ! zpos z), z))"

text \<open>The macro decrements \<open>n\<close> whether or not it was zero, as the code does.\<close>

definition zgetc :: "'d zio \<Rightarrow> int \<times> 'd zio" where
  "zgetc z =
     (let z' = z\<lparr>zn := zn z - 1\<rparr> in
      if zn z > 0 then (char2int (zbuf z' ! zpos z'), z'\<lparr>zpos := zpos z' + 1\<rparr>) else luaZ_fill z')"

definition luaZ_init :: "'d lua_Reader \<Rightarrow> 'd \<Rightarrow> 'd zio" where
  "luaZ_init rd d = \<lparr>zn = 0, zbuf = [], zpos = 0, reader = rd, zdata = d\<rparr>"

lemma char2int_neq_EOZ [simp]: "char2int c \<noteq> EOZ" "EOZ \<noteq> char2int c"
  by (simp_all add: char2int_def EOZ_def)

lemma lookahead_nonempty: "luaZ_lookahead z = (c, z') \<Longrightarrow> c \<noteq> EOZ \<Longrightarrow> zn z' \<noteq> 0"
  by (auto simp: luaZ_lookahead_def luaZ_fill_def Let_def split: if_splits option.splits prod.splits)

text \<open>The bytes read, the number of bytes missing and the stream.\<close>

function luaZ_read :: "'d zio \<Rightarrow> nat \<Rightarrow> string \<times> nat \<times> 'd zio" where
  "luaZ_read z n =
     (if n = 0 then ([], 0, z)
      else case luaZ_lookahead z of
        (c, z') \<Rightarrow>
          if c = EOZ then ([], n, z')
          else
            (let m = (if n \<le> unat (zn z') then n else unat (zn z'));
                 b = take m (drop (zpos z') (zbuf z'));
                 (bs, r, z'') = luaZ_read (z'\<lparr>zn := zn z' - of_nat m, zpos := zpos z' + m\<rparr>) (n - m)
             in (b @ bs, r, z'')))"
  by pat_completeness auto
termination
proof (relation "measure (\<lambda>(z, n). n)", simp)
  fix z :: "'d zio" and n c z' m
  assume "n \<noteq> 0" "(c, z') = luaZ_lookahead z" "c \<noteq> EOZ" "m = (if n \<le> unat (zn z') then n else unat (zn z'))"
  moreover from this have "unat (zn z') \<noteq> 0" using lookahead_nonempty by (metis unat_0_iff unsigned_0)
  ultimately show "((z'\<lparr>zn := zn z' - of_nat m, zpos := zpos z' + m\<rparr>, n - m), z, n) \<in> measure (\<lambda>(z, n). n)"
    by auto
qed

declare luaZ_read.simps [simp del]

text \<open>\<^verbatim>\<open>Mbuffer\<close>: the space of the loader and of the lexer. Memory is taken to suffice.\<close>

record Mbuffer =
  buffer :: string
  bufflen :: nat
  buffsize :: nat

definition LUA_MINBUFFER :: nat where "LUA_MINBUFFER = 32"

definition luaZ_resizebuffer :: "Mbuffer \<Rightarrow> nat \<Rightarrow> Mbuffer" where
  "luaZ_resizebuffer b sz = b\<lparr>buffer := take sz (buffer b) @ replicate (sz - length (buffer b)) NUL, buffsize := sz\<rparr>"

definition luaZ_openspace :: "Mbuffer \<Rightarrow> nat \<Rightarrow> Mbuffer" where
  "luaZ_openspace b n = (if n > buffsize b then luaZ_resizebuffer b (if n < LUA_MINBUFFER then LUA_MINBUFFER else n) else b)"

text \<open>The reader of \<^verbatim>\<open>luaL_loadbuffer\<close>: its data is what is left of the buffer.\<close>

record LoadS =
  ls_s :: string
  ls_size :: size_t

definition getS :: "LoadS lua_Reader" where
  "getS ls =
     (if ls_size ls = 0 then (None, ls)
      else (Some (take (unat (ls_size ls)) (ls_s ls)), ls\<lparr>ls_size := 0\<rparr>))"

definition loads_of :: "string \<Rightarrow> LoadS" where
  "loads_of s = \<lparr>ls_s = s, ls_size = of_nat (length s)\<rparr>"

text \<open>
  The reader of \<^verbatim>\<open>luaL_loadfile\<close>. A file is the bytes that are left of it and its
  end-of-file indicator, which \<^verbatim>\<open>fread\<close> sets when it gets fewer bytes than it asked for.
\<close>

record FILE =
  fdata :: string
  feof :: bool

definition fread :: "nat \<Rightarrow> FILE \<Rightarrow> string \<times> FILE" where
  "fread n f = (take n (fdata f), f\<lparr>fdata := drop n (fdata f), feof := feof f \<or> length (fdata f) < n\<rparr>)"

definition LUAL_BUFFERSIZE :: nat where "LUAL_BUFFERSIZE = 8192"

record LoadF =
  extraline :: bool
  lf_f :: FILE

definition getF :: "LoadF lua_Reader" where
  "getF lf =
     (if extraline lf then (Some [CHR 0x0A], lf\<lparr>extraline := False\<rparr>)
      else if feof (lf_f lf) then (None, lf)
      else case fread LUAL_BUFFERSIZE (lf_f lf) of
        (b, f) \<Rightarrow> (if length b > 0 then Some b else None, lf\<lparr>lf_f := f\<rparr>))"

subsection \<open>The contract of a reader\<close>

text \<open>
  \<open>content d\<close> is what the reader will deliver in all: a buffer that is not empty is a prefix of it,
  and \<^verbatim>\<open>NULL\<close> or an empty buffer means that there is nothing left.
\<close>

locale byte_reader =
  fixes rd :: "'d lua_Reader" and content :: "'d \<Rightarrow> string" and ok :: "'d \<Rightarrow> bool"
  assumes some: "ok d \<Longrightarrow> rd d = (Some b, d') \<Longrightarrow> b \<noteq> [] \<Longrightarrow> content d = b @ content d' \<and> ok d'"
    and fits: "ok d \<Longrightarrow> rd d = (Some b, d') \<Longrightarrow> length b < 2 ^ 64"
    and ending: "ok d \<Longrightarrow> rd d = (None, d') \<or> rd d = (Some [], d') \<Longrightarrow> content d = [] \<and> content d' = [] \<and> ok d'"
begin

definition zcontent :: "'d zio \<Rightarrow> string" where
  "zcontent z = drop (zpos z) (zbuf z) @ content (zdata z)"

definition zinv :: "'d zio \<Rightarrow> bool" where
  "zinv z \<longleftrightarrow> reader z = rd \<and> ok (zdata z) \<and> unat (zn z) = length (zbuf z) - zpos z \<and> zpos z \<le> length (zbuf z)"

lemma init_ok: "ok d \<Longrightarrow> zinv (luaZ_init rd d) \<and> zcontent (luaZ_init rd d) = content d"
  by (simp add: zinv_def zcontent_def luaZ_init_def)

lemma fill_ok:
  assumes "zinv z" "zpos z = length (zbuf z)" "luaZ_fill z = (c, z')"
  shows "(if zcontent z = [] then c = EOZ \<and> zcontent z' = [] \<and> zinv z'
          else c = char2int (hd (zcontent z)) \<and> zcontent z' = tl (zcontent z) \<and> zinv z' \<and>
               zpos z' = 1 \<and> zbuf z' \<noteq> [] \<and> hd (zbuf z') = hd (zcontent z))"
proof -
  obtain ob d where r: "reader z (zdata z) = (ob, d)" by (cases "reader z (zdata z)")
  then have r': "rd (zdata z) = (ob, d)" and okd: "ok (zdata z)" using assms(1) by (auto simp: zinv_def)
  show ?thesis
  proof (cases "ob = None \<or> ob = Some []")
    case True
    then have "content (zdata z) = [] \<and> content d = [] \<and> ok d" using ending [OF okd] r' by blast
    then show ?thesis using assms True r
      by (auto simp: zcontent_def luaZ_fill_def zinv_def Let_def split: option.splits)
  next
    case False
    then obtain b where b: "ob = Some b" "b \<noteq> []" by auto
    have l: "length b < 2 ^ 64" using fits [OF okd] r' b by blast
    then have u: "unat (of_nat (length b) :: size_t) = length b"
      by (simp add: take_bit_nat_eq_self unsigned_of_nat)
    have nz: "(of_nat (length b) :: size_t) \<noteq> 0" using u b(2) by (metis length_0_conv unsigned_0)
    have "unat (of_nat (length b) - 1 :: size_t) = length b - 1"
      using nz u by (simp add: unat_minus_one)
    moreover have "content (zdata z) = b @ content d \<and> ok d" using some [OF okd] r' b by blast
    ultimately show ?thesis using assms r b nz
      by (cases b) (auto simp: zcontent_def luaZ_fill_def zinv_def Let_def)
  qed
qed

lemma lookahead_ok:
  assumes "zinv z" "luaZ_lookahead z = (c, z')"
  shows "zinv z' \<and> zcontent z' = zcontent z \<and>
    (if zcontent z = [] then c = EOZ
     else c = char2int (hd (zcontent z)) \<and> zpos z' < length (zbuf z') \<and> zbuf z' ! zpos z' = hd (zcontent z))"
proof (cases "zn z = 0")
  case True
  then have "zpos z = length (zbuf z)" using assms(1) by (auto simp: zinv_def)
  obtain c1 z1 where f: "luaZ_fill z = (c1, z1)" by (cases "luaZ_fill z")
  note ok = fill_ok [OF assms(1) \<open>zpos z = length (zbuf z)\<close> f]
  show ?thesis
  proof (cases "zcontent z = []")
    case True
    then show ?thesis using ok assms(2) f \<open>zn z = 0\<close> by (auto simp: luaZ_lookahead_def)
  next
    case False
    then have k: "c1 = char2int (hd (zcontent z))" "zcontent z1 = tl (zcontent z)" "zinv z1" "zpos z1 = 1"
      "zbuf z1 \<noteq> []" "hd (zbuf z1) = hd (zcontent z)" using ok by auto
    have z': "z' = z1\<lparr>zn := zn z1 + 1, zpos := 0\<rparr>" "c = char2int (zbuf z1 ! 0)"
      using assms(2) f k \<open>zn z = 0\<close> by (auto simp: luaZ_lookahead_def Let_def)
    have u: "unat (zn z1) = length (zbuf z1) - 1" using k by (simp add: zinv_def)
    have "zbuf z1 = hd (zbuf z1) # tl (zbuf z1)" using k(5) by (metis list.collapse)
    then have zc: "zcontent z' = zcontent z" using k z' False
      unfolding zcontent_def by (metis append_Cons drop_0 drop_Suc_Cons One_nat_def list.collapse zio.select_convs(2,3,5)
          zio.surjective zio.update_convs(1,3))
    have lb: "length (zbuf z1) < 2 ^ 64"
      using f k(1) fits [of "zdata z" "zbuf z1"] assms(1)
      by (auto simp: luaZ_fill_def zinv_def Let_def split: option.splits if_splits prod.splits)
    have "unat (zn z1 + 1) = length (zbuf z1)"
      using u k(5) lb by (simp add: unat_plus_if' Suc_leI)
    then have "zinv z'" using k z' by (simp add: zinv_def)
    then show ?thesis using zc z' k False by (simp add: hd_conv_nth)
  qed
next
  case False
  then have lt: "zpos z < length (zbuf z)" using assms(1) unat_gt_0 [of "zn z"] unfolding zinv_def by linarith
  then have d: "drop (zpos z) (zbuf z) \<noteq> []" "hd (drop (zpos z) (zbuf z)) = zbuf z ! zpos z"
    by (simp_all add: hd_drop_conv_nth)
  then show ?thesis using assms False lt by (auto simp: luaZ_lookahead_def zcontent_def)
qed

lemma read_ok:
  "zinv z \<Longrightarrow> luaZ_read z n = (bs, r, z') \<Longrightarrow>
     zinv z' \<and> bs = take n (zcontent z) \<and> r = n - length (zcontent z) \<and> zcontent z' = drop n (zcontent z)"
proof (induction z n arbitrary: bs r z' rule: luaZ_read.induct)
  case (1 z n)
  show ?case
  proof (cases "n = 0")
    case True
    then show ?thesis using 1(2,3) by (simp add: luaZ_read.simps)
  next
    case False
    obtain c z1 where la: "luaZ_lookahead z = (c, z1)" by (cases "luaZ_lookahead z")
    note ok = lookahead_ok [OF 1(2) la]
    show ?thesis
    proof (cases "zcontent z = []")
      case True
      then show ?thesis using 1(3) ok la False by (simp add: luaZ_read.simps [of z n])
    next
      case cs: False
      define m where "m = (if n \<le> unat (zn z1) then n else unat (zn z1))"
      define z2 where "z2 = z1\<lparr>zn := zn z1 - of_nat m, zpos := zpos z1 + m\<rparr>"
      obtain bs1 r1 z3 where rd: "luaZ_read z2 (n - m) = (bs1, r1, z3)" by (cases "luaZ_read z2 (n - m)")
      have c: "c \<noteq> EOZ" using ok cs by auto
      have res: "bs = take m (drop (zpos z1) (zbuf z1)) @ bs1" "r = r1" "z' = z3"
        using 1(3) la c False rd by (simp_all add: luaZ_read.simps [of z n] Let_def m_def [symmetric] z2_def [symmetric])
      have u: "unat (zn z1) = length (zbuf z1) - zpos z1" "zpos z1 \<le> length (zbuf z1)" using ok by (auto simp: zinv_def)
      have ml: "m \<le> unat (zn z1)" "m \<le> n" by (auto simp: m_def)
      have "unat (of_nat m :: size_t) = m"
        using ml unsigned_less [of "zn z1", where 'a = nat] by (simp add: unsigned_of_nat take_bit_nat_eq_self)
      then have "unat (zn z1 - of_nat m) = unat (zn z1) - m"
        using ml by (subst unat_sub) (simp_all add: word_le_nat_alt)
      then have inv: "zinv z2" using ok u ml by (auto simp: zinv_def z2_def)
      have zc: "zcontent z1 = take m (drop (zpos z1) (zbuf z1)) @ zcontent z2"
        by (simp add: zcontent_def z2_def add.commute [of _ m] flip: drop_drop append_assoc)
      have IH: "zinv z3 \<and> bs1 = take (n - m) (zcontent z2) \<and> r1 = (n - m) - length (zcontent z2) \<and>
          zcontent z3 = drop (n - m) (zcontent z2)"
        using 1(1) [OF False la [symmetric] c m_def refl inv [unfolded z2_def] rd [unfolded z2_def]]
        unfolding z2_def .
      have lt: "length (take m (drop (zpos z1) (zbuf z1))) = m" using ml u by simp
      have "zcontent z = take m (drop (zpos z1) (zbuf z1)) @ zcontent z2" using ok zc by simp
      then show ?thesis using IH lt ml unfolding res by simp
    qed
  qed
qed

lemma zgetc_ok:
  assumes "zinv z" "zgetc z = (c, z')"
  shows "if zcontent z = [] then c = EOZ \<and> zn z' = - 1
         else c = char2int (hd (zcontent z)) \<and> zinv z' \<and> zcontent z' = tl (zcontent z)"
proof (cases "zn z = 0")
  case True
  then have e: "zpos z = length (zbuf z)" using assms(1) by (auto simp: zinv_def)
  let ?z = "z\<lparr>zn := zn z - 1\<rparr>"
  have f: "luaZ_fill ?z = (c, z')" using assms(2) True by (simp add: zgetc_def)
  obtain c1 z1 where f1: "luaZ_fill z = (c1, z1)" by (cases "luaZ_fill z")
  have same: "c1 = c \<and> (if c = EOZ then z' = z1\<lparr>zn := - 1\<rparr> else z' = z1)"
    using f f1 True assms(1) by (auto simp: luaZ_fill_def Let_def zinv_def split: option.splits prod.splits if_splits)
  show ?thesis using fill_ok [OF assms(1) e f1] same by (auto split: if_splits)
next
  case False
  then have lt: "zpos z < length (zbuf z)" using assms(1) unat_gt_0 [of "zn z"] unfolding zinv_def by linarith
  then have d: "drop (zpos z) (zbuf z) = zbuf z ! zpos z # drop (Suc (zpos z)) (zbuf z)"
    by (rule Cons_nth_drop_Suc [symmetric])
  have "unat (zn z - 1) = unat (zn z) - 1" using False by (rule unat_minus_one)
  moreover have "c = char2int (zbuf z ! zpos z)" "z' = z\<lparr>zn := zn z - 1, zpos := zpos z + 1\<rparr>"
    using assms(2) False by (simp_all add: zgetc_def Let_def word_gt_0)
  ultimately show ?thesis using assms(1) d lt by (simp add: zcontent_def zinv_def)
qed

end

subsection \<open>The readers of lauxlib.c\<close>

lemma getS_ends: "getS ls = (None, ls') \<or> getS ls = (Some [], ls') \<Longrightarrow> unat (ls_size ls) \<le> length (ls_s ls) \<Longrightarrow>
    ls_size ls = 0 \<and> ls' = ls"
  by (auto simp: getS_def unat_eq_zero split: if_splits)

interpretation loads: byte_reader getS "\<lambda>ls. take (unat (ls_size ls)) (ls_s ls)"
  "\<lambda>ls. unat (ls_size ls) \<le> length (ls_s ls)"
proof (unfold_locales, goal_cases)
  case (1 d b d')
  then show ?case by (auto simp: getS_def split: if_splits)
next
  case (2 d b d')
  then show ?case using unsigned_less [of "ls_size d", where 'a = nat] by (auto simp: getS_def split: if_splits)
next
  case (3 d d')
  then show ?case using getS_ends [OF 3(2,1)] by simp
qed

definition file_left :: "LoadF \<Rightarrow> string" where
  "file_left lf = (if extraline lf then [CHR 0x0A] else []) @ (if feof (lf_f lf) then [] else fdata (lf_f lf))"

interpretation loadf: byte_reader getF file_left "\<lambda>_. True"
proof (unfold_locales, goal_cases)
  case (1 d b d')
  then show ?case by (auto simp: getF_def fread_def file_left_def split: if_splits)
next
  case (2 d b d')
  then show ?case by (auto simp: getF_def fread_def LUAL_BUFFERSIZE_def split: if_splits)
next
  case (3 d d')
  then show ?case by (auto simp: getF_def fread_def file_left_def LUAL_BUFFERSIZE_def split: if_splits)
qed

text \<open>
  C17: what a stream delivers depends on the bytes of its reader alone, not on how the reader cuts them into
  buffers. For every reader that keeps the contract, \<^verbatim>\<open>luaZ_read\<close> on a fresh stream gives the
  first \<open>n\<close> bytes and the number of bytes that are missing, and reading \<open>m\<close> bytes and then \<open>n\<close> is
  reading \<open>m + n\<close>.
\<close>

theorem luaZ_read_bytes:
  assumes "byte_reader rd content ok" "ok d"
    and "luaZ_read (luaZ_init rd d) m = (b1, r1, z1)" "luaZ_read z1 n = (b2, r2, z2)"
  shows "b1 = take m (content d) \<and> r1 = m - length (content d) \<and>
    b1 @ b2 = take (m + n) (content d) \<and> r1 + r2 = m + n - length (content d)"
proof -
  note i = byte_reader.init_ok [OF assms(1,2)]
  note r = byte_reader.read_ok [OF assms(1)]
  from r [OF _ assms(3)] i have 1: "byte_reader.zinv rd ok z1" "b1 = take m (content d)" "r1 = m - length (content d)"
    "byte_reader.zcontent content z1 = drop m (content d)" by auto
  from r [OF 1(1) assms(4)] 1 show ?thesis by (auto simp: take_add)
qed

text \<open>Four bytes of a buffer, in two reads of three.\<close>

theorem luaZ_read_bytes_witness:
  "\<exists>z1 z2. luaZ_read (luaZ_init getS (loads_of ''abcd'')) 3 = (''abc'', 0, z1) \<and> luaZ_read z1 3 = (''d'', 2, z2)"
proof -
  obtain b1 r1 z1 where 1: "luaZ_read (luaZ_init getS (loads_of ''abcd'')) 3 = (b1, r1, z1)"
    by (metis prod_cases3)
  obtain b2 r2 z2 where 2: "luaZ_read z1 3 = (b2, r2, z2)" by (metis prod_cases3)
  have "b1 = ''abc'' \<and> r1 = 0 \<and> b2 = ''d'' \<and> r2 = 2"
    using luaZ_read_bytes [OF loads.byte_reader_axioms _ 1 2] by (auto simp: loads_of_def)
  with 1 2 show ?thesis by auto
qed

end
