(* ===== verification/LuaUndump.thy ===== *)
theory LuaUndump
  imports LuaDump LuaZio
begin

section \<open>Loading precompiled chunks\<close>

text \<open>
  The functions of \<^verbatim>\<open>lundump.c\<close>. A loader takes the load state and gives a value and the new
  state, or the error that \<^verbatim>\<open>error\<close> throws. Memory is taken to suffice, so a size that the input
  does not back ends in \<^verbatim>\<open>unexpected end\<close>. The main result: what \<^verbatim>\<open>luaU_dump\<close> wrote
  is what \<^verbatim>\<open>luaU_undump\<close> loads.
\<close>

subsection \<open>Loaders\<close>

record 'd LoadState =
  Z :: "'d zio"
  b :: Mbuffer
  lname :: string

type_synonym ('d, 'a) loader = "'d LoadState \<Rightarrow> ('a \<times> 'd LoadState) res"

definition lreturn :: "'a \<Rightarrow> ('d, 'a) loader" where
  "lreturn x S = Inr (x, S)"

definition lbind :: "('d, 'a) loader \<Rightarrow> ('a \<Rightarrow> ('d, 'b) loader) \<Rightarrow> ('d, 'b) loader" where
  "lbind m f S = rbind (m S) (\<lambda>(x, S'). f x S')"

definition lerror :: "string \<Rightarrow> ('d, 'a) loader" where
  "lerror why S = Inl (ErrSyntax (lname S @ '': '' @ why @ '' in precompiled chunk''))"

definition IF :: "bool \<Rightarrow> string \<Rightarrow> ('d, unit) loader" where
  "IF c s = (if c then lerror s else lreturn ())"

primrec ltimes :: "nat \<Rightarrow> ('d, 'a) loader \<Rightarrow> ('d, 'a list) loader" where
  "ltimes 0 m = lreturn []"
| "ltimes (Suc n) m = lbind m (\<lambda>x. lbind (ltimes n m) (\<lambda>xs. lreturn (x # xs)))"

subsection \<open>The functions of lundump.c\<close>

definition LoadBlock :: "nat \<Rightarrow> ('d, string) loader" where
  "LoadBlock sz S =
     (let (bs, r, z) = luaZ_read (Z S) sz in lbind (IF (r \<noteq> 0) ''unexpected end'') (\<lambda>_. lreturn bs) (S\<lparr>Z := z\<rparr>))"

definition LoadChar :: "('d, int) loader" where
  "LoadChar = lbind (LoadBlock 1) (\<lambda>x. lreturn (signed_take_bit 7 (le_val x)))"

definition LoadByte :: "('d, 8 word) loader" where
  "LoadByte = lbind LoadChar (\<lambda>x. lreturn (word_of_int x))"

definition LoadInt :: "('d, int) loader" where
  "LoadInt = lbind (LoadBlock 4) (\<lambda>s. let x = signed_take_bit 31 (le_val s) in
     lbind (IF (x < 0) ''bad integer'') (\<lambda>_. lreturn x))"

definition LoadNumber :: "('d, lua_Number) loader" where
  "LoadNumber = lbind (LoadBlock 8) (\<lambda>s. lreturn (word_of_int (le_val s)))"

definition LoadString :: "('d, string option) loader" where
  "LoadString =
     lbind (LoadBlock 8) (\<lambda>s. let sz = nat (le_val s) in
       if sz = 0 then lreturn None
       else (\<lambda>S. lbind (LoadBlock sz) (\<lambda>str. lreturn (Some (take (sz - 1) str))) (S\<lparr>b := luaZ_openspace (b S) sz\<rparr>)))"

text \<open>The elements of a vector of four-byte values.\<close>

primrec words4 :: "nat \<Rightarrow> string \<Rightarrow> int list" where
  "words4 0 s = []"
| "words4 (Suc n) s = le_val (take 4 s) # words4 n (drop 4 s)"

definition LoadCode :: "('d, Instruction list) loader" where
  "LoadCode = lbind LoadInt (\<lambda>n. lbind (LoadBlock (nat n * 4)) (\<lambda>s. lreturn (map word_of_int (words4 (nat n) s))))"

text \<open>
  A string constant of size 0 would be a \<^verbatim>\<open>NULL\<close> string, which no operation of the machine
  expects: such a constant has no value here.
\<close>

definition LoadConstant :: "('d, tvalue) loader" where
  "LoadConstant =
     lbind LoadChar (\<lambda>t.
       if t = tag_code LUA_TNIL then lreturn Nil
       else if t = tag_code LUA_TBOOLEAN then lbind LoadChar (\<lambda>x. lreturn (Boolean (x \<noteq> 0)))
       else if t = tag_code LUA_TNUMBER then lbind LoadNumber (\<lambda>x. lreturn (Number x))
       else if t = tag_code LUA_TSTRING then
         lbind LoadString (\<lambda>s. case s of None \<Rightarrow> (\<lambda>S. Inl UndefinedAccess) | Some s \<Rightarrow> lreturn (String s))
       else lerror ''bad constant'')"

definition LoadConstants :: "('d, Proto) loader \<Rightarrow> ('d, tvalue list \<times> Proto list) loader" where
  "LoadConstants loadf =
     lbind LoadInt (\<lambda>n. lbind (ltimes (nat n) LoadConstant) (\<lambda>ks.
       lbind LoadInt (\<lambda>n. lbind (ltimes (nat n) loadf) (\<lambda>ps. lreturn (ks, ps)))))"

definition LoadLocVar :: "('d, LocVar) loader" where
  "LoadLocVar = lbind LoadString (\<lambda>v. lbind LoadInt (\<lambda>s. lbind LoadInt (\<lambda>e.
     lreturn \<lparr>varname = v, startpc = s, endpc = e\<rparr>)))"

definition LoadDebug :: "('d, int list \<times> LocVar list \<times> string option list) loader" where
  "LoadDebug =
     lbind LoadInt (\<lambda>n. lbind (LoadBlock (nat n * 4)) (\<lambda>s.
       let ls = map (signed_take_bit 31) (words4 (nat n) s) in
       lbind LoadInt (\<lambda>n. lbind (ltimes (nat n) LoadLocVar) (\<lambda>vs.
       lbind LoadInt (\<lambda>n. lbind (ltimes (nat n) LoadString) (\<lambda>us. lreturn (ls, vs, us)))))))"

text \<open>
  The first argument is how many more C calls \<^verbatim>\<open>LUAI_MAXCCALLS\<close> leaves: the counter
  \<^verbatim>\<open>nCcalls\<close> passes the limit when it is 0.
\<close>

definition LUAI_MAXCCALLS :: nat where "LUAI_MAXCCALLS = 200"

primrec LoadFunction :: "nat \<Rightarrow> string option \<Rightarrow> ('d, Proto) loader" where
  "LoadFunction 0 p = lerror ''code too deep''"
| "LoadFunction (Suc left) p =
     lbind LoadString (\<lambda>s. let src = (if s = None then p else s) in
     lbind LoadInt (\<lambda>ld. lbind LoadInt (\<lambda>lld.
     lbind LoadByte (\<lambda>nu. lbind LoadByte (\<lambda>np. lbind LoadByte (\<lambda>va. lbind LoadByte (\<lambda>ms.
     lbind LoadCode (\<lambda>code.
     lbind (LoadConstants (LoadFunction left src)) (\<lambda>(k, ps).
     lbind LoadDebug (\<lambda>(ls, vs, us).
     let f = Proto src ld lld nu np va ms code k ps ls vs us in
     lbind (IF (\<not> luaG_checkcode f) ''bad code'') (\<lambda>_. lreturn f)))))))))))"

definition LoadHeader :: "('d, unit) loader" where
  "LoadHeader = lbind (LoadBlock LUAC_HEADERSIZE) (\<lambda>s. IF (s \<noteq> luaU_header) ''bad header'')"

definition chunk_name :: "string \<Rightarrow> string" where
  "chunk_name name =
     (if char_at name 0 = CHR ''@'' \<or> char_at name 0 = CHR ''='' then drop 1 name
      else if char_at name 0 = LUA_SIGNATURE ! 0 then ''binary string''
      else name)"

definition luaU_undump :: "nat \<Rightarrow> 'd zio \<Rightarrow> Mbuffer \<Rightarrow> string \<Rightarrow> (Proto \<times> 'd LoadState) res" where
  "luaU_undump nCcalls z buff name =
     lbind LoadHeader (\<lambda>_. LoadFunction (LUAI_MAXCCALLS - nCcalls) (Some ''=?''))
       \<lparr>Z = z, b = buff, lname = chunk_name name\<rparr>"

subsection \<open>What comes back\<close>

text \<open>
  \<open>p\<close> is the source of the enclosing function when it was dumped, \<open>q\<close> its source in the loaded
  prototype: an inner function with the same source is dumped without it and takes \<open>q\<close> back.
\<close>

fun reload :: "bool \<Rightarrow> string option \<Rightarrow> string option \<Rightarrow> Proto \<Rightarrow> Proto" where
  "reload st p q f =
     (let src = (if p_source f = p \<or> st \<or> p_source f = None then q else p_source f) in
      Proto src (linedefined f) (lastlinedefined f) (nups f) (numparams f) (is_vararg f) (maxstacksize f)
        (p_code f) (p_k f) (map (\<lambda>g. reload st (p_source f) src g) (p_p f))
        (if st then [] else lineinfo f) (if st then [] else locvars f) (if st then [] else upvalues f))"

declare reload.simps [simp del]

definition int_ok :: "int \<Rightarrow> bool" where "int_ok x \<longleftrightarrow> 0 \<le> x \<and> x < 2 ^ 31"
definition str_ok :: "string option \<Rightarrow> bool" where
  "str_ok s \<longleftrightarrow> (case s of None \<Rightarrow> True | Some s \<Rightarrow> int (length s) + 1 < 2 ^ 64)"
definition const_ok :: "tvalue \<Rightarrow> bool" where
  "const_ok v \<longleftrightarrow> (case v of Nil \<Rightarrow> True | Boolean _ \<Rightarrow> True | Number _ \<Rightarrow> True | String s \<Rightarrow> str_ok (Some s) | _ \<Rightarrow> False)"
definition len_ok :: "'a list \<Rightarrow> bool" where "len_ok xs \<longleftrightarrow> int (length xs) < 2 ^ 31"

text \<open>A prototype whose fields fit, nested at most \<open>n\<close> deep, and accepted by the checker at every level.\<close>

primrec loadable :: "nat \<Rightarrow> bool \<Rightarrow> string option \<Rightarrow> string option \<Rightarrow> Proto \<Rightarrow> bool" where
  "loadable 0 st p q f = False"
| "loadable (Suc n) st p q f =
     (str_ok (p_source f) \<and> int_ok (linedefined f) \<and> int_ok (lastlinedefined f) \<and>
      len_ok (p_code f) \<and> len_ok (p_k f) \<and> list_all const_ok (p_k f) \<and> len_ok (p_p f) \<and>
      len_ok (lineinfo f) \<and> list_all (\<lambda>x. - (2 ^ 31) \<le> x \<and> x < 2 ^ 31) (lineinfo f) \<and>
      len_ok (locvars f) \<and> list_all (\<lambda>v. str_ok (varname v) \<and> int_ok (startpc v) \<and> int_ok (endpc v)) (locvars f) \<and>
      len_ok (upvalues f) \<and> list_all str_ok (upvalues f) \<and>
      luaG_checkcode (reload st p q f) \<and>
      list_all (loadable n st (p_source f) (p_source (reload st p q f))) (p_p f))"

subsection \<open>Loading what was dumped\<close>

lemma lbind_Inr: "m S = Inr (x, S') \<Longrightarrow> lbind m f S = f x S'"
  by (simp add: lbind_def)

lemma lbind_return [simp]: "lbind (lreturn x) f = f x"
  by (rule ext) (simp add: lbind_def lreturn_def)

lemma signed_val:
  "signed_take_bit 31 (le_val (le_bytes 4 x)) = signed_take_bit 31 x"
  "signed_take_bit 7 (le_val (le_bytes 1 x)) = signed_take_bit 7 x"
  using signed_take_bit_take_bit [of 31 32 x] signed_take_bit_take_bit [of 7 8 x]
  by (simp_all add: le_val_bytes take_bit_eq_mod)

lemma signed_id:
  "- (2 ^ 31) \<le> x \<Longrightarrow> x < 2 ^ 31 \<Longrightarrow> signed_take_bit 31 (x :: int) = x"
  "- (2 ^ 7) \<le> x \<Longrightarrow> x < 2 ^ 7 \<Longrightarrow> signed_take_bit 7 (x :: int) = x"
  by (rule signed_take_bit_int_eq_self; simp)+

lemma length_concat_le: "length (concat (map (le_bytes 4) xs)) = length xs * 4"
  by (induction xs) auto

lemma words4_bytes: "words4 (length xs) (concat (map (le_bytes 4) xs)) = map (\<lambda>x. x mod 2 ^ 32) xs"
  by (induction xs) (simp_all add: le_val_bytes)

lemma mod32: "uint (w :: 32 word) mod 4294967296 = uint w"
  using unsigned_less [of w, where 'a = int] by (intro mod_pos_pos_trivial) simp_all

context byte_reader
begin

text \<open>
  \<open>m\<close> makes \<open>x\<close> of the bytes \<open>s\<close>, leaving what follows them, and fails with
  \<^verbatim>\<open>unexpected end\<close> when the stream ends inside of \<open>s\<close>.
\<close>

definition eof_error :: "'d LoadState \<Rightarrow> lua_error" where
  "eof_error S = ErrSyntax (lname S @ '': '' @ ''unexpected end'' @ '' in precompiled chunk'')"

definition parses :: "('d, 'a) loader \<Rightarrow> string \<Rightarrow> 'a \<Rightarrow> bool" where
  "parses m s x \<longleftrightarrow>
     (\<forall>S rest. zinv (Z S) \<and> zcontent (Z S) = s @ rest \<longrightarrow>
       (\<exists>S'. m S = Inr (x, S') \<and> zinv (Z S') \<and> zcontent (Z S') = rest \<and> lname S' = lname S)) \<and>
     (\<forall>S. zinv (Z S) \<and> strict_prefix (zcontent (Z S)) s \<longrightarrow> m S = Inl (eof_error S))"

lemma parses_return: "parses (lreturn x) [] x"
  by (simp add: parses_def lreturn_def)

lemma parses_bind:
  assumes m: "parses m s x" and f: "parses (f x) s' y"
  shows "parses (lbind m f) (s @ s') y"
  unfolding parses_def
proof (intro conjI allI impI)
  fix S :: "'d LoadState" and rest
  assume z: "zinv (Z S) \<and> zcontent (Z S) = (s @ s') @ rest"
  then obtain S1 where 1: "m S = Inr (x, S1)" "zinv (Z S1) \<and> zcontent (Z S1) = s' @ rest" "lname S1 = lname S"
    using m unfolding parses_def by (metis append_assoc)
  then obtain S2 where "f x S1 = Inr (y, S2)" "zinv (Z S2) \<and> zcontent (Z S2) = rest" "lname S2 = lname S1"
    using f unfolding parses_def by metis
  then show "\<exists>S'. lbind m f S = Inr (y, S') \<and> zinv (Z S') \<and> zcontent (Z S') = rest \<and> lname S' = lname S"
    using 1 by (simp add: lbind_def)
next
  fix S :: "'d LoadState"
  assume z: "zinv (Z S) \<and> strict_prefix (zcontent (Z S)) (s @ s')"
  show "lbind m f S = Inl (eof_error S)"
  proof (cases "strict_prefix (zcontent (Z S)) s")
    case True
    then have "m S = Inl (eof_error S)" using m z unfolding parses_def by blast
    then show ?thesis by (simp add: lbind_def)
  next
    case False
    then obtain c where c: "zcontent (Z S) = s @ c" "strict_prefix c s'"
      using z by (auto simp: strict_prefix_def prefix_append) metis
    then obtain S1 where 1: "m S = Inr (x, S1)" "zinv (Z S1) \<and> zcontent (Z S1) = c" "lname S1 = lname S"
      using m z unfolding parses_def by metis
    then have "f x S1 = Inl (eof_error S1)" using f c(2) unfolding parses_def by blast
    then show ?thesis using 1 by (simp add: lbind_def eof_error_def)
  qed
qed

lemma parses_bind_return: "parses m s x \<Longrightarrow> parses (f x) [] y \<Longrightarrow> parses (lbind m f) s y"
  using parses_bind [of m s x f "[]" y] by simp

lemma parses_IF: "\<not> c \<Longrightarrow> parses (IF c s) [] ()"
  by (simp add: IF_def parses_return)

lemma parses_block:
  assumes n: "length s = n"
  shows "parses (LoadBlock n) s s"
proof -
  have rd: "\<exists>z'. zinv z' \<and> zcontent z' = drop n (zcontent (Z S)) \<and>
      luaZ_read (Z S) n = (take n (zcontent (Z S)), n - length (zcontent (Z S)), z')" if "zinv (Z S)" for S :: "'d LoadState"
    using read_ok [OF that] by (cases "luaZ_read (Z S) n") auto
  show ?thesis
    unfolding parses_def
  proof (intro conjI allI impI)
    fix S :: "'d LoadState" and rest
    assume z: "zinv (Z S) \<and> zcontent (Z S) = s @ rest"
    then show "\<exists>S'. LoadBlock n S = Inr (s, S') \<and> zinv (Z S') \<and> zcontent (Z S') = rest \<and> lname S' = lname S"
      using rd [of S] n by (auto simp: LoadBlock_def IF_def lreturn_def)
  next
    fix S :: "'d LoadState"
    assume z: "zinv (Z S) \<and> strict_prefix (zcontent (Z S)) s"
    then have "length (zcontent (Z S)) < n" using n by (metis prefix_length_less)
    then show "LoadBlock n S = Inl (eof_error S)"
      using rd [of S] z by (auto simp: LoadBlock_def IF_def lbind_def lerror_def eof_error_def)
  qed
qed

lemma parses_int: "int_ok x \<Longrightarrow> parses LoadInt (le_bytes 4 x) x"
  unfolding LoadInt_def
  by (rule parses_bind_return [OF parses_block])
    (simp_all add: signed_val signed_id int_ok_def IF_def parses_return)

lemma parses_len: "len_ok xs \<Longrightarrow> parses LoadInt (le_bytes 4 (int (length xs))) (int (length xs))"
  by (rule parses_int) (simp add: int_ok_def len_ok_def)

lemma parses_char: "parses LoadChar (le_bytes 1 x) (signed_take_bit 7 x)"
  unfolding LoadChar_def
  by (rule parses_bind_return [OF parses_block]) (simp_all add: signed_val parses_return del: One_nat_def)

lemma parses_byte: "parses LoadByte (le_bytes 1 (uint w)) w"
proof -
  have "(word_of_int (signed_take_bit 7 (uint w)) :: 8 word) = w"
    by (rule bit_word_eqI) (auto simp: bit_simps)
  then show ?thesis unfolding LoadByte_def
    by (intro parses_bind_return [OF parses_char]) (simp add: parses_return)
qed

lemma parses_number: "parses LoadNumber (le_bytes 8 (uint x)) x"
proof -
  have "uint x mod 256 ^ 8 = uint x" using unsigned_less [of x, where 'a = int] by (intro mod_pos_pos_trivial) simp_all
  then have "(word_of_int (le_val (le_bytes 8 (uint x))) :: lua_Number) = x" by (simp only: le_val_bytes word_of_int_uint)
  then show ?thesis unfolding LoadNumber_def
    by (intro parses_bind_return [OF parses_block]) (simp_all add: parses_return)
qed

lemma parses_openspace: "parses m s x \<Longrightarrow> parses (\<lambda>S. m (S\<lparr>b := f (b S)\<rparr>)) s x"
  unfolding parses_def
proof (elim conjE, intro conjI allI impI, goal_cases)
  case (1 S rest)
  then show ?case by (elim allE [of _ "S\<lparr>b := f (b S)\<rparr>"] allE [of _ rest]) simp
next
  case (2 S)
  then show ?case by (elim allE [of _ "S\<lparr>b := f (b S)\<rparr>"]) (simp add: eof_error_def)
qed

lemma parses_string: "str_ok s \<Longrightarrow> parses LoadString (str_bytes s) s"
proof (cases s)
  case None
  then show ?thesis unfolding LoadString_def str_bytes_def
    by (auto intro!: parses_bind_return [OF parses_block] parses_return simp: le_val_bytes)
next
  case (Some t)
  assume "str_ok s"
  then have l: "le_val (le_bytes 8 (int (length t) + 1)) = int (length t) + 1"
    using Some by (simp add: le_val_bytes str_ok_def)
  have "parses (\<lambda>S. lbind (LoadBlock (length t + 1)) (\<lambda>str. lreturn (Some (take (length t) str)))
      (S\<lparr>b := luaZ_openspace (b S) (length t + 1)\<rparr>)) (t @ [NUL]) (Some t)"
    by (rule parses_openspace, rule parses_bind_return [OF parses_block]) (simp_all add: parses_return)
  then show ?thesis unfolding LoadString_def str_bytes_def Some option.case
    by (intro parses_bind [OF parses_block]) (simp_all add: l nat_add_distrib Let_def)
qed

lemma parses_times:
  "(\<And>x. x \<in> set xs \<Longrightarrow> parses m (g x) (h x)) \<Longrightarrow> parses (ltimes (length xs) m) (concat (map g xs)) (map h xs)"
proof (induction xs)
  case (Cons x xs)
  then show ?case
    by (auto intro!: parses_bind [of m] parses_bind_return [of "ltimes (length xs) m"] parses_return)
qed (simp add: parses_return)


lemma parses_seq:
  assumes "len_ok xs" "\<And>x. x \<in> set xs \<Longrightarrow> parses m (g x) (h x)" "\<And>ys. ys = map h xs \<Longrightarrow> parses (f ys) s y"
  shows "parses (lbind LoadInt (\<lambda>n. lbind (ltimes (nat n) m) f)) (seq_bytes g xs @ s) y"
proof -
  have "parses (lbind (ltimes (length xs) m) f) (concat (map g xs) @ s) y"
    by (rule parses_bind [OF parses_times [OF assms(2)] assms(3)]) (assumption, rule refl)
  then show ?thesis unfolding seq_bytes_def append_assoc
    by (intro parses_bind [OF parses_len]) (simp_all add: assms)
qed

lemma parses_seq_return:
  assumes "len_ok xs" "\<And>x. x \<in> set xs \<Longrightarrow> parses m (g x) (h x)" "\<And>ys. ys = map h xs \<Longrightarrow> parses (f ys) [] y"
  shows "parses (lbind LoadInt (\<lambda>n. lbind (ltimes (nat n) m) f)) (seq_bytes g xs) y"
  using parses_seq [OF assms] by simp

lemma parses_vector:
  assumes "len_ok xs" "\<And>ys. ys = concat (map (le_bytes 4) xs) \<Longrightarrow> parses (f (int (length xs)) ys) s y"
  shows "parses (lbind LoadInt (\<lambda>n. lbind (LoadBlock (nat n * 4)) (f n))) (seq_bytes (le_bytes 4) xs @ s) y"
  unfolding seq_bytes_def append_assoc
  by (intro parses_bind [OF parses_len] parses_bind [OF parses_block]) (simp_all add: assms length_concat_le)

lemma parses_code: "len_ok is \<Longrightarrow> parses LoadCode (seq_bytes (\<lambda>i. le_bytes 4 (uint i)) is) is"
proof -
  assume l: "len_ok is"
  have "map word_of_int (words4 (length (map uint is)) (concat (map (le_bytes 4) (map uint is)))) = is"
    unfolding words4_bytes by (induction "is") (simp_all add: mod32)
  then have "parses LoadCode (seq_bytes (le_bytes 4) (map uint is) @ []) is"
    unfolding LoadCode_def by (intro parses_vector) (use l in \<open>simp_all add: len_ok_def parses_return\<close>)
  then show ?thesis by (simp add: seq_bytes_def o_def)
qed

lemma parses_constant: "const_ok v \<Longrightarrow> parses LoadConstant (const_bytes v) v"
proof -
  assume v: "const_ok v"
  have tag: "signed_take_bit 7 (tag_code t) = tag_code t" for t by (cases t) (simp_all add: signed_id)
  have of_bool: "signed_take_bit 7 (of_bool x :: int) = of_bool x" for x by (cases x) (simp_all add: signed_id)
  show ?thesis
    unfolding LoadConstant_def const_bytes_def
    by (rule parses_bind [OF parses_char], cases v)
      (use v in \<open>auto simp: tag of_bool const_ok_def simp del: One_nat_def
        intro!: parses_return parses_bind_return [OF parses_char] parses_bind_return [OF parses_number]
          parses_bind_return [OF parses_string]\<close>)
qed

lemma parses_locvar:
  assumes "str_ok (varname v) \<and> int_ok (startpc v) \<and> int_ok (endpc v)"
  shows "parses LoadLocVar (locvar_bytes v) v"
proof -
  have v: "\<lparr>varname = varname v, startpc = startpc v, endpc = endpc v\<rparr> = v" by simp
  show ?thesis
    unfolding LoadLocVar_def locvar_bytes_def
    by (intro parses_bind [OF parses_string] parses_bind [OF parses_int] parses_bind_return [OF parses_int])
      (simp_all only: assms v parses_return)
qed

lemma parses_debug:
  assumes "len_ok (lineinfo f)" "list_all (\<lambda>x. - (2 ^ 31) \<le> x \<and> x < 2 ^ 31) (lineinfo f)"
    "len_ok (locvars f)" "list_all (\<lambda>v. str_ok (varname v) \<and> int_ok (startpc v) \<and> int_ok (endpc v)) (locvars f)"
    "len_ok (upvalues f)" "list_all str_ok (upvalues f)"
  shows "parses LoadDebug (debug_bytes st f)
    (if st then [] else lineinfo f, if st then [] else locvars f, if st then [] else upvalues f)"
proof -
  have w: "map (signed_take_bit 31) (words4 (length xs) (concat (map (le_bytes 4) xs))) = xs"
    if "list_all (\<lambda>x. - (2 ^ 31) \<le> x \<and> x < 2 ^ 31) xs" for xs
  proof -
    have "signed_take_bit 31 (x mod 2 ^ 32) = x" if "- (2 ^ 31) \<le> x" "x < 2 ^ 31" for x :: int
      using signed_id(1) [OF that] signed_take_bit_take_bit [of 31 32 x] by (simp add: take_bit_eq_mod)
    then show ?thesis using that unfolding words4_bytes by (induction xs) simp_all
  qed
  define ls vs us where "ls = (if st then [] else lineinfo f)" and "vs = (if st then [] else locvars f)"
    and "us = (if st then [] else upvalues f)"
  have ok: "len_ok ls" "list_all (\<lambda>x. - (2 ^ 31) \<le> x \<and> x < 2 ^ 31) ls" "len_ok vs" "len_ok us"
    "\<And>v. v \<in> set vs \<Longrightarrow> parses LoadLocVar (locvar_bytes v) v"
    "\<And>u. u \<in> set us \<Longrightarrow> parses LoadString (str_bytes u) u"
    using assms by (auto simp: ls_def vs_def us_def len_ok_def list_all_iff split: if_splits intro!: parses_locvar parses_string)
  show ?thesis
    unfolding LoadDebug_def debug_bytes_def Let_def ls_def [symmetric] vs_def [symmetric] us_def [symmetric]
  proof (rule parses_vector [OF ok(1)], rule parses_seq [OF ok(3,5)], assumption,
      rule parses_seq_return [OF ok(4,6)], assumption)
    fix ys :: string and vs' us'
    assume "ys = concat (map (le_bytes 4) ls)" "vs' = map (\<lambda>v. v) vs" "us' = map (\<lambda>u. u) us"
    then show "parses (lreturn (map (signed_take_bit 31) (words4 (nat (int (length ls))) ys), vs', us')) [] (ls, vs, us)"
      using w [OF ok(2)] by (simp add: parses_return)
  qed
qed

lemma parses_constants:
  assumes "len_ok ks" "list_all const_ok ks" "len_ok ps" "\<And>g. g \<in> set ps \<Longrightarrow> parses m (fb g) (h g)"
  shows "parses (LoadConstants m) (seq_bytes const_bytes ks @ seq_bytes fb ps) (ks, map h ps)"
proof -
  have ks: "\<And>k. k \<in> set ks \<Longrightarrow> parses LoadConstant (const_bytes k) k"
    using assms(2) by (auto simp: list_all_iff intro: parses_constant)
  show ?thesis
    unfolding LoadConstants_def
  proof (rule parses_seq [OF assms(1) ks], assumption, rule parses_seq_return [OF assms(3,4)], assumption)
    fix ks' ps' assume "ks' = map (\<lambda>k. k) ks" "ps' = map h ps"
    then show "parses (lreturn (ks', ps')) [] (ks, map h ps)" by (simp add: parses_return)
  qed
qed

lemma parses_function:
  assumes "loadable n st p q f"
  shows "parses (LoadFunction n q) (func_bytes st p f) (reload st p q f)"
  using assms
proof (induction n arbitrary: p q f)
  case (Suc n)
  define s where "s = (if p_source f = p \<or> st then None else p_source f)"
  define src where "src = (if s = None then q else s)"
  let ?r = "reload st p q f"
  have r: "?r = Proto src (linedefined f) (lastlinedefined f) (nups f) (numparams f) (is_vararg f) (maxstacksize f)
      (p_code f) (p_k f) (map (\<lambda>g. reload st (p_source f) src g) (p_p f))
      (if st then [] else lineinfo f) (if st then [] else locvars f) (if st then [] else upvalues f)"
    by (subst reload.simps) (auto simp: src_def s_def Let_def)
  then have rs: "p_source ?r = src" by simp
  have L: "str_ok s" "int_ok (linedefined f)" "int_ok (lastlinedefined f)" "len_ok (p_code f)"
    "luaG_checkcode ?r"
    using Suc.prems by (auto simp: s_def str_ok_def)
  have inner: "\<And>g. g \<in> set (p_p f) \<Longrightarrow> parses (LoadFunction n src) (func_bytes st (p_source f) g) (reload st (p_source f) src g)"
    using Suc rs by (simp add: list_all_iff)
  have cs: "parses (LoadConstants (LoadFunction n src))
      (seq_bytes const_bytes (p_k f) @ seq_bytes (\<lambda>g. func_bytes st (p_source f) g) (p_p f))
      (p_k f, map (\<lambda>g. reload st (p_source f) src g) (p_p f))"
    using Suc.prems inner by (intro parses_constants) auto
  have db: "parses LoadDebug (debug_bytes st f)
      (if st then [] else lineinfo f, if st then [] else locvars f, if st then [] else upvalues f)"
    using Suc.prems by (intro parses_debug) auto
  show ?case
    unfolding LoadFunction.simps func_bytes.simps [of st p f] Let_def s_def [symmetric]
    apply (rule parses_bind [OF parses_string [OF L(1)]], unfold src_def [symmetric])
    apply (rule parses_bind [OF parses_int [OF L(2)]], rule parses_bind [OF parses_int [OF L(3)]])
    apply (rule parses_bind [OF parses_byte], rule parses_bind [OF parses_byte],
        rule parses_bind [OF parses_byte], rule parses_bind [OF parses_byte])
    apply (rule parses_bind [OF parses_code [OF L(4)]])
    apply (unfold append_assoc [symmetric], rule parses_bind [OF cs [unfolded append_assoc]], unfold prod.case)
    apply (rule parses_bind_return [OF db], unfold prod.case)
    apply (rule parses_bind_return [OF parses_IF])
    using L(5) r by (simp_all add: parses_return)
qed simp

lemma parses_header: "parses LoadHeader luaU_header ()"
  unfolding LoadHeader_def
  by (rule parses_bind_return [OF parses_block])
    (simp_all add: luaU_header_def LUA_SIGNATURE_def LUAC_HEADERSIZE_def IF_def parses_return)

lemma parses_chunk:
  assumes "loadable (LUAI_MAXCCALLS - nc) st None (Some ''=?'') f"
  shows "parses (lbind LoadHeader (\<lambda>_. LoadFunction (LUAI_MAXCCALLS - nc) (Some ''=?''))) (dump_bytes st f)
    (reload st None (Some ''=?'') f)"
  unfolding dump_bytes_def by (rule parses_bind [OF parses_header parses_function [OF assms(1)]])

lemma undump_ok:
  assumes "loadable (LUAI_MAXCCALLS - nc) st None (Some ''=?'') f" "ok d" "content d = dump_bytes st f @ rest"
  shows "\<exists>S. luaU_undump nc (luaZ_init rd d) buff name = Inr (reload st None (Some ''=?'') f, S) \<and> zcontent (Z S) = rest"
  using parses_chunk [OF assms(1)] init_ok [OF assms(2)] assms(3)
  unfolding luaU_undump_def parses_def by (metis LoadState.select_convs(1))

lemma undump_cut:
  assumes "loadable (LUAI_MAXCCALLS - nc) st None (Some ''=?'') f" "ok d" "strict_prefix (content d) (dump_bytes st f)"
  shows "luaU_undump nc (luaZ_init rd d) buff name =
    Inl (ErrSyntax (chunk_name name @ '': unexpected end in precompiled chunk''))"
proof -
  let ?S = "\<lparr>Z = luaZ_init rd d, b = buff, lname = chunk_name name\<rparr>"
  have "luaU_undump nc (luaZ_init rd d) buff name = Inl (eof_error ?S)"
    using parses_chunk [OF assms(1)] init_ok [OF assms(2)] assms(3)
    unfolding luaU_undump_def parses_def by (metis LoadState.select_convs(1))
  then show ?thesis by (simp add: eof_error_def)
qed

end

subsection \<open>The round trip\<close>

fun has_sources :: "Proto \<Rightarrow> bool" where
  "has_sources f \<longleftrightarrow> p_source f \<noteq> None \<and> list_all has_sources (p_p f)"

declare has_sources.simps [simp del]

lemma reload_id: "has_sources f \<Longrightarrow> p = None \<or> p = q \<Longrightarrow> reload False p q f = f"
proof (induction f arbitrary: p q rule: has_sources.induct)
  case (1 f)
  from 1(2) have s: "p_source f \<noteq> None" "\<And>g. g \<in> set (p_p f) \<Longrightarrow> has_sources g"
    by (subst (asm) has_sources.simps, simp add: list_all_iff)+
  then have "map (\<lambda>g. reload False (p_source f) (p_source f) g) (p_p f) = p_p f"
    by (intro map_idI 1(1)) auto
  then have "reload False p q f = Proto (p_source f) (linedefined f) (lastlinedefined f) (nups f) (numparams f)
      (is_vararg f) (maxstacksize f) (p_code f) (p_k f) (p_p f) (lineinfo f) (locvars f) (upvalues f)"
    using s(1) 1(3) by (subst reload.simps) (auto simp: Let_def simp del: Proto.collapse)
  then show ?case by simp
qed

text \<open>
  C18: a chunk that \<^verbatim>\<open>luaU_dump\<close> wrote is loaded back by \<^verbatim>\<open>luaU_undump\<close>, for
  every writer that reports success only when it has stored the block and every reader that delivers the
  bytes in whatever pieces. The result is the prototype itself; only the sources that stripping removed
  become those of the enclosing function, or \<^verbatim>\<open>=?\<close>.
\<close>

theorem undump_dump:
  assumes "byte_writer w out" "luaU_dump f w e st = (0, e')" "out e = []"
    and "byte_reader rd content ok" "ok d" "content d = out e'"
    and "loadable (LUAI_MAXCCALLS - nc) st None (Some ''=?'') f"
  shows "\<exists>S. luaU_undump nc (luaZ_init rd d) buff name = Inr (reload st None (Some ''=?'') f, S) \<and>
    (\<not> st \<and> has_sources f \<longrightarrow> reload st None (Some ''=?'') f = f)"
proof -
  have "content d = dump_bytes st f @ []"
    using byte_writer.dump_ok(1) [OF assms(1,2)] assms(3,6) by simp
  from byte_reader.undump_ok [OF assms(4,7,5) this] obtain S where
    "luaU_undump nc (luaZ_init rd d) buff name = Inr (reload st None (Some ''=?'') f, S)" by blast
  moreover have "\<not> st \<and> has_sources f \<longrightarrow> reload st None (Some ''=?'') f = f"
    using reload_id [of f None "Some ''=?''"] by (cases st) simp_all
  ultimately show ?thesis by blast
qed

text \<open>A function with two constants and an inner function, through \<^verbatim>\<open>string.dump\<close> and \<^verbatim>\<open>loadstring\<close>.\<close>

definition sample_proto :: Proto where
  "sample_proto = Proto (Some ''@a'') 0 3 0 1 2 3 [8388638] [String ''x'', Number 5]
     [Proto (Some ''@a'') 1 2 1 0 0 2 [8388638] [] [] [1] [\<lparr>varname = Some ''v'', startpc = 0, endpc = 1\<rparr>] [Some ''u'']]
     [3] [] []"

lemma sample_loadable: "loadable (LUAI_MAXCCALLS - 0) False None (Some ''=?'') sample_proto"
  by code_simp

theorem undump_dump_witness:
  "\<exists>S. luaU_undump 0 (luaZ_init getS (loads_of (snd (luaU_dump sample_proto str_writer [] False))))
     \<lparr>buffer = [], bufflen = 0, buffsize = 0\<rparr> ''=a'' = Inr (sample_proto, S)"
proof -
  have "length (dump_bytes False sample_proto) < 1000" by code_simp
  then have l: "length (dump_bytes False sample_proto) < 2 ^ 64" by simp
  have s: "has_sources sample_proto" by code_simp
  let ?d = "loads_of (dump_bytes False sample_proto)"
  have "take (unat (ls_size ?d)) (ls_s ?d) = dump_bytes False sample_proto" "unat (ls_size ?d) \<le> length (ls_s ?d)"
    using l by (simp_all add: loads_of_def unsigned_of_nat take_bit_nat_eq_self)
  from undump_dump [OF str_dump.byte_writer_axioms dump_to_string [of sample_proto "[]" False] refl
      loads.byte_reader_axioms this(2) _ sample_loadable] this(1) s
  show ?thesis by (simp add: dump_to_string) metis
qed

text \<open>
  C19: a chunk that was cut short is refused: on every proper prefix of what \<^verbatim>\<open>luaU_dump\<close> writes, even
  the empty one, \<^verbatim>\<open>luaU_undump\<close> fails with \<^verbatim>\<open>unexpected end in precompiled chunk\<close>,
  however the prefix is delivered.
\<close>

theorem undump_truncated:
  assumes "byte_reader rd content ok" "ok d" "strict_prefix (content d) (dump_bytes st f)"
    and "loadable (LUAI_MAXCCALLS - nc) st None (Some ''=?'') f"
  shows "luaU_undump nc (luaZ_init rd d) buff name =
    Inl (ErrSyntax (chunk_name name @ '': unexpected end in precompiled chunk''))"
  by (rule byte_reader.undump_cut [OF assms(1,4,2,3)])

theorem undump_truncated_witness:
  "luaU_undump 0 (luaZ_init getS (loads_of (take 20 (dump_bytes False sample_proto))))
     \<lparr>buffer = [], bufflen = 0, buffsize = 0\<rparr> ''@a.lua'' =
   Inl (ErrSyntax ''a.lua: unexpected end in precompiled chunk'')"
proof -
  let ?s = "take 20 (dump_bytes False sample_proto)"
  have l: "20 < length (dump_bytes False sample_proto)" by code_simp
  then have "strict_prefix ?s (dump_bytes False sample_proto)"
    unfolding strict_prefix_def by (metis length_take less_irrefl min.absorb4 take_is_prefix)
  moreover have "take (unat (ls_size (loads_of ?s))) (ls_s (loads_of ?s)) = ?s"
    "unat (ls_size (loads_of ?s)) \<le> length (ls_s (loads_of ?s))"
    using l by (simp_all add: loads_of_def unsigned_of_nat take_bit_nat_eq_self)
  ultimately have "luaU_undump 0 (luaZ_init getS (loads_of ?s)) \<lparr>buffer = [], bufflen = 0, buffsize = 0\<rparr> ''@a.lua'' =
    Inl (ErrSyntax (chunk_name ''@a.lua'' @ '': unexpected end in precompiled chunk''))"
    by (intro undump_truncated [OF loads.byte_reader_axioms _ _ sample_loadable]) simp_all
  then show ?thesis by (simp add: chunk_name_def)
qed

end
