(* ===== verification/LuaNumber.thy ===== *)
theory LuaNumber
  imports LuaObject "HOL-Library.Code_Target_Numeral"
begin

section \<open>Arithmetic, parsing and printing of numbers\<close>

text \<open>
  The number macros of \<^verbatim>\<open>luaconf.h\<close> on IEEE doubles: the operations round the exact result
  to the nearest double, to even on ties, and \<^verbatim>\<open>strtod\<close> and \<^verbatim>\<open>sprintf("%.14g")\<close>
  of the C library are exact in the same sense. \<^verbatim>\<open>pow\<close>, which libraries round differently, is
  a parameter of what uses it. A finite double is a sign, a magnitude and an exponent of two.
\<close>

subsection \<open>Rounding\<close>

definition dbl_inf :: "bool \<Rightarrow> lua_Number" where
  "dbl_inf neg = of_nat ((if neg then 2 ^ 63 else 0) + 2047 * 2 ^ 52)"

text \<open>The quiet NaN that an invalid operation gives on x86.\<close>

definition dbl_qnan :: lua_Number where
  "dbl_qnan = 0xFFF8000000000000"

definition dbl_isinf :: "lua_Number \<Rightarrow> bool" where
  "dbl_isinf d \<longleftrightarrow> dbl_exp d = 2047 \<and> dbl_frac d = 0"

definition dbl_signed_zero :: "bool \<Rightarrow> lua_Number" where
  "dbl_signed_zero neg = of_nat (if neg then 2 ^ 63 else 0)"

text \<open>Magnitude and exponent of a finite double: its value is \<open>dbl_mant d * 2 ^ dbl_pow d\<close>.\<close>

definition dbl_mant :: "lua_Number \<Rightarrow> nat" where
  "dbl_mant d = dbl_frac d + (if dbl_exp d = 0 then 0 else 2 ^ 52)"

definition dbl_pow :: "lua_Number \<Rightarrow> int" where
  "dbl_pow d = int (if dbl_exp d = 0 then 1 else dbl_exp d) - 1075"

text \<open>\<open>num / den * 2 ^ (- e)\<close> as a quotient and a remainder with its divisor.\<close>

definition scaled :: "nat \<Rightarrow> nat \<Rightarrow> int \<Rightarrow> nat \<times> nat" where
  "scaled num den e = (num * 2 ^ nat (- e), den * 2 ^ nat e)"

definition round_even :: "nat \<Rightarrow> nat \<Rightarrow> nat" where
  "round_even n d =
     (let q = n div d; r = n mod d in if 2 * r > d \<or> 2 * r = d \<and> odd q then q + 1 else q)"

definition frac_exp :: "nat \<Rightarrow> nat \<Rightarrow> int" where
  "frac_exp num den =
     (let e = int (ilog2 num) - int (ilog2 den) - 52;
          (n, d) = scaled num den e
      in max (-1074) (if n div d \<ge> 2 ^ 52 then e else e - 1))"

text \<open>The double nearest to \<open>num / den\<close>, for \<open>num\<close> and \<open>den\<close> not 0.\<close>

definition dbl_of_frac :: "bool \<Rightarrow> nat \<Rightarrow> nat \<Rightarrow> lua_Number" where
  "dbl_of_frac neg num den =
     (if num = 0 then dbl_signed_zero neg
      else
        let e = frac_exp num den;
            (n, d) = scaled num den e;
            bits = nat (e + 1074) * 2 ^ 52 + round_even n d
        in if bits \<ge> 2047 * 2 ^ 52 then dbl_inf neg
           else of_nat ((if neg then 2 ^ 63 else 0) + bits))"

text \<open>\<open>m * 2 ^ e\<close> rounded.\<close>

definition dbl_of_scaled :: "bool \<Rightarrow> nat \<Rightarrow> int \<Rightarrow> lua_Number" where
  "dbl_of_scaled neg m e = dbl_of_frac neg (m * 2 ^ nat e) (2 ^ nat (- e))"

subsection \<open>The operations\<close>

definition luai_numunm :: "lua_Number \<Rightarrow> lua_Number" where
  "luai_numunm a = a XOR push_bit 63 1"

definition dbl_signed :: "lua_Number \<Rightarrow> int \<Rightarrow> int" where
  "dbl_signed d e = (if dbl_neg d then - 1 else 1) * int (dbl_mant d * 2 ^ nat (dbl_pow d - e))"

definition luai_numadd :: "lua_Number \<Rightarrow> lua_Number \<Rightarrow> lua_Number" where
  "luai_numadd a b =
     (if dbl_nan a \<or> dbl_nan b then dbl_qnan
      else if dbl_isinf a then (if dbl_isinf b \<and> dbl_neg a \<noteq> dbl_neg b then dbl_qnan else a)
      else if dbl_isinf b then b
      else
        let e = min (dbl_pow a) (dbl_pow b); s = dbl_signed a e + dbl_signed b e in
        if s = 0 then dbl_signed_zero (dbl_zero a \<and> dbl_zero b \<and> dbl_neg a \<and> dbl_neg b)
        else dbl_of_scaled (s < 0) (nat \<bar>s\<bar>) e)"

definition luai_numsub :: "lua_Number \<Rightarrow> lua_Number \<Rightarrow> lua_Number" where
  "luai_numsub a b = (if dbl_nan b then dbl_qnan else luai_numadd a (luai_numunm b))"

definition luai_nummul :: "lua_Number \<Rightarrow> lua_Number \<Rightarrow> lua_Number" where
  "luai_nummul a b =
     (let neg = (dbl_neg a \<noteq> dbl_neg b) in
      if dbl_nan a \<or> dbl_nan b then dbl_qnan
      else if dbl_isinf a \<or> dbl_isinf b then (if dbl_zero a \<or> dbl_zero b then dbl_qnan else dbl_inf neg)
      else dbl_of_scaled neg (dbl_mant a * dbl_mant b) (dbl_pow a + dbl_pow b))"

definition luai_numdiv :: "lua_Number \<Rightarrow> lua_Number \<Rightarrow> lua_Number" where
  "luai_numdiv a b =
     (let neg = (dbl_neg a \<noteq> dbl_neg b) in
      if dbl_nan a \<or> dbl_nan b then dbl_qnan
      else if dbl_isinf a then (if dbl_isinf b then dbl_qnan else dbl_inf neg)
      else if dbl_isinf b then dbl_signed_zero neg
      else if dbl_zero b then (if dbl_zero a then dbl_qnan else dbl_inf neg)
      else
        let e = dbl_pow a - dbl_pow b in
        dbl_of_frac neg (dbl_mant a * 2 ^ nat e) (dbl_mant b * 2 ^ nat (- e)))"

text \<open>\<^verbatim>\<open>floor\<close> of the C library.\<close>

definition dbl_floor :: "lua_Number \<Rightarrow> lua_Number" where
  "dbl_floor d =
     (if dbl_nan d then dbl_qnan
      else if dbl_exp d = 2047 \<or> dbl_zero d \<or> dbl_pow d \<ge> 0 then d
      else
        let q = dbl_mant d div 2 ^ nat (- dbl_pow d); r = dbl_mant d mod 2 ^ nat (- dbl_pow d) in
        if dbl_neg d then dbl_of_frac True (if r = 0 then q else q + 1) 1
        else dbl_of_frac False q 1)"

definition luai_nummod :: "lua_Number \<Rightarrow> lua_Number \<Rightarrow> lua_Number" where
  "luai_nummod a b = luai_numsub a (luai_nummul (dbl_floor (luai_numdiv a b)) b)"

definition luai_numlt :: "lua_Number \<Rightarrow> lua_Number \<Rightarrow> bool" where
  "luai_numlt a b \<longleftrightarrow>
     \<not> dbl_nan a \<and> \<not> dbl_nan b \<and> \<not> (dbl_zero a \<and> dbl_zero b) \<and>
     (if dbl_neg a then \<not> dbl_neg b \<or> unat b < unat a else \<not> dbl_neg b \<and> unat a < unat b)"

definition luai_numle :: "lua_Number \<Rightarrow> lua_Number \<Rightarrow> bool" where
  "luai_numle a b \<longleftrightarrow> luai_numlt a b \<or> luai_numeq a b"

subsection \<open>Printing: the format \<^verbatim>\<open>%.14g\<close>\<close>

definition digit :: "nat \<Rightarrow> char" where "digit n = char_of (48 + n)"

fun nat_digits :: "nat \<Rightarrow> string" where
  "nat_digits n = (if n < 10 then [digit n] else nat_digits (n div 10) @ [digit (n mod 10)])"

declare nat_digits.simps [simp del]

text \<open>The exponent of ten of \<open>num / den\<close>: \<open>10 ^ X \<le> num / den < 10 ^ (X + 1)\<close>.\<close>

definition exp10 :: "nat \<Rightarrow> nat \<Rightarrow> int" where
  "exp10 num den =
     (if num \<ge> den then int (length (nat_digits (num div den))) - 1
      else - int (length (nat_digits ((den + num - 1) div num - 1))))"

text \<open>Its first \<open>p\<close> decimal digits, rounded, and the exponent after the rounding.\<close>

definition sci_digits :: "nat \<Rightarrow> nat \<Rightarrow> nat \<Rightarrow> nat \<times> int" where
  "sci_digits p num den =
     (let X = exp10 num den;
          k = X - int p + 1;
          D = round_even (num * 10 ^ nat (- k)) (den * 10 ^ nat k)
      in if D \<ge> 10 ^ p then (10 ^ (p - 1), X + 1) else (D, X))"

definition strip_zeros :: "string \<Rightarrow> string" where
  "strip_zeros s = rev (dropWhile (\<lambda>c. c = CHR ''0'') (rev s))"

definition with_point :: "string \<Rightarrow> string \<Rightarrow> string" where
  "with_point a b = (if b = [] then a else a @ CHR ''.'' # b)"

definition exp_suffix :: "int \<Rightarrow> string" where
  "exp_suffix X =
     (let s = nat_digits (nat \<bar>X\<bar>) in
      CHR ''e'' # (if X < 0 then CHR ''-'' else CHR ''+'') # (if length s < 2 then CHR ''0'' # s else s))"

definition format_g :: "nat \<Rightarrow> lua_Number \<Rightarrow> string" where
  "format_g p d =
     (let sign = (if dbl_neg d then ''-'' else '''') in
      if dbl_nan d then sign @ ''nan''
      else if dbl_isinf d then sign @ ''inf''
      else if dbl_zero d then sign @ ''0''
      else
        let (D, X) = sci_digits p (dbl_mant d * 2 ^ nat (dbl_pow d)) (2 ^ nat (- dbl_pow d));
            s = nat_digits D
        in sign @
           (if X < - 4 \<or> X \<ge> int p then with_point (take 1 s) (strip_zeros (drop 1 s)) @ exp_suffix X
            else if X \<ge> 0 then with_point (take (nat X + 1) s) (strip_zeros (drop (nat X + 1) s))
            else with_point ''0'' (replicate (nat (- X - 1)) (CHR ''0'') @ strip_zeros s)))"

definition lua_number2str :: "lua_Number \<Rightarrow> string" where
  "lua_number2str n = format_g 14 n"

subsection \<open>Parsing: \<^verbatim>\<open>strtod\<close>, \<^verbatim>\<open>strtoul\<close> and \<^verbatim>\<open>luaO_str2d\<close>\<close>

text \<open>The classes of characters of the C locale; \<open>uchar c\<close> is the byte.\<close>

definition uchar :: "char \<Rightarrow> nat" where "uchar c = of_char c"
definition isspace :: "char \<Rightarrow> bool" where "isspace c \<longleftrightarrow> uchar c = 32 \<or> 9 \<le> uchar c \<and> uchar c \<le> 13"
definition isdigit :: "char \<Rightarrow> bool" where "isdigit c \<longleftrightarrow> 48 \<le> uchar c \<and> uchar c \<le> 57"
definition isupper :: "char \<Rightarrow> bool" where "isupper c \<longleftrightarrow> 65 \<le> uchar c \<and> uchar c \<le> 90"
definition islower :: "char \<Rightarrow> bool" where "islower c \<longleftrightarrow> 97 \<le> uchar c \<and> uchar c \<le> 122"
definition isalpha :: "char \<Rightarrow> bool" where "isalpha c \<longleftrightarrow> isupper c \<or> islower c"
definition isalnum :: "char \<Rightarrow> bool" where "isalnum c \<longleftrightarrow> isalpha c \<or> isdigit c"
definition isxdigit :: "char \<Rightarrow> bool" where
  "isxdigit c \<longleftrightarrow> isdigit c \<or> 65 \<le> uchar c \<and> uchar c \<le> 70 \<or> 97 \<le> uchar c \<and> uchar c \<le> 102"
definition iscntrl :: "char \<Rightarrow> bool" where "iscntrl c \<longleftrightarrow> uchar c < 32 \<or> uchar c = 127"
definition ispunct :: "char \<Rightarrow> bool" where
  "ispunct c \<longleftrightarrow> 33 \<le> uchar c \<and> uchar c \<le> 126 \<and> \<not> isalnum c"
definition toupper :: "char \<Rightarrow> char" where "toupper c = (if islower c then char_of (uchar c - 32) else c)"
definition tolower :: "char \<Rightarrow> char" where "tolower c = (if isupper c then char_of (uchar c + 32) else c)"

definition xdigit_val :: "char \<Rightarrow> nat" where
  "xdigit_val c = (if isdigit c then uchar c - 48 else if isupper c then uchar c - 55 else uchar c - 87)"

definition digits_val :: "nat \<Rightarrow> string \<Rightarrow> nat" where
  "digits_val b s = foldl (\<lambda>n c. b * n + xdigit_val c) 0 s"

definition span :: "(char \<Rightarrow> bool) \<Rightarrow> string \<Rightarrow> string \<times> string" where
  "span P s = (takeWhile P s, dropWhile P s)"

text \<open>A sign, if there is one.\<close>

definition scan_sign :: "string \<Rightarrow> bool \<times> string" where
  "scan_sign s =
     (if char_at s 0 = CHR ''-'' then (True, drop 1 s)
      else if char_at s 0 = CHR ''+'' then (False, drop 1 s) else (False, s))"

text \<open>An exponent after one of the letters \<open>cs\<close>, if it has digits.\<close>

definition scan_exp :: "string \<Rightarrow> string \<Rightarrow> int \<times> string" where
  "scan_exp cs s =
     (if s \<noteq> [] \<and> hd s \<in> set cs then
        let (neg, t) = scan_sign (tl s); (ds, rest) = span isdigit t in
        if ds = [] then (0, s) else ((if neg then -1 else 1) * int (digits_val 10 ds), rest)
      else (0, s))"

text \<open>Digits with an optional point: the digits, how many are after the point, and the rest.\<close>

definition scan_mant :: "(char \<Rightarrow> bool) \<Rightarrow> string \<Rightarrow> string \<times> nat \<times> string" where
  "scan_mant P s =
     (let (a, r) = span P s in
      if char_at r 0 = CHR ''.'' then
        let (f, r') = span P (drop 1 r) in if a = [] \<and> f = [] then ([], 0, s) else (a @ f, length f, r')
      else (a, 0, r))"

definition dec_val :: "bool \<Rightarrow> nat \<Rightarrow> int \<Rightarrow> lua_Number" where
  "dec_val neg m e = dbl_of_frac neg (m * 10 ^ nat e) (10 ^ nat (- e))"

definition ci_prefix :: "string \<Rightarrow> string \<Rightarrow> bool" where
  "ci_prefix w s \<longleftrightarrow> take (length w) (map tolower s) = w"

text \<open>The characters of \<^verbatim>\<open>nan(...)\<close> in parentheses, if they are closed.\<close>

definition scan_nan :: "string \<Rightarrow> string" where
  "scan_nan s =
     (let (w, r) = span (\<lambda>c. isalnum c \<or> c = CHR ''_'') (drop 1 s) in
      if char_at s 0 = CHR ''('' \<and> char_at r 0 = CHR '')'' then drop 1 r else s)"

definition scan_hex :: "bool \<Rightarrow> string \<Rightarrow> (lua_Number \<times> string) option" where
  "scan_hex neg s =
     (if ci_prefix ''0x'' s then
        case scan_mant isxdigit (drop 2 s) of
          (ds, f, r) \<Rightarrow>
            if ds = [] then None
            else let (e, r') = scan_exp ''pP'' r in Some (dbl_of_scaled neg (digits_val 16 ds) (e - 4 * int f), r')
      else None)"

definition strtod :: "string \<Rightarrow> lua_Number \<times> string" where
  "strtod s =
     (let (neg, t) = scan_sign (dropWhile isspace s) in
      case scan_hex neg t of
        Some x \<Rightarrow> x
      | None \<Rightarrow>
          (case scan_mant isdigit t of
             (ds, f, r) \<Rightarrow>
               if ds \<noteq> [] then let (e, r') = scan_exp ''eE'' r in (dec_val neg (digits_val 10 ds) (e - int f), r')
               else if ci_prefix ''infinity'' t then (dbl_inf neg, drop 8 t)
               else if ci_prefix ''inf'' t then (dbl_inf neg, drop 3 t)
               else if ci_prefix ''nan'' t then (if neg then dbl_qnan else luai_numunm dbl_qnan, scan_nan (drop 3 t))
               else (0, s)))"

text \<open>\<^verbatim>\<open>strtoul (s, &endptr, 16)\<close> with 64-bit longs.\<close>

definition strtoul16 :: "string \<Rightarrow> 64 word \<times> string" where
  "strtoul16 s =
     (let (neg, t) = scan_sign (dropWhile isspace s);
          t' = (if ci_prefix ''0x'' t \<and> isxdigit (char_at t 2) then drop 2 t else t);
          (ds, r) = span isxdigit t'; n = digits_val 16 ds in
      if ds = [] then (0, s)
      else if n \<ge> 2 ^ 64 then (- 1, r)
      else (if neg then - of_nat n else of_nat n, r))"

definition luaO_str2d :: "string \<Rightarrow> lua_Number option" where
  "luaO_str2d s =
     (let (d, endptr) = strtod s in
      if length endptr = length s then None
      else
        let (d, endptr) =
              (if char_at endptr 0 = CHR ''x'' \<or> char_at endptr 0 = CHR ''X''
               then (let (u, r) = strtoul16 s in (dbl_of_frac False (unat u) 1, r)) else (d, endptr))
        in if endptr = [] then Some d
           else if dropWhile isspace endptr \<noteq> [] then None else Some d)"

subsection \<open>Integers come back from their text\<close>

lemma round_even_exact: "d > 0 \<Longrightarrow> round_even (q * d) d = q"
  by (simp add: round_even_def)

lemma dbl_of_frac_int:
  assumes "0 < n" "n < 2 ^ 53"
  shows "dbl_of_frac neg n 1 = cast_num (if neg then - int n else int n)"
proof -
  let ?k = "if neg then - int n else int n" and ?l = "ilog2 n"
  have k: "?k \<noteq> 0" "\<bar>?k\<bar> < 2 ^ 53" "nat \<bar>?k\<bar> = n" "?k < 0 \<longleftrightarrow> neg" using assms by auto
  note f = cast_num_fields [OF k(1,2), unfolded k(3)]
  have l: "?l \<le> 52" "2 ^ 52 \<le> n * 2 ^ (52 - ?l)" using f(4,5) by auto
  have l1: "ilog2 (Suc 0) = 0" by (simp add: ilog2.simps)
  have e: "frac_exp n 1 = int ?l - 52" using l by (simp add: frac_exp_def scaled_def l1 nat_diff_distrib Let_def)
  have sc: "scaled n 1 (int ?l - 52) = (n * 2 ^ (52 - ?l), 1)"
    using l by (simp add: scaled_def nat_diff_distrib)
  have hi: "n * 2 ^ (52 - ?l) < 2 ^ 53"
  proof -
    have "n < 2 * 2 ^ ?l" using ilog2_bounds [OF assms(1)] by simp
    then have "n * 2 ^ (52 - ?l) < 2 * 2 ^ ?l * 2 ^ (52 - ?l)" by (intro mult_strict_right_mono) simp_all
    also have "\<dots> = 2 ^ 53" using l by (simp flip: power_add power_Suc)
    finally show ?thesis .
  qed
  define b where "b = nat (int ?l - 52 + 1074) * 2 ^ 52 + n * 2 ^ (52 - ?l)"
  have b1: "b = (1023 + ?l) * 2 ^ 52 + (n * 2 ^ (52 - ?l) - 2 ^ 52)" using l by (simp add: b_def nat_add_distrib)
  have b2: "\<not> b \<ge> 2047 * 2 ^ 52" using l hi unfolding b1 by simp
  have r: "round_even (n * 2 ^ (52 - ?l)) 1 = n * 2 ^ (52 - ?l)"
    using round_even_exact [of 1 "n * 2 ^ (52 - ?l)"] by simp
  have "dbl_of_frac neg n 1 = of_nat ((if neg then 2 ^ 63 else 0) + b)"
    using assms(1)
    by (simp only: dbl_of_frac_def e sc Let_def prod.case r b_def [symmetric] b2 if_False neq0_conv [symmetric])
  also have "\<dots> = cast_num ?k"
    unfolding cast_num_def Let_def k(3) k(4) b1 using k(1) by (simp only: if_False add.assoc)
  finally show ?thesis .
qed

lemma digit_char: "n < 10 \<Longrightarrow> uchar (digit n) = 48 + n"
  by (simp add: digit_def uchar_def)

lemma nat_digits_isdigit: "c \<in> set (nat_digits n) \<Longrightarrow> isdigit c"
  by (induction n rule: nat_digits.induct)
    (subst (asm) (2) nat_digits.simps, auto simp: isdigit_def digit_char split: if_splits)

lemma nat_digits_nonempty [simp]: "nat_digits n \<noteq> []"
  by (subst nat_digits.simps) simp

lemma digits_val_snoc: "digits_val b (s @ [c]) = b * digits_val b s + xdigit_val c"
  by (simp add: digits_val_def)

lemma digits_val_nat [simp]: "digits_val 10 (nat_digits n) = n"
proof (induction n rule: nat_digits.induct)
  case (1 n)
  then show ?case
    by (subst nat_digits.simps) (auto simp: digits_val_snoc digits_val_def xdigit_val_def isdigit_def digit_char)
qed

lemma length_nat_digits: "n > 0 \<Longrightarrow> 10 ^ (length (nat_digits n) - 1) \<le> n \<and> n < 10 ^ length (nat_digits n)"
proof (induction n rule: nat_digits.induct)
  case (1 n)
  show ?case
  proof (cases "n < 10")
    case True
    then show ?thesis using 1(2) by (subst (1 2) nat_digits.simps) simp
  next
    case False
    then have IH: "10 ^ (length (nat_digits (n div 10)) - 1) \<le> n div 10" "n div 10 < 10 ^ length (nat_digits (n div 10))"
      using 1(1) by auto
    have L: "length (nat_digits n) = Suc (length (nat_digits (n div 10)))" using False by (subst nat_digits.simps) simp
    have "(10::nat) ^ length (nat_digits (n div 10)) = 10 * 10 ^ (length (nat_digits (n div 10)) - 1)"
      by (cases "length (nat_digits (n div 10))") simp_all
    then have "10 ^ length (nat_digits (n div 10)) \<le> n" using IH(1) by linarith
    moreover have "n < 10 * 10 ^ length (nat_digits (n div 10))" using IH(2) by linarith
    ultimately show ?thesis unfolding L by simp
  qed
qed

lemma digit_0: "digit 0 = CHR ''0''"
  by code_simp

lemma replicate_snoc: "replicate j x @ [x] = x # replicate j x"
  by (induction j) simp_all

lemma nat_digits_shift: "n > 0 \<Longrightarrow> nat_digits (n * 10 ^ j) = nat_digits n @ replicate j (CHR ''0'')"
proof (induction j)
  case (Suc j)
  have m: "n * 10 ^ Suc j = 10 * (n * 10 ^ j)" by simp
  have "\<not> 10 * (n * 10 ^ j) < 10" using Suc(2) by simp
  then have "nat_digits (10 * (n * 10 ^ j)) = nat_digits (n * 10 ^ j) @ [digit 0]"
    by (subst nat_digits.simps) simp
  then show ?case using Suc unfolding m by (simp add: digit_0 replicate_snoc)
qed simp

lemma strip_zeros_replicate: "strip_zeros (replicate j (CHR ''0'')) = []"
  by (simp add: strip_zeros_def)

definition int_text :: "int \<Rightarrow> string" where
  "int_text k = (if k < 0 then ''-'' else '''') @ nat_digits (nat \<bar>k\<bar>)"

lemma number2str_int:
  assumes "\<bar>k\<bar> < 10 ^ 14"
  shows "lua_number2str (cast_num k) = int_text k"
proof (cases "k = 0")
  case True
  have "nat_digits 0 = ''0''" by (subst nat_digits.simps) (simp add: digit_0)
  then show ?thesis using True
    by (simp add: lua_number2str_def format_g_def cast_num_0 int_text_def dbl_nan_def dbl_isinf_def dbl_neg_def)
next
  case False
  let ?n = "nat \<bar>k\<bar>" and ?l = "ilog2 (nat \<bar>k\<bar>)"
  let ?L = "length (nat_digits ?n)"
  have n: "0 < ?n" "?n < 10 ^ 14" using False assms by auto
  have small: "\<bar>k\<bar> < 2 ^ 53" using assms by simp
  note f = cast_num_fields [OF False small]
  have ex: "dbl_exp (cast_num k) = 1023 + ?l" by (rule f(1))
  have mp: "dbl_mant (cast_num k) = ?n * 2 ^ (52 - ?l)" "dbl_pow (cast_num k) = int ?l - 52"
    using f(2,4) by (simp_all add: dbl_mant_def dbl_pow_def ex)
  have nd: "dbl_mant (cast_num k) * 2 ^ nat (dbl_pow (cast_num k)) = ?n * 2 ^ (52 - ?l)"
    "(2::nat) ^ nat (- dbl_pow (cast_num k)) = 2 ^ (52 - ?l)"
    using f(5) unfolding mp by (simp_all add: nat_diff_distrib)
  have L: "1 \<le> ?L" "?n < 10 ^ ?L" "10 ^ (?L - 1) \<le> ?n"
    using length_nat_digits [OF n(1)] nat_digits_nonempty [of ?n] by (auto simp: Suc_le_eq)
  have "(10::nat) ^ (?L - 1) < 10 ^ 14" using L(3) n(2) by linarith
  then have "?L - 1 < 14" by (rule power_less_imp_less_exp [rotated]) simp
  then have L14: "?L \<le> 14" by simp
  have X: "exp10 (?n * 2 ^ (52 - ?l)) (2 ^ (52 - ?l)) = int ?L - 1"
    using n(1) by (simp add: exp10_def del: zero_less_nat_eq)
  have k14: "int ?L - 1 - int 14 + 1 = int ?L - 14" by simp
  have "round_even (?n * 2 ^ (52 - ?l) * 10 ^ (14 - ?L)) (2 ^ (52 - ?l)) = ?n * 10 ^ (14 - ?L)"
    using round_even_exact [of "2 ^ (52 - ?l)" "?n * 10 ^ (14 - ?L)"] by (simp add: ac_simps)
  moreover have "nat (- (int ?L - 14)) = 14 - ?L" "nat (int ?L - 14) = 0" using L14 by auto
  moreover have "\<not> ?n * 10 ^ (14 - ?L) \<ge> 10 ^ 14"
  proof -
    have "?n * 10 ^ (14 - ?L) < 10 ^ ?L * 10 ^ (14 - ?L)" using L(2) by (intro mult_strict_right_mono) simp_all
    also have "\<dots> = 10 ^ 14" using L14 by (simp flip: power_add)
    finally show ?thesis by simp
  qed
  ultimately have sd: "sci_digits 14 (?n * 2 ^ (52 - ?l)) (2 ^ (52 - ?l)) = (?n * 10 ^ (14 - ?L), int ?L - 1)"
    unfolding sci_digits_def X Let_def k14 by simp
  have cls: "\<not> dbl_nan (cast_num k)" "\<not> dbl_isinf (cast_num k)" "\<not> dbl_zero (cast_num k)"
    using f(5) by (simp_all add: dbl_nan_def dbl_isinf_def dbl_zero_def ex)
  have "nat (int ?L - 1) + 1 = ?L" using L(1) by simp
  then show ?thesis
    using L14 L(1) cls f(3) unfolding lua_number2str_def format_g_def Let_def nd sd
    by (simp add: nat_digits_shift [OF n(1)] strip_zeros_replicate with_point_def int_text_def)
qed

lemma isdigit_facts:
  assumes "isdigit c"
  shows "\<not> isspace c" "c \<noteq> CHR ''-''" "c \<noteq> CHR ''+''" "c \<noteq> CHR ''x''" "tolower c \<noteq> CHR ''x''" "c \<noteq> CHR ''.''"
proof -
  have r: "48 \<le> uchar c" "uchar c \<le> 57" using assms by (auto simp: isdigit_def)
  have u: "uchar CHR ''-'' = 45" "uchar CHR ''+'' = 43" "uchar CHR ''x'' = 120" "uchar CHR ''.'' = 46" by code_simp+
  show "\<not> isspace c" using r by (auto simp: isspace_def)
  show "c \<noteq> CHR ''-''" "c \<noteq> CHR ''+''" "c \<noteq> CHR ''x''" "c \<noteq> CHR ''.''" using r u by auto
  moreover have "tolower c = c" using r by (simp add: tolower_def isupper_def)
  ultimately show "tolower c \<noteq> CHR ''x''" by simp
qed

lemma strtod_digits:
  assumes "ds \<noteq> []" "\<And>c. c \<in> set ds \<Longrightarrow> isdigit c"
  shows "strtod ds = (dec_val False (digits_val 10 ds) 0, [])"
    "strtod (CHR ''-'' # ds) = (dec_val True (digits_val 10 ds) 0, [])"
proof -
  obtain c s where ds: "ds = c # s" using assms(1) by (cases ds) auto
  have c: "isdigit c" using assms(2) ds by simp
  note cf = isdigit_facts [OF c]
  have minus: "\<not> isspace (CHR ''-'')" by code_simp
  have "\<not> ci_prefix ''0x'' ds"
  proof (cases s)
    case (Cons c' s')
    then have "isdigit c'" using assms(2) ds by simp
    then show ?thesis using isdigit_facts(5) ds Cons by (simp add: ci_prefix_def)
  qed (simp add: ds ci_prefix_def)
  then have hex: "scan_hex neg ds = None" for neg by (simp add: scan_hex_def)
  have tw: "takeWhile isdigit ds = ds" "dropWhile isdigit ds = []"
    using assms(2) by (simp_all add: takeWhile_eq_all_conv dropWhile_eq_Nil_conv)
  then have m: "scan_mant isdigit ds = (ds, 0, [])" unfolding scan_mant_def span_def tw by simp
  have s: "dropWhile isspace ds = ds" "scan_sign ds = (False, ds)" using cf ds by (simp_all add: scan_sign_def)
  have s': "dropWhile isspace (CHR ''-'' # ds) = CHR ''-'' # ds" "scan_sign (CHR ''-'' # ds) = (True, ds)"
    using minus by (simp_all add: scan_sign_def)
  show "strtod ds = (dec_val False (digits_val 10 ds) 0, [])"
    "strtod (CHR ''-'' # ds) = (dec_val True (digits_val 10 ds) 0, [])"
    unfolding strtod_def s s' Let_def prod.case hex option.case m using assms(1) by (simp_all add: scan_exp_def)
qed

lemma cast_num_signed: "\<bar>k\<bar> < 2 ^ 53 \<Longrightarrow> dec_val (k < 0) (nat \<bar>k\<bar>) 0 = cast_num k"
proof (cases "k = 0")
  case True
  then show ?thesis by (simp add: dec_val_def dbl_of_frac_def dbl_signed_zero_def cast_num_0)
next
  case False
  assume "\<bar>k\<bar> < 2 ^ 53"
  then have "0 < nat \<bar>k\<bar>" "nat \<bar>k\<bar> < 2 ^ 53" using False by auto
  from dbl_of_frac_int [OF this, of "k < 0"] show ?thesis by (simp add: dec_val_def split: if_splits)
qed

text \<open>
  C20: integers survive the conversions that the API does silently. An integer of up to 14 digits is printed by
  \<^verbatim>\<open>lua_number2str\<close> as its plain decimal text, and \<^verbatim>\<open>luaO_str2d\<close> reads
  that text back as the same number.
\<close>

theorem number_text_roundtrip:
  assumes "\<bar>k\<bar> < 10 ^ 14"
  shows "lua_number2str (cast_num k) = int_text k \<and> luaO_str2d (lua_number2str (cast_num k)) = Some (cast_num k)"
proof -
  have small: "\<bar>k\<bar> < 2 ^ 53" using assms by simp
  let ?ds = "nat_digits (nat \<bar>k\<bar>)"
  have d: "strtod (int_text k) = (cast_num k, [])"
    using strtod_digits [of ?ds] nat_digits_isdigit cast_num_signed [OF small]
    by (cases "k < 0") (simp_all add: int_text_def)
  have "int_text k \<noteq> []" by (simp add: int_text_def)
  then show ?thesis unfolding number2str_int [OF assms] luaO_str2d_def d by (simp add: Let_def)
qed

theorem number_text_roundtrip_witness:
  "luaO_str2d (lua_number2str (cast_num (- 12345))) = Some (cast_num (- 12345)) \<and> int_text (- 12345) = ''-12345''"
proof
  show "luaO_str2d (lua_number2str (cast_num (- 12345))) = Some (cast_num (- 12345))"
    using number_text_roundtrip [of "- 12345", THEN conjunct2] by simp
  show "int_text (- 12345) = ''-12345''" by code_simp
qed

end
