(* ===== verification/LuaState.thy ===== *)
theory LuaState
  imports LuaTableMap LuaProto LuaText
begin

section \<open>The state of the machine\<close>

text \<open>
  The structures of \<^verbatim>\<open>lstate.h\<close> and the closures of \<^verbatim>\<open>lobject.h\<close>, for a state with one thread
  and no hooks. Objects other than strings live in maps from addresses; the stack is the whole array
  that is allocated, with the indices \<open>base\<close> and \<open>top\<close> into it. An operation takes the state and gives a
  value or an error with the state it leaves: a Lua error keeps what was done before it. The collector,
  whose barriers and steps the sources call, is not part of the model: objects are never freed.
\<close>

subsection \<open>Structures\<close>

type_synonym addr = nat

datatype closure =
    CClosure (c_env: addr) (c_f: nat) (c_upvalue: "tvalue list")
  | LClosure (l_env: addr) (l_p: Proto) (l_upvals: "addr list")

datatype UpVal = Open nat | Closed tvalue

record Udata =
  u_metatable :: "addr option"
  u_env :: addr
  u_data :: string

record CallInfo =
  ci_base :: nat
  ci_func :: nat
  ci_top :: nat
  ci_savedpc :: int
  ci_nresults :: int
  ci_tailcalls :: nat

text \<open>\<open>ci\<close> is the current call; \<open>callers\<close> are those below it, the innermost first, down to \<^verbatim>\<open>base_ci\<close>;
  \<open>size_ci\<close> is the size of the array they are in.\<close>

record lua_State =
  stack :: "tvalue list"
  top :: nat
  base :: nat
  ci :: CallInfo
  callers :: "CallInfo list"
  size_ci :: nat
  savedpc :: int
  l_gt :: tvalue
  nCcalls :: nat
  errfunc :: nat
  openupval :: "addr list"
  registry :: tvalue
  mt :: "ttag \<Rightarrow> addr option"
  tables :: "addr \<Rightarrow> table option"
  closures :: "addr \<Rightarrow> closure option"
  udatas :: "addr \<Rightarrow> Udata option"
  upvs :: "addr \<Rightarrow> UpVal option"
  fresh :: addr

definition EXTRA_STACK :: nat where "EXTRA_STACK = 5"
definition LUA_MINSTACK :: nat where "LUA_MINSTACK = 20"
definition BASIC_STACK_SIZE :: nat where "BASIC_STACK_SIZE = 2 * LUA_MINSTACK"

subsection \<open>Operations with state and errors\<close>

type_synonym 'a lm = "lua_State \<Rightarrow> 'a res \<times> lua_State"

definition mret :: "'a \<Rightarrow> 'a lm" where "mret x L = (Inr x, L)"
definition mfail :: "lua_error \<Rightarrow> 'a lm" where "mfail e L = (Inl e, L)"
definition mlift :: "'a res \<Rightarrow> 'a lm" where "mlift r L = (r, L)"
definition mget :: "(lua_State \<Rightarrow> 'a) \<Rightarrow> 'a lm" where "mget f L = (Inr (f L), L)"
definition mset :: "(lua_State \<Rightarrow> lua_State) \<Rightarrow> unit lm" where "mset f L = (Inr (), f L)"

definition mbind :: "'a lm \<Rightarrow> ('a \<Rightarrow> 'b lm) \<Rightarrow> 'b lm" where
  "mbind m f L = (case m L of (Inl e, L') \<Rightarrow> (Inl e, L') | (Inr x, L') \<Rightarrow> f x L')"

definition mseq :: "unit lm \<Rightarrow> 'b lm \<Rightarrow> 'b lm" where
  "mseq m n = mbind m (\<lambda>_. n)"

definition mwhen :: "bool \<Rightarrow> unit lm \<Rightarrow> unit lm" where
  "mwhen c m = (if c then m else mret ())"

lemma m_simps [simp]:
  "mret x L = (Inr x, L)" "mfail e L = (Inl e, L)" "mlift r L = (r, L)" "mget g L = (Inr (g L), L)"
  "mset h L = (Inr (), h L)"
  by (simp_all add: mret_def mfail_def mlift_def mget_def mset_def)

lemma mbind_simps [simp]:
  "mbind (mret x) f = f x" "mbind (mfail e) f = mfail e" "mbind (mlift (Inr x)) f = f x"
  "mbind (mlift (Inl e)) f = mfail e"
  "mbind (mget g) f L = f (g L) L" "mbind (mset h) k L = k () (h L)" "mseq (mset h) n L = n (h L)"
  by (simp_all add: mbind_def mseq_def fun_eq_iff)

lemma mbind_Inr: "m L = (Inr x, L') \<Longrightarrow> mbind m f L = f x L'"
  and mbind_Inl: "m L = (Inl e, L') \<Longrightarrow> mbind m f L = (Inl e, L')"
  and mseq_Inr: "n L = (Inr (), L') \<Longrightarrow> mseq n k L = k L'"
  by (simp_all add: mbind_def mseq_def)

lemma mbind_cong [fundef_cong]:
  "m = m' \<Longrightarrow> (\<And>x. f x = f' x) \<Longrightarrow> mbind m f = mbind m' f'"
  by (simp add: mbind_def fun_eq_iff split: prod.splits sum.splits)

subsection \<open>Stack slots\<close>

text \<open>An access outside of the array has no meaning; a write past its end is an overflow.\<close>

definition getstk :: "nat \<Rightarrow> tvalue lm" where
  "getstk i = (\<lambda>L. if i < length (stack L) then (Inr (stack L ! i), L) else (Inl UndefinedAccess, L))"

definition setstk :: "nat \<Rightarrow> tvalue \<Rightarrow> unit lm" where
  "setstk i v = (\<lambda>L. if i < length (stack L) then (Inr (), L\<lparr>stack := (stack L)[i := v]\<rparr>) else (Inl BufferOverflow, L))"

definition incr_top :: "int \<Rightarrow> unit lm" where
  "incr_top n = mset (\<lambda>L. L\<lparr>top := nat (int (top L) + n)\<rparr>)"

definition push :: "tvalue \<Rightarrow> unit lm" where
  "push v = mbind (mget top) (\<lambda>t. mseq (setstk t v) (incr_top 1))"

text \<open>The frame of the running function: what the API shows of the stack.\<close>

definition frame :: "lua_State \<Rightarrow> tvalue list" where
  "frame L = drop (base L) (take (top L) (stack L))"

subsection \<open>Objects\<close>

definition tbl :: "tvalue \<Rightarrow> (addr \<times> table) lm" where
  "tbl v = (\<lambda>L. case v of
      TableRef a \<Rightarrow> (case tables L a of Some t \<Rightarrow> (Inr (a, t), L) | None \<Rightarrow> (Inl UndefinedAccess, L))
    | _ \<Rightarrow> (Inl UndefinedAccess, L))"

definition set_tbl :: "addr \<Rightarrow> table \<Rightarrow> unit lm" where
  "set_tbl a t = mset (\<lambda>L. L\<lparr>tables := (tables L)(a \<mapsto> t)\<rparr>)"

definition clos :: "tvalue \<Rightarrow> (addr \<times> closure) lm" where
  "clos v = (\<lambda>L. case v of
      FunctionRef a \<Rightarrow> (case closures L a of Some c \<Rightarrow> (Inr (a, c), L) | None \<Rightarrow> (Inl UndefinedAccess, L))
    | _ \<Rightarrow> (Inl UndefinedAccess, L))"

definition set_clos :: "addr \<Rightarrow> closure \<Rightarrow> unit lm" where
  "set_clos a c = mset (\<lambda>L. L\<lparr>closures := (closures L)(a \<mapsto> c)\<rparr>)"

definition udat :: "tvalue \<Rightarrow> (addr \<times> Udata) lm" where
  "udat v = (\<lambda>L. case v of
      UserdataRef a \<Rightarrow> (case udatas L a of Some u \<Rightarrow> (Inr (a, u), L) | None \<Rightarrow> (Inl UndefinedAccess, L))
    | _ \<Rightarrow> (Inl UndefinedAccess, L))"

definition set_udat :: "addr \<Rightarrow> Udata \<Rightarrow> unit lm" where
  "set_udat a u = mset (\<lambda>L. L\<lparr>udatas := (udatas L)(a \<mapsto> u)\<rparr>)"

text \<open>A new object gets an address no object has.\<close>

definition alloc :: "addr lm" where
  "alloc = mbind (mget fresh) (\<lambda>a. mseq (mset (\<lambda>L. L\<lparr>fresh := a + 1\<rparr>)) (mret a))"

definition new_tbl :: "nat \<Rightarrow> nat \<Rightarrow> addr lm" where
  "new_tbl narray nhash = mbind (mlift (luaH_new narray nhash)) (\<lambda>t. mbind alloc (\<lambda>a. mseq (set_tbl a t) (mret a)))"

definition isLfunction :: "lua_State \<Rightarrow> tvalue \<Rightarrow> bool" where
  "isLfunction L v = (case v of
      FunctionRef a \<Rightarrow> (case closures L a of Some (LClosure _ _ _) \<Rightarrow> True | _ \<Rightarrow> False) | _ \<Rightarrow> False)"

definition iscfunction :: "lua_State \<Rightarrow> tvalue \<Rightarrow> bool" where
  "iscfunction L v = (case v of
      FunctionRef a \<Rightarrow> (case closures L a of Some (CClosure _ _ _) \<Rightarrow> True | _ \<Rightarrow> False) | _ \<Rightarrow> False)"

text \<open>The function of a call: the value at its slot.\<close>

definition ci_fun :: "lua_State \<Rightarrow> CallInfo \<Rightarrow> tvalue" where
  "ci_fun L c = (if ci_func c < length (stack L) then stack L ! ci_func c else Nil)"

definition isLua :: "lua_State \<Rightarrow> CallInfo \<Rightarrow> bool" where
  "isLua L c \<longleftrightarrow> isLfunction L (ci_fun L c)"

definition curr_func :: "(addr \<times> closure) lm" where
  "curr_func = mbind (mget (\<lambda>L. ci_fun L (ci L))) clos"

subsection \<open>Errors\<close>

text \<open>
  The functions of \<^verbatim>\<open>ldebug.c\<close> that raise errors. A message that starts in a Lua function is
  preceded by its chunk and line. The message of the error is the string that is on top of the stack when
  the error is thrown.
\<close>

definition pcRel :: "int \<Rightarrow> int" where "pcRel pc = pc - 1"

text \<open>The saved position of a call; that of the running function is in the state.\<close>

definition currentpc :: "lua_State \<Rightarrow> CallInfo \<Rightarrow> bool \<Rightarrow> int" where
  "currentpc L c current =
     (if \<not> isLua L c then -1 else pcRel (if current then savedpc L else ci_savedpc c))"

definition getline :: "Proto \<Rightarrow> int \<Rightarrow> int" where
  "getline f pc = (if lineinfo f = [] then 0 else lineinfo f ! nat pc)"

definition currentline :: "lua_State \<Rightarrow> CallInfo \<Rightarrow> bool \<Rightarrow> int" where
  "currentline L c current =
     (let pc = currentpc L c current in
      if pc < 0 then -1
      else case ci_fun L c of
        FunctionRef a \<Rightarrow> (case closures L a of Some (LClosure _ p _) \<Rightarrow> getline p pc | _ \<Rightarrow> -1)
      | _ \<Rightarrow> -1)"

definition ci_source :: "lua_State \<Rightarrow> CallInfo \<Rightarrow> string option" where
  "ci_source L c =
     (case ci_fun L c of
        FunctionRef a \<Rightarrow> (case closures L a of Some (LClosure _ p _) \<Rightarrow> p_source p | _ \<Rightarrow> None)
      | _ \<Rightarrow> None)"

definition addinfo :: "lua_State \<Rightarrow> string \<Rightarrow> string res" where
  "addinfo L msg =
     (if isLua L (ci L) then
        (let line = currentline L (ci L) True in
         case ci_source L (ci L) of
           None \<Rightarrow> Inl UndefinedAccess
         | Some src \<Rightarrow>
             rbind (luaO_chunkid (cstr src) LUA_IDSIZE) (\<lambda>buff.
               luaO_pushvfstring ''%s:%d: %s'' [FS (Some buff), FD line, FS (Some msg)]))
      else Inr msg)"

definition luaG_runerror :: "string \<Rightarrow> fmt_arg list \<Rightarrow> 'a lm" where
  "luaG_runerror fmt args = (\<lambda>L.
     case rbind (luaO_pushvfstring fmt args) (addinfo L) of
       Inl e \<Rightarrow> (Inl e, L)
     | Inr msg \<Rightarrow> (Inl (RunError msg), L))"

text \<open>An error raised by an operation on a table goes through \<^verbatim>\<open>luaG_runerror\<close>.\<close>

definition table_op :: "'a res \<Rightarrow> 'a lm" where
  "table_op r = (case r of Inl (RunError m) \<Rightarrow> luaG_runerror ''%s'' [FS (Some m)] | _ \<Rightarrow> mlift r)"

end
