(* ===== verification/LuaApi.thy ===== *)
theory LuaApi
  imports LuaState
begin

section \<open>The API\<close>

text \<open>
  The functions of \<^verbatim>\<open>lapi.c\<close> that do not run code: stack manipulation, access to values, pushes
  and raw access to tables. An index that the checks of the API exclude has no meaning.
\<close>

subsection \<open>Indices\<close>

definition LUA_REGISTRYINDEX :: int where "LUA_REGISTRYINDEX = - 10000"
definition LUA_ENVIRONINDEX :: int where "LUA_ENVIRONINDEX = - 10001"
definition LUA_GLOBALSINDEX :: int where "LUA_GLOBALSINDEX = - 10002"

text \<open>What \<^verbatim>\<open>index2adr\<close> points to; \<open>ANil\<close> is \<^verbatim>\<open>luaO_nilobject\<close>.\<close>

datatype adr = ANil | AStack nat | ARegistry | AEnv | AGlobals | AUpvalue nat

definition index2adr :: "int \<Rightarrow> adr lm" where
  "index2adr idx = (\<lambda>L.
     if idx > 0 then
       (if base L + nat idx - 1 \<ge> top L then (Inr ANil, L) else (Inr (AStack (base L + nat idx - 1)), L))
     else if idx > LUA_REGISTRYINDEX then
       (if idx \<noteq> 0 \<and> - idx \<le> int (top L) - int (base L) then (Inr (AStack (nat (int (top L) + idx))), L)
        else (Inl UndefinedAccess, L))
     else if idx = LUA_REGISTRYINDEX then (Inr ARegistry, L)
     else if idx = LUA_ENVIRONINDEX then mbind curr_func (\<lambda>_. mret AEnv) L
     else if idx = LUA_GLOBALSINDEX then (Inr AGlobals, L)
     else
       mbind curr_func (\<lambda>(a, func).
         case func of
           CClosure _ _ up \<Rightarrow>
             mret (if nat (LUA_GLOBALSINDEX - idx) \<le> length up then AUpvalue (nat (LUA_GLOBALSINDEX - idx) - 1) else ANil)
         | LClosure _ _ _ \<Rightarrow> mfail UndefinedAccess) L)"

definition adr_val :: "adr \<Rightarrow> tvalue lm" where
  "adr_val a =
     (case a of
        ANil \<Rightarrow> mret Nil
      | AStack i \<Rightarrow> getstk i
      | ARegistry \<Rightarrow> mget registry
      | AEnv \<Rightarrow> mbind curr_func (\<lambda>(_, func).
          mret (TableRef (case func of CClosure e _ _ \<Rightarrow> e | LClosure e _ _ \<Rightarrow> e)))
      | AGlobals \<Rightarrow> mget l_gt
      | AUpvalue i \<Rightarrow> mbind curr_func (\<lambda>(_, func).
          case func of
            CClosure _ _ up \<Rightarrow> if i < length up then mret (up ! i) else mfail UndefinedAccess
          | LClosure _ _ _ \<Rightarrow> mfail UndefinedAccess))"

text \<open>\<^verbatim>\<open>setobj\<close> through such a pointer; the scratch value of an environment is not stored back.\<close>

definition set_adr :: "adr \<Rightarrow> tvalue \<Rightarrow> unit lm" where
  "set_adr a v =
     (case a of
        ANil \<Rightarrow> mfail UndefinedAccess
      | AStack i \<Rightarrow> setstk i v
      | ARegistry \<Rightarrow> mset (\<lambda>L. L\<lparr>registry := v\<rparr>)
      | AEnv \<Rightarrow> mret ()
      | AGlobals \<Rightarrow> mset (\<lambda>L. L\<lparr>l_gt := v\<rparr>)
      | AUpvalue i \<Rightarrow> mbind curr_func (\<lambda>(c, func).
          case func of
            CClosure e f up \<Rightarrow> if i < length up then set_clos c (CClosure e f (up[i := v])) else mfail UndefinedAccess
          | LClosure _ _ _ \<Rightarrow> mfail UndefinedAccess))"

definition index_val :: "int \<Rightarrow> tvalue lm" where
  "index_val idx = mbind (index2adr idx) adr_val"

definition valid_adr :: "int \<Rightarrow> adr lm" where
  "valid_adr idx = mbind (index2adr idx) (\<lambda>a. if a = ANil then mfail UndefinedAccess else mret a)"

definition getcurrenv :: "addr lm" where
  "getcurrenv = (\<lambda>L.
     if callers L = [] then
       (case l_gt L of TableRef a \<Rightarrow> (Inr a, L) | _ \<Rightarrow> (Inl UndefinedAccess, L))
     else mbind curr_func (\<lambda>(_, func). mret (case func of CClosure e _ _ \<Rightarrow> e | LClosure e _ _ \<Rightarrow> e)) L)"

definition luaA_pushobject :: "tvalue \<Rightarrow> unit lm" where
  "luaA_pushobject v = push v"

subsection \<open>Basic stack manipulation\<close>

definition lua_gettop :: "int lm" where
  "lua_gettop = mget (\<lambda>L. int (top L) - int (base L))"

text \<open>Nils from \<open>i\<close> up to \<open>j\<close>.\<close>

function fill_nil :: "nat \<Rightarrow> nat \<Rightarrow> unit lm" where
  "fill_nil i j = (if i < j then mseq (setstk i Nil) (fill_nil (i + 1) j) else mret ())"
  by pat_completeness auto
termination by (relation "measure (\<lambda>(i, j). j - i)") auto

declare fill_nil.simps [simp del]

definition lua_settop :: "int \<Rightarrow> unit lm" where
  "lua_settop idx =
     (if idx \<ge> 0 then
        mbind (mget (\<lambda>L. (top L, base L))) (\<lambda>(t, b).
          mseq (fill_nil t (b + nat idx)) (mset (\<lambda>L. L\<lparr>top := b + nat idx\<rparr>)))
      else (\<lambda>L. if - (idx + 1) \<le> int (top L) - int (base L) then incr_top (idx + 1) L else (Inl UndefinedAccess, L)))"

text \<open>The loop of \<^verbatim>\<open>lua_remove\<close>: slot \<open>p\<close> takes the next one, up to \<open>t\<close>.\<close>

function shift_down :: "nat \<Rightarrow> nat \<Rightarrow> unit lm" where
  "shift_down p t =
     (if p + 1 < t then mbind (getstk (p + 1)) (\<lambda>v. mseq (setstk p v) (shift_down (p + 1) t)) else mret ())"
  by pat_completeness auto
termination by (relation "measure (\<lambda>(p, t). t - p)") auto

declare shift_down.simps [simp del]

definition lua_remove :: "int \<Rightarrow> unit lm" where
  "lua_remove idx =
     mbind (valid_adr idx) (\<lambda>a. case a of
       AStack p \<Rightarrow> mseq (mbind (mget top) (shift_down p)) (incr_top (- 1))
     | _ \<Rightarrow> mfail UndefinedAccess)"

text \<open>The loop of \<^verbatim>\<open>lua_insert\<close>: from \<open>q\<close> down to \<open>p\<close>, each slot takes the one below.\<close>

function shift_up :: "nat \<Rightarrow> nat \<Rightarrow> unit lm" where
  "shift_up p q =
     (if q > p then mbind (getstk (q - 1)) (\<lambda>v. mseq (setstk q v) (shift_up p (q - 1))) else mret ())"
  by pat_completeness auto
termination by (relation "measure (\<lambda>(p, q). q)") auto

declare shift_up.simps [simp del]

definition lua_insert :: "int \<Rightarrow> unit lm" where
  "lua_insert idx =
     mbind (valid_adr idx) (\<lambda>a. case a of
       AStack p \<Rightarrow>
         mbind (mget top) (\<lambda>t. mseq (shift_up p t) (mbind (getstk t) (setstk p)))
     | _ \<Rightarrow> mfail UndefinedAccess)"

definition lua_replace :: "int \<Rightarrow> unit lm" where
  "lua_replace idx = (\<lambda>L.
     if idx = LUA_ENVIRONINDEX \<and> callers L = [] then luaG_runerror ''no calling environment'' [] L
     else
       mbind (valid_adr idx) (\<lambda>a.
       mbind (getstk (top L - 1)) (\<lambda>v.
       mseq (if idx = LUA_ENVIRONINDEX then
               mbind curr_func (\<lambda>(c, func). case v of
                 TableRef e \<Rightarrow> set_clos c (case func of CClosure _ f up \<Rightarrow> CClosure e f up | LClosure _ p up \<Rightarrow> LClosure e p up)
               | _ \<Rightarrow> mfail UndefinedAccess)
             else set_adr a v)
         (incr_top (- 1)))) L)"

definition lua_pushvalue :: "int \<Rightarrow> unit lm" where
  "lua_pushvalue idx = mbind (index_val idx) push"

subsection \<open>Access to values\<close>

definition LUA_TNONE :: int where "LUA_TNONE = -1"

definition luaT_typenames :: "string list" where
  "luaT_typenames =
     [''nil'', ''boolean'', ''userdata'', ''number'',
      ''string'', ''table'', ''function'', ''userdata'', ''thread'',
      ''proto'', ''upval'']"

fun tag_num :: "ttag \<Rightarrow> nat" where
  "tag_num LUA_TNIL = 0"
| "tag_num LUA_TBOOLEAN = 1"
| "tag_num LUA_TLIGHTUSERDATA = 2"
| "tag_num LUA_TNUMBER = 3"
| "tag_num LUA_TSTRING = 4"
| "tag_num LUA_TTABLE = 5"
| "tag_num LUA_TFUNCTION = 6"
| "tag_num LUA_TUSERDATA = 7"
| "tag_num LUA_TTHREAD = 8"

definition lua_type :: "int \<Rightarrow> int lm" where
  "lua_type idx = mbind (index2adr idx) (\<lambda>a. if a = ANil then mret LUA_TNONE
     else mbind (adr_val a) (\<lambda>v. mret (int (tag_num (ttype v)))))"

definition lua_typename :: "int \<Rightarrow> string" where
  "lua_typename t = (if t = LUA_TNONE then ''no value'' else luaT_typenames ! nat t)"

text \<open>\<^verbatim>\<open>svalue\<close> is read as a C string.\<close>

definition luaV_tonumber :: "tvalue \<Rightarrow> lua_Number option" where
  "luaV_tonumber v = (case v of Number n \<Rightarrow> Some n | String s \<Rightarrow> luaO_str2d (cstr s) | _ \<Rightarrow> None)"

definition luaV_tostring :: "adr \<Rightarrow> bool lm" where
  "luaV_tostring a =
     mbind (adr_val a) (\<lambda>v. case v of
       Number n \<Rightarrow> mseq (set_adr a (String (lua_number2str n))) (mret True)
     | _ \<Rightarrow> mret False)"

definition lua_iscfunction :: "int \<Rightarrow> bool lm" where
  "lua_iscfunction idx = mbind (index_val idx) (\<lambda>v. mget (\<lambda>L. iscfunction L v))"

definition lua_isnumber :: "int \<Rightarrow> bool lm" where
  "lua_isnumber idx = mbind (index_val idx) (\<lambda>v. mret (luaV_tonumber v \<noteq> None))"

definition lua_isstring :: "int \<Rightarrow> bool lm" where
  "lua_isstring idx = mbind (lua_type idx) (\<lambda>t. mret (t = int (tag_num LUA_TSTRING) \<or> t = int (tag_num LUA_TNUMBER)))"

definition lua_isuserdata :: "int \<Rightarrow> bool lm" where
  "lua_isuserdata idx = mbind (index_val idx) (\<lambda>v. mret (ttype v = LUA_TUSERDATA \<or> ttype v = LUA_TLIGHTUSERDATA))"

definition lua_rawequal :: "int \<Rightarrow> int \<Rightarrow> bool lm" where
  "lua_rawequal index1 index2 =
     mbind (index2adr index1) (\<lambda>o1. mbind (index2adr index2) (\<lambda>o2.
       if o1 = ANil \<or> o2 = ANil then mret False
       else mbind (adr_val o1) (\<lambda>v1. mbind (adr_val o2) (\<lambda>v2. mret (luaO_rawequalObj v1 v2)))))"

definition lua_tonumber :: "int \<Rightarrow> lua_Number lm" where
  "lua_tonumber idx = mbind (index_val idx) (\<lambda>v. mret (case luaV_tonumber v of Some n \<Rightarrow> n | None \<Rightarrow> 0))"

text \<open>
  \<^verbatim>\<open>lua_Integer\<close> is \<^verbatim>\<open>ptrdiff_t\<close>, 64 bits. The conversion truncates; outside of the
  range C leaves it undefined, and the least value is what x86 gives.
\<close>

definition lua_number2integer :: "lua_Number \<Rightarrow> int" where
  "lua_number2integer d =
     (if dbl_exp d = 2047 \<or> dbl_trunc d < - (2 ^ 63) \<or> 2 ^ 63 \<le> dbl_trunc d then - (2 ^ 63) else dbl_trunc d)"

definition lua_tointeger :: "int \<Rightarrow> int lm" where
  "lua_tointeger idx =
     mbind (index_val idx) (\<lambda>v. mret (case luaV_tonumber v of Some n \<Rightarrow> lua_number2integer n | None \<Rightarrow> 0))"

definition lua_toboolean :: "int \<Rightarrow> bool lm" where
  "lua_toboolean idx = mbind (index_val idx) (\<lambda>v. mret (\<not> l_isfalse v))"

text \<open>A number is converted in its place. \<open>None\<close> is \<^verbatim>\<open>NULL\<close>.\<close>

definition lua_tolstring :: "int \<Rightarrow> string option lm" where
  "lua_tolstring idx =
     mbind (index2adr idx) (\<lambda>a. mbind (adr_val a) (\<lambda>v.
       case v of
         String s \<Rightarrow> mret (Some s)
       | _ \<Rightarrow> mbind (luaV_tostring a) (\<lambda>ok.
           if \<not> ok then mret None
           else mbind (index_val idx) (\<lambda>v. case v of String s \<Rightarrow> mret (Some s) | _ \<Rightarrow> mfail UndefinedAccess))))"

definition lua_objlen :: "int \<Rightarrow> nat lm" where
  "lua_objlen idx =
     mbind (index2adr idx) (\<lambda>a. mbind (adr_val a) (\<lambda>v.
       case v of
         String s \<Rightarrow> mret (length s)
       | UserdataRef _ \<Rightarrow> mbind (udat v) (\<lambda>(_, u). mret (length (u_data u)))
       | TableRef _ \<Rightarrow> mbind (tbl v) (\<lambda>(_, t). mlift (luaH_getn t))
       | Number _ \<Rightarrow> mbind (luaV_tostring a) (\<lambda>ok.
           if ok then mbind (adr_val a) (\<lambda>v. case v of String s \<Rightarrow> mret (length s) | _ \<Rightarrow> mret 0) else mret 0)
       | _ \<Rightarrow> mret 0))"

definition lua_tocfunction :: "int \<Rightarrow> nat option lm" where
  "lua_tocfunction idx =
     mbind (index_val idx) (\<lambda>v. mbind (mget (\<lambda>L. iscfunction L v)) (\<lambda>c.
       if \<not> c then mret None else mbind (clos v) (\<lambda>(_, c). mret (Some (c_f c)))))"

text \<open>The payload of a userdata is identified by its object.\<close>

definition lua_touserdata :: "int \<Rightarrow> addr option lm" where
  "lua_touserdata idx =
     mbind (index_val idx) (\<lambda>v. mret (case v of UserdataRef a \<Rightarrow> Some a | LightUserdata p \<Rightarrow> Some p | _ \<Rightarrow> None))"

definition lua_topointer :: "int \<Rightarrow> addr option lm" where
  "lua_topointer idx =
     mbind (index_val idx) (\<lambda>v.
       case v of
         TableRef a \<Rightarrow> mret (Some a)
       | FunctionRef a \<Rightarrow> mret (Some a)
       | ThreadRef a \<Rightarrow> mret (Some a)
       | UserdataRef _ \<Rightarrow> lua_touserdata idx
       | LightUserdata _ \<Rightarrow> lua_touserdata idx
       | _ \<Rightarrow> mret None)"

subsection \<open>Pushes\<close>

definition lua_pushnil :: "unit lm" where "lua_pushnil = push Nil"
definition lua_pushnumber :: "lua_Number \<Rightarrow> unit lm" where "lua_pushnumber n = push (Number n)"

text \<open>A 64-bit integer as a double, rounded beyond 53 bits.\<close>

definition int2num :: "int \<Rightarrow> lua_Number" where
  "int2num k = (if k = 0 then 0 else dbl_of_frac (k < 0) (nat \<bar>k\<bar>) 1)"

definition lua_pushinteger :: "int \<Rightarrow> unit lm" where "lua_pushinteger n = push (Number (int2num n))"
definition lua_pushlstring :: "string \<Rightarrow> unit lm" where "lua_pushlstring s = push (String s)"
definition lua_pushstring :: "string option \<Rightarrow> unit lm" where
  "lua_pushstring s = (case s of None \<Rightarrow> lua_pushnil | Some s \<Rightarrow> lua_pushlstring (cstr s))"
definition lua_pushfstring :: "string \<Rightarrow> fmt_arg list \<Rightarrow> unit lm" where
  "lua_pushfstring fmt args = mbind (mlift (luaO_pushvfstring fmt args)) (\<lambda>s. push (String s))"
definition lua_pushboolean :: "bool \<Rightarrow> unit lm" where "lua_pushboolean b = push (Boolean b)"
definition lua_pushlightuserdata :: "nat \<Rightarrow> unit lm" where "lua_pushlightuserdata p = push (LightUserdata p)"

text \<open>The values that become upvalues: the \<open>n\<close> below the top.\<close>

definition luaF_newCclosure :: "nat \<Rightarrow> addr \<Rightarrow> addr lm" where
  "luaF_newCclosure nelems e = mbind alloc (\<lambda>a. mseq (set_clos a (CClosure e 0 (replicate nelems Nil))) (mret a))"

definition lua_pushcclosure :: "nat \<Rightarrow> nat \<Rightarrow> unit lm" where
  "lua_pushcclosure fn n = (\<lambda>L.
     if n > top L - base L then (Inl UndefinedAccess, L)
     else
       mbind getcurrenv (\<lambda>e.
       mbind (luaF_newCclosure n e) (\<lambda>a.
       mseq (set_clos a (CClosure e fn (take n (drop (top L - n) (stack L)))))
       (mseq (incr_top (- int n)) (push (FunctionRef a))))) L)"

subsection \<open>Raw access to tables\<close>

definition slot_value :: "table \<Rightarrow> slot res \<Rightarrow> tvalue res" where
  "slot_value t r = rbind r (\<lambda>p. Inr (slot_val t p))"

definition lua_rawget :: "int \<Rightarrow> unit lm" where
  "lua_rawget idx =
     mbind (index_val idx) (\<lambda>v. mbind (tbl v) (\<lambda>(_, t).
     mbind (mget (\<lambda>L. top L - 1)) (\<lambda>i. mbind (getstk i) (\<lambda>k.
     mbind (table_op (slot_value t (luaH_get t k))) (\<lambda>r. setstk i r)))))"

definition lua_rawgeti :: "int \<Rightarrow> int \<Rightarrow> unit lm" where
  "lua_rawgeti idx n =
     mbind (index_val idx) (\<lambda>v. mbind (tbl v) (\<lambda>(_, t).
     mbind (table_op (slot_value t (luaH_getnum t n))) push))"

definition lua_createtable :: "nat \<Rightarrow> nat \<Rightarrow> unit lm" where
  "lua_createtable narray nrec = mbind (new_tbl narray nrec) (\<lambda>a. push (TableRef a))"

text \<open>\<^verbatim>\<open>luaH_set\<close> and the store through the slot it gives.\<close>

definition store_slot :: "addr \<Rightarrow> (slot \<times> table) res \<Rightarrow> tvalue \<Rightarrow> unit lm" where
  "store_slot a r v = mbind (table_op r) (\<lambda>(p, t). if p = NilObject then mfail UndefinedAccess else set_tbl a (set_slot t p v))"

definition lua_rawset :: "int \<Rightarrow> unit lm" where
  "lua_rawset idx =
     mbind (index_val idx) (\<lambda>o1. mbind (tbl o1) (\<lambda>(a, t).
     mbind (mget top) (\<lambda>i. mbind (getstk (i - 2)) (\<lambda>k. mbind (getstk (i - 1)) (\<lambda>v.
     mseq (store_slot a (luaH_set t k) v) (incr_top (- 2)))))))"

definition lua_rawseti :: "int \<Rightarrow> int \<Rightarrow> unit lm" where
  "lua_rawseti idx n =
     mbind (index_val idx) (\<lambda>o1. mbind (tbl o1) (\<lambda>(a, t).
     mbind (mget top) (\<lambda>i. mbind (getstk (i - 1)) (\<lambda>v.
     mseq (store_slot a (luaH_setnum t n) v) (incr_top (- 1))))))"

subsection \<open>Metatables and environments\<close>

definition lua_getmetatable :: "int \<Rightarrow> bool lm" where
  "lua_getmetatable objindex =
     mbind (index_val objindex) (\<lambda>obj.
     mbind (case obj of
              TableRef _ \<Rightarrow> mbind (tbl obj) (\<lambda>(_, t). mret (metatable t))
            | UserdataRef _ \<Rightarrow> mbind (udat obj) (\<lambda>(_, u). mret (u_metatable u))
            | _ \<Rightarrow> mget (\<lambda>L. mt L (ttype obj))) (\<lambda>m.
     case m of
       None \<Rightarrow> mret False
     | Some a \<Rightarrow> mseq (push (TableRef a)) (mret True)))"

definition lua_setmetatable :: "int \<Rightarrow> unit lm" where
  "lua_setmetatable objindex =
     mbind (valid_adr objindex) (\<lambda>o1. mbind (adr_val o1) (\<lambda>obj.
     mbind (mget top) (\<lambda>t. mbind (getstk (t - 1)) (\<lambda>v.
     mbind (case v of Nil \<Rightarrow> mret None | TableRef a \<Rightarrow> mret (Some a) | _ \<Rightarrow> mfail UndefinedAccess) (\<lambda>m.
     mseq (case obj of
             TableRef _ \<Rightarrow> mbind (tbl obj) (\<lambda>(a, t). set_tbl a (t\<lparr>metatable := m\<rparr>))
           | UserdataRef _ \<Rightarrow> mbind (udat obj) (\<lambda>(a, u). set_udat a (u\<lparr>u_metatable := m\<rparr>))
           | _ \<Rightarrow> mset (\<lambda>L. L\<lparr>mt := (mt L)(ttype obj := m)\<rparr>))
       (incr_top (- 1)))))))"

definition lua_getfenv :: "int \<Rightarrow> unit lm" where
  "lua_getfenv idx =
     mbind (valid_adr idx) (\<lambda>o1. mbind (adr_val o1) (\<lambda>v.
     mbind (case v of
              FunctionRef _ \<Rightarrow> mbind (clos v) (\<lambda>(_, c). mret (TableRef (case c of CClosure e _ _ \<Rightarrow> e | LClosure e _ _ \<Rightarrow> e)))
            | UserdataRef _ \<Rightarrow> mbind (udat v) (\<lambda>(_, u). mret (TableRef (u_env u)))
            | ThreadRef _ \<Rightarrow> mget l_gt
            | _ \<Rightarrow> mret Nil) push))"

definition lua_setfenv :: "int \<Rightarrow> bool lm" where
  "lua_setfenv idx =
     mbind (valid_adr idx) (\<lambda>o1. mbind (adr_val o1) (\<lambda>v.
     mbind (mget top) (\<lambda>t. mbind (getstk (t - 1)) (\<lambda>h.
     case h of
       TableRef e \<Rightarrow>
         mbind (case v of
             FunctionRef _ \<Rightarrow> mbind (clos v) (\<lambda>(a, c). mseq
               (set_clos a (case c of CClosure _ f up \<Rightarrow> CClosure e f up | LClosure _ p up \<Rightarrow> LClosure e p up)) (mret True))
           | UserdataRef _ \<Rightarrow> mbind (udat v) (\<lambda>(a, u). mseq (set_udat a (u\<lparr>u_env := e\<rparr>)) (mret True))
           | ThreadRef _ \<Rightarrow> mseq (mset (\<lambda>L. L\<lparr>l_gt := TableRef e\<rparr>)) (mret True)
           | _ \<Rightarrow> mret False) (\<lambda>res. mseq (incr_top (- 1)) (mret res))
     | _ \<Rightarrow> mfail UndefinedAccess))))"

subsection \<open>Miscellaneous functions\<close>

definition LUAI_MAXCSTACK :: int where "LUAI_MAXCSTACK = 8000"

text \<open>The stack grows by new slots at its end; \<^verbatim>\<open>stack_last\<close> leaves the extra ones out.\<close>

definition luaD_reallocstack :: "nat \<Rightarrow> unit lm" where
  "luaD_reallocstack newsize =
     mset (\<lambda>L. let realsize = newsize + 1 + EXTRA_STACK in
       L\<lparr>stack := take realsize (stack L) @ replicate (realsize - length (stack L)) Nil\<rparr>)"

definition luaD_growstack :: "nat \<Rightarrow> unit lm" where
  "luaD_growstack n = (\<lambda>L.
     if n \<le> length (stack L) then luaD_reallocstack (2 * length (stack L)) L
     else luaD_reallocstack (length (stack L) + n) L)"

definition luaD_checkstack :: "nat \<Rightarrow> unit lm" where
  "luaD_checkstack n = (\<lambda>L.
     if int (length (stack L)) - int EXTRA_STACK - 1 - int (top L) \<le> int n then luaD_growstack n L else (Inr (), L))"

definition lua_checkstack :: "int \<Rightarrow> bool lm" where
  "lua_checkstack sz = (\<lambda>L.
     if sz > LUAI_MAXCSTACK \<or> int (top L) - int (base L) + sz > LUAI_MAXCSTACK then (Inr False, L)
     else if sz > 0 then
       mseq (luaD_checkstack (nat sz))
         (mseq (mset (\<lambda>L. if ci_top (ci L) < top L + nat sz then L\<lparr>ci := (ci L)\<lparr>ci_top := top L + nat sz\<rparr>\<rparr> else L))
           (mret True)) L
     else (Inr True, L))"

definition lua_next :: "int \<Rightarrow> bool lm" where
  "lua_next idx =
     mbind (index_val idx) (\<lambda>v. mbind (tbl v) (\<lambda>(_, t).
     mbind (mget (\<lambda>L. top L - 1)) (\<lambda>i. mbind (getstk i) (\<lambda>k.
     mbind (table_op (luaH_next t k)) (\<lambda>more.
       case more of
         Some (k', v') \<Rightarrow> mseq (setstk i k') (mseq (setstk (i + 1) v') (mseq (incr_top 1) (mret True)))
       | None \<Rightarrow> mseq (incr_top (- 1)) (mret False))))))"

definition lua_newuserdata :: "nat \<Rightarrow> addr lm" where
  "lua_newuserdata sz =
     mbind getcurrenv (\<lambda>e. mbind alloc (\<lambda>a.
       mseq (set_udat a \<lparr>u_metatable = None, u_env = e, u_data = replicate sz NUL\<rparr>)
         (mseq (push (UserdataRef a)) (mret a))))"

definition lua_error :: "'a lm" where
  "lua_error =
     mbind (mget (\<lambda>L. top L - 1)) (\<lambda>i. mbind (getstk i) (\<lambda>v.
       case v of String s \<Rightarrow> mfail (RunError s) | _ \<Rightarrow> mfail ErrValue))"

text \<open>Upvalues by number: the name and the place.\<close>

datatype upv_place = CUp addr nat | LUp addr

definition aux_upvalue :: "tvalue \<Rightarrow> int \<Rightarrow> (string \<times> upv_place) option lm" where
  "aux_upvalue fi n =
     (if ttype fi \<noteq> LUA_TFUNCTION then mret None
      else mbind (clos fi) (\<lambda>(a, f).
        case f of
          CClosure _ _ up \<Rightarrow> if \<not> (1 \<le> n \<and> n \<le> int (length up)) then mret None else mret (Some ('''', CUp a (nat n - 1)))
        | LClosure _ p up \<Rightarrow>
            if \<not> (1 \<le> n \<and> n \<le> int (length (upvalues p))) then mret None
            else (case upvalues p ! (nat n - 1) of
                    None \<Rightarrow> mfail UndefinedAccess
                  | Some name \<Rightarrow> if nat n - 1 < length up then mret (Some (name, LUp (up ! (nat n - 1)))) else mfail UndefinedAccess)))"

definition upv_get :: "addr \<Rightarrow> tvalue lm" where
  "upv_get a = mbind (mget (\<lambda>L. upvs L a)) (\<lambda>u. case u of
     Some (Open i) \<Rightarrow> getstk i | Some (Closed v) \<Rightarrow> mret v | None \<Rightarrow> mfail UndefinedAccess)"

definition upv_set :: "addr \<Rightarrow> tvalue \<Rightarrow> unit lm" where
  "upv_set a v = mbind (mget (\<lambda>L. upvs L a)) (\<lambda>u. case u of
     Some (Open i) \<Rightarrow> setstk i v
   | Some (Closed _) \<Rightarrow> mset (\<lambda>L. L\<lparr>upvs := (upvs L)(a \<mapsto> Closed v)\<rparr>)
   | None \<Rightarrow> mfail UndefinedAccess)"

definition place_get :: "upv_place \<Rightarrow> tvalue lm" where
  "place_get p = (case p of
     CUp a i \<Rightarrow> mbind (clos (FunctionRef a)) (\<lambda>(_, c). case c of CClosure _ _ up \<Rightarrow> mret (up ! i) | _ \<Rightarrow> mfail UndefinedAccess)
   | LUp u \<Rightarrow> upv_get u)"

definition place_set :: "upv_place \<Rightarrow> tvalue \<Rightarrow> unit lm" where
  "place_set p v = (case p of
     CUp a i \<Rightarrow> mbind (clos (FunctionRef a)) (\<lambda>(_, c). case c of
       CClosure e f up \<Rightarrow> set_clos a (CClosure e f (up[i := v])) | _ \<Rightarrow> mfail UndefinedAccess)
   | LUp u \<Rightarrow> upv_set u v)"

definition lua_getupvalue :: "int \<Rightarrow> int \<Rightarrow> string option lm" where
  "lua_getupvalue funcindex n =
     mbind (index_val funcindex) (\<lambda>fi. mbind (aux_upvalue fi n) (\<lambda>r.
       case r of
         None \<Rightarrow> mret None
       | Some (name, p) \<Rightarrow> mbind (place_get p) (\<lambda>v. mseq (push v) (mret (Some name)))))"

definition lua_setupvalue :: "int \<Rightarrow> int \<Rightarrow> string option lm" where
  "lua_setupvalue funcindex n =
     mbind (index_val funcindex) (\<lambda>fi. mbind (aux_upvalue fi n) (\<lambda>r.
       case r of
         None \<Rightarrow> mret None
       | Some (name, p) \<Rightarrow>
           mseq (incr_top (- 1)) (mbind (mget top) (\<lambda>t. mbind (getstk t) (\<lambda>v. mseq (place_set p v) (mret (Some name)))))))"

subsection \<open>The operations on the frame\<close>

definition frame_ok :: "lua_State \<Rightarrow> bool" where
  "frame_ok L \<longleftrightarrow> base L \<le> top L \<and> top L < length (stack L)"

text \<open>What lies outside of the frame, which the stack operations leave alone.\<close>

definition same_outside :: "lua_State \<Rightarrow> lua_State \<Rightarrow> bool" where
  "same_outside L L' \<longleftrightarrow> base L' = base L \<and> length (stack L') = length (stack L) \<and>
     take (base L) (stack L') = take (base L) (stack L) \<and>
     (\<exists>s t. L' = L\<lparr>stack := s, top := t\<rparr>)"

lemma getstk_ok: "i < length (stack L) \<Longrightarrow> getstk i L = (Inr (stack L ! i), L)"
  and setstk_ok: "i < length (stack L) \<Longrightarrow> setstk i v L = (Inr (), L\<lparr>stack := (stack L)[i := v]\<rparr>)"
  by (simp_all add: getstk_def setstk_def)

lemma length_frame: "frame_ok L \<Longrightarrow> length (frame L) = top L - base L"
  by (simp add: frame_ok_def frame_def)

lemma frame_nth: "frame_ok L \<Longrightarrow> k < top L - base L \<Longrightarrow> frame L ! k = stack L ! (base L + k)"
  by (simp add: frame_ok_def frame_def)

lemma push_ok:
  assumes "frame_ok L"
  shows "push v L = (Inr (), L\<lparr>stack := (stack L)[top L := v], top := top L + 1\<rparr>)"
    "frame (L\<lparr>stack := (stack L)[top L := v], top := top L + 1\<rparr>) = frame L @ [v]"
proof -
  have "top L < length (stack L)" "base L \<le> top L" using assms by (auto simp: frame_ok_def)
  then show "push v L = (Inr (), L\<lparr>stack := (stack L)[top L := v], top := top L + 1\<rparr>)"
    by (simp add: push_def mseq_Inr [OF setstk_ok] incr_top_def nat_add_distrib)
  show "frame (L\<lparr>stack := (stack L)[top L := v], top := top L + 1\<rparr>) = frame L @ [v]"
    using \<open>top L < _\<close> \<open>base L \<le> _\<close> by (simp add: frame_def take_Suc_conv_app_nth)
qed

lemma shift_down_ok:
  assumes "p < t" "t \<le> length (stack L)"
  shows "\<exists>s. shift_down p t L = (Inr (), L\<lparr>stack := s\<rparr>) \<and> length s = length (stack L) \<and>
    (\<forall>i < length s. s ! i = (if p \<le> i \<and> i + 1 < t then stack L ! (i + 1) else stack L ! i))"
  using assms
proof (induction p t arbitrary: L rule: shift_down.induct)
  case (1 p t)
  show ?case
  proof (cases "p + 1 < t")
    case True
    let ?L = "L\<lparr>stack := (stack L)[p := stack L ! (p + 1)]\<rparr>"
    have e: "shift_down p t L = shift_down (p + 1) t ?L"
      using True 1(3) by (subst shift_down.simps) (simp add: mbind_Inr [OF getstk_ok] mseq_Inr [OF setstk_ok])
    have "p + 1 < t" "t \<le> length (stack ?L)" using True 1(3) by simp_all
    from 1(1) [OF True this] obtain s where s: "shift_down (p + 1) t ?L = (Inr (), ?L\<lparr>stack := s\<rparr>)"
      "length s = length (stack ?L)"
      "\<forall>i < length s. s ! i = (if p + 1 \<le> i \<and> i + 1 < t then stack ?L ! (i + 1) else stack ?L ! i)"
      by blast
    have f: "\<forall>i < length s. s ! i = (if p \<le> i \<and> i + 1 < t then stack L ! (i + 1) else stack L ! i)"
    proof (intro allI impI)
      fix i assume "i < length s"
      then show "s ! i = (if p \<le> i \<and> i + 1 < t then stack L ! (i + 1) else stack L ! i)"
        using s(2) s(3) [rule_format, of i] True 1(3) by (cases "i = p") auto
    qed
    show ?thesis unfolding e by (intro exI [of _ s] conjI f) (use s in simp_all)
  next
    case False
    then show ?thesis using 1(2) by (subst shift_down.simps) (auto intro!: exI [of _ "stack L"])
  qed
qed

lemma shift_up_ok:
  assumes "p \<le> q" "q < length (stack L)"
  shows "\<exists>s. shift_up p q L = (Inr (), L\<lparr>stack := s\<rparr>) \<and> length s = length (stack L) \<and>
    (\<forall>i < length s. s ! i = (if p < i \<and> i \<le> q then stack L ! (i - 1) else stack L ! i))"
  using assms
proof (induction p q arbitrary: L rule: shift_up.induct)
  case (1 p q)
  show ?case
  proof (cases "q > p")
    case True
    let ?L = "L\<lparr>stack := (stack L)[q := stack L ! (q - 1)]\<rparr>"
    have e: "shift_up p q L = shift_up p (q - 1) ?L"
      using True 1(3) by (subst shift_up.simps) (simp add: mbind_Inr [OF getstk_ok] mseq_Inr [OF setstk_ok])
    have "p \<le> q - 1" "q - 1 < length (stack ?L)" using True 1(3) by simp_all
    from 1(1) [OF True this] obtain s where s: "shift_up p (q - 1) ?L = (Inr (), ?L\<lparr>stack := s\<rparr>)"
      "length s = length (stack ?L)"
      "\<forall>i < length s. s ! i = (if p < i \<and> i \<le> q - 1 then stack ?L ! (i - 1) else stack ?L ! i)"
      by blast
    have f: "\<forall>i < length s. s ! i = (if p < i \<and> i \<le> q then stack L ! (i - 1) else stack L ! i)"
    proof (intro allI impI)
      fix i assume "i < length s"
      then show "s ! i = (if p < i \<and> i \<le> q then stack L ! (i - 1) else stack L ! i)"
        using s(2) s(3) [rule_format, of i] True 1(3) by (cases "i = q") auto
    qed
    show ?thesis unfolding e by (intro exI [of _ s] conjI f) (use s in simp_all)
  next
    case False
    then show ?thesis using 1(2) by (subst shift_up.simps) (auto intro!: exI [of _ "stack L"])
  qed
qed

text \<open>The position in the frame that an index names.\<close>

definition frame_pos :: "lua_State \<Rightarrow> int \<Rightarrow> nat" where
  "frame_pos L idx = (if idx > 0 then nat idx - 1 else nat (int (length (frame L)) + idx))"

definition valid_index :: "lua_State \<Rightarrow> int \<Rightarrow> bool" where
  "valid_index L idx \<longleftrightarrow> idx \<noteq> 0 \<and> \<bar>idx\<bar> \<le> int (length (frame L)) \<and> LUA_REGISTRYINDEX < idx"

lemma index2adr_frame:
  assumes "frame_ok L" "valid_index L idx"
  shows "index2adr idx L = (Inr (AStack (base L + frame_pos L idx)), L)" "frame_pos L idx < top L - base L"
proof -
  have "base L \<le> top L" using assms(1) by (simp add: frame_ok_def)
  then have "index2adr idx L = (Inr (AStack (base L + frame_pos L idx)), L) \<and> frame_pos L idx < top L - base L"
    using assms length_frame [OF assms(1)] unfolding valid_index_def index2adr_def frame_pos_def by auto
  then show "index2adr idx L = (Inr (AStack (base L + frame_pos L idx)), L)" "frame_pos L idx < top L - base L" by auto
qed

lemma valid_adr_frame:
  "frame_ok L \<Longrightarrow> valid_index L idx \<Longrightarrow> valid_adr idx L = (Inr (AStack (base L + frame_pos L idx)), L)"
  by (simp add: valid_adr_def mbind_def index2adr_frame(1))

lemma index_val_frame:
  assumes "frame_ok L" "valid_index L idx"
  shows "index_val idx L = (Inr (frame L ! frame_pos L idx), L)"
proof -
  note i = index2adr_frame [OF assms]
  have "base L + frame_pos L idx < length (stack L)" using i(2) assms(1) unfolding frame_ok_def by linarith
  then show ?thesis using i(2) assms(1)
    by (simp add: index_val_def mbind_def i(1) adr_val_def getstk_ok frame_nth)
qed

lemma frame_eqI:
  assumes "base L' = base L" "length (stack L') = length (stack L)" "top L' \<le> length (stack L')" "base L \<le> top L'"
    "length f = top L' - base L" "\<And>k. k < length f \<Longrightarrow> stack L' ! (base L + k) = f ! k"
  shows "frame L' = f"
  unfolding frame_def by (rule nth_equalityI) (use assms in simp_all)

text \<open>What the stack operations do, as operations on the list of the values of the frame.\<close>

definition acts_as :: "unit lm \<Rightarrow> (tvalue list \<Rightarrow> tvalue list) \<Rightarrow> lua_State \<Rightarrow> bool" where
  "acts_as m g L \<longleftrightarrow> (\<exists>L'. m L = (Inr (), L') \<and> frame L' = g (frame L) \<and> same_outside L L')"

lemma acts_asI:
  assumes "m L = (Inr (), L\<lparr>stack := s, top := t\<rparr>)" "length s = length (stack L)" "\<And>i. i < base L \<Longrightarrow> s ! i = stack L ! i"
    "frame (L\<lparr>stack := s, top := t\<rparr>) = g (frame L)" "base L \<le> length (stack L)"
  shows "acts_as m g L"
proof -
  have "take (base L) s = take (base L) (stack L)"
    using assms(2,3,5) by (intro nth_equalityI) simp_all
  then show ?thesis unfolding acts_as_def same_outside_def using assms(1,2,4) by auto
qed

lemma acts_push: "frame_ok L \<Longrightarrow> acts_as (push v) (\<lambda>f. f @ [v]) L"
proof -
  assume ok: "frame_ok L"
  from push_ok(1) [OF ok] show ?thesis
    by (rule acts_asI) (use push_ok(2) [OF ok] ok in \<open>auto simp: frame_ok_def\<close>)
qed

lemma acts_pushvalue:
  assumes "frame_ok L" "valid_index L idx"
  shows "acts_as (lua_pushvalue idx) (\<lambda>f. f @ [f ! frame_pos L idx]) L"
proof -
  have "lua_pushvalue idx L = push (frame L ! frame_pos L idx) L"
    by (simp add: lua_pushvalue_def mbind_def index_val_frame [OF assms])
  then show ?thesis using acts_push [OF assms(1), of "frame L ! frame_pos L idx"] by (simp add: acts_as_def)
qed

lemma acts_remove:
  assumes ok: "frame_ok L" and v: "valid_index L idx"
  shows "acts_as (lua_remove idx) (\<lambda>f. take (frame_pos L idx) f @ drop (frame_pos L idx + 1) f) L"
proof -
  let ?k = "frame_pos L idx"
  let ?p = "base L + ?k"
  have r: "?p < top L" "top L \<le> length (stack L)" "base L \<le> top L"
    using index2adr_frame(2) [OF ok v] ok unfolding frame_ok_def by linarith+
  obtain s where s: "shift_down ?p (top L) L = (Inr (), L\<lparr>stack := s\<rparr>)" "length s = length (stack L)"
    "\<forall>i < length s. s ! i = (if ?p \<le> i \<and> i + 1 < top L then stack L ! (i + 1) else stack L ! i)"
    using shift_down_ok [OF r(1,2)] by blast
  have "lua_remove idx L = (Inr (), L\<lparr>stack := s, top := top L - 1\<rparr>)"
    using r(1) by (simp add: lua_remove_def mbind_def mseq_def valid_adr_frame [OF ok v] s(1) incr_top_def nat_diff_distrib)
  then show ?thesis
  proof (rule acts_asI)
    show "frame (L\<lparr>stack := s, top := top L - 1\<rparr>) = take ?k (frame L) @ drop (?k + 1) (frame L)"
      by (rule frame_eqI) (use r s(2,3) length_frame [OF ok] in \<open>auto simp: nth_append frame_nth [OF ok] min_def\<close>)
  qed (use s r in auto)
qed

lemma acts_insert:
  assumes ok: "frame_ok L" and v: "valid_index L idx"
  shows "acts_as (lua_insert idx) (\<lambda>f. take (frame_pos L idx) f @ last f # drop (frame_pos L idx) (butlast f)) L"
proof -
  let ?k = "frame_pos L idx"
  let ?p = "base L + ?k"
  have r: "?p < top L" "top L < length (stack L)" "base L \<le> top L" "?p \<le> top L"
    using index2adr_frame(2) [OF ok v] ok unfolding frame_ok_def by linarith+
  obtain s where s: "shift_up ?p (top L) L = (Inr (), L\<lparr>stack := s\<rparr>)" "length s = length (stack L)"
    "\<forall>i < length s. s ! i = (if ?p < i \<and> i \<le> top L then stack L ! (i - 1) else stack L ! i)"
    using shift_up_ok [OF r(4,2)] by blast
  have "s ! top L = stack L ! (top L - 1)" using s r by simp
  then have "lua_insert idx L = (Inr (), L\<lparr>stack := s[?p := stack L ! (top L - 1)], top := top L\<rparr>)"
    using r s(2) by (simp add: lua_insert_def mbind_def mseq_def valid_adr_frame [OF ok v] s(1) getstk_def setstk_def)
  then show ?thesis
  proof (rule acts_asI)
    have lf: "length (frame L) = top L - base L" "frame L \<noteq> []" using length_frame [OF ok] r by auto
    then have last: "last (frame L) = stack L ! (top L - 1)"
      using frame_nth [OF ok, of "top L - base L - 1"] r by (simp add: last_conv_nth)
    show "frame (L\<lparr>stack := s[?p := stack L ! (top L - 1)], top := top L\<rparr>) =
        take ?k (frame L) @ last (frame L) # drop ?k (butlast (frame L))"
    proof (rule frame_eqI)
      fix j assume j: "j < length (take ?k (frame L) @ last (frame L) # drop ?k (butlast (frame L)))"
      show "stack (L\<lparr>stack := s[?p := stack L ! (top L - 1)], top := top L\<rparr>) ! (base L + j) =
          (take ?k (frame L) @ last (frame L) # drop ?k (butlast (frame L))) ! j"
      proof -
        consider "j < ?k" | "j = ?k" | "?k < j" by linarith
        then show ?thesis
          by cases (use j r s(2,3) lf last in
            \<open>auto simp: nth_append nth_Cons' frame_nth [OF ok] nth_butlast\<close>)
      qed
    qed (use r s(2) lf in auto)
  qed (use s r in auto)
qed

lemma acts_replace:
  assumes ok: "frame_ok L" and v: "valid_index L idx"
  shows "acts_as (lua_replace idx) (\<lambda>f. butlast (f[frame_pos L idx := last f])) L"
proof -
  let ?k = "frame_pos L idx"
  let ?p = "base L + ?k"
  have r: "?p < top L" "top L < length (stack L)" "base L \<le> top L"
    using index2adr_frame(2) [OF ok v] ok unfolding frame_ok_def by linarith+
  have lf: "length (frame L) = top L - base L" "frame L \<noteq> []" using length_frame [OF ok] r by auto
  then have last: "last (frame L) = stack L ! (top L - 1)"
    using frame_nth [OF ok, of "top L - base L - 1"] r by (simp add: last_conv_nth)
  have ni: "idx \<noteq> LUA_ENVIRONINDEX" using v by (simp add: valid_index_def LUA_REGISTRYINDEX_def LUA_ENVIRONINDEX_def)
  have "lua_replace idx L = (Inr (), L\<lparr>stack := (stack L)[?p := stack L ! (top L - 1)], top := top L - 1\<rparr>)"
    using r ni by (simp add: lua_replace_def mbind_def mseq_def valid_adr_frame [OF ok v] getstk_def setstk_def set_adr_def
        incr_top_def nat_diff_distrib)
  then show ?thesis
  proof (rule acts_asI)
    show "frame (L\<lparr>stack := (stack L)[?p := stack L ! (top L - 1)], top := top L - 1\<rparr>) = butlast ((frame L)[?k := last (frame L)])"
      by (rule frame_eqI) (use r lf last in \<open>auto simp: nth_butlast nth_list_update frame_nth [OF ok]\<close>)
  qed (use r in auto)
qed

lemma fill_nil_ok:
  assumes "j \<le> length (stack L)"
  shows "\<exists>s. fill_nil i j L = (Inr (), L\<lparr>stack := s\<rparr>) \<and> length s = length (stack L) \<and>
    (\<forall>k < length s. s ! k = (if i \<le> k \<and> k < j then Nil else stack L ! k))"
  using assms
proof (induction i j arbitrary: L rule: fill_nil.induct)
  case (1 i j)
  show ?case
  proof (cases "i < j")
    case True
    let ?L = "L\<lparr>stack := (stack L)[i := Nil]\<rparr>"
    have e: "fill_nil i j L = fill_nil (i + 1) j ?L"
      using True 1(2) by (subst fill_nil.simps) (simp add: mseq_Inr [OF setstk_ok])
    have "j \<le> length (stack ?L)" using 1(2) by simp
    from 1(1) [OF True this] obtain s where s: "fill_nil (i + 1) j ?L = (Inr (), ?L\<lparr>stack := s\<rparr>)"
      "length s = length (stack ?L)" "\<forall>k < length s. s ! k = (if i + 1 \<le> k \<and> k < j then Nil else stack ?L ! k)" by blast
    have f: "\<forall>k < length s. s ! k = (if i \<le> k \<and> k < j then Nil else stack L ! k)"
    proof (intro allI impI)
      fix k assume "k < length s"
      then show "s ! k = (if i \<le> k \<and> k < j then Nil else stack L ! k)"
        using s(2) s(3) [rule_format, of k] True by (cases "k = i") auto
    qed
    show ?thesis unfolding e by (intro exI [of _ s] conjI f) (use s in simp_all)
  next
    case False
    then show ?thesis by (subst fill_nil.simps) (auto intro!: exI [of _ "stack L"])
  qed
qed

lemma acts_settop:
  assumes ok: "frame_ok L" and n: "base L + n \<le> length (stack L)"
  shows "acts_as (lua_settop (int n)) (\<lambda>f. take n f @ replicate (n - length f) Nil) L"
proof -
  have r: "base L \<le> top L" "top L < length (stack L)" using ok by (auto simp: frame_ok_def)
  obtain s where s: "fill_nil (top L) (base L + n) L = (Inr (), L\<lparr>stack := s\<rparr>)" "length s = length (stack L)"
    "\<forall>k < length s. s ! k = (if top L \<le> k \<and> k < base L + n then Nil else stack L ! k)"
    using fill_nil_ok [OF n] by blast
  have "lua_settop (int n) L = (Inr (), L\<lparr>stack := s, top := base L + n\<rparr>)"
    by (simp add: lua_settop_def mseq_def mbind_def s(1))
  then show ?thesis
  proof (rule acts_asI)
    show "frame (L\<lparr>stack := s, top := base L + n\<rparr>) = take n (frame L) @ replicate (n - length (frame L)) Nil"
      by (rule frame_eqI) (use r n s(2,3) length_frame [OF ok] in \<open>auto simp: nth_append frame_nth [OF ok] min_def\<close>)
  qed (use s r in auto)
qed

text \<open>
  C22: the stack operations of the API are operations on the list of values that a C function sees, its frame:
  \<^verbatim>\<open>lua_pushvalue\<close> adds a copy at the end, \<^verbatim>\<open>lua_remove\<close> takes a value out,
  \<^verbatim>\<open>lua_insert\<close> moves the last value to its new place, \<^verbatim>\<open>lua_replace\<close> moves it
  over another, \<^verbatim>\<open>lua_settop\<close> cuts the list or fills it with nils. They succeed for every valid
  index, positive or negative, and change nothing below the frame and nothing else in the state.
\<close>

theorem stack_operations:
  assumes "frame_ok L" "valid_index L idx" "base L + n \<le> length (stack L)"
  defines "k \<equiv> frame_pos L idx"
  shows "acts_as (lua_pushvalue idx) (\<lambda>f. f @ [f ! k]) L \<and>
    acts_as (lua_remove idx) (\<lambda>f. take k f @ drop (k + 1) f) L \<and>
    acts_as (lua_insert idx) (\<lambda>f. take k f @ last f # drop k (butlast f)) L \<and>
    acts_as (lua_replace idx) (\<lambda>f. butlast (f[k := last f])) L \<and>
    acts_as (lua_settop (int n)) (\<lambda>f. take n f @ replicate (n - length f) Nil) L"
  using acts_pushvalue [OF assms(1,2)] acts_remove [OF assms(1,2)] acts_insert [OF assms(1,2)]
    acts_replace [OF assms(1,2)] acts_settop [OF assms(1,3)]
  unfolding k_def by blast

text \<open>A state with a frame above one function slot, and room for \<open>n\<close> more values.\<close>

definition sample_state :: "tvalue list \<Rightarrow> nat \<Rightarrow> lua_State" where
  "sample_state vs n =
     \<lparr>stack = Nil # vs @ replicate n Nil, top = length vs + 1, base = 1,
      ci = \<lparr>ci_base = 1, ci_func = 0, ci_top = length vs + n, ci_savedpc = 0, ci_nresults = 0, ci_tailcalls = 0\<rparr>,
      callers = [], size_ci = 8, savedpc = 0, l_gt = Nil, nCcalls = 0, errfunc = 0, openupval = [], registry = Nil,
      mt = (\<lambda>_. None), tables = Map.empty, closures = Map.empty, udatas = Map.empty, upvs = Map.empty, fresh = 1\<rparr>"

theorem stack_operations_witness:
  "\<exists>L'. lua_insert (- 3) (sample_state [Boolean True, String ''a'', Nil, String ''b''] 5) = (Inr (), L') \<and>
     frame L' = [Boolean True, String ''b'', String ''a'', Nil]"
proof -
  let ?L = "sample_state [Boolean True, String ''a'', Nil, String ''b''] 5"
  have f: "frame ?L = [Boolean True, String ''a'', Nil, String ''b'']" by code_simp
  have "frame_ok ?L" "valid_index ?L (- 3)" "base ?L + 4 \<le> length (stack ?L)" by code_simp+
  from stack_operations [OF this] have "acts_as (lua_insert (- 3)) (\<lambda>f. take 1 f @ last f # drop 1 (butlast f)) ?L"
    by (simp add: frame_pos_def f)
  then show ?thesis by (auto simp: acts_as_def f)
qed

subsection \<open>Room on the stack\<close>

primrec push_all :: "tvalue list \<Rightarrow> unit lm" where
  "push_all [] = mret ()"
| "push_all (v # vs) = mseq (push v) (push_all vs)"

lemma push_all_ok:
  "frame_ok L \<Longrightarrow> top L + length vs < length (stack L) \<Longrightarrow>
     \<exists>L'. push_all vs L = (Inr (), L') \<and> frame L' = frame L @ vs \<and> same_outside L L'"
proof (induction vs arbitrary: L)
  case Nil
  then show ?case by (auto simp: same_outside_def intro!: exI [of _ "stack L"] exI [of _ "top L"])
next
  case (Cons v vs)
  let ?L = "L\<lparr>stack := (stack L)[top L := v], top := top L + 1\<rparr>"
  have ok: "frame_ok ?L" "top ?L + length vs < length (stack ?L)" using Cons.prems by (auto simp: frame_ok_def)
  obtain L' where L': "push_all vs ?L = (Inr (), L')" "frame L' = frame ?L @ vs" "same_outside ?L L'"
    using Cons.IH [OF ok] by blast
  have "take (base L) ((stack L)[top L := v]) = take (base L) (stack L)" using Cons.prems by (simp add: frame_ok_def)
  then have "same_outside L L'" using L'(3) unfolding same_outside_def by auto
  moreover have "push_all (v # vs) L = (Inr (), L')" using L'(1) by (simp add: mseq_def mbind_def push_ok(1) [OF Cons.prems(1)])
  ultimately show ?case using L'(2) push_ok(2) [OF Cons.prems(1), of v] by auto
qed

lemma take_app: "n \<le> length xs \<Longrightarrow> take n (xs @ ys) = take n xs"
  by simp

text \<open>
  C23: \<^verbatim>\<open>lua_checkstack\<close> keeps its promise. When it says that there is room for \<open>n\<close> values, the frame is as it
  was, and pushing any list of at most \<open>n\<close> values puts them on it and stays inside of the allocated stack,
  also when the stack had to grow; the limit of the frame covers them.
\<close>

theorem lua_checkstack_room:
  assumes "base L \<le> top L" "top L < length (stack L)" "0 < n" "lua_checkstack (int n) L = (Inr True, L')" "length vs \<le> n"
  shows "frame L' = frame L \<and> ci_top (ci L') \<ge> top L' + n \<and>
    (\<exists>L''. push_all vs L' = (Inr (), L'') \<and> frame L'' = frame L @ vs \<and> same_outside L' L'')"
proof -
  have "\<exists>L1. luaD_checkstack n L = (Inr (), L1)"
    by (simp add: luaD_checkstack_def luaD_growstack_def luaD_reallocstack_def)
  then obtain L1 where L1: "luaD_checkstack n L = (Inr (), L1)" by blast
  have g: "top L1 = top L" "base L1 = base L" "length (stack L) \<le> length (stack L1)"
    "take (length (stack L)) (stack L1) = stack L" "top L + n < length (stack L1)" "ci L1 = ci L"
    using L1 assms(1,2)
    by (auto simp: luaD_checkstack_def luaD_growstack_def luaD_reallocstack_def Let_def EXTRA_STACK_def split: if_splits)
  let ?f = "\<lambda>L. if ci_top (ci L) < top L + n then L\<lparr>ci := (ci L)\<lparr>ci_top := top L + n\<rparr>\<rparr> else L"
  have L': "L' = ?f L1"
    using assms(3,4) by (auto simp: lua_checkstack_def mseq_def mbind_def L1 split: if_splits)
  have s: "stack L' = stack L1" "top L' = top L" "base L' = base L" using g by (simp_all add: L')
  have "take (top L) (stack L1) = take (top L) (stack L)"
    using g(4) assms(2) by (metis less_imp_le min.absorb1 take_take)
  then have fr: "frame L' = frame L" by (simp add: frame_def s)
  have "frame_ok L'" "top L' + length vs < length (stack L')"
    using s g(3,5) assms(1,2,5) by (auto simp: frame_ok_def)
  from push_all_ok [OF this] have
    "\<exists>L''. push_all vs L' = (Inr (), L'') \<and> frame L'' = frame L @ vs \<and> same_outside L' L''" unfolding fr .
  moreover have "ci_top (ci L') \<ge> top L' + n" by (simp add: L')
  ultimately show ?thesis using fr by blast
qed

theorem lua_checkstack_room_witness:
  "\<exists>L' L''. lua_checkstack 4 (sample_state [Boolean True] 1) = (Inr True, L') \<and>
     push_all [Nil, Nil, Boolean False, Nil] L' = (Inr (), L'') \<and>
     frame L'' = [Boolean True, Nil, Nil, Boolean False, Nil]"
proof -
  let ?L = "sample_state [Boolean True] 1"
  have "\<exists>L'. lua_checkstack (int 4) ?L = (Inr True, L')"
    by (simp add: lua_checkstack_def sample_state_def LUAI_MAXCSTACK_def mseq_def mbind_def luaD_checkstack_def
        luaD_growstack_def luaD_reallocstack_def EXTRA_STACK_def)
  then obtain L' where L': "lua_checkstack (int 4) ?L = (Inr True, L')" by blast
  have "base ?L \<le> top ?L" "top ?L < length (stack ?L)" "(0::nat) < 4" by code_simp+
  from lua_checkstack_room [OF this L', of "[Nil, Nil, Boolean False, Nil]"]
  have "\<exists>L''. push_all [Nil, Nil, Boolean False, Nil] L' = (Inr (), L'') \<and>
      frame L'' = frame ?L @ [Nil, Nil, Boolean False, Nil]" by auto
  moreover have "frame ?L = [Boolean True]" by code_simp
  ultimately show ?thesis using L' by auto
qed

subsection \<open>Tables through the API\<close>

definition raw_value :: "table \<Rightarrow> tvalue \<Rightarrow> tvalue res" where
  "raw_value t k = slot_value t (luaH_get t k)"

lemma raw_value_ok: "table_ok t \<Longrightarrow> raw_value t k = Inr (amap t k)"
  by (simp add: raw_value_def slot_value_def luaH_get_ok table_ok_def amap_def)

lemma top_two:
  assumes "frame_ok L" "frame L = f @ [k, v]"
  shows "top L \<ge> 2" "stack L ! (top L - 2) = k" "stack L ! (top L - 1) = v" "base L + length f + 2 = top L"
proof -
  have l: "top L - base L = length f + 2" using length_frame [OF assms(1)] assms(2) by simp
  then show t: "base L + length f + 2 = top L" "top L \<ge> 2" by linarith+
  have "top L - 2 = base L + length f" "top L - 1 = base L + (length f + 1)" using t by linarith+
  then show "stack L ! (top L - 2) = k" "stack L ! (top L - 1) = v"
    using frame_nth [OF assms(1), of "length f"] frame_nth [OF assms(1), of "length f + 1"] l assms(2)
    by (simp_all add: nth_append)
qed

lemma same_outside_tables: "frame (L\<lparr>tables := m\<rparr>) = frame L"
  by (simp add: frame_def)

lemma tbl_ok: "tables L a = Some t \<Longrightarrow> tbl (TableRef a) L = (Inr (a, t), L)"
  by (simp add: tbl_def)

lemma table_op_Inr [simp]: "table_op (Inr x) = mret x"
  by (simp add: table_op_def fun_eq_iff)

lemma store_slot_put:
  assumes "table_put t k v = Inr t'" "\<And>p t1. luaH_set t k = Inr (p, t1) \<Longrightarrow> p \<noteq> NilObject"
  shows "store_slot a (luaH_set t k) v L = (Inr (), L\<lparr>tables := (tables L)(a \<mapsto> t')\<rparr>)"
  using assms by (auto simp: store_slot_def table_put_def set_tbl_def rbind_eq_Inr)

lemma luaH_set_slot: "table_ok t \<Longrightarrow> key_ok k \<Longrightarrow> entry_count t < 2 ^ 26 \<Longrightarrow> luaH_set t k = Inr (p, t1) \<Longrightarrow> p \<noteq> NilObject"
  using luaH_set_makes_room [of t k] by (auto simp: set_result_def)

lemma lua_rawset_ok:
  assumes ok: "frame_ok L" and fr: "frame L = f @ [k, v]" and idx: "index_val idx L = (Inr (TableRef a), L)"
    and t: "tables L a = Some t" "table_ok t" "key_ok k" "entry_count t < 2 ^ 26"
  shows "\<exists>t'. lua_rawset idx L = (Inr (), L\<lparr>tables := (tables L)(a \<mapsto> t'), top := top L - 2\<rparr>) \<and>
    frame (L\<lparr>tables := (tables L)(a \<mapsto> t'), top := top L - 2\<rparr>) = f \<and> table_ok t' \<and> metatable t' = metatable t \<and>
    (\<forall>key. amap t' key = (if norm_key key = norm_key k then v else amap t key))"
proof -
  obtain t' where p: "table_put t k v = Inr t'" "table_ok t'" "metatable t' = metatable t"
    "\<forall>key. amap t' key = (if norm_key key = norm_key k then v else amap t key)"
    using table_put_ok [OF t(2-4), of v] by blast
  note tt = top_two [OF ok fr]
  have len: "top L - 2 < length (stack L)" "top L - 1 < length (stack L)" using ok by (auto simp: frame_ok_def)
  have st: "store_slot a (luaH_set t k) v L = (Inr (), L\<lparr>tables := (tables L)(a \<mapsto> t')\<rparr>)"
    using store_slot_put [OF p(1)] luaH_set_slot [OF t(2-4)] by blast
  have "lua_rawset idx L = (Inr (), L\<lparr>tables := (tables L)(a \<mapsto> t'), top := top L - 2\<rparr>)"
    using len tt by (simp add: lua_rawset_def mbind_def mseq_def idx tbl_ok [OF t(1)] getstk_def st incr_top_def nat_diff_distrib)
  moreover have "frame (L\<lparr>tables := (tables L)(a \<mapsto> t'), top := top L - 2\<rparr>) = f"
  proof (rule frame_eqI)
    fix j assume "j < length f"
    then show "stack (L\<lparr>tables := (tables L)(a \<mapsto> t'), top := top L - 2\<rparr>) ! (base L + j) = f ! j"
      using frame_nth [OF ok, of j] tt(4) fr by (simp add: nth_append)
  qed (use tt ok in \<open>auto simp: frame_ok_def\<close>)
  ultimately show ?thesis using p by blast
qed

lemma lua_rawget_ok:
  assumes ok: "frame_ok L" and fr: "frame L = f @ [k]" and idx: "index_val idx L = (Inr (TableRef a), L)"
    and t: "tables L a = Some t" "table_ok t"
  shows "\<exists>L'. lua_rawget idx L = (Inr (), L') \<and> frame L' = f @ [amap t k] \<and> tables L' = tables L"
proof -
  have l: "top L - base L = length f + 1" using length_frame [OF ok] fr by simp
  then have tp: "top L - 1 = base L + length f" "base L + length f < length (stack L)" "top L \<noteq> 0"
    using ok by (auto simp: frame_ok_def)
  have "stack L ! (base L + length f) = k" using frame_nth [OF ok, of "length f"] l fr by (simp add: nth_append)
  then have "lua_rawget idx L = (Inr (), L\<lparr>stack := (stack L)[base L + length f := amap t k]\<rparr>)"
    using tp raw_value_ok [OF t(2)]
    by (simp add: lua_rawget_def mbind_def idx tbl_ok [OF t(1)] getstk_def setstk_def raw_value_def)
  moreover have "frame (L\<lparr>stack := (stack L)[base L + length f := amap t k]\<rparr>) = f @ [amap t k]"
  proof (rule frame_eqI)
    fix j assume "j < length (f @ [amap t k])"
    then show "stack (L\<lparr>stack := (stack L)[base L + length f := amap t k]\<rparr>) ! (base L + j) = (f @ [amap t k]) ! j"
      using frame_nth [OF ok, of j] l fr tp(2) by (auto simp: nth_append nth_list_update less_Suc_eq)
  qed (use tp l ok in \<open>auto simp: frame_ok_def\<close>)
  ultimately show ?thesis by auto
qed

text \<open>
  C24: tables through the API behave as maps. \<^verbatim>\<open>lua_rawset\<close> with a key and a value on the top pops both
  and succeeds for every key but nil and NaN; a \<^verbatim>\<open>lua_rawget\<close> on the same table afterwards replaces
  its key by the value stored if the keys are raw equal, and by what the table held before if not. Other
  tables stay as they are.
\<close>

theorem lua_rawset_rawget:
  assumes "frame_ok L" "frame L = f @ [k, v]" "index_val idx L = (Inr (TableRef a), L)"
    and "tables L a = Some t" "table_ok t" "key_ok k" "entry_count t < 2 ^ 26"
  shows "\<exists>L'. lua_rawset idx L = (Inr (), L') \<and> frame L' = f \<and> (\<forall>b. b \<noteq> a \<longrightarrow> tables L' b = tables L b) \<and>
    (\<forall>L2 g key idx2. frame_ok L2 \<and> frame L2 = g @ [key] \<and> tables L2 = tables L' \<and>
        index_val idx2 L2 = (Inr (TableRef a), L2) \<longrightarrow>
      (\<exists>L3. lua_rawget idx2 L2 = (Inr (), L3) \<and> tables L3 = tables L' \<and>
         frame L3 = g @ [if norm_key key = norm_key k then v else amap t key]))"
proof -
  obtain t' where t': "lua_rawset idx L = (Inr (), L\<lparr>tables := (tables L)(a \<mapsto> t'), top := top L - 2\<rparr>)"
    "frame (L\<lparr>tables := (tables L)(a \<mapsto> t'), top := top L - 2\<rparr>) = f" "table_ok t'"
    "\<forall>key. amap t' key = (if norm_key key = norm_key k then v else amap t key)"
    using lua_rawset_ok [OF assms] by blast
  let ?L = "L\<lparr>tables := (tables L)(a \<mapsto> t'), top := top L - 2\<rparr>"
  have "\<exists>L3. lua_rawget idx2 L2 = (Inr (), L3) \<and> tables L3 = tables ?L \<and>
      frame L3 = g @ [if norm_key key = norm_key k then v else amap t key]"
    if "frame_ok L2" "frame L2 = g @ [key]" "tables L2 = tables ?L" "index_val idx2 L2 = (Inr (TableRef a), L2)" for L2 g key idx2
  proof -
    have "tables L2 a = Some t'" using that(3) by simp
    from lua_rawget_ok [OF that(1,2,4) this t'(3)] show ?thesis using t'(4) that(3) by auto
  qed
  then show ?thesis using t'(1,2) by (intro exI [of _ ?L]) auto
qed

theorem lua_rawset_rawget_witness:
  "\<exists>t L'. luaH_new 0 0 = Inr t \<and>
     lua_rawset 1 (sample_state [TableRef 7, String ''x'', Boolean True] 5 \<lparr>tables := [7 \<mapsto> t]\<rparr>) = (Inr (), L') \<and>
     frame L' = [TableRef 7]"
proof -
  obtain t where t: "luaH_new 0 0 = Inr t" "table_ok t" "entry_count t = 0"
    using luaH_new_ok [of 0 0] by auto
  let ?L = "sample_state [TableRef 7, String ''x'', Boolean True] 5 \<lparr>tables := [7 \<mapsto> t]\<rparr>"
  have fr: "frame ?L = [TableRef 7, String ''x'', Boolean True]" by (simp add: frame_def sample_state_def)
  have ok: "frame_ok ?L" by (simp add: frame_ok_def sample_state_def)
  have "valid_index ?L 1" unfolding valid_index_def fr by (simp add: LUA_REGISTRYINDEX_def)
  from index_val_frame [OF ok this] have "index_val 1 ?L = (Inr (TableRef 7), ?L)" by (simp add: fr frame_pos_def)
  from lua_rawset_rawget [OF ok _ this, of "[TableRef 7]" "String ''x''" "Boolean True" t] t
  show ?thesis by (auto simp: fr key_ok_def is_nan_def)
qed

end
