(* ===== verification/LuaSymbexec.thy ===== *)
theory LuaSymbexec
  imports LuaProto
begin

unbundle bit_operations_syntax

section \<open>What the checker reads\<close>

text \<open>
  The functions of \<open>LuaProto\<close> are the checker as a test: they say nothing of a read outside of an array. Here is the
  same code with every read of the code, the constants and the prototypes as a step that can fail, in the order of
  the source and with its short circuits. It never fails, whatever the words of the code are, as long as it is not
  told to run past the end; its answer is the one of \<open>symbexec\<close> then. The error messages, which trace a
  register with it in code that runs, use this version.
\<close>

subsection \<open>Reads\<close>

text \<open>An element of an array; a read outside of it has no meaning.\<close>

definition elem_at :: "'a list \<Rightarrow> int \<Rightarrow> 'a res" where
  "elem_at xs i = (if 0 \<le> i \<and> i < int (length xs) then Inr (xs ! nat i) else Inl UndefinedAccess)"

definition code_rd :: "Proto \<Rightarrow> int \<Rightarrow> Instruction res" where
  "code_rd pt pc = elem_at (p_code pt) pc"

definition op_rd :: "Proto \<Rightarrow> int \<Rightarrow> OpCode option res" where
  "op_rd pt pc = rbind (code_rd pt pc) (\<lambda>i. Inr (opcode_of (GET_OPCODE i)))"

text \<open>The macro \<^verbatim>\<open>check\<close> with a condition that reads.\<close>

definition check_rd :: "bool res \<Rightarrow> 'a option res \<Rightarrow> 'a option res" where
  "check_rd c k = rbind c (\<lambda>x. if x then k else Inr None)"

subsection \<open>The checker\<close>

definition precheck_rd :: "Proto \<Rightarrow> bool res" where
  "precheck_rd pt =
     (if uint (maxstacksize pt) \<le> MAXSTACK \<and>
         uint (numparams pt) + uint (is_vararg pt AND VARARG_HASARG) \<le> uint (maxstacksize pt) \<and>
         (is_vararg pt AND VARARG_NEEDSARG = 0 \<or> is_vararg pt AND VARARG_HASARG \<noteq> 0) \<and>
         int (length (upvalues pt)) \<le> uint (nups pt) \<and>
         (int (length (lineinfo pt)) = sizecode pt \<or> int (length (lineinfo pt)) = 0) \<and>
         sizecode pt > 0
      then rbind (op_rd pt (sizecode pt - 1)) (\<lambda>ops. Inr (ops = Some OP_RETURN))
      else Inr False)"

function setlist_run_rd :: "Proto \<Rightarrow> int \<Rightarrow> int \<Rightarrow> int res" where
  "setlist_run_rd pt dest j =
     (if j < dest then
        rbind (code_rd pt (dest - 1 - j)) (\<lambda>d. if is_setlist0 d then setlist_run_rd pt dest (j + 1) else Inr j)
      else Inr j)"
  by pat_completeness auto
termination by (relation "measure (\<lambda>(pt, dest, j). nat (dest - j))") auto

declare setlist_run_rd.simps [simp del]

definition check_format_rd :: "Proto \<Rightarrow> int \<Rightarrow> OpCode \<Rightarrow> Instruction \<Rightarrow> (int \<times> int) option res" where
  "check_format_rd pt pc ops i =
     (case getOpMode ops of
        iAsBx \<Rightarrow>
          (let b = GETARG_sBx i; dest = pc + 1 + b in
           if getBMode ops = OpArgR then
             if 0 \<le> dest \<and> dest < sizecode pt then
               check_rd (if dest > 0 then rbind (setlist_run_rd pt dest 0) (\<lambda>j. Inr (even j)) else Inr True) (Inr (Some (b, 0)))
             else Inr None
           else Inr (Some (b, 0)))
      | _ \<Rightarrow> Inr (check_format pt pc ops i))"

definition checkopenop_rd :: "Proto \<Rightarrow> int \<Rightarrow> bool res" where
  "checkopenop_rd pt pc = rbind (code_rd pt (pc + 1)) (\<lambda>i. Inr (luaG_checkopenop i))"

text \<open>The loop over the words after a \<^verbatim>\<open>CLOSURE\<close>.\<close>

primrec captures_rd :: "Proto \<Rightarrow> int \<Rightarrow> nat list \<Rightarrow> bool res" where
  "captures_rd pt pc [] = Inr True"
| "captures_rd pt pc (j # js) =
     rbind (op_rd pt (pc + int j)) (\<lambda>ops.
       if ops = Some OP_GETUPVAL \<or> ops = Some OP_MOVE then captures_rd pt pc js else Inr False)"

text \<open>The second switch; the opcodes that read nothing but their own word are as in \<open>check_op\<close>.\<close>

definition check_op_rd :: "Proto \<Rightarrow> int \<Rightarrow> int \<Rightarrow> OpCode \<Rightarrow> int \<Rightarrow> int \<Rightarrow> int \<Rightarrow> int \<Rightarrow> int \<Rightarrow> (int \<times> int) option res" where
  "check_op_rd pt lastpc reg ops a b c pc lst =
     (let results_ok =
        (if b \<noteq> 0 \<longrightarrow> checkreg pt (a + b - 1) then
           check_rd (if c - 1 = LUA_MULTRET then checkopenop_rd pt pc
                     else Inr (c - 1 \<noteq> 0 \<longrightarrow> checkreg pt (a + (c - 1) - 1)))
             (Inr (Some (pc, if reg \<ge> a then pc else lst)))
         else Inr None);
        constant_ok = check_rd (rbind (elem_at (p_k pt) b) (\<lambda>v. Inr (ttype v = LUA_TSTRING))) (Inr (Some (pc, lst)))
      in case ops of
        OP_LOADBOOL \<Rightarrow>
          (if c = 1 then
             if pc + 2 < sizecode pt then
               check_rd (rbind (code_rd pt (pc + 1)) (\<lambda>i. Inr (opcode_of (GET_OPCODE i) \<noteq> Some OP_SETLIST \<or> GETARG_C i \<noteq> 0)))
                 (Inr (Some (pc, lst)))
             else Inr None
           else Inr (Some (pc, lst)))
      | OP_GETGLOBAL \<Rightarrow> constant_ok
      | OP_SETGLOBAL \<Rightarrow> constant_ok
      | OP_CALL \<Rightarrow> results_ok
      | OP_TAILCALL \<Rightarrow> results_ok
      | OP_CLOSURE \<Rightarrow>
          (if b < sizep pt then
             rbind (elem_at (p_p pt) b) (\<lambda>p.
               let nup = uint (nups p) in
               if pc + nup < sizecode pt then
                 check_rd (captures_rd pt pc [1..<nat nup + 1]) (Inr (Some (if reg \<noteq> NO_REG then pc + nup else pc, lst)))
               else Inr None)
           else Inr None)
      | OP_VARARG \<Rightarrow>
          (if is_vararg pt AND VARARG_ISVARARG \<noteq> 0 \<and> is_vararg pt AND VARARG_NEEDSARG = 0 then
             check_rd (if b - 1 = LUA_MULTRET then checkopenop_rd pt pc else Inr True)
               (if checkreg pt (a + (b - 1) - 1) then Inr (Some (pc, lst)) else Inr None)
           else Inr None)
      | _ \<Rightarrow> Inr (check_op pt lastpc reg ops a b c pc lst))"

definition symb_step_rd :: "Proto \<Rightarrow> int \<Rightarrow> int \<Rightarrow> int \<Rightarrow> int \<Rightarrow> (int \<times> int) option res" where
  "symb_step_rd pt lastpc reg pc lst =
     rbind (code_rd pt pc) (\<lambda>i.
       let a = GETARG_A i in
       case opcode_of (GET_OPCODE i) of
         None \<Rightarrow> Inr None
       | Some ops \<Rightarrow>
           if \<not> checkreg pt a then Inr None
           else rbind (check_format_rd pt pc ops i) (\<lambda>f.
             case f of
               None \<Rightarrow> Inr None
             | Some (b, c) \<Rightarrow>
                 (let lst' = (if testAMode ops \<and> a = reg then pc else lst) in
                  if testTMode ops then
                    if pc + 2 < sizecode pt then
                      check_rd (rbind (op_rd pt (pc + 1)) (\<lambda>n. Inr (n = Some OP_JMP)))
                        (check_op_rd pt lastpc reg ops a b c pc lst')
                    else Inr None
                  else check_op_rd pt lastpc reg ops a b c pc lst')))"

function symb_loop_rd :: "Proto \<Rightarrow> int \<Rightarrow> int \<Rightarrow> int \<Rightarrow> int \<Rightarrow> int option res" where
  "symb_loop_rd pt lastpc reg pc lst =
     (if pc < lastpc then
        rbind (symb_step_rd pt lastpc reg pc lst) (\<lambda>r.
          case r of
            None \<Rightarrow> Inr None
          | Some (pc', lst') \<Rightarrow> if pc' < pc then Inr None else symb_loop_rd pt lastpc reg (pc' + 1) lst')
      else Inr (Some lst))"
  by pat_completeness auto
termination by (relation "measure (\<lambda>(pt, lastpc, reg, pc, lst). nat (lastpc - pc))") auto

declare symb_loop_rd.simps [simp del]

definition symbexec_rd :: "Proto \<Rightarrow> int \<Rightarrow> int \<Rightarrow> Instruction res" where
  "symbexec_rd pt lastpc reg =
     rbind (precheck_rd pt) (\<lambda>ok.
       if \<not> ok then Inr 0
       else rbind (symb_loop_rd pt lastpc reg 0 (sizecode pt - 1)) (\<lambda>r.
         case r of None \<Rightarrow> Inr 0 | Some lst \<Rightarrow> code_rd pt lst))"

subsection \<open>It reads inside of its arrays\<close>

lemma elem_at_eq: "elem_at xs i = Inr x \<longleftrightarrow> 0 \<le> i \<and> i < int (length xs) \<and> x = xs ! nat i"
  by (auto simp: elem_at_def)

lemma code_rd_eq: "code_rd pt pc = Inr i \<longleftrightarrow> 0 \<le> pc \<and> pc < sizecode pt \<and> i = code_at pt pc"
  by (simp add: code_rd_def elem_at_eq code_at_def)

lemma op_rd_eq: "op_rd pt pc = Inr ops \<longleftrightarrow> 0 \<le> pc \<and> pc < sizecode pt \<and> ops = op_at pt pc"
  by (auto simp: op_rd_def rbind_eq_Inr code_rd_eq op_at_def)

lemma check_rd_eq: "check_rd c k = Inr r \<longleftrightarrow> (\<exists>x. c = Inr x \<and> (if x then k = Inr r else r = None))"
  by (auto simp: check_rd_def rbind_eq_Inr)

lemma precheck_rd: "precheck_rd pt = Inr (precheck pt)"
proof -
  have "op_rd pt (sizecode pt - 1) = Inr (op_at pt (sizecode pt - 1))" if "sizecode pt > 0" using that by (simp add: op_rd_eq)
  then show ?thesis by (auto simp: precheck_rd_def precheck_def)
qed

lemma setlist_run_rd:
  "0 \<le> j \<Longrightarrow> dest \<le> sizecode pt \<Longrightarrow> setlist_run_rd pt dest j = Inr (setlist_run pt dest j)"
proof (induction pt dest j rule: setlist_run.induct)
  case (1 pt dest j)
  show ?case
  proof (cases "j < dest")
    case True
    then have "code_rd pt (dest - 1 - j) = Inr (code_at pt (dest - 1 - j))" using 1(2,3) by (simp add: code_rd_eq)
    then show ?thesis using True 1 by (subst setlist_run_rd.simps, subst setlist_run.simps) simp
  qed (simp add: setlist_run_rd.simps [of pt dest j] setlist_run.simps [of pt dest j])
qed

lemma check_format_rd: "check_format_rd pt pc ops i = Inr (check_format pt pc ops i)"
  by (cases "getOpMode ops") (auto simp: check_format_rd_def check_format_def Let_def check_rd_def setlist_run_rd)

lemma captures_rd:
  "\<forall>j\<in>set js. 0 \<le> pc + int j \<and> pc + int j < sizecode pt \<Longrightarrow>
   captures_rd pt pc js = Inr (list_all (\<lambda>j. op_at pt (pc + int j) = Some OP_GETUPVAL \<or> op_at pt (pc + int j) = Some OP_MOVE) js)"
proof (induction js)
  case (Cons j js)
  then have "op_rd pt (pc + int j) = Inr (op_at pt (pc + int j))" by (simp add: op_rd_eq)
  then show ?case using Cons by simp
qed simp

lemma upt_le_int: "0 \<le> n \<Longrightarrow> j \<in> set [1..<nat n + 1] \<Longrightarrow> int j \<le> n"
  by auto

text \<open>The next word exists: the last one is a \<^verbatim>\<open>RETURN\<close>.\<close>

lemma word_after:
  assumes "precheck pt" "pc < sizecode pt" "op_at pt pc \<noteq> Some OP_RETURN" shows "pc + 1 < sizecode pt"
  using assms by (cases "pc = sizecode pt - 1") (auto simp: precheck_def)

lemma check_op_rd:
  assumes p: "precheck pt" and pc: "0 \<le> pc" "pc < sizecode pt" "op_at pt pc = Some ops"
    and f: "check_format pt pc ops (code_at pt pc) = Some (b, c)"
  shows "check_op_rd pt lastpc reg ops a b c pc lst = Inr (check_op pt lastpc reg ops a b c pc lst)"
proof -
  have nx: "code_rd pt (pc + 1) = Inr (code_at pt (pc + 1))" if "ops \<noteq> OP_RETURN"
    using word_after [OF p pc(2)] pc(1,3) that by (simp add: code_rd_eq)
  have b: "b = GETARG_Bx (code_at pt pc)" "getBMode ops = OpArgK \<longrightarrow> b < sizek pt" if "getOpMode ops = iABx"
    using f that by (auto simp: check_format_def Let_def split: if_splits)
  have b0: "0 \<le> b" if "getOpMode ops = iABx" using b(1) [OF that] arg_ranges by simp
  have k: "elem_at (p_k pt) b = Inr (p_k pt ! nat b)" if "ops = OP_GETGLOBAL \<or> ops = OP_SETGLOBAL"
    using b b0 that by (auto simp: elem_at_eq getOpMode_def getBMode_def)
  show ?thesis
  proof (cases "ops = OP_CLOSURE")
    case True
    show ?thesis
    proof (cases "b < sizep pt")
      case True
      have q: "elem_at (p_p pt) b = Inr (p_p pt ! nat b)" using b0 True \<open>ops = OP_CLOSURE\<close> by (simp add: elem_at_eq getOpMode_def)
      let ?nup = "uint (nups (p_p pt ! nat b))"
      have cap: "captures_rd pt pc [1..<nat ?nup + 1] =
          Inr (list_all (\<lambda>j. op_at pt (pc + int j) = Some OP_GETUPVAL \<or> op_at pt (pc + int j) = Some OP_MOVE) [1..<nat ?nup + 1])"
        if "pc + ?nup < sizecode pt"
        by (rule captures_rd) (use that pc(1) upt_le_int [of ?nup] in force)
      show ?thesis
        using cap by (auto simp: check_op_rd_def check_op_def \<open>ops = OP_CLOSURE\<close> True q Let_def check_rd_def)
    qed (simp add: check_op_rd_def check_op_def True Let_def)
  next
    case False
    then show ?thesis using nx k
      by (cases ops) (simp_all add: check_op_rd_def check_op_def checkopenop_rd_def check_rd_def Let_def op_at_def)
  qed
qed

lemma symb_step_rd:
  assumes "precheck pt" "0 \<le> pc" "pc < sizecode pt"
  shows "symb_step_rd pt lastpc reg pc lst = Inr (symb_step pt lastpc reg pc lst)"
proof -
  have i: "code_rd pt pc = Inr (code_at pt pc)" using assms(2,3) by (simp add: code_rd_eq)
  show ?thesis
  proof (cases "opcode_of (GET_OPCODE (code_at pt pc))")
    case (Some ops)
    then have o: "op_at pt pc = Some ops" by (simp add: op_at_def)
    show ?thesis
    proof (cases "check_format pt pc ops (code_at pt pc)")
      case (Some f)
      obtain b c where f: "f = (b, c)" by fastforce
      note op = check_op_rd [OF assms o Some [unfolded f]]
      have n: "op_rd pt (pc + 1) = Inr (op_at pt (pc + 1))" if "pc + 2 < sizecode pt" using that assms(2) by (simp add: op_rd_eq)
      show ?thesis using n
        by (simp add: symb_step_rd_def symb_step_def i \<open>opcode_of _ = _\<close> Some f op check_format_rd check_rd_def Let_def)
    qed (simp add: symb_step_rd_def symb_step_def i Some check_format_rd Let_def)
  qed (simp add: symb_step_rd_def symb_step_def i Let_def)
qed

lemma check_op_last:
  "check_op pt lastpc reg ops a b c pc lst0 = Some (pc', lst') \<Longrightarrow> lst' = lst0 \<or> lst' = pc"
  by (cases ops; auto simp: check_op_def Let_def split: if_splits)

lemma symb_step_last:
  assumes "symb_step pt lastpc reg pc lst = Some (pc', lst')" shows "lst' = lst \<or> lst' = pc"
  using assms check_op_last by (fastforce simp: symb_step_def Let_def split: option.splits if_splits prod.splits)

lemma symb_loop_rd:
  assumes "precheck pt" "lastpc \<le> sizecode pt" "0 \<le> pc" "0 \<le> lst" "lst < sizecode pt"
  shows "symb_loop_rd pt lastpc reg pc lst = Inr (symb_loop pt lastpc reg pc lst) \<and>
    (\<forall>r. symb_loop pt lastpc reg pc lst = Some r \<longrightarrow> 0 \<le> r \<and> r < sizecode pt)"
  using assms
proof (induction pt lastpc reg pc lst rule: symb_loop.induct)
  case (1 pt lastpc reg pc lst)
  show ?case
  proof (cases "pc < lastpc")
    case True
    then have s: "symb_step_rd pt lastpc reg pc lst = Inr (symb_step pt lastpc reg pc lst)" using symb_step_rd 1(2-4) by simp
    show ?thesis
    proof (cases "symb_step pt lastpc reg pc lst")
      case None
      then show ?thesis by (subst symb_loop_rd.simps, subst (1 2) symb_loop.simps) (simp add: True s)
    next
      case (Some r)
      obtain pc' lst' where r: "r = (pc', lst')" by fastforce
      have le: "pc \<le> pc'" using symb_step_increases Some r by blast
      have "lst' = lst \<or> lst' = pc" using symb_step_last Some r by blast
      then have l: "0 \<le> lst'" "lst' < sizecode pt" using 1(2-6) True by auto
      have "\<not> pc' < pc" using le by simp
      note IH = 1(1) [OF True Some r [symmetric] this 1(2,3) _ l]
      have "0 \<le> pc' + 1" using le 1(4) by simp
      note IH = IH [OF this]
      then show ?thesis using le by (subst symb_loop_rd.simps, subst (1 2) symb_loop.simps) (simp add: True s Some r)
    qed
  next
    case False
    then show ?thesis using 1(5,6) by (subst symb_loop_rd.simps, subst (1 2) symb_loop.simps) simp
  qed
qed

lemma symbexec_rd:
  assumes "lastpc \<le> sizecode pt" shows "symbexec_rd pt lastpc reg = Inr (symbexec pt lastpc reg)"
proof (cases "precheck pt")
  case True
  then have "0 \<le> sizecode pt - 1" by (simp add: precheck_def)
  note l = symb_loop_rd [OF True assms order_refl this]
  show ?thesis
  proof (cases "symb_loop pt lastpc reg 0 (sizecode pt - 1)")
    case (Some r)
    then have "code_rd pt r = Inr (code_at pt r)" using l by (simp add: code_rd_eq)
    then show ?thesis using l Some True by (simp add: symbexec_rd_def symbexec_def precheck_rd)
  qed (use l True in \<open>simp add: symbexec_rd_def symbexec_def precheck_rd\<close>)
qed (simp add: symbexec_rd_def symbexec_def precheck_rd)

text \<open>Where it is told to run past the end, it may read outside, but an answer is still the one of \<open>symbexec\<close>.\<close>

lemma symb_loop_rd_sound:
  assumes "precheck pt" "0 \<le> pc" "symb_loop_rd pt lastpc reg pc lst = Inr r"
  shows "r = symb_loop pt lastpc reg pc lst"
  using assms
proof (induction pt lastpc reg pc lst arbitrary: r rule: symb_loop.induct)
  case (1 pt lastpc reg pc lst)
  show ?case
  proof (cases "pc < lastpc")
    case True
    then obtain x where x: "symb_step_rd pt lastpc reg pc lst = Inr x"
      using 1(4) by (subst (asm) symb_loop_rd.simps) (auto simp: rbind_eq_Inr)
    then have "pc < sizecode pt" by (auto simp: symb_step_rd_def rbind_eq_Inr code_rd_eq)
    then have s: "x = symb_step pt lastpc reg pc lst" using symb_step_rd [OF 1(2,3)] x by simp
    show ?thesis
    proof (cases x)
      case None
      then show ?thesis using 1(4) True x s by (subst (asm) symb_loop_rd.simps, subst symb_loop.simps) simp
    next
      case (Some y)
      obtain pc' lst' where y: "y = (pc', lst')" by fastforce
      have "symb_step pt lastpc reg pc lst = Some (pc', lst')" using Some y s by simp
      note st = this
      then have le: "\<not> pc' < pc" using symb_step_increases by fastforce
      have l: "symb_loop_rd pt lastpc reg (pc' + 1) lst' = Inr r" using 1(4) True x Some y le by (subst (asm) symb_loop_rd.simps) simp
      have "0 \<le> pc' + 1" using le 1(3) by simp
      from 1(1) [OF True s [symmetric, unfolded Some] y [symmetric] le 1(2) this l] show ?thesis
        using True le by (subst symb_loop.simps) (simp add: st)
    qed
  next
    case False
    then show ?thesis using 1(4) by (subst (asm) symb_loop_rd.simps, subst symb_loop.simps) simp
  qed
qed

lemma symbexec_rd_sound:
  assumes "symbexec_rd pt lastpc reg = Inr i" shows "i = symbexec pt lastpc reg"
proof (cases "precheck pt")
  case True
  then obtain r where r: "symb_loop_rd pt lastpc reg 0 (sizecode pt - 1) = Inr r"
    "(case r of None \<Rightarrow> Inr 0 | Some lst \<Rightarrow> code_rd pt lst) = Inr i"
    using assms by (auto simp: symbexec_rd_def precheck_rd rbind_eq_Inr)
  have "symb_loop pt lastpc reg 0 (sizecode pt - 1) = r" using symb_loop_rd_sound [OF True order_refl r(1)] by simp
  then show ?thesis using r(2) True by (cases r) (simp_all add: symbexec_def code_rd_eq)
qed (use assms in \<open>simp add: symbexec_rd_def symbexec_def precheck_rd\<close>)

end
