(* ===== verification/LuaDebug.thy ===== *)
theory LuaDebug
  imports LuaApi LuaSymbexec
begin

unbundle bit_operations_syntax

section \<open>Debug information\<close>

text \<open>
  The part of \<^verbatim>\<open>ldebug.c\<close> that looks at running functions: local names, the names that error
  messages give to values, and the functions of the debug interface (hooks are not modelled). The name of
  a value in a register comes from the instruction that last set it, found by symbolic execution.
\<close>

subsection \<open>Names\<close>

fun getlocalname_loop :: "LocVar list \<Rightarrow> int \<Rightarrow> int \<Rightarrow> string option res" where
  "getlocalname_loop [] n pc = Inr None"
| "getlocalname_loop (v # vs) n pc =
     (if startpc v \<le> pc then
        if pc < endpc v then
          (if n - 1 = 0 then (case varname v of None \<Rightarrow> Inl UndefinedAccess | Some s \<Rightarrow> Inr (Some s))
           else getlocalname_loop vs (n - 1) pc)
        else getlocalname_loop vs n pc
      else Inr None)"

definition luaF_getlocalname :: "Proto \<Rightarrow> int \<Rightarrow> int \<Rightarrow> string option res" where
  "luaF_getlocalname f local_number pc = getlocalname_loop (locvars f) local_number pc"

definition kname :: "Proto \<Rightarrow> int \<Rightarrow> string res" where
  "kname p c =
     (if ISK c then rbind (elem_at (p_k p) (INDEXK c)) (\<lambda>v. Inr (case v of String s \<Rightarrow> s | _ \<Rightarrow> ''?''))
      else Inr ''?'')"

text \<open>The last instruction that changed a register, when it is a move, is a move to that register.\<close>

definition sets_reg :: "Proto \<Rightarrow> int \<Rightarrow> int \<Rightarrow> bool" where
  "sets_reg pt reg lst \<longleftrightarrow> (op_at pt lst = Some OP_MOVE \<longrightarrow> GETARG_A (code_at pt lst) = reg)"

lemma check_op_lst:
  assumes "check_op pt lastpc reg ops a b c pc lst0 = Some (pc', lst')"
  shows "lst' = lst0 \<or> lst' = pc \<and> ops \<noteq> OP_MOVE"
  using assms by (cases ops; auto simp: check_op_def Let_def split: if_splits)

lemma symb_step_lst:
  assumes "symb_step pt lastpc reg pc lst = Some (pc', lst')" "sets_reg pt reg lst"
  shows "sets_reg pt reg lst'"
proof -
  let ?a = "GETARG_A (code_at pt pc)"
  obtain ops b c where o: "op_at pt pc = Some ops"
    and ck: "check_op pt lastpc reg ops ?a b c pc (if testAMode ops \<and> ?a = reg then pc else lst) = Some (pc', lst')"
    using assms(1) by (auto simp: symb_step_def Let_def op_at_def split: option.splits if_splits prod.splits)
  from check_op_lst [OF ck] show ?thesis using assms(2) o by (auto simp: sets_reg_def split: if_splits)
qed

lemma symb_loop_lst:
  "symb_loop pt lastpc reg pc lst = Some r \<Longrightarrow> sets_reg pt reg lst \<Longrightarrow> sets_reg pt reg r"
proof (induction pt lastpc reg pc lst rule: symb_loop.induct)
  case (1 pt lastpc reg pc lst)
  show ?case
  proof (cases "pc < lastpc")
    case True
    then obtain pc' lst' where st: "symb_step pt lastpc reg pc lst = Some (pc', lst')" "\<not> pc' < pc"
      and r: "symb_loop pt lastpc reg (pc' + 1) lst' = Some r"
      using 1(2) by (subst (asm) symb_loop.simps) (auto split: option.splits if_splits)
    from 1(1) [OF True st(1) refl st(2) r symb_step_lst [OF st(1) 1(3)]] show ?thesis .
  next
    case False
    then have "r = lst" using 1(2) by (subst (asm) symb_loop.simps) simp
    then show ?thesis using 1(3) by simp
  qed
qed

lemma symbexec_move:
  assumes "opcode_of (GET_OPCODE (symbexec p pc reg)) = Some OP_MOVE"
  shows "GETARG_A (symbexec p pc reg) = reg \<or> GETARG_A (symbexec p pc reg) = 0"
proof (cases "symbexec p pc reg = 0")
  case True
  then show ?thesis by (simp add: arg_defs field_defs get_field_def)
next
  case False
  then obtain lst where l: "precheck p" "symb_loop p pc reg 0 (sizecode p - 1) = Some lst" "symbexec p pc reg = code_at p lst"
    by (auto simp: symbexec_def split: if_splits option.splits)
  have "sets_reg p reg (sizecode p - 1)" using l(1) by (simp add: sets_reg_def precheck_def)
  from symb_loop_lst [OF l(2) this] show ?thesis using assms l(3) by (simp add: sets_reg_def op_at_def)
qed

text \<open>The kind and the name of what register \<open>stackpos\<close> holds at \<open>pc\<close>.\<close>

function getobjname :: "Proto \<Rightarrow> int \<Rightarrow> int \<Rightarrow> (string \<times> string) option res" where
  "getobjname p pc stackpos =
     rbind (luaF_getlocalname p (stackpos + 1) pc) (\<lambda>n.
       case n of
         Some name \<Rightarrow> Inr (Some (''local'', name))
       | None \<Rightarrow>
           rbind (symbexec_rd p pc stackpos) (\<lambda>i.
            case opcode_of (GET_OPCODE i) of
              Some OP_GETGLOBAL \<Rightarrow>
                rbind (elem_at (p_k p) (GETARG_Bx i)) (\<lambda>v.
                  case v of String s \<Rightarrow> Inr (Some (''global'', s)) | _ \<Rightarrow> Inl UndefinedAccess)
            | Some OP_MOVE \<Rightarrow>
                if GETARG_B i < GETARG_A i then getobjname p pc (GETARG_B i) else Inr None
            | Some OP_GETTABLE \<Rightarrow> rbind (kname p (GETARG_C i)) (\<lambda>n. Inr (Some (''field'', n)))
            | Some OP_GETUPVAL \<Rightarrow>
                if upvalues p = [] then Inr (Some (''upvalue'', ''?''))
                else rbind (elem_at (upvalues p) (GETARG_B i)) (\<lambda>n.
                  case n of Some s \<Rightarrow> Inr (Some (''upvalue'', s)) | None \<Rightarrow> Inl UndefinedAccess)
            | Some OP_SELF \<Rightarrow> rbind (kname p (GETARG_C i)) (\<lambda>n. Inr (Some (''method'', n)))
            | _ \<Rightarrow> Inr None))"
  by pat_completeness auto
termination
proof (relation "measure (\<lambda>(p, pc, stackpos). nat stackpos)", simp)
  fix p :: Proto and pc stackpos x i xa
  assume i: "symbexec_rd p pc stackpos = Inr i" "opcode_of (GET_OPCODE i) = Some xa" "xa = OP_MOVE" "GETARG_B i < GETARG_A i"
  have "0 \<le> GETARG_B i" by (rule arg_ranges)
  moreover have "GETARG_A i = stackpos \<or> GETARG_A i = 0" using symbexec_move symbexec_rd_sound [OF i(1)] i(2,3) by simp
  ultimately show "((p, pc, GETARG_B i), p, pc, stackpos) \<in> measure (\<lambda>(p, pc, stackpos). nat stackpos)"
    using i(4) by auto
qed

declare getobjname.simps [simp del]

subsection \<open>Calls by number\<close>

definition base_ci :: "lua_State \<Rightarrow> CallInfo list" where
  "base_ci L = rev (callers L) @ [ci L]"

text \<open>The prototype and the position of call \<open>i\<close>; \<open>None\<close> for a C function.\<close>

definition getluaproto :: "lua_State \<Rightarrow> CallInfo \<Rightarrow> Proto option" where
  "getluaproto L c =
     (case ci_fun L c of
        FunctionRef a \<Rightarrow> (case closures L a of Some (LClosure _ p _) \<Rightarrow> Some p | _ \<Rightarrow> None)
      | _ \<Rightarrow> None)"

definition is_current :: "lua_State \<Rightarrow> nat \<Rightarrow> bool" where
  "is_current L i \<longleftrightarrow> i = length (callers L)"

definition ci_pc :: "lua_State \<Rightarrow> nat \<Rightarrow> int" where
  "ci_pc L i = currentpc L (base_ci L ! i) (is_current L i)"

definition ci_objname :: "lua_State \<Rightarrow> nat \<Rightarrow> int \<Rightarrow> (string \<times> string) option res" where
  "ci_objname L i stackpos =
     (case getluaproto L (base_ci L ! i) of
        None \<Rightarrow> Inr None
      | Some p \<Rightarrow> getobjname p (ci_pc L i) stackpos)"

definition getfuncname :: "lua_State \<Rightarrow> nat \<Rightarrow> (string \<times> string) option res" where
  "getfuncname L i =
     (if i = 0 then Inl UndefinedAccess
      else if isLua L (base_ci L ! i) \<and> ci_tailcalls (base_ci L ! i) > 0 then Inr None
      else case getluaproto L (base_ci L ! (i - 1)) of
        None \<Rightarrow> Inr None
      | Some p \<Rightarrow>
          (let pc = ci_pc L (i - 1) in
           if \<not> (0 \<le> pc \<and> pc < sizecode p) then Inl UndefinedAccess
           else
             let instr = code_at p pc; ops = opcode_of (GET_OPCODE instr) in
             if ops = Some OP_CALL \<or> ops = Some OP_TAILCALL \<or> ops = Some OP_TFORLOOP
             then ci_objname L (i - 1) (GETARG_A instr) else Inr None))"

subsection \<open>Type errors\<close>

text \<open>A value with the stack slot it is in, if it is in one.\<close>

type_synonym operand = "nat option \<times> tvalue"

definition isinstack :: "lua_State \<Rightarrow> operand \<Rightarrow> bool" where
  "isinstack L p = (case fst p of None \<Rightarrow> False | Some i \<Rightarrow> ci_base (ci L) \<le> i \<and> i < ci_top (ci L))"

definition typename_of :: "tvalue \<Rightarrow> string" where
  "typename_of v = luaT_typenames ! tag_num (ttype v)"

definition luaG_typeerror :: "operand \<Rightarrow> string \<Rightarrow> 'a lm" where
  "luaG_typeerror p act = (\<lambda>L.
     case (if isinstack L p then ci_objname L (length (callers L)) (int (the (fst p)) - int (base L)) else Inr None) of
       Inl e \<Rightarrow> (Inl e, L)
     | Inr (Some (kind, name)) \<Rightarrow>
         luaG_runerror ''attempt to %s %s '%s' (a %s value)''
           [FS (Some act), FS (Some kind), FS (Some name), FS (Some (typename_of (snd p)))] L
     | Inr None \<Rightarrow>
         luaG_runerror ''attempt to %s a %s value'' [FS (Some act), FS (Some (typename_of (snd p)))] L)"

definition is_string_or_number :: "tvalue \<Rightarrow> bool" where
  "is_string_or_number v \<longleftrightarrow> ttype v = LUA_TSTRING \<or> ttype v = LUA_TNUMBER"

definition luaG_concaterror :: "operand \<Rightarrow> operand \<Rightarrow> 'a lm" where
  "luaG_concaterror p1 p2 = luaG_typeerror (if is_string_or_number (snd p1) then p2 else p1) ''concatenate''"

definition luaG_aritherror :: "operand \<Rightarrow> operand \<Rightarrow> 'a lm" where
  "luaG_aritherror p1 p2 =
     luaG_typeerror (if luaV_tonumber (snd p1) = None then p1 else p2) ''perform arithmetic on''"

definition luaG_ordererror :: "tvalue \<Rightarrow> tvalue \<Rightarrow> 'a lm" where
  "luaG_ordererror v1 v2 =
     (let t1 = typename_of v1; t2 = typename_of v2 in
      if t1 ! 2 = t2 ! 2 then luaG_runerror ''attempt to compare two %s values'' [FS (Some t1)]
      else luaG_runerror ''attempt to compare %s with %s'' [FS (Some t1), FS (Some t2)])"

subsection \<open>The debug interface\<close>

text \<open>\<open>nm\<close> and \<open>i_ci\<close> are \<^verbatim>\<open>name\<close> and the number of the call, 0 for a lost tail call.\<close>

record lua_Debug =
  nm :: "string option"
  namewhat :: "string option"
  what :: string
  source :: string
  d_currentline :: int
  d_nups :: int
  d_linedefined :: int
  d_lastlinedefined :: int
  short_src :: string
  i_ci :: nat

text \<open>The loop of \<^verbatim>\<open>lua_getstack\<close> from call \<open>i\<close> down.\<close>

fun getstack_loop :: "lua_State \<Rightarrow> nat \<Rightarrow> int \<Rightarrow> nat \<times> int" where
  "getstack_loop L 0 level = (0, level)"
| "getstack_loop L (Suc i) level =
     (if level > 0 then
        getstack_loop L i (level - 1 - (if isLua L (base_ci L ! Suc i) then int (ci_tailcalls (base_ci L ! Suc i)) else 0))
      else (Suc i, level))"

definition lua_getstack :: "int \<Rightarrow> nat option lm" where
  "lua_getstack level = mget (\<lambda>L.
     let (i, lv) = getstack_loop L (length (callers L)) level in
     if lv = 0 \<and> i > 0 then Some i else if lv < 0 then Some 0 else None)"

definition findlocal :: "lua_State \<Rightarrow> nat \<Rightarrow> int \<Rightarrow> string option res" where
  "findlocal L i n =
     rbind (case getluaproto L (base_ci L ! i) of
              None \<Rightarrow> Inr None
            | Some fp \<Rightarrow> luaF_getlocalname fp n (ci_pc L i)) (\<lambda>name.
     case name of
       Some s \<Rightarrow> Inr (Some s)
     | None \<Rightarrow>
         (let limit = (if is_current L i then top L else ci_func (base_ci L ! (i + 1))) in
          if int limit - int (ci_base (base_ci L ! i)) \<ge> n \<and> n > 0 then Inr (Some ''(*temporary)'') else Inr None))"

definition lua_getlocal :: "nat \<Rightarrow> int \<Rightarrow> string option lm" where
  "lua_getlocal i n = (\<lambda>L.
     mbind (mlift (findlocal L i n)) (\<lambda>name.
       case name of
         None \<Rightarrow> mret None
       | Some s \<Rightarrow> mbind (getstk (ci_base (base_ci L ! i) + nat n - 1)) (\<lambda>v. mseq (luaA_pushobject v) (mret (Some s)))) L)"

definition lua_setlocal :: "nat \<Rightarrow> int \<Rightarrow> string option lm" where
  "lua_setlocal i n = (\<lambda>L.
     mbind (mlift (findlocal L i n)) (\<lambda>name.
       mseq (case name of
               None \<Rightarrow> mret ()
             | Some s \<Rightarrow> mbind (getstk (top L - 1)) (\<lambda>v. setstk (ci_base (base_ci L ! i) + nat n - 1) v))
       (mseq (incr_top (- 1)) (mret name))) L)"

definition funcinfo :: "closure \<Rightarrow> lua_Debug \<Rightarrow> lua_Debug res" where
  "funcinfo cl ar =
     rbind (case cl of
        CClosure _ _ _ \<Rightarrow> Inr (ar\<lparr>source := ''=[C]'', d_linedefined := -1, d_lastlinedefined := -1, what := ''C''\<rparr>)
      | LClosure _ p _ \<Rightarrow>
          (case p_source p of
             None \<Rightarrow> Inl UndefinedAccess
           | Some s \<Rightarrow> Inr (ar\<lparr>source := s, d_linedefined := linedefined p, d_lastlinedefined := lastlinedefined p,
               what := (if linedefined p = 0 then ''main'' else ''Lua'')\<rparr>))) (\<lambda>ar.
     rbind (luaO_chunkid (cstr (source ar)) LUA_IDSIZE) (\<lambda>s. Inr (ar\<lparr>short_src := s\<rparr>)))"

definition info_tailcall :: "lua_Debug \<Rightarrow> lua_Debug res" where
  "info_tailcall ar =
     rbind (luaO_chunkid ''=(tail call)'' LUA_IDSIZE) (\<lambda>s.
       Inr (ar\<lparr>nm := Some '''', namewhat := Some '''', what := ''tail'', d_lastlinedefined := -1, d_linedefined := -1,
         d_currentline := -1, source := ''=(tail call)'', short_src := s, d_nups := 0\<rparr>))"

definition collectvalidlines :: "closure option \<Rightarrow> unit lm" where
  "collectvalidlines f =
     (case f of
        Some (LClosure _ p _) \<Rightarrow>
          mbind (new_tbl 0 0) (\<lambda>a.
            mseq (foldr (\<lambda>ln k. mseq (mbind (tbl (TableRef a)) (\<lambda>(_, t). store_slot a (luaH_setnum t ln) (Boolean True))) k)
                   (lineinfo p) (mret ()))
              (push (TableRef a)))
      | _ \<Rightarrow> push Nil)"

definition closure_nups :: "closure \<Rightarrow> int" where
  "closure_nups f = (case f of CClosure _ _ up \<Rightarrow> int (length up) | LClosure _ _ up \<Rightarrow> int (length up))"

text \<open>One option of \<^verbatim>\<open>auxgetinfo\<close>: the status and the record.\<close>

definition getinfo_option :: "lua_State \<Rightarrow> char \<Rightarrow> closure \<Rightarrow> nat option \<Rightarrow> bool \<times> lua_Debug \<Rightarrow> (bool \<times> lua_Debug) res" where
  "getinfo_option L c f i sa =
     (let (st, ar) = sa in
      if c = CHR ''S'' then rbind (funcinfo f ar) (\<lambda>ar. Inr (st, ar))
      else if c = CHR ''l'' then
        Inr (st, ar\<lparr>d_currentline := (case i of None \<Rightarrow> -1 | Some i \<Rightarrow> currentline L (base_ci L ! i) (is_current L i))\<rparr>)
      else if c = CHR ''u'' then Inr (st, ar\<lparr>d_nups := closure_nups f\<rparr>)
      else if c = CHR ''n'' then
        rbind (case i of None \<Rightarrow> Inr None | Some i \<Rightarrow> getfuncname L i) (\<lambda>r.
          Inr (st, case r of
            None \<Rightarrow> ar\<lparr>namewhat := Some '''', nm := None\<rparr>
          | Some (kind, name) \<Rightarrow> ar\<lparr>namewhat := Some kind, nm := Some name\<rparr>))
      else if c = CHR ''L'' \<or> c = CHR ''f'' then Inr (st, ar)
      else Inr (False, ar))"

definition auxgetinfo :: "lua_State \<Rightarrow> string \<Rightarrow> lua_Debug \<Rightarrow> closure option \<Rightarrow> nat option \<Rightarrow> (bool \<times> lua_Debug) res" where
  "auxgetinfo L w ar f i =
     (case f of
        None \<Rightarrow> rbind (info_tailcall ar) (\<lambda>ar. Inr (True, ar))
      | Some f \<Rightarrow> foldl (\<lambda>r c. rbind r (getinfo_option L c f i)) (Inr (True, ar)) w)"

definition lua_getinfo :: "string \<Rightarrow> lua_Debug \<Rightarrow> (bool \<times> lua_Debug) lm" where
  "lua_getinfo w ar =
     mbind (if char_at w 0 = CHR ''>'' then
              mbind (mget (\<lambda>L. top L - 1)) (\<lambda>t. mbind (getstk t) (\<lambda>v. mbind (clos v) (\<lambda>(a, f).
                mseq (incr_top (- 1)) (mret (Some (a, f), None, drop 1 w)))))
            else if i_ci ar \<noteq> 0 then
              mbind (mget (\<lambda>L. ci_fun L (base_ci L ! i_ci ar))) (\<lambda>v. mbind (clos v) (\<lambda>(a, f). mret (Some (a, f), Some (i_ci ar), w)))
            else mret (None, None, w)) (\<lambda>(f, i, w).
     mbind (\<lambda>L. (auxgetinfo L w ar (map_option snd f) i, L)) (\<lambda>(status, ar).
     mseq (mwhen (CHR ''f'' \<in> set w) (push (case f of None \<Rightarrow> Nil | Some (a, _) \<Rightarrow> FunctionRef a)))
     (mseq (mwhen (CHR ''L'' \<in> set w) (collectvalidlines (map_option snd f)))
       (mret (status, ar)))))"


subsection \<open>Names are found without leaving the prototype\<close>

text \<open>The names a prototype must have: every local and every upvalue, or no upvalue at all.\<close>

definition names_ok :: "Proto \<Rightarrow> bool" where
  "names_ok p \<longleftrightarrow>
     list_all (\<lambda>v. varname v \<noteq> None) (locvars p) \<and>
     list_all (\<lambda>n. n \<noteq> None) (upvalues p) \<and>
     (upvalues p = [] \<or> int (length (upvalues p)) = uint (nups p))"

lemma getlocalname_total: "list_all (\<lambda>v. varname v \<noteq> None) vs \<Longrightarrow> \<exists>r. getlocalname_loop vs n pc = Inr r"
  by (induction vs n pc rule: getlocalname_loop.induct) (auto split: option.splits)

text \<open>What tracing establishes of the instruction it ends with: its second round of checks passed.\<close>

definition traced :: "Proto \<Rightarrow> int \<Rightarrow> bool" where
  "traced p l \<longleftrightarrow> op_at p l = Some OP_RETURN \<or>
     (\<exists>lastpc reg ops a b c lst r. op_at p l = Some ops \<and> check_format p l ops (code_at p l) = Some (b, c) \<and>
        check_op p lastpc reg ops a b c l lst = Some r)"

lemma symb_step_traced:
  assumes "symb_step pt lastpc reg pc lst = Some (pc', lst')" "traced pt lst"
  shows "traced pt lst'"
proof -
  obtain ops b c where o: "op_at pt pc = Some ops" "check_format pt pc ops (code_at pt pc) = Some (b, c)"
    and ck: "check_op pt lastpc reg ops (GETARG_A (code_at pt pc)) b c pc
      (if testAMode ops \<and> GETARG_A (code_at pt pc) = reg then pc else lst) = Some (pc', lst')"
    using assms(1) by (auto simp: symb_step_def Let_def op_at_def split: option.splits if_splits prod.splits)
  have "traced pt pc" using o ck by (auto simp: traced_def)
  with check_op_last [OF ck] assms(2) show ?thesis by (auto split: if_splits)
qed

lemma symb_loop_traced:
  "symb_loop pt lastpc reg pc lst = Some r \<Longrightarrow> traced pt lst \<Longrightarrow> traced pt r"
proof (induction pt lastpc reg pc lst rule: symb_loop.induct)
  case (1 pt lastpc reg pc lst)
  show ?case
  proof (cases "pc < lastpc")
    case True
    then obtain pc' lst' where st: "symb_step pt lastpc reg pc lst = Some (pc', lst')" "\<not> pc' < pc"
      and r: "symb_loop pt lastpc reg (pc' + 1) lst' = Some r"
      using 1(2) by (subst (asm) symb_loop.simps) (auto split: option.splits if_splits)
    from 1(1) [OF True st(1) refl st(2) r symb_step_traced [OF st(1) 1(3)]] show ?thesis .
  next
    case False
    then have "r = lst" using 1(2) by (subst (asm) symb_loop.simps) simp
    then show ?thesis using 1(3) by simp
  qed
qed

lemma symbexec_traced:
  "symbexec p pc reg = 0 \<or> (\<exists>l. symbexec p pc reg = code_at p l \<and> traced p l)"
proof (cases "precheck p")
  case True
  then have "traced p (sizecode p - 1)" by (simp add: traced_def precheck_def)
  then show ?thesis using symb_loop_traced [of p pc reg 0 "sizecode p - 1"]
    by (auto simp: symbexec_def split: option.splits)
qed (simp add: symbexec_def)

lemma opcode_zero: "opcode_of (GET_OPCODE 0) = Some OP_MOVE" "GETARG_A 0 = 0" "GETARG_B 0 = 0"
  by code_simp+

text \<open>The operands that \<open>getobjname\<close> reads are there.\<close>

lemma traced_operands:
  assumes "traced p l" "op_at p l = Some ops"
  shows "ops = OP_GETGLOBAL \<Longrightarrow> \<exists>s. elem_at (p_k p) (GETARG_Bx (code_at p l)) = Inr (String s)"
    and "ops = OP_GETTABLE \<or> ops = OP_SELF \<Longrightarrow> \<exists>s. kname p (GETARG_C (code_at p l)) = Inr s"
    and "ops = OP_GETUPVAL \<Longrightarrow> GETARG_B (code_at p l) < uint (nups p)"
proof -
  have T: "\<exists>lastpc reg a b c lst r. check_format p l ops (code_at p l) = Some (b, c) \<and>
        check_op p lastpc reg ops a b c l lst = Some r" if "ops \<noteq> OP_RETURN"
    using assms that by (auto simp: traced_def)
  show "\<exists>s. elem_at (p_k p) (GETARG_Bx (code_at p l)) = Inr (String s)" if "ops = OP_GETGLOBAL"
  proof -
    have "GETARG_Bx (code_at p l) < sizek p" "ttype (p_k p ! nat (GETARG_Bx (code_at p l))) = LUA_TSTRING"
      using T that by (auto simp: check_format_def check_op_def getOpMode_def getBMode_def Let_def split: if_splits)
    then show ?thesis using arg_ranges [of "code_at p l"]
      by (cases "p_k p ! nat (GETARG_Bx (code_at p l))") (auto simp: elem_at_def)
  qed
  show "\<exists>s. kname p (GETARG_C (code_at p l)) = Inr s" if "ops = OP_GETTABLE \<or> ops = OP_SELF"
  proof -
    have "checkArgMode p (GETARG_C (code_at p l)) OpArgK"
      using T that by (auto simp: check_format_def getOpMode_def getBMode_def getCMode_def Let_def split: if_splits)
    moreover have "0 \<le> INDEXK (GETARG_C (code_at p l))"
      using arg_ranges(5) [of "code_at p l"] by (simp add: INDEXK_def)
    ultimately show ?thesis by (auto simp: kname_def checkArgMode_def elem_at_def)
  qed
  show "GETARG_B (code_at p l) < uint (nups p)" if "ops = OP_GETUPVAL"
    using T that by (auto simp: check_format_def check_op_def getOpMode_def getBMode_def getCMode_def Let_def split: if_splits)
qed

text \<open>
  C25: the name that an error message gives to a value is found without reading outside of the prototype: at every
  position up to the end of the code and for every register, \<^verbatim>\<open>getobjname\<close> gives an answer, for any words as code,
  when every local has a name and there is either a name for each upvalue or none. Every read of the code, the
  constants, the prototypes and the upvalues is in it, those of the symbolic execution that traces the register too.
  In particular it ends, although it follows moves from register to register.
\<close>

theorem getobjname_safe:
  assumes "names_ok p" and "pc \<le> sizecode p"
  shows "\<exists>r. getobjname p pc stackpos = Inr r"
  using assms
proof (induction p pc stackpos rule: getobjname.induct)
  case (1 p pc stackpos)
  let ?i = "symbexec p pc stackpos"
  note rd = symbexec_rd [OF 1(3), of stackpos]
  obtain n where n: "luaF_getlocalname p (stackpos + 1) pc = Inr n"
    using getlocalname_total 1(2) by (fastforce simp: luaF_getlocalname_def names_ok_def)
  show ?case
  proof (cases "n = None \<and> ?i \<noteq> 0")
    case False
    then consider s where "n = Some s" | "n = None" "?i = 0" by (cases n) auto
    then show ?thesis by cases (subst getobjname.simps, simp add: n rd opcode_zero)+
  next
    case True
    then obtain l where l: "?i = code_at p l" "traced p l" using symbexec_traced [of p pc stackpos] by auto
    show ?thesis
    proof (cases "op_at p l")
      case None
      then show ?thesis using True l by (subst getobjname.simps) (simp add: n rd op_at_def)
    next
      case (Some ops)
      then have oc: "opcode_of (GET_OPCODE ?i) = Some ops" using l(1) by (simp add: op_at_def)
      have st: "getobjname p pc stackpos =
        (case ops of
           OP_GETGLOBAL \<Rightarrow> rbind (elem_at (p_k p) (GETARG_Bx ?i)) (\<lambda>v.
             case v of String s \<Rightarrow> Inr (Some (''global'', s)) | _ \<Rightarrow> Inl UndefinedAccess)
         | OP_MOVE \<Rightarrow> if GETARG_B ?i < GETARG_A ?i then getobjname p pc (GETARG_B ?i) else Inr None
         | OP_GETTABLE \<Rightarrow> rbind (kname p (GETARG_C ?i)) (\<lambda>n. Inr (Some (''field'', n)))
         | OP_GETUPVAL \<Rightarrow>
             if upvalues p = [] then Inr (Some (''upvalue'', ''?''))
             else rbind (elem_at (upvalues p) (GETARG_B ?i)) (\<lambda>n.
               case n of Some s \<Rightarrow> Inr (Some (''upvalue'', s)) | None \<Rightarrow> Inl UndefinedAccess)
         | OP_SELF \<Rightarrow> rbind (kname p (GETARG_C ?i)) (\<lambda>n. Inr (Some (''method'', n)))
         | _ \<Rightarrow> Inr None)"
        using oc True by (subst getobjname.simps) (simp add: n rd)
      note T = traced_operands [OF l(2) Some, folded l(1)]
      have up: "\<exists>s. elem_at (upvalues p) (GETARG_B ?i) = Inr (Some s)"
        if "ops = OP_GETUPVAL" "upvalues p \<noteq> []"
        using T(3) that 1(2) arg_ranges(3) [of ?i] by (auto simp: names_ok_def elem_at_def list_all_length)
      have mv: "\<exists>r. getobjname p pc (GETARG_B ?i) = Inr r" if "ops = OP_MOVE" "GETARG_B ?i < GETARG_A ?i"
        using 1(1) [OF n _ rd _ that(1) that(2) 1(2,3)] True oc by simp
      show ?thesis using T(1,2) up mv unfolding st by (cases ops) auto
    qed
  qed
qed


text \<open>A call of the second upvalue: the name comes with the list, and \<open>?\<close> without it.\<close>

definition upval_proto :: "string option list \<Rightarrow> Proto" where
  "upval_proto ups = Proto None 0 0 2 0 0 2 [8388612, 8405020, 8388638] [] [] [] [] ups"

theorem getobjname_safe_witness:
  "getobjname (upval_proto [Some ''a'', Some ''b'']) 1 0 = Inr (Some (''upvalue'', ''b'')) \<and>
   (\<exists>r. getobjname (upval_proto [Some ''a'', Some ''b'']) 1 0 = Inr r)"
proof
  show "getobjname (upval_proto [Some ''a'', Some ''b'']) 1 0 = Inr (Some (''upvalue'', ''b''))" by code_simp
  have "names_ok (upval_proto [Some ''a'', Some ''b''])" by code_simp
  then show "\<exists>r. getobjname (upval_proto [Some ''a'', Some ''b'']) 1 0 = Inr r" by (rule getobjname_safe) code_simp
qed

text \<open>
  The checker accepts a chunk that names only some of its upvalues: it asks for no more names than
  upvalues, not for as many. The name of the second upvalue is then read outside of the array.
\<close>

theorem getobjname_upvalue_hole:
  "luaG_checkcode (upval_proto [Some ''a'']) \<and> getobjname (upval_proto [Some ''a'']) 1 0 = Inl UndefinedAccess"
proof
  show "luaG_checkcode (upval_proto [Some ''a''])" by code_simp
  show "getobjname (upval_proto [Some ''a'']) 1 0 = Inl UndefinedAccess" by code_simp
qed

end
