(* ===== verification/LuaMeta.thy ===== *)
theory LuaMeta
  imports LuaDebug
begin

unbundle bit_operations_syntax

section \<open>Metamethods\<close>

text \<open>
  The events of \<^verbatim>\<open>ltm.h\<close>, the search for metamethods in \<^verbatim>\<open>ltm.c\<close> with its cache of
  absent ones, and the operations of \<^verbatim>\<open>lvm.c\<close> that may call them: indexing, comparison,
  concatenation and arithmetic. \<open>call\<close> stands for \<^verbatim>\<open>luaD_call\<close> throughout: it gets the slot
  of the function and the number of results; the interpreter instantiates it.
\<close>

subsection \<open>Events\<close>

datatype TMS =
    TM_INDEX | TM_NEWINDEX | TM_GC | TM_MODE | TM_EQ | TM_ADD | TM_SUB | TM_MUL | TM_DIV | TM_MOD
  | TM_POW | TM_UNM | TM_LEN | TM_LT | TM_LE | TM_CONCAT | TM_CALL

fun tm_num :: "TMS \<Rightarrow> nat" where
  "tm_num TM_INDEX = 0" | "tm_num TM_NEWINDEX = 1" | "tm_num TM_GC = 2" | "tm_num TM_MODE = 3" | "tm_num TM_EQ = 4"
| "tm_num TM_ADD = 5" | "tm_num TM_SUB = 6" | "tm_num TM_MUL = 7" | "tm_num TM_DIV = 8" | "tm_num TM_MOD = 9"
| "tm_num TM_POW = 10" | "tm_num TM_UNM = 11" | "tm_num TM_LEN = 12" | "tm_num TM_LT = 13" | "tm_num TM_LE = 14"
| "tm_num TM_CONCAT = 15" | "tm_num TM_CALL = 16"

definition luaT_eventname :: "string list" where
  "luaT_eventname =
     [''__index'', ''__newindex'',
      ''__gc'', ''__mode'', ''__eq'',
      ''__add'', ''__sub'', ''__mul'', ''__div'', ''__mod'',
      ''__pow'', ''__unm'', ''__len'', ''__lt'', ''__le'',
      ''__concat'', ''__call'']"

definition tmname :: "TMS \<Rightarrow> string" where
  "tmname e = luaT_eventname ! tm_num e"

subsection \<open>The search\<close>

text \<open>The bit of an event in the flags of a table: it is set when the event is known to be absent.\<close>

definition flag_of :: "TMS \<Rightarrow> 8 word" where
  "flag_of e = push_bit (tm_num e) 1"

definition luaT_gettm :: "addr \<Rightarrow> TMS \<Rightarrow> tvalue option lm" where
  "luaT_gettm events e =
     mbind (tbl (TableRef events)) (\<lambda>(a, t).
     mbind (mlift (slot_value t (luaH_getstr t (tmname e)))) (\<lambda>tm.
       if tm = Nil then mseq (set_tbl a (t\<lparr>flags := flags t OR flag_of e\<rparr>)) (mret None)
       else mret (Some tm)))"

definition fasttm :: "addr option \<Rightarrow> TMS \<Rightarrow> tvalue option lm" where
  "fasttm et e =
     (case et of
        None \<Rightarrow> mret None
      | Some a \<Rightarrow> mbind (tbl (TableRef a)) (\<lambda>(_, t).
          if flags t AND flag_of e \<noteq> 0 then mret None else luaT_gettm a e))"

definition metatable_of :: "tvalue \<Rightarrow> addr option lm" where
  "metatable_of v =
     (case v of
        TableRef _ \<Rightarrow> mbind (tbl v) (\<lambda>(_, t). mret (metatable t))
      | UserdataRef _ \<Rightarrow> mbind (udat v) (\<lambda>(_, u). mret (u_metatable u))
      | _ \<Rightarrow> mget (\<lambda>L. mt L (ttype v)))"

definition luaT_gettmbyobj :: "tvalue \<Rightarrow> TMS \<Rightarrow> tvalue lm" where
  "luaT_gettmbyobj v event =
     mbind (metatable_of v) (\<lambda>m.
       case m of
         None \<Rightarrow> mret Nil
       | Some a \<Rightarrow> mbind (tbl (TableRef a)) (\<lambda>(_, t). mlift (slot_value t (luaH_getstr t (tmname event)))))"

subsection \<open>Calls of metamethods\<close>

type_synonym callfun = "nat \<Rightarrow> int \<Rightarrow> unit lm"

definition callTMres :: "callfun \<Rightarrow> nat \<Rightarrow> tvalue \<Rightarrow> tvalue \<Rightarrow> tvalue \<Rightarrow> unit lm" where
  "callTMres call res f p1 p2 =
     mbind (mget top) (\<lambda>t.
     mseq (setstk t f) (mseq (setstk (t + 1) p1) (mseq (setstk (t + 2) p2)
     (mseq (luaD_checkstack 3)
     (mseq (incr_top 3)
     (mseq (mbind (mget top) (\<lambda>t. call (t - 3) 1))
     (mseq (incr_top (- 1))
       (mbind (mget top) (\<lambda>t. mbind (getstk t) (setstk res))))))))))"

definition callTM :: "callfun \<Rightarrow> tvalue \<Rightarrow> tvalue \<Rightarrow> tvalue \<Rightarrow> tvalue \<Rightarrow> unit lm" where
  "callTM call f p1 p2 p3 =
     mbind (mget top) (\<lambda>t.
     mseq (setstk t f) (mseq (setstk (t + 1) p1) (mseq (setstk (t + 2) p2) (mseq (setstk (t + 3) p3)
     (mseq (luaD_checkstack 4)
     (mseq (incr_top 4)
       (mbind (mget top) (\<lambda>t. call (t - 4) 0))))))))"

subsection \<open>Indexing\<close>

definition MAXTAGLOOP :: nat where "MAXTAGLOOP = 100"

text \<open>
  One round of the search: the value that was found (in \<open>Inl\<close>), or the metamethod to go on with.
  The object comes with the stack slot it is in, for the error message.
\<close>

definition gettable_find :: "operand \<Rightarrow> tvalue \<Rightarrow> (tvalue + tvalue) lm" where
  "gettable_find t key =
     (if ttype (snd t) = LUA_TTABLE then
        mbind (tbl (snd t)) (\<lambda>(_, h).
        mbind (mlift (slot_value h (luaH_get h key))) (\<lambda>res.
          if res \<noteq> Nil then mret (Inl res)
          else mbind (fasttm (metatable h) TM_INDEX) (\<lambda>tm. mret (case tm of None \<Rightarrow> Inl res | Some tm \<Rightarrow> Inr tm))))
      else
        mbind (luaT_gettmbyobj (snd t) TM_INDEX) (\<lambda>tm.
          if tm = Nil then luaG_typeerror t ''index'' else mret (Inr tm)))"

text \<open>
  The loops of \<^verbatim>\<open>luaV_gettable\<close> and \<^verbatim>\<open>luaV_settable\<close> with the number of rounds that are
  left.
\<close>

fun gettable_loop :: "callfun \<Rightarrow> nat \<Rightarrow> operand \<Rightarrow> tvalue \<Rightarrow> nat \<Rightarrow> unit lm" where
  "gettable_loop call 0 t key val = luaG_runerror ''loop in gettable'' []"
| "gettable_loop call (Suc loop) t key val =
     mbind (gettable_find t key) (\<lambda>r.
       case r of
         Inl res \<Rightarrow> setstk val res
       | Inr tm \<Rightarrow>
           if ttype tm = LUA_TFUNCTION then callTMres call val tm (snd t) key
           else gettable_loop call loop (None, tm) key val)"

definition luaV_gettable :: "callfun \<Rightarrow> operand \<Rightarrow> tvalue \<Rightarrow> nat \<Rightarrow> unit lm" where
  "luaV_gettable call t key val = gettable_loop call MAXTAGLOOP t key val"

text \<open>\<^verbatim>\<open>oldval\<close> points into the table: the store happens in the table as it is then.\<close>

definition store_through :: "addr \<Rightarrow> slot \<Rightarrow> tvalue \<Rightarrow> unit lm" where
  "store_through a p v =
     mbind (tbl (TableRef a)) (\<lambda>(_, t). if p = NilObject then mfail UndefinedAccess else set_tbl a (set_slot t p v))"

definition settable_find :: "operand \<Rightarrow> tvalue \<Rightarrow> ((addr \<times> slot) + tvalue) lm" where
  "settable_find t key =
     (if ttype (snd t) = LUA_TTABLE then
        mbind (tbl (snd t)) (\<lambda>(a, h).
        mbind (table_op (luaH_set h key)) (\<lambda>(p, h').
        mseq (set_tbl a h')
          (if slot_val h' p \<noteq> Nil then mret (Inl (a, p))
           else mbind (fasttm (metatable h') TM_NEWINDEX) (\<lambda>tm.
             mret (case tm of None \<Rightarrow> Inl (a, p) | Some tm \<Rightarrow> Inr tm)))))
      else
        mbind (luaT_gettmbyobj (snd t) TM_NEWINDEX) (\<lambda>tm.
          if tm = Nil then luaG_typeerror t ''index'' else mret (Inr tm)))"

fun settable_loop :: "callfun \<Rightarrow> nat \<Rightarrow> operand \<Rightarrow> tvalue \<Rightarrow> tvalue \<Rightarrow> unit lm" where
  "settable_loop call 0 t key val = luaG_runerror ''loop in settable'' []"
| "settable_loop call (Suc loop) t key val =
     mbind (settable_find t key) (\<lambda>r.
       case r of
         Inl (a, p) \<Rightarrow> store_through a p val
       | Inr tm \<Rightarrow>
           if ttype tm = LUA_TFUNCTION then callTM call tm (snd t) key val
           else settable_loop call loop (None, tm) key val)"

definition luaV_settable :: "callfun \<Rightarrow> operand \<Rightarrow> tvalue \<Rightarrow> tvalue \<Rightarrow> unit lm" where
  "luaV_settable call t key val = settable_loop call MAXTAGLOOP t key val"

subsection \<open>Binary operations and comparison\<close>

definition call_binTM :: "callfun \<Rightarrow> tvalue \<Rightarrow> tvalue \<Rightarrow> nat \<Rightarrow> TMS \<Rightarrow> bool lm" where
  "call_binTM call p1 p2 res event =
     mbind (luaT_gettmbyobj p1 event) (\<lambda>tm.
     mbind (if tm = Nil then luaT_gettmbyobj p2 event else mret tm) (\<lambda>tm.
       if tm = Nil then mret False
       else mseq (callTMres call res tm p1 p2) (mret True)))"

definition get_compTM :: "addr option \<Rightarrow> addr option \<Rightarrow> TMS \<Rightarrow> tvalue option lm" where
  "get_compTM mt1 mt2 event =
     mbind (fasttm mt1 event) (\<lambda>tm1.
       case tm1 of
         None \<Rightarrow> mret None
       | Some tm1 \<Rightarrow>
           if mt1 = mt2 then mret (Some tm1)
           else mbind (fasttm mt2 event) (\<lambda>tm2.
             mret (case tm2 of None \<Rightarrow> None | Some tm2 \<Rightarrow> if luaO_rawequalObj tm1 tm2 then Some tm1 else None)))"

text \<open>The value that a call left at the top, as a condition.\<close>

definition top_true :: "bool lm" where
  "top_true = mbind (mget top) (\<lambda>t. mbind (getstk t) (\<lambda>v. mret (\<not> l_isfalse v)))"

definition call_orderTM :: "callfun \<Rightarrow> tvalue \<Rightarrow> tvalue \<Rightarrow> TMS \<Rightarrow> bool option lm" where
  "call_orderTM call p1 p2 event =
     mbind (luaT_gettmbyobj p1 event) (\<lambda>tm1.
       if tm1 = Nil then mret None
       else mbind (luaT_gettmbyobj p2 event) (\<lambda>tm2.
         if \<not> luaO_rawequalObj tm1 tm2 then mret None
         else mseq (mbind (mget top) (\<lambda>t. callTMres call t tm1 p1 p2)) (mbind top_true (\<lambda>b. mret (Some b)))))"

text \<open>
  \<^verbatim>\<open>strcoll\<close> in the C locale, in which the program runs unless a script changes it, compares bytes up to the terminator, as
  \<^verbatim>\<open>strcmp\<close> does; its sign is all that counts.
\<close>

fun strcoll :: "string \<Rightarrow> string \<Rightarrow> int" where
  "strcoll [] [] = 0"
| "strcoll [] (d # ds) = (if d = NUL then 0 else -1)"
| "strcoll (c # cs) [] = (if c = NUL then 0 else 1)"
| "strcoll (c # cs) (d # ds) =
     (if uchar c < uchar d then -1 else if uchar d < uchar c then 1
      else if c = NUL then 0 else strcoll cs ds)"

text \<open>The loop drops what it has compared, with the terminator, from both strings.\<close>

function l_strcmp :: "string \<Rightarrow> string \<Rightarrow> int" where
  "l_strcmp l r =
     (let temp = strcoll l r in
      if temp \<noteq> 0 then temp
      else
        let len = length (cstr l) in
        if len = length r then (if len = length l then 0 else 1)
        else if len = length l then -1
        else l_strcmp (drop (len + 1) l) (drop (len + 1) r))"
  by pat_completeness auto
termination
proof (relation "measure (\<lambda>(l, r). length l)", simp)
  fix l r :: string and temp :: int and len :: nat
  assume "len = length (cstr l)" "len \<noteq> length l"
  then show "((drop (len + 1) l, drop (len + 1) r), l, r) \<in> measure (\<lambda>(l, r). length l)"
    by (cases l) (auto simp: cstr_def)
qed

declare l_strcmp.simps [simp del]

definition luaV_lessthan :: "callfun \<Rightarrow> tvalue \<Rightarrow> tvalue \<Rightarrow> bool lm" where
  "luaV_lessthan call l r =
     (if ttype l \<noteq> ttype r then luaG_ordererror l r
      else case (l, r) of
        (Number a, Number b) \<Rightarrow> mret (luai_numlt a b)
      | (String a, String b) \<Rightarrow> mret (l_strcmp a b < 0)
      | _ \<Rightarrow> mbind (call_orderTM call l r TM_LT) (\<lambda>res.
          case res of Some b \<Rightarrow> mret b | None \<Rightarrow> luaG_ordererror l r))"

definition lessequal :: "callfun \<Rightarrow> tvalue \<Rightarrow> tvalue \<Rightarrow> bool lm" where
  "lessequal call l r =
     (if ttype l \<noteq> ttype r then luaG_ordererror l r
      else case (l, r) of
        (Number a, Number b) \<Rightarrow> mret (luai_numle a b)
      | (String a, String b) \<Rightarrow> mret (l_strcmp a b \<le> 0)
      | _ \<Rightarrow> mbind (call_orderTM call l r TM_LE) (\<lambda>res.
          case res of
            Some b \<Rightarrow> mret b
          | None \<Rightarrow> mbind (call_orderTM call r l TM_LT) (\<lambda>res.
              case res of Some b \<Rightarrow> mret (\<not> b) | None \<Rightarrow> luaG_ordererror l r)))"

text \<open>Both values have the same type.\<close>

definition luaV_equalval :: "callfun \<Rightarrow> tvalue \<Rightarrow> tvalue \<Rightarrow> bool lm" where
  "luaV_equalval call t1 t2 =
     (let with_tm = (\<lambda>m. mbind m (\<lambda>tm.
        case tm of
          None \<Rightarrow> mret False
        | Some tm \<Rightarrow> mseq (mbind (mget top) (\<lambda>t. callTMres call t tm t1 t2)) top_true))
      in case (t1, t2) of
        (Nil, _) \<Rightarrow> mret True
      | (Number a, Number b) \<Rightarrow> mret (luai_numeq a b)
      | (Boolean a, Boolean b) \<Rightarrow> mret (a = b)
      | (LightUserdata a, LightUserdata b) \<Rightarrow> mret (a = b)
      | (UserdataRef a, UserdataRef b) \<Rightarrow>
          if a = b then mret True
          else with_tm (mbind (udat t1) (\<lambda>(_, u1). mbind (udat t2) (\<lambda>(_, u2).
            get_compTM (u_metatable u1) (u_metatable u2) TM_EQ)))
      | (TableRef a, TableRef b) \<Rightarrow>
          if a = b then mret True
          else with_tm (mbind (tbl t1) (\<lambda>(_, h1). mbind (tbl t2) (\<lambda>(_, h2).
            get_compTM (metatable h1) (metatable h2) TM_EQ)))
      | _ \<Rightarrow> mret (t1 = t2))"

definition equalobj :: "callfun \<Rightarrow> tvalue \<Rightarrow> tvalue \<Rightarrow> bool lm" where
  "equalobj call o1 o2 = (if ttype o1 = ttype o2 then luaV_equalval call o1 o2 else mret False)"

subsection \<open>Concatenation\<close>

text \<open>The macro \<^verbatim>\<open>tostring\<close> on a stack slot.\<close>

definition tostring :: "nat \<Rightarrow> bool lm" where
  "tostring i = mbind (getstk i) (\<lambda>v. if ttype v = LUA_TSTRING then mret True else luaV_tostring (AStack i))"

definition tsvalue :: "nat \<Rightarrow> string lm" where
  "tsvalue i = mbind (getstk i) (\<lambda>v. case v of String s \<Rightarrow> mret s | _ \<Rightarrow> mfail UndefinedAccess)"

text \<open>
  The loop that looks for more strings below: it gives their number and adds up their length.
\<close>

function concat_count :: "nat \<Rightarrow> nat \<Rightarrow> nat \<Rightarrow> nat \<Rightarrow> (nat \<times> nat) lm" where
  "concat_count t tot n len =
     (if n < tot then
        mbind (tostring (t - n - 1)) (\<lambda>ok.
          if \<not> ok then mret (n, len)
          else mbind (tsvalue (t - n - 1)) (\<lambda>s.
            if length s \<ge> MAX_SIZET - len then luaG_runerror ''string length overflow'' []
            else concat_count t tot (n + 1) (len + length s)))
      else mret (n, len))"
  by pat_completeness auto
termination by (relation "measure (\<lambda>(t, tot, n, len). tot - n)") auto

declare concat_count.simps [simp del]

text \<open>The strings in the \<open>n\<close> slots below \<open>t\<close>, the deepest first, in one buffer.\<close>

fun concat_copy :: "nat \<Rightarrow> nat \<Rightarrow> string lm" where
  "concat_copy t 0 = mret []"
| "concat_copy t (Suc i) = mbind (tsvalue (t - Suc i)) (\<lambda>s. mbind (concat_copy t i) (\<lambda>r. mret (s @ r)))"

text \<open>One pass: the number of values that became one.\<close>

definition concat_pass :: "callfun \<Rightarrow> nat \<Rightarrow> nat \<Rightarrow> nat lm" where
  "concat_pass call tot t =
     mbind (getstk (t - 2)) (\<lambda>v2.
     mbind (if is_string_or_number v2 then tostring (t - 1) else mret False) (\<lambda>ok.
       if \<not> ok then
         mbind (getstk (t - 2)) (\<lambda>v2. mbind (getstk (t - 1)) (\<lambda>v1.
         mbind (call_binTM call v2 v1 (t - 2) TM_CONCAT) (\<lambda>done.
           if done then mret 2 else luaG_concaterror (Some (t - 2), v2) (Some (t - 1), v1))))
       else
         mbind (tsvalue (t - 1)) (\<lambda>s.
           if s = [] then mbind (tostring (t - 2)) (\<lambda>_. mret 2)
           else
             mbind (concat_count t tot 1 (length s)) (\<lambda>(n, len).
             mbind (concat_copy t n) (\<lambda>buffer.
             mseq (setstk (t - n) (String buffer)) (mret n))))))"

text \<open>Every pass but the last makes \<open>tot\<close> smaller, so \<open>tot\<close> passes are enough.\<close>

fun concat_loop :: "callfun \<Rightarrow> nat \<Rightarrow> nat \<Rightarrow> int \<Rightarrow> unit lm" where
  "concat_loop call 0 tot lst = mfail OutOfFuel"
| "concat_loop call (Suc fuel) tot lst =
     mbind (mget (\<lambda>L. nat (int (base L) + lst + 1))) (\<lambda>t.
     mbind (concat_pass call tot t) (\<lambda>n.
       if tot - (n - 1) > 1 then concat_loop call fuel (tot - (n - 1)) (lst - (int n - 1)) else mret ()))"

definition luaV_concat :: "callfun \<Rightarrow> nat \<Rightarrow> int \<Rightarrow> unit lm" where
  "luaV_concat call tot lst = concat_loop call tot tot lst"

subsection \<open>Arithmetic\<close>

text \<open>\<^verbatim>\<open>pow\<close> of the mathematical library is a parameter, \<open>numpow\<close>.\<close>

definition arith_num :: "(lua_Number \<Rightarrow> lua_Number \<Rightarrow> lua_Number) \<Rightarrow> TMS \<Rightarrow> lua_Number \<Rightarrow> lua_Number \<Rightarrow> lua_Number option" where
  "arith_num numpow ev nb nc =
     (case ev of
        TM_ADD \<Rightarrow> Some (luai_numadd nb nc)
      | TM_SUB \<Rightarrow> Some (luai_numsub nb nc)
      | TM_MUL \<Rightarrow> Some (luai_nummul nb nc)
      | TM_DIV \<Rightarrow> Some (luai_numdiv nb nc)
      | TM_MOD \<Rightarrow> Some (luai_nummod nb nc)
      | TM_POW \<Rightarrow> Some (numpow nb nc)
      | TM_UNM \<Rightarrow> Some (luai_numunm nb)
      | _ \<Rightarrow> None)"

definition Arith :: "(lua_Number \<Rightarrow> lua_Number \<Rightarrow> lua_Number) \<Rightarrow> callfun \<Rightarrow> nat \<Rightarrow> operand \<Rightarrow> operand \<Rightarrow> TMS \<Rightarrow> unit lm" where
  "Arith numpow call ra rb rc ev =
     (case (luaV_tonumber (snd rb), luaV_tonumber (snd rc)) of
        (Some nb, Some nc) \<Rightarrow>
          (case arith_num numpow ev nb nc of Some n \<Rightarrow> setstk ra (Number n) | None \<Rightarrow> mret ())
      | _ \<Rightarrow>
          mbind (call_binTM call (snd rb) (snd rc) ra ev) (\<lambda>done.
            if done then mret () else luaG_aritherror rb rc))"

subsection \<open>The functions of the API that may call metamethods\<close>

text \<open>The value an index stands for, with its slot.\<close>

definition index_operand :: "adr \<Rightarrow> operand lm" where
  "index_operand a = mbind (adr_val a) (\<lambda>v. mret (case a of AStack i \<Rightarrow> Some i | _ \<Rightarrow> None, v))"

definition lua_gettable :: "callfun \<Rightarrow> int \<Rightarrow> unit lm" where
  "lua_gettable call idx =
     mbind (valid_adr idx) (\<lambda>a. mbind (index_operand a) (\<lambda>t.
     mbind (mget (\<lambda>L. top L - 1)) (\<lambda>i. mbind (getstk i) (\<lambda>key. luaV_gettable call t key i))))"

definition lua_getfield :: "callfun \<Rightarrow> int \<Rightarrow> string \<Rightarrow> unit lm" where
  "lua_getfield call idx k =
     mbind (valid_adr idx) (\<lambda>a. mbind (index_operand a) (\<lambda>t.
     mbind (mget top) (\<lambda>i. mseq (luaV_gettable call t (String (cstr k)) i) (incr_top 1))))"

definition lua_settable :: "callfun \<Rightarrow> int \<Rightarrow> unit lm" where
  "lua_settable call idx =
     mbind (valid_adr idx) (\<lambda>a. mbind (index_operand a) (\<lambda>t.
     mbind (mget top) (\<lambda>i. mbind (getstk (i - 2)) (\<lambda>key. mbind (getstk (i - 1)) (\<lambda>v.
     mseq (luaV_settable call t key v) (incr_top (- 2)))))))"

definition lua_setfield :: "callfun \<Rightarrow> int \<Rightarrow> string \<Rightarrow> unit lm" where
  "lua_setfield call idx k =
     mbind (valid_adr idx) (\<lambda>a. mbind (index_operand a) (\<lambda>t.
     mbind (mget top) (\<lambda>i. mbind (getstk (i - 1)) (\<lambda>v.
     mseq (luaV_settable call t (String (cstr k)) v) (incr_top (- 1))))))"

definition lua_equal :: "callfun \<Rightarrow> int \<Rightarrow> int \<Rightarrow> bool lm" where
  "lua_equal call index1 index2 =
     mbind (index2adr index1) (\<lambda>o1. mbind (index2adr index2) (\<lambda>o2.
       if o1 = ANil \<or> o2 = ANil then mret False
       else mbind (adr_val o1) (\<lambda>v1. mbind (adr_val o2) (\<lambda>v2. equalobj call v1 v2))))"

definition lua_lessthan :: "callfun \<Rightarrow> int \<Rightarrow> int \<Rightarrow> bool lm" where
  "lua_lessthan call index1 index2 =
     mbind (index2adr index1) (\<lambda>o1. mbind (index2adr index2) (\<lambda>o2.
       if o1 = ANil \<or> o2 = ANil then mret False
       else mbind (adr_val o1) (\<lambda>v1. mbind (adr_val o2) (\<lambda>v2. luaV_lessthan call v1 v2))))"

definition lua_concat :: "callfun \<Rightarrow> int \<Rightarrow> unit lm" where
  "lua_concat call n = (\<lambda>L.
     if int (top L) - int (base L) < n then (Inl UndefinedAccess, L)
     else if n \<ge> 2 then
       mseq (luaV_concat call (nat n) (int (top L) - int (base L) - 1)) (incr_top (- (n - 1))) L
     else if n = 0 then push (String []) L
     else (Inr (), L))"

end
