(* ===== verification/LuaMetaFacts.thy ===== *)
theory LuaMetaFacts
  imports LuaMeta
begin

unbundle bit_operations_syntax

section \<open>Properties of the metamethods\<close>

text \<open>
  The order of strings, the cache of absent metamethods with the operation that breaks it, the chains of
  \<^verbatim>\<open>__index\<close> tables, and concatenation.
\<close>

subsection \<open>The order of strings\<close>

definition char_less :: "(char \<times> char) set" where
  "char_less = {(c, d). uchar c < uchar d}"

text \<open>The two strings share a C string that both end with, and go on after it or not.\<close>

definition same_head :: "string \<Rightarrow> string \<Rightarrow> bool" where
  "same_head l r \<longleftrightarrow> cstr l = cstr r"

lemma cstr_Cons [simp]: "cstr (c # cs) = (if c = NUL then [] else c # cstr cs)"
  by (simp add: cstr_def)

lemma cstr_Nil [simp]: "cstr [] = []"
  by (simp add: cstr_def)

lemma uchar_NUL [simp]: "uchar NUL = 0"
  by (simp add: uchar_def)

lemma uchar_pos [simp]: "uchar c = 0 \<longleftrightarrow> c = NUL"
  unfolding uchar_def by (metis char_of_char of_char_of uchar_NUL uchar_def)

lemma uchar_eq [simp]: "uchar c = uchar d \<longleftrightarrow> c = d"
  by (simp add: uchar_def)

lemma strcoll_cases:
  "strcoll l r = -1 \<and> (l, r) \<in> lexord char_less \<or> strcoll l r = 1 \<and> (r, l) \<in> lexord char_less \<or>
   strcoll l r = 0 \<and> cstr l = cstr r"
proof (induction l r rule: strcoll.induct)
  case (2 d ds)
  then show ?case by (simp add: lexord_Nil_left)
next
  case (3 c cs)
  then show ?case by (simp add: lexord_Nil_left)
next
  case (4 c cs d ds)
  then show ?case by (auto simp: char_less_def not_less_iff_gr_or_eq)
qed simp

lemma cstr_split: "s = cstr s \<or> s = cstr s @ NUL # drop (length (cstr s) + 1) s"
  by (induction s) auto

lemma char_less_irrefl: "\<forall>x. (x, x) \<notin> char_less"
  by (simp add: char_less_def)

lemma lexord_prefix: "(xs @ ys, xs @ zs) \<in> lexord char_less \<longleftrightarrow> (ys, zs) \<in> lexord char_less"
  using char_less_irrefl by (induction xs) auto

lemma l_strcmp_cases:
  "l_strcmp l r < 0 \<and> (l, r) \<in> lexord char_less \<or> l_strcmp l r > 0 \<and> (r, l) \<in> lexord char_less \<or>
   l_strcmp l r = 0 \<and> l = r"
proof (induction l r rule: l_strcmp.induct)
  case (1 l r)
  let ?p = "cstr l" and ?n = "length (cstr l)"
  show ?case
  proof (cases "strcoll l r = 0")
    case False
    then show ?thesis using strcoll_cases [of l r] by (subst (1 2 3) l_strcmp.simps) (auto simp: Let_def)
  next
    case True
    then have eq: "cstr r = ?p" using strcoll_cases [of l r] by simp
    have step: "l_strcmp l r =
        (if ?n = length r then if ?n = length l then 0 else 1 else if ?n = length l then -1
         else l_strcmp (drop (?n + 1) l) (drop (?n + 1) r))"
      using True by (subst l_strcmp.simps) (simp add: Let_def)
    consider (both) "l = ?p" "r = ?p" | (left) "l = ?p" "r = ?p @ NUL # drop (?n + 1) r"
      | (right) "l = ?p @ NUL # drop (?n + 1) l" "r = ?p"
      | (more) "l = ?p @ NUL # drop (?n + 1) l" "r = ?p @ NUL # drop (?n + 1) r"
      using cstr_split [of l] cstr_split [of r] eq by auto
    then show ?thesis
    proof cases
      case both
      then have "l = r" "length r = ?n" "length l = ?n" by metis+
      then have "l_strcmp l r = 0" unfolding step by simp
      with \<open>l = r\<close> show ?thesis by blast
    next
      case left
      have n: "length l = ?n" "length r > ?n" by (subst left(1), rule refl) (subst left(2), simp)
      then have "l_strcmp l r = -1" unfolding step by simp
      moreover have "(?p @ [], ?p @ NUL # drop (?n + 1) r) \<in> lexord char_less"
        by (simp only: lexord_prefix lexord_Nil_left) simp
      then have "(l, r) \<in> lexord char_less" using left by (metis append_Nil2)
      ultimately show ?thesis by simp
    next
      case right
      have n: "length r = ?n" "length l > ?n" by (subst right(2), rule refl) (subst right(1), simp)
      then have "l_strcmp l r = 1" unfolding step by simp
      moreover have "(?p @ [], ?p @ NUL # drop (?n + 1) l) \<in> lexord char_less"
        by (simp only: lexord_prefix lexord_Nil_left) simp
      then have "(r, l) \<in> lexord char_less" using right by (metis append_Nil2)
      ultimately show ?thesis by simp
    next
      case more
      let ?l = "drop (?n + 1) l" and ?r = "drop (?n + 1) r"
      have n: "?n \<noteq> length r" "?n \<noteq> length l"
      proof -
        have "length r > ?n" by (subst more(2)) simp
        moreover have "length l > ?n" by (subst more(1)) simp
        ultimately show "?n \<noteq> length r" "?n \<noteq> length l" by simp_all
      qed
      then have e: "l_strcmp l r = l_strcmp ?l ?r" unfolding step by simp
      have "(?p @ NUL # ?l, ?p @ NUL # ?r) \<in> lexord char_less \<longleftrightarrow> (?l, ?r) \<in> lexord char_less"
        "(?p @ NUL # ?r, ?p @ NUL # ?l) \<in> lexord char_less \<longleftrightarrow> (?r, ?l) \<in> lexord char_less"
        using char_less_irrefl by (simp_all add: lexord_prefix)
      then have o: "(l, r) \<in> lexord char_less \<longleftrightarrow> (?l, ?r) \<in> lexord char_less"
        "(r, l) \<in> lexord char_less \<longleftrightarrow> (?r, ?l) \<in> lexord char_less"
        "?l = ?r \<Longrightarrow> l = r"
        using more by metis+
      show ?thesis using 1 [OF refl _ refl n] True o unfolding e by blast
    qed
  qed
qed

text \<open>
  C30: strings are compared byte by byte, embedded zeros included, the shorter first, although
  \<^verbatim>\<open>l_strcmp\<close> only has \<^verbatim>\<open>strcoll\<close>, which stops at a zero. So \<open>\<^verbatim>\<open>l_strcmp\<close> < 0\<close> is a
  strict total order, and the result is 0 for equal strings only.
\<close>

theorem l_strcmp_lexicographic:
  "(l_strcmp l r < 0 \<longleftrightarrow> (l, r) \<in> lexord {(c, d). uchar c < uchar d}) \<and> (l_strcmp l r = 0 \<longleftrightarrow> l = r)"
proof -
  have asym: "\<not> ((xs, ys) \<in> lexord char_less \<and> (ys, xs) \<in> lexord char_less)" for xs ys
    using lexord_asymmetric [of char_less xs ys] asymI [of char_less] by (auto simp: char_less_def)
  have irr: "(xs, xs) \<notin> lexord char_less" for xs using asym by blast
  show ?thesis using l_strcmp_cases [of l r] asym [of l r] irr unfolding char_less_def [symmetric] by auto
qed


subsection \<open>The flags of a table\<close>

text \<open>Insertions keep the flags of a table or clear all of them, and keep its metatable.\<close>

definition keeps_flags :: "table \<Rightarrow> table \<Rightarrow> bool" where
  "keeps_flags t t' \<longleftrightarrow> (flags t' = flags t \<or> flags t' = 0) \<and> metatable t' = metatable t"

definition growing_keeps :: "(table \<Rightarrow> tvalue \<Rightarrow> (slot \<times> table) res) \<Rightarrow> bool" where
  "growing_keeps grow \<longleftrightarrow> (\<forall>t k p t'. grow t k = Inr (p, t') \<longrightarrow> keeps_flags t t')"

lemma keeps_flags_refl [simp]: "keeps_flags t t"
  by (simp add: keeps_flags_def)

lemma keeps_flags_trans: "keeps_flags t1 t2 \<Longrightarrow> keeps_flags t2 t3 \<Longrightarrow> keeps_flags t1 t3"
  by (auto simp: keeps_flags_def)

lemma flags_set_slot [simp]: "flags (set_slot t p v) = flags t" "metatable (set_slot t p v) = metatable t"
  by (simp_all add: set_slot_def split: slot.splits)

lemma newkey_keeps: "growing_keeps grow \<Longrightarrow> newkey grow t key = Inr (p, t') \<Longrightarrow> keeps_flags t t'"
  by (auto simp: newkey_def Let_def rbind_eq_Inr growing_keeps_def keeps_flags_def
      split: if_splits prod.splits option.splits) fastforce+

lemma set_with_keeps:
  assumes "growing_keeps grow" "set_with grow t key = Inr (p, t')"
  shows "flags t' = 0 \<and> metatable t' = metatable t"
proof -
  have "t' = t\<lparr>flags := 0\<rparr> \<or> newkey grow (t\<lparr>flags := 0\<rparr>) key = Inr (p, t')"
    using assms(2) by (auto simp: set_with_def rbind_eq_Inr Let_def split: if_splits)
  then show ?thesis using newkey_keeps [OF assms(1)] by (fastforce simp: keeps_flags_def)
qed

lemma setnum_with_keeps:
  "growing_keeps grow \<Longrightarrow> setnum_with grow t k = Inr (p, t') \<Longrightarrow> keeps_flags t t'"
  by (auto simp: setnum_with_def rbind_eq_Inr split: if_splits dest: newkey_keeps)

lemma reinsert_array_keeps:
  "growing_keeps grow \<Longrightarrow> reinsert_array grow is t = Inr t' \<Longrightarrow> keeps_flags t t'"
proof (induction grow "is" t arbitrary: t' rule: reinsert_array.induct)
  case (2 grow i ks t)
  show ?case
  proof (cases "t_array t ! i = Nil")
    case False
    then obtain p t1 where s: "setnum_with grow t (int i + 1) = Inr (p, t1)"
      and r: "reinsert_array grow ks (set_slot t1 p (t_array t ! i)) = Inr t'"
      using 2(4) by (auto simp: rbind_eq_Inr)
    have "keeps_flags (set_slot t1 p (t_array t ! i)) t'" using 2(1) [OF False s refl 2(3) r] .
    then show ?thesis using setnum_with_keeps [OF 2(3) s] by (auto simp: keeps_flags_def)
  next
    case True
    then show ?thesis using 2 by simp
  qed
qed simp

lemma reinsert_nodes_keeps:
  "growing_keeps grow \<Longrightarrow> reinsert_nodes grow olds t = Inr t' \<Longrightarrow> keeps_flags t t'"
proof (induction grow olds t arbitrary: t' rule: reinsert_nodes.induct)
  case (2 grow old olds t)
  show ?case
  proof (cases "i_val old = Nil")
    case False
    then obtain p t1 where s: "set_with grow t (i_key old) = Inr (p, t1)"
      and r: "reinsert_nodes grow olds (set_slot t1 p (i_val old)) = Inr t'"
      using 2(4) by (auto simp: rbind_eq_Inr)
    have "keeps_flags (set_slot t1 p (i_val old)) t'" using 2(1) [OF False s refl 2(3) r] .
    then show ?thesis using set_with_keeps [OF 2(3) s] by (auto simp: keeps_flags_def)
  next
    case True
    then show ?thesis using 2 by simp
  qed
qed simp

lemma resize_keeps:
  assumes g: "growing_keeps grow" and r: "resize grow t na nh = Inr t'"
  shows "keeps_flags t t'"
proof -
  let ?t1 = "if na > sizearray t then setarrayvector t na else t"
  obtain t2 t4 where t2: "setnodevector ?t1 nh = Inr t2"
    and t4: "(if na < sizearray t then
                  rbind (reinsert_array grow [na..<sizearray t] (t2\<lparr>sizearray := na\<rparr>)) (\<lambda>t3.
                    Inr (t3\<lparr>t_array := take na (t_array t3)\<rparr>))
                else Inr t2) = Inr t4"
    and n: "reinsert_nodes grow (rev (t_node t)) t4 = Inr t'"
    using r unfolding resize_def Let_def rbind_eq_Inr by blast
  have "keeps_flags t t2" using t2
    by (auto simp: setnodevector_def setarrayvector_def keeps_flags_def Let_def split: if_splits)
  moreover have "keeps_flags t2 t4" using t4 reinsert_array_keeps [OF g]
    by (auto simp: rbind_eq_Inr keeps_flags_def split: if_splits) fastforce+
  ultimately show ?thesis using reinsert_nodes_keeps [OF g n] by (blast intro: keeps_flags_trans)
qed

lemma regrow_keeps: "growing_keeps (regrow d)"
proof (induction d)
  case (Suc d)
  show ?case unfolding growing_keeps_def
  proof (intro allI impI)
    fix t k p t' assume "regrow (Suc d) t k = Inr (p, t')"
    then obtain t1 where t1: "rehash (regrow d) t k = Inr t1" "set_with (regrow d) t1 k = Inr (p, t')"
      by (auto simp: rbind_eq_Inr)
    then obtain na nh where "resize (regrow d) t na nh = Inr t1"
      by (auto simp: rehash_def Let_def rbind_eq_Inr split: prod.splits)
    from resize_keeps [OF Suc this] show "keeps_flags t t'" using set_with_keeps [OF Suc t1(2)] by (simp add: keeps_flags_def)
  qed
qed (simp add: growing_keeps_def)

lemma luaH_set_flags: "luaH_set t key = Inr (p, t') \<Longrightarrow> flags t' = 0 \<and> metatable t' = metatable t"
  using set_with_keeps [OF regrow_keeps] by (simp add: luaH_set_def)

lemma luaH_setnum_flags: "luaH_setnum t k = Inr (p, t') \<Longrightarrow> keeps_flags t t'"
  using setnum_with_keeps [OF regrow_keeps] by (simp add: luaH_setnum_def)

subsection \<open>The cache of absent metamethods\<close>

text \<open>A set flag is right: the table has no such metamethod.\<close>

definition flags_ok :: "table \<Rightarrow> bool" where
  "flags_ok t \<longleftrightarrow>
     (\<forall>e. tm_num e \<le> tm_num TM_EQ \<and> flags t AND flag_of e \<noteq> 0 \<longrightarrow>
        slot_value t (luaH_getstr t (tmname e)) = Inr Nil)"

definition caches_ok :: "lua_State \<Rightarrow> bool" where
  "caches_ok L \<longleftrightarrow> (\<forall>a t. tables L a = Some t \<longrightarrow> flags_ok t)"

text \<open>The search without the cache.\<close>

definition slow_tm :: "table \<Rightarrow> TMS \<Rightarrow> tvalue option res" where
  "slow_tm t e = rbind (slot_value t (luaH_getstr t (tmname e))) (\<lambda>v. Inr (if v = Nil then None else Some v))"

lemma flag_of_disjoint:
  "tm_num e \<le> tm_num TM_EQ \<Longrightarrow> tm_num e' \<le> tm_num TM_EQ \<Longrightarrow> flag_of e AND flag_of e' \<noteq> 0 \<Longrightarrow> e = e'"
  by (cases e; cases e'; simp add: flag_of_def)

lemma flags_ok_0 [simp]: "flags t = 0 \<Longrightarrow> flags_ok t"
  by (simp add: flags_ok_def)

lemma lookup_flags [simp]: "slot_value (t\<lparr>flags := x\<rparr>) (luaH_getstr (t\<lparr>flags := x\<rparr>) s) = slot_value t (luaH_getstr t s)"
  by (simp add: slot_value_def luaH_getstr_def chain_slot_def slot_val_def cong: slot.case_cong)

lemma flags_ok_add:
  assumes ok: "flags_ok t" and e: "tm_num e \<le> tm_num TM_EQ" "slot_value t (luaH_getstr t (tmname e)) = Inr Nil"
  shows "flags_ok (t\<lparr>flags := flags t OR flag_of e\<rparr>)"
  unfolding flags_ok_def
proof (intro allI impI)
  fix e' assume "tm_num e' \<le> tm_num TM_EQ \<and> flags (t\<lparr>flags := flags t OR flag_of e\<rparr>) AND flag_of e' \<noteq> 0"
  then have e': "tm_num e' \<le> tm_num TM_EQ" "flags t AND flag_of e' \<noteq> 0 \<or> flag_of e AND flag_of e' \<noteq> 0"
    by (auto simp: word_ao_dist)
  then have "slot_value t (luaH_getstr t (tmname e')) = Inr Nil"
    using ok e flag_of_disjoint [OF e(1) e'(1)] unfolding flags_ok_def by blast
  then show "slot_value (t\<lparr>flags := flags t OR flag_of e\<rparr>) (luaH_getstr (t\<lparr>flags := flags t OR flag_of e\<rparr>) (tmname e')) = Inr Nil"
    by simp
qed

lemma caches_ok_upd:
  "caches_ok L \<Longrightarrow> flags_ok t \<Longrightarrow> caches_ok (L\<lparr>tables := (tables L)(a \<mapsto> t)\<rparr>)"
  by (auto simp: caches_ok_def)

text \<open>
  C26: the cache of absent metamethods gives what a search in the table would: when every set flag
  is right, \<^verbatim>\<open>fasttm\<close> has the result of \<^verbatim>\<open>luaH_getstr\<close>, changes at most the flags
  of that one table, and every set flag is still right.
\<close>

theorem fasttm_search:
  assumes "caches_ok L" "tables L a = Some t" "tm_num e \<le> tm_num TM_EQ"
  shows "\<exists>x. let L' = L\<lparr>tables := (tables L)(a \<mapsto> t\<lparr>flags := x\<rparr>)\<rparr> in
    fasttm (Some a) e L = (slow_tm t e, L') \<and> caches_ok L'"
proof -
  have ok: "flags_ok t" using assms(1,2) by (simp add: caches_ok_def)
  have same: "L\<lparr>tables := (tables L)(a \<mapsto> t\<lparr>flags := flags t\<rparr>)\<rparr> = L" using assms(2) by (simp add: fun_upd_idem)
  have f: "fasttm (Some a) e L = (if flags t AND flag_of e \<noteq> 0 then (Inr None, L) else luaT_gettm a e L)"
    using assms(2) by (simp add: fasttm_def mbind_def tbl_def)
  show ?thesis
  proof (cases "flags t AND flag_of e \<noteq> 0")
    case True
    then have "slow_tm t e = Inr None" using ok assms(3) by (simp add: flags_ok_def slow_tm_def)
    then show ?thesis using f True same assms(1) by (intro exI [of _ "flags t"]) (simp add: Let_def)
  next
    case False
    note g = f [unfolded luaT_gettm_def] 
    show ?thesis
    proof (cases "slot_value t (luaH_getstr t (tmname e)) = Inr Nil")
      case True
      then have "fasttm (Some a) e L = (slow_tm t e, L\<lparr>tables := (tables L)(a \<mapsto> t\<lparr>flags := flags t OR flag_of e\<rparr>)\<rparr>)"
        using False g assms(2) by (simp add: mbind_def mseq_def tbl_def set_tbl_def slow_tm_def)
      then show ?thesis using caches_ok_upd [OF assms(1) flags_ok_add [OF ok assms(3) True]] by (auto simp: Let_def)
    next
      case other: False
      have "fasttm (Some a) e L = (slow_tm t e, L)"
        using False other g assms(2) by (auto simp: mbind_def tbl_def slow_tm_def split: sum.splits)
      then show ?thesis using same assms(1) by (intro exI [of _ "flags t"]) (simp add: Let_def)
    qed
  qed
qed


lemma flags_ok_empty: "table_ok t \<Longrightarrow> amap t = (\<lambda>k. Nil) \<Longrightarrow> flags_ok t"
  using luaH_getstr_ok [of t] by (auto simp: flags_ok_def slot_value_def table_ok_def amap_def fun_eq_iff)

theorem fasttm_search_witness:
  "\<exists>t x. luaH_new 0 0 = Inr t \<and> fst (fasttm (Some 7) TM_EQ (sample_state [] 5 \<lparr>tables := [7 \<mapsto> t]\<rparr>)) = Inr None \<and> x = t"
proof -
  obtain t where t: "luaH_new 0 0 = Inr t" "table_ok t" "amap t = (\<lambda>k. Nil)"
    using luaH_new_ok [of 0 0] by auto
  let ?L = "sample_state [] 5 \<lparr>tables := [7 \<mapsto> t]\<rparr>"
  have "caches_ok ?L" using flags_ok_empty [OF t(2,3)] by (simp add: caches_ok_def)
  moreover have "tm_num TM_EQ \<le> tm_num TM_EQ" "tables ?L 7 = Some t" by simp_all
  ultimately obtain L' where "fasttm (Some 7) TM_EQ ?L = (slow_tm t TM_EQ, L')"
    using fasttm_search [of ?L 7 t TM_EQ] unfolding Let_def by blast
  moreover have "slow_tm t TM_EQ = Inr None"
    using luaH_getstr_ok [of t] t(2,3) by (simp add: slow_tm_def slot_value_def table_ok_def amap_def fun_eq_iff)
  ultimately show ?thesis using t(1) by simp
qed

subsection \<open>Assignment and the cache\<close>

definition no_own_metatable :: "lua_State \<Rightarrow> bool" where
  "no_own_metatable L \<longleftrightarrow> (\<forall>a t. tables L a = Some t \<longrightarrow> metatable t \<noteq> Some a)"

definition cache_inv :: "lua_State \<Rightarrow> bool" where
  "cache_inv L \<longleftrightarrow> caches_ok L \<and> no_own_metatable L"

text \<open>An operation keeps the invariant whether it returns or raises an error.\<close>

definition keeps_inv :: "(lua_State \<Rightarrow> bool) \<Rightarrow> 'a lm \<Rightarrow> bool" where
  "keeps_inv P m \<longleftrightarrow> (\<forall>L. P L \<longrightarrow> P (snd (m L)))"

named_theorems keeps

lemma keeps_mbind [keeps]: "keeps_inv P m \<Longrightarrow> (\<And>x. keeps_inv P (f x)) \<Longrightarrow> keeps_inv P (mbind m f)"
  by (fastforce simp: keeps_inv_def mbind_def split: prod.splits sum.splits)

lemma keeps_mseq [keeps]: "keeps_inv P m \<Longrightarrow> keeps_inv P n \<Longrightarrow> keeps_inv P (mseq m n)"
  by (simp add: mseq_def keeps_mbind)

lemma keeps_basic [keeps]:
  "keeps_inv P (mret x)" "keeps_inv P (mfail e)" "keeps_inv P (mlift r)" "keeps_inv P (mget g)"
  by (simp_all add: keeps_inv_def)

lemma keeps_if [keeps]: "(c \<Longrightarrow> keeps_inv P m) \<Longrightarrow> (\<not> c \<Longrightarrow> keeps_inv P n) \<Longrightarrow> keeps_inv P (if c then m else n)"
  by simp

lemma keeps_option [keeps]:
  "keeps_inv P m \<Longrightarrow> (\<And>x. keeps_inv P (f x)) \<Longrightarrow> keeps_inv P (case v of None \<Rightarrow> m | Some x \<Rightarrow> f x)"
  by (cases v) simp_all

lemma keeps_sum [keeps]:
  "(\<And>x. keeps_inv P (f x)) \<Longrightarrow> (\<And>x. keeps_inv P (g x)) \<Longrightarrow> keeps_inv P (case v of Inl x \<Rightarrow> f x | Inr x \<Rightarrow> g x)"
  by (cases v) simp_all

lemma keeps_prod [keeps]: "(\<And>x y. keeps_inv P (f x y)) \<Longrightarrow> keeps_inv P (case v of (x, y) \<Rightarrow> f x y)"
  by (cases v) simp

lemma keeps_reads [keeps]:
  "keeps_inv P (getstk i)" "keeps_inv P (tbl v)" "keeps_inv P (udat v)" "keeps_inv P (clos v)"
  by (auto simp: keeps_inv_def getstk_def tbl_def udat_def clos_def split: tvalue.splits option.splits)

lemma keeps_errors [keeps]:
  "keeps_inv P (luaG_runerror f a)" "keeps_inv P (luaG_typeerror p act)" "keeps_inv P (table_op r)"
  by (auto simp: keeps_inv_def luaG_runerror_def luaG_typeerror_def table_op_def split: sum.splits lua_error.splits option.splits)

text \<open>An invariant of the tables does not look at the stack.\<close>

definition table_inv_only :: "(lua_State \<Rightarrow> bool) \<Rightarrow> bool" where
  "table_inv_only P \<longleftrightarrow> (\<forall>L L'. tables L' = tables L \<longrightarrow> P L \<longrightarrow> P L')"

lemma cache_inv_tables: "table_inv_only cache_inv"
  by (simp add: table_inv_only_def cache_inv_def caches_ok_def no_own_metatable_def)

lemma keeps_stack:
  assumes "table_inv_only P"
  shows "keeps_inv P (setstk i v)" "keeps_inv P (incr_top n)" "keeps_inv P (luaD_checkstack k)"
  using assms by (auto simp: table_inv_only_def keeps_inv_def setstk_def incr_top_def luaD_checkstack_def luaD_growstack_def
      luaD_reallocstack_def Let_def)

lemmas keeps_stack_cache [keeps] = keeps_stack [OF cache_inv_tables]


lemma cache_inv_upd:
  "cache_inv L \<Longrightarrow> flags_ok t \<Longrightarrow> metatable t \<noteq> Some a \<Longrightarrow> cache_inv (L\<lparr>tables := (tables L)(a \<mapsto> t)\<rparr>)"
  by (auto simp: cache_inv_def caches_ok_def no_own_metatable_def)

text \<open>What the search keeps: the tables but for the flags of the one it looks at.\<close>

lemma fasttm_keeps [keeps]:
  assumes "tm_num e \<le> tm_num TM_EQ" shows "keeps_inv cache_inv (fasttm m e)"
  unfolding keeps_inv_def
proof (intro allI impI)
  fix L assume L: "cache_inv L"
  show "cache_inv (snd (fasttm m e L))"
  proof (cases m)
    case None
    then show ?thesis using L by (simp add: fasttm_def)
  next
    case (Some a)
    show ?thesis
    proof (cases "tables L a")
      case None
      then show ?thesis using L Some by (simp add: fasttm_def mbind_def tbl_def)
    next
      case t: (Some t)
      obtain x where x: "snd (fasttm (Some a) e L) = L\<lparr>tables := (tables L)(a \<mapsto> t\<lparr>flags := x\<rparr>)\<rparr>"
        "caches_ok (L\<lparr>tables := (tables L)(a \<mapsto> t\<lparr>flags := x\<rparr>)\<rparr>)"
        using fasttm_search [OF _ t assms] L unfolding Let_def cache_inv_def by (metis snd_conv)
      then show ?thesis using L t Some by (auto simp: cache_inv_def no_own_metatable_def)
    qed
  qed
qed


lemma metatable_keeps [keeps]: "keeps_inv P (metatable_of v)"
  by (cases v) (auto simp: metatable_of_def intro!: keeps)

lemma gettmbyobj_keeps [keeps]: "keeps_inv P (luaT_gettmbyobj v e)"
  unfolding luaT_gettmbyobj_def by (intro keeps)

lemma callTM_keeps [keeps]:
  assumes "\<And>f n. keeps_inv cache_inv (call f n)"
  shows "keeps_inv cache_inv (callTM call f p1 p2 p3)" "keeps_inv cache_inv (callTMres call res f p1 p2)"
  unfolding callTM_def callTMres_def by (intro keeps assms)+

lemma fasttm_other:
  assumes "m \<noteq> Some a" shows "tables (snd (fasttm m e L)) a = tables L a"
proof (cases m)
  case (Some b)
  then show ?thesis using assms
    by (auto simp: fasttm_def luaT_gettm_def mbind_def mseq_def tbl_def set_tbl_def split: option.splits sum.splits)
qed (simp add: fasttm_def)

lemma settable_find_ok:
  assumes L: "cache_inv L" and r: "settable_find t key L = (r, L')"
  shows "cache_inv L' \<and> (\<forall>a p. r = Inr (Inl (a, p)) \<longrightarrow>
    (\<exists>h. tables L' a = Some h \<and> flags h = 0 \<and> metatable h \<noteq> Some a))"
proof (cases "\<exists>b h. snd t = TableRef b \<and> tables L b = Some h")
  case False
  have "r \<noteq> Inr (Inl (a, p))" for a p
    using r False by (auto simp: settable_find_def mbind_def tbl_def luaG_typeerror_def luaG_runerror_def
        split: if_splits tvalue.splits option.splits sum.splits prod.splits)
  moreover have "keeps_inv cache_inv (settable_find t key)" if "ttype (snd t) \<noteq> LUA_TTABLE"
    using that by (auto simp: settable_find_def intro!: keeps)
  moreover have "L' = L" if "ttype (snd t) = LUA_TTABLE"
    using that r False by (cases "snd t") (auto simp: settable_find_def mbind_def tbl_def split: option.splits)
  ultimately show ?thesis using L r by (cases "ttype (snd t) = LUA_TTABLE") (auto simp: keeps_inv_def dest: spec [of _ L])
next
  case True
  then obtain b h where b: "snd t = TableRef b" "tables L b = Some h" by blast
  show ?thesis
  proof (cases "luaH_set h key")
    case (Inl e)
    then have "L' = L" "\<exists>e. r = Inl e" using r b
      by (cases e; auto simp: settable_find_def mbind_def tbl_def table_op_def luaG_runerror_def split: sum.splits)+
    then show ?thesis using L by auto
  next
    case (Inr q)
    obtain p h' where q: "q = (p, h')" by (cases q)
    let ?L = "L\<lparr>tables := (tables L)(b \<mapsto> h')\<rparr>"
    have f: "flags h' = 0" "metatable h' = metatable h" using luaH_set_flags Inr q by blast+
    have nb: "metatable h \<noteq> Some b" using L b by (auto simp: cache_inv_def no_own_metatable_def)
    have inv: "cache_inv ?L" using cache_inv_upd [OF L, of h' b] f nb by simp
    have r': "(if slot_val h' p \<noteq> Nil then mret (Inl (b, p))
           else mbind (fasttm (metatable h') TM_NEWINDEX) (\<lambda>tm.
             mret (case tm of None \<Rightarrow> Inl (b, p) | Some tm \<Rightarrow> Inr tm))) ?L = (r, L')"
      using r b Inr q by (simp add: settable_find_def mbind_def mseq_def tbl_def table_op_def set_tbl_def split: if_splits)
    have "cache_inv (snd (fasttm (metatable h') TM_NEWINDEX ?L))"
      using fasttm_keeps [of TM_NEWINDEX "metatable h'"] inv by (simp add: keeps_inv_def)
    moreover have "tables (snd (fasttm (metatable h') TM_NEWINDEX ?L)) b = Some h'"
      using fasttm_other [of "metatable h'" b] f nb by simp
    ultimately show ?thesis using r' inv f nb
      by (auto simp: mbind_def split: if_splits prod.splits sum.splits option.splits)
  qed
qed

text \<open>
  C27: an assignment \<^verbatim>\<open>t[k] = v\<close> leaves the cache of absent metamethods right, whether it ends
  normally or with an error and however long its chain of \<^verbatim>\<open>__newindex\<close> is, as long as no
  table is its own metatable and the functions it calls keep to the same.
\<close>

theorem luaV_settable_cache:
  assumes "\<And>f n L. cache_inv L \<Longrightarrow> cache_inv (snd (call f n L))" "cache_inv L"
  shows "cache_inv (snd (luaV_settable call t key val L))"
proof -
  have call: "keeps_inv cache_inv (call f n)" for f n using assms(1) by (simp add: keeps_inv_def)
  have err: "keeps_inv cache_inv (luaG_runerror ''loop in settable'' [] :: unit lm)" by (rule keeps_errors)
  have "cache_inv L \<Longrightarrow> cache_inv (snd (settable_loop call loop t key val L))" for loop
  proof (induction loop arbitrary: t L)
    case 0
    then show ?case using err by (simp add: keeps_inv_def)
  next
    case (Suc loop)
    obtain r L' where r: "settable_find t key L = (r, L')" by (cases "settable_find t key L")
    note ok = settable_find_ok [OF Suc(2) r]
    consider (err) e where "r = Inl e" | (found) a p where "r = Inr (Inl (a, p))" | (tm) tm where "r = Inr (Inr tm)"
      by (metis old.sum.exhaust surj_pair)
    then show ?case
    proof cases
      case err
      then show ?thesis using r ok by (simp add: mbind_def)
    next
      case found
      then obtain h where h: "tables L' a = Some h" "flags h = 0" "metatable h \<noteq> Some a" using ok by blast
      then have "cache_inv (L'\<lparr>tables := (tables L')(a \<mapsto> set_slot h p val)\<rparr>)"
        using cache_inv_upd [of L' "set_slot h p val" a] ok by simp
      then show ?thesis using r ok found h by (simp add: mbind_def store_through_def tbl_def set_tbl_def)
    next
      case tm
      have "keeps_inv cache_inv (callTM call tm (snd t) key val)" by (rule callTM_keeps [OF call])
      then show ?thesis using r ok tm Suc(1) by (simp add: mbind_def keeps_inv_def)
    qed
  qed
  then show ?thesis using assms(2) by (simp add: luaV_settable_def)
qed

text \<open>A table with one node and a metatable, and a state where the table is its own metatable.\<close>

definition one_node :: "8 word \<Rightarrow> tvalue \<Rightarrow> tvalue \<Rightarrow> addr option \<Rightarrow> table" where
  "one_node fl k v m =
     \<lparr>flags = fl, t_array = [], sizearray = 0, t_node = [\<lparr>i_val = v, i_key = k, nk_next = None\<rparr>], lsizenode = 0,
      lastfree = 1, isdummy = False, metatable = m\<rparr>"

definition own_state :: "8 word \<Rightarrow> tvalue \<Rightarrow> tvalue \<Rightarrow> lua_State" where
  "own_state fl k v = sample_state [TableRef 7, FunctionRef 8] 5 \<lparr>tables := [7 \<mapsto> one_node fl k v (Some 7)]\<rparr>"

lemma one_node_ops:
  "luaH_getstr (one_node fl k v m) s = Inr (if k = String s then NodeSlot 0 else NilObject)"
  "luaH_set (one_node 0 Nil Nil m) (String s) = Inr (NodeSlot 0, one_node 0 (String s) Nil m)"
  "slot_val (one_node fl k v m) (NodeSlot 0) = v"
  "set_slot (one_node fl k v m) (NodeSlot 0) w = one_node fl k w m"
  "(one_node fl k v m)\<lparr>flags := fl'\<rparr> = one_node fl' k v m"
  "flags (one_node fl k v m) = fl" "metatable (one_node fl k v m) = m"
proof -
  have h: "hashpow2 0 n = 0" for n by (simp add: hashpow2_def lmod_def)
  show g: "luaH_getstr (one_node fl k v m) s = Inr (if k = String s then NodeSlot 0 else NilObject)" for fl k v
    by (auto simp: luaH_getstr_def one_node_def chain_slot_def h split: tvalue.splits)
  show "luaH_set (one_node 0 Nil Nil m) (String s) = Inr (NodeSlot 0, one_node 0 (String s) Nil m)"
    by (simp add: luaH_set_def set_with_def luaH_get_def g) (simp add: one_node_def newkey_def mainposition_def h Let_def)
qed (simp_all add: one_node_def slot_val_def set_slot_def)

lemma luaV_settable_first:
  "luaV_settable call t key val =
     mbind (settable_find t key) (\<lambda>r.
       case r of
         Inl (a, p) \<Rightarrow> store_through a p val
       | Inr tm \<Rightarrow>
           if ttype tm = LUA_TFUNCTION then callTM call tm (snd t) key val
           else settable_loop call (MAXTAGLOOP - 1) (None, tm) key val)"
proof -
  have "MAXTAGLOOP = Suc (MAXTAGLOOP - 1)" by (simp add: MAXTAGLOOP_def)
  then show ?thesis unfolding luaV_settable_def by (metis settable_loop.simps(2))
qed

lemmas run_defs = luaV_settable_first settable_find_def mbind_def mseq_def tbl_def table_op_def set_tbl_def
  fasttm_def luaT_gettm_def store_through_def

text \<open>
  C28: with a table that is its own metatable the cache goes wrong. The program
  \<^verbatim>\<open>t = setmetatable({}, t); t.__newindex = f; t.x = 1\<close>: the assignment of the metamethod clears
  the flags, then looks for \<^verbatim>\<open>__newindex\<close> in the same table and notes that it is absent, and only
  then stores it. The second assignment does not call \<open>f\<close>; a search without the cache finds it.
\<close>

theorem luaV_settable_stale_cache:
  "luaV_settable call (None, TableRef 7) (String ''__newindex'') (FunctionRef 8) (own_state 0 Nil Nil) =
     (Inr (), own_state (flag_of TM_NEWINDEX) (String ''__newindex'') (FunctionRef 8)) \<and>
   slow_tm (one_node (flag_of TM_NEWINDEX) (String ''__newindex'') (FunctionRef 8) (Some 7)) TM_NEWINDEX = Inr (Some (FunctionRef 8)) \<and>
   fasttm (Some 7) TM_NEWINDEX (own_state (flag_of TM_NEWINDEX) (String ''__newindex'') (FunctionRef 8)) =
     (Inr None, own_state (flag_of TM_NEWINDEX) (String ''__newindex'') (FunctionRef 8))"
proof -
  have n: "tmname TM_NEWINDEX = ''__newindex''" by (simp add: tmname_def luaT_eventname_def)
  have e: "flag_of TM_NEWINDEX AND flag_of TM_NEWINDEX \<noteq> 0" by (simp add: flag_of_def)
  show ?thesis using e by (simp add: run_defs own_state_def one_node_ops slot_value_def slow_tm_def n)
qed


subsection \<open>Chains of tables\<close>

text \<open>
  What \<^verbatim>\<open>t[k]\<close> means when no function is called, without the cache: a value, or the object to go on with.
\<close>

definition meta_of :: "lua_State \<Rightarrow> tvalue \<Rightarrow> addr option" where
  "meta_of L v =
     (case v of
        TableRef a \<Rightarrow> (case tables L a of Some t \<Rightarrow> metatable t | None \<Rightarrow> None)
      | UserdataRef a \<Rightarrow> (case udatas L a of Some u \<Rightarrow> u_metatable u | None \<Rightarrow> None)
      | _ \<Rightarrow> mt L (ttype v))"

definition raw_field :: "lua_State \<Rightarrow> tvalue \<Rightarrow> tvalue \<Rightarrow> tvalue \<Rightarrow> bool" where
  "raw_field L v k x \<longleftrightarrow> (\<exists>a t. v = TableRef a \<and> tables L a = Some t \<and> slot_value t (luaH_get t k) = Inr x)"

definition index_tm :: "lua_State \<Rightarrow> tvalue \<Rightarrow> tvalue option \<Rightarrow> bool" where
  "index_tm L v tm \<longleftrightarrow> (case meta_of L v of None \<Rightarrow> tm = None
     | Some m \<Rightarrow> \<exists>t. tables L m = Some t \<and> slow_tm t TM_INDEX = Inr tm)"

inductive index_done :: "lua_State \<Rightarrow> tvalue \<Rightarrow> tvalue \<Rightarrow> tvalue \<Rightarrow> bool" for L k where
  found: "raw_field L v k x \<Longrightarrow> x \<noteq> Nil \<Longrightarrow> index_done L k v x"
| absent: "raw_field L v k Nil \<Longrightarrow> index_tm L v None \<Longrightarrow> index_done L k v Nil"

inductive index_next :: "lua_State \<Rightarrow> tvalue \<Rightarrow> tvalue \<Rightarrow> tvalue \<Rightarrow> bool" for L k where
  inherited: "raw_field L v k Nil \<Longrightarrow> index_tm L v (Some tm) \<Longrightarrow> index_next L k v tm"
| not_table: "ttype v \<noteq> LUA_TTABLE \<Longrightarrow> (\<And>a. v = UserdataRef a \<Longrightarrow> udatas L a \<noteq> None) \<Longrightarrow>
    index_tm L v (Some tm) \<Longrightarrow> index_next L k v tm"

inductive index_path :: "lua_State \<Rightarrow> tvalue \<Rightarrow> tvalue \<Rightarrow> nat \<Rightarrow> tvalue \<Rightarrow> bool" for L k where
  here: "index_path L k v 0 v"
| step: "index_next L k v tm \<Longrightarrow> ttype tm \<noteq> LUA_TFUNCTION \<Longrightarrow> index_path L k tm n w \<Longrightarrow> index_path L k v (Suc n) w"

text \<open>The search changes only flags.\<close>

definition with_flags :: "(addr \<Rightarrow> 8 word) \<Rightarrow> lua_State \<Rightarrow> lua_State" where
  "with_flags F L = L\<lparr>tables := (\<lambda>a. map_option (\<lambda>t. t\<lparr>flags := F a\<rparr>) (tables L a))\<rparr>"

definition own_flags :: "lua_State \<Rightarrow> addr \<Rightarrow> 8 word" where
  "own_flags L a = (case tables L a of Some t \<Rightarrow> flags t | None \<Rightarrow> 0)"

lemma with_own_flags: "with_flags (own_flags L) L = L"
proof -
  have "(\<lambda>a. map_option (\<lambda>t. t\<lparr>flags := own_flags L a\<rparr>) (tables L a)) = tables L"
  proof
    fix a show "map_option (\<lambda>t. t\<lparr>flags := own_flags L a\<rparr>) (tables L a) = tables L a"
      by (cases "tables L a") (simp_all add: own_flags_def)
  qed
  then show ?thesis by (simp add: with_flags_def)
qed

lemma with_flags_upd:
  assumes "tables L a = Some t"
  shows "L\<lparr>tables := (tables L)(a \<mapsto> t\<lparr>flags := x\<rparr>)\<rparr> = with_flags ((own_flags L)(a := x)) L"
proof -
  have "(tables L)(a \<mapsto> t\<lparr>flags := x\<rparr>) = (\<lambda>b. map_option (\<lambda>t. t\<lparr>flags := ((own_flags L)(a := x)) b\<rparr>) (tables L b))"
    using assms by (auto simp: fun_eq_iff own_flags_def split: option.splits)
  then show ?thesis by (simp add: with_flags_def)
qed

lemma with_flags_simps [simp]:
  "with_flags F (with_flags G L) = with_flags F L"
  "tables (with_flags F L) a = map_option (\<lambda>t. t\<lparr>flags := F a\<rparr>) (tables L a)"
  "udatas (with_flags F L) = udatas L" "mt (with_flags F L) = mt L" "stack (with_flags F L) = stack L"
  by (simp_all add: with_flags_def option.map_comp comp_def)

lemma luaH_get_flags [simp]: "slot_value (t\<lparr>flags := x\<rparr>) (luaH_get (t\<lparr>flags := x\<rparr>) k) = slot_value t (luaH_get t k)"
proof -
  have "luaH_get (t\<lparr>flags := x\<rparr>) k = luaH_get t k"
    by (cases k) (simp_all add: luaH_get_def luaH_getstr_def luaH_getnum_def get_generic_def chain_slot_def
        mainposition_def Let_def)
  then show ?thesis by (simp add: slot_value_def slot_val_def cong: slot.case_cong)
qed

lemma slow_tm_flags [simp]: "slow_tm (t\<lparr>flags := x\<rparr>) e = slow_tm t e"
  by (simp add: slow_tm_def)

lemma meta_of_flags [simp]: "meta_of (with_flags F L) v = meta_of L v"
  by (cases v) (auto simp: meta_of_def split: option.splits)

lemma raw_field_flags [simp]: "raw_field (with_flags F L) v k x = raw_field L v k x"
  by (auto simp: raw_field_def)

lemma index_tm_flags [simp]: "index_tm (with_flags F L) v tm = index_tm L v tm"
  by (auto simp: index_tm_def split: option.splits)

lemma index_flags [simp]:
  "index_done (with_flags F L) k v x = index_done L k v x"
  "index_next (with_flags F L) k v x = index_next L k v x"
  by (simp_all add: index_done.simps index_next.simps)

lemma index_path_flags: "index_path L k v n w \<Longrightarrow> index_path (with_flags F L) k v n w"
  by (induction rule: index_path.induct) (auto intro: index_path.intros)


lemma index_tm_fasttm:
  assumes "caches_ok L" "index_tm L v tm" "meta_of L v = m"
  shows "\<exists>F. fasttm m TM_INDEX L = (Inr tm, with_flags F L) \<and> caches_ok (with_flags F L)"
proof (cases m)
  case None
  then have "fasttm m TM_INDEX L = (Inr tm, L)" using assms(2,3) by (simp add: fasttm_def index_tm_def)
  then show ?thesis using assms(1) by (intro exI [of _ "own_flags L"]) (simp add: with_own_flags)
next
  case (Some a)
  then obtain t where t: "tables L a = Some t" "slow_tm t TM_INDEX = Inr tm"
    using assms(2,3) by (auto simp: index_tm_def)
  from fasttm_search [OF assms(1) t(1), of TM_INDEX] obtain x where
    "fasttm (Some a) TM_INDEX L = (Inr tm, L\<lparr>tables := (tables L)(a \<mapsto> t\<lparr>flags := x\<rparr>)\<rparr>)"
    "caches_ok (L\<lparr>tables := (tables L)(a \<mapsto> t\<lparr>flags := x\<rparr>)\<rparr>)" by (auto simp: Let_def t)
  then show ?thesis unfolding with_flags_upd [OF t(1)] using Some by blast
qed

lemma index_tm_byobj:
  assumes "index_tm L v tm" "ttype v \<noteq> LUA_TTABLE" "\<And>a. v = UserdataRef a \<Longrightarrow> udatas L a \<noteq> None"
  shows "luaT_gettmbyobj v TM_INDEX L = (Inr (case tm of None \<Rightarrow> Nil | Some x \<Rightarrow> x), L)"
proof -
  have "metatable_of v L = (Inr (meta_of L v), L)"
    using assms(2,3) by (cases v) (auto simp: metatable_of_def meta_of_def udat_def mbind_def split: option.splits)
  then show ?thesis using assms(1)
    by (cases "meta_of L v")
      (auto simp: luaT_gettmbyobj_def mbind_def index_tm_def tbl_def slow_tm_def rbind_eq_Inr split: sum.splits)
qed

lemma gettable_find_raw:
  assumes "raw_field L v k x"
  shows "gettable_find (s, v) k L = (if x \<noteq> Nil then (Inr (Inl x), L)
     else mbind (fasttm (meta_of L v) TM_INDEX) (\<lambda>tm. mret (case tm of None \<Rightarrow> Inl Nil | Some tm \<Rightarrow> Inr tm)) L)"
  using assms by (auto simp: raw_field_def gettable_find_def mbind_def tbl_def meta_of_def)

lemma gettable_find_done:
  assumes "index_done L k v x" "caches_ok L"
  shows "\<exists>F. gettable_find (s, v) k L = (Inr (Inl x), with_flags F L)"
  using assms(1)
proof cases
  case found
  then show ?thesis by (intro exI [of _ "own_flags L"]) (simp add: gettable_find_raw with_own_flags)
next
  case absent
  obtain F where "fasttm (meta_of L v) TM_INDEX L = (Inr None, with_flags F L)"
    using index_tm_fasttm [OF assms(2) absent(3) refl] by blast
  then show ?thesis using gettable_find_raw [OF absent(2)] absent(1) by (auto simp: mbind_def)
qed

lemma gettable_find_next:
  assumes "index_next L k v tm" "caches_ok L"
  shows "\<exists>F. gettable_find (s, v) k L = (Inr (Inr tm), with_flags F L) \<and> caches_ok (with_flags F L)"
  using assms(1)
proof cases
  case inherited
  obtain F where "fasttm (meta_of L v) TM_INDEX L = (Inr (Some tm), with_flags F L)" "caches_ok (with_flags F L)"
    using index_tm_fasttm [OF assms(2) inherited(2) refl] by blast
  then show ?thesis using gettable_find_raw [OF inherited(1)] by (auto simp: mbind_def)
next
  case not_table
  have "tm \<noteq> Nil" using not_table(3) by (auto simp: index_tm_def slow_tm_def rbind_eq_Inr split: option.splits if_splits)
  then have "gettable_find (s, v) k L = (Inr (Inr tm), L)"
    using not_table(1) index_tm_byobj [OF not_table(3,1,2)] by (simp add: gettable_find_def mbind_def)
  then show ?thesis using assms(2) by (intro exI [of _ "own_flags L"]) (simp add: with_own_flags)
qed

lemma gettable_loop_path:
  assumes "index_path L k v n w" "caches_ok (with_flags G L)" "n \<le> loop"
  shows "\<exists>F s'. gettable_loop call loop (s, v) k val (with_flags G L) =
      gettable_loop call (loop - n) (s', w) k val (with_flags F L) \<and> caches_ok (with_flags F L)"
  using assms
proof (induction arbitrary: G s loop rule: index_path.induct)
  case (here v)
  then show ?case by auto
next
  case (step v tm n w)
  obtain l where l: "loop = Suc l" "n \<le> l" using step.prems by (cases loop) auto
  obtain F where F: "gettable_find (s, v) k (with_flags G L) = (Inr (Inr tm), with_flags F L)" "caches_ok (with_flags F L)"
    using gettable_find_next [of "with_flags G L" k v tm s] step.hyps(1) step.prems(1) by auto
  then have "gettable_loop call loop (s, v) k val (with_flags G L) = gettable_loop call l (None, tm) k val (with_flags F L)"
    using step.hyps(2) l(1) by (simp add: mbind_def)
  then show ?case using step.IH [OF F(2) l(2), of None] l by simp
qed

lemma gettable_chain_facts:
  assumes "caches_ok L" "index_path L k v n w"
  shows "n < MAXTAGLOOP \<Longrightarrow> index_done L k w x \<Longrightarrow> val < length (stack L) \<Longrightarrow>
      \<exists>F. luaV_gettable call (s, v) k val L = (Inr (), (with_flags F L)\<lparr>stack := (stack L)[val := x]\<rparr>)"
    and "n = MAXTAGLOOP \<Longrightarrow>
      \<exists>F. luaV_gettable call (s, v) k val L = luaG_runerror ''loop in gettable'' [] (with_flags F L) \<and> caches_ok (with_flags F L)"
proof -
  have P: "\<exists>F s'. luaV_gettable call (s, v) k val L = gettable_loop call (MAXTAGLOOP - n) (s', w) k val (with_flags F L) \<and>
      caches_ok (with_flags F L)" if "n \<le> MAXTAGLOOP"
    using gettable_loop_path [of L k v n w "own_flags L" MAXTAGLOOP call s val] assms that
    by (simp add: with_own_flags luaV_gettable_def)
  show "\<exists>F. luaV_gettable call (s, v) k val L = (Inr (), (with_flags F L)\<lparr>stack := (stack L)[val := x]\<rparr>)"
    if a: "n < MAXTAGLOOP" "index_done L k w x" "val < length (stack L)"
  proof -
    obtain F s' where F: "luaV_gettable call (s, v) k val L = gettable_loop call (MAXTAGLOOP - n) (s', w) k val (with_flags F L)"
      "caches_ok (with_flags F L)" using P a(1) by auto
    obtain l where l: "MAXTAGLOOP - n = Suc l" using a(1) by (cases "MAXTAGLOOP - n") auto
    obtain G where "gettable_find (s', w) k (with_flags F L) = (Inr (Inl x), with_flags G L)"
      using gettable_find_done [of "with_flags F L" k w x s'] a(2) F(2) by auto
    then have "luaV_gettable call (s, v) k val L = (Inr (), (with_flags G L)\<lparr>stack := (stack L)[val := x]\<rparr>)"
      using F(1) l a(3) by (simp add: mbind_def setstk_def)
    then show ?thesis by blast
  qed
  show "\<exists>F. luaV_gettable call (s, v) k val L = luaG_runerror ''loop in gettable'' [] (with_flags F L) \<and> caches_ok (with_flags F L)"
    if "n = MAXTAGLOOP"
    using P that by auto
qed

text \<open>
  C29: what \<^verbatim>\<open>t[k]\<close> gives when it needs no function: \<^verbatim>\<open>luaV_gettable\<close> follows the
  \<^verbatim>\<open>__index\<close> objects, at most 100 of them, and stores the value of the last one, or nil, in the
  destination; a chain of 100 objects is the error \<^verbatim>\<open>loop in gettable\<close>. In both cases nothing else
  changes but flags of the cache, which stay right.
\<close>

theorem luaV_gettable_chain:
  assumes "caches_ok L" "index_path L k v n w"
  shows "(\<forall>x. n < MAXTAGLOOP \<and> index_done L k w x \<and> val < length (stack L) \<longrightarrow>
      (\<exists>F. luaV_gettable call (s, v) k val L = (Inr (), (with_flags F L)\<lparr>stack := (stack L)[val := x]\<rparr>))) \<and>
    (n = MAXTAGLOOP \<longrightarrow>
      (\<exists>F. luaV_gettable call (s, v) k val L = luaG_runerror ''loop in gettable'' [] (with_flags F L) \<and> caches_ok (with_flags F L)))"
  using gettable_chain_facts [OF assms] by blast

text \<open>A table that is its own metatable with itself as \<^verbatim>\<open>__index\<close>: the search never ends by itself.\<close>

lemma self_index_path:
  "index_path (own_state 0 (String ''__index'') (TableRef 7)) (String ''x'') (TableRef 7) n (TableRef 7)"
proof (induction n)
  case 0
  show ?case by (rule index_path.here)
next
  case (Suc n)
  have "tmname TM_INDEX = ''__index''" by (simp add: tmname_def luaT_eventname_def)
  then have "index_next (own_state 0 (String ''__index'') (TableRef 7)) (String ''x'') (TableRef 7) (TableRef 7)"
    by (intro index_next.inherited)
      (simp_all add: raw_field_def index_tm_def meta_of_def own_state_def slow_tm_def slot_value_def luaH_get_def
        one_node_ops, simp add: slot_val_def)
  then show ?case by (rule index_path.step [OF _ _ Suc]) simp
qed

theorem luaV_gettable_chain_witness:
  "\<exists>F. luaV_gettable (\<lambda>f n. mfail OutOfFuel) (None, TableRef 7) (String ''x'') 1 (own_state 0 (String ''__index'') (TableRef 7)) =
     luaG_runerror ''loop in gettable'' [] (with_flags F (own_state 0 (String ''__index'') (TableRef 7)))"
proof -
  have "caches_ok (own_state 0 (String ''__index'') (TableRef 7))"
    by (simp add: caches_ok_def own_state_def one_node_ops)
  from luaV_gettable_chain [OF this self_index_path] show ?thesis by blast
qed


subsection \<open>Concatenation\<close>

definition tostr :: "tvalue \<Rightarrow> string" where
  "tostr v = (case v of String s \<Rightarrow> s | Number n \<Rightarrow> lua_number2str n | _ \<Rightarrow> [])"

lemma tostr_String [simp]: "tostr (String s) = s" "is_string_or_number (String s)"
  by (simp_all add: tostr_def is_string_or_number_def)

lemma tostring_ok:
  assumes "is_string_or_number v"
  shows "tostring (length xs) (L\<lparr>stack := xs @ v # ys\<rparr>) = (Inr True, L\<lparr>stack := xs @ String (tostr v) # ys\<rparr>)"
  using assms by (cases v) (auto simp: tostring_def is_string_or_number_def getstk_def mbind_def mseq_def tostr_def
      luaV_tostring_def adr_val_def set_adr_def setstk_def)

lemma tsvalue_ok: "tsvalue (length xs) (L\<lparr>stack := xs @ String s # ys\<rparr>) = (Inr s, L\<lparr>stack := xs @ String s # ys\<rparr>)"
  by (simp add: tsvalue_def getstk_def mbind_def)

lemma concat_count_ok:
  assumes "list_all is_string_or_number us" "sum_list (map (length \<circ> tostr) us) + len < MAX_SIZET"
    "t = length pre + length us + n"
  shows "concat_count t (length us + n) n len (L\<lparr>stack := pre @ us @ ys\<rparr>) =
    (Inr (length us + n, sum_list (map (length \<circ> tostr) us) + len), L\<lparr>stack := pre @ map (String \<circ> tostr) us @ ys\<rparr>)"
  using assms
proof (induction us arbitrary: n len ys rule: rev_induct)
  case Nil
  then show ?case by (subst concat_count.simps) simp
next
  case (snoc u us)
  have p: "t - n - 1 = length (pre @ us)" using snoc.prems(3) by simp
  have a: "tostring (t - n - 1) (L\<lparr>stack := pre @ (us @ [u]) @ ys\<rparr>) =
      (Inr True, L\<lparr>stack := pre @ us @ (String (tostr u) # ys)\<rparr>)"
    using tostring_ok [of u "pre @ us" ys L] snoc.prems(1) unfolding p by simp
  have b: "tsvalue (t - n - 1) (L\<lparr>stack := pre @ us @ (String (tostr u) # ys)\<rparr>) =
      (Inr (tostr u), L\<lparr>stack := pre @ us @ (String (tostr u) # ys)\<rparr>)"
    using tsvalue_ok [of "pre @ us" "tostr u" ys L] unfolding p by simp
  have c: "\<not> length (tostr u) \<ge> MAX_SIZET - len" using snoc.prems(2) by simp
  have "concat_count t (length (us @ [u]) + n) n len (L\<lparr>stack := pre @ (us @ [u]) @ ys\<rparr>) =
      concat_count t (length us + (n + 1)) (n + 1) (len + length (tostr u)) (L\<lparr>stack := pre @ us @ (String (tostr u) # ys)\<rparr>)"
    using a b c by (subst concat_count.simps) (simp add: mbind_def)
  also have "\<dots> = (Inr (length us + (n + 1), sum_list (map (length \<circ> tostr) us) + (len + length (tostr u))),
      L\<lparr>stack := pre @ map (String \<circ> tostr) us @ (String (tostr u) # ys)\<rparr>)"
    by (rule snoc.IH) (use snoc.prems in simp_all)
  finally show ?case by (simp add: ac_simps comp_def)
qed

lemma concat_copy_ok:
  "concat_copy (length xs + length ss) (length ss) (L\<lparr>stack := xs @ map String ss @ ys\<rparr>) =
     (Inr (concat ss), L\<lparr>stack := xs @ map String ss @ ys\<rparr>)"
proof (induction ss arbitrary: xs)
  case (Cons s ss)
  have "tsvalue (length xs) (L\<lparr>stack := xs @ String s # (map String ss @ ys)\<rparr>) =
      (Inr s, L\<lparr>stack := xs @ String s # (map String ss @ ys)\<rparr>)" by (rule tsvalue_ok)
  moreover have "concat_copy (length xs + Suc (length ss)) (length ss) (L\<lparr>stack := xs @ String s # map String ss @ ys\<rparr>) =
      (Inr (concat ss), L\<lparr>stack := xs @ String s # map String ss @ ys\<rparr>)"
    using Cons [of "xs @ [String s]"] by simp
  ultimately show ?case by (simp add: mbind_def)
qed simp

text \<open>One pass over values that are all strings or numbers: it joins the last two or all of them.\<close>

lemma concat_pass_ok:
  assumes vs: "list_all is_string_or_number (us @ [u, v])"
    and len: "sum_list (map (length \<circ> tostr) (us @ [u, v])) < MAX_SIZET"
    and t: "t = length pre + length us + 2"
  shows "\<exists>ws z. concat_pass call (length us + 2) t (L\<lparr>stack := pre @ us @ [u, v] @ ys\<rparr>) =
      (if tostr v = [] then (Inr 2, L\<lparr>stack := pre @ us @ [String (tostr u), z] @ ys\<rparr>)
       else (Inr (length us + 2), L\<lparr>stack := pre @ String (concat (map tostr (us @ [u, v]))) # ws @ ys\<rparr>)) \<and>
      length ws = length us + 1"
proof -
  have p: "t - 1 = length (pre @ us @ [u])" "t - 2 = length (pre @ us)" using t by simp_all
  let ?L = "L\<lparr>stack := pre @ us @ [u, String (tostr v)] @ ys\<rparr>"
  have a: "tostring (t - 1) (L\<lparr>stack := pre @ us @ [u, v] @ ys\<rparr>) = (Inr True, ?L)"
    using tostring_ok [of v "pre @ us @ [u]" ys L] vs unfolding p by simp
  have b: "tsvalue (t - 1) ?L = (Inr (tostr v), ?L)"
    using tsvalue_ok [of "pre @ us @ [u]" "tostr v" ys L] unfolding p by simp
  have c: "getstk (t - 2) (L\<lparr>stack := pre @ us @ [u, v] @ ys\<rparr>) = (Inr u, L\<lparr>stack := pre @ us @ [u, v] @ ys\<rparr>)"
    unfolding p by (simp add: getstk_def)
  have u: "is_string_or_number u" using vs by simp
  have e: "concat_pass call (length us + 2) t (L\<lparr>stack := pre @ us @ [u, v] @ ys\<rparr>) =
     (if tostr v = [] then mbind (tostring (t - 2)) (\<lambda>_. mret 2)
           else
             mbind (concat_count t (length us + 2) 1 (length (tostr v))) (\<lambda>(n, len).
             mbind (concat_copy t n) (\<lambda>buffer.
             mseq (setstk (t - n) (String buffer)) (mret n)))) ?L"
    using a b c u by (simp add: concat_pass_def mbind_def)
  show ?thesis
  proof (cases "tostr v = []")
    case True
    have "tostring (t - 2) ?L = (Inr True, L\<lparr>stack := pre @ us @ [String (tostr u), String (tostr v)] @ ys\<rparr>)"
      using tostring_ok [OF u, of "pre @ us" _ L] unfolding p by simp
    then show ?thesis using e True by (intro exI [of _ "replicate (length us + 1) Nil"] exI [of _ "String (tostr v)"]) (simp add: mbind_def)
  next
    case False
    let ?ss = "map tostr (us @ [u, v])"
    have "concat_count t (length (us @ [u]) + 1) 1 (length (tostr v)) (L\<lparr>stack := pre @ (us @ [u]) @ String (tostr v) # ys\<rparr>) =
       (Inr (length (us @ [u]) + 1, sum_list (map (length \<circ> tostr) (us @ [u])) + length (tostr v)),
        L\<lparr>stack := pre @ map (String \<circ> tostr) (us @ [u]) @ String (tostr v) # ys\<rparr>)"
      by (rule concat_count_ok) (use vs len t in simp_all)
    then have cc: "concat_count t (length us + 2) 1 (length (tostr v)) ?L =
       (Inr (length us + 2, sum_list (map (length \<circ> tostr) (us @ [u])) + length (tostr v)), L\<lparr>stack := pre @ map String ?ss @ ys\<rparr>)"
      by simp
    have cp: "concat_copy t (length us + 2) (L\<lparr>stack := pre @ map String ?ss @ ys\<rparr>) =
       (Inr (concat ?ss), L\<lparr>stack := pre @ map String ?ss @ ys\<rparr>)"
      using concat_copy_ok [of pre ?ss ys L] t by simp
    have st: "setstk (t - (length us + 2)) (String (concat ?ss)) (L\<lparr>stack := pre @ map String ?ss @ ys\<rparr>) =
       (Inr (), L\<lparr>stack := pre @ String (concat ?ss) # tl (map String ?ss) @ ys\<rparr>)"
      using t by (cases us) (simp_all add: setstk_def)
    show ?thesis using e False cc cp st
      by (intro exI [of _ "tl (map String ?ss)"] exI [of _ Nil]) (cases us; simp add: mbind_def mseq_def)
  qed
qed


lemma concat_loop_ok:
  assumes "list_all is_string_or_number vs" "length vs \<ge> 2" "sum_list (map (length \<circ> tostr) vs) < MAX_SIZET"
    "int (base L) + lst + 1 = int (length pre + length vs)" "length vs \<le> fuel"
  shows "\<exists>ws. concat_loop call fuel (length vs) lst (L\<lparr>stack := pre @ vs @ ys\<rparr>) =
      (Inr (), L\<lparr>stack := pre @ String (concat (map tostr vs)) # ws @ ys\<rparr>) \<and> length ws = length vs - 1"
  using assms
proof (induction fuel arbitrary: vs lst ys)
  case (Suc fuel)
  obtain us u v where vs: "vs = us @ [u, v]"
  proof -
    have "vs = butlast (butlast vs) @ [last (butlast vs), last vs]"
      using Suc.prems(2) by (metis append.assoc append_Cons append_Nil append_butlast_last_id butlast.simps(1)
        One_nat_def Suc_1 length_butlast list.size(3) not_less_eq_eq diff_is_0_eq le_zero_eq nat.distinct(1))
    then show ?thesis using that by blast
  qed
  let ?t = "length pre + length us + 2"
  have t: "nat (int (base L) + lst + 1) = ?t" using Suc.prems(4) vs by simp
  obtain ws z where pass: "concat_pass call (length us + 2) ?t (L\<lparr>stack := pre @ us @ [u, v] @ ys\<rparr>) =
      (if tostr v = [] then (Inr 2, L\<lparr>stack := pre @ us @ [String (tostr u), z] @ ys\<rparr>)
       else (Inr (length us + 2), L\<lparr>stack := pre @ String (concat (map tostr (us @ [u, v]))) # ws @ ys\<rparr>))" "length ws = length us + 1"
    using concat_pass_ok [OF Suc.prems(1) [unfolded vs] Suc.prems(3) [unfolded vs] refl, where call = call and pre = pre and L = L and ys = ys] by blast
  have "concat_loop call (Suc fuel) (length vs) lst (L\<lparr>stack := pre @ vs @ ys\<rparr>) =
    mbind (concat_pass call (length vs) ?t) (\<lambda>n.
       if length vs - (n - 1) > 1 then concat_loop call fuel (length vs - (n - 1)) (lst - (int n - 1)) else mret ())
      (L\<lparr>stack := pre @ vs @ ys\<rparr>)"
    using t by simp
  moreover have lv: "length vs = length us + 2" using vs by simp
  ultimately have step: "concat_loop call (Suc fuel) (length vs) lst (L\<lparr>stack := pre @ vs @ ys\<rparr>) =
    mbind (concat_pass call (length us + 2) ?t) (\<lambda>n.
       if length us + 2 - (n - 1) > 1 then concat_loop call fuel (length us + 2 - (n - 1)) (lst - (int n - 1)) else mret ())
      (L\<lparr>stack := pre @ us @ [u, v] @ ys\<rparr>)"
    by (simp only: vs append_assoc)
  show ?case
  proof (cases "tostr v = [] \<and> us \<noteq> []")
    case False
    then show ?thesis unfolding step using pass
      by (cases "tostr v = []") (auto simp: mbind_def vs intro: exI [of _ "[z]"])
  next
    case True
    let ?vs = "us @ [String (tostr u)]"
    have "\<exists>ws. concat_loop call fuel (length ?vs) (lst - 1) (L\<lparr>stack := pre @ ?vs @ (z # ys)\<rparr>) =
      (Inr (), L\<lparr>stack := pre @ String (concat (map tostr ?vs)) # ws @ (z # ys)\<rparr>) \<and> length ws = length ?vs - 1"
    proof (rule Suc.IH)
      show "list_all is_string_or_number ?vs" using Suc.prems(1) vs by simp
      show "2 \<le> length ?vs" using True by (cases us) auto
      show "sum_list (map (length \<circ> tostr) ?vs) < MAX_SIZET" using Suc.prems(3) vs True by (simp add: comp_def)
    qed (use Suc.prems(4,5) vs in auto)
    then obtain ws' where ws': "concat_loop call fuel (length us + 1) (lst - 1) (L\<lparr>stack := pre @ us @ String (tostr u) # z # ys\<rparr>) =
      (Inr (), L\<lparr>stack := pre @ String (concat (map tostr vs)) # (ws' @ [z]) @ ys\<rparr>)" "length ws' = length us"
      using True by (auto simp: vs)
    have "concat_loop call (Suc fuel) (length vs) lst (L\<lparr>stack := pre @ vs @ ys\<rparr>) =
      (Inr (), L\<lparr>stack := pre @ String (concat (map tostr vs)) # (ws' @ [z]) @ ys\<rparr>)"
      unfolding step using pass(1) True ws'(1) by (simp add: mbind_def)
    then show ?thesis using ws'(2) vs by (intro exI [of _ "ws' @ [z]"]) simp
  qed
qed simp

text \<open>
  C31: concatenation of strings and numbers always ends and gives the bytes of all of them, numbers as
  \<^verbatim>\<open>\%.14g\<close> prints them, in the slot of the first, whichever of them are empty; the slots below and above
  stay as they are, and no metamethod is called. The bound is the length check of the code.
\<close>

theorem luaV_concat_strings:
  assumes "stack L = pre @ vs @ ys" "list_all is_string_or_number vs" "length vs \<ge> 2"
    and "sum_list (map (length \<circ> tostr) vs) < MAX_SIZET" "int (base L) + lst + 1 = int (length pre + length vs)"
  shows "\<exists>ws. luaV_concat call (length vs) lst L =
      (Inr (), L\<lparr>stack := pre @ String (concat (map tostr vs)) # ws @ ys\<rparr>) \<and> length ws = length vs - 1"
proof -
  have "L = L\<lparr>stack := pre @ vs @ ys\<rparr>" using assms(1) by (metis lua_State.surjective lua_State.update_convs(1))
  then show ?thesis using concat_loop_ok [OF assms(2-5) order.refl, of call ys] by (simp add: luaV_concat_def)
qed

theorem luaV_concat_strings_witness:
  "\<exists>ws. luaV_concat (\<lambda>f n. mfail OutOfFuel) 3 2 (sample_state [String ''a'', Number (cast_num 12), String []] 4) =
    (Inr (), sample_state [String ''a'', Number (cast_num 12), String []] 4
      \<lparr>stack := [Nil] @ String ''a12'' # ws @ replicate 4 Nil\<rparr>)"
proof -
  let ?vs = "[String ''a'', Number (cast_num 12), String []]"
  have n: "lua_number2str (cast_num 12) = ''12''" by code_simp
  have "stack (sample_state ?vs 4) = [Nil] @ ?vs @ replicate 4 Nil" by (simp add: sample_state_def)
  from luaV_concat_strings [OF this, of 2 "\<lambda>f n. mfail OutOfFuel"] show ?thesis
    by (auto simp: is_string_or_number_def tostr_def n MAX_SIZET_def sample_state_def numeral_3_eq_3)
qed


text \<open>An assignment in a chain of two tables, for a call that does nothing.\<close>

theorem luaV_settable_cache_witness:
  "cache_inv (snd (luaV_settable (\<lambda>f n. mret ()) (None, TableRef 7) (String ''x'') (Number 0)
     (sample_state [] 5 \<lparr>tables := [7 \<mapsto> one_node 0 Nil Nil (Some 8), 8 \<mapsto> one_node 0 (String ''__newindex'') (TableRef 8) None]\<rparr>)))"
proof (rule luaV_settable_cache)
  show "cache_inv (sample_state [] 5 \<lparr>tables := [7 \<mapsto> one_node 0 Nil Nil (Some 8), 8 \<mapsto> one_node 0 (String ''__newindex'') (TableRef 8) None]\<rparr>)"
    by (simp add: cache_inv_def caches_ok_def no_own_metatable_def one_node_ops)
qed simp

end
