(* ===== verification/LuaDo.thy ===== *)
theory LuaDo
  imports LuaMeta LuaUndump
begin

unbundle bit_operations_syntax

section \<open>Calls\<close>

text \<open>
  Upvalues and closures (\<^verbatim>\<open>lfunc.c\<close>) and the call machinery of \<^verbatim>\<open>ldo.c\<close>: what happens
  before and after a call, the limits on nested calls, protected calls with their error handlers, and
  the functions of the API that call. There is one thread, so a C function that yields has no meaning
  here, and there are no hooks.
\<close>

subsection \<open>Upvalues\<close>

definition luaF_newLclosure :: "addr \<Rightarrow> Proto \<Rightarrow> addr list \<Rightarrow> addr lm" where
  "luaF_newLclosure e p ups = mbind alloc (\<lambda>a. mseq (set_clos a (LClosure e p ups)) (mret a))"

definition luaF_newupval :: "addr lm" where
  "luaF_newupval = mbind alloc (\<lambda>a. mseq (mset (\<lambda>L. L\<lparr>upvs := (upvs L)(a \<mapsto> Closed Nil)\<rparr>)) (mret a))"

text \<open>The slot of an open upvalue.\<close>

definition upv_level :: "lua_State \<Rightarrow> addr \<Rightarrow> nat option" where
  "upv_level L a = (case upvs L a of Some (Open i) \<Rightarrow> Some i | _ \<Rightarrow> None)"

text \<open>
  The search along the list of open upvalues, which is sorted by slot, the highest first: the upvalue
  that was found, or the list before and after the place of a new one.
\<close>

fun findupval_loop :: "lua_State \<Rightarrow> addr list \<Rightarrow> addr list \<Rightarrow> nat \<Rightarrow> (addr + addr list \<times> addr list) res" where
  "findupval_loop L pre [] level = Inr (Inr (pre, []))"
| "findupval_loop L pre (a # as) level =
     (case upv_level L a of
        None \<Rightarrow> Inl UndefinedAccess
      | Some v \<Rightarrow>
          if v \<ge> level then
            if v = level then Inr (Inl a) else findupval_loop L (pre @ [a]) as level
          else Inr (Inr (pre, a # as)))"

definition luaF_findupval :: "nat \<Rightarrow> addr lm" where
  "luaF_findupval level =
     mbind (\<lambda>L. (findupval_loop L [] (openupval L) level, L)) (\<lambda>r.
       case r of
         Inl a \<Rightarrow> mret a
       | Inr (pre, post) \<Rightarrow>
           mbind alloc (\<lambda>a.
             mseq (mset (\<lambda>L. L\<lparr>upvs := (upvs L)(a \<mapsto> Open level), openupval := pre @ a # post\<rparr>)) (mret a)))"

text \<open>The loop of \<^verbatim>\<open>luaF_close\<close> over the open upvalues.\<close>

fun close_loop :: "addr list \<Rightarrow> nat \<Rightarrow> unit lm" where
  "close_loop [] level = mret ()"
| "close_loop (a # as) level = (\<lambda>L.
     case upv_level L a of
       None \<Rightarrow> (Inl UndefinedAccess, L)
     | Some v \<Rightarrow>
         if v \<ge> level then
           mseq (mset (\<lambda>L. L\<lparr>openupval := as\<rparr>))
             (mseq (mbind (getstk v) (\<lambda>x. mset (\<lambda>L. L\<lparr>upvs := (upvs L)(a \<mapsto> Closed x)\<rparr>)))
               (close_loop as level)) L
         else (Inr (), L))"

definition luaF_close :: "nat \<Rightarrow> unit lm" where
  "luaF_close level = (\<lambda>L. close_loop (openupval L) level L)"

subsection \<open>Errors\<close>

definition LUA_ERRRUN :: int where "LUA_ERRRUN = 2"
definition LUA_ERRSYNTAX :: int where "LUA_ERRSYNTAX = 3"
definition LUA_ERRMEM :: int where "LUA_ERRMEM = 4"
definition LUA_ERRERR :: int where "LUA_ERRERR = 5"

definition MEMERRMSG :: string where "MEMERRMSG = ''not enough memory''"

text \<open>
  The status that a protected call gets for an error, and \<open>None\<close> for what is no Lua error (the model
  then has no further meaning, or was given too little fuel).
\<close>

definition error_status :: "lua_error \<Rightarrow> int option" where
  "error_status e =
     (case e of
        RunError _ \<Rightarrow> Some LUA_ERRRUN
      | ErrValue \<Rightarrow> Some LUA_ERRRUN
      | ErrSyntax _ \<Rightarrow> Some LUA_ERRSYNTAX
      | ErrMem \<Rightarrow> Some LUA_ERRMEM
      | ErrErr \<Rightarrow> Some LUA_ERRERR
      | _ \<Rightarrow> None)"

text \<open>
  The error carries its message, if that is a string; otherwise the message is on top of the stack.
\<close>

definition luaD_seterrorobj :: "lua_error \<Rightarrow> nat \<Rightarrow> unit lm" where
  "luaD_seterrorobj e oldtop =
     mseq (case e of
             ErrMem \<Rightarrow> setstk oldtop (String MEMERRMSG)
           | ErrErr \<Rightarrow> setstk oldtop (String ''error in error handling'')
           | RunError m \<Rightarrow> setstk oldtop (String m)
           | ErrSyntax m \<Rightarrow> setstk oldtop (String m)
           | _ \<Rightarrow> mbind (mget (\<lambda>L. top L - 1)) (\<lambda>i. mbind (getstk i) (setstk oldtop)))
       (mset (\<lambda>L. L\<lparr>top := oldtop + 1\<rparr>))"

text \<open>The macro \<^verbatim>\<open>incr_top\<close> of \<^verbatim>\<open>ldo.h\<close>, which makes room first.\<close>

definition incr_top_grow :: "unit lm" where
  "incr_top_grow = mseq (luaD_checkstack 1) (incr_top 1)"

subsection \<open>The list of calls\<close>

definition LUAI_MAXCALLS :: nat where "LUAI_MAXCALLS = 20000"
definition BASIC_CI_SIZE :: nat where "BASIC_CI_SIZE = 8"

definition luaD_reallocCI :: "nat \<Rightarrow> unit lm" where
  "luaD_reallocCI newsize = mset (\<lambda>L. L\<lparr>size_ci := newsize\<rparr>)"

definition growCI :: "unit lm" where
  "growCI = (\<lambda>L.
     if size_ci L > LUAI_MAXCALLS then (Inl ErrErr, L)
     else mseq (luaD_reallocCI (2 * size_ci L))
       (\<lambda>L. if size_ci L > LUAI_MAXCALLS then luaG_runerror ''stack overflow'' [] L else (Inr (), L)) L)"

text \<open>The new call \<open>c\<close> becomes the current one; the last entry of the array is kept free.\<close>

definition inc_ci :: "CallInfo \<Rightarrow> unit lm" where
  "inc_ci c = (\<lambda>L.
     mseq (if length (callers L) = size_ci L - 1 then growCI else mret ())
       (mset (\<lambda>L. L\<lparr>callers := ci L # callers L, ci := c\<rparr>)) L)"

definition restore_stack_limit :: "unit lm" where
  "restore_stack_limit = (\<lambda>L.
     if size_ci L > LUAI_MAXCALLS \<and> length (callers L) + 1 < LUAI_MAXCALLS
     then luaD_reallocCI LUAI_MAXCALLS L else (Inr (), L))"

subsection \<open>Before a call\<close>

text \<open>What runs for a C function: it gets \<^verbatim>\<open>luaD_call\<close> and gives the number of its results.\<close>

type_synonym cfunction = "callfun \<Rightarrow> int lm"

record host =
  cfun :: "nat \<Rightarrow> cfunction"
  numpow :: "lua_Number \<Rightarrow> lua_Number \<Rightarrow> lua_Number"

text \<open>The table \<^verbatim>\<open>arg\<close> of old-style variadic functions, with the \<open>nvar\<close> values below the top.\<close>

definition arg_table :: "nat \<Rightarrow> addr lm" where
  "arg_table nvar =
     mbind (new_tbl nvar 1) (\<lambda>a.
     mseq (foldr (\<lambda>i k.
              mseq (mbind (mget (\<lambda>L. top L - nvar + i)) (\<lambda>s. mbind (getstk s) (\<lambda>v.
                mbind (tbl (TableRef a)) (\<lambda>(_, t). store_slot a (luaH_setnum t (int i + 1)) v)))) k)
            [0..<nvar] (mret ()))
     (mseq (mbind (tbl (TableRef a)) (\<lambda>(_, t). store_slot a (luaH_setstr t ''n'') (Number (cast_num (int nvar)))))
       (mret a)))"

text \<open>The fixed parameters move above the extra arguments; their old slots become nil.\<close>

fun move_fixed :: "nat \<Rightarrow> nat list \<Rightarrow> unit lm" where
  "move_fixed fixed [] = mret ()"
| "move_fixed fixed (i # is) =
     mseq (mbind (getstk (fixed + i)) push) (mseq (setstk (fixed + i) Nil) (move_fixed fixed is))"

definition adjust_varargs :: "Proto \<Rightarrow> nat \<Rightarrow> nat lm" where
  "adjust_varargs p actual =
     (let nfixargs = unat (numparams p); actual' = max actual nfixargs in
      mseq (foldr (\<lambda>_ k. mseq (push Nil) k) [actual..<nfixargs] (mret ()))
      (mbind (if is_vararg p AND VARARG_NEEDSARG \<noteq> 0 then mbind (arg_table (actual' - nfixargs)) (\<lambda>a. mret (Some a))
              else mret None) (\<lambda>htab.
       mbind (mget top) (\<lambda>b.
       mseq (move_fixed (b - actual') [0..<nfixargs])
       (mseq (case htab of None \<Rightarrow> mret () | Some a \<Rightarrow> push (TableRef a))
         (mret b))))))"

text \<open>The \<^verbatim>\<open>__call\<close> metamethod takes the place of the object, which becomes the first argument.\<close>

definition tryfuncTM :: "nat \<Rightarrow> unit lm" where
  "tryfuncTM func =
     mbind (getstk func) (\<lambda>v.
     mbind (luaT_gettmbyobj v TM_CALL) (\<lambda>tm.
       if ttype tm \<noteq> LUA_TFUNCTION then luaG_typeerror (Some func, v) ''call''
       else mseq (mbind (mget top) (shift_up func)) (mseq incr_top_grow (setstk func tm))))"

subsection \<open>After a call\<close>

text \<open>The results move to the slot of the function, up to the number that is wanted.\<close>

function move_results :: "nat \<Rightarrow> nat \<Rightarrow> nat \<Rightarrow> int \<Rightarrow> (nat \<times> int) lm" where
  "move_results t res src i =
     (if i \<noteq> 0 \<and> src < t then
        mseq (mbind (getstk src) (setstk res)) (move_results t (res + 1) (src + 1) (i - 1))
      else mret (res, i))"
  by pat_completeness auto
termination by (relation "measure (\<lambda>(t, res, src, i). t - src)") auto

declare move_results.simps [simp del]

definition luaD_poscall :: "nat \<Rightarrow> int lm" where
  "luaD_poscall firstResult = (\<lambda>L.
     case callers L of
       [] \<Rightarrow> (Inl UndefinedAccess, L)
     | prev # rest \<Rightarrow>
         (let wanted = ci_nresults (ci L) in
          mseq (mset (\<lambda>L. L\<lparr>ci := prev, callers := rest, base := ci_base prev, savedpc := ci_savedpc prev\<rparr>))
          (mbind (move_results (top L) (ci_func (ci L)) firstResult wanted) (\<lambda>(res, i).
           mseq (fill_nil res (res + nat i))
           (mseq (mset (\<lambda>L. L\<lparr>top := res + nat i\<rparr>))
             (mret (wanted - LUA_MULTRET))))) L))"

subsection \<open>The call itself\<close>

datatype precall = PCRLUA | PCRC

definition luaD_precall :: "host \<Rightarrow> callfun \<Rightarrow> nat \<Rightarrow> int \<Rightarrow> precall lm" where
  "luaD_precall H call func nresults =
     mseq (mbind (getstk func) (\<lambda>v. if ttype v \<noteq> LUA_TFUNCTION then tryfuncTM func else mret ()))
     (mbind (getstk func) (\<lambda>v. mbind (clos v) (\<lambda>(_, cl).
      mseq (mset (\<lambda>L. L\<lparr>ci := (ci L)\<lparr>ci_savedpc := savedpc L\<rparr>\<rparr>))
        (case cl of
           LClosure _ p _ \<Rightarrow>
             mseq (luaD_checkstack (unat (maxstacksize p)))
             (mbind (if is_vararg p = 0 then
                       mseq (mset (\<lambda>L. if top L > func + 1 + unat (numparams p)
                                       then L\<lparr>top := func + 1 + unat (numparams p)\<rparr> else L))
                         (mret (func + 1))
                     else mbind (mget (\<lambda>L. top L - func - 1)) (adjust_varargs p)) (\<lambda>b.
              mseq (inc_ci \<lparr>ci_base = b, ci_func = func, ci_top = b + unat (maxstacksize p), ci_savedpc = 0,
                      ci_nresults = nresults, ci_tailcalls = 0\<rparr>)
              (mseq (mset (\<lambda>L. L\<lparr>base := b, savedpc := 0\<rparr>))
              (mseq (mbind (mget top) (\<lambda>t. fill_nil t (b + unat (maxstacksize p))))
              (mseq (mset (\<lambda>L. L\<lparr>top := b + unat (maxstacksize p)\<rparr>))
                (mret PCRLUA))))))
         | CClosure _ f _ \<Rightarrow>
             mseq (luaD_checkstack LUA_MINSTACK)
             (mbind (mget top) (\<lambda>t.
              mseq (inc_ci \<lparr>ci_base = func + 1, ci_func = func, ci_top = t + LUA_MINSTACK, ci_savedpc = 0,
                      ci_nresults = nresults, ci_tailcalls = 0\<rparr>)
              (mseq (mset (\<lambda>L. L\<lparr>base := func + 1\<rparr>))
              (mbind (cfun H f call) (\<lambda>n.
               if n < 0 then mfail UndefinedAccess
               else mseq (mbind (mget (\<lambda>L. top L - nat n)) (\<lambda>r. mbind (luaD_poscall r) (\<lambda>_. mret ())))
                 (mret PCRC)))))))))) "

text \<open>The limit on nested C calls, with some room above it to handle the error.\<close>

definition call_limit :: "unit lm" where
  "call_limit = (\<lambda>L.
     if nCcalls L \<ge> LUAI_MAXCCALLS then
       if nCcalls L = LUAI_MAXCCALLS then luaG_runerror ''C stack overflow'' [] L
       else if nCcalls L \<ge> LUAI_MAXCCALLS + LUAI_MAXCCALLS div 8 then (Inl ErrErr, L)
       else (Inr (), L)
     else (Inr (), L))"

text \<open>\<^verbatim>\<open>luaV_execute\<close> is a parameter here: the theory of the interpreter ties the knot.\<close>

definition call_body :: "host \<Rightarrow> callfun \<Rightarrow> unit lm \<Rightarrow> callfun" where
  "call_body H call execute func nResults =
     mseq (mset (\<lambda>L. L\<lparr>nCcalls := nCcalls L + 1\<rparr>))
     (mseq call_limit
     (mseq (mbind (luaD_precall H call func nResults) (\<lambda>r. case r of PCRLUA \<Rightarrow> execute | PCRC \<Rightarrow> mret ()))
       (mset (\<lambda>L. L\<lparr>nCcalls := nCcalls L - 1\<rparr>))))"

subsection \<open>Protected calls\<close>

text \<open>
  \<^verbatim>\<open>luaG_errormsg\<close>: the error handler of the innermost protected call runs on the state of the throw. Here that happens
  when the error has reached that call, which is the same: the way there changes nothing. An error in the
  handler runs it again, until the limit on nested calls, which the handler's own calls raise, stops it;
  \<open>fuel\<close> bounds these rounds.
\<close>

definition call_handler :: "callfun \<Rightarrow> lua_error \<Rightarrow> lua_error lm" where
  "call_handler call e =
     mseq (case e of RunError m \<Rightarrow> mseq (mbind (mget top) (\<lambda>t. setstk t (String m))) incr_top_grow | _ \<Rightarrow> mret ())
     (mbind (mget errfunc) (\<lambda>ef. mbind (getstk ef) (\<lambda>h.
      if ttype h \<noteq> LUA_TFUNCTION then mret ErrErr
      else
        mbind (mget top) (\<lambda>t.
        mseq (mbind (getstk (t - 1)) (setstk t))
        (mseq (setstk (t - 1) h)
        (mseq incr_top_grow
        (mseq (mbind (mget top) (\<lambda>t. call (t - 2) 1))
          (mret ErrValue))))))))"

fun luaG_errormsg :: "callfun \<Rightarrow> nat \<Rightarrow> lua_error \<Rightarrow> lua_error lm" where
  "luaG_errormsg call 0 e = mfail OutOfFuel"
| "luaG_errormsg call (Suc fuel) e = (\<lambda>L.
     if errfunc L = 0 \<or> error_status e \<noteq> Some LUA_ERRRUN then (Inr e, L)
     else
       case call_handler call e L of
         (Inr e', L') \<Rightarrow> (Inr e', L')
       | (Inl e', L') \<Rightarrow> luaG_errormsg call fuel e' L')"

text \<open>The call with the number \<open>i\<close> becomes the current one again.\<close>

definition restoreci :: "nat \<Rightarrow> unit lm" where
  "restoreci i = mset (\<lambda>L. L\<lparr>ci := base_ci L ! i, callers := rev (take i (base_ci L))\<rparr>)"

definition handler_fuel :: nat where "handler_fuel = 2 * LUAI_MAXCCALLS"

text \<open>The branch of \<^verbatim>\<open>luaD_pcall\<close> for an error: \<open>L0\<close> is the state before the call.\<close>

definition recover :: "lua_State \<Rightarrow> nat \<Rightarrow> lua_error \<Rightarrow> unit lm" where
  "recover L0 old_top e =
     mseq (luaF_close old_top)
     (mseq (luaD_seterrorobj e old_top)
     (mseq (mset (\<lambda>L. L\<lparr>nCcalls := nCcalls L0\<rparr>))
     (mseq (restoreci (length (callers L0)))
     (mseq (mset (\<lambda>L. L\<lparr>base := ci_base (ci L), savedpc := ci_savedpc (ci L)\<rparr>))
       restore_stack_limit))))"

definition luaD_pcall :: "callfun \<Rightarrow> unit lm \<Rightarrow> nat \<Rightarrow> nat \<Rightarrow> int lm" where
  "luaD_pcall call func old_top ef = (\<lambda>L0.
     case func (L0\<lparr>errfunc := ef\<rparr>) of
       (Inr (), L) \<Rightarrow> (Inr 0, L\<lparr>errfunc := errfunc L0\<rparr>)
     | (Inl e, L) \<Rightarrow>
         if error_status e = None then (Inl e, L)
         else
           mbind (luaG_errormsg call handler_fuel e) (\<lambda>e.
             case error_status e of
               None \<Rightarrow> mfail e
             | Some st \<Rightarrow>
                 mseq (recover L0 old_top e)
                 (mseq (mset (\<lambda>L. L\<lparr>errfunc := errfunc L0\<rparr>))
                   (mret st))) L)"

subsection \<open>Calls in the API\<close>

text \<open>With all results wanted the frame of the caller may have to grow.\<close>

definition adjustresults :: "int \<Rightarrow> unit lm" where
  "adjustresults nres =
     mset (\<lambda>L. if nres = LUA_MULTRET \<and> top L \<ge> ci_top (ci L) then L\<lparr>ci := (ci L)\<lparr>ci_top := top L\<rparr>\<rparr> else L)"

definition checknelems :: "nat \<Rightarrow> unit lm" where
  "checknelems n = (\<lambda>L. if n \<le> top L - base L then (Inr (), L) else (Inl UndefinedAccess, L))"

definition lua_call :: "callfun \<Rightarrow> nat \<Rightarrow> int \<Rightarrow> unit lm" where
  "lua_call call nargs nresults =
     mseq (checknelems (nargs + 1))
     (mseq (mbind (mget (\<lambda>L. top L - (nargs + 1))) (\<lambda>func. call func nresults))
       (adjustresults nresults))"

definition f_call :: "callfun \<Rightarrow> nat \<Rightarrow> int \<Rightarrow> unit lm" where
  "f_call call func nresults = call func nresults"

definition lua_pcall :: "callfun \<Rightarrow> nat \<Rightarrow> int \<Rightarrow> int \<Rightarrow> int lm" where
  "lua_pcall call nargs nresults errf =
     mseq (checknelems (nargs + 1))
     (mbind (if errf = 0 then mret 0
             else mbind (valid_adr errf) (\<lambda>a. case a of AStack i \<Rightarrow> mret i | _ \<Rightarrow> mfail UndefinedAccess)) (\<lambda>ef.
      mbind (mget (\<lambda>L. top L - (nargs + 1))) (\<lambda>func.
      mbind (luaD_pcall call (f_call call func nresults) func ef) (\<lambda>status.
      mseq (adjustresults nresults) (mret status)))))"

definition f_Ccall :: "callfun \<Rightarrow> nat \<Rightarrow> nat \<Rightarrow> unit lm" where
  "f_Ccall call fn ud =
     mbind getcurrenv (\<lambda>e.
     mbind (luaF_newCclosure 0 e) (\<lambda>a.
     mseq (set_clos a (CClosure e fn []))
     (mseq (push (FunctionRef a))
     (mseq (push (LightUserdata ud))
       (mbind (mget (\<lambda>L. top L - 2)) (\<lambda>func. call func 0))))))"

definition lua_cpcall :: "callfun \<Rightarrow> nat \<Rightarrow> nat \<Rightarrow> int lm" where
  "lua_cpcall call fn ud = mbind (mget top) (\<lambda>t. luaD_pcall call (f_Ccall call fn ud) t 0)"

subsection \<open>Loading code\<close>

text \<open>
  The compiler of source text, \<open>parser\<close>, is a parameter: it gets the stream, the buffer and the name
  of the chunk as \<^verbatim>\<open>luaU_undump\<close> does. A chunk that starts with the first byte of the signature
  is a precompiled one.
\<close>

type_synonym 'd parser = "nat \<Rightarrow> 'd zio \<Rightarrow> Mbuffer \<Rightarrow> string \<Rightarrow> (Proto \<times> 'd LoadState) res"

primrec new_upvals :: "nat \<Rightarrow> addr list lm" where
  "new_upvals 0 = mret []"
| "new_upvals (Suc n) = mbind luaF_newupval (\<lambda>a. mbind (new_upvals n) (\<lambda>as. mret (a # as)))"

definition f_parser :: "'d parser \<Rightarrow> 'd zio \<Rightarrow> string \<Rightarrow> unit lm" where
  "f_parser parser z name =
     (case luaZ_lookahead z of (c, z') \<Rightarrow>
        mbind (\<lambda>L. ((if c = char2int (LUA_SIGNATURE ! 0) then luaU_undump else parser) (nCcalls L) z'
                      \<lparr>buffer = [], bufflen = 0, buffsize = 0\<rparr> name, L)) (\<lambda>(tf, _).
        mbind (\<lambda>L. case l_gt L of TableRef e \<Rightarrow> (Inr e, L) | _ \<Rightarrow> (Inl UndefinedAccess, L)) (\<lambda>e.
        mbind (luaF_newLclosure e tf []) (\<lambda>a.
        mbind (new_upvals (unat (nups tf))) (\<lambda>us.
        mseq (set_clos a (LClosure e tf us))
        (mseq (mbind (mget top) (\<lambda>t. setstk t (FunctionRef a))) incr_top_grow))))))"

definition luaD_protectedparser :: "callfun \<Rightarrow> 'd parser \<Rightarrow> 'd zio \<Rightarrow> string \<Rightarrow> int lm" where
  "luaD_protectedparser call parser z name =
     mbind (mget (\<lambda>L. (top L, errfunc L))) (\<lambda>(t, ef). luaD_pcall call (f_parser parser z name) t ef)"

definition lua_load :: "callfun \<Rightarrow> 'd parser \<Rightarrow> 'd lua_Reader \<Rightarrow> 'd \<Rightarrow> string option \<Rightarrow> int lm" where
  "lua_load call parser rd d chunkname =
     luaD_protectedparser call parser (luaZ_init rd d) (case chunkname of None \<Rightarrow> ''?'' | Some s \<Rightarrow> cstr s)"

end
