(* ===== verification/LuaVM.thy ===== *)
theory LuaVM
  imports LuaDo
begin

unbundle bit_operations_syntax

section \<open>The interpreter\<close>

text \<open>
  \<^verbatim>\<open>luaV_execute\<close> of \<^verbatim>\<open>lvm.c\<close>, one instruction at a time, and the knot that ties it to
  \<^verbatim>\<open>luaD_call\<close>. The local \<^verbatim>\<open>pc\<close> is an argument; \<^verbatim>\<open>base\<close> is the
  one of the state, as its assertions say, since slots do not move when the stack grows.
\<close>

subsection \<open>Operands\<close>

definition RA :: "Instruction \<Rightarrow> nat lm" where "RA i = mget (\<lambda>L. base L + nat (GETARG_A i))"

definition reg :: "int \<Rightarrow> operand lm" where
  "reg r = mbind (mget (\<lambda>L. base L + nat r)) (\<lambda>s. mbind (getstk s) (\<lambda>v. mret (Some s, v)))"

definition RB :: "Instruction \<Rightarrow> operand lm" where "RB i = reg (GETARG_B i)"
definition kst :: "Proto \<Rightarrow> int \<Rightarrow> operand lm" where
  "kst p n = mbind (mlift (elem_at (p_k p) n)) (\<lambda>v. mret (None, v))"
definition rk :: "Proto \<Rightarrow> int \<Rightarrow> operand lm" where
  "rk p x = (if ISK x then kst p (INDEXK x) else reg x)"
definition RKB :: "Proto \<Rightarrow> Instruction \<Rightarrow> operand lm" where "RKB p i = rk p (GETARG_B i)"
definition RKC :: "Proto \<Rightarrow> Instruction \<Rightarrow> operand lm" where "RKC p i = rk p (GETARG_C i)"
definition KBx :: "Proto \<Rightarrow> Instruction \<Rightarrow> operand lm" where "KBx p i = kst p (GETARG_Bx i)"

text \<open>The instruction at a position.\<close>

definition fetch :: "Proto \<Rightarrow> int \<Rightarrow> Instruction lm" where
  "fetch p pc = mlift (elem_at (p_code p) pc)"

definition Protect :: "int \<Rightarrow> 'a lm \<Rightarrow> 'a lm" where
  "Protect pc m = mseq (mset (\<lambda>L. L\<lparr>savedpc := pc\<rparr>)) m"

subsection \<open>Parts of instructions\<close>

text \<open>What an instruction does to the control: go on at a position, or leave the current function.\<close>

datatype vm_next =
    Next int
  | EnterCall
  | Reenter
  | Returned bool

text \<open>\<^verbatim>\<open>do ... while\<close>: one register at least, from \<open>rb\<close> down to \<open>ra\<close>.\<close>

fun loadnil :: "nat \<Rightarrow> nat \<Rightarrow> unit lm" where
  "loadnil ra 0 = setstk 0 Nil"
| "loadnil ra (Suc rb) = mseq (setstk (Suc rb) Nil) (if rb \<ge> ra then loadnil ra rb else mret ())"

definition arith_op :: "host \<Rightarrow> callfun \<Rightarrow> Proto \<Rightarrow> Instruction \<Rightarrow> int \<Rightarrow> TMS \<Rightarrow> unit lm" where
  "arith_op H call p i pc ev =
     mbind (RA i) (\<lambda>ra. mbind (RKB p i) (\<lambda>rb. mbind (RKC p i) (\<lambda>rc.
       case (snd rb, snd rc) of
         (Number nb, Number nc) \<Rightarrow>
           (case arith_num (numpow H) ev nb nc of Some n \<Rightarrow> setstk ra (Number n) | None \<Rightarrow> mret ())
       | _ \<Rightarrow> Protect pc (Arith (numpow H) call ra rb rc ev))))"

text \<open>A conditional jump over the next instruction, which is a jump.\<close>

definition cond_jump :: "Proto \<Rightarrow> int \<Rightarrow> bool \<Rightarrow> vm_next lm" where
  "cond_jump p pc c =
     (if c then mbind (fetch p pc) (\<lambda>j. mret (Next (pc + GETARG_sBx j + 1))) else mret (Next (pc + 1)))"

text \<open>\<^verbatim>\<open>tonumber\<close> on a slot: the number, which replaces a string.\<close>

definition tonum_slot :: "nat \<Rightarrow> lua_Number option lm" where
  "tonum_slot s =
     mbind (getstk s) (\<lambda>v.
       case luaV_tonumber v of
         None \<Rightarrow> mret None
       | Some n \<Rightarrow> mseq (if ttype v = LUA_TNUMBER then mret () else setstk s (Number n)) (mret (Some n)))"

definition forprep :: "nat \<Rightarrow> unit lm" where
  "forprep ra =
     mbind (tonum_slot ra) (\<lambda>init.
     case init of None \<Rightarrow> luaG_runerror '''for' initial value must be a number'' []
     | Some init \<Rightarrow>
     mbind (tonum_slot (ra + 1)) (\<lambda>plimit.
     case plimit of None \<Rightarrow> luaG_runerror '''for' limit must be a number'' []
     | Some _ \<Rightarrow>
     mbind (tonum_slot (ra + 2)) (\<lambda>pstep.
     case pstep of None \<Rightarrow> luaG_runerror '''for' step must be a number'' []
     | Some step \<Rightarrow> setstk ra (Number (luai_numsub init step)))))"

definition num_at :: "nat \<Rightarrow> lua_Number lm" where
  "num_at s = mbind (getstk s) (\<lambda>v. case v of Number n \<Rightarrow> mret n | _ \<Rightarrow> mfail UndefinedAccess)"

definition forloop :: "nat \<Rightarrow> bool lm" where
  "forloop ra =
     mbind (num_at (ra + 2)) (\<lambda>step. mbind (num_at ra) (\<lambda>init. mbind (num_at (ra + 1)) (\<lambda>limit.
       let idx = luai_numadd init step in
       if (if luai_numlt 0 step then luai_numle idx limit else luai_numle limit idx)
       then mseq (setstk ra (Number idx)) (mseq (setstk (ra + 3) (Number idx)) (mret True))
       else mret False)))"

text \<open>\<^verbatim>\<open>OP_SETLIST\<close>: the values in the \<open>n\<close> registers above \<open>ra\<close>, the last first.\<close>

fun setlist_store :: "addr \<Rightarrow> nat \<Rightarrow> nat \<Rightarrow> int \<Rightarrow> unit lm" where
  "setlist_store a ra 0 lst = mret ()"
| "setlist_store a ra (Suc n) lst =
     mseq (mbind (getstk (ra + Suc n)) (\<lambda>v. mbind (tbl (TableRef a)) (\<lambda>(_, t). store_slot a (luaH_setnum t lst) v)))
       (setlist_store a ra n (lst - 1))"

definition setlist :: "Proto \<Rightarrow> Instruction \<Rightarrow> int \<Rightarrow> vm_next lm" where
  "setlist p i pc =
     mbind (RA i) (\<lambda>ra.
     mbind (if GETARG_B i = 0 then
              mbind (mget (\<lambda>L. int (top L) - int ra - 1)) (\<lambda>n.
                mseq (mset (\<lambda>L. L\<lparr>top := ci_top (ci L)\<rparr>)) (mret n))
            else mret (GETARG_B i)) (\<lambda>n.
     mbind (if GETARG_C i = 0 then mbind (fetch p pc) (\<lambda>w. mret (sint w, pc + 1)) else mret (GETARG_C i, pc)) (\<lambda>(c, pc).
     mbind (getstk ra) (\<lambda>v.
       if ttype v \<noteq> LUA_TTABLE then mret (Next pc)
       else
         mbind (tbl v) (\<lambda>(a, h).
           let lst = (c - 1) * LFIELDS_PER_FLUSH + n in
           mseq (if lst > int (sizearray h) then mbind (table_op (luaH_resizearray h (nat lst))) (set_tbl a) else mret ())
           (mseq (setlist_store a ra (nat n) lst)
             (mret (Next pc))))))))"

text \<open>The words after \<^verbatim>\<open>OP_CLOSURE\<close>: one for each upvalue.\<close>

fun closure_upvals :: "Proto \<Rightarrow> addr list \<Rightarrow> int \<Rightarrow> nat \<Rightarrow> addr list lm" where
  "closure_upvals p ups pc 0 = mret []"
| "closure_upvals p ups pc (Suc n) =
     mbind (fetch p pc) (\<lambda>w.
     mbind (if opcode_of (GET_OPCODE w) = Some OP_GETUPVAL then mlift (elem_at ups (GETARG_B w))
            else mbind (mget (\<lambda>L. base L + nat (GETARG_B w))) luaF_findupval) (\<lambda>u.
     mbind (closure_upvals p ups (pc + 1) n) (\<lambda>us. mret (u # us))))"

text \<open>\<^verbatim>\<open>OP_VARARG\<close>: the extra arguments are below the base.\<close>

fun copy_varargs :: "nat \<Rightarrow> nat \<Rightarrow> nat \<Rightarrow> nat list \<Rightarrow> unit lm" where
  "copy_varargs ra bs n [] = mret ()"
| "copy_varargs ra bs n (j # js) =
     mseq (if j < n then mbind (getstk (bs - n + j)) (setstk (ra + j)) else setstk (ra + j) Nil)
       (copy_varargs ra bs n js)"

definition vararg :: "Proto \<Rightarrow> Instruction \<Rightarrow> int \<Rightarrow> unit lm" where
  "vararg p i pc =
     mbind (RA i) (\<lambda>ra.
     mbind (mget (\<lambda>L. (ci_base (ci L), int (ci_base (ci L)) - int (ci_func (ci L)) - uint (numparams p) - 1))) (\<lambda>(b, n).
       if GETARG_B i - 1 = LUA_MULTRET then
         mseq (Protect pc (luaD_checkstack (nat n)))
         (mseq (mset (\<lambda>L. L\<lparr>top := ra + nat n\<rparr>))
           (copy_varargs ra b (nat n) [0..<nat n]))
       else copy_varargs ra b (nat n) [0..<nat (GETARG_B i - 1)]))"

text \<open>The new frame of a tail call takes the place of the frame that called it.\<close>

fun move_frame :: "nat \<Rightarrow> nat \<Rightarrow> nat list \<Rightarrow> unit lm" where
  "move_frame func pfunc [] = mret ()"
| "move_frame func pfunc (aux # as) =
     mseq (mbind (getstk (pfunc + aux)) (setstk (func + aux))) (move_frame func pfunc as)"

definition replace_frame :: "unit lm" where
  "replace_frame = (\<lambda>L.
     case callers L of
       [] \<Rightarrow> (Inl UndefinedAccess, L)
     | prev # rest \<Rightarrow>
         (let func = ci_func prev; pfunc = ci_func (ci L); bs = func + (ci_base (ci L) - pfunc); n = top L - pfunc in
          mseq (if openupval L \<noteq> [] then luaF_close (ci_base prev) else mret ())
          (mseq (move_frame func pfunc [0..<n])
            (mset (\<lambda>L. L\<lparr>base := bs, top := func + n, callers := rest,
               ci := prev\<lparr>ci_base := bs, ci_top := func + n, ci_savedpc := savedpc L, ci_tailcalls := ci_tailcalls prev + 1\<rparr>\<rparr>))) L))"

text \<open>The comparisons, each with the jump that follows it.\<close>

definition compare_jump :: "Proto \<Rightarrow> Instruction \<Rightarrow> int \<Rightarrow> (tvalue \<Rightarrow> tvalue \<Rightarrow> bool lm) \<Rightarrow> vm_next lm" where
  "compare_jump p i pc cmp =
     mbind (RKB p i) (\<lambda>(_, x). mbind (RKC p i) (\<lambda>(_, y).
       mbind (Protect pc (cmp x y)) (\<lambda>r. cond_jump p pc (of_bool r = GETARG_A i))))"

definition testset :: "Proto \<Rightarrow> Instruction \<Rightarrow> int \<Rightarrow> vm_next lm" where
  "testset p i pc =
     mbind (RB i) (\<lambda>(_, v).
       mseq (if of_bool (l_isfalse v) \<noteq> GETARG_C i then mbind (RA i) (\<lambda>ra. setstk ra v) else mret ())
         (cond_jump p pc (of_bool (l_isfalse v) \<noteq> GETARG_C i)))"

text \<open>Calls and returns.\<close>

definition op_call :: "host \<Rightarrow> callfun \<Rightarrow> Instruction \<Rightarrow> int \<Rightarrow> vm_next lm" where
  "op_call H call i pc =
     (let B = GETARG_B i; nresults = GETARG_C i - 1 in
      mbind (RA i) (\<lambda>ra.
      mseq (if B \<noteq> 0 then mset (\<lambda>L. L\<lparr>top := ra + nat B\<rparr>) else mret ())
      (mbind (Protect pc (luaD_precall H call ra nresults)) (\<lambda>r.
        case r of
          PCRLUA \<Rightarrow> mret EnterCall
        | PCRC \<Rightarrow> mseq (if nresults \<ge> 0 then mset (\<lambda>L. L\<lparr>top := ci_top (ci L)\<rparr>) else mret ()) (mret (Next pc))))))"

definition op_tailcall :: "host \<Rightarrow> callfun \<Rightarrow> Instruction \<Rightarrow> int \<Rightarrow> vm_next lm" where
  "op_tailcall H call i pc =
     (let B = GETARG_B i in
      mbind (RA i) (\<lambda>ra.
      mseq (if B \<noteq> 0 then mset (\<lambda>L. L\<lparr>top := ra + nat B\<rparr>) else mret ())
      (mbind (Protect pc (luaD_precall H call ra LUA_MULTRET)) (\<lambda>r.
        case r of
          PCRLUA \<Rightarrow> mseq replace_frame (mret Reenter)
        | PCRC \<Rightarrow> mret (Next pc)))))"

definition op_return :: "Instruction \<Rightarrow> int \<Rightarrow> vm_next lm" where
  "op_return i pc =
     (let B = GETARG_B i in
      mbind (RA i) (\<lambda>ra.
      mseq (if B \<noteq> 0 then mset (\<lambda>L. L\<lparr>top := ra + nat B - 1\<rparr>) else mret ())
      (mseq (mbind (mget (\<lambda>L. (openupval L, base L))) (\<lambda>(ou, bs). if ou \<noteq> [] then luaF_close bs else mret ()))
      (mbind (Protect pc (luaD_poscall ra)) (\<lambda>r. mret (Returned (r \<noteq> 0)))))))"

text \<open>The generic loop: the iterator gets the state and the control variable.\<close>

definition tforloop :: "callfun \<Rightarrow> Proto \<Rightarrow> Instruction \<Rightarrow> int \<Rightarrow> vm_next lm" where
  "tforloop call p i pc =
     mbind (RA i) (\<lambda>ra.
     let cb = ra + 3 in
     mseq (mbind (getstk (ra + 2)) (setstk (cb + 2)))
     (mseq (mbind (getstk (ra + 1)) (setstk (cb + 1)))
     (mseq (mbind (getstk ra) (setstk cb))
     (mseq (mset (\<lambda>L. L\<lparr>top := cb + 3\<rparr>))
     (mseq (Protect pc (call cb (GETARG_C i)))
     (mseq (mset (\<lambda>L. L\<lparr>top := ci_top (ci L)\<rparr>))
     (mbind (RA i) (\<lambda>ra. mbind (getstk (ra + 3)) (\<lambda>v.
       mseq (if v \<noteq> Nil then setstk (ra + 2) v else mret ())
         (cond_jump p pc (v \<noteq> Nil)))))))))))"

definition op_closure :: "addr \<Rightarrow> Proto \<Rightarrow> addr list \<Rightarrow> Instruction \<Rightarrow> int \<Rightarrow> vm_next lm" where
  "op_closure env p ups i pc =
     mbind (mlift (elem_at (p_p p) (GETARG_Bx i))) (\<lambda>q.
     mbind (luaF_newLclosure env q []) (\<lambda>a.
     mbind (closure_upvals p ups pc (unat (nups q))) (\<lambda>us.
     mseq (set_clos a (LClosure env q us))
     (mseq (mbind (RA i) (\<lambda>ra. setstk ra (FunctionRef a)))
       (mret (Next (pc + uint (nups q))))))))"

subsection \<open>One instruction\<close>

text \<open>
  \<open>pc\<close> is the position after the instruction \<open>i\<close>, as in the code; the closure is the address \<open>cl\<close>.
\<close>

definition vm_instr :: "host \<Rightarrow> callfun \<Rightarrow> addr \<Rightarrow> addr \<Rightarrow> Proto \<Rightarrow> addr list \<Rightarrow> OpCode \<Rightarrow> Instruction \<Rightarrow> int \<Rightarrow> vm_next lm" where
  "vm_instr H call cl env p ups ops i pc =
     (let go = (\<lambda>m. mseq m (mret (Next pc))); A = GETARG_A i; B = GETARG_B i; C = GETARG_C i in
      case ops of
        OP_MOVE \<Rightarrow> go (mbind (RA i) (\<lambda>ra. mbind (RB i) (\<lambda>(_, v). setstk ra v)))
      | OP_LOADK \<Rightarrow> go (mbind (RA i) (\<lambda>ra. mbind (KBx p i) (\<lambda>(_, v). setstk ra v)))
      | OP_LOADBOOL \<Rightarrow>
          mseq (mbind (RA i) (\<lambda>ra. setstk ra (Boolean (B \<noteq> 0)))) (mret (Next (if C \<noteq> 0 then pc + 1 else pc)))
      | OP_LOADNIL \<Rightarrow> go (mbind (RA i) (\<lambda>ra. mbind (mget (\<lambda>L. base L + nat B)) (loadnil ra)))
      | OP_GETUPVAL \<Rightarrow> go (mbind (RA i) (\<lambda>ra. mbind (mlift (elem_at ups B)) (\<lambda>u. mbind (upv_get u) (setstk ra))))
      | OP_GETGLOBAL \<Rightarrow>
          go (mbind (RA i) (\<lambda>ra. mbind (KBx p i) (\<lambda>(_, k). Protect pc (luaV_gettable call (None, TableRef env) k ra))))
      | OP_GETTABLE \<Rightarrow>
          go (mbind (RA i) (\<lambda>ra. mbind (RB i) (\<lambda>rb. mbind (RKC p i) (\<lambda>(_, k). Protect pc (luaV_gettable call rb k ra)))))
      | OP_SETGLOBAL \<Rightarrow>
          go (mbind (reg A) (\<lambda>(_, v). mbind (KBx p i) (\<lambda>(_, k). Protect pc (luaV_settable call (None, TableRef env) k v))))
      | OP_SETUPVAL \<Rightarrow> go (mbind (mlift (elem_at ups B)) (\<lambda>u. mbind (reg A) (\<lambda>(_, v). upv_set u v)))
      | OP_SETTABLE \<Rightarrow>
          go (mbind (reg A) (\<lambda>ra. mbind (RKB p i) (\<lambda>(_, k). mbind (RKC p i) (\<lambda>(_, v). Protect pc (luaV_settable call ra k v)))))
      | OP_NEWTABLE \<Rightarrow>
          go (mbind (RA i) (\<lambda>ra. mbind (new_tbl (nat (luaO_fb2int B)) (nat (luaO_fb2int C))) (\<lambda>a. setstk ra (TableRef a))))
      | OP_SELF \<Rightarrow>
          go (mbind (RA i) (\<lambda>ra. mbind (RB i) (\<lambda>rb. mseq (setstk (ra + 1) (snd rb))
            (mbind (RB i) (\<lambda>rb. mbind (RKC p i) (\<lambda>(_, k). Protect pc (luaV_gettable call rb k ra)))))))
      | OP_ADD \<Rightarrow> go (arith_op H call p i pc TM_ADD)
      | OP_SUB \<Rightarrow> go (arith_op H call p i pc TM_SUB)
      | OP_MUL \<Rightarrow> go (arith_op H call p i pc TM_MUL)
      | OP_DIV \<Rightarrow> go (arith_op H call p i pc TM_DIV)
      | OP_MOD \<Rightarrow> go (arith_op H call p i pc TM_MOD)
      | OP_POW \<Rightarrow> go (arith_op H call p i pc TM_POW)
      | OP_UNM \<Rightarrow>
          go (mbind (RA i) (\<lambda>ra. mbind (RB i) (\<lambda>rb.
            case snd rb of
              Number nb \<Rightarrow> setstk ra (Number (luai_numunm nb))
            | _ \<Rightarrow> Protect pc (Arith (numpow H) call ra rb rb TM_UNM))))
      | OP_NOT \<Rightarrow> go (mbind (RA i) (\<lambda>ra. mbind (RB i) (\<lambda>(_, v). setstk ra (Boolean (l_isfalse v)))))
      | OP_LEN \<Rightarrow>
          go (mbind (RA i) (\<lambda>ra. mbind (RB i) (\<lambda>rb.
            case snd rb of
              TableRef _ \<Rightarrow> mbind (tbl (snd rb)) (\<lambda>(_, h). mbind (mlift (luaH_getn h)) (\<lambda>n. setstk ra (Number (cast_num (int n)))))
            | String s \<Rightarrow> setstk ra (Number (cast_num (int (length s))))
            | _ \<Rightarrow> Protect pc (mbind (call_binTM call (snd rb) Nil ra TM_LEN) (\<lambda>done.
                if done then mret () else luaG_typeerror rb ''get length of'')))))
      | OP_CONCAT \<Rightarrow>
          go (mseq (Protect pc (luaV_concat call (nat (C - B + 1)) C))
            (mbind (RA i) (\<lambda>ra. mbind (RB i) (\<lambda>(_, v). setstk ra v))))
      | OP_JMP \<Rightarrow> mret (Next (pc + GETARG_sBx i))
      | OP_EQ \<Rightarrow> compare_jump p i pc (equalobj call)
      | OP_LT \<Rightarrow> compare_jump p i pc (luaV_lessthan call)
      | OP_LE \<Rightarrow> compare_jump p i pc (lessequal call)
      | OP_TEST \<Rightarrow> mbind (reg A) (\<lambda>(_, v). cond_jump p pc (of_bool (l_isfalse v) \<noteq> C))
      | OP_TESTSET \<Rightarrow> testset p i pc
      | OP_CALL \<Rightarrow> op_call H call i pc
      | OP_TAILCALL \<Rightarrow> op_tailcall H call i pc
      | OP_RETURN \<Rightarrow> op_return i pc
      | OP_FORLOOP \<Rightarrow>
          mbind (RA i) (\<lambda>ra. mbind (forloop ra) (\<lambda>again. mret (Next (if again then pc + GETARG_sBx i else pc))))
      | OP_FORPREP \<Rightarrow>
          mbind (RA i) (\<lambda>ra. mseq (Protect pc (forprep ra)) (mret (Next (pc + GETARG_sBx i))))
      | OP_TFORLOOP \<Rightarrow> tforloop call p i pc
      | OP_SETLIST \<Rightarrow> setlist p i pc
      | OP_CLOSE \<Rightarrow> go (mbind (RA i) luaF_close)
      | OP_CLOSURE \<Rightarrow> op_closure env p ups i pc
      | OP_VARARG \<Rightarrow> go (vararg p i pc))"

text \<open>The instruction at \<open>pc\<close> of the function \<open>cl\<close>; its environment is read when it is used.\<close>

definition vm_step :: "host \<Rightarrow> callfun \<Rightarrow> addr \<Rightarrow> int \<Rightarrow> vm_next lm" where
  "vm_step H call cl pc =
     mbind (clos (FunctionRef cl)) (\<lambda>(_, f).
       case f of
         CClosure _ _ _ \<Rightarrow> mfail UndefinedAccess
       | LClosure env p ups \<Rightarrow>
           mbind (fetch p pc) (\<lambda>i.
             case opcode_of (GET_OPCODE i) of
               None \<Rightarrow> mret (Next (pc + 1))
             | Some ops \<Rightarrow> vm_instr H call cl env p ups ops i (pc + 1)))"

subsection \<open>The loop\<close>

text \<open>\<open>reentry\<close>: the function of the current call, from its saved position.\<close>

definition current_closure :: "addr lm" where
  "current_closure = mbind curr_func (\<lambda>(a, f). case f of LClosure _ _ _ \<Rightarrow> mret a | _ \<Rightarrow> mfail UndefinedAccess)"

text \<open>\<open>fuel\<close> bounds the number of instructions; \<open>n\<close> is \<^verbatim>\<open>nexeccalls\<close>.\<close>

fun vm_loop :: "host \<Rightarrow> callfun \<Rightarrow> nat \<Rightarrow> nat \<Rightarrow> addr \<Rightarrow> int \<Rightarrow> unit lm" where
  "vm_loop H call 0 n cl pc = mfail OutOfFuel"
| "vm_loop H call (Suc fuel) n cl pc =
     mbind (vm_step H call cl pc) (\<lambda>r.
       let reentry = (\<lambda>n. mbind current_closure (\<lambda>cl. mbind (mget savedpc) (\<lambda>pc. vm_loop H call fuel n cl pc))) in
       case r of
         Next pc' \<Rightarrow> vm_loop H call fuel n cl pc'
       | EnterCall \<Rightarrow> reentry (n + 1)
       | Reenter \<Rightarrow> reentry n
       | Returned adj \<Rightarrow>
           if n = 1 then mret ()
           else mseq (if adj then mset (\<lambda>L. L\<lparr>top := ci_top (ci L)\<rparr>) else mret ()) (reentry (n - 1)))"

definition luaV_execute :: "host \<Rightarrow> callfun \<Rightarrow> nat \<Rightarrow> nat \<Rightarrow> unit lm" where
  "luaV_execute H call fuel n =
     mbind current_closure (\<lambda>cl. mbind (mget savedpc) (\<lambda>pc. vm_loop H call fuel n cl pc))"

text \<open>
  \<^verbatim>\<open>luaD_call\<close>, with the fuel for the nesting of C calls and for the instructions of each.
\<close>

fun luaD_call :: "host \<Rightarrow> nat \<Rightarrow> callfun" where
  "luaD_call H 0 func nResults = mfail OutOfFuel"
| "luaD_call H (Suc fuel) func nResults =
     call_body H (luaD_call H fuel) (luaV_execute H (luaD_call H fuel) fuel 1) func nResults"

end
