(* ===== verification/LuaCallFacts.thy ===== *)
theory LuaCallFacts
  imports LuaVM
begin

section \<open>Properties of calls\<close>

text \<open>
  The counter of nested C calls, the error handler and the frames over everything the machine does, the end of error
  handling, and what a protected call and a return leave behind.
\<close>

subsection \<open>Frames\<close>

text \<open>
  What a call is to the calls inside of it: its function, its base, the results it has to give and its tail calls. The
  saved position and the top of a frame may change while calls run on top of it.
\<close>

type_synonym frame = "nat \<times> nat \<times> int \<times> nat"

definition frame_of :: "CallInfo \<Rightarrow> frame" where
  "frame_of c = (ci_func c, ci_base c, ci_nresults c, ci_tailcalls c)"

definition frames :: "lua_State \<Rightarrow> frame list" where
  "frames L = map frame_of (base_ci L)"

lemma frame_of_simps [simp]:
  "frame_of (c\<lparr>ci_savedpc := pc\<rparr>) = frame_of c" "frame_of (c\<lparr>ci_top := t\<rparr>) = frame_of c"
  by (simp_all add: frame_of_def)

lemma frames_eq: "frames L = rev (map frame_of (callers L)) @ [frame_of (ci L)]"
  by (simp add: frames_def base_ci_def rev_map)

lemma frames_not_Nil [simp]: "frames L \<noteq> []"
  by (simp add: frames_eq)

lemma frames_simps [simp]:
  "frames (L\<lparr>stack := x1\<rparr>) = frames L" "frames (L\<lparr>top := x2\<rparr>) = frames L" "frames (L\<lparr>base := x2\<rparr>) = frames L"
  "frames (L\<lparr>size_ci := x2\<rparr>) = frames L" "frames (L\<lparr>savedpc := x3\<rparr>) = frames L" "frames (L\<lparr>nCcalls := x2\<rparr>) = frames L"
  "frames (L\<lparr>errfunc := x2\<rparr>) = frames L" "frames (L\<lparr>openupval := x4\<rparr>) = frames L" "frames (L\<lparr>tables := x5\<rparr>) = frames L"
  "frames (L\<lparr>closures := x6\<rparr>) = frames L" "frames (L\<lparr>upvs := x7\<rparr>) = frames L" "frames (L\<lparr>fresh := x2\<rparr>) = frames L"
  "frames (L\<lparr>ci := (ci L)\<lparr>ci_savedpc := x3\<rparr>\<rparr>) = frames L"
  by (simp_all add: frames_eq)

subsection \<open>Balance\<close>

text \<open>
  An operation gives back the counter of nested C calls, the error handler and the frames as it got them; when it
  raises a Lua error, the counter may have grown and there may be more frames above those.
\<close>

definition settled :: "lua_State \<Rightarrow> 'a res \<times> lua_State \<Rightarrow> bool" where
  "settled L r \<longleftrightarrow>
     (case r of
       (Inr _, L') \<Rightarrow> nCcalls L' = nCcalls L \<and> errfunc L' = errfunc L \<and> frames L' = frames L
     | (Inl e, L') \<Rightarrow> error_status e \<noteq> None \<longrightarrow>
         nCcalls L \<le> nCcalls L' \<and> errfunc L' = errfunc L \<and> prefix (frames L) (frames L'))"

definition balanced :: "'a lm \<Rightarrow> bool" where "balanced m \<longleftrightarrow> (\<forall>L. settled L (m L))"

lemma settled_simps [simp]:
  "settled L (Inr x, L') \<longleftrightarrow> nCcalls L' = nCcalls L \<and> errfunc L' = errfunc L \<and> frames L' = frames L"
  "settled L (Inl e, L') \<longleftrightarrow>
     (error_status e \<noteq> None \<longrightarrow> nCcalls L \<le> nCcalls L' \<and> errfunc L' = errfunc L \<and> prefix (frames L) (frames L'))"
  by (simp_all add: settled_def)

lemma balancedD: "balanced m \<Longrightarrow> settled L (m L)"
  by (simp add: balanced_def)

lemma settled_cong: "nCcalls L1 = nCcalls L \<Longrightarrow> errfunc L1 = errfunc L \<Longrightarrow> frames L1 = frames L \<Longrightarrow> settled L1 r = settled L r"
  by (cases r, cases "fst r") simp_all

named_theorems bal

lemma balanced_mbind [bal]:
  assumes "balanced m" "\<And>x. balanced (f x)" shows "balanced (mbind m f)"
  unfolding balanced_def
proof
  fix L
  obtain r L1 where m: "m L = (r, L1)" by (cases "m L")
  have b: "settled L1 (f x L1)" for x by (rule balancedD [OF assms(2)])
  show "settled L (mbind m f L)"
  proof (cases r)
    case (Inl e)
    then show ?thesis using balancedD [OF assms(1), of L] by (simp add: mbind_def m)
  next
    case (Inr x)
    then have "nCcalls L1 = nCcalls L" "errfunc L1 = errfunc L" "frames L1 = frames L" using balancedD [OF assms(1), of L] by (simp_all add: m)
    then show ?thesis using b [of x] Inr settled_cong [of L1 L "f x L1"] by (simp add: mbind_def m)
  qed
qed

lemma balanced_mseq [bal]: "balanced m \<Longrightarrow> balanced n \<Longrightarrow> balanced (mseq m n)"
  by (simp add: mseq_def balanced_mbind)

lemma balanced_basic [bal]:
  "balanced (mret x)" "balanced (mfail e)" "balanced (mlift r)" "balanced (mget g)"
  by (simp_all add: balanced_def settled_def split: sum.splits)

lemma balanced_mset [bal]: "(\<And>L. nCcalls (h L) = nCcalls L \<and> errfunc (h L) = errfunc L \<and> frames (h L) = frames L) \<Longrightarrow> balanced (mset h)"
  by (simp add: balanced_def)

lemma balanced_if [bal]: "(c \<Longrightarrow> balanced m) \<Longrightarrow> (\<not> c \<Longrightarrow> balanced n) \<Longrightarrow> balanced (if c then m else n)"
  by simp

lemma balanced_option [bal]:
  "balanced m \<Longrightarrow> (\<And>x. balanced (f x)) \<Longrightarrow> balanced (case v of None \<Rightarrow> m | Some x \<Rightarrow> f x)"
  by (cases v) simp_all

lemma balanced_sum [bal]:
  "(\<And>x. balanced (f x)) \<Longrightarrow> (\<And>x. balanced (g x)) \<Longrightarrow> balanced (case v of Inl x \<Rightarrow> f x | Inr x \<Rightarrow> g x)"
  by (cases v) simp_all

lemma balanced_prod [bal]: "(\<And>x y. balanced (f x y)) \<Longrightarrow> balanced (case v of (x, y) \<Rightarrow> f x y)"
  by (cases v) simp

lemma balanced_let [bal]: "balanced (f v) \<Longrightarrow> balanced (Let v f)"
  by simp

lemma balanced_value [bal]:
  assumes "balanced a1" "\<And>b. balanced (a2 b)" "\<And>n. balanced (a3 n)" "\<And>s. balanced (a4 s)"
    "\<And>n. balanced (a5 n)" "\<And>n. balanced (a6 n)" "\<And>n. balanced (a7 n)" "\<And>n. balanced (a8 n)" "\<And>n. balanced (a9 n)"
  shows "balanced (case_tvalue a1 a2 a3 a4 a5 a6 a7 a8 a9 v)"
  using assms by (cases v) simp_all

lemma balanced_closure [bal]:
  "(\<And>x y z. balanced (f x y z)) \<Longrightarrow> (\<And>x y z. balanced (g x y z)) \<Longrightarrow> balanced (case_closure f g c)"
  by (cases c) simp_all

lemma balanced_precall [bal]: "balanced m \<Longrightarrow> balanced n \<Longrightarrow> balanced (case r of PCRLUA \<Rightarrow> m | PCRC \<Rightarrow> n)"
  by (cases r) simp_all

lemma balanced_upval [bal]:
  "(\<And>i. balanced (f i)) \<Longrightarrow> (\<And>v. balanced (g v)) \<Longrightarrow> balanced (case_UpVal f g u)"
  by (cases u) simp_all

lemma balanced_state: "(\<And>L. balanced (m L)) \<Longrightarrow> balanced (\<lambda>L. m L L)"
  by (simp add: balanced_def)

lemma balanced_if_state: "(\<And>L. balanced (m L)) \<Longrightarrow> (\<And>L. balanced (n L)) \<Longrightarrow> balanced (\<lambda>L. if c L then m L L else n L L)"
  by (simp add: balanced_def)

lemma balanced_list_state:
  "balanced m \<Longrightarrow> (\<And>L x xs. balanced (n L x xs)) \<Longrightarrow> balanced (\<lambda>L. case cs L of [] \<Rightarrow> m L | x # xs \<Rightarrow> n L x xs L)"
  by (simp add: balanced_def split: list.splits)

lemma balanced_pair [bal]: "balanced (Pair r)"
  by (cases r) (simp_all add: balanced_def)

lemma balanced_keep:
  "(\<And>L. nCcalls (snd (m L)) = nCcalls L \<and> errfunc (snd (m L)) = errfunc L \<and> frames (snd (m L)) = frames L) \<Longrightarrow> balanced m"
  unfolding balanced_def settled_def by (auto split: prod.splits sum.splits) (metis snd_conv order_refl prefix_order.refl)+

lemma balanced_reads [bal]:
  "balanced (getstk i)" "balanced (setstk i v)" "balanced (tbl v)" "balanced (udat v)" "balanced (clos v)" "balanced (incr_top n)"
  "balanced (set_tbl a t)" "balanced (set_clos a c)" "balanced (luaD_checkstack k)"
  by (rule balanced_keep, auto simp: getstk_def setstk_def tbl_def udat_def clos_def incr_top_def set_tbl_def set_clos_def
      luaD_checkstack_def luaD_growstack_def luaD_reallocstack_def Let_def split: tvalue.splits option.splits)+

lemma balanced_errors [bal]:
  "balanced (luaG_runerror f a)" "balanced (luaG_typeerror p act)" "balanced (table_op r)"
  by (rule balanced_keep, auto simp: luaG_runerror_def luaG_typeerror_def table_op_def split: sum.splits lua_error.splits option.splits)+

lemma balanced_more_errors [bal]:
  "balanced (luaG_aritherror p q)" "balanced (luaG_concaterror p q)" "balanced (luaG_ordererror v w)"
  unfolding luaG_aritherror_def luaG_concaterror_def luaG_ordererror_def Let_def by (intro bal)+

lemma balanced_objects [bal]:
  "balanced (push v)" "balanced alloc" "balanced (new_tbl n h)" "balanced (store_slot a r v)" "balanced (store_through a p v)"
  "balanced (upv_get a)" "balanced curr_func"
  unfolding push_def alloc_def new_tbl_def store_slot_def store_through_def upv_get_def curr_func_def
  by (intro bal; (simp; fail)?)+


subsection \<open>Metamethods\<close>

lemma balanced_fasttm [bal]: "balanced (fasttm m e)"
  unfolding fasttm_def luaT_gettm_def by (intro bal)

lemma balanced_gettmbyobj [bal]: "balanced (metatable_of v)" "balanced (luaT_gettmbyobj v e)"
  unfolding luaT_gettmbyobj_def metatable_of_def by (intro bal; simp?)+

lemma balanced_slots [bal]: "balanced (adr_val (AStack i))" "balanced (set_adr (AStack i) v)"
  unfolding adr_val_def set_adr_def adr.case by (intro bal)+

lemma balanced_tostring [bal]: "balanced (tostring i)" "balanced (tsvalue i)"
  unfolding tostring_def tsvalue_def luaV_tostring_def by (intro bal)+

lemma balanced_concat_copy [bal]: "balanced (concat_copy t n)"
  by (induction n) (simp_all only: concat_copy.simps, (intro bal | assumption)+)

lemma balanced_concat_count [bal]: "balanced (concat_count t tot n len)"
proof (induction t tot n len rule: concat_count.induct)
  case (1 t tot n len)
  show ?case by (subst concat_count.simps, intro bal 1) simp_all
qed

lemma balanced_callTM:
  assumes call: "\<And>f n. balanced (call f n)"
  shows "balanced (callTM call f p1 p2 p3)" "balanced (callTMres call res f p1 p2)"
  unfolding callTM_def callTMres_def by (intro bal call)+

lemma balanced_find [bal]: "balanced (gettable_find t k)" "balanced (settable_find t k)"
  unfolding gettable_find_def settable_find_def by (intro bal)+

lemma balanced_gettable:
  assumes call: "\<And>f n. balanced (call f n)"
  shows "balanced (luaV_gettable call t k r)"
proof -
  have "balanced (gettable_loop call n t k r)" for n t
    by (induction n arbitrary: t) (simp_all only: gettable_loop.simps, (intro bal balanced_callTM [OF call] | assumption)+)
  then show ?thesis by (simp add: luaV_gettable_def)
qed

lemma balanced_settable:
  assumes call: "\<And>f n. balanced (call f n)"
  shows "balanced (luaV_settable call t k v)"
proof -
  have "balanced (settable_loop call n t k v)" for n t
    by (induction n arbitrary: t) (simp_all only: settable_loop.simps, (intro bal balanced_callTM [OF call] | assumption)+)
  then show ?thesis by (simp add: luaV_settable_def)
qed

lemma balanced_compare:
  assumes call: "\<And>f n. balanced (call f n)"
  shows "balanced (luaV_lessthan call v w)" "balanced (lessequal call v w)" "balanced (equalobj call v w)"
  unfolding luaV_lessthan_def lessequal_def equalobj_def luaV_equalval_def call_orderTM_def get_compTM_def top_true_def
    Let_def case_prod_conv
  by (intro bal balanced_callTM [OF call])+

lemma balanced_binTM:
  assumes call: "\<And>f n. balanced (call f n)"
  shows "balanced (call_binTM call p1 p2 r e)"
  unfolding call_binTM_def by (intro bal balanced_callTM [OF call])

lemma balanced_Arith:
  assumes call: "\<And>f n. balanced (call f n)"
  shows "balanced (Arith np call ra rb rc e)"
  unfolding Arith_def by (simp split: option.splits) (intro conjI impI allI bal balanced_binTM [OF call])+

lemma balanced_concat:
  assumes call: "\<And>f n. balanced (call f n)"
  shows "balanced (luaV_concat call n l)"
proof -
  have pass: "balanced (concat_pass call tot t)" for tot t
    unfolding concat_pass_def by (intro bal balanced_binTM [OF call])
  have "balanced (concat_loop call fuel tot l)" for fuel tot l
    by (induction fuel arbitrary: tot l) (simp_all only: concat_loop.simps, (intro bal pass | assumption)+)
  then show ?thesis by (simp add: luaV_concat_def)
qed


subsection \<open>Calls and instructions\<close>

text \<open>What the C functions of the host keep: they change the state through the API only.\<close>

definition polite :: "host \<Rightarrow> bool" where
  "polite H \<longleftrightarrow> (\<forall>call f. (\<forall>fn n. balanced (call fn n)) \<longrightarrow> balanced (cfun H f call))"

lemma balanced_upvals [bal]:
  "balanced (luaF_newLclosure e p us)" "balanced luaF_newupval" "balanced (luaF_findupval l)"
  unfolding luaF_newLclosure_def luaF_newupval_def luaF_findupval_def
  by (intro bal; (simp add: balanced_def settled_def split: sum.splits; fail)?)+

lemma balanced_close [bal]: "balanced (luaF_close l)"
proof -
  have "balanced (close_loop us l)" for us
  proof (induction us)
    case (Cons a us)
    have "balanced (mseq (mset (\<lambda>L. L\<lparr>openupval := us\<rparr>))
       (mseq (mbind (getstk v) (\<lambda>x. mset (\<lambda>L. L\<lparr>upvs := (upvs L)(a \<mapsto> Closed x)\<rparr>))) (close_loop us l)))" for v
      by (intro bal Cons.IH; simp)
    then show ?case by (auto simp: balanced_def split: option.splits)
  qed (simp add: balanced_def)
  then show ?thesis by (simp add: luaF_close_def balanced_def)
qed

lemma balanced_growCI [bal]: "balanced growCI" "balanced restore_stack_limit" "balanced incr_top_grow"
  unfolding growCI_def luaD_reallocCI_def incr_top_grow_def restore_stack_limit_def
  by (intro bal balanced_if_state; simp)+

lemma balanced_moves [bal]:
  "balanced (fill_nil i j)" "balanced (shift_up i j)" "balanced (move_results t r s w)" "balanced (move_fixed fx js)"
  "balanced (move_frame f pf js)" "balanced (copy_varargs ra bs n js)" "balanced (setlist_store a ra m l)" "balanced (loadnil ra rb)"
proof -
  show "balanced (fill_nil i j)"
    by (induction i j rule: fill_nil.induct) (subst fill_nil.simps, (intro bal | assumption)+)
  show "balanced (shift_up i j)"
    by (induction i j rule: shift_up.induct) (subst shift_up.simps, (intro bal | assumption)+)
  show "balanced (move_results t r s w)"
    by (induction t r s w rule: move_results.induct) (subst move_results.simps, (intro bal | blast)+)
  show "balanced (move_fixed fx js)"
    by (induction js) (simp_all only: move_fixed.simps, (intro bal | assumption)+)
  show "balanced (move_frame f pf js)"
    by (induction js) (simp_all only: move_frame.simps, (intro bal | assumption)+)
  show "balanced (copy_varargs ra bs n js)"
    by (induction js) (simp_all only: copy_varargs.simps, (intro bal | assumption)+)
  show "balanced (setlist_store a ra m l)"
    by (induction m arbitrary: l) (simp_all only: setlist_store.simps, (intro bal | assumption)+)
  show "balanced (loadnil ra rb)"
    by (induction rb) (simp_all only: loadnil.simps, (intro bal | assumption)+)
qed

lemma balanced_loops [bal]: "balanced (foldr (\<lambda>i. mseq (f i)) js m)" if "\<And>i. balanced (f i)" "balanced m"
  using that by (induction js) (simp_all add: balanced_mseq)

lemma balanced_arguments [bal]: "balanced (tryfuncTM f)" "balanced (adjust_varargs p n)"
  unfolding tryfuncTM_def adjust_varargs_def arg_table_def Let_def by (intro bal)+

lemma balanced_operands [bal]:
  "balanced (RA i)" "balanced (reg r)" "balanced (RB i)" "balanced (kst p k)" "balanced (rk p x)" "balanced (RKB p i)"
  "balanced (RKC p i)" "balanced (KBx p i)" "balanced (fetch p pc)" "balanced (cond_jump p pc d)"
  unfolding RA_def reg_def RB_def kst_def rk_def RKB_def RKC_def KBx_def fetch_def cond_jump_def by (intro bal)+

lemma balanced_Protect [bal]: "balanced m \<Longrightarrow> balanced (Protect pc m)"
  unfolding Protect_def by (intro bal) simp_all

lemma balanced_upv_set [bal]: "balanced (upv_set u v)"
  unfolding upv_set_def by (intro bal; simp)

lemma balanced_for [bal]: "balanced (tonum_slot s)" "balanced (forprep ra)" "balanced (num_at s)" "balanced (forloop ra)"
proof -
  show t: "balanced (tonum_slot s)" for s unfolding tonum_slot_def by (intro bal)
  show n: "balanced (num_at s)" for s unfolding num_at_def by (intro bal)
  show "balanced (forprep ra)" unfolding forprep_def by (intro bal t)
  show "balanced (forloop ra)" unfolding forloop_def Let_def by (intro bal n)
qed

lemma balanced_setlist [bal]: "balanced (setlist p i pc)"
  unfolding setlist_def by (intro bal; simp)

lemma balanced_closure_upvals [bal]: "balanced (closure_upvals p ups pc n)"
  by (induction n arbitrary: pc) (simp_all only: closure_upvals.simps, (intro bal | assumption)+)

lemma balanced_vararg [bal]: "balanced (vararg p i pc)"
  unfolding vararg_def by (intro bal; simp)

subsection \<open>Frames that come and go\<close>

text \<open>
  Operations that push, replace or pop the frame on top: \<open>K\<close> gives the frames that are left of the old ones when there
  is a Lua error, \<open>R\<close> what becomes of them otherwise.
\<close>

definition moves :: "(frame list \<Rightarrow> frame list) \<Rightarrow> ('a \<Rightarrow> frame list \<Rightarrow> frame list \<Rightarrow> bool) \<Rightarrow> 'a lm \<Rightarrow> bool" where
  "moves K R m \<longleftrightarrow> (\<forall>L.
     case m L of
       (Inr x, L') \<Rightarrow> nCcalls L' = nCcalls L \<and> errfunc L' = errfunc L \<and> R x (frames L) (frames L')
     | (Inl e, L') \<Rightarrow> error_status e \<noteq> None \<longrightarrow>
         nCcalls L \<le> nCcalls L' \<and> errfunc L' = errfunc L \<and> prefix (K (frames L)) (frames L'))"

abbreviation stay :: "'a \<Rightarrow> frame list \<Rightarrow> frame list \<Rightarrow> bool" where "stay x F F' \<equiv> F' = F"
abbreviation pushed :: "'a \<Rightarrow> frame list \<Rightarrow> frame list \<Rightarrow> bool" where "pushed x F F' \<equiv> \<exists>c. F' = F @ [c]"
abbreviation popped :: "'a \<Rightarrow> frame list \<Rightarrow> frame list \<Rightarrow> bool" where "popped x F F' \<equiv> F' = butlast F"

lemma movesE:
  assumes "moves K R m" "m L = (r, L')"
  shows "r = Inr x \<Longrightarrow> nCcalls L' = nCcalls L \<and> errfunc L' = errfunc L \<and> R x (frames L) (frames L')"
    and "r = Inl e \<Longrightarrow> error_status e \<noteq> None \<Longrightarrow> nCcalls L \<le> nCcalls L' \<and> errfunc L' = errfunc L \<and> prefix (K (frames L)) (frames L')"
proof -
  have "case (r, L') of
       (Inr x, L') \<Rightarrow> nCcalls L' = nCcalls L \<and> errfunc L' = errfunc L \<and> R x (frames L) (frames L')
     | (Inl e, L') \<Rightarrow> error_status e \<noteq> None \<longrightarrow>
         nCcalls L \<le> nCcalls L' \<and> errfunc L' = errfunc L \<and> prefix (K (frames L)) (frames L')"
    using assms(1) [unfolded moves_def, THEN spec, of L] unfolding assms(2) .
  then show "r = Inr x \<Longrightarrow> nCcalls L' = nCcalls L \<and> errfunc L' = errfunc L \<and> R x (frames L) (frames L')"
    "r = Inl e \<Longrightarrow> error_status e \<noteq> None \<Longrightarrow> nCcalls L \<le> nCcalls L' \<and> errfunc L' = errfunc L \<and> prefix (K (frames L)) (frames L')"
    by simp_all
qed

lemma movesI:
  assumes "\<And>L x L'. m L = (Inr x, L') \<Longrightarrow> nCcalls L' = nCcalls L \<and> errfunc L' = errfunc L \<and> R x (frames L) (frames L')"
    and "\<And>L e L'. m L = (Inl e, L') \<Longrightarrow> error_status e \<noteq> None \<Longrightarrow>
      nCcalls L \<le> nCcalls L' \<and> errfunc L' = errfunc L \<and> prefix (K (frames L)) (frames L')"
  shows "moves K R m"
  unfolding moves_def using assms by (auto split: prod.split sum.split)

lemma balanced_stays: "balanced m \<longleftrightarrow> moves id stay m"
  by (simp add: balanced_def moves_def settled_def id_def)

lemma moves_weaken:
  assumes m: "moves K R m" and K: "\<And>F. prefix (K' F) (K F)" and R: "\<And>x F F'. F \<noteq> [] \<Longrightarrow> F' \<noteq> [] \<Longrightarrow> R x F F' \<Longrightarrow> R' x F F'"
  shows "moves K' R' m"
proof (rule movesI)
  fix L x L' assume "m L = (Inr x, L')"
  then show "nCcalls L' = nCcalls L \<and> errfunc L' = errfunc L \<and> R' x (frames L) (frames L')"
    using movesE(1) [OF m] R by fastforce
next
  fix L e L' assume "m L = (Inl e, L')" "error_status e \<noteq> None"
  then show "nCcalls L \<le> nCcalls L' \<and> errfunc L' = errfunc L \<and> prefix (K' (frames L)) (frames L')"
    using movesE(2) [OF m] K prefix_order.trans by blast
qed

lemma moves_mbind:
  assumes m: "moves K R m" and f: "\<And>x. moves (J x) (S x) (f x)"
    and K: "\<And>F. prefix (K' F) (K F)" "\<And>x F F1. F \<noteq> [] \<Longrightarrow> F1 \<noteq> [] \<Longrightarrow> R x F F1 \<Longrightarrow> prefix (K' F) (J x F1)"
    and R: "\<And>x y F F1 F2. F \<noteq> [] \<Longrightarrow> F1 \<noteq> [] \<Longrightarrow> F2 \<noteq> [] \<Longrightarrow> R x F F1 \<Longrightarrow> S x y F1 F2 \<Longrightarrow> R' y F F2"
  shows "moves K' R' (mbind m f)"
proof (rule movesI)
  fix L y L2 assume "mbind m f L = (Inr y, L2)"
  then obtain x L1 where x: "m L = (Inr x, L1)" "f x L1 = (Inr y, L2)" by (auto simp: mbind_def split: prod.splits sum.splits)
  from movesE(1) [OF m x(1) refl] movesE(1) [OF f x(2) refl]
  show "nCcalls L2 = nCcalls L \<and> errfunc L2 = errfunc L \<and> R' y (frames L) (frames L2)"
    using R [of "frames L" "frames L1" "frames L2" x y] by simp
next
  fix L e L2 assume r: "mbind m f L = (Inl e, L2)" "error_status e \<noteq> None"
  then consider "m L = (Inl e, L2)" | x L1 where "m L = (Inr x, L1)" "f x L1 = (Inl e, L2)"
    by (auto simp: mbind_def split: prod.splits sum.splits)
  then show "nCcalls L \<le> nCcalls L2 \<and> errfunc L2 = errfunc L \<and> prefix (K' (frames L)) (frames L2)"
  proof cases
    case 1
    then show ?thesis using movesE(2) [OF m 1 refl r(2)] K(1) prefix_order.trans by blast
  next
    case 2
    from movesE(1) [OF m 2(1) refl] movesE(2) [OF f 2(2) refl r(2)]
    show ?thesis using K(2) [of "frames L" "frames L1" x] prefix_order.trans by (metis frames_not_Nil)
  qed
qed

text \<open>With balanced operations before and after.\<close>

lemma moves_before: "balanced m \<Longrightarrow> (\<And>x. moves K R (f x)) \<Longrightarrow> (\<And>F. prefix (K F) F) \<Longrightarrow> moves K R (mbind m f)"
  unfolding balanced_stays by (rule moves_mbind [where K = id and R = stay and S = "\<lambda>_. R" and J = "\<lambda>_. K"]) simp_all

lemma moves_after:
  "moves K (\<lambda>x. R) m \<Longrightarrow> (\<And>x. balanced (f x)) \<Longrightarrow> (\<And>F F'. F \<noteq> [] \<Longrightarrow> R F F' \<Longrightarrow> prefix (K F) F') \<Longrightarrow> moves K (\<lambda>x. R) (mbind m f)"
  unfolding balanced_stays
  by (rule moves_mbind [where K = K and R = "\<lambda>x. R" and S = "\<lambda>x. stay" and J = "\<lambda>x. id"]) simp_all

lemma moves_state: "(\<And>L. moves K R (m L)) \<Longrightarrow> moves K R (\<lambda>L. m L L)"
  by (simp add: moves_def)


lemma moves_mseq_before: "balanced m \<Longrightarrow> moves K R n \<Longrightarrow> (\<And>F. prefix (K F) F) \<Longrightarrow> moves K R (mseq m n)"
  unfolding mseq_def by (rule moves_before)

lemma moves_inc_ci: "moves id pushed (inc_ci c)"
proof -
  have p: "moves id pushed (mset (\<lambda>L. L\<lparr>callers := ci L # callers L, ci := c\<rparr>))"
    by (simp add: moves_def mset_def frames_eq del: split_paired_Ex)
  have "moves id pushed (mseq (if length (callers L) = size_ci L - 1 then growCI else mret ())
      (mset (\<lambda>L. L\<lparr>callers := ci L # callers L, ci := c\<rparr>)))" for L
    by (rule moves_mseq_before [OF _ p]) (intro bal, simp)
  then show ?thesis unfolding inc_ci_def by (rule moves_state)
qed

lemma moves_poscall: "moves butlast popped (luaD_poscall r)"
proof (rule movesI)
  fix L x L' assume m: "luaD_poscall r L = (Inr x, L')"
  then obtain c cs where cs: "callers L = c # cs" by (cases "callers L") (simp_all add: luaD_poscall_def)
  let ?L = "L\<lparr>ci := c, callers := cs, base := ci_base c, savedpc := ci_savedpc c\<rparr>"
  have f: "frames ?L = butlast (frames L)" by (simp add: frames_eq cs butlast_append)
  have "balanced (mbind (move_results (top L) (ci_func (ci L)) r (ci_nresults (ci L))) (\<lambda>(res, i).
      mseq (fill_nil res (res + nat i)) (mseq (mset (\<lambda>L. L\<lparr>top := res + nat i\<rparr>)) (mret (ci_nresults (ci L) - LUA_MULTRET)))))"
    by (intro bal) simp
  from balancedD [OF this, of ?L] m f
  show "nCcalls L' = nCcalls L \<and> errfunc L' = errfunc L \<and> frames L' = butlast (frames L)"
    by (simp add: luaD_poscall_def cs Let_def mseq_def mbind_def [of "mset _"] mset_def)
next
  fix L e L' assume m: "luaD_poscall r L = (Inl e, L')" and e: "error_status e \<noteq> None"
  obtain c cs where cs: "callers L = c # cs" using m e by (cases "callers L") (auto simp: luaD_poscall_def error_status_def)
  let ?L = "L\<lparr>ci := c, callers := cs, base := ci_base c, savedpc := ci_savedpc c\<rparr>"
  have f: "frames ?L = butlast (frames L)" by (simp add: frames_eq cs butlast_append)
  have "balanced (mbind (move_results (top L) (ci_func (ci L)) r (ci_nresults (ci L))) (\<lambda>(res, i).
      mseq (fill_nil res (res + nat i)) (mseq (mset (\<lambda>L. L\<lparr>top := res + nat i\<rparr>)) (mret (ci_nresults (ci L) - LUA_MULTRET)))))"
    by (intro bal) simp
  from balancedD [OF this, of ?L] m f e
  show "nCcalls L \<le> nCcalls L' \<and> errfunc L' = errfunc L \<and> prefix (butlast (frames L)) (frames L')"
    by (simp add: luaD_poscall_def cs Let_def mseq_def mbind_def [of "mset _"] mset_def)
qed

text \<open>A call of a C function leaves the frames alone; that of a Lua function pushes its frame.\<close>

definition precall_frames :: "precall \<Rightarrow> frame list \<Rightarrow> frame list \<Rightarrow> bool" where
  "precall_frames r F F' \<longleftrightarrow> (case r of PCRLUA \<Rightarrow> \<exists>c. F' = F @ [c] | PCRC \<Rightarrow> F' = F)"

lemma moves_precall:
  assumes H: "polite H" and call: "\<And>f n. balanced (call f n)"
  shows "moves id precall_frames (luaD_precall H call f n)"
proof -
  have cf: "balanced (cfun H g call)" for g using H call by (simp add: polite_def)
  have lua: "moves id precall_frames (mseq (inc_ci c) m)"
    if "balanced m" "\<And>L r L'. m L = (Inr r, L') \<Longrightarrow> r = PCRLUA" for c m
  proof -
    have "moves id (\<lambda>r F F'. r = PCRLUA \<and> F' = F) m"
      using that by (auto simp: moves_def balanced_def split: prod.split sum.split)
        (metis settled_simps(1,2) option.discI)+
    then show ?thesis unfolding mseq_def
      by (rule moves_mbind [OF moves_inc_ci]) (auto simp: precall_frames_def)
  qed
  have c: "moves id precall_frames (mseq (inc_ci c) (mseq (mset (\<lambda>L. L\<lparr>base := k\<rparr>)) (mbind (cfun H g call) (\<lambda>n.
      if n < 0 then mfail UndefinedAccess
      else mseq (mbind (mget (\<lambda>L. top L - nat n)) (\<lambda>r. mbind (luaD_poscall r) (\<lambda>_. mret ()))) (mret PCRC)))))" for c k g
  proof -
    have p: "moves butlast popped (mbind (luaD_poscall r) (\<lambda>_. mret ()))" for r
      by (rule moves_after [OF moves_poscall]) (auto intro: bal)
    have "moves butlast (\<lambda>r F F'. r = PCRC \<and> F' = butlast F) (mseq (mbind (mget (\<lambda>L. top L - nat n))
        (\<lambda>r. mbind (luaD_poscall r) (\<lambda>_. mret ()))) (mret PCRC))" for n
      unfolding mseq_def
      by (rule moves_mbind [where S = "\<lambda>_ y F F'. y = PCRC \<and> F' = F" and J = "\<lambda>_. id", OF moves_before [OF _ p]])
        (auto intro: bal simp: moves_def mret_def prefixeq_butlast)
    then have "moves butlast (\<lambda>r F F'. r = PCRC \<and> F' = butlast F) (if n < 0 then mfail UndefinedAccess
      else mseq (mbind (mget (\<lambda>L. top L - nat n)) (\<lambda>r. mbind (luaD_poscall r) (\<lambda>_. mret ()))) (mret PCRC))" for n
      by (simp add: moves_def mfail_def error_status_def)
    then have "moves butlast (\<lambda>r F F'. r = PCRC \<and> F' = butlast F) (mseq (mset (\<lambda>L. L\<lparr>base := k\<rparr>)) (mbind (cfun H g call) (\<lambda>n.
      if n < 0 then mfail UndefinedAccess
      else mseq (mbind (mget (\<lambda>L. top L - nat n)) (\<lambda>r. mbind (luaD_poscall r) (\<lambda>_. mret ()))) (mret PCRC))))"
      by (intro moves_mseq_before moves_before bal cf) (simp_all add: prefixeq_butlast)
    then show ?thesis unfolding mseq_def [of "inc_ci c"]
      by (rule moves_mbind [OF moves_inc_ci]) (auto simp: precall_frames_def)
  qed
  have closure: "moves id precall_frames (case_closure f1 f2 cl)"
    if "\<And>x y z. moves id precall_frames (f1 x y z)" "\<And>x y z. moves id precall_frames (f2 x y z)" for f1 f2 cl
    using that by (cases cl) simp_all
  have pair: "moves id precall_frames (case z of (x, y) \<Rightarrow> g x y)" if "\<And>x y. moves id precall_frames (g x y)"
    for z :: "addr \<times> closure" and g using that by (cases z) simp
  show ?thesis unfolding luaD_precall_def
    by (intro moves_mseq_before moves_before bal closure pair lua c) (auto simp: mseq_def mbind_def mset_def mret_def split: prod.splits sum.splits)
qed


text \<open>The new frame of a tail call takes the place of the two frames on top.\<close>

lemma moves_replace_frame:
  "moves (\<lambda>F. butlast (butlast F)) (\<lambda>_ F F'. \<exists>c. F' = butlast (butlast F) @ [c]) replace_frame"
proof -
  have m: "balanced (mseq (if k then luaF_close l else mret ()) (move_frame f pf js))" for k l f pf js by (intro bal)
  have e: "replace_frame L = (case callers L of [] \<Rightarrow> (Inl UndefinedAccess, L) | prev # rest \<Rightarrow>
      (let func = ci_func prev; pfunc = ci_func (ci L); bs = func + (ci_base (ci L) - pfunc); n = top L - pfunc in
       mseq (mseq (if openupval L \<noteq> [] then luaF_close (ci_base prev) else mret ()) (move_frame func pfunc [0..<n]))
         (mset (\<lambda>L. L\<lparr>base := bs, top := func + n, callers := rest,
            ci := prev\<lparr>ci_base := bs, ci_top := func + n, ci_savedpc := savedpc L, ci_tailcalls := ci_tailcalls prev + 1\<rparr>\<rparr>)) L))" for L
    by (simp add: replace_frame_def Let_def mseq_def mbind_def split: list.split prod.split sum.split)
  have bb: "butlast (butlast (frames L)) = rev (map frame_of cs)" if "callers L = c # cs" for L c cs
    using that by (simp add: frames_eq butlast_append)
  show ?thesis
  proof (rule movesI)
    fix L x L' assume r: "replace_frame L = (Inr x, L')"
    then obtain c cs where cs: "callers L = c # cs" by (cases "callers L") (simp_all add: replace_frame_def)
    let ?m = "mseq (if openupval L \<noteq> [] then luaF_close (ci_base c) else mret ()) (move_frame (ci_func c) (ci_func (ci L)) [0..<top L - ci_func (ci L)])"
    obtain v L1 where v: "?m L = (v, L1)" by fastforce
    have s: "settled L (v, L1)" using balancedD [OF m] v by metis
    have "v = Inr ()" using r v by (cases v) (simp_all add: e cs Let_def mseq_def [of _ "mset _"] mbind_def)
    then show "nCcalls L' = nCcalls L \<and> errfunc L' = errfunc L \<and> (\<exists>c. frames L' = butlast (butlast (frames L)) @ [c])"
      using r v s unfolding bb [OF cs]
      by (auto simp: e cs Let_def mseq_def [of _ "mset _"] mbind_def mset_def frames_eq simp del: split_paired_Ex)
  next
    fix L er L' assume r: "replace_frame L = (Inl er, L')" and er: "error_status er \<noteq> None"
    then obtain c cs where cs: "callers L = c # cs" by (cases "callers L") (auto simp: replace_frame_def error_status_def)
    let ?m = "mseq (if openupval L \<noteq> [] then luaF_close (ci_base c) else mret ()) (move_frame (ci_func c) (ci_func (ci L)) [0..<top L - ci_func (ci L)])"
    obtain v L1 where v: "?m L = (v, L1)" by fastforce
    have s: "settled L (v, L1)" using balancedD [OF m] v by metis
    have "v = Inl er \<and> L' = L1" using r v by (cases v) (simp_all add: e cs Let_def mseq_def [of _ "mset _"] mbind_def mset_def)
    then have "nCcalls L \<le> nCcalls L' \<and> errfunc L' = errfunc L \<and> prefix (frames L) (frames L')" using s er by simp
    then show "nCcalls L \<le> nCcalls L' \<and> errfunc L' = errfunc L \<and> prefix (butlast (butlast (frames L))) (frames L')"
      by (meson prefixeq_butlast prefix_order.trans)
  qed
qed

subsection \<open>Instructions\<close>

text \<open>What an instruction does to the frames: it keeps them, or it enters, replaces or leaves the one on top.\<close>

definition next_frames :: "vm_next \<Rightarrow> frame list \<Rightarrow> frame list \<Rightarrow> bool" where
  "next_frames r F F' \<longleftrightarrow>
     (case r of
        Next _ \<Rightarrow> F' = F
      | EnterCall \<Rightarrow> \<exists>c. F' = F @ [c]
      | Reenter \<Rightarrow> \<exists>c. F' = butlast F @ [c]
      | Returned _ \<Rightarrow> F' = butlast F)"

definition steady :: "vm_next lm \<Rightarrow> bool" where "steady m \<longleftrightarrow> moves butlast next_frames m"

named_theorems stdy

lemma steady_next [stdy]: "steady (mret (Next pc))"
  by (simp add: steady_def moves_def mret_def next_frames_def)

lemma steady_mbind [stdy]: "balanced m \<Longrightarrow> (\<And>x. steady (f x)) \<Longrightarrow> steady (mbind m f)"
  unfolding steady_def by (rule moves_before) (simp_all add: prefixeq_butlast)

lemma steady_mseq [stdy]: "balanced m \<Longrightarrow> steady n \<Longrightarrow> steady (mseq m n)"
  by (simp add: mseq_def steady_mbind)

lemma steady_cases [stdy]:
  "(c \<Longrightarrow> steady m) \<Longrightarrow> (\<not> c \<Longrightarrow> steady n) \<Longrightarrow> steady (if c then m else n)"
  "(\<And>x y. steady (h x y)) \<Longrightarrow> steady (case v of (x, y) \<Rightarrow> h x y)"
  by (simp_all split: prod.split)

lemma Protect_mbind: "mbind (Protect pc m) f = mseq (mset (\<lambda>L. L\<lparr>savedpc := pc\<rparr>)) (mbind m f)"
  by (rule ext) (simp add: Protect_def mseq_def mbind_def mset_def)

lemma steady_Protect [stdy]: "steady m \<Longrightarrow> steady (Protect pc m)"
  unfolding Protect_def by (intro stdy bal) simp_all

lemma steady_cond_jump [stdy]: "steady (cond_jump p pc d)"
  unfolding cond_jump_def by (intro stdy bal)

text \<open>The calls, the return, and the rest.\<close>

lemma steady_precall:
  assumes "polite H" and call: "\<And>f n. balanced (call f n)"
    and lua: "moves (\<lambda>F. butlast (butlast F)) (\<lambda>r F F'. next_frames r (butlast F) F') k"
    and c: "steady m"
  shows "steady (mbind (luaD_precall H call f n) (\<lambda>r. case r of PCRLUA \<Rightarrow> k | PCRC \<Rightarrow> m))"
  unfolding steady_def
proof (rule moves_mbind [OF moves_precall [OF assms(1,2)]])
  show "moves (case r of PCRLUA \<Rightarrow> \<lambda>F. butlast (butlast F) | PCRC \<Rightarrow> butlast)
      (case r of PCRLUA \<Rightarrow> \<lambda>r F F'. next_frames r (butlast F) F' | PCRC \<Rightarrow> next_frames)
      (case r of PCRLUA \<Rightarrow> k | PCRC \<Rightarrow> m)" for r
    using lua c by (cases r) (simp_all add: steady_def)
qed (auto simp: precall_frames_def prefixeq_butlast split: precall.splits)

lemma steady_call:
  assumes "polite H" and call: "\<And>f n. balanced (call f n)"
  shows "steady (op_call H call i pc)"
proof -
  have "moves (\<lambda>F. butlast (butlast F)) (\<lambda>r F F'. next_frames r (butlast F) F') (mret EnterCall)"
  proof -
    have "\<exists>c. F = butlast F @ [c]" if "F \<noteq> []" for F :: "frame list"
      using append_butlast_last_id [OF that] by metis
    then show ?thesis by (simp add: moves_def mret_def next_frames_def del: split_paired_Ex)
  qed
  note p = steady_precall [OF assms this]
  show ?thesis unfolding op_call_def Let_def Protect_mbind
    by (intro stdy bal p; simp)
qed

lemma steady_tailcall:
  assumes "polite H" and call: "\<And>f n. balanced (call f n)"
  shows "steady (op_tailcall H call i pc)"
proof -
  have "moves (\<lambda>F. butlast (butlast F)) (\<lambda>r F F'. next_frames r (butlast F) F') (mseq replace_frame (mret Reenter))"
    unfolding mseq_def
    by (rule moves_mbind [OF moves_replace_frame, where J = "\<lambda>_. id" and S = "\<lambda>_ r F F'. r = Reenter \<and> F' = F"])
      (auto simp: moves_def mret_def next_frames_def)
  note p = steady_precall [OF assms this]
  show ?thesis unfolding op_tailcall_def Let_def Protect_mbind
    by (intro stdy bal p; simp)
qed

lemma steady_return: "steady (op_return i pc)"
proof -
  have "steady (mbind (luaD_poscall ra) (\<lambda>r. mret (Returned (r \<noteq> 0))))" for ra
    unfolding steady_def
    by (rule moves_mbind [OF moves_poscall, where J = "\<lambda>_. id" and S = "\<lambda>x y F F'. F' = F \<and> (\<exists>z. y = Returned z)"])
      (auto simp: moves_def mret_def next_frames_def)
  note r = this
  show ?thesis unfolding op_return_def Let_def Protect_mbind
    by (rule steady_mbind, intro bal, rule steady_mseq, intro bal, simp, rule steady_mseq, intro bal,
        rule steady_mseq, intro bal, simp, rule r)
qed

lemma steady_instr:
  assumes "polite H" and call: "\<And>f n. balanced (call f n)"
  shows "steady (vm_instr H call cl env p ups ops i pc)"
proof -
  note c = balanced_gettable [OF call] balanced_settable [OF call] balanced_compare [OF call] balanced_Arith [OF call]
    balanced_concat [OF call] balanced_binTM [OF call] call
  have a: "balanced (arith_op H call p i pc e)" for e unfolding arith_op_def by (intro bal c)
  show ?thesis
    by (cases ops; simp only: vm_instr_def compare_jump_def testset_def tforloop_def setlist_def
        op_closure_def Let_def OpCode.case; intro stdy bal c a steady_call [OF assms] steady_tailcall [OF assms] steady_return; (simp; fail)?)
qed

text \<open>The loop leaves as many frames as it has entered, counting the one it started with.\<close>

definition leaves :: "nat \<Rightarrow> unit lm \<Rightarrow> bool" where
  "leaves n m \<longleftrightarrow> moves (\<lambda>F. take (length F - n) F) (\<lambda>_ F F'. n \<le> length F \<longrightarrow> F' = take (length F - n) F) m"

lemma take_prefix: "prefix (take n F) F"
  by (metis append_take_drop_id prefixI)

lemma leaves_mbind: "balanced m \<Longrightarrow> (\<And>x. leaves n (f x)) \<Longrightarrow> leaves n (mbind m f)"
  unfolding leaves_def by (rule moves_before) (simp_all add: take_prefix)

lemma leaves_next:
  assumes m: "steady m" and n: "0 < n"
    and k: "\<And>pc. leaves n (k (Next pc))" "leaves (n + 1) (k EnterCall)" "leaves n (k Reenter)"
      "\<And>adj. n = 1 \<Longrightarrow> balanced (k (Returned adj))" "\<And>adj. n \<noteq> 1 \<Longrightarrow> leaves (n - 1) (k (Returned adj))"
  shows "leaves n (mbind m k)"
  unfolding leaves_def
proof (rule moves_mbind [OF m [unfolded steady_def]])
  define J where "J r = (\<lambda>F. case r of Next _ \<Rightarrow> take (length F - n) F | EnterCall \<Rightarrow> take (length F - (n + 1)) (F :: frame list)
    | Reenter \<Rightarrow> take (length F - n) F | Returned _ \<Rightarrow> take (length F - (n - 1)) F)" for r :: vm_next
  define S where "S r = (\<lambda>F F'. case r of Next _ \<Rightarrow> n \<le> length F \<longrightarrow> F' = take (length F - n) (F :: frame list)
    | EnterCall \<Rightarrow> n + 1 \<le> length F \<longrightarrow> F' = take (length F - (n + 1)) F
    | Reenter \<Rightarrow> n \<le> length F \<longrightarrow> F' = take (length F - n) F
    | Returned _ \<Rightarrow> n - 1 \<le> length F \<longrightarrow> F' = take (length F - (n - 1)) F)" for r :: vm_next
  show "moves (J r) (\<lambda>_. S r) (k r)" for r
  proof (cases r)
    case (Returned adj)
    show ?thesis
    proof (cases "n = 1")
      case True
      then show ?thesis using k(4) [OF True, of adj] Returned by (simp add: balanced_stays J_def S_def id_def)
    next
      case False
      then show ?thesis using k(5) [OF False, of adj] Returned by (simp add: leaves_def J_def S_def)
    qed
  qed (use k(1-3) in \<open>simp_all add: leaves_def J_def S_def\<close>)
  have bl: "take (length F - n) (butlast F) = take (length F - n) F" if "F \<noteq> []" for F :: "frame list"
    using n that by (simp add: butlast_conv_take)
  show "prefix (take (length F - n) F) (butlast F)" for F :: "frame list"
    using take_prefix [of "length F - n" "butlast F"] bl [of F] by (cases "F = []") simp_all
  show "prefix (take (length F - n) F) (J r F1)" if "F \<noteq> []" "next_frames r F F1" for F F1 r
    using that n bl by (cases r) (auto simp: next_frames_def J_def)
  show "n \<le> length F \<longrightarrow> F2 = take (length F - n) F" if "F \<noteq> []" "next_frames r F F1" "S r F1 F2" for F F1 F2 r
    using that n bl by (cases r) (auto simp: next_frames_def S_def)
qed

lemma leaves_execute:
  assumes "polite H" and "\<And>f n. balanced (call f n)" "0 < n"
  shows "leaves n (luaV_execute H call fuel n)"
proof -
  have s: "steady (vm_step H call cl pc)" for cl pc
  proof -
    have "steady (case f of CClosure x y z \<Rightarrow> mfail UndefinedAccess | LClosure env p ups \<Rightarrow>
        mbind (fetch p pc) (\<lambda>i. case opcode_of (GET_OPCODE i) of None \<Rightarrow> mret (Next (pc + 1))
          | Some ops \<Rightarrow> vm_instr H call cl env p ups ops i (pc + 1)))" for f
    proof (cases f)
      case (LClosure env p ups)
      have "steady (case v of None \<Rightarrow> mret (Next (pc + 1)) | Some ops \<Rightarrow> vm_instr H call cl env p ups ops i (pc + 1))" for v i
        by (cases v) (simp_all add: steady_next steady_instr [OF assms(1,2)])
      then show ?thesis unfolding LClosure closure.case by (intro stdy bal)
    qed (simp add: steady_def moves_def mfail_def error_status_def)
    then show ?thesis unfolding vm_step_def by (intro stdy bal)
  qed
  have k: "balanced current_closure" unfolding current_closure_def by (intro bal)
  have "0 < n \<Longrightarrow> leaves n (vm_loop H call fuel n cl pc)" for n cl pc
  proof (induction fuel arbitrary: n cl pc)
    case (Suc fuel)
    have re: "leaves n (mbind current_closure (\<lambda>cl. mbind (mget savedpc) (\<lambda>pc. vm_loop H call fuel n cl pc)))" if "0 < n" for n
      by (intro leaves_mbind k bal Suc.IH that)
    show ?case unfolding vm_loop.simps Let_def
    proof (rule leaves_next [OF s Suc.prems]; unfold vm_next.case)
      show "leaves n (vm_loop H call fuel n cl pc)" for pc by (rule Suc.IH [OF Suc.prems])
      show "balanced (if n = 1 then mret () else m)" if "n = 1" for m using that by (simp add: bal)
      show "leaves (n - 1) (if n = 1 then mret () else mseq (if adj then mset (\<lambda>L. L\<lparr>top := ci_top (ci L)\<rparr>) else mret ())
          (mbind current_closure (\<lambda>cl. mbind (mget savedpc) (\<lambda>pc. vm_loop H call fuel (n - 1) cl pc))))" if "n \<noteq> 1" for adj
        unfolding mseq_def if_not_P [OF that]
        by (rule leaves_mbind; (intro bal, simp)?) (rule re, use Suc.prems that in simp)
    qed (use re Suc.prems in simp_all)
  qed (simp add: leaves_def moves_def mfail_def error_status_def)
  then show ?thesis unfolding luaV_execute_def using assms(3) by (intro leaves_mbind k bal) simp
qed

text \<open>A call between the two steps of the counter.\<close>

definition counted :: "host \<Rightarrow> nat \<Rightarrow> callfun" where
  "counted H n f r =
     mseq call_limit (mbind (luaD_precall H (luaD_call H n) f r)
       (\<lambda>r. case r of PCRLUA \<Rightarrow> luaV_execute H (luaD_call H n) n 1 | PCRC \<Rightarrow> mret ()))"

lemma luaD_call_counted:
  "luaD_call H (Suc n) f r L =
     (case counted H n f r (L\<lparr>nCcalls := nCcalls L + 1\<rparr>) of
        (Inr _, L') \<Rightarrow> (Inr (), L'\<lparr>nCcalls := nCcalls L' - 1\<rparr>)
      | (Inl e, L') \<Rightarrow> (Inl e, L'))"
  by (simp add: call_body_def counted_def mseq_def mbind_def split: prod.split sum.split)

lemma balanced_counted:
  assumes "polite H" "\<And>f r. balanced (luaD_call H n f r)"
  shows "balanced (counted H n f r)"
proof -
  have cl: "balanced call_limit" unfolding call_limit_def by (intro balanced_if_state bal)
  have "balanced (mbind (luaD_precall H (luaD_call H n) f r)
      (\<lambda>r. case r of PCRLUA \<Rightarrow> luaV_execute H (luaD_call H n) n 1 | PCRC \<Rightarrow> mret ()))"
    unfolding balanced_stays
  proof (rule moves_mbind [OF moves_precall [OF assms]])
    show "moves (case r of PCRLUA \<Rightarrow> \<lambda>F. take (length F - 1) F | PCRC \<Rightarrow> id)
       (case r of PCRLUA \<Rightarrow> \<lambda>_ F F'. 1 \<le> length F \<longrightarrow> F' = take (length F - 1) F | PCRC \<Rightarrow> stay)
       (case r of PCRLUA \<Rightarrow> luaV_execute H (luaD_call H n) n 1 | PCRC \<Rightarrow> mret ())" for r
      using leaves_execute [OF assms, where n = 1 and fuel = n] balanced_basic(1) [of "()"] by (cases r) (simp_all add: leaves_def balanced_stays)
  qed (auto simp: precall_frames_def split: precall.splits)
  then show ?thesis unfolding counted_def by (rule balanced_mseq [OF cl])
qed

lemma balanced_luaD_call:
  assumes "polite H" shows "balanced (luaD_call H n f r)"
proof (induction n arbitrary: f r)
  case (Suc n)
  have "settled L (luaD_call H (Suc n) f r L)" for L
    using balancedD [OF balanced_counted [OF assms Suc], of "L\<lparr>nCcalls := nCcalls L + 1\<rparr>" f r]
    by (auto simp: luaD_call_counted settled_def simp del: luaD_call.simps split: prod.splits sum.splits)
  then show ?case by (simp add: balanced_def)
qed (simp add: balanced_def error_status_def)

subsection \<open>The end of error handling\<close>

text \<open>A runtime error comes with a higher counter of C calls, which is below the hard limit.\<close>

definition climbs :: "'a lm \<Rightarrow> bool" where
  "climbs m \<longleftrightarrow> (\<forall>L e L'. m L = (Inl e, L') \<longrightarrow> error_status e = Some LUA_ERRRUN \<longrightarrow>
     nCcalls L < nCcalls L' \<and> nCcalls L < LUAI_MAXCCALLS + LUAI_MAXCCALLS div 8)"

named_theorems climb

lemma climbs_mbind [climb]:
  assumes "climbs m" "balanced m" "\<And>x. climbs (f x)" shows "climbs (mbind m f)"
  unfolding climbs_def
proof (intro allI impI)
  fix L e L' assume r: "mbind m f L = (Inl e, L')" "error_status e = Some LUA_ERRRUN"
  obtain v L1 where m: "m L = (v, L1)" by (cases "m L")
  show "nCcalls L < nCcalls L' \<and> nCcalls L < LUAI_MAXCCALLS + LUAI_MAXCCALLS div 8"
  proof (cases v)
    case (Inl e1)
    then show ?thesis using assms(1) r m by (auto simp: climbs_def mbind_def)
  next
    case (Inr x)
    then have "f x L1 = (Inl e, L')" using r(1) by (simp add: mbind_def m)
    moreover have "nCcalls L1 = nCcalls L" using balancedD [OF assms(2), of L] Inr by (simp add: m)
    ultimately show ?thesis using assms(3) [of x] r(2) unfolding climbs_def by fastforce
  qed
qed

lemma climbs_mseq [climb]: "climbs m \<Longrightarrow> balanced m \<Longrightarrow> climbs n \<Longrightarrow> climbs (mseq m n)"
  by (simp add: mseq_def climbs_mbind)

lemma climbs_basic [climb]:
  "climbs (mret x)" "climbs (mget g)" "climbs (mset h)" "climbs (getstk i)" "climbs (setstk i v)" "climbs incr_top_grow"
  by (auto simp: climbs_def getstk_def setstk_def error_status_def incr_top_grow_def incr_top_def luaD_checkstack_def
      luaD_growstack_def luaD_reallocstack_def mseq_def mbind_def split: if_splits)

lemma climbs_if [climb]: "(c \<Longrightarrow> climbs m) \<Longrightarrow> (\<not> c \<Longrightarrow> climbs n) \<Longrightarrow> climbs (if c then m else n)"
  by simp

lemma climbs_luaD_call:
  assumes "polite H" shows "climbs (luaD_call H n f r)"
  unfolding climbs_def
proof (intro allI impI)
  fix L e L' assume r: "luaD_call H n f r L = (Inl e, L')" "error_status e = Some LUA_ERRRUN"
  obtain k where n: "n = Suc k" using r by (cases n) (auto simp: error_status_def)
  let ?L = "L\<lparr>nCcalls := nCcalls L + 1\<rparr>"
  have c: "counted H k f r ?L = (Inl e, L')"
    using r(1) by (auto simp: n luaD_call_counted simp del: luaD_call.simps split: prod.splits sum.splits)
  have "nCcalls ?L \<le> nCcalls L'"
    using balancedD [OF balanced_counted [OF assms balanced_luaD_call [OF assms]], of ?L k f r] c r(2) by simp
  moreover have "nCcalls ?L < LUAI_MAXCCALLS + LUAI_MAXCCALLS div 8"
  proof (rule ccontr)
    assume "\<not> nCcalls ?L < LUAI_MAXCCALLS + LUAI_MAXCCALLS div 8"
    then have "call_limit ?L = (Inl ErrErr, ?L)" by (auto simp: call_limit_def LUAI_MAXCCALLS_def)
    then have "e = ErrErr" using c by (simp add: counted_def mseq_def mbind_def)
    then show False using r(2) by (simp add: error_status_def LUA_ERRRUN_def LUA_ERRERR_def)
  qed
  ultimately show "nCcalls L < nCcalls L' \<and> nCcalls L < LUAI_MAXCCALLS + LUAI_MAXCCALLS div 8" by simp
qed

lemma climbs_handler:
  assumes "polite H" shows "climbs (call_handler (luaD_call H n) e)"
  unfolding call_handler_def
  by (cases e; simp only: lua_error.case; intro climb bal climbs_luaD_call balanced_luaD_call assms)

lemma handler_fuel_enough:
  assumes "polite H" "LUAI_MAXCCALLS + LUAI_MAXCCALLS div 8 - nCcalls L + 1 < fuel"
  shows "\<exists>e' L'. luaG_errormsg (luaD_call H n) fuel e L = (Inr e', L')"
  using assms(2)
proof (induction fuel arbitrary: e L)
  case (Suc fuel)
  show ?case
  proof (cases "errfunc L = 0 \<or> error_status e \<noteq> Some LUA_ERRRUN")
    case False
    obtain r L1 where h: "call_handler (luaD_call H n) e L = (r, L1)" by (cases "call_handler (luaD_call H n) e L")
    show ?thesis
    proof (cases r)
      case (Inl e1)
      note step = h [unfolded Inl]
      show ?thesis
      proof (cases "error_status e1 = Some LUA_ERRRUN")
        case True
        then have "nCcalls L < nCcalls L1 \<and> nCcalls L < LUAI_MAXCCALLS + LUAI_MAXCCALLS div 8"
          using climbs_handler [OF assms(1)] step unfolding climbs_def by blast
        then have "LUAI_MAXCCALLS + LUAI_MAXCCALLS div 8 - nCcalls L1 + 1 < fuel" using Suc.prems by linarith
        from Suc.IH [OF this, of e1] show ?thesis using False step by simp
      next
        case False
        then show ?thesis using Suc.prems step \<open>\<not> (errfunc L = 0 \<or> _)\<close> by (cases fuel) auto
      qed
    qed (use False h in simp)
  qed auto
qed simp

lemma errormsg_settles:
  assumes "polite H" shows "\<exists>e' L'. luaG_errormsg (luaD_call H n) handler_fuel e L = (Inr e', L')"
  by (rule handler_fuel_enough [OF assms]) (simp add: handler_fuel_def LUAI_MAXCCALLS_def)

text \<open>
  The errors that the handling of an error meets, with the states that they are raised in: the first one, and
  what comes out of the handler when it is run on one of them.
\<close>

inductive raised :: "callfun \<Rightarrow> lua_error \<Rightarrow> lua_State \<Rightarrow> lua_error \<Rightarrow> lua_State \<Rightarrow> bool" for call e L where
  first: "raised call e L e L"
| handler: "raised call e L e1 L1 \<Longrightarrow> errfunc L1 \<noteq> 0 \<Longrightarrow> error_status e1 = Some LUA_ERRRUN \<Longrightarrow>
    call_handler call e1 L1 = (Inl e2, L2) \<Longrightarrow> raised call e L e2 L2"

lemma raised_trans: "raised call e1 L1 e2 L2 \<Longrightarrow> raised call e L e1 L1 \<Longrightarrow> raised call e L e2 L2"
  by (induction rule: raised.induct) (auto intro: raised.handler)

lemma call_handler_gives: "call_handler call e L = (Inr e', L') \<Longrightarrow> e' = ErrErr \<or> e' = ErrValue"
  by (cases e) (auto simp: call_handler_def mseq_def mbind_def split: prod.splits sum.splits if_splits)

lemma errormsg_raised:
  assumes "luaG_errormsg call fuel e L = (Inr e', L')"
  shows "e' = ErrErr \<or> e' = ErrValue \<or> (\<exists>L1. raised call e L e' L1)"
  using assms
proof (induction fuel arbitrary: e L)
  case (Suc fuel)
  show ?case
  proof (cases "errfunc L = 0 \<or> error_status e \<noteq> Some LUA_ERRRUN")
    case True
    then show ?thesis using Suc.prems raised.first by auto
  next
    case False
    obtain v L1 where v: "call_handler call e L = (v, L1)" by fastforce
    show ?thesis
    proof (cases v)
      case (Inl e1)
      then have r: "raised call e L e1 L1" using False v raised.handler [OF raised.first] by auto
      have "luaG_errormsg call fuel e1 L1 = (Inr e', L')" using Suc.prems False v Inl by simp
      from Suc.IH [OF this] show ?thesis using raised_trans [OF _ r] by blast
    next
      case (Inr e1)
      then show ?thesis using Suc.prems False v call_handler_gives [of call e L e1 L1] by simp blast
    qed
  qed
qed simp

text \<open>
  C33: error handling ends with a Lua error. An error in the error handler of a protected call runs the handler again
  on the new error; since each round nests one C call deeper and the counter of C calls has a hard limit, the rounds
  come to an end: \<open>handler_fuel\<close> of them are enough, in whatever state and for whatever handler, and the error that
  is left is one that the protected call reports. The C functions of the host have to give back the counter as they got
  it. What is assumed of the handler is that each single run of it, on an error that comes up, ends by returning or with
  a Lua error: a handler that loops for ever, or that leaves the model, is not excluded by the code.
\<close>

theorem luaG_errormsg_ends:
  assumes "polite H" "\<And>e1 L1. raised (luaD_call H n) e L e1 L1 \<Longrightarrow> error_status e1 \<noteq> None"
  shows "\<exists>e' L'. luaG_errormsg (luaD_call H n) handler_fuel e L = (Inr e', L') \<and> error_status e' \<noteq> None"
proof -
  obtain e' L' where e: "luaG_errormsg (luaD_call H n) handler_fuel e L = (Inr e', L')"
    using errormsg_settles [OF assms(1)] by blast
  have "error_status e' \<noteq> None" using errormsg_raised [OF e] assms(2) by (auto simp: error_status_def)
  then show ?thesis using e by blast
qed

text \<open>
  A host whose only function raises an error, and a state with it as the error handler, with room for one more call: the
  handler fails, runs again on its own error, and meets the limit.
\<close>

definition failing_host :: host where
  "failing_host = \<lparr>cfun = (\<lambda>f call. mfail ErrValue), numpow = (\<lambda>x y. x)\<rparr>"

lemma polite_failing_host [simp]: "polite failing_host"
  by (simp add: polite_def failing_host_def bal)

definition failing_state :: lua_State where
  "failing_state = (sample_state [FunctionRef 1, Boolean True] 5)\<lparr>errfunc := 1, closures := [1 \<mapsto> CClosure 2 0 []], nCcalls := 223\<rparr>"

theorem luaG_errormsg_ends_witness:
  "\<exists>e' L'. luaG_errormsg (luaD_call failing_host 300) handler_fuel ErrValue failing_state = (Inr e', L') \<and> error_status e' \<noteq> None"
proof (rule luaG_errormsg_ends [OF polite_failing_host])
  let ?call = "luaD_call failing_host 300"
  define r1 where "r1 = call_handler ?call ErrValue failing_state"
  define r2 where "r2 = call_handler ?call ErrValue (snd r1)"
  have 1: "r1 = (Inl ErrValue, snd r1)" unfolding r1_def by (rule prod_eqI; simp; code_simp)
  have 2: "r2 = (Inl ErrErr, snd r2)" unfolding r2_def r1_def by (rule prod_eqI; simp; code_simp)
  fix e1 L1 assume "raised ?call ErrValue failing_state e1 L1"
  then have "(e1, L1) = (ErrValue, failing_state) \<or> (e1, L1) = (ErrValue, snd r1) \<or> (e1, L1) = (ErrErr, snd r2)"
  proof induction
    case (handler e1 L1 e2 L2)
    then show ?case using 1 2 unfolding r1_def r2_def by (auto simp: error_status_def LUA_ERRRUN_def LUA_ERRERR_def)
  qed simp
  then show "error_status e1 \<noteq> None" by (auto simp: error_status_def)
qed

subsection \<open>Protected calls\<close>

definition may_fail :: "(lua_error \<Rightarrow> bool) \<Rightarrow> 'a lm \<Rightarrow> bool" where
  "may_fail P m \<longleftrightarrow> (\<forall>L e L'. m L = (Inl e, L') \<longrightarrow> P e)"

named_theorems fail_intros

lemma may_fail_mbind [fail_intros]: "may_fail P m \<Longrightarrow> (\<And>x. may_fail P (f x)) \<Longrightarrow> may_fail P (mbind m f)"
  by (fastforce simp: may_fail_def mbind_def split: prod.splits sum.splits)

lemma may_fail_mseq [fail_intros]: "may_fail P m \<Longrightarrow> may_fail P n \<Longrightarrow> may_fail P (mseq m n)"
  by (simp add: mseq_def may_fail_mbind)

lemma may_fail_basic [fail_intros]:
  "may_fail P (mret x)" "may_fail P (mget g)" "may_fail P (mset h)" "P e \<Longrightarrow> may_fail P (mfail e)"
  "P UndefinedAccess \<Longrightarrow> may_fail P (getstk i)" "P BufferOverflow \<Longrightarrow> may_fail P (setstk i v)"
  by (simp_all add: may_fail_def getstk_def setstk_def)

definition no_lua_error :: "lua_error \<Rightarrow> bool" where "no_lua_error e \<longleftrightarrow> error_status e = None"

lemma no_lua_error_simps [simp]: "no_lua_error UndefinedAccess" "no_lua_error BufferOverflow" "no_lua_error OutOfFuel"
  by (simp_all add: no_lua_error_def error_status_def)

lemma close_fails: "may_fail no_lua_error (luaF_close l)"
proof -
  have "may_fail no_lua_error (close_loop us l)" for us
  proof (induction us)
    case (Cons a us)
    have "may_fail no_lua_error (mseq (mset (\<lambda>L. L\<lparr>openupval := us\<rparr>))
       (mseq (mbind (getstk v) (\<lambda>x. mset (\<lambda>L. L\<lparr>upvs := (upvs L)(a \<mapsto> Closed x)\<rparr>))) (close_loop us l)))" for v
      by (intro fail_intros Cons.IH) simp_all
    then show ?case by (auto simp: may_fail_def split: option.splits if_splits)
  qed (simp add: may_fail_def)
  then show ?thesis by (simp add: may_fail_def luaF_close_def)
qed

lemma seterrorobj_fails: "may_fail no_lua_error (luaD_seterrorobj e t)"
  unfolding luaD_seterrorobj_def by (cases e; simp only: lua_error.case; intro fail_intros; simp)

lemma recover_fails: "may_fail no_lua_error (recover L0 t e)"
  unfolding recover_def restoreci_def restore_stack_limit_def luaD_reallocCI_def
  by (intro fail_intros close_fails seterrorobj_fails) (auto simp: may_fail_def)

text \<open>After \<^verbatim>\<open>luaF_close\<close>: the open upvalue with the highest slot, which is the first one, is below the level.\<close>

definition closed_above :: "nat \<Rightarrow> lua_State \<Rightarrow> bool" where
  "closed_above level L \<longleftrightarrow> (case openupval L of [] \<Rightarrow> True | a # _ \<Rightarrow> \<exists>v. upv_level L a = Some v \<and> v < level)"

lemma close_loop_closes:
  "close_loop us level L = (Inr (), L') \<Longrightarrow> us = openupval L \<Longrightarrow> closed_above level L'"
proof (induction us arbitrary: L)
  case (Cons a us)
  show ?case
  proof (cases "upv_level L a")
    case (Some v)
    show ?thesis
    proof (cases "v \<ge> level")
      case True
      obtain x L1 where x: "getstk v (L\<lparr>openupval := us\<rparr>) = (Inr x, L1)"
        using Cons.prems(1) Some True by (auto simp: mseq_def mbind_def mset_def split: prod.splits sum.splits)
      then have "L1 = L\<lparr>openupval := us\<rparr>" by (auto simp: getstk_def split: if_splits)
      then have "close_loop us level (L\<lparr>openupval := us, upvs := (upvs L)(a \<mapsto> Closed x)\<rparr>) = (Inr (), L')"
        using Cons.prems(1) Some True x by (simp add: mseq_def mbind_def mset_def)
      then show ?thesis by (rule Cons.IH) simp
    next
      case False
      then have "L' = L" using Cons.prems(1) Some by simp
      then show ?thesis using Cons.prems(2) Some False by (simp add: closed_above_def flip: Cons.prems(2))
    qed
  qed (use Cons.prems(1) in simp)
qed (simp add: closed_above_def mret_def)

lemma closed_above_cong: "openupval L' = openupval L \<Longrightarrow> upvs L' = upvs L \<Longrightarrow> closed_above level L' = closed_above level L"
  by (simp add: closed_above_def upv_level_def split: list.split)

lemma stack_limit_state: "restore_stack_limit L = (Inr x, L') \<Longrightarrow> \<exists>n. L' = L\<lparr>size_ci := n\<rparr>"
  by (cases "size_ci L > LUAI_MAXCALLS \<and> length (callers L) + 1 < LUAI_MAXCALLS")
    (auto simp: restore_stack_limit_def luaD_reallocCI_def mset_def intro: exI [of _ "size_ci L"])

lemma seterrorobj_state:
  assumes "luaD_seterrorobj e t L = (Inr (), L')"
  shows "\<exists>s. L' = L\<lparr>stack := s, top := t + 1\<rparr>"
  using assms unfolding luaD_seterrorobj_def
  by (cases e) (auto simp: mseq_def mbind_def mget_def mset_def getstk_def setstk_def split: if_splits)

lemma recover_state:
  assumes r: "recover L0 t e L = (Inr x, L')" and f: "prefix (frames L0) (frames L)"
  shows "nCcalls L' = nCcalls L0 \<and> frames L' = frames L0 \<and> top L' = t + 1 \<and> base L' = ci_base (ci L0) \<and>
    savedpc L' = ci_savedpc (ci L') \<and> closed_above t L'"
proof -
  obtain La where a: "luaF_close t L = (Inr (), La)"
    using r by (auto simp: recover_def mseq_def mbind_def split: prod.splits sum.splits)
  obtain Lb where s: "luaD_seterrorobj e t La = (Inr (), Lb)"
    using r a by (auto simp: recover_def mseq_def mbind_def split: prod.splits sum.splits)
  obtain st where b: "Lb = La\<lparr>stack := st, top := t + 1\<rparr>" using seterrorobj_state [OF s] by blast
  define i where "i = length (callers L0)"
  let ?c = "base_ci Lb ! i"
  let ?L = "Lb\<lparr>nCcalls := nCcalls L0, ci := ?c, callers := rev (take i (base_ci Lb)), base := ci_base ?c, savedpc := ci_savedpc ?c\<rparr>"
  have ba: "base_ci (Lb\<lparr>nCcalls := nCcalls L0\<rparr>) = base_ci Lb" by (simp add: base_ci_def)
  have "restore_stack_limit ?L = (Inr x, L')"
    using r a s by (simp add: recover_def mseq_def mbind_def mset_def restoreci_def i_def ba)
  then obtain n where L': "L' = ?L\<lparr>size_ci := n\<rparr>" using stack_limit_state by blast
  have "frames La = frames L" using balancedD [OF balanced_close [of t], of L] a by simp
  then have fb: "frames Lb = frames L" by (simp add: b)
  have len: "length (frames L0) = Suc i" "length (frames L0) \<le> length (base_ci Lb)"
  proof -
    have "length (frames L) = length (base_ci Lb)" unfolding fb [symmetric] by (simp add: frames_def)
    then show "length (frames L0) = Suc i" "length (frames L0) \<le> length (base_ci Lb)"
      using prefix_length_le [OF f] by (simp_all add: frames_eq i_def)
  qed
  then have i: "i < length (base_ci Lb)" by simp
  have "frames ?L = map frame_of (take (Suc i) (base_ci Lb))"
    by (simp add: frames_eq rev_map take_Suc_conv_app_nth [OF i])
  also have "\<dots> = take (Suc i) (frames Lb)" by (simp add: frames_def take_map)
  also have "\<dots> = frames L0" using f len(1) unfolding fb by (auto simp: prefix_def)
  finally have fr: "frames ?L = frames L0" .
  then have "frame_of ?c = frame_of (ci L0)" by (simp add: frames_eq)
  then have "ci_base ?c = ci_base (ci L0)" by (simp add: frame_of_def)
  moreover have "closed_above t La" using close_loop_closes [of "openupval L" t L La] a by (simp add: luaF_close_def)
  then have "closed_above t L'" by (rule closed_above_cong [THEN iffD1, rotated 2]) (simp_all add: L' b)
  ultimately show ?thesis using fr b by (simp add: L')
qed

text \<open>On the way to the handler and in it, frames are only added.\<close>

lemma balanced_handler:
  assumes "\<And>f n. balanced (call f n)" shows "balanced (call_handler call e)"
  unfolding call_handler_def by (cases e; simp only: lua_error.case; intro bal assms)

lemma errormsg_frames:
  assumes "\<And>f n. balanced (call f n)" "luaG_errormsg call fuel e L = (Inr e', L')" "error_status e' \<noteq> None"
  shows "prefix (frames L) (frames L')"
  using assms(2)
proof (induction fuel arbitrary: e L)
  case (Suc fuel)
  show ?case
  proof (cases "errfunc L = 0 \<or> error_status e \<noteq> Some LUA_ERRRUN")
    case False
    obtain v L1 where v: "call_handler call e L = (v, L1)" by (cases "call_handler call e L")
    have s: "settled L (v, L1)"
      using balancedD [OF balanced_handler [where call = call and e = e, OF assms(1)], of L] unfolding v .
    show ?thesis
    proof (cases v)
      case (Inl e1)
      then have n: "luaG_errormsg call fuel e1 L1 = (Inr e', L')" using Suc.prems False v by simp
      have "error_status e1 \<noteq> None"
      proof
        assume "error_status e1 = None"
        then have "e' = e1" using n by (cases fuel) (simp_all add: mfail_def)
        then show False using assms(3) \<open>error_status e1 = None\<close> by simp
      qed
      then have "prefix (frames L) (frames L1)" using s Inl by simp
      then show ?thesis using Suc.IH [OF n] by (rule prefix_order.trans)
    next
      case (Inr e1)
      then show ?thesis using Suc.prems False v s by simp
    qed
  next
    case True
    then have "(Inr e, L) = (Inr e', L')" using Suc.prems unfolding luaG_errormsg.simps by simp
    then show ?thesis by simp
  qed
qed (simp add: mfail_def)

definition recovered :: "lua_State \<Rightarrow> nat \<Rightarrow> lua_State \<Rightarrow> bool" where
  "recovered L0 old_top L \<longleftrightarrow>
     top L = old_top + 1 \<and> base L = ci_base (ci L0) \<and> savedpc L = ci_savedpc (ci L) \<and> closed_above old_top L"

lemma recover_protects:
  assumes "mseq (recover L0 t e) (mseq (mset (\<lambda>L. L\<lparr>errfunc := ef\<rparr>)) (mret st)) L = (r, L')" "prefix (frames L0) (frames L)"
  shows "(\<forall>e. r = Inl e \<longrightarrow> error_status e = None) \<and>
     (\<forall>st. r = Inr st \<longrightarrow> nCcalls L' = nCcalls L0 \<and> errfunc L' = ef \<and> frames L' = frames L0 \<and> recovered L0 t L')"
proof -
  obtain v L1 where v: "recover L0 t e L = (v, L1)" by (cases "recover L0 t e L")
  show ?thesis
  proof (cases v)
    case (Inl x)
    then have "error_status x = None" using recover_fails [of L0 t e] v unfolding may_fail_def no_lua_error_def by blast
    then show ?thesis using assms v Inl by (auto simp: mseq_def mbind_def)
  next
    case (Inr u)
    then show ?thesis using assms v recover_state [of L0 t e L u L1]
      by (auto simp: mseq_def mbind_def mset_def mret_def recovered_def closed_above_cong [of "L1\<lparr>errfunc := ef\<rparr>" L1])
  qed
qed


text \<open>What the API runs in a protected call is of that kind.\<close>

lemma balanced_protected:
  assumes "polite H" shows "balanced (f_call (luaD_call H n) f r)"
  by (simp add: f_call_def balanced_luaD_call assms)

lemma no_handler: "errfunc L = 0 \<Longrightarrow> luaG_errormsg call handler_fuel e L = (Inr e, L)"
proof -
  assume "errfunc L = 0"
  then have "0 < n \<Longrightarrow> luaG_errormsg call n e L = (Inr e, L)" for n by (cases n) simp_all
  moreover have "0 < handler_fuel" by (simp add: handler_fuel_def LUAI_MAXCCALLS_def)
  ultimately show ?thesis by blast
qed


end
