(* ===== verification/LuaUpvals.thy ===== *)
theory LuaUpvals
  imports LuaDo
begin

section \<open>Properties of upvalues\<close>

text \<open>
  The list of open upvalues: sorted by slot, with one upvalue for each slot. Finding and closing upvalues
  keep it, and closing keeps the values.
\<close>

text \<open>The slots of the open upvalues in the order of the list.\<close>

definition open_slots :: "lua_State \<Rightarrow> nat list" where
  "open_slots L = map (\<lambda>a. the (upv_level L a)) (openupval L)"

definition upvals_ok :: "lua_State \<Rightarrow> bool" where
  "upvals_ok L \<longleftrightarrow>
     (\<forall>a. a \<in> set (openupval L) \<longleftrightarrow> upv_level L a \<noteq> None) \<and>
     sorted_wrt (>) (open_slots L) \<and> (\<forall>i\<in>set (open_slots L). i < length (stack L)) \<and>
     (\<forall>a. upvs L a \<noteq> None \<longrightarrow> a < fresh L)"

text \<open>What an upvalue holds.\<close>

definition upv_value :: "lua_State \<Rightarrow> addr \<Rightarrow> tvalue option" where
  "upv_value L a = (case upvs L a of Some (Open i) \<Rightarrow> Some (stack L ! i) | Some (Closed v) \<Rightarrow> Some v | None \<Rightarrow> None)"

lemma upv_level_Some: "upv_level L a = Some i \<longleftrightarrow> upvs L a = Some (Open i)"
  by (auto simp: upv_level_def split: option.splits UpVal.splits)

lemma descending_distinct: "sorted_wrt (>) (xs :: nat list) \<Longrightarrow> distinct xs"
  by (induction xs) auto

lemma slot_unique:
  assumes "upvals_ok L" "upvs L a = Some (Open i)" "upvs L c = Some (Open i)"
  shows "a = c"
proof -
  have d: "distinct (open_slots L)" using assms(1) descending_distinct by (simp add: upvals_ok_def)
  have "a \<in> set (openupval L)" "c \<in> set (openupval L)" using assms by (auto simp: upvals_ok_def upv_level_def)
  moreover have "upv_level L a = Some i" "upv_level L c = Some i" using assms(2,3) by (simp_all add: upv_level_Some)
  ultimately show ?thesis using d unfolding open_slots_def distinct_map inj_on_def by (metis option.sel)
qed

subsection \<open>Finding\<close>

lemma findupval_loop:
  assumes "\<forall>a\<in>set as. upv_level L a \<noteq> None" "sorted_wrt (>) (map (\<lambda>a. the (upv_level L a)) as)"
  shows "(\<exists>a. findupval_loop L pre as level = Inr (Inl a) \<and> a \<in> set as \<and> upvs L a = Some (Open level)) \<or>
    (\<exists>hi lo. findupval_loop L pre as level = Inr (Inr (pre @ hi, lo)) \<and> as = hi @ lo \<and>
       (\<forall>a\<in>set hi. the (upv_level L a) > level) \<and> (\<forall>a\<in>set lo. the (upv_level L a) < level))"
  using assms
proof (induction as arbitrary: pre)
  case (Cons a as)
  obtain v where v: "upv_level L a = Some v" using Cons.prems by auto
  note va = v [unfolded upv_level_Some]
  consider "v = level" | "v > level" | "v < level" by linarith
  then show ?case
  proof cases
    case 1
    then have "findupval_loop L pre (a # as) level = Inr (Inl a)" using v by simp
    then show ?thesis using va 1 by auto
  next
    case 2
    have "\<forall>a\<in>set as. upv_level L a \<noteq> None" "sorted_wrt (>) (map (\<lambda>a. the (upv_level L a)) as)" using Cons.prems by auto
    from Cons.IH [OF this, of "pre @ [a]"] show ?thesis
    proof (elim disjE exE conjE)
      fix hi lo assume h: "findupval_loop L (pre @ [a]) as level = Inr (Inr ((pre @ [a]) @ hi, lo))" "as = hi @ lo"
        "\<forall>a\<in>set hi. the (upv_level L a) > level" "\<forall>a\<in>set lo. the (upv_level L a) < level"
      show ?thesis
        by (rule disjI2, rule exI [of _ "a # hi"], rule exI [of _ lo]) (use h 2 v in simp)
    qed (use 2 v in auto)
  next
    case 3
    have "\<forall>c\<in>set as. the (upv_level L c) < level" using Cons.prems(2) v 3 by auto
    then show ?thesis using 3 v by auto
  qed
qed simp


lemma luaF_findupval_ok:
  assumes ok: "upvals_ok L" and l: "level < length (stack L)"
  shows "\<exists>a L'. luaF_findupval level L = (Inr a, L') \<and> upvals_ok L' \<and> upvs L' a = Some (Open level) \<and> stack L' = stack L \<and>
     (\<forall>c. upvs L c \<noteq> None \<longrightarrow> upvs L' c = upvs L c)"
proof -
  have p: "\<forall>a\<in>set (openupval L). upv_level L a \<noteq> None" "sorted_wrt (>) (map (\<lambda>a. the (upv_level L a)) (openupval L))"
    using ok by (auto simp: upvals_ok_def open_slots_def)
  consider a where "findupval_loop L [] (openupval L) level = Inr (Inl a)" "upvs L a = Some (Open level)"
    | hi lo where "findupval_loop L [] (openupval L) level = Inr (Inr (hi, lo))" "openupval L = hi @ lo"
      "\<forall>a\<in>set hi. the (upv_level L a) > level" "\<forall>a\<in>set lo. the (upv_level L a) < level"
    using findupval_loop [OF p, of "[]" level] by auto
  then show ?thesis
  proof cases
    case 1
    then show ?thesis using ok by (auto simp: luaF_findupval_def mbind_def)
  next
    case 2
    let ?L = "L\<lparr>fresh := fresh L + 1, upvs := (upvs L)(fresh L \<mapsto> Open level), openupval := hi @ fresh L # lo\<rparr>"
    have r: "luaF_findupval level L = (Inr (fresh L), ?L)"
      using 2(1) by (simp add: luaF_findupval_def alloc_def mbind_def mseq_def)
    have new: "upvs L (fresh L) = None" using ok by (force simp: upvals_ok_def)
    have lv: "upv_level ?L c = (if c = fresh L then Some level else upv_level L c)" for c
      by (simp add: upv_level_def)
    have nin: "c \<in> set (openupval L) \<Longrightarrow> c \<noteq> fresh L" for c using ok new by (auto simp: upvals_ok_def upv_level_def)
    have os: "open_slots ?L = map (\<lambda>a. the (upv_level L a)) hi @ level # map (\<lambda>a. the (upv_level L a)) lo"
      using nin 2(2) by (auto simp: open_slots_def lv [simplified])
    have "sorted_wrt (>) (open_slots ?L)"
      unfolding os using p(2) 2(2-4) by (fastforce simp: sorted_wrt_append)
    moreover have "\<forall>i\<in>set (open_slots ?L). i < length (stack ?L)"
      unfolding os using 2(2) ok l by (auto simp: upvals_ok_def open_slots_def)
    moreover have "a \<in> set (openupval ?L) \<longleftrightarrow> upv_level ?L a \<noteq> None" for a
      using ok 2(2) lv [of a] by (auto simp: upvals_ok_def)
    moreover have "upvs ?L a \<noteq> None \<longrightarrow> a < fresh ?L" for a using ok by (auto simp: upvals_ok_def less_Suc_eq)
    ultimately have "upvals_ok ?L" unfolding upvals_ok_def by blast
    then show ?thesis using r new by auto
  qed
qed

subsection \<open>Closing\<close>

lemma close_loop_ok:
  assumes "upvals_ok L" "openupval L = us"
  shows "\<exists>L'. close_loop us level L = (Inr (), L') \<and> upvals_ok L' \<and> (\<forall>i\<in>set (open_slots L'). i < level) \<and>
     stack L' = stack L \<and> upv_value L' = upv_value L"
  using assms
proof (induction us arbitrary: L)
  case Nil
  then show ?case by (simp add: open_slots_def)
next
  case (Cons a us)
  have "a \<in> set (openupval L)" using Cons.prems(2) by simp
  then obtain v where v: "upv_level L a = Some v" using Cons.prems(1) unfolding upvals_ok_def by blast
  show ?case
  proof (cases "level \<le> v")
    case False
    then have "\<forall>i\<in>set (open_slots L). i < level" using Cons.prems v by (auto simp: upvals_ok_def open_slots_def)
    then show ?thesis using False v Cons.prems(1) by auto
  next
    case True
    let ?L = "L\<lparr>openupval := us, upvs := (upvs L)(a \<mapsto> Closed (stack L ! v))\<rparr>"
    have vl: "v < length (stack L)" using Cons.prems v by (auto simp: upvals_ok_def open_slots_def)
    have lv: "upv_level ?L c = (if c = a then None else upv_level L c)" for c by (simp add: upv_level_def)
    have ua: "upvs L a = Some (Open v)" using v by (simp add: upv_level_Some)
    have d: "a \<notin> set us" using Cons.prems descending_distinct [of "open_slots L"] by (auto simp: upvals_ok_def open_slots_def)
    have s: "open_slots L = v # open_slots ?L" using d v Cons.prems(2) by (auto simp: open_slots_def lv)
    have "c \<in> set us \<longleftrightarrow> upv_level ?L c \<noteq> None" for c using Cons.prems d lv [of c] by (auto simp: upvals_ok_def)
    moreover have "sorted_wrt (>) (open_slots ?L)" "\<forall>i\<in>set (open_slots ?L). i < length (stack ?L)"
      using Cons.prems(1) s by (auto simp: upvals_ok_def)
    moreover have "upvs ?L c \<noteq> None \<longrightarrow> c < fresh ?L" for c using Cons.prems(1) ua by (auto simp: upvals_ok_def)
    ultimately have "upvals_ok ?L" unfolding upvals_ok_def by simp
    from Cons.IH [OF this] obtain L' where L': "close_loop us level ?L = (Inr (), L')" "upvals_ok L'"
      "\<forall>i\<in>set (open_slots L'). i < level" "stack L' = stack L" "upv_value L' = upv_value ?L" by auto
    have "upv_value ?L = upv_value L" by (rule ext) (simp add: upv_value_def ua split: option.split UpVal.split)
    moreover have "close_loop (a # us) level L = (Inr (), L')"
      using True v vl L'(1) by (simp add: mseq_def mbind_def getstk_def)
    ultimately show ?thesis using L' by auto
  qed
qed



end
