(* ===== verification/LuaArith.thy ===== *)
theory LuaArith
  imports LuaNumber
begin

unbundle bit_operations_syntax

section \<open>Arithmetic on integers\<close>

text \<open>
  Doubles that hold integers of at most 53 bits: sums, differences and comparisons are those of the
  integers.
\<close>

subsection \<open>Values\<close>

lemma ilog2_shift: "0 < n \<Longrightarrow> ilog2 (n * 2 ^ k) = ilog2 n + k"
proof (induction k)
  case (Suc k)
  have "0 < n * 2 ^ k" using Suc.prems by simp
  then have "\<not> 2 * (n * 2 ^ k) \<le> 1" by linarith
  then have "\<not> n * 2 ^ Suc k \<le> 1" by (simp only: power_Suc mult.left_commute [of n] mult.assoc) simp
  then have "ilog2 (n * 2 ^ Suc k) = ilog2 (n * 2 ^ Suc k div 2) + 1"
    by (subst ilog2.simps) (simp only: if_False)
  then show ?case using Suc by simp
qed simp

lemma ilog2_pow [simp]: "ilog2 (2 ^ k) = k"
  using ilog2_shift [of 1 k] by (simp add: ilog2.simps)

text \<open>A fraction that is an integer.\<close>

lemma dbl_of_frac_shift:
  assumes "0 < n" "n < 2 ^ 53"
  shows "dbl_of_frac neg (n * 2 ^ k) (2 ^ k) = dbl_of_frac neg n 1"
proof -
  let ?l = "ilog2 n"
  have l: "?l \<le> 52" using ilog2_less [OF assms] by simp
  have l1: "ilog2 (Suc 0) = 0" by (simp add: ilog2.simps)
  have e: "frac_exp (n * 2 ^ k) (2 ^ k) = frac_exp n 1"
    using assms(1) l by (simp add: frac_exp_def scaled_def ilog2_shift l1 nat_diff_distrib Let_def mult.assoc [symmetric] mult.commute)
  have f: "frac_exp n 1 \<le> 0" using l by (simp add: frac_exp_def l1 Let_def scaled_def)
  then have s: "scaled (n * 2 ^ k) (2 ^ k) (frac_exp n 1) = (n * 2 ^ nat (- frac_exp n 1) * 2 ^ k, 2 ^ k)"
    "scaled n 1 (frac_exp n 1) = (n * 2 ^ nat (- frac_exp n 1), 1)"
    by (simp_all add: scaled_def)
  have r: "round_even (n * 2 ^ nat (- frac_exp n 1) * 2 ^ k) (2 ^ k) = round_even (n * 2 ^ nat (- frac_exp n 1)) 1"
    using round_even_exact [of "2 ^ k"] round_even_exact [of 1 "n * 2 ^ nat (- frac_exp n 1)"] by simp
  show ?thesis using assms(1) unfolding dbl_of_frac_def e Let_def s prod.case r by simp
qed

text \<open>The fields of a double that holds an integer, zero included.\<close>

definition small :: "int \<Rightarrow> bool" where "small k \<longleftrightarrow> \<bar>k\<bar> < 2 ^ 53"

lemma cast_num_zero_fields: "dbl_exp (cast_num 0) = 0" "dbl_frac (cast_num 0) = 0" "\<not> dbl_neg (cast_num 0)"
  by (simp_all add: cast_num_def dbl_exp_def dbl_frac_def dbl_neg_def)

lemma cast_num_value:
  assumes "small k" "e \<le> dbl_pow (cast_num k)"
  shows "dbl_signed (cast_num k) e = k * 2 ^ nat (- e)"
proof (cases "k = 0")
  case True
  then show ?thesis by (simp add: dbl_signed_def dbl_mant_def cast_num_zero_fields)
next
  case False
  let ?l = "ilog2 (nat \<bar>k\<bar>)"
  note f = cast_num_fields [OF False assms(1) [unfolded small_def]]
  have m: "dbl_mant (cast_num k) = nat \<bar>k\<bar> * 2 ^ (52 - ?l)" using f(1,2,4) by (simp add: dbl_mant_def)
  have p: "dbl_pow (cast_num k) = int ?l - 52" using f(1) by (simp add: dbl_pow_def)
  have "nat (- e) = 52 - ?l + nat (dbl_pow (cast_num k) - e)" using assms(2) f(5) unfolding p by linarith
  then have "(2::int) ^ nat (- e) = 2 ^ (52 - ?l) * 2 ^ nat (dbl_pow (cast_num k) - e)" by (simp add: power_add)
  then show ?thesis unfolding dbl_signed_def m using f(3) False by (simp add: mult.assoc)
qed

lemma small_finite:
  assumes "small k"
  shows "\<not> dbl_nan (cast_num k)" "\<not> dbl_isinf (cast_num k)" "dbl_zero (cast_num k) \<longleftrightarrow> k = 0" "dbl_pow (cast_num k) \<le> 0"
    "dbl_neg (cast_num k) \<longleftrightarrow> k < 0"
proof -
  note f = cast_num_fields [OF _ assms [unfolded small_def]]
  show "\<not> dbl_nan (cast_num k)" "\<not> dbl_isinf (cast_num k)" "dbl_zero (cast_num k) \<longleftrightarrow> k = 0" "dbl_pow (cast_num k) \<le> 0"
    "dbl_neg (cast_num k) \<longleftrightarrow> k < 0"
    using f cast_num_zero_fields
    by (cases "k = 0"; force simp: dbl_nan_def dbl_isinf_def dbl_zero_def dbl_pow_def)+
qed

lemma luai_numadd_int:
  assumes "small x" "small y" "small (x + y)"
  shows "luai_numadd (cast_num x) (cast_num y) = cast_num (x + y)"
proof -
  let ?e = "min (dbl_pow (cast_num x)) (dbl_pow (cast_num y))"
  note fx = small_finite [OF assms(1)] and fy = small_finite [OF assms(2)]
  have s: "dbl_signed (cast_num x) ?e + dbl_signed (cast_num y) ?e = (x + y) * 2 ^ nat (- ?e)"
    using cast_num_value [OF assms(1), of ?e] cast_num_value [OF assms(2), of ?e] by (simp add: distrib_right)
  show ?thesis
  proof (cases "x + y = 0")
    case True
    then show ?thesis using fx fy
      by (auto simp: luai_numadd_def Let_def s dbl_signed_zero_def cast_num_0)
  next
    case False
    have pos: "(x + y) * 2 ^ nat (- ?e) < 0 \<longleftrightarrow> x + y < 0" by (simp add: mult_less_0_iff)
    have abs: "nat \<bar>(x + y) * 2 ^ nat (- ?e)\<bar> = nat \<bar>x + y\<bar> * 2 ^ nat (- ?e)"
      by (simp add: abs_mult nat_mult_distrib nat_power_eq)
    have n: "0 < nat \<bar>x + y\<bar>" "nat \<bar>x + y\<bar> < 2 ^ 53" using False assms(3) by (auto simp: small_def)
    have e0: "nat ?e = 0" using fx(4) by simp
    have "luai_numadd (cast_num x) (cast_num y) = dbl_of_frac (x + y < 0) (nat \<bar>x + y\<bar> * 2 ^ nat (- ?e)) (2 ^ nat (- ?e))"
      using fx fy False unfolding luai_numadd_def Let_def s pos abs dbl_of_scaled_def e0 by simp
    also have "\<dots> = cast_num (if x + y < 0 then - int (nat \<bar>x + y\<bar>) else int (nat \<bar>x + y\<bar>))"
      unfolding dbl_of_frac_shift [OF n] by (rule dbl_of_frac_int [OF n])
    also have "(if x + y < 0 then - int (nat \<bar>x + y\<bar>) else int (nat \<bar>x + y\<bar>)) = x + y" by simp
    finally show ?thesis .
  qed
qed


subsection \<open>Negation\<close>

text \<open>The bits of the double of a positive integer.\<close>

definition int_bits :: "nat \<Rightarrow> nat" where
  "int_bits n = (1023 + ilog2 n) * 2 ^ 52 + (n * 2 ^ (52 - ilog2 n) - 2 ^ 52)"

lemma cast_num_bits:
  "k \<noteq> 0 \<Longrightarrow> cast_num k = of_nat ((if k < 0 then 2 ^ 63 else 0) + int_bits (nat \<bar>k\<bar>))"
  unfolding cast_num_def Let_def int_bits_def by (simp only: if_False add.assoc)

lemma int_bits_frac:
  assumes "0 < n" "n < 2 ^ 53"
  shows "2 ^ 52 \<le> n * 2 ^ (52 - ilog2 n)" "n * 2 ^ (52 - ilog2 n) < 2 * 2 ^ 52" "ilog2 n \<le> 52"
proof -
  show l: "ilog2 n \<le> 52" using ilog2_less [OF assms] by simp
  have n: "n = nat \<bar>int n\<bar>" by simp
  note f = cast_num_fields [of "int n"]
  show "2 ^ 52 \<le> n * 2 ^ (52 - ilog2 n)" using f(4) assms by simp
  have "n < 2 * 2 ^ ilog2 n" using ilog2_bounds [OF assms(1)] by simp
  then have "n * 2 ^ (52 - ilog2 n) < 2 * 2 ^ ilog2 n * 2 ^ (52 - ilog2 n)" by (intro mult_strict_right_mono) simp_all
  also have "\<dots> = 2 * 2 ^ 52" using l by (simp flip: power_add power_Suc)
  finally show "n * 2 ^ (52 - ilog2 n) < 2 * 2 ^ 52" .
qed

lemma int_bits_less: "0 < n \<Longrightarrow> n < 2 ^ 53 \<Longrightarrow> int_bits n < 2 ^ 63"
  using int_bits_frac [of n] by (simp add: int_bits_def)

lemma flip_sign:
  assumes "m < 2 ^ 63"
  shows "(of_nat m :: 64 word) XOR push_bit 63 1 = of_nat (2 ^ 63 + m)"
proof -
  have z: "push_bit 63 1 AND (of_nat m :: 64 word) = 0"
  proof (rule bit_word_eqI)
    fix n :: nat assume "n < LENGTH(64)"
    have "\<not> bit m 63" using assms by (simp add: bit_iff_odd)
    then show "bit (push_bit 63 1 AND (of_nat m :: 64 word)) n = bit 0 n"
      by (simp add: bit_and_iff bit_push_bit_iff bit_1_iff bit_of_nat_iff_bit del: push_bit_of_1) (simp add: bit_simps)
  qed
  have "of_nat (2 ^ 63 + m) = push_bit 63 1 + (of_nat m :: 64 word)" by (simp add: push_bit_eq_mult)
  also have "\<dots> = push_bit 63 1 OR of_nat m" using word_plus_and_or [of "push_bit 63 1" "of_nat m :: 64 word"] unfolding z by (simp only: add_0)
  also have "\<dots> = of_nat m XOR push_bit 63 1"
  proof (rule bit_word_eqI)
    fix n :: nat assume "n < LENGTH(64)"
    have "\<not> bit (push_bit 63 1 AND (of_nat m :: 64 word)) n" unfolding z by simp
    then show "bit (push_bit 63 1 OR (of_nat m :: 64 word)) n = bit (of_nat m XOR (push_bit 63 1 :: 64 word)) n"
      by (simp only: bit_or_iff bit_xor_iff bit_and_iff) blast
  qed
  finally show ?thesis by simp
qed

lemma luai_numunm_int:
  assumes "small k" "k \<noteq> 0" shows "luai_numunm (cast_num k) = cast_num (- k)"
proof -
  let ?m = "int_bits (nat \<bar>k\<bar>)"
  have m: "?m < 2 ^ 63" using int_bits_less assms by (simp add: small_def)
  note f = flip_sign [OF m]
  have g: "(of_nat (2 ^ 63 + ?m) :: 64 word) XOR push_bit 63 1 = of_nat ?m"
    unfolding f [symmetric] by (simp add: xor.assoc)
  show ?thesis using f g cast_num_bits [OF assms(2)] cast_num_bits [of "- k"] assms(2)
    by (cases "k < 0") (simp_all add: luai_numunm_def)
qed

lemma luai_numsub_int:
  assumes "small x" "small y" "y \<noteq> 0" "small (x - y)"
  shows "luai_numsub (cast_num x) (cast_num y) = cast_num (x - y)"
proof -
  have "small (- y)" using assms(2) by (simp add: small_def)
  from luai_numadd_int [OF assms(1) this] assms small_finite(1) [OF assms(2)] show ?thesis
    by (simp add: luai_numsub_def luai_numunm_int)
qed

subsection \<open>Comparison\<close>

lemma int_bits_mono:
  assumes "0 < m" "m < n" "n < 2 ^ 53" shows "int_bits m < int_bits n"
proof -
  note fm = int_bits_frac [of m] and fn = int_bits_frac [of n]
  have "2 ^ ilog2 m \<le> m" "n < 2 * 2 ^ ilog2 n" using ilog2_bounds [of m] ilog2_bounds [of n] assms by auto
  then have "(2::nat) ^ ilog2 m < 2 ^ Suc (ilog2 n)" using assms(2) by simp
  then have "ilog2 m < Suc (ilog2 n)" by (simp only: power_strict_increasing_iff)
  then consider "ilog2 m = ilog2 n" | "ilog2 m < ilog2 n" by linarith
  then show ?thesis
  proof cases
    case 1
    have "m * 2 ^ (52 - ilog2 n) < n * 2 ^ (52 - ilog2 n)" using assms(2) by simp
    moreover have "2 ^ 52 \<le> m * 2 ^ (52 - ilog2 n)" using fm(1) assms 1 by simp
    ultimately show ?thesis unfolding int_bits_def 1 by linarith
  next
    case 2
    have "(1023 + ilog2 m) * 2 ^ 52 + 2 ^ 52 \<le> (1023 + ilog2 n) * (2::nat) ^ 52" using 2 by simp
    then show ?thesis using fm(1,2) assms unfolding int_bits_def by simp
  qed
qed

lemma unat_cast_num:
  "small k \<Longrightarrow> k \<noteq> 0 \<Longrightarrow> unat (cast_num k) = (if k < 0 then 2 ^ 63 else 0) + int_bits (nat \<bar>k\<bar>)"
proof -
  assume k: "small k" "k \<noteq> 0"
  have "int_bits (nat \<bar>k\<bar>) < 2 ^ 63" using int_bits_less k by (simp add: small_def)
  then have "(if k < 0 then 2 ^ 63 else 0) + int_bits (nat \<bar>k\<bar>) < 2 ^ LENGTH(64)" by (cases "k < 0") simp_all
  then show ?thesis unfolding cast_num_bits [OF k(2)] by (simp only: unat_of_nat mod_less)
qed

lemma luai_numlt_int:
  assumes "small x" "small y" shows "luai_numlt (cast_num x) (cast_num y) \<longleftrightarrow> x < y"
proof -
  note fx = small_finite [OF assms(1)] and fy = small_finite [OF assms(2)]
  have z: "unat (cast_num 0) = 0" by (simp add: cast_num_def)
  have pos: "0 < int_bits n" for n by (simp add: int_bits_def)
  have nats: "0 < nat \<bar>k\<bar>" "nat \<bar>k\<bar> < 2 ^ 53" if "small k" "k \<noteq> 0" for k using that by (auto simp: small_def)
  have mono: "int_bits m < int_bits n \<longleftrightarrow> m < n" if "0 < m" "0 < n" "m < 2 ^ 53" "n < 2 ^ 53" for m n
    using int_bits_mono [of m n] int_bits_mono [of n m] that by (cases m n rule: linorder_cases) auto
  have mono': "int_bits (nat \<bar>x\<bar>) < int_bits (nat \<bar>y\<bar>) \<longleftrightarrow> \<bar>x\<bar> < \<bar>y\<bar>"
    "int_bits (nat \<bar>y\<bar>) < int_bits (nat \<bar>x\<bar>) \<longleftrightarrow> \<bar>y\<bar> < \<bar>x\<bar>" if "x \<noteq> 0" "y \<noteq> 0"
    using mono nats [OF assms(1)] nats [OF assms(2)] that by simp_all
  show ?thesis
    using fx fy unat_cast_num [OF assms(1)] unat_cast_num [OF assms(2)] z pos mono'
    unfolding luai_numlt_def by (cases "x = 0"; cases "y = 0") (auto split: if_splits)
qed

lemma luai_numle_int:
  assumes "small x" "small y" shows "luai_numle (cast_num x) (cast_num y) \<longleftrightarrow> x \<le> y"
proof -
  have "luai_numeq (cast_num x) (cast_num y) \<longleftrightarrow> x = y"
    using luai_numlt_int [OF assms] luai_numlt_int [OF assms(2,1)] small_finite [OF assms(1)] small_finite [OF assms(2)]
    unfolding luai_numlt_def luai_numeq_def by (cases x y rule: linorder_cases) auto
  then show ?thesis using luai_numlt_int [OF assms] by (auto simp: luai_numle_def)
qed

end
