(* ===== verification/LuaVMFacts.thy ===== *)
theory LuaVMFacts
  imports LuaCallFacts LuaUpvals LuaChecker LuaArith
begin

unbundle bit_operations_syntax

section \<open>Properties of the interpreter\<close>

text \<open>
  The control flow of the interpreter against that of the code checker, upvalues against the stack
  slots they share, the results of calls, protected calls, and the numeric loop.
\<close>

subsection \<open>Control flow\<close>

text \<open>What the results of an operation satisfy.\<close>

definition results :: "('a \<Rightarrow> bool) \<Rightarrow> 'a lm \<Rightarrow> bool" where
  "results P m \<longleftrightarrow> (\<forall>L x L'. m L = (Inr x, L') \<longrightarrow> P x)"

named_theorems res_intros

lemma results_mbind [res_intros]: "(\<And>x. results P (f x)) \<Longrightarrow> results P (mbind m f)"
  by (fastforce simp: results_def mbind_def split: prod.splits sum.splits)

lemma results_mseq [res_intros]: "results P n \<Longrightarrow> results P (mseq m n)"
  by (simp add: mseq_def results_mbind)

lemma results_mret [res_intros]: "P x \<Longrightarrow> results P (mret x)"
  by (simp add: results_def)

lemma results_mfail [res_intros]: "results P (mfail e)"
  by (simp add: results_def)

lemma results_if [res_intros]: "(c \<Longrightarrow> results P m) \<Longrightarrow> (\<not> c \<Longrightarrow> results P n) \<Longrightarrow> results P (if c then m else n)"
  by simp

lemma results_prod [res_intros]: "(\<And>x y. results P (f x y)) \<Longrightarrow> results P (case v of (x, y) \<Rightarrow> f x y)"
  by (cases v) simp

lemma results_precall [res_intros]: "results P m \<Longrightarrow> results P n \<Longrightarrow> results P (case r of PCRLUA \<Rightarrow> m | PCRC \<Rightarrow> n)"
  by (cases r) simp_all

lemma results_let [res_intros]: "results P (f v) \<Longrightarrow> results P (Let v f)"
  by simp

lemma results_fetch [res_intros]:
  "(0 \<le> pc \<Longrightarrow> results P (f (code_at p pc))) \<Longrightarrow> results P (mbind (fetch p pc) f)"
  by (auto simp: results_def mbind_def fetch_def elem_at_def code_at_def split: if_splits)

lemma results_elem [res_intros]:
  "(\<And>x. x = xs ! nat i \<Longrightarrow> results P (f x)) \<Longrightarrow> results P (mbind (mlift (elem_at xs i)) f)"
  by (auto simp: results_def mbind_def elem_at_def)

lemma results_bind_if: "results P (if c then mbind m f else mbind n f) \<Longrightarrow> results P (mbind (if c then m else n) f)"
  by (simp split: if_splits)

lemma results_bind_bind: "(\<And>x. results P (mbind (g x) f)) \<Longrightarrow> results P (mbind (mbind m g) f)"
  by (fastforce simp: results_def mbind_def split: prod.splits sum.splits)

text \<open>The word that an instruction reads after itself.\<close>

lemma results_cond_jump [res_intros]:
  assumes "P (Next (pc + GETARG_sBx (code_at p pc) + 1))" "P (Next (pc + 1))"
  shows "results P (cond_jump p pc c)"
  unfolding cond_jump_def by (intro res_intros assms)

definition follows :: "Proto \<Rightarrow> int \<Rightarrow> vm_next \<Rightarrow> bool" where
  "follows p pc r \<longleftrightarrow>
     (case r of Next pc' \<Rightarrow> pc' \<in> set (cf_next p pc) | EnterCall \<Rightarrow> pc + 1 \<in> set (cf_next p pc) | _ \<Rightarrow> True)"

lemma follows_simps [simp]:
  "follows p pc (Next pc') \<longleftrightarrow> pc' \<in> set (cf_next p pc)" "follows p pc EnterCall \<longleftrightarrow> pc + 1 \<in> set (cf_next p pc)"
  "follows p pc Reenter" "follows p pc (Returned r)"
  by (simp_all add: follows_def)

lemma results_setlist:
  assumes "op_at p pc = Some OP_SETLIST"
  shows "results (follows p pc) (setlist p (code_at p pc) (pc + 1))"
proof -
  have n: "cf_next p pc = [if GETARG_C (code_at p pc) = 0 then pc + 2 else pc + 1]"
    using assms by (simp add: cf_next_def Let_def)
  have tail: "results (follows p pc) (mbind (getstk ra) (\<lambda>v.
       if ttype v \<noteq> LUA_TTABLE then mret (Next q)
       else
         mbind (tbl v) (\<lambda>(a, h).
           let lst = (c - 1) * LFIELDS_PER_FLUSH + m in
           mseq (if lst > int (sizearray h) then mbind (table_op (luaH_resizearray h (nat lst))) (set_tbl a) else mret ())
           (mseq (setlist_store a ra (nat m) lst)
             (mret (Next q))))))" if "q \<in> set (cf_next p pc)" for ra q c m
    by (intro res_intros) (simp_all add: that)
  show ?thesis unfolding setlist_def
    by (rule results_mbind, rule results_mbind, rule results_bind_if, intro results_if results_bind_bind)
      (simp_all add: tail n)
qed

lemmas op_defs = compare_jump_def testset_def op_call_def op_tailcall_def op_return_def tforloop_def op_closure_def

lemma vm_instr_follows:
  assumes o: "op_at p pc = Some ops"
  shows "results (follows p pc) (vm_instr H call cl env p ups ops (code_at p pc) (pc + 1))"
proof -
  have n: "cf_next p pc = (let i = code_at p pc in
      if ops = OP_LOADBOOL then [if GETARG_C i \<noteq> 0 then pc + 2 else pc + 1]
           else if ops = OP_JMP \<or> ops = OP_FORPREP then [pc + 1 + GETARG_sBx i]
           else if ops = OP_FORLOOP then [pc + 1 + GETARG_sBx i, pc + 1]
           else if ops \<in> {OP_EQ, OP_LT, OP_LE, OP_TEST, OP_TESTSET, OP_TFORLOOP}
             then [pc + 1 + GETARG_sBx (code_at p (pc + 1)) + 1, pc + 2]
           else if ops = OP_RETURN then []
           else if ops = OP_SETLIST then [if GETARG_C i = 0 then pc + 2 else pc + 1]
           else if ops = OP_CLOSURE then [pc + 1 + uint (nups (p_p p ! nat (GETARG_Bx i)))]
           else [pc + 1])"
    using o by (simp add: cf_next_def)
  show ?thesis
    by (cases ops; simp add: vm_instr_def Let_def op_defs results_setlist o; (intro conjI impI res_intros)?; simp add: n Let_def)
qed

text \<open>
  The machine on verified code: the control stays on the positions the checker looked at.
\<close>

definition stays :: "Proto \<Rightarrow> int \<Rightarrow> vm_next \<Rightarrow> bool" where
  "stays p pc r \<longleftrightarrow>
     (case r of
        Next pc' \<Rightarrow> cf_reach p pc' \<and> instr_ok p pc'
      | EnterCall \<Rightarrow> cf_reach p (pc + 1) \<and> instr_ok p (pc + 1)
      | _ \<Rightarrow> True)"

lemma vm_step_instr:
  assumes "closures L cl = Some (LClosure env p ups)" "vm_step H call cl pc L = (Inr r, L')"
    and "op_at p pc = Some ops"
  shows "vm_instr H call cl env p ups ops (code_at p pc) (pc + 1) L = (Inr r, L')"
proof -
  have f: "fetch p pc L = (Inr (code_at p pc), L) \<or> (\<exists>e. fetch p pc L = (Inl e, L))"
    by (auto simp: fetch_def elem_at_def code_at_def)
  have c: "clos (FunctionRef cl) L = (Inr (cl, LClosure env p ups), L)" using assms(1) by (simp add: clos_def)
  have "opcode_of (GET_OPCODE (code_at p pc)) = Some ops" using assms(3) by (simp add: op_at_def)
  then show ?thesis using assms(2) f by (auto simp: vm_step_def mbind_def c)
qed

lemma instr_ok_op: "instr_ok p pc \<Longrightarrow> \<exists>ops. op_at p pc = Some ops"
  unfolding instr_ok_def refs_ok_def Let_def by (cases "op_at p pc") simp_all

text \<open>
  C35: in a prototype that the code checker accepts, and whose LOADBOOL instructions skip only with
  C = 1, an instruction at a position that is reachable from the entry either passes the control to
  a reachable position, where the code has an instruction whose operands exist, or calls a Lua function and will
  go on at such a position, or leaves the function. The interpreter never runs past the end of the code.
\<close>

theorem vm_step_stays:
  assumes "luaG_checkcode p" "loadbool_ok p" "cf_reach p pc"
    and "closures L cl = Some (LClosure env p ups)" "vm_step H call cl pc L = (Inr r, L')"
  shows "stays p pc r"
proof -
  obtain ops where o: "op_at p pc = Some ops" using instr_ok_op [OF reach_instr_ok [OF assms(1-3)]] by blast
  have "follows p pc r" using vm_instr_follows [OF o] vm_step_instr [OF assms(4,5) o] unfolding results_def by blast
  moreover have "cf_reach p q \<and> instr_ok p q" if "q \<in> set (cf_next p pc)" for q
    using cf_reach.step [OF assms(3) that] reach_instr_ok [OF assms(1,2)] by blast
  ultimately show ?thesis by (cases r) (auto simp: stays_def)
qed


text \<open>A state in which the function \<open>p\<close> runs with the registers \<open>vs\<close>, and a host without functions.\<close>

definition running :: "Proto \<Rightarrow> tvalue list \<Rightarrow> lua_State" where
  "running p vs =
     (sample_state vs 5)\<lparr>stack := FunctionRef 1 # vs @ replicate 5 Nil, closures := [1 \<mapsto> LClosure 2 p []], fresh := 3\<rparr>"

definition no_host :: host where
  "no_host = \<lparr>cfun = (\<lambda>f call. mfail UndefinedAccess), numpow = (\<lambda>x y. x)\<rparr>"

lemmas step_defs = vm_step_def mbind_def mseq_def clos_def fetch_def elem_at_def RA_def RB_def KBx_def kst_def
  reg_def getstk_def setstk_def running_def sample_state_def

lemma vm_LOADBOOL:
  "vm_instr H call cl env p ups OP_LOADBOOL i pc =
     mseq (mbind (RA i) (\<lambda>ra. setstk ra (Boolean (GETARG_B i \<noteq> 0)))) (mret (Next (if GETARG_C i \<noteq> 0 then pc + 1 else pc)))"
  by (simp add: vm_instr_def Let_def)

theorem vm_step_stays_witness:
  "\<exists>L'. vm_step no_host (\<lambda>f n. mret ()) 1 0 (running (proto_of [8404994, 2147467286, 8388638]) [Nil, Nil]) = (Inr (Next 2), L') \<and>
     stays (proto_of [8404994, 2147467286, 8388638]) 0 (Next 2)"
proof -
  let ?p = "proto_of [8404994, 2147467286, 8388638]"
  let ?L = "running ?p [Nil, Nil]"
  have i: "opcode_of (GET_OPCODE 8404994) = Some OP_LOADBOOL" "GETARG_A 8404994 = 0" "GETARG_B 8404994 = 1" "GETARG_C 8404994 = 1"
    by code_simp+
  then obtain L' where r: "vm_step no_host (\<lambda>f n. mret ()) 1 0 ?L = (Inr (Next 2), L')"
    by (simp add: step_defs vm_LOADBOOL proto_of_def numeral_2_eq_2)
  have c: "luaG_checkcode ?p" "loadbool_ok ?p" by (simp_all add: sample_checked)
  have "closures ?L 1 = Some (LClosure 2 ?p [])" by (simp add: running_def)
  from vm_step_stays [OF c cf_reach.entry this r] r show ?thesis by blast
qed


subsection \<open>The numeric loop\<close>

text \<open>
  The loop of a numeric \<^verbatim>\<open>for\<close> at the register \<open>ra\<close>: the values of its variable, with the
  state each run of the body leaves. \<open>n\<close> bounds the number of runs.
\<close>

fun for_trace :: "(lua_State \<Rightarrow> lua_State) \<Rightarrow> nat \<Rightarrow> nat \<Rightarrow> lua_State \<Rightarrow> tvalue list option" where
  "for_trace body ra 0 L = None"
| "for_trace body ra (Suc n) L =
     (case forloop ra L of
        (Inr True, L') \<Rightarrow> map_option (Cons (stack L' ! (ra + 3))) (for_trace body ra n (body L'))
      | (Inr False, L') \<Rightarrow> Some []
      | (Inl e, L') \<Rightarrow> None)"

text \<open>The control registers of a loop, which its body cannot name.\<close>

definition controls :: "nat \<Rightarrow> int \<Rightarrow> int \<Rightarrow> int \<Rightarrow> lua_State \<Rightarrow> bool" where
  "controls ra cur lim s L \<longleftrightarrow> ra + 3 < length (stack L) \<and> stack L ! ra = Number (cast_num cur) \<and>
     stack L ! (ra + 1) = Number (cast_num lim) \<and> stack L ! (ra + 2) = Number (cast_num s)"

definition leaves_controls :: "nat \<Rightarrow> (lua_State \<Rightarrow> lua_State) \<Rightarrow> bool" where
  "leaves_controls ra body \<longleftrightarrow>
     (\<forall>L. length (stack L) \<le> length (stack (body L)) \<and> (\<forall>i\<in>{ra..ra + 2}. stack (body L) ! i = stack L ! i))"

lemma controls_body: "leaves_controls ra body \<Longrightarrow> controls ra cur lim s L \<Longrightarrow> controls ra cur lim s (body L)"
  unfolding leaves_controls_def controls_def by (auto dest!: spec [of _ L])

lemma div_ge_1:
  assumes "s \<noteq> 0" shows "(1 \<le> d div s) = (if 0 < s then s \<le> d else d \<le> (s::int))"
proof -
  have "(1 \<le> d div s) = (0 < d div s)" by linarith
  moreover have "0 < s \<Longrightarrow> (0 < d div s) = (s \<le> d)" by (rule pos_imp_zdiv_pos_iff)
  moreover have "\<not> 0 < s \<Longrightarrow> (0 < d div s) = (d \<le> s)"
    using pos_imp_zdiv_pos_iff [of "- s" "- d"] assms by simp
  ultimately show ?thesis by simp
qed

lemma div_step: "s \<noteq> 0 \<Longrightarrow> (d + s) div s = d div s + (1::int)"
  using div_mult_self1 [of s d 1] by simp

lemma num_at_Number: "i < length (stack L) \<Longrightarrow> stack L ! i = Number x \<Longrightarrow> num_at i L = (Inr x, L)"
  by (simp add: num_at_def mbind_def getstk_def)

lemma tonum_slot_Number: "i < length (stack L) \<Longrightarrow> stack L ! i = Number x \<Longrightarrow> tonum_slot i L = (Inr (Some x), L)"
  by (simp add: tonum_slot_def mbind_def mseq_def getstk_def luaV_tonumber_def)

lemma forloop_int:
  assumes "controls ra cur lim s L" "small cur" "small lim" "small s" "s \<noteq> 0" "small (cur + s)"
  shows "1 \<le> (lim - cur) div s \<Longrightarrow> \<exists>L'. forloop ra L = (Inr True, L') \<and> controls ra (cur + s) lim s L' \<and>
      stack L' ! (ra + 3) = Number (cast_num (cur + s))"
    and "\<not> 1 \<le> (lim - cur) div s \<Longrightarrow> forloop ra L = (Inr False, L)"
proof -
  have r: "ra < length (stack L)" "ra + 1 < length (stack L)" "ra + 2 < length (stack L)" "ra + 3 < length (stack L)"
    using assms(1) by (simp_all add: controls_def)
  have zero: "(0 :: lua_Number) = cast_num 0" by (simp add: cast_num_def)
  have c: "(if luai_numlt 0 (cast_num s) then luai_numle (cast_num (cur + s)) (cast_num lim)
      else luai_numle (cast_num lim) (cast_num (cur + s))) \<longleftrightarrow> 1 \<le> (lim - cur) div s"
    unfolding zero div_ge_1 [OF assms(5)] using luai_numlt_int [of 0 s] luai_numle_int assms by (auto simp: small_def)
  have f: "forloop ra L = (if 1 \<le> (lim - cur) div s
      then (Inr True, L\<lparr>stack := (stack L)[ra := Number (cast_num (cur + s)), ra + 3 := Number (cast_num (cur + s))]\<rparr>)
      else (Inr False, L))"
    using assms(1) r luai_numadd_int [OF assms(2,4,6)] unfolding c [symmetric]
    by (simp add: forloop_def mbind_def num_at_Number setstk_def mseq_def controls_def Let_def)
  show "1 \<le> (lim - cur) div s \<Longrightarrow> \<exists>L'. forloop ra L = (Inr True, L') \<and> controls ra (cur + s) lim s L' \<and>
      stack L' ! (ra + 3) = Number (cast_num (cur + s))"
    using f assms(1) r by (simp add: controls_def)
  show "\<not> 1 \<le> (lim - cur) div s \<Longrightarrow> forloop ra L = (Inr False, L)" using f by simp
qed

definition medium :: "int \<Rightarrow> bool" where "medium k \<longleftrightarrow> \<bar>k\<bar> < 2 ^ 52"

lemma for_trace_int:
  assumes "leaves_controls ra body" "medium lim" "medium s" "s \<noteq> 0"
  shows "controls ra cur lim s L \<Longrightarrow> small cur \<Longrightarrow> small (cur + s) \<Longrightarrow> nat ((lim - cur) div s) < n \<Longrightarrow>
    for_trace body ra n L = Some (map (\<lambda>i. Number (cast_num (cur + (int i + 1) * s))) [0..<nat ((lim - cur) div s)])"
proof (induction n arbitrary: cur L)
  case (Suc n)
  have ss: "small lim" "small s" using assms(2,3) by (auto simp: small_def medium_def)
  note f = forloop_int [OF Suc.prems(1,2) ss assms(4) Suc.prems(3)]
  show ?case
  proof (cases "1 \<le> (lim - cur) div s")
    case True
    then obtain L' where L': "forloop ra L = (Inr True, L')" "controls ra (cur + s) lim s L'"
      "stack L' ! (ra + 3) = Number (cast_num (cur + s))" using f(1) by blast
    have "(if 0 < s then cur + s \<le> lim else lim \<le> cur + s)" using True div_ge_1 [OF assms(4)] by (simp split: if_splits)
    then have sm: "small (cur + s + s)" using Suc.prems(3) assms(2,3)
      by (auto simp: small_def medium_def split: if_splits)
    have d: "nat ((lim - cur) div s) = Suc (nat ((lim - (cur + s)) div s))"
    proof -
      have "(lim - cur) div s = (lim - (cur + s)) div s + 1"
        using div_step [OF assms(4), of "lim - (cur + s)"] by simp
      then show ?thesis using True by simp
    qed
    have "for_trace body ra n (body L') =
        Some (map (\<lambda>i. Number (cast_num (cur + s + (int i + 1) * s))) [0..<nat ((lim - (cur + s)) div s)])"
      using Suc.IH [OF controls_body [OF assms(1) L'(2)] Suc.prems(3) sm] Suc.prems(4) d by simp
    then show ?thesis using L' unfolding d
      by (simp add: upt_conv_Cons map_Suc_upt [symmetric] algebra_simps del: upt_Suc)
  next
    case False
    then show ?thesis using f(2) by simp
  qed
qed simp

text \<open>
  C36: a numeric loop ends and runs the right number of times. For integers of up to 52 bits and a step
  that is not 0, the variable takes the values from the initial one in steps up to the limit (down to it
  for a negative step), whatever the body does, and then the loop ends; it does not run at all when the
  initial value is beyond the limit. The doubles never round on the way.
\<close>

theorem numeric_for_runs:
  assumes "leaves_controls ra body" "medium init" "medium lim" "medium s" "s \<noteq> 0"
    and "controls ra init lim s L" and "n > nat ((lim - init) div s + 1)"
  shows "\<exists>L'. forprep ra L = (Inr (), L') \<and>
     for_trace body ra n L' = Some (map (\<lambda>i. Number (cast_num (init + int i * s))) [0..<nat ((lim - init) div s + 1)])"
proof -
  have ss: "small init" "small s" "small (init - s)" using assms by (auto simp: small_def medium_def)
  let ?L = "L\<lparr>stack := (stack L)[ra := Number (cast_num (init - s))]\<rparr>"
  have f: "forprep ra L = (Inr (), ?L)"
    using assms(6) luai_numsub_int [OF ss(1,2) assms(5) ss(3)]
    by (simp add: forprep_def mbind_def tonum_slot_Number setstk_def controls_def)
  have d: "(lim - (init - s)) div s = (lim - init) div s + 1"
    using div_step [OF assms(5), of "lim - init"] by (simp add: algebra_simps)
  have "controls ra (init - s) lim s ?L" using assms(6) by (auto simp: controls_def)
  from for_trace_int [OF assms(1,3,4,5) this ss(3), of n] ss(1) assms(7)
  have "for_trace body ra n ?L = Some (map (\<lambda>i. Number (cast_num (init - s + (int i + 1) * s))) [0..<nat ((lim - init) div s + 1)])"
    unfolding d by simp
  then show ?thesis using f by (auto simp: algebra_simps)
qed

theorem numeric_for_runs_witness:
  "\<exists>L'. forprep 1 (sample_state (map (\<lambda>k. Number (cast_num k)) [10, 1, -4, 0]) 3) = (Inr (), L') \<and>
     for_trace id 1 9 L' = Some [Number (cast_num 10), Number (cast_num 6), Number (cast_num 2)]"
proof -
  let ?L = "sample_state (map (\<lambda>k. Number (cast_num k)) [10, 1, -4, 0]) 3"
  have l: "leaves_controls 1 id" by (simp add: leaves_controls_def)
  have "controls 1 10 1 (- 4) ?L" by (simp add: controls_def sample_state_def)
  from numeric_for_runs [OF l _ _ _ _ this, of 9] show ?thesis by (simp add: medium_def upt_rec)
qed

end
