(* ===== verification/LuaAux.thy ===== *)
theory LuaAux
  imports LuaDo
begin

section \<open>The auxiliary library\<close>

text \<open>
  \<^verbatim>\<open>lauxlib.c\<close>: checks of arguments and their errors, named metatables, the registration of
  libraries, buffers for strings, references, and the loading of files. All of it rests on the API alone;
  \<open>call\<close> is \<^verbatim>\<open>luaD_call\<close>, which the API functions with metamethods take.
\<close>

definition abs_index :: "int \<Rightarrow> int lm" where
  "abs_index i = (if i > 0 \<or> i \<le> LUA_REGISTRYINDEX then mret i else mbind lua_gettop (\<lambda>n. mret (n + i + 1)))"

definition lua_pop :: "int \<Rightarrow> unit lm" where "lua_pop n = lua_settop (- n - 1)"

definition lua_isnil :: "int \<Rightarrow> bool lm" where
  "lua_isnil n = mbind (lua_type n) (\<lambda>t. mret (t = int (tag_num LUA_TNIL)))"
definition lua_istable :: "int \<Rightarrow> bool lm" where
  "lua_istable n = mbind (lua_type n) (\<lambda>t. mret (t = int (tag_num LUA_TTABLE)))"
definition lua_isfunction :: "int \<Rightarrow> bool lm" where
  "lua_isfunction n = mbind (lua_type n) (\<lambda>t. mret (t = int (tag_num LUA_TFUNCTION)))"
definition lua_isnone :: "int \<Rightarrow> bool lm" where
  "lua_isnone n = mbind (lua_type n) (\<lambda>t. mret (t = LUA_TNONE))"
definition lua_isnoneornil :: "int \<Rightarrow> bool lm" where
  "lua_isnoneornil n = mbind (lua_type n) (\<lambda>t. mret (t \<le> 0))"
definition luaL_typename :: "int \<Rightarrow> string lm" where
  "luaL_typename i = mbind (lua_type i) (\<lambda>t. mret (lua_typename t))"
definition lua_newtable :: "unit lm" where "lua_newtable = lua_createtable 0 0"
definition lua_tostring :: "int \<Rightarrow> string option lm" where
  "lua_tostring i = mbind (lua_tolstring i) (\<lambda>s. mret (map_option cstr s))"

definition lua_setglobal :: "callfun \<Rightarrow> string \<Rightarrow> unit lm" where "lua_setglobal call s = lua_setfield call LUA_GLOBALSINDEX s"
definition lua_getglobal :: "callfun \<Rightarrow> string \<Rightarrow> unit lm" where "lua_getglobal call s = lua_getfield call LUA_GLOBALSINDEX s"
definition lua_pushcfunction :: "nat \<Rightarrow> unit lm" where "lua_pushcfunction f = lua_pushcclosure f 0"
definition lua_upvalueindex :: "int \<Rightarrow> int" where "lua_upvalueindex i = LUA_GLOBALSINDEX - i"

text \<open>\<^verbatim>\<open>LUA_QS\<close>: a string between quotes.\<close>

definition LUA_QS :: string where "LUA_QS = CHR 0x27 # ''%s'' @ [CHR 0x27]"

subsection \<open>Errors\<close>

definition no_debug :: lua_Debug where
  "no_debug = \<lparr>nm = None, namewhat = None, what = [], source = [], d_currentline = -1, d_nups = 0, d_linedefined = -1,
     d_lastlinedefined = -1, short_src = [], i_ci = 0\<rparr>"

definition luaL_where :: "int \<Rightarrow> unit lm" where
  "luaL_where level =
     mbind (lua_getstack level) (\<lambda>r.
     mbind (case r of
              None \<Rightarrow> mret None
            | Some i \<Rightarrow> mbind (lua_getinfo ''Sl'' (no_debug\<lparr>i_ci := i\<rparr>)) (\<lambda>(_, ar).
                mret (if d_currentline ar > 0 then Some ar else None))) (\<lambda>r.
       case r of
         Some ar \<Rightarrow> lua_pushfstring ''%s:%d: '' [FS (Some (short_src ar)), FD (d_currentline ar)]
       | None \<Rightarrow> lua_pushlstring []))"

definition luaL_error :: "callfun \<Rightarrow> string \<Rightarrow> fmt_arg list \<Rightarrow> 'a lm" where
  "luaL_error call fmt args =
     mseq (luaL_where 1) (mseq (lua_pushfstring fmt args) (mseq (lua_concat call 2) lua_error))"

definition luaL_argerror :: "callfun \<Rightarrow> int \<Rightarrow> string \<Rightarrow> 'a lm" where
  "luaL_argerror call narg extramsg =
     mbind (lua_getstack 0) (\<lambda>r.
       case r of
         None \<Rightarrow> luaL_error call ''bad argument #%d (%s)'' [FD narg, FS (Some extramsg)]
       | Some i \<Rightarrow>
           mbind (lua_getinfo ''n'' (no_debug\<lparr>i_ci := i\<rparr>)) (\<lambda>(_, ar).
             let narg' = (if namewhat ar = Some ''method'' then narg - 1 else narg) in
             if namewhat ar = Some ''method'' \<and> narg' = 0 then
               luaL_error call (''calling '' @ LUA_QS @ '' on bad self (%s)'') [FS (nm ar), FS (Some extramsg)]
             else
               luaL_error call (''bad argument #%d to '' @ LUA_QS @ '' (%s)'')
                 [FD narg', FS (Some (case nm ar of Some s \<Rightarrow> s | None \<Rightarrow> ''?'')), FS (Some extramsg)]))"

definition luaL_typerror :: "callfun \<Rightarrow> int \<Rightarrow> string \<Rightarrow> 'a lm" where
  "luaL_typerror call narg tname =
     mbind (luaL_typename narg) (\<lambda>t.
     mseq (lua_pushfstring ''%s expected, got %s'' [FS (Some tname), FS (Some t)])
     (mbind (lua_tostring (- 1)) (\<lambda>msg.
       case msg of Some m \<Rightarrow> luaL_argerror call narg m | None \<Rightarrow> mfail UndefinedAccess)))"

definition tag_error :: "callfun \<Rightarrow> int \<Rightarrow> ttag \<Rightarrow> 'a lm" where
  "tag_error call narg tag = luaL_typerror call narg (lua_typename (int (tag_num tag)))"

subsection \<open>Checks of arguments\<close>

definition luaL_checklstring :: "callfun \<Rightarrow> int \<Rightarrow> string lm" where
  "luaL_checklstring call narg =
     mbind (lua_tolstring narg) (\<lambda>s. case s of Some s \<Rightarrow> mret s | None \<Rightarrow> tag_error call narg LUA_TSTRING)"

definition luaL_checkstring :: "callfun \<Rightarrow> int \<Rightarrow> string lm" where
  "luaL_checkstring call n = mbind (luaL_checklstring call n) (\<lambda>s. mret (cstr s))"

definition luaL_optlstring :: "callfun \<Rightarrow> int \<Rightarrow> string option \<Rightarrow> string option lm" where
  "luaL_optlstring call narg d =
     mbind (lua_isnoneornil narg) (\<lambda>none.
       if none then mret (map_option cstr d) else mbind (luaL_checklstring call narg) (\<lambda>s. mret (Some s)))"

text \<open>The result is the index of the option; the list ends the array.\<close>

definition luaL_checkoption :: "callfun \<Rightarrow> int \<Rightarrow> string option \<Rightarrow> string list \<Rightarrow> int lm" where
  "luaL_checkoption call narg d lst =
     mbind (case d of
              Some _ \<Rightarrow> mbind (luaL_optlstring call narg d) (\<lambda>s. mret (case s of Some s \<Rightarrow> cstr s | None \<Rightarrow> []))
            | None \<Rightarrow> luaL_checkstring call narg) (\<lambda>name.
       case find (\<lambda>i. lst ! i = name) [0..<length lst] of
         Some i \<Rightarrow> mret (int i)
       | None \<Rightarrow>
           mseq (lua_pushfstring (''invalid option '' @ LUA_QS) [FS (Some name)])
           (mbind (lua_tostring (- 1)) (\<lambda>msg.
             case msg of Some m \<Rightarrow> luaL_argerror call narg m | None \<Rightarrow> mfail UndefinedAccess)))"

definition luaL_checkstack :: "callfun \<Rightarrow> int \<Rightarrow> string \<Rightarrow> unit lm" where
  "luaL_checkstack call space mes =
     mbind (lua_checkstack space) (\<lambda>ok. if ok then mret () else luaL_error call ''stack overflow (%s)'' [FS (Some mes)])"

definition luaL_checktype :: "callfun \<Rightarrow> int \<Rightarrow> ttag \<Rightarrow> unit lm" where
  "luaL_checktype call narg t =
     mbind (lua_type narg) (\<lambda>ty. if ty \<noteq> int (tag_num t) then tag_error call narg t else mret ())"

definition luaL_checkany :: "callfun \<Rightarrow> int \<Rightarrow> unit lm" where
  "luaL_checkany call narg =
     mbind (lua_type narg) (\<lambda>t. if t = LUA_TNONE then luaL_argerror call narg ''value expected'' else mret ())"

definition luaL_checknumber :: "callfun \<Rightarrow> int \<Rightarrow> lua_Number lm" where
  "luaL_checknumber call narg =
     mbind (lua_tonumber narg) (\<lambda>d.
       if \<not> luai_numeq d 0 then mret d
       else mbind (lua_isnumber narg) (\<lambda>isn. if \<not> isn then tag_error call narg LUA_TNUMBER else mret d))"

definition luaL_checkinteger :: "callfun \<Rightarrow> int \<Rightarrow> int lm" where
  "luaL_checkinteger call narg =
     mbind (lua_tointeger narg) (\<lambda>d.
       if d \<noteq> 0 then mret d
       else mbind (lua_isnumber narg) (\<lambda>isn. if \<not> isn then tag_error call narg LUA_TNUMBER else mret d))"

text \<open>The macro \<^verbatim>\<open>luaL_opt\<close>.\<close>

definition luaL_opt :: "(int \<Rightarrow> 'a lm) \<Rightarrow> int \<Rightarrow> 'a \<Rightarrow> 'a lm" where
  "luaL_opt f n d = mbind (lua_isnoneornil n) (\<lambda>none. if none then mret d else f n)"

definition luaL_optnumber :: "callfun \<Rightarrow> int \<Rightarrow> lua_Number \<Rightarrow> lua_Number lm" where
  "luaL_optnumber call narg d = luaL_opt (luaL_checknumber call) narg d"
definition luaL_optinteger :: "callfun \<Rightarrow> int \<Rightarrow> int \<Rightarrow> int lm" where
  "luaL_optinteger call narg d = luaL_opt (luaL_checkinteger call) narg d"

text \<open>\<^verbatim>\<open>luaL_checkint\<close>: the cast to \<^verbatim>\<open>int\<close> keeps the low 32 bits.\<close>

definition cast_int :: "int \<Rightarrow> int" where
  "cast_int n = sint (word_of_int n :: 32 word)"

definition luaL_checkint :: "callfun \<Rightarrow> int \<Rightarrow> int lm" where
  "luaL_checkint call n = mbind (luaL_checkinteger call n) (\<lambda>d. mret (cast_int d))"
definition luaL_optint :: "callfun \<Rightarrow> int \<Rightarrow> int \<Rightarrow> int lm" where
  "luaL_optint call n d = mbind (luaL_optinteger call n d) (\<lambda>d. mret (cast_int d))"
definition luaL_argcheck :: "callfun \<Rightarrow> bool \<Rightarrow> int \<Rightarrow> string \<Rightarrow> unit lm" where
  "luaL_argcheck call cond numarg extramsg = (if cond then mret () else luaL_argerror call numarg extramsg)"

subsection \<open>Metatables\<close>

definition luaL_newmetatable :: "callfun \<Rightarrow> string \<Rightarrow> bool lm" where
  "luaL_newmetatable call tname =
     mseq (lua_getfield call LUA_REGISTRYINDEX tname)
     (mbind (lua_isnil (- 1)) (\<lambda>isnil.
       if \<not> isnil then mret False
       else
         mseq (lua_pop 1)
         (mseq lua_newtable
         (mseq (lua_pushvalue (- 1))
         (mseq (lua_setfield call LUA_REGISTRYINDEX tname)
           (mret True))))))"

definition luaL_checkudata :: "callfun \<Rightarrow> int \<Rightarrow> string \<Rightarrow> addr lm" where
  "luaL_checkudata call ud tname =
     mbind (lua_touserdata ud) (\<lambda>p.
       case p of
         None \<Rightarrow> luaL_typerror call ud tname
       | Some p \<Rightarrow>
           mbind (lua_getmetatable ud) (\<lambda>has.
             if \<not> has then luaL_typerror call ud tname
             else
               mseq (lua_getfield call LUA_REGISTRYINDEX tname)
               (mbind (lua_rawequal (- 1) (- 2)) (\<lambda>same.
                 if same then mseq (lua_pop 2) (mret p) else luaL_typerror call ud tname))))"

definition luaL_getmetafield :: "int \<Rightarrow> string \<Rightarrow> bool lm" where
  "luaL_getmetafield obj event =
     mbind (lua_getmetatable obj) (\<lambda>has.
       if \<not> has then mret False
       else
         mseq (lua_pushstring (Some event))
         (mseq (lua_rawget (- 2))
         (mbind (lua_isnil (- 1)) (\<lambda>isnil.
           if isnil then mseq (lua_pop 2) (mret False)
           else mseq (lua_remove (- 2)) (mret True)))))"

definition luaL_callmeta :: "callfun \<Rightarrow> int \<Rightarrow> string \<Rightarrow> bool lm" where
  "luaL_callmeta call obj event =
     mbind (abs_index obj) (\<lambda>obj.
     mbind (luaL_getmetafield obj event) (\<lambda>has.
       if \<not> has then mret False
       else mseq (lua_pushvalue obj) (mseq (lua_call call 1 1) (mret True))))"

subsection \<open>Registration of libraries\<close>

text \<open>
  One name of the path: up to the next dot, or the end; the rest after the dot. The result is the part of
  the name that is in the way of a table, if any.
\<close>

definition before_dot :: "string \<Rightarrow> string \<times> string option" where
  "before_dot s = (let e = takeWhile (\<lambda>c. c \<noteq> CHR ''.'') s in
     (e, if length e < length s then Some (drop (length e + 1) s) else None))"

function findtable_loop :: "callfun \<Rightarrow> string \<Rightarrow> nat \<Rightarrow> string option lm" where
  "findtable_loop call fname szhint =
     (let (e, rest) = before_dot fname in
      mseq (lua_pushlstring e)
      (mseq (lua_rawget (- 2))
      (mbind (lua_isnil (- 1)) (\<lambda>isnil.
       mbind (if isnil then
                mseq (lua_pop 1)
                (mseq (lua_createtable 0 (if rest \<noteq> None then 1 else szhint))
                (mseq (lua_pushlstring e)
                (mseq (lua_pushvalue (- 2))
                (mseq (lua_settable call (- 4))
                  (mret False)))))
              else mbind (lua_istable (- 1)) (\<lambda>ist.
                if \<not> ist then mseq (lua_pop 2) (mret True) else mret False)) (\<lambda>stop.
         if stop then mret (Some fname)
         else
           mseq (lua_remove (- 2))
             (case rest of None \<Rightarrow> mret None | Some fname' \<Rightarrow> findtable_loop call fname' szhint))))))"
  by pat_completeness auto
termination
  by (relation "measure (\<lambda>(_, s, _). length s)") (auto simp: before_dot_def Let_def split: if_splits)

declare findtable_loop.simps [simp del]

definition luaL_findtable :: "callfun \<Rightarrow> int \<Rightarrow> string \<Rightarrow> nat \<Rightarrow> string option lm" where
  "luaL_findtable call idx fname szhint = mseq (lua_pushvalue idx) (findtable_loop call (cstr fname) szhint)"

type_synonym luaL_Reg = "string \<times> nat"

definition libsize :: "luaL_Reg list \<Rightarrow> nat" where "libsize l = length l"

primrec times_m :: "nat \<Rightarrow> unit lm \<Rightarrow> unit lm" where
  "times_m 0 m = mret ()"
| "times_m (Suc n) m = mseq m (times_m n m)"

primrec register_all :: "callfun \<Rightarrow> nat \<Rightarrow> luaL_Reg list \<Rightarrow> unit lm" where
  "register_all call nup [] = mret ()"
| "register_all call nup (r # rs) =
     mseq (times_m nup (lua_pushvalue (- int nup)))
     (mseq (lua_pushcclosure (snd r) nup)
     (mseq (lua_setfield call (- (int nup + 2)) (fst r))
       (register_all call nup rs)))"

definition luaI_openlib :: "callfun \<Rightarrow> string option \<Rightarrow> luaL_Reg list \<Rightarrow> nat \<Rightarrow> unit lm" where
  "luaI_openlib call libname l nup =
     mseq
       (case libname of
          None \<Rightarrow> mret ()
        | Some libname \<Rightarrow>
            mseq (mbind (luaL_findtable call LUA_REGISTRYINDEX ''_LOADED'' 1) (\<lambda>_. mret ()))
            (mseq (lua_getfield call (- 1) libname)
            (mseq (mbind (lua_istable (- 1)) (\<lambda>ist.
                if ist then mret ()
                else
                  mseq (lua_pop 1)
                  (mseq (mbind (luaL_findtable call LUA_GLOBALSINDEX libname (libsize l)) (\<lambda>r.
                     if r \<noteq> None then luaL_error call (''name conflict for module '' @ LUA_QS) [FS (Some libname)] else mret ()))
                  (mseq (lua_pushvalue (- 1))
                    (lua_setfield call (- 3) libname)))))
            (mseq (lua_remove (- 2))
              (lua_insert (- (int nup + 1)))))))
     (mseq (register_all call nup l)
       (lua_pop (int nup)))"

definition luaL_register :: "callfun \<Rightarrow> string option \<Rightarrow> luaL_Reg list \<Rightarrow> unit lm" where
  "luaL_register call libname l = luaI_openlib call libname l 0"


subsection \<open>Buffers for strings\<close>

text \<open>
  \<^verbatim>\<open>luaL_Buffer\<close>: the characters in its array, and the number of pieces that are on the stack.
\<close>

record luaL_Buffer =
  bchars :: string
  lvl :: nat

definition LIMIT :: nat where "LIMIT = LUA_MINSTACK div 2"

definition luaL_buffinit :: luaL_Buffer where "luaL_buffinit = \<lparr>bchars = [], lvl = 0\<rparr>"

definition emptybuffer :: "luaL_Buffer \<Rightarrow> (bool \<times> luaL_Buffer) lm" where
  "emptybuffer B =
     (if bchars B = [] then mret (False, B)
      else mseq (lua_pushlstring (bchars B)) (mret (True, B\<lparr>bchars := [], lvl := lvl B + 1\<rparr>)))"

text \<open>How many of the pieces to join: \<^verbatim>\<open>do ... while\<close> from \<open>toget\<close> on.\<close>

function adjust_count :: "nat \<Rightarrow> nat \<Rightarrow> nat \<Rightarrow> nat lm" where
  "adjust_count level toget toplen =
     mbind (lua_objlen (- (int toget + 1))) (\<lambda>l.
       if level + 1 - toget \<ge> LIMIT \<or> toplen > l then
         if toget + 1 < level then adjust_count level (toget + 1) (toplen + l) else mret (toget + 1)
       else mret toget)"
  by pat_completeness auto
termination by (relation "measure (\<lambda>(level, toget, _). level - toget)") auto

declare adjust_count.simps [simp del]

definition adjuststack :: "callfun \<Rightarrow> luaL_Buffer \<Rightarrow> luaL_Buffer lm" where
  "adjuststack call B =
     (if lvl B > 1 then
        mbind (lua_objlen (- 1)) (\<lambda>toplen.
        mbind (adjust_count (lvl B) 1 toplen) (\<lambda>toget.
        mseq (lua_concat call (int toget))
          (mret (B\<lparr>lvl := lvl B - toget + 1\<rparr>))))
      else mret B)"

definition luaL_prepbuffer :: "callfun \<Rightarrow> luaL_Buffer \<Rightarrow> luaL_Buffer lm" where
  "luaL_prepbuffer call B = mbind (emptybuffer B) (\<lambda>(emptied, B). if emptied then adjuststack call B else mret B)"

definition luaL_addchar :: "callfun \<Rightarrow> luaL_Buffer \<Rightarrow> char \<Rightarrow> luaL_Buffer lm" where
  "luaL_addchar call B c =
     mbind (if length (bchars B) < LUAL_BUFFERSIZE then mret B else luaL_prepbuffer call B) (\<lambda>B.
       mret (B\<lparr>bchars := bchars B @ [c]\<rparr>))"

primrec luaL_addlstring :: "callfun \<Rightarrow> luaL_Buffer \<Rightarrow> string \<Rightarrow> luaL_Buffer lm" where
  "luaL_addlstring call B [] = mret B"
| "luaL_addlstring call B (c # cs) = mbind (luaL_addchar call B c) (\<lambda>B. luaL_addlstring call B cs)"

definition luaL_addstring :: "callfun \<Rightarrow> luaL_Buffer \<Rightarrow> string \<Rightarrow> luaL_Buffer lm" where
  "luaL_addstring call B s = luaL_addlstring call B (cstr s)"

definition luaL_pushresult :: "callfun \<Rightarrow> luaL_Buffer \<Rightarrow> luaL_Buffer lm" where
  "luaL_pushresult call B =
     mbind (emptybuffer B) (\<lambda>(_, B). mseq (lua_concat call (int (lvl B))) (mret (B\<lparr>lvl := 1\<rparr>)))"

definition luaL_addvalue :: "callfun \<Rightarrow> luaL_Buffer \<Rightarrow> luaL_Buffer lm" where
  "luaL_addvalue call B =
     mbind (lua_tolstring (- 1)) (\<lambda>s.
       case s of
         None \<Rightarrow> mfail UndefinedAccess
       | Some s \<Rightarrow>
           if length s \<le> LUAL_BUFFERSIZE - length (bchars B) then
             mseq (lua_pop 1) (mret (B\<lparr>bchars := bchars B @ s\<rparr>))
           else
             mbind (emptybuffer B) (\<lambda>(emptied, B).
             mseq (if emptied then lua_insert (- 2) else mret ())
               (adjuststack call (B\<lparr>lvl := lvl B + 1\<rparr>))))"

text \<open>\<^verbatim>\<open>strstr\<close>: what precedes the first occurrence, and what follows it.\<close>

fun strstr :: "string \<Rightarrow> string \<Rightarrow> (string \<times> string) option" where
  "strstr [] p = (if p = [] then Some ([], []) else None)"
| "strstr (c # s) p =
     (if take (length p) (c # s) = p then Some ([], drop (length p) (c # s))
      else case strstr s p of None \<Rightarrow> None | Some (h, t) \<Rightarrow> Some (c # h, t))"

text \<open>\<open>fuel\<close> bounds the number of replacements; an empty pattern is found for ever.\<close>

fun gsub_loop :: "callfun \<Rightarrow> nat \<Rightarrow> string \<Rightarrow> string \<Rightarrow> string \<Rightarrow> luaL_Buffer \<Rightarrow> luaL_Buffer lm" where
  "gsub_loop call 0 s p r B = mfail OutOfFuel"
| "gsub_loop call (Suc fuel) s p r B =
     (case strstr s p of
        None \<Rightarrow> luaL_addstring call B s
      | Some (pre, rest) \<Rightarrow>
          mbind (luaL_addlstring call B pre) (\<lambda>B.
          mbind (luaL_addstring call B r) (\<lambda>B. gsub_loop call fuel rest p r B)))"

definition luaL_gsub :: "callfun \<Rightarrow> string \<Rightarrow> string \<Rightarrow> string \<Rightarrow> string option lm" where
  "luaL_gsub call s p r =
     mbind (gsub_loop call (length s + 1) (cstr s) (cstr p) (cstr r) luaL_buffinit) (\<lambda>B.
     mbind (luaL_pushresult call B) (\<lambda>_. lua_tostring (- 1)))"

subsection \<open>References\<close>

definition LUA_REFNIL :: int where "LUA_REFNIL = -1"
definition FREELIST_REF :: int where "FREELIST_REF = 0"

definition luaL_ref :: "int \<Rightarrow> int lm" where
  "luaL_ref t =
     mbind (abs_index t) (\<lambda>t.
     mbind (lua_isnil (- 1)) (\<lambda>isnil.
       if isnil then mseq (lua_pop 1) (mret LUA_REFNIL)
       else
         mseq (lua_rawgeti t FREELIST_REF)
         (mbind (lua_tointeger (- 1)) (\<lambda>n.
          let ref = cast_int n in
          mseq (lua_pop 1)
          (mbind (if ref \<noteq> 0 then
                    mseq (lua_rawgeti t ref) (mseq (lua_rawseti t FREELIST_REF) (mret ref))
                  else mbind (lua_objlen t) (\<lambda>n. mret (cast_int (int n) + 1))) (\<lambda>ref.
           mseq (lua_rawseti t ref) (mret ref)))))))"

definition luaL_unref :: "int \<Rightarrow> int \<Rightarrow> unit lm" where
  "luaL_unref t ref =
     (if ref \<ge> 0 then
        mbind (abs_index t) (\<lambda>t.
        mseq (lua_rawgeti t FREELIST_REF)
        (mseq (lua_rawseti t ref)
        (mseq (lua_pushinteger ref)
          (lua_rawseti t FREELIST_REF))))
      else mret ())"

subsection \<open>Loading\<close>

definition luaL_loadbuffer :: "callfun \<Rightarrow> LoadS parser \<Rightarrow> string \<Rightarrow> string option \<Rightarrow> int lm" where
  "luaL_loadbuffer call parser buff name = lua_load call parser getS (loads_of buff) name"

definition luaL_loadstring :: "callfun \<Rightarrow> LoadS parser \<Rightarrow> string \<Rightarrow> int lm" where
  "luaL_loadstring call parser s = luaL_loadbuffer call parser (cstr s) (Some s)"

definition LUA_ERRFILE :: int where "LUA_ERRFILE = LUA_ERRERR + 1"

text \<open>
  What the C library answers about files: the result of \<^verbatim>\<open>fopen\<close> and of \<^verbatim>\<open>freopen\<close>,
  whether reading failed, and the text of the error. Standard input is the file without a name.
\<close>

record files =
  f_open :: "string \<Rightarrow> FILE option"
  f_reopen :: "string \<Rightarrow> FILE option"
  f_stdin :: FILE
  f_ferror :: "string option \<Rightarrow> bool"
  f_strerror :: string

definition getc :: "FILE \<Rightarrow> char option \<times> FILE" where
  "getc f = (case fdata f of [] \<Rightarrow> (None, f\<lparr>feof := True\<rparr>) | c # s \<Rightarrow> (Some c, f\<lparr>fdata := s\<rparr>))"

definition ungetc :: "char option \<Rightarrow> FILE \<Rightarrow> FILE" where
  "ungetc c f = (case c of None \<Rightarrow> f | Some c \<Rightarrow> f\<lparr>fdata := c # fdata f, feof := False\<rparr>)"

text \<open>Characters up to and including the first that \<open>c\<close> is, which is the result.\<close>

definition skip_to :: "char \<Rightarrow> FILE \<Rightarrow> char option \<times> FILE" where
  "skip_to c f =
     (case dropWhile (\<lambda>d. d \<noteq> c) (fdata f) of
        [] \<Rightarrow> (None, f\<lparr>fdata := [], feof := True\<rparr>)
      | d # s \<Rightarrow> (Some d, f\<lparr>fdata := s\<rparr>))"

definition errfile :: "files \<Rightarrow> string \<Rightarrow> int \<Rightarrow> int lm" where
  "errfile fs w fnameindex =
     mbind (lua_tostring fnameindex) (\<lambda>s.
       case s of
         None \<Rightarrow> mfail UndefinedAccess
       | Some s \<Rightarrow>
           mseq (lua_pushfstring ''cannot %s %s: %s'' [FS (Some w), FS (Some (drop 1 s)), FS (Some (f_strerror fs))])
           (mseq (lua_remove fnameindex) (mret LUA_ERRFILE)))"

text \<open>The first line is skipped when it starts with a number sign.\<close>

definition skip_comment :: "FILE \<Rightarrow> bool \<times> char option \<times> FILE" where
  "skip_comment f =
     (case getc f of (c, f) \<Rightarrow>
        if c = Some (CHR ''#'') then
          (case skip_to (CHR 0x0A) f of (c, f) \<Rightarrow>
             if c = Some (CHR 0x0A) then (case getc f of (c, f) \<Rightarrow> (True, c, f)) else (True, c, f))
        else (False, c, f))"

definition luaL_loadfile :: "files \<Rightarrow> callfun \<Rightarrow> LoadF parser \<Rightarrow> string option \<Rightarrow> int lm" where
  "luaL_loadfile fs call parser filename =
     mbind lua_gettop (\<lambda>n.
     let fnameindex = n + 1 in
     mseq (case filename of
             None \<Rightarrow> lua_pushlstring ''=stdin''
           | Some name \<Rightarrow> lua_pushfstring ''@%s'' [FS (Some name)])
       (case (case filename of None \<Rightarrow> Some (f_stdin fs) | Some name \<Rightarrow> f_open fs name) of
          None \<Rightarrow> errfile fs ''open'' fnameindex
        | Some f \<Rightarrow>
            (case skip_comment f of (extra, c, f) \<Rightarrow>
             let binary = c = Some (LUA_SIGNATURE ! 0) \<and> filename \<noteq> None in
             case (if binary then
                     (case f_reopen fs (the filename) of
                        None \<Rightarrow> None
                      | Some f \<Rightarrow> (case skip_to (LUA_SIGNATURE ! 0) f of (c, f) \<Rightarrow> Some (False, c, f)))
                   else Some (extra, c, f)) of
               None \<Rightarrow> errfile fs ''reopen'' fnameindex
             | Some (extra, c, f) \<Rightarrow>
                 mbind (lua_tostring (- 1)) (\<lambda>chunkname.
                 mbind (lua_load call parser getF \<lparr>extraline = extra, lf_f = ungetc c f\<rparr> chunkname) (\<lambda>status.
                   if f_ferror fs filename then
                     mseq (lua_settop fnameindex) (errfile fs ''read'' fnameindex)
                   else mseq (lua_remove fnameindex) (mret status))))))"

end
