(* ===== verification/LuaPattern.thy ===== *)
theory LuaPattern
  imports LuaNumber
begin

section \<open>Pattern matching\<close>

text \<open>
  The matcher of \<^verbatim>\<open>lstrlib.c\<close>. The subject is a string of bytes and the pattern a C string; a
  pointer into one of them is a position, and reading at the end gives the terminator. An error is the message that
  \<^verbatim>\<open>luaL_error\<close> gets.
\<close>

definition LUA_QL :: "string \<Rightarrow> string" where "LUA_QL x = CHR 0x27 # x @ [CHR 0x27]"

definition CAP_UNFINISHED :: int where "CAP_UNFINISHED = -1"
definition CAP_POSITION :: int where "CAP_POSITION = -2"
definition LUA_MAXCAPTURES :: nat where "LUA_MAXCAPTURES = 32"

record MatchState =
  ms_level :: nat
  capture :: "(nat \<times> int) list"

definition L_ESC :: char where "L_ESC = CHR ''%''"
definition SPECIALS :: string where "SPECIALS = ''^$*+?.([%-''"

definition cap_len :: "MatchState \<Rightarrow> nat \<Rightarrow> int" where "cap_len ms i = snd (capture ms ! i)"
definition cap_init :: "MatchState \<Rightarrow> nat \<Rightarrow> nat" where "cap_init ms i = fst (capture ms ! i)"

definition check_capture :: "MatchState \<Rightarrow> char \<Rightarrow> nat res" where
  "check_capture ms c =
     (let l = int (uchar c) - 49 in
      if l < 0 \<or> l \<ge> int (ms_level ms) \<or> cap_len ms (nat l) = CAP_UNFINISHED
      then Inl (RunError ''invalid capture index'') else Inr (nat l))"

text \<open>The loop from the innermost capture down.\<close>

fun close_from :: "MatchState \<Rightarrow> nat \<Rightarrow> nat res" where
  "close_from ms 0 = Inl (RunError ''invalid pattern capture'')"
| "close_from ms (Suc i) = (if cap_len ms i = CAP_UNFINISHED then Inr i else close_from ms i)"

definition capture_to_close :: "MatchState \<Rightarrow> nat res" where
  "capture_to_close ms = close_from ms (ms_level ms)"

subsection \<open>Character classes\<close>

lemma char_at_less: "char_at s i \<noteq> NUL \<Longrightarrow> i < length s"
  by (simp add: char_at_def split: if_splits)

function bracket_end :: "string \<Rightarrow> nat \<Rightarrow> nat res" where
  "bracket_end pat p =
     (if char_at pat p = NUL then Inl (RunError (''malformed pattern (missing '' @ LUA_QL '']'' @ '')''))
      else
        let p' = (if char_at pat p = L_ESC \<and> char_at pat (p + 1) \<noteq> NUL then p + 2 else p + 1) in
        if char_at pat p' = CHR '']'' then Inr (p' + 1) else bracket_end pat p')"
  by pat_completeness auto
termination
  by (relation "measure (\<lambda>(pat, p). length pat - p)") (use char_at_less in \<open>force split: if_splits\<close>)+

declare bracket_end.simps [simp del]

definition classend :: "string \<Rightarrow> nat \<Rightarrow> nat res" where
  "classend pat p =
     (if char_at pat p = L_ESC then
        if char_at pat (p + 1) = NUL then Inl (RunError (''malformed pattern (ends with '' @ LUA_QL ''%'' @ '')'')) else Inr (p + 2)
      else if char_at pat p = CHR ''['' then
        bracket_end pat (if char_at pat (p + 1) = CHR ''^'' then p + 2 else p + 1)
      else Inr (p + 1))"

definition match_class :: "char \<Rightarrow> char \<Rightarrow> bool" where
  "match_class c cl =
     (let k = tolower cl;
          neg = (\<lambda>res. if islower cl then res else \<not> res) in
      if k = CHR ''a'' then neg (isalpha c)
      else if k = CHR ''c'' then neg (iscntrl c)
      else if k = CHR ''d'' then neg (isdigit c)
      else if k = CHR ''l'' then neg (islower c)
      else if k = CHR ''p'' then neg (ispunct c)
      else if k = CHR ''s'' then neg (isspace c)
      else if k = CHR ''u'' then neg (isupper c)
      else if k = CHR ''w'' then neg (isalnum c)
      else if k = CHR ''x'' then neg (isxdigit c)
      else if k = CHR ''z'' then neg (c = NUL)
      else cl = c)"

function bracket_loop :: "string \<Rightarrow> char \<Rightarrow> bool \<Rightarrow> nat \<Rightarrow> nat \<Rightarrow> bool" where
  "bracket_loop pat c sig p ec =
     (if p + 1 < ec then
        if char_at pat (p + 1) = L_ESC then
          (if match_class c (char_at pat (p + 2)) then sig else bracket_loop pat c sig (p + 2) ec)
        else if char_at pat (p + 2) = CHR ''-'' \<and> p + 3 < ec then
          (if uchar (char_at pat (p + 1)) \<le> uchar c \<and> uchar c \<le> uchar (char_at pat (p + 3)) then sig
           else bracket_loop pat c sig (p + 3) ec)
        else if char_at pat (p + 1) = c then sig
        else bracket_loop pat c sig (p + 1) ec
      else \<not> sig)"
  by pat_completeness auto
termination by (relation "measure (\<lambda>(_, _, _, p, ec). ec - p)") auto

declare bracket_loop.simps [simp del]

text \<open>\<open>p\<close> is at the opening bracket and \<open>ec\<close> at the closing one.\<close>

definition matchbracketclass :: "string \<Rightarrow> char \<Rightarrow> nat \<Rightarrow> nat \<Rightarrow> bool" where
  "matchbracketclass pat c p ec =
     (if char_at pat (p + 1) = CHR ''^'' then bracket_loop pat c False (p + 1) ec else bracket_loop pat c True p ec)"

definition singlematch :: "string \<Rightarrow> char \<Rightarrow> nat \<Rightarrow> nat \<Rightarrow> bool" where
  "singlematch pat c p ep =
     (let d = char_at pat p in
      if d = CHR ''.'' then True
      else if d = L_ESC then match_class c (char_at pat (p + 1))
      else if d = CHR ''['' then matchbracketclass pat c p (ep - 1)
      else d = c)"

subsection \<open>Items of a pattern\<close>

function balance_loop :: "string \<Rightarrow> char \<Rightarrow> char \<Rightarrow> nat \<Rightarrow> nat \<Rightarrow> nat option" where
  "balance_loop src opening closing s cont =
     (if s + 1 < length src then
        if char_at src (s + 1) = closing then
          (if cont = 1 then Some (s + 2) else balance_loop src opening closing (s + 1) (cont - 1))
        else balance_loop src opening closing (s + 1) (if char_at src (s + 1) = opening then cont + 1 else cont)
      else None)"
  by pat_completeness auto
termination by (relation "measure (\<lambda>(src, _, _, s, _). length src - s)") auto

declare balance_loop.simps [simp del]

definition matchbalance :: "string \<Rightarrow> string \<Rightarrow> nat \<Rightarrow> nat \<Rightarrow> nat option res" where
  "matchbalance src pat s p =
     (if char_at pat p = NUL \<or> char_at pat (p + 1) = NUL then Inl (RunError ''unbalanced pattern'')
      else if char_at src s \<noteq> char_at pat p then Inr None
      else Inr (balance_loop src (char_at pat p) (char_at pat (p + 1)) s 1))"

definition match_capture :: "string \<Rightarrow> MatchState \<Rightarrow> nat \<Rightarrow> char \<Rightarrow> nat option res" where
  "match_capture src ms s c =
     rbind (check_capture ms c) (\<lambda>l.
       let len = cap_len ms l in
       if 0 \<le> len \<and> len \<le> int (length src - s) \<and>
          take (nat len) (drop (cap_init ms l) src) = take (nat len) (drop s src)
       then Inr (Some (s + nat len)) else Inr None)"

text \<open>
  The loops and the captures get the rest of the match as \<open>k\<close>; its result is the end of the match and
  the state of the captures.
\<close>

type_synonym match_res = "(nat option \<times> MatchState) res"

fun max_count :: "(nat \<Rightarrow> bool) \<Rightarrow> nat \<Rightarrow> nat \<Rightarrow> nat" where
  "max_count single s 0 = 0"
| "max_count single s (Suc n) = (if single s then Suc (max_count single (s + 1) n) else 0)"

fun max_loop :: "(MatchState \<Rightarrow> nat \<Rightarrow> match_res) \<Rightarrow> MatchState \<Rightarrow> nat \<Rightarrow> nat \<Rightarrow> match_res" where
  "max_loop k ms s 0 = k ms s"
| "max_loop k ms s (Suc i) =
     rbind (k ms (s + Suc i)) (\<lambda>(r, ms'). case r of Some e \<Rightarrow> Inr (Some e, ms') | None \<Rightarrow> max_loop k ms' s i)"

definition max_expand :: "string \<Rightarrow> (nat \<Rightarrow> bool) \<Rightarrow> (MatchState \<Rightarrow> nat \<Rightarrow> match_res) \<Rightarrow> MatchState \<Rightarrow> nat \<Rightarrow> match_res" where
  "max_expand src single k ms s = max_loop k ms s (max_count single s (length src - s))"

fun min_loop :: "(nat \<Rightarrow> bool) \<Rightarrow> (MatchState \<Rightarrow> nat \<Rightarrow> match_res) \<Rightarrow> MatchState \<Rightarrow> nat \<Rightarrow> nat \<Rightarrow> match_res" where
  "min_loop single k ms s 0 = k ms s"
| "min_loop single k ms s (Suc n) =
     rbind (k ms s) (\<lambda>(r, ms').
       case r of
         Some e \<Rightarrow> Inr (Some e, ms')
       | None \<Rightarrow> if single s then min_loop single k ms' (s + 1) n else Inr (None, ms'))"

definition min_expand :: "string \<Rightarrow> (nat \<Rightarrow> bool) \<Rightarrow> (MatchState \<Rightarrow> nat \<Rightarrow> match_res) \<Rightarrow> MatchState \<Rightarrow> nat \<Rightarrow> match_res" where
  "min_expand src single k ms s = min_loop single k ms s (length src - s)"

definition start_capture :: "(MatchState \<Rightarrow> nat \<Rightarrow> match_res) \<Rightarrow> MatchState \<Rightarrow> nat \<Rightarrow> int \<Rightarrow> match_res" where
  "start_capture k ms s what =
     (let l = ms_level ms in
      if l \<ge> LUA_MAXCAPTURES then Inl (RunError ''too many captures'')
      else
        rbind (k (ms\<lparr>capture := (capture ms)[l := (s, what)], ms_level := l + 1\<rparr>) s) (\<lambda>(r, ms').
          case r of Some e \<Rightarrow> Inr (Some e, ms') | None \<Rightarrow> Inr (None, ms'\<lparr>ms_level := ms_level ms' - 1\<rparr>)))"

definition set_cap_len :: "MatchState \<Rightarrow> nat \<Rightarrow> int \<Rightarrow> MatchState" where
  "set_cap_len ms l n = ms\<lparr>capture := (capture ms)[l := (cap_init ms l, n)]\<rparr>"

definition end_capture :: "(MatchState \<Rightarrow> nat \<Rightarrow> match_res) \<Rightarrow> MatchState \<Rightarrow> nat \<Rightarrow> match_res" where
  "end_capture k ms s =
     rbind (capture_to_close ms) (\<lambda>l.
     rbind (k (set_cap_len ms l (int s - int (cap_init ms l))) s) (\<lambda>(r, ms').
       case r of Some e \<Rightarrow> Inr (Some e, ms') | None \<Rightarrow> Inr (None, set_cap_len ms' l CAP_UNFINISHED)))"

subsection \<open>The matcher\<close>

lemma bracket_end_after: "bracket_end pat p = Inr ep \<Longrightarrow> p < ep"
proof (induction pat p rule: bracket_end.induct)
  case (1 pat p)
  then show ?case
    by (subst (asm) (2) bracket_end.simps) (fastforce simp: Let_def split: if_splits)
qed

lemma classend_after: "classend pat p = Inr ep \<Longrightarrow> p < ep"
  by (auto simp: classend_def split: if_splits dest: bracket_end_after)

lemma pattern_step: "char_at pat p \<noteq> NUL \<Longrightarrow> p < q \<Longrightarrow> length pat - q < length pat - p"
  using char_at_less by (simp add: diff_less_mono2)

function match :: "string \<Rightarrow> string \<Rightarrow> MatchState \<Rightarrow> nat \<Rightarrow> nat \<Rightarrow> match_res" where
  "match src pat ms s p =
     (let c = char_at pat p; d = char_at pat (p + 1) in
      if c = CHR ''('' then
        if d = CHR '')'' then start_capture (\<lambda>ms s. match src pat ms s (p + 2)) ms s CAP_POSITION
        else start_capture (\<lambda>ms s. match src pat ms s (p + 1)) ms s CAP_UNFINISHED
      else if c = CHR '')'' then end_capture (\<lambda>ms s. match src pat ms s (p + 1)) ms s
      else if c = L_ESC \<and> d = CHR ''b'' then
        rbind (matchbalance src pat s (p + 2)) (\<lambda>r.
          case r of None \<Rightarrow> Inr (None, ms) | Some s \<Rightarrow> match src pat ms s (p + 4))
      else if c = L_ESC \<and> d = CHR ''f'' then
        if char_at pat (p + 2) \<noteq> CHR ''['' then
          Inl (RunError (''missing '' @ LUA_QL ''['' @ '' after '' @ LUA_QL ''%f'' @ '' in pattern''))
        else
          rbind (classend pat (p + 2)) (\<lambda>ep.
            let previous = (if s = 0 then NUL else char_at src (s - 1)) in
            if matchbracketclass pat previous (p + 2) (ep - 1) \<or> \<not> matchbracketclass pat (char_at src s) (p + 2) (ep - 1)
            then Inr (None, ms) else match src pat ms s ep)
      else if c = L_ESC \<and> isdigit d then
        rbind (match_capture src ms s d) (\<lambda>r.
          case r of None \<Rightarrow> Inr (None, ms) | Some s \<Rightarrow> match src pat ms s (p + 2))
      else if c = NUL then Inr (Some s, ms)
      else if c = CHR ''$'' \<and> d = NUL then Inr (if s = length src then Some s else None, ms)
      else
        rbind (classend pat p) (\<lambda>ep.
          let single = (\<lambda>s. s < length src \<and> singlematch pat (char_at src s) p ep); e = char_at pat ep in
          if e = CHR ''?'' then
            if single s then
              rbind (match src pat ms (s + 1) (ep + 1)) (\<lambda>(r, ms').
                case r of Some e \<Rightarrow> Inr (Some e, ms') | None \<Rightarrow> match src pat ms' s (ep + 1))
            else match src pat ms s (ep + 1)
          else if e = CHR ''*'' then max_expand src single (\<lambda>ms s. match src pat ms s (ep + 1)) ms s
          else if e = CHR ''+'' then
            if single s then max_expand src single (\<lambda>ms s. match src pat ms s (ep + 1)) ms (s + 1) else Inr (None, ms)
          else if e = CHR ''-'' then min_expand src single (\<lambda>ms s. match src pat ms s (ep + 1)) ms s
          else if single s then match src pat ms (s + 1) ep
          else Inr (None, ms)))"
  by pat_completeness auto
termination
  by (relation "measure (\<lambda>(src, pat, ms, s, p). length pat - p)"; (simp only: in_measure prod.case)?;
      (rule pattern_step; (force simp: L_ESC_def; fail)?; (simp; fail | drule classend_after; simp))?; simp?)

declare match.simps [simp del]

text \<open>A match starts without captures.\<close>

definition match_start :: MatchState where
  "match_start = \<lparr>ms_level = 0, capture = replicate LUA_MAXCAPTURES (0, 0)\<rparr>"

end
