(* ===== verification/LuaPatternFacts.thy ===== *)
theory LuaPatternFacts
  imports LuaPattern
begin

section \<open>The matcher finds a match exactly when there is one\<close>

text \<open>
  What a pattern means is stated as a relation, without the order in which the matcher tries things and
  without its changes to the captures. The matcher is sound and complete for it.
\<close>

subsection \<open>The meaning of a pattern\<close>

text \<open>The item of a pattern at a position, with the position of what follows it.\<close>

datatype pitem =
    IOpen int nat
  | IClose nat
  | IBalance
  | IFrontier nat
  | IBack char
  | IEnd
  | IEol
  | ISingle nat char

definition item :: "string \<Rightarrow> nat \<Rightarrow> pitem res" where
  "item pat p =
     (let c = char_at pat p; d = char_at pat (p + 1) in
      if c = CHR ''('' then
        Inr (if d = CHR '')'' then IOpen CAP_POSITION (p + 2) else IOpen CAP_UNFINISHED (p + 1))
      else if c = CHR '')'' then Inr (IClose (p + 1))
      else if c = L_ESC \<and> d = CHR ''b'' then Inr IBalance
      else if c = L_ESC \<and> d = CHR ''f'' then
        if char_at pat (p + 2) \<noteq> CHR ''['' then
          Inl (RunError (''missing '' @ LUA_QL ''['' @ '' after '' @ LUA_QL ''%f'' @ '' in pattern''))
        else rbind (classend pat (p + 2)) (\<lambda>ep. Inr (IFrontier ep))
      else if c = L_ESC \<and> isdigit d then Inr (IBack d)
      else if c = NUL then Inr IEnd
      else if c = CHR ''$'' \<and> d = NUL then Inr IEol
      else rbind (classend pat p) (\<lambda>ep. Inr (ISingle ep (char_at pat ep))))"

text \<open>The captures that are open or finished.\<close>

type_synonym captures = "(nat \<times> int) list"

definition live :: "MatchState \<Rightarrow> captures" where "live ms = take (ms_level ms) (capture ms)"
definition of_caps :: "captures \<Rightarrow> MatchState" where "of_caps cs = \<lparr>ms_level = length cs, capture = cs\<rparr>"

definition at_frontier :: "string \<Rightarrow> string \<Rightarrow> nat \<Rightarrow> nat \<Rightarrow> nat \<Rightarrow> bool" where
  "at_frontier src pat s p ep \<longleftrightarrow>
     \<not> matchbracketclass pat (if s = 0 then NUL else char_at src (s - 1)) (p + 2) (ep - 1) \<and>
     matchbracketclass pat (char_at src s) (p + 2) (ep - 1)"

text \<open>The \<open>n\<close> characters from \<open>s\<close> on are in the class at \<open>p\<close>.\<close>

definition in_class :: "string \<Rightarrow> string \<Rightarrow> nat \<Rightarrow> nat \<Rightarrow> nat \<Rightarrow> bool" where
  "in_class src pat p ep s \<longleftrightarrow> s < length src \<and> singlematch pat (char_at src s) p ep"

definition run :: "string \<Rightarrow> string \<Rightarrow> nat \<Rightarrow> nat \<Rightarrow> nat \<Rightarrow> nat \<Rightarrow> bool" where
  "run src pat p ep s n \<longleftrightarrow> (\<forall>j<n. in_class src pat p ep (s + j))"

definition repeats :: "char \<Rightarrow> nat \<Rightarrow> bool" where
  "repeats c n \<longleftrightarrow> c = CHR ''?'' \<and> n \<le> 1 \<or> c = CHR ''*'' \<or> c = CHR ''+'' \<and> 1 \<le> n \<or> c = CHR ''-''"

definition suffix_chars :: "char set" where "suffix_chars = {CHR ''?'', CHR ''*'', CHR ''+'', CHR ''-''}"

text \<open>
  The pattern from \<open>p\<close> on matches the subject from \<open>s\<close> up to \<open>e\<close>; the captures are \<open>cs\<close>
  before and \<open>cs'\<close> after.
\<close>

inductive matches :: "string \<Rightarrow> string \<Rightarrow> captures \<Rightarrow> nat \<Rightarrow> nat \<Rightarrow> nat \<Rightarrow> captures \<Rightarrow> bool" for src pat where
  open_capture: "item pat p = Inr (IOpen w q) \<Longrightarrow> length cs < LUA_MAXCAPTURES \<Longrightarrow>
     matches src pat (cs @ [(s, w)]) s q e cs' \<Longrightarrow> matches src pat cs s p e cs'"
| close_capture: "item pat p = Inr (IClose q) \<Longrightarrow> capture_to_close (of_caps cs) = Inr l \<Longrightarrow>
     matches src pat (cs[l := (fst (cs ! l), int s - int (fst (cs ! l)))]) s q e cs' \<Longrightarrow> matches src pat cs s p e cs'"
| balance: "item pat p = Inr IBalance \<Longrightarrow> matchbalance src pat s (p + 2) = Inr (Some s') \<Longrightarrow>
     matches src pat cs s' (p + 4) e cs' \<Longrightarrow> matches src pat cs s p e cs'"
| frontier: "item pat p = Inr (IFrontier ep) \<Longrightarrow> at_frontier src pat s p ep \<Longrightarrow>
     matches src pat cs s ep e cs' \<Longrightarrow> matches src pat cs s p e cs'"
| backref: "item pat p = Inr (IBack c) \<Longrightarrow> match_capture src (of_caps cs) s c = Inr (Some s') \<Longrightarrow>
     matches src pat cs s' (p + 2) e cs' \<Longrightarrow> matches src pat cs s p e cs'"
| ending: "item pat p = Inr IEnd \<Longrightarrow> matches src pat cs s p s cs"
| eol: "item pat p = Inr IEol \<Longrightarrow> s = length src \<Longrightarrow> matches src pat cs s p s cs"
| single: "item pat p = Inr (ISingle ep c) \<Longrightarrow> c \<notin> suffix_chars \<Longrightarrow> in_class src pat p ep s \<Longrightarrow>
     matches src pat cs (s + 1) ep e cs' \<Longrightarrow> matches src pat cs s p e cs'"
| repeated: "item pat p = Inr (ISingle ep c) \<Longrightarrow> repeats c n \<Longrightarrow> run src pat p ep s n \<Longrightarrow>
     matches src pat cs (s + n) (ep + 1) e cs' \<Longrightarrow> matches src pat cs s p e cs'"

inductive_cases matchesE: "matches src pat cs s p e cs'"

subsection \<open>The matcher by items\<close>

lemma match_item:
  "match src pat ms s p =
     rbind (item pat p) (\<lambda>i. case i of
        IOpen w q \<Rightarrow> start_capture (\<lambda>ms s. match src pat ms s q) ms s w
      | IClose q \<Rightarrow> end_capture (\<lambda>ms s. match src pat ms s q) ms s
      | IBalance \<Rightarrow> rbind (matchbalance src pat s (p + 2)) (\<lambda>r.
          case r of None \<Rightarrow> Inr (None, ms) | Some s \<Rightarrow> match src pat ms s (p + 4))
      | IFrontier ep \<Rightarrow> if at_frontier src pat s p ep then match src pat ms s ep else Inr (None, ms)
      | IBack c \<Rightarrow> rbind (match_capture src ms s c) (\<lambda>r.
          case r of None \<Rightarrow> Inr (None, ms) | Some s \<Rightarrow> match src pat ms s (p + 2))
      | IEnd \<Rightarrow> Inr (Some s, ms)
      | IEol \<Rightarrow> Inr (if s = length src then Some s else None, ms)
      | ISingle ep c \<Rightarrow>
          let k = (\<lambda>ms s. match src pat ms s (ep + 1)); one = in_class src pat p ep in
          if c = CHR ''?'' then
            if one s then rbind (k ms (s + 1)) (\<lambda>(r, ms'). case r of Some e \<Rightarrow> Inr (Some e, ms') | None \<Rightarrow> k ms' s)
            else k ms s
          else if c = CHR ''*'' then max_expand src one k ms s
          else if c = CHR ''+'' then if one s then max_expand src one k ms (s + 1) else Inr (None, ms)
          else if c = CHR ''-'' then min_expand src one k ms s
          else if one s then match src pat ms (s + 1) ep
          else Inr (None, ms))"
proof -
  have one: "in_class src pat p ep = (\<lambda>s. s < length src \<and> singlematch pat (char_at src s) p ep)" for ep
    by (simp add: in_class_def fun_eq_iff)
  have fr: "(if matchbracketclass pat (if s = 0 then NUL else char_at src (s - 1)) (p + 2) (ep - 1) \<or>
        \<not> matchbracketclass pat (char_at src s) (p + 2) (ep - 1) then x else y) = (if at_frontier src pat s p ep then y else x)"
    for ep and x y :: match_res
    by (simp add: at_frontier_def)
  have dist: "rbind (if c then m else n) f = (if c then rbind m f else rbind n f)" for c m n and f :: "pitem \<Rightarrow> match_res"
    by simp
  show ?thesis
    by (subst match.simps)
      (simp only: item_def one Let_def dist rbind_simps rbind_assoc pitem.case fr if_distrib [of Inr] cong: if_cong)
qed

lemma item_after:
  "item pat p = Inr i \<Longrightarrow>
     (case i of IOpen w q \<Rightarrow> length pat - q < length pat - p | IClose q \<Rightarrow> length pat - q < length pat - p
      | IBalance \<Rightarrow> length pat - (p + 4) < length pat - p | IFrontier ep \<Rightarrow> length pat - ep < length pat - p
      | IBack c \<Rightarrow> length pat - (p + 2) < length pat - p | ISingle ep c \<Rightarrow> p < ep \<and> length pat - ep < length pat - p
      | _ \<Rightarrow> True)"
proof -
  assume i: "item pat p = Inr i"
  have z: "char_at pat p = NUL \<Longrightarrow> i = IEnd" using i by (simp add: item_def Let_def L_ESC_def)
  have lt: "char_at pat p \<noteq> NUL \<Longrightarrow> p < q \<Longrightarrow> length pat - q < length pat - p" for q by (rule pattern_step)
  show ?thesis
  proof (cases "char_at pat p = NUL")
    case True
    then show ?thesis using z by simp
  next
    case False
    note lt = lt [OF False]
    show ?thesis using i
      by (auto simp: item_def Let_def rbind_eq_Inr lt split: if_splits dest!: classend_after)
  qed
qed

subsection \<open>The loops\<close>

definition ms_ok :: "MatchState \<Rightarrow> bool" where
  "ms_ok ms \<longleftrightarrow> ms_level ms \<le> LUA_MAXCAPTURES \<and> length (capture ms) = LUA_MAXCAPTURES"

text \<open>A result at \<open>p\<close> that is right, and leaves the live captures alone if there is no match.\<close>

definition right :: "string \<Rightarrow> string \<Rightarrow> (MatchState \<Rightarrow> nat \<Rightarrow> match_res) \<Rightarrow> nat \<Rightarrow> bool" where
  "right src pat k q \<longleftrightarrow>
     (\<forall>ms s r ms'. ms_ok ms \<longrightarrow> k ms s = Inr (r, ms') \<longrightarrow> ms_ok ms' \<and>
        (case r of
           Some e \<Rightarrow> matches src pat (live ms) s q e (live ms')
         | None \<Rightarrow> live ms' = live ms \<and> (\<forall>e cs'. \<not> matches src pat (live ms) s q e cs')))"

lemma rightD:
  assumes "right src pat k q" "ms_ok ms" "k ms s = Inr (r, ms')"
  shows "ms_ok ms'" "r = Some e \<Longrightarrow> matches src pat (live ms) s q e (live ms')"
    "r = None \<Longrightarrow> live ms' = live ms" "r = None \<Longrightarrow> \<not> matches src pat (live ms) s q e cs'"
  using assms unfolding right_def by fastforce+

lemma max_loop_right:
  assumes "right src pat k q"
  shows "ms_ok ms \<Longrightarrow> max_loop k ms s i = Inr (r, ms') \<Longrightarrow> ms_ok ms' \<and>
    (case r of
       Some e \<Rightarrow> \<exists>j\<le>i. matches src pat (live ms) (s + j) q e (live ms')
     | None \<Rightarrow> live ms' = live ms \<and> (\<forall>j\<le>i. \<forall>e cs'. \<not> matches src pat (live ms) (s + j) q e cs'))"
proof (induction i arbitrary: ms)
  case 0
  then show ?case using rightD [OF assms] by (auto split: option.splits)
next
  case (Suc i)
  obtain r1 ms1 where k: "k ms (s + Suc i) = Inr (r1, ms1)" using Suc.prems(2) by (auto simp: rbind_eq_Inr)
  note R = rightD [OF assms Suc.prems(1) k]
  show ?case
  proof (cases r1)
    case (Some e)
    then have "r = Some e" "ms' = ms1" using Suc.prems(2) k by auto
    then show ?thesis using R(1) R(2) [OF Some] by (auto intro!: exI [of _ "Suc i"])
  next
    case None
    then have "max_loop k ms1 s i = Inr (r, ms')" using Suc.prems(2) k by simp
    from Suc.IH [OF R(1) this] show ?thesis using R(3,4) None by (auto simp: le_Suc_eq split: option.splits)
  qed
qed

lemma max_count_run:
  "j \<le> max_count one s n \<Longrightarrow> i < j \<Longrightarrow> one (s + i)"
proof (induction one s n arbitrary: i j rule: max_count.induct)
  case (2 one s n)
  have s: "one s" "j - 1 \<le> max_count one (s + 1) n" using 2(2,3) by (auto split: if_splits)
  show ?case
  proof (cases i)
    case (Suc i')
    then show ?thesis using 2(1) [OF s(1,2), of i'] 2(3) by simp
  qed (use s in simp)
qed simp

lemma max_count_all: "\<forall>i<j. one (s + i) \<Longrightarrow> j \<le> n \<Longrightarrow> j \<le> max_count one s n"
proof (induction one s n arbitrary: j rule: max_count.induct)
  case (2 one s n)
  show ?case
  proof (cases j)
    case (Suc m)
    then have "one s" using 2(2) by force
    moreover have "\<forall>i<m. one (s + 1 + i)" using 2(2) Suc by force
    ultimately show ?thesis using 2(1) 2(3) Suc by simp
  qed simp
qed simp

lemma run_bound: "run src pat p ep s n \<Longrightarrow> n \<le> length src - s"
proof (cases n)
  case (Suc m)
  assume "run src pat p ep s n"
  then have "in_class src pat p ep (s + m)" using Suc by (simp add: run_def)
  then have "s + m < length src" by (simp add: in_class_def)
  then show ?thesis using Suc by linarith
qed simp

lemma run_count: "run src pat p ep s n \<longleftrightarrow> n \<le> max_count (in_class src pat p ep) s (length src - s)"
  using max_count_run [of n "in_class src pat p ep" s] max_count_all [of n "in_class src pat p ep" s] run_bound [of src pat p ep s n]
  by (auto simp: run_def)

lemma max_expand_right:
  assumes "right src pat k q" "ms_ok ms" "max_expand src (in_class src pat p ep) k ms s = Inr (r, ms')"
  shows "ms_ok ms' \<and>
    (case r of
       Some e \<Rightarrow> \<exists>n. run src pat p ep s n \<and> matches src pat (live ms) (s + n) q e (live ms')
     | None \<Rightarrow> live ms' = live ms \<and> (\<forall>n. run src pat p ep s n \<longrightarrow> (\<forall>e cs'. \<not> matches src pat (live ms) (s + n) q e cs')))"
  using max_loop_right [OF assms(1,2) assms(3) [unfolded max_expand_def]] by (simp add: run_count split: option.splits)

lemma run_Suc: "run src pat p ep s (Suc n) \<longleftrightarrow> in_class src pat p ep s \<and> run src pat p ep (s + 1) n"
proof -
  have "(\<forall>j<Suc n. in_class src pat p ep (s + j)) \<longleftrightarrow>
      in_class src pat p ep s \<and> (\<forall>j<n. in_class src pat p ep (s + 1 + j))"
    by (auto simp: less_Suc_eq_0_disj)
  then show ?thesis by (simp add: run_def)
qed

lemma min_loop_right:
  assumes "right src pat k q"
  shows "ms_ok ms \<Longrightarrow> min_loop (in_class src pat p ep) k ms s m = Inr (r, ms') \<Longrightarrow> length src - s \<le> m \<Longrightarrow> ms_ok ms' \<and>
    (case r of
       Some e \<Rightarrow> \<exists>n. run src pat p ep s n \<and> matches src pat (live ms) (s + n) q e (live ms')
     | None \<Rightarrow> live ms' = live ms \<and> (\<forall>n. run src pat p ep s n \<longrightarrow> (\<forall>e cs'. \<not> matches src pat (live ms) (s + n) q e cs')))"
proof (induction m arbitrary: ms s)
  case 0
  have "run src pat p ep s n \<Longrightarrow> n = 0" for n using run_bound [of src pat p ep s n] 0 by simp
  then have n: "run src pat p ep s n \<longleftrightarrow> n = 0" for n by (auto simp: run_def)
  have "k ms s = Inr (r, ms')" using 0(2) by simp
  from rightD [OF assms 0(1) this] show ?case unfolding n by (cases r) simp_all
next
  case (Suc m)
  obtain r1 ms1 where k: "k ms s = Inr (r1, ms1)" using Suc.prems(2) by (auto simp: rbind_eq_Inr)
  note R = rightD [OF assms Suc.prems(1) k]
  have z: "run src pat p ep s 0" by (simp add: run_def)
  show ?case
  proof (cases r1)
    case (Some e)
    then have "r = Some e" "ms' = ms1" using Suc.prems(2) k by auto
    then show ?thesis using R(1) R(2) [OF Some] z by (auto intro!: exI [of _ 0])
  next
    case None
    show ?thesis
    proof (cases "in_class src pat p ep s")
      case False
      then have r: "r = None" "ms' = ms1" using Suc.prems(2) k None by auto
      have "run src pat p ep s n \<Longrightarrow> n = 0" for n using False by (cases n) (simp_all add: run_Suc)
      then have "\<not> matches src pat (live ms) (s + n) q e cs'" if "run src pat p ep s n" for n e cs'
        using that R(4) [OF None] by fastforce
      then show ?thesis using R(1,3) None r by auto
    next
      case True
      then have "min_loop (in_class src pat p ep) k ms1 (s + 1) m = Inr (r, ms')" using Suc.prems(2) k None by simp
      from Suc.IH [OF R(1) this] Suc.prems(3)
      have IH: "ms_ok ms' \<and> (case r of
          Some e \<Rightarrow> \<exists>n. run src pat p ep (s + 1) n \<and> matches src pat (live ms1) (s + 1 + n) q e (live ms')
        | None \<Rightarrow> live ms' = live ms1 \<and> (\<forall>n. run src pat p ep (s + 1) n \<longrightarrow> (\<forall>e cs'. \<not> matches src pat (live ms1) (s + 1 + n) q e cs')))"
        by simp
      show ?thesis
      proof (cases r)
        case (Some e)
        then obtain n where "run src pat p ep (s + 1) n" "matches src pat (live ms1) (s + 1 + n) q e (live ms')" using IH by auto
        then have "run src pat p ep s (Suc n)" "matches src pat (live ms) (s + Suc n) q e (live ms')"
          using True R(3) \<open>r1 = None\<close> by (simp_all add: run_Suc)
        then show ?thesis using IH Some by auto
      next
        case None
        have "\<not> matches src pat (live ms) (s + n) q e cs'" if "run src pat p ep s n" for n e cs'
        proof (cases n)
          case 0
          then show ?thesis using R(4) \<open>r1 = None\<close> by simp
        next
          case (Suc n')
          then show ?thesis using that IH None R(3) \<open>r1 = None\<close> by (auto simp: run_Suc)
        qed
        then show ?thesis using IH None R(3) \<open>r1 = None\<close> by auto
      qed
    qed
  qed
qed

lemma min_expand_right:
  assumes "right src pat k q" "ms_ok ms" "min_expand src (in_class src pat p ep) k ms s = Inr (r, ms')"
  shows "ms_ok ms' \<and>
    (case r of
       Some e \<Rightarrow> \<exists>n. run src pat p ep s n \<and> matches src pat (live ms) (s + n) q e (live ms')
     | None \<Rightarrow> live ms' = live ms \<and> (\<forall>n. run src pat p ep s n \<longrightarrow> (\<forall>e cs'. \<not> matches src pat (live ms) (s + n) q e cs')))"
  using min_loop_right [OF assms(1,2) assms(3) [unfolded min_expand_def]] by simp


subsection \<open>Captures\<close>

lemma live_simps [simp]:
  assumes "ms_ok ms"
  shows "length (live ms) = ms_level ms" "l < ms_level ms \<Longrightarrow> live ms ! l = capture ms ! l"
  using assms by (simp_all add: live_def ms_ok_def)

lemma close_from_cong:
  "(\<And>i. i < n \<Longrightarrow> capture ms ! i = capture ms' ! i) \<Longrightarrow> close_from ms n = close_from ms' n"
  by (induction n) (simp_all add: cap_len_def)

lemma capture_to_close_live: "ms_ok ms \<Longrightarrow> capture_to_close ms = capture_to_close (of_caps (live ms))"
  by (simp add: capture_to_close_def of_caps_def) (rule close_from_cong, simp)

lemma close_from_open: "close_from ms n = Inr l \<Longrightarrow> l < n \<and> cap_len ms l = CAP_UNFINISHED"
  by (induction n) (auto split: if_splits)

lemma check_capture_live: "ms_ok ms \<Longrightarrow> check_capture ms c = check_capture (of_caps (live ms)) c"
  by (auto simp: check_capture_def of_caps_def cap_len_def Let_def nat_less_iff)

lemma check_capture_less: "check_capture ms c = Inr l \<Longrightarrow> l < ms_level ms"
  by (auto simp: check_capture_def Let_def nat_less_iff split: if_splits)

lemma match_capture_live: "ms_ok ms \<Longrightarrow> match_capture src ms s c = match_capture src (of_caps (live ms)) s c"
  unfolding match_capture_def using check_capture_live [of ms c] check_capture_less [of ms c]
  by (intro rbind_cong) (auto simp: of_caps_def cap_len_def cap_init_def Let_def)

lemma start_capture_right:
  assumes k: "right src pat k q" and ok: "ms_ok ms" and i: "item pat p = Inr (IOpen w q)"
    and r: "start_capture k ms s w = Inr (r, ms')"
  shows "ms_ok ms' \<and> (case r of
     Some e \<Rightarrow> matches src pat (live ms) s p e (live ms')
   | None \<Rightarrow> live ms' = live ms \<and> (\<forall>e cs'. \<not> matches src pat (live ms) s p e cs'))"
proof -
  let ?ms = "ms\<lparr>capture := (capture ms)[ms_level ms := (s, w)], ms_level := ms_level ms + 1\<rparr>"
  have lv: "ms_level ms < LUA_MAXCAPTURES" using r by (auto simp: start_capture_def Let_def split: if_splits)
  obtain r1 ms1 where k1: "k ?ms s = Inr (r1, ms1)" using r lv by (auto simp: start_capture_def Let_def rbind_eq_Inr)
  have ok1: "ms_ok ?ms" using ok lv by (simp add: ms_ok_def)
  have l1: "live ?ms = live ms @ [(s, w)]" using ok lv by (simp add: live_def ms_ok_def take_Suc_conv_app_nth)
  note R = rightD [OF k ok1 k1, unfolded l1]
  have e: "matches src pat (live ms) s p e cs' \<longleftrightarrow> matches src pat (live ms @ [(s, w)]) s q e cs'" for e cs'
  proof
    assume "matches src pat (live ms) s p e cs'"
    then show "matches src pat (live ms @ [(s, w)]) s q e cs'" by (cases rule: matches.cases) (use i in auto)
  next
    assume "matches src pat (live ms @ [(s, w)]) s q e cs'"
    then show "matches src pat (live ms) s p e cs'"
      by (rule matches.open_capture [OF i, rotated]) (use ok lv in simp)
  qed
  show ?thesis
  proof (cases r1)
    case (Some x)
    then have "r = Some x" "ms' = ms1" using r lv k1 by (auto simp: start_capture_def Let_def)
    then show ?thesis using R(1) R(2) [OF Some] e by simp
  next
    case None
    then have m: "r = None" "ms' = ms1\<lparr>ms_level := ms_level ms1 - 1\<rparr>" using r lv k1 by (auto simp: start_capture_def Let_def)
    have lm: "live ms1 = live ms @ [(s, w)]" using R(3) None by simp
    then have "length (live ms1) = Suc (length (live ms))" by simp
    then have n: "ms_level ms1 = Suc (ms_level ms)" using R(1) ok by simp
    have "live ms' = butlast (live ms1)" using R(1) by (simp add: m live_def n butlast_take ms_ok_def)
    then have "live ms' = live ms" using lm by simp
    moreover have "ms_ok ms'" using R(1) by (auto simp: m ms_ok_def)
    ultimately show ?thesis using R(4) None e m(1) by simp
  qed
qed

lemma end_capture_right:
  assumes k: "right src pat k q" and ok: "ms_ok ms" and i: "item pat p = Inr (IClose q)"
    and r: "end_capture k ms s = Inr (r, ms')"
  shows "ms_ok ms' \<and> (case r of
     Some e \<Rightarrow> matches src pat (live ms) s p e (live ms')
   | None \<Rightarrow> live ms' = live ms \<and> (\<forall>e cs'. \<not> matches src pat (live ms) s p e cs'))"
proof -
  obtain l where l: "capture_to_close ms = Inr l" using r by (auto simp: end_capture_def rbind_eq_Inr)
  have ll: "l < ms_level ms" "cap_len ms l = CAP_UNFINISHED" using close_from_open l by (auto simp: capture_to_close_def)
  let ?n = "int s - int (cap_init ms l)"
  let ?ms = "set_cap_len ms l ?n" and ?cs = "(live ms)[l := (fst (live ms ! l), int s - int (fst (live ms ! l)))]"
  obtain r1 ms1 where k1: "k ?ms s = Inr (r1, ms1)" using r l by (auto simp: end_capture_def rbind_eq_Inr)
  have ok1: "ms_ok ?ms" using ok by (simp add: ms_ok_def set_cap_len_def)
  have l1: "live ?ms = ?cs" using ok ll by (simp add: live_def set_cap_len_def take_update_swap cap_init_def ms_ok_def)
  note R = rightD [OF k ok1 k1, unfolded l1]
  have lc: "capture_to_close (of_caps (live ms)) = Inr l" using l capture_to_close_live [OF ok] by simp
  have e: "matches src pat (live ms) s p e cs' \<longleftrightarrow> matches src pat ?cs s q e cs'" for e cs'
  proof
    assume "matches src pat (live ms) s p e cs'"
    then show "matches src pat ?cs s q e cs'" by (cases rule: matches.cases) (use i lc in auto)
  qed (rule matches.close_capture [OF i lc])
  show ?thesis
  proof (cases r1)
    case (Some x)
    then have "r = Some x" "ms' = ms1" using r l k1 by (auto simp: end_capture_def)
    then show ?thesis using R(1) R(2) [OF Some] e by simp
  next
    case None
    then have m: "r = None" "ms' = set_cap_len ms1 l CAP_UNFINISHED" using r l k1 by (auto simp: end_capture_def)
    have lm: "live ms1 = ?cs" using R(3) None by simp
    then have "length (live ms1) = length (live ms)" by simp
    then have n: "ms_level ms1 = ms_level ms" using R(1) ok by simp
    have c: "cap_init ms1 l = cap_init ms l"
    proof -
      have "live ms1 ! l = capture ms1 ! l" using R(1) ll n by simp
      then show ?thesis using lm ok ll by (simp add: cap_init_def) (metis fst_conv)
    qed
    have "live ms' = (live ms1)[l := (cap_init ms l, CAP_UNFINISHED)]"
      using ll n by (simp add: m live_def set_cap_len_def take_update_swap c)
    also have "\<dots> = (live ms)[l := capture ms ! l]" using ll by (simp add: lm cap_init_def cap_len_def prod_eq_iff)
        (metis prod.collapse)
    also have "\<dots> = live ms" using ll ok by (metis list_update_id live_simps(2))
    finally have "live ms' = live ms" .
    moreover have "ms_ok ms'" using R(1) by (auto simp: m ms_ok_def set_cap_len_def)
    ultimately show ?thesis using R(4) None e m(1) by simp
  qed
qed


subsection \<open>Soundness and completeness\<close>

lemma match_simple:
  assumes "match src pat ms s p = Inr (r, ms')" "item pat p = Inr i"
  shows "i = IEnd \<Longrightarrow> r = Some s \<and> ms' = ms"
    and "i = IEol \<Longrightarrow> ms' = ms \<and> r = (if s = length src then Some s else None)"
  using assms by (auto simp: match_item [of src pat ms s p])

lemma matches_end: "item pat p = Inr IEnd \<Longrightarrow> matches src pat cs s p e cs' \<longleftrightarrow> e = s \<and> cs' = cs"
  and matches_eol: "item pat p = Inr IEol \<Longrightarrow> matches src pat cs s p e cs' \<longleftrightarrow> s = length src \<and> e = s \<and> cs' = cs"
  and matches_balance: "item pat p = Inr IBalance \<Longrightarrow> matches src pat cs s p e cs' \<longleftrightarrow>
     (\<exists>s'. matchbalance src pat s (p + 2) = Inr (Some s') \<and> matches src pat cs s' (p + 4) e cs')"
  and matches_frontier: "item pat p = Inr (IFrontier ep) \<Longrightarrow> matches src pat cs s p e cs' \<longleftrightarrow>
     at_frontier src pat s p ep \<and> matches src pat cs s ep e cs'"
  and matches_back: "item pat p = Inr (IBack c) \<Longrightarrow> matches src pat cs s p e cs' \<longleftrightarrow>
     (\<exists>s'. match_capture src (of_caps cs) s c = Inr (Some s') \<and> matches src pat cs s' (p + 2) e cs')"
  and matches_single: "item pat p = Inr (ISingle ep c) \<Longrightarrow> c \<notin> suffix_chars \<Longrightarrow> matches src pat cs s p e cs' \<longleftrightarrow>
     in_class src pat p ep s \<and> matches src pat cs (s + 1) ep e cs'"
  by (rule iffI; (erule matches.cases; simp add: suffix_chars_def repeats_def; fail | auto intro: matches.intros))+

lemma matches_repeated:
  assumes i: "item pat p = Inr (ISingle ep c)" and c: "c \<in> suffix_chars"
  shows "matches src pat cs s p e cs' \<longleftrightarrow>
     (\<exists>n. repeats c n \<and> run src pat p ep s n \<and> matches src pat cs (s + n) (ep + 1) e cs')"
proof
  assume "matches src pat cs s p e cs'"
  then show "\<exists>n. repeats c n \<and> run src pat p ep s n \<and> matches src pat cs (s + n) (ep + 1) e cs'"
    by (cases rule: matches.cases) (use i c in auto)
qed (auto intro: matches.repeated [OF i])

text \<open>The outcome at \<open>p\<close> that the theorem is about.\<close>

definition outcome :: "string \<Rightarrow> string \<Rightarrow> MatchState \<Rightarrow> nat \<Rightarrow> nat \<Rightarrow> nat option \<Rightarrow> MatchState \<Rightarrow> bool" where
  "outcome src pat ms s p r ms' \<longleftrightarrow> ms_ok ms' \<and>
     (case r of
        Some e \<Rightarrow> matches src pat (live ms) s p e (live ms')
      | None \<Rightarrow> live ms' = live ms \<and> (\<forall>e cs'. \<not> matches src pat (live ms) s p e cs'))"

lemma single_outcome:
  assumes i: "item pat p = Inr (ISingle ep c)" and ok: "ms_ok ms" and m: "match src pat ms s p = Inr (r, ms')"
    and k: "right src pat (\<lambda>ms s. match src pat ms s (ep + 1)) (ep + 1)"
    and n: "right src pat (\<lambda>ms s. match src pat ms s ep) ep"
  shows "outcome src pat ms s p r ms'"
proof -
  let ?k = "\<lambda>ms s. match src pat ms s (ep + 1)" and ?one = "in_class src pat p ep"
  note M = m [unfolded match_item [of src pat ms s p] i rbind_simps pitem.case Let_def]
  have z: "run src pat p ep s 0" for s by (simp add: run_def)
  consider "c = CHR ''?''" | "c = CHR ''*''" | "c = CHR ''+''" | "c = CHR ''-''" | "c \<notin> suffix_chars"
    by (auto simp: suffix_chars_def)
  then show ?thesis
  proof cases
    case 1
    note e = matches_repeated [OF i, of src "live ms" s, unfolded 1 suffix_chars_def]
    have u: "repeats (CHR ''?'') n \<and> run src pat p ep s n \<longleftrightarrow> n = 0 \<or> n = 1 \<and> ?one s" for n
      by (cases n) (auto simp: repeats_def z run_Suc)
    have e': "matches src pat (live ms) s p e cs' \<longleftrightarrow>
        matches src pat (live ms) s (ep + 1) e cs' \<or> ?one s \<and> matches src pat (live ms) (s + 1) (ep + 1) e cs'" for e cs'
      using e [of e cs'] u by (metis add_0_right insertI1)
    show ?thesis
    proof (cases "?one s")
      case False
      then have "?k ms s = Inr (r, ms')" using M 1 by simp
      from rightD [OF k ok this] show ?thesis by (auto simp: outcome_def e' False split: option.splits)
    next
      case True
      then obtain r1 ms1 where k1: "?k ms (s + 1) = Inr (r1, ms1)" using M 1 by (auto simp: rbind_eq_Inr)
      note R = rightD [OF k ok k1]
      show ?thesis
      proof (cases r1)
        case (Some x)
        then have "r = Some x" "ms' = ms1" using M 1 True k1 by auto
        then show ?thesis using R(1) R(2) [OF Some] True by (auto simp: outcome_def e')
      next
        case None
        then have "?k ms1 s = Inr (r, ms')" using M 1 True k1 by simp
        from rightD [OF k R(1) this] R(3,4) None show ?thesis by (auto simp: outcome_def e' True split: option.splits)
      qed
    qed
  next
    case 2
    then have x: "max_expand src ?one ?k ms s = Inr (r, ms')" using M by simp
    show ?thesis using max_expand_right [OF k ok x] matches_repeated [OF i, of src "live ms" s] 2
      by (auto simp: outcome_def suffix_chars_def repeats_def split: option.splits)
  next
    case 3
    note e = matches_repeated [OF i, of src "live ms" s, unfolded 3 suffix_chars_def]
    have u: "repeats (CHR ''+'') n \<and> run src pat p ep s n \<longleftrightarrow> (\<exists>j. n = Suc j \<and> ?one s \<and> run src pat p ep (s + 1) j)" for n
      by (cases n) (auto simp: repeats_def run_Suc)
    have e': "matches src pat (live ms) s p e cs' \<longleftrightarrow>
        ?one s \<and> (\<exists>j. run src pat p ep (s + 1) j \<and> matches src pat (live ms) (s + 1 + j) (ep + 1) e cs')" for e cs'
      using e by (auto simp: u conj_assoc [symmetric] simp del: conj_assoc)
    show ?thesis
    proof (cases "?one s")
      case False
      then have "r = None" "ms' = ms" using M 3 by simp_all
      then show ?thesis using ok e' False by (simp add: outcome_def)
    next
      case True
      then have x: "max_expand src ?one ?k ms (s + 1) = Inr (r, ms')" using M 3 by simp
      show ?thesis using max_expand_right [OF k ok x] True by (auto simp: outcome_def e' split: option.splits)
    qed
  next
    case 4
    then have x: "min_expand src ?one ?k ms s = Inr (r, ms')" using M by simp
    show ?thesis using min_expand_right [OF k ok x] matches_repeated [OF i, of src "live ms" s] 4
      by (auto simp: outcome_def suffix_chars_def repeats_def split: option.splits)
  next
    case 5
    note e = matches_single [OF i 5]
    show ?thesis
    proof (cases "?one s")
      case False
      then show ?thesis using M 5 ok e by (auto simp: outcome_def suffix_chars_def)
    next
      case True
      then have "match src pat ms (s + 1) ep = Inr (r, ms')" using M 5 by (auto simp: suffix_chars_def)
      from rightD [OF n ok this] e True show ?thesis by (auto simp: outcome_def split: option.splits)
    qed
  qed
qed

lemma match_right: "right src pat (\<lambda>ms s. match src pat ms s p) p"
proof (induction "length pat - p" arbitrary: p rule: less_induct)
  case less
  have "outcome src pat ms s p r ms'" if ok: "ms_ok ms" and m: "match src pat ms s p = Inr (r, ms')" for ms s r ms'
  proof -
    obtain i where i: "item pat p = Inr i" using m by (auto simp: match_item [of src pat ms s p] rbind_eq_Inr)
    note M = m [unfolded match_item [of src pat ms s p] i rbind_simps]
    note A = item_after [OF i]
    note IH = less
    show ?thesis
    proof (cases i)
      case (IOpen w q)
      then show ?thesis using start_capture_right [OF IH ok] A M i by (auto simp: outcome_def)
    next
      case (IClose q)
      then show ?thesis using end_capture_right [OF IH ok] A M i by (auto simp: outcome_def)
    next
      case IBalance
      note e = matches_balance [OF i [unfolded IBalance]]
      obtain t where t: "matchbalance src pat s (p + 2) = Inr t" using M IBalance by (auto simp: rbind_eq_Inr)
      show ?thesis
      proof (cases t)
        case None
        then show ?thesis using M IBalance t ok e by (auto simp: outcome_def)
      next
        case (Some s')
        then have "match src pat ms s' (p + 4) = Inr (r, ms')" using M IBalance t by simp
        from rightD [OF IH ok this] A IBalance Some t e show ?thesis by (auto simp: outcome_def split: option.splits)
      qed
    next
      case (IFrontier ep)
      note e = matches_frontier [OF i [unfolded IFrontier]]
      show ?thesis
      proof (cases "at_frontier src pat s p ep")
        case False
        then show ?thesis using M IFrontier ok e by (auto simp: outcome_def)
      next
        case True
        then have "match src pat ms s ep = Inr (r, ms')" using M IFrontier by simp
        from rightD [OF IH ok this] A IFrontier True e show ?thesis by (auto simp: outcome_def split: option.splits)
      qed
    next
      case (IBack c)
      note e = matches_back [OF i [unfolded IBack]]
      obtain t where t: "match_capture src ms s c = Inr t" using M IBack by (auto simp: rbind_eq_Inr)
      note t' = t [unfolded match_capture_live [OF ok]]
      show ?thesis
      proof (cases t)
        case None
        then show ?thesis using M IBack t t' ok e by (auto simp: outcome_def)
      next
        case (Some s')
        then have "match src pat ms s' (p + 2) = Inr (r, ms')" using M IBack t by simp
        from rightD [OF IH ok this] A IBack Some t' e show ?thesis by (auto simp: outcome_def split: option.splits)
      qed
    next
      case IEnd
      then show ?thesis using match_simple(1) [OF m i] matches_end [OF i [unfolded IEnd]] ok by (simp add: outcome_def)
    next
      case IEol
      then show ?thesis using match_simple(2) [OF m i] matches_eol [OF i [unfolded IEol]] ok by (simp add: outcome_def)
    next
      case (ISingle ep c)
      have "length pat - (ep + 1) < length pat - p" "length pat - ep < length pat - p" using A ISingle by auto
      then show ?thesis using single_outcome [OF i [unfolded ISingle] ok m IH IH] by simp
    qed
  qed
  then show ?case unfolding right_def outcome_def by blast
qed

text \<open>
  C37: the matcher is sound and complete. When the pattern is well formed, so that \<^verbatim>\<open>match\<close> gives a
  result, it finds an end of the match exactly when the pattern has a match there in its declarative meaning,
  with the captures of such a match; and when there is none, all that it did to the captures while it
  searched is undone. The search ends for every pattern and every subject.
\<close>

theorem match_sound_complete:
  assumes "ms_ok ms" "match src pat ms s p = Inr (r, ms')"
  shows "case r of
     Some e \<Rightarrow> matches src pat (live ms) s p e (live ms')
   | None \<Rightarrow> live ms' = live ms \<and> (\<forall>e cs'. \<not> matches src pat (live ms) s p e cs')"
  using match_right assms unfolding right_def by blast

text \<open>A key and a value around an equals sign.\<close>

theorem match_sound_complete_witness:
  "\<exists>cs. matches ''ab=7'' ''(%a+)=(%d)'' [] 0 0 4 cs"
proof -
  have ok: "ms_ok match_start" by (simp add: ms_ok_def match_start_def)
  have "case match ''ab=7'' ''(%a+)=(%d)'' match_start 0 0 of Inr (Some e, _) \<Rightarrow> e = 4 | _ \<Rightarrow> False"
    by code_simp
  then obtain ms' where "match ''ab=7'' ''(%a+)=(%d)'' match_start 0 0 = Inr (Some 4, ms')"
    by (auto split: sum.splits option.splits)
  from match_sound_complete [OF ok this] show ?thesis by (auto simp: live_def match_start_def)
qed

end
