(* ===== verification/LuaFormat.thy ===== *)
theory LuaFormat
  imports LuaPattern
begin

unbundle bit_operations_syntax

section \<open>Formats\<close>

text \<open>
  The conversions of \<^verbatim>\<open>sprintf\<close> that \<^verbatim>\<open>string.format\<close> uses, and the reading of a
  format specification. A specification has been checked by \<^verbatim>\<open>scanformat\<close>: flags, at most two
  digits of width, a point with at most two digits of precision, and the conversion.
\<close>

subsection \<open>\<^verbatim>\<open>sprintf\<close>\<close>

record fspec =
  f_flags :: string
  f_width :: nat
  f_prec :: "nat option"

definition has_flag :: "fspec \<Rightarrow> char \<Rightarrow> bool" where "has_flag f c \<longleftrightarrow> c \<in> set (f_flags f)"

definition FLAGS :: string where "FLAGS = ''-+ #0''"

text \<open>The specification in a text that starts after the percent sign, and the conversion.\<close>

definition read_spec :: "string \<Rightarrow> fspec \<times> char" where
  "read_spec s =
     (let (fl, s) = span (\<lambda>c. c \<in> set FLAGS) s; (w, s) = span isdigit s in
      if char_at s 0 = CHR ''.'' then
        (let (p, s) = span isdigit (drop 1 s) in
         (\<lparr>f_flags = fl, f_width = digits_val 10 w, f_prec = Some (digits_val 10 p)\<rparr>, char_at s 0))
      else (\<lparr>f_flags = fl, f_width = digits_val 10 w, f_prec = None\<rparr>, char_at s 0))"

text \<open>
  Padding to the width: on the right, with zeros between the prefix and the digits, or on the left.
\<close>

definition pad :: "fspec \<Rightarrow> bool \<Rightarrow> string \<Rightarrow> string \<Rightarrow> string" where
  "pad f zeros pfx body =
     (let n = f_width f - length pfx - length body in
      if has_flag f (CHR ''-'') then pfx @ body @ replicate n (CHR '' '')
      else if zeros \<and> has_flag f (CHR ''0'') then pfx @ replicate n (CHR ''0'') @ body
      else replicate n (CHR '' '') @ pfx @ body)"

definition sign_of :: "fspec \<Rightarrow> bool \<Rightarrow> string" where
  "sign_of f neg =
     (if neg then ''-'' else if has_flag f (CHR ''+'') then ''+'' else if has_flag f (CHR '' '') then '' '' else [])"

fun base_digits :: "nat \<Rightarrow> bool \<Rightarrow> nat \<Rightarrow> nat \<Rightarrow> string" where
  "base_digits b upper 0 n = []"
| "base_digits b upper (Suc fuel) n =
     (let d = n mod b; c = (if d < 10 then char_of (48 + d) else char_of ((if upper then 55 else 87) + d)) in
      (if n div b = 0 then [] else base_digits b upper fuel (n div b)) @ [c])"

text \<open>The digits of an integer with the least number that the precision asks for; 64 digits are enough for 64 bits.\<close>

definition int_digits :: "fspec \<Rightarrow> nat \<Rightarrow> bool \<Rightarrow> nat \<Rightarrow> string" where
  "int_digits f b upper n =
     (let s = (if n = 0 \<and> f_prec f = Some 0 then [] else base_digits b upper 64 n);
          p = (case f_prec f of None \<Rightarrow> 1 | Some p \<Rightarrow> p) in
      replicate (p - length s) (CHR ''0'') @ s)"

definition sprintf_int :: "fspec \<Rightarrow> int \<Rightarrow> string" where
  "sprintf_int f n = pad f (f_prec f = None) (sign_of f (n < 0)) (int_digits f 10 False (nat \<bar>n\<bar>))"

definition sprintf_unsigned :: "fspec \<Rightarrow> char \<Rightarrow> nat \<Rightarrow> string" where
  "sprintf_unsigned f c n =
     (let b = (if c = CHR ''o'' then 8 else if c = CHR ''u'' then 10 else 16);
          s = int_digits f b (c = CHR ''X'') n;
          alt = has_flag f (CHR ''#'');
          s = (if alt \<and> c = CHR ''o'' \<and> take 1 s \<noteq> ''0'' then CHR ''0'' # s else s);
          pfx = (if alt \<and> n \<noteq> 0 \<and> (c = CHR ''x'' \<or> c = CHR ''X'') then [CHR ''0'', c] else []) in
      pad f (f_prec f = None) pfx s)"

definition sprintf_char :: "fspec \<Rightarrow> char \<Rightarrow> string" where
  "sprintf_char f c = pad f False [] [c]"

definition sprintf_string :: "fspec \<Rightarrow> string \<Rightarrow> string" where
  "sprintf_string f s = pad f False [] (case f_prec f of None \<Rightarrow> cstr s | Some p \<Rightarrow> take p (cstr s))"

text \<open>The digits of a finite double with \<open>p\<close> of them after the point.\<close>

definition point_and :: "fspec \<Rightarrow> string \<Rightarrow> string \<Rightarrow> string" where
  "point_and f a s = (if s = [] \<and> \<not> has_flag f (CHR ''#'') then a else a @ CHR ''.'' # s)"

definition fixed_digits :: "nat \<Rightarrow> lua_Number \<Rightarrow> string" where
  "fixed_digits p d =
     (let s = nat_digits (round_even (dbl_mant d * 2 ^ nat (dbl_pow d) * 10 ^ p) (2 ^ nat (- dbl_pow d))) in
      replicate (p + 1 - length s) (CHR ''0'') @ s)"

text \<open>The first \<open>p\<close> digits and the exponent of ten; both are zero for zero.\<close>

definition exp_digits :: "nat \<Rightarrow> lua_Number \<Rightarrow> string \<times> int" where
  "exp_digits p d =
     (if dbl_zero d then (replicate p (CHR ''0''), 0)
      else let (D, X) = sci_digits p (dbl_mant d * 2 ^ nat (dbl_pow d)) (2 ^ nat (- dbl_pow d)) in (nat_digits D, X))"

definition body_f :: "fspec \<Rightarrow> nat \<Rightarrow> lua_Number \<Rightarrow> string" where
  "body_f f p d = (let s = fixed_digits p d; n = length s - p in point_and f (take n s) (drop n s))"

definition body_e :: "fspec \<Rightarrow> nat \<Rightarrow> lua_Number \<Rightarrow> string" where
  "body_e f p d = (let (s, X) = exp_digits (p + 1) d in point_and f (take 1 s) (drop 1 s) @ exp_suffix X)"

definition body_g :: "fspec \<Rightarrow> nat \<Rightarrow> lua_Number \<Rightarrow> string" where
  "body_g f p d =
     (let p = max p 1; (s, X) = exp_digits p d;
          trim = (if has_flag f (CHR ''#'') then (\<lambda>s. s) else strip_zeros) in
      if X < - 4 \<or> X \<ge> int p then point_and f (take 1 s) (trim (drop 1 s)) @ exp_suffix X
      else if X \<ge> 0 then point_and f (take (nat X + 1) s) (trim (drop (nat X + 1) s))
      else point_and f ''0'' (trim (replicate (nat (- X - 1)) (CHR ''0'') @ s)))"

definition sprintf_double :: "fspec \<Rightarrow> char \<Rightarrow> lua_Number \<Rightarrow> string" where
  "sprintf_double f c d =
     (let p = (case f_prec f of None \<Rightarrow> 6 | Some p \<Rightarrow> p); sign = sign_of f (dbl_neg d);
          finite = dbl_exp d \<noteq> 2047;
          body = (if dbl_nan d then ''nan'' else if dbl_isinf d then ''inf''
                  else if c = CHR ''f'' then body_f f p d
                  else if c = CHR ''e'' \<or> c = CHR ''E'' then body_e f p d else body_g f p d) in
      pad f finite sign (if isupper c then map toupper body else body))"

subsection \<open>Reading a specification\<close>

definition MAX_ITEM :: nat where "MAX_ITEM = 512"
definition LUA_INTFRMLEN :: string where "LUA_INTFRMLEN = ''l''"
definition MAX_FORMAT :: nat where "MAX_FORMAT = (length FLAGS + 1) + (length LUA_INTFRMLEN + 1) + 10"

text \<open>Up to two digits.\<close>

definition skip_digits :: "string \<Rightarrow> nat \<Rightarrow> nat" where
  "skip_digits s p = (let p = (if isdigit (char_at s p) then p + 1 else p) in if isdigit (char_at s p) then p + 1 else p)"

text \<open>
  The conversion character's position in \<open>s\<close>, which starts after the percent sign, and the text in the
  array \<^verbatim>\<open>form\<close>.
\<close>

definition scanformat :: "string \<Rightarrow> (nat \<times> string) res" where
  "scanformat s =
     (let p = length (takeWhile (\<lambda>c. c \<noteq> NUL \<and> c \<in> set FLAGS) s) in
      if p \<ge> length FLAGS + 1 then Inl (RunError ''invalid format (repeated flags)'')
      else
        let p = skip_digits s p;
            p = (if char_at s p = CHR ''.'' then skip_digits s (p + 1) else p) in
        if isdigit (char_at s p) then Inl (RunError ''invalid format (width or precision too long)'')
        else if p + 3 > MAX_FORMAT then Inl BufferOverflow
        else Inr (p, CHR ''%'' # map (char_at s) [0..<p + 1]))"

text \<open>The length modifier goes before the conversion.\<close>

definition addintlen :: "string \<Rightarrow> string res" where
  "addintlen form =
     (let s = butlast form @ LUA_INTFRMLEN @ [last form] in
      if length s < MAX_FORMAT then Inr s else Inl BufferOverflow)"

definition item_text :: "string \<Rightarrow> string res" where
  "item_text s = (if length s < MAX_ITEM then Inr (cstr s) else Inl BufferOverflow)"

end
