(* ===== verification/LuaStrlib.thy ===== *)
theory LuaStrlib
  imports LuaAux LuaFormat
begin

unbundle bit_operations_syntax

section \<open>The string library\<close>

text \<open>
  \<^verbatim>\<open>lstrlib.c\<close>: each function takes its arguments from the stack and gives the number of its
  results, which it leaves on the stack. The pattern matcher and the formats have their own theories.
\<close>

subsection \<open>Simple functions\<close>

definition str_len :: cfunction where
  "str_len call = mbind (luaL_checklstring call 1) (\<lambda>s. mseq (lua_pushinteger (int (length s))) (mret 1))"

definition posrelat :: "int \<Rightarrow> nat \<Rightarrow> int" where
  "posrelat pos len = (let pos = (if pos < 0 then pos + int len + 1 else pos) in if pos \<ge> 0 then pos else 0)"

text \<open>The characters from \<open>i\<close> to \<open>j\<close>, counted from 1.\<close>

definition substring :: "string \<Rightarrow> int \<Rightarrow> int \<Rightarrow> string" where
  "substring s i j = take (nat (j - i + 1)) (drop (nat (i - 1)) s)"

definition str_sub :: cfunction where
  "str_sub call =
     mbind (luaL_checklstring call 1) (\<lambda>s.
     mbind (luaL_checkinteger call 2) (\<lambda>i.
     mbind (luaL_optinteger call 3 (- 1)) (\<lambda>j.
       let l = length s;
           start = max 1 (posrelat i l);
           stop = min (int l) (posrelat j l) in
       mseq (lua_pushlstring (if start \<le> stop then substring s start stop else []))
         (mret 1))))"

definition str_reverse :: cfunction where
  "str_reverse call =
     mbind (luaL_checklstring call 1) (\<lambda>s.
     mbind (luaL_addlstring call luaL_buffinit (rev s)) (\<lambda>B.
     mbind (luaL_pushresult call B) (\<lambda>_. mret 1)))"

definition str_lower :: cfunction where
  "str_lower call =
     mbind (luaL_checklstring call 1) (\<lambda>s.
     mbind (luaL_addlstring call luaL_buffinit (map tolower s)) (\<lambda>B.
     mbind (luaL_pushresult call B) (\<lambda>_. mret 1)))"

definition str_upper :: cfunction where
  "str_upper call =
     mbind (luaL_checklstring call 1) (\<lambda>s.
     mbind (luaL_addlstring call luaL_buffinit (map toupper s)) (\<lambda>B.
     mbind (luaL_pushresult call B) (\<lambda>_. mret 1)))"

primrec add_times :: "callfun \<Rightarrow> nat \<Rightarrow> string \<Rightarrow> luaL_Buffer \<Rightarrow> luaL_Buffer lm" where
  "add_times call 0 s B = mret B"
| "add_times call (Suc n) s B = mbind (luaL_addlstring call B s) (add_times call n s)"

definition str_rep :: cfunction where
  "str_rep call =
     mbind (luaL_checklstring call 1) (\<lambda>s.
     mbind (luaL_checkint call 2) (\<lambda>n.
     mbind (add_times call (nat n) s luaL_buffinit) (\<lambda>B.
     mbind (luaL_pushresult call B) (\<lambda>_. mret 1))))"

primrec push_bytes :: "string \<Rightarrow> unit lm" where
  "push_bytes [] = mret ()"
| "push_bytes (c # cs) = mseq (lua_pushinteger (int (uchar c))) (push_bytes cs)"

text \<open>The comparison with the length is unsigned, and the number of results an \<^verbatim>\<open>int\<close>.\<close>

definition str_byte :: cfunction where
  "str_byte call =
     mbind (luaL_checklstring call 1) (\<lambda>s.
     mbind (luaL_optinteger call 2 1) (\<lambda>i.
     let l = length s; posi = posrelat i l in
     mbind (luaL_optinteger call 3 posi) (\<lambda>j.
       let pose = posrelat j l;
           posi = (if posi \<le> 0 then 1 else posi);
           pose = (if pose > int l then int l else pose) in
       if posi > pose then mret 0
       else
         let n = cast_int (pose - posi + 1) in
         mseq (if posi + n \<le> pose then luaL_error call ''string slice too long'' [] else mret ())
         (mseq (luaL_checkstack call n ''string slice too long'')
         (mseq (push_bytes (take (nat n) (drop (nat posi - 1) s)))
           (mret n))))))"

primrec add_chars :: "callfun \<Rightarrow> int list \<Rightarrow> luaL_Buffer \<Rightarrow> luaL_Buffer lm" where
  "add_chars call [] B = mret B"
| "add_chars call (i # is) B =
     mbind (luaL_checkint call i) (\<lambda>c.
     mseq (luaL_argcheck call (0 \<le> c \<and> c \<le> 255) i ''invalid value'')
     (mbind (luaL_addchar call B (char_of (nat c))) (add_chars call is)))"

definition str_char :: cfunction where
  "str_char call =
     mbind lua_gettop (\<lambda>n.
     mbind (add_chars call [1..n] luaL_buffinit) (\<lambda>B.
     mbind (luaL_pushresult call B) (\<lambda>_. mret 1)))"

text \<open>
  \<^verbatim>\<open>lua_dump\<close> with the writer of this library. \<^verbatim>\<open>luaU_dump\<close> does not look at the state, so that its
  blocks may be collected and added to the buffer afterwards.
\<close>

definition lua_dump :: "'w lua_Writer \<Rightarrow> 'w \<Rightarrow> (int \<times> 'w) lm" where
  "lua_dump w d =
     mseq (checknelems 1)
     (mbind (mget (\<lambda>L. top L - 1)) (\<lambda>i. mbind (getstk i) (\<lambda>v.
       case v of
         FunctionRef _ \<Rightarrow> mbind (clos v) (\<lambda>(_, f).
           case f of LClosure _ p _ \<Rightarrow> mret (luaU_dump p w d False) | CClosure _ _ _ \<Rightarrow> mret (1, d))
       | _ \<Rightarrow> mret (1, d))))"

definition str_dump :: cfunction where
  "str_dump call =
     mseq (luaL_checktype call 1 LUA_TFUNCTION)
     (mseq (lua_settop 1)
     (mbind (lua_dump str_writer []) (\<lambda>(r, s).
      mbind (luaL_addlstring call luaL_buffinit s) (\<lambda>B.
        mseq (if r \<noteq> 0 then luaL_error call ''unable to dump given function'' [] else mret ())
          (mbind (luaL_pushresult call B) (\<lambda>_. mret 1))))))"

subsection \<open>Searching\<close>

text \<open>An error of the matcher is raised by \<^verbatim>\<open>luaL_error\<close>.\<close>

definition pattern_op :: "callfun \<Rightarrow> 'a res \<Rightarrow> 'a lm" where
  "pattern_op call r = (case r of Inl (RunError m) \<Rightarrow> luaL_error call ''%s'' [FS (Some m)] | _ \<Rightarrow> mlift r)"

text \<open>\<^verbatim>\<open>memchr\<close> in the first \<open>n\<close> bytes.\<close>

definition memchr :: "string \<Rightarrow> char \<Rightarrow> nat \<Rightarrow> nat option" where
  "memchr s c n = find (\<lambda>i. char_at s i = c) [0..<min n (length s)]"

text \<open>\<open>l1\<close> counts the places where the first character can still be; \<open>pos\<close> is where \<open>s1\<close> starts.\<close>

function memfind_loop :: "string \<Rightarrow> nat \<Rightarrow> string \<Rightarrow> nat \<Rightarrow> nat option" where
  "memfind_loop s1 l1 s2 pos =
     (if l1 > 0 then
        case memchr s1 (hd s2) l1 of
          None \<Rightarrow> None
        | Some i \<Rightarrow>
            if take (length s2 - 1) (drop (i + 1) s1) = tl s2 then Some (pos + i)
            else memfind_loop (drop (i + 1) s1) (l1 - (i + 1)) s2 (pos + i + 1)
      else None)"
  by pat_completeness auto
termination by (relation "measure (\<lambda>(_, l1, _, _). l1)") auto

declare memfind_loop.simps [simp del]

definition lmemfind :: "string \<Rightarrow> string \<Rightarrow> nat option" where
  "lmemfind s1 s2 =
     (if s2 = [] then Some 0
      else if length s2 > length s1 then None
      else memfind_loop s1 (length s1 - (length s2 - 1)) s2 0)"

text \<open>The subject is \<open>src\<close>; the whole match is from \<open>s\<close> to \<open>e\<close>.\<close>

definition push_onecapture :: "callfun \<Rightarrow> string \<Rightarrow> MatchState \<Rightarrow> nat \<Rightarrow> nat \<Rightarrow> nat \<Rightarrow> unit lm" where
  "push_onecapture call src ms i s e =
     (if i \<ge> ms_level ms then
        if i = 0 then lua_pushlstring (take (e - s) (drop s src))
        else luaL_error call ''invalid capture index'' []
      else
        let l = cap_len ms i in
        if l = CAP_UNFINISHED then luaL_error call ''unfinished capture'' []
        else if l = CAP_POSITION then lua_pushinteger (int (cap_init ms i) + 1)
        else lua_pushlstring (take (nat l) (drop (cap_init ms i) src)))"

primrec push_each :: "callfun \<Rightarrow> string \<Rightarrow> MatchState \<Rightarrow> nat list \<Rightarrow> nat \<Rightarrow> nat \<Rightarrow> unit lm" where
  "push_each call src ms [] s e = mret ()"
| "push_each call src ms (i # is) s e = mseq (push_onecapture call src ms i s e) (push_each call src ms is s e)"

text \<open>\<open>whole\<close> is the whole match, if it counts when there are no captures.\<close>

definition push_captures :: "callfun \<Rightarrow> string \<Rightarrow> MatchState \<Rightarrow> (nat \<times> nat) option \<Rightarrow> int lm" where
  "push_captures call src ms whole =
     (let nlevels = (if ms_level ms = 0 \<and> whole \<noteq> None then 1 else ms_level ms);
          (s, e) = (case whole of Some x \<Rightarrow> x | None \<Rightarrow> (0, 0)) in
      mseq (luaL_checkstack call (int nlevels) ''too many captures'')
      (mseq (push_each call src ms [0..<nlevels] s e)
        (mret (int nlevels))))"

text \<open>The search from \<open>s1\<close> on: the start, the end and the captures. \<open>n\<close> is the number of places left.\<close>

fun search_from :: "callfun \<Rightarrow> string \<Rightarrow> string \<Rightarrow> bool \<Rightarrow> nat \<Rightarrow> nat \<Rightarrow> (nat \<times> nat \<times> MatchState) option lm" where
  "search_from call src pat anchor s1 n =
     mbind (pattern_op call (match src pat match_start s1 0)) (\<lambda>(r, ms).
       case r of
         Some e \<Rightarrow> mret (Some (s1, e, ms))
       | None \<Rightarrow>
           (case n of
              0 \<Rightarrow> mret None
            | Suc m \<Rightarrow> if anchor then mret None else search_from call src pat anchor (s1 + 1) m))"

definition anchored :: "string \<Rightarrow> bool \<times> string" where
  "anchored p = (if char_at p 0 = CHR ''^'' then (True, drop 1 p) else (False, p))"

definition str_find_aux :: "bool \<Rightarrow> cfunction" where
  "str_find_aux fnd call =
     mbind (luaL_checklstring call 1) (\<lambda>s.
     mbind (luaL_checklstring call 2) (\<lambda>p.
     mbind (luaL_optinteger call 3 1) (\<lambda>i.
       let init = posrelat i (length s) - 1;
           init = (if init < 0 then 0 else if init > int (length s) then length s else nat init) in
       mbind (if fnd then mbind (lua_toboolean 4) (\<lambda>plain. mret (plain \<or> (\<forall>c\<in>set (cstr p). c \<notin> set SPECIALS)))
              else mret False) (\<lambda>plain.
         if plain then
           case lmemfind (drop init s) p of
             Some k \<Rightarrow>
               mseq (lua_pushinteger (int (init + k) + 1))
               (mseq (lua_pushinteger (int (init + k + length p))) (mret 2))
           | None \<Rightarrow> mseq lua_pushnil (mret 1)
         else
           let (anchor, pat) = anchored p in
           mbind (search_from call s pat anchor init (length s - init)) (\<lambda>r.
             case r of
               Some (s1, e, ms) \<Rightarrow>
                 if fnd then
                   mseq (lua_pushinteger (int s1 + 1))
                   (mseq (lua_pushinteger (int e))
                   (mbind (push_captures call s ms None) (\<lambda>n. mret (n + 2))))
                 else push_captures call s ms (Some (s1, e))
             | None \<Rightarrow> mseq lua_pushnil (mret 1))))))"

definition str_find :: cfunction where "str_find = str_find_aux True"
definition str_match :: cfunction where "str_match = str_find_aux False"


text \<open>The loop of the iterator; a subject that is not a string any more has no meaning.\<close>

definition gmatch_aux :: cfunction where
  "gmatch_aux call =
     mbind (lua_tolstring (lua_upvalueindex 1)) (\<lambda>s. mbind (lua_tolstring (lua_upvalueindex 2)) (\<lambda>p.
     mbind (lua_tointeger (lua_upvalueindex 3)) (\<lambda>start.
       case (s, p) of
         (Some s, Some p) \<Rightarrow>
           if start > int (length s) then mret 0
           else
             mbind (search_from call s p False (nat start) (length s - nat start)) (\<lambda>r.
               case r of
                 None \<Rightarrow> mret 0
               | Some (src, e, ms) \<Rightarrow>
                   mseq (lua_pushinteger (if e = src then int e + 1 else int e))
                   (mseq (lua_replace (lua_upvalueindex 3))
                     (push_captures call s ms (Some (src, e)))))
       | _ \<Rightarrow> mfail UndefinedAccess)))"

text \<open>\<open>aux\<close> is the function \<^verbatim>\<open>gmatch_aux\<close> as a pointer.\<close>

definition gmatch :: "nat \<Rightarrow> cfunction" where
  "gmatch aux call =
     mbind (luaL_checkstring call 1) (\<lambda>_. mbind (luaL_checkstring call 2) (\<lambda>_.
     mseq (lua_settop 2)
     (mseq (lua_pushinteger 0)
     (mseq (lua_pushcclosure aux 3)
       (mret 1)))))"

definition gfind_nodef :: cfunction where
  "gfind_nodef call = luaL_error call (LUA_QL ''string.gfind'' @ '' was renamed to '' @ LUA_QL ''string.gmatch'') []"


subsection \<open>Substitution\<close>

text \<open>
  The replacement string; after an escape at its end the terminator is read, which is added as a character.
\<close>

fun add_s :: "callfun \<Rightarrow> string \<Rightarrow> MatchState \<Rightarrow> nat \<Rightarrow> nat \<Rightarrow> string \<Rightarrow> luaL_Buffer \<Rightarrow> luaL_Buffer lm" where
  "add_s call src ms s e [] B = mret B"
| "add_s call src ms s e (c # news) B =
     (if c \<noteq> L_ESC then mbind (luaL_addchar call B c) (add_s call src ms s e news)
      else
        case news of
          [] \<Rightarrow> luaL_addchar call B NUL
        | d # news' \<Rightarrow>
            mbind (if \<not> isdigit d then luaL_addchar call B d
                   else if d = CHR ''0'' then luaL_addlstring call B (take (e - s) (drop s src))
                   else mseq (push_onecapture call src ms (uchar d - 49) s e) (luaL_addvalue call B))
              (add_s call src ms s e news'))"

definition add_value :: "callfun \<Rightarrow> string \<Rightarrow> MatchState \<Rightarrow> nat \<Rightarrow> nat \<Rightarrow> luaL_Buffer \<Rightarrow> luaL_Buffer lm" where
  "add_value call src ms s e B =
     mbind (lua_type 3) (\<lambda>ty.
       if ty = int (tag_num LUA_TNUMBER) \<or> ty = int (tag_num LUA_TSTRING) then
         mbind (lua_tolstring 3) (\<lambda>news. case news of Some news \<Rightarrow> add_s call src ms s e news B | None \<Rightarrow> mfail UndefinedAccess)
       else
         mseq (if ty = int (tag_num LUA_TFUNCTION) then
                 mseq (lua_pushvalue 3)
                 (mbind (push_captures call src ms (Some (s, e))) (\<lambda>n. lua_call call (nat n) 1))
               else if ty = int (tag_num LUA_TTABLE) then
                 mseq (push_onecapture call src ms 0 s e) (lua_gettable call 3)
               else mret ())
         (mbind (lua_toboolean (- 1)) (\<lambda>t.
          mseq (if \<not> t then mseq (lua_pop 1) (lua_pushlstring (take (e - s) (drop s src)))
                else mbind (lua_isstring (- 1)) (\<lambda>ok.
                  if \<not> ok then mbind (luaL_typename (- 1)) (\<lambda>tn.
                    luaL_error call ''invalid replacement value (a %s)'' [FS (Some tn)])
                  else mret ()))
            (luaL_addvalue call B))))"

text \<open>
  The loop of \<^verbatim>\<open>str_gsub\<close>: every round goes on in the subject or ends, so its length is enough
  rounds. The result is the place that was reached and the number of substitutions.
\<close>

fun gsub_rounds :: "callfun \<Rightarrow> string \<Rightarrow> string \<Rightarrow> bool \<Rightarrow> int \<Rightarrow> nat \<Rightarrow> nat \<Rightarrow> int \<Rightarrow> luaL_Buffer \<Rightarrow> (nat \<times> int \<times> luaL_Buffer) lm" where
  "gsub_rounds call src pat anchor max_s 0 s n B = mfail OutOfFuel"
| "gsub_rounds call src pat anchor max_s (Suc fuel) s n B =
     (if n < max_s then
        mbind (pattern_op call (match src pat match_start s 0)) (\<lambda>(r, ms).
        mbind (case r of Some e \<Rightarrow> add_value call src ms s e B | None \<Rightarrow> mret B) (\<lambda>B.
          let n = (if r \<noteq> None then n + 1 else n) in
          case (case r of Some e \<Rightarrow> if e > s then Some (e, mret B) else None | None \<Rightarrow> None) of
            Some (e, m) \<Rightarrow> mbind m (\<lambda>B. if anchor then mret (e, n, B) else gsub_rounds call src pat anchor max_s fuel e n B)
          | None \<Rightarrow>
              if s < length src then
                mbind (luaL_addchar call B (char_at src s)) (\<lambda>B.
                  if anchor then mret (s + 1, n, B) else gsub_rounds call src pat anchor max_s fuel (s + 1) n B)
              else mret (s, n, B)))
      else mret (s, n, B))"

definition str_gsub :: cfunction where
  "str_gsub call =
     mbind (luaL_checklstring call 1) (\<lambda>src.
     mbind (luaL_checklstring call 2) (\<lambda>p.
     mbind (lua_type 3) (\<lambda>tr.
     mbind (luaL_optint call 4 (int (length src) + 1)) (\<lambda>max_s.
       let (anchor, pat) = anchored p in
       mseq (luaL_argcheck call (tr = int (tag_num LUA_TNUMBER) \<or> tr = int (tag_num LUA_TSTRING) \<or>
                tr = int (tag_num LUA_TFUNCTION) \<or> tr = int (tag_num LUA_TTABLE)) 3 ''string/function/table expected'')
       (mbind (gsub_rounds call src pat anchor max_s (length src + 2) 0 0 luaL_buffinit) (\<lambda>(s, n, B).
        mbind (luaL_addlstring call B (drop s src)) (\<lambda>B.
        mbind (luaL_pushresult call B) (\<lambda>_.
        mseq (lua_pushinteger n) (mret 2)))))))))"

subsection \<open>Formats\<close>

definition quoted_char :: "char \<Rightarrow> string" where
  "quoted_char c =
     (if c = CHR 0x22 \<or> c = CHR 0x5C \<or> c = CHR 0x0A then [CHR 0x5C, c]
      else if c = CHR 0x0D then CHR 0x5C # ''r''
      else if c = NUL then CHR 0x5C # ''000''
      else [c])"

definition addquoted :: "callfun \<Rightarrow> luaL_Buffer \<Rightarrow> int \<Rightarrow> luaL_Buffer lm" where
  "addquoted call B arg =
     mbind (luaL_checklstring call arg) (\<lambda>s.
     mbind (luaL_addchar call B (CHR 0x22)) (\<lambda>B.
     mbind (luaL_addlstring call B (concat (map quoted_char s))) (\<lambda>B.
       luaL_addchar call B (CHR 0x22))))"

text \<open>
  The conversion of a double to \<^verbatim>\<open>unsigned long\<close>: a negative one wraps, as the conversion on x86-64
  goes through the signed type.
\<close>

definition num2unsigned :: "lua_Number \<Rightarrow> nat" where
  "num2unsigned d =
     (if dbl_exp d \<noteq> 2047 \<and> 2 ^ 63 \<le> dbl_trunc d then (if dbl_trunc d < 2 ^ 64 then nat (dbl_trunc d) else 0)
      else nat (lua_number2integer d mod 2 ^ 64))"

text \<open>One item: \<open>form\<close> is the specification and \<open>c\<close> the conversion.\<close>

definition format_item :: "callfun \<Rightarrow> string \<Rightarrow> char \<Rightarrow> int \<Rightarrow> luaL_Buffer \<Rightarrow> luaL_Buffer lm" where
  "format_item call form c arg B =
     (let f = fst (read_spec (drop 1 form));
          add = (\<lambda>s. mbind (mlift (item_text s)) (luaL_addlstring call B)) in
      if c = CHR ''c'' then
        mbind (luaL_checknumber call arg) (\<lambda>d.
          add (sprintf_char f (char_of (nat (number2int d mod 256)))))
      else if c = CHR ''d'' \<or> c = CHR ''i'' then
        mbind (mlift (addintlen form)) (\<lambda>_. mbind (luaL_checknumber call arg) (\<lambda>d.
          add (sprintf_int f (lua_number2integer d))))
      else if c = CHR ''o'' \<or> c = CHR ''u'' \<or> c = CHR ''x'' \<or> c = CHR ''X'' then
        mbind (mlift (addintlen form)) (\<lambda>_. mbind (luaL_checknumber call arg) (\<lambda>d.
          add (sprintf_unsigned f c (num2unsigned d))))
      else if c = CHR ''e'' \<or> c = CHR ''E'' \<or> c = CHR ''f'' \<or> c = CHR ''g'' \<or> c = CHR ''G'' then
        mbind (luaL_checknumber call arg) (\<lambda>d. add (sprintf_double f c d))
      else if c = CHR ''q'' then addquoted call B arg
      else if c = CHR ''s'' then
        mbind (luaL_checklstring call arg) (\<lambda>s.
          if CHR ''.'' \<notin> set form \<and> length s \<ge> 100 then mseq (lua_pushvalue arg) (luaL_addvalue call B)
          else add (sprintf_string f s))
      else luaL_error call (''invalid option '' @ LUA_QL ''%%%c'' @ '' to '' @ LUA_QL ''format'') [FC c])"

text \<open>The loop over the format; \<open>fuel\<close> bounds the number of items, of which there are fewer than characters.\<close>

fun format_loop :: "callfun \<Rightarrow> nat \<Rightarrow> string \<Rightarrow> int \<Rightarrow> luaL_Buffer \<Rightarrow> luaL_Buffer lm" where
  "format_loop call 0 s arg B = mfail OutOfFuel"
| "format_loop call (Suc fuel) s arg B =
     (case s of
        [] \<Rightarrow> mret B
      | c # s \<Rightarrow>
          if c \<noteq> L_ESC then mbind (luaL_addchar call B c) (format_loop call fuel s arg)
          else if char_at s 0 = L_ESC then mbind (luaL_addchar call B L_ESC) (format_loop call fuel (drop 1 s) arg)
          else
            mbind (pattern_op call (scanformat s)) (\<lambda>(p, form).
            mbind (format_item call form (char_at s p) (arg + 1) B) (format_loop call fuel (drop (p + 1) s) (arg + 1))))"

definition str_format :: cfunction where
  "str_format call =
     mbind (luaL_checklstring call 1) (\<lambda>s.
     mbind (format_loop call (length s + 1) s 1 luaL_buffinit) (\<lambda>B.
     mbind (luaL_pushresult call B) (\<lambda>_. mret 1)))"

subsection \<open>The library\<close>

text \<open>
  A C function is a number, its pointer. \<open>ptr\<close> gives the pointers of the functions by their names.
\<close>

definition strlib :: "(string \<Rightarrow> nat) \<Rightarrow> luaL_Reg list" where
  "strlib ptr =
     [(''byte'', ptr ''str_byte''), (''char'', ptr ''str_char''), (''dump'', ptr ''str_dump''), (''find'', ptr ''str_find''),
      (''format'', ptr ''str_format''), (''gfind'', ptr ''gfind_nodef''), (''gmatch'', ptr ''gmatch''), (''gsub'', ptr ''str_gsub''),
      (''len'', ptr ''str_len''), (''lower'', ptr ''str_lower''), (''match'', ptr ''str_match''), (''rep'', ptr ''str_rep''),
      (''reverse'', ptr ''str_reverse''), (''sub'', ptr ''str_sub''), (''upper'', ptr ''str_upper'')]"

definition createmetatable :: "callfun \<Rightarrow> unit lm" where
  "createmetatable call =
     mseq (lua_createtable 0 1)
     (mseq (lua_pushlstring [])
     (mseq (lua_pushvalue (- 2))
     (mseq (lua_setmetatable (- 2))
     (mseq (lua_pop 1)
     (mseq (lua_pushvalue (- 2))
     (mseq (lua_setfield call (- 2) ''__index'')
       (lua_pop 1)))))))"

definition luaopen_string :: "(string \<Rightarrow> nat) \<Rightarrow> cfunction" where
  "luaopen_string ptr call =
     mseq (luaL_register call (Some ''string'') (strlib ptr))
     (mseq (lua_getfield call (- 1) ''gmatch'')
     (mseq (lua_setfield call (- 2) ''gfind'')
     (mseq (createmetatable call) (mret 1))))"

end
