(* ===== verification/LuaTablib.thy ===== *)
theory LuaTablib
  imports LuaAux LuaPattern
begin

section \<open>The table library\<close>

text \<open>
  \<^verbatim>\<open>ltablib.c\<close>: the functions on arrays and the sort. The loops over indices are recursive functions
  on what is left of the range; \<open>fuel\<close> bounds the traversal of a table whose callback may change it, and the
  rounds of the sort, which need not end when the order function is not an order.
\<close>

definition luaL_getn :: "int \<Rightarrow> int lm" where
  "luaL_getn i = mbind (lua_objlen i) (\<lambda>n. mret (cast_int (int n)))"

definition aux_getn :: "callfun \<Rightarrow> int \<Rightarrow> int lm" where
  "aux_getn call n = mseq (luaL_checktype call n LUA_TTABLE) (luaL_getn n)"

subsection \<open>Traversals\<close>

function foreachi_loop :: "callfun \<Rightarrow> int \<Rightarrow> int \<Rightarrow> int lm" where
  "foreachi_loop call i n =
     (if i \<le> n then
        mseq (lua_pushvalue 2)
        (mseq (lua_pushinteger i)
        (mseq (lua_rawgeti 1 i)
        (mseq (lua_call call 2 1)
        (mbind (lua_isnil (- 1)) (\<lambda>isnil.
          if \<not> isnil then mret 1
          else mseq (lua_pop 1) (foreachi_loop call (i + 1) n))))))
      else mret 0)"
  by pat_completeness auto
termination by (relation "measure (\<lambda>(_, i, n). nat (n + 1 - i))") auto

definition foreachi :: cfunction where
  "foreachi call =
     mbind (aux_getn call 1) (\<lambda>n.
     mseq (luaL_checktype call 2 LUA_TFUNCTION) (foreachi_loop call 1 n))"

fun foreach_loop :: "callfun \<Rightarrow> nat \<Rightarrow> int lm" where
  "foreach_loop call 0 = mfail OutOfFuel"
| "foreach_loop call (Suc fuel) =
     mbind (lua_next 1) (\<lambda>more.
       if \<not> more then mret 0
       else
         mseq (lua_pushvalue 2)
         (mseq (lua_pushvalue (- 3))
         (mseq (lua_pushvalue (- 3))
         (mseq (lua_call call 2 1)
         (mbind (lua_isnil (- 1)) (\<lambda>isnil.
           if \<not> isnil then mret 1
           else mseq (lua_pop 2) (foreach_loop call fuel)))))))"

definition foreach :: "nat \<Rightarrow> cfunction" where
  "foreach fuel call =
     mseq (luaL_checktype call 1 LUA_TTABLE)
     (mseq (luaL_checktype call 2 LUA_TFUNCTION)
     (mseq lua_pushnil
       (foreach_loop call fuel)))"

fun maxn_loop :: "nat \<Rightarrow> lua_Number \<Rightarrow> lua_Number lm" where
  "maxn_loop 0 m = mfail OutOfFuel"
| "maxn_loop (Suc fuel) m =
     mbind (lua_next 1) (\<lambda>more.
       if \<not> more then mret m
       else
         mseq (lua_pop 1)
         (mbind (lua_type (- 1)) (\<lambda>ty.
         mbind (if ty = int (tag_num LUA_TNUMBER) then
                  mbind (lua_tonumber (- 1)) (\<lambda>v. mret (if luai_numlt m v then v else m))
                else mret m) (maxn_loop fuel))))"

text \<open>The table does not change, and has at most as many entries as slots.\<close>

definition maxn :: cfunction where
  "maxn call =
     mseq (luaL_checktype call 1 LUA_TTABLE)
     (mseq lua_pushnil
     (mbind (index_val 1) (\<lambda>v. mbind (tbl v) (\<lambda>(_, t).
      mbind (maxn_loop (sizearray t + sizenode t + 1) (cast_num 0)) (\<lambda>m.
      mseq (lua_pushnumber m) (mret 1))))))"

definition getn :: cfunction where
  "getn call = mbind (aux_getn call 1) (\<lambda>n. mseq (lua_pushinteger n) (mret 1))"

definition setn :: cfunction where
  "setn call =
     mseq (luaL_checktype call 1 LUA_TTABLE)
       (luaL_error call (LUA_QL ''setn'' @ '' is obsolete'') [])"

subsection \<open>Insertion, removal and concatenation\<close>

text \<open>\<open>n\<close> elements move, those below \<open>i\<close> first up, those above \<open>pos\<close> first down.\<close>

primrec move_up :: "nat \<Rightarrow> int \<Rightarrow> unit lm" where
  "move_up 0 i = mret ()"
| "move_up (Suc n) i = mseq (lua_rawgeti 1 (i - 1)) (mseq (lua_rawseti 1 i) (move_up n (i - 1)))"

primrec move_down :: "nat \<Rightarrow> int \<Rightarrow> unit lm" where
  "move_down 0 pos = mret ()"
| "move_down (Suc n) pos = mseq (lua_rawgeti 1 (pos + 1)) (mseq (lua_rawseti 1 pos) (move_down n (pos + 1)))"

definition tinsert :: cfunction where
  "tinsert call =
     mbind (aux_getn call 1) (\<lambda>n.
     let e = cast_int (n + 1) in
     mbind lua_gettop (\<lambda>t.
     mbind (if t = 2 then mret e
            else if t = 3 then
              mbind (luaL_checkint call 2) (\<lambda>pos.
                let e = (if pos > e then pos else e) in mseq (move_up (nat (e - pos)) e) (mret pos))
            else luaL_error call (''wrong number of arguments to '' @ LUA_QL ''insert'') []) (\<lambda>pos.
       mseq (lua_rawseti 1 pos) (mret 0))))"

definition tremove :: cfunction where
  "tremove call =
     mbind (aux_getn call 1) (\<lambda>e.
     mbind (luaL_optint call 2 e) (\<lambda>pos.
       if \<not> (1 \<le> pos \<and> pos \<le> e) then mret 0
       else
         mseq (lua_rawgeti 1 pos)
         (mseq (move_down (nat (e - pos)) pos)
         (mseq lua_pushnil
         (mseq (lua_rawseti 1 e)
           (mret 1))))))"

definition addfield :: "callfun \<Rightarrow> luaL_Buffer \<Rightarrow> int \<Rightarrow> luaL_Buffer lm" where
  "addfield call B i =
     mseq (lua_rawgeti 1 i)
     (mbind (lua_isstring (- 1)) (\<lambda>ok.
      mseq (if \<not> ok then
              mbind (luaL_typename (- 1)) (\<lambda>tn.
                luaL_error call (''invalid value (%s) at index %d in table for '' @ LUA_QL ''concat'') [FS (Some tn), FD i])
            else mret ())
        (luaL_addvalue call B)))"

function tconcat_loop :: "callfun \<Rightarrow> string \<Rightarrow> int \<Rightarrow> int \<Rightarrow> luaL_Buffer \<Rightarrow> luaL_Buffer lm" where
  "tconcat_loop call sep i e B =
     (if i < e then
        mbind (addfield call B i) (\<lambda>B.
        mbind (luaL_addlstring call B sep) (\<lambda>B. tconcat_loop call sep (i + 1) e B))
      else if i = e then addfield call B i
      else mret B)"
  by pat_completeness auto
termination by (relation "measure (\<lambda>(_, _, i, e, _). nat (e - i))") auto

definition tconcat :: cfunction where
  "tconcat call =
     mbind (luaL_optlstring call 2 (Some [])) (\<lambda>sep.
     mseq (luaL_checktype call 1 LUA_TTABLE)
     (mbind (luaL_optint call 3 1) (\<lambda>i.
      mbind (lua_isnoneornil 4) (\<lambda>none.
      mbind (if none then luaL_getn 1 else luaL_checkint call 4) (\<lambda>e.
      mbind (tconcat_loop call (the sep) i e luaL_buffinit) (\<lambda>B.
      mbind (luaL_pushresult call B) (\<lambda>_. mret 1)))))))"

declare foreachi_loop.simps [simp del] tconcat_loop.simps [simp del]

subsection \<open>Sorting\<close>

definition set2 :: "int \<Rightarrow> int \<Rightarrow> unit lm" where
  "set2 i j = mseq (lua_rawseti 1 i) (lua_rawseti 1 j)"

definition sort_comp :: "callfun \<Rightarrow> int \<Rightarrow> int \<Rightarrow> bool lm" where
  "sort_comp call x y =
     mbind (lua_isnil 2) (\<lambda>isnil.
       if \<not> isnil then
         mseq (lua_pushvalue 2)
         (mseq (lua_pushvalue (x - 1))
         (mseq (lua_pushvalue (y - 2))
         (mseq (lua_call call 2 1)
         (mbind (lua_toboolean (- 1)) (\<lambda>res.
          mseq (lua_pop 1) (mret res))))))
       else lua_lessthan call x y)"

text \<open>The two inner loops: they leave the element at which they stop on the stack.\<close>

function scan_up :: "callfun \<Rightarrow> int \<Rightarrow> int \<Rightarrow> int lm" where
  "scan_up call u i =
     mseq (lua_rawgeti 1 (i + 1))
     (mbind (sort_comp call (- 1) (- 2)) (\<lambda>lt.
       if \<not> lt then mret (i + 1)
       else if i + 1 > u then luaL_error call ''invalid order function for sorting'' []
       else mseq (lua_pop 1) (scan_up call u (i + 1))))"
  by pat_completeness auto
termination by (relation "measure (\<lambda>(_, u, i). nat (u - i))") auto

function scan_down :: "callfun \<Rightarrow> int \<Rightarrow> int \<Rightarrow> int lm" where
  "scan_down call l j =
     mseq (lua_rawgeti 1 (j - 1))
     (mbind (sort_comp call (- 3) (- 1)) (\<lambda>lt.
       if \<not> lt then mret (j - 1)
       else if j - 1 < l then luaL_error call ''invalid order function for sorting'' []
       else mseq (lua_pop 1) (scan_down call l (j - 1))))"
  by pat_completeness auto
termination by (relation "measure (\<lambda>(_, l, j). nat (j - l))") auto

declare scan_up.simps [simp del] scan_down.simps [simp del]

text \<open>\<open>i\<close> and \<open>j\<close> move towards each other, so that there are at most \<open>u - l\<close> rounds.\<close>

fun partition_loop :: "callfun \<Rightarrow> nat \<Rightarrow> int \<Rightarrow> int \<Rightarrow> int \<Rightarrow> int \<Rightarrow> int lm" where
  "partition_loop call 0 l u i j = mfail OutOfFuel"
| "partition_loop call (Suc fuel) l u i j =
     mbind (scan_up call u i) (\<lambda>i.
     mbind (scan_down call l j) (\<lambda>j.
       if j < i then mseq (lua_pop 3) (mret i)
       else mseq (set2 i j) (partition_loop call fuel l u i j)))"

definition order_ends :: "callfun \<Rightarrow> int \<Rightarrow> int \<Rightarrow> unit lm" where
  "order_ends call l u =
     mseq (lua_rawgeti 1 l)
     (mseq (lua_rawgeti 1 u)
     (mbind (sort_comp call (- 1) (- 2)) (\<lambda>lt.
       if lt then set2 l u else lua_pop 2)))"

definition order_middle :: "callfun \<Rightarrow> int \<Rightarrow> int \<Rightarrow> int \<Rightarrow> unit lm" where
  "order_middle call i l u =
     mseq (lua_rawgeti 1 i)
     (mseq (lua_rawgeti 1 l)
     (mbind (sort_comp call (- 2) (- 1)) (\<lambda>lt.
       if lt then set2 i l
       else
         mseq (lua_pop 1)
         (mseq (lua_rawgeti 1 u)
         (mbind (sort_comp call (- 1) (- 2)) (\<lambda>lt.
           if lt then set2 i u else lua_pop 2))))))"

text \<open>The pivot goes to the end but one, and after the partition to its place.\<close>

definition pivot_out :: "int \<Rightarrow> int \<Rightarrow> unit lm" where
  "pivot_out i u =
     mseq (lua_rawgeti 1 i)
     (mseq (lua_pushvalue (- 1))
     (mseq (lua_rawgeti 1 (u - 1))
       (set2 i (u - 1))))"

definition pivot_in :: "int \<Rightarrow> int \<Rightarrow> unit lm" where
  "pivot_in i u = mseq (lua_rawgeti 1 (u - 1)) (mseq (lua_rawgeti 1 i) (set2 (u - 1) i))"

definition middle :: "int \<Rightarrow> int \<Rightarrow> int" where
  "middle l u = (let s = cast_int (l + u) in if s < 0 then - (- s div 2) else s div 2)"

text \<open>The smaller part first, then the other.\<close>

fun auxsort :: "callfun \<Rightarrow> nat \<Rightarrow> int \<Rightarrow> int \<Rightarrow> unit lm" where
  "auxsort call 0 l u = (if l < u then mfail OutOfFuel else mret ())"
| "auxsort call (Suc fuel) l u =
     (if l < u then
        mseq (order_ends call l u)
        (if u - l = 1 then mret ()
         else
           mseq (order_middle call (middle l u) l u)
           (if u - l = 2 then mret ()
            else
              mseq (pivot_out (middle l u) u)
              (mbind (partition_loop call (nat (u - l)) l u l (u - 1)) (\<lambda>i.
               mseq (pivot_in i u)
                 (if i - l < u - i then mseq (auxsort call fuel l (i - 1)) (auxsort call fuel (i + 1) u)
                  else mseq (auxsort call fuel (i + 1) u) (auxsort call fuel l (i - 1)))))))
      else mret ())"

text \<open>\<open>fuel\<close> is only used up by an order function that is not an order.\<close>

definition sort_fuel :: "nat \<Rightarrow> cfunction" where
  "sort_fuel fuel call =
     mbind (aux_getn call 1) (\<lambda>n.
     mseq (luaL_checkstack call 40 [])
     (mseq (mbind (lua_isnoneornil 2) (\<lambda>none. if \<not> none then luaL_checktype call 2 LUA_TFUNCTION else mret ()))
     (mseq (lua_settop 2)
     (mseq (auxsort call (nat n + fuel) 1 n)
       (mret 0)))))"

subsection \<open>The library\<close>

definition tab_funcs :: "(string \<Rightarrow> nat) \<Rightarrow> luaL_Reg list" where
  "tab_funcs ptr =
     [(''concat'', ptr ''tconcat''), (''foreach'', ptr ''foreach''), (''foreachi'', ptr ''foreachi''), (''getn'', ptr ''getn''),
      (''maxn'', ptr ''maxn''), (''insert'', ptr ''tinsert''), (''remove'', ptr ''tremove''), (''setn'', ptr ''setn''),
      (''sort'', ptr ''sort'')]"

definition luaopen_table :: "(string \<Rightarrow> nat) \<Rightarrow> cfunction" where
  "luaopen_table ptr call = mseq (luaL_register call (Some ''table'') (tab_funcs ptr)) (mret 1)"

end
