(* ===== verification/LuaSort.thy ===== *)
theory LuaSort
  imports LuaTablib LuaMetaFacts "HOL-Library.List_Lexorder" "HOL-Library.Multiset"
begin

section \<open>Sorting\<close>

text \<open>
  \<^verbatim>\<open>table.sort\<close> on the values that \<^verbatim>\<open><\<close> orders. The quicksort works on the table through the stack; a
  predicate on the state says which array the table holds and what is on the stack above the two arguments. The
  locale \<open>sortable\<close> is what the sort needs of the order; numbers and strings are its models.
\<close>

subsection \<open>Runs without an error\<close>

definition runs :: "'a lm \<Rightarrow> lua_State \<Rightarrow> ('a \<Rightarrow> lua_State \<Rightarrow> bool) \<Rightarrow> bool" where
  "runs m L P \<longleftrightarrow> (\<exists>x L'. m L = (Inr x, L') \<and> P x L')"

lemma runsI: "m L = (Inr x, L') \<Longrightarrow> P x L' \<Longrightarrow> runs m L P"
  unfolding runs_def by blast

lemma runs_mret [simp]: "runs (mret x) L P = P x L"
  by (simp add: runs_def)

lemma runs_mbind: "runs m L Q \<Longrightarrow> (\<And>x L'. Q x L' \<Longrightarrow> runs (f x) L' P) \<Longrightarrow> runs (mbind m f) L P"
  unfolding runs_def by (auto simp: mbind_def)

lemma runs_mseq: "runs m L Q \<Longrightarrow> (\<And>L'. Q () L' \<Longrightarrow> runs m' L' P) \<Longrightarrow> runs (mseq m m') L P"
  unfolding mseq_def by (erule runs_mbind) simp

lemma runs_mono: "runs m L Q \<Longrightarrow> (\<And>x L'. Q x L' \<Longrightarrow> P x L') \<Longrightarrow> runs m L P"
  unfolding runs_def by blast

subsection \<open>Permutations of a range\<close>

definition perm_in :: "int \<Rightarrow> int \<Rightarrow> (int \<Rightarrow> 'a) \<Rightarrow> (int \<Rightarrow> 'a) \<Rightarrow> bool" where
  "perm_in l u a a' \<longleftrightarrow> (\<forall>k. k \<notin> {l..u} \<longrightarrow> a' k = a k) \<and>
     image_mset a' (mset_set {l..u}) = image_mset a (mset_set {l..u})"

lemma perm_in_refl [simp]: "perm_in l u a a"
  by (simp add: perm_in_def)

lemma perm_in_trans: "perm_in l u a a' \<Longrightarrow> perm_in l u a' a'' \<Longrightarrow> perm_in l u a a''"
  by (simp add: perm_in_def)

lemma perm_in_mono:
  assumes "perm_in l' u' a a'" "l \<le> l'" "u' \<le> u"
  shows "perm_in l u a a'"
proof -
  have s: "mset_set {l..u} = mset_set {l'..u'} + mset_set ({l..u} - {l'..u'})"
    using mset_set_Diff [of "{l..u}" "{l'..u'}"] assms(2,3)
    by (metis atLeastatMost_subset_iff finite_atLeastAtMost_int mset_set_Union Diff_disjoint Un_Diff_cancel finite_Diff sup.absorb2)
  have "image_mset a' (mset_set ({l..u} - {l'..u'})) = image_mset a (mset_set ({l..u} - {l'..u'}))"
    by (rule image_mset_cong) (use assms(1) in \<open>simp add: perm_in_def\<close>)
  then show ?thesis using assms unfolding perm_in_def s by auto
qed

lemma perm_in_all: "perm_in l u a a' \<Longrightarrow> \<forall>k\<in>{l..u}. P (a k) \<Longrightarrow> \<forall>k\<in>{l..u}. P (a' k)"
proof
  fix k assume p: "perm_in l u a a'" "\<forall>k\<in>{l..u}. P (a k)" and k: "k \<in> {l..u}"
  have "set_mset (image_mset a' (mset_set {l..u})) = set_mset (image_mset a (mset_set {l..u}))"
    using p(1) by (simp add: perm_in_def)
  then have "a' ` {l..u} = a ` {l..u}" by simp
  then show "P (a' k)" using p(2) k by (metis image_eqI imageE)
qed

lemma perm_in_swap:
  assumes "i \<in> {l..u}" "j \<in> {l..u}"
  shows "perm_in l u a (a(i := a j, j := a i))"
proof -
  have s: "mset_set {l..u} = (if i = j then {#i#} else {#i, j#}) + mset_set ({l..u} - {i, j})"
  proof (cases "i = j")
    case True
    then show ?thesis using mset_set.remove [of "{l..u}" i] assms by (simp add: insert_absorb)
  next
    case False
    have "{l..u} - {i} - {j} = {l..u} - {i, j}" by blast
    then show ?thesis
      using mset_set.remove [of "{l..u}" i] mset_set.remove [of "{l..u} - {i}" j] assms False by simp
  qed
  have "image_mset (a(i := a j, j := a i)) (mset_set ({l..u} - {i, j})) = image_mset a (mset_set ({l..u} - {i, j}))"
    by (rule image_mset_cong) auto
  then show ?thesis using assms unfolding perm_in_def s by (auto split: if_splits)
qed


subsection \<open>The table and the stack\<close>

definition int_val :: "int \<Rightarrow> tvalue" where "int_val i = Number (cast_num i)"

lemma norm_int: "is_int i \<Longrightarrow> is_int j \<Longrightarrow> norm_key (int_val i) = norm_key (int_val j) \<longleftrightarrow> i = j"
  unfolding int_val_def by (metis arrayindex_cast arrayindex_norm)

text \<open>The table at \<open>t\<close> has the values of \<open>a\<close> at \<open>1\<close> to \<open>n\<close>; all the rest is as it was in \<open>L0\<close>.\<close>

definition array_in :: "addr \<Rightarrow> int \<Rightarrow> (int \<Rightarrow> tvalue) \<Rightarrow> lua_State \<Rightarrow> lua_State \<Rightarrow> bool" where
  "array_in t n a L0 L \<longleftrightarrow>
     (\<forall>b. b \<noteq> t \<longrightarrow> tables L b = tables L0 b) \<and>
     (\<exists>tb tb0. tables L t = Some tb \<and> tables L0 t = Some tb0 \<and> table_ok tb \<and> metatable tb = metatable tb0 \<and>
        (\<forall>i\<in>{1..n}. amap tb (int_val i) = a i) \<and>
        (\<forall>k. (\<forall>i\<in>{1..n}. norm_key k \<noteq> norm_key (int_val i)) \<longrightarrow> amap tb k = amap tb0 k))"

definition holds :: "(tvalue \<Rightarrow> bool) \<Rightarrow> lua_State \<Rightarrow> addr \<Rightarrow> int \<Rightarrow> (int \<Rightarrow> tvalue) \<Rightarrow> tvalue list \<Rightarrow> lua_State \<Rightarrow> bool" where
  "holds ok L0 t n a f L \<longleftrightarrow>
     frame_ok L \<and> base L + 12 \<le> length (stack L) \<and> frame L = TableRef t # Nil # f \<and>
     (\<forall>i\<in>{1..n}. ok (a i)) \<and> array_in t n a L0 L"

lemma holds_stack:
  assumes "holds ok L0 t n a f L" "same_outside L L'" "frame L' = TableRef t # Nil # g" "length g \<le> 9"
  shows "holds ok L0 t n a g L'"
proof -
  have e: "tables L' = tables L" "base L' = base L" "length (stack L') = length (stack L)"
    using assms(2) by (auto simp: same_outside_def)
  have l: "length (frame L') \<le> 11" "length (frame L') \<noteq> 0" using assms(3,4) by simp_all
  have "length (frame L') = min (top L') (length (stack L')) - base L'" by (simp add: frame_def)
  then have "frame_ok L'" using l e assms(1) unfolding frame_ok_def holds_def by auto
  then show ?thesis using assms(1,3) e by (simp add: holds_def array_in_def)
qed

lemma holds_acts:
  assumes "holds ok L0 t n a f L" "acts_as m g L" "g (TableRef t # Nil # f) = TableRef t # Nil # f'" "length f' \<le> 9"
  shows "runs m L (\<lambda>_. holds ok L0 t n a f')"
proof -
  obtain L' where L': "m L = (Inr (), L')" "frame L' = g (frame L)" "same_outside L L'"
    using assms(2) unfolding acts_as_def by blast
  have "frame L = TableRef t # Nil # f" using assms(1) by (simp add: holds_def)
  then show ?thesis using L' holds_stack [OF assms(1) L'(3)] assms(3,4) by (auto intro!: runsI)
qed

lemma holds_frame: "holds ok L0 t n a f L \<Longrightarrow> frame_ok L" "holds ok L0 t n a f L \<Longrightarrow> frame L = TableRef t # Nil # f"
  by (simp_all add: holds_def)

lemma holds_index:
  assumes "holds ok L0 t n a f L" "idx \<noteq> 0" "\<bar>idx\<bar> \<le> int (length f) + 2" "LUA_REGISTRYINDEX < idx"
  shows "index_val idx L = (Inr ((TableRef t # Nil # f) ! (if idx > 0 then nat idx - 1 else nat (int (length f) + 2 + idx))), L)"
proof -
  have "valid_index L idx" using assms(2-4) by (simp add: valid_index_def holds_frame(2) [OF assms(1)])
  from index_val_frame [OF holds_frame(1) [OF assms(1)] this] show ?thesis
    by (simp add: frame_pos_def holds_frame(2) [OF assms(1)] add.commute add.left_commute)
qed

lemma get_ok:
  assumes h: "holds ok L0 t n a f L" and i: "i \<in> {1..n}" "is_int i" and l: "length f \<le> 8"
  shows "runs (lua_rawgeti 1 i) L (\<lambda>_. holds ok L0 t n a (f @ [a i]))"
proof -
  obtain tb where tb: "tables L t = Some tb" "table_ok tb" "amap tb (int_val i) = a i"
    using h i unfolding holds_def array_in_def by blast
  have "index_val 1 L = (Inr (TableRef t), L)" using holds_index [OF h, of 1] by (simp add: LUA_REGISTRYINDEX_def)
  moreover have "slot_value tb (luaH_getnum tb i) = Inr (a i)"
    using tb(2,3) by (simp add: slot_value_def luaH_getnum_ok [OF _ i(2)] table_ok_def amap_def int_val_def)
  ultimately have "lua_rawgeti 1 i L = push (a i) L"
    by (simp add: lua_rawgeti_def mbind_def tbl_ok [OF tb(1)])
  moreover have "runs (push (a i)) L (\<lambda>_. holds ok L0 t n a (f @ [a i]))"
    by (rule holds_acts [OF h acts_push [OF holds_frame(1) [OF h]]]) (use l in auto)
  ultimately show ?thesis by (simp add: runs_def)
qed

lemma frame_lower: "base L \<le> n \<Longrightarrow> n \<le> top L \<Longrightarrow> frame (L\<lparr>top := n\<rparr>) = take (n - base L) (frame L)"
  by (simp add: frame_def drop_take min_def diff_le_mono)

lemma frame_tables: "frame (L\<lparr>tables := m, top := n\<rparr>) = frame (L\<lparr>top := n\<rparr>)"
  by (simp add: frame_def)

lemma put_val:
  assumes "table_ok tb" "is_int i" "amap tb (int_val i) \<noteq> Nil"
  shows "\<exists>tb'. store_slot t (luaH_setnum tb i) v L = (Inr (), L\<lparr>tables := (tables L)(t \<mapsto> tb')\<rparr>) \<and> table_ok tb' \<and>
    metatable tb' = metatable tb \<and> (\<forall>k. amap tb' k = (if norm_key k = norm_key (int_val i) then v else amap tb k))"
proof -
  have inv: "table_inv tb" using assms(1) by (simp add: table_ok_def)
  have s: "slot_of tb (int_val i) \<noteq> NilObject" using assms(3) by (auto simp: amap_def slot_val_def)
  have "luaH_setnum tb i = Inr (slot_of tb (int_val i), tb)"
    using s by (simp add: luaH_setnum_def setnum_with_def luaH_getnum_ok [OF inv assms(2)] int_val_def)
  then have "store_slot t (luaH_setnum tb i) v L =
      (Inr (), L\<lparr>tables := (tables L)(t \<mapsto> set_slot tb (slot_of tb (int_val i)) v)\<rparr>)"
    using s by (simp add: store_slot_def set_tbl_def)
  then show ?thesis using put_rel_present [OF inv s, of v] assms(1)
    by (intro exI [of _ "set_slot tb (slot_of tb (int_val i)) v"]) (auto simp: put_rel_def table_ok_def)
qed

lemma set_ok:
  assumes h: "holds ok L0 t n a (f @ [v]) L" and i: "i \<in> {1..n}" and n: "is_int n" and nil: "\<not> ok Nil" and v: "ok v"
  shows "runs (lua_rawseti 1 i) L (\<lambda>_. holds ok L0 t n (a(i := v)) f)"
proof -
  have ints: "is_int j" if "j \<in> {1..n}" for j using that n by (auto simp: is_int_def int_min_def)
  obtain tb tb0 where tb: "tables L t = Some tb" "tables L0 t = Some tb0" "table_ok tb" "metatable tb = metatable tb0"
      "\<forall>i\<in>{1..n}. amap tb (int_val i) = a i"
      "\<forall>k. (\<forall>i\<in>{1..n}. norm_key k \<noteq> norm_key (int_val i)) \<longrightarrow> amap tb k = amap tb0 k"
    using h unfolding holds_def array_in_def by blast
  have "amap tb (int_val i) \<noteq> Nil" using h i tb(5) nil unfolding holds_def by metis
  then obtain tb' where tb': "store_slot t (luaH_setnum tb i) v L = (Inr (), L\<lparr>tables := (tables L)(t \<mapsto> tb')\<rparr>)" "table_ok tb'"
      "metatable tb' = metatable tb" "\<And>k. amap tb' k = (if norm_key k = norm_key (int_val i) then v else amap tb k)"
    using put_val [OF tb(3) ints [OF i], of t v L] by blast
  let ?L = "L\<lparr>tables := (tables L)(t \<mapsto> tb'), top := top L - 1\<rparr>"
  have fr: "frame L = TableRef t # Nil # f @ [v]" and ok: "frame_ok L" using h by (simp_all add: holds_def)
  have l: "top L - base L = length f + 3" using length_frame [OF ok] fr by simp
  then have tp: "top L - 1 = base L + (length f + 2)" "top L - 1 < length (stack L)" "top L \<noteq> 0"
    using ok by (auto simp: frame_ok_def)
  have "stack L ! (top L - 1) = v" using frame_nth [OF ok, of "length f + 2"] l fr tp(1) by (simp add: nth_append)
  moreover have "index_val 1 L = (Inr (TableRef t), L)" using holds_index [OF h, of 1] by (simp add: LUA_REGISTRYINDEX_def)
  ultimately have e: "lua_rawseti 1 i L = (Inr (), ?L)"
    using tp by (simp add: lua_rawseti_def mbind_def mseq_def tbl_ok [OF tb(1)] getstk_ok tb'(1) incr_top_def nat_diff_distrib)
  have "frame ?L = take (length f + 2) (frame L)"
    unfolding frame_tables using frame_lower [of "L" "base L + (length f + 2)"] tp by simp
  then have "frame ?L = TableRef t # Nil # f" using fr by simp
  moreover have "array_in t n (a(i := v)) L0 ?L"
  proof -
    have "\<forall>j\<in>{1..n}. amap tb' (int_val j) = (a(i := v)) j"
      using tb(5) tb'(4) norm_int ints i by auto
    moreover have "\<forall>k. (\<forall>j\<in>{1..n}. norm_key k \<noteq> norm_key (int_val j)) \<longrightarrow> amap tb' k = amap tb0 k"
      using tb(6) tb'(4) i by auto
    ultimately show ?thesis using h tb(2,4) tb'(2,3) unfolding holds_def array_in_def by auto
  qed
  moreover have "frame_ok ?L" using ok l by (auto simp: frame_ok_def)
  ultimately have "holds ok L0 t n (a(i := v)) f ?L" using h v unfolding holds_def by auto
  then show ?thesis using e by (rule runsI [rotated])
qed

lemma pop_ok:
  assumes h: "holds ok L0 t n a (f @ g) L" and k: "k = int (length g)"
  shows "runs (lua_pop k) L (\<lambda>_. holds ok L0 t n a f)"
proof -
  have fr: "frame L = TableRef t # Nil # f @ g" and ok: "frame_ok L" using h by (simp_all add: holds_def)
  have l: "top L - base L = length f + length g + 2" using length_frame [OF ok] fr by simp
  let ?L = "L\<lparr>top := top L - length g\<rparr>"
  have e: "lua_pop k L = (Inr (), ?L)"
    using l k ok by (simp add: lua_pop_def lua_settop_def incr_top_def frame_ok_def nat_diff_distrib)
  have "frame ?L = take (length f + 2) (frame L)"
  proof -
    have "top L - length g = base L + (length f + 2)" using l ok unfolding frame_ok_def by linarith
    then show ?thesis using frame_lower [of L "base L + (length f + 2)"] by simp
  qed
  then have "frame ?L = TableRef t # Nil # f" using fr by simp
  moreover have "frame_ok ?L" using ok l by (auto simp: frame_ok_def)
  ultimately have "holds ok L0 t n a f ?L" using h unfolding holds_def array_in_def by auto
  then show ?thesis using e by (rule runsI [rotated])
qed


subsection \<open>The order\<close>

text \<open>What the sort relies on: \<^verbatim>\<open><\<close> compares keys of a linear order and leaves the state alone.\<close>

locale sortable =
  fixes call :: callfun and key :: "tvalue \<Rightarrow> 'k::linorder" and ok :: "tvalue \<Rightarrow> bool"
  assumes less: "ok v \<Longrightarrow> ok w \<Longrightarrow> luaV_lessthan call v w L = (Inr (key v < key w), L)"
    and not_nil: "\<not> ok Nil"
begin

lemma isnil_2: "holds ok L0 t n a f L \<Longrightarrow> lua_isnil 2 L = (Inr True, L)"
proof -
  assume h: "holds ok L0 t n a f L"
  have v: "valid_index L 2" by (simp add: valid_index_def holds_frame(2) [OF h] LUA_REGISTRYINDEX_def)
  note i = index2adr_frame [OF holds_frame(1) [OF h] v]
  have "adr_val (AStack (base L + frame_pos L 2)) L = (Inr Nil, L)"
    using index_val_frame [OF holds_frame(1) [OF h] v]
    by (simp add: index_val_def mbind_def i(1) frame_pos_def holds_frame(2) [OF h])
  then show ?thesis by (simp add: lua_isnil_def lua_type_def mbind_def i(1))
qed

lemma comp_ok:
  assumes h: "holds ok L0 t n a f L" and x: "x < 0" "- int (length f) \<le> x" and y: "y < 0" "- int (length f) \<le> y"
    and l: "length f \<le> 9" and k: "ok (f ! nat (int (length f) + x))" "ok (f ! nat (int (length f) + y))"
  shows "sort_comp call x y L = (Inr (key (f ! nat (int (length f) + x)) < key (f ! nat (int (length f) + y))), L)"
proof -
  have *: "\<exists>i. index2adr z L = (Inr (AStack i), L) \<and> adr_val (AStack i) L = (Inr (f ! nat (int (length f) + z)), L)"
    if z: "z < 0" "- int (length f) \<le> z" for z
  proof -
    have v: "valid_index L z" using z l by (simp add: valid_index_def holds_frame(2) [OF h] LUA_REGISTRYINDEX_def)
    note i = index2adr_frame [OF holds_frame(1) [OF h] v]
    have "nat (int (length f) + 2 + z) = Suc (Suc (nat (int (length f) + z)))" using z by simp
    then have "index_val z L = (Inr (f ! nat (int (length f) + z)), L)"
      using holds_index [OF h, of z] z l by (simp add: LUA_REGISTRYINDEX_def)
    then show ?thesis using i(1) by (simp add: index_val_def mbind_def)
  qed
  obtain i where i: "index2adr x L = (Inr (AStack i), L)" "adr_val (AStack i) L = (Inr (f ! nat (int (length f) + x)), L)"
    using * [OF x] by blast
  obtain j where j: "index2adr y L = (Inr (AStack j), L)" "adr_val (AStack j) L = (Inr (f ! nat (int (length f) + y)), L)"
    using * [OF y] by blast
  show ?thesis by (simp add: sort_comp_def mbind_def isnil_2 [OF h] lua_lessthan_def i j less [OF k])
qed

lemma comp_runs:
  assumes "holds ok L0 t n a f L" "x < 0" "- int (length f) \<le> x" "y < 0" "- int (length f) \<le> y" "length f \<le> 9"
    "f ! nat (int (length f) + x) = v" "f ! nat (int (length f) + y) = w" "ok v" "ok w"
  shows "runs (sort_comp call x y) L (\<lambda>r L'. holds ok L0 t n a f L' \<and> r = (key v < key w))"
  using comp_ok [OF assms(1-6)] assms by (auto intro!: runsI)

lemma set2_ok:
  assumes "holds ok L0 t n a (f @ [v, w]) L" "i \<in> {1..n}" "j \<in> {1..n}" "is_int n" "ok v" "ok w"
  shows "runs (set2 i j) L (\<lambda>_. holds ok L0 t n (a(i := w, j := v)) f)"
proof -
  have "holds ok L0 t n a ((f @ [v]) @ [w]) L" using assms(1) by simp
  from set_ok [OF this assms(2,4) not_nil assms(6)] show ?thesis
    unfolding set2_def by (rule runs_mseq) (erule set_ok [OF _ assms(3,4) not_nil assms(5)])
qed

lemma set2_swap:
  assumes "holds ok L0 t n a (f @ [a i, a j]) L" "i \<in> {1..n}" "j \<in> {1..n}" "is_int n" "ok (a i)" "ok (a j)"
  shows "runs (set2 i j) L (\<lambda>_. holds ok L0 t n (a(i := a j, j := a i)) f)"
  by (rule set2_ok [OF assms])

lemma get_at:
  assumes "holds ok L0 t n a f L" "i \<in> {1..n}" "is_int n" "length f \<le> 8"
  shows "runs (lua_rawgeti 1 i) L (\<lambda>_. holds ok L0 t n a (f @ [a i]))"
proof -
  have "is_int i" using assms(2,3) by (auto simp: is_int_def int_min_def)
  from get_ok [OF assms(1,2) this assms(4)] show ?thesis .
qed

lemma holds_ok: "holds ok L0 t n a f L \<Longrightarrow> i \<in> {1..n} \<Longrightarrow> ok (a i)"
  by (simp add: holds_def)

lemma scan_up_ok:
  assumes "holds ok L0 t n a [P] L" "ok P" "0 \<le> i" "i < m" "m \<le> u" "u \<le> n" "is_int n" "\<not> key (a m) < key P"
  shows "runs (scan_up call u i) L (\<lambda>i' L'. holds ok L0 t n a [P, a i'] L' \<and> i < i' \<and> i' \<le> m \<and>
    \<not> key (a i') < key P \<and> (\<forall>k. i < k \<and> k < i' \<longrightarrow> key (a k) < key P))"
  using assms
proof (induction "nat (m - i)" arbitrary: i L rule: less_induct)
  case less
  have i: "i + 1 \<in> {1..n}" using less.prems by auto
  note o = holds_ok [OF less.prems(1) i]
  show ?case
  proof (subst scan_up.simps, rule runs_mseq [OF get_at [OF less.prems(1) i less.prems(7)]], simp,
      rule runs_mbind [OF comp_runs [where v = "a (i + 1)" and w = P]])
    fix L1 r L2
    assume "holds ok L0 t n a ([P] @ [a (i + 1)]) L1"
    then show "holds ok L0 t n a [P, a (i + 1)] L1" by simp
    assume r: "holds ok L0 t n a [P, a (i + 1)] L2 \<and> r = (key (a (i + 1)) < key P)"
    show "runs (if \<not> r then mret (i + 1)
        else if i + 1 > u then luaL_error call ''invalid order function for sorting'' []
        else mseq (lua_pop 1) (scan_up call u (i + 1))) L2
      (\<lambda>i' L'. holds ok L0 t n a [P, a i'] L' \<and> i < i' \<and> i' \<le> m \<and> \<not> key (a i') < key P \<and>
        (\<forall>k. i < k \<and> k < i' \<longrightarrow> key (a k) < key P))"
    proof (cases "key (a (i + 1)) < key P")
      case False
      then show ?thesis using r less.prems(4) by auto
    next
      case True
      then have m: "i + 1 < m" using less.prems(4,8) by (cases "i + 1 = m") auto
      have h: "holds ok L0 t n a ([P] @ [a (i + 1)]) L2" using r by simp
      have "runs (mseq (lua_pop 1) (scan_up call u (i + 1))) L2
        (\<lambda>i' L'. holds ok L0 t n a [P, a i'] L' \<and> i + 1 < i' \<and> i' \<le> m \<and> \<not> key (a i') < key P \<and>
          (\<forall>k. i + 1 < k \<and> k < i' \<longrightarrow> key (a k) < key P))"
        by (rule runs_mseq [OF pop_ok [OF h]]) (use less.hyps [of "i + 1"] less.prems m in auto)
      then show ?thesis
        using True m less.prems(5) r
        by simp (erule runs_mono, metis add1_zle_eq dual_order.order_iff_strict less_add_one order.strict_trans)
    qed
  qed (use o less.prems(2) in auto)
qed


lemma scan_down_ok:
  assumes "holds ok L0 t n a [P, v] L" "ok P" "1 \<le> l" "l \<le> m" "m < j" "j \<le> n + 1" "is_int n" "\<not> key P < key (a m)"
  shows "runs (scan_down call l j) L (\<lambda>j' L'. holds ok L0 t n a [P, v, a j'] L' \<and> j' < j \<and> m \<le> j' \<and>
    \<not> key P < key (a j') \<and> (\<forall>k. j' < k \<and> k < j \<longrightarrow> key P < key (a k)))"
  using assms
proof (induction "nat (j - m)" arbitrary: j L rule: less_induct)
  case less
  have j: "j - 1 \<in> {1..n}" using less.prems by auto
  note o = holds_ok [OF less.prems(1) j]
  show ?case
  proof (subst scan_down.simps, rule runs_mseq [OF get_at [OF less.prems(1) j less.prems(7)]], simp,
      rule runs_mbind [OF comp_runs [where v = P and w = "a (j - 1)"]])
    fix L1 r L2
    assume "holds ok L0 t n a ([P, v] @ [a (j - 1)]) L1"
    then show "holds ok L0 t n a [P, v, a (j - 1)] L1" by simp
    assume r: "holds ok L0 t n a [P, v, a (j - 1)] L2 \<and> r = (key P < key (a (j - 1)))"
    show "runs (if \<not> r then mret (j - 1)
        else if j - 1 < l then luaL_error call ''invalid order function for sorting'' []
        else mseq (lua_pop 1) (scan_down call l (j - 1))) L2
      (\<lambda>j' L'. holds ok L0 t n a [P, v, a j'] L' \<and> j' < j \<and> m \<le> j' \<and> \<not> key P < key (a j') \<and>
        (\<forall>k. j' < k \<and> k < j \<longrightarrow> key P < key (a k)))"
    proof (cases "key P < key (a (j - 1))")
      case False
      then show ?thesis using r less.prems(5) by auto
    next
      case True
      then have m: "m < j - 1" using less.prems(5,8) by (cases "m = j - 1") auto
      have h: "holds ok L0 t n a ([P, v] @ [a (j - 1)]) L2" using r by simp
      have "runs (mseq (lua_pop 1) (scan_down call l (j - 1))) L2
        (\<lambda>j' L'. holds ok L0 t n a [P, v, a j'] L' \<and> j' < j - 1 \<and> m \<le> j' \<and> \<not> key P < key (a j') \<and>
          (\<forall>k. j' < k \<and> k < j - 1 \<longrightarrow> key P < key (a k)))"
        by (rule runs_mseq [OF pop_ok [OF h]]) (use less.hyps [of "j - 1"] less.prems m in auto)
      moreover have "key P < key (a k)" if "j' < k" "k < j" "\<forall>k. j' < k \<and> k < j - 1 \<longrightarrow> key P < key (a k)" for k j'
        using that True by (cases "k = j - 1") auto
      ultimately show ?thesis using True m less.prems(4) r by simp (erule runs_mono, force)
    qed
  qed (use o less.prems(2) in auto)
qed

text \<open>What the partition keeps: up to \<open>i\<close> the values are at most the pivot, from \<open>j\<close> on at least.\<close>

definition parted :: "int \<Rightarrow> int \<Rightarrow> tvalue \<Rightarrow> int \<Rightarrow> int \<Rightarrow> (int \<Rightarrow> tvalue) \<Rightarrow> bool" where
  "parted l u P i j a \<longleftrightarrow> (\<forall>k\<in>{l..i}. key (a k) \<le> key P) \<and> (\<forall>k\<in>{j..u}. key P \<le> key (a k))"

lemma parted_swap:
  assumes "parted l u P i0 j0 a" "i0 < i" "j < j0" "i \<le> j" "l \<le> i" "j \<le> u"
    "\<not> key (a i) < key P" "\<forall>k. i0 < k \<and> k < i \<longrightarrow> key (a k) < key P"
    "\<not> key P < key (a j)" "\<forall>k. j < k \<and> k < j0 \<longrightarrow> key P < key (a k)"
  shows "parted l u P i j (a(i := a j, j := a i))"
  using assms unfolding parted_def
  by (auto simp: not_less) (metis atLeastAtMost_iff le_less less_imp_le not_le order.strict_iff_order)+

lemma parted_end:
  assumes "parted l u P i0 j0 a" "j < i" "i0 < i" "j < j0"
    "\<forall>k. i0 < k \<and> k < i \<longrightarrow> key (a k) < key P" "\<forall>k. j < k \<and> k < j0 \<longrightarrow> key P < key (a k)"
  shows "parted l u P (i - 1) i a"
  using assms unfolding parted_def
  by (auto simp: not_less) (metis atLeastAtMost_iff less_imp_le not_le order.strict_trans2 order.strict_trans1)+


lemma partition_ok:
  assumes "holds ok L0 t n a [P] L" "parted l u P i j a" "a (u - 1) = P" "l \<le> i" "i \<le> j" "j \<le> u - 1" "i < u - 1" "l < j"
    "1 \<le> l" "u \<le> n" "is_int n" "nat (u - 1 - i) \<le> fuel"
  shows "runs (partition_loop call fuel l u i j) L (\<lambda>i' L'. \<exists>a'. holds ok L0 t n a' [] L' \<and> perm_in l u a a' \<and>
    parted l u P (i' - 1) i' a' \<and> l < i' \<and> i' < u \<and> a' (u - 1) = P)"
  using assms
proof (induction fuel arbitrary: a i j L)
  case 0
  then show ?case by simp
next
  case (Suc fuel)
  let ?R = "\<lambda>i' L'. \<exists>a'. holds ok L0 t n a' [] L' \<and> perm_in l u a a' \<and>
    parted l u P (i' - 1) i' a' \<and> l < i' \<and> i' < u \<and> a' (u - 1) = P"
  note h = Suc.prems(1) and pt = Suc.prems(2)
  have P: "ok P" using holds_ok [OF h, of "u - 1"] Suc.prems by auto
  define m where "m = max j (i + 1)"
  define q where "q = min i (j - 1)"
  have m: "\<not> key (a m) < key P" "m \<le> u - 1" "i < m"
    using pt Suc.prems(5-7) unfolding parted_def m_def by (auto simp: not_less max_def)
  have q: "\<not> key P < key (a q)" "l \<le> q" "q < j"
    using pt Suc.prems(4,8) unfolding parted_def q_def by (auto simp: not_less min_def)
  show ?case
  proof (simp only: partition_loop.simps, rule runs_mbind [OF scan_up_ok [OF h P _ m(3) _ Suc.prems(10,11) m(1)]], goal_cases)
    case (3 i' L1)
    then have h1: "holds ok L0 t n a [P, a i'] L1" and i': "i < i'" "i' \<le> m" "\<not> key (a i') < key P"
      "\<forall>k. i < k \<and> k < i' \<longrightarrow> key (a k) < key P" by auto
    show ?case
    proof (rule runs_mbind [OF scan_down_ok [OF h1 P Suc.prems(9) q(2,3) _ Suc.prems(11) q(1)]], goal_cases)
      case (2 j' L2)
      then have h2: "holds ok L0 t n a ([] @ [P, a i', a j']) L2" and j': "j' < j" "q \<le> j'" "\<not> key P < key (a j')"
        "\<forall>k. j' < k \<and> k < j \<longrightarrow> key P < key (a k)" by auto
      show ?case
      proof (cases "j' < i'")
        case True
        from parted_end [OF pt True i'(1) j'(1) i'(4) j'(4)]
        have "?R i' L'" if "holds ok L0 t n a [] L'" for L'
          using that i' m(2) Suc.prems(3,4) by (intro exI [of _ a]) auto
        then have "runs (mseq (lua_pop 3) (mret i')) L2 ?R"
          by (intro runs_mseq [OF pop_ok [OF h2]]) auto
        then show ?thesis using True by simp
      next
        case False
        let ?a = "a(i' := a j', j' := a i')"
        have r: "i' \<in> {1..n}" "j' \<in> {1..n}" "i' \<in> {l..u}" "j' \<in> {l..u}" "j' < u - 1"
          using False i' j' Suc.prems(4-11) by auto
        have h3: "holds ok L0 t n a ([P] @ [a i', a j']) L2" using h2 by simp
        have pt': "parted l u P i' j' ?a"
          by (rule parted_swap [OF pt]) (use False i' j' r in auto)
        have "runs (partition_loop call fuel l u i' j') L' ?R" if h': "holds ok L0 t n ?a [P] L'" for L'
        proof -
          have "runs (partition_loop call fuel l u i' j') L' (\<lambda>i'' L''. \<exists>a'. holds ok L0 t n a' [] L'' \<and> perm_in l u ?a a' \<and>
              parted l u P (i'' - 1) i'' a' \<and> l < i'' \<and> i'' < u \<and> a' (u - 1) = P)"
            by (rule Suc.IH [OF h' pt']) (use False r i' Suc.prems in auto)
          then show ?thesis
            by (rule runs_mono) (metis perm_in_swap [OF r(3,4)] perm_in_trans)
        qed
        then have "runs (mseq (set2 i' j') (partition_loop call fuel l u i' j')) L2 ?R"
          by (intro runs_mseq [OF set2_swap [OF h3 r(1,2) Suc.prems(11) holds_ok [OF h r(1)] holds_ok [OF h r(2)]]])
        then show ?thesis using False by simp
      qed
    qed (use Suc.prems in auto)
  qed (use Suc.prems m in auto)
qed

text \<open>The first steps put three elements in order, and the middle one aside as the pivot.\<close>

lemma order_ends_ok:
  assumes h: "holds ok L0 t n a [] L" and r: "1 \<le> l" "l < u" "u \<le> n" "is_int n"
  shows "runs (order_ends call l u) L (\<lambda>_ L'. \<exists>a'. holds ok L0 t n a' [] L' \<and> perm_in l u a a' \<and> key (a' l) \<le> key (a' u))"
proof -
  have lu: "l \<in> {1..n}" "u \<in> {1..n}" using r by auto
  note o = holds_ok [OF h lu(1)] holds_ok [OF h lu(2)]
  show ?thesis
    unfolding order_ends_def
  proof (rule runs_mseq [OF get_at [OF h lu(1) r(4)]], simp, rule runs_mseq [OF get_at [OF _ lu(2) r(4)]], simp, simp, simp,
      rule runs_mbind [OF comp_runs [where v = "a u" and w = "a l"]])
    fix x L2 assume x: "holds ok L0 t n a [a l, a u] L2 \<and> x = (key (a u) < key (a l))"
    then have h2: "holds ok L0 t n a ([] @ [a l, a u]) L2" by simp
    show "runs (if x then set2 l u else lua_pop 2) L2
      (\<lambda>_ L'. \<exists>a'. holds ok L0 t n a' [] L' \<and> perm_in l u a a' \<and> key (a' l) \<le> key (a' u))"
    proof (cases "key (a u) < key (a l)")
      case True
      have "perm_in l u a (a(l := a u, u := a l))" by (rule perm_in_swap) (use r in auto)
      then show ?thesis using True x r
        by simp (rule runs_mono [OF set2_swap [OF h2 lu r(4) o]], intro exI [of _ "a(l := a u, u := a l)"], auto)
    next
      case False
      then show ?thesis using x by simp (rule runs_mono [OF pop_ok [OF h2]], auto intro!: exI [of _ a])
    qed
  qed (use o in auto)
qed


lemma order_middle_ok:
  assumes h: "holds ok L0 t n a [] L" and r: "1 \<le> l" "l < i" "i < u" "u \<le> n" "is_int n" and k: "key (a l) \<le> key (a u)"
  shows "runs (order_middle call i l u) L (\<lambda>_ L'. \<exists>a'. holds ok L0 t n a' [] L' \<and> perm_in l u a a' \<and>
    key (a' l) \<le> key (a' i) \<and> key (a' i) \<le> key (a' u))"
proof -
  have q: "l \<in> {1..n}" "i \<in> {1..n}" "u \<in> {1..n}" using r by auto
  note o = holds_ok [OF h q(1)] holds_ok [OF h q(2)] holds_ok [OF h q(3)]
  let ?R = "\<lambda>_ L'. \<exists>a'. holds ok L0 t n a' [] L' \<and> perm_in l u a a' \<and> key (a' l) \<le> key (a' i) \<and> key (a' i) \<le> key (a' u)"
  have sw: "perm_in l u a (a(i := a l, l := a i))" "perm_in l u a (a(i := a u, u := a i))" by (rule perm_in_swap; use r in simp)+
  show ?thesis
    unfolding order_middle_def
  proof (rule runs_mseq [OF get_at [OF h q(2) r(5)]], simp, rule runs_mseq [OF get_at [OF _ q(1) r(5)]], simp, simp, simp,
      rule runs_mbind [OF comp_runs [where v = "a i" and w = "a l"]])
    fix x L2 assume x: "holds ok L0 t n a [a i, a l] L2 \<and> x = (key (a i) < key (a l))"
    then have h2: "holds ok L0 t n a ([] @ [a i, a l]) L2" "holds ok L0 t n a ([a i] @ [a l]) L2" by simp_all
    show "runs (if x then set2 i l else mseq (lua_pop 1) (mseq (lua_rawgeti 1 u)
      (mbind (sort_comp call (- 1) (- 2)) (\<lambda>lt. if lt then set2 i u else lua_pop 2)))) L2 ?R"
    proof (cases "key (a i) < key (a l)")
      case True
      then show ?thesis using x r k sw(1)
        by simp (rule runs_mono [OF set2_swap [OF h2(1) q(2,1) r(5) o(2,1)]], intro exI [of _ "a(i := a l, l := a i)"], auto)
    next
      case False
      have "runs (mseq (lua_pop 1) (mseq (lua_rawgeti 1 u)
        (mbind (sort_comp call (- 1) (- 2)) (\<lambda>lt. if lt then set2 i u else lua_pop 2)))) L2 ?R"
      proof (rule runs_mseq [OF pop_ok [OF h2(2)]], simp, rule runs_mseq [OF get_at [OF _ q(3) r(5)]], simp, simp, simp,
          rule runs_mbind [OF comp_runs [where v = "a u" and w = "a i"]])
        fix y L3 assume y: "holds ok L0 t n a [a i, a u] L3 \<and> y = (key (a u) < key (a i))"
        then have h3: "holds ok L0 t n a ([] @ [a i, a u]) L3" by simp
        show "runs (if y then set2 i u else lua_pop 2) L3 ?R"
        proof (cases "key (a u) < key (a i)")
          case True
          then show ?thesis using y r k sw(2)
            by simp (rule runs_mono [OF set2_swap [OF h3 q(2,3) r(5) o(2,3)]], intro exI [of _ "a(i := a u, u := a i)"], auto)
        next
          case nlt: False
          then show ?thesis using False y by simp (rule runs_mono [OF pop_ok [OF h3]], auto intro!: exI [of _ a])
        qed
      qed (use o in auto)
      then show ?thesis using False x by simp
    qed
  qed (use o in auto)
qed

lemma pivot_out_ok:
  assumes h: "holds ok L0 t n a [] L" and r: "1 \<le> l" "l < i" "i < u - 1" "u \<le> n" "is_int n"
  shows "runs (pivot_out i u) L (\<lambda>_. holds ok L0 t n (a(i := a (u - 1), u - 1 := a i)) [a i])"
proof -
  have q: "i \<in> {1..n}" "u - 1 \<in> {1..n}" using r by auto
  note o = holds_ok [OF h q(1)] holds_ok [OF h q(2)]
  have dup: "runs (lua_pushvalue (- 1)) L1 (\<lambda>_. holds ok L0 t n a ([a i] @ [a i]))" if "holds ok L0 t n a [a i] L1" for L1
  proof -
    have "valid_index L1 (- 1)" by (simp add: valid_index_def holds_frame(2) [OF that] LUA_REGISTRYINDEX_def)
    from holds_acts [OF that acts_pushvalue [OF holds_frame(1) [OF that] this]] show ?thesis
      by (simp add: frame_pos_def holds_frame(2) [OF that])
  qed
  show ?thesis
    unfolding pivot_out_def
    by (rule runs_mseq [OF get_at [OF h q(1) r(5)]], simp, rule runs_mseq [OF dup], simp,
        rule runs_mseq [OF get_at [OF _ q(2) r(5)]], assumption, simp)
      (rule set2_swap [where f = "[a i]", OF _ q r(5) o], simp)
qed

lemma pivot_in_ok:
  assumes h: "holds ok L0 t n a [] L" and r: "1 \<le> l" "l < i" "i < u" "u \<le> n" "is_int n"
  shows "runs (pivot_in i u) L (\<lambda>_. holds ok L0 t n (a(u - 1 := a i, i := a (u - 1))) [])"
proof -
  have q: "u - 1 \<in> {1..n}" "i \<in> {1..n}" using r by auto
  note o = holds_ok [OF h q(1)] holds_ok [OF h q(2)]
  show ?thesis
    unfolding pivot_in_def
    by (rule runs_mseq [OF get_at [OF h q(1) r(5)]], simp, rule runs_mseq [OF get_at [OF _ q(2) r(5)]], simp, simp)
      (rule set2_swap [where f = "[]", OF _ q r(5) o], simp)
qed

subsection \<open>The sort\<close>

definition in_order :: "int \<Rightarrow> int \<Rightarrow> (int \<Rightarrow> tvalue) \<Rightarrow> bool" where
  "in_order l u a \<longleftrightarrow> (\<forall>i j. l \<le> i \<and> i \<le> j \<and> j \<le> u \<longrightarrow> key (a i) \<le> key (a j))"

text \<open>Two sorted parts on both sides of the pivot are a sorted range, in whatever order they were sorted.\<close>

lemma in_order_glue:
  assumes "parted l u P i i a" "in_order l (i - 1) a" "in_order (i + 1) u a"
  shows "in_order l u a"
  unfolding in_order_def
proof (intro allI impI)
  fix x y assume xy: "l \<le> x \<and> x \<le> y \<and> y \<le> u"
  consider "y \<le> i - 1" | "i + 1 \<le> x" | "x \<le> i" "i \<le> y" by linarith
  then show "key (a x) \<le> key (a y)"
  proof cases
    case 3
    then have "key (a x) \<le> key P" "key P \<le> key (a y)" using assms(1) xy unfolding parted_def by auto
    then show ?thesis by (rule order_trans)
  qed (use assms(2,3) xy in \<open>auto simp: in_order_def\<close>)
qed

lemma parted_perm:
  assumes "parted l u P i i a" "perm_in l (i - 1) a a' \<or> perm_in (i + 1) u a a'" "l \<le> i" "i \<le> u"
  shows "parted l u P i i a'"
proof -
  have e: "\<forall>k. k \<notin> {l..i - 1} \<longrightarrow> a' k = a k" if "perm_in l (i - 1) a a'" using that by (simp add: perm_in_def)
  have e': "\<forall>k. k \<notin> {i + 1..u} \<longrightarrow> a' k = a k" if "perm_in (i + 1) u a a'" using that by (simp add: perm_in_def)
  have k: "\<forall>k\<in>{l..i - 1}. key (a k) \<le> key P" "\<forall>k\<in>{i + 1..u}. key P \<le> key (a k)"
    using assms(1) by (auto simp: parted_def)
  from assms(2) show ?thesis
  proof
    assume p: "perm_in l (i - 1) a a'"
    show ?thesis unfolding parted_def
    proof (intro conjI ballI)
      fix x assume "x \<in> {l..i}"
      then show "key (a' x) \<le> key P"
        using perm_in_all [OF p k(1)] e [OF p] assms(1) by (cases "x = i") (auto simp: parted_def)
    qed (use e [OF p] assms(1) in \<open>auto simp: parted_def\<close>)
  next
    assume p: "perm_in (i + 1) u a a'"
    show ?thesis unfolding parted_def
    proof (intro conjI ballI)
      fix x assume "x \<in> {i..u}"
      then show "key P \<le> key (a' x)"
        using perm_in_all [OF p k(2)] e' [OF p] assms(1) by (cases "x = i") (auto simp: parted_def)
    qed (use e' [OF p] assms(1) in \<open>auto simp: parted_def\<close>)
  qed
qed

lemma in_order_other: "in_order l u a \<Longrightarrow> perm_in l' u' a a' \<Longrightarrow> u < l' \<or> u' < l \<Longrightarrow> in_order l u a'"
  unfolding in_order_def perm_in_def by auto

lemma in_order_short: "u \<le> l \<Longrightarrow> in_order l u a"
  unfolding in_order_def by (metis order.trans order_antisym order_refl)


lemma cast_int_id: "- (2 ^ 31) \<le> k \<Longrightarrow> k < 2 ^ 31 \<Longrightarrow> cast_int k = k"
  unfolding cast_int_def sint_sbintrunc' by (rule signed_take_bit_int_eq_self) simp_all

lemma middle_ok: "0 \<le> l + u \<Longrightarrow> l + u < 2 ^ 31 \<Longrightarrow> middle l u = (l + u) div 2"
  by (simp add: middle_def cast_int_id)

text \<open>Both parts, in the order given by \<open>l1\<close>, \<open>u1\<close> and \<open>l2\<close>, \<open>u2\<close>.\<close>

lemma both_parts:
  assumes IH: "\<And>l u a L. holds ok L0 t n a [] L \<Longrightarrow> 1 \<le> l \<Longrightarrow> u \<le> n \<Longrightarrow> nat (u - l + 1) \<le> fuel \<Longrightarrow>
      runs (auxsort call fuel l u) L (\<lambda>_ L'. \<exists>a'. holds ok L0 t n a' [] L' \<and> perm_in l u a a' \<and> in_order l u a')"
    and h: "holds ok L0 t n a [] L" and pt: "parted l u P i i a" and i: "1 \<le> l" "l \<le> i" "i \<le> u" "u \<le> n" "nat (u - l) \<le> fuel"
    and parts: "l1 = l \<and> u1 = i - 1 \<and> l2 = i + 1 \<and> u2 = u \<or> l1 = i + 1 \<and> u1 = u \<and> l2 = l \<and> u2 = i - 1"
  shows "runs (mseq (auxsort call fuel l1 u1) (auxsort call fuel l2 u2)) L
    (\<lambda>_ L'. \<exists>a'. holds ok L0 t n a' [] L' \<and> perm_in l u a a' \<and> in_order l u a')"
proof -
  have r: "1 \<le> l1" "u1 \<le> n" "nat (u1 - l1 + 1) \<le> fuel" "1 \<le> l2" "u2 \<le> n" "nat (u2 - l2 + 1) \<le> fuel"
    "l \<le> l1" "u1 \<le> u" "l \<le> l2" "u2 \<le> u" "u1 < l2 \<or> u2 < l1" using parts i by auto
  show ?thesis
  proof (rule runs_mseq [OF IH [OF h r(1-3)]], elim exE conjE)
    fix L1 a1 assume h1: "holds ok L0 t n a1 [] L1" and p1: "perm_in l1 u1 a a1" and o1: "in_order l1 u1 a1"
    have pt1: "parted l u P i i a1" by (rule parted_perm [OF pt _ i(2,3)]) (use parts p1 in auto)
    show "runs (auxsort call fuel l2 u2) L1
      (\<lambda>_ L'. \<exists>a'. holds ok L0 t n a' [] L' \<and> perm_in l u a a' \<and> in_order l u a')"
    proof (rule runs_mono [OF IH [OF h1 r(4-6)]], elim exE conjE)
      fix x L2 a2 assume h2: "holds ok L0 t n a2 [] L2" and p2: "perm_in l2 u2 a1 a2" and o2: "in_order l2 u2 a2"
      have "parted l u P i i a2" by (rule parted_perm [OF pt1 _ i(2,3)]) (use parts p2 in auto)
      moreover have "in_order l1 u1 a2" by (rule in_order_other [OF o1 p2 r(11)])
      ultimately have "in_order l u a2" using o2 parts by (auto intro: in_order_glue)
      moreover have "perm_in l u a a2"
        by (rule perm_in_trans [OF perm_in_mono [OF p1 r(7,8)] perm_in_mono [OF p2 r(9,10)]])
      ultimately show "\<exists>a'. holds ok L0 t n a' [] L2 \<and> perm_in l u a a' \<and> in_order l u a'" using h2 by blast
    qed
  qed
qed

lemma pivot_parted:
  assumes "l < i" "i < u - 1" "key (a l) \<le> key (a i)" "key (a i) \<le> key (a u)"
  shows "parted l u (a i) l (u - 1) (a(i := a (u - 1), u - 1 := a i))"
  unfolding parted_def
proof (intro conjI ballI)
  fix k assume "k \<in> {u - 1..u}"
  then have "k = u - 1 \<or> k = u" by auto
  then show "key (a i) \<le> key ((a(i := a (u - 1), u - 1 := a i)) k)" using assms by auto
qed (use assms in auto)

lemma pivot_placed:
  assumes "parted l u P (j - 1) j a" "a (u - 1) = P" "l < j" "j < u"
  shows "parted l u P j j (a(u - 1 := a j, j := a (u - 1)))"
proof -
  have "key P \<le> key (a j)" using assms(1,4) unfolding parted_def by auto
  then show ?thesis using assms unfolding parted_def by auto
qed

text \<open>What follows when the range is long and its three elements are in order.\<close>

definition split_and_sort :: "nat \<Rightarrow> int \<Rightarrow> int \<Rightarrow> int \<Rightarrow> unit lm" where
  "split_and_sort fuel i l u =
     mseq (pivot_out i u)
     (mbind (partition_loop call (nat (u - l)) l u l (u - 1)) (\<lambda>i.
      mseq (pivot_in i u)
        (if i - l < u - i then mseq (auxsort call fuel l (i - 1)) (auxsort call fuel (i + 1) u)
         else mseq (auxsort call fuel (i + 1) u) (auxsort call fuel l (i - 1)))))"

lemma split_and_sort_ok:
  assumes IH: "\<And>l u a L. holds ok L0 t n a [] L \<Longrightarrow> 1 \<le> l \<Longrightarrow> u \<le> n \<Longrightarrow> nat (u - l + 1) \<le> fuel \<Longrightarrow>
      runs (auxsort call fuel l u) L (\<lambda>_ L'. \<exists>a'. holds ok L0 t n a' [] L' \<and> perm_in l u a a' \<and> in_order l u a')"
    and h: "holds ok L0 t n a [] L" and r: "1 \<le> l" "l < i" "i < u - 1" "u \<le> n" "is_int n" "nat (u - l) \<le> fuel"
    and k: "key (a l) \<le> key (a i)" "key (a i) \<le> key (a u)"
  shows "runs (split_and_sort fuel i l u) L (\<lambda>_ L'. \<exists>a'. holds ok L0 t n a' [] L' \<and> perm_in l u a a' \<and> in_order l u a')"
    (is "runs _ _ ?R")
proof -
  let ?a = "a(i := a (u - 1), u - 1 := a i)"
  have part: "runs (partition_loop call (nat (u - l)) l u l (u - 1)) L1 (\<lambda>i' L'. \<exists>a'. holds ok L0 t n a' [] L' \<and> perm_in l u ?a a' \<and>
      parted l u (a i) (i' - 1) i' a' \<and> l < i' \<and> i' < u \<and> a' (u - 1) = a i)" if "holds ok L0 t n ?a [a i] L1" for L1
    by (rule partition_ok [OF that pivot_parted [OF r(2,3) k]]) (use r in auto)
  have rest: "runs (mseq (pivot_in j u)
        (if j - l < u - j then mseq (auxsort call fuel l (j - 1)) (auxsort call fuel (j + 1) u)
         else mseq (auxsort call fuel (j + 1) u) (auxsort call fuel l (j - 1)))) L4 ?R"
    if q: "holds ok L0 t n a4 [] L4" "perm_in l u ?a a4" "parted l u (a i) (j - 1) j a4" "l < j" "j < u" "a4 (u - 1) = a i"
    for j L4 a4
  proof -
    have p3: "perm_in l u a (a(i := a (u - 1), u - 1 := a i))" by (rule perm_in_swap) (use r in auto)
    show ?thesis
    proof (rule runs_mseq [OF pivot_in_ok [OF q(1) r(1) q(4,5) r(4,5)]])
      let ?b = "a4(u - 1 := a4 j, j := a4 (u - 1))"
      fix L5 assume h5: "holds ok L0 t n ?b [] L5"
      have pb: "perm_in l u a ?b"
        by (rule perm_in_trans [OF perm_in_trans [OF p3 q(2)] perm_in_swap]) (use q(4,5) in auto)
      note ptb = pivot_placed [OF q(3,6,4,5)]
      have bp: "runs (mseq (auxsort call fuel l1 u1) (auxsort call fuel l2 u2)) L5 ?R"
        if parts: "l1 = l \<and> u1 = j - 1 \<and> l2 = j + 1 \<and> u2 = u \<or> l1 = j + 1 \<and> u1 = u \<and> l2 = l \<and> u2 = j - 1" for l1 u1 l2 u2
        by (rule runs_mono [OF both_parts [OF IH h5 ptb _ _ _ _ _ parts]])
          (use q(4,5) r perm_in_trans [OF pb] in auto)
      show "runs (if j - l < u - j then mseq (auxsort call fuel l (j - 1)) (auxsort call fuel (j + 1) u)
          else mseq (auxsort call fuel (j + 1) u) (auxsort call fuel l (j - 1))) L5 ?R"
        by (simp add: bp)
    qed
  qed
  show ?thesis
    unfolding split_and_sort_def
  proof (rule runs_mseq [OF pivot_out_ok [OF h r(1-5)]])
    fix L1 assume "holds ok L0 t n ?a [a i] L1"
    from part [OF this] show "runs (mbind (partition_loop call (nat (u - l)) l u l (u - 1)) (\<lambda>i. mseq (pivot_in i u)
        (if i - l < u - i then mseq (auxsort call fuel l (i - 1)) (auxsort call fuel (i + 1) u)
         else mseq (auxsort call fuel (i + 1) u) (auxsort call fuel l (i - 1))))) L1 ?R"
      by (rule runs_mbind) (elim exE conjE, rule rest)
  qed
qed


lemma in_order_two: "u - l = 1 \<Longrightarrow> key (a l) \<le> key (a u) \<Longrightarrow> in_order l u a"
  unfolding in_order_def
proof (intro allI impI)
  fix x y assume a: "u - l = 1" "key (a l) \<le> key (a u)" "l \<le> x \<and> x \<le> y \<and> y \<le> u"
  then have "x = y \<or> x = l \<and> y = u" by auto
  then show "key (a x) \<le> key (a y)" using a(2) by auto
qed

lemma in_order_three: "u - l = 2 \<Longrightarrow> key (a l) \<le> key (a (l + 1)) \<Longrightarrow> key (a (l + 1)) \<le> key (a u) \<Longrightarrow> in_order l u a"
  unfolding in_order_def
proof (intro allI impI)
  fix x y assume a: "u - l = 2" "key (a l) \<le> key (a (l + 1))" "key (a (l + 1)) \<le> key (a u)" "l \<le> x \<and> x \<le> y \<and> y \<le> u"
  then have "x = y \<or> x = l \<and> (y = l + 1 \<or> y = u) \<or> x = l + 1 \<and> y = u" by auto
  then show "key (a x) \<le> key (a y)" using a(2,3) by auto
qed

lemma auxsort_ok:
  assumes "holds ok L0 t n a [] L" "1 \<le> l" "u \<le> n" "n < 2 ^ 30" "nat (u - l + 1) \<le> fuel"
  shows "runs (auxsort call fuel l u) L (\<lambda>_ L'. \<exists>a'. holds ok L0 t n a' [] L' \<and> perm_in l u a a' \<and> in_order l u a')"
  using assms
proof (induction fuel arbitrary: a l u L)
  case 0
  then have "auxsort call 0 l u = mret ()" "u \<le> l" by simp_all
  then show ?case using 0 by (simp only: runs_mret) (auto simp: in_order_short intro!: exI [of _ a])
next
  case (Suc fuel)
  let ?R = "\<lambda>_ L'. \<exists>a'. holds ok L0 t n a' [] L' \<and> perm_in l u a a' \<and> in_order l u a'"
  let ?i = "middle l u"
  note h = Suc.prems(1) and IH = Suc.IH [OF _ _ _ Suc.prems(4)]
  show ?case
  proof (cases "l < u")
    case False
    then have "auxsort call (Suc fuel) l u = mret ()" "u \<le> l" by simp_all
    then show ?thesis using h by (simp only: runs_mret) (auto simp: in_order_short intro!: exI [of _ a])
  next
    case lu: True
    then have n: "is_int n" using Suc.prems by (auto simp: is_int_def int_min_def int_max_def)
    have mid: "?i = (l + u) div 2" by (rule middle_ok) (use Suc.prems lu in auto)
    have "runs (mseq (order_ends call l u) (if u - l = 1 then mret () else
        mseq (order_middle call ?i l u) (if u - l = 2 then mret () else split_and_sort fuel ?i l u))) L ?R"
    proof (rule runs_mseq [OF order_ends_ok [OF h Suc.prems(2) lu Suc.prems(3) n]], elim exE conjE, goal_cases)
      case (1 L1 a1)
      show ?case
      proof (cases "u - l = 1")
        case True
        then show ?thesis using 1 in_order_two by auto
      next
        case False
        then have i: "l < ?i" "?i < u" using lu by (auto simp: mid)
        have "runs (mseq (order_middle call ?i l u) (if u - l = 2 then mret () else split_and_sort fuel ?i l u)) L1 ?R"
        proof (rule runs_mseq [OF order_middle_ok [OF 1(1) Suc.prems(2) i Suc.prems(3) n 1(3)]], elim exE conjE)
          fix L2 a2 assume 2: "holds ok L0 t n a2 [] L2" "perm_in l u a1 a2" "key (a2 l) \<le> key (a2 ?i)" "key (a2 ?i) \<le> key (a2 u)"
          note p2 = perm_in_trans [OF 1(2) 2(2)]
          show "runs (if u - l = 2 then mret () else split_and_sort fuel ?i l u) L2 ?R"
          proof (cases "u - l = 2")
            case True
            then have "?i = l + 1" by (auto simp: mid)
            then have "in_order l u a2" using 2(3,4) True by (intro in_order_three) simp_all
            then show ?thesis using True 2(1) p2 by auto
          next
            case ne: False
            then have i2: "?i < u - 1" using lu False by (auto simp: mid)
            have "runs (split_and_sort fuel ?i l u) L2
                (\<lambda>_ L'. \<exists>a'. holds ok L0 t n a' [] L' \<and> perm_in l u a2 a' \<and> in_order l u a')"
              by (rule split_and_sort_ok [OF IH 2(1) Suc.prems(2) i(1) i2 Suc.prems(3) n _ 2(3,4)]) (use Suc.prems in auto)
            then show ?thesis using ne perm_in_trans [OF p2] by (auto elim!: runs_mono)
          qed
        qed
        then show ?thesis using False by simp
      qed
    qed
    then show ?thesis using lu by (simp only: auxsort.simps split_and_sort_def if_True)
  qed
qed


lemma holds_start:
  assumes ok: "frame_ok L" and fr: "frame L = [TableRef t]" and tb: "tables L t = Some tb" "table_ok tb" "luaH_getn tb = Inr n"
    and v: "\<forall>i\<in>{1..int n}. ok (amap tb (int_val i))" and n: "n < 2 ^ 30"
  shows "\<exists>L1. holds ok L t (int n) (\<lambda>i. amap tb (int_val i)) [] L1 \<and> sort_fuel fuel call L = mseq (auxsort call (n + fuel) 1 (int n)) (mret 0) L1"
proof -
  have tp: "top L = base L + 1" using length_frame [OF ok] fr ok by (simp add: frame_ok_def)
  have st: "base L < length (stack L)" "stack L ! base L = TableRef t"
    using frame_nth [OF ok, of 0] fr tp ok by (auto simp: frame_ok_def)
  let ?ci = "\<lambda>L. if ci_top (ci L) < top L + 40 then L\<lparr>ci := (ci L)\<lparr>ci_top := top L + 40\<rparr>\<rparr> else L"
  have "\<exists>s. luaD_checkstack 40 L = (Inr (), L\<lparr>stack := s\<rparr>) \<and> length s \<ge> top L + 20 \<and> take (length (stack L)) s = stack L"
  proof (cases "int (length (stack L)) - int EXTRA_STACK - 1 - int (top L) \<le> int 40")
    case True
    then show ?thesis
      using ok by (auto simp: luaD_checkstack_def luaD_growstack_def luaD_reallocstack_def Let_def EXTRA_STACK_def frame_ok_def)
  next
    case False
    then show ?thesis by (intro exI [of _ "stack L"]) (simp add: luaD_checkstack_def EXTRA_STACK_def)
  qed
  then obtain s where s: "luaD_checkstack 40 L = (Inr (), L\<lparr>stack := s\<rparr>)" "length s \<ge> top L + 20" "take (length (stack L)) s = stack L"
    by blast
  define L1 where "L1 = ?ci (L\<lparr>stack := s\<rparr>)"
  have L1: "top L1 = base L + 1" "base L1 = base L" "stack L1 = s" "tables L1 = tables L" using tp by (simp_all add: L1_def)
  have s0: "s ! base L = TableRef t" using s(3) st by (metis nth_take)
  have "base L + 2 \<le> length (stack L1)" using s(2) tp L1 by simp
  from fill_nil_ok [OF this, of "base L + 1"] obtain s' where s': "fill_nil (base L + 1) (base L + 2) L1 = (Inr (), L1\<lparr>stack := s'\<rparr>)"
    "length s' = length s" "\<forall>k < length s'. s' ! k = (if base L + 1 \<le> k \<and> k < base L + 2 then Nil else s ! k)"
    unfolding L1 by blast
  let ?L2 = "L1\<lparr>stack := s', top := base L + 2\<rparr>"
  have ty: "luaL_checktype call 1 LUA_TTABLE L = (Inr (), L)"
    using tp st by (simp add: luaL_checktype_def lua_type_def index2adr_def mbind_def adr_val_def getstk_def)
  have "lua_objlen 1 L = (Inr n, L)"
    using tp st tb by (simp add: lua_objlen_def index2adr_def mbind_def adr_val_def getstk_def tbl_def)
  then have gn: "aux_getn call 1 L = (Inr (int n), L)"
    using n by (simp add: aux_getn_def mseq_def mbind_def ty luaL_getn_def cast_int_id)
  have cs: "luaL_checkstack call 40 [] L = (Inr (), L1)"
    using tp by (simp add: luaL_checkstack_def lua_checkstack_def mbind_def mseq_def s(1) LUAI_MAXCSTACK_def L1_def)
  have nn: "lua_isnoneornil 2 L1 = (Inr True, L1)"
    using L1 by (simp add: lua_isnoneornil_def lua_type_def index2adr_def mbind_def LUA_TNONE_def)
  have "lua_settop 2 L1 = (Inr (), ?L2)"
    using L1 s'(1) by (simp add: lua_settop_def mseq_def mbind_def)
  then have e: "sort_fuel fuel call L = mseq (auxsort call (n + fuel) 1 (int n)) (mret 0) ?L2"
    by (simp add: sort_fuel_def mbind_def mseq_def gn cs nn)
  have "s' ! base L = TableRef t" "s' ! (base L + 1) = Nil" using s'(2,3) s(2) s0 tp by auto
  then have "frame ?L2 = [TableRef t, Nil]"
    using s'(2) s(2) tp L1 by (intro frame_eqI [of _ ?L2]) (auto simp: less_Suc_eq nth_Cons')
  moreover have "frame_ok ?L2" using s'(2) s(2) tp L1 by (simp add: frame_ok_def)
  moreover have "array_in t (int n) (\<lambda>i. amap tb (int_val i)) L ?L2" using tb L1 by (simp add: array_in_def)
  ultimately have "holds ok L t (int n) (\<lambda>i. amap tb (int_val i)) [] ?L2"
    using v s'(2) s(2) tp L1 by (simp add: holds_def)
  then show ?thesis using e by blast
qed

lemma sort_ok:
  assumes "frame_ok L" "frame L = [TableRef t]" "tables L t = Some tb" "table_ok tb" "luaH_getn tb = Inr n"
    "\<forall>i\<in>{1..int n}. ok (amap tb (int_val i))" "n < 2 ^ 30"
  shows "\<exists>L' a. sort_fuel fuel call L = (Inr 0, L') \<and> array_in t (int n) a L L' \<and> (\<forall>i\<in>{1..int n}. ok (a i)) \<and>
    perm_in 1 (int n) (\<lambda>i. amap tb (int_val i)) a \<and> in_order 1 (int n) a"
proof -
  obtain L1 where h: "holds ok L t (int n) (\<lambda>i. amap tb (int_val i)) [] L1"
    and e: "sort_fuel fuel call L = mseq (auxsort call (n + fuel) 1 (int n)) (mret 0) L1"
    using holds_start [OF assms] by blast
  have "runs (auxsort call (n + fuel) 1 (int n)) L1 (\<lambda>_ L'. \<exists>a'. holds ok L t (int n) a' [] L' \<and>
      perm_in 1 (int n) (\<lambda>i. amap tb (int_val i)) a' \<and> in_order 1 (int n) a')"
    by (rule auxsort_ok [OF h]) (use assms(7) in auto)
  then show ?thesis unfolding e by (fastforce simp: runs_def mseq_def mbind_def holds_def)
qed


end

subsection \<open>Numbers and strings\<close>

fun num_key :: "tvalue \<Rightarrow> int" where
  "num_key (Number d) = (if dbl_zero d then 0 else if dbl_neg d then - int (unat d) else int (unat d))"
| "num_key _ = 0"

fun num_ok :: "tvalue \<Rightarrow> bool" where
  "num_ok (Number d) = (\<not> dbl_nan d)"
| "num_ok _ = False"

fun str_key :: "tvalue \<Rightarrow> nat list" where
  "str_key (String s) = map uchar s"
| "str_key _ = []"

fun str_ok :: "tvalue \<Rightarrow> bool" where
  "str_ok (String s) = True"
| "str_ok _ = False"

lemma num_ok_iff: "num_ok v \<longleftrightarrow> (\<exists>d. v = Number d \<and> \<not> dbl_nan d)"
  by (cases v) auto

lemma str_ok_iff: "str_ok v \<longleftrightarrow> (\<exists>s. v = String s)"
  by (cases v) auto

lemma dbl_zero_mod: "dbl_zero d \<longleftrightarrow> unat d mod 2 ^ 63 = 0"
  using mod_mult2_eq [of "unat d" "2 ^ 52" "2 ^ 11"] by (simp add: dbl_zero_def dbl_exp_def dbl_frac_def)

lemma numlt_key:
  assumes "\<not> dbl_nan d" "\<not> dbl_nan e"
  shows "luai_numlt d e \<longleftrightarrow> num_key (Number d) < num_key (Number e)"
proof -
  have zero: "dbl_zero x \<longleftrightarrow> unat x = 0 \<or> unat x = 2 ^ 63" for x :: lua_Number
  proof -
    have "unat x < 2 * 2 ^ 63" using unsigned_less [of x] by simp
    then have "unat x div 2 ^ 63 = 0 \<or> unat x div 2 ^ 63 = 1" using less_mult_imp_div_less [of "unat x" 2 "2 ^ 63"] by auto
    then show ?thesis using div_mult_mod_eq [of "unat x" "2 ^ 63"] unfolding dbl_zero_mod by auto
  qed
  have "\<not> ((m = 0 \<or> m = c) \<and> (k = 0 \<or> k = c)) \<and> (if c \<le> m then \<not> c \<le> k \<or> k < m else \<not> c \<le> k \<and> m < k) \<longleftrightarrow>
      (if m = 0 \<or> m = c then 0 else if c \<le> m then - int m else int m) <
      (if k = 0 \<or> k = c then 0 else if c \<le> k then - int k else int k)" if "0 < c" for m k c :: nat
    using that by auto
  from this [of "2 ^ 63" "unat d" "unat e"] show ?thesis
    using assms by (simp only: luai_numlt_def num_key.simps zero dbl_neg_def) simp
qed

lemma lexord_uchar: "(s, r) \<in> lexord char_less \<longleftrightarrow> map uchar s < map uchar r"
  unfolding list_less_def
proof (induction s arbitrary: r)
  case (Cons c s)
  then show ?case by (cases r) (auto simp: char_less_def uchar_eq)
qed (case_tac r; simp)

lemma strcmp_key: "l_strcmp s r < 0 \<longleftrightarrow> str_key (String s) < str_key (String r)"
  using l_strcmp_cases [of s r] less_asym [of "map uchar s" "map uchar r"] by (auto simp: lexord_uchar)

interpretation num_sort: sortable call num_key num_ok for call
  by unfold_locales (auto simp: num_ok_iff luaV_lessthan_def numlt_key simp del: num_key.simps)

interpretation str_sort: sortable call str_key str_ok for call
  by unfold_locales (auto simp: str_ok_iff luaV_lessthan_def strcmp_key simp del: str_key.simps)


text \<open>The order of \<^verbatim>\<open><\<close> on two numbers or two strings.\<close>

definition value_less :: "tvalue \<Rightarrow> tvalue \<Rightarrow> bool" where
  "value_less v w =
     (case (v, w) of
        (Number d, Number e) \<Rightarrow> luai_numlt d e
      | (String s, String r) \<Rightarrow> l_strcmp s r < 0
      | _ \<Rightarrow> False)"

definition array_of :: "table \<Rightarrow> nat \<Rightarrow> tvalue list" where
  "array_of tb n = map (\<lambda>i. amap tb (int_val i)) [1..int n]"

lemma array_of_nth: "k < n \<Longrightarrow> array_of tb n ! k = amap tb (int_val (int k + 1))"
  by (simp add: array_of_def add.commute)

lemma mset_array_of: "Multiset.mset (array_of tb n) = image_mset (\<lambda>i. amap tb (int_val i)) (mset_set {1..int n})"
  by (simp add: array_of_def flip: mset_set_set [OF distinct_upto])

text \<open>What the sort did, in terms of the table.\<close>

definition sorted_result :: "lua_State \<Rightarrow> addr \<Rightarrow> table \<Rightarrow> nat \<Rightarrow> int res \<times> lua_State \<Rightarrow> bool" where
  "sorted_result L t tb n r \<longleftrightarrow>
     (\<exists>L' tb'. r = (Inr 0, L') \<and> tables L' = (tables L)(t \<mapsto> tb') \<and> table_ok tb' \<and> metatable tb' = metatable tb \<and>
        Multiset.mset (array_of tb' n) = Multiset.mset (array_of tb n) \<and>
        (\<forall>i j. i \<le> j \<and> j < n \<longrightarrow> \<not> value_less (array_of tb' n ! j) (array_of tb' n ! i)) \<and>
        (\<forall>k. (\<forall>i\<in>{1..int n}. norm_key k \<noteq> norm_key (int_val i)) \<longrightarrow> amap tb' k = amap tb k))"

lemma sorted_resultI:
  assumes r: "r = (Inr 0, L')" and arr: "array_in t (int n) a L L'" and tb: "tables L t = Some tb"
    and p: "perm_in 1 (int n) (\<lambda>i. amap tb (int_val i)) a"
    and o: "\<And>i j. 1 \<le> i \<Longrightarrow> i \<le> j \<Longrightarrow> j \<le> int n \<Longrightarrow> \<not> value_less (a j) (a i)"
  shows "sorted_result L t tb n r"
proof -
  obtain tb' where tb': "tables L' t = Some tb'" "table_ok tb'" "metatable tb' = metatable tb"
    "\<forall>i\<in>{1..int n}. amap tb' (int_val i) = a i"
    "\<forall>k. (\<forall>i\<in>{1..int n}. norm_key k \<noteq> norm_key (int_val i)) \<longrightarrow> amap tb' k = amap tb k"
    "\<And>x. x \<noteq> t \<Longrightarrow> tables L' x = tables L x"
    using arr tb by (auto simp: array_in_def)
  have m: "Multiset.mset (array_of tb' n) = Multiset.mset (array_of tb n)"
  proof -
    have "image_mset (\<lambda>i. amap tb' (int_val i)) (mset_set {1..int n}) = image_mset a (mset_set {1..int n})"
      by (rule image_mset_cong) (use tb'(4) in simp)
    then show ?thesis using p by (simp add: mset_array_of perm_in_def)
  qed
  have "\<not> value_less (array_of tb' n ! j) (array_of tb' n ! i)" if "i \<le> j \<and> j < n" for i j
    using that o [of "int i + 1" "int j + 1"] tb'(4) by (auto simp: array_of_nth)
  moreover have "tables L' = (tables L)(t \<mapsto> tb')" using tb'(1,6) by auto
  ultimately show ?thesis using r m tb' unfolding sorted_result_def by blast
qed

text \<open>
  C38: \<^verbatim>\<open>table.sort\<close> sorts. On a table whose elements from 1 to its length are all numbers (and none NaN), or
  all strings, the quicksort of \<^verbatim>\<open>auxsort\<close> ends without an error, also not the one about an invalid order
  function; afterwards the elements are a permutation of what they were, no element is less than one before
  it, and the other fields of the table and all other tables are as before.
\<close>

theorem sort_sorts:
  assumes "frame_ok L" "frame L = [TableRef t]" "tables L t = Some tb" "table_ok tb" "luaH_getn tb = Inr n" "n < 2 ^ 30"
    and "(\<forall>v \<in> set (array_of tb n). num_ok v) \<or> (\<forall>v \<in> set (array_of tb n). str_ok v)"
  shows "sorted_result L t tb n (sort_fuel 0 call L)"
  using assms(7)
proof
  assume "\<forall>v \<in> set (array_of tb n). num_ok v"
  then have "\<forall>i\<in>{1..int n}. num_ok (amap tb (int_val i))" by (simp add: array_of_def)
  from num_sort.sort_ok [OF assms(1-5) this assms(6)] obtain L' a where
    s: "sort_fuel 0 call L = (Inr 0, L')" "array_in t (int n) a L L'" "\<forall>i\<in>{1..int n}. num_ok (a i)"
      "perm_in 1 (int n) (\<lambda>i. amap tb (int_val i)) a" "num_sort.in_order 1 (int n) a" by blast
  have "\<not> value_less (a j) (a i)" if ij: "1 \<le> i" "i \<le> j" "j \<le> int n" for i j
  proof -
    obtain d e where "a i = Number d" "a j = Number e" "\<not> dbl_nan d" "\<not> dbl_nan e"
      using s(3) [rule_format, of i] s(3) [rule_format, of j] ij by (auto simp: num_ok_iff)
    then show ?thesis using s(5) ij numlt_key [of e d]
      by (simp add: value_less_def num_sort.in_order_def not_less del: num_key.simps) metis
  qed
  then show ?thesis by (rule sorted_resultI [OF s(1,2) assms(3) s(4)])
next
  assume "\<forall>v \<in> set (array_of tb n). str_ok v"
  then have "\<forall>i\<in>{1..int n}. str_ok (amap tb (int_val i))" by (simp add: array_of_def)
  from str_sort.sort_ok [OF assms(1-5) this assms(6)] obtain L' a where
    s: "sort_fuel 0 call L = (Inr 0, L')" "array_in t (int n) a L L'" "\<forall>i\<in>{1..int n}. str_ok (a i)"
      "perm_in 1 (int n) (\<lambda>i. amap tb (int_val i)) a" "str_sort.in_order 1 (int n) a" by blast
  have "\<not> value_less (a j) (a i)" if ij: "1 \<le> i" "i \<le> j" "j \<le> int n" for i j
  proof -
    obtain d e where "a i = String d" "a j = String e"
      using s(3) [rule_format, of i] s(3) [rule_format, of j] ij by (auto simp: str_ok_iff)
    then show ?thesis using s(5) ij strcmp_key [of e d]
      by (simp add: value_less_def str_sort.in_order_def not_less del: str_key.simps) metis
  qed
  then show ?thesis by (rule sorted_resultI [OF s(1,2) assms(3) s(4)])
qed


definition unsorted :: table where
  "unsorted = \<lparr>flags = 0, t_array = map (\<lambda>i. Number (cast_num i)) [3, 1, 2], sizearray = 3, t_node = [empty_node],
     lsizenode = 0, lastfree = 0, isdummy = True, metatable = None\<rparr>"

lemma unsorted_inv: "table_ok unsorted"
  using nodes_ok_empty [of 0] by (auto simp: table_ok_def table_inv_def unsorted_def keyed_def empty_node_def less_Suc_eq)

lemma unsorted_array: "array_of unsorted 3 = map (\<lambda>i. Number (cast_num i)) [3, 1, 2]"
proof -
  have "[1..int 3] = [1, 2, 3]" by code_simp
  moreover have "is_int 1" "is_int 2" "is_int 3" by code_simp+
  ultimately show ?thesis by (simp add: array_of_def amap_alt unsorted_def in_array_def int_val_def)
qed

theorem sort_sorts_witness:
  "sorted_result (sample_state [TableRef 7] 60 \<lparr>tables := [7 \<mapsto> unsorted]\<rparr>) 7 unsorted 3
     (sort_fuel 0 (\<lambda>_ _. mret ()) (sample_state [TableRef 7] 60 \<lparr>tables := [7 \<mapsto> unsorted]\<rparr>))"
proof (rule sort_sorts [OF _ _ _ unsorted_inv])
  show "luaH_getn unsorted = Inr 3" by (simp add: luaH_getn_def unsorted_def)
qed (auto simp: frame_ok_def frame_def sample_state_def unsorted_array cast_num_not_nan is_int_def int_min_def int_max_def)

end
