(* ===== verification/LuaLex.thy ===== *)
theory LuaLex
  imports LuaAux
begin

section \<open>The scanner\<close>

text \<open>
  \<^verbatim>\<open>llex.c\<close> with the data of \<^verbatim>\<open>llex.h\<close> and \<^verbatim>\<open>lparser.h\<close>. The
  compiler is a state monad with errors over the lexical state, which holds the stack of the functions
  that are being compiled (the innermost first). Bytes are \<open>int\<close>s from 0 to 255 with \<^verbatim>\<open>EOZ\<close>
  below them, tokens are the \<open>int\<close>s of the code. A loop may take \<open>ls_fuel\<close> rounds, a bound that is
  no part of the code: \<open>OutOfFuel\<close> is no answer of the compiler, and the theory \<^verbatim>\<open>LuaLexFacts\<close>
  shows that a bound above the length of the source is enough for the scanner. \<open>ls_pow\<close> is \<^verbatim>\<open>pow\<close> of
  the C library, which folds constants.
\<close>

subsection \<open>Data\<close>

datatype SemInfo = SemR lua_Number | SemTS string

record Token =
  token :: int
  seminfo :: SemInfo

datatype expkind =
    VVOID | VNIL | VTRUE | VFALSE | VK | VKNUM | VLOCAL | VUPVAL | VGLOBAL | VINDEXED | VJMP | VRELOCABLE
  | VNONRELOC | VCALL | VVARARG

text \<open>The union of \<^verbatim>\<open>expdesc\<close> is two components; no code reads one after it wrote the other.\<close>

record expdesc =
  e_k :: expkind
  e_info :: int
  e_aux :: int
  e_nval :: lua_Number
  e_t :: int
  e_f :: int

record upvaldesc =
  uv_k :: expkind
  uv_info :: int

record BlockCnt =
  breaklist :: int
  bl_nactvar :: int
  bl_upval :: bool
  isbreakable :: bool

text \<open>
  \<^verbatim>\<open>fs_pc\<close>, \<^verbatim>\<open>nk\<close>, \<^verbatim>\<open>np\<close> and \<^verbatim>\<open>nlocvars\<close> count the elements in use of the vectors
  of \<^verbatim>\<open>f\<close>. The vectors of constants, functions, locals and upvalues are the lists of these elements.
  Code can shrink, so it keeps its counter: what lies at and above \<open>fs_pc\<close> is not in use. The fields
  of \<^verbatim>\<open>f\<close> are those that change during the compilation.
\<close>

record FuncState =
  f_linedefined :: int
  f_lastlinedefined :: int
  f_numparams :: "8 word"
  f_is_vararg :: "8 word"
  f_maxstacksize :: "8 word"
  f_code :: "Instruction list"
  f_lineinfo :: "int list"
  f_k :: "tvalue list"
  f_p :: "Proto list"
  f_locvars :: "LocVar list"
  f_upvalues :: "string list"
  fs_h :: table
  fs_bl :: "BlockCnt list"
  fs_pc :: int
  lasttarget :: int
  jpc :: int
  fs_freereg :: int
  nactvar :: int
  fs_upvalues :: "upvaldesc list"
  actvar :: "nat list"

record 'd LexState =
  current :: int
  linenumber :: int
  lastline :: int
  ls_t :: Token
  lookahead :: Token
  ls_fs :: "FuncState list"
  ls_nCcalls :: nat
  ls_z :: "'d zio"
  ls_buff :: Mbuffer
  ls_source :: string
  decpoint :: char
  ls_fuel :: nat
  ls_pow :: "lua_Number \<Rightarrow> lua_Number \<Rightarrow> lua_Number"

type_synonym ('d, 'a) P = "'d LexState \<Rightarrow> ('a \<times> 'd LexState) res"

subsection \<open>The monad\<close>

definition pret :: "'a \<Rightarrow> ('d, 'a) P" where "pret x ls = Inr (x, ls)"
definition pfail :: "lua_error \<Rightarrow> ('d, 'a) P" where "pfail e ls = Inl e"
definition plift :: "'a res \<Rightarrow> ('d, 'a) P" where "plift r ls = rbind r (\<lambda>x. Inr (x, ls))"
definition pget :: "('d LexState \<Rightarrow> 'a) \<Rightarrow> ('d, 'a) P" where "pget f ls = Inr (f ls, ls)"
definition pmod :: "('d LexState \<Rightarrow> 'd LexState) \<Rightarrow> ('d, unit) P" where "pmod f ls = Inr ((), f ls)"

definition pbind :: "('d, 'a) P \<Rightarrow> ('a \<Rightarrow> ('d, 'b) P) \<Rightarrow> ('d, 'b) P" where
  "pbind m f ls = rbind (m ls) (\<lambda>(x, ls'). f x ls')"

definition pseq :: "('d, unit) P \<Rightarrow> ('d, 'b) P \<Rightarrow> ('d, 'b) P" where
  "pseq m n = pbind m (\<lambda>_. n)"

definition pwhen :: "bool \<Rightarrow> ('d, unit) P \<Rightarrow> ('d, unit) P" where
  "pwhen c m = (if c then m else pret ())"

text \<open>A loop: \<open>Inl\<close> goes on with a new value, \<open>Inr\<close> leaves.\<close>

primrec ploop_n :: "nat \<Rightarrow> ('s \<Rightarrow> ('d, 's + 'a) P) \<Rightarrow> 's \<Rightarrow> ('d, 'a) P" where
  "ploop_n 0 f s = pfail OutOfFuel"
| "ploop_n (Suc n) f s = pbind (f s) (\<lambda>r. case r of Inl s' \<Rightarrow> ploop_n n f s' | Inr x \<Rightarrow> pret x)"

definition ploop :: "('s \<Rightarrow> ('d, 's + 'a) P) \<Rightarrow> 's \<Rightarrow> ('d, 'a) P" where
  "ploop f s = pbind (pget ls_fuel) (\<lambda>n. ploop_n n f s)"

subsection \<open>Tokens\<close>

definition FIRST_RESERVED :: int where "FIRST_RESERVED = 257"

definition luaX_tokens :: "string list" where
  "luaX_tokens =
     [''and'', ''break'', ''do'', ''else'', ''elseif'', ''end'', ''false'', ''for'', ''function'', ''if'',
      ''in'', ''local'', ''nil'', ''not'', ''or'', ''repeat'', ''return'', ''then'', ''true'', ''until'', ''while'',
      ''..'', ''...'', ''=='', ''>='', ''<='', ''~='', ''<number>'', ''<name>'', ''<string>'', ''<eof>'']"

definition TK_AND :: int where "TK_AND = 257"
definition TK_BREAK :: int where "TK_BREAK = 258"
definition TK_DO :: int where "TK_DO = 259"
definition TK_ELSE :: int where "TK_ELSE = 260"
definition TK_ELSEIF :: int where "TK_ELSEIF = 261"
definition TK_END :: int where "TK_END = 262"
definition TK_FALSE :: int where "TK_FALSE = 263"
definition TK_FOR :: int where "TK_FOR = 264"
definition TK_FUNCTION :: int where "TK_FUNCTION = 265"
definition TK_IF :: int where "TK_IF = 266"
definition TK_IN :: int where "TK_IN = 267"
definition TK_LOCAL :: int where "TK_LOCAL = 268"
definition TK_NIL :: int where "TK_NIL = 269"
definition TK_NOT :: int where "TK_NOT = 270"
definition TK_OR :: int where "TK_OR = 271"
definition TK_REPEAT :: int where "TK_REPEAT = 272"
definition TK_RETURN :: int where "TK_RETURN = 273"
definition TK_THEN :: int where "TK_THEN = 274"
definition TK_TRUE :: int where "TK_TRUE = 275"
definition TK_UNTIL :: int where "TK_UNTIL = 276"
definition TK_WHILE :: int where "TK_WHILE = 277"
definition TK_CONCAT :: int where "TK_CONCAT = 278"
definition TK_DOTS :: int where "TK_DOTS = 279"
definition TK_EQ :: int where "TK_EQ = 280"
definition TK_GE :: int where "TK_GE = 281"
definition TK_LE :: int where "TK_LE = 282"
definition TK_NE :: int where "TK_NE = 283"
definition TK_NUMBER :: int where "TK_NUMBER = 284"
definition TK_NAME :: int where "TK_NAME = 285"
definition TK_STRING :: int where "TK_STRING = 286"
definition TK_EOS :: int where "TK_EOS = 287"

definition NUM_RESERVED :: nat where "NUM_RESERVED = nat (TK_WHILE - FIRST_RESERVED + 1)"

text \<open>
  The field \<^verbatim>\<open>reserved\<close> of a string, as \<^verbatim>\<open>luaX_init\<close> sets it for the reserved words: strings
  are identified with their bytes.
\<close>

definition reserved_of :: "string \<Rightarrow> nat" where
  "reserved_of s =
     (let i = length (takeWhile (\<lambda>w. w \<noteq> s) (take NUM_RESERVED luaX_tokens)) in
      if i < NUM_RESERVED then i + 1 else 0)"

text \<open>The character of a C literal as a token or as the current character.\<close>

abbreviation ch :: "char \<Rightarrow> int" where "ch \<equiv> char2int"

text \<open>The classes of \<^verbatim>\<open>ctype.h\<close> on \<open>int\<close>: none holds \<^verbatim>\<open>EOZ\<close>.\<close>

definition cclass :: "(char \<Rightarrow> bool) \<Rightarrow> int \<Rightarrow> bool" where
  "cclass P c \<longleftrightarrow> 0 \<le> c \<and> P (char_of c)"

subsection \<open>Errors\<close>

definition MAXSRC :: nat where "MAXSRC = 80"

text \<open>The message before the token is added.\<close>

definition lex_message :: "string \<Rightarrow> ('d, string) P" where
  "lex_message msg =
     pbind (pget ls_source) (\<lambda>src.
     pbind (plift (luaO_chunkid src MAXSRC)) (\<lambda>buff.
     pbind (pget linenumber) (\<lambda>line.
       plift (luaO_pushvfstring ''%s:%d: %s'' [FS (Some buff), FD line, FS (Some msg)]))))"

definition save :: "int \<Rightarrow> ('d, unit) P" where
  "save c =
     pbind (pget ls_buff) (\<lambda>buf.
     pseq (if bufflen buf + 1 > buffsize buf then
             if buffsize buf \<ge> MAX_SIZET div 2
             then pbind (lex_message ''lexical element too long'') (\<lambda>m. pfail (ErrSyntax m))
             else pmod (ls_buff_update (\<lambda>buf. luaZ_resizebuffer buf (buffsize buf * 2)))
           else pret ())
     (pmod (ls_buff_update (\<lambda>buf. buf\<lparr>buffer := (buffer buf)[bufflen buf := char_of c], bufflen := bufflen buf + 1\<rparr>))))"

definition luaX_token2str :: "int \<Rightarrow> ('d, string) P" where
  "luaX_token2str tk =
     (if tk < FIRST_RESERVED then
        (if cclass iscntrl tk then plift (luaO_pushvfstring ''char(%d)'' [FD tk])
         else plift (luaO_pushvfstring ''%c'' [FC (char_of tk)]))
      else if nat (tk - FIRST_RESERVED) < length luaX_tokens then pret (luaX_tokens ! nat (tk - FIRST_RESERVED))
      else pfail UndefinedAccess)"

definition txtToken :: "int \<Rightarrow> ('d, string) P" where
  "txtToken tk =
     (if tk = TK_NAME \<or> tk = TK_STRING \<or> tk = TK_NUMBER
      then pseq (save 0) (pget (\<lambda>ls. cstr (buffer (ls_buff ls))))
      else luaX_token2str tk)"

definition luaX_lexerror :: "string \<Rightarrow> int \<Rightarrow> ('d, 'a) P" where
  "luaX_lexerror msg tk =
     pbind (lex_message msg) (\<lambda>msg.
       if tk \<noteq> 0 then
         pbind (txtToken tk) (\<lambda>s.
         pbind (plift (luaO_pushvfstring (''%s near '' @ LUA_QS) [FS (Some msg), FS (Some s)])) (\<lambda>m. pfail (ErrSyntax m)))
       else pfail (ErrSyntax msg))"

definition luaX_syntaxerror :: "string \<Rightarrow> ('d, 'a) P" where
  "luaX_syntaxerror msg = pbind (pget (\<lambda>ls. token (ls_t ls))) (luaX_lexerror msg)"

subsection \<open>Reading characters\<close>

definition next_char :: "('d, unit) P" where
  "next_char = pmod (\<lambda>ls. let (c, z) = zgetc (ls_z ls) in ls\<lparr>current := c, ls_z := z\<rparr>)"

definition is_newline :: "int \<Rightarrow> bool" where
  "is_newline c \<longleftrightarrow> c = ch (CHR 0x0A) \<or> c = ch (CHR 0x0D)"

definition save_and_next :: "('d, unit) P" where
  "save_and_next = pbind (pget current) (\<lambda>c. pseq (save c) next_char)"

text \<open>The state of the function that is being compiled: \<^verbatim>\<open>ls->fs\<close>.\<close>

definition fget :: "(FuncState \<Rightarrow> 'a) \<Rightarrow> ('d, 'a) P" where
  "fget f ls = (case ls_fs ls of [] \<Rightarrow> Inl UndefinedAccess | fs # r \<Rightarrow> Inr (f fs, ls))"

definition fmod :: "(FuncState \<Rightarrow> FuncState) \<Rightarrow> ('d, unit) P" where
  "fmod f ls = (case ls_fs ls of [] \<Rightarrow> Inl UndefinedAccess | fs # r \<Rightarrow> Inr ((), ls\<lparr>ls_fs := f fs # r\<rparr>))"

definition luaX_newstring :: "string \<Rightarrow> ('d, string) P" where
  "luaX_newstring str =
     pbind (fget fs_h) (\<lambda>h.
     pbind (plift (luaH_setstr h str)) (\<lambda>(p, h).
     pseq (fmod (\<lambda>fs. fs\<lparr>fs_h := (if slot_val h p = Nil then set_slot h p (Boolean True) else h)\<rparr>))
       (pret str)))"

definition inclinenumber :: "('d, unit) P" where
  "inclinenumber =
     pbind (pget current) (\<lambda>old.
     pseq next_char
     (pbind (pget current) (\<lambda>c.
     pseq (pwhen (is_newline c \<and> c \<noteq> old) next_char)
     (pseq (pmod (linenumber_update (\<lambda>n. n + 1)))
     (pbind (pget linenumber) (\<lambda>n.
       if n \<ge> int MAX_INT then luaX_syntaxerror ''chunk has too many lines'' else pret ()))))))"

definition luaX_setinput :: "(lua_Number \<Rightarrow> lua_Number \<Rightarrow> lua_Number) \<Rightarrow> nat \<Rightarrow> nat \<Rightarrow> 'd zio \<Rightarrow> Mbuffer \<Rightarrow> string \<Rightarrow> 'd LexState" where
  "luaX_setinput pw fuel calls z buff src =
     (let (c, z') = zgetc z in
      \<lparr>current = c, linenumber = 1, lastline = 1, ls_t = \<lparr>token = 0, seminfo = SemTS []\<rparr>,
       lookahead = \<lparr>token = TK_EOS, seminfo = SemTS []\<rparr>, ls_fs = [], ls_nCcalls = calls, ls_z = z',
       ls_buff = luaZ_resizebuffer buff LUA_MINBUFFER, ls_source = src, decpoint = CHR ''.'', ls_fuel = fuel, ls_pow = pw\<rparr>)"

subsection \<open>Numerals\<close>

text \<open>\<^verbatim>\<open>strchr\<close> finds the terminator of \<open>cs\<close> too: a NUL character is in every set.\<close>

definition check_next :: "string \<Rightarrow> ('d, bool) P" where
  "check_next cs =
     pbind (pget current) (\<lambda>c.
       if c \<noteq> 0 \<and> \<not> list_ex (\<lambda>x. ch x = c) cs then pret False else pseq save_and_next (pret True))"

definition buffreplace :: "char \<Rightarrow> char \<Rightarrow> ('d, unit) P" where
  "buffreplace from to =
     pmod (ls_buff_update (\<lambda>buf.
       buf\<lparr>buffer := map (\<lambda>c. if c = from then to else c) (take (bufflen buf) (buffer buf)) @
                      drop (bufflen buf) (buffer buf)\<rparr>))"

text \<open>The decimal point of the C locale, which nothing in the program changes.\<close>

definition locale_point :: char where "locale_point = CHR ''.''"

definition trydecpoint :: "('d, lua_Number) P" where
  "trydecpoint =
     pbind (pget decpoint) (\<lambda>old.
     pseq (pmod (decpoint_update (\<lambda>_. locale_point)))
     (pseq (buffreplace old locale_point)
     (pbind (pget (\<lambda>ls. luaO_str2d (cstr (buffer (ls_buff ls))))) (\<lambda>r. case r of
        Some d \<Rightarrow> pret d
      | None \<Rightarrow> pseq (buffreplace locale_point (CHR ''.'')) (luaX_lexerror ''malformed number'' TK_NUMBER)))))"

text \<open>The loops that save characters while they are in a class.\<close>

definition save_while :: "(int \<Rightarrow> bool) \<Rightarrow> ('d, unit) P" where
  "save_while P =
     ploop (\<lambda>_. pbind (pget current) (\<lambda>c.
       if P c then pseq save_and_next (pret (Inl ())) else pret (Inr ()))) ()"

definition is_name_char :: "int \<Rightarrow> bool" where
  "is_name_char c \<longleftrightarrow> cclass isalnum c \<or> c = ch (CHR ''_'')"

definition read_numeral :: "('d, SemInfo) P" where
  "read_numeral =
     pseq save_and_next
     (pseq (save_while (\<lambda>c. cclass isdigit c \<or> c = ch (CHR ''.'')))
     (pbind (check_next ''Ee'') (\<lambda>e.
     pseq (if e then pbind (check_next ''+-'') (\<lambda>_. pret ()) else pret ())
     (pseq (save_while is_name_char)
     (pseq (save 0)
     (pbind (pget decpoint) (\<lambda>d.
     pseq (buffreplace (CHR ''.'') d)
     (pbind (pget (\<lambda>ls. luaO_str2d (cstr (buffer (ls_buff ls))))) (\<lambda>r.
     pbind (case r of Some d \<Rightarrow> pret d | None \<Rightarrow> trydecpoint) (\<lambda>d. pret (SemR d)))))))))))"

subsection \<open>Strings\<close>

definition skip_sep :: "('d, int) P" where
  "skip_sep =
     pbind (pget current) (\<lambda>s.
     pseq save_and_next
     (pbind (ploop (\<lambda>count. pbind (pget current) (\<lambda>c.
         if c = ch (CHR ''='') then pseq save_and_next (pret (Inl (count + 1))) else pret (Inr count))) 0) (\<lambda>count.
      pbind (pget current) (\<lambda>c. pret (if c = s then count else - count - 1)))))"

text \<open>
  \<open>keep\<close> is false for a comment (\<^verbatim>\<open>seminfo == NULL\<close>). Nesting is the error of
  \<^verbatim>\<open>LUA_COMPAT_LSTR == 1\<close>, the setting of \<^verbatim>\<open>luaconf.h\<close>.
\<close>

definition luaZ_resetbuffer :: "Mbuffer \<Rightarrow> Mbuffer" where
  "luaZ_resetbuffer buf = buf\<lparr>bufflen := 0\<rparr>"

definition resetbuffer :: "('d, unit) P" where
  "resetbuffer = pmod (ls_buff_update luaZ_resetbuffer)"

definition long_string_round :: "bool \<Rightarrow> int \<Rightarrow> unit \<Rightarrow> ('d, unit + unit) P" where
  "long_string_round keep sep _ =
     pbind (pget current) (\<lambda>c.
       if c = EOZ then
         luaX_lexerror (if keep then ''unfinished long string'' else ''unfinished long comment'') TK_EOS
       else if c = ch (CHR ''['') then
         pbind skip_sep (\<lambda>n.
           if n = sep then
             pseq save_and_next
             (if sep = 0 then luaX_lexerror ''nesting of [[...]] is deprecated'' (ch (CHR ''[''))
              else pret (Inl ()))
           else pret (Inl ()))
       else if c = ch (CHR '']'') then
         pbind skip_sep (\<lambda>n. if n = sep then pseq save_and_next (pret (Inr ())) else pret (Inl ()))
       else if is_newline c then
         pseq (save (ch (CHR 0x0A)))
         (pseq inclinenumber
         (pseq (pwhen (\<not> keep) resetbuffer) (pret (Inl ()))))
       else pseq (if keep then save_and_next else next_char) (pret (Inl ())))"

text \<open>The bytes of the buffer from \<open>from\<close> on, \<open>len\<close> of them.\<close>

definition buff_part :: "nat \<Rightarrow> nat \<Rightarrow> ('d, string) P" where
  "buff_part from len = pget (\<lambda>ls. take len (drop from (buffer (ls_buff ls))))"

definition read_long_string :: "bool \<Rightarrow> int \<Rightarrow> ('d, SemInfo) P" where
  "read_long_string keep sep =
     pseq save_and_next
     (pseq (pbind (pget current) (\<lambda>c. pwhen (is_newline c) inclinenumber))
     (pseq (ploop (long_string_round keep sep) ())
     (if keep then
        pbind (pget (\<lambda>ls. bufflen (ls_buff ls))) (\<lambda>n.
        pbind (buff_part (2 + nat sep) (n - 2 * (2 + nat sep))) (\<lambda>s.
        pbind (luaX_newstring s) (\<lambda>ts. pret (SemTS ts))))
      else pret (SemTS []))))"

text \<open>The escapes of one letter.\<close>

definition escapes :: "(char \<times> char) list" where
  "escapes =
     [(CHR ''a'', CHR 0x07), (CHR ''b'', CHR 0x08), (CHR ''f'', CHR 0x0C), (CHR ''n'', CHR 0x0A),
      (CHR ''r'', CHR 0x0D), (CHR ''t'', CHR 0x09), (CHR ''v'', CHR 0x0B)]"

text \<open>The digits of a decimal escape: at most three.\<close>

primrec decimal_escape :: "nat \<Rightarrow> int \<Rightarrow> ('d, int) P" where
  "decimal_escape 0 c = pret c"
| "decimal_escape (Suc n) c =
     pbind (pget current) (\<lambda>d.
       if cclass isdigit d then pseq next_char (decimal_escape n (10 * c + (d - ch (CHR ''0''))))
       else pret c)"

definition UCHAR_MAX :: int where "UCHAR_MAX = 255"

definition read_escape :: "('d, unit) P" where
  "read_escape =
     pseq next_char
     (pbind (pget current) (\<lambda>c.
       case map_of (map (\<lambda>(x, y). (ch x, y)) escapes) c of
         Some y \<Rightarrow> pseq (save (ch y)) next_char
       | None \<Rightarrow>
           if is_newline c then pseq (save (ch (CHR 0x0A))) inclinenumber
           else if c = EOZ then pret ()
           else if \<not> cclass isdigit c then save_and_next
           else
             pbind (decimal_escape 3 0) (\<lambda>v.
               if v > UCHAR_MAX then luaX_lexerror ''escape sequence too large'' TK_STRING
               else save v)))"

definition string_round :: "int \<Rightarrow> unit \<Rightarrow> ('d, unit + unit) P" where
  "string_round del _ =
     pbind (pget current) (\<lambda>c.
       if c = del then pret (Inr ())
       else if c = EOZ then luaX_lexerror ''unfinished string'' TK_EOS
       else if is_newline c then luaX_lexerror ''unfinished string'' TK_STRING
       else pseq (if c = ch (CHR 0x5C) then read_escape else save_and_next) (pret (Inl ())))"

definition read_string :: "int \<Rightarrow> ('d, SemInfo) P" where
  "read_string del =
     pseq save_and_next
     (pseq (ploop (string_round del) ())
     (pseq save_and_next
     (pbind (pget (\<lambda>ls. bufflen (ls_buff ls))) (\<lambda>n.
      pbind (buff_part 1 (n - 2)) (\<lambda>s.
      pbind (luaX_newstring s) (\<lambda>ts. pret (SemTS ts)))))))"

subsection \<open>\<^verbatim>\<open>llex\<close>\<close>

text \<open>One round of its loop, for the token whose semantic information was \<open>si\<close>.\<close>

definition skip_comment :: "('d, unit) P" where
  "skip_comment =
     ploop (\<lambda>_. pbind (pget current) (\<lambda>c.
       if \<not> is_newline c \<and> c \<noteq> EOZ then pseq next_char (pret (Inl ())) else pret (Inr ()))) ()"

text \<open>What follows two dashes.\<close>

definition lex_comment :: "('d, unit) P" where
  "lex_comment =
     pseq next_char
     (pbind (pget current) (\<lambda>c.
       if c = ch (CHR ''['') then
         pbind skip_sep (\<lambda>sep.
         pseq resetbuffer
         (if sep \<ge> 0 then pseq (pbind (read_long_string False sep) (\<lambda>_. pret ())) resetbuffer else skip_comment))
       else skip_comment))"

text \<open>A character that may be followed by \<^verbatim>\<open>=\<close>.\<close>

definition with_eq :: "int \<Rightarrow> int \<Rightarrow> ('d, int) P" where
  "with_eq c tk =
     pseq next_char
     (pbind (pget current) (\<lambda>d. if d \<noteq> ch (CHR ''='') then pret c else pseq next_char (pret tk)))"

definition lex_dot :: "SemInfo \<Rightarrow> ('d, int \<times> SemInfo) P" where
  "lex_dot si =
     pseq save_and_next
     (pbind (check_next ''.'') (\<lambda>two.
       if two then pbind (check_next ''.'') (\<lambda>three. pret (if three then TK_DOTS else TK_CONCAT, si))
       else
         pbind (pget current) (\<lambda>c.
           if \<not> cclass isdigit c then pret (ch (CHR ''.''), si)
           else pbind read_numeral (\<lambda>r. pret (TK_NUMBER, r)))))"

definition lex_name :: "SemInfo \<Rightarrow> ('d, int \<times> SemInfo) P" where
  "lex_name si =
     pseq save_and_next
     (pseq (save_while is_name_char)
     (pbind (pget (\<lambda>ls. bufflen (ls_buff ls))) (\<lambda>n.
      pbind (buff_part 0 n) (\<lambda>s.
      pbind (luaX_newstring s) (\<lambda>ts.
        if reserved_of ts > 0 then pret (int (reserved_of ts) - 1 + FIRST_RESERVED, si)
        else pret (TK_NAME, SemTS ts))))))"

definition llex_round :: "SemInfo \<Rightarrow> unit \<Rightarrow> ('d, unit + (int \<times> SemInfo)) P" where
  "llex_round si _ =
     pbind (pget current) (\<lambda>c.
       let tok = (\<lambda>m. pbind m (\<lambda>r. pret (Inr r))) in
       if is_newline c then pseq inclinenumber (pret (Inl ()))
       else if c = ch (CHR ''-'') then
         pseq next_char
         (pbind (pget current) (\<lambda>d.
           if d \<noteq> ch (CHR ''-'') then pret (Inr (ch (CHR ''-''), si))
           else pseq lex_comment (pret (Inl ()))))
       else if c = ch (CHR ''['') then
         pbind skip_sep (\<lambda>sep.
           if sep \<ge> 0 then tok (pbind (read_long_string True sep) (\<lambda>r. pret (TK_STRING, r)))
           else if sep = - 1 then pret (Inr (ch (CHR ''[''), si))
           else luaX_lexerror ''invalid long string delimiter'' TK_STRING)
       else if c = ch (CHR ''='') then tok (pbind (with_eq c TK_EQ) (\<lambda>k. pret (k, si)))
       else if c = ch (CHR ''<'') then tok (pbind (with_eq c TK_LE) (\<lambda>k. pret (k, si)))
       else if c = ch (CHR ''>'') then tok (pbind (with_eq c TK_GE) (\<lambda>k. pret (k, si)))
       else if c = ch (CHR ''~'') then tok (pbind (with_eq c TK_NE) (\<lambda>k. pret (k, si)))
       else if c = ch (CHR 0x22) \<or> c = ch (CHR 0x27) then tok (pbind (read_string c) (\<lambda>r. pret (TK_STRING, r)))
       else if c = ch (CHR ''.'') then tok (lex_dot si)
       else if c = EOZ then pret (Inr (TK_EOS, si))
       else if cclass isspace c then pseq next_char (pret (Inl ()))
       else if cclass isdigit c then tok (pbind read_numeral (\<lambda>r. pret (TK_NUMBER, r)))
       else if cclass isalpha c \<or> c = ch (CHR ''_'') then tok (lex_name si)
       else pseq next_char (pret (Inr (c, si))))"

definition llex :: "SemInfo \<Rightarrow> ('d, int \<times> SemInfo) P" where
  "llex si = pseq resetbuffer (ploop (llex_round si) ())"

definition luaX_next :: "('d, unit) P" where
  "luaX_next =
     pseq (pmod (\<lambda>ls. ls\<lparr>lastline := linenumber ls\<rparr>))
     (pbind (pget lookahead) (\<lambda>la.
       if token la \<noteq> TK_EOS then
         pmod (\<lambda>ls. ls\<lparr>ls_t := la, lookahead := la\<lparr>token := TK_EOS\<rparr>\<rparr>)
       else
         pbind (pget (\<lambda>ls. seminfo (ls_t ls))) (\<lambda>si.
         pbind (llex si) (\<lambda>(k, si). pmod (\<lambda>ls. ls\<lparr>ls_t := \<lparr>token = k, seminfo = si\<rparr>\<rparr>)))))"

definition luaX_lookahead :: "('d, unit) P" where
  "luaX_lookahead =
     pbind (pget (\<lambda>ls. seminfo (lookahead ls))) (\<lambda>si.
     pbind (llex si) (\<lambda>(k, si). pmod (\<lambda>ls. ls\<lparr>lookahead := \<lparr>token = k, seminfo = si\<rparr>\<rparr>)))"

end
