(* ===== verification/LuaCode.thy ===== *)
theory LuaCode
  imports LuaLex "HOL-Library.Signed_Division"
begin

unbundle bit_operations_syntax

section \<open>The code generator\<close>

text \<open>
  \<^verbatim>\<open>lcode.c\<close>: instructions, jump lists, constants and the expressions that are not yet in a register.
  The functions work on the innermost function of the lexical state; a function that changes an
  \<^verbatim>\<open>expdesc\<close> gives back the new one. A jump that waits for its target links to the next jump of its
  list. To follow a list takes at most as many steps as there are instructions, unless the list has a
  cycle, on which the code would never end; that is \<open>OutOfFuel\<close> here.
\<close>

subsection \<open>Instructions\<close>

definition NO_JUMP :: int where "NO_JUMP = - 1"

definition opnum :: "OpCode \<Rightarrow> int" where
  "opnum op1 = int (length (takeWhile (\<lambda>x. x \<noteq> op1) opcodes))"

definition abc :: "OpCode \<Rightarrow> int \<Rightarrow> int \<Rightarrow> int \<Rightarrow> Instruction" where
  "abc op1 A B C = CREATE_ABC (opnum op1) A B C"

text \<open>Reading and changing the code at a position: \<^verbatim>\<open>fs->f->code[pc]\<close>.\<close>

definition instr :: "int \<Rightarrow> ('d, Instruction) P" where
  "instr pc = pbind (fget f_code) (\<lambda>code.
     if 0 \<le> pc \<and> nat pc < length code then pret (code ! nat pc) else pfail UndefinedAccess)"

definition set_instr :: "int \<Rightarrow> Instruction \<Rightarrow> ('d, unit) P" where
  "set_instr pc i = pbind (instr pc) (\<lambda>_. fmod (\<lambda>fs. fs\<lparr>f_code := (f_code fs)[nat pc := i]\<rparr>))"

definition mod_instr :: "int \<Rightarrow> (Instruction \<Rightarrow> Instruction) \<Rightarrow> ('d, unit) P" where
  "mod_instr pc g = pbind (instr pc) (\<lambda>i. set_instr pc (g i))"

definition getcode :: "expdesc \<Rightarrow> ('d, Instruction) P" where
  "getcode e = instr (e_info e)"

definition instr_op :: "Instruction \<Rightarrow> OpCode option" where
  "instr_op i = opcode_of (GET_OPCODE i)"

definition hasjumps :: "expdesc \<Rightarrow> bool" where
  "hasjumps e \<longleftrightarrow> e_t e \<noteq> e_f e"

definition isnumeral :: "expdesc \<Rightarrow> bool" where
  "isnumeral e \<longleftrightarrow> e_k e = VKNUM \<and> e_t e = NO_JUMP \<and> e_f e = NO_JUMP"

subsection \<open>Jump lists\<close>

definition fixjump :: "int \<Rightarrow> int \<Rightarrow> ('d, unit) P" where
  "fixjump pc dest =
     (let offset = dest - (pc + 1) in
      if \<bar>offset\<bar> > MAXARG_sBx then luaX_syntaxerror ''control structure too long''
      else mod_instr pc (\<lambda>i. SETARG_sBx i offset))"

definition luaK_getlabel :: "('d, int) P" where
  "luaK_getlabel = pseq (fmod (\<lambda>fs. fs\<lparr>lasttarget := fs_pc fs\<rparr>)) (fget fs_pc)"

definition getjump :: "int \<Rightarrow> ('d, int) P" where
  "getjump pc = pbind (instr pc) (\<lambda>i.
     let offset = GETARG_sBx i in pret (if offset = NO_JUMP then NO_JUMP else pc + 1 + offset))"

text \<open>
  The position of the instruction that controls a jump. The word before the jump need not be an
  instruction; one whose opcode is out of range makes \<^verbatim>\<open>testTMode\<close> read past its table.
\<close>

definition getjumpcontrol :: "int \<Rightarrow> ('d, int) P" where
  "getjumpcontrol pc =
     (if pc \<ge> 1 then
        pbind (instr (pc - 1)) (\<lambda>i. case instr_op i of
            None \<Rightarrow> pfail UndefinedAccess
          | Some op1 \<Rightarrow> pret (if testTMode op1 then pc - 1 else pc))
      else pret pc)"

text \<open>\<open>n\<close> is the bound for the length of the list.\<close>

primrec need_value_n :: "nat \<Rightarrow> int \<Rightarrow> ('d, bool) P" where
  "need_value_n 0 l = pfail OutOfFuel"
| "need_value_n (Suc n) l =
     (if l = NO_JUMP then pret False
      else
        pbind (getjumpcontrol l) (\<lambda>c.
        pbind (instr c) (\<lambda>i.
          if instr_op i \<noteq> Some OP_TESTSET then pret True else pbind (getjump l) (need_value_n n))))"

definition list_bound :: "('d, nat) P" where
  "list_bound = fget (\<lambda>fs. Suc (length (f_code fs)))"

definition need_value :: "int \<Rightarrow> ('d, bool) P" where
  "need_value l = pbind list_bound (\<lambda>n. need_value_n n l)"

definition patchtestreg :: "int \<Rightarrow> int \<Rightarrow> ('d, bool) P" where
  "patchtestreg nd reg =
     pbind (getjumpcontrol nd) (\<lambda>c.
     pbind (instr c) (\<lambda>i.
       if instr_op i \<noteq> Some OP_TESTSET then pret False
       else if reg \<noteq> NO_REG \<and> reg \<noteq> GETARG_B i then pseq (set_instr c (SETARG_A i reg)) (pret True)
       else pseq (set_instr c (abc OP_TEST (GETARG_B i) 0 (GETARG_C i))) (pret True)))"

primrec removevalues_n :: "nat \<Rightarrow> int \<Rightarrow> ('d, unit) P" where
  "removevalues_n 0 l = pfail OutOfFuel"
| "removevalues_n (Suc n) l =
     (if l = NO_JUMP then pret ()
      else pbind (patchtestreg l NO_REG) (\<lambda>_. pbind (getjump l) (removevalues_n n)))"

definition removevalues :: "int \<Rightarrow> ('d, unit) P" where
  "removevalues l = pbind list_bound (\<lambda>n. removevalues_n n l)"

primrec patchlistaux_n :: "nat \<Rightarrow> int \<Rightarrow> int \<Rightarrow> int \<Rightarrow> int \<Rightarrow> ('d, unit) P" where
  "patchlistaux_n 0 l vtarget reg dtarget = pfail OutOfFuel"
| "patchlistaux_n (Suc n) l vtarget reg dtarget =
     (if l = NO_JUMP then pret ()
      else
        pbind (getjump l) (\<lambda>nxt.
        pbind (patchtestreg l reg) (\<lambda>p.
        pseq (if p then fixjump l vtarget else fixjump l dtarget)
          (patchlistaux_n n nxt vtarget reg dtarget))))"

definition patchlistaux :: "int \<Rightarrow> int \<Rightarrow> int \<Rightarrow> int \<Rightarrow> ('d, unit) P" where
  "patchlistaux l vtarget reg dtarget = pbind list_bound (\<lambda>n. patchlistaux_n n l vtarget reg dtarget)"

definition dischargejpc :: "('d, unit) P" where
  "dischargejpc =
     pbind (fget (\<lambda>fs. (jpc fs, fs_pc fs))) (\<lambda>(l, pc).
     pseq (patchlistaux l pc NO_REG pc) (fmod (\<lambda>fs. fs\<lparr>jpc := NO_JUMP\<rparr>)))"

text \<open>The last element of a list.\<close>

primrec last_jump_n :: "nat \<Rightarrow> int \<Rightarrow> ('d, int) P" where
  "last_jump_n 0 l = pfail OutOfFuel"
| "last_jump_n (Suc n) l = pbind (getjump l) (\<lambda>nxt. if nxt \<noteq> NO_JUMP then last_jump_n n nxt else pret l)"

text \<open>The new value of \<^verbatim>\<open>*l1\<close>.\<close>

definition luaK_concat :: "int \<Rightarrow> int \<Rightarrow> ('d, int) P" where
  "luaK_concat l1 l2 =
     (if l2 = NO_JUMP then pret l1
      else if l1 = NO_JUMP then pret l2
      else pbind list_bound (\<lambda>n. pbind (last_jump_n n l1) (\<lambda>l. pseq (fixjump l l2) (pret l1))))"

definition luaK_patchtohere :: "int \<Rightarrow> ('d, unit) P" where
  "luaK_patchtohere l =
     pbind luaK_getlabel (\<lambda>_.
     pbind (fget jpc) (\<lambda>j. pbind (luaK_concat j l) (\<lambda>j. fmod (\<lambda>fs. fs\<lparr>jpc := j\<rparr>))))"

definition luaK_patchlist :: "int \<Rightarrow> int \<Rightarrow> ('d, unit) P" where
  "luaK_patchlist l target =
     pbind (fget fs_pc) (\<lambda>pc.
       if target = pc then luaK_patchtohere l else patchlistaux l target NO_REG target)"

subsection \<open>Emitting code\<close>

text \<open>
  \<^verbatim>\<open>luaM_growvector\<close> with \<open>n\<close> elements in use: a full vector grows to at most \<open>limit\<close> elements.
\<close>

definition luaM_growvector :: "int \<Rightarrow> int \<Rightarrow> string \<Rightarrow> ('d, unit) P" where
  "luaM_growvector n limit msg = (if n \<ge> limit then pfail (RunError msg) else pret ())"

text \<open>A store at the position \<open>n\<close> of a vector that has at least \<open>n\<close> elements in use.\<close>

definition put_at :: "'a list \<Rightarrow> nat \<Rightarrow> 'a \<Rightarrow> 'a list" where
  "put_at xs n x = (if n < length xs then xs[n := x] else xs @ [x])"

definition luaK_code :: "Instruction \<Rightarrow> int \<Rightarrow> ('d, int) P" where
  "luaK_code i line =
     pseq dischargejpc
     (pbind (fget fs_pc) (\<lambda>pc.
     pseq (luaM_growvector pc (int MAX_INT) ''code size overflow'')
     (pseq (fmod (\<lambda>fs. fs\<lparr>f_code := put_at (f_code fs) (nat pc) i,
                            f_lineinfo := put_at (f_lineinfo fs) (nat pc) line, fs_pc := pc + 1\<rparr>))
       (pret pc))))"

definition luaK_codeABC :: "OpCode \<Rightarrow> int \<Rightarrow> int \<Rightarrow> int \<Rightarrow> ('d, int) P" where
  "luaK_codeABC op1 A B C = pbind (pget lastline) (luaK_code (abc op1 A B C))"

definition luaK_codeABx :: "OpCode \<Rightarrow> int \<Rightarrow> int \<Rightarrow> ('d, int) P" where
  "luaK_codeABx op1 A bc = pbind (pget lastline) (luaK_code (CREATE_ABx (opnum op1) A bc))"

definition luaK_codeAsBx :: "OpCode \<Rightarrow> int \<Rightarrow> int \<Rightarrow> ('d, int) P" where
  "luaK_codeAsBx op1 A sBx = luaK_codeABx op1 A (sBx + MAXARG_sBx)"

definition emit :: "OpCode \<Rightarrow> int \<Rightarrow> int \<Rightarrow> int \<Rightarrow> ('d, unit) P" where
  "emit op1 A B C = pbind (luaK_codeABC op1 A B C) (\<lambda>_. pret ())"

definition luaK_fixline :: "int \<Rightarrow> ('d, unit) P" where
  "luaK_fixline line = fmod (\<lambda>fs. fs\<lparr>f_lineinfo := (f_lineinfo fs)[nat (fs_pc fs - 1) := line]\<rparr>)"

definition luaK_nil :: "int \<Rightarrow> int \<Rightarrow> ('d, unit) P" where
  "luaK_nil from n =
     (let default = emit OP_LOADNIL from (from + n - 1) 0 in
      pbind (fget (\<lambda>fs. (fs_pc fs, lasttarget fs, nactvar fs))) (\<lambda>(pc, lt, na).
        if pc > lt then
          if pc = 0 then (if from \<ge> na then pret () else default)
          else
            pbind (instr (pc - 1)) (\<lambda>previous.
              let pfrom = GETARG_A previous; pto = GETARG_B previous in
              if instr_op previous = Some OP_LOADNIL \<and> pfrom \<le> from \<and> from \<le> pto + 1
              then pwhen (from + n - 1 > pto) (set_instr (pc - 1) (SETARG_B previous (from + n - 1)))
              else default)
        else default))"

definition luaK_jump :: "('d, int) P" where
  "luaK_jump =
     pbind (fget jpc) (\<lambda>l.
     pseq (fmod (\<lambda>fs. fs\<lparr>jpc := NO_JUMP\<rparr>))
     (pbind (luaK_codeAsBx OP_JMP 0 NO_JUMP) (\<lambda>j. luaK_concat j l)))"

definition luaK_ret :: "int \<Rightarrow> int \<Rightarrow> ('d, unit) P" where
  "luaK_ret first nret = emit OP_RETURN first (nret + 1) 0"

definition condjump :: "OpCode \<Rightarrow> int \<Rightarrow> int \<Rightarrow> int \<Rightarrow> ('d, int) P" where
  "condjump op1 A B C = pseq (emit op1 A B C) luaK_jump"

subsection \<open>Registers and constants\<close>

definition luaK_checkstack :: "int \<Rightarrow> ('d, unit) P" where
  "luaK_checkstack n =
     pbind (fget (\<lambda>fs. (fs_freereg fs + n, f_maxstacksize fs))) (\<lambda>(newstack, mx).
       if newstack > uint mx then
         if newstack \<ge> MAXSTACK then luaX_syntaxerror ''function or expression too complex''
         else fmod (\<lambda>fs. fs\<lparr>f_maxstacksize := word_of_int newstack\<rparr>)
       else pret ())"

definition luaK_reserveregs :: "int \<Rightarrow> ('d, unit) P" where
  "luaK_reserveregs n = pseq (luaK_checkstack n) (fmod (\<lambda>fs. fs\<lparr>fs_freereg := fs_freereg fs + n\<rparr>))"

definition freereg :: "int \<Rightarrow> ('d, unit) P" where
  "freereg reg =
     pbind (fget nactvar) (\<lambda>na.
       pwhen (\<not> ISK reg \<and> reg \<ge> na) (fmod (\<lambda>fs. fs\<lparr>fs_freereg := fs_freereg fs - 1\<rparr>)))"

definition freeexp :: "expdesc \<Rightarrow> ('d, unit) P" where
  "freeexp e = pwhen (e_k e = VNONRELOC) (freereg (e_info e))"

definition addk :: "tvalue \<Rightarrow> tvalue \<Rightarrow> ('d, int) P" where
  "addk key v =
     pbind (fget fs_h) (\<lambda>h.
     pbind (plift (luaH_set h key)) (\<lambda>(p, h).
       case slot_val h p of
         Number n \<Rightarrow> pseq (fmod (\<lambda>fs. fs\<lparr>fs_h := h\<rparr>)) (pret (number2int n))
       | _ \<Rightarrow>
           pbind (fget (\<lambda>fs. int (length (f_k fs)))) (\<lambda>nk.
           pseq (fmod (\<lambda>fs. fs\<lparr>fs_h := set_slot h p (Number (cast_num nk))\<rparr>))
           (pseq (luaM_growvector nk MAXARG_Bx ''constant table overflow'')
           (pseq (fmod (\<lambda>fs. fs\<lparr>f_k := f_k fs @ [v]\<rparr>)) (pret nk))))))"

definition luaK_stringK :: "string \<Rightarrow> ('d, int) P" where
  "luaK_stringK s = addk (String s) (String s)"

definition luaK_numberK :: "lua_Number \<Rightarrow> ('d, int) P" where
  "luaK_numberK r = addk (Number r) (Number r)"

definition boolK :: "bool \<Rightarrow> ('d, int) P" where
  "boolK v = addk (Boolean v) (Boolean v)"

text \<open>The table itself stands for nil as a key; it is the one table that can be a key, so its address does not matter.\<close>

definition nilK :: "('d, int) P" where
  "nilK = addk (TableRef 0) Nil"

subsection \<open>Expressions\<close>

definition luaK_setreturns :: "expdesc \<Rightarrow> int \<Rightarrow> ('d, unit) P" where
  "luaK_setreturns e nresults =
     (if e_k e = VCALL then mod_instr (e_info e) (\<lambda>i. SETARG_C i (nresults + 1))
      else if e_k e = VVARARG then
        pseq (mod_instr (e_info e) (\<lambda>i. SETARG_B i (nresults + 1)))
        (pbind (fget fs_freereg) (\<lambda>r.
        pseq (mod_instr (e_info e) (\<lambda>i. SETARG_A i r)) (luaK_reserveregs 1)))
      else pret ())"

abbreviation luaK_setmultret :: "expdesc \<Rightarrow> ('d, unit) P" where
  "luaK_setmultret e \<equiv> luaK_setreturns e LUA_MULTRET"

definition luaK_setoneret :: "expdesc \<Rightarrow> ('d, expdesc) P" where
  "luaK_setoneret e =
     (if e_k e = VCALL then pbind (getcode e) (\<lambda>i. pret (e\<lparr>e_k := VNONRELOC, e_info := GETARG_A i\<rparr>))
      else if e_k e = VVARARG then pseq (mod_instr (e_info e) (\<lambda>i. SETARG_B i 2)) (pret (e\<lparr>e_k := VRELOCABLE\<rparr>))
      else pret e)"

text \<open>An instruction whose register comes later.\<close>

definition relocable :: "expdesc \<Rightarrow> ('d, int) P \<Rightarrow> ('d, expdesc) P" where
  "relocable e m = pbind m (\<lambda>pc. pret (e\<lparr>e_info := pc, e_k := VRELOCABLE\<rparr>))"

definition luaK_dischargevars :: "expdesc \<Rightarrow> ('d, expdesc) P" where
  "luaK_dischargevars e =
     (case e_k e of
        VLOCAL \<Rightarrow> pret (e\<lparr>e_k := VNONRELOC\<rparr>)
      | VUPVAL \<Rightarrow> relocable e (luaK_codeABC OP_GETUPVAL 0 (e_info e) 0)
      | VGLOBAL \<Rightarrow> relocable e (luaK_codeABx OP_GETGLOBAL 0 (e_info e))
      | VINDEXED \<Rightarrow>
          pseq (freereg (e_aux e))
          (pseq (freereg (e_info e)) (relocable e (luaK_codeABC OP_GETTABLE 0 (e_info e) (e_aux e))))
      | VVARARG \<Rightarrow> luaK_setoneret e
      | VCALL \<Rightarrow> luaK_setoneret e
      | _ \<Rightarrow> pret e)"

definition code_label :: "int \<Rightarrow> int \<Rightarrow> int \<Rightarrow> ('d, int) P" where
  "code_label A v jump = pbind luaK_getlabel (\<lambda>_. luaK_codeABC OP_LOADBOOL A v jump)"

definition discharge2reg :: "expdesc \<Rightarrow> int \<Rightarrow> ('d, expdesc) P" where
  "discharge2reg e reg =
     pbind (luaK_dischargevars e) (\<lambda>e.
       let done1 = (\<lambda>m. pseq m (pret (e\<lparr>e_info := reg, e_k := VNONRELOC\<rparr>)));
           unit1 = (\<lambda>m. pbind m (\<lambda>_. pret ())) in
       case e_k e of
         VNIL \<Rightarrow> done1 (luaK_nil reg 1)
       | VFALSE \<Rightarrow> done1 (emit OP_LOADBOOL reg 0 0)
       | VTRUE \<Rightarrow> done1 (emit OP_LOADBOOL reg 1 0)
       | VK \<Rightarrow> done1 (unit1 (luaK_codeABx OP_LOADK reg (e_info e)))
       | VKNUM \<Rightarrow> done1 (unit1 (pbind (luaK_numberK (e_nval e)) (luaK_codeABx OP_LOADK reg)))
       | VRELOCABLE \<Rightarrow> done1 (mod_instr (e_info e) (\<lambda>i. SETARG_A i reg))
       | VNONRELOC \<Rightarrow> done1 (pwhen (reg \<noteq> e_info e) (emit OP_MOVE reg (e_info e) 0))
       | _ \<Rightarrow> pret e)"

definition discharge2anyreg :: "expdesc \<Rightarrow> ('d, expdesc) P" where
  "discharge2anyreg e =
     (if e_k e \<noteq> VNONRELOC
      then pseq (luaK_reserveregs 1) (pbind (fget fs_freereg) (\<lambda>r. discharge2reg e (r - 1)))
      else pret e)"

text \<open>The jumps of an expression get the value they carry, or one that is loaded for them.\<close>

definition close_jumps :: "expdesc \<Rightarrow> int \<Rightarrow> ('d, unit) P" where
  "close_jumps e reg =
     pbind (need_value (e_t e)) (\<lambda>nt.
     pbind (if nt then pret True else need_value (e_f e)) (\<lambda>nv.
     pbind (if nv then
              pbind (if e_k e = VJMP then pret NO_JUMP else luaK_jump) (\<lambda>fj.
              pbind (code_label reg 0 1) (\<lambda>pf.
              pbind (code_label reg 1 0) (\<lambda>pt.
              pseq (luaK_patchtohere fj) (pret (pf, pt)))))
            else pret (NO_JUMP, NO_JUMP)) (\<lambda>(pf, pt).
     pbind luaK_getlabel (\<lambda>final.
     pseq (patchlistaux (e_f e) final reg pf) (patchlistaux (e_t e) final reg pt)))))"

definition exp2reg :: "expdesc \<Rightarrow> int \<Rightarrow> ('d, expdesc) P" where
  "exp2reg e reg =
     pbind (discharge2reg e reg) (\<lambda>e.
     pbind (if e_k e = VJMP then luaK_concat (e_t e) (e_info e) else pret (e_t e)) (\<lambda>l.
       let e = e\<lparr>e_t := l\<rparr> in
       pseq (pwhen (hasjumps e) (close_jumps e reg))
         (pret (e\<lparr>e_f := NO_JUMP, e_t := NO_JUMP, e_info := reg, e_k := VNONRELOC\<rparr>))))"

definition luaK_exp2nextreg :: "expdesc \<Rightarrow> ('d, expdesc) P" where
  "luaK_exp2nextreg e =
     pbind (luaK_dischargevars e) (\<lambda>e.
     pseq (freeexp e)
     (pseq (luaK_reserveregs 1)
     (pbind (fget fs_freereg) (\<lambda>r. exp2reg e (r - 1)))))"

text \<open>The register is \<open>e_info\<close> of the result.\<close>

definition luaK_exp2anyreg :: "expdesc \<Rightarrow> ('d, expdesc) P" where
  "luaK_exp2anyreg e =
     pbind (luaK_dischargevars e) (\<lambda>e.
     pbind (fget nactvar) (\<lambda>na.
       if e_k e = VNONRELOC \<and> \<not> hasjumps e then pret e
       else if e_k e = VNONRELOC \<and> e_info e \<ge> na then exp2reg e (e_info e)
       else luaK_exp2nextreg e))"

definition luaK_exp2val :: "expdesc \<Rightarrow> ('d, expdesc) P" where
  "luaK_exp2val e = (if hasjumps e then luaK_exp2anyreg e else luaK_dischargevars e)"

text \<open>The RK operand and the expression.\<close>

definition luaK_exp2RK :: "expdesc \<Rightarrow> ('d, int \<times> expdesc) P" where
  "luaK_exp2RK e =
     pbind (luaK_exp2val e) (\<lambda>e.
     pbind (fget (\<lambda>fs. int (length (f_k fs)))) (\<lambda>nk.
       let k = e_k e; default = pbind (luaK_exp2anyreg e) (\<lambda>e. pret (e_info e, e)) in
       if (k = VKNUM \<or> k = VTRUE \<or> k = VFALSE \<or> k = VNIL) \<and> nk \<le> MAXINDEXRK then
         pbind (if k = VNIL then nilK else if k = VKNUM then luaK_numberK (e_nval e) else boolK (k = VTRUE)) (\<lambda>i.
           pret (RKASK i, e\<lparr>e_info := i, e_k := VK\<rparr>))
       else if k = VK \<and> e_info e \<le> MAXINDEXRK then pret (RKASK (e_info e), e)
       else default))"

definition luaK_storevar :: "expdesc \<Rightarrow> expdesc \<Rightarrow> ('d, unit) P" where
  "luaK_storevar var ex =
     (case e_k var of
        VLOCAL \<Rightarrow> pseq (freeexp ex) (pbind (exp2reg ex (e_info var)) (\<lambda>_. pret ()))
      | VUPVAL \<Rightarrow>
          pbind (luaK_exp2anyreg ex) (\<lambda>ex.
          pseq (emit OP_SETUPVAL (e_info ex) (e_info var) 0) (freeexp ex))
      | VGLOBAL \<Rightarrow>
          pbind (luaK_exp2anyreg ex) (\<lambda>ex.
          pbind (luaK_codeABx OP_SETGLOBAL (e_info ex) (e_info var)) (\<lambda>_. freeexp ex))
      | VINDEXED \<Rightarrow>
          pbind (luaK_exp2RK ex) (\<lambda>(r, ex).
          pseq (emit OP_SETTABLE (e_info var) (e_aux var) r) (freeexp ex))
      | _ \<Rightarrow> freeexp ex)"

definition luaK_self :: "expdesc \<Rightarrow> expdesc \<Rightarrow> ('d, expdesc) P" where
  "luaK_self e key =
     pbind (luaK_exp2anyreg e) (\<lambda>e.
     pseq (freeexp e)
     (pbind (fget fs_freereg) (\<lambda>func.
     pseq (luaK_reserveregs 2)
     (pbind (luaK_exp2RK key) (\<lambda>(r, key).
     pseq (emit OP_SELF func (e_info e) r)
     (pseq (freeexp key) (pret (e\<lparr>e_info := func, e_k := VNONRELOC\<rparr>))))))))"

subsection \<open>Conditions\<close>

definition invertjump :: "expdesc \<Rightarrow> ('d, unit) P" where
  "invertjump e =
     pbind (getjumpcontrol (e_info e)) (\<lambda>pc. mod_instr pc (\<lambda>i. SETARG_A i (if GETARG_A i = 0 then 1 else 0)))"

definition jumponcond :: "expdesc \<Rightarrow> bool \<Rightarrow> ('d, int) P" where
  "jumponcond e cnd =
     (let default =
        pbind (discharge2anyreg e) (\<lambda>e.
        pseq (freeexp e) (condjump OP_TESTSET NO_REG (e_info e) (if cnd then 1 else 0))) in
      if e_k e = VRELOCABLE then
        pbind (getcode e) (\<lambda>ie.
          if instr_op ie = Some OP_NOT then
            pseq (fmod (\<lambda>fs. fs\<lparr>fs_pc := fs_pc fs - 1\<rparr>))
              (condjump OP_TEST (GETARG_B ie) 0 (if cnd then 0 else 1))
          else default)
      else default)"

definition luaK_goiftrue :: "expdesc \<Rightarrow> ('d, expdesc) P" where
  "luaK_goiftrue e =
     pbind (luaK_dischargevars e) (\<lambda>e.
     pbind (case e_k e of
              VK \<Rightarrow> pret NO_JUMP
            | VKNUM \<Rightarrow> pret NO_JUMP
            | VTRUE \<Rightarrow> pret NO_JUMP
            | VFALSE \<Rightarrow> luaK_jump
            | VJMP \<Rightarrow> pseq (invertjump e) (pret (e_info e))
            | _ \<Rightarrow> jumponcond e False) (\<lambda>pc.
     pbind (luaK_concat (e_f e) pc) (\<lambda>l.
     pseq (luaK_patchtohere (e_t e)) (pret (e\<lparr>e_f := l, e_t := NO_JUMP\<rparr>)))))"

definition luaK_goiffalse :: "expdesc \<Rightarrow> ('d, expdesc) P" where
  "luaK_goiffalse e =
     pbind (luaK_dischargevars e) (\<lambda>e.
     pbind (case e_k e of
              VNIL \<Rightarrow> pret NO_JUMP
            | VFALSE \<Rightarrow> pret NO_JUMP
            | VTRUE \<Rightarrow> luaK_jump
            | VJMP \<Rightarrow> pret (e_info e)
            | _ \<Rightarrow> jumponcond e True) (\<lambda>pc.
     pbind (luaK_concat (e_t e) pc) (\<lambda>l.
     pseq (luaK_patchtohere (e_f e)) (pret (e\<lparr>e_t := l, e_f := NO_JUMP\<rparr>)))))"

definition codenot :: "expdesc \<Rightarrow> ('d, expdesc) P" where
  "codenot e =
     pbind (luaK_dischargevars e) (\<lambda>e.
     pbind (case e_k e of
              VNIL \<Rightarrow> pret (e\<lparr>e_k := VTRUE\<rparr>)
            | VFALSE \<Rightarrow> pret (e\<lparr>e_k := VTRUE\<rparr>)
            | VK \<Rightarrow> pret (e\<lparr>e_k := VFALSE\<rparr>)
            | VKNUM \<Rightarrow> pret (e\<lparr>e_k := VFALSE\<rparr>)
            | VTRUE \<Rightarrow> pret (e\<lparr>e_k := VFALSE\<rparr>)
            | VJMP \<Rightarrow> pseq (invertjump e) (pret e)
            | VRELOCABLE \<Rightarrow>
                pbind (discharge2anyreg e) (\<lambda>e. pseq (freeexp e) (relocable e (luaK_codeABC OP_NOT 0 (e_info e) 0)))
            | VNONRELOC \<Rightarrow>
                pbind (discharge2anyreg e) (\<lambda>e. pseq (freeexp e) (relocable e (luaK_codeABC OP_NOT 0 (e_info e) 0)))
            | _ \<Rightarrow> pret e) (\<lambda>e.
       let e = e\<lparr>e_f := e_t e, e_t := e_f e\<rparr> in
       pseq (removevalues (e_f e)) (pseq (removevalues (e_t e)) (pret e))))"

subsection \<open>Operators\<close>

definition luaK_indexed :: "expdesc \<Rightarrow> expdesc \<Rightarrow> ('d, expdesc) P" where
  "luaK_indexed t k = pbind (luaK_exp2RK k) (\<lambda>(r, k). pret (t\<lparr>e_aux := r, e_k := VINDEXED\<rparr>))"

text \<open>The value of an operation on constants, if it is folded.\<close>

definition fold_value :: "(lua_Number \<Rightarrow> lua_Number \<Rightarrow> lua_Number) \<Rightarrow> OpCode \<Rightarrow> lua_Number \<Rightarrow> lua_Number \<Rightarrow> lua_Number option" where
  "fold_value pw op1 v1 v2 =
     (case op1 of
        OP_ADD \<Rightarrow> Some (luai_numadd v1 v2)
      | OP_SUB \<Rightarrow> Some (luai_numsub v1 v2)
      | OP_MUL \<Rightarrow> Some (luai_nummul v1 v2)
      | OP_DIV \<Rightarrow> (if luai_numeq v2 0 then None else Some (luai_numdiv v1 v2))
      | OP_MOD \<Rightarrow> (if luai_numeq v2 0 then None else Some (luai_nummod v1 v2))
      | OP_POW \<Rightarrow> Some (pw v1 v2)
      | OP_UNM \<Rightarrow> Some (luai_numunm v1)
      | OP_LEN \<Rightarrow> None
      | _ \<Rightarrow> Some 0)"

definition constfolding :: "(lua_Number \<Rightarrow> lua_Number \<Rightarrow> lua_Number) \<Rightarrow> OpCode \<Rightarrow> expdesc \<Rightarrow> expdesc \<Rightarrow> expdesc option" where
  "constfolding pw op1 e1 e2 =
     (if \<not> isnumeral e1 \<or> \<not> isnumeral e2 then None
      else case fold_value pw op1 (e_nval e1) (e_nval e2) of
        None \<Rightarrow> None
      | Some r \<Rightarrow> if luai_numisnan r then None else Some (e1\<lparr>e_nval := r\<rparr>))"

definition codearith :: "OpCode \<Rightarrow> expdesc \<Rightarrow> expdesc \<Rightarrow> ('d, expdesc) P" where
  "codearith op1 e1 e2 =
     pbind (pget ls_pow) (\<lambda>pw.
       case constfolding pw op1 e1 e2 of
         Some e \<Rightarrow> pret e
       | None \<Rightarrow>
           pbind (if op1 \<noteq> OP_UNM \<and> op1 \<noteq> OP_LEN then luaK_exp2RK e2 else pret (0, e2)) (\<lambda>(r2, e2).
           pbind (luaK_exp2RK e1) (\<lambda>(r1, e1).
           pseq (if r1 > r2 then pseq (freeexp e1) (freeexp e2) else pseq (freeexp e2) (freeexp e1))
             (relocable e1 (luaK_codeABC op1 0 r1 r2)))))"

definition codecomp :: "OpCode \<Rightarrow> bool \<Rightarrow> expdesc \<Rightarrow> expdesc \<Rightarrow> ('d, expdesc) P" where
  "codecomp op1 cnd e1 e2 =
     pbind (luaK_exp2RK e1) (\<lambda>(r1, e1).
     pbind (luaK_exp2RK e2) (\<lambda>(r2, e2).
     pseq (freeexp e2)
     (pseq (freeexp e1)
       (let (r1, r2, cnd) = (if \<not> cnd \<and> op1 \<noteq> OP_EQ then (r2, r1, True) else (r1, r2, cnd)) in
        pbind (condjump op1 (if cnd then 1 else 0) r1 r2) (\<lambda>j. pret (e1\<lparr>e_info := j, e_k := VJMP\<rparr>))))))"

datatype UnOpr = OPR_MINUS | OPR_NOT | OPR_LEN | OPR_NOUNOPR

datatype BinOpr =
    OPR_ADD | OPR_SUB | OPR_MUL | OPR_DIV | OPR_MOD | OPR_POW
  | OPR_CONCAT
  | OPR_NE | OPR_EQ
  | OPR_LT | OPR_LE | OPR_GT | OPR_GE
  | OPR_AND | OPR_OR
  | OPR_NOBINOPR

definition init_exp :: "expkind \<Rightarrow> int \<Rightarrow> expdesc" where
  "init_exp k i = \<lparr>e_k = k, e_info = i, e_aux = 0, e_nval = 0, e_t = NO_JUMP, e_f = NO_JUMP\<rparr>"

definition luaK_prefix :: "UnOpr \<Rightarrow> expdesc \<Rightarrow> ('d, expdesc) P" where
  "luaK_prefix op1 e =
     (let e2 = init_exp VKNUM 0 in
      case op1 of
        OPR_MINUS \<Rightarrow> pbind (if isnumeral e then pret e else luaK_exp2anyreg e) (\<lambda>e. codearith OP_UNM e e2)
      | OPR_NOT \<Rightarrow> codenot e
      | OPR_LEN \<Rightarrow> pbind (luaK_exp2anyreg e) (\<lambda>e. codearith OP_LEN e e2)
      | OPR_NOUNOPR \<Rightarrow> pret e)"

definition luaK_infix :: "BinOpr \<Rightarrow> expdesc \<Rightarrow> ('d, expdesc) P" where
  "luaK_infix op1 v =
     (let rk = pbind (luaK_exp2RK v) (\<lambda>(r, v). pret v) in
      case op1 of
        OPR_AND \<Rightarrow> luaK_goiftrue v
      | OPR_OR \<Rightarrow> luaK_goiffalse v
      | OPR_CONCAT \<Rightarrow> luaK_exp2nextreg v
      | OPR_ADD \<Rightarrow> (if isnumeral v then pret v else rk)
      | OPR_SUB \<Rightarrow> (if isnumeral v then pret v else rk)
      | OPR_MUL \<Rightarrow> (if isnumeral v then pret v else rk)
      | OPR_DIV \<Rightarrow> (if isnumeral v then pret v else rk)
      | OPR_MOD \<Rightarrow> (if isnumeral v then pret v else rk)
      | OPR_POW \<Rightarrow> (if isnumeral v then pret v else rk)
      | _ \<Rightarrow> rk)"

definition luaK_posfix :: "BinOpr \<Rightarrow> expdesc \<Rightarrow> expdesc \<Rightarrow> ('d, expdesc) P" where
  "luaK_posfix op1 e1 e2 =
     (case op1 of
        OPR_AND \<Rightarrow>
          pbind (luaK_dischargevars e2) (\<lambda>e2. pbind (luaK_concat (e_f e2) (e_f e1)) (\<lambda>l. pret (e2\<lparr>e_f := l\<rparr>)))
      | OPR_OR \<Rightarrow>
          pbind (luaK_dischargevars e2) (\<lambda>e2. pbind (luaK_concat (e_t e2) (e_t e1)) (\<lambda>l. pret (e2\<lparr>e_t := l\<rparr>)))
      | OPR_CONCAT \<Rightarrow>
          pbind (luaK_exp2val e2) (\<lambda>e2.
          pbind (if e_k e2 = VRELOCABLE then pbind (getcode e2) (\<lambda>i. pret (instr_op i = Some OP_CONCAT)) else pret False) (\<lambda>c.
            if c then
              pseq (freeexp e1)
              (pseq (mod_instr (e_info e2) (\<lambda>i. SETARG_B i (e_info e1)))
                (pret (e1\<lparr>e_k := VRELOCABLE, e_info := e_info e2\<rparr>)))
            else pbind (luaK_exp2nextreg e2) (codearith OP_CONCAT e1)))
      | OPR_ADD \<Rightarrow> codearith OP_ADD e1 e2
      | OPR_SUB \<Rightarrow> codearith OP_SUB e1 e2
      | OPR_MUL \<Rightarrow> codearith OP_MUL e1 e2
      | OPR_DIV \<Rightarrow> codearith OP_DIV e1 e2
      | OPR_MOD \<Rightarrow> codearith OP_MOD e1 e2
      | OPR_POW \<Rightarrow> codearith OP_POW e1 e2
      | OPR_EQ \<Rightarrow> codecomp OP_EQ True e1 e2
      | OPR_NE \<Rightarrow> codecomp OP_EQ False e1 e2
      | OPR_LT \<Rightarrow> codecomp OP_LT True e1 e2
      | OPR_LE \<Rightarrow> codecomp OP_LE True e1 e2
      | OPR_GT \<Rightarrow> codecomp OP_LT False e1 e2
      | OPR_GE \<Rightarrow> codecomp OP_LE False e1 e2
      | OPR_NOBINOPR \<Rightarrow> pret e1)"

definition luaK_setlist :: "int \<Rightarrow> int \<Rightarrow> int \<Rightarrow> ('d, unit) P" where
  "luaK_setlist bas nelems tostore =
     (let c = (nelems - 1) sdiv LFIELDS_PER_FLUSH + 1; v = (if tostore = LUA_MULTRET then 0 else tostore) in
      pseq (if c \<le> MAXARG_C then emit OP_SETLIST bas v c
            else pseq (emit OP_SETLIST bas v 0)
                   (pbind (pget lastline) (\<lambda>line. pbind (luaK_code (word_of_int c) line) (\<lambda>_. pret ()))))
        (fmod (\<lambda>fs. fs\<lparr>fs_freereg := bas + 1\<rparr>)))"

end
