(* ===== verification/LuaParser.thy ===== *)
theory LuaParser
  imports LuaCode LuaPattern
begin

unbundle bit_operations_syntax

section \<open>The parser\<close>

text \<open>
  \<^verbatim>\<open>lparser.c\<close>: recursive descent over the tokens, which declares the variables and calls the code
  generator. As in the code, the non-terminals \<^verbatim>\<open>expr\<close> (as \<open>subexpr\<close>) and \<^verbatim>\<open>chunk\<close> are declared before the rules
  that use them: the rules take them as arguments, and \<open>grammar\<close> ties the knot. Every level of
  these two adds one to \<^verbatim>\<open>nCcalls\<close>, so 201 levels are enough for the limit of 200.
\<close>

subsection \<open>Errors and tokens\<close>

definition anchor_token :: "('d, unit) P" where
  "anchor_token =
     pbind (pget ls_t) (\<lambda>t.
       if token t = TK_NAME \<or> token t = TK_STRING then
         (case seminfo t of SemTS ts \<Rightarrow> pbind (luaX_newstring ts) (\<lambda>_. pret ()) | SemR r \<Rightarrow> pfail UndefinedAccess)
       else pret ())"

definition error_expected :: "int \<Rightarrow> ('d, 'a) P" where
  "error_expected tk =
     pbind (luaX_token2str tk) (\<lambda>s.
     pbind (plift (luaO_pushvfstring (LUA_QS @ '' expected'') [FS (Some s)])) luaX_syntaxerror)"

definition errorlimit :: "FuncState \<Rightarrow> int \<Rightarrow> string \<Rightarrow> ('d, 'a) P" where
  "errorlimit fs limit kind =
     pbind (plift (if f_linedefined fs = 0
       then luaO_pushvfstring ''main function has more than %d %s'' [FD limit, FS (Some kind)]
       else luaO_pushvfstring ''function at line %d has more than %d %s'' [FD (f_linedefined fs), FD limit, FS (Some kind)]))
     (\<lambda>msg. luaX_lexerror msg 0)"

definition luaY_checklimit :: "FuncState \<Rightarrow> int \<Rightarrow> int \<Rightarrow> string \<Rightarrow> ('d, unit) P" where
  "luaY_checklimit fs v l m = (if v > l then errorlimit fs l m else pret ())"

definition tok :: "('d, int) P" where
  "tok = pget (\<lambda>ls. token (ls_t ls))"

definition testnext :: "int \<Rightarrow> ('d, bool) P" where
  "testnext c = pbind tok (\<lambda>t. if t = c then pseq luaX_next (pret True) else pret False)"

definition check :: "int \<Rightarrow> ('d, unit) P" where
  "check c = pbind tok (\<lambda>t. if t \<noteq> c then error_expected c else pret ())"

definition checknext :: "int \<Rightarrow> ('d, unit) P" where
  "checknext c = pseq (check c) luaX_next"

definition check_condition :: "bool \<Rightarrow> string \<Rightarrow> ('d, unit) P" where
  "check_condition c msg = (if \<not> c then luaX_syntaxerror msg else pret ())"

definition check_match :: "int \<Rightarrow> int \<Rightarrow> int \<Rightarrow> ('d, unit) P" where
  "check_match kind who where1 =
     pbind (testnext kind) (\<lambda>ok.
       if ok then pret ()
       else pbind (pget linenumber) (\<lambda>line.
         if where1 = line then error_expected kind
         else
           pbind (luaX_token2str kind) (\<lambda>s1.
           pbind (luaX_token2str who) (\<lambda>s2.
           pbind (plift (luaO_pushvfstring (LUA_QS @ '' expected (to close '' @ LUA_QS @ '' at line %d)'')
                    [FS (Some s1), FS (Some s2), FD where1])) luaX_syntaxerror))))"

text \<open>The string of the current token.\<close>

definition tok_string :: "('d, string) P" where
  "tok_string = pbind (pget (\<lambda>ls. seminfo (ls_t ls))) (\<lambda>si. case si of SemTS ts \<Rightarrow> pret ts | SemR r \<Rightarrow> pfail UndefinedAccess)"

definition str_checkname :: "('d, string) P" where
  "str_checkname = pseq (check TK_NAME) (pbind tok_string (\<lambda>ts. pseq luaX_next (pret ts)))"

definition codestring :: "string \<Rightarrow> ('d, expdesc) P" where
  "codestring s = pbind (luaK_stringK s) (\<lambda>i. pret (init_exp VK i))"

definition checkname :: "('d, expdesc) P" where
  "checkname = pbind str_checkname codestring"

subsection \<open>Variables\<close>

definition LUAI_MAXVARS :: int where "LUAI_MAXVARS = 200"
definition LUAI_MAXUPVALUES :: int where "LUAI_MAXUPVALUES = 60"
definition SHRT_MAX :: int where "SHRT_MAX = 32767"

definition cast_byte :: "int \<Rightarrow> int" where "cast_byte x = x mod 256"

definition registerlocalvar :: "string \<Rightarrow> ('d, nat) P" where
  "registerlocalvar vn =
     pbind (fget (\<lambda>fs. length (f_locvars fs))) (\<lambda>n.
     pseq (luaM_growvector (int n) SHRT_MAX ''too many local variables'')
     (pseq (fmod (\<lambda>fs. fs\<lparr>f_locvars := f_locvars fs @ [\<lparr>varname = Some vn, startpc = 0, endpc = 0\<rparr>]\<rparr>))
       (pret n)))"

definition new_localvar :: "string \<Rightarrow> int \<Rightarrow> ('d, unit) P" where
  "new_localvar vn n =
     pbind (fget (\<lambda>fs. fs)) (\<lambda>fs.
     pseq (luaY_checklimit fs (nactvar fs + n + 1) LUAI_MAXVARS ''local variables'')
     (pbind (registerlocalvar vn) (\<lambda>i.
       fmod (\<lambda>fs. fs\<lparr>actvar := put_at (actvar fs) (nat (nactvar fs + n)) i\<rparr>))))"

definition new_localvarliteral :: "string \<Rightarrow> int \<Rightarrow> ('d, unit) P" where
  "new_localvarliteral v n = pbind (luaX_newstring v) (\<lambda>s. new_localvar s n)"

text \<open>\<^verbatim>\<open>getlocvar (fs, i)\<close>: its index and a change of it.\<close>

definition locvar_index :: "FuncState \<Rightarrow> int \<Rightarrow> nat" where
  "locvar_index fs i = actvar fs ! nat i"

definition mod_locvar :: "int \<Rightarrow> (LocVar \<Rightarrow> LocVar) \<Rightarrow> FuncState \<Rightarrow> FuncState" where
  "mod_locvar i g fs = (let j = locvar_index fs i in fs\<lparr>f_locvars := (f_locvars fs)[j := g (f_locvars fs ! j)]\<rparr>)"

definition adjustlocalvars :: "int \<Rightarrow> ('d, unit) P" where
  "adjustlocalvars nvars =
     fmod (\<lambda>fs.
       let fs = fs\<lparr>nactvar := cast_byte (nactvar fs + nvars)\<rparr> in
       foldl (\<lambda>fs k. mod_locvar (nactvar fs - k) (startpc_update (\<lambda>_. fs_pc fs)) fs) fs (rev [1..nvars]))"

definition removevars :: "int \<Rightarrow> ('d, unit) P" where
  "removevars tolevel =
     fmod (\<lambda>fs.
       foldl (\<lambda>fs i. mod_locvar i (endpc_update (\<lambda>_. fs_pc fs)) (fs\<lparr>nactvar := i\<rparr>)) fs
         (rev [tolevel..nactvar fs - 1]))"

text \<open>The position of an upvalue that is there already.\<close>

definition find_upvalue :: "FuncState \<Rightarrow> expkind \<Rightarrow> int \<Rightarrow> nat option" where
  "find_upvalue fs k i =
     (let n = length (takeWhile (\<lambda>u. \<not> (uv_k u = k \<and> uv_info u = i)) (fs_upvalues fs)) in
      if n < length (fs_upvalues fs) then Some n else None)"

text \<open>The function may be one that encloses the current one; its new state is part of the result.\<close>

definition indexupvalue :: "FuncState \<Rightarrow> string \<Rightarrow> expkind \<Rightarrow> int \<Rightarrow> ('d, int \<times> FuncState) P" where
  "indexupvalue fs vn k i =
     (case find_upvalue fs k i of
        Some n \<Rightarrow> pret (int n, fs)
      | None \<Rightarrow>
          (let nups = int (length (f_upvalues fs)) in
           pseq (luaY_checklimit fs (nups + 1) LUAI_MAXUPVALUES ''upvalues'')
           (pseq (luaM_growvector nups (int MAX_INT) [])
             (pret (nups, fs\<lparr>f_upvalues := f_upvalues fs @ [vn],
                              fs_upvalues := fs_upvalues fs @ [\<lparr>uv_k = k, uv_info = cast_byte i\<rparr>]\<rparr>)))))"

text \<open>\<open>-1\<close> if there is no such variable.\<close>

definition searchvar :: "FuncState \<Rightarrow> string \<Rightarrow> int" where
  "searchvar fs n =
     (case filter (\<lambda>i. varname (f_locvars fs ! locvar_index fs i) = Some n) (rev [0..nactvar fs - 1]) of
        [] \<Rightarrow> - 1
      | i # _ \<Rightarrow> i)"

definition markupval :: "int \<Rightarrow> FuncState \<Rightarrow> FuncState" where
  "markupval level fs =
     (let n = length (takeWhile (\<lambda>bl. bl_nactvar bl > level) (fs_bl fs)) in
      if n < length (fs_bl fs) then fs\<lparr>fs_bl := (fs_bl fs)[n := (fs_bl fs ! n)\<lparr>bl_upval := True\<rparr>]\<rparr> else fs)"

text \<open>The kind and \<^verbatim>\<open>info\<close> of the variable, and the functions with their new states.\<close>

primrec singlevaraux :: "FuncState list \<Rightarrow> string \<Rightarrow> bool \<Rightarrow> ('d, (expkind \<times> int) \<times> FuncState list) P" where
  "singlevaraux [] n isbase = pret ((VGLOBAL, NO_REG), [])"
| "singlevaraux (fs # outer) n isbase =
     (let v = searchvar fs n in
      if v \<ge> 0 then pret ((VLOCAL, v), (if isbase then fs else markupval v fs) # outer)
      else
        pbind (singlevaraux outer n False) (\<lambda>((k, i), outer).
          if k = VGLOBAL then pret ((VGLOBAL, i), fs # outer)
          else pbind (indexupvalue fs n k i) (\<lambda>(idx, fs). pret ((VUPVAL, idx), fs # outer))))"

definition singlevar :: "('d, expdesc) P" where
  "singlevar =
     pbind str_checkname (\<lambda>vn.
     pbind (pget ls_fs) (\<lambda>fss.
     pbind (singlevaraux fss vn True) (\<lambda>((k, i), fss).
     pseq (pmod (\<lambda>ls. ls\<lparr>ls_fs := fss\<rparr>))
     (if k = VGLOBAL then pbind (luaK_stringK vn) (\<lambda>i. pret (init_exp VGLOBAL i))
      else pret (init_exp k i)))))"

definition hasmultret :: "expkind \<Rightarrow> bool" where
  "hasmultret k \<longleftrightarrow> k = VCALL \<or> k = VVARARG"

definition adjust_assign :: "int \<Rightarrow> int \<Rightarrow> expdesc \<Rightarrow> ('d, unit) P" where
  "adjust_assign nvars nexps e =
     (let extra = nvars - nexps in
      if hasmultret (e_k e) then
        (let extra = (if extra + 1 < 0 then 0 else extra + 1) in
         pseq (luaK_setreturns e extra) (pwhen (extra > 1) (luaK_reserveregs (extra - 1))))
      else
        pseq (if e_k e \<noteq> VVOID then pbind (luaK_exp2nextreg e) (\<lambda>_. pret ()) else pret ())
        (pwhen (extra > 0)
          (pbind (fget fs_freereg) (\<lambda>reg. pseq (luaK_reserveregs extra) (luaK_nil reg extra)))))"

subsection \<open>Levels, blocks and functions\<close>

definition enterlevel :: "('d, unit) P" where
  "enterlevel =
     pseq (pmod (ls_nCcalls_update Suc))
     (pbind (pget ls_nCcalls) (\<lambda>n.
       if n > LUAI_MAXCCALLS then luaX_lexerror ''chunk has too many syntax levels'' 0 else pret ()))"

definition leavelevel :: "('d, unit) P" where
  "leavelevel = pmod (ls_nCcalls_update (\<lambda>n. n - 1))"

definition enterblock :: "bool \<Rightarrow> ('d, unit) P" where
  "enterblock brk =
     fmod (\<lambda>fs. fs\<lparr>fs_bl := \<lparr>breaklist = NO_JUMP, bl_nactvar = nactvar fs, bl_upval = False, isbreakable = brk\<rparr> # fs_bl fs\<rparr>)"

text \<open>The current block, and its end.\<close>

definition this_block :: "('d, BlockCnt) P" where
  "this_block = pbind (fget fs_bl) (\<lambda>bls. case bls of [] \<Rightarrow> pfail UndefinedAccess | bl # _ \<Rightarrow> pret bl)"

definition leaveblock :: "('d, unit) P" where
  "leaveblock =
     pbind this_block (\<lambda>bl.
     pseq (fmod (\<lambda>fs. fs\<lparr>fs_bl := tl (fs_bl fs)\<rparr>))
     (pseq (removevars (bl_nactvar bl))
     (pseq (pwhen (bl_upval bl) (emit OP_CLOSE (bl_nactvar bl) 0 0))
     (pseq (fmod (\<lambda>fs. fs\<lparr>fs_freereg := nactvar fs\<rparr>))
       (luaK_patchtohere (breaklist bl))))))"

definition new_funcstate :: "table \<Rightarrow> FuncState" where
  "new_funcstate h =
     \<lparr>f_linedefined = 0, f_lastlinedefined = 0, f_numparams = 0, f_is_vararg = 0, f_maxstacksize = 2,
      f_code = [], f_lineinfo = [], f_k = [], f_p = [], f_locvars = [], f_upvalues = [],
      fs_h = h, fs_bl = [], fs_pc = 0, lasttarget = - 1, jpc = NO_JUMP, fs_freereg = 0, nactvar = 0,
      fs_upvalues = [], actvar = []\<rparr>"

definition open_func :: "('d, unit) P" where
  "open_func = pbind (plift (luaH_new 0 0)) (\<lambda>h. pmod (\<lambda>ls. ls\<lparr>ls_fs := new_funcstate h # ls_fs ls\<rparr>))"

text \<open>The prototype, as the vectors have been cut to what is in use.\<close>

definition proto_of :: "string \<Rightarrow> FuncState \<Rightarrow> Proto" where
  "proto_of src fs =
     Proto (Some src) (f_linedefined fs) (f_lastlinedefined fs) (of_nat (length (f_upvalues fs))) (f_numparams fs)
       (f_is_vararg fs) (f_maxstacksize fs) (take (nat (fs_pc fs)) (f_code fs)) (f_k fs) (f_p fs)
       (take (nat (fs_pc fs)) (f_lineinfo fs)) (f_locvars fs) (map Some (f_upvalues fs))"

definition close_func :: "('d, FuncState \<times> Proto) P" where
  "close_func =
     pseq (removevars 0)
     (pseq (luaK_ret 0 0)
     (pbind (fget (\<lambda>fs. fs)) (\<lambda>fs.
     pbind (pget ls_source) (\<lambda>src.
     pseq (pmod (\<lambda>ls. ls\<lparr>ls_fs := tl (ls_fs ls)\<rparr>))
     (pseq anchor_token (pret (fs, proto_of src fs)))))))"

primrec code_upvalues :: "upvaldesc list \<Rightarrow> ('d, unit) P" where
  "code_upvalues [] = pret ()"
| "code_upvalues (u # us) =
     pseq (emit (if uv_k u = VLOCAL then OP_MOVE else OP_GETUPVAL) 0 (uv_info u) 0) (code_upvalues us)"

definition pushclosure :: "FuncState \<Rightarrow> Proto \<Rightarrow> ('d, expdesc) P" where
  "pushclosure func pt =
     pbind (fget (\<lambda>fs. int (length (f_p fs)))) (\<lambda>np.
     pseq (luaM_growvector np MAXARG_Bx ''constant table overflow'')
     (pseq (fmod (\<lambda>fs. fs\<lparr>f_p := f_p fs @ [pt]\<rparr>))
     (pbind (luaK_codeABx OP_CLOSURE 0 np) (\<lambda>pc.
     pseq (code_upvalues (fs_upvalues func)) (pret (init_exp VRELOCABLE pc))))))"

subsection \<open>Grammar rules: tables, functions and calls\<close>

text \<open>\<open>ex\<close> is \<^verbatim>\<open>subexpr\<close> and \<open>ck\<close> is \<^verbatim>\<open>chunk\<close> of the level below.\<close>

definition expr :: "(int \<Rightarrow> ('d, BinOpr \<times> expdesc) P) \<Rightarrow> ('d, expdesc) P" where
  "expr ex = pbind (ex 0) (\<lambda>(op1, v). pret v)"

definition field :: "expdesc \<Rightarrow> ('d, expdesc) P" where
  "field v =
     pbind (luaK_exp2anyreg v) (\<lambda>v.
     pseq luaX_next
     (pbind checkname (\<lambda>key. luaK_indexed v key)))"

definition yindex :: "(int \<Rightarrow> ('d, BinOpr \<times> expdesc) P) \<Rightarrow> ('d, expdesc) P" where
  "yindex ex =
     pseq luaX_next
     (pbind (expr ex) (\<lambda>v. pbind (luaK_exp2val v) (\<lambda>v. pseq (checknext (ch (CHR '']''))) (pret v))))"

record ConsControl =
  cc_v :: expdesc
  cc_t :: expdesc
  nh :: int
  na :: int
  tostore :: int

definition recfield :: "(int \<Rightarrow> ('d, BinOpr \<times> expdesc) P) \<Rightarrow> ConsControl \<Rightarrow> ('d, ConsControl) P" where
  "recfield ex cc =
     pbind (fget (\<lambda>fs. fs)) (\<lambda>fs.
     pbind tok (\<lambda>t.
     pbind (if t = TK_NAME
            then pseq (luaY_checklimit fs (nh cc) (int MAX_INT) ''items in a constructor'') checkname
            else yindex ex) (\<lambda>key.
     pseq (checknext (ch (CHR ''='')))
     (pbind (luaK_exp2RK key) (\<lambda>(rkkey, key).
     pbind (expr ex) (\<lambda>val.
     pbind (luaK_exp2RK val) (\<lambda>(rkval, val).
     pseq (emit OP_SETTABLE (e_info (cc_t cc)) rkkey rkval)
     (pseq (fmod (\<lambda>fs'. fs'\<lparr>fs_freereg := fs_freereg fs\<rparr>))
       (pret (cc\<lparr>nh := nh cc + 1\<rparr>))))))))))"

definition closelistfield :: "ConsControl \<Rightarrow> ('d, ConsControl) P" where
  "closelistfield cc =
     (if e_k (cc_v cc) = VVOID then pret cc
      else
        pbind (luaK_exp2nextreg (cc_v cc)) (\<lambda>v.
          let cc = cc\<lparr>cc_v := v\<lparr>e_k := VVOID\<rparr>\<rparr> in
          if tostore cc = LFIELDS_PER_FLUSH
          then pseq (luaK_setlist (e_info (cc_t cc)) (na cc) (tostore cc)) (pret (cc\<lparr>tostore := 0\<rparr>))
          else pret cc))"

definition lastlistfield :: "ConsControl \<Rightarrow> ('d, ConsControl) P" where
  "lastlistfield cc =
     (if tostore cc = 0 then pret cc
      else if hasmultret (e_k (cc_v cc)) then
        pseq (luaK_setmultret (cc_v cc))
        (pseq (luaK_setlist (e_info (cc_t cc)) (na cc) LUA_MULTRET) (pret (cc\<lparr>na := na cc - 1\<rparr>)))
      else
        pbind (if e_k (cc_v cc) \<noteq> VVOID then luaK_exp2nextreg (cc_v cc) else pret (cc_v cc)) (\<lambda>v.
        pseq (luaK_setlist (e_info (cc_t cc)) (na cc) (tostore cc)) (pret (cc\<lparr>cc_v := v\<rparr>))))"

definition listfield :: "(int \<Rightarrow> ('d, BinOpr \<times> expdesc) P) \<Rightarrow> ConsControl \<Rightarrow> ('d, ConsControl) P" where
  "listfield ex cc =
     pbind (expr ex) (\<lambda>v.
     pbind (fget (\<lambda>fs. fs)) (\<lambda>fs.
     pseq (luaY_checklimit fs (na cc) (int MAX_INT) ''items in a constructor'')
       (pret (cc\<lparr>cc_v := v, na := na cc + 1, tostore := tostore cc + 1\<rparr>))))"

text \<open>One item with the separator after it: \<open>Inr\<close> when the items end.\<close>

definition constructor_item :: "(int \<Rightarrow> ('d, BinOpr \<times> expdesc) P) \<Rightarrow> ConsControl \<Rightarrow> ('d, ConsControl + ConsControl) P" where
  "constructor_item ex cc =
     pbind tok (\<lambda>t.
       if t = ch (CHR ''}'') then pret (Inr cc)
       else
         pbind (closelistfield cc) (\<lambda>cc.
         pbind (if t = TK_NAME then
                  pseq luaX_lookahead
                  (pbind (pget (\<lambda>ls. token (lookahead ls))) (\<lambda>la.
                    if la \<noteq> ch (CHR ''='') then listfield ex cc else recfield ex cc))
                else if t = ch (CHR ''['') then recfield ex cc
                else listfield ex cc) (\<lambda>cc.
         pbind (testnext (ch (CHR '',''))) (\<lambda>c1.
         pbind (if c1 then pret True else testnext (ch (CHR '';''))) (\<lambda>more.
           pret (if more then Inl cc else Inr cc))))))"

definition constructor :: "(int \<Rightarrow> ('d, BinOpr \<times> expdesc) P) \<Rightarrow> ('d, expdesc) P" where
  "constructor ex =
     pbind (pget linenumber) (\<lambda>line.
     pbind (luaK_codeABC OP_NEWTABLE 0 0 0) (\<lambda>pc.
     pbind (luaK_exp2nextreg (init_exp VRELOCABLE pc)) (\<lambda>t.
     pseq (checknext (ch (CHR ''{'')))
     (pbind (ploop (constructor_item ex) \<lparr>cc_v = init_exp VVOID 0, cc_t = t, nh = 0, na = 0, tostore = 0\<rparr>) (\<lambda>cc.
     pseq (check_match (ch (CHR ''}'')) (ch (CHR ''{'')) line)
     (pbind (lastlistfield cc) (\<lambda>cc.
     pseq (mod_instr pc (\<lambda>i. SETARG_B i (luaO_int2fb (word_of_int (na cc)))))
     (pseq (mod_instr pc (\<lambda>i. SETARG_C i (luaO_int2fb (word_of_int (nh cc)))))
       (pret t)))))))))"

text \<open>One parameter: the number of parameters so far.\<close>

definition parlist_item :: "int \<Rightarrow> ('d, int + int) P" where
  "parlist_item nparams =
     pbind tok (\<lambda>t.
     pbind (if t = TK_NAME then pbind str_checkname (\<lambda>vn. pseq (new_localvar vn nparams) (pret (nparams + 1)))
            else if t = TK_DOTS then
              pseq luaX_next
              (pseq (new_localvarliteral ''arg'' nparams)
              (pseq (fmod (\<lambda>fs. fs\<lparr>f_is_vararg := VARARG_HASARG OR VARARG_NEEDSARG OR VARARG_ISVARARG\<rparr>))
                (pret (nparams + 1))))
            else luaX_syntaxerror (''<name> or '' @ LUA_QL ''...'' @ '' expected'')) (\<lambda>nparams.
     pbind (fget f_is_vararg) (\<lambda>va.
       if va \<noteq> 0 then pret (Inr nparams)
       else pbind (testnext (ch (CHR '',''))) (\<lambda>more. pret (if more then Inl nparams else Inr nparams)))))"

definition parlist :: "('d, unit) P" where
  "parlist =
     pseq (fmod (\<lambda>fs. fs\<lparr>f_is_vararg := 0\<rparr>))
     (pbind tok (\<lambda>t.
     pbind (if t \<noteq> ch (CHR '')'') then ploop parlist_item 0 else pret 0) (\<lambda>nparams.
     pseq (adjustlocalvars nparams)
     (pseq (fmod (\<lambda>fs. fs\<lparr>f_numparams := word_of_int (nactvar fs - uint (f_is_vararg fs AND VARARG_HASARG))\<rparr>))
     (pbind (fget nactvar) luaK_reserveregs)))))"

definition body :: "('d, unit) P \<Rightarrow> bool \<Rightarrow> int \<Rightarrow> ('d, expdesc) P" where
  "body ck needself line =
     pseq open_func
     (pseq (fmod (\<lambda>fs. fs\<lparr>f_linedefined := line\<rparr>))
     (pseq (checknext (ch (CHR ''('')))
     (pseq (pwhen needself (pseq (new_localvarliteral ''self'' 0) (adjustlocalvars 1)))
     (pseq parlist
     (pseq (checknext (ch (CHR '')'')))
     (pseq ck
     (pbind (pget linenumber) (\<lambda>l.
     pseq (fmod (\<lambda>fs. fs\<lparr>f_lastlinedefined := l\<rparr>))
     (pseq (check_match TK_END TK_FUNCTION line)
     (pbind close_func (\<lambda>(func, pt). pushclosure func pt)))))))))))"

text \<open>The number of expressions and the last one.\<close>

definition explist1 :: "(int \<Rightarrow> ('d, BinOpr \<times> expdesc) P) \<Rightarrow> ('d, int \<times> expdesc) P" where
  "explist1 ex =
     pbind (expr ex) (\<lambda>v.
     ploop (\<lambda>(n, v).
       pbind (testnext (ch (CHR '',''))) (\<lambda>more.
         if more then pbind (luaK_exp2nextreg v) (\<lambda>_. pbind (expr ex) (\<lambda>v. pret (Inl (n + 1, v))))
         else pret (Inr (n, v)))) (1, v))"

text \<open>The arguments of a call, of which the last is not closed.\<close>

definition call_args :: "(int \<Rightarrow> ('d, BinOpr \<times> expdesc) P) \<Rightarrow> int \<Rightarrow> ('d, expdesc) P" where
  "call_args ex line =
     pbind tok (\<lambda>t.
       if t = ch (CHR ''('') then
         pbind (pget lastline) (\<lambda>ll.
         pseq (if line \<noteq> ll then luaX_syntaxerror ''ambiguous syntax (function call x new statement)'' else pret ())
         (pseq luaX_next
         (pbind tok (\<lambda>t.
         pbind (if t = ch (CHR '')'') then pret (init_exp VVOID 0)
                else pbind (explist1 ex) (\<lambda>(n, args). pseq (luaK_setmultret args) (pret args))) (\<lambda>args.
         pseq (check_match (ch (CHR '')'')) (ch (CHR ''('')) line) (pret args))))))
       else if t = ch (CHR ''{'') then constructor ex
       else if t = TK_STRING then pbind tok_string (\<lambda>s. pbind (codestring s) (\<lambda>e. pseq luaX_next (pret e)))
       else luaX_syntaxerror ''function arguments expected'')"

definition funcargs :: "(int \<Rightarrow> ('d, BinOpr \<times> expdesc) P) \<Rightarrow> expdesc \<Rightarrow> ('d, expdesc) P" where
  "funcargs ex f =
     pbind (pget linenumber) (\<lambda>line.
     pbind (call_args ex line) (\<lambda>args.
       let bas = e_info f in
       pbind (if hasmultret (e_k args) then pret LUA_MULTRET
              else
                pseq (if e_k args \<noteq> VVOID then pbind (luaK_exp2nextreg args) (\<lambda>_. pret ()) else pret ())
                  (fget (\<lambda>fs. fs_freereg fs - (bas + 1)))) (\<lambda>nparams.
       pbind (luaK_codeABC OP_CALL bas (nparams + 1) 2) (\<lambda>pc.
       pseq (luaK_fixline line)
       (pseq (fmod (\<lambda>fs. fs\<lparr>fs_freereg := bas + 1\<rparr>))
         (pret (init_exp VCALL pc)))))))"

subsection \<open>Grammar rules: expressions\<close>

definition prefixexp :: "(int \<Rightarrow> ('d, BinOpr \<times> expdesc) P) \<Rightarrow> ('d, expdesc) P" where
  "prefixexp ex =
     pbind tok (\<lambda>t.
       if t = ch (CHR ''('') then
         pbind (pget linenumber) (\<lambda>line.
         pseq luaX_next
         (pbind (expr ex) (\<lambda>v. pseq (check_match (ch (CHR '')'')) (ch (CHR ''('')) line) (luaK_dischargevars v))))
       else if t = TK_NAME then singlevar
       else luaX_syntaxerror ''unexpected symbol'')"

definition primary_suffix :: "(int \<Rightarrow> ('d, BinOpr \<times> expdesc) P) \<Rightarrow> expdesc \<Rightarrow> ('d, expdesc + expdesc) P" where
  "primary_suffix ex v =
     pbind tok (\<lambda>t.
       let more = (\<lambda>m. pbind m (\<lambda>v. pret (Inl v))) in
       if t = ch (CHR ''.'') then more (field v)
       else if t = ch (CHR ''['') then
         more (pbind (luaK_exp2anyreg v) (\<lambda>v. pbind (yindex ex) (\<lambda>key. luaK_indexed v key)))
       else if t = ch (CHR '':'') then
         more (pseq luaX_next (pbind checkname (\<lambda>key. pbind (luaK_self v key) (funcargs ex))))
       else if t = ch (CHR ''('') \<or> t = TK_STRING \<or> t = ch (CHR ''{'') then
         more (pbind (luaK_exp2nextreg v) (funcargs ex))
       else pret (Inr v))"

definition primaryexp :: "(int \<Rightarrow> ('d, BinOpr \<times> expdesc) P) \<Rightarrow> ('d, expdesc) P" where
  "primaryexp ex = pbind (prefixexp ex) (ploop (primary_suffix ex))"

definition simpleexp :: "(int \<Rightarrow> ('d, BinOpr \<times> expdesc) P) \<Rightarrow> ('d, unit) P \<Rightarrow> ('d, expdesc) P" where
  "simpleexp ex ck =
     pbind tok (\<lambda>t.
       let skip = (\<lambda>e. pseq luaX_next (pret e)) in
       if t = TK_NUMBER then
         pbind (pget (\<lambda>ls. seminfo (ls_t ls))) (\<lambda>si. case si of
             SemR r \<Rightarrow> skip ((init_exp VKNUM 0)\<lparr>e_nval := r\<rparr>)
           | SemTS ts \<Rightarrow> pfail UndefinedAccess)
       else if t = TK_STRING then pbind tok_string (\<lambda>s. pbind (codestring s) skip)
       else if t = TK_NIL then skip (init_exp VNIL 0)
       else if t = TK_TRUE then skip (init_exp VTRUE 0)
       else if t = TK_FALSE then skip (init_exp VFALSE 0)
       else if t = TK_DOTS then
         pbind (fget f_is_vararg) (\<lambda>va.
         pseq (check_condition (va \<noteq> 0) (''cannot use '' @ LUA_QL ''...'' @ '' outside a vararg function''))
         (pseq (fmod (\<lambda>fs. fs\<lparr>f_is_vararg := f_is_vararg fs AND NOT VARARG_NEEDSARG\<rparr>))
         (pbind (luaK_codeABC OP_VARARG 0 1 0) (\<lambda>pc. skip (init_exp VVARARG pc)))))
       else if t = ch (CHR ''{'') then constructor ex
       else if t = TK_FUNCTION then pseq luaX_next (pbind (pget linenumber) (body ck False))
       else primaryexp ex)"

definition getunopr :: "int \<Rightarrow> UnOpr" where
  "getunopr t =
     (if t = TK_NOT then OPR_NOT else if t = ch (CHR ''-'') then OPR_MINUS
      else if t = ch (CHR ''#'') then OPR_LEN else OPR_NOUNOPR)"

definition binops :: "(int \<times> BinOpr) list" where
  "binops =
     [(ch (CHR ''+''), OPR_ADD), (ch (CHR ''-''), OPR_SUB), (ch (CHR ''*''), OPR_MUL), (ch (CHR ''/''), OPR_DIV),
      (ch (CHR ''%''), OPR_MOD), (ch (CHR ''^''), OPR_POW), (TK_CONCAT, OPR_CONCAT), (TK_NE, OPR_NE), (TK_EQ, OPR_EQ),
      (ch (CHR ''<''), OPR_LT), (TK_LE, OPR_LE), (ch (CHR ''>''), OPR_GT), (TK_GE, OPR_GE),
      (TK_AND, OPR_AND), (TK_OR, OPR_OR)]"

definition getbinopr :: "int \<Rightarrow> BinOpr" where
  "getbinopr t = (case map_of binops t of Some op1 \<Rightarrow> op1 | None \<Rightarrow> OPR_NOBINOPR)"

text \<open>The left and the right priority of an operator.\<close>

fun priority :: "BinOpr \<Rightarrow> int \<times> int" where
  "priority OPR_ADD = (6, 6)"
| "priority OPR_SUB = (6, 6)"
| "priority OPR_MUL = (7, 7)"
| "priority OPR_DIV = (7, 7)"
| "priority OPR_MOD = (7, 7)"
| "priority OPR_POW = (10, 9)"
| "priority OPR_CONCAT = (5, 4)"
| "priority OPR_NE = (3, 3)"
| "priority OPR_EQ = (3, 3)"
| "priority OPR_LT = (3, 3)"
| "priority OPR_LE = (3, 3)"
| "priority OPR_GT = (3, 3)"
| "priority OPR_GE = (3, 3)"
| "priority OPR_AND = (2, 2)"
| "priority OPR_OR = (1, 1)"
| "priority OPR_NOBINOPR = (0, 0)"

definition UNARY_PRIORITY :: int where "UNARY_PRIORITY = 8"

text \<open>One binary operator of the loop of \<^verbatim>\<open>subexpr\<close>, and its right operand.\<close>

definition binop_round :: "(int \<Rightarrow> ('d, BinOpr \<times> expdesc) P) \<Rightarrow> int \<Rightarrow> BinOpr \<times> expdesc \<Rightarrow>
    ('d, (BinOpr \<times> expdesc) + (BinOpr \<times> expdesc)) P" where
  "binop_round ex limit s =
     (case s of (op1, v) \<Rightarrow>
        if op1 \<noteq> OPR_NOBINOPR \<and> fst (priority op1) > limit then
          pseq luaX_next
          (pbind (luaK_infix op1 v) (\<lambda>v.
          pbind (ex (snd (priority op1))) (\<lambda>(nextop, v2).
          pbind (luaK_posfix op1 v v2) (\<lambda>v. pret (Inl (nextop, v))))))
        else pret (Inr (op1, v)))"

definition subexpr :: "(int \<Rightarrow> ('d, BinOpr \<times> expdesc) P) \<Rightarrow> ('d, unit) P \<Rightarrow> int \<Rightarrow> ('d, BinOpr \<times> expdesc) P" where
  "subexpr ex ck limit =
     pseq enterlevel
     (pbind tok (\<lambda>t.
     pbind (let uop = getunopr t in
            if uop \<noteq> OPR_NOUNOPR
            then pseq luaX_next (pbind (ex UNARY_PRIORITY) (\<lambda>(_, v). luaK_prefix uop v))
            else simpleexp ex ck) (\<lambda>v.
     pbind tok (\<lambda>t.
     pbind (ploop (binop_round ex limit) (getbinopr t, v)) (\<lambda>r.
     pseq leavelevel (pret r))))))"

subsection \<open>Grammar rules: statements\<close>

definition block_follow :: "int \<Rightarrow> bool" where
  "block_follow t \<longleftrightarrow> t = TK_ELSE \<or> t = TK_ELSEIF \<or> t = TK_END \<or> t = TK_UNTIL \<or> t = TK_EOS"

definition block :: "('d, unit) P \<Rightarrow> ('d, unit) P" where
  "block ck = pseq (enterblock False) (pseq ck leaveblock)"

text \<open>
  The left sides of an assignment, the last one first: \<open>v\<close> is a local variable that becomes one more. The
  sides that use its register get a copy.
\<close>

definition conflicts :: "expdesc \<Rightarrow> expdesc \<Rightarrow> bool" where
  "conflicts v l \<longleftrightarrow> e_k l = VINDEXED \<and> (e_info l = e_info v \<or> e_aux l = e_info v)"

definition use_copy :: "expdesc \<Rightarrow> int \<Rightarrow> expdesc \<Rightarrow> expdesc" where
  "use_copy v extra l =
     (if e_k l = VINDEXED then
        l\<lparr>e_info := (if e_info l = e_info v then extra else e_info l),
          e_aux := (if e_aux l = e_info v then extra else e_aux l)\<rparr>
      else l)"

definition check_conflict :: "expdesc list \<Rightarrow> expdesc \<Rightarrow> ('d, expdesc list) P" where
  "check_conflict lh v =
     pbind (fget fs_freereg) (\<lambda>extra.
     pseq (pwhen (list_ex (conflicts v) lh)
            (pseq (emit OP_MOVE extra (e_info v) 0) (luaK_reserveregs 1)))
       (pret (map (use_copy v extra) lh)))"

definition assignable :: "expkind \<Rightarrow> bool" where
  "assignable k \<longleftrightarrow> k = VLOCAL \<or> k = VUPVAL \<or> k = VGLOBAL \<or> k = VINDEXED"

text \<open>The value of the last register goes to the last side; the sides that are left are the result.\<close>

definition store_last :: "expdesc list \<Rightarrow> ('d, expdesc list) P" where
  "store_last lh =
     pbind (fget fs_freereg) (\<lambda>r. pseq (luaK_storevar (hd lh) (init_exp VNONRELOC (r - 1))) (pret (tl lh)))"

text \<open>\<open>n\<close> bounds the depth of the recursion, which reads a token at every level.\<close>

primrec assignment :: "nat \<Rightarrow> (int \<Rightarrow> ('d, BinOpr \<times> expdesc) P) \<Rightarrow> expdesc list \<Rightarrow> int \<Rightarrow> ('d, expdesc list) P" where
  "assignment 0 ex lh nvars = pfail OutOfFuel"
| "assignment (Suc n) ex lh nvars =
     pseq (check_condition (assignable (e_k (hd lh))) ''syntax error'')
     (pbind (testnext (ch (CHR '',''))) (\<lambda>comma.
       if comma then
         pbind (primaryexp ex) (\<lambda>nv.
         pbind (if e_k nv = VLOCAL then check_conflict lh nv else pret lh) (\<lambda>lh.
         pbind (fget (\<lambda>fs. fs)) (\<lambda>fs.
         pbind (pget ls_nCcalls) (\<lambda>calls.
         pseq (luaY_checklimit fs nvars (int LUAI_MAXCCALLS - int calls) ''variables in assignment'')
         (pbind (assignment n ex (nv # lh) (nvars + 1)) store_last)))))
       else
         pseq (checknext (ch (CHR ''='')))
         (pbind (explist1 ex) (\<lambda>(nexps, e).
           if nexps \<noteq> nvars then
             pseq (adjust_assign nvars nexps e)
             (pseq (pwhen (nexps > nvars) (fmod (\<lambda>fs. fs\<lparr>fs_freereg := fs_freereg fs - (nexps - nvars)\<rparr>)))
               (store_last lh))
           else
             pbind (luaK_setoneret e) (\<lambda>e. pseq (luaK_storevar (hd lh) e) (pret (tl lh)))))))"

definition cond :: "(int \<Rightarrow> ('d, BinOpr \<times> expdesc) P) \<Rightarrow> ('d, int) P" where
  "cond ex =
     pbind (expr ex) (\<lambda>v.
     pbind (luaK_goiftrue (if e_k v = VNIL then v\<lparr>e_k := VFALSE\<rparr> else v)) (\<lambda>v. pret (e_f v)))"

definition breakstat :: "('d, unit) P" where
  "breakstat =
     pbind (fget fs_bl) (\<lambda>bls.
       let inner = takeWhile (\<lambda>bl. \<not> isbreakable bl) bls; i = length inner in
       if i \<ge> length bls then luaX_syntaxerror ''no loop to break''
       else
         pseq (pwhen (list_ex bl_upval inner) (emit OP_CLOSE (bl_nactvar (bls ! i)) 0 0))
         (pbind luaK_jump (\<lambda>j.
          pbind (luaK_concat (breaklist (bls ! i)) j) (\<lambda>l.
            fmod (\<lambda>fs. fs\<lparr>fs_bl := (fs_bl fs)[i := (fs_bl fs ! i)\<lparr>breaklist := l\<rparr>]\<rparr>)))))"

definition whilestat :: "(int \<Rightarrow> ('d, BinOpr \<times> expdesc) P) \<Rightarrow> ('d, unit) P \<Rightarrow> int \<Rightarrow> ('d, unit) P" where
  "whilestat ex ck line =
     pseq luaX_next
     (pbind luaK_getlabel (\<lambda>whileinit.
     pbind (cond ex) (\<lambda>condexit.
     pseq (enterblock True)
     (pseq (checknext TK_DO)
     (pseq (block ck)
     (pseq (pbind luaK_jump (\<lambda>j. luaK_patchlist j whileinit))
     (pseq (check_match TK_END TK_WHILE line)
     (pseq leaveblock (luaK_patchtohere condexit)))))))))"

definition repeatstat :: "(int \<Rightarrow> ('d, BinOpr \<times> expdesc) P) \<Rightarrow> ('d, unit) P \<Rightarrow> int \<Rightarrow> ('d, unit) P" where
  "repeatstat ex ck line =
     pbind luaK_getlabel (\<lambda>repeat_init.
     pseq (enterblock True)
     (pseq (enterblock False)
     (pseq luaX_next
     (pseq ck
     (pseq (check_match TK_UNTIL TK_REPEAT line)
     (pbind (cond ex) (\<lambda>condexit.
     pbind this_block (\<lambda>bl2.
     pseq (if \<not> bl_upval bl2 then pseq leaveblock (luaK_patchlist condexit repeat_init)
           else
             pseq breakstat
             (pseq (luaK_patchtohere condexit)
             (pseq leaveblock
               (pbind luaK_jump (\<lambda>j. luaK_patchlist j repeat_init)))))
       leaveblock))))))))"

definition exp1 :: "(int \<Rightarrow> ('d, BinOpr \<times> expdesc) P) \<Rightarrow> ('d, unit) P" where
  "exp1 ex = pbind (expr ex) (\<lambda>e. pbind (luaK_exp2nextreg e) (\<lambda>_. pret ()))"

definition forbody :: "('d, unit) P \<Rightarrow> int \<Rightarrow> int \<Rightarrow> int \<Rightarrow> bool \<Rightarrow> ('d, unit) P" where
  "forbody ck bas line nvars isnum =
     pseq (adjustlocalvars 3)
     (pseq (checknext TK_DO)
     (pbind (if isnum then luaK_codeAsBx OP_FORPREP bas NO_JUMP else luaK_jump) (\<lambda>prep.
     pseq (enterblock False)
     (pseq (adjustlocalvars nvars)
     (pseq (luaK_reserveregs nvars)
     (pseq (block ck)
     (pseq leaveblock
     (pseq (luaK_patchtohere prep)
     (pbind (if isnum then luaK_codeAsBx OP_FORLOOP bas NO_JUMP else luaK_codeABC OP_TFORLOOP bas 0 nvars) (\<lambda>endfor.
     pseq (luaK_fixline line)
     (pbind (if isnum then pret endfor else luaK_jump) (\<lambda>j. luaK_patchlist j (prep + 1)))))))))))))"

definition fornum :: "(int \<Rightarrow> ('d, BinOpr \<times> expdesc) P) \<Rightarrow> ('d, unit) P \<Rightarrow> string \<Rightarrow> int \<Rightarrow> ('d, unit) P" where
  "fornum ex ck vn line =
     pbind (fget fs_freereg) (\<lambda>bas.
     pseq (new_localvarliteral ''(for index)'' 0)
     (pseq (new_localvarliteral ''(for limit)'' 1)
     (pseq (new_localvarliteral ''(for step)'' 2)
     (pseq (new_localvar vn 3)
     (pseq (checknext (ch (CHR ''='')))
     (pseq (exp1 ex)
     (pseq (checknext (ch (CHR '','')))
     (pseq (exp1 ex)
     (pbind (testnext (ch (CHR '',''))) (\<lambda>step.
     pseq (if step then exp1 ex
           else
             pbind (luaK_numberK (cast_num 1)) (\<lambda>k.
             pbind (fget fs_freereg) (\<lambda>r.
             pbind (luaK_codeABx OP_LOADK r k) (\<lambda>_. luaK_reserveregs 1))))
       (forbody ck bas line 1 True)))))))))))"

definition forlist :: "(int \<Rightarrow> ('d, BinOpr \<times> expdesc) P) \<Rightarrow> ('d, unit) P \<Rightarrow> string \<Rightarrow> ('d, unit) P" where
  "forlist ex ck indexname =
     pbind (fget fs_freereg) (\<lambda>bas.
     pseq (new_localvarliteral ''(for generator)'' 0)
     (pseq (new_localvarliteral ''(for state)'' 1)
     (pseq (new_localvarliteral ''(for control)'' 2)
     (pseq (new_localvar indexname 3)
     (pbind (ploop (\<lambda>nvars.
         pbind (testnext (ch (CHR '',''))) (\<lambda>more.
           if more then pbind str_checkname (\<lambda>vn. pseq (new_localvar vn nvars) (pret (Inl (nvars + 1))))
           else pret (Inr nvars))) 4) (\<lambda>nvars.
     pseq (checknext TK_IN)
     (pbind (pget linenumber) (\<lambda>line.
     pbind (explist1 ex) (\<lambda>(nexps, e).
     pseq (adjust_assign 3 nexps e)
     (pseq (luaK_checkstack 3)
       (forbody ck bas line (nvars - 3) False)))))))))))"

definition forstat :: "(int \<Rightarrow> ('d, BinOpr \<times> expdesc) P) \<Rightarrow> ('d, unit) P \<Rightarrow> int \<Rightarrow> ('d, unit) P" where
  "forstat ex ck line =
     pseq (enterblock True)
     (pseq luaX_next
     (pbind str_checkname (\<lambda>vn.
     pbind tok (\<lambda>t.
     pseq (if t = ch (CHR ''='') then fornum ex ck vn line
           else if t = ch (CHR '','') \<or> t = TK_IN then forlist ex ck vn
           else luaX_syntaxerror (LUA_QL ''='' @ '' or '' @ LUA_QL ''in'' @ '' expected''))
     (pseq (check_match TK_END TK_FOR line) leaveblock)))))"

definition test_then_block :: "(int \<Rightarrow> ('d, BinOpr \<times> expdesc) P) \<Rightarrow> ('d, unit) P \<Rightarrow> ('d, int) P" where
  "test_then_block ex ck =
     pseq luaX_next
     (pbind (cond ex) (\<lambda>condexit. pseq (checknext TK_THEN) (pseq (block ck) (pret condexit))))"

definition concat_jump :: "int \<Rightarrow> ('d, int) P" where
  "concat_jump l = pbind luaK_jump (luaK_concat l)"

definition ifstat :: "(int \<Rightarrow> ('d, BinOpr \<times> expdesc) P) \<Rightarrow> ('d, unit) P \<Rightarrow> int \<Rightarrow> ('d, unit) P" where
  "ifstat ex ck line =
     pbind (test_then_block ex ck) (\<lambda>flist.
     pbind (ploop (\<lambda>(flist, escapelist).
         pbind tok (\<lambda>t.
           if t = TK_ELSEIF then
             pbind (concat_jump escapelist) (\<lambda>escapelist.
             pseq (luaK_patchtohere flist)
             (pbind (test_then_block ex ck) (\<lambda>flist. pret (Inl (flist, escapelist)))))
           else pret (Inr (flist, escapelist)))) (flist, NO_JUMP)) (\<lambda>(flist, escapelist).
     pbind tok (\<lambda>t.
     pbind (if t = TK_ELSE then
              pbind (concat_jump escapelist) (\<lambda>escapelist.
              pseq (luaK_patchtohere flist)
              (pseq luaX_next (pseq (block ck) (pret escapelist))))
            else luaK_concat escapelist flist) (\<lambda>escapelist.
     pseq (luaK_patchtohere escapelist) (check_match TK_END TK_IF line)))))"

definition localfunc :: "('d, unit) P \<Rightarrow> ('d, unit) P" where
  "localfunc ck =
     pseq (pbind str_checkname (\<lambda>vn. new_localvar vn 0))
     (pbind (fget fs_freereg) (\<lambda>r.
     pseq (luaK_reserveregs 1)
     (pseq (adjustlocalvars 1)
     (pbind (pget linenumber) (\<lambda>line.
     pbind (body ck False line) (\<lambda>f.
     pseq (luaK_storevar (init_exp VLOCAL r) f)
       (fmod (\<lambda>fs. mod_locvar (nactvar fs - 1) (startpc_update (\<lambda>_. fs_pc fs)) fs))))))))"

definition localstat :: "(int \<Rightarrow> ('d, BinOpr \<times> expdesc) P) \<Rightarrow> ('d, unit) P" where
  "localstat ex =
     pbind (ploop (\<lambda>nvars.
         pbind str_checkname (\<lambda>vn.
         pseq (new_localvar vn nvars)
         (pbind (testnext (ch (CHR '',''))) (\<lambda>more. pret (if more then Inl (nvars + 1) else Inr (nvars + 1)))))) 0) (\<lambda>nvars.
     pbind (testnext (ch (CHR ''=''))) (\<lambda>eq.
     pbind (if eq then explist1 ex else pret (0, init_exp VVOID 0)) (\<lambda>(nexps, e).
     pseq (adjust_assign nvars nexps e) (adjustlocalvars nvars))))"

definition funcname :: "('d, bool \<times> expdesc) P" where
  "funcname =
     pbind singlevar (\<lambda>v.
     pbind (ploop (\<lambda>v. pbind tok (\<lambda>t.
         if t = ch (CHR ''.'') then pbind (field v) (\<lambda>v. pret (Inl v)) else pret (Inr v))) v) (\<lambda>v.
     pbind tok (\<lambda>t.
       if t = ch (CHR '':'') then pbind (field v) (\<lambda>v. pret (True, v)) else pret (False, v))))"

definition funcstat :: "('d, unit) P \<Rightarrow> int \<Rightarrow> ('d, unit) P" where
  "funcstat ck line =
     pseq luaX_next
     (pbind funcname (\<lambda>(needself, v).
     pbind (body ck needself line) (\<lambda>f.
     pseq (luaK_storevar v f) (luaK_fixline line))))"

definition exprstat :: "(int \<Rightarrow> ('d, BinOpr \<times> expdesc) P) \<Rightarrow> ('d, unit) P" where
  "exprstat ex =
     pbind (primaryexp ex) (\<lambda>v.
       if e_k v = VCALL then mod_instr (e_info v) (\<lambda>i. SETARG_C i 1)
       else pbind (pget ls_fuel) (\<lambda>n. pbind (assignment n ex [v] 1) (\<lambda>_. pret ())))"

definition retstat :: "(int \<Rightarrow> ('d, BinOpr \<times> expdesc) P) \<Rightarrow> ('d, unit) P" where
  "retstat ex =
     pseq luaX_next
     (pbind tok (\<lambda>t.
       if block_follow t \<or> t = ch (CHR '';'') then luaK_ret 0 0
       else
         pbind (explist1 ex) (\<lambda>(nret, e).
         pbind (fget nactvar) (\<lambda>na.
           if hasmultret (e_k e) then
             pseq (luaK_setmultret e)
             (pseq (pwhen (e_k e = VCALL \<and> nret = 1) (mod_instr (e_info e) (\<lambda>i. SET_OPCODE i (opnum OP_TAILCALL))))
               (luaK_ret na LUA_MULTRET))
           else if nret = 1 then pbind (luaK_exp2anyreg e) (\<lambda>e. luaK_ret (e_info e) nret)
           else pbind (luaK_exp2nextreg e) (\<lambda>_. luaK_ret na nret)))))"

text \<open>The result says whether the statement must be the last one.\<close>

definition statement :: "(int \<Rightarrow> ('d, BinOpr \<times> expdesc) P) \<Rightarrow> ('d, unit) P \<Rightarrow> ('d, bool) P" where
  "statement ex ck =
     pbind (pget linenumber) (\<lambda>line.
     pbind tok (\<lambda>t.
       if t = TK_IF then pseq (ifstat ex ck line) (pret False)
       else if t = TK_WHILE then pseq (whilestat ex ck line) (pret False)
       else if t = TK_DO then
         pseq luaX_next (pseq (block ck) (pseq (check_match TK_END TK_DO line) (pret False)))
       else if t = TK_FOR then pseq (forstat ex ck line) (pret False)
       else if t = TK_REPEAT then pseq (repeatstat ex ck line) (pret False)
       else if t = TK_FUNCTION then pseq (funcstat ck line) (pret False)
       else if t = TK_LOCAL then
         pseq luaX_next
         (pbind (testnext TK_FUNCTION) (\<lambda>f. pseq (if f then localfunc ck else localstat ex) (pret False)))
       else if t = TK_RETURN then pseq (retstat ex) (pret True)
       else if t = TK_BREAK then pseq luaX_next (pseq breakstat (pret True))
       else pseq (exprstat ex) (pret False)))"

definition chunk :: "(int \<Rightarrow> ('d, BinOpr \<times> expdesc) P) \<Rightarrow> ('d, unit) P \<Rightarrow> ('d, unit) P" where
  "chunk ex ck =
     pseq enterlevel
     (pseq (ploop (\<lambda>islast.
         pbind tok (\<lambda>t.
           if islast \<or> block_follow t then pret (Inr ())
           else
             pbind (statement ex ck) (\<lambda>islast.
             pbind (testnext (ch (CHR '';''))) (\<lambda>_.
             pseq (fmod (\<lambda>fs. fs\<lparr>fs_freereg := nactvar fs\<rparr>)) (pret (Inl islast)))))) False)
       leavelevel)"

subsection \<open>The compiler\<close>

primrec grammar :: "nat \<Rightarrow> (int \<Rightarrow> ('d, BinOpr \<times> expdesc) P) \<times> ('d, unit) P" where
  "grammar 0 = (\<lambda>limit. pfail OutOfFuel, pfail OutOfFuel)"
| "grammar (Suc n) =
     (let g = grammar n in (subexpr (fst g) (snd g), chunk (fst g) (snd g)))"

definition levels :: nat where "levels = 201"

definition compile :: "('d, Proto) P" where
  "compile =
     pseq open_func
     (pseq (fmod (\<lambda>fs. fs\<lparr>f_is_vararg := VARARG_ISVARARG\<rparr>))
     (pseq luaX_next
     (pseq (snd (grammar levels))
     (pseq (check TK_EOS) (pbind close_func (\<lambda>(fs, pt). pret pt))))))"

definition luaY_parser :: "(lua_Number \<Rightarrow> lua_Number \<Rightarrow> lua_Number) \<Rightarrow> nat \<Rightarrow> 'd parser" where
  "luaY_parser pw fuel calls z buff name =
     rbind (compile (luaX_setinput pw fuel calls z buff (cstr name))) (\<lambda>(pt, ls).
       Inr (pt, \<lparr>Z = ls_z ls, b = ls_buff ls, lname = name\<rparr>))"

end
