(* ===== verification/LuaCompRules.thy ===== *)
theory LuaCompRules
  imports LuaParser LuaTableMap
begin

section \<open>Reasoning about the compiler\<close>

text \<open>
  Triples for the monad of the compiler: from a state with \<open>P\<close> a step ends with a value and a state
  with \<open>Q\<close>, or with an error that \<open>E\<close> allows. With no error allowed a triple is total correctness,
  with all errors but \<open>OutOfFuel\<close> it says that the step ends, with all errors it is partial correctness.
  The table in which a function keeps its strings and constants never fails as long as it is small.
\<close>

subsection \<open>Triples\<close>

definition triple :: "(lua_error \<Rightarrow> bool) \<Rightarrow> ('d LexState \<Rightarrow> bool) \<Rightarrow> ('d, 'a) P \<Rightarrow> ('a \<Rightarrow> 'd LexState \<Rightarrow> bool) \<Rightarrow> bool" where
  "triple E P m Q \<longleftrightarrow> (\<forall>ls. P ls \<longrightarrow> (case m ls of Inl e \<Rightarrow> E e | Inr (x, ls') \<Rightarrow> Q x ls'))"

lemma tripleI: "(\<And>ls. P ls \<Longrightarrow> case m ls of Inl e \<Rightarrow> E e | Inr (x, ls') \<Rightarrow> Q x ls') \<Longrightarrow> triple E P m Q"
  by (simp add: triple_def)

lemma tripleD: "triple E P m Q \<Longrightarrow> P ls \<Longrightarrow> case m ls of Inl e \<Rightarrow> E e | Inr (x, ls') \<Rightarrow> Q x ls'"
  by (simp add: triple_def)

lemma triple_Inr: "triple E P m Q \<Longrightarrow> P ls \<Longrightarrow> m ls = Inr (x, ls') \<Longrightarrow> Q x ls'"
  using tripleD by fastforce

lemma triple_Inl: "triple E P m Q \<Longrightarrow> P ls \<Longrightarrow> m ls = Inl e \<Longrightarrow> E e"
  using tripleD by fastforce

lemma triple_total: "triple (\<lambda>_. False) P m Q \<Longrightarrow> P ls \<Longrightarrow> \<exists>x ls'. m ls = Inr (x, ls') \<and> Q x ls'"
  using tripleD [of "\<lambda>_. False" P m Q ls] by (auto split: sum.splits)

lemma triple_conseq: "triple E P' m Q' \<Longrightarrow> (\<And>ls. P ls \<Longrightarrow> P' ls) \<Longrightarrow> (\<And>x ls. Q' x ls \<Longrightarrow> Q x ls) \<Longrightarrow> triple E P m Q"
  unfolding triple_def by (fastforce split: sum.splits)

lemma triple_pre: "triple E P' m Q \<Longrightarrow> (\<And>ls. P ls \<Longrightarrow> P' ls) \<Longrightarrow> triple E P m Q"
  by (rule triple_conseq)

lemma triple_post: "triple E P m Q' \<Longrightarrow> (\<And>x ls. Q' x ls \<Longrightarrow> Q x ls) \<Longrightarrow> triple E P m Q"
  by (rule triple_conseq)

lemma triple_bind:
  assumes "triple E P m Q" "\<And>x. triple E (Q x) (f x) R"
  shows "triple E P (pbind m f) R"
proof (rule tripleI)
  fix ls assume P: "P ls"
  show "case pbind m f ls of Inl e \<Rightarrow> E e | Inr (x, ls') \<Rightarrow> R x ls'"
  proof (cases "m ls")
    case (Inl e)
    then show ?thesis using triple_Inl [OF assms(1) P] by (simp add: pbind_def)
  next
    case (Inr a)
    then obtain x ls' where "m ls = Inr (x, ls')" by (cases a) auto
    moreover from this have "Q x ls'" by (rule triple_Inr [OF assms(1) P])
    ultimately show ?thesis using tripleD [OF assms(2)] by (simp add: pbind_def)
  qed
qed

lemma triple_seq: "triple E P m (\<lambda>_. Q) \<Longrightarrow> triple E Q n R \<Longrightarrow> triple E P (pseq m n) R"
  unfolding pseq_def by (rule triple_bind)

lemma triple_ret: "(\<And>ls. P ls \<Longrightarrow> Q x ls) \<Longrightarrow> triple E P (pret x) Q"
  by (simp add: triple_def pret_def)

lemma triple_fail: "(\<And>ls. P ls \<Longrightarrow> E e) \<Longrightarrow> triple E P (pfail e) Q"
  by (auto simp: triple_def pfail_def)

lemma triple_get: "(\<And>ls. P ls \<Longrightarrow> Q (f ls) ls) \<Longrightarrow> triple E P (pget f) Q"
  by (simp add: triple_def pget_def)

lemma triple_mod: "(\<And>ls. P ls \<Longrightarrow> Q () (f ls)) \<Longrightarrow> triple E P (pmod f) Q"
  by (simp add: triple_def pmod_def)

lemma triple_lift:
  "(\<And>ls e. P ls \<Longrightarrow> r = Inl e \<Longrightarrow> E e) \<Longrightarrow> (\<And>ls x. P ls \<Longrightarrow> r = Inr x \<Longrightarrow> Q x ls) \<Longrightarrow> triple E P (plift r) Q"
  by (cases r) (auto simp: triple_def plift_def)

lemma triple_if: "(c \<Longrightarrow> triple E P m Q) \<Longrightarrow> (\<not> c \<Longrightarrow> triple E P n Q) \<Longrightarrow> triple E P (if c then m else n) Q"
  by simp

lemma triple_when: "(c \<Longrightarrow> triple E P m Q) \<Longrightarrow> (\<And>ls. \<not> c \<Longrightarrow> P ls \<Longrightarrow> Q () ls) \<Longrightarrow> triple E P (pwhen c m) Q"
  by (simp add: pwhen_def triple_ret)

lemma triple_False: "(\<And>ls. \<not> P ls) \<Longrightarrow> triple E P m Q"
  by (simp add: triple_def)

lemma triple_cases: "triple E (\<lambda>ls. P ls \<and> C ls) m Q \<Longrightarrow> triple E (\<lambda>ls. P ls \<and> \<not> C ls) m Q \<Longrightarrow> triple E P m Q"
  unfolding triple_def by blast

lemma triple_pure: "(A \<Longrightarrow> triple E P m Q) \<Longrightarrow> triple E (\<lambda>ls. A \<and> P ls) m Q"
  unfolding triple_def by blast

lemma triple_ex: "(\<And>x. triple E (P x) m Q) \<Longrightarrow> triple E (\<lambda>ls. \<exists>x. P x ls) m Q"
  unfolding triple_def by blast

text \<open>A loop keeps an invariant, and every round that goes on decreases a measure that the fuel bounds.\<close>

lemma triple_loop_n:
  assumes round: "\<And>s k. triple E (I s (Suc k)) (f s) (\<lambda>r ls. case r of Inl s' \<Rightarrow> I s' k ls | Inr x \<Rightarrow> Q x ls)"
    and zero: "\<And>s ls. \<not> I s 0 ls"
  shows "triple E (I s n) (ploop_n n f s) Q"
proof (induction n arbitrary: s)
  case 0
  then show ?case using zero by (simp add: triple_def)
next
  case (Suc n)
  have "triple E (\<lambda>ls. case r of Inl s' \<Rightarrow> I s' n ls | Inr x \<Rightarrow> Q x ls)
      (case r of Inl s' \<Rightarrow> ploop_n n f s' | Inr x \<Rightarrow> pret x) Q" for r
    using Suc by (cases r) (auto intro: triple_ret)
  then show ?case unfolding ploop_n.simps by (rule triple_bind [OF round])
qed

lemma triple_loop:
  assumes round: "\<And>s k. triple E (\<lambda>ls. I s k ls \<and> k < n)
      (f s) (\<lambda>r ls. case r of Inl s' \<Rightarrow> 0 < k \<and> I s' (k - 1) ls | Inr x \<Rightarrow> Q x ls)"
    and fuel: "\<And>ls. P ls \<Longrightarrow> ls_fuel ls = n \<and> (\<exists>k < n. I s k ls)"
  shows "triple E P (ploop f s) Q"
proof -
  define J where "J s m = (\<lambda>ls. \<exists>k < m. m \<le> n \<and> I s k ls)" for s m
  have "triple E (J s (Suc m)) (f s) (\<lambda>r ls. case r of Inl s' \<Rightarrow> J s' m ls | Inr x \<Rightarrow> Q x ls)" for s m
    unfolding J_def
  proof (rule triple_ex)
    fix k
    show "triple E (\<lambda>ls. k < Suc m \<and> Suc m \<le> n \<and> I s k ls) (f s)
        (\<lambda>r ls. case r of Inl s' \<Rightarrow> \<exists>k < m. m \<le> n \<and> I s' k ls | Inr x \<Rightarrow> Q x ls)"
      by (rule triple_pure, rule triple_pure, rule triple_conseq [OF round])
        (auto split: sum.splits intro!: exI [of _ "k - 1"])
  qed
  then have n: "triple E (J s n) (ploop_n n f s) Q" by (rule triple_loop_n) (simp add: J_def)
  show ?thesis unfolding ploop_def
  proof (rule triple_bind [where Q = "\<lambda>m ls. m = n \<and> J s n ls"])
    show "triple E P (pget ls_fuel) (\<lambda>m ls. m = n \<and> J s n ls)"
      by (rule triple_get) (use fuel in \<open>auto simp: J_def\<close>)
    show "triple E (\<lambda>ls. x = n \<and> J s n ls) (ploop_n x f s) Q" for x
      by (rule triple_pure) (use n in simp)
  qed
qed

text \<open>With all errors allowed a loop only has to keep its invariant.\<close>

lemma triple_loop_partial:
  assumes "\<And>s. triple (\<lambda>_. True) (I s) (f s) (\<lambda>r ls. case r of Inl s' \<Rightarrow> I s' ls | Inr x \<Rightarrow> Q x ls)"
  shows "triple (\<lambda>_. True) (I s) (ploop f s) Q"
proof -
  have "triple (\<lambda>_. True) (I s) (ploop_n n f s) Q" for n s
  proof (induction n arbitrary: s)
    case (Suc n)
    have "triple (\<lambda>_. True) (\<lambda>ls. case r of Inl s' \<Rightarrow> I s' ls | Inr x \<Rightarrow> Q x ls)
        (case r of Inl s' \<Rightarrow> ploop_n n f s' | Inr x \<Rightarrow> pret x) Q" for r
      using Suc by (cases r) (auto intro: triple_ret)
    then show ?case unfolding ploop_n.simps by (rule triple_bind [OF assms])
  qed (simp add: triple_fail)
  note n = this
  show ?thesis unfolding ploop_def
    by (rule triple_bind [where Q = "\<lambda>_. I s"]) (rule triple_get, simp, rule n)
qed

subsection \<open>The table of a function\<close>

lemma entries_norm_inj:
  assumes "table_inv t"
  shows "length (entries t) = card (norm_key ` {k. amap t k \<noteq> Nil})"
proof -
  have "norm_key ` {k. amap t k \<noteq> Nil} = set (map (norm_key \<circ> fst) (entries t))"
    using entries_amap [OF assms] amap_entries [OF assms] by force
  then show ?thesis using distinct_card [OF entries_distinct [OF assms]] by (metis length_map)
qed

lemma entry_count_entries:
  assumes "table_ok t" shows "entry_count t = length (entries t)"
proof -
  have inv: "table_inv t" "length (t_array t) = sizearray t" "sizenode t = length (t_node t)"
    using assms by (auto simp: table_ok_def table_inv_def nodes_ok_def sizenode_def table_inv_nodes)
  have a: "array_keys t = (\<lambda>i. i + 1) ` set (filter (\<lambda>i. t_array t ! i \<noteq> Nil) [0..<sizearray t])"
  proof (intro set_eqI iffI)
    fix k assume "k \<in> array_keys t"
    then have "k = (k - 1) + 1" "k - 1 \<in> set (filter (\<lambda>i. t_array t ! i \<noteq> Nil) [0..<sizearray t])"
      by (auto simp: array_keys_def)
    then show "k \<in> (\<lambda>i. i + 1) ` set (filter (\<lambda>i. t_array t ! i \<noteq> Nil) [0..<sizearray t])" by blast
  qed (auto simp: array_keys_def)
  have "card (array_keys t) = length (filter (\<lambda>i. t_array t ! i \<noteq> Nil) [0..<sizearray t])"
    unfolding a by (subst card_image) (auto simp: inj_on_def distinct_card simp del: set_filter)
  moreover have "length (used_nodes (t_node t)) = length (filter (\<lambda>i. i_val (t_node t ! i) \<noteq> Nil) [0..<length (t_node t)])"
    unfolding used_nodes_def by (subst map_nth [symmetric]) (simp only: filter_map length_map comp_def)
  ultimately show ?thesis using inv
    by (simp add: entry_count_def entries_def entries_from_def array_entries_def node_entries_def)
qed

lemma entry_count_amap:
  assumes "table_ok t" shows "entry_count t = card (norm_key ` {k. amap t k \<noteq> Nil})"
    and "finite (norm_key ` {k. amap t k \<noteq> Nil})"
proof -
  have inv: "table_inv t" using assms by (simp add: table_ok_def)
  show "entry_count t = card (norm_key ` {k. amap t k \<noteq> Nil})"
    by (simp add: entry_count_entries [OF assms] entries_norm_inj [OF inv])
  have "norm_key ` {k. amap t k \<noteq> Nil} = set (map (norm_key \<circ> fst) (entries t))"
    using entries_amap [OF inv] amap_entries [OF inv] by force
  then show "finite (norm_key ` {k. amap t k \<noteq> Nil})" by (metis List.finite_set)
qed

lemma entry_count_update:
  assumes "table_ok t" "table_ok t'" "\<And>k. norm_key k \<noteq> norm_key key \<Longrightarrow> amap t' k = amap t k"
  shows "entry_count t' \<le> entry_count t + 1"
proof -
  have "norm_key ` {k. amap t' k \<noteq> Nil} \<subseteq> insert (norm_key key) (norm_key ` {k. amap t k \<noteq> Nil})"
    using assms(3) by force
  then have "card (norm_key ` {k. amap t' k \<noteq> Nil}) \<le> card (insert (norm_key key) (norm_key ` {k. amap t k \<noteq> Nil}))"
    using entry_count_amap(2) [OF assms(1)] by (intro card_mono) auto
  then show ?thesis using entry_count_amap [OF assms(1)] entry_count_amap(1) [OF assms(2)]
    by (simp add: card_insert_if split: if_splits)
qed

lemma entry_count_same_map: "table_ok t \<Longrightarrow> table_ok t' \<Longrightarrow> amap t' = amap t \<Longrightarrow> entry_count t' = entry_count t"
  by (simp add: entry_count_amap(1))

lemma luaH_setstr_ok:
  assumes "table_ok h" "entry_count h < 2 ^ 26"
  shows "\<exists>p h'. luaH_setstr h s = Inr (p, h') \<and> set_result h (String s) p h'"
proof -
  have inv: "table_inv h" using assms(1) by (simp add: table_ok_def)
  have k: "key_ok (String s)" by (simp add: key_ok_def is_nan_def)
  show ?thesis
  proof (cases "slot_of h (String s) = NilObject")
    case True
    then obtain p h' where "newkey (regrow (Suc 0)) h (String s) = Inr (p, h')" "set_result h (String s) p h'"
      using newkey_regrow [OF assms(1) k True assms(2)] by blast
    then show ?thesis using True by (simp add: luaH_setstr_def setstr_with_def luaH_getstr_ok [OF inv])
  next
    case False
    then show ?thesis using assms(1)
      by (simp add: luaH_setstr_def setstr_with_def luaH_getstr_ok [OF inv] set_result_def)
  qed
qed

lemma set_result_put:
  assumes r: "set_result h key p h'" and h: "table_ok h"
  shows "table_ok (set_slot h' p v) \<and> (\<forall>k. amap (set_slot h' p v) k = (if norm_key k = norm_key key then v else amap h k)) \<and>
    entry_count (set_slot h' p v) \<le> entry_count h + 1 \<and> slot_val h' p = amap h key \<and>
    table_ok h' \<and> amap h' = amap h \<and> entry_count h' = entry_count h"
proof -
  have i: "table_inv h'" "slot_of h' key \<noteq> NilObject" "p = slot_of h' key" "amap h' = amap h" "table_ok h'"
    using r by (auto simp: set_result_def table_ok_def)
  note w = set_slot_ok [OF i(1,2), of v]
  have ok: "table_ok (set_slot h' p v)" using w(1) r i(3) by (simp add: table_ok_def set_result_def)
  moreover have m: "amap (set_slot h' p v) k = (if norm_key k = norm_key key then v else amap h k)" for k
    using w(2) i(4) unfolding i(3) by simp
  moreover have "entry_count (set_slot h' p v) \<le> entry_count h + 1"
    by (rule entry_count_update [OF h ok, of key]) (simp add: m)
  moreover have "slot_val h' p = amap h key" using i(3,4) by (simp add: amap_def [of h', symmetric])
  ultimately show ?thesis using entry_count_same_map [OF h i(5,4)] i by simp
qed


definition good_table :: "nat \<Rightarrow> FuncState \<Rightarrow> bool" where
  "good_table n fs \<longleftrightarrow> table_ok (fs_h fs) \<and> entry_count (fs_h fs) \<le> n"

lemma luaX_newstring_ok:
  assumes "ls_fs ls = fs # r" "good_table n fs" "n < 2 ^ 26"
  shows "\<exists>h. luaX_newstring s ls = Inr (s, ls\<lparr>ls_fs := fs\<lparr>fs_h := h\<rparr> # r\<rparr>) \<and> good_table (n + 1) (fs\<lparr>fs_h := h\<rparr>) \<and>
    (\<forall>k. amap h k = (if norm_key k = String s \<and> amap (fs_h fs) (String s) = Nil then Boolean True else amap (fs_h fs) k))"
proof -
  have ok: "table_ok (fs_h fs)" "entry_count (fs_h fs) < 2 ^ 26" using assms by (simp_all add: good_table_def)
  obtain p h' where s: "luaH_setstr (fs_h fs) s = Inr (p, h')" "set_result (fs_h fs) (String s) p h'"
    using luaH_setstr_ok [OF ok] by blast
  note r = set_result_put [OF s(2) ok(1), of "Boolean True"]
  let ?h = "if slot_val h' p = Nil then set_slot h' p (Boolean True) else h'"
  have "luaX_newstring s ls = Inr (s, ls\<lparr>ls_fs := fs\<lparr>fs_h := ?h\<rparr> # r\<rparr>)"
    by (simp add: luaX_newstring_def pbind_def pseq_def fget_def fmod_def plift_def pret_def assms(1) s(1))
  moreover have "good_table (n + 1) (fs\<lparr>fs_h := ?h\<rparr>)" using r assms(2) by (auto simp: good_table_def)
  moreover have "norm_key (String s) = String s" by (simp add: norm_key_def)
  ultimately show ?thesis using r by (intro exI [of _ ?h]) auto
qed

end
