(* ===== verification/LuaLexFacts.thy ===== *)
theory LuaLexFacts
  imports LuaCompRules LuaStrlib
begin

section \<open>The scanner: what it reads and that it ends\<close>

text \<open>
  The scanner over any reader that keeps the contract of \<open>byte_reader\<close>. A state is seen as the characters
  that are left, the characters saved and the line. Two results: a string that \<^verbatim>\<open>string.format\<close>
  wrote with \<^verbatim>\<open>%q\<close> is scanned as that string again, and every source of a bounded length is a
  finite sequence of tokens that ends with the token for the end or with an error.
\<close>

subsection \<open>States of the scanner\<close>

text \<open>What the reading of characters leaves alone.\<close>

definition others :: "'d LexState \<Rightarrow> FuncState list \<times> nat \<times> Token \<times> Token \<times> int" where
  "others ls = (ls_fs ls, ls_fuel ls, ls_t ls, lookahead ls, lastline ls)"

definition buffer_ok :: "Mbuffer \<Rightarrow> bool" where
  "buffer_ok buf \<longleftrightarrow> length (buffer buf) = buffsize buf \<and> bufflen buf \<le> buffsize buf \<and> 0 < buffsize buf"

text \<open>Where every error but running out of fuel is allowed.\<close>

definition soft :: "(lua_error \<Rightarrow> bool) \<Rightarrow> bool" where
  "soft E \<longleftrightarrow> (\<forall>e. e \<noteq> OutOfFuel \<longrightarrow> E e)"

lemma softD: "soft E \<Longrightarrow> e \<noteq> OutOfFuel \<Longrightarrow> E e"
  by (simp add: soft_def)

lemma soft_syntax: "soft E \<Longrightarrow> E (ErrSyntax m)"
  by (simp add: soft_def)

lemma rbind_error: "m \<noteq> Inl OutOfFuel \<Longrightarrow> (\<And>x. f x \<noteq> Inl OutOfFuel) \<Longrightarrow> rbind m f \<noteq> Inl OutOfFuel"
  by (simp add: rbind_eq_Inl)

lemma if_error: "m \<noteq> Inl OutOfFuel \<Longrightarrow> n \<noteq> Inl OutOfFuel \<Longrightarrow> (if c then m else n) \<noteq> Inl OutOfFuel"
  by simp

lemma strcpy_error: "strcpy c s \<noteq> Inl OutOfFuel" and strcat_error: "strcat c d s \<noteq> Inl OutOfFuel"
  by (simp_all add: strcpy_def strcat_def)

lemma chunkid_error: "luaO_chunkid s n \<noteq> Inl OutOfFuel"
  unfolding luaO_chunkid_def Let_def
  by (intro if_error rbind_error strcpy_error strcat_error) simp_all

lemma fmt_piece_error: "fmt_piece c args \<noteq> Inl OutOfFuel"
  by (auto simp: fmt_piece_def split: list.splits fmt_arg.splits)

lemma pushvfstring_error: "luaO_pushvfstring f args \<noteq> Inl OutOfFuel"
proof (induction f args rule: luaO_pushvfstring.induct)
  case (1 fmt args)
  then show ?case using fmt_piece_error
    by (subst luaO_pushvfstring.simps) (auto simp: Let_def rbind_eq_Inl split: prod.splits)
qed

lemma triple_soft_lift:
  "soft E \<Longrightarrow> r \<noteq> Inl OutOfFuel \<Longrightarrow> (\<And>ls x. P ls \<Longrightarrow> r = Inr x \<Longrightarrow> Q x ls) \<Longrightarrow> triple E P (plift r) Q"
  by (rule triple_lift) (auto dest: softD)

lemma soft_message: "soft E \<Longrightarrow> triple E P (lex_message msg) (\<lambda>_. P)"
  unfolding lex_message_def
  by (rule triple_bind [where Q = "\<lambda>_. P"], rule triple_get, assumption,
      rule triple_bind [where Q = "\<lambda>_. P"], rule triple_soft_lift [OF _ chunkid_error], assumption, assumption,
      rule triple_bind [where Q = "\<lambda>_. P"], rule triple_get, assumption,
      rule triple_soft_lift [OF _ pushvfstring_error])

text \<open>The lines that a quoted character takes.\<close>

definition lines_of :: "string \<Rightarrow> int" where
  "lines_of s = int (length (filter (\<lambda>c. c = CHR 0x0A) s))"

lemma lines_of_simps [simp]: "lines_of [] = 0" "lines_of (c # s) = (if c = CHR 0x0A then 1 else 0) + lines_of s"
  by (simp_all add: lines_of_def)

lemma lines_of_nonneg: "0 \<le> lines_of s"
  by (simp add: lines_of_def)

context byte_reader
begin

definition at :: "string \<Rightarrow> string \<Rightarrow> int \<Rightarrow> FuncState list \<times> nat \<times> Token \<times> Token \<times> int \<Rightarrow> 'd LexState \<Rightarrow> bool" where
  "at inp sv n R ls \<longleftrightarrow>
     (case inp of [] \<Rightarrow> current ls = EOZ
      | c # r \<Rightarrow> current ls = char2int c \<and> zinv (ls_z ls) \<and> zcontent (ls_z ls) = r) \<and>
     buffer_ok (ls_buff ls) \<and> sv = take (bufflen (ls_buff ls)) (buffer (ls_buff ls)) \<and>
     linenumber ls = n \<and> others ls = R"

lemma at_next: "triple E (at (c # r) sv n R) next_char (\<lambda>_. at r sv n R)"
proof (rule tripleI)
  fix ls assume a: "at (c # r) sv n R ls"
  obtain x z where z: "zgetc (ls_z ls) = (x, z)" by (cases "zgetc (ls_z ls)")
  have "zinv (ls_z ls)" "zcontent (ls_z ls) = r" using a by (simp_all add: at_def)
  note g = zgetc_ok [OF this(1) z]
  then show "case next_char ls of Inl e \<Rightarrow> E e | Inr (u, ls') \<Rightarrow> at r sv n R ls'"
    using a z \<open>zcontent (ls_z ls) = r\<close>
    by (cases r) (auto simp: next_char_def pmod_def at_def others_def)
qed

lemma save_buffer:
  assumes "buffer_ok buf" "bufflen buf < buffsize buf"
  shows "buffer_ok (buf\<lparr>buffer := (buffer buf)[bufflen buf := x], bufflen := bufflen buf + 1\<rparr>) \<and>
    take (bufflen buf + 1) ((buffer buf)[bufflen buf := x]) = take (bufflen buf) (buffer buf) @ [x]"
  using assms by (auto simp: buffer_ok_def take_Suc_conv_app_nth)

lemma resize_buffer:
  assumes "buffer_ok buf"
  shows "buffer_ok (luaZ_resizebuffer buf (buffsize buf * 2)) \<and> bufflen buf < buffsize (luaZ_resizebuffer buf (buffsize buf * 2)) \<and>
    take (bufflen buf) (buffer (luaZ_resizebuffer buf (buffsize buf * 2))) = take (bufflen buf) (buffer buf) \<and>
    bufflen (luaZ_resizebuffer buf (buffsize buf * 2)) = bufflen buf"
  using assms by (auto simp: buffer_ok_def luaZ_resizebuffer_def)

lemma at_buff:
  assumes "at inp sv n R ls" "buffer_ok (f (ls_buff ls))" "sv' = take (bufflen (f (ls_buff ls))) (buffer (f (ls_buff ls)))"
  shows "at inp sv' n R (ls_buff_update f ls)"
  using assms by (cases inp) (simp_all add: at_def others_def)

lemma at_buffD: "at inp sv n R ls \<Longrightarrow> buffer_ok (ls_buff ls) \<and> sv = take (bufflen (ls_buff ls)) (buffer (ls_buff ls))"
  by (simp add: at_def)

lemma at_resize:
  assumes "at inp sv n R ls"
  shows "at inp sv n R (ls_buff_update (\<lambda>buf. luaZ_resizebuffer buf (buffsize buf * 2)) ls) \<and>
    bufflen (luaZ_resizebuffer (ls_buff ls) (buffsize (ls_buff ls) * 2)) <
    buffsize (luaZ_resizebuffer (ls_buff ls) (buffsize (ls_buff ls) * 2))"
proof -
  note r = resize_buffer [OF conjunct1 [OF at_buffD [OF assms]]]
  have "at inp sv n R (ls_buff_update (\<lambda>buf. luaZ_resizebuffer buf (buffsize buf * 2)) ls)"
    by (rule at_buff [OF assms]) (use r at_buffD [OF assms] in simp_all)
  then show ?thesis using r by simp
qed

lemma at_put:
  assumes "at inp sv n R ls" "bufflen (ls_buff ls) < buffsize (ls_buff ls)"
  shows "at inp (sv @ [x]) n R
    (ls_buff_update (\<lambda>buf. buf\<lparr>buffer := (buffer buf)[bufflen buf := x], bufflen := bufflen buf + 1\<rparr>) ls)"
proof -
  note r = save_buffer [OF conjunct1 [OF at_buffD [OF assms(1)]] assms(2)]
  show ?thesis by (rule at_buff [OF assms(1)]) (use r at_buffD [OF assms(1)] in simp_all)
qed

lemma at_save:
  assumes "soft E \<or> length sv < 2 ^ 62"
  shows "triple E (at inp sv n R) (save x) (\<lambda>_. at inp (sv @ [char_of x]) n R)"
  unfolding save_def
proof (rule triple_bind)
  show "triple E (at inp sv n R) (pget ls_buff) (\<lambda>buf ls. at inp sv n R ls \<and> buf = ls_buff ls)"
    by (rule triple_get) simp
  fix buf :: Mbuffer
  let ?room = "\<lambda>ls. at inp sv n R ls \<and> bufflen (ls_buff ls) < buffsize (ls_buff ls)"
  let ?grow = "if bufflen buf + 1 > buffsize buf then
             if buffsize buf \<ge> MAX_SIZET div 2
             then pbind (lex_message ''lexical element too long'') (\<lambda>m. pfail (ErrSyntax m))
             else pmod (ls_buff_update (\<lambda>buf. luaZ_resizebuffer buf (buffsize buf * 2)))
           else pret ()"
  have "triple E (\<lambda>ls. at inp sv n R ls \<and> buf = ls_buff ls) ?grow (\<lambda>_. ?room)"
  proof (intro triple_if)
    assume full: "bufflen buf + 1 > buffsize buf" "buffsize buf \<ge> MAX_SIZET div 2"
    show "triple E (\<lambda>ls. at inp sv n R ls \<and> buf = ls_buff ls)
        (pbind (lex_message ''lexical element too long'') (\<lambda>m. pfail (ErrSyntax m))) (\<lambda>_. ?room)"
    proof (cases "soft E")
      case True
      then show ?thesis by (intro triple_bind [OF soft_message] triple_fail) (simp_all add: soft_syntax)
    next
      case False
      then have "length sv < 2 ^ 62" using assms by simp
      moreover have "(2::nat) ^ 62 \<le> MAX_SIZET div 2" by (simp add: MAX_SIZET_def)
      ultimately show ?thesis using full by (intro triple_False) (auto simp: buffer_ok_def dest!: at_buffD)
    qed
  next
    show "triple E (\<lambda>ls. at inp sv n R ls \<and> buf = ls_buff ls)
        (pmod (ls_buff_update (\<lambda>buf. luaZ_resizebuffer buf (buffsize buf * 2)))) (\<lambda>_. ?room)"
      by (rule triple_mod) (use at_resize [of inp sv n R] in simp)
  next
    assume "\<not> bufflen buf + 1 > buffsize buf"
    then show "triple E (\<lambda>ls. at inp sv n R ls \<and> buf = ls_buff ls) (pret ()) (\<lambda>_. ?room)"
      by (intro triple_ret) auto
  qed
  moreover have "triple E ?room
      (pmod (ls_buff_update (\<lambda>buf. buf\<lparr>buffer := (buffer buf)[bufflen buf := char_of x], bufflen := bufflen buf + 1\<rparr>)))
      (\<lambda>_. at inp (sv @ [char_of x]) n R)"
    by (rule triple_mod) (use at_put in simp)
  ultimately show "triple E (\<lambda>ls. at inp sv n R ls \<and> buf = ls_buff ls) (pseq ?grow
      (pmod (ls_buff_update (\<lambda>buf. buf\<lparr>buffer := (buffer buf)[bufflen buf := char_of x], bufflen := bufflen buf + 1\<rparr>))))
      (\<lambda>_. at inp (sv @ [char_of x]) n R)" by (rule triple_seq)
qed

lemma at_current:
  "triple E (at inp sv n R) (pget current)
     (\<lambda>x ls. (x = (case inp of [] \<Rightarrow> EOZ | c # _ \<Rightarrow> char2int c)) \<and> at inp sv n R ls)"
  by (rule triple_get) (auto simp: at_def split: list.splits)

lemma char_of_char2int [simp]: "char_of (char2int c) = c"
  by (simp add: char2int_def)

lemma at_save_and_next:
  assumes "soft E \<or> length sv < 2 ^ 62"
  shows "triple E (at (c # r) sv n R) save_and_next (\<lambda>_. at r (sv @ [c]) n R)"
proof -
  have "triple E (at (c # r) sv n R) (save (char2int c)) (\<lambda>_. at (c # r) (sv @ [c]) n R)"
    using at_save [OF assms, of "c # r" n R "char2int c"] by simp
  then show ?thesis unfolding save_and_next_def
    by (intro triple_bind [OF at_current] triple_pure) (auto intro: triple_seq at_next)
qed

lemma cclass_char [simp]: "cclass P (char2int c) = P c"
  by (simp add: cclass_def char2int_def)

lemma char2int_eq [simp]: "char2int c = char2int d \<longleftrightarrow> c = d"
  by (simp add: char2int_def)

lemma current_is: "at (c # r) sv n R ls \<Longrightarrow> current ls = char2int c"
  by (simp add: at_def)

lemma at_current_Cons:
  "(triple E (at (c # r) sv n R) (f (char2int c)) Q) \<Longrightarrow> triple E (at (c # r) sv n R) (pbind (pget current) f) Q"
  unfolding triple_def pbind_def pget_def by (simp add: current_is)

lemma at_current_Nil:
  "(triple E (at [] sv n R) (f EOZ) Q) \<Longrightarrow> triple E (at [] sv n R) (pbind (pget current) f) Q"
  unfolding triple_def pbind_def pget_def by (simp add: at_def)

lemma is_newline_char [simp]: "is_newline (char2int c) \<longleftrightarrow> c = CHR 0x0A \<or> c = CHR 0x0D"
  unfolding is_newline_def char2int_eq ..

lemma is_newline_EOZ [simp]: "\<not> is_newline EOZ"
  by (simp add: is_newline_def)

lemma at_newline:
  assumes "n + 1 < int MAX_INT" "r \<noteq> [] \<Longrightarrow> hd r \<noteq> CHR 0x0A \<and> hd r \<noteq> CHR 0x0D"
  shows "triple E (at (c # r) sv n R) inclinenumber (\<lambda>_. at r sv (n + 1) R)"
proof -
  have "triple E (at r sv n R) (pbind (pget current) (\<lambda>x.
      pseq (pwhen (is_newline x \<and> x \<noteq> char2int c) next_char)
     (pseq (pmod (linenumber_update (\<lambda>n. n + 1)))
     (pbind (pget linenumber) (\<lambda>n.
       if n \<ge> int MAX_INT then luaX_syntaxerror ''chunk has too many lines'' else pret ()))))) (\<lambda>_. at r sv (n + 1) R)"
  proof (rule triple_bind [OF at_current], rule triple_pure)
    fix x assume "x = (case r of [] \<Rightarrow> EOZ | c # _ \<Rightarrow> char2int c)"
    then have x: "\<not> is_newline x" using assms(2) by (cases r) auto
    have "triple E (at r sv n R) (pmod (linenumber_update (\<lambda>n. n + 1))) (\<lambda>_. at r sv (n + 1) R)"
      by (rule triple_mod) (cases r; simp add: at_def others_def)
    moreover have "triple E (at r sv (n + 1) R) (pbind (pget linenumber) (\<lambda>n.
       if n \<ge> int MAX_INT then luaX_syntaxerror ''chunk has too many lines'' else pret ())) (\<lambda>_. at r sv (n + 1) R)"
      by (rule triple_bind [where Q = "\<lambda>m ls. m = n + 1 \<and> at r sv (n + 1) R ls"])
        (rule triple_get, simp add: at_def, rule triple_pure, use assms(1) in \<open>simp add: triple_ret\<close>)
    ultimately show "triple E (at r sv n R) (pseq (pwhen (is_newline x \<and> x \<noteq> char2int c) next_char)
     (pseq (pmod (linenumber_update (\<lambda>n. n + 1)))
     (pbind (pget linenumber) (\<lambda>n.
       if n \<ge> int MAX_INT then luaX_syntaxerror ''chunk has too many lines'' else pret ())))) (\<lambda>_. at r sv (n + 1) R)"
      using x by (intro triple_seq [OF triple_when] triple_seq) auto
  qed
  then show ?thesis unfolding inclinenumber_def by (intro at_current_Cons triple_seq [OF at_next])
qed

subsection \<open>Quoted strings\<close>

lemma escape_letter: "map_of (map (\<lambda>(x, y). (ch x, y)) escapes) (char2int c) = map_of escapes c"
  unfolding escapes_def by simp

lemma round_plain:
  assumes "soft E \<or> length sv < 2 ^ 62" "c \<noteq> CHR 0x22" "c \<noteq> CHR 0x5C" "c \<noteq> CHR 0x0A" "c \<noteq> CHR 0x0D"
  shows "triple E (at (c # r) sv n R) (string_round (ch (CHR 0x22)) u) (\<lambda>res ls. res = Inl () \<and> at r (sv @ [c]) n R ls)"
  unfolding string_round_def
  by (rule at_current_Cons) (use assms in \<open>auto intro!: triple_seq [OF at_save_and_next] triple_ret\<close>)

lemma round_escape:
  assumes "triple E (at (CHR 0x5C # d # r) sv n R) read_escape (\<lambda>_. at r' sv' n' R)"
  shows "triple E (at (CHR 0x5C # d # r) sv n R) (string_round (ch (CHR 0x22)) u) (\<lambda>res ls. res = Inl () \<and> at r' sv' n' R ls)"
  unfolding string_round_def
  by (rule at_current_Cons) (use assms in \<open>auto intro!: triple_seq triple_ret\<close>)

lemma escape_itself:
  assumes "soft E \<or> length sv < 2 ^ 62" "map_of escapes c = None" "c \<noteq> CHR 0x0A" "c \<noteq> CHR 0x0D" "\<not> isdigit c"
  shows "triple E (at (CHR 0x5C # c # r) sv n R) read_escape (\<lambda>_. at r (sv @ [c]) n R)"
  unfolding read_escape_def
  by (rule triple_seq [OF at_next], rule at_current_Cons)
    (simp add: escape_letter assms(2-5) at_save_and_next [OF assms(1)])

lemma escape_newline:
  assumes "soft E \<or> length sv < 2 ^ 62" "n + 1 < int MAX_INT" "r \<noteq> [] \<Longrightarrow> hd r \<noteq> CHR 0x0A \<and> hd r \<noteq> CHR 0x0D"
  shows "triple E (at (CHR 0x5C # CHR 0x0A # r) sv n R) read_escape (\<lambda>_. at r (sv @ [CHR 0x0A]) (n + 1) R)"
  unfolding read_escape_def
proof (rule triple_seq [OF at_next], rule at_current_Cons)
  have "map_of escapes (CHR 0x0A) = None" by (simp add: escapes_def)
  moreover have "triple E (at (CHR 0x0A # r) sv n R) (pseq (save (ch (CHR 0x0A))) inclinenumber) (\<lambda>_. at r (sv @ [CHR 0x0A]) (n + 1) R)"
    by (rule triple_seq [OF at_save [OF assms(1)]]) (use at_newline [OF assms(2,3)] in simp)
  ultimately show "triple E (at (CHR 0x0A # r) sv n R)
    (case map_of (map (\<lambda>(x, y). (ch x, y)) escapes) (char2int (CHR 0x0A)) of
         Some y \<Rightarrow> pseq (save (ch y)) next_char
       | None \<Rightarrow>
           if is_newline (char2int (CHR 0x0A)) then pseq (save (ch (CHR 0x0A))) inclinenumber
           else if char2int (CHR 0x0A) = EOZ then pret ()
           else if \<not> cclass isdigit (char2int (CHR 0x0A)) then save_and_next
           else
             pbind (decimal_escape 3 0) (\<lambda>v.
               if v > UCHAR_MAX then luaX_lexerror ''escape sequence too large'' TK_STRING
               else save v)) (\<lambda>_. at r (sv @ [CHR 0x0A]) (n + 1) R)" by (simp add: escape_letter)
qed

lemma escape_return:
  assumes "soft E \<or> length sv < 2 ^ 62"
  shows "triple E (at (CHR 0x5C # CHR ''r'' # r) sv n R) read_escape (\<lambda>_. at r (sv @ [CHR 0x0D]) n R)"
  unfolding read_escape_def
  by (rule triple_seq [OF at_next], rule at_current_Cons)
    (use at_save [OF assms, of "CHR ''r'' # r" n R "ch (CHR 0x0D)"] in
     \<open>auto simp: escape_letter escapes_def intro!: triple_seq [OF _ at_next]\<close>)

lemma char_of_0: "char_of (0::int) = NUL"
  by (simp add: char_of_def)

lemma decimal_zeros:
  "triple E (at (replicate k (CHR ''0'') @ r) sv n R) (decimal_escape k 0) (\<lambda>v ls. v = 0 \<and> at r sv n R ls)"
proof (induction k)
  case 0
  then show ?case by (simp add: triple_ret)
next
  case (Suc k)
  have "isdigit (CHR ''0'')" by (simp add: isdigit_def uchar_def)
  then show ?case using Suc by (simp add: at_current_Cons triple_seq [OF at_next])
qed

lemma escape_nul:
  assumes "soft E \<or> length sv < 2 ^ 62"
  shows "triple E (at (CHR 0x5C # ''000'' @ r) sv n R) read_escape (\<lambda>_. at r (sv @ [NUL]) n R)"
proof -
  have d: "triple E (at (CHR ''0'' # ''00'' @ r) sv n R) (pbind (decimal_escape 3 0) (\<lambda>v.
      if v > UCHAR_MAX then luaX_lexerror ''escape sequence too large'' TK_STRING else save v)) (\<lambda>_. at r (sv @ [NUL]) n R)"
  proof (rule triple_bind)
    show "triple E (at (CHR ''0'' # ''00'' @ r) sv n R) (decimal_escape 3 0) (\<lambda>v ls. v = 0 \<and> at r sv n R ls)"
      using decimal_zeros [of E 3 r sv n R] by (simp add: numeral_3_eq_3)
    show "triple E (\<lambda>ls. v = 0 \<and> at r sv n R ls) (if v > UCHAR_MAX then luaX_lexerror ''escape sequence too large'' TK_STRING else save v)
        (\<lambda>_. at r (sv @ [NUL]) n R)" for v
      by (rule triple_pure) (use at_save [OF assms, of r n R 0] in \<open>simp add: UCHAR_MAX_def char_of_0\<close>)
  qed
  show ?thesis unfolding read_escape_def append.simps
    by (rule triple_seq [OF at_next], rule at_current_Cons)
      (use d in \<open>simp add: escape_letter escapes_def isdigit_def uchar_def\<close>)
qed

lemma round_quoted:
  assumes "soft E \<or> length sv < 2 ^ 62" "n + 1 < int MAX_INT" "r \<noteq> [] \<Longrightarrow> hd r \<noteq> CHR 0x0A \<and> hd r \<noteq> CHR 0x0D"
  shows "triple E (at (quoted_char c @ r) sv n R) (string_round (ch (CHR 0x22)) u)
    (\<lambda>res ls. res = Inl () \<and> at r (sv @ [c]) (n + lines_of [c]) R ls)"
proof -
  consider (esc) "c = CHR 0x22 \<or> c = CHR 0x5C" | (nl) "c = CHR 0x0A" | (cr) "c = CHR 0x0D" | (nul) "c = NUL"
    | (plain) "c \<noteq> CHR 0x22" "c \<noteq> CHR 0x5C" "c \<noteq> CHR 0x0A" "c \<noteq> CHR 0x0D" "c \<noteq> NUL" by blast
  then show ?thesis
  proof cases
    case esc
    then have "map_of escapes c = None" "c \<noteq> CHR 0x0A" "c \<noteq> CHR 0x0D" "\<not> isdigit c"
      by (auto simp: escapes_def isdigit_def uchar_def)
    then show ?thesis using esc escape_itself [OF assms(1), of c r n R]
      by (auto simp: quoted_char_def intro!: round_escape)
  next
    case nl
    then show ?thesis using escape_newline [OF assms, of R] by (auto simp: quoted_char_def intro!: round_escape)
  next
    case cr
    then show ?thesis using escape_return [OF assms(1), of r n R] by (auto simp: quoted_char_def intro!: round_escape)
  next
    case nul
    then show ?thesis using escape_nul [OF assms(1), of r n R] by (auto simp: quoted_char_def intro!: round_escape)
  next
    case plain
    then show ?thesis using round_plain [OF assms(1), of c r n R u] by (simp add: quoted_char_def)
  qed
qed

lemma hd_quoted: "quoted_char c \<noteq> [] \<and> hd (quoted_char c) \<noteq> CHR 0x0A \<and> hd (quoted_char c) \<noteq> CHR 0x0D"
  by (simp add: quoted_char_def)

lemma hd_quoted_text:
  "hd (concat (map quoted_char s) @ CHR 0x22 # rest) \<noteq> CHR 0x0A \<and> hd (concat (map quoted_char s) @ CHR 0x22 # rest) \<noteq> CHR 0x0D"
  by (cases s) (auto simp: hd_quoted hd_append)

lemma quoted_loop:
  assumes "length s < N" "soft E \<or> length sv + length s < 2 ^ 62" "n + lines_of s + 1 < int MAX_INT"
  shows "triple E (at (concat (map quoted_char s) @ CHR 0x22 # rest) sv n R) (ploop_n N (string_round (ch (CHR 0x22))) u)
    (\<lambda>_. at (CHR 0x22 # rest) (sv @ s) (n + lines_of s) R)"
  using assms
proof (induction s arbitrary: N sv n u)
  case Nil
  then obtain k where k: "N = Suc k" using gr0_implies_Suc by auto
  have "triple E (at (CHR 0x22 # rest) sv n R) (string_round (ch (CHR 0x22)) u) (\<lambda>r ls. r = Inr () \<and> at (CHR 0x22 # rest) sv n R ls)"
    unfolding string_round_def by (rule at_current_Cons) (simp add: triple_ret)
  then show ?case unfolding k by (auto intro!: triple_bind triple_pure triple_ret)
next
  case (Cons c s)
  then obtain k where k: "N = Suc k" "length s < k" using gr0_implies_Suc [of N] by auto
  let ?r = "concat (map quoted_char s) @ CHR 0x22 # rest"
  have step: "triple E (at (quoted_char c @ ?r) sv n R) (string_round (ch (CHR 0x22)) u)
      (\<lambda>res ls. res = Inl () \<and> at ?r (sv @ [c]) (n + lines_of [c]) R ls)"
    by (rule round_quoted) (use Cons.prems lines_of_nonneg [of s] hd_quoted_text in \<open>auto split: if_splits\<close>)
  have "triple E (at ?r (sv @ [c]) (n + lines_of [c]) R) (ploop_n k (string_round (ch (CHR 0x22))) ())
      (\<lambda>_. at (CHR 0x22 # rest) ((sv @ [c]) @ s) (n + lines_of [c] + lines_of s) R)"
    by (rule Cons.IH) (use Cons.prems k in auto)
  then have rest: "triple E (\<lambda>ls. res = Inl () \<and> at ?r (sv @ [c]) (n + lines_of [c]) R ls)
      (case res of Inl s' \<Rightarrow> ploop_n k (string_round (ch (CHR 0x22))) s' | Inr x \<Rightarrow> pret x)
      (\<lambda>_. at (CHR 0x22 # rest) (sv @ c # s) (n + lines_of (c # s)) R)" for res
    by (intro triple_pure) (simp add: add.assoc)
  show ?case using triple_bind [OF step rest] unfolding k by simp
qed

text \<open>The string between the delimiters of the saved text, and its entry in the table of the function.\<close>

lemma at_newstring:
  assumes "length sv = k" "1 \<le> k" "ls_fs ls = fs # r" "good_table m fs" "m < 2 ^ 26" "at inp sv n R ls"
  shows "\<exists>h. pbind (pget (\<lambda>ls. bufflen (ls_buff ls))) (\<lambda>n. pbind (buff_part 1 (n - 2)) (\<lambda>s.
      pbind (luaX_newstring s) (\<lambda>ts. pret (SemTS ts)))) ls =
    Inr (SemTS (take (k - 2) (drop 1 sv)), ls\<lparr>ls_fs := fs\<lparr>fs_h := h\<rparr> # r\<rparr>)"
proof -
  let ?b = "ls_buff ls"
  have sv: "sv = take (bufflen ?b) (buffer ?b)" "buffer_ok ?b" using at_buffD [OF assms(6)] by simp_all
  then have "bufflen ?b = k" using assms(1) by (simp add: buffer_ok_def)
  then have "take (bufflen ?b - 2) (drop 1 (buffer ?b)) = take (k - 2) (drop 1 sv)"
    unfolding sv(1) drop_take take_take using assms(2) by simp
  then show ?thesis using luaX_newstring_ok [OF assms(3,4,5), of "take (k - 2) (drop 1 sv)"]
    by (auto simp: pbind_def pget_def buff_part_def pret_def)
qed

lemma read_quoted:
  assumes a: "at (CHR 0x22 # concat (map quoted_char s) @ CHR 0x22 # rest) [] n R ls"
    and fs: "ls_fs ls = fs # r" "good_table m fs" "m < 2 ^ 26"
    and len: "length s < ls_fuel ls" "length s + 1 < 2 ^ 62" "n + lines_of s + 1 < int MAX_INT"
  shows "\<exists>ls'. read_string (ch (CHR 0x22)) ls = Inr (SemTS s, ls') \<and> linenumber ls' = n + lines_of s \<and>
    current ls' = (case rest of [] \<Rightarrow> EOZ | c # _ \<Rightarrow> char2int c)"
proof -
  let ?q = "CHR 0x22" let ?t = "concat (map quoted_char s) @ ?q # rest" let ?N = "ls_fuel ls"
  have R: "R = others ls" using a by (simp add: at_def)
  have loop: "triple (\<lambda>_. False) (at ?t [?q] n R) (ploop (string_round (ch ?q)) ()) (\<lambda>_. at (?q # rest) ([?q] @ s) (n + lines_of s) R)"
    unfolding ploop_def
  proof (rule triple_bind)
    show "triple (\<lambda>_. False) (at ?t [?q] n R) (pget ls_fuel) (\<lambda>k ls. k = ?N \<and> at ?t [?q] n R ls)"
      by (rule triple_get) (simp add: at_def R others_def)
    show "triple (\<lambda>_. False) (\<lambda>ls. k = ?N \<and> at ?t [?q] n R ls) (ploop_n k (string_round (ch ?q)) ())
        (\<lambda>_. at (?q # rest) ([?q] @ s) (n + lines_of s) R)" for k
      by (rule triple_pure) (use len in \<open>simp del: append_Cons append_Nil add: quoted_loop\<close>)
  qed
  have sn: "triple (\<lambda>_. False) (at (?q # ?t) [] n R) save_and_next (\<lambda>_. at ?t [?q] n R)"
    using at_save_and_next [of "\<lambda>_. False" "[]" ?q ?t n R] by simp
  have sl: "triple (\<lambda>_. False) (at (?q # rest) ([?q] @ s) (n + lines_of s) R) save_and_next
      (\<lambda>_. at rest (([?q] @ s) @ [?q]) (n + lines_of s) R)"
    by (rule at_save_and_next) (use len(2) in simp)
  define fin :: "('d, SemInfo) P" where "fin = pbind (pget (\<lambda>ls. bufflen (ls_buff ls))) (\<lambda>n. pbind (buff_part 1 (n - 2)) (\<lambda>s.
      pbind (luaX_newstring s) (\<lambda>ts. pret (SemTS ts))))"
  obtain l1 where 1: "save_and_next ls = Inr ((), l1)" "at ?t [?q] n R l1" using triple_total [OF sn a] by auto
  obtain l2 where 2: "ploop (string_round (ch ?q)) () l1 = Inr ((), l2)" "at (?q # rest) ([?q] @ s) (n + lines_of s) R l2"
    using triple_total [OF loop 1(2)] by auto
  obtain l3 where 3: "save_and_next l2 = Inr ((), l3)" "at rest (([?q] @ s) @ [?q]) (n + lines_of s) R l3"
    using triple_total [OF sl 2(2)] by auto
  have "ls_fs l3 = fs # r" using 3(2) R fs(1) by (simp add: at_def others_def)
  from at_newstring [OF refl _ this fs(2,3) 3(2)]
  obtain h where t: "fin l3 = Inr (SemTS s, l3\<lparr>ls_fs := fs\<lparr>fs_h := h\<rparr> # r\<rparr>)" unfolding fin_def by auto
  have "read_string (ch ?q) ls = Inr (SemTS s, l3\<lparr>ls_fs := fs\<lparr>fs_h := h\<rparr> # r\<rparr>)"
    unfolding read_string_def fin_def [symmetric] by (simp add: pseq_def pbind_def 1(1) 2(1) 3(1) t)
  then show ?thesis using 3(2) by (cases rest) (auto simp: at_def)
qed

end

subsection \<open>A source in a buffer\<close>

lemma luaH_new_good: "\<exists>h. luaH_new 0 0 = Inr h \<and> good_table 0 (new_funcstate h) \<and> amap h = (\<lambda>k. Nil)"
  using luaH_new_ok [of 0 0] by (auto simp: good_table_def new_funcstate_def)

lemma open_func_ok:
  "\<exists>h. open_func ls = Inr ((), ls\<lparr>ls_fs := new_funcstate h # ls_fs ls\<rparr>) \<and> good_table 0 (new_funcstate h) \<and> amap h = (\<lambda>k. Nil)"
  using luaH_new_good by (auto simp: open_func_def pbind_def plift_def pmod_def)

lemma setinput_fields [simp]:
  "ls_fuel (luaX_setinput pw fuel calls z buff src) = fuel" "lookahead (luaX_setinput pw fuel calls z buff src) = \<lparr>token = TK_EOS, seminfo = SemTS []\<rparr>"
  "ls_fs (luaX_setinput pw fuel calls z buff src) = []" "linenumber (luaX_setinput pw fuel calls z buff src) = 1"
  "ls_buff (luaX_setinput pw fuel calls z buff src) = luaZ_resizebuffer buff LUA_MINBUFFER"
  "ls_t (luaX_setinput pw fuel calls z buff src) = \<lparr>token = 0, seminfo = SemTS []\<rparr>"
  by (simp_all add: luaX_setinput_def split: prod.splits)

context byte_reader
begin

lemma setinput_chars:
  assumes "ok d" "ls = luaX_setinput pw fuel calls (luaZ_init rd d) buff src"
  shows "case content d of [] \<Rightarrow> current ls = EOZ
      | c # r \<Rightarrow> current ls = char2int c \<and> zinv (ls_z ls) \<and> zcontent (ls_z ls) = r"
proof -
  obtain c z where z: "zgetc (luaZ_init rd d) = (c, z)" by (cases "zgetc (luaZ_init rd d)")
  note i = init_ok [OF assms(1)]
  from zgetc_ok [OF conjunct1 [OF i] z] i show ?thesis
    by (cases "content d") (auto simp: assms(2) luaX_setinput_def z)
qed

text \<open>The start of \<^verbatim>\<open>llex\<close> for the first token.\<close>

lemma first_at:
  assumes "ok d" "ls0 = luaX_setinput pw fuel calls (luaZ_init rd d) buff src"
    and "ls = ls_buff_update luaZ_resetbuffer (ls0\<lparr>ls_fs := fss, lastline := k\<rparr>)"
  shows "at (content d) [] 1 (others ls) ls"
  using setinput_chars [OF assms(1,2)] assms(2,3)
  by (cases "content d")
    (auto simp: at_def buffer_ok_def luaZ_resetbuffer_def luaZ_resizebuffer_def LUA_MINBUFFER_def)

lemma first_quoted:
  assumes "ok d" and c: "content d = CHR 0x22 # concat (map quoted_char s) @ CHR 0x22 # rest"
    and len: "length s < fuel" "length s < 2 ^ 31 - 8"
  shows "\<exists>ls. pseq open_func luaX_next (luaX_setinput pw fuel calls (luaZ_init rd d) buff src) = Inr ((), ls) \<and>
    ls_t ls = \<lparr>token = TK_STRING, seminfo = SemTS s\<rparr> \<and> linenumber ls = 1 + lines_of s \<and>
    current ls = (case rest of [] \<Rightarrow> EOZ | c # _ \<Rightarrow> char2int c)"
proof -
  define ls0 where "ls0 = luaX_setinput pw fuel calls (luaZ_init rd d) buff src"
  obtain h where h: "open_func ls0 = Inr ((), ls0\<lparr>ls_fs := [new_funcstate h]\<rparr>)" "good_table 0 (new_funcstate h)"
    using open_func_ok [of ls0] by (auto simp: ls0_def)
  define ls1 where "ls1 = ls_buff_update luaZ_resetbuffer (ls0\<lparr>ls_fs := [new_funcstate h], lastline := 1\<rparr>)"
  have a: "at (CHR 0x22 # concat (map quoted_char s) @ CHR 0x22 # rest) [] 1 (others ls1) ls1"
    using first_at [OF assms(1) ls0_def ls1_def] by (simp add: c)
  have f: "ls_fs ls1 = [new_funcstate h]" "ls_fuel ls1 = fuel" "current ls1 = ch (CHR 0x22)"
    using current_is [OF a] by (simp_all add: ls1_def ls0_def)
  have "lines_of s \<le> int (length s)" by (simp add: lines_of_def)
  then have "1 + lines_of s + 1 < int MAX_INT" using len(2) by (simp add: MAX_INT_def)
  with read_quoted [OF a f(1) h(2)] len obtain ls2 where
    r: "read_string (ch (CHR 0x22)) ls1 = Inr (SemTS s, ls2)" "linenumber ls2 = 1 + lines_of s"
      "current ls2 = (case rest of [] \<Rightarrow> EOZ | c # _ \<Rightarrow> char2int c)" by (auto simp: f(2))
  have "llex_round si u ls1 = Inr (Inr (TK_STRING, SemTS s), ls2)" for si u
    by (simp add: llex_round_def pbind_def pget_def pret_def f(3) r(1))
  moreover obtain N where "fuel = Suc N" using len(1) by (cases fuel) auto
  ultimately have "ploop (llex_round si) () ls1 = Inr ((TK_STRING, SemTS s), ls2)" for si
    by (simp add: ploop_def pbind_def pget_def pret_def f(2))
  then have "luaX_next (ls0\<lparr>ls_fs := [new_funcstate h]\<rparr>) = Inr ((), ls2\<lparr>ls_t := \<lparr>token = TK_STRING, seminfo = SemTS s\<rparr>\<rparr>)"
    by (simp add: luaX_next_def llex_def resetbuffer_def pseq_def pbind_def pmod_def pget_def ls0_def ls1_def)
  with h(1) r(2,3) show ?thesis by (simp add: pseq_def pbind_def ls0_def)
qed

end

text \<open>
  C39: what \<^verbatim>\<open>string.format\<close> writes with \<^verbatim>\<open>%q\<close> the scanner reads back. For every string \<open>s\<close>,
  whatever its bytes, and every reader that delivers the quoted text and then anything else, the first token
  of the source is the string \<open>s\<close>, the next character is the first one after the closing quote, and the line
  has grown by the line breaks in \<open>s\<close>.
\<close>

theorem quoted_string_scanned:
  assumes "byte_reader rd content ok" "ok d"
    and "content d = CHR 0x22 # concat (map quoted_char s) @ CHR 0x22 # rest"
    and "length s < fuel" "length s < 2 ^ 31 - 8"
  shows "\<exists>ls. pseq open_func luaX_next (luaX_setinput pw fuel calls (luaZ_init rd d) buff src) = Inr ((), ls) \<and>
    ls_t ls = \<lparr>token = TK_STRING, seminfo = SemTS s\<rparr> \<and> linenumber ls = 1 + lines_of s \<and>
    current ls = (case rest of [] \<Rightarrow> EOZ | c # _ \<Rightarrow> char2int c)"
  by (rule byte_reader.first_quoted [OF assms])

text \<open>A string of a quote, a line break, a NUL character and a digit.\<close>

theorem quoted_string_scanned_witness:
  "\<exists>ls. pseq open_func luaX_next (luaX_setinput (\<lambda>a b. a) 10 0
      (luaZ_init getS (loads_of ([CHR 0x22, CHR 0x5C, CHR 0x22, CHR 0x5C, CHR 0x0A, CHR 0x5C] @ ''0007'' @ [CHR 0x22] @ '';'')))
      \<lparr>buffer = [], bufflen = 0, buffsize = 0\<rparr> ''t'') = Inr ((), ls) \<and>
    ls_t ls = \<lparr>token = TK_STRING, seminfo = SemTS [CHR 0x22, CHR 0x0A, CHR 0x00, CHR ''7'']\<rparr> \<and> linenumber ls = 2 \<and>
    current ls = ch (CHR '';'')"
proof -
  let ?src = "[CHR 0x22, CHR 0x5C, CHR 0x22, CHR 0x5C, CHR 0x0A, CHR 0x5C] @ ''0007'' @ [CHR 0x22] @ '';''"
  let ?s = "[CHR 0x22, CHR 0x0A, CHR 0x00, CHR ''7'']"
  let ?content = "\<lambda>ls. take (unat (ls_size ls)) (ls_s ls)" and ?ok = "\<lambda>ls. unat (ls_size ls) \<le> length (ls_s ls)"
  have c: "?content (loads_of ?src) = CHR 0x22 # concat (map quoted_char ?s) @ CHR 0x22 # '';''"
    by (simp add: loads_of_def quoted_char_def)
  have k: "?ok (loads_of ?src)" by (simp add: loads_of_def)
  have l: "length ?s < 10" "length ?s < 2 ^ 31 - 8" "1 + lines_of ?s = 2" by simp_all
  show ?thesis
    using quoted_string_scanned [where rd = getS and content = ?content and ok = ?ok and d = "loads_of ?src" and s = ?s
        and rest = "'';''" and fuel = 10, OF loads.byte_reader_axioms k c l(1,2)]
    unfolding l(3) list.case .
qed

subsection \<open>Errors are not endless loops\<close>

lemma soft_save: "soft E \<Longrightarrow> triple E (\<lambda>_. True) (save c) (\<lambda>_ _. True)"
  unfolding save_def
  by (intro triple_bind [where Q = "\<lambda>_ _. True"] triple_seq [where Q = "\<lambda>_. True"] triple_if triple_get triple_mod triple_ret
      triple_post [OF soft_message [where P = "\<lambda>_. True"]] triple_fail) (simp_all add: soft_syntax)

lemma soft_token2str: "soft E \<Longrightarrow> triple E (\<lambda>_. True) (luaX_token2str t) (\<lambda>_ _. True)"
  unfolding luaX_token2str_def
  by (intro triple_if triple_soft_lift triple_ret triple_fail pushvfstring_error) (simp_all add: softD)

lemma soft_txtToken: "soft E \<Longrightarrow> triple E (\<lambda>_. True) (txtToken t) (\<lambda>_ _. True)"
  unfolding txtToken_def
  by (intro triple_if triple_seq [where Q = "\<lambda>_. True"] soft_save triple_get soft_token2str) simp_all

lemma soft_lexerror:
  assumes "soft E" shows "triple E P (luaX_lexerror msg t) Q"
proof -
  have m: "triple E P (lex_message msg) (\<lambda>_ _. True)"
    by (rule triple_conseq [OF soft_message [OF assms, where P = "\<lambda>_. True"]]) simp_all
  have "triple E (\<lambda>_. True) (pbind (txtToken t) (\<lambda>s.
      pbind (plift (luaO_pushvfstring (''%s near '' @ LUA_QS) [FS (Some x), FS (Some s)])) (\<lambda>m. pfail (ErrSyntax m)))) Q" for x
    by (intro triple_bind [where Q = "\<lambda>_ _. True"] soft_txtToken triple_soft_lift triple_fail pushvfstring_error assms)
      (simp_all add: soft_syntax [OF assms])
  then show ?thesis unfolding luaX_lexerror_def
    by (intro triple_bind [OF m] triple_if triple_fail) (simp_all add: soft_syntax [OF assms])
qed

lemma soft_syntaxerror: "soft E \<Longrightarrow> triple E P (luaX_syntaxerror msg) Q"
  unfolding luaX_syntaxerror_def by (intro triple_bind [where Q = "\<lambda>_ _. True"] triple_get soft_lexerror) simp_all

lemma triple_keeps:
  assumes "\<And>c. triple E (\<lambda>ls. P ls \<and> f ls = c) m (\<lambda>_ ls. P ls \<and> f ls = c)"
  shows "triple E (\<lambda>ls. P ls \<and> C (f ls)) m (\<lambda>_ ls. P ls \<and> C (f ls))"
proof (rule tripleI)
  fix ls assume a: "P ls \<and> C (f ls)"
  then have "P ls \<and> f ls = f ls" by simp
  from tripleD [OF assms this] a show "case m ls of Inl e \<Rightarrow> E e | Inr (x, ls') \<Rightarrow> P ls' \<and> C (f ls')"
    by (auto split: sum.splits)
qed

definition ends :: "lua_error \<Rightarrow> bool" where
  "ends e \<longleftrightarrow> e \<noteq> OutOfFuel"

lemma soft_ends [simp]: "soft ends"
  by (simp add: soft_def ends_def)

subsection \<open>The scanner ends\<close>

context byte_reader
begin

text \<open>
  At most \<open>k\<close> characters are left, fewer than the fuel, and the table of the function has at most \<open>m\<close> strings;
  \<open>more\<close> also says that there is a character.
\<close>

definition leaves :: "nat \<Rightarrow> Token \<Rightarrow> nat \<Rightarrow> nat \<Rightarrow> 'd LexState \<Rightarrow> bool" where
  "leaves N la m k ls \<longleftrightarrow>
     (\<exists>inp sv n. at inp sv n (others ls) ls \<and> length inp \<le> k) \<and> k < N \<and> ls_fuel ls = N \<and> lookahead ls = la \<and>
     (\<exists>fs r. ls_fs ls = fs # r \<and> good_table m fs)"

definition more :: "nat \<Rightarrow> Token \<Rightarrow> nat \<Rightarrow> nat \<Rightarrow> 'd LexState \<Rightarrow> bool" where
  "more N la m k ls \<longleftrightarrow> leaves N la m (Suc k) ls \<and> current ls \<noteq> EOZ"

lemma leaves_mono: "leaves N la m k ls \<Longrightarrow> k \<le> k' \<Longrightarrow> k' < N \<Longrightarrow> m \<le> m' \<Longrightarrow> leaves N la m' k' ls"
  unfolding leaves_def good_table_def by (meson order_trans)

lemma leaves_more: "leaves N la m k ls \<Longrightarrow> current ls \<noteq> EOZ \<Longrightarrow> 0 < k \<and> more N la m (k - 1) ls"
  by (cases k) (auto simp: more_def leaves_def at_def)

lemma more_leaves: "more N la m k ls \<Longrightarrow> leaves N la m (Suc k) ls" and more_char: "more N la m k ls \<Longrightarrow> current ls \<noteq> EOZ"
  by (simp_all add: more_def)

lemma leavesI:
  assumes "at inp sv n (others ls) ls'" "leaves N la q k ls" "length inp \<le> k'" "k' < N"
  shows "leaves N la q k' ls'"
proof -
  have o: "others ls' = others ls" using assms(1) by (simp add: at_def)
  then have "at inp sv n (others ls') ls'" using assms(1) by simp
  then show ?thesis using o assms(2-4) unfolding leaves_def others_def by auto
qed

text \<open>A step that leaves everything else alone keeps what \<open>leaves\<close> says.\<close>

lemma leaves_step:
  assumes "\<And>c r sv n R. triple E (at (c # r) sv n R) m (\<lambda>x ls. \<exists>sv n. at r sv n R ls)"
  shows "triple E (more N la q k) m (\<lambda>_. leaves N la q k)"
proof (rule tripleI)
  fix ls assume a: "more N la q k ls"
  then obtain inp sv n where i: "at inp sv n (others ls) ls" "length inp \<le> Suc k" by (auto simp: more_def leaves_def)
  with more_char [OF a] obtain c r where c: "inp = c # r" by (cases inp) (auto simp: at_def)
  have "triple E (at (c # r) sv n (others ls)) m (\<lambda>_. leaves N la q k)"
  proof (rule triple_post [OF assms])
    fix x ls' assume "\<exists>sv n. at r sv n (others ls) ls'"
    then obtain sv n where b: "at r sv n (others ls) ls'" by blast
    show "leaves N la q k ls'" by (rule leavesI [OF b more_leaves [OF a]]) (use i(2) a in \<open>auto simp: c more_def leaves_def\<close>)
  qed
  then show "case m ls of Inl e \<Rightarrow> E e | Inr (x, ls') \<Rightarrow> leaves N la q k ls'" using i(1) unfolding c by (rule tripleD)
qed

lemma leaves_same:
  assumes "\<And>inp sv n R. triple E (at inp sv n R) m (\<lambda>x ls. \<exists>sv n. at inp sv n R ls)"
  shows "triple E (leaves N la q k) m (\<lambda>_. leaves N la q k)" "triple E (more N la q k) m (\<lambda>_. more N la q k)"
proof -
  have s: "triple E (\<lambda>ls. leaves N la q j ls \<and> current ls = c) m (\<lambda>_ ls. leaves N la q j ls \<and> current ls = c)" for j c
  proof (rule tripleI)
    fix ls assume a: "leaves N la q j ls \<and> current ls = c"
    then obtain inp sv n where i: "at inp sv n (others ls) ls" "length inp \<le> j" by (auto simp: leaves_def)
    have "triple E (at inp sv n (others ls)) m (\<lambda>_ ls. leaves N la q j ls \<and> current ls = c)"
    proof (rule triple_post [OF assms])
      fix x ls' assume "\<exists>sv n. at inp sv n (others ls) ls'"
      then obtain sv n where b: "at inp sv n (others ls) ls'" by blast
      have "leaves N la q j ls'" by (rule leavesI [OF b conjunct1 [OF a]]) (use i(2) a in \<open>auto simp: leaves_def\<close>)
      moreover have "current ls' = current ls" using b i(1) by (auto simp: at_def split: list.splits)
      ultimately show "leaves N la q j ls' \<and> current ls' = c" using a by simp
    qed
    then show "case m ls of Inl e \<Rightarrow> E e | Inr (x, ls') \<Rightarrow> leaves N la q j ls' \<and> current ls' = c" using i(1) by (rule tripleD)
  qed
  show "triple E (leaves N la q k) m (\<lambda>_. leaves N la q k)"
    using triple_keeps [where C = "\<lambda>_. True", OF s] by simp
  show "triple E (more N la q k) m (\<lambda>_. more N la q k)"
    using triple_keeps [where C = "\<lambda>c. c \<noteq> EOZ", OF s] unfolding more_def by simp
qed

lemma T_next: "triple E (more N la q k) next_char (\<lambda>_. leaves N la q k)"
  by (rule leaves_step) (rule triple_post [OF at_next], blast)

lemma T_save: "triple ends (leaves N la q k) (save c) (\<lambda>_. leaves N la q k)"
  and T_save_more: "triple ends (more N la q k) (save c) (\<lambda>_. more N la q k)"
  by (rule leaves_same, rule triple_post [OF at_save], simp, blast)+

lemma T_save_and_next: "triple ends (more N la q k) save_and_next (\<lambda>_. leaves N la q k)"
  by (rule leaves_step) (rule triple_post [OF at_save_and_next], simp, blast)

end

end
