(* ===== verification/LuaLexEnds.thy ===== *)
theory LuaLexEnds
  imports LuaLexFacts
begin

section \<open>Every source is a finite sequence of tokens\<close>

text \<open>
  Each function of the scanner takes characters away or stops at the end, whatever it reads, so with fuel
  above the length of the source its loops end. The theorem at the end is about the whole sequence of tokens.
\<close>

context byte_reader
begin

text \<open>The loops: every round that goes on takes a character.\<close>

lemma T_loop:
  assumes "\<And>s j. triple ends (\<lambda>ls. leaves N la q j ls \<and> I s)
    (f s) (\<lambda>r ls. case r of Inl s' \<Rightarrow> 0 < j \<and> leaves N la q (j - 1) ls \<and> I s' | Inr x \<Rightarrow> leaves N la q j ls \<and> Q x ls)"
  shows "triple ends (\<lambda>ls. leaves N la q k ls \<and> I s) (ploop f s) (\<lambda>x ls. leaves N la q k ls \<and> Q x ls)"
proof (rule triple_loop [where n = N and I = "\<lambda>s j ls. j \<le> k \<and> k < N \<and> leaves N la q j ls \<and> I s"])
  fix s j
  show "triple ends (\<lambda>ls. (j \<le> k \<and> k < N \<and> leaves N la q j ls \<and> I s) \<and> j < N) (f s)
      (\<lambda>r ls. case r of Inl s' \<Rightarrow> 0 < j \<and> j - 1 \<le> k \<and> k < N \<and> leaves N la q (j - 1) ls \<and> I s'
        | Inr x \<Rightarrow> leaves N la q k ls \<and> Q x ls)"
  proof (cases "j \<le> k \<and> k < N")
    case True
    then show ?thesis
      by (intro triple_conseq [OF assms [of j s]]) (auto split: sum.splits intro: leaves_mono)
  qed (auto intro: triple_False)
qed (auto simp: leaves_def)

lemma T_get: "triple ends (leaves N la q k) (pget f) (\<lambda>x ls. x = f ls \<and> leaves N la q k ls)"
  by (rule triple_get) simp

text \<open>Reading the current character and going on by cases on the end of the source.\<close>

lemma T_char:
  assumes more: "\<And>c. 0 < k \<Longrightarrow> c \<noteq> EOZ \<Longrightarrow> triple ends (\<lambda>ls. more N la q (k - 1) ls \<and> current ls = c) (f c) Q"
    and eoz: "triple ends (leaves N la q k) (f EOZ) Q"
  shows "triple ends (leaves N la q k) (pbind (pget current) f) Q"
proof (rule triple_bind [where Q = "\<lambda>c ls. leaves N la q k ls \<and> current ls = c"])
  show "triple ends (leaves N la q k) (pget current) (\<lambda>c ls. leaves N la q k ls \<and> current ls = c)" by (rule triple_get) simp
  show "triple ends (\<lambda>ls. leaves N la q k ls \<and> current ls = c) (f c) Q" for c
  proof (cases "c = EOZ")
    case True
    then show ?thesis using eoz by (auto intro: triple_pre)
  next
    case False
    show ?thesis
    proof (cases "0 < k")
      case True
      then show ?thesis using False leaves_more by (intro triple_pre [OF more]) auto
    next
      case k: False
      have "\<not> (leaves N la q k ls \<and> current ls = c)" for ls using False k leaves_more [of N la q k ls] by auto
      then show ?thesis by (rule triple_False)
    qed
  qed
qed

lemma T_char_more:
  assumes "\<And>c. c \<noteq> EOZ \<Longrightarrow> triple ends (\<lambda>ls. more N la q k ls \<and> current ls = c) (f c) Q"
  shows "triple ends (more N la q k) (pbind (pget current) f) Q"
proof (rule triple_bind [where Q = "\<lambda>c ls. more N la q k ls \<and> current ls = c"])
  show "triple ends (more N la q k) (pget current) (\<lambda>c ls. more N la q k ls \<and> current ls = c)" by (rule triple_get) simp
  show "triple ends (\<lambda>ls. more N la q k ls \<and> current ls = c) (f c) Q" for c
    by (cases "c = EOZ") (auto intro: assms triple_False dest: more_char)
qed

lemma T_forget: "triple ends (more N la q k) m Q \<Longrightarrow> triple ends (\<lambda>ls. more N la q k ls \<and> C ls) m Q"
  by (erule triple_pre) auto

lemma T_weaken: "triple ends P m (\<lambda>_. leaves N la q k) \<Longrightarrow> k \<le> k' \<Longrightarrow> k' < N \<Longrightarrow> triple ends P m (\<lambda>_. leaves N la q k')"
  by (erule triple_post) (auto intro: leaves_mono)

text \<open>What is left in a state with a character is below the fuel.\<close>

lemma T_bound: "(Suc k < N \<Longrightarrow> triple ends (more N la q k) m Q) \<Longrightarrow> triple ends (more N la q k) m Q"
  by (cases "Suc k < N") (auto simp: more_def leaves_def intro: triple_False)

lemma T_bound': "(k < N \<Longrightarrow> triple ends (leaves N la q k) m Q) \<Longrightarrow> triple ends (leaves N la q k) m Q"
  by (cases "k < N") (auto simp: leaves_def intro: triple_False)

lemma T_inclinenumber:
  "triple ends (more N la q k) inclinenumber (\<lambda>_. leaves N la q k)"
  unfolding inclinenumber_def
proof (rule T_char_more, rule T_forget, rule triple_seq [OF T_next], rule T_bound')
  fix old :: int assume k: "k < N"
  have line: "triple ends (leaves N la q k) (pseq (pmod (linenumber_update (\<lambda>n. n + 1))) (pbind (pget linenumber) (\<lambda>n.
       if n \<ge> int MAX_INT then luaX_syntaxerror ''chunk has too many lines'' else pret ()))) (\<lambda>_. leaves N la q k)"
  proof (rule triple_seq)
    have "leaves N la q k (linenumber_update f ls)" if l: "leaves N la q k ls" for ls :: "'d LexState" and f
    proof -
      obtain inp sv n where "at inp sv n (others ls) ls" "length inp \<le> k" using l by (auto simp: leaves_def)
      then have "at inp sv (f n) (others (linenumber_update f ls)) (linenumber_update f ls)"
        by (cases inp) (auto simp: at_def others_def)
      then show ?thesis using l \<open>length inp \<le> k\<close> unfolding leaves_def by auto
    qed
    then show "triple ends (leaves N la q k) (pmod (linenumber_update (\<lambda>n. n + 1))) (\<lambda>_. leaves N la q k)"
      by (intro triple_mod)
    show "triple ends (leaves N la q k) (pbind (pget linenumber) (\<lambda>n.
       if n \<ge> int MAX_INT then luaX_syntaxerror ''chunk has too many lines'' else pret ())) (\<lambda>_. leaves N la q k)"
      by (rule triple_bind [where Q = "\<lambda>_. leaves N la q k"], rule triple_get, assumption,
          intro triple_if soft_syntaxerror triple_ret) simp_all
  qed
  show "triple ends (leaves N la q k) (pbind (pget current) (\<lambda>c.
     pseq (pwhen (is_newline c \<and> c \<noteq> old) next_char)
     (pseq (pmod (linenumber_update (\<lambda>n. n + 1)))
     (pbind (pget linenumber) (\<lambda>n.
       if n \<ge> int MAX_INT then luaX_syntaxerror ''chunk has too many lines'' else pret ()))))) (\<lambda>_. leaves N la q k)"
  proof (rule T_char)
    fix c :: int assume "0 < k" "c \<noteq> EOZ"
    have "triple ends (more N la q (k - 1)) (pwhen (is_newline c \<and> c \<noteq> old) next_char) (\<lambda>_. leaves N la q k)"
    proof (rule triple_when)
      show "triple ends (more N la q (k - 1)) next_char (\<lambda>_. leaves N la q k)" by (rule T_weaken [OF T_next]) (use k in auto)
      show "leaves N la q k ls" if "more N la q (k - 1) ls" for ls using more_leaves [OF that] \<open>0 < k\<close> by simp
    qed
    then show "triple ends (\<lambda>ls. more N la q (k - 1) ls \<and> current ls = c) (pseq (pwhen (is_newline c \<and> c \<noteq> old) next_char)
       (pseq (pmod (linenumber_update (\<lambda>n. n + 1))) (pbind (pget linenumber) (\<lambda>n.
       if n \<ge> int MAX_INT then luaX_syntaxerror ''chunk has too many lines'' else pret ())))) (\<lambda>_. leaves N la q k)"
      by (intro T_forget triple_seq [OF _ line])
  next
    show "triple ends (leaves N la q k) (pseq (pwhen (is_newline EOZ \<and> EOZ \<noteq> old) next_char)
       (pseq (pmod (linenumber_update (\<lambda>n. n + 1))) (pbind (pget linenumber) (\<lambda>n.
       if n \<ge> int MAX_INT then luaX_syntaxerror ''chunk has too many lines'' else pret ())))) (\<lambda>_. leaves N la q k)"
      by (rule triple_seq [OF _ line]) (simp add: pwhen_def triple_ret)
  qed
qed

lemma T_loop':
  assumes "\<And>s j. triple ends (leaves N la q j) (f s) (\<lambda>r ls. case r of Inl s' \<Rightarrow> 0 < j \<and> leaves N la q (j - 1) ls | Inr x \<Rightarrow> leaves N la q j ls)"
  shows "triple ends (leaves N la q k) (ploop f s) (\<lambda>_. leaves N la q k)"
  by (rule triple_conseq [OF T_loop [where I = "\<lambda>_. True" and Q = "\<lambda>_ _. True"]])
    (rule triple_conseq [OF assms], auto split: sum.splits)

text \<open>A round that takes a character and goes on, and one that ends the loop.\<close>

lemma T_on:
  assumes "0 < (j::nat)" "triple ends P m (\<lambda>_. leaves N la q (j - 1))"
  shows "triple ends P (pseq m (pret (Inl s'))) (\<lambda>r ls. case r of Inl s' \<Rightarrow> 0 < j \<and> leaves N la q (j - 1) ls | Inr x \<Rightarrow> leaves N la q j ls)"
  by (rule triple_seq [OF assms(2)]) (simp add: triple_ret assms(1))

lemma T_off: "triple ends (leaves N la q j) (pret (Inr x)) (\<lambda>r ls. case r of Inl s' \<Rightarrow> 0 < j \<and> leaves N la q (j - 1) ls | Inr x \<Rightarrow> leaves N la q j ls)"
  by (simp add: triple_ret)

lemma T_off_more:
  "0 < (j::nat) \<Longrightarrow> triple ends (\<lambda>ls. more N la q (j - 1) ls \<and> C ls) (pret (Inr x))
     (\<lambda>r ls. case r of Inl s' \<Rightarrow> 0 < j \<and> leaves N la q (j - 1) ls | Inr x \<Rightarrow> leaves N la q j ls)"
  using more_leaves by (fastforce intro: triple_ret)

lemma T_save_while: "\<not> P EOZ \<Longrightarrow> triple ends (leaves N la q k) (save_while P) (\<lambda>_. leaves N la q k)"
  unfolding save_while_def
proof (rule T_loop', rule T_char)
  fix j :: nat and c :: int assume "0 < j"
  then show "triple ends (\<lambda>ls. more N la q (j - 1) ls \<and> current ls = c)
      (if P c then pseq save_and_next (pret (Inl ())) else pret (Inr ()))
      (\<lambda>r ls. case r of Inl s' \<Rightarrow> 0 < j \<and> leaves N la q (j - 1) ls | Inr x \<Rightarrow> leaves N la q j ls)"
    by (intro triple_if T_off_more T_forget T_on T_save_and_next)
qed (simp add: T_off)

lemma T_same:
  assumes "\<And>inp sv n R ls. at inp sv n R ls \<Longrightarrow> \<exists>sv n. at inp sv n R (f ls)"
  shows "triple ends (leaves N la q k) (pmod f) (\<lambda>_. leaves N la q k)" "triple ends (more N la q k) (pmod f) (\<lambda>_. more N la q k)"
  by (rule leaves_same, rule triple_mod, rule assms, assumption)+

lemma T_buff:
  assumes "\<And>buf. buffer_ok buf \<Longrightarrow> buffer_ok (f buf)"
  shows "triple ends (leaves N la q k) (pmod (ls_buff_update f)) (\<lambda>_. leaves N la q k)"
    "triple ends (more N la q k) (pmod (ls_buff_update f)) (\<lambda>_. more N la q k)"
  by (rule T_same, use assms at_buffD at_buff in blast)+

lemma T_reset: "triple ends (leaves N la q k) resetbuffer (\<lambda>_. leaves N la q k)" "triple ends (more N la q k) resetbuffer (\<lambda>_. more N la q k)"
  unfolding resetbuffer_def by (rule T_buff, simp add: luaZ_resetbuffer_def buffer_ok_def)+

lemma T_buffreplace: "triple ends (leaves N la q k) (buffreplace c d) (\<lambda>_. leaves N la q k)"
  unfolding buffreplace_def by (rule T_buff) (simp add: buffer_ok_def)

lemma T_read: "triple ends (leaves N la q k) (pget f) (\<lambda>_. leaves N la q k)"
  by (rule triple_get)

lemma T_check_next: "triple ends (leaves N la q k) (check_next cs) (\<lambda>_. leaves N la q k)"
  unfolding check_next_def
proof (rule T_bound', rule T_char)
  fix c :: int assume "0 < k" "k < N"
  then have "triple ends (more N la q (k - 1)) save_and_next (\<lambda>_. leaves N la q k)"
    by (intro T_weaken [OF T_save_and_next]) auto
  then show "triple ends (\<lambda>ls. more N la q (k - 1) ls \<and> current ls = c)
      (if c \<noteq> 0 \<and> \<not> list_ex (\<lambda>x. ch x = c) cs then pret False else pseq save_and_next (pret True)) (\<lambda>_. leaves N la q k)"
    using \<open>0 < k\<close> by (intro triple_if T_forget triple_seq triple_ret) (auto dest: more_leaves)
next
  have "EOZ \<noteq> 0" "\<not> list_ex (\<lambda>x. ch x = EOZ) cs" by (simp_all add: list_ex_iff) (simp add: EOZ_def)
  then show "triple ends (leaves N la q k)
      (if EOZ \<noteq> 0 \<and> \<not> list_ex (\<lambda>x. ch x = EOZ) cs then pret False else pseq save_and_next (pret True)) (\<lambda>_. leaves N la q k)"
    by (simp add: triple_ret)
qed

lemma T_trydecpoint: "triple ends (leaves N la q k) trydecpoint (\<lambda>_. leaves N la q k)"
proof -
  have d: "triple ends (leaves N la q k) (pmod (decpoint_update f)) (\<lambda>_. leaves N la q k)" for f
    by (rule T_same) (auto simp: at_def others_def split: list.splits)
  have "triple ends (leaves N la q k) (case r of Some d \<Rightarrow> pret d
      | None \<Rightarrow> pseq (buffreplace locale_point (CHR ''.'')) (luaX_lexerror ''malformed number'' TK_NUMBER)) (\<lambda>_. leaves N la q k)" for r
    by (cases r) (auto intro!: triple_ret triple_seq [OF T_buffreplace] soft_lexerror)
  then show ?thesis unfolding trydecpoint_def
    by (intro triple_bind [OF T_read] triple_seq [OF d] triple_seq [OF T_buffreplace])
qed

lemma T_numeral: "triple ends (more N la q k) read_numeral (\<lambda>_. leaves N la q k)"
proof -
  have e: "triple ends (leaves N la q k) (if e then pbind (check_next ''+-'') (\<lambda>_. pret ()) else pret ()) (\<lambda>_. leaves N la q k)" for e
    by (intro triple_if triple_bind [OF T_check_next] triple_ret)
  have d: "triple ends (leaves N la q k) (case r of Some d \<Rightarrow> pret d | None \<Rightarrow> trydecpoint) (\<lambda>_. leaves N la q k)" for r
    by (cases r) (auto intro: triple_ret T_trydecpoint)
  have c: "\<not> is_name_char EOZ" "\<not> (cclass isdigit EOZ \<or> EOZ = ch (CHR ''.''))"
    by (simp_all add: is_name_char_def) (simp_all add: cclass_def EOZ_def)
  show ?thesis unfolding read_numeral_def
    by (rule triple_seq [OF T_save_and_next], rule triple_seq [OF T_save_while [where P = "\<lambda>c. cclass isdigit c \<or> c = ch (CHR ''.'')", OF c(2)]], rule triple_bind [OF T_check_next],
        rule triple_seq [OF e], rule triple_seq [OF T_save_while [where P = is_name_char, OF c(1)]], rule triple_seq [OF T_save],
        rule triple_bind [OF T_read], rule triple_seq [OF T_buffreplace], rule triple_bind [OF T_read],
        rule triple_bind [OF d], rule triple_ret)
qed

lemma T_skip_sep:
  "triple ends (\<lambda>ls. more N la q k ls \<and> current ls = s) skip_sep (\<lambda>r ls. leaves N la q k ls \<and> (0 \<le> r \<longrightarrow> current ls = s))"
proof -
  define f :: "int \<Rightarrow> ('d, int + int) P" where
    "f count = pbind (pget current) (\<lambda>c. if c = ch (CHR ''='') then pseq save_and_next (pret (Inl (count + 1))) else pret (Inr count))" for count
  have round: "triple ends (\<lambda>ls. leaves N la q j ls \<and> 0 \<le> count) (f count)
      (\<lambda>r ls. case r of Inl s' \<Rightarrow> 0 < j \<and> leaves N la q (j - 1) ls \<and> 0 \<le> s' | Inr x \<Rightarrow> leaves N la q j ls \<and> 0 \<le> x)" for j count
  proof (cases "0 \<le> count")
    case True
    have "triple ends (leaves N la q j) (f count)
      (\<lambda>r ls. case r of Inl s' \<Rightarrow> 0 < j \<and> leaves N la q (j - 1) ls \<and> 0 \<le> s' | Inr x \<Rightarrow> leaves N la q j ls \<and> 0 \<le> x)"
      unfolding f_def
    proof (rule T_char)
      fix c :: int assume "0 < j"
      then show "triple ends (\<lambda>ls. more N la q (j - 1) ls \<and> current ls = c)
          (if c = ch (CHR ''='') then pseq save_and_next (pret (Inl (count + 1))) else pret (Inr count))
          (\<lambda>r ls. case r of Inl s' \<Rightarrow> 0 < j \<and> leaves N la q (j - 1) ls \<and> 0 \<le> s' | Inr x \<Rightarrow> leaves N la q j ls \<and> 0 \<le> x)"
        using True more_leaves [of N la q "j - 1"]
        by (intro triple_if T_forget triple_seq [OF T_save_and_next]) (auto intro!: triple_ret)
    qed (use True in \<open>simp add: triple_ret\<close>)
    then show ?thesis by (rule triple_pre) simp
  qed (simp add: triple_False)
  have loop: "triple ends (leaves N la q k) (ploop f 0) (\<lambda>x ls. leaves N la q k ls \<and> 0 \<le> x)"
    by (rule triple_pre [OF T_loop [where I = "\<lambda>c. 0 \<le> c", OF round]]) simp
  have fin: "triple ends (\<lambda>ls. leaves N la q k ls \<and> 0 \<le> count)
      (pbind (pget current) (\<lambda>c. pret (if c = s then count else - count - 1)))
      (\<lambda>r ls. leaves N la q k ls \<and> (0 \<le> r \<longrightarrow> current ls = s))" for count :: int
    by (rule triple_bind [where Q = "\<lambda>c ls. c = current ls \<and> leaves N la q k ls \<and> 0 \<le> count"])
      (auto intro!: triple_get triple_ret)
  have "triple ends (\<lambda>ls. x = s \<and> more N la q k ls) (pseq save_and_next (pbind (ploop f 0) (\<lambda>count.
      pbind (pget current) (\<lambda>c. pret (if c = x then count else - count - 1))))) (\<lambda>r ls. leaves N la q k ls \<and> (0 \<le> r \<longrightarrow> current ls = s))" for x
    by (rule triple_pure) (simp, rule triple_seq [OF T_save_and_next], rule triple_bind [OF loop], rule fin)
  then show ?thesis unfolding skip_sep_def f_def
    by (rule triple_bind [rotated]) (rule triple_get, simp)
qed

text \<open>A step from a state whose current character is known.\<close>

lemma T_known: "c \<noteq> EOZ \<Longrightarrow> (0 < j \<Longrightarrow> triple ends (more N la q (j - 1)) m Q) \<Longrightarrow>
    triple ends (\<lambda>ls. leaves N la q j ls \<and> current ls = c) m Q"
proof -
  assume c: "c \<noteq> EOZ" and m: "0 < j \<Longrightarrow> triple ends (more N la q (j - 1)) m Q"
  show "triple ends (\<lambda>ls. leaves N la q j ls \<and> current ls = c) m Q"
  proof (cases "0 < j")
    case True
    from m [OF this] show ?thesis by (rule triple_pre) (use c leaves_more in auto)
  next
    case False
    have "\<not> (leaves N la q j ls \<and> current ls = c)" for ls using False c leaves_more [of N la q j ls] by auto
    then show ?thesis by (rule triple_False)
  qed
qed

lemma T_down: "triple ends P m (\<lambda>_. leaves N la q k) \<Longrightarrow> k < N \<Longrightarrow> k = k' - 1 \<Longrightarrow> k' < N \<Longrightarrow> triple ends P m (\<lambda>_. leaves N la q k')"
  by (erule triple_post) (auto intro: leaves_mono)

lemma T_long_round:
  assumes "0 \<le> sep"
  shows "triple ends (leaves N la q j) (long_string_round keep sep u)
    (\<lambda>r ls. case r of Inl s' \<Rightarrow> 0 < j \<and> leaves N la q (j - 1) ls | Inr x \<Rightarrow> leaves N la q j ls)"
  unfolding long_string_round_def
proof (rule T_bound', rule T_char)
  let ?Q = "\<lambda>r ls. case r of Inl s' \<Rightarrow> 0 < j \<and> leaves N la q (j - 1) ls | Inr x \<Rightarrow> leaves N la q j ls"
  show "triple ends (leaves N la q j) (if EOZ = EOZ then
         luaX_lexerror (if keep then ''unfinished long string'' else ''unfinished long comment'') TK_EOS
       else if EOZ = ch (CHR ''['') then
         pbind skip_sep (\<lambda>n.
           if n = sep then
             pseq save_and_next
             (if sep = 0 then luaX_lexerror ''nesting of [[...]] is deprecated'' (ch (CHR ''[''))
              else pret (Inl ()))
           else pret (Inl ()))
       else if EOZ = ch (CHR '']'') then
         pbind skip_sep (\<lambda>n. if n = sep then pseq save_and_next (pret (Inr ())) else pret (Inl ()))
       else if is_newline EOZ then
         pseq (save (ch (CHR 0x0A)))
         (pseq inclinenumber
         (pseq (pwhen (\<not> keep) resetbuffer) (pret (Inl ()))))
       else pseq (if keep then save_and_next else next_char) (pret (Inl ()))) ?Q"
    by (simp add: soft_lexerror)
next
  let ?Q = "\<lambda>r ls. case r of Inl s' \<Rightarrow> 0 < j \<and> leaves N la q (j - 1) ls | Inr x \<Rightarrow> leaves N la q j ls"
  fix c :: int assume j: "j < N" "0 < j" and c: "c \<noteq> EOZ"
  have after: "triple ends (\<lambda>ls. leaves N la q (j - 1) ls \<and> (0 \<le> n \<longrightarrow> current ls = c)) (if n = sep then pseq save_and_next m else pret (Inl ())) ?Q"
    if m: "triple ends (\<lambda>ls. leaves N la q (j - 1) ls \<and> leaves N la q j ls) m ?Q" for n m
  proof (rule triple_if)
    assume "n = sep"
    have "triple ends (more N la q (j - 1 - 1)) save_and_next (\<lambda>_. leaves N la q (j - 1 - 1))" by (rule T_save_and_next)
    then have "triple ends (more N la q (j - 1 - 1)) save_and_next (\<lambda>_ ls. leaves N la q (j - 1) ls \<and> leaves N la q j ls)"
      by (rule triple_post) (use j in \<open>auto intro: leaves_mono\<close>)
    then have "triple ends (more N la q (j - 1 - 1)) (pseq save_and_next m) ?Q" by (rule triple_seq [OF _ m])
    then have "triple ends (\<lambda>ls. leaves N la q (j - 1) ls \<and> current ls = c) (pseq save_and_next m) ?Q"
      by (intro T_known c)
    then show "triple ends (\<lambda>ls. leaves N la q (j - 1) ls \<and> (0 \<le> n \<longrightarrow> current ls = c)) (pseq save_and_next m) ?Q"
      by (rule triple_pre) (use assms \<open>n = sep\<close> in simp)
  qed (rule triple_ret, use j in simp)
  show "triple ends (\<lambda>ls. more N la q (j - 1) ls \<and> current ls = c) (if c = EOZ then
         luaX_lexerror (if keep then ''unfinished long string'' else ''unfinished long comment'') TK_EOS
       else if c = ch (CHR ''['') then
         pbind skip_sep (\<lambda>n.
           if n = sep then
             pseq save_and_next
             (if sep = 0 then luaX_lexerror ''nesting of [[...]] is deprecated'' (ch (CHR ''[''))
              else pret (Inl ()))
           else pret (Inl ()))
       else if c = ch (CHR '']'') then
         pbind skip_sep (\<lambda>n. if n = sep then pseq save_and_next (pret (Inr ())) else pret (Inl ()))
       else if is_newline c then
         pseq (save (ch (CHR 0x0A)))
         (pseq inclinenumber
         (pseq (pwhen (\<not> keep) resetbuffer) (pret (Inl ()))))
       else pseq (if keep then save_and_next else next_char) (pret (Inl ()))) ?Q"
  proof (intro triple_if)
    show "triple ends (\<lambda>ls. more N la q (j - 1) ls \<and> current ls = c) (pbind skip_sep (\<lambda>n.
           if n = sep then
             pseq save_and_next
             (if sep = 0 then luaX_lexerror ''nesting of [[...]] is deprecated'' (ch (CHR ''[''))
              else pret (Inl ()))
           else pret (Inl ()))) ?Q"
      by (rule triple_bind [OF T_skip_sep], rule after) (use j in \<open>auto intro!: triple_if soft_lexerror triple_ret\<close>)
    show "triple ends (\<lambda>ls. more N la q (j - 1) ls \<and> current ls = c)
        (pbind skip_sep (\<lambda>n. if n = sep then pseq save_and_next (pret (Inr ())) else pret (Inl ()))) ?Q"
      by (rule triple_bind [OF T_skip_sep], rule after) (use j in \<open>auto intro!: triple_ret\<close>)
    show "triple ends (\<lambda>ls. more N la q (j - 1) ls \<and> current ls = c) (pseq (save (ch (CHR 0x0A)))
         (pseq inclinenumber (pseq (pwhen (\<not> keep) resetbuffer) (pret (Inl ()))))) ?Q"
      by (intro T_forget triple_seq [OF T_save_more] triple_seq [OF T_inclinenumber] triple_seq [where Q = "leaves N la q (j - 1)"]
          triple_when T_reset) (use j in \<open>auto intro: triple_ret\<close>)
    show "triple ends (\<lambda>ls. more N la q (j - 1) ls \<and> current ls = c) (pseq (if keep then save_and_next else next_char) (pret (Inl ()))) ?Q"
      by (intro T_forget T_on triple_if T_save_and_next T_next j)
  qed (use c in simp)
qed

lemma T_newstring:
  assumes "q < 2 ^ 26"
  shows "triple ends (leaves N la q k) (luaX_newstring s) (\<lambda>_. leaves N la (q + 1) k)"
proof (rule tripleI)
  fix ls assume l: "leaves N la q k ls"
  then obtain fs r where f: "ls_fs ls = fs # r" "good_table q fs" by (auto simp: leaves_def)
  obtain h where h: "luaX_newstring s ls = Inr (s, ls\<lparr>ls_fs := fs\<lparr>fs_h := h\<rparr> # r\<rparr>)" "good_table (q + 1) (fs\<lparr>fs_h := h\<rparr>)"
    using luaX_newstring_ok [OF f assms, of s] by blast
  obtain inp sv n where a: "at inp sv n (others ls) ls" "length inp \<le> k" using l by (auto simp: leaves_def)
  then have "at inp sv n (others (ls\<lparr>ls_fs := fs\<lparr>fs_h := h\<rparr> # r\<rparr>)) (ls\<lparr>ls_fs := fs\<lparr>fs_h := h\<rparr> # r\<rparr>)"
    by (cases inp) (auto simp: at_def others_def)
  then have "leaves N la (q + 1) k (ls\<lparr>ls_fs := fs\<lparr>fs_h := h\<rparr> # r\<rparr>)" using l a(2) h(2) unfolding leaves_def by auto
  then show "case luaX_newstring s ls of Inl e \<Rightarrow> ends e | Inr (x, ls') \<Rightarrow> leaves N la (q + 1) k ls'" by (simp add: h(1))
qed

text \<open>The end of a string: the part of the buffer goes into the table.\<close>

lemma T_string_end:
  assumes "q < 2 ^ 26"
  shows "triple ends (leaves N la q k) (pbind (pget g) (\<lambda>n. pbind (buff_part (i n) (j n)) (\<lambda>s.
      pbind (luaX_newstring s) (\<lambda>ts. pret (SemTS ts))))) (\<lambda>_. leaves N la (q + 1) k)"
  unfolding buff_part_def
  by (intro triple_bind [OF T_read] triple_bind [OF T_newstring [OF assms]] triple_ret)

lemma T_more_q: "triple ends P m (\<lambda>_. leaves N la q k) \<Longrightarrow> triple ends P m (\<lambda>_. leaves N la (q + 1) k)"
  by (erule triple_post) (auto simp: leaves_def good_table_def)

lemma T_read_long:
  assumes "q < 2 ^ 26" "0 \<le> sep"
  shows "triple ends (more N la q k) (read_long_string keep sep) (\<lambda>_. leaves N la (if keep then q + 1 else q) k)"
  unfolding read_long_string_def
proof (rule triple_seq [OF T_save_and_next], rule T_bound', rule triple_seq)
  assume k: "k < N"
  show "triple ends (leaves N la q k) (pbind (pget current) (\<lambda>c. pwhen (is_newline c) inclinenumber)) (\<lambda>_. leaves N la q k)"
  proof (rule T_char)
    fix c :: int assume "0 < k"
    then show "triple ends (\<lambda>ls. more N la q (k - 1) ls \<and> current ls = c) (pwhen (is_newline c) inclinenumber) (\<lambda>_. leaves N la q k)"
      using k more_leaves [of N la q "k - 1"]
      by (intro triple_when T_forget T_weaken [OF T_inclinenumber]) auto
  qed (simp add: pwhen_def triple_ret)
  have "triple ends (leaves N la q k) (if keep then
        pbind (pget (\<lambda>ls. bufflen (ls_buff ls))) (\<lambda>n.
        pbind (buff_part (2 + nat sep) (n - 2 * (2 + nat sep))) (\<lambda>s.
        pbind (luaX_newstring s) (\<lambda>ts. pret (SemTS ts))))
      else pret (SemTS [])) (\<lambda>_. leaves N la (if keep then q + 1 else q) k)"
    using T_string_end [OF assms(1)] by (auto intro: triple_ret)
  then show "triple ends (leaves N la q k) (pseq (ploop (long_string_round keep sep) ()) (if keep then
        pbind (pget (\<lambda>ls. bufflen (ls_buff ls))) (\<lambda>n.
        pbind (buff_part (2 + nat sep) (n - 2 * (2 + nat sep))) (\<lambda>s.
        pbind (luaX_newstring s) (\<lambda>ts. pret (SemTS ts))))
      else pret (SemTS []))) (\<lambda>_. leaves N la (if keep then q + 1 else q) k)"
    by (rule triple_seq [OF T_loop' [OF T_long_round [OF assms(2)]]])
qed

lemma T_decimal: "triple ends (leaves N la q k) (decimal_escape n c) (\<lambda>_. leaves N la q k)"
proof (induction n arbitrary: c k)
  case 0
  then show ?case by (simp add: triple_ret)
next
  case (Suc n)
  show ?case unfolding decimal_escape.simps
  proof (rule T_bound', rule T_char)
    fix d :: int assume k: "k < N" "0 < k"
    then have "triple ends (more N la q (k - 1)) (pseq next_char (decimal_escape n (10 * c + (d - ch (CHR ''0''))))) (\<lambda>_. leaves N la q k)"
      by (intro triple_seq [OF T_next] T_weaken [OF Suc]) auto
    then show "triple ends (\<lambda>ls. more N la q (k - 1) ls \<and> current ls = d)
       (if cclass isdigit d then pseq next_char (decimal_escape n (10 * c + (d - ch (CHR ''0'')))) else pret c) (\<lambda>_. leaves N la q k)"
      using k more_leaves [of N la q "k - 1"] by (intro triple_if T_forget) (auto intro!: triple_ret)
  qed (simp add: cclass_def EOZ_def triple_ret)
qed

lemma escape_EOZ: "map_of (map (\<lambda>(x, y). (ch x, y)) escapes) EOZ = None"
  by (simp add: escapes_def)

lemma T_escape: "triple ends (more N la q k) read_escape (\<lambda>_. leaves N la q k)"
  unfolding read_escape_def
proof (rule triple_seq [OF T_next], rule T_bound', rule T_char)
  fix c :: int assume k: "k < N" "0 < k" and c: "c \<noteq> EOZ"
  have down: "triple ends P m (\<lambda>_. leaves N la q k)" if "triple ends P m (\<lambda>_. leaves N la q (k - 1))" for P m
    by (rule T_weaken [OF that]) (use k in auto)
  have dec: "triple ends (\<lambda>ls. more N la q (k - 1) ls \<and> current ls = c) (pbind (decimal_escape 3 0) (\<lambda>v.
               if v > UCHAR_MAX then luaX_lexerror ''escape sequence too large'' TK_STRING else save v)) (\<lambda>_. leaves N la q k)"
  proof (rule triple_bind)
    show "triple ends (\<lambda>ls. more N la q (k - 1) ls \<and> current ls = c) (decimal_escape 3 0) (\<lambda>_. leaves N la q k)"
      by (rule T_forget, rule triple_pre [OF T_decimal]) (use k more_leaves in fastforce)
  qed (intro triple_if soft_lexerror soft_ends T_save)
  show "triple ends (\<lambda>ls. more N la q (k - 1) ls \<and> current ls = c)
      (case map_of (map (\<lambda>(x, y). (ch x, y)) escapes) c of
         Some y \<Rightarrow> pseq (save (ch y)) next_char
       | None \<Rightarrow>
           if is_newline c then pseq (save (ch (CHR 0x0A))) inclinenumber
           else if c = EOZ then pret ()
           else if \<not> cclass isdigit c then save_and_next
           else pbind (decimal_escape 3 0) (\<lambda>v.
               if v > UCHAR_MAX then luaX_lexerror ''escape sequence too large'' TK_STRING else save v))
      (\<lambda>_. leaves N la q k)"
  proof (cases "map_of (map (\<lambda>(x, y). (ch x, y)) escapes) c")
    case None
    show ?thesis unfolding None option.case
      by (rule triple_if, rule T_forget, rule down, rule triple_seq [OF T_save_more], rule T_inclinenumber,
          rule triple_if, use c in simp, rule triple_if, rule T_forget, rule down, rule T_save_and_next, rule dec)
  next
    case (Some y)
    show ?thesis unfolding Some option.case by (intro T_forget down triple_seq [OF T_save_more] T_next)
  qed
qed (simp add: escape_EOZ triple_ret)

lemma T_string_round:
  assumes "del \<noteq> EOZ"
  shows "triple ends (leaves N la q j) (string_round del u)
    (\<lambda>r ls. case r of Inl s' \<Rightarrow> 0 < j \<and> leaves N la q (j - 1) ls | Inr x \<Rightarrow> leaves N la q j ls \<and> current ls = del)"
  unfolding string_round_def
proof (rule T_char)
  let ?Q = "\<lambda>r ls. case r of Inl s' \<Rightarrow> 0 < j \<and> leaves N la q (j - 1) ls | Inr x \<Rightarrow> leaves N la q j ls \<and> current ls = del"
  fix c :: int assume j: "0 < j" and c: "c \<noteq> EOZ"
  show "triple ends (\<lambda>ls. more N la q (j - 1) ls \<and> current ls = c) (if c = del then pret (Inr ())
       else if c = EOZ then luaX_lexerror ''unfinished string'' TK_EOS
       else if is_newline c then luaX_lexerror ''unfinished string'' TK_STRING
       else pseq (if c = ch (CHR 0x5C) then read_escape else save_and_next) (pret (Inl ()))) ?Q"
  proof (intro triple_if soft_lexerror soft_ends)
    show "triple ends (\<lambda>ls. more N la q (j - 1) ls \<and> current ls = c) (pret (Inr ())) ?Q" if "c = del"
      by (rule triple_ret) (use that j more_leaves in fastforce)
    show "triple ends (\<lambda>ls. more N la q (j - 1) ls \<and> current ls = c)
        (pseq (if c = ch (CHR 0x5C) then read_escape else save_and_next) (pret (Inl ()))) ?Q"
      by (rule T_forget, rule triple_seq [OF triple_if [OF T_escape T_save_and_next]]) (rule triple_ret, use j in simp)
  qed
next
  show "triple ends (leaves N la q j) (if EOZ = del then pret (Inr ())
       else if EOZ = EOZ then luaX_lexerror ''unfinished string'' TK_EOS
       else if is_newline EOZ then luaX_lexerror ''unfinished string'' TK_STRING
       else pseq (if EOZ = ch (CHR 0x5C) then read_escape else save_and_next) (pret (Inl ())))
     (\<lambda>r ls. case r of Inl s' \<Rightarrow> 0 < j \<and> leaves N la q (j - 1) ls | Inr x \<Rightarrow> leaves N la q j ls \<and> current ls = del)"
    using assms by (auto intro: soft_lexerror)
qed

lemma T_read_string:
  assumes "q < 2 ^ 26" "del \<noteq> EOZ"
  shows "triple ends (more N la q k) (read_string del) (\<lambda>_. leaves N la (q + 1) k)"
  unfolding read_string_def
proof (rule triple_seq [OF T_save_and_next], rule T_bound', rule triple_seq)
  assume k: "k < N"
  have "triple ends (\<lambda>ls. leaves N la q j ls \<and> True) (string_round del s)
      (\<lambda>r ls. case r of Inl s' \<Rightarrow> 0 < j \<and> leaves N la q (j - 1) ls \<and> True | Inr x \<Rightarrow> leaves N la q j ls \<and> current ls = del)" for s j
    using T_string_round [OF assms(2)] unfolding simp_thms .
  from T_loop [where I = "\<lambda>_. True", OF this]
  show "triple ends (leaves N la q k) (ploop (string_round del) ()) (\<lambda>_ ls. leaves N la q k ls \<and> current ls = del)" by simp
  show "triple ends (\<lambda>ls. leaves N la q k ls \<and> current ls = del) (pseq save_and_next
     (pbind (pget (\<lambda>ls. bufflen (ls_buff ls))) (\<lambda>n. pbind (buff_part 1 (n - 2)) (\<lambda>s.
      pbind (luaX_newstring s) (\<lambda>ts. pret (SemTS ts)))))) (\<lambda>_. leaves N la (q + 1) k)"
  proof (rule T_known [OF assms(2)], rule triple_seq [OF T_save_and_next])
    show "triple ends (leaves N la q (k - 1)) (pbind (pget (\<lambda>ls. bufflen (ls_buff ls))) (\<lambda>n. pbind (buff_part 1 (n - 2)) (\<lambda>s.
      pbind (luaX_newstring s) (\<lambda>ts. pret (SemTS ts))))) (\<lambda>_. leaves N la (q + 1) k)"
      by (rule T_weaken [OF T_string_end [OF assms(1)]]) (use k in auto)
  qed
qed

lemma T_skip_comment: "triple ends (leaves N la q k) skip_comment (\<lambda>_. leaves N la q k)"
  unfolding skip_comment_def
proof (rule T_loop', rule T_char)
  fix j :: nat and c :: int assume "0 < j"
  then show "triple ends (\<lambda>ls. more N la q (j - 1) ls \<and> current ls = c)
      (if \<not> is_newline c \<and> c \<noteq> EOZ then pseq next_char (pret (Inl ())) else pret (Inr ()))
      (\<lambda>r ls. case r of Inl s' \<Rightarrow> 0 < j \<and> leaves N la q (j - 1) ls | Inr x \<Rightarrow> leaves N la q j ls)"
    by (intro triple_if T_off_more T_forget T_on T_next)
qed (simp add: T_off)

text \<open>After \<open>skip_sep\<close> with a separator there is the second bracket.\<close>

lemma T_after_sep:
  fixes r :: int
  assumes "c \<noteq> EOZ" "k < N" "0 \<le> r \<Longrightarrow> triple ends (more N la q (k - 1)) m Q" "r < 0 \<Longrightarrow> triple ends (leaves N la q k) m Q"
  shows "triple ends (\<lambda>ls. leaves N la q k ls \<and> (0 \<le> r \<longrightarrow> current ls = c)) m Q"
proof (cases "0 \<le> r")
  case True
  have "triple ends (\<lambda>ls. leaves N la q k ls \<and> current ls = c) m Q"
    by (rule T_known [OF assms(1)]) (use assms(3) True in simp)
  then show ?thesis by (rule triple_pre) (use True in simp)
next
  case False
  have "triple ends (leaves N la q k) m Q" by (rule assms(4)) (use False in linarith)
  then show ?thesis by (rule triple_pre) simp
qed

lemma T_comment:
  assumes "q < 2 ^ 26"
  shows "triple ends (more N la q k) lex_comment (\<lambda>_. leaves N la q k)"
  unfolding lex_comment_def
proof (rule triple_seq [OF T_next], rule T_bound', rule T_char)
  fix c :: int assume k: "k < N" "0 < k" and c: "c \<noteq> EOZ"
  have down: "triple ends P m (\<lambda>_. leaves N la q k)" if "triple ends P m (\<lambda>_. leaves N la q (k - 1))" for P m
    by (rule T_weaken [OF that]) (use k in auto)
  have long: "triple ends (\<lambda>ls. leaves N la q (k - 1) ls \<and> (0 \<le> sep \<longrightarrow> current ls = c)) (pseq resetbuffer
         (if sep \<ge> 0 then pseq (pbind (read_long_string False sep) (\<lambda>_. pret ())) resetbuffer else skip_comment)) (\<lambda>_. leaves N la q k)" for sep
  proof (rule T_after_sep [OF c])
    assume sep: "0 \<le> sep"
    have long: "triple ends (more N la q (k - 1 - 1)) (read_long_string False sep) (\<lambda>_. leaves N la q (k - 1 - 1))"
      using T_read_long [OF assms sep, where keep = False] by simp
    show "triple ends (more N la q (k - 1 - 1)) (pseq resetbuffer
         (if sep \<ge> 0 then pseq (pbind (read_long_string False sep) (\<lambda>_. pret ())) resetbuffer else skip_comment)) (\<lambda>_. leaves N la q k)"
      unfolding if_P [OF sep]
      apply (rule triple_seq [OF T_reset(2)])
      apply (rule triple_seq [OF _ T_reset(1)])
      apply (rule triple_bind)
       apply (rule T_weaken [where k = "k - 1 - 1" and k' = k])
         apply (rule long)
        apply simp
       apply (rule k(1))
      apply (rule triple_ret, assumption)
      done
  next
    assume "sep < 0"
    then show "triple ends (leaves N la q (k - 1)) (pseq resetbuffer
         (if sep \<ge> 0 then pseq (pbind (read_long_string False sep) (\<lambda>_. pret ())) resetbuffer else skip_comment)) (\<lambda>_. leaves N la q k)"
      using T_skip_comment [of N la q "k - 1", THEN down] by (simp, intro triple_seq [OF T_reset(1)])
  qed (use k in simp)
  show "triple ends (\<lambda>ls. more N la q (k - 1) ls \<and> current ls = c) (if c = ch (CHR ''['') then
         pbind skip_sep (\<lambda>sep.
         pseq resetbuffer
         (if sep \<ge> 0 then pseq (pbind (read_long_string False sep) (\<lambda>_. pret ())) resetbuffer else skip_comment))
       else skip_comment) (\<lambda>_. leaves N la q k)"
  proof (rule triple_if)
    show "triple ends (\<lambda>ls. more N la q (k - 1) ls \<and> current ls = c) (pbind skip_sep (\<lambda>sep. pseq resetbuffer
         (if sep \<ge> 0 then pseq (pbind (read_long_string False sep) (\<lambda>_. pret ())) resetbuffer else skip_comment))) (\<lambda>_. leaves N la q k)"
      by (rule triple_bind [OF T_skip_sep long])
    show "triple ends (\<lambda>ls. more N la q (k - 1) ls \<and> current ls = c) skip_comment (\<lambda>_. leaves N la q k)"
      by (rule triple_pre [OF T_skip_comment]) (use k more_leaves in fastforce)
  qed
qed (simp add: T_skip_comment)

lemma T_with_eq: "triple ends (more N la q k) (with_eq c t) (\<lambda>_. leaves N la q k)"
  unfolding with_eq_def
proof (rule triple_seq [OF T_next], rule T_bound', rule T_char)
  fix d :: int assume k: "k < N" "0 < k"
  then have "triple ends (more N la q (k - 1)) (pseq next_char (pret t)) (\<lambda>_. leaves N la q k)"
    by (intro triple_seq [OF T_next] triple_ret) (auto intro: leaves_mono)
  then show "triple ends (\<lambda>ls. more N la q (k - 1) ls \<and> current ls = d)
      (if d \<noteq> ch (CHR ''='') then pret c else pseq next_char (pret t)) (\<lambda>_. leaves N la q k)"
    using k more_leaves [of N la q "k - 1"] by (intro triple_if T_forget) (auto intro!: triple_ret)
qed (simp add: triple_ret)

lemma T_dot: "triple ends (more N la q k) (lex_dot si) (\<lambda>_. leaves N la q k)"
  unfolding lex_dot_def
proof (rule triple_seq [OF T_save_and_next], rule T_bound', rule triple_bind [OF T_check_next])
  fix two assume k: "k < N"
  have "triple ends (leaves N la q k) (pbind (pget current) (\<lambda>c.
           if \<not> cclass isdigit c then pret (ch (CHR ''.''), si) else pbind read_numeral (\<lambda>r. pret (TK_NUMBER, r)))) (\<lambda>_. leaves N la q k)"
  proof (rule T_char)
    fix c :: int assume "0 < k"
    then show "triple ends (\<lambda>ls. more N la q (k - 1) ls \<and> current ls = c)
        (if \<not> cclass isdigit c then pret (ch (CHR ''.''), si) else pbind read_numeral (\<lambda>r. pret (TK_NUMBER, r))) (\<lambda>_. leaves N la q k)"
      using k more_leaves [of N la q "k - 1"]
      by (intro triple_if T_forget triple_bind [OF T_weaken [OF T_numeral, where k' = k]]) (auto intro!: triple_ret)
  qed (simp add: cclass_def EOZ_def triple_ret)
  then show "triple ends (leaves N la q k) (if two then pbind (check_next ''.'') (\<lambda>three. pret (if three then TK_DOTS else TK_CONCAT, si))
       else pbind (pget current) (\<lambda>c.
           if \<not> cclass isdigit c then pret (ch (CHR ''.''), si) else pbind read_numeral (\<lambda>r. pret (TK_NUMBER, r)))) (\<lambda>_. leaves N la q k)"
    by (intro triple_if triple_bind [OF T_check_next] triple_ret)
qed

lemma T_name: "q < 2 ^ 26 \<Longrightarrow> triple ends (more N la q k) (lex_name si) (\<lambda>_. leaves N la (q + 1) k)"
proof -
  assume q: "q < 2 ^ 26"
  have "\<not> is_name_char EOZ" by (simp add: is_name_char_def) (simp add: cclass_def EOZ_def)
  then show ?thesis unfolding lex_name_def buff_part_def
    by (intro triple_seq [OF T_save_and_next] triple_seq [OF T_save_while [where P = is_name_char]] triple_bind [OF T_read]
        triple_bind [OF T_newstring [OF q]] triple_if triple_ret)
qed

subsection \<open>Tokens\<close>

text \<open>What a round of \<open>llex\<close> leaves: with no token yet, or a token that is the end or took a character.\<close>

definition scanned :: "nat \<Rightarrow> Token \<Rightarrow> nat \<Rightarrow> nat \<Rightarrow> int \<Rightarrow> 'd LexState \<Rightarrow> bool" where
  "scanned N la q j t ls \<longleftrightarrow> (t = TK_EOS \<and> leaves N la (q + 1) j ls) \<or> (0 < j \<and> leaves N la (q + 1) (j - 1) ls)"

definition scanned_round :: "nat \<Rightarrow> Token \<Rightarrow> nat \<Rightarrow> nat \<Rightarrow> unit + (int \<times> SemInfo) \<Rightarrow> 'd LexState \<Rightarrow> bool" where
  "scanned_round N la q j r ls \<longleftrightarrow>
     (case r of Inl s \<Rightarrow> 0 < j \<and> leaves N la q (j - 1) ls | Inr x \<Rightarrow> scanned N la q j (prod.fst x) ls)"

lemma leaves_up: "leaves N la q k ls \<Longrightarrow> leaves N la (q + 1) k ls"
  by (rule leaves_mono) (auto simp: leaves_def)

lemma T_up: "triple ends P m (\<lambda>_. leaves N la q k) \<Longrightarrow> triple ends P m (\<lambda>_. leaves N la (q + 1) k)"
  by (erule triple_post) (rule leaves_up)

lemma T_go: "0 < j \<Longrightarrow> triple ends P m (\<lambda>_. leaves N la q (j - 1)) \<Longrightarrow> triple ends P (pseq m (pret (Inl ()))) (scanned_round N la q j)"
  by (rule triple_seq, assumption, rule triple_ret) (simp add: scanned_round_def)

lemma T_tok:
  "0 < j \<Longrightarrow> triple ends P m (\<lambda>_. leaves N la (q + 1) (j - 1)) \<Longrightarrow> triple ends P (pbind m (\<lambda>r. pret (Inr r))) (scanned_round N la q j)"
  by (rule triple_bind, assumption, rule triple_ret) (simp add: scanned_round_def scanned_def)

lemma T_tok_bind:
  "0 < j \<Longrightarrow> triple ends P m (\<lambda>_. leaves N la (q + 1) (j - 1)) \<Longrightarrow>
    triple ends P (pbind (pbind m (\<lambda>r. pret (f r))) (\<lambda>r. pret (Inr r))) (scanned_round N la q j)"
  by (rule T_tok, assumption, rule triple_bind, assumption, rule triple_ret)

lemma T_done: "0 < j \<Longrightarrow> triple ends (leaves N la q (j - 1)) (pret (Inr x)) (scanned_round N la q j)"
  by (rule triple_ret) (use leaves_up in \<open>auto simp: scanned_round_def scanned_def\<close>)

lemma T_long_token:
  assumes "q < 2 ^ 26" "0 < j" "j < N" "c \<noteq> EOZ"
  shows "triple ends (\<lambda>ls. more N la q (j - 1) ls \<and> current ls = c) (pbind skip_sep (\<lambda>sep.
           if sep \<ge> 0 then pbind (pbind (read_long_string True sep) (\<lambda>r. pret (TK_STRING, r))) (\<lambda>r. pret (Inr r))
           else if sep = - 1 then pret (Inr (ch (CHR ''[''), si))
           else luaX_lexerror ''invalid long string delimiter'' TK_STRING)) (scanned_round N la q j)"
proof (rule triple_bind [OF T_skip_sep], rule T_after_sep [OF assms(4)])
  fix sep :: int
  show "j - 1 < N" using assms by simp
  assume sep: "0 \<le> sep"
  have r: "triple ends (more N la q (j - 1 - 1)) (read_long_string True sep) (\<lambda>_. leaves N la (q + 1) (j - 1 - 1))"
    using T_read_long [OF assms(1) sep, where keep = True] by simp
  show "triple ends (more N la q (j - 1 - 1))
     (if sep \<ge> 0 then pbind (pbind (read_long_string True sep) (\<lambda>r. pret (TK_STRING, r))) (\<lambda>r. pret (Inr r))
      else if sep = - 1 then pret (Inr (ch (CHR ''[''), si)) else luaX_lexerror ''invalid long string delimiter'' TK_STRING) (scanned_round N la q j)"
    unfolding if_P [OF sep]
    by (rule T_tok_bind [OF assms(2)], rule T_weaken [OF r]) (use assms in auto)
next
  fix sep :: int assume sep: "sep < 0"
  then have n: "\<not> 0 \<le> sep" by simp
  show "triple ends (leaves N la q (j - 1))
     (if sep \<ge> 0 then pbind (pbind (read_long_string True sep) (\<lambda>r. pret (TK_STRING, r))) (\<lambda>r. pret (Inr r))
      else if sep = - 1 then pret (Inr (ch (CHR ''[''), si)) else luaX_lexerror ''invalid long string delimiter'' TK_STRING) (scanned_round N la q j)"
    unfolding if_not_P [OF n] by (rule triple_if, rule T_done [OF assms(2)], rule soft_lexerror, rule soft_ends)
qed

lemma char_not_EOZ [simp]: "ch c \<noteq> EOZ" "EOZ \<noteq> ch c"
  by (simp_all add: EOZ_def char2int_def)

lemma T_minus:
  assumes "q < 2 ^ 26" "0 < j" "j < N"
  shows "triple ends (more N la q (j - 1)) (pseq next_char (pbind (pget current) (\<lambda>d.
           if d \<noteq> ch (CHR ''-'') then pret (Inr (ch (CHR ''-''), si)) else pseq lex_comment (pret (Inl ())))))
     (scanned_round N la q j)"
proof (rule triple_seq [OF T_next], rule T_char)
  fix d assume d: "0 < j - 1" "d \<noteq> EOZ"
  have c: "triple ends (more N la q (j - 1 - 1)) lex_comment (\<lambda>_. leaves N la q (j - 1))"
    by (rule T_weaken [OF T_comment [OF assms(1)]]) (use assms in auto)
  have e: "Suc (j - 1 - 1) = j - 1" using d by simp
  have s: "triple ends (more N la q (j - 1 - 1)) (pret (Inr (ch (CHR ''-''), si))) (scanned_round N la q j)"
    by (rule triple_pre [OF T_done [OF assms(2)]]) (rule more_leaves [of N la q "j - 1 - 1", unfolded e])
  show "triple ends (\<lambda>ls. more N la q (j - 1 - 1) ls \<and> current ls = d)
      (if d \<noteq> ch (CHR ''-'') then pret (Inr (ch (CHR ''-''), si)) else pseq lex_comment (pret (Inl ()))) (scanned_round N la q j)"
    by (rule T_forget, rule triple_if, rule s, rule T_go [OF assms(2) c])
next
  show "triple ends (leaves N la q (j - 1))
      (if EOZ \<noteq> ch (CHR ''-'') then pret (Inr (ch (CHR ''-''), si)) else pseq lex_comment (pret (Inl ()))) (scanned_round N la q j)"
    using T_done [OF assms(2)] by simp
qed

lemma T_round:
  assumes "q < 2 ^ 26"
  shows "triple ends (leaves N la q j) (llex_round si u) (scanned_round N la q j)"
  unfolding llex_round_def Let_def
proof (rule T_bound', rule T_char)
  fix c :: int assume j: "j < N" "0 < j" and c: "c \<noteq> EOZ"
  have eq: "triple ends (more N la q (j - 1)) (with_eq c t) (\<lambda>_. leaves N la (q + 1) (j - 1))" for t
    by (rule T_up [OF T_with_eq])
  have str: "triple ends (more N la q (j - 1)) (read_string c) (\<lambda>_. leaves N la (q + 1) (j - 1))"
    by (rule T_read_string [OF assms c])
  show "triple ends (\<lambda>ls. more N la q (j - 1) ls \<and> current ls = c)
      (if is_newline c then pseq inclinenumber (pret (Inl ()))
       else if c = ch (CHR ''-'') then
         pseq next_char
         (pbind (pget current) (\<lambda>d.
           if d \<noteq> ch (CHR ''-'') then pret (Inr (ch (CHR ''-''), si))
           else pseq lex_comment (pret (Inl ()))))
       else if c = ch (CHR ''['') then
         pbind skip_sep (\<lambda>sep.
           if sep \<ge> 0 then pbind (pbind (read_long_string True sep) (\<lambda>r. pret (TK_STRING, r))) (\<lambda>r. pret (Inr r))
           else if sep = - 1 then pret (Inr (ch (CHR ''[''), si))
           else luaX_lexerror ''invalid long string delimiter'' TK_STRING)
       else if c = ch (CHR ''='') then pbind (pbind (with_eq c TK_EQ) (\<lambda>k. pret (k, si))) (\<lambda>r. pret (Inr r))
       else if c = ch (CHR ''<'') then pbind (pbind (with_eq c TK_LE) (\<lambda>k. pret (k, si))) (\<lambda>r. pret (Inr r))
       else if c = ch (CHR ''>'') then pbind (pbind (with_eq c TK_GE) (\<lambda>k. pret (k, si))) (\<lambda>r. pret (Inr r))
       else if c = ch (CHR ''~'') then pbind (pbind (with_eq c TK_NE) (\<lambda>k. pret (k, si))) (\<lambda>r. pret (Inr r))
       else if c = ch (CHR 0x22) \<or> c = ch (CHR 0x27) then
         pbind (pbind (read_string c) (\<lambda>r. pret (TK_STRING, r))) (\<lambda>r. pret (Inr r))
       else if c = ch (CHR ''.'') then pbind (lex_dot si) (\<lambda>r. pret (Inr r))
       else if c = EOZ then pret (Inr (TK_EOS, si))
       else if cclass isspace c then pseq next_char (pret (Inl ()))
       else if cclass isdigit c then pbind (pbind read_numeral (\<lambda>r. pret (TK_NUMBER, r))) (\<lambda>r. pret (Inr r))
       else if cclass isalpha c \<or> c = ch (CHR ''_'') then pbind (lex_name si) (\<lambda>r. pret (Inr r))
       else pseq next_char (pret (Inr (c, si)))) (scanned_round N la q j)"
    apply (rule triple_if, rule T_forget, rule T_go [OF j(2) T_inclinenumber])
    apply (rule triple_if, rule T_forget, rule T_minus [OF assms j(2,1)])
    apply (rule triple_if, rule T_long_token [OF assms j(2,1) c])
    apply (rule T_forget)
    apply (rule triple_if, rule T_tok_bind [OF j(2) eq])+
    apply (rule triple_if, rule T_tok_bind [OF j(2) str])
    apply (rule triple_if, rule T_tok [OF j(2) T_up [OF T_dot]])
    apply (rule triple_if, use c in simp)
    apply (rule triple_if, rule T_go [OF j(2) T_next])
    apply (rule triple_if, rule T_tok_bind [OF j(2) T_up [OF T_numeral]])
    apply (rule triple_if, rule T_tok [OF j(2) T_name [OF assms]])
    apply (rule triple_seq [OF T_next], rule T_done [OF j(2)])
    done
next
  have "\<not> is_newline EOZ" by (simp add: is_newline_def)
  then show "triple ends (leaves N la q j) (if is_newline EOZ then pseq inclinenumber (pret (Inl ()))
       else if EOZ = ch (CHR ''-'') then
         pseq next_char
         (pbind (pget current) (\<lambda>d.
           if d \<noteq> ch (CHR ''-'') then pret (Inr (ch (CHR ''-''), si))
           else pseq lex_comment (pret (Inl ()))))
       else if EOZ = ch (CHR ''['') then
         pbind skip_sep (\<lambda>sep.
           if sep \<ge> 0 then pbind (pbind (read_long_string True sep) (\<lambda>r. pret (TK_STRING, r))) (\<lambda>r. pret (Inr r))
           else if sep = - 1 then pret (Inr (ch (CHR ''[''), si))
           else luaX_lexerror ''invalid long string delimiter'' TK_STRING)
       else if EOZ = ch (CHR ''='') then pbind (pbind (with_eq EOZ TK_EQ) (\<lambda>k. pret (k, si))) (\<lambda>r. pret (Inr r))
       else if EOZ = ch (CHR ''<'') then pbind (pbind (with_eq EOZ TK_LE) (\<lambda>k. pret (k, si))) (\<lambda>r. pret (Inr r))
       else if EOZ = ch (CHR ''>'') then pbind (pbind (with_eq EOZ TK_GE) (\<lambda>k. pret (k, si))) (\<lambda>r. pret (Inr r))
       else if EOZ = ch (CHR ''~'') then pbind (pbind (with_eq EOZ TK_NE) (\<lambda>k. pret (k, si))) (\<lambda>r. pret (Inr r))
       else if EOZ = ch (CHR 0x22) \<or> EOZ = ch (CHR 0x27) then
         pbind (pbind (read_string EOZ) (\<lambda>r. pret (TK_STRING, r))) (\<lambda>r. pret (Inr r))
       else if EOZ = ch (CHR ''.'') then pbind (lex_dot si) (\<lambda>r. pret (Inr r))
       else if EOZ = EOZ then pret (Inr (TK_EOS, si))
       else if cclass isspace EOZ then pseq next_char (pret (Inl ()))
       else if cclass isdigit EOZ then pbind (pbind read_numeral (\<lambda>r. pret (TK_NUMBER, r))) (\<lambda>r. pret (Inr r))
       else if cclass isalpha EOZ \<or> EOZ = ch (CHR ''_'') then pbind (lex_name si) (\<lambda>r. pret (Inr r))
       else pseq next_char (pret (Inr (EOZ, si)))) (scanned_round N la q j)"
    using leaves_up by (simp only: char_not_EOZ refl if_False if_True simp_thms) (auto intro!: triple_ret simp: scanned_round_def scanned_def)
qed

lemma T_llex:
  assumes "q < 2 ^ 26"
  shows "triple ends (leaves N la q k) (llex si) (\<lambda>(t, s). scanned N la q k t)"
  unfolding llex_def
proof (rule triple_seq [OF T_reset(1)], rule T_bound')
  assume k: "k < N"
  show "triple ends (leaves N la q k) (ploop (llex_round si) ()) (\<lambda>(t, s). scanned N la q k t)"
  proof (rule triple_loop [where n = N and I = "\<lambda>s j ls. j \<le> k \<and> leaves N la q j ls"])
    fix s :: unit and j
    show "triple ends (\<lambda>ls. (j \<le> k \<and> leaves N la q j ls) \<and> j < N) (llex_round si s)
        (\<lambda>r ls. case r of Inl s' \<Rightarrow> 0 < j \<and> j - 1 \<le> k \<and> leaves N la q (j - 1) ls
          | Inr x \<Rightarrow> (case x of (t, s) \<Rightarrow> scanned N la q k t) ls)"
    proof (cases "j \<le> k")
      case True
      show ?thesis
      proof (rule triple_conseq [OF T_round [OF assms, of N la j si s]])
        fix r and ls :: "'d LexState" assume r: "scanned_round N la q j r ls"
        have up: "leaves N la (q + 1) i ls \<Longrightarrow> i \<le> i' \<Longrightarrow> i' \<le> k \<Longrightarrow> leaves N la (q + 1) i' ls" for i i'
          by (rule leaves_mono) (use k in auto)
        show "case r of Inl s' \<Rightarrow> 0 < j \<and> j - 1 \<le> k \<and> leaves N la q (j - 1) ls
            | Inr x \<Rightarrow> (case x of (t, s) \<Rightarrow> scanned N la q k t) ls"
        proof (cases r)
          case (Inl u)
          then show ?thesis using r True by (simp add: scanned_round_def)
        next
          case (Inr x)
          have "j - 1 \<le> k - 1" "k - 1 \<le> k" using True by simp_all
          then show ?thesis using Inr r True up [of j k] up [of "j - 1" "k - 1"]
            by (cases x) (auto simp: scanned_round_def scanned_def)
        qed
      qed simp
    qed (auto intro: triple_False)
  qed (use k in \<open>auto simp: leaves_def\<close>)
qed

end

text \<open>\<open>luaX_next\<close> again and again, until a token is the end of the source but at most \<open>n\<close> times.\<close>

fun scan :: "nat \<Rightarrow> ('d, bool) P" where
  "scan 0 = pret False"
| "scan (Suc n) = pseq luaX_next (pbind (pget (\<lambda>ls. token (ls_t ls))) (\<lambda>t. if t = TK_EOS then pret True else scan n))"

context byte_reader
begin

text \<open>The whole sequence: \<open>luaX_next\<close> until the end of the source, at most \<open>n\<close> times.\<close>

lemma leaves_lex: "leaves N la q k (ls\<lparr>ls_t := t\<rparr>) = leaves N la q k ls" "leaves N la q k (ls\<lparr>lastline := l\<rparr>) = leaves N la q k ls"
proof -
  have a: "(\<exists>sv n. at inp sv n (others ls') ls') \<longleftrightarrow> (\<exists>sv n. at inp sv n (others ls) ls)"
    if "ls' = ls\<lparr>ls_t := t\<rparr> \<or> ls' = ls\<lparr>lastline := l\<rparr>" for inp ls'
    using that by (cases inp) (auto simp: at_def)
  show "leaves N la q k (ls\<lparr>ls_t := t\<rparr>) = leaves N la q k ls" "leaves N la q k (ls\<lparr>lastline := l\<rparr>) = leaves N la q k ls"
    unfolding leaves_def using a [of "ls\<lparr>ls_t := t\<rparr>"] a [of "ls\<lparr>lastline := l\<rparr>"] by auto
qed

lemma T_luaX_next:
  assumes "q < 2 ^ 26" "token la = TK_EOS"
  shows "triple ends (leaves N la q k) luaX_next (\<lambda>_ ls. scanned N la q k (token (ls_t ls)) ls)"
  unfolding luaX_next_def
proof (rule triple_seq)
  show "triple ends (leaves N la q k) (pmod (\<lambda>ls. ls\<lparr>lastline := linenumber ls\<rparr>)) (\<lambda>_. leaves N la q k)"
    by (rule triple_mod) (simp only: leaves_lex)
  have l: "triple ends (leaves N la q k) (pbind (pget (\<lambda>ls. seminfo (ls_t ls))) (\<lambda>si.
         pbind (llex si) (\<lambda>(k, si). pmod (\<lambda>ls. ls\<lparr>ls_t := \<lparr>token = k, seminfo = si\<rparr>\<rparr>))))
       (\<lambda>_ ls. scanned N la q k (token (ls_t ls)) ls)"
  proof (rule triple_bind [OF T_read], rule triple_bind [OF T_llex [OF assms(1)]])
    fix x :: "int \<times> SemInfo"
    show "triple ends (case x of (t, s) \<Rightarrow> scanned N la q k t) (case x of (k, si) \<Rightarrow> pmod (\<lambda>ls. ls\<lparr>ls_t := \<lparr>token = k, seminfo = si\<rparr>\<rparr>))
       (\<lambda>_ ls. scanned N la q k (token (ls_t ls)) ls)"
      by (cases x) (auto intro!: triple_mod simp: scanned_def leaves_lex)
  qed
  show "triple ends (leaves N la q k) (pbind (pget lookahead) (\<lambda>la.
       if token la \<noteq> TK_EOS then pmod (\<lambda>ls. ls\<lparr>ls_t := la, lookahead := la\<lparr>token := TK_EOS\<rparr>\<rparr>)
       else pbind (pget (\<lambda>ls. seminfo (ls_t ls))) (\<lambda>si.
         pbind (llex si) (\<lambda>(k, si). pmod (\<lambda>ls. ls\<lparr>ls_t := \<lparr>token = k, seminfo = si\<rparr>\<rparr>)))))
       (\<lambda>_ ls. scanned N la q k (token (ls_t ls)) ls)"
  proof (rule triple_bind [where Q = "\<lambda>x ls. x = la \<and> leaves N la q k ls"])
    show "triple ends (leaves N la q k) (pget lookahead) (\<lambda>x ls. x = la \<and> leaves N la q k ls)"
      by (rule triple_get) (simp add: leaves_def)
  qed (rule triple_pure, simp add: assms(2) l)
qed

lemma T_scan:
  assumes "k < n" "q + k < 2 ^ 26" "token la = TK_EOS"
  shows "triple ends (leaves N la q k) (scan n) (\<lambda>x _. x)"
  using assms(1,2)
proof (induction n arbitrary: q k)
  case (Suc n)
  have q: "q < 2 ^ 26" using Suc.prems by simp
  show ?case unfolding scan.simps
  proof (rule triple_seq [OF T_luaX_next [OF q assms(3)]],
      rule triple_bind [where Q = "\<lambda>t. scanned N la q k t"])
    show "triple ends (\<lambda>ls. scanned N la q k (token (ls_t ls)) ls) (pget (\<lambda>ls. token (ls_t ls))) (\<lambda>t. scanned N la q k t)"
      by (rule triple_get)
    fix t :: int
    show "triple ends (scanned N la q k t) (if t = TK_EOS then pret True else scan n) (\<lambda>x _. x)"
    proof (rule triple_if)
      assume t: "t \<noteq> TK_EOS"
      show "triple ends (scanned N la q k t) (scan n) (\<lambda>x _. x)"
      proof (cases "0 < k")
        case True
        have "triple ends (leaves N la (q + 1) (k - 1)) (scan n) (\<lambda>x _. x)" using True Suc.prems by (intro Suc.IH) auto
        then show ?thesis by (rule triple_pre) (use t in \<open>auto simp: scanned_def\<close>)
      qed (use t in \<open>auto simp: scanned_def intro: triple_False\<close>)
    qed (simp add: triple_ret)
  qed
qed simp

lemma scan_ends:
  assumes "ok d" "bufflen buff = 0" "length (content d) < fuel" "length (content d) < 2 ^ 26"
  shows "case pseq open_func (scan (length (content d) + 1)) (luaX_setinput pw fuel calls (luaZ_init rd d) buff src) of
    Inl e \<Rightarrow> e \<noteq> OutOfFuel | Inr (at_end, _) \<Rightarrow> at_end"
proof -
  define ls0 where "ls0 = luaX_setinput pw fuel calls (luaZ_init rd d) buff src"
  let ?la = "\<lparr>token = TK_EOS, seminfo = SemTS []\<rparr>"
  obtain h where h: "open_func ls0 = Inr ((), ls0\<lparr>ls_fs := [new_funcstate h]\<rparr>)" "good_table 0 (new_funcstate h)"
    using open_func_ok [of ls0] by (auto simp: ls0_def)
  define ls1 where "ls1 = ls0\<lparr>ls_fs := [new_funcstate h]\<rparr>"
  have "at (content d) [] 1 (others ls1) ls1"
    using setinput_chars [OF assms(1) ls0_def]
    by (cases "content d") (auto simp: assms(2) at_def ls1_def ls0_def buffer_ok_def luaZ_resizebuffer_def LUA_MINBUFFER_def)
  then have l: "leaves fuel ?la 0 (length (content d)) ls1"
    using h(2) assms(3) unfolding leaves_def by (auto simp: ls1_def ls0_def)
  have "triple ends (leaves fuel ?la 0 (length (content d))) (scan (length (content d) + 1)) (\<lambda>x _. x)"
    by (rule T_scan) (use assms(4) in simp_all)
  from tripleD [OF this l]
  have "case scan (length (content d) + 1) ls1 of Inl e \<Rightarrow> ends e | Inr (x, ls') \<Rightarrow> x" .
  moreover have "pseq open_func m ls0 = m ls1" for m :: "('d, bool) P" using h(1) by (simp add: pseq_def pbind_def ls1_def)
  ultimately show ?thesis unfolding ls0_def [symmetric] by (simp only: ends_def)
qed

end

text \<open>
  C40: the scanner comes to the end of every source. Whatever the bytes the reader delivers, with fuel above
  their number and fewer than \<open>2 ^ 26\<close> of them, no loop of the scanner runs out of fuel, and of
  \<open>length + 1\<close> calls of \<^verbatim>\<open>luaX_next\<close> one gives the token \<^verbatim>\<open>TK_EOS\<close> unless
  one raises an error: each token but the last takes a character.
\<close>

theorem scanner_reaches_end:
  assumes "byte_reader rd content ok" "ok d" "bufflen buff = 0"
    and "length (content d) < fuel" "length (content d) < 2 ^ 26"
  shows "case pseq open_func (scan (length (content d) + 1)) (luaX_setinput pw fuel calls (luaZ_init rd d) buff src) of
    Inl e \<Rightarrow> e \<noteq> OutOfFuel | Inr (at_end, _) \<Rightarrow> at_end"
  by (rule byte_reader.scan_ends [OF assms])

text \<open>A source of two comments and an unfinished string.\<close>

theorem scanner_reaches_end_witness:
  "case pseq open_func (scan 19) (luaX_setinput (\<lambda>a b. a) 30 0 (luaZ_init getS (loads_of ''--[[a]] x = [==[--''))
      \<lparr>buffer = [], bufflen = 0, buffsize = 0\<rparr> ''t'') of
    Inl e \<Rightarrow> e \<noteq> OutOfFuel | Inr (at_end, _) \<Rightarrow> at_end"
proof -
  let ?src = "''--[[a]] x = [==[--''"
  let ?content = "\<lambda>ls. take (unat (ls_size ls)) (ls_s ls)" and ?ok = "\<lambda>ls. unat (ls_size ls) \<le> length (ls_s ls)"
  have c: "?content (loads_of ?src) = ?src" by (simp add: loads_of_def)
  have k: "?ok (loads_of ?src)" by (simp add: loads_of_def)
  have l: "length (?content (loads_of ?src)) < 30" "length (?content (loads_of ?src)) < 2 ^ 26" "length (?content (loads_of ?src)) + 1 = 19"
    unfolding c by simp_all
  show ?thesis
    using scanner_reaches_end [where rd = getS and content = ?content and ok = ?ok and d = "loads_of ?src"
        and buff = "\<lparr>buffer = [], bufflen = 0, buffsize = 0\<rparr>" and fuel = 30, OF loads.byte_reader_axioms k _ l(1,2)]
    unfolding l(3) by simp
qed

end
