(* ===== verification/LuaBaselib.thy ===== *)
theory LuaBaselib
  imports LuaTablib
begin

section \<open>The basic library\<close>

text \<open>
  The functions of \<^verbatim>\<open>lbaselib.c\<close> but for \<^verbatim>\<open>load\<close>, whose reader calls a Lua function while the parser
  runs, and the coroutines. What \<^verbatim>\<open>print\<close> writes is a value; the collector (\<open>gc\<close>, for
  \<^verbatim>\<open>lua_gc\<close>) and the text of a pointer are parameters.
\<close>

subsection \<open>\<^verbatim>\<open>strtoul\<close>\<close>

definition base_digit :: "nat \<Rightarrow> char \<Rightarrow> bool" where
  "base_digit bs c \<longleftrightarrow> isalnum c \<and> xdigit_val c < bs"

text \<open>\<^verbatim>\<open>strtoul (s, &endptr, bs)\<close> with 64-bit longs; \<open>None\<close> when no digit was read.\<close>

definition strtoul :: "nat \<Rightarrow> string \<Rightarrow> (64 word \<times> string) option" where
  "strtoul bs s =
     (let (neg, t) = scan_sign (dropWhile isspace s);
          t' = (if bs = 16 \<and> ci_prefix ''0x'' t \<and> isxdigit (char_at t 2) then drop 2 t else t);
          (ds, r) = span (base_digit bs) t'; n = digits_val bs ds in
      if ds = [] then None
      else if n \<ge> 2 ^ 64 then Some (- 1, r)
      else Some (if neg then - of_nat n else of_nat n, r))"

subsection \<open>Printing and conversion\<close>

text \<open>The text that \<^verbatim>\<open>fputs\<close> gets for the arguments \<open>is\<close>.\<close>

fun print_loop :: "callfun \<Rightarrow> int list \<Rightarrow> string lm" where
  "print_loop call [] = mret []"
| "print_loop call (i # is) =
     mseq (lua_pushvalue (- 1))
     (mseq (lua_pushvalue i)
     (mseq (lua_call call 1 1)
     (mbind (lua_tostring (- 1)) (\<lambda>s.
       case s of
         None \<Rightarrow> luaL_error call (LUA_QL ''tostring'' @ '' must return a string to '' @ LUA_QL ''print'') []
       | Some s \<Rightarrow>
           mseq (lua_pop 1)
           (mbind (print_loop call is) (\<lambda>r. mret ((if i > 1 then CHR 0x09 # s else s) @ r)))))))"

definition luaB_print :: "callfun \<Rightarrow> (string \<times> int) lm" where
  "luaB_print call =
     mbind lua_gettop (\<lambda>n.
     mseq (lua_getglobal call ''tostring'')
     (mbind (print_loop call [1..n]) (\<lambda>out. mret (out @ [CHR 0x0A], 0))))"

definition luaB_tonumber :: cfunction where
  "luaB_tonumber call =
     mbind (luaL_optint call 2 10) (\<lambda>bs.
       if bs = 10 then
         mseq (luaL_checkany call 1)
         (mbind (lua_isnumber 1) (\<lambda>isn.
           if isn then mbind (lua_tonumber 1) (\<lambda>d. mseq (lua_pushnumber d) (mret 1))
           else mseq lua_pushnil (mret 1)))
       else
         mbind (luaL_checkstring call 1) (\<lambda>s1.
         mseq (luaL_argcheck call (2 \<le> bs \<and> bs \<le> 36) 2 ''base out of range'')
         (case strtoul (nat bs) s1 of
            Some (n, s2) \<Rightarrow>
              if dropWhile isspace s2 = [] then mseq (lua_pushnumber (int2num (uint n))) (mret 1)
              else mseq lua_pushnil (mret 1)
          | None \<Rightarrow> mseq lua_pushnil (mret 1))))"

definition luaB_tostring :: "(addr option \<Rightarrow> string) \<Rightarrow> cfunction" where
  "luaB_tostring ptext call =
     mseq (luaL_checkany call 1)
     (mbind (luaL_callmeta call 1 ''__tostring'') (\<lambda>meta.
       if meta then mret 1
       else
         mbind (lua_type 1) (\<lambda>ty.
         mseq
           (if ty = int (tag_num LUA_TNUMBER) then mbind (lua_tostring 1) lua_pushstring
            else if ty = int (tag_num LUA_TSTRING) then lua_pushvalue 1
            else if ty = int (tag_num LUA_TBOOLEAN) then
              mbind (lua_toboolean 1) (\<lambda>t. lua_pushstring (Some (if t then ''true'' else ''false'')))
            else if ty = int (tag_num LUA_TNIL) then lua_pushlstring ''nil''
            else
              mbind (luaL_typename 1) (\<lambda>tn. mbind (lua_topointer 1) (\<lambda>p.
                lua_pushfstring ''%s: %p'' [FS (Some tn), FP (ptext p)])))
           (mret 1))))"

definition luaB_type :: cfunction where
  "luaB_type call =
     mseq (luaL_checkany call 1) (mbind (luaL_typename 1) (\<lambda>tn. mseq (lua_pushstring (Some tn)) (mret 1)))"

subsection \<open>Errors and protected calls\<close>

definition luaB_error :: cfunction where
  "luaB_error call =
     mbind (luaL_optint call 2 1) (\<lambda>level.
     mseq (lua_settop 1)
     (mbind (lua_isstring 1) (\<lambda>iss.
      mseq (mwhen (iss \<and> level > 0) (mseq (luaL_where level) (mseq (lua_pushvalue 1) (lua_concat call 2))))
        lua_error)))"

definition luaB_assert :: cfunction where
  "luaB_assert call =
     mseq (luaL_checkany call 1)
     (mbind (lua_toboolean 1) (\<lambda>ok.
       if \<not> ok then
         mbind (luaL_optlstring call 2 (Some ''assertion failed!'')) (\<lambda>msg.
           luaL_error call ''%s'' [FS (map_option cstr msg)])
       else lua_gettop))"

definition luaB_pcall :: cfunction where
  "luaB_pcall call =
     mseq (luaL_checkany call 1)
     (mbind lua_gettop (\<lambda>n.
      mbind (lua_pcall call (nat (n - 1)) LUA_MULTRET 0) (\<lambda>st.
      mseq (lua_pushboolean (st = 0))
      (mseq (lua_insert 1)
        lua_gettop))))"

definition luaB_xpcall :: cfunction where
  "luaB_xpcall call =
     mseq (luaL_checkany call 2)
     (mseq (lua_settop 2)
     (mseq (lua_insert 1)
     (mbind (lua_pcall call 0 LUA_MULTRET 1) (\<lambda>st.
      mseq (lua_pushboolean (st = 0))
      (mseq (lua_replace 1)
        lua_gettop)))))"

subsection \<open>Tables and metatables\<close>

definition luaB_getmetatable :: cfunction where
  "luaB_getmetatable call =
     mseq (luaL_checkany call 1)
     (mbind (lua_getmetatable 1) (\<lambda>has.
       if \<not> has then mseq lua_pushnil (mret 1)
       else mbind (luaL_getmetafield 1 ''__metatable'') (\<lambda>_. mret 1)))"

definition luaB_setmetatable :: cfunction where
  "luaB_setmetatable call =
     mbind (lua_type 2) (\<lambda>t.
     mseq (luaL_checktype call 1 LUA_TTABLE)
     (mseq (luaL_argcheck call (t = int (tag_num LUA_TNIL) \<or> t = int (tag_num LUA_TTABLE)) 2 ''nil or table expected'')
     (mbind (luaL_getmetafield 1 ''__metatable'') (\<lambda>prot.
      mseq (mwhen prot (luaL_error call ''cannot change a protected metatable'' []))
      (mseq (lua_settop 2)
      (mseq (lua_setmetatable 1)
        (mret 1)))))))"

definition luaB_rawequal :: cfunction where
  "luaB_rawequal call =
     mseq (luaL_checkany call 1)
     (mseq (luaL_checkany call 2)
     (mbind (lua_rawequal 1 2) (\<lambda>eq. mseq (lua_pushboolean eq) (mret 1))))"

definition luaB_rawget :: cfunction where
  "luaB_rawget call =
     mseq (luaL_checktype call 1 LUA_TTABLE)
     (mseq (luaL_checkany call 2) (mseq (lua_settop 2) (mseq (lua_rawget 1) (mret 1))))"

definition luaB_rawset :: cfunction where
  "luaB_rawset call =
     mseq (luaL_checktype call 1 LUA_TTABLE)
     (mseq (luaL_checkany call 2) (mseq (luaL_checkany call 3) (mseq (lua_settop 3) (mseq (lua_rawset 1) (mret 1)))))"

definition luaB_next :: cfunction where
  "luaB_next call =
     mseq (luaL_checktype call 1 LUA_TTABLE)
     (mseq (lua_settop 2)
     (mbind (lua_next 1) (\<lambda>more. if more then mret 2 else mseq lua_pushnil (mret 1))))"

definition luaB_pairs :: cfunction where
  "luaB_pairs call =
     mseq (luaL_checktype call 1 LUA_TTABLE)
     (mseq (lua_pushvalue (lua_upvalueindex 1)) (mseq (lua_pushvalue 1) (mseq lua_pushnil (mret 3))))"

text \<open>The control variable is an \<^verbatim>\<open>int\<close>: it wraps.\<close>

definition ipairsaux :: cfunction where
  "ipairsaux call =
     mbind (luaL_checkint call 2) (\<lambda>i.
     mseq (luaL_checktype call 1 LUA_TTABLE)
     (let i = cast_int (i + 1) in
      mseq (lua_pushinteger i)
      (mseq (lua_rawgeti 1 i)
      (mbind (lua_isnil (- 1)) (\<lambda>isnil. mret (if isnil then 0 else 2))))))"

definition luaB_ipairs :: cfunction where
  "luaB_ipairs call =
     mseq (luaL_checktype call 1 LUA_TTABLE)
     (mseq (lua_pushvalue (lua_upvalueindex 1)) (mseq (lua_pushvalue 1) (mseq (lua_pushinteger 0) (mret 3))))"

primrec push_range :: "nat \<Rightarrow> int \<Rightarrow> unit lm" where
  "push_range 0 i = mret ()"
| "push_range (Suc n) i = mseq (lua_rawgeti 1 i) (push_range n (i + 1))"

definition luaB_unpack :: cfunction where
  "luaB_unpack call =
     mseq (luaL_checktype call 1 LUA_TTABLE)
     (mbind (luaL_optint call 2 1) (\<lambda>i.
      mbind (lua_isnoneornil 3) (\<lambda>none.
      mbind (if none then luaL_getn 1 else luaL_checkint call 3) (\<lambda>e.
        if i > e then mret 0
        else
          let n = cast_int (e - i + 1) in
          mbind (if n \<le> 0 then mret False else lua_checkstack n) (\<lambda>room.
            if \<not> room then luaL_error call ''too many results to unpack'' []
            else mseq (push_range (nat n) i) (mret n))))))"

definition luaB_select :: cfunction where
  "luaB_select call =
     mbind lua_gettop (\<lambda>n.
     mbind (lua_type 1) (\<lambda>ty.
     mbind (if ty = int (tag_num LUA_TSTRING)
            then mbind (lua_tostring 1) (\<lambda>s. mret (case s of Some s \<Rightarrow> char_at s 0 = CHR ''#'' | None \<Rightarrow> False))
            else mret False) (\<lambda>count.
       if count then mseq (lua_pushinteger (n - 1)) (mret 1)
       else
         mbind (luaL_checkint call 1) (\<lambda>i.
         let i = (if i < 0 then n + i else if i > n then n else i) in
         mseq (luaL_argcheck call (1 \<le> i) 1 ''index out of range'')
           (mret (n - i))))))"

subsection \<open>Environments\<close>

definition getfunc :: "callfun \<Rightarrow> bool \<Rightarrow> unit lm" where
  "getfunc call opt =
     mbind (lua_isfunction 1) (\<lambda>isf.
       if isf then lua_pushvalue 1
       else
         mbind (if opt then luaL_optint call 1 1 else luaL_checkint call 1) (\<lambda>level.
         mseq (luaL_argcheck call (level \<ge> 0) 1 ''level must be non-negative'')
         (mbind (lua_getstack level) (\<lambda>r.
           case r of
             None \<Rightarrow> luaL_argerror call 1 ''invalid level''
           | Some i \<Rightarrow>
               mbind (lua_getinfo ''f'' (no_debug\<lparr>i_ci := i\<rparr>)) (\<lambda>_.
               mbind (lua_isnil (- 1)) (\<lambda>isnil.
                 mwhen isnil (luaL_error call ''no function environment for tail call at level %d'' [FD level])))))))"

definition luaB_getfenv :: cfunction where
  "luaB_getfenv call =
     mseq (getfunc call True)
     (mbind (lua_iscfunction (- 1)) (\<lambda>c.
      mseq (if c then lua_pushvalue LUA_GLOBALSINDEX else lua_getfenv (- 1)) (mret 1)))"

text \<open>There is one thread here, the main thread.\<close>

definition lua_pushthread :: "bool lm" where
  "lua_pushthread = mseq (push (ThreadRef 0)) (mret True)"

definition luaB_setfenv :: cfunction where
  "luaB_setfenv call =
     mseq (luaL_checktype call 2 LUA_TTABLE)
     (mseq (getfunc call False)
     (mseq (lua_pushvalue 2)
     (mbind (lua_isnumber 1) (\<lambda>isn.
      mbind (if isn then lua_tonumber 1 else mret (cast_num 1)) (\<lambda>d.
        if isn \<and> luai_numeq d 0 then
          mbind lua_pushthread (\<lambda>_. mseq (lua_insert (- 2)) (mbind (lua_setfenv (- 2)) (\<lambda>_. mret 0)))
        else
          mbind (lua_iscfunction (- 2)) (\<lambda>c.
          mbind (if c then mret True else mbind (lua_setfenv (- 2)) (\<lambda>done. mret (\<not> done))) (\<lambda>bad.
            if bad then luaL_error call (LUA_QL ''setfenv'' @ '' cannot change environment of given object'') []
            else mret 1)))))))"

subsection \<open>Loading code\<close>

definition load_aux :: "int \<Rightarrow> int lm" where
  "load_aux st =
     (if st = 0 then mret 1 else mseq lua_pushnil (mseq (lua_insert (- 2)) (mret 2)))"

text \<open>The name of the chunk is the source itself when there is none.\<close>

definition luaB_loadstring :: "LoadS parser \<Rightarrow> cfunction" where
  "luaB_loadstring parser call =
     mbind (luaL_checklstring call 1) (\<lambda>s.
     mbind (luaL_optlstring call 2 (Some s)) (\<lambda>chunkname.
     mbind (luaL_loadbuffer call parser s (map_option cstr chunkname)) load_aux))"

definition luaB_loadfile :: "files \<Rightarrow> LoadF parser \<Rightarrow> cfunction" where
  "luaB_loadfile fs parser call =
     mbind (luaL_optlstring call 1 None) (\<lambda>fname.
     mbind (luaL_loadfile fs call parser (map_option cstr fname)) load_aux)"

definition luaB_dofile :: "files \<Rightarrow> LoadF parser \<Rightarrow> cfunction" where
  "luaB_dofile fs parser call =
     mbind (luaL_optlstring call 1 None) (\<lambda>fname.
     mbind lua_gettop (\<lambda>n.
     mbind (luaL_loadfile fs call parser (map_option cstr fname)) (\<lambda>st.
       if st \<noteq> 0 then lua_error
       else mseq (lua_call call 0 LUA_MULTRET) (mbind lua_gettop (\<lambda>t. mret (t - n))))))"

subsection \<open>The collector, proxies and the library\<close>

definition luaB_gcinfo :: "(string \<Rightarrow> int \<Rightarrow> int lm) \<Rightarrow> cfunction" where
  "luaB_gcinfo gc call = mbind (gc ''LUA_GCCOUNT'' 0) (\<lambda>n. mseq (lua_pushinteger n) (mret 1))"

definition gc_opts :: "string list" where
  "gc_opts = [''stop'', ''restart'', ''collect'', ''count'', ''step'', ''setpause'', ''setstepmul'']"

definition gc_optsnum :: "string list" where
  "gc_optsnum =
     [''LUA_GCSTOP'', ''LUA_GCRESTART'', ''LUA_GCCOLLECT'', ''LUA_GCCOUNT'', ''LUA_GCSTEP'', ''LUA_GCSETPAUSE'', ''LUA_GCSETSTEPMUL'']"

definition luaB_collectgarbage :: "(string \<Rightarrow> int \<Rightarrow> int lm) \<Rightarrow> cfunction" where
  "luaB_collectgarbage gc call =
     mbind (luaL_checkoption call 1 (Some ''collect'') gc_opts) (\<lambda>k.
     mbind (luaL_optint call 2 0) (\<lambda>ex.
     let what = gc_optsnum ! nat k in
     mbind (gc what ex) (\<lambda>res.
       if what = ''LUA_GCCOUNT'' then
         mbind (gc ''LUA_GCCOUNTB'' 0) (\<lambda>r.
         mseq (lua_pushnumber (luai_numadd (cast_num res) (luai_numdiv (cast_num r) (cast_num 1024)))) (mret 1))
       else if what = ''LUA_GCSTEP'' then mseq (lua_pushboolean (res \<noteq> 0)) (mret 1)
       else mseq (lua_pushnumber (cast_num res)) (mret 1))))"

definition luaB_newproxy :: cfunction where
  "luaB_newproxy call =
     mseq (lua_settop 1)
     (mbind (lua_newuserdata 0) (\<lambda>_.
      mbind (lua_toboolean 1) (\<lambda>t.
        if \<not> t then mret 1
        else
          mbind (lua_type 1) (\<lambda>ty.
          mseq
            (if ty = int (tag_num LUA_TBOOLEAN) then
               mseq lua_newtable
               (mseq (lua_pushvalue (- 1)) (mseq (lua_pushboolean True) (lua_rawset (lua_upvalueindex 1))))
             else
               mbind (lua_getmetatable 1) (\<lambda>has.
               mbind (if has then
                        mseq (lua_rawget (lua_upvalueindex 1))
                        (mbind (lua_toboolean (- 1)) (\<lambda>ok. mseq (lua_pop 1) (mret ok)))
                      else mret False) (\<lambda>validproxy.
               mseq (luaL_argcheck call validproxy 1 ''boolean or proxy expected'')
                 (mbind (lua_getmetatable 1) (\<lambda>_. mret ())))))
            (mseq (lua_setmetatable 2) (mret 1))))))"

definition base_funcs :: "(string \<Rightarrow> nat) \<Rightarrow> luaL_Reg list" where
  "base_funcs ptr =
     [(''assert'', ptr ''luaB_assert''), (''collectgarbage'', ptr ''luaB_collectgarbage''), (''dofile'', ptr ''luaB_dofile''),
      (''error'', ptr ''luaB_error''), (''gcinfo'', ptr ''luaB_gcinfo''), (''getfenv'', ptr ''luaB_getfenv''),
      (''getmetatable'', ptr ''luaB_getmetatable''), (''loadfile'', ptr ''luaB_loadfile''), (''load'', ptr ''luaB_load''),
      (''loadstring'', ptr ''luaB_loadstring''), (''next'', ptr ''luaB_next''), (''pcall'', ptr ''luaB_pcall''),
      (''print'', ptr ''luaB_print''), (''rawequal'', ptr ''luaB_rawequal''), (''rawget'', ptr ''luaB_rawget''),
      (''rawset'', ptr ''luaB_rawset''), (''select'', ptr ''luaB_select''), (''setfenv'', ptr ''luaB_setfenv''),
      (''setmetatable'', ptr ''luaB_setmetatable''), (''tonumber'', ptr ''luaB_tonumber''), (''tostring'', ptr ''luaB_tostring''),
      (''type'', ptr ''luaB_type''), (''unpack'', ptr ''luaB_unpack''), (''xpcall'', ptr ''luaB_xpcall'')]"

definition co_funcs :: "(string \<Rightarrow> nat) \<Rightarrow> luaL_Reg list" where
  "co_funcs ptr =
     [(''create'', ptr ''luaB_cocreate''), (''resume'', ptr ''luaB_coresume''), (''running'', ptr ''luaB_corunning''),
      (''status'', ptr ''luaB_costatus''), (''wrap'', ptr ''luaB_cowrap''), (''yield'', ptr ''luaB_yield'')]"

definition auxopen :: "callfun \<Rightarrow> string \<Rightarrow> nat \<Rightarrow> nat \<Rightarrow> unit lm" where
  "auxopen call name f u =
     mseq (lua_pushcfunction u) (mseq (lua_pushcclosure f 1) (lua_setfield call (- 2) name))"

definition base_open :: "(string \<Rightarrow> nat) \<Rightarrow> callfun \<Rightarrow> unit lm" where
  "base_open ptr call =
     mseq (lua_pushvalue LUA_GLOBALSINDEX)
     (mseq (lua_setglobal call ''_G'')
     (mseq (luaL_register call (Some ''_G'') (base_funcs ptr))
     (mseq (lua_pushlstring ''Lua 5.1'')
     (mseq (lua_setglobal call ''_VERSION'')
     (mseq (auxopen call ''ipairs'' (ptr ''luaB_ipairs'') (ptr ''ipairsaux''))
     (mseq (auxopen call ''pairs'' (ptr ''luaB_pairs'') (ptr ''luaB_next''))
     (mseq (lua_createtable 0 1)
     (mseq (lua_pushvalue (- 1))
     (mseq (lua_setmetatable (- 2))
     (mseq (lua_pushlstring ''kv'')
     (mseq (lua_setfield call (- 2) ''__mode'')
     (mseq (lua_pushcclosure (ptr ''luaB_newproxy'') 1)
       (lua_setglobal call ''newproxy'')))))))))))))"

definition luaopen_base :: "(string \<Rightarrow> nat) \<Rightarrow> cfunction" where
  "luaopen_base ptr call =
     mseq (base_open ptr call) (mseq (luaL_register call (Some ''coroutine'') (co_funcs ptr)) (mret 2))"

end
