(* ===== verification/LuaMathlib.thy ===== *)
theory LuaMathlib
  imports LuaAux
begin

section \<open>The mathematical library\<close>

text \<open>
  \<^verbatim>\<open>lmathlib.c\<close>. The functions of the C library that are exact (\<^verbatim>\<open>fabs\<close>, \<^verbatim>\<open>floor\<close>, \<^verbatim>\<open>ceil\<close>,
  \<^verbatim>\<open>fmod\<close>, \<^verbatim>\<open>modf\<close>, \<^verbatim>\<open>frexp\<close>, \<^verbatim>\<open>ldexp\<close>) are defined on the bits of a double; the others, which
  C libraries round in their own ways, are the record \<open>libm\<close>. \<^verbatim>\<open>rand\<close> and \<^verbatim>\<open>srand\<close> are parameters too.
\<close>

subsection \<open>Exact functions of the C library\<close>

definition dbl_abs :: "lua_Number \<Rightarrow> lua_Number" where
  "dbl_abs d = (if dbl_neg d then luai_numunm d else d)"

definition dbl_ceil :: "lua_Number \<Rightarrow> lua_Number" where
  "dbl_ceil d = (if dbl_nan d then dbl_qnan else luai_numunm (dbl_floor (luai_numunm d)))"

text \<open>The remainder with the sign of the dividend, computed on a common exponent.\<close>

definition dbl_fmod :: "lua_Number \<Rightarrow> lua_Number \<Rightarrow> lua_Number" where
  "dbl_fmod x y =
     (if dbl_nan x \<or> dbl_nan y \<or> dbl_isinf x \<or> dbl_zero y then dbl_qnan
      else if dbl_isinf y \<or> dbl_zero x then x
      else
        let e = min (dbl_pow x) (dbl_pow y);
            m = (dbl_mant x * 2 ^ nat (dbl_pow x - e)) mod (dbl_mant y * 2 ^ nat (dbl_pow y - e))
        in if m = 0 then dbl_signed_zero (dbl_neg x) else dbl_of_scaled (dbl_neg x) m e)"

text \<open>The integer part and the fraction, both with the sign of the argument.\<close>

definition dbl_modf :: "lua_Number \<Rightarrow> lua_Number \<times> lua_Number" where
  "dbl_modf d =
     (if dbl_nan d then (dbl_qnan, dbl_qnan)
      else if dbl_isinf d then (d, dbl_signed_zero (dbl_neg d))
      else
        let ip = (if dbl_neg d then dbl_ceil d else dbl_floor d); fp = luai_numsub d ip
        in (ip, if dbl_zero fp then dbl_signed_zero (dbl_neg d) else fp))"

text \<open>The fraction is in \<open>[1/2, 1)\<close>: its magnitude has the 53 bits of the exponent -53.\<close>

definition dbl_frexp :: "lua_Number \<Rightarrow> lua_Number \<times> int" where
  "dbl_frexp d =
     (if dbl_nan d then (dbl_qnan, 0)
      else if dbl_isinf d \<or> dbl_zero d then (d, 0)
      else
        let k = int (ilog2 (dbl_mant d)) + 1
        in (dbl_of_scaled (dbl_neg d) (dbl_mant d) (- k), dbl_pow d + k))"

definition dbl_ldexp :: "lua_Number \<Rightarrow> int \<Rightarrow> lua_Number" where
  "dbl_ldexp d k =
     (if dbl_nan d then dbl_qnan
      else if dbl_isinf d \<or> dbl_zero d then d
      else dbl_of_scaled (dbl_neg d) (dbl_mant d) (dbl_pow d + k))"

record libm =
  m_sin :: "lua_Number \<Rightarrow> lua_Number"
  m_sinh :: "lua_Number \<Rightarrow> lua_Number"
  m_cos :: "lua_Number \<Rightarrow> lua_Number"
  m_cosh :: "lua_Number \<Rightarrow> lua_Number"
  m_tan :: "lua_Number \<Rightarrow> lua_Number"
  m_tanh :: "lua_Number \<Rightarrow> lua_Number"
  m_asin :: "lua_Number \<Rightarrow> lua_Number"
  m_acos :: "lua_Number \<Rightarrow> lua_Number"
  m_atan :: "lua_Number \<Rightarrow> lua_Number"
  m_atan2 :: "lua_Number \<Rightarrow> lua_Number \<Rightarrow> lua_Number"
  m_sqrt :: "lua_Number \<Rightarrow> lua_Number"
  m_pow :: "lua_Number \<Rightarrow> lua_Number \<Rightarrow> lua_Number"
  m_log :: "lua_Number \<Rightarrow> lua_Number"
  m_log10 :: "lua_Number \<Rightarrow> lua_Number"
  m_exp :: "lua_Number \<Rightarrow> lua_Number"

subsection \<open>The functions\<close>

definition PI :: lua_Number where "PI = 0x400921FB54442D18"
definition RADIANS_PER_DEGREE :: lua_Number where "RADIANS_PER_DEGREE = luai_numdiv PI (cast_num 180)"

text \<open>A function of one number, and one of two.\<close>

definition math1 :: "(lua_Number \<Rightarrow> lua_Number) \<Rightarrow> cfunction" where
  "math1 f call = mbind (luaL_checknumber call 1) (\<lambda>x. mseq (lua_pushnumber (f x)) (mret 1))"

text \<open>The order in which C evaluates two arguments is open; here the first comes first.\<close>

definition math2 :: "(lua_Number \<Rightarrow> lua_Number \<Rightarrow> lua_Number) \<Rightarrow> cfunction" where
  "math2 f call =
     mbind (luaL_checknumber call 1) (\<lambda>x. mbind (luaL_checknumber call 2) (\<lambda>y. mseq (lua_pushnumber (f x y)) (mret 1)))"

definition math_abs :: cfunction where "math_abs = math1 dbl_abs"
definition math_sin :: "libm \<Rightarrow> cfunction" where "math_sin m = math1 (m_sin m)"
definition math_sinh :: "libm \<Rightarrow> cfunction" where "math_sinh m = math1 (m_sinh m)"
definition math_cos :: "libm \<Rightarrow> cfunction" where "math_cos m = math1 (m_cos m)"
definition math_cosh :: "libm \<Rightarrow> cfunction" where "math_cosh m = math1 (m_cosh m)"
definition math_tan :: "libm \<Rightarrow> cfunction" where "math_tan m = math1 (m_tan m)"
definition math_tanh :: "libm \<Rightarrow> cfunction" where "math_tanh m = math1 (m_tanh m)"
definition math_asin :: "libm \<Rightarrow> cfunction" where "math_asin m = math1 (m_asin m)"
definition math_acos :: "libm \<Rightarrow> cfunction" where "math_acos m = math1 (m_acos m)"
definition math_atan :: "libm \<Rightarrow> cfunction" where "math_atan m = math1 (m_atan m)"
definition math_atan2 :: "libm \<Rightarrow> cfunction" where "math_atan2 m = math2 (m_atan2 m)"
definition math_ceil :: cfunction where "math_ceil = math1 dbl_ceil"
definition math_floor :: cfunction where "math_floor = math1 dbl_floor"
definition math_fmod :: cfunction where "math_fmod = math2 dbl_fmod"

definition math_modf :: cfunction where
  "math_modf call =
     mbind (luaL_checknumber call 1) (\<lambda>x.
     mseq (lua_pushnumber (fst (dbl_modf x))) (mseq (lua_pushnumber (snd (dbl_modf x))) (mret 2)))"

definition math_sqrt :: "libm \<Rightarrow> cfunction" where "math_sqrt m = math1 (m_sqrt m)"
definition math_pow :: "libm \<Rightarrow> cfunction" where "math_pow m = math2 (m_pow m)"
definition math_log :: "libm \<Rightarrow> cfunction" where "math_log m = math1 (m_log m)"
definition math_log10 :: "libm \<Rightarrow> cfunction" where "math_log10 m = math1 (m_log10 m)"
definition math_exp :: "libm \<Rightarrow> cfunction" where "math_exp m = math1 (m_exp m)"
definition math_deg :: cfunction where "math_deg = math1 (\<lambda>x. luai_numdiv x RADIANS_PER_DEGREE)"
definition math_rad :: cfunction where "math_rad = math1 (\<lambda>x. luai_nummul x RADIANS_PER_DEGREE)"

definition math_frexp :: cfunction where
  "math_frexp call =
     mbind (luaL_checknumber call 1) (\<lambda>x.
     mseq (lua_pushnumber (fst (dbl_frexp x))) (mseq (lua_pushinteger (snd (dbl_frexp x))) (mret 2)))"

definition math_ldexp :: cfunction where
  "math_ldexp call =
     mbind (luaL_checknumber call 1) (\<lambda>x. mbind (luaL_checkint call 2) (\<lambda>k.
     mseq (lua_pushnumber (dbl_ldexp x k)) (mret 1)))"

text \<open>The arguments from the second on: \<open>better\<close> says whether one replaces what was best so far.\<close>

fun best_of :: "callfun \<Rightarrow> (lua_Number \<Rightarrow> lua_Number \<Rightarrow> bool) \<Rightarrow> int list \<Rightarrow> lua_Number \<Rightarrow> lua_Number lm" where
  "best_of call better [] d = mret d"
| "best_of call better (i # is) d =
     mbind (luaL_checknumber call i) (\<lambda>x. best_of call better is (if better x d then x else d))"

definition math_min :: cfunction where
  "math_min call =
     mbind lua_gettop (\<lambda>n.
     mbind (luaL_checknumber call 1) (\<lambda>d.
     mbind (best_of call luai_numlt [2..n] d) (\<lambda>dmin. mseq (lua_pushnumber dmin) (mret 1))))"

definition math_max :: cfunction where
  "math_max call =
     mbind lua_gettop (\<lambda>n.
     mbind (luaL_checknumber call 1) (\<lambda>d.
     mbind (best_of call (\<lambda>x d. luai_numlt d x) [2..n] d) (\<lambda>dmax. mseq (lua_pushnumber dmax) (mret 1))))"

subsection \<open>Random numbers\<close>

definition RAND_MAX :: nat where "RAND_MAX = 2147483647"

text \<open>The number of integers from \<open>l\<close> to \<open>u\<close> is computed as an \<^verbatim>\<open>int\<close>.\<close>

definition math_random :: "nat lm \<Rightarrow> cfunction" where
  "math_random rand call =
     mbind rand (\<lambda>k.
     let r = luai_numdiv (cast_num (int (k mod RAND_MAX))) (cast_num (int RAND_MAX)) in
     mbind lua_gettop (\<lambda>n.
       if n = 0 then mseq (lua_pushnumber r) (mret 1)
       else if n = 1 then
         mbind (luaL_checkint call 1) (\<lambda>u.
         mseq (luaL_argcheck call (1 \<le> u) 1 ''interval is empty'')
         (mseq (lua_pushnumber (luai_numadd (dbl_floor (luai_nummul r (cast_num u))) (cast_num 1))) (mret 1)))
       else if n = 2 then
         mbind (luaL_checkint call 1) (\<lambda>l. mbind (luaL_checkint call 2) (\<lambda>u.
         mseq (luaL_argcheck call (l \<le> u) 2 ''interval is empty'')
         (mseq (lua_pushnumber (luai_numadd (dbl_floor (luai_nummul r (cast_num (cast_int (u - l + 1))))) (cast_num l))) (mret 1))))
       else luaL_error call ''wrong number of arguments'' []))"

definition math_randomseed :: "(int \<Rightarrow> unit lm) \<Rightarrow> cfunction" where
  "math_randomseed srand call = mbind (luaL_checkint call 1) (\<lambda>seed. mseq (srand seed) (mret 0))"

subsection \<open>The library\<close>

definition mathlib :: "(string \<Rightarrow> nat) \<Rightarrow> luaL_Reg list" where
  "mathlib ptr =
     [(''abs'', ptr ''math_abs''), (''acos'', ptr ''math_acos''), (''asin'', ptr ''math_asin''), (''atan2'', ptr ''math_atan2''),
      (''atan'', ptr ''math_atan''), (''ceil'', ptr ''math_ceil''), (''cosh'', ptr ''math_cosh''), (''cos'', ptr ''math_cos''),
      (''deg'', ptr ''math_deg''), (''exp'', ptr ''math_exp''), (''floor'', ptr ''math_floor''), (''fmod'', ptr ''math_fmod''),
      (''frexp'', ptr ''math_frexp''), (''ldexp'', ptr ''math_ldexp''), (''log10'', ptr ''math_log10''), (''log'', ptr ''math_log''),
      (''max'', ptr ''math_max''), (''min'', ptr ''math_min''), (''modf'', ptr ''math_modf''), (''pow'', ptr ''math_pow''),
      (''rad'', ptr ''math_rad''), (''random'', ptr ''math_random''), (''randomseed'', ptr ''math_randomseed''),
      (''sinh'', ptr ''math_sinh''), (''sin'', ptr ''math_sin''), (''sqrt'', ptr ''math_sqrt''), (''tanh'', ptr ''math_tanh''),
      (''tan'', ptr ''math_tan'')]"

definition luaopen_math :: "(string \<Rightarrow> nat) \<Rightarrow> cfunction" where
  "luaopen_math ptr call =
     mseq (luaL_register call (Some ''math'') (mathlib ptr))
     (mseq (lua_pushnumber PI)
     (mseq (lua_setfield call (- 2) ''pi'')
     (mseq (lua_pushnumber (dbl_inf False))
     (mseq (lua_setfield call (- 2) ''huge'')
     (mseq (lua_getfield call (- 1) ''fmod'')
     (mseq (lua_setfield call (- 2) ''mod'')
       (mret 1)))))))"

end
