(* ===== verification/LuaGc.thy ===== *)
theory LuaGc
  imports LuaDo
begin

section \<open>The garbage collector\<close>

text \<open>
  \<^verbatim>\<open>lgc.c\<close> on the heap as the collector sees it: objects of all types at addresses, with their marks and the
  references they hold. A list that the code links through the objects (\<^verbatim>\<open>next\<close>, \<^verbatim>\<open>gclist\<close>) is a list of
  addresses; the theory \<^verbatim>\<open>LuaGcMark\<close> shows that no object is in two lists of gray objects, which share
  \<^verbatim>\<open>gclist\<close>. The table of strings is a list of buckets, the userdata to be finalized a list from the
  first to the last. Sizes are those of a 64-bit machine.
\<close>

subsection \<open>Objects\<close>

type_synonym gcaddr = nat

text \<open>A value: nil, one that is not collectable, a reference, or the key of type \<^verbatim>\<open>LUA_TDEADKEY\<close>.\<close>

datatype gcval = GNil | GPlain | GRef gcaddr | GDead

record gctable =
  h_metatable :: "gcaddr option"
  h_array :: "gcval list"
  h_nodes :: "(gcval \<times> gcval) list"
  h_flags :: "8 word"

text \<open>\<open>th_citops\<close> are the fields \<^verbatim>\<open>top\<close> of the active call infos.\<close>

record gcthread =
  th_stack :: "gcval list"
  th_top :: nat
  th_citops :: "nat list"
  th_size_ci :: nat
  th_gt :: gcval
  th_openupval :: "gcaddr list"

record gcproto =
  pr_source :: "gcaddr option"
  pr_k :: "gcval list"
  pr_upvalues :: "gcaddr option list"
  pr_p :: "gcaddr option list"
  pr_locvars :: "gcaddr option list"
  pr_sizecode :: nat
  pr_sizelineinfo :: nat

text \<open>The value of an upvalue: a slot of the stack of a thread, or its own field.\<close>

datatype upplace = UOpen gcaddr nat | UClosed gcval

datatype gcbody =
    GString "32 word" string
  | GUdata "gcaddr option" gcaddr nat
  | GUpval upplace
  | GCClosure gcaddr "gcval list"
  | GLClosure gcaddr gcaddr "gcaddr list"
  | GTable gctable
  | GThread gcthread
  | GProto gcproto

datatype gcphase = GCSpause | GCSpropagate | GCSsweepstring | GCSsweep | GCSfinalize

text \<open>The part of \<^verbatim>\<open>global_State\<close> that the collector uses. \<open>g_sweepgc\<close> is the object whose field
  \<^verbatim>\<open>next\<close> the pointer points to, \<open>None\<close> for \<^verbatim>\<open>&g->rootgc\<close>.\<close>

record gcglobal =
  g_body :: "gcaddr \<Rightarrow> gcbody option"
  g_marked :: "gcaddr \<Rightarrow> 8 word"
  g_currentwhite :: "8 word"
  g_state :: gcphase
  g_strt :: "gcaddr list list"
  g_nuse :: nat
  g_sweepstr :: nat
  g_rootgc :: "gcaddr list"
  g_sweepgc :: "gcaddr option"
  g_gray :: "gcaddr list"
  g_grayagain :: "gcaddr list"
  g_weak :: "gcaddr list"
  g_tmudata :: "gcaddr list"
  g_uvhead :: "gcaddr list"
  g_buffsize :: nat
  g_registry :: gcval
  g_mainthread :: gcaddr
  g_mt :: "gcaddr option list"
  g_tmname :: "nat \<Rightarrow> gcaddr"
  g_totalbytes :: "64 word"
  g_estimate :: "64 word"
  g_threshold :: "64 word"
  g_gcdept :: "64 word"
  g_pause :: int
  g_stepmul :: int

definition set_body :: "gcaddr \<Rightarrow> gcbody \<Rightarrow> gcglobal \<Rightarrow> gcglobal" where
  "set_body a x g = g\<lparr>g_body := (g_body g)(a \<mapsto> x)\<rparr>"

definition iscollectable :: "gcval \<Rightarrow> bool" where
  "iscollectable v \<longleftrightarrow> (case v of GRef _ \<Rightarrow> True | _ \<Rightarrow> False)"

definition with_table :: "gcaddr \<Rightarrow> gcglobal \<Rightarrow> (gctable \<Rightarrow> gcglobal) \<Rightarrow> gcglobal" where
  "with_table a g f = (case g_body g a of Some (GTable h) \<Rightarrow> f h | _ \<Rightarrow> g)"

definition with_thread :: "gcaddr \<Rightarrow> gcglobal \<Rightarrow> (gcthread \<Rightarrow> gcglobal) \<Rightarrow> gcglobal" where
  "with_thread a g f = (case g_body g a of Some (GThread th) \<Rightarrow> f th | _ \<Rightarrow> g)"

subsection \<open>Colours\<close>

definition bitmask :: "nat \<Rightarrow> 8 word" where "bitmask k = push_bit k 1"

definition BLACKBIT :: nat where "BLACKBIT = 2"
definition FINALIZEDBIT :: nat where "FINALIZEDBIT = 3"
definition KEYWEAKBIT :: nat where "KEYWEAKBIT = 3"
definition VALUEWEAKBIT :: nat where "VALUEWEAKBIT = 4"
definition FIXEDBIT :: nat where "FIXEDBIT = 5"
definition SFIXEDBIT :: nat where "SFIXEDBIT = 6"

definition iswhite :: "8 word \<Rightarrow> bool" where "iswhite m \<longleftrightarrow> m AND WHITEBITS \<noteq> 0"
definition isblack :: "8 word \<Rightarrow> bool" where "isblack m \<longleftrightarrow> bit m BLACKBIT"
definition isgray :: "8 word \<Rightarrow> bool" where "isgray m \<longleftrightarrow> \<not> isblack m \<and> \<not> iswhite m"
definition isfinalized :: "8 word \<Rightarrow> bool" where "isfinalized m \<longleftrightarrow> bit m FINALIZEDBIT"

definition otherwhite :: "gcglobal \<Rightarrow> 8 word" where
  "otherwhite g = g_currentwhite g XOR WHITEBITS"

definition gc_isdead :: "gcglobal \<Rightarrow> gcaddr \<Rightarrow> bool" where
  "gc_isdead g a \<longleftrightarrow> g_marked g a AND otherwhite g AND WHITEBITS \<noteq> 0"

definition gc_white :: "gcglobal \<Rightarrow> 8 word" where
  "gc_white g = g_currentwhite g AND WHITEBITS"

definition setmark :: "gcaddr \<Rightarrow> (8 word \<Rightarrow> 8 word) \<Rightarrow> gcglobal \<Rightarrow> gcglobal" where
  "setmark a f g = g\<lparr>g_marked := (g_marked g)(a := f (g_marked g a))\<rparr>"

definition white2gray :: "8 word \<Rightarrow> 8 word" where "white2gray m = m AND NOT WHITEBITS"
definition gray2black :: "8 word \<Rightarrow> 8 word" where "gray2black m = m OR bitmask BLACKBIT"
definition black2gray :: "8 word \<Rightarrow> 8 word" where "black2gray m = m AND NOT (bitmask BLACKBIT)"
definition stringmark :: "8 word \<Rightarrow> 8 word" where "stringmark m = m AND NOT WHITEBITS"
definition markfinalized :: "8 word \<Rightarrow> 8 word" where "markfinalized m = m OR bitmask FINALIZEDBIT"
definition gc_changewhite :: "8 word \<Rightarrow> 8 word" where "gc_changewhite m = m XOR WHITEBITS"

definition maskmarks :: "8 word" where "maskmarks = NOT (bitmask BLACKBIT OR WHITEBITS)"

definition makewhite :: "gcaddr \<Rightarrow> gcglobal \<Rightarrow> gcglobal" where
  "makewhite a g = setmark a (\<lambda>m. m AND maskmarks OR gc_white g) g"

subsection \<open>Marking\<close>

definition uv_value :: "gcglobal \<Rightarrow> upplace \<Rightarrow> gcval" where
  "uv_value g p =
     (case p of
        UClosed v \<Rightarrow> v
      | UOpen th i \<Rightarrow>
          (case g_body g th of
             Some (GThread t) \<Rightarrow> if i < length (th_stack t) then th_stack t ! i else GNil
           | _ \<Rightarrow> GNil))"

definition push_gray :: "gcaddr \<Rightarrow> gcglobal \<Rightarrow> gcglobal" where
  "push_gray a g = g\<lparr>g_gray := a # g_gray g\<rparr>"

text \<open>
  The recursion goes from an upvalue to its value, which may be a userdata, and from a userdata to its tables, which
  wait in the gray list: three levels.
\<close>

fun mark_depth :: "nat \<Rightarrow> gcaddr \<Rightarrow> gcglobal \<Rightarrow> gcglobal" where
  "mark_depth 0 a g = g"
| "mark_depth (Suc n) a g =
     (let g = setmark a white2gray g;
          markobject = (\<lambda>a g. if iswhite (g_marked g a) then mark_depth n a g else g) in
      case g_body g a of
        Some (GString _ _) \<Rightarrow> g
      | Some (GUdata mtab env _) \<Rightarrow>
          let g = setmark a gray2black g;
              g = (case mtab of Some t \<Rightarrow> markobject t g | None \<Rightarrow> g)
          in markobject env g
      | Some (GUpval p) \<Rightarrow>
          let g = (case uv_value g p of GRef v \<Rightarrow> markobject v g | _ \<Rightarrow> g)
          in (case p of UClosed _ \<Rightarrow> setmark a gray2black g | UOpen _ _ \<Rightarrow> g)
      | Some _ \<Rightarrow> push_gray a g
      | None \<Rightarrow> g)"

definition reallymarkobject :: "gcaddr \<Rightarrow> gcglobal \<Rightarrow> gcglobal" where
  "reallymarkobject = mark_depth 3"

definition markobject :: "gcaddr \<Rightarrow> gcglobal \<Rightarrow> gcglobal" where
  "markobject a g = (if iswhite (g_marked g a) then reallymarkobject a g else g)"

definition markobject_opt :: "gcaddr option \<Rightarrow> gcglobal \<Rightarrow> gcglobal" where
  "markobject_opt t g = (case t of Some a \<Rightarrow> markobject a g | None \<Rightarrow> g)"

definition markvalue :: "gcval \<Rightarrow> gcglobal \<Rightarrow> gcglobal" where
  "markvalue v g = (case v of GRef a \<Rightarrow> markobject a g | _ \<Rightarrow> g)"

definition stringmark_opt :: "gcaddr option \<Rightarrow> gcglobal \<Rightarrow> gcglobal" where
  "stringmark_opt s g = (case s of Some a \<Rightarrow> setmark a stringmark g | None \<Rightarrow> g)"

definition marktmu :: "gcglobal \<Rightarrow> gcglobal" where
  "marktmu g = fold (\<lambda>u g. reallymarkobject u (makewhite u g)) (g_tmudata g) g"

subsection \<open>Metamethods of the collector\<close>

definition GC_TM_GC :: nat where "GC_TM_GC = 2"
definition GC_TM_MODE :: nat where "GC_TM_MODE = 3"

text \<open>
  The search for a metamethod with its cache. \<^verbatim>\<open>luaH_getstr\<close> is a search through all nodes here (that the chains
  lead to the node with the key is part of \<^verbatim>\<open>LuaTableSet\<close>).
\<close>

definition gc_getstr :: "gctable \<Rightarrow> gcaddr \<Rightarrow> gcval" where
  "gc_getstr h s = (case find (\<lambda>(k, v). k = GRef s) (h_nodes h) of Some (k, v) \<Rightarrow> v | None \<Rightarrow> GNil)"

definition gfasttm :: "gcaddr option \<Rightarrow> nat \<Rightarrow> gcglobal \<Rightarrow> gcval \<times> gcglobal" where
  "gfasttm et ev g =
     (case et of
        None \<Rightarrow> (GNil, g)
      | Some a \<Rightarrow>
          (case g_body g a of
             Some (GTable h) \<Rightarrow>
               if bit (h_flags h) ev then (GNil, g)
               else
                 (case gc_getstr h (g_tmname g ev) of
                    GNil \<Rightarrow> (GNil, set_body a (GTable (h\<lparr>h_flags := h_flags h OR bitmask ev\<rparr>)) g)
                  | tm \<Rightarrow> (tm, g))
           | _ \<Rightarrow> (GNil, g)))"

subsection \<open>Finalizers\<close>

definition sizeof_Udata :: nat where "sizeof_Udata = 40"

text \<open>The list of userdata starts after the main thread.\<close>

definition before_udata :: "gcglobal \<Rightarrow> gcaddr list" where
  "before_udata g = takeWhile (\<lambda>a. a \<noteq> g_mainthread g) (g_rootgc g) @ [g_mainthread g]"

definition udata_list :: "gcglobal \<Rightarrow> gcaddr list" where
  "udata_list g = drop 1 (dropWhile (\<lambda>a. a \<noteq> g_mainthread g) (g_rootgc g))"

text \<open>The walk along the list: what stays in it and the size of what leaves it.\<close>

fun separate_loop :: "bool \<Rightarrow> gcaddr list \<Rightarrow> gcglobal \<Rightarrow> gcaddr list \<times> nat \<times> gcglobal" where
  "separate_loop whole [] g = ([], 0, g)"
| "separate_loop whole (u # us) g =
     (case g_body g u of
        Some (GUdata mtab env len) \<Rightarrow>
          if \<not> (iswhite (g_marked g u) \<or> whole) \<or> isfinalized (g_marked g u) then
            (case separate_loop whole us g of (stay, sz, g) \<Rightarrow> (u # stay, sz, g))
          else
            (case gfasttm mtab GC_TM_GC g of (tm, g) \<Rightarrow>
               if tm = GNil then
                 (case separate_loop whole us (setmark u markfinalized g) of (stay, sz, g) \<Rightarrow> (u # stay, sz, g))
               else
                 (case separate_loop whole us ((setmark u markfinalized g)\<lparr>g_tmudata := g_tmudata g @ [u]\<rparr>) of
                    (stay, sz, g) \<Rightarrow> (stay, sizeof_Udata + len + sz, g)))
      | _ \<Rightarrow> (case separate_loop whole us g of (stay, sz, g) \<Rightarrow> (u # stay, sz, g)))"

definition luaC_separateudata :: "bool \<Rightarrow> gcglobal \<Rightarrow> nat \<times> gcglobal" where
  "luaC_separateudata whole g =
     (case separate_loop whole (udata_list g) g of (stay, sz, g') \<Rightarrow> (sz, g'\<lparr>g_rootgc := before_udata g @ stay\<rparr>))"

subsection \<open>Traversal of objects\<close>

definition removeentry :: "gcval \<times> gcval \<Rightarrow> gcval \<times> gcval" where
  "removeentry n = (if iscollectable (fst n) then (GDead, snd n) else n)"

definition set_array :: "gcaddr \<Rightarrow> nat \<Rightarrow> gcval \<Rightarrow> gcglobal \<Rightarrow> gcglobal" where
  "set_array a i v g = with_table a g (\<lambda>h. set_body a (GTable (h\<lparr>h_array := (h_array h)[i := v]\<rparr>)) g)"

definition set_node :: "gcaddr \<Rightarrow> nat \<Rightarrow> gcval \<times> gcval \<Rightarrow> gcglobal \<Rightarrow> gcglobal" where
  "set_node a i n g = with_table a g (\<lambda>h. set_body a (GTable (h\<lparr>h_nodes := (h_nodes h)[i := n]\<rparr>)) g)"

text \<open>The letters of the weak mode; \<^verbatim>\<open>strchr\<close> looks at a C string.\<close>

definition weak_mode :: "gcval \<Rightarrow> gcglobal \<Rightarrow> bool \<times> bool" where
  "weak_mode mode g =
     (case mode of
        GRef a \<Rightarrow>
          (case g_body g a of
             Some (GString _ s) \<Rightarrow> (CHR ''k'' \<in> set (cstr s), CHR ''v'' \<in> set (cstr s))
           | _ \<Rightarrow> (False, False))
      | _ \<Rightarrow> (False, False))"

definition weak_bits :: "bool \<Rightarrow> bool \<Rightarrow> 8 word \<Rightarrow> 8 word" where
  "weak_bits wk wv m =
     (m AND NOT (bitmask KEYWEAKBIT OR bitmask VALUEWEAKBIT)) OR
     ((if wk then bitmask KEYWEAKBIT else 0) OR (if wv then bitmask VALUEWEAKBIT else 0))"

definition traverse_node :: "bool \<Rightarrow> bool \<Rightarrow> gcaddr \<Rightarrow> nat \<Rightarrow> gcglobal \<Rightarrow> gcglobal" where
  "traverse_node wk wv a i g =
     with_table a g (\<lambda>h.
       let n = h_nodes h ! i in
       if snd n = GNil then set_node a i (removeentry n) g
       else
         let g = (if wk then g else markvalue (fst n) g)
         in if wv then g else markvalue (snd n) g)"

definition traversetable :: "gcaddr \<Rightarrow> gcglobal \<Rightarrow> bool \<times> gcglobal" where
  "traversetable a g =
     (case g_body g a of
        Some (GTable h) \<Rightarrow>
          let g = markobject_opt (h_metatable h) g in
          (case gfasttm (h_metatable h) GC_TM_MODE g of (mode, g) \<Rightarrow>
           case weak_mode mode g of (wk, wv) \<Rightarrow>
             let g = (if wk \<or> wv then (setmark a (weak_bits wk wv) g)\<lparr>g_weak := a # g_weak g\<rparr> else g) in
             if wk \<and> wv then (True, g)
             else
               let g = (if wv then g else fold markvalue (rev (h_array h)) g);
                   g = fold (traverse_node wk wv a) (rev [0..<length (h_nodes h)]) g
               in (wk \<or> wv, g))
      | _ \<Rightarrow> (False, g))"

definition traverseproto :: "gcproto \<Rightarrow> gcglobal \<Rightarrow> gcglobal" where
  "traverseproto f g =
     (let g = stringmark_opt (pr_source f) g;
          g = fold markvalue (pr_k f) g;
          g = fold stringmark_opt (pr_upvalues f) g;
          g = fold markobject_opt (pr_p f) g
      in fold stringmark_opt (pr_locvars f) g)"

definition traverse_cclosure :: "gcaddr \<Rightarrow> gcval list \<Rightarrow> gcglobal \<Rightarrow> gcglobal" where
  "traverse_cclosure env ups g = fold markvalue ups (markobject env g)"

definition traverse_lclosure :: "gcaddr \<Rightarrow> gcaddr \<Rightarrow> gcaddr list \<Rightarrow> gcglobal \<Rightarrow> gcglobal" where
  "traverse_lclosure env p ups g = fold markobject ups (markobject p (markobject env g))"

subsection \<open>Stacks\<close>

definition sizeof_TValue :: nat where "sizeof_TValue = 16"
definition sizeof_CallInfo :: nat where "sizeof_CallInfo = 40"

text \<open>\<^verbatim>\<open>luaD_reallocCI\<close> and \<^verbatim>\<open>luaD_reallocstack\<close>: the new sizes and the bytes in use.\<close>

definition gc_realloc :: "nat \<Rightarrow> nat \<Rightarrow> gcglobal \<Rightarrow> gcglobal" where
  "gc_realloc osize nsize g = g\<lparr>g_totalbytes := g_totalbytes g - of_nat osize + of_nat nsize\<rparr>"

definition gc_reallocCI :: "gcaddr \<Rightarrow> nat \<Rightarrow> gcglobal \<Rightarrow> gcglobal" where
  "gc_reallocCI a newsize g =
     with_thread a g (\<lambda>th.
       gc_realloc (th_size_ci th * sizeof_CallInfo) (newsize * sizeof_CallInfo)
         (set_body a (GThread (th\<lparr>th_size_ci := newsize\<rparr>)) g))"

definition gc_reallocstack :: "gcaddr \<Rightarrow> nat \<Rightarrow> gcglobal \<Rightarrow> gcglobal" where
  "gc_reallocstack a newsize g =
     with_thread a g (\<lambda>th.
       let realsize = newsize + 1 + EXTRA_STACK; old = length (th_stack th) in
       gc_realloc (old * sizeof_TValue) (realsize * sizeof_TValue)
         (set_body a (GThread (th\<lparr>th_stack := take realsize (th_stack th) @ replicate (realsize - old) GNil\<rparr>)) g))"

definition checkstacksizes :: "gcaddr \<Rightarrow> nat \<Rightarrow> gcglobal \<Rightarrow> gcglobal" where
  "checkstacksizes a mx g =
     with_thread a g (\<lambda>th.
       let ci_used = length (th_citops th) - 1 in
       if th_size_ci th > LUAI_MAXCALLS then g
       else
         let g = (if 4 * ci_used < th_size_ci th \<and> 2 * BASIC_CI_SIZE < th_size_ci th
                  then gc_reallocCI a (th_size_ci th div 2) g else g)
         in if 4 * mx < length (th_stack th) \<and> 2 * (BASIC_STACK_SIZE + EXTRA_STACK) < length (th_stack th)
            then gc_reallocstack a (length (th_stack th) div 2) g else g)"

text \<open>The slots from the top to the end of the highest frame become nil.\<close>

definition clear_above :: "nat \<Rightarrow> nat \<Rightarrow> gcval list \<Rightarrow> gcval list" where
  "clear_above t lim s = map (\<lambda>i. if t \<le> i \<and> i \<le> lim then GNil else s ! i) [0..<length s]"

definition traversestack :: "gcaddr \<Rightarrow> gcglobal \<Rightarrow> gcglobal" where
  "traversestack a g =
     with_thread a g (\<lambda>th.
       let g = markvalue (th_gt th) g;
           lim = fold max (th_citops th) (th_top th);
           g = fold markvalue (take (th_top th) (th_stack th)) g;
           g = set_body a (GThread (th\<lparr>th_stack := clear_above (th_top th) lim (th_stack th)\<rparr>)) g
       in checkstacksizes a lim g)"

subsection \<open>Propagation\<close>

definition sizeof_Table :: nat where "sizeof_Table = 64"
definition sizeof_Node :: nat where "sizeof_Node = 40"
definition sizeof_thread :: nat where "sizeof_thread = 184"
definition sizeof_Proto :: nat where "sizeof_Proto = 120"
definition sizeof_LocVar :: nat where "sizeof_LocVar = 16"
definition sizeof_UpVal :: nat where "sizeof_UpVal = 40"
definition sizeof_ptr :: nat where "sizeof_ptr = 8"
definition sizeof_int :: nat where "sizeof_int = 4"
definition sizeof_Instruction :: nat where "sizeof_Instruction = 4"

definition sizeCclosure :: "nat \<Rightarrow> nat" where "sizeCclosure n = 56 + sizeof_TValue * n - sizeof_TValue"
definition sizeLclosure :: "nat \<Rightarrow> nat" where "sizeLclosure n = 48 + sizeof_ptr * n - sizeof_ptr"

text \<open>The object leaves the list of gray objects and becomes black; the result is the work done, in bytes.\<close>

definition propagatemark :: "gcglobal \<Rightarrow> nat \<times> gcglobal" where
  "propagatemark g =
     (case g_gray g of
        [] \<Rightarrow> (0, g)
      | a # rest \<Rightarrow>
          let g = (setmark a gray2black g)\<lparr>g_gray := rest\<rparr> in
          (case g_body g a of
             Some (GTable h) \<Rightarrow>
               (case traversetable a g of (wk, g) \<Rightarrow>
                  (sizeof_Table + sizeof_TValue * length (h_array h) + sizeof_Node * length (h_nodes h),
                   if wk then setmark a black2gray g else g))
           | Some (GCClosure env ups) \<Rightarrow> (sizeCclosure (length ups), traverse_cclosure env ups g)
           | Some (GLClosure env p ups) \<Rightarrow> (sizeLclosure (length ups), traverse_lclosure env p ups g)
           | Some (GThread th) \<Rightarrow>
               (let g = setmark a black2gray (g\<lparr>g_grayagain := a # g_grayagain g\<rparr>);
                    g = traversestack a g
                in (case g_body g a of
                      Some (GThread th) \<Rightarrow>
                        (sizeof_thread + sizeof_TValue * length (th_stack th) + sizeof_CallInfo * th_size_ci th, g)
                    | _ \<Rightarrow> (0, g)))
           | Some (GProto f) \<Rightarrow>
               (sizeof_Proto + sizeof_Instruction * pr_sizecode f + sizeof_ptr * length (pr_p f) +
                  sizeof_TValue * length (pr_k f) + sizeof_int * pr_sizelineinfo f +
                  sizeof_LocVar * length (pr_locvars f) + sizeof_ptr * length (pr_upvalues f),
                traverseproto f g)
           | _ \<Rightarrow> (0, g)))"

text \<open>
  Every step takes an object off the list and puts white ones onto it, which are white no more: as many
  steps as there are objects and gray ones are enough.
\<close>

definition gc_objects :: "gcglobal \<Rightarrow> gcaddr list" where
  "gc_objects g = g_rootgc g @ concat (g_strt g) @ g_uvhead g @ g_tmudata g"

fun propagate_n :: "nat \<Rightarrow> gcglobal \<Rightarrow> nat \<times> gcglobal" where
  "propagate_n 0 g = (0, g)"
| "propagate_n (Suc n) g =
     (if g_gray g = [] then (0, g)
      else case propagatemark g of (m, g) \<Rightarrow> (case propagate_n n g of (m', g) \<Rightarrow> (m + m', g)))"

definition propagateall :: "gcglobal \<Rightarrow> nat \<times> gcglobal" where
  "propagateall g = propagate_n (length (g_gray g) + length (gc_objects g)) g"

subsection \<open>Weak tables\<close>

text \<open>Strings are values: they are marked, not cleared.\<close>

definition is_userdata :: "gcaddr \<Rightarrow> gcglobal \<Rightarrow> bool" where
  "is_userdata a g \<longleftrightarrow> (case g_body g a of Some (GUdata _ _ _) \<Rightarrow> True | _ \<Rightarrow> False)"

definition iscleared :: "gcval \<Rightarrow> bool \<Rightarrow> gcglobal \<Rightarrow> bool \<times> gcglobal" where
  "iscleared v iskey g =
     (case v of
        GRef a \<Rightarrow>
          (case g_body g a of
             Some (GString _ _) \<Rightarrow> (False, setmark a stringmark g)
           | _ \<Rightarrow> (iswhite (g_marked g a) \<or> (is_userdata a g \<and> \<not> iskey \<and> isfinalized (g_marked g a)), g))
      | _ \<Rightarrow> (False, g))"

definition clear_array :: "gcaddr \<Rightarrow> nat \<Rightarrow> gcglobal \<Rightarrow> gcglobal" where
  "clear_array a i g =
     with_table a g (\<lambda>h.
       case iscleared (h_array h ! i) False g of (c, g) \<Rightarrow> if c then set_array a i GNil g else g)"

text \<open>The second test is made only when the first one fails.\<close>

definition clear_node :: "gcaddr \<Rightarrow> nat \<Rightarrow> gcglobal \<Rightarrow> gcglobal" where
  "clear_node a i g =
     with_table a g (\<lambda>h.
       let n = h_nodes h ! i in
       if snd n = GNil then g
       else
         (case iscleared (fst n) True g of (c1, g) \<Rightarrow>
          case (if c1 then (True, g) else iscleared (snd n) False g) of (c, g) \<Rightarrow>
            if c then set_node a i (removeentry (fst n, GNil)) g else g))"

definition clear_one :: "gcaddr \<Rightarrow> gcglobal \<Rightarrow> gcglobal" where
  "clear_one a g =
     with_table a g (\<lambda>h.
       let g = (if bit (g_marked g a) VALUEWEAKBIT then fold (clear_array a) (rev [0..<length (h_array h)]) g else g)
       in fold (clear_node a) (rev [0..<length (h_nodes h)]) g)"

definition cleartable :: "gcaddr list \<Rightarrow> gcglobal \<Rightarrow> gcglobal" where
  "cleartable l g = fold clear_one l g"

subsection \<open>Upvalues and barriers\<close>

definition luaC_barrierf :: "gcaddr \<Rightarrow> gcaddr \<Rightarrow> gcglobal \<Rightarrow> gcglobal" where
  "luaC_barrierf a v g = (if g_state g = GCSpropagate then reallymarkobject v g else makewhite a g)"

definition luaC_barrierback :: "gcaddr \<Rightarrow> gcglobal \<Rightarrow> gcglobal" where
  "luaC_barrierback a g = (setmark a black2gray g)\<lparr>g_grayagain := a # g_grayagain g\<rparr>"

definition valiswhite :: "gcval \<Rightarrow> gcglobal \<Rightarrow> bool" where
  "valiswhite v g \<longleftrightarrow> (case v of GRef a \<Rightarrow> iswhite (g_marked g a) | _ \<Rightarrow> False)"

definition luaC_barrier :: "gcaddr \<Rightarrow> gcval \<Rightarrow> gcglobal \<Rightarrow> gcglobal" where
  "luaC_barrier a v g =
     (case v of GRef x \<Rightarrow> if iswhite (g_marked g x) \<and> isblack (g_marked g a) then luaC_barrierf a x g else g | _ \<Rightarrow> g)"

definition luaC_barriert :: "gcaddr \<Rightarrow> gcval \<Rightarrow> gcglobal \<Rightarrow> gcglobal" where
  "luaC_barriert a v g = (if valiswhite v g \<and> isblack (g_marked g a) then luaC_barrierback a g else g)"

text \<open>A new object: its body and its place at the head of the list of all objects.\<close>

definition luaC_link :: "gcaddr \<Rightarrow> gcbody \<Rightarrow> gcglobal \<Rightarrow> gcglobal" where
  "luaC_link a x g = (setmark a (\<lambda>_. gc_white g) (set_body a x g))\<lparr>g_rootgc := a # g_rootgc g\<rparr>"

definition luaC_linkupval :: "gcaddr \<Rightarrow> gcglobal \<Rightarrow> gcglobal" where
  "luaC_linkupval a g =
     (let g = g\<lparr>g_rootgc := a # g_rootgc g\<rparr> in
      if isgray (g_marked g a) then
        if g_state g = GCSpropagate then
          (let g = setmark a gray2black g in
           case g_body g a of Some (GUpval p) \<Rightarrow> luaC_barrier a (uv_value g p) g | _ \<Rightarrow> g)
        else makewhite a g
      else g)"

subsection \<open>Freeing and sweeping\<close>

definition sizestring :: "string \<Rightarrow> nat" where "sizestring s = sizeof_TString + length s + 1"

definition free_bytes :: "nat \<Rightarrow> gcaddr \<Rightarrow> gcglobal \<Rightarrow> gcglobal" where
  "free_bytes n a g = g\<lparr>g_body := (g_body g)(a := None), g_totalbytes := g_totalbytes g - of_nat n\<rparr>"

definition unlinkupval :: "gcaddr \<Rightarrow> gcglobal \<Rightarrow> gcglobal" where
  "unlinkupval a g = g\<lparr>g_uvhead := remove1 a (g_uvhead g)\<rparr>"

definition gc_freeupval :: "gcaddr \<Rightarrow> gcglobal \<Rightarrow> gcglobal" where
  "gc_freeupval a g =
     (let g = (case g_body g a of Some (GUpval (UOpen _ _)) \<Rightarrow> unlinkupval a g | _ \<Rightarrow> g)
      in free_bytes sizeof_UpVal a g)"

definition set_openupval :: "gcaddr \<Rightarrow> gcaddr list \<Rightarrow> gcglobal \<Rightarrow> gcglobal" where
  "set_openupval a us g = with_thread a g (\<lambda>th. set_body a (GThread (th\<lparr>th_openupval := us\<rparr>)) g)"

text \<open>\<^verbatim>\<open>luaF_close\<close> with the marks: the open upvalues \<open>us\<close> of the thread \<open>a\<close>, those of the highest slots first.\<close>

fun gc_close :: "gcaddr \<Rightarrow> nat \<Rightarrow> gcaddr list \<Rightarrow> gcglobal \<Rightarrow> gcglobal" where
  "gc_close a level [] g = g"
| "gc_close a level (u # us) g =
     (case g_body g u of
        Some (GUpval (UOpen t i)) \<Rightarrow>
          if i < level then g
          else
            let g = set_openupval a us g in
            gc_close a level us
              (if gc_isdead g u then gc_freeupval u g
               else luaC_linkupval u (set_body u (GUpval (UClosed (uv_value g (UOpen t i)))) (unlinkupval u g)))
      | _ \<Rightarrow> g)"

definition luaE_freethread :: "gcaddr \<Rightarrow> gcglobal \<Rightarrow> gcglobal" where
  "luaE_freethread a g =
     with_thread a g (\<lambda>th.
       free_bytes (sizeof_CallInfo * th_size_ci th + sizeof_TValue * length (th_stack th) + sizeof_thread) a
         (gc_close a 0 (th_openupval th) g))"

definition freeobj :: "gcaddr \<Rightarrow> gcglobal \<Rightarrow> gcglobal" where
  "freeobj a g =
     (case g_body g a of
        Some (GProto f) \<Rightarrow>
          free_bytes (sizeof_Instruction * pr_sizecode f + sizeof_ptr * length (pr_p f) + sizeof_TValue * length (pr_k f) +
            sizeof_int * pr_sizelineinfo f + sizeof_LocVar * length (pr_locvars f) + sizeof_ptr * length (pr_upvalues f) +
            sizeof_Proto) a g
      | Some (GCClosure _ ups) \<Rightarrow> free_bytes (sizeCclosure (length ups)) a g
      | Some (GLClosure _ _ ups) \<Rightarrow> free_bytes (sizeLclosure (length ups)) a g
      | Some (GUpval _) \<Rightarrow> gc_freeupval a g
      | Some (GTable h) \<Rightarrow>
          free_bytes (sizeof_Node * length (h_nodes h) + sizeof_TValue * length (h_array h) + sizeof_Table) a g
      | Some (GThread _) \<Rightarrow> luaE_freethread a g
      | Some (GString _ s) \<Rightarrow> free_bytes (sizestring s) a (g\<lparr>g_nuse := g_nuse g - 1\<rparr>)
      | Some (GUdata _ _ len) \<Rightarrow> free_bytes (sizeof_Udata + len) a g
      | None \<Rightarrow> g)"

text \<open>The lists that are swept: all objects, a bucket of strings, the open upvalues of a thread.\<close>

datatype gclist = LRoot | LStr nat | LOpen gcaddr

definition get_list :: "gclist \<Rightarrow> gcglobal \<Rightarrow> gcaddr list" where
  "get_list l g =
     (case l of
        LRoot \<Rightarrow> g_rootgc g
      | LStr i \<Rightarrow> g_strt g ! i
      | LOpen a \<Rightarrow> (case g_body g a of Some (GThread th) \<Rightarrow> th_openupval th | _ \<Rightarrow> []))"

definition set_list :: "gclist \<Rightarrow> gcaddr list \<Rightarrow> gcglobal \<Rightarrow> gcglobal" where
  "set_list l xs g =
     (case l of
        LRoot \<Rightarrow> g\<lparr>g_rootgc := xs\<rparr>
      | LStr i \<Rightarrow> g\<lparr>g_strt := (g_strt g)[i := xs]\<rparr>
      | LOpen a \<Rightarrow> set_openupval a xs g)"

text \<open>The object after the position \<open>p\<close>: the head of the list, or what follows an object.\<close>

definition next_at :: "gcaddr option \<Rightarrow> gcaddr list \<Rightarrow> gcaddr option" where
  "next_at p xs =
     (case (case p of None \<Rightarrow> xs | Some x \<Rightarrow> drop 1 (dropWhile (\<lambda>y. y \<noteq> x) xs)) of [] \<Rightarrow> None | y # _ \<Rightarrow> Some y)"

text \<open>One round of \<^verbatim>\<open>sweeplist\<close>; \<open>on_thread\<close> sweeps the open upvalues of a thread.\<close>

definition sweep_round :: "(gcaddr \<Rightarrow> gcglobal \<Rightarrow> gcglobal) \<Rightarrow> gclist \<Rightarrow> gcaddr option \<Rightarrow> gcaddr \<Rightarrow> gcglobal \<Rightarrow> gcaddr option \<times> gcglobal" where
  "sweep_round on_thread l p c g =
     (let deadmask = otherwhite g;
          g = (case g_body g c of Some (GThread _) \<Rightarrow> on_thread c g | _ \<Rightarrow> g)
      in if (g_marked g c XOR WHITEBITS) AND deadmask \<noteq> 0 then (Some c, makewhite c g)
         else (p, freeobj c (set_list l (remove1 c (get_list l g)) g)))"

fun sweep_loop :: "(gcaddr \<Rightarrow> gcglobal \<Rightarrow> gcglobal) \<Rightarrow> nat \<Rightarrow> gclist \<Rightarrow> gcaddr option \<Rightarrow> gcglobal \<Rightarrow> gcaddr option \<times> gcglobal" where
  "sweep_loop on_thread 0 l p g = (p, g)"
| "sweep_loop on_thread (Suc n) l p g =
     (case next_at p (get_list l g) of
        None \<Rightarrow> (p, g)
      | Some c \<Rightarrow> (case sweep_round on_thread l p c g of (p, g) \<Rightarrow> sweep_loop on_thread n l p g))"

text \<open>
  A whole list: as many rounds as it has objects and as upvalues that are linked into it when a thread is freed.
  The lists of open upvalues and of strings hold no threads.
\<close>

definition sweep_upvals :: "gcaddr \<Rightarrow> gcglobal \<Rightarrow> gcglobal" where
  "sweep_upvals a g = snd (sweep_loop (\<lambda>_ g. g) (length (get_list (LOpen a) g)) (LOpen a) None g)"

definition sweeplist :: "nat \<Rightarrow> gclist \<Rightarrow> gcaddr option \<Rightarrow> gcglobal \<Rightarrow> gcaddr option \<times> gcglobal" where
  "sweeplist = sweep_loop sweep_upvals"

definition sweepwholelist :: "gclist \<Rightarrow> gcglobal \<Rightarrow> gcglobal" where
  "sweepwholelist l g = snd (sweeplist (length (get_list l g) + length (g_uvhead g)) l None g)"

definition luaC_freeall :: "gcglobal \<Rightarrow> gcglobal" where
  "luaC_freeall g =
     (let g = g\<lparr>g_currentwhite := WHITEBITS OR bitmask SFIXEDBIT\<rparr>;
          g = sweepwholelist LRoot g
      in fold (\<lambda>i. sweepwholelist (LStr i)) [0..<length (g_strt g)] g)"

subsection \<open>The cycle\<close>

definition MINSTRTABSIZE :: nat where "MINSTRTABSIZE = 32"

definition gc_chain_into :: "gcglobal \<Rightarrow> gcaddr \<Rightarrow> gcaddr list list \<Rightarrow> gcaddr list list" where
  "gc_chain_into g a newhash =
     (let h1 = (case g_body g a of Some (GString h _) \<Rightarrow> lmod h (length newhash) | _ \<Rightarrow> 0)
      in newhash[h1 := a # newhash ! h1])"

definition gc_resize :: "nat \<Rightarrow> gcglobal \<Rightarrow> gcglobal" where
  "gc_resize newsize g =
     (if g_state g = GCSsweepstring then g
      else gc_realloc (sizeof_ptr * length (g_strt g)) (sizeof_ptr * newsize)
             (g\<lparr>g_strt := fold (gc_chain_into g) (concat (g_strt g)) (replicate newsize [])\<rparr>))"

definition checkSizes :: "gcglobal \<Rightarrow> gcglobal" where
  "checkSizes g =
     (let g = (if g_nuse g < length (g_strt g) div 4 \<and> length (g_strt g) > MINSTRTABSIZE * 2
               then gc_resize (length (g_strt g) div 2) g else g)
      in if g_buffsize g > LUA_MINBUFFER * 2
         then gc_realloc (g_buffsize g) (g_buffsize g div 2) (g\<lparr>g_buffsize := g_buffsize g div 2\<rparr>) else g)"

text \<open>
  \<open>call\<close> is \<^verbatim>\<open>luaD_call\<close> for the function in a slot of the stack of the running thread \<open>l\<close>: it runs the
  finalizer on the userdata above it, and whatever else the program does then.
\<close>

type_synonym gccall = "gcaddr \<Rightarrow> nat \<Rightarrow> gcglobal \<Rightarrow> gcglobal"

definition push_values :: "gcaddr \<Rightarrow> gcval list \<Rightarrow> gcglobal \<Rightarrow> gcglobal" where
  "push_values l vs g =
     with_thread l g (\<lambda>th.
       set_body l (GThread (th\<lparr>th_stack := take (th_top th) (th_stack th) @ vs @ drop (th_top th + length vs) (th_stack th),
         th_top := th_top th + length vs\<rparr>)) g)"

definition stack_top :: "gcaddr \<Rightarrow> gcglobal \<Rightarrow> nat" where
  "stack_top l g = (case g_body g l of Some (GThread th) \<Rightarrow> th_top th | _ \<Rightarrow> 0)"

definition GCTM :: "gccall \<Rightarrow> gcaddr \<Rightarrow> gcglobal \<Rightarrow> gcglobal" where
  "GCTM call l g =
     (case g_tmudata g of
        [] \<Rightarrow> g
      | u # rest \<Rightarrow>
          let g = g\<lparr>g_tmudata := rest, g_rootgc := before_udata g @ u # udata_list g\<rparr>;
              g = makewhite u g
          in case gfasttm (case g_body g u of Some (GUdata mtab _ _) \<Rightarrow> mtab | _ \<Rightarrow> None) GC_TM_GC g of (tm, g) \<Rightarrow>
               if tm = GNil then g
               else
                 let oldt = g_threshold g;
                     g = push_values l [tm, GRef u] (g\<lparr>g_threshold := 2 * g_totalbytes g\<rparr>);
                     g = call l (stack_top l g - 2) g
                 in g\<lparr>g_threshold := oldt\<rparr>)"

text \<open>\<open>n\<close> bounds the finalizers that run: a finalizer may make new userdata.\<close>

fun luaC_callGCTM :: "gccall \<Rightarrow> gcaddr \<Rightarrow> nat \<Rightarrow> gcglobal \<Rightarrow> gcglobal option" where
  "luaC_callGCTM call l 0 g = None"
| "luaC_callGCTM call l (Suc n) g = (if g_tmudata g = [] then Some g else luaC_callGCTM call l n (GCTM call l g))"

definition markmt :: "gcglobal \<Rightarrow> gcglobal" where
  "markmt g = fold markobject_opt (g_mt g) g"

definition markroot :: "gcglobal \<Rightarrow> gcglobal" where
  "markroot g =
     (let g = g\<lparr>g_gray := [], g_grayagain := [], g_weak := []\<rparr>;
          g = markobject (g_mainthread g) g;
          g = (case g_body g (g_mainthread g) of Some (GThread th) \<Rightarrow> markvalue (th_gt th) g | _ \<Rightarrow> g);
          g = markvalue (g_registry g) g;
          g = markmt g
      in g\<lparr>g_state := GCSpropagate\<rparr>)"

definition remark_upval :: "gcaddr \<Rightarrow> gcglobal \<Rightarrow> gcglobal" where
  "remark_upval u g =
     (if isgray (g_marked g u) then (case g_body g u of Some (GUpval p) \<Rightarrow> markvalue (uv_value g p) g | _ \<Rightarrow> g) else g)"

definition remarkupvals :: "gcglobal \<Rightarrow> gcglobal" where
  "remarkupvals g = fold remark_upval (g_uvhead g) g"

text \<open>The end of the mark phase before the colours are switched: \<open>l\<close> is the running thread.\<close>

definition atomic_mark :: "gcaddr \<Rightarrow> gcglobal \<Rightarrow> nat \<times> gcglobal" where
  "atomic_mark l g =
     (let g = snd (propagateall (remarkupvals g));
          g = g\<lparr>g_gray := g_weak g, g_weak := []\<rparr>;
          g = snd (propagateall (markmt (markobject l g)));
          g = snd (propagateall (g\<lparr>g_gray := g_grayagain g, g_grayagain := []\<rparr>))
      in case luaC_separateudata False g of (udsize, g) \<Rightarrow>
           case propagateall (marktmu g) of (m, g) \<Rightarrow> (udsize + m, cleartable (g_weak g) g))"

definition gc_atomic :: "gcaddr \<Rightarrow> gcglobal \<Rightarrow> gcglobal" where
  "gc_atomic l g =
     (case atomic_mark l g of (udsize, g) \<Rightarrow>
        g\<lparr>g_currentwhite := otherwhite g, g_sweepstr := 0, g_sweepgc := None, g_state := GCSsweepstring,
          g_estimate := g_totalbytes g - of_nat udsize\<rparr>)"

definition GCSTEPSIZE :: nat where "GCSTEPSIZE = 1024"
definition GCSWEEPMAX :: nat where "GCSWEEPMAX = 40"
definition GCSWEEPCOST :: nat where "GCSWEEPCOST = 10"
definition GCFINALIZECOST :: nat where "GCFINALIZECOST = 100"

definition singlestep :: "gccall \<Rightarrow> gcaddr \<Rightarrow> gcglobal \<Rightarrow> nat \<times> gcglobal" where
  "singlestep call l g =
     (case g_state g of
        GCSpause \<Rightarrow> (0, markroot g)
      | GCSpropagate \<Rightarrow> if g_gray g \<noteq> [] then propagatemark g else (0, gc_atomic l g)
      | GCSsweepstring \<Rightarrow>
          let old = g_totalbytes g;
              g = sweepwholelist (LStr (g_sweepstr g)) g;
              g = g\<lparr>g_sweepstr := g_sweepstr g + 1\<rparr>;
              g = (if g_sweepstr g \<ge> length (g_strt g) then g\<lparr>g_state := GCSsweep\<rparr> else g)
          in (GCSWEEPCOST, g\<lparr>g_estimate := g_estimate g - (old - g_totalbytes g)\<rparr>)
      | GCSsweep \<Rightarrow>
          let old = g_totalbytes g in
          (case sweeplist GCSWEEPMAX LRoot (g_sweepgc g) g of (p, g) \<Rightarrow>
             let g = g\<lparr>g_sweepgc := p\<rparr>;
                 g = (if next_at p (g_rootgc g) = None then (checkSizes g)\<lparr>g_state := GCSfinalize\<rparr> else g)
             in (GCSWEEPMAX * GCSWEEPCOST, g\<lparr>g_estimate := g_estimate g - (old - g_totalbytes g)\<rparr>))
      | GCSfinalize \<Rightarrow>
          if g_tmudata g \<noteq> [] then
            let g = GCTM call l g in
            (GCFINALIZECOST,
             if g_estimate g > of_nat GCFINALIZECOST then g\<lparr>g_estimate := g_estimate g - of_nat GCFINALIZECOST\<rparr> else g)
          else (0, g\<lparr>g_state := GCSpause, g_gcdept := 0\<rparr>))"

definition setthreshold :: "gcglobal \<Rightarrow> gcglobal" where
  "setthreshold g = g\<lparr>g_threshold := g_estimate g div 100 * of_int (g_pause g)\<rparr>"

definition MAX_LUMEM :: "64 word" where "MAX_LUMEM = - 3"

text \<open>The steps of one call; \<open>n\<close> bounds them, as finalizers may make new work.\<close>

fun gc_steps :: "gccall \<Rightarrow> gcaddr \<Rightarrow> nat \<Rightarrow> int \<Rightarrow> gcglobal \<Rightarrow> gcglobal option" where
  "gc_steps call l 0 lim g = None"
| "gc_steps call l (Suc n) lim g =
     (case singlestep call l g of (m, g) \<Rightarrow>
        if g_state g = GCSpause \<or> lim - int m \<le> 0 then Some g else gc_steps call l n (lim - int m) g)"

definition luaC_step :: "gccall \<Rightarrow> gcaddr \<Rightarrow> nat \<Rightarrow> gcglobal \<Rightarrow> gcglobal option" where
  "luaC_step call l n g =
     (let lim = uint (of_nat (GCSTEPSIZE div 100) * of_int (g_stepmul g) :: 32 word);
          lim = (if lim = 0 then uint ((MAX_LUMEM - 1) div 2) else lim);
          g = g\<lparr>g_gcdept := g_gcdept g + (g_totalbytes g - g_threshold g)\<rparr>
      in map_option (\<lambda>g.
           if g_state g \<noteq> GCSpause then
             if g_gcdept g < of_nat GCSTEPSIZE then g\<lparr>g_threshold := g_totalbytes g + of_nat GCSTEPSIZE\<rparr>
             else g\<lparr>g_gcdept := g_gcdept g - of_nat GCSTEPSIZE, g_threshold := g_totalbytes g\<rparr>
           else setthreshold g) (gc_steps call l n lim g))"

text \<open>Steps until a phase is reached, at most \<open>n\<close>.\<close>

fun steps_to :: "gccall \<Rightarrow> gcaddr \<Rightarrow> gcphase \<Rightarrow> nat \<Rightarrow> gcglobal \<Rightarrow> gcglobal option" where
  "steps_to call l ph 0 g = None"
| "steps_to call l ph (Suc n) g =
     (if g_state g = ph then Some g else steps_to call l ph n (snd (singlestep call l g)))"

definition luaC_fullgc :: "gccall \<Rightarrow> gcaddr \<Rightarrow> nat \<Rightarrow> gcglobal \<Rightarrow> gcglobal option" where
  "luaC_fullgc call l n g =
     (let g = (if g_state g \<in> {GCSpause, GCSpropagate}
               then g\<lparr>g_sweepstr := 0, g_sweepgc := None, g_gray := [], g_grayagain := [], g_weak := [], g_state := GCSsweepstring\<rparr>
               else g)
      in case steps_to call l GCSfinalize n g of
           None \<Rightarrow> None
         | Some g \<Rightarrow> map_option setthreshold (steps_to call l GCSpause n (markroot g)))"

datatype gc_what = LUA_GCSTOP | LUA_GCRESTART | LUA_GCCOLLECT | LUA_GCCOUNT | LUA_GCCOUNTB | LUA_GCSTEP | LUA_GCSETPAUSE | LUA_GCSETSTEPMUL

text \<open>The loop of \<^verbatim>\<open>LUA_GCSTEP\<close>: whether the cycle has ended.\<close>

fun gcstep_loop :: "gccall \<Rightarrow> gcaddr \<Rightarrow> nat \<Rightarrow> gcglobal \<Rightarrow> (int \<times> gcglobal) option" where
  "gcstep_loop call l 0 g = None"
| "gcstep_loop call l (Suc n) g =
     (if g_threshold g \<le> g_totalbytes g then
        case luaC_step call l (Suc n) g of
          None \<Rightarrow> None
        | Some g \<Rightarrow> if g_state g = GCSpause then Some (1, g) else gcstep_loop call l n g
      else Some (0, g))"

definition lua_gc :: "gccall \<Rightarrow> gcaddr \<Rightarrow> nat \<Rightarrow> gc_what \<Rightarrow> int \<Rightarrow> gcglobal \<Rightarrow> (int \<times> gcglobal) option" where
  "lua_gc call l n w dat g =
     (case w of
        LUA_GCSTOP \<Rightarrow> Some (0, g\<lparr>g_threshold := MAX_LUMEM\<rparr>)
      | LUA_GCRESTART \<Rightarrow> Some (0, g\<lparr>g_threshold := g_totalbytes g\<rparr>)
      | LUA_GCCOLLECT \<Rightarrow> map_option (\<lambda>g. (0, g)) (luaC_fullgc call l n g)
      | LUA_GCCOUNT \<Rightarrow> Some (sint (ucast (drop_bit 10 (g_totalbytes g)) :: 32 word), g)
      | LUA_GCCOUNTB \<Rightarrow> Some (uint (g_totalbytes g AND 0x3FF), g)
      | LUA_GCSTEP \<Rightarrow>
          let a = push_bit 10 (of_int dat) in
          gcstep_loop call l n (g\<lparr>g_threshold := (if a \<le> g_totalbytes g then g_totalbytes g - a else 0)\<rparr>)
      | LUA_GCSETPAUSE \<Rightarrow> Some (g_pause g, g\<lparr>g_pause := dat\<rparr>)
      | LUA_GCSETSTEPMUL \<Rightarrow> Some (g_stepmul g, g\<lparr>g_stepmul := dat\<rparr>))"

end
