(* ===== verification/LuaGcMark.thy ===== *)
theory LuaGcMark
  imports LuaGc
begin

section \<open>The mark phase\<close>

text \<open>
  The tricolour invariant of the mark phase, with the lists of gray objects as work lists, and what holds when the
  phase is over: what a marked object refers to is marked.
\<close>

subsection \<open>Colours\<close>

lemma WHITEBITS_bit [simp]: "bit (WHITEBITS :: 8 word) n \<longleftrightarrow> n = 0 \<or> n = 1"
  by (cases n; cases "n - 1") (auto simp: WHITEBITS_def bit_numeral_rec bit_1_iff bit_Suc)

lemma iswhite_bits: "iswhite m \<longleftrightarrow> bit m 0 \<or> bit m 1"
proof -
  have "m AND WHITEBITS = 0 \<longleftrightarrow> (\<forall>n. \<not> (bit m n \<and> (n = 0 \<or> n = 1)))"
    unfolding bit_eq_iff [of "m AND WHITEBITS" 0] by (simp only: bit_and_iff WHITEBITS_bit bit_0_eq bot_fun_def bot_bool_def simp_thms) (metis impossible_bit)
  then show ?thesis unfolding iswhite_def by metis
qed

lemma bitmask_bit [simp]: "bit (bitmask k) n \<longleftrightarrow> n = k \<and> n < 8"
  unfolding bitmask_def push_bit_of_1 by (auto simp: bit_exp_iff)

lemmas colour_defs = iswhite_bits isblack_def isgray_def isfinalized_def white2gray_def gray2black_def black2gray_def
  stringmark_def markfinalized_def maskmarks_def BLACKBIT_def FINALIZEDBIT_def KEYWEAKBIT_def VALUEWEAKBIT_def weak_bits_def

lemma white2gray_colour [simp]: "\<not> iswhite (white2gray m)" "isblack (white2gray m) = isblack m"
  "\<not> iswhite (stringmark m)" "isblack (stringmark m) = isblack m"
  by (auto simp: colour_defs bit_and_iff bit_not_iff)

lemma gray2black_colour [simp]: "iswhite (gray2black m) = iswhite m" "isblack (gray2black m)"
  "iswhite (black2gray m) = iswhite m" "\<not> isblack (black2gray m)"
  by (auto simp: colour_defs bit_and_iff bit_or_iff bit_not_iff)

lemma other_colour [simp]: "iswhite (markfinalized m) = iswhite m" "isblack (markfinalized m) = isblack m"
  "iswhite (weak_bits wk wv m) = iswhite m" "isblack (weak_bits wk wv m) = isblack m"
  by (auto simp: colour_defs bit_and_iff bit_or_iff bit_not_iff)

lemma weak_bits_set [simp]: "bit (weak_bits wk wv m) KEYWEAKBIT = wk" "bit (weak_bits wk wv m) VALUEWEAKBIT = wv"
  by (auto simp: colour_defs bit_and_iff bit_or_iff bit_not_iff)

lemma kept_bits [simp]: "bit (white2gray m) KEYWEAKBIT = bit m KEYWEAKBIT" "bit (white2gray m) VALUEWEAKBIT = bit m VALUEWEAKBIT"
  "bit (gray2black m) KEYWEAKBIT = bit m KEYWEAKBIT" "bit (gray2black m) VALUEWEAKBIT = bit m VALUEWEAKBIT"
  "bit (black2gray m) KEYWEAKBIT = bit m KEYWEAKBIT" "bit (black2gray m) VALUEWEAKBIT = bit m VALUEWEAKBIT"
  "bit (stringmark m) KEYWEAKBIT = bit m KEYWEAKBIT" "bit (stringmark m) VALUEWEAKBIT = bit m VALUEWEAKBIT"
  by (auto simp: colour_defs bit_and_iff bit_or_iff bit_not_iff)

subsection \<open>References\<close>

definition val_refs :: "gcval \<Rightarrow> gcaddr set" where
  "val_refs v = (case v of GRef a \<Rightarrow> {a} | _ \<Rightarrow> {})"

lemma val_refs_simps [simp]: "val_refs (GRef a) = {a}" "val_refs GNil = {}" "val_refs GPlain = {}" "val_refs GDead = {}"
  by (simp_all add: val_refs_def)

definition vals_refs :: "gcval list \<Rightarrow> gcaddr set" where
  "vals_refs vs = (\<Union>v\<in>set vs. val_refs v)"

text \<open>A node with the value nil is free, whatever its key is.\<close>

definition node_refs :: "gcval \<times> gcval \<Rightarrow> gcaddr set" where
  "node_refs n = (if snd n = GNil then {} else val_refs (fst n) \<union> val_refs (snd n))"

definition nodes_refs :: "(gcval \<times> gcval) list \<Rightarrow> gcaddr set" where
  "nodes_refs ns = (\<Union>n\<in>set ns. node_refs n)"

definition opts_refs :: "gcaddr option list \<Rightarrow> gcaddr set" where
  "opts_refs xs = {a. Some a \<in> set xs}"

fun body_refs :: "gcglobal \<Rightarrow> gcbody \<Rightarrow> gcaddr set" where
  "body_refs g (GString _ _) = {}"
| "body_refs g (GUdata mtab env _) = set_option mtab \<union> {env}"
| "body_refs g (GUpval p) = val_refs (uv_value g p)"
| "body_refs g (GCClosure env ups) = {env} \<union> vals_refs ups"
| "body_refs g (GLClosure env p ups) = {env, p} \<union> set ups"
| "body_refs g (GTable h) = set_option (h_metatable h) \<union> vals_refs (h_array h) \<union> nodes_refs (h_nodes h)"
| "body_refs g (GThread th) = val_refs (th_gt th) \<union> vals_refs (take (th_top th) (th_stack th))"
| "body_refs g (GProto f) =
     set_option (pr_source f) \<union> vals_refs (pr_k f) \<union> opts_refs (pr_upvalues f) \<union> opts_refs (pr_p f) \<union> opts_refs (pr_locvars f)"

definition refs :: "gcglobal \<Rightarrow> gcaddr \<Rightarrow> gcaddr set" where
  "refs g a = (case g_body g a of None \<Rightarrow> {} | Some x \<Rightarrow> body_refs g x)"

abbreviation is_white :: "gcglobal \<Rightarrow> gcaddr \<Rightarrow> bool" where "is_white g a \<equiv> iswhite (g_marked g a)"
abbreviation is_black :: "gcglobal \<Rightarrow> gcaddr \<Rightarrow> bool" where "is_black g a \<equiv> isblack (g_marked g a)"
abbreviation allocated :: "gcglobal \<Rightarrow> gcaddr set" where "allocated g \<equiv> dom (g_body g)"

text \<open>The types that the references have.\<close>

definition is_string :: "gcglobal \<Rightarrow> gcaddr \<Rightarrow> bool" where
  "is_string g a \<longleftrightarrow> (\<exists>h s. g_body g a = Some (GString h s))"

definition is_table :: "gcglobal \<Rightarrow> gcaddr \<Rightarrow> bool" where
  "is_table g a \<longleftrightarrow> (\<exists>h. g_body g a = Some (GTable h))"

definition is_thread :: "gcglobal \<Rightarrow> gcaddr \<Rightarrow> bool" where
  "is_thread g a \<longleftrightarrow> (\<exists>h. g_body g a = Some (GThread h))"

definition is_upval :: "gcglobal \<Rightarrow> gcaddr \<Rightarrow> bool" where
  "is_upval g a \<longleftrightarrow> (\<exists>p. g_body g a = Some (GUpval p))"

definition is_open :: "gcglobal \<Rightarrow> gcaddr \<Rightarrow> bool" where
  "is_open g a \<longleftrightarrow> (\<exists>t i. g_body g a = Some (GUpval (UOpen t i)))"

definition traversable :: "gcglobal \<Rightarrow> gcaddr \<Rightarrow> bool" where
  "traversable g a \<longleftrightarrow>
     (case g_body g a of
        Some (GTable _) \<Rightarrow> True | Some (GCClosure _ _) \<Rightarrow> True | Some (GLClosure _ _ _) \<Rightarrow> True
      | Some (GThread _) \<Rightarrow> True | Some (GProto _) \<Rightarrow> True | _ \<Rightarrow> False)"

definition well_typed :: "gcglobal \<Rightarrow> bool" where
  "well_typed g \<longleftrightarrow>
     (\<forall>a. refs g a \<subseteq> allocated g) \<and>
     (\<forall>a x. g_body g a = Some x \<longrightarrow>
        (case x of
           GUdata _ _ _ \<Rightarrow> \<forall>r\<in>body_refs g x. is_table g r
         | GUpval _ \<Rightarrow> \<forall>r\<in>body_refs g x. \<not> is_upval g r
         | GProto f \<Rightarrow> \<forall>r\<in>set_option (pr_source f) \<union> opts_refs (pr_upvalues f) \<union> opts_refs (pr_locvars f). is_string g r
         | _ \<Rightarrow> True))"

subsection \<open>The tricolour invariant\<close>

text \<open>
  The objects in \<open>X\<close> are being traversed: they are marked, in no list, and need not have their references marked yet.
  All others: a white object is of the current white, a black object refers to no white one, a gray object waits in
  a list unless it is a string or an open upvalue; threads and open upvalues are never black.
\<close>

definition listed :: "gcglobal \<Rightarrow> gcaddr list" where
  "listed g = g_gray g @ g_grayagain g @ g_weak g"

definition tricolour :: "gcaddr set \<Rightarrow> gcglobal \<Rightarrow> bool" where
  "tricolour X g \<longleftrightarrow>
     well_typed g \<and> allocated g = set (gc_objects g) \<and>
     (\<forall>a\<in>allocated g. is_white g a \<longrightarrow> \<not> is_black g a \<and> \<not> gc_isdead g a) \<and>
     (\<forall>a\<in>allocated g - X. is_black g a \<longrightarrow> (\<forall>r\<in>refs g a. \<not> is_white g r)) \<and>
     (\<forall>a\<in>allocated g - X. isgray (g_marked g a) \<longrightarrow> a \<in> set (listed g) \<or> is_string g a \<or> is_open g a) \<and>
     (\<forall>a\<in>allocated g - X. is_thread g a \<or> is_open g a \<longrightarrow> \<not> is_black g a) \<and>
     distinct (listed g) \<and>
     (\<forall>a\<in>set (listed g). a \<in> allocated g \<and> traversable g a \<and> isgray (g_marked g a) \<and> a \<notin> X) \<and>
     (\<forall>a\<in>X. a \<in> allocated g \<and> \<not> is_white g a)"

text \<open>What marking does: marks get darker, and objects come into the list of gray ones.\<close>

definition whites :: "gcglobal \<Rightarrow> nat" where
  "whites g = card {a\<in>allocated g. is_white g a}"

definition marks_on :: "gcglobal \<Rightarrow> gcglobal \<Rightarrow> bool" where
  "marks_on g g' \<longleftrightarrow>
     (\<exists>m l. g' = g\<lparr>g_marked := m, g_gray := l\<rparr>) \<and>
     (\<forall>a. \<not> is_white g a \<longrightarrow> \<not> is_white g' a \<and> is_black g' a = is_black g a) \<and>
     (\<forall>a. traversable g a \<and> is_black g' a \<longrightarrow> is_black g a) \<and>
     (\<forall>a. bit (g_marked g' a) KEYWEAKBIT = bit (g_marked g a) KEYWEAKBIT \<and>
          bit (g_marked g' a) VALUEWEAKBIT = bit (g_marked g a) VALUEWEAKBIT) \<and>
     whites g' + length (g_gray g') \<le> whites g + length (g_gray g)"

lemma body_cong:
  assumes "g_body g' = g_body g"
  shows "uv_value g' = uv_value g" "body_refs g' = body_refs g" "refs g' = refs g" "is_string g' = is_string g"
    "is_table g' = is_table g" "is_thread g' = is_thread g" "is_upval g' = is_upval g" "is_open g' = is_open g"
    "traversable g' = traversable g" "well_typed g' = well_typed g"
proof -
  show u: "uv_value g' = uv_value g" by (rule ext) (simp add: uv_value_def assms split: upplace.split)
  show b: "body_refs g' = body_refs g"
  proof (rule ext)
    show "body_refs g' x = body_refs g x" for x by (cases x) (simp_all add: u)
  qed
  show r: "refs g' = refs g" by (rule ext) (simp add: refs_def assms b split: option.split)
  show t: "is_string g' = is_string g" "is_table g' = is_table g" "is_thread g' = is_thread g" "is_upval g' = is_upval g"
      "is_open g' = is_open g" "traversable g' = traversable g"
    by (simp_all add: fun_eq_iff is_string_def is_table_def is_thread_def is_upval_def is_open_def traversable_def assms)
  show "well_typed g' = well_typed g" unfolding well_typed_def assms r b t by (rule refl)
qed

lemma setmark_simps [simp]:
  "g_body (setmark a f g) = g_body g" "g_gray (setmark a f g) = g_gray g" "g_grayagain (setmark a f g) = g_grayagain g"
  "g_weak (setmark a f g) = g_weak g" "gc_objects (setmark a f g) = gc_objects g" "listed (setmark a f g) = listed g"
  "g_marked (setmark a f g) x = (if x = a then f (g_marked g a) else g_marked g x)" "otherwhite (setmark a f g) = otherwhite g"
  "g_tmudata (setmark a f g) = g_tmudata g" "g_currentwhite (setmark a f g) = g_currentwhite g"
  by (simp_all add: setmark_def gc_objects_def listed_def otherwhite_def)

lemma push_gray_simps [simp]:
  "g_body (push_gray a g) = g_body g" "g_gray (push_gray a g) = a # g_gray g" "listed (push_gray a g) = a # listed g"
  "gc_objects (push_gray a g) = gc_objects g" "g_marked (push_gray a g) = g_marked g" "otherwhite (push_gray a g) = otherwhite g"
  by (simp_all add: push_gray_def gc_objects_def listed_def otherwhite_def)

lemma gc_isdead_cong: "g_marked g' a = g_marked g a \<Longrightarrow> otherwhite g' = otherwhite g \<Longrightarrow> gc_isdead g' a = gc_isdead g a"
  by (simp add: gc_isdead_def)

lemmas body_setmark [simp] = body_cong [OF setmark_simps(1)] and body_push_gray [simp] = body_cong [OF push_gray_simps(1)]

lemma tricolourD:
  assumes "tricolour X g"
  shows "well_typed g" "allocated g = set (gc_objects g)" "distinct (listed g)"
    "a \<in> allocated g \<Longrightarrow> is_white g a \<Longrightarrow> \<not> is_black g a" "a \<in> allocated g \<Longrightarrow> is_white g a \<Longrightarrow> \<not> gc_isdead g a"
    "a \<in> allocated g \<Longrightarrow> a \<notin> X \<Longrightarrow> is_black g a \<Longrightarrow> r \<in> refs g a \<Longrightarrow> \<not> is_white g r"
    "a \<in> allocated g \<Longrightarrow> a \<notin> X \<Longrightarrow> isgray (g_marked g a) \<Longrightarrow> a \<in> set (listed g) \<or> is_string g a \<or> is_open g a"
    "a \<in> allocated g \<Longrightarrow> a \<notin> X \<Longrightarrow> is_thread g a \<or> is_open g a \<Longrightarrow> \<not> is_black g a"
    "a \<in> set (listed g) \<Longrightarrow> a \<in> allocated g \<and> traversable g a \<and> isgray (g_marked g a) \<and> a \<notin> X"
    "a \<in> X \<Longrightarrow> a \<in> allocated g \<and> \<not> is_white g a"
    "refs g a \<subseteq> allocated g"
proof -
  have c: "well_typed g" "allocated g = set (gc_objects g)"
    "\<forall>a\<in>allocated g. is_white g a \<longrightarrow> \<not> is_black g a \<and> \<not> gc_isdead g a"
    "\<forall>a\<in>allocated g - X. is_black g a \<longrightarrow> (\<forall>r\<in>refs g a. \<not> is_white g r)"
    "\<forall>a\<in>allocated g - X. isgray (g_marked g a) \<longrightarrow> a \<in> set (listed g) \<or> is_string g a \<or> is_open g a"
    "\<forall>a\<in>allocated g - X. is_thread g a \<or> is_open g a \<longrightarrow> \<not> is_black g a"
    "distinct (listed g)"
    "\<forall>a\<in>set (listed g). a \<in> allocated g \<and> traversable g a \<and> isgray (g_marked g a) \<and> a \<notin> X"
    "\<forall>a\<in>X. a \<in> allocated g \<and> \<not> is_white g a"
    using assms unfolding tricolour_def by - (elim conjE, assumption)+
  show "well_typed g" "allocated g = set (gc_objects g)" "distinct (listed g)" by (fact c)+
  show "a \<in> allocated g \<Longrightarrow> is_white g a \<Longrightarrow> \<not> is_black g a" "a \<in> allocated g \<Longrightarrow> is_white g a \<Longrightarrow> \<not> gc_isdead g a"
    using c(3) by blast+
  show "a \<in> allocated g \<Longrightarrow> a \<notin> X \<Longrightarrow> is_black g a \<Longrightarrow> r \<in> refs g a \<Longrightarrow> \<not> is_white g r" using c(4) by blast
  show "a \<in> allocated g \<Longrightarrow> a \<notin> X \<Longrightarrow> isgray (g_marked g a) \<Longrightarrow> a \<in> set (listed g) \<or> is_string g a \<or> is_open g a"
    using c(5) by blast
  show "a \<in> allocated g \<Longrightarrow> a \<notin> X \<Longrightarrow> is_thread g a \<or> is_open g a \<Longrightarrow> \<not> is_black g a" using c(6) by blast
  show "a \<in> set (listed g) \<Longrightarrow> a \<in> allocated g \<and> traversable g a \<and> isgray (g_marked g a) \<and> a \<notin> X" using c(8) by blast
  show "a \<in> X \<Longrightarrow> a \<in> allocated g \<and> \<not> is_white g a" using c(9) by blast
  show "refs g a \<subseteq> allocated g" using c(1) unfolding well_typed_def by blast
qed

text \<open>An object that is marked changes nothing for the others.\<close>

lemma tricolour_setmark:
  assumes t: "tricolour X g" and a: "a \<in> allocated g" "\<not> iswhite (f (g_marked g a))"
    and own: "a \<notin> X' \<Longrightarrow> isblack (f (g_marked g a)) \<Longrightarrow> (\<forall>r\<in>refs g a. \<not> is_white g r \<or> r = a) \<and> \<not> is_thread g a \<and> \<not> is_open g a"
      "a \<notin> X' \<Longrightarrow> \<not> isblack (f (g_marked g a)) \<Longrightarrow> a \<in> set (listed g) \<or> is_string g a \<or> is_open g a"
    and lst: "a \<in> set (listed g) \<Longrightarrow> \<not> isblack (f (g_marked g a)) \<and> a \<notin> X'"
    and X: "X' = X \<or> X' = insert a X"
  shows "tricolour X' (setmark a f g)"
proof -
  note d = tricolourD [OF t]
  have X': "x \<noteq> a \<Longrightarrow> x \<in> X' \<longleftrightarrow> x \<in> X" for x using X by auto
  show ?thesis unfolding tricolour_def body_setmark setmark_simps(1) setmark_simps(5) setmark_simps(6)
  proof (intro conjI ballI impI)
    show "well_typed g" "allocated g = set (gc_objects g)" "distinct (listed g)" by (fact d)+
  next
    fix x assume x: "x \<in> allocated g" "is_white (setmark a f g) x"
    then have "x \<noteq> a" using a by auto
    then show "\<not> is_black (setmark a f g) x" using x d(4) by simp
    have "gc_isdead (setmark a f g) x = gc_isdead g x" by (rule gc_isdead_cong) (simp_all add: \<open>x \<noteq> a\<close>)
    then show "\<not> gc_isdead (setmark a f g) x" using x d(5) \<open>x \<noteq> a\<close> by simp
  next
    fix x r assume x: "x \<in> allocated g - X'" "is_black (setmark a f g) x" "r \<in> refs g x"
    show "\<not> is_white (setmark a f g) r"
    proof (cases "x = a")
      case True
      then show ?thesis using x own(1) a(2) by auto
    next
      case False
      then have "\<not> is_white g r" using x d(6) [of x r] X' by auto
      then show ?thesis using a(2) by simp
    qed
  next
    fix x assume x: "x \<in> allocated g - X'" "isgray (g_marked (setmark a f g) x)"
    show "x \<in> set (listed g) \<or> is_string g x \<or> is_open g x"
    proof (cases "x = a")
      case True
      then show ?thesis using x own(2) by (simp add: isgray_def)
    next
      case False
      then show ?thesis using x d(7) [of x] X' by auto
    qed
  next
    fix x assume x: "x \<in> allocated g - X'" "is_thread g x \<or> is_open g x"
    show "\<not> is_black (setmark a f g) x"
    proof (cases "x = a")
      case True
      then show ?thesis using x own(1) by auto
    next
      case False
      then show ?thesis using x d(8) [of x] X' by auto
    qed
  next
    fix x assume x: "x \<in> set (listed g)"
    note l = d(9) [OF x]
    then show "x \<in> allocated g" "traversable g x" by simp_all
    show "isgray (g_marked (setmark a f g) x)" using l lst x a(2) by (auto simp: isgray_def)
    show "x \<notin> X'" using l lst x X' by (cases "x = a") auto
  next
    fix x assume "x \<in> X'"
    then show "x \<in> allocated g" "\<not> is_white (setmark a f g) x" using X d(10) [of x] a by auto
  qed
qed

lemma tricolour_end:
  assumes t: "tricolour (insert a X) g" and a: "a \<notin> X"
    and own: "is_black g a \<Longrightarrow> (\<forall>r\<in>refs g a. \<not> is_white g r) \<and> \<not> is_thread g a \<and> \<not> is_open g a"
      "\<not> is_black g a \<Longrightarrow> is_string g a \<or> is_open g a"
  shows "tricolour X g"
proof -
  note d = tricolourD [OF t]
  show ?thesis unfolding tricolour_def
  proof (intro conjI ballI impI)
    fix x r assume x: "x \<in> allocated g - X" "is_black g x" "r \<in> refs g x"
    then show "\<not> is_white g r" using d(6) [of x r] own(1) by (cases "x = a") auto
  next
    fix x assume x: "x \<in> allocated g - X" "isgray (g_marked g x)"
    then show "x \<in> set (listed g) \<or> is_string g x \<or> is_open g x" using d(7) [of x] own(2) by (cases "x = a") (auto simp: isgray_def)
  next
    fix x assume x: "x \<in> allocated g - X" "is_thread g x \<or> is_open g x"
    then show "\<not> is_black g x" using d(8) [of x] own(1) by (cases "x = a") auto
  qed (use d in auto)
qed

subsection \<open>Marking an object\<close>

lemma marks_on_refl [simp]: "marks_on g g"
proof -
  have "g = g\<lparr>g_marked := g_marked g, g_gray := g_gray g\<rparr>" by simp
  then show ?thesis unfolding marks_on_def by blast
qed

lemma marks_on_trans:
  assumes "marks_on g g'" "marks_on g' g''"
  shows "marks_on g g''"
proof -
  obtain m l m' l' where "g' = g\<lparr>g_marked := m, g_gray := l\<rparr>" "g'' = g'\<lparr>g_marked := m', g_gray := l'\<rparr>"
    using assms by (auto simp: marks_on_def)
  then have "g'' = g\<lparr>g_marked := m', g_gray := l'\<rparr>" by simp
  then have e: "\<exists>m l. g'' = g\<lparr>g_marked := m, g_gray := l\<rparr>" by blast
  have "g_body g' = g_body g" using \<open>g' = g\<lparr>g_marked := m, g_gray := l\<rparr>\<close> by simp
  then have t: "traversable g' = traversable g" by (rule body_cong(9))
  show ?thesis unfolding marks_on_def
    by (intro conjI allI impI e) (use assms in \<open>auto simp: marks_on_def t\<close>)
qed

lemma marks_on_body:
  assumes "marks_on g g'"
  shows "g_body g' = g_body g" "g_grayagain g' = g_grayagain g" "g_weak g' = g_weak g" "gc_objects g' = gc_objects g"
    "g_currentwhite g' = g_currentwhite g" "otherwhite g' = otherwhite g"
proof -
  obtain m l where e: "g' = g\<lparr>g_marked := m, g_gray := l\<rparr>" using assms by (auto simp: marks_on_def)
  show "g_body g' = g_body g" "g_grayagain g' = g_grayagain g" "g_weak g' = g_weak g" "gc_objects g' = gc_objects g"
    "g_currentwhite g' = g_currentwhite g" "otherwhite g' = otherwhite g"
    by (simp_all add: e gc_objects_def otherwhite_def)
qed

lemma marks_onD:
  "marks_on g g' \<Longrightarrow> \<not> is_white g a \<Longrightarrow> \<not> is_white g' a" "marks_on g g' \<Longrightarrow> \<not> is_white g a \<Longrightarrow> is_black g' a = is_black g a"
  "marks_on g g' \<Longrightarrow> whites g' + length (g_gray g') \<le> whites g + length (g_gray g)"
  by (simp_all add: marks_on_def)

lemma whites_setmark:
  assumes "finite (allocated g)" "a \<in> allocated g" "is_white g a" "\<not> iswhite (f (g_marked g a))"
  shows "Suc (whites (setmark a f g)) = whites g"
proof -
  have "{x\<in>allocated g. is_white g x} = insert a {x\<in>allocated (setmark a f g). is_white (setmark a f g) x}"
    "a \<notin> {x\<in>allocated (setmark a f g). is_white (setmark a f g) x}" using assms by auto
  then show ?thesis using assms(1) by (simp add: whites_def)
qed

lemma whites_same: "(iswhite (f (g_marked g a)) = is_white g a) \<Longrightarrow> whites (setmark a f g) = whites g"
  unfolding whites_def by (rule arg_cong [where f = card]) auto

lemma whites_push [simp]: "whites (push_gray a g) = whites g"
  by (simp add: whites_def)

definition keeps_weak :: "(8 word \<Rightarrow> 8 word) \<Rightarrow> bool" where
  "keeps_weak f \<longleftrightarrow> (\<forall>m. bit (f m) KEYWEAKBIT = bit m KEYWEAKBIT \<and> bit (f m) VALUEWEAKBIT = bit m VALUEWEAKBIT)"

lemma keeps_weak_simps [simp]: "keeps_weak white2gray" "keeps_weak gray2black" "keeps_weak stringmark" "keeps_weak black2gray"
  by (simp_all add: keeps_weak_def)

lemma setmark_on:
  assumes "\<exists>m l. g' = g\<lparr>g_marked := m, g_gray := l\<rparr>"
  shows "\<exists>m l. setmark a f g' = g\<lparr>g_marked := m, g_gray := l\<rparr>"
proof -
  obtain m l where "g' = g\<lparr>g_marked := m, g_gray := l\<rparr>" using assms by blast
  then have "setmark a f g' = g\<lparr>g_marked := m(a := f (m a)), g_gray := l\<rparr>" by (simp add: setmark_def)
  then show ?thesis by blast
qed

lemma setmark_on_self: "\<exists>m l. setmark a f g = g\<lparr>g_marked := m, g_gray := l\<rparr>"
  unfolding setmark_def by (rule exI [where x = "(g_marked g)(a := f (g_marked g a))"], rule exI [where x = "g_gray g"]) simp

lemma push_on:
  assumes "\<exists>m l. g' = g\<lparr>g_marked := m, g_gray := l\<rparr>"
  shows "\<exists>m l. push_gray a g' = g\<lparr>g_marked := m, g_gray := l\<rparr>"
proof -
  obtain m l where "g' = g\<lparr>g_marked := m, g_gray := l\<rparr>" using assms by blast
  then have "push_gray a g' = g\<lparr>g_marked := m, g_gray := a # l\<rparr>" by (simp add: push_gray_def)
  then show ?thesis by blast
qed

lemma marks_on_setmark:
  assumes "finite (allocated g)" "a \<in> allocated g" "is_white g a" "\<not> iswhite (f (g_marked g a))" "keeps_weak f"
    "traversable g a \<Longrightarrow> isblack (f (g_marked g a)) \<Longrightarrow> is_black g a"
  shows "marks_on g (setmark a f g)"
  unfolding marks_on_def using whites_setmark [of g a f, OF assms(1-4)] assms(3,4,5,6)
  by (intro conjI allI impI setmark_on_self) (auto simp: keeps_weak_def split: if_splits)

lemma marks_on_push:
  assumes "finite (allocated g)" "a \<in> allocated g" "is_white g a" "\<not> iswhite (f (g_marked g a))" "keeps_weak f"
    "traversable g a \<Longrightarrow> isblack (f (g_marked g a)) \<Longrightarrow> is_black g a"
  shows "marks_on g (push_gray a (setmark a f g))"
  unfolding marks_on_def using whites_setmark [of g a f, OF assms(1-4)] assms(3,4,5,6)
  by (intro conjI allI impI push_on setmark_on_self) (auto simp: keeps_weak_def split: if_splits)

lemma marks_on_blacken:
  assumes "marks_on g g'" "is_white g a" "\<not> is_white g' a" "\<not> traversable g a"
  shows "marks_on g (setmark a gray2black g')"
proof -
  have w: "whites (setmark a gray2black g') = whites g'" by (rule whites_same) simp
  have e: "\<exists>m l. g' = g\<lparr>g_marked := m, g_gray := l\<rparr>" using assms(1) by (simp add: marks_on_def)
  show ?thesis unfolding marks_on_def
    by (intro conjI allI impI setmark_on e) (use assms w in \<open>auto simp: marks_on_def split: if_splits\<close>)
qed

definition mark_rank :: "gcglobal \<Rightarrow> gcaddr \<Rightarrow> nat" where
  "mark_rank g a = (case g_body g a of Some (GUpval _) \<Rightarrow> 3 | Some (GUdata _ _ _) \<Rightarrow> 2 | _ \<Rightarrow> 1)"

text \<open>An open upvalue that becomes gray has its value marked at that time.\<close>

definition opens :: "gcglobal \<Rightarrow> gcglobal \<Rightarrow> bool" where
  "opens g g' \<longleftrightarrow> (\<forall>u. is_open g u \<and> is_white g u \<and> \<not> is_white g' u \<longrightarrow> (\<forall>r\<in>refs g' u. \<not> is_white g' r))"

lemma opens_refl [simp]: "opens g g"
  by (simp add: opens_def)

lemma opens_trans:
  assumes "opens g g'" "opens g' g''" "is_open g' = is_open g" "\<And>u. refs g'' u \<subseteq> refs g' u"
    "\<And>r. \<not> is_white g' r \<Longrightarrow> \<not> is_white g'' r"
  shows "opens g g''"
  unfolding opens_def
proof (intro allI impI ballI)
  fix u r assume u: "is_open g u \<and> is_white g u \<and> \<not> is_white g'' u" and r: "r \<in> refs g'' u"
  show "\<not> is_white g'' r"
  proof (cases "is_white g' u")
    case True
    then show ?thesis using assms(2) u r unfolding opens_def assms(3) by blast
  next
    case False
    then have "\<not> is_white g' r" using assms(1,4) u r unfolding opens_def by blast
    then show ?thesis by (rule assms(5))
  qed
qed

lemma opens_setmark: "\<not> is_open g a \<Longrightarrow> opens g (setmark a f g)"
  by (auto simp: opens_def)

text \<open>What a marking function has to do for an object.\<close>

definition marks_ok :: "gcaddr set \<Rightarrow> gcglobal \<Rightarrow> gcglobal \<Rightarrow> bool" where
  "marks_ok X g g' \<longleftrightarrow> tricolour X g' \<and> marks_on g g' \<and> opens g g'"

lemma marks_ok_refl: "tricolour X g \<Longrightarrow> marks_ok X g g"
  by (simp add: marks_ok_def)

lemma marks_ok_trans:
  assumes "marks_ok X g g'" "marks_ok X g' g''" shows "marks_ok X g g''"
proof -
  have m: "marks_on g g'" "marks_on g' g''" using assms by (simp_all add: marks_ok_def)
  have "opens g g''"
    by (rule opens_trans [OF _ _ body_cong(8) [OF marks_on_body(1) [OF m(1)]] equalityD1 [OF fun_cong [OF body_cong(3) [OF marks_on_body(1) [OF m(2)]]]] marks_onD(1) [OF m(2)]])
      (use assms in \<open>simp_all add: marks_ok_def\<close>)
  then show ?thesis using assms marks_on_trans by (auto simp: marks_ok_def)
qed

lemma marks_okD:
  assumes "marks_ok X g g'"
  shows "tricolour X g'" "marks_on g g'" "\<not> is_white g a \<Longrightarrow> \<not> is_white g' a" "g_body g' = g_body g" "refs g' = refs g"
    "opens g g'"
proof -
  show "opens g g'" using assms by (simp add: marks_ok_def)
  show t: "tricolour X g'" and m: "marks_on g g'" using assms by (simp_all add: marks_ok_def)
  show "\<not> is_white g a \<Longrightarrow> \<not> is_white g' a" by (rule marks_onD(1) [OF m])
  show b: "g_body g' = g_body g" by (rule marks_on_body(1) [OF m])
  show "refs g' = refs g" by (rule body_cong(3) [OF b])
qed

lemma setmark_setmark: "setmark a f (setmark a h g) = setmark a (f \<circ> h) g"
  by (simp add: setmark_def comp_def)

lemma white_not_listed: "tricolour X g \<Longrightarrow> is_white g a \<Longrightarrow> a \<notin> set (listed g) \<and> a \<notin> X"
  using tricolourD(9) [of X g a] tricolourD(10) [of X g a] by (auto simp: isgray_def)

lemma tricolour_finite: "tricolour X g \<Longrightarrow> finite (allocated g)"
  using tricolourD(2) by (metis List.finite_set)

lemma tricolour_begin:
  assumes "tricolour X g" "a \<in> allocated g" "is_white g a" "\<not> iswhite (f (g_marked g a))"
  shows "tricolour (insert a X) (setmark a f g)"
  by (rule tricolour_setmark [OF assms(1,2), where f = f, OF assms(4)]) (use white_not_listed [OF assms(1,3)] in auto)

lemma well_typedD:
  assumes "well_typed g" "g_body g a = Some x"
  shows "x = GUdata mtab env len \<Longrightarrow> r \<in> set_option mtab \<union> {env} \<Longrightarrow> is_table g r"
    "x = GUpval p \<Longrightarrow> r \<in> val_refs (uv_value g p) \<Longrightarrow> \<not> is_upval g r"
    "x = GProto f \<Longrightarrow> r \<in> set_option (pr_source f) \<union> opts_refs (pr_upvalues f) \<union> opts_refs (pr_locvars f) \<Longrightarrow> is_string g r"
    "body_refs g x \<subseteq> allocated g"
proof -
  have w: "case x of GUdata _ _ _ \<Rightarrow> \<forall>r\<in>body_refs g x. is_table g r | GUpval _ \<Rightarrow> \<forall>r\<in>body_refs g x. \<not> is_upval g r
         | GProto f \<Rightarrow> \<forall>r\<in>set_option (pr_source f) \<union> opts_refs (pr_upvalues f) \<union> opts_refs (pr_locvars f). is_string g r
         | _ \<Rightarrow> True"
    using assms unfolding well_typed_def by blast
  show "x = GUdata mtab env len \<Longrightarrow> r \<in> set_option mtab \<union> {env} \<Longrightarrow> is_table g r"
    "x = GUpval p \<Longrightarrow> r \<in> val_refs (uv_value g p) \<Longrightarrow> \<not> is_upval g r"
    "x = GProto f \<Longrightarrow> r \<in> set_option (pr_source f) \<union> opts_refs (pr_upvalues f) \<union> opts_refs (pr_locvars f) \<Longrightarrow> is_string g r"
    using w by auto
  have "refs g a \<subseteq> allocated g" using assms(1) unfolding well_typed_def by blast
  then show "body_refs g x \<subseteq> allocated g" by (simp add: refs_def assms(2))
qed

lemma rank_table: "is_table g a \<Longrightarrow> mark_rank g a = 1" and rank_not_upval: "\<not> is_upval g a \<Longrightarrow> mark_rank g a \<le> 2"
  by (auto simp: is_table_def is_upval_def mark_rank_def split: option.splits gcbody.splits)

lemma mark_rank_cong: "g_body g' = g_body g \<Longrightarrow> mark_rank g' = mark_rank g"
  by (simp add: mark_rank_def fun_eq_iff)

definition mark_if :: "nat \<Rightarrow> gcaddr \<Rightarrow> gcglobal \<Rightarrow> gcglobal" where
  "mark_if n a g = (if is_white g a then mark_depth n a g else g)"

definition marks_depth :: "nat \<Rightarrow> bool" where
  "marks_depth n \<longleftrightarrow> (\<forall>X g a. tricolour X g \<longrightarrow> a \<in> allocated g \<longrightarrow> mark_rank g a \<le> n \<longrightarrow>
     marks_ok X g (mark_if n a g) \<and> \<not> is_white (mark_if n a g) a)"

lemma marks_depthD:
  "marks_depth n \<Longrightarrow> tricolour X g \<Longrightarrow> a \<in> allocated g \<Longrightarrow> mark_rank g a \<le> n \<Longrightarrow> marks_ok X g (mark_if n a g)"
  "marks_depth n \<Longrightarrow> tricolour X g \<Longrightarrow> a \<in> allocated g \<Longrightarrow> mark_rank g a \<le> n \<Longrightarrow> \<not> is_white (mark_if n a g) a"
  unfolding marks_depth_def by blast+

lemma mark_udata:
  assumes m: "marks_depth n" and t: "tricolour X g" and a: "g_body g a = Some (GUdata mtab env len)" "a \<notin> X"
    and n: "mark_rank g a \<le> Suc n" and m2: "marks_on g (setmark a f g)" and f: "\<not> iswhite (f (g_marked g a))" "isblack (f (g_marked g a))"
    and g2: "g2 = setmark a f g" and g': "g' = mark_if n env (case mtab of Some t \<Rightarrow> mark_if n t g2 | None \<Rightarrow> g2)"
  shows "marks_ok X g g'" "\<not> is_white g' a"
proof -
  have al: "a \<in> allocated g" using a(1) by auto
  have nl: "a \<notin> set (listed g)" using tricolourD(9) [OF t, of a] a(1) by (auto simp: traversable_def)
  have t2: "tricolour (insert a X) g2" unfolding g2 by (rule tricolour_setmark [OF t al, where f = f, OF f(1)]) (use nl in auto)
  note m2 = m2 [folded g2]
  note w = tricolourD(1) [OF t]
  have tab: "is_table g r \<and> r \<in> allocated g" if "r \<in> set_option mtab \<union> {env}" for r
    using well_typedD(1,4) [OF w a(1)] that by auto
  have rk: "mark_rank g r \<le> n" if "r \<in> set_option mtab \<union> {env}" for r
    using rank_table tab [OF that] n a(1) by (simp add: mark_rank_def)
  define g3 where "g3 = (case mtab of Some t \<Rightarrow> mark_if n t g2 | None \<Rightarrow> g2)"
  have b2: "g_body g2 = g_body g" by (simp add: g2)
  have 3: "marks_ok (insert a X) g2 g3 \<and> (\<forall>r\<in>set_option mtab. \<not> is_white g3 r)"
  proof (cases mtab)
    case None
    then show ?thesis by (simp add: g3_def marks_ok_refl t2)
  next
    case (Some r)
    then show ?thesis using marks_depthD [OF m t2, of r] tab [of r] rk [of r] by (simp add: g3_def b2 mark_rank_cong [OF b2])
  qed
  then have t3: "tricolour (insert a X) g3" and b3: "g_body g3 = g_body g" using marks_okD(1,4) b2 by auto
  have g'3: "g' = mark_if n env g3" unfolding g' g3_def ..
  have 4: "marks_ok (insert a X) g3 g'" "\<not> is_white g' env"
    unfolding g'3 using marks_depthD [OF m t3, of env] tab [of env] rk [of env] by (simp_all add: b3 mark_rank_cong [OF b3])
  have ok: "marks_ok (insert a X) g2 g'" using 3 4(1) marks_ok_trans by blast
  have b': "g_body g' = g_body g" using marks_okD(4) [OF ok] b2 by simp
  have "\<not> is_white g2 a" "is_black g2 a" using f by (simp_all add: g2)
  then have own: "\<not> is_white g' a" "is_black g' a" using marks_onD(1,2) [OF marks_okD(2) [OF ok]] by auto
  have r: "\<not> is_white g' r" if "r \<in> refs g a" for r
    using that 3 4 marks_okD(3) [OF 4(1)] by (auto simp: refs_def a(1))
  have "tricolour X g'"
  proof (rule tricolour_end [OF marks_okD(1) [OF ok]])
    show "a \<notin> X" by (fact a)
  qed (use r own a(1) in \<open>auto simp: body_cong [OF b'] is_thread_def is_open_def b'\<close>)
  moreover have "marks_on g g'" by (rule marks_on_trans [OF m2 marks_okD(2) [OF ok]])
  moreover have "opens g g2" unfolding g2 by (rule opens_setmark) (simp add: is_open_def a(1))
  then have "opens g g'" by (rule opens_trans [OF _ marks_okD(6) [OF ok] body_cong(8) [OF b2] equalityD1 [OF fun_cong [OF marks_okD(5) [OF ok]]] marks_okD(3) [OF ok]])
  ultimately show "marks_ok X g g'" by (simp add: marks_ok_def)
  show "\<not> is_white g' a" by (fact own)
qed

lemma mark_upval:
  assumes m: "marks_depth n" and t: "tricolour X g" and a: "g_body g a = Some (GUpval p)" "is_white g a"
    and n: "mark_rank g a \<le> Suc n"
    and g2: "g2 = (case uv_value g p of GRef v \<Rightarrow> mark_if n v (setmark a white2gray g) | _ \<Rightarrow> setmark a white2gray g)"
    and g': "g' = (case p of UClosed _ \<Rightarrow> setmark a gray2black g2 | UOpen _ _ \<Rightarrow> g2)"
  shows "marks_ok X g g'" "\<not> is_white g' a"
proof -
  define g1 where "g1 = setmark a white2gray g"
  have al: "a \<in> allocated g" using a(1) by auto
  have t1: "tricolour (insert a X) g1" unfolding g1_def by (rule tricolour_begin [OF t al a(2)]) simp
  have m1: "marks_on g g1" unfolding g1_def
    by (rule marks_on_setmark [OF tricolour_finite [OF t] al a(2)]) simp_all
  note w = tricolourD(1) [OF t]
  have b1: "g_body g1 = g_body g" by (simp add: g1_def)
  have ok: "marks_ok (insert a X) g1 g2 \<and> (\<forall>r\<in>refs g a. \<not> is_white g2 r)"
  proof (cases "uv_value g p")
    case (GRef v)
    have v: "\<not> is_upval g v" "v \<in> allocated g" using well_typedD(2,4) [OF w a(1)] GRef by auto
    have "mark_rank g v \<le> n" using rank_not_upval [OF v(1)] n a(1) by (simp add: mark_rank_def)
    then show ?thesis using marks_depthD [OF m t1, of v] v GRef
      by (simp add: g2 g1_def [symmetric] b1 mark_rank_cong [OF b1] refs_def a(1))
  qed (simp_all add: g2 g1_def [symmetric] marks_ok_refl t1 refs_def a(1))
  have b2: "g_body g2 = g_body g" using marks_okD(4) [OF conjunct1 [OF ok]] b1 by simp
  have own: "\<not> is_white g2 a" "\<not> is_black g2 a"
    using marks_onD(1,2) [OF marks_okD(2) [OF conjunct1 [OF ok]], of a] tricolourD(4) [OF t al a(2)] by (simp_all add: g1_def)
  have t2: "tricolour (insert a X) g2" using ok marks_okD(1) by blast
  have m2: "marks_on g g2" using marks_on_trans [OF m1] ok marks_okD(2) by blast
  have x: "a \<notin> X" using white_not_listed [OF t a(2)] by simp
  have op: "opens g g2" unfolding opens_def
  proof (intro allI impI)
    fix u assume u: "is_open g u \<and> is_white g u \<and> \<not> is_white g2 u"
    show "\<forall>r\<in>refs g2 u. \<not> is_white g2 r"
    proof (cases "u = a")
      case False
      then have "is_white g1 u" using u by (simp add: g1_def)
      then show ?thesis using u marks_okD(6) [OF conjunct1 [OF ok]] unfolding opens_def body_cong [OF b1] by blast
    qed (use ok body_cong(3) [OF b2] in simp)
  qed
  show "marks_ok X g g'"
  proof (cases p)
    case (UOpen th i)
    then have "is_open g2 a" using a(1) by (simp add: is_open_def b2)
    with own have "tricolour X g2" by (intro tricolour_end [OF t2 x]) auto
    then show ?thesis using m2 op UOpen by (simp add: marks_ok_def g')
  next
    case (UClosed v)
    have g3: "g' = setmark a gray2black g2" by (simp add: g' UClosed)
    have t3: "tricolour (insert a X) g'" unfolding g3
      by (rule tricolour_setmark [OF t2]) (use al b2 own(1) tricolourD(9) [OF t2, of a] in auto)
    have no: "\<not> is_thread g a" "\<not> is_open g a" using a(1) UClosed by (simp_all add: is_thread_def is_open_def)
    have "refs g' a = refs g a" by (simp add: g3 body_cong [OF b2])
    then have "tricolour X g'"
      using ok no by (intro tricolour_end [OF t3 x]) (auto simp: g3 body_cong [OF b2])
    moreover have "marks_on g g'" unfolding g3 by (rule marks_on_blacken [OF m2 a(2) own(1)]) (simp add: traversable_def a(1))
    moreover have "opens g g'" using op by (auto simp: opens_def g3)
    ultimately show ?thesis by (simp add: marks_ok_def)
  qed
  show "\<not> is_white g' a" using own(1) by (cases p) (simp_all add: g')
qed

lemma mark_depth_Suc:
  "mark_depth (Suc n) a g =
     (case g_body g a of
        Some (GString _ _) \<Rightarrow> setmark a white2gray g
      | Some (GUdata mtab env _) \<Rightarrow>
          mark_if n env (case mtab of Some t \<Rightarrow> mark_if n t (setmark a gray2black (setmark a white2gray g))
            | None \<Rightarrow> setmark a gray2black (setmark a white2gray g))
      | Some (GUpval p) \<Rightarrow>
          (let g2 = (case uv_value g p of GRef v \<Rightarrow> mark_if n v (setmark a white2gray g) | _ \<Rightarrow> setmark a white2gray g)
           in case p of UClosed _ \<Rightarrow> setmark a gray2black g2 | UOpen _ _ \<Rightarrow> g2)
      | Some _ \<Rightarrow> push_gray a (setmark a white2gray g)
      | None \<Rightarrow> setmark a white2gray g)"
  by (auto simp: mark_if_def Let_def split: option.split gcbody.split gcval.split upplace.split)

declare mark_depth.simps(2) [simp del]

lemma marks_depth_all: "marks_depth n"
proof (induction n)
  case 0
  then show ?case by (auto simp: marks_depth_def mark_rank_def split: option.splits gcbody.splits)
next
  case (Suc n)
  show ?case unfolding marks_depth_def
  proof (intro allI impI)
    fix X g a assume t: "tricolour X g" and a: "a \<in> allocated g" and n: "mark_rank g a \<le> Suc n"
    show "marks_ok X g (mark_if (Suc n) a g) \<and> \<not> is_white (mark_if (Suc n) a g) a"
    proof (cases "is_white g a")
      case False
      then show ?thesis by (simp add: mark_if_def marks_ok_refl t)
    next
      case w: True
      obtain x where x: "g_body g a = Some x" using a by auto
      note l = white_not_listed [OF t w]
      have str: "marks_ok X g (setmark a white2gray g)" if "is_string g a"
        unfolding marks_ok_def
      proof (intro conjI)
        show "opens g (setmark a white2gray g)" by (rule opens_setmark) (use that in \<open>auto simp: is_string_def is_open_def\<close>)
        show "tricolour X (setmark a white2gray g)"
          by (rule tricolour_setmark [OF t a]) (use l tricolourD(4) [OF t a w] that in auto)
        show "marks_on g (setmark a white2gray g)" by (rule marks_on_setmark [OF tricolour_finite [OF t] a w]) simp_all
      qed
      have push: "marks_ok X g (push_gray a (setmark a white2gray g))" if tr: "traversable g a"
        unfolding marks_ok_def
      proof (intro conjI)
        let ?g = "setmark a white2gray g"
        have "opens g ?g" by (rule opens_setmark) (use tr in \<open>auto simp: traversable_def is_open_def\<close>)
        then show "opens g (push_gray a ?g)" by (simp add: opens_def)
        have gr: "isgray (g_marked ?g a)" using tricolourD(4) [OF t a w] by (simp add: isgray_def)
        have "tricolour (insert a X) ?g" by (rule tricolour_begin [OF t a w]) simp
        note d = tricolourD [OF this]
        show "tricolour X (push_gray a ?g)" unfolding tricolour_def body_push_gray push_gray_simps
        proof (intro conjI ballI impI)
          fix y assume "y \<in> allocated ?g" "is_white ?g y"
          then show "\<not> is_black ?g y" "\<not> gc_isdead (push_gray a ?g) y"
            using d(4,5) [of y] by (simp_all add: gc_isdead_def)
        next
          fix y r assume "y \<in> allocated ?g - X" "is_black ?g y" "r \<in> refs ?g y"
          then show "\<not> is_white ?g r" using d(6) [of y r] gr by (cases "y = a") (auto simp: isgray_def)
        next
          fix y assume "y \<in> allocated ?g - X" "isgray (g_marked ?g y)"
          then show "y \<in> set (a # listed ?g) \<or> is_string ?g y \<or> is_open ?g y" using d(7) [of y] by (cases "y = a") auto
        next
          fix y assume "y \<in> allocated ?g - X" "is_thread ?g y \<or> is_open ?g y"
          then show "\<not> is_black ?g y" using d(8) [of y] gr by (cases "y = a") (auto simp: isgray_def)
        next
          fix y assume "y \<in> set (a # listed ?g)"
          then show "y \<in> allocated ?g" "traversable ?g y" "isgray (g_marked ?g y)" "y \<notin> X"
            using d(9) [of y] tr a gr l by (cases "y = a"; simp)+
        qed (use d l in auto)
        show "marks_on g (push_gray a ?g)" by (rule marks_on_push [OF tricolour_finite [OF t] a w]) simp_all
      qed
      have up: "mark_if (Suc n) a g = mark_depth (Suc n) a g" by (simp only: mark_if_def w if_True)
      show ?thesis
      proof (cases x)
        case (GUdata mtab env len)
        have m2: "marks_on g (setmark a (gray2black \<circ> white2gray) g)"
          by (rule marks_on_setmark [OF tricolour_finite [OF t] a w]) (simp_all add: keeps_weak_def traversable_def x GUdata)
        have f: "\<not> iswhite ((gray2black \<circ> white2gray) (g_marked g a))" "isblack ((gray2black \<circ> white2gray) (g_marked g a))" by simp_all
        show ?thesis unfolding up mark_depth_Suc x GUdata option.case gcbody.case
          using mark_udata [OF Suc.IH t x [unfolded GUdata] conjunct2 [OF l] n m2 f setmark_setmark refl] by (intro conjI)
      next
        case (GUpval p)
        show ?thesis unfolding up mark_depth_Suc x GUpval option.case gcbody.case Let_def
          using mark_upval [OF Suc.IH t x [unfolded GUpval] w n refl refl] by (intro conjI)
      qed (use w x str push in \<open>simp_all add: mark_if_def mark_depth_Suc is_string_def traversable_def\<close>)
    qed
  qed
qed

lemma mark_rank_3: "mark_rank g a \<le> 3"
  by (auto simp: mark_rank_def split: option.split gcbody.split)

lemma markobject_ok:
  assumes "tricolour X g" "a \<in> allocated g"
  shows "marks_ok X g (markobject a g)" "\<not> is_white (markobject a g) a"
proof -
  have e: "markobject a g = mark_if 3 a g" by (simp only: markobject_def reallymarkobject_def mark_if_def)
  show "marks_ok X g (markobject a g)" "\<not> is_white (markobject a g) a"
    unfolding e by (fact marks_depthD [OF marks_depth_all [of 3] assms mark_rank_3])+
qed

lemma reallymarkobject_eq: "is_white g a \<Longrightarrow> reallymarkobject a g = markobject a g"
  by (simp add: markobject_def)

text \<open>Marking everything in a list: \<open>tgt\<close> says what a step marks.\<close>

lemma fold_marks_ok:
  assumes step: "\<And>g x. x \<in> set xs \<Longrightarrow> tricolour X g \<Longrightarrow> g_body g = B \<Longrightarrow> marks_ok X g (f x g) \<and> (\<forall>r\<in>tgt x. \<not> is_white (f x g) r)"
    and t: "tricolour X g" "g_body g = B"
  shows "marks_ok X g (fold f xs g) \<and> (\<forall>x\<in>set xs. \<forall>r\<in>tgt x. \<not> is_white (fold f xs g) r)"
  using assms
proof (induction xs arbitrary: g)
  case (Cons x xs)
  have 1: "marks_ok X g (f x g)" "\<forall>r\<in>tgt x. \<not> is_white (f x g) r" using Cons.prems(1) [of x g] Cons.prems(2,3) by auto
  have 2: "tricolour X (f x g)" "g_body (f x g) = B" using marks_okD(1,4) [OF 1(1)] Cons.prems(3) by auto
  have 3: "marks_ok X (f x g) (fold f xs (f x g)) \<and> (\<forall>y\<in>set xs. \<forall>r\<in>tgt y. \<not> is_white (fold f xs (f x g)) r)"
    using Cons.prems(1) by (intro Cons.IH 2) auto
  then show ?case using 1 marks_ok_trans [OF 1(1)] marks_okD(3) by auto
qed (simp add: marks_ok_refl)

lemma markvalue_ok:
  assumes "tricolour X g" "val_refs v \<subseteq> allocated g"
  shows "marks_ok X g (markvalue v g) \<and> (\<forall>r\<in>val_refs v. \<not> is_white (markvalue v g) r)"
  using assms markobject_ok [OF assms(1)] by (cases v) (auto simp: markvalue_def marks_ok_refl)

lemma markobject_opt_ok:
  assumes "tricolour X g" "set_option t \<subseteq> allocated g"
  shows "marks_ok X g (markobject_opt t g) \<and> (\<forall>r\<in>set_option t. \<not> is_white (markobject_opt t g) r)"
  using assms markobject_ok [OF assms(1)] by (cases t) (auto simp: markobject_opt_def marks_ok_refl)

lemma stringmark_opt_ok:
  assumes "tricolour X g" "\<forall>r\<in>set_option s. is_string g r"
  shows "marks_ok X g (stringmark_opt s g) \<and> (\<forall>r\<in>set_option s. \<not> is_white (stringmark_opt s g) r)"
proof (cases s)
  case (Some a)
  then have st: "is_string g a" and a: "a \<in> allocated g" using assms(2) by (auto simp: is_string_def)
  show ?thesis
  proof (cases "is_white g a")
    case True
    then have "marks_ok X g (mark_if 1 a g)" "\<not> is_white (mark_if 1 a g) a"
      using marks_depthD [OF marks_depth_all assms(1) a, of 1] st by (auto simp: mark_rank_def is_string_def)
    moreover have "mark_if 1 a g = setmark a stringmark g"
      using True st by (auto simp: mark_if_def mark_depth_Suc is_string_def white2gray_def stringmark_def fun_eq_iff setmark_def)
    ultimately show ?thesis by (simp add: Some stringmark_opt_def)
  next
    case False
    have "stringmark m = m" if "\<not> iswhite m" for m
    proof (rule bit_word_eqI)
      fix n assume "n < LENGTH(8)"
      then show "bit (stringmark m) n = bit m n" using that by (cases "n = 0"; cases "n = 1") (auto simp: stringmark_def bit_and_iff bit_not_iff iswhite_bits impossible_bit)
    qed
    with False have "setmark a stringmark g = g" by (simp add: setmark_def)
    then show ?thesis using False by (simp add: Some stringmark_opt_def marks_ok_refl assms(1))
  qed
qed (simp add: stringmark_opt_def marks_ok_refl assms(1))

subsection \<open>Objects that lose references\<close>

text \<open>Tables and threads lose references while they are traversed: free nodes, slots above the top.\<close>

definition shrinks :: "gcglobal \<Rightarrow> gcglobal \<Rightarrow> bool" where
  "shrinks g g' \<longleftrightarrow>
     (\<forall>a. g_body g' a = g_body g a \<or> (is_table g a \<and> is_table g' a) \<or> (is_thread g a \<and> is_thread g' a)) \<and>
     (\<forall>a. refs g' a \<subseteq> refs g a)"

lemma shrinks_refl [simp]: "shrinks g g"
  by (simp add: shrinks_def)

lemma shrinks_body:
  assumes "g_body g' = g_body g" shows "shrinks g g'"
  unfolding shrinks_def body_cong(3) [OF assms] by (simp add: assms)

lemma shrinksD:
  assumes "shrinks g g'"
  shows "refs g' a \<subseteq> refs g a" "allocated g' = allocated g" "is_string g' a = is_string g a" "is_table g' a = is_table g a"
    "is_thread g' a = is_thread g a" "is_upval g' a = is_upval g a" "is_open g' a = is_open g a" "traversable g' a = traversable g a"
    "mark_rank g' a = mark_rank g a" "is_userdata a g' = is_userdata a g"
proof -
  have k: "g_body g' b = g_body g b \<or> (is_table g b \<and> is_table g' b) \<or> (is_thread g b \<and> is_thread g' b)" for b
    using assms by (simp add: shrinks_def)
  show "refs g' a \<subseteq> refs g a" using assms by (simp add: shrinks_def)
  have "g_body g' b = None \<longleftrightarrow> g_body g b = None" for b using k [of b] by (auto simp: is_table_def is_thread_def)
  then show "allocated g' = allocated g" by (auto simp: dom_def)
  show "is_string g' a = is_string g a" "is_table g' a = is_table g a" "is_thread g' a = is_thread g a" "is_upval g' a = is_upval g a"
    "is_open g' a = is_open g a" "traversable g' a = traversable g a" "mark_rank g' a = mark_rank g a" "is_userdata a g' = is_userdata a g"
    using k [of a] by (elim disjE conjE;
        auto simp: is_string_def is_table_def is_thread_def is_upval_def is_open_def traversable_def mark_rank_def is_userdata_def)+
qed

lemma shrinks_trans:
  assumes "shrinks g g'" "shrinks g' g''"
  shows "shrinks g g''"
proof -
  note d = shrinksD [OF assms(1)] and e = shrinksD [OF assms(2)]
  have "g_body g'' a = g_body g a \<or> (is_table g a \<and> is_table g'' a) \<or> (is_thread g a \<and> is_thread g'' a)" for a
  proof (cases "is_table g a \<or> is_thread g a")
    case True
    then show ?thesis using d(4,5) e(4,5) by blast
  next
    case False
    then have "g_body g' a = g_body g a" using assms(1) unfolding shrinks_def by blast
    moreover have "g_body g'' a = g_body g' a" using False d(4,5) assms(2) unfolding shrinks_def by blast
    ultimately show ?thesis by simp
  qed
  moreover have "refs g'' a \<subseteq> refs g a" for a using d(1) [of a] e(1) [of a] by blast
  ultimately show ?thesis unfolding shrinks_def by blast
qed

lemma shrinks_well_typed:
  assumes s: "shrinks g g'" and w: "well_typed g"
  shows "well_typed g'"
  unfolding well_typed_def
proof (intro conjI allI impI)
  note d = shrinksD [OF s]
  fix a show "refs g' a \<subseteq> allocated g'" using d(1,2) w unfolding well_typed_def by blast
next
  note d = shrinksD [OF s]
  fix a x assume x: "g_body g' a = Some x"
  have r: "body_refs g' x \<subseteq> refs g a" using d(1) [of a] x by (simp add: refs_def)
  show "case x of GUdata _ _ _ \<Rightarrow> \<forall>r\<in>body_refs g' x. is_table g' r | GUpval _ \<Rightarrow> \<forall>r\<in>body_refs g' x. \<not> is_upval g' r
         | GProto f \<Rightarrow> \<forall>r\<in>set_option (pr_source f) \<union> opts_refs (pr_upvalues f) \<union> opts_refs (pr_locvars f). is_string g' r
         | _ \<Rightarrow> True"
  proof (cases "g_body g' a = g_body g a")
    case True
    then have y: "g_body g a = Some x" using x by simp
    show ?thesis
    proof (cases x)
      case (GUdata mtab env len)
      then show ?thesis using well_typedD(1) [OF w y] by (auto simp: d(4))
    next
      case (GUpval p)
      have "val_refs (uv_value g' p) \<subseteq> val_refs (uv_value g p)" using r y GUpval by (simp add: refs_def)
      then show ?thesis using well_typedD(2) [OF w y GUpval] GUpval by (auto simp: d(6))
    next
      case (GProto f)
      then show ?thesis using well_typedD(3) [OF w y GProto] by (auto simp: d(3))
    qed simp_all
  next
    case False
    then have "(\<exists>h. x = GTable h) \<or> (\<exists>h. x = GThread h)" using s x unfolding shrinks_def is_table_def is_thread_def by fastforce
    then show ?thesis by auto
  qed
qed

text \<open>The lists of objects, the roots and the phase.\<close>

definition same_lists :: "gcglobal \<Rightarrow> gcglobal \<Rightarrow> bool" where
  "same_lists g g' \<longleftrightarrow>
     g_rootgc g' = g_rootgc g \<and> g_strt g' = g_strt g \<and> g_uvhead g' = g_uvhead g \<and> g_tmudata g' = g_tmudata g \<and>
     g_mainthread g' = g_mainthread g \<and> g_registry g' = g_registry g \<and> g_mt g' = g_mt g \<and> g_state g' = g_state g"

lemma same_lists_refl [simp]: "same_lists g g"
  by (simp add: same_lists_def)

lemma same_lists_trans: "same_lists g g' \<Longrightarrow> same_lists g' g'' \<Longrightarrow> same_lists g g''"
  by (simp add: same_lists_def)

lemma same_lists_objects: "same_lists g g' \<Longrightarrow> gc_objects g' = gc_objects g"
  by (simp add: same_lists_def gc_objects_def)

lemma marks_on_lists: "marks_on g g' \<Longrightarrow> same_lists g g'"
  by (auto simp: marks_on_def same_lists_def)

definition same_marks :: "gcglobal \<Rightarrow> gcglobal \<Rightarrow> bool" where
  "same_marks g g' \<longleftrightarrow>
     g_marked g' = g_marked g \<and> g_gray g' = g_gray g \<and> g_grayagain g' = g_grayagain g \<and> g_weak g' = g_weak g \<and>
     g_currentwhite g' = g_currentwhite g \<and> same_lists g g'"

lemma same_marks_refl [simp]: "same_marks g g"
  by (simp add: same_marks_def)

lemma same_marks_trans: "same_marks g g' \<Longrightarrow> same_marks g' g'' \<Longrightarrow> same_marks g g''"
  by (simp add: same_marks_def same_lists_def)

lemma same_marks_dead: "same_marks g g' \<Longrightarrow> gc_isdead g' a = gc_isdead g a"
  by (simp add: same_marks_def gc_isdead_def otherwhite_def)

lemma tricolour_shrinks:
  assumes s: "shrinks g g'" and m: "same_marks g g'" and t: "tricolour X g"
  shows "tricolour X g'"
proof -
  note d = shrinksD [OF s] and c = tricolourD [OF t]
  have e: "g_marked g' = g_marked g" "listed g' = listed g" "gc_objects g' = gc_objects g" using m same_lists_objects by (auto simp: same_marks_def listed_def)
  show ?thesis unfolding tricolour_def e d(2-)
  proof (intro conjI ballI impI)
    fix a r assume "a \<in> allocated g - X" "is_black g a" "r \<in> refs g' a"
    then show "\<not> is_white g r" using c(6) [of a r] d(1) [of a] by auto
  qed (use c shrinks_well_typed [OF s c(1)] same_marks_dead [OF m] in auto)
qed

lemma uv_value_table: "is_table g a \<Longrightarrow> uv_value (set_body a (GTable h) g) = uv_value g"
  by (auto simp: fun_eq_iff uv_value_def set_body_def is_table_def split: upplace.split)

lemma body_refs_table:
  assumes "is_table g a" shows "body_refs (set_body a (GTable h) g) x = body_refs g x"
  using uv_value_table [OF assms] by (cases x) simp_all

lemma shrinks_table:
  assumes "g_body g a = Some (GTable h)" "body_refs g (GTable h') \<subseteq> body_refs g (GTable h)"
  shows "shrinks g (set_body a (GTable h') g)"
proof -
  have t: "is_table g a" using assms(1) by (simp add: is_table_def)
  have "refs (set_body a (GTable h') g) b \<subseteq> refs g b" for b
  proof (cases "b = a")
    case True
    then show ?thesis using assms by (simp add: refs_def set_body_def)
  next
    case False
    then have "g_body (set_body a (GTable h') g) b = g_body g b" by (simp add: set_body_def)
    then show ?thesis by (simp add: refs_def body_refs_table [OF t] split: option.split)
  qed
  then show ?thesis unfolding shrinks_def using t by (auto simp: set_body_def is_table_def)
qed

lemma set_body_same [simp]: "same_marks g (set_body a x g)"
  by (simp add: same_marks_def set_body_def same_lists_def)

end
