(* ===== verification/LuaGcTrav.thy ===== *)
theory LuaGcTrav
  imports LuaGcMark
begin

section \<open>Traversal of gray objects\<close>

text \<open>
  What the traversal of a gray object does: its references are marked, the tricolour invariant is kept, and the work
  that is left gets less. Tables lose free nodes and threads the slots above their top while they are traversed.
\<close>

text \<open>The nodes after some have been visited: free ones may have lost their keys.\<close>

definition nodes_like :: "(gcval \<times> gcval) list \<Rightarrow> (gcval \<times> gcval) list \<Rightarrow> bool" where
  "nodes_like ns ns' \<longleftrightarrow>
     length ns' = length ns \<and>
     (\<forall>i < length ns. snd (ns' ! i) = snd (ns ! i) \<and> (snd (ns ! i) \<noteq> GNil \<longrightarrow> ns' ! i = ns ! i) \<and>
        val_refs (fst (ns' ! i)) \<subseteq> val_refs (fst (ns ! i)))"

lemma nodes_like_refl [simp]: "nodes_like ns ns"
  by (simp add: nodes_like_def)

lemma nodes_like_trans: "nodes_like k l \<Longrightarrow> nodes_like l m \<Longrightarrow> nodes_like k m"
  by (auto simp: nodes_like_def)

definition table_like :: "gctable \<Rightarrow> gctable \<Rightarrow> bool" where
  "table_like h h' \<longleftrightarrow> h_metatable h' = h_metatable h \<and> h_array h' = h_array h \<and> nodes_like (h_nodes h) (h_nodes h')"

lemma nodes_refs_nth: "nodes_refs ns = (\<Union>i\<in>{..<length ns}. node_refs (ns ! i))"
  by (force simp: nodes_refs_def in_set_conv_nth)

lemma nodes_like_refs: "nodes_like ns ns' \<Longrightarrow> nodes_refs ns' = nodes_refs ns"
proof -
  assume l: "nodes_like ns ns'"
  then have "node_refs (ns' ! i) = node_refs (ns ! i)" if "i < length ns" for i using that by (auto simp: nodes_like_def node_refs_def)
  then show ?thesis using l by (auto simp: nodes_refs_nth nodes_like_def)
qed

lemma table_like_refl [simp]: "table_like h h"
  by (simp add: table_like_def)

lemma table_like_trans: "table_like h1 h2 \<Longrightarrow> table_like h2 h3 \<Longrightarrow> table_like h1 h3"
  using nodes_like_trans by (auto simp: table_like_def)

lemma table_like_refs: "table_like h h' \<Longrightarrow> body_refs g (GTable h') = body_refs g (GTable h)"
  using nodes_like_refs [of "h_nodes h" "h_nodes h'"] by (simp add: table_like_def)

definition keeps_tables :: "gcglobal \<Rightarrow> gcglobal \<Rightarrow> bool" where
  "keeps_tables g g' \<longleftrightarrow> (\<forall>a h. g_body g a = Some (GTable h) \<longrightarrow> (\<exists>h'. g_body g' a = Some (GTable h') \<and> table_like h h'))"

lemma keeps_tablesD: "keeps_tables g g' \<Longrightarrow> g_body g a = Some (GTable h) \<Longrightarrow> \<exists>h'. g_body g' a = Some (GTable h') \<and> table_like h h'"
  by (simp add: keeps_tables_def)

lemma keeps_tables_same [simp]: "g_body g' = g_body g \<Longrightarrow> keeps_tables g g'"
  by (auto simp: keeps_tables_def)

lemma keeps_tables_trans:
  assumes "keeps_tables g g'" "keeps_tables g' g''" shows "keeps_tables g g''"
  unfolding keeps_tables_def
proof (intro allI impI)
  fix a h assume "g_body g a = Some (GTable h)"
  from keeps_tablesD [OF assms(1) this] obtain h1 where 1: "g_body g' a = Some (GTable h1)" "table_like h h1" by blast
  from keeps_tablesD [OF assms(2) 1(1)] 1(2) show "\<exists>h'. g_body g'' a = Some (GTable h') \<and> table_like h h'"
    using table_like_trans by blast
qed

lemma keeps_tables_set:
  assumes "g_body g a = Some (GTable h)" "table_like h h'"
  shows "keeps_tables g (set_body a (GTable h') g)"
  using assms by (auto simp: keeps_tables_def set_body_def)

lemma shrinks_table_like:
  "g_body g a = Some (GTable h) \<Longrightarrow> table_like h h' \<Longrightarrow> shrinks g (set_body a (GTable h') g)"
  by (rule shrinks_table) (simp only: table_like_refs order_refl)+

subsection \<open>Steps of a traversal\<close>

text \<open>The objects in \<open>A\<close> may get another weak mode.\<close>

definition measure_le :: "gcglobal \<Rightarrow> gcglobal \<Rightarrow> bool" where
  "measure_le g g' \<longleftrightarrow> whites g' + length (g_gray g') \<le> whites g + length (g_gray g)"

definition darkens :: "gcglobal \<Rightarrow> gcglobal \<Rightarrow> bool" where
  "darkens g g' \<longleftrightarrow>
     (\<forall>a. \<not> is_white g a \<longrightarrow> \<not> is_white g' a \<and> is_black g' a = is_black g a) \<and> (\<forall>a. traversable g a \<and> is_black g' a \<longrightarrow> is_black g a)"

definition keeps_modes :: "gcaddr set \<Rightarrow> gcglobal \<Rightarrow> gcglobal \<Rightarrow> bool" where
  "keeps_modes A g g' \<longleftrightarrow> (\<forall>a. a \<notin> A \<longrightarrow> bit (g_marked g' a) VALUEWEAKBIT = bit (g_marked g a) VALUEWEAKBIT)"

definition steps :: "gcaddr set \<Rightarrow> gcglobal \<Rightarrow> gcglobal \<Rightarrow> bool" where
  "steps A g g' \<longleftrightarrow>
     shrinks g g' \<and> same_lists g g' \<and> keeps_tables g g' \<and> darkens g g' \<and> keeps_modes A g g' \<and> measure_le g g' \<and> opens g g' \<and>
     g_currentwhite g' = g_currentwhite g \<and> g_weak g' = g_weak g \<and> g_grayagain g' = g_grayagain g"

lemma stepsD:
  assumes "steps A g g'"
  shows "shrinks g g'" "same_lists g g'" "keeps_tables g g'" "measure_le g g'" "opens g g'" "darkens g g'" "keeps_modes A g g'"
    "\<not> is_white g a \<Longrightarrow> \<not> is_white g' a" "\<not> is_white g a \<Longrightarrow> is_black g' a = is_black g a"
    "refs g' a \<subseteq> refs g a" "allocated g' = allocated g" "g_weak g' = g_weak g" "g_grayagain g' = g_grayagain g"
    "g_currentwhite g' = g_currentwhite g" "is_open g' = is_open g"
  using assms shrinksD(1,2,7) by (auto simp: steps_def darkens_def fun_eq_iff)

lemma steps_refl [simp]: "steps A g g"
  by (simp add: steps_def measure_le_def darkens_def keeps_modes_def)

lemma steps_trans:
  assumes "steps A g g'" "steps A g' g''" shows "steps A g g''"
proof -
  note d = stepsD [OF assms(1)] and e = stepsD [OF assms(2)]
  have "opens g g''" by (rule opens_trans [OF d(5) e(5) d(15) e(10) e(8)])
  moreover have "darkens g g''" using d(6) e(6) shrinksD(8) [OF d(1)] by (simp add: darkens_def)
  moreover have "keeps_modes A g g''" using d(7) e(7) by (simp add: keeps_modes_def)
  moreover have "measure_le g g''" using d(4) e(4) by (simp add: measure_le_def)
  ultimately show ?thesis
    using shrinks_trans [OF d(1) e(1)] same_lists_trans [OF d(2) e(2)] keeps_tables_trans [OF d(3) e(3)] d(12-14) e(12-14)
    by (simp add: steps_def)
qed

lemma steps_mono: "steps A g g' \<Longrightarrow> A \<subseteq> B \<Longrightarrow> steps B g g'"
  by (auto simp: steps_def keeps_modes_def)

lemma steps_marks:
  assumes "marks_ok X g g'" shows "steps A g g'"
proof -
  note m = marks_okD(2) [OF assms]
  note e = marks_on_body [OF m]
  have "darkens g g'" "keeps_modes A g g'" "measure_le g g'" using m by (auto simp: darkens_def keeps_modes_def measure_le_def marks_on_def)
  then show ?thesis using shrinks_body [OF e(1)] marks_on_lists [OF m] marks_okD(6) [OF assms] e by (simp add: steps_def)
qed

lemma steps_shrinks:
  assumes "shrinks g g'" "same_marks g g'" "keeps_tables g g'" shows "steps A g g'"
proof -
  have "allocated g' = allocated g" by (rule shrinksD(2) [OF assms(1)])
  then have "whites g' = whites g" using assms(2) by (simp add: whites_def same_marks_def)
  moreover have "opens g g'" using assms(2) by (auto simp: opens_def same_marks_def)
  ultimately show ?thesis using assms by (auto simp: steps_def measure_le_def darkens_def keeps_modes_def same_marks_def)
qed

lemma marks_steps: "marks_ok X g g' \<Longrightarrow> tricolour X g' \<and> steps A g g'"
  using steps_marks marks_okD(1) by blast

subsection \<open>Tables\<close>

text \<open>Nothing that is marked depends on the list of weak tables.\<close>

lemma weak_simps [simp]:
  "setmark a f (g\<lparr>g_weak := w\<rparr>) = (setmark a f g)\<lparr>g_weak := w\<rparr>" "push_gray a (g\<lparr>g_weak := w\<rparr>) = (push_gray a g)\<lparr>g_weak := w\<rparr>"
  "set_body a x (g\<lparr>g_weak := w\<rparr>) = (set_body a x g)\<lparr>g_weak := w\<rparr>" "uv_value (g\<lparr>g_weak := w\<rparr>) = uv_value g"
  by (simp_all add: setmark_def push_gray_def set_body_def uv_value_def fun_eq_iff split: upplace.split)

lemma mark_if_weak: "mark_if n a (g\<lparr>g_weak := w\<rparr>) = (mark_if n a g)\<lparr>g_weak := w\<rparr>"
proof (induction n arbitrary: a g)
  case 0
  then show ?case by (simp add: mark_if_def)
next
  case (Suc n)
  have "mark_depth (Suc n) a (g\<lparr>g_weak := w\<rparr>) = (mark_depth (Suc n) a g)\<lparr>g_weak := w\<rparr>"
  proof (cases "g_body g a")
    case (Some x)
    then show ?thesis
    proof (cases x)
      case (GUdata mtab env len)
      then show ?thesis using Some by (cases mtab) (simp_all add: mark_depth_Suc Suc.IH)
    next
      case (GUpval p)
      then show ?thesis using Some by (cases p; cases "uv_value g p") (simp_all add: mark_depth_Suc Suc.IH)
    qed (use Some in \<open>simp_all add: mark_depth_Suc\<close>)
  qed (simp add: mark_depth_Suc)
  then show ?case by (simp add: mark_if_def)
qed

lemma markvalue_weak: "markvalue v (g\<lparr>g_weak := w\<rparr>) = (markvalue v g)\<lparr>g_weak := w\<rparr>"
proof -
  have "markobject a (g\<lparr>g_weak := w\<rparr>) = (markobject a g)\<lparr>g_weak := w\<rparr>" for a
    using mark_if_weak [of 3 a w g] by (simp only: mark_if_def markobject_def reallymarkobject_def)
  then show ?thesis by (cases v) (simp_all add: markvalue_def)
qed

lemma fold_weak: "(\<And>x g. f x (g\<lparr>g_weak := w\<rparr>) = (f x g)\<lparr>g_weak := w\<rparr>) \<Longrightarrow> fold f xs (g\<lparr>g_weak := w\<rparr>) = (fold f xs g)\<lparr>g_weak := w\<rparr>"
  by (induction xs arbitrary: g) simp_all

lemma traverse_node_weak: "traverse_node wk wv a i (g\<lparr>g_weak := w\<rparr>) = (traverse_node wk wv a i g)\<lparr>g_weak := w\<rparr>"
  by (simp add: traverse_node_def with_table_def set_node_def Let_def markvalue_weak split: option.split gcbody.split)

lemma fold_markvalue_weak: "fold markvalue xs (g\<lparr>g_weak := w\<rparr>) = (fold markvalue xs g)\<lparr>g_weak := w\<rparr>"
  by (rule fold_weak) (rule markvalue_weak)

lemma fold_traverse_weak: "fold (traverse_node wk wv a) xs (g\<lparr>g_weak := w\<rparr>) = (fold (traverse_node wk wv a) xs g)\<lparr>g_weak := w\<rparr>"
  by (rule fold_weak) (rule traverse_node_weak)

lemma gfasttm_ok:
  assumes "gfasttm et ev g = (tm, g')"
  shows "shrinks g g'" "same_marks g g'" "keeps_tables g g'"
proof -
  have "g' = g \<or> (\<exists>e h' fl. g_body g e = Some (GTable h') \<and> g' = set_body e (GTable (h'\<lparr>h_flags := fl\<rparr>)) g)"
  proof (cases et)
    case (Some e)
    show ?thesis
    proof (cases "\<exists>h'. g_body g e = Some (GTable h')")
      case True
      then obtain h' where h: "g_body g e = Some (GTable h')" by blast
      show ?thesis
      proof (cases "bit (h_flags h') ev \<or> gc_getstr h' (g_tmname g ev) \<noteq> GNil")
        case True
        then have "g' = g" using assms Some h by (cases "gc_getstr h' (g_tmname g ev)") (simp_all add: gfasttm_def split: if_splits)
        then show ?thesis by simp
      next
        case False
        then have "g' = set_body e (GTable (h'\<lparr>h_flags := h_flags h' OR bitmask ev\<rparr>)) g" using assms Some h by (simp add: gfasttm_def)
        then show ?thesis using h by blast
      qed
    next
      case False
      then have "g' = g" using assms Some by (simp add: gfasttm_def split: option.splits gcbody.splits)
      then show ?thesis by simp
    qed
  qed (use assms in \<open>simp add: gfasttm_def\<close>)
  then consider "g' = g" | e h' fl where "g_body g e = Some (GTable h')" "g' = set_body e (GTable (h'\<lparr>h_flags := fl\<rparr>)) g"
    by blast
  then have "shrinks g g' \<and> same_marks g g' \<and> keeps_tables g g'"
  proof cases
    case 2
    have "table_like h' (h'\<lparr>h_flags := fl\<rparr>)" by (simp add: table_like_def)
    then show ?thesis unfolding 2(2) using shrinks_table_like [OF 2(1)] keeps_tables_set [OF 2(1)] by simp
  qed simp
  then show "shrinks g g'" "same_marks g g'" "keeps_tables g g'" by blast+
qed

definition node_marked :: "bool \<Rightarrow> bool \<Rightarrow> gcglobal \<Rightarrow> gcval \<times> gcval \<Rightarrow> bool" where
  "node_marked wk wv g n \<longleftrightarrow>
     (snd n \<noteq> GNil \<longrightarrow> (\<not> wk \<longrightarrow> (\<forall>r\<in>val_refs (fst n). \<not> is_white g r)) \<and> (\<not> wv \<longrightarrow> (\<forall>r\<in>val_refs (snd n). \<not> is_white g r)))"

lemma node_refs_nth: "i < length ns \<Longrightarrow> node_refs (ns ! i) \<subseteq> nodes_refs ns"
  unfolding nodes_refs_def using nth_mem by blast

lemma removeentry_like: "i < length ns \<Longrightarrow> snd (ns ! i) = GNil \<Longrightarrow> nodes_like ns (ns[i := removeentry (ns ! i)])"
  by (auto simp: nodes_like_def removeentry_def nth_list_update)

text \<open>A free node has lost a key that is an object.\<close>

definition no_key :: "gctable \<Rightarrow> gctable \<Rightarrow> nat \<Rightarrow> bool" where
  "no_key h h' i \<longleftrightarrow> (snd (h_nodes h ! i) = GNil \<longrightarrow> val_refs (fst (h_nodes h' ! i)) = {})"

lemma no_key_like: "no_key h h1 i \<Longrightarrow> table_like h1 h2 \<Longrightarrow> i < length (h_nodes h1) \<Longrightarrow> no_key h h2 i"
  by (auto simp: no_key_def table_like_def nodes_like_def)

lemma no_key_removed: "i < length ns \<Longrightarrow> val_refs (fst (ns[i := removeentry n] ! i)) = {}"
  by (auto simp: removeentry_def iscollectable_def split: gcval.split)

lemma traverse_node_ok:
  assumes t: "tricolour X g" and a: "g_body g a = Some (GTable h)" and i: "i < length (h_nodes h)"
    and g': "g' = traverse_node wk wv a i g"
  shows "tricolour X g' \<and> steps A g g' \<and> node_marked wk wv g' (h_nodes h ! i) \<and>
    (\<exists>h'. g_body g' a = Some (GTable h') \<and> table_like h h' \<and> no_key h h' i)"
proof -
  let ?n = "h_nodes h ! i"
  show ?thesis
  proof (cases "snd ?n = GNil")
    case True
    let ?h = "h\<lparr>h_nodes := (h_nodes h)[i := removeentry ?n]\<rparr>"
    have e: "g' = set_body a (GTable ?h) g" by (simp add: g' traverse_node_def with_table_def a set_node_def True)
    have l: "table_like h ?h" using removeentry_like [OF i True] by (simp add: table_like_def)
    have s: "shrinks g g'" "same_marks g g'" "keeps_tables g g'"
      unfolding e using shrinks_table_like [OF a l] keeps_tables_set [OF a l] by simp_all
    moreover have "no_key h ?h i" using no_key_removed [OF i] by (simp add: no_key_def)
    moreover have "g_body g' a = Some (GTable ?h)" by (simp add: e set_body_def)
    ultimately show ?thesis using tricolour_shrinks [OF s(1,2) t] steps_shrinks [OF s] True l by (auto simp: node_marked_def)
  next
    case False
    define g1 where "g1 = (if wk then g else markvalue (fst ?n) g)"
    have e: "g' = (if wv then g1 else markvalue (snd ?n) g1)"
      by (simp add: g' traverse_node_def with_table_def a False g1_def Let_def)
    have "refs g a \<subseteq> allocated g" by (rule tricolourD(11) [OF t])
    moreover have "node_refs ?n \<subseteq> refs g a" using node_refs_nth [OF i] by (auto simp: refs_def a)
    ultimately have r: "val_refs (fst ?n) \<subseteq> allocated g" "val_refs (snd ?n) \<subseteq> allocated g" using False by (auto simp: node_refs_def)
    have 1: "marks_ok X g g1 \<and> (\<not> wk \<longrightarrow> (\<forall>x\<in>val_refs (fst ?n). \<not> is_white g1 x))"
      using markvalue_ok [OF t r(1)] by (cases wk) (simp_all add: g1_def marks_ok_refl t)
    have t1: "tricolour X g1" and b1: "g_body g1 = g_body g" using marks_okD(1,4) [OF conjunct1 [OF 1]] by simp_all
    have "val_refs (snd ?n) \<subseteq> allocated g1" using r(2) by (simp add: b1)
    then have 2: "marks_ok X g1 g' \<and> (\<not> wv \<longrightarrow> (\<forall>x\<in>val_refs (snd ?n). \<not> is_white g' x))"
      using markvalue_ok [OF t1] by (cases wv) (simp_all add: e marks_ok_refl t1)
    have ok: "marks_ok X g g'" using 1 2 marks_ok_trans by blast
    have "node_marked wk wv g' ?n" using 1 2 marks_okD(3) [OF conjunct1 [OF 2]] by (auto simp: node_marked_def)
    moreover have "g_body g' a = Some (GTable h)" "no_key h h i" using marks_okD(4) [OF ok] a False by (simp_all add: no_key_def)
    ultimately show ?thesis using marks_steps [OF ok] table_like_refl by blast
  qed
qed

lemma node_marked_steps: "node_marked wk wv g n \<Longrightarrow> steps A g g' \<Longrightarrow> node_marked wk wv g' n"
  using stepsD(8) unfolding node_marked_def by blast

lemma node_marked_like:
  "node_marked wk wv g (h_nodes h ! i) \<Longrightarrow> table_like h h' \<Longrightarrow> i < length (h_nodes h) \<Longrightarrow> node_marked wk wv g (h_nodes h' ! i)"
  by (auto simp: node_marked_def table_like_def nodes_like_def)

lemma traverse_nodes_ok:
  assumes "tricolour X g" "g_body g a = Some (GTable h)" "set is \<subseteq> {..<length (h_nodes h)}"
    and g': "g' = fold (traverse_node wk wv a) is g"
  shows "tricolour X g' \<and> steps A g g' \<and> (\<forall>i\<in>set is. node_marked wk wv g' (h_nodes h ! i)) \<and>
    (\<exists>h'. g_body g' a = Some (GTable h') \<and> table_like h h' \<and> (\<forall>i\<in>set is. no_key h h' i))"
  using assms
proof (induction "is" arbitrary: g h)
  case (Cons i "is")
  define g1 where "g1 = traverse_node wk wv a i g"
  have i: "i < length (h_nodes h)" using Cons.prems(3) by simp
  have 1: "tricolour X g1" "steps A g g1" "node_marked wk wv g1 (h_nodes h ! i)"
    using traverse_node_ok [OF Cons.prems(1,2) i g1_def] by blast+
  obtain h1 where h1: "g_body g1 a = Some (GTable h1)" "table_like h h1" "no_key h h1 i"
    using traverse_node_ok [OF Cons.prems(1,2) i g1_def] by blast
  have len: "length (h_nodes h1) = length (h_nodes h)" using h1(2) by (simp add: table_like_def nodes_like_def)
  then have is1: "set is \<subseteq> {..<length (h_nodes h1)}" using Cons.prems(3) by auto
  have "g' = fold (traverse_node wk wv a) is g1" using Cons.prems(4) by (simp add: g1_def)
  note 2 = Cons.IH [OF 1(1) h1(1) is1 this]
  have b: "node_marked wk wv g' (h_nodes h ! j)" if "j \<in> set is" for j
  proof -
    have n: "node_marked wk wv g' (h_nodes h1 ! j)" and l: "j < length (h_nodes h)" using 2 that Cons.prems(3) by auto
    then show ?thesis using h1(2) by (auto simp: node_marked_def table_like_def nodes_like_def)
  qed
  have n: "node_marked wk wv g' (h_nodes h ! i)" by (rule node_marked_steps [OF 1(3)]) (use 2 in blast)
  obtain h' where h': "g_body g' a = Some (GTable h')" "table_like h1 h'" "\<forall>j\<in>set is. no_key h1 h' j" using 2 by blast
  have "no_key h h' i" by (rule no_key_like [OF h1(3) h'(2)]) (use i len in simp)
  moreover have "no_key h h' j" if "j \<in> set is" for j
  proof -
    have "j < length (h_nodes h)" "no_key h1 h' j" using that Cons.prems(3) h'(3) by auto
    then show ?thesis using h1(2) by (auto simp: no_key_def table_like_def nodes_like_def)
  qed
  ultimately have "\<forall>j\<in>set (i # is). no_key h h' j" by simp
  then show ?case using 2 b n steps_trans [OF 1(2)] h'(1) table_like_trans [OF h1(2) h'(2)] by auto
qed auto

lemma steps_weak_bits:
  assumes "tricolour X g" "a \<in> X"
  shows "tricolour X (setmark a (weak_bits wk wv) g) \<and> steps {a} g (setmark a (weak_bits wk wv) g)"
proof
  have a: "a \<in> allocated g" "\<not> is_white g a" using tricolourD(10) [OF assms] by simp_all
  have l: "a \<notin> set (listed g)" using tricolourD(9) [OF assms(1), of a] assms(2) by blast
  show "tricolour X (setmark a (weak_bits wk wv) g)"
    by (rule tricolour_setmark [OF assms(1) a(1)]) (use a l assms(2) in auto)
  have "whites (setmark a (weak_bits wk wv) g) = whites g" by (rule whites_same) simp
  then show "steps {a} g (setmark a (weak_bits wk wv) g)"
    by (simp add: steps_def shrinks_body same_lists_def setmark_def [of a "weak_bits wk wv" g] darkens_def keeps_modes_def measure_le_def opens_def)
qed

text \<open>A weak table after its traversal: \<open>cleartable\<close> looks at the nodes, and at the array if the values are weak.\<close>

definition weak_done :: "gcglobal \<Rightarrow> gcaddr \<Rightarrow> bool" where
  "weak_done g a \<longleftrightarrow>
     (\<exists>h. g_body g a = Some (GTable h) \<and> (\<forall>r\<in>set_option (h_metatable h). \<not> is_white g r) \<and>
       (\<not> bit (g_marked g a) VALUEWEAKBIT \<longrightarrow> (\<forall>r\<in>vals_refs (h_array h). \<not> is_white g r)))"

text \<open>The keys of a table, those of free nodes included.\<close>

definition keys_marked :: "gcglobal \<Rightarrow> gcaddr \<Rightarrow> bool" where
  "keys_marked g a \<longleftrightarrow> (\<forall>h. g_body g a = Some (GTable h) \<longrightarrow> (\<forall>i < length (h_nodes h). \<forall>r\<in>val_refs (fst (h_nodes h ! i)). r \<in> allocated g \<and> \<not> is_white g r))"

lemma traversetable_ok:
  assumes t: "tricolour {a} g" and a: "g_body g a = Some (GTable h)"
  shows "\<exists>w v. traversetable a g = (w, if w then v\<lparr>g_weak := a # g_weak v\<rparr> else v) \<and> tricolour {a} v \<and> steps {a} g v \<and>
    (\<not> w \<longrightarrow> (\<forall>r\<in>refs g a. \<not> is_white v r)) \<and> (w \<longrightarrow> weak_done v a) \<and> (\<not> w \<longrightarrow> keys_marked v a)"
proof -
  define g1 where "g1 = markobject_opt (h_metatable h) g"
  obtain mode g2 where g2: "gfasttm (h_metatable h) GC_TM_MODE g1 = (mode, g2)" by fastforce
  obtain wk wv where w: "weak_mode mode g2 = (wk, wv)" by fastforce
  define g3 where "g3 = (if wk \<or> wv then setmark a (weak_bits wk wv) g2 else g2)"
  define g4 where "g4 = (if wv then g3 else fold markvalue (rev (h_array h)) g3)"
  define v where "v = (if wk \<and> wv then g3 else fold (traverse_node wk wv a) (rev [0..<length (h_nodes h)]) g4)"
  have al: "refs g a \<subseteq> allocated g" by (rule tricolourD(11) [OF t])
  have ra: "refs g a = set_option (h_metatable h) \<union> vals_refs (h_array h) \<union> nodes_refs (h_nodes h)" by (simp add: refs_def a)
  have 1: "marks_ok {a} g g1" "\<forall>r\<in>set_option (h_metatable h). \<not> is_white g1 r"
    using markobject_opt_ok [OF t, of "h_metatable h"] al ra by (auto simp: g1_def)
  have t1: "tricolour {a} g1" "steps {a} g g1" using marks_steps [OF 1(1)] by simp_all
  note f = gfasttm_ok [OF g2]
  have t2: "tricolour {a} g2" by (rule tricolour_shrinks [OF f(1,2) t1(1)])
  have s2: "steps {a} g g2" by (rule steps_trans [OF t1(2) steps_shrinks [OF f]])
  have t3: "tricolour {a} g3 \<and> steps {a} g2 g3"
    using steps_weak_bits [OF t2, of a wk wv] t2 by (simp add: g3_def)
  have s3: "steps {a} g g3" using steps_trans [OF s2] t3 by blast
  have 4: "marks_ok {a} g3 g4 \<and> (\<not> wv \<longrightarrow> (\<forall>x\<in>set (rev (h_array h)). \<forall>r\<in>val_refs x. \<not> is_white g4 r))"
  proof (cases wv)
    case True
    then show ?thesis using t3 by (simp add: g4_def marks_ok_refl)
  next
    case False
    have al3: "val_refs x \<subseteq> allocated g3" if "x \<in> set (rev (h_array h))" for x
      using that al ra stepsD(11) [OF s3] by (auto simp: vals_refs_def)
    have "marks_ok {a} g3 (fold markvalue (rev (h_array h)) g3) \<and>
        (\<forall>x\<in>set (rev (h_array h)). \<forall>r\<in>val_refs x. \<not> is_white (fold markvalue (rev (h_array h)) g3) r)"
      by (rule fold_marks_ok [where B = "g_body g3", OF markvalue_ok]) (use al3 t3 in auto)
    then show ?thesis using False by (simp add: g4_def)
  qed
  have t4: "tricolour {a} g4" and s4: "steps {a} g g4" using marks_steps [OF conjunct1 [OF 4]] steps_trans [OF s3] by blast+
  obtain h4 where h4: "g_body g4 a = Some (GTable h4)" "table_like h h4" using keeps_tablesD [OF stepsD(3) [OF s4] a] by blast
  have len: "length (h_nodes h4) = length (h_nodes h)" using h4(2) by (simp add: table_like_def nodes_like_def)
  have 5: "tricolour {a} v \<and> steps {} g4 v \<and> (\<not> (wk \<and> wv) \<longrightarrow> (\<forall>i<length (h_nodes h). node_marked wk wv v (h_nodes h4 ! i)) \<and>
      (\<exists>h'. g_body v a = Some (GTable h') \<and> table_like h4 h' \<and> (\<forall>i<length (h_nodes h). no_key h4 h' i)))"
  proof (cases "wk \<and> wv")
    case True
    then have "g4 = v" by (simp add: g4_def v_def)
    then show ?thesis using t4 True by simp
  next
    case False
    then have e: "v = fold (traverse_node wk wv a) (rev [0..<length (h_nodes h)]) g4" by (auto simp: v_def)
    have i: "set (rev [0..<length (h_nodes h)]) \<subseteq> {..<length (h_nodes h4)}" using len by auto
    have mem: "(\<forall>i\<in>set (rev [0..<length (h_nodes h)]). P i) = (\<forall>i<length (h_nodes h). P i)" for P by auto
    show ?thesis using traverse_nodes_ok [OF t4 h4(1) i e, where A = "{}"] unfolding mem by blast
  qed
  have s34: "steps {} g3 g4" by (rule steps_marks) (use 4 in blast)
  have s4v: "steps {} g4 v" using 5 by blast
  have s3v: "steps {} g3 v" by (rule steps_trans [OF s34 s4v])
  have s5: "steps {a} g v" by (rule steps_trans [OF s4 steps_mono [OF s4v]]) simp
  have gw: "g_weak v = g_weak g2" "g_weak g4 = g_weak g2" using stepsD(12) s5 s4 s2 by simp_all
  have tr: "traversetable a g = (wk \<or> wv, if wk \<or> wv then v\<lparr>g_weak := a # g_weak v\<rparr> else v)"
  proof (cases "wk \<or> wv")
    case False
    then show ?thesis by (simp add: traversetable_def a g1_def [symmetric] g2 w Let_def v_def g4_def g3_def)
  next
    case True
    define G where "G = a # g_weak g2"
    have g3: "setmark a (weak_bits wk wv) g2 = g3" using True by (simp add: g3_def)
    have "traversetable a g =
      (if wk \<and> wv then (True, g3\<lparr>g_weak := G\<rparr>)
       else (True, fold (traverse_node wk wv a) (rev [0..<length (h_nodes h)])
              (if wv then g3\<lparr>g_weak := G\<rparr> else fold markvalue (rev (h_array h)) (g3\<lparr>g_weak := G\<rparr>))))"
      using True unfolding traversetable_def a option.case gcbody.case Let_def g1_def [symmetric] g2 prod.case w G_def g3 by (simp only: if_True)
    also have "\<dots> = (True, v\<lparr>g_weak := G\<rparr>)"
      by (cases wv; cases wk) (simp_all only: v_def g4_def fold_markvalue_weak fold_traverse_weak if_True if_False simp_thms)
    finally show ?thesis using True gw(1) by (simp add: G_def)
  qed
  have mt: "\<forall>r\<in>set_option (h_metatable h). \<not> is_white v r"
    using 1(2) stepsD(8) [OF steps_shrinks [OF f]] stepsD(8) [OF conjunct2 [OF t3]] stepsD(8) [OF s3v] by blast
  have arr: "\<forall>r\<in>vals_refs (h_array h). \<not> is_white v r" if "\<not> wv"
    using 4 that stepsD(8) [OF s4v] by (auto simp: vals_refs_def)
  show ?thesis
  proof (intro exI [of _ "wk \<or> wv"] exI [of _ v] conjI impI)
    show "traversetable a g = (wk \<or> wv, if wk \<or> wv then v\<lparr>g_weak := a # g_weak v\<rparr> else v)" by (fact tr)
    show "tricolour {a} v" "steps {a} g v" using 5 s5 by blast+
  next
    assume no: "\<not> (wk \<or> wv)"
    have "\<forall>r\<in>nodes_refs (h_nodes h). \<not> is_white v r"
    proof -
      have "nodes_refs (h_nodes h) = nodes_refs (h_nodes h4)" 
        by (rule nodes_like_refs [symmetric]) (use h4(2) in \<open>simp add: table_like_def\<close>)
      then show ?thesis using 5 no len by (auto simp: nodes_refs_nth node_refs_def node_marked_def)
    qed
    then show "\<forall>r\<in>refs g a. \<not> is_white v r" using mt arr no by (auto simp: ra)
    obtain h' where h': "g_body v a = Some (GTable h')" "table_like h4 h'" "\<And>i. i < length (h_nodes h) \<Longrightarrow> no_key h4 h' i"
      using 5 no by blast
    have "r \<in> allocated v \<and> \<not> is_white v r" if i: "i < length (h_nodes h')" "r \<in> val_refs (fst (h_nodes h' ! i))" for i r
    proof -
      have l: "i < length (h_nodes h)" "i < length (h_nodes h4)" using i(1) h'(2) len by (simp_all add: table_like_def nodes_like_def)
      have f: "r \<in> val_refs (fst (h_nodes h4 ! i))" using i(2) h'(2) l by (auto simp: table_like_def nodes_like_def)
      have "snd (h_nodes h4 ! i) \<noteq> GNil" using h'(3) [OF l(1)] i(2) by (auto simp: no_key_def)
      then have "r \<in> node_refs (h_nodes h4 ! i)" using f by (simp add: node_refs_def)
      then have "r \<in> refs g4 a" using node_refs_nth [OF l(2)] by (auto simp: refs_def h4(1))
      then have "r \<in> allocated v" using tricolourD(11) [OF t4, of a] stepsD(11) [OF s4v] by blast
      then show ?thesis using 5 no l f \<open>snd (h_nodes h4 ! i) \<noteq> GNil\<close> by (auto simp: node_marked_def)
    qed
    then show "keys_marked v a" using h'(1) by (auto simp: keys_marked_def)
  next
    assume yes: "wk \<or> wv"
    obtain h' where h': "g_body v a = Some (GTable h')" "table_like h h'" using keeps_tablesD [OF stepsD(3) [OF s5] a] by blast
    have "bit (g_marked v a) VALUEWEAKBIT = bit (g_marked g3 a) VALUEWEAKBIT" using stepsD(7) [OF s3v] by (simp add: keeps_modes_def)
    then have "bit (g_marked v a) VALUEWEAKBIT = wv" using yes by (simp add: g3_def)
    then show "weak_done v a" using h' mt arr by (auto simp: weak_done_def table_like_def)
  qed
qed

subsection \<open>Closures and prototypes\<close>

text \<open>Marking one list after another.\<close>

lemma marks_then:
  assumes "marks_ok X g g1 \<and> (\<forall>r\<in>R. \<not> is_white g1 r)"
    and "tricolour X g1 \<Longrightarrow> g_body g1 = g_body g \<Longrightarrow> marks_ok X g1 g2 \<and> (\<forall>r\<in>S. \<not> is_white g2 r)"
  shows "marks_ok X g g2 \<and> (\<forall>r\<in>R \<union> S. \<not> is_white g2 r)"
proof -
  have 2: "marks_ok X g1 g2" "\<forall>r\<in>S. \<not> is_white g2 r" using assms(2) marks_okD(1,4) assms(1) by blast+
  then show ?thesis using assms(1) marks_ok_trans marks_okD(3) [OF 2(1)] by blast
qed

lemma markobject_one:
  assumes "tricolour X g" "a \<in> allocated g"
  shows "marks_ok X g (markobject a g) \<and> (\<forall>r\<in>{a}. \<not> is_white (markobject a g) r)"
  using markobject_ok [OF assms] by simp

lemma fold_markvalue_ok:
  assumes "tricolour X g" "vals_refs vs \<subseteq> allocated g"
  shows "marks_ok X g (fold markvalue vs g) \<and> (\<forall>r\<in>vals_refs vs. \<not> is_white (fold markvalue vs g) r)"
proof -
  have "marks_ok X g (fold markvalue vs g) \<and> (\<forall>x\<in>set vs. \<forall>r\<in>val_refs x. \<not> is_white (fold markvalue vs g) r)"
    by (rule fold_marks_ok [where B = "g_body g", OF markvalue_ok]) (use assms in \<open>auto simp: vals_refs_def\<close>)
  then show ?thesis by (auto simp: vals_refs_def)
qed

lemma fold_markobject_ok:
  assumes "tricolour X g" "set xs \<subseteq> allocated g"
  shows "marks_ok X g (fold markobject xs g) \<and> (\<forall>r\<in>set xs. \<not> is_white (fold markobject xs g) r)"
proof -
  have "marks_ok X g (fold markobject xs g) \<and> (\<forall>x\<in>set xs. \<forall>r\<in>{x}. \<not> is_white (fold markobject xs g) r)"
    by (rule fold_marks_ok [where B = "g_body g", OF markobject_one]) (use assms in auto)
  then show ?thesis by simp
qed

lemma opts_refs_set: "opts_refs xs = (\<Union>x\<in>set xs. set_option x)"
  by (force simp: opts_refs_def)

lemma fold_markobject_opt_ok:
  assumes "tricolour X g" "opts_refs xs \<subseteq> allocated g"
  shows "marks_ok X g (fold markobject_opt xs g) \<and> (\<forall>r\<in>opts_refs xs. \<not> is_white (fold markobject_opt xs g) r)"
proof -
  have "marks_ok X g (fold markobject_opt xs g) \<and> (\<forall>x\<in>set xs. \<forall>r\<in>set_option x. \<not> is_white (fold markobject_opt xs g) r)"
    by (rule fold_marks_ok [where B = "g_body g", OF markobject_opt_ok]) (use assms in \<open>auto simp: opts_refs_set\<close>)
  then show ?thesis by (auto simp: opts_refs_set)
qed

lemma fold_stringmark_ok:
  assumes "tricolour X g" "\<forall>r\<in>opts_refs xs. is_string g r"
  shows "marks_ok X g (fold stringmark_opt xs g) \<and> (\<forall>r\<in>opts_refs xs. \<not> is_white (fold stringmark_opt xs g) r)"
proof -
  have "marks_ok X g (fold stringmark_opt xs g) \<and> (\<forall>x\<in>set xs. \<forall>r\<in>set_option x. \<not> is_white (fold stringmark_opt xs g) r)"
  proof (rule fold_marks_ok [where B = "g_body g", OF stringmark_opt_ok])
    fix g' :: gcglobal and x assume "x \<in> set xs" "g_body g' = g_body g"
    moreover have "is_string g' = is_string g" by (rule body_cong(4)) fact
    ultimately show "\<forall>r\<in>set_option x. is_string g' r" using assms(2) by (auto simp: opts_refs_set)
  qed (use assms in simp_all)
  then show ?thesis by (auto simp: opts_refs_set)
qed

lemma traverse_cclosure_ok:
  assumes "tricolour X g" "g_body g a = Some (GCClosure env ups)"
  shows "marks_ok X g (traverse_cclosure env ups g) \<and> (\<forall>r\<in>refs g a. \<not> is_white (traverse_cclosure env ups g) r)"
proof -
  have r: "refs g a = {env} \<union> vals_refs ups" "refs g a \<subseteq> allocated g"
    by (simp add: refs_def assms(2)) (rule tricolourD(11) [OF assms(1)])
  show ?thesis unfolding traverse_cclosure_def r(1)
    by (rule marks_then [OF markobject_one fold_markvalue_ok]) (use assms(1) r in auto)
qed

lemma traverse_lclosure_ok:
  assumes "tricolour X g" "g_body g a = Some (GLClosure env p ups)"
  shows "marks_ok X g (traverse_lclosure env p ups g) \<and> (\<forall>r\<in>refs g a. \<not> is_white (traverse_lclosure env p ups g) r)"
proof -
  have r: "refs g a = {env} \<union> {p} \<union> set ups" "refs g a \<subseteq> allocated g"
    by (simp add: refs_def assms(2) insert_commute) (rule tricolourD(11) [OF assms(1)])
  show ?thesis unfolding traverse_lclosure_def r(1)
    by (rule marks_then [OF marks_then [OF markobject_one markobject_one] fold_markobject_ok]) (use assms(1) r in auto)
qed

lemma traverseproto_ok:
  assumes "tricolour X g" "g_body g a = Some (GProto f)"
  shows "marks_ok X g (traverseproto f g) \<and> (\<forall>r\<in>refs g a. \<not> is_white (traverseproto f g) r)"
proof -
  have r: "refs g a = set_option (pr_source f) \<union> vals_refs (pr_k f) \<union> opts_refs (pr_upvalues f) \<union> opts_refs (pr_p f) \<union> opts_refs (pr_locvars f)"
    "refs g a \<subseteq> allocated g"
    by (simp add: refs_def assms(2)) (rule tricolourD(11) [OF assms(1)])
  have s: "is_string g' x" if "x \<in> set_option (pr_source f) \<union> opts_refs (pr_upvalues f) \<union> opts_refs (pr_locvars f)" "g_body g' = g_body g" for x g'
    unfolding body_cong(4) [OF that(2)] by (rule well_typedD(3) [OF tricolourD(1) [OF assms(1)] assms(2) refl that(1)])
  show ?thesis unfolding traverseproto_def Let_def r(1)
    by (rule marks_then [OF marks_then [OF marks_then [OF marks_then [OF stringmark_opt_ok fold_markvalue_ok] fold_stringmark_ok]
            fold_markobject_opt_ok] fold_stringmark_ok])
      (use assms(1) r in \<open>auto intro: s\<close>)
qed

subsection \<open>Threads\<close>

definition th_slot :: "gcthread \<Rightarrow> nat \<Rightarrow> gcval" where
  "th_slot th i = (if i < length (th_stack th) then th_stack th ! i else GNil)"

definition thread_less :: "gcthread \<Rightarrow> gcthread \<Rightarrow> bool" where
  "thread_less th th' \<longleftrightarrow>
     th_gt th' = th_gt th \<and> th_top th' = th_top th \<and> (\<forall>i. th_slot th' i = th_slot th i \<or> th_slot th' i = GNil)"

lemma thread_less_refl [simp]: "thread_less th th"
  by (simp add: thread_less_def)

lemma thread_less_trans: "thread_less t1 t2 \<Longrightarrow> thread_less t2 t3 \<Longrightarrow> thread_less t1 t3"
  unfolding thread_less_def by metis

lemma take_refs_slots: "vals_refs (take n (th_stack th)) = (\<Union>i\<in>{..<n}. val_refs (th_slot th i))"
proof
  show "vals_refs (take n (th_stack th)) \<subseteq> (\<Union>i\<in>{..<n}. val_refs (th_slot th i))"
    by (force simp: vals_refs_def in_set_conv_nth th_slot_def)
  show "(\<Union>i\<in>{..<n}. val_refs (th_slot th i)) \<subseteq> vals_refs (take n (th_stack th))"
  proof
    fix r assume "r \<in> (\<Union>i\<in>{..<n}. val_refs (th_slot th i))"
    then obtain i where i: "i < n" "i < length (th_stack th)" "r \<in> val_refs (th_stack th ! i)"
      by (auto simp: th_slot_def split: if_splits)
    then have "th_stack th ! i \<in> set (take n (th_stack th))" by (auto simp: in_set_conv_nth intro!: exI [of _ i])
    then show "r \<in> vals_refs (take n (th_stack th))" using i by (auto simp: vals_refs_def)
  qed
qed

lemma shrinks_thread:
  assumes a: "g_body g a = Some (GThread th)" and l: "thread_less th th'"
  shows "shrinks g (set_body a (GThread th') g)"
proof -
  let ?g = "set_body a (GThread th') g"
  have s: "val_refs (th_slot th' i) \<subseteq> val_refs (th_slot th i)" for i
    using l unfolding thread_less_def by (metis empty_subsetI order_refl val_refs_simps(2))
  have u: "uv_value g (UOpen t i) = (case g_body g t of Some (GThread h) \<Rightarrow> th_slot h i | _ \<Rightarrow> GNil)" for g t i
    by (simp add: uv_value_def th_slot_def split: option.split gcbody.split)
  have v: "val_refs (uv_value ?g p) \<subseteq> val_refs (uv_value g p)" for p
  proof (cases p)
    case (UOpen t i)
    then show ?thesis using a s by (cases "t = a") (simp_all add: u set_body_def)
  qed (simp add: uv_value_def)
  have bt: "body_refs ?g (GThread th') \<subseteq> body_refs g (GThread th)"
    using l s by (auto simp: thread_less_def take_refs_slots)
  have bx: "body_refs ?g x \<subseteq> body_refs g x" for x using v by (cases x) auto
  have "refs ?g b \<subseteq> refs g b" for b
  proof (cases "b = a")
    case True
    then show ?thesis using bt a by (simp add: refs_def set_body_def)
  next
    case False
    then have e: "g_body ?g b = g_body g b" by (simp add: set_body_def)
    show ?thesis
    proof (cases "g_body g b")
      case (Some x)
      then show ?thesis using bx [of x] by (simp only: refs_def e option.case)
    qed (simp add: refs_def e)
  qed
  then show ?thesis unfolding shrinks_def using a by (auto simp: set_body_def is_thread_def)
qed

text \<open>What happens to a thread while it is traversed.\<close>

definition thread_shrinks :: "gcaddr \<Rightarrow> gcglobal \<Rightarrow> gcglobal \<Rightarrow> bool" where
  "thread_shrinks a g g' \<longleftrightarrow> shrinks g g' \<and> same_marks g g' \<and> keeps_tables g g'"

lemma thread_shrinks_refl [simp]: "thread_shrinks a g g"
  by (simp add: thread_shrinks_def)

lemma thread_shrinks_trans: "thread_shrinks a g g' \<Longrightarrow> thread_shrinks a g' g'' \<Longrightarrow> thread_shrinks a g g''"
  using shrinks_trans same_marks_trans keeps_tables_trans by (auto simp: thread_shrinks_def)

lemma thread_shrinks_set:
  assumes "g_body g a = Some (GThread th)" "thread_less th th'"
  shows "thread_shrinks a g (set_body a (GThread th') g)"
proof -
  have "keeps_tables g (set_body a (GThread th') g)" using assms(1) by (auto simp: keeps_tables_def set_body_def)
  then show ?thesis using shrinks_thread [OF assms] by (simp add: thread_shrinks_def)
qed

lemma gc_realloc_simps [simp]: "g_body (gc_realloc m n g) = g_body g" "g_marked (gc_realloc m n g) = g_marked g"
  by (simp_all add: gc_realloc_def)

lemma thread_shrinks_realloc: "thread_shrinks a g g' \<Longrightarrow> thread_shrinks a g (gc_realloc m n g')"
proof (rule thread_shrinks_trans)
  show "thread_shrinks a g' (gc_realloc m n g')"
    by (simp add: thread_shrinks_def shrinks_body same_marks_def same_lists_def gc_realloc_def)
qed

lemma reallocCI_shrinks: "thread_shrinks a g (gc_reallocCI a n g)"
proof (cases "\<exists>th. g_body g a = Some (GThread th)")
  case True
  then obtain th where th: "g_body g a = Some (GThread th)" by blast
  have "thread_less th (th\<lparr>th_size_ci := n\<rparr>)" by (simp add: thread_less_def th_slot_def)
  then show ?thesis
    using thread_shrinks_realloc [OF thread_shrinks_set [OF th]] by (simp add: gc_reallocCI_def with_thread_def th)
qed (auto simp: gc_reallocCI_def with_thread_def split: option.split gcbody.split)

lemma reallocstack_shrinks: "thread_shrinks a g (gc_reallocstack a n g)"
proof (cases "\<exists>th. g_body g a = Some (GThread th)")
  case True
  then obtain th where th: "g_body g a = Some (GThread th)" by blast
  have "thread_less th (th\<lparr>th_stack := take k (th_stack th) @ replicate m GNil\<rparr>)" for k m
    by (auto simp: thread_less_def th_slot_def nth_append)
  then show ?thesis
    using thread_shrinks_realloc [OF thread_shrinks_set [OF th]] by (simp add: gc_reallocstack_def with_thread_def th Let_def)
qed (auto simp: gc_reallocstack_def with_thread_def split: option.split gcbody.split)

lemma checkstacksizes_shrinks: "thread_shrinks a g (checkstacksizes a mx g)"
proof (cases "\<exists>th. g_body g a = Some (GThread th)")
  case True
  then obtain th where th: "g_body g a = Some (GThread th)" by blast
  define g1 where "g1 = (if 4 * (length (th_citops th) - 1) < th_size_ci th \<and> 2 * BASIC_CI_SIZE < th_size_ci th
    then gc_reallocCI a (th_size_ci th div 2) g else g)"
  have 1: "thread_shrinks a g g1" using reallocCI_shrinks by (simp add: g1_def)
  have "checkstacksizes a mx g =
    (if th_size_ci th > LUAI_MAXCALLS then g
     else if 4 * mx < length (th_stack th) \<and> 2 * (BASIC_STACK_SIZE + EXTRA_STACK) < length (th_stack th)
       then gc_reallocstack a (length (th_stack th) div 2) g1 else g1)"
    by (simp only: checkstacksizes_def with_thread_def th option.case gcbody.case Let_def g1_def)
  then show ?thesis using 1 thread_shrinks_trans [OF 1 reallocstack_shrinks] by simp
qed (auto simp: checkstacksizes_def with_thread_def split: option.split gcbody.split)

lemma clear_above_less: "thread_less th (th\<lparr>th_stack := clear_above t m (th_stack th)\<rparr>)"
  by (auto simp: thread_less_def th_slot_def clear_above_def)

lemma traversestack_ok:
  assumes t: "tricolour X g" and a: "g_body g a = Some (GThread th)"
  shows "tricolour X (traversestack a g) \<and> steps A g (traversestack a g) \<and> (\<forall>r\<in>refs g a. \<not> is_white (traversestack a g) r)"
proof -
  define g1 where "g1 = fold markvalue (take (th_top th) (th_stack th)) (markvalue (th_gt th) g)"
  define lim where "lim = fold max (th_citops th) (th_top th)"
  define g2 where "g2 = set_body a (GThread (th\<lparr>th_stack := clear_above (th_top th) lim (th_stack th)\<rparr>)) g1"
  have e: "traversestack a g = checkstacksizes a lim g2"
    by (simp add: traversestack_def with_thread_def a Let_def g1_def g2_def lim_def)
  have r: "refs g a = val_refs (th_gt th) \<union> vals_refs (take (th_top th) (th_stack th))" by (simp add: refs_def a)
  have al: "refs g a \<subseteq> allocated g" by (rule tricolourD(11) [OF t])
  have 1: "marks_ok X g g1 \<and> (\<forall>r\<in>refs g a. \<not> is_white g1 r)" unfolding g1_def r
    by (rule marks_then [OF markvalue_ok fold_markvalue_ok]) (use t al r in auto)
  have b1: "g_body g1 a = Some (GThread th)" using marks_okD(4) [OF conjunct1 [OF 1]] a by simp
  have "thread_shrinks a g1 g2" unfolding g2_def by (rule thread_shrinks_set [OF b1 clear_above_less])
  then have s: "thread_shrinks a g1 (traversestack a g)" unfolding e by (rule thread_shrinks_trans [OF _ checkstacksizes_shrinks])
  then have s2: "shrinks g1 (traversestack a g)" "same_marks g1 (traversestack a g)" "keeps_tables g1 (traversestack a g)"
    by (simp_all add: thread_shrinks_def)
  have t2: "tricolour X (traversestack a g)" using 1 marks_okD(1) by (blast intro: tricolour_shrinks [OF s2(1,2)])
  have "steps A g1 (traversestack a g)" by (rule steps_shrinks [OF s2])
  moreover have "steps A g g1" using 1 steps_marks by blast
  moreover have "\<forall>r\<in>refs g a. \<not> is_white (traversestack a g) r" using 1 s2(2) by (simp add: same_marks_def)
  ultimately show ?thesis using t2 steps_trans by blast
qed

end
