(* ===== verification/LuaGcSafe.thy ===== *)
theory LuaGcSafe
  imports LuaGcTrav
begin

section \<open>What the collector keeps\<close>

text \<open>
  The propagation of the marks ends and keeps the tricolour invariant; after the atomic step every object that the
  program can reach is marked; and the sweep frees none of the marked objects.
\<close>

subsection \<open>Propagation\<close>

text \<open>What holds in the atomic step: of open upvalues, of weak tables and of threads that have been traversed.\<close>

definition upvals_marked :: "gcglobal \<Rightarrow> bool" where
  "upvals_marked g \<longleftrightarrow> (\<forall>u. is_open g u \<and> \<not> is_white g u \<longrightarrow> (\<forall>r\<in>refs g u. \<not> is_white g r))"

definition weaks_done :: "gcglobal \<Rightarrow> bool" where
  "weaks_done g \<longleftrightarrow> (\<forall>t\<in>set (g_weak g). weak_done g t)"

definition agains_done :: "gcglobal \<Rightarrow> bool" where
  "agains_done g \<longleftrightarrow> (\<forall>t\<in>set (g_grayagain g). \<forall>r\<in>refs g t. \<not> is_white g r)"

definition advances :: "gcglobal \<Rightarrow> gcglobal \<Rightarrow> bool" where
  "advances g g' \<longleftrightarrow>
     g_mainthread g' = g_mainthread g \<and> g_registry g' = g_registry g \<and> g_mt g' = g_mt g \<and>
     allocated g' = allocated g \<and> (\<forall>a. \<not> is_white g a \<longrightarrow> \<not> is_white g' a) \<and> is_open g' = is_open g \<and>
     (\<forall>u. is_userdata u g' = is_userdata u g) \<and> g_currentwhite g' = g_currentwhite g \<and>
     (upvals_marked g \<longrightarrow> upvals_marked g') \<and> (weaks_done g \<longrightarrow> weaks_done g') \<and> (agains_done g \<longrightarrow> agains_done g')"

lemma advances_refl [simp]: "advances g g"
  by (simp add: advances_def)

lemma advances_trans: "advances g g' \<Longrightarrow> advances g' g'' \<Longrightarrow> advances g g''"
  by (simp add: advances_def)

definition goes :: "gcglobal \<Rightarrow> gcglobal \<Rightarrow> bool" where
  "goes g g' \<longleftrightarrow> same_lists g g' \<and> advances g g'"

lemma goes_refl [simp]: "goes g g"
  by (simp add: goes_def)

lemma goes_trans: "goes g g' \<Longrightarrow> goes g' g'' \<Longrightarrow> goes g g''"
  using same_lists_trans advances_trans by (auto simp: goes_def)

text \<open>States that differ only in which marked objects are black and which lists they are in.\<close>

definition alike :: "gcglobal \<Rightarrow> gcglobal \<Rightarrow> bool" where
  "alike g g' \<longleftrightarrow>
     g_body g' = g_body g \<and> (\<forall>a. is_white g' a = is_white g a) \<and>
     (\<forall>a. bit (g_marked g' a) VALUEWEAKBIT = bit (g_marked g a) VALUEWEAKBIT) \<and> same_lists g g' \<and> g_currentwhite g' = g_currentwhite g"

lemma alikeD:
  assumes "alike g g'"
  shows "g_body g' = g_body g" "is_white g' = is_white g" "same_lists g g'" "g_currentwhite g' = g_currentwhite g" "refs g' = refs g"
    "is_open g' = is_open g" "weak_done g' = weak_done g" "upvals_marked g' = upvals_marked g"
proof -
  show b: "g_body g' = g_body g" and w: "is_white g' = is_white g" and "same_lists g g'" "g_currentwhite g' = g_currentwhite g"
    using assms by (auto simp: alike_def)
  have v: "bit (g_marked g' a) VALUEWEAKBIT = bit (g_marked g a) VALUEWEAKBIT" for a using assms by (simp add: alike_def)
  show r: "refs g' = refs g" by (rule body_cong(3) [OF b])
  show o: "is_open g' = is_open g" by (rule body_cong(8) [OF b])
  have w': "is_white g' a = is_white g a" for a using fun_cong [OF w] .
  show "weak_done g' = weak_done g" by (rule ext) (simp only: weak_done_def b v w')
  show "upvals_marked g' = upvals_marked g" by (simp only: upvals_marked_def r o w')
qed

lemma weak_done_steps:
  assumes d: "weak_done g t" and s: "steps A g g'" and t: "t \<notin> A"
  shows "weak_done g' t"
proof -
  obtain h where h: "g_body g t = Some (GTable h)" "\<forall>r\<in>set_option (h_metatable h). \<not> is_white g r"
    "\<not> bit (g_marked g t) VALUEWEAKBIT \<longrightarrow> (\<forall>r\<in>vals_refs (h_array h). \<not> is_white g r)" using d by (auto simp: weak_done_def)
  obtain h' where h': "g_body g' t = Some (GTable h')" "table_like h h'" using keeps_tablesD [OF stepsD(3) [OF s] h(1)] by blast
  have "bit (g_marked g' t) VALUEWEAKBIT = bit (g_marked g t) VALUEWEAKBIT" using stepsD(7) [OF s] t by (simp add: keeps_modes_def)
  moreover have "h_metatable h' = h_metatable h" "h_array h' = h_array h" using h'(2) by (simp_all add: table_like_def)
  ultimately show ?thesis unfolding weak_done_def using h h'(1) stepsD(8) [OF s] by auto
qed

definition upvals_on :: "gcaddr set \<Rightarrow> gcglobal \<Rightarrow> bool" where
  "upvals_on S g \<longleftrightarrow> (\<forall>u\<in>S. is_open g u \<and> \<not> is_white g u \<longrightarrow> (\<forall>r\<in>refs g u. \<not> is_white g r))"

lemma upvals_on_steps:
  assumes "upvals_on S g" "steps A g g'" shows "upvals_on S g'"
proof -
  note d = stepsD [OF assms(2)]
  have "\<not> is_white g' r" if "u \<in> S" "is_open g u" "\<not> is_white g' u" "r \<in> refs g' u" for u r
  proof (cases "is_white g u")
    case True
    then show ?thesis using d(5) that by (auto simp: opens_def)
  next
    case False
    then have "\<not> is_white g r" using assms(1) that d(10) [of u] unfolding upvals_on_def by blast
    then show ?thesis by (rule d(8))
  qed
  then show ?thesis unfolding upvals_on_def d(15) by blast
qed

lemma upvals_marked_on: "upvals_marked g = upvals_on UNIV g"
  by (simp add: upvals_marked_def upvals_on_def)

lemma goes_steps:
  assumes l: "alike g g1" and s: "steps A g1 v" and l': "alike v g'" and A: "\<And>t. t \<in> A \<Longrightarrow> t \<notin> set (g_weak g)"
    and w: "\<And>t. t \<in> set (g_weak g') \<Longrightarrow> t \<in> set (g_weak g) \<or> weak_done v t"
    and ag: "\<And>t. t \<in> set (g_grayagain g') \<Longrightarrow> t \<in> set (g_grayagain g) \<or> (\<forall>r\<in>refs v t. \<not> is_white v r)"
  shows "goes g g'"
proof -
  note 1 = alikeD [OF l] and 2 = stepsD [OF s] and 3 = alikeD [OF l']
  have "upvals_marked g'" if "upvals_marked g"
    using upvals_on_steps [OF _ s] that 1(8) 3(8) by (simp add: upvals_marked_on)
  moreover have "weaks_done g'" if d: "weaks_done g" unfolding weaks_done_def 3(7)
  proof
    fix t assume "t \<in> set (g_weak g')"
    from w [OF this] show "weak_done v t"
    proof
      assume t: "t \<in> set (g_weak g)"
      then have "weak_done g1 t" using d 1(7) by (simp add: weaks_done_def)
      then show ?thesis using weak_done_steps [OF _ s] A t by blast
    qed
  qed
  moreover have "agains_done g'" if d: "agains_done g" unfolding agains_done_def 3(5)
  proof (intro ballI)
    fix t r assume t: "t \<in> set (g_grayagain g')" and r: "r \<in> refs v t"
    from ag [OF t] have "\<not> is_white v r"
    proof
      assume "t \<in> set (g_grayagain g)"
      moreover have "r \<in> refs g t" using r 2(10) [of t] 1(5) by auto
      ultimately have "\<not> is_white g1 r" using d fun_cong [OF 1(2)] by (auto simp: agains_done_def)
      then show ?thesis by (rule 2(8))
    qed (use r in blast)
    then show "\<not> is_white g' r" using fun_cong [OF 3(2)] by blast
  qed
  moreover have "same_lists g g'" using 1(3) 2(2) 3(3) same_lists_trans by blast
  moreover have "\<not> is_white g' a" if "\<not> is_white g a" for a
    using 2(8) [of a] that fun_cong [OF 1(2)] fun_cong [OF 3(2)] by blast
  moreover have "is_userdata u g' = is_userdata u g" for u
    using shrinksD(10) [OF 2(1), of u] 1(1) 3(1) by (simp add: is_userdata_def)
  ultimately show ?thesis using 1(1,4,6) 2(11,14,15) 3(1,4,6) by (simp add: goes_def advances_def same_lists_def)
qed

text \<open>An object leaves the list of gray ones, and one comes into a list.\<close>

lemma take_gray:
  assumes t: "tricolour X g" and g: "g_gray g = a # rest"
  defines "g' \<equiv> (setmark a gray2black g)\<lparr>g_gray := rest\<rparr>"
  shows "tricolour (insert a X) g'" "alike g g'" "whites g' = whites g"
proof -
  note d = tricolourD [OF t]
  have al: "a \<in> set (listed g)" using g by (simp add: listed_def)
  note la = d(9) [OF al]
  have b: "g_body g' = g_body g" "gc_objects g' = gc_objects g" "otherwhite g' = otherwhite g"
    by (simp_all add: g'_def gc_objects_def otherwhite_def setmark_def)
  have m: "g_marked g' x = (if x = a then gray2black (g_marked g a) else g_marked g x)" for x by (simp add: g'_def)
  have w: "is_white g' x = is_white g x" for x by (simp add: m)
  have l: "set (listed g) = insert a (set (listed g'))" "distinct (listed g')" "a \<notin> set (listed g')"
    using d(3) g by (auto simp: listed_def g'_def)
  show "tricolour (insert a X) g'" unfolding tricolour_def body_cong [OF b(1)] b(1,2) w
  proof (intro conjI ballI impI)
    fix x assume x: "x \<in> allocated g" "is_white g x"
    then have "x \<noteq> a" using la by (auto simp: isgray_def)
    then show "\<not> is_black g' x" "\<not> gc_isdead g' x" using d(4,5) [OF x] gc_isdead_cong [of g' x g] b(3) by (simp_all add: m)
  next
    fix x assume x: "x \<in> set (listed g')"
    then have "x \<in> set (listed g)" "x \<noteq> a" using l by auto
    then show "x \<in> allocated g" "traversable g x" "isgray (g_marked g' x)" "x \<notin> insert a X" using d(9) [of x] by (simp_all add: m)
  next
    fix x assume "x \<in> insert a X"
    then show "x \<in> allocated g" "\<not> is_white g x" using d(10) [of x] la by (auto simp: isgray_def)
  next
    fix x r assume "x \<in> allocated g - insert a X" "is_black g' x" "r \<in> refs g x"
    then show "\<not> is_white g r" using d(6) [of x r] by (auto simp: m)
  next
    fix x assume "x \<in> allocated g - insert a X" "isgray (g_marked g' x)"
    then show "x \<in> set (listed g') \<or> is_string g x \<or> is_open g x" using d(7) [of x] l by (auto simp: m)
  next
    fix x assume "x \<in> allocated g - insert a X" "is_thread g x \<or> is_open g x"
    then show "\<not> is_black g' x" using d(8) [of x] by (auto simp: m)
  qed (use d(1,2) l(2) in auto)
  show "alike g g'" unfolding alike_def using w by (simp add: m b(1)) (simp add: g'_def same_lists_def setmark_def)
  show "whites g' = whites g" by (simp add: whites_def w b(1))
qed

lemma requeue:
  assumes t: "tricolour (insert a X) v" and a: "a \<notin> X" "traversable v a" and l: "set (listed g') = insert a (set (listed v))" "distinct (listed g')"
    and e: "alike v g'" "\<And>x. x \<noteq> a \<Longrightarrow> g_marked g' x = g_marked v x" "\<not> is_black g' a"
  shows "tricolour X g'"
proof -
  note d = tricolourD [OF t] and k = alikeD [OF e(1)]
  have b: "gc_objects g' = gc_objects v" "otherwhite g' = otherwhite v"
    using same_lists_objects [OF k(3)] k(4) by (simp_all add: otherwhite_def)
  have w: "is_white g' x = is_white v x" for x using fun_cong [OF k(2)] .
  have aw: "a \<in> allocated v" "\<not> is_white v a" using d(10) [of a] by simp_all
  show ?thesis unfolding tricolour_def body_cong [OF k(1)] k(1) b(1) w
  proof (intro conjI ballI impI)
    fix x assume x: "x \<in> allocated v" "is_white v x"
    then have "x \<noteq> a" using aw by auto
    then show "\<not> is_black g' x" "\<not> gc_isdead g' x" using d(4,5) [OF x] gc_isdead_cong [OF e(2) b(2)] e(2) by simp_all
  next
    fix x assume x: "x \<in> set (listed g')"
    show "x \<in> allocated v" "traversable v x" "isgray (g_marked g' x)" "x \<notin> X"
      using x l d(9) [of x] aw a e(2) [of x] e(3) w [of a] by (cases "x = a"; simp add: isgray_def)+
  next
    fix x assume "x \<in> X"
    then show "x \<in> allocated v" "\<not> is_white v x" using d(10) [of x] by auto
  next
    fix x r assume "x \<in> allocated v - X" "is_black g' x" "r \<in> refs v x"
    then show "\<not> is_white v r" using d(6) [of x r] e(2) [of x] e(3) by (cases "x = a") auto
  next
    fix x assume "x \<in> allocated v - X" "isgray (g_marked g' x)"
    then show "x \<in> set (listed g') \<or> is_string v x \<or> is_open v x" using d(7) [of x] l e(2) [of x] by (cases "x = a") auto
  next
    fix x assume "x \<in> allocated v - X" "is_thread v x \<or> is_open v x"
    then show "\<not> is_black g' x" using d(8) [of x] e(2) [of x] e(3) by (cases "x = a") auto
  qed (use d(1,2) l(2) in auto)
qed

lemma alike_refl [simp]: "alike g g"
  by (simp add: alike_def)

lemma steps_goes_black:
  assumes t: "tricolour {} g" "g_gray g = a # rest"
    and v: "tricolour {a} v" "steps A ((setmark a gray2black g)\<lparr>g_gray := rest\<rparr>) v" "A \<subseteq> {a}"
    and r: "\<forall>r\<in>refs v a. \<not> is_white v r" "\<not> is_thread v a"
  shows "tricolour {} v \<and> goes g v"
proof -
  let ?g = "(setmark a gray2black g)\<lparr>g_gray := rest\<rparr>"
  note tk = take_gray [OF t]
  have al: "a \<in> set (listed g)" using t(2) by (simp add: listed_def)
  have "a \<notin> set (g_weak g)" using tricolourD(3) [OF t(1)] t(2) by (auto simp: listed_def)
  moreover have "g_weak v = g_weak g" "g_grayagain v = g_grayagain g" using stepsD(12,13) [OF v(2)] by simp_all
  ultimately have g: "goes g v" using v(3) by (intro goes_steps [OF tk(2) v(2) alike_refl]) auto
  have "\<not> is_white ?g a" "is_black ?g a" using tricolourD(9) [OF t(1) al] by (simp_all add: isgray_def)
  then have "is_black v a" using stepsD(9) [OF v(2)] by blast
  moreover have "\<not> is_open v a"
  proof -
    have "is_open v = is_open g" using stepsD(15) [OF v(2)] alikeD(6) [OF tk(2)] by simp
    moreover have "traversable g a" using tricolourD(9) [OF t(1) al] by simp
    ultimately show ?thesis by (auto simp: is_open_def traversable_def)
  qed
  ultimately show ?thesis using tricolour_end [OF v(1)] r g by auto
qed

lemma marks_goes_black:
  assumes t: "tricolour {} g" "g_gray g = a # rest"
    and v: "marks_ok {a} ((setmark a gray2black g)\<lparr>g_gray := rest\<rparr>) v \<and>
      (\<forall>r\<in>refs ((setmark a gray2black g)\<lparr>g_gray := rest\<rparr>) a. \<not> is_white v r)"
    and th: "\<not> is_thread g a"
  shows "tricolour {} v \<and> goes g v \<and> whites v + length (g_gray v) < whites g + length (g_gray g)"
proof -
  let ?g = "(setmark a gray2black g)\<lparr>g_gray := rest\<rparr>"
  have s: "steps {} ?g v" and tv: "tricolour {a} v" using steps_marks marks_okD(1) v by blast+
  have b: "g_body v = g_body g" using marks_okD(4) [OF conjunct1 [OF v]] by simp
  have r: "refs v = refs ?g" using marks_okD(5) [OF conjunct1 [OF v]] .
  have "tricolour {} v \<and> goes g v"
    by (rule steps_goes_black [OF t tv s]) (use v r th in \<open>auto simp: body_cong(6) [OF b]\<close>)
  then show ?thesis using stepsD(4) [OF s] take_gray(3) [OF t] t(2) by (simp add: measure_le_def)
qed

lemma propagatemark_ok:
  assumes t: "tricolour {} g" and ne: "g_gray g \<noteq> []"
  shows "tricolour {} (snd (propagatemark g)) \<and> goes g (snd (propagatemark g)) \<and>
    whites (snd (propagatemark g)) + length (g_gray (snd (propagatemark g))) < whites g + length (g_gray g)"
proof -
  obtain a rest where g: "g_gray g = a # rest" using ne by (cases "g_gray g") auto
  define g1 where "g1 = (setmark a gray2black g)\<lparr>g_gray := rest\<rparr>"
  note tk = take_gray [OF t g, folded g1_def]
  have al: "a \<in> set (listed g)" using g by (simp add: listed_def)
  note la = tricolourD(9) [OF t al]
  have b1: "g_body g1 = g_body g" by (simp add: g1_def)
  obtain x where x: "g_body g a = Some x" using la by auto
  note black = marks_goes_black [OF t g, folded g1_def]
  show ?thesis
  proof (cases x)
    case (GTable h)
    have h: "g_body g1 a = Some (GTable h)" by (simp add: b1 x GTable)
    from traversetable_ok [OF tk(1) h] obtain w v where
      v: "traversetable a g1 = (w, if w then v\<lparr>g_weak := a # g_weak v\<rparr> else v)" "tricolour {a} v" "steps {a} g1 v"
        "\<not> w \<Longrightarrow> \<forall>r\<in>refs g1 a. \<not> is_white v r" "w \<Longrightarrow> weak_done v a" by blast
    have th: "\<not> is_thread v a" "traversable v a" using keeps_tablesD [OF stepsD(3) [OF v(3)] h] by (auto simp: is_thread_def traversable_def)
    show ?thesis
    proof (cases w)
      case False
      then have e: "snd (propagatemark g) = v" by (simp add: propagatemark_def g g1_def [symmetric] b1 x GTable v(1))
      have "tricolour {} v \<and> goes g v"
        by (rule steps_goes_black [OF t g v(2), folded g1_def, OF v(3)]) (use v(4) False stepsD(10) [OF v(3)] th in auto)
      then show ?thesis using stepsD(4) [OF v(3)] tk(3) g unfolding e by (simp add: measure_le_def g1_def)
    next
      case True
      define g' where "g' = setmark a black2gray (v\<lparr>g_weak := a # g_weak v\<rparr>)"
      have e: "snd (propagatemark g) = g'" using True by (simp add: propagatemark_def g g1_def [symmetric] b1 x GTable v(1) g'_def)
      have lv: "set (listed g') = insert a (set (listed v))" "distinct (listed g')"
        using tricolourD(3) [OF v(2)] tricolourD(9) [OF v(2), of a] by (auto simp: g'_def listed_def)
      have k: "alike v g'" by (simp add: alike_def g'_def same_lists_def setmark_def)
      have "tricolour {} g'"
        by (rule requeue [OF v(2) _ th(2) lv k]) (simp_all add: g'_def)
      moreover have "goes g g'"
      proof (rule goes_steps [OF tk(2) v(3) k])
        show "t \<notin> set (g_weak g)" if "t \<in> {a}" for t using that tricolourD(3) [OF t] g by (auto simp: listed_def)
        show "t \<in> set (g_weak g) \<or> weak_done v t" if "t \<in> set (g_weak g')" for t
          using that v(5) [OF True] stepsD(12) [OF v(3)] by (auto simp: g'_def g1_def)
        show "t \<in> set (g_grayagain g) \<or> (\<forall>r\<in>refs v t. \<not> is_white v r)" if "t \<in> set (g_grayagain g')" for t
          using that stepsD(13) [OF v(3)] by (auto simp: g'_def g1_def)
      qed
      moreover have "whites g' = whites v" "g_gray g' = g_gray v" using fun_cong [OF alikeD(2) [OF k]] alikeD(1) [OF k] by (simp_all add: whites_def g'_def)
      ultimately show ?thesis using stepsD(4) [OF v(3)] tk(3) g unfolding e by (simp add: measure_le_def g1_def)
    qed
  next
    case (GCClosure env ups)
    have e: "snd (propagatemark g) = traverse_cclosure env ups g1" by (simp add: propagatemark_def g g1_def [symmetric] b1 x GCClosure)
    show ?thesis unfolding e by (rule black [OF traverse_cclosure_ok [OF tk(1)]]) (simp_all add: b1 x GCClosure is_thread_def)
  next
    case (GLClosure env p ups)
    have e: "snd (propagatemark g) = traverse_lclosure env p ups g1" by (simp add: propagatemark_def g g1_def [symmetric] b1 x GLClosure)
    show ?thesis unfolding e by (rule black [OF traverse_lclosure_ok [OF tk(1)]]) (simp_all add: b1 x GLClosure is_thread_def)
  next
    case (GProto f)
    have e: "snd (propagatemark g) = traverseproto f g1" by (simp add: propagatemark_def g g1_def [symmetric] b1 x GProto)
    show ?thesis unfolding e by (rule black [OF traverseproto_ok [OF tk(1)]]) (simp_all add: b1 x GProto is_thread_def)
  next
    case (GThread th)
    define g2 where "g2 = setmark a black2gray (g1\<lparr>g_grayagain := a # g_grayagain g\<rparr>)"
    have ga: "g_grayagain g1 = g_grayagain g" by (simp add: g1_def)
    have b2: "g_body g2 a = Some (GThread th)" by (simp add: g2_def b1 x GThread)
    have e: "snd (propagatemark g) = traversestack a g2"
      by (simp add: propagatemark_def g g1_def [symmetric] b1 x GThread Let_def g2_def [symmetric] split: option.split gcbody.split)
    have lv: "set (listed g2) = insert a (set (listed g1))" "distinct (listed g2)"
      using tricolourD(3) [OF tk(1)] tricolourD(9) [OF tk(1), of a] by (auto simp: g2_def listed_def ga)
    have k: "alike g1 g2" by (simp add: alike_def g2_def same_lists_def setmark_def)
    have t2: "tricolour {} g2"
      by (rule requeue [OF tk(1) _ _ lv k]) (simp_all add: g2_def traversable_def b1 x GThread)
    from traversestack_ok [OF t2 b2] have ts: "tricolour {} (traversestack a g2)" "steps {} g2 (traversestack a g2)"
      "\<forall>r\<in>refs g2 a. \<not> is_white (traversestack a g2) r" by blast+
    have k2: "alike g g2" using tk(2) k same_lists_trans by (auto simp: alike_def)
    have "goes g (traversestack a g2)"
    proof (rule goes_steps [OF k2 ts(2) alike_refl])
      show "t \<in> set (g_weak g) \<or> weak_done (traversestack a g2) t" if "t \<in> set (g_weak (traversestack a g2))" for t
        using that stepsD(12) [OF ts(2)] by (simp add: g2_def g1_def)
      show "t \<in> set (g_grayagain g) \<or> (\<forall>r\<in>refs (traversestack a g2) t. \<not> is_white (traversestack a g2) r)"
        if "t \<in> set (g_grayagain (traversestack a g2))" for t
        using that ts(3) stepsD(10,13) [OF ts(2)] by (auto simp: g2_def g1_def)
    qed simp
    moreover have "whites g2 = whites g" "g_gray g2 = rest"
      using fun_cong [OF alikeD(2) [OF k2]] alikeD(1) [OF k2] by (simp_all add: whites_def g2_def g1_def)
    ultimately show ?thesis using stepsD(4) [OF ts(2)] ts(1) g unfolding e by (simp add: measure_le_def)
  qed (use la in \<open>simp_all add: traversable_def x\<close>)
qed

lemma propagate_n_ok:
  assumes "tricolour {} g" "whites g + length (g_gray g) \<le> n"
  shows "tricolour {} (snd (propagate_n n g)) \<and> goes g (snd (propagate_n n g)) \<and> g_gray (snd (propagate_n n g)) = []"
  using assms
proof (induction n arbitrary: g)
  case (Suc n)
  show ?case
  proof (cases "g_gray g = []")
    case False
    obtain m g1 where e: "propagatemark g = (m, g1)" by fastforce
    have 1: "tricolour {} g1" "goes g g1" "whites g1 + length (g_gray g1) \<le> n"
      using propagatemark_ok [OF Suc.prems(1) False] Suc.prems(2) unfolding e by simp_all
    have "snd (propagate_n (Suc n) g) = snd (propagate_n n g1)" using False by (simp add: e split: prod.split)
    then show ?thesis using Suc.IH [OF 1(1,3)] goes_trans [OF 1(2)] by simp
  qed (use Suc.prems in simp)
qed simp

lemma propagateall_ok:
  assumes t: "tricolour {} g"
  shows "tricolour {} (snd (propagateall g))" "goes g (snd (propagateall g))" "g_gray (snd (propagateall g)) = []"
proof -
  have "whites g \<le> card (allocated g)" unfolding whites_def by (rule card_mono [OF tricolour_finite [OF t]]) auto
  also have "\<dots> \<le> length (gc_objects g)" using tricolourD(2) [OF t] card_length by metis
  finally have "whites g + length (g_gray g) \<le> length (g_gray g) + length (gc_objects g)" by simp
  from propagate_n_ok [OF t this] show "tricolour {} (snd (propagateall g))" "goes g (snd (propagateall g))" "g_gray (snd (propagateall g)) = []"
    by (simp_all add: propagateall_def)
qed

subsection \<open>The keys of black tables\<close>

text \<open>A black table has no unmarked key, in free nodes neither: an assignment to such a key is safe.\<close>

definition keys_on :: "gcaddr set \<Rightarrow> gcglobal \<Rightarrow> bool" where
  "keys_on S g \<longleftrightarrow> (\<forall>a\<in>S. is_black g a \<longrightarrow> keys_marked g a)"

lemma keys_on_steps:
  assumes k: "keys_on S g" and s: "steps A g g'" shows "keys_on S g'"
  unfolding keys_on_def
proof (intro ballI impI)
  fix a assume a: "a \<in> S" "is_black g' a"
  note d = stepsD [OF s]
  have "r \<in> allocated g' \<and> \<not> is_white g' r" if h': "g_body g' a = Some (GTable h')" and i: "i < length (h_nodes h')" "r \<in> val_refs (fst (h_nodes h' ! i))" for h' i r
  proof -
    have "is_table g' a" using h' by (simp add: is_table_def)
    then have "is_table g a" by (simp add: shrinksD(4) [OF d(1)])
    then obtain h where h: "g_body g a = Some (GTable h)" by (auto simp: is_table_def)
    obtain h2 where "g_body g' a = Some (GTable h2)" "table_like h h2" using keeps_tablesD [OF d(3) h] by blast
    then have l: "table_like h h'" using h' by simp
    have "is_black g a" using d(6) a(2) h by (auto simp: darkens_def traversable_def)
    then have "keys_marked g a" using k a(1) by (simp add: keys_on_def)
    moreover have "i < length (h_nodes h)" using i(1) l by (simp add: table_like_def nodes_like_def)
    moreover from this have "r \<in> val_refs (fst (h_nodes h ! i))" using i(2) l by (auto simp: table_like_def nodes_like_def)
    ultimately have "r \<in> allocated g \<and> \<not> is_white g r" using h by (simp add: keys_marked_def)
    then show ?thesis using d(8) unfolding d(11) by blast
  qed
  then show "keys_marked g' a" by (simp add: keys_marked_def)
qed

lemma keys_marked_alike:
  assumes "alike g g'" shows "keys_marked g' a = keys_marked g a"
proof -
  have "is_white g' x = is_white g x" for x using fun_cong [OF alikeD(2) [OF assms]] .
  then show ?thesis by (simp add: keys_marked_def alikeD(1) [OF assms])
qed

lemma propagatemark_keys:
  assumes t: "tricolour {} g" and ne: "g_gray g \<noteq> []" and k: "keys_on UNIV g"
  shows "keys_on UNIV (snd (propagatemark g))"
proof -
  obtain a rest where g: "g_gray g = a # rest" using ne by (cases "g_gray g") auto
  define g1 where "g1 = (setmark a gray2black g)\<lparr>g_gray := rest\<rparr>"
  note tk = take_gray [OF t g, folded g1_def]
  have al: "a \<in> set (listed g)" using g by (simp add: listed_def)
  note la = tricolourD(9) [OF t al]
  have b1: "g_body g1 = g_body g" by (simp add: g1_def)
  obtain x where x: "g_body g a = Some x" using la by auto
  have k1: "keys_on (- {a}) g1" using k unfolding keys_on_def keys_marked_alike [OF tk(2)] by (auto simp: g1_def)
  have whole: "keys_on UNIV v" if "keys_on (- {a}) v" "is_black v a \<Longrightarrow> keys_marked v a" for v using that by (auto simp: keys_on_def)
  have marks: "keys_on UNIV v" if "marks_ok {a} g1 v \<and> P" "\<not> is_table g a" for v P
  proof (rule whole)
    have "marks_ok {a} g1 v" using that(1) by blast
    then show "keys_on (- {a}) v" by (rule keys_on_steps [OF k1 steps_marks])
    have "g_body v a = g_body g a" using marks_okD(4) [OF \<open>marks_ok {a} g1 v\<close>] b1 by simp
    then show "keys_marked v a" using that(2) by (auto simp: keys_marked_def is_table_def)
  qed
  show ?thesis
  proof (cases x)
    case (GTable h)
    have h: "g_body g1 a = Some (GTable h)" by (simp add: b1 x GTable)
    from traversetable_ok [OF tk(1) h] obtain w v where
      v: "traversetable a g1 = (w, if w then v\<lparr>g_weak := a # g_weak v\<rparr> else v)" "steps {a} g1 v" "\<not> w \<Longrightarrow> keys_marked v a" by blast
    have kv: "keys_on (- {a}) v" by (rule keys_on_steps [OF k1 v(2)])
    show ?thesis
    proof (cases w)
      case False
      then have e: "snd (propagatemark g) = v" by (simp add: propagatemark_def g g1_def [symmetric] b1 x GTable v(1))
      show ?thesis unfolding e by (rule whole [OF kv]) (rule v(3) [OF False])
    next
      case True
      define g' where "g' = setmark a black2gray (v\<lparr>g_weak := a # g_weak v\<rparr>)"
      have e: "snd (propagatemark g) = g'" using True by (simp add: propagatemark_def g g1_def [symmetric] b1 x GTable v(1) g'_def)
      have "alike v g'" by (simp add: alike_def g'_def same_lists_def setmark_def)
      then have "keys_on (- {a}) g'" using kv unfolding keys_on_def by (simp add: keys_marked_alike) (simp add: g'_def)
      then show ?thesis unfolding e by (rule whole) (simp add: g'_def)
    qed
  next
    case (GCClosure env ups)
    have e: "snd (propagatemark g) = traverse_cclosure env ups g1" by (simp add: propagatemark_def g g1_def [symmetric] b1 x GCClosure)
    show ?thesis unfolding e by (rule marks [OF traverse_cclosure_ok [OF tk(1), of a]]) (simp_all add: b1 x GCClosure is_table_def)
  next
    case (GLClosure env p ups)
    have e: "snd (propagatemark g) = traverse_lclosure env p ups g1" by (simp add: propagatemark_def g g1_def [symmetric] b1 x GLClosure)
    show ?thesis unfolding e by (rule marks [OF traverse_lclosure_ok [OF tk(1), of a]]) (simp_all add: b1 x GLClosure is_table_def)
  next
    case (GProto f)
    have e: "snd (propagatemark g) = traverseproto f g1" by (simp add: propagatemark_def g g1_def [symmetric] b1 x GProto)
    show ?thesis unfolding e by (rule marks [OF traverseproto_ok [OF tk(1), of a]]) (simp_all add: b1 x GProto is_table_def)
  next
    case (GThread th)
    define g2 where "g2 = setmark a black2gray (g1\<lparr>g_grayagain := a # g_grayagain g\<rparr>)"
    have ga: "g_grayagain g1 = g_grayagain g" by (simp add: g1_def)
    have b2: "g_body g2 a = Some (GThread th)" by (simp add: g2_def b1 x GThread)
    have e: "snd (propagatemark g) = traversestack a g2"
      by (simp add: propagatemark_def g g1_def [symmetric] b1 x GThread Let_def g2_def [symmetric] split: option.split gcbody.split)
    have lv: "set (listed g2) = insert a (set (listed g1))" "distinct (listed g2)"
      using tricolourD(3) [OF tk(1)] tricolourD(9) [OF tk(1), of a] by (auto simp: g2_def listed_def ga)
    have kk: "alike g1 g2" by (simp add: alike_def g2_def same_lists_def setmark_def)
    have t2: "tricolour {} g2"
      by (rule requeue [OF tk(1) _ _ lv kk]) (simp_all add: g2_def traversable_def b1 x GThread)
    have k2: "keys_on (- {a}) g2" using k1 unfolding keys_on_def by (simp add: keys_marked_alike [OF kk]) (simp add: g2_def)
    have "keys_on UNIV g2" by (rule whole [OF k2]) (simp add: keys_marked_def b2)
    moreover have "steps {} g2 (traversestack a g2)" using traversestack_ok [OF t2 b2] by blast
    ultimately show ?thesis unfolding e by (rule keys_on_steps)
  qed (use la in \<open>simp_all add: traversable_def x\<close>)
qed

end
