(* ===== verification/LuaGcAtomic.thy ===== *)
theory LuaGcAtomic
  imports LuaGcSafe
begin

section \<open>The atomic step\<close>

text \<open>
  The end of the mark phase, from the open upvalues to the weak tables: afterwards whatever a marked object refers to
  is marked, and so is everything that the program can reach.
\<close>

subsection \<open>Marking more roots\<close>

lemma goes_marks: "marks_ok X g g' \<Longrightarrow> goes g g'"
proof -
  assume m: "marks_ok X g g'"
  note e = marks_on_body [OF marks_okD(2) [OF m]]
  show "goes g g'" by (rule goes_steps [where A = "{}", OF alike_refl steps_marks [OF m] alike_refl]) (use e in auto)
qed

lemma goesD:
  assumes "goes g g'"
  shows "same_lists g g'" "advances g g'" "allocated g' = allocated g" "\<not> is_white g a \<Longrightarrow> \<not> is_white g' a" "is_open g' = is_open g"
    "g_currentwhite g' = g_currentwhite g" "upvals_marked g \<Longrightarrow> upvals_marked g'" "weaks_done g \<Longrightarrow> weaks_done g'"
    "agains_done g \<Longrightarrow> agains_done g'"
  using assms by (simp_all add: goes_def advances_def)

lemma advancesD:
  assumes "advances g g'"
  shows "g_mainthread g' = g_mainthread g" "g_registry g' = g_registry g" "g_mt g' = g_mt g" "allocated g' = allocated g"
    "\<not> is_white g a \<Longrightarrow> \<not> is_white g' a" "upvals_marked g \<Longrightarrow> upvals_marked g'" "weaks_done g \<Longrightarrow> weaks_done g'"
    "agains_done g \<Longrightarrow> agains_done g'" "is_userdata a g' = is_userdata a g"
    "g_currentwhite g' = g_currentwhite g"
  using assms by (simp_all add: advances_def)

lemma tricolour_cong:
  assumes t: "tricolour X g" and b: "g_body g' = g_body g"
    and m: "\<And>x. is_white g' x = is_white g x" "\<And>x. is_black g' x = is_black g x" "\<And>x. gc_isdead g' x = gc_isdead g x"
    and l: "set (listed g') = set (listed g)" "distinct (listed g')" "set (gc_objects g') = set (gc_objects g)"
  shows "tricolour X g'"
proof -
  note d = tricolourD [OF t]
  have gr: "isgray (g_marked g' x) = isgray (g_marked g x)" for x by (simp add: isgray_def m)
  show ?thesis unfolding tricolour_def body_cong [OF b] b m gr l
    by (intro conjI ballI impI) (use d l(2) in auto)
qed

lemma advances_cong:
  assumes b: "g_body g' = g_body g" and m: "g_marked g' = g_marked g" "g_weak g' = g_weak g" "g_grayagain g' = g_grayagain g"
    "g_currentwhite g' = g_currentwhite g" "g_mainthread g' = g_mainthread g" "g_registry g' = g_registry g" "g_mt g' = g_mt g"
  shows "advances g g'"
  unfolding advances_def upvals_marked_def weaks_done_def agains_done_def weak_done_def body_cong [OF b] b m by (simp add: is_userdata_def b)

lemma uv_refs_allocated:
  assumes "tricolour X g" "g_body g u = Some (GUpval p)"
  shows "val_refs (uv_value g p) \<subseteq> allocated g" "val_refs (uv_value g p) = refs g u"
  using tricolourD(11) [OF assms(1), of u] by (simp_all add: refs_def assms(2))

lemma remark_upval_ok:
  assumes t: "tricolour {} g"
  shows "marks_ok {} g (remark_upval u g)" "is_open g u \<Longrightarrow> \<not> is_white g u \<Longrightarrow> r \<in> refs g u \<Longrightarrow> \<not> is_white (remark_upval u g) r"
proof -
  show "marks_ok {} g (remark_upval u g)"
  proof (cases "isgray (g_marked g u) \<and> (\<exists>p. g_body g u = Some (GUpval p))")
    case True
    then obtain p where p: "isgray (g_marked g u)" "g_body g u = Some (GUpval p)" by blast
    then show ?thesis using markvalue_ok [OF t uv_refs_allocated(1) [OF t p(2)]] by (simp add: remark_upval_def)
  next
    case False
    then have "remark_upval u g = g" by (auto simp: remark_upval_def split: option.split gcbody.split)
    then show ?thesis by (simp add: marks_ok_refl t)
  qed
  assume u: "is_open g u" "\<not> is_white g u" and r: "r \<in> refs g u"
  then obtain th i where b: "g_body g u = Some (GUpval (UOpen th i))" by (auto simp: is_open_def)
  have "\<not> is_black g u" using tricolourD(8) [OF t, of u] b u(1) by auto
  then have "remark_upval u g = markvalue (uv_value g (UOpen th i)) g" using u(2) by (simp add: remark_upval_def isgray_def b)
  moreover have "r \<in> val_refs (uv_value g (UOpen th i))" using r by (simp add: refs_def b)
  ultimately show "\<not> is_white (remark_upval u g) r" using markvalue_ok [OF t uv_refs_allocated(1) [OF t b]] by auto
qed

lemma fold_remark_ok:
  assumes "tricolour {} g" "upvals_on S g"
  shows "marks_ok {} g (fold remark_upval us g) \<and> upvals_on (S \<union> set us) (fold remark_upval us g)"
  using assms
proof (induction us arbitrary: g S)
  case (Cons u us)
  define g1 where "g1 = remark_upval u g"
  note 1 = remark_upval_ok [OF Cons.prems(1), of u, folded g1_def]
  have s: "steps {} g g1" by (rule steps_marks [OF 1(1)])
  have o: "is_open g1 = is_open g" "refs g1 = refs g" using stepsD(15) [OF s] marks_okD(5) [OF 1(1)] by auto
  have "upvals_on S g1" by (rule upvals_on_steps [OF Cons.prems(2) s])
  moreover have "upvals_on {u} g1"
  proof -
    have "\<not> is_white g1 r" if u: "is_open g u" "\<not> is_white g1 u" "r \<in> refs g u" for r
    proof (cases "is_white g u")
      case True
      then show ?thesis using marks_okD(6) [OF 1(1)] u by (auto simp: opens_def o)
    next
      case False
      then show ?thesis using 1(2) u by blast
    qed
    then show ?thesis unfolding upvals_on_def o by blast
  qed
  ultimately have "upvals_on (insert u S) g1" unfolding upvals_on_def by blast
  from Cons.IH [OF marks_okD(1) [OF 1(1)] this] show ?case
    using marks_ok_trans [OF 1(1)] by (simp add: g1_def [symmetric] insert_commute Un_commute)
qed (simp add: marks_ok_refl)

lemma remarkupvals_ok:
  assumes "tricolour {} g" "\<And>u. is_open g u \<Longrightarrow> u \<in> set (g_uvhead g)"
  shows "marks_ok {} g (remarkupvals g)" "upvals_marked (remarkupvals g)"
proof -
  have f: "marks_ok {} g (remarkupvals g) \<and> upvals_on (set (g_uvhead g)) (remarkupvals g)"
    using fold_remark_ok [OF assms(1), of "{}" "g_uvhead g"] by (simp add: remarkupvals_def upvals_on_def)
  then show "marks_ok {} g (remarkupvals g)" by blast
  have o: "is_open (remarkupvals g) = is_open g" by (rule stepsD(15) [OF steps_marks]) (use f in blast)
  show "upvals_marked (remarkupvals g)" unfolding upvals_marked_def o
  proof (intro allI impI)
    fix u assume u: "is_open g u \<and> \<not> is_white (remarkupvals g) u"
    then have "u \<in> set (g_uvhead g)" by (intro assms(2)) simp
    then show "\<forall>r\<in>refs (remarkupvals g) u. \<not> is_white (remarkupvals g) r" using u f unfolding upvals_on_def o by blast
  qed
qed

lemma markmt_ok:
  assumes "tricolour X g" "opts_refs (g_mt g) \<subseteq> allocated g"
  shows "marks_ok X g (markmt g) \<and> (\<forall>r\<in>opts_refs (g_mt g). \<not> is_white (markmt g) r)"
  unfolding markmt_def by (rule fold_markobject_opt_ok [OF assms])

text \<open>A userdata whose finalizer will be called becomes white and is then marked, whatever its colour was.\<close>

lemma marktmu_one:
  assumes t: "tricolour X g" and u: "is_userdata u g" "u \<notin> X"
  shows "marks_ok X g (reallymarkobject u (makewhite u g)) \<and> (\<forall>r\<in>{u}. \<not> is_white (reallymarkobject u (makewhite u g)) r)"
proof -
  let ?f = "gray2black \<circ> white2gray \<circ> (\<lambda>m. m AND maskmarks OR gc_white g)"
  obtain mtab env len where b: "g_body g u = Some (GUdata mtab env len)"
    using u by (auto simp: is_userdata_def split: option.splits gcbody.splits)
  have al: "u \<in> allocated g" using b by auto
  have nl: "u \<notin> set (listed g)" using tricolourD(9) [OF t, of u] b by (auto simp: traversable_def)
  have f: "\<not> iswhite (?f m)" "isblack (?f m)" for m by simp_all
  have bw: "is_white g u \<or> is_black g u"
    using tricolourD(7) [OF t al u(2)] nl b by (auto simp: isgray_def is_string_def is_open_def)
  have bits: "bit (?f m) n = bit m n" if "n = 3 \<or> n = 4" for m n
    using that by (auto simp: colour_defs bit_and_iff bit_or_iff bit_not_iff gc_white_def)
  have kw: "keeps_weak ?f" unfolding keeps_weak_def KEYWEAKBIT_def VALUEWEAKBIT_def using bits by blast
  have m2: "marks_on g (setmark u ?f g)"
  proof (cases "is_white g u")
    case True
    show ?thesis by (rule marks_on_setmark [OF tricolour_finite [OF t] al True f(1) kw]) (simp add: traversable_def b)
  next
    case False
    then have "whites (setmark u ?f g) = whites g" by (intro whites_same) simp
    then show ?thesis unfolding marks_on_def using False bw kw
      by (intro conjI allI impI setmark_on_self) (auto simp: keeps_weak_def traversable_def b split: if_splits)
  qed
  have b': "g_body (makewhite u g) u = Some (GUdata mtab env len)" by (simp add: makewhite_def b)
  have g2: "setmark u gray2black (setmark u white2gray (makewhite u g)) = setmark u ?f g"
    by (simp add: makewhite_def setmark_setmark comp_assoc)
  have e: "reallymarkobject u (makewhite u g) =
    mark_if 2 env (case mtab of Some t \<Rightarrow> mark_if 2 t (setmark u ?f g) | None \<Rightarrow> setmark u ?f g)"
    unfolding reallymarkobject_def eval_nat_numeral(3) mark_depth_Suc b' option.case gcbody.case g2 by simp
  have n: "mark_rank g u \<le> Suc 2" by (simp add: mark_rank_def b)
  show ?thesis using mark_udata [OF marks_depth_all t b u(2) n m2 f refl e] by simp
qed

lemma marktmu_ok:
  assumes t: "tricolour {} g" and u: "\<And>u. u \<in> set (g_tmudata g) \<Longrightarrow> is_userdata u g"
  shows "marks_ok {} g (marktmu g) \<and> (\<forall>u\<in>set (g_tmudata g). \<not> is_white (marktmu g) u)"
proof -
  let ?f = "\<lambda>u g. reallymarkobject u (makewhite u g)"
  have "marks_ok {} g (fold ?f (g_tmudata g) g) \<and> (\<forall>x\<in>set (g_tmudata g). \<forall>r\<in>{x}. \<not> is_white (fold ?f (g_tmudata g) g) r)"
  proof (rule fold_marks_ok [where B = "g_body g"])
    fix g' :: gcglobal and x assume x: "x \<in> set (g_tmudata g)" "tricolour {} g'" "g_body g' = g_body g"
    then have "is_userdata x g'" using u by (simp add: is_userdata_def)
    then show "marks_ok {} g' (?f x g') \<and> (\<forall>r\<in>{x}. \<not> is_white (?f x g') r)" by (intro marktmu_one x(2)) simp_all
  qed (use t in simp_all)
  then show ?thesis by (simp add: marktmu_def)
qed

subsection \<open>Separating userdata\<close>

lemma finalized_alike:
  "alike g (setmark u markfinalized g)" "is_black (setmark u markfinalized g) x = is_black g x"
  "gc_isdead (setmark u markfinalized g) x = gc_isdead g x"
proof -
  have v: "bit (markfinalized m) VALUEWEAKBIT = bit m VALUEWEAKBIT" for m
    by (auto simp: colour_defs bit_or_iff)
  show "alike g (setmark u markfinalized g)" by (simp add: alike_def v same_lists_def setmark_def)
  show "is_black (setmark u markfinalized g) x = is_black g x" by simp
  have "bit (markfinalized m) n = bit m n" if "n = 0 \<or> n = 1" for m :: "8 word" and n
    using that by (auto simp: colour_defs bit_or_iff)
  then have "(markfinalized m AND w AND WHITEBITS \<noteq> 0) = (m AND w AND WHITEBITS \<noteq> 0)" for m w :: "8 word"
    unfolding bit_eq_iff [of _ 0] by (auto simp: bit_and_iff)
  then show "gc_isdead (setmark u markfinalized g) x = gc_isdead g x" by (simp add: gc_isdead_def)
qed

text \<open>What the walk along the list of userdata keeps.\<close>

definition separates :: "gcglobal \<Rightarrow> gcglobal \<Rightarrow> gcaddr list \<Rightarrow> bool" where
  "separates g g' mv \<longleftrightarrow>
     tricolour {} g' \<and> advances g g' \<and> shrinks g g' \<and> g_gray g' = g_gray g \<and> g_rootgc g' = g_rootgc g \<and> g_tmudata g' = g_tmudata g @ mv"

lemma separates_trans: "separates g g1 mv \<Longrightarrow> separates g1 g2 mv' \<Longrightarrow> separates g g2 (mv @ mv')"
  using shrinks_trans advances_trans by (auto simp: separates_def)

lemma separates_step:
  assumes t: "tricolour {} g" and f: "gfasttm mtab GC_TM_GC g = (tm, g1)" and u: "u \<in> set (g_rootgc g)" and mv: "set mv \<subseteq> {u}"
    and g': "g' = (setmark u markfinalized g1)\<lparr>g_tmudata := g_tmudata g1 @ mv\<rparr>"
  shows "separates g g' mv"
proof -
  note o = gfasttm_ok [OF f]
  have t1: "tricolour {} g1" by (rule tricolour_shrinks [OF o(1,2) t])
  define g2 where "g2 = setmark u markfinalized g1"
  have sm: "g_gray g1 = g_gray g" "same_lists g g1" using o(2) by (simp_all add: same_marks_def)
  have a: "goes g g1" by (rule goes_steps [where A = "{}", OF alike_refl steps_shrinks [OF o] alike_refl]) (use o(2) in \<open>auto simp: same_marks_def\<close>)
  have b: "goes g1 g2" unfolding g2_def by (rule goes_steps [where A = "{}", OF alike_refl steps_refl finalized_alike(1)]) auto
  have c: "advances g2 g'" unfolding g' g2_def [symmetric]
    by (rule advances_cong) simp_all
  have "set (gc_objects g') = set (gc_objects g1)"
    using u mv sm(2) by (auto simp: g' gc_objects_def same_lists_def setmark_def)
  then have "tricolour {} g'"
    by (intro tricolour_cong [OF t1])
      (use tricolourD(3) [OF t1] finalized_alike(3) [of u g1] in \<open>simp_all add: g' listed_def gc_isdead_def otherwhite_def setmark_def\<close>)
  moreover have "advances g g'" using a b c advances_trans by (auto simp: goes_def)
  moreover have "shrinks g g'" by (rule shrinks_trans [OF o(1) shrinks_body]) (simp add: g')
  ultimately show ?thesis using sm by (simp add: separates_def g' same_lists_def setmark_def)
qed

lemma separate_loop_ok:
  assumes "tricolour {} g" "set us \<subseteq> set (g_rootgc g)" "separate_loop whole us g = (stay, sz, g')"
  shows "\<exists>mv. separates g g' mv \<and> set us = set stay \<union> set mv \<and> (\<forall>u\<in>set mv. is_userdata u g')"
  using assms
proof (induction us arbitrary: g stay sz)
  case Nil
  then have "separates g g' []" "stay = []" by (simp_all add: separates_def)
  then show ?case by auto
next
  case (Cons u us)
  have u: "u \<in> set (g_rootgc g)" "set us \<subseteq> set (g_rootgc g)" using Cons.prems(2) by simp_all
  have rest: ?case if g1: "separates g g1 mv" "set mv \<subseteq> {u}" "\<forall>x\<in>set mv. is_userdata x g1" and e: "separate_loop whole us g1 = (st, s, g')"
    and st: "set stay = set st \<union> ({u} - set mv)" for g1 mv st s
  proof -
    have "tricolour {} g1" "set us \<subseteq> set (g_rootgc g1)" using g1 u by (simp_all add: separates_def)
    from Cons.IH [OF this e] obtain mv' where
      m: "separates g1 g' mv'" "set us = set st \<union> set mv'" "\<forall>u\<in>set mv'. is_userdata u g'" by blast
    have "is_userdata x g'" if "x \<in> set mv" for x
      using g1(3) that m(1) shrinksD(10) [of g1 g'] by (auto simp: separates_def)
    then show ?thesis using separates_trans [OF g1(1) m(1)] m(2,3) st g1(2) by (intro exI [of _ "mv @ mv'"]) auto
  qed
  have keep: ?case if e: "separate_loop whole (u # us) g = (case separate_loop whole us g of (stay, sz, g) \<Rightarrow> (u # stay, sz, g))"
  proof -
    obtain st s g2 where l: "separate_loop whole us g = (st, s, g2)" by (metis prod_cases3)
    have "g2 = g'" "stay = u # st" using e l Cons.prems(3) by simp_all
    then show ?thesis using Cons.prems(1) l by (intro rest [of g "[]" st s]) (simp_all add: separates_def)
  qed
  show ?case
  proof (cases "\<exists>mtab env len. g_body g u = Some (GUdata mtab env len)")
    case False
    then show ?thesis by (intro keep) (auto split: option.split gcbody.split)
  next
    case True
    then obtain mtab env len where b: "g_body g u = Some (GUdata mtab env len)" by blast
    show ?thesis
    proof (cases "\<not> (is_white g u \<or> whole) \<or> isfinalized (g_marked g u)")
      case True
      then show ?thesis by (intro keep) (simp add: b)
    next
      case False
      obtain tm g1 where f: "gfasttm mtab GC_TM_GC g = (tm, g1)" by fastforce
      have ud: "is_userdata u g1" using shrinksD(10) [OF gfasttm_ok(1) [OF f], of u] b by (simp add: is_userdata_def)
      note step = separates_step [OF Cons.prems(1) f u(1)]
      show ?thesis
      proof (cases "tm = GNil")
        case True
        let ?g = "setmark u markfinalized g1"
        obtain st s g2 where l: "separate_loop whole us ?g = (st, s, g2)" by (metis prod_cases3)
        have "g2 = g'" "stay = u # st" using b f False True l Cons.prems(3) by simp_all
        moreover have "separates g ?g []" by (rule step) simp_all
        ultimately show ?thesis using l by (intro rest [of ?g "[]" st s]) simp_all
      next
        case tm: False
        let ?g = "(setmark u markfinalized g1)\<lparr>g_tmudata := g_tmudata g1 @ [u]\<rparr>"
        obtain st s g2 where l: "separate_loop whole us ?g = (st, s, g2)" by (metis prod_cases3)
        have "g2 = g'" "stay = st" using b f False tm l Cons.prems(3) by simp_all
        moreover have "separates g ?g [u]" by (rule step) simp_all
        moreover have "is_userdata u ?g" using ud by (simp add: is_userdata_def)
        ultimately show ?thesis using l by (intro rest [of ?g "[u]" st s]) simp_all
      qed
    qed
  qed
qed

lemma rootgc_split:
  assumes "g_mainthread g \<in> set (g_rootgc g)"
  shows "set (g_rootgc g) = set (before_udata g) \<union> set (udata_list g)"
proof -
  let ?P = "\<lambda>a. a \<noteq> g_mainthread g"
  have "dropWhile ?P (g_rootgc g) = g_mainthread g # udata_list g"
  proof -
    have "dropWhile ?P (g_rootgc g) \<noteq> []" using assms by (auto simp: dropWhile_eq_Nil_conv)
    moreover from this have "hd (dropWhile ?P (g_rootgc g)) = g_mainthread g" using hd_dropWhile [of ?P "g_rootgc g"] by blast
    ultimately show ?thesis unfolding udata_list_def by (metis drop0 drop_Suc list.collapse One_nat_def)
  qed
  then have "g_rootgc g = before_udata g @ udata_list g" using takeWhile_dropWhile_id [of ?P "g_rootgc g"] by (simp add: before_udata_def)
  then show ?thesis by (metis set_append)
qed

lemma separateudata_ok:
  assumes t: "tricolour {} g" and m: "g_mainthread g \<in> set (g_rootgc g)" and e: "luaC_separateudata whole g = (n, g')"
    and u: "\<And>u. u \<in> set (g_tmudata g) \<Longrightarrow> is_userdata u g"
  shows "tricolour {} g'" "advances g g'" "g_gray g' = g_gray g" "\<And>u. u \<in> set (g_tmudata g') \<Longrightarrow> is_userdata u g'"
proof -
  obtain stay sz g1 where l: "separate_loop whole (udata_list g) g = (stay, sz, g1)" by (metis prod_cases3)
  have g': "g' = g1\<lparr>g_rootgc := before_udata g @ stay\<rparr>" using e by (simp add: luaC_separateudata_def l)
  have "set (udata_list g) \<subseteq> set (g_rootgc g)" unfolding rootgc_split [OF m] by blast
  from separate_loop_ok [OF t this l] obtain mv where
    s: "separates g g1 mv" "set (udata_list g) = set stay \<union> set mv" "\<forall>u\<in>set mv. is_userdata u g1" by blast
  have t1: "tricolour {} g1" and a1: "advances g g1" and sh: "shrinks g g1" and gr: "g_gray g1 = g_gray g"
    and r: "g_rootgc g1 = g_rootgc g" "g_tmudata g1 = g_tmudata g @ mv" using s(1) by (simp_all add: separates_def)
  have "set (g_rootgc g1) = set (before_udata g) \<union> (set stay \<union> set mv)" using rootgc_split [OF m] r(1) s(2) by simp
  then have "set (gc_objects g') = set (gc_objects g1)" by (auto simp: g' gc_objects_def r(2))
  then show "tricolour {} g'"
    by (intro tricolour_cong [OF t1])
      (use tricolourD(3) [OF t1] in \<open>simp_all add: g' listed_def gc_isdead_def otherwhite_def\<close>)
  have "advances g1 g'"
    by (rule advances_cong) (simp_all add: g')
  then show "advances g g'" by (rule advances_trans [OF a1])
  show "g_gray g' = g_gray g" by (simp add: g' gr)
  show "is_userdata x g'" if "x \<in> set (g_tmudata g')" for x
    using that s(3) u [of x] shrinksD(10) [OF sh, of x] by (auto simp: g' r(2) is_userdata_def)
qed

subsection \<open>Clearing weak tables\<close>

text \<open>Clearing a table: entries become nil, strings get marked.\<close>

definition table_fades :: "gctable \<Rightarrow> gctable \<Rightarrow> bool" where
  "table_fades h h' \<longleftrightarrow>
     h_metatable h' = h_metatable h \<and> length (h_array h') = length (h_array h) \<and> length (h_nodes h') = length (h_nodes h) \<and>
     (\<forall>i < length (h_array h). h_array h' ! i = h_array h ! i \<or> h_array h' ! i = GNil) \<and>
     (\<forall>i < length (h_nodes h). h_nodes h' ! i = h_nodes h ! i \<or> snd (h_nodes h' ! i) = GNil)"

definition fades :: "gcaddr set \<Rightarrow> gcglobal \<Rightarrow> gcglobal \<Rightarrow> bool" where
  "fades A g g' \<longleftrightarrow>
     (\<forall>x. x \<notin> A \<longrightarrow> g_body g' x = g_body g x) \<and>
     (\<forall>a\<in>A. \<forall>h. g_body g a = Some (GTable h) \<longrightarrow> (\<exists>h'. g_body g' a = Some (GTable h') \<and> table_fades h h')) \<and>
     (\<forall>x. \<not> is_string g x \<longrightarrow> g_marked g' x = g_marked g x) \<and> (\<forall>x. \<not> is_white g x \<longrightarrow> \<not> is_white g' x) \<and>
     same_lists g g' \<and> g_currentwhite g' = g_currentwhite g"

lemma table_fades_refl [simp]: "table_fades h h"
  by (simp add: table_fades_def)

lemma table_fades_trans: "table_fades h1 h2 \<Longrightarrow> table_fades h2 h3 \<Longrightarrow> table_fades h1 h3"
  unfolding table_fades_def by metis

lemma fadesD:
  assumes "fades A g g'"
  shows "x \<notin> A \<Longrightarrow> g_body g' x = g_body g x" "a \<in> A \<Longrightarrow> g_body g a = Some (GTable h) \<Longrightarrow> \<exists>h'. g_body g' a = Some (GTable h') \<and> table_fades h h'"
    "\<not> is_string g x \<Longrightarrow> g_marked g' x = g_marked g x" "\<not> is_white g x \<Longrightarrow> \<not> is_white g' x" "same_lists g g'"
    "g_currentwhite g' = g_currentwhite g"
  using assms by (simp_all add: fades_def)

lemma fades_refl [simp]: "fades A g g"
  by (simp add: fades_def)

lemma fades_strings:
  assumes "fades A g g'" "\<And>a. a \<in> A \<Longrightarrow> is_table g a"
  shows "is_string g' x = is_string g x" "a \<in> A \<Longrightarrow> is_table g' a"
proof -
  note d = fadesD [OF assms(1)]
  show t: "is_table g' a" if "a \<in> A" for a
  proof -
    have "is_table g a" by (rule assms(2) [OF that])
    then obtain h where "g_body g a = Some (GTable h)" by (auto simp: is_table_def)
    then show ?thesis using d(2) [OF \<open>a \<in> A\<close>] by (auto simp: is_table_def)
  qed
  show "is_string g' x = is_string g x"
  proof (cases "x \<in> A")
    case True
    then show ?thesis using t [OF True] assms(2) [OF True] by (auto simp: is_table_def is_string_def)
  qed (simp add: is_string_def d(1))
qed

lemma fades_trans:
  assumes 1: "fades A g g1" and 2: "fades B g1 g2" and t: "\<And>a. a \<in> A \<union> B \<Longrightarrow> is_table g a"
  shows "fades (A \<union> B) g g2"
proof -
  note d = fadesD [OF 1] and e = fadesD [OF 2] and s = fades_strings [OF 1]
  have "\<exists>h'. g_body g2 a = Some (GTable h') \<and> table_fades h h'" if a: "a \<in> A \<union> B" "g_body g a = Some (GTable h)" for a h
  proof -
    obtain h1 where h1: "g_body g1 a = Some (GTable h1)" "table_fades h h1"
      using d(1,2) [of a] a by (cases "a \<in> A") auto
    obtain h2 where h2: "g_body g2 a = Some (GTable h2)" "table_fades h1 h2"
      using e(1,2) [of a] h1(1) by (cases "a \<in> B") auto
    show ?thesis using h2 table_fades_trans [OF h1(2)] by blast
  qed
  moreover have "g_marked g2 x = g_marked g x" if "\<not> is_string g x" for x using d(3) [of x] e(3) [of x] that s(1) t by simp
  ultimately show ?thesis using d e same_lists_trans unfolding fades_def by auto
qed

lemma iscleared_ok:
  assumes "iscleared v k g = (c, g1)"
  shows "fades A g g1" "g_body g1 = g_body g" "\<not> c \<Longrightarrow> r \<in> val_refs v \<Longrightarrow> \<not> is_white g1 r"
proof -
  have f: "fades A g (setmark a stringmark g)" if "g_body g a = Some (GString h s)" for a h s
    unfolding fades_def using that
    by (auto simp: is_string_def same_lists_def setmark_def [of a stringmark g])
  show "fades A g g1" "g_body g1 = g_body g" "\<not> c \<Longrightarrow> r \<in> val_refs v \<Longrightarrow> \<not> is_white g1 r"
    using assms f by (auto simp: iscleared_def split: gcval.splits option.splits gcbody.splits)
qed

lemma fades_set_body:
  assumes "g_body g a = Some (GTable h)" "table_fades h h'"
  shows "fades {a} g (set_body a (GTable h') g)"
  using assms by (simp add: fades_def set_body_def same_lists_def)

lemma clear_array_ok:
  assumes a: "g_body g a = Some (GTable h)" and i: "i < length (h_array h)"
  shows "fades {a} g (clear_array a i g) \<and>
    (\<exists>h'. g_body (clear_array a i g) a = Some (GTable h') \<and> table_fades h h' \<and> (\<forall>r\<in>val_refs (h_array h' ! i). \<not> is_white (clear_array a i g) r))"
proof -
  obtain c g1 where e: "iscleared (h_array h ! i) False g = (c, g1)" by fastforce
  note o = iscleared_ok [OF e]
  have a1: "g_body g1 a = Some (GTable h)" by (simp add: o(2) a)
  show ?thesis
  proof (cases c)
    case False
    then show ?thesis using o(1) o(3) a1 by (simp add: clear_array_def with_table_def a e)
  next
    case True
    let ?h = "h\<lparr>h_array := (h_array h)[i := GNil]\<rparr>"
    have r: "clear_array a i g = set_body a (GTable ?h) g1" using True by (simp add: clear_array_def with_table_def a e set_array_def a1)
    have tf: "table_fades h ?h" using i by (auto simp: table_fades_def nth_list_update)
    have "fades {a} g1 (set_body a (GTable ?h) g1)" by (rule fades_set_body [OF a1 tf])
    then have "fades ({a} \<union> {a}) g (set_body a (GTable ?h) g1)" by (rule fades_trans [OF o(1)]) (use a in \<open>auto simp: is_table_def\<close>)
    then show ?thesis unfolding r using tf i by (simp add: set_body_def)
  qed
qed

lemma clear_node_ok:
  assumes a: "g_body g a = Some (GTable h)" and i: "i < length (h_nodes h)"
  shows "fades {a} g (clear_node a i g) \<and>
    (\<exists>h'. g_body (clear_node a i g) a = Some (GTable h') \<and> table_fades h h' \<and> (\<forall>r\<in>node_refs (h_nodes h' ! i). \<not> is_white (clear_node a i g) r))"
proof (cases "snd (h_nodes h ! i) = GNil")
  case True
  then show ?thesis by (simp add: clear_node_def with_table_def a node_refs_def)
next
  case nn: False
  let ?n = "h_nodes h ! i"
  obtain c1 g1 where e1: "iscleared (fst ?n) True g = (c1, g1)" by fastforce
  obtain c g2 where e2: "(if c1 then (True, g1) else iscleared (snd ?n) False g1) = (c, g2)" by fastforce
  note o = iscleared_ok [OF e1]
  have 2: "fades {a} g1 g2" "g_body g2 = g_body g1" "\<not> c \<Longrightarrow> \<not> c1 \<and> (\<forall>r\<in>val_refs (snd ?n). \<not> is_white g2 r)"
    using e2 iscleared_ok [of "snd ?n" False g1 c g2] by (auto split: if_splits)
  have a2: "g_body g2 a = Some (GTable h)" by (simp add: 2(2) o(2) a)
  have tab: "is_table g x" if "x \<in> {a} \<union> {a}" for x using a that by (simp add: is_table_def)
  have f2: "fades {a} g g2" using fades_trans [OF o(1) [of "{a}"] 2(1) tab] by simp
  have r: "clear_node a i g = (if c then set_node a i (removeentry (fst ?n, GNil)) g2 else g2)"
    using nn e2 by (simp add: clear_node_def with_table_def a Let_def e1)
  show ?thesis
  proof (cases c)
    case False
    have "\<forall>r\<in>val_refs (fst ?n). \<not> is_white g2 r" using o(3) 2(3) [OF False] fadesD(4) [OF 2(1)] by blast
    then show ?thesis using False f2 2(3) a2 by (auto simp: r node_refs_def)
  next
    case True
    let ?h = "h\<lparr>h_nodes := (h_nodes h)[i := removeentry (fst ?n, GNil)]\<rparr>"
    have e: "clear_node a i g = set_body a (GTable ?h) g2" using True by (simp add: r set_node_def with_table_def a2)
    have sn: "snd (removeentry (x, GNil)) = GNil" for x by (simp add: removeentry_def)
    then have tf: "table_fades h ?h" using i by (auto simp: table_fades_def nth_list_update)
    have "fades ({a} \<union> {a}) g (set_body a (GTable ?h) g2)" by (rule fades_trans [OF f2 fades_set_body [OF a2 tf] tab]) simp
    then show ?thesis unfolding e using tf i sn by (simp add: set_body_def node_refs_def)
  qed
qed

text \<open>A loop over the entries of one kind.\<close>

lemma fold_clear:
  assumes step: "\<And>g h i. g_body g a = Some (GTable h) \<Longrightarrow> i < length (part h) \<Longrightarrow> fades {a} g (f i g) \<and>
      (\<exists>h'. g_body (f i g) a = Some (GTable h') \<and> table_fades h h' \<and> (\<forall>r\<in>rs (part h' ! i). \<not> is_white (f i g) r))"
    and part: "\<And>h h' i. table_fades h h' \<Longrightarrow> length (part h') = length (part h)"
      "\<And>h h' i. table_fades h h' \<Longrightarrow> i < length (part h) \<Longrightarrow> rs (part h' ! i) \<subseteq> rs (part h ! i)"
    and a: "g_body g a = Some (GTable h)" and idx: "set is \<subseteq> {..<length (part h)}"
  shows "fades {a} g (fold f is g) \<and>
    (\<exists>h'. g_body (fold f is g) a = Some (GTable h') \<and> table_fades h h' \<and> (\<forall>i\<in>set is. \<forall>r\<in>rs (part h' ! i). \<not> is_white (fold f is g) r))"
  using a idx
proof (induction "is" arbitrary: g h)
  case (Cons i "is")
  have i: "i < length (part h)" using Cons.prems(2) by simp
  obtain h1 where 1: "fades {a} g (f i g)" "g_body (f i g) a = Some (GTable h1)" "table_fades h h1" "\<forall>r\<in>rs (part h1 ! i). \<not> is_white (f i g) r"
    using step [OF Cons.prems(1) i] by blast
  have "set is \<subseteq> {..<length (part h1)}" using Cons.prems(2) part(1) [OF 1(3)] by simp
  from Cons.IH [OF 1(2) this] obtain h2 where
    2: "fades {a} (f i g) (fold f is (f i g))" "g_body (fold f is (f i g)) a = Some (GTable h2)" "table_fades h1 h2"
      "\<forall>j\<in>set is. \<forall>r\<in>rs (part h2 ! j). \<not> is_white (fold f is (f i g)) r" by blast
  have "\<forall>r\<in>rs (part h2 ! i). \<not> is_white (fold f is (f i g)) r"
    using 1(4) part(2) [OF 2(3)] i part(1) [OF 1(3)] fadesD(4) [OF 2(1)] by auto
  moreover have "fades ({a} \<union> {a}) g (fold f is (f i g))" by (rule fades_trans [OF 1(1) 2(1)]) (use Cons.prems(1) in \<open>auto simp: is_table_def\<close>)
  ultimately show ?case using 2(2,4) table_fades_trans [OF 1(3) 2(3)] by auto
qed auto

lemma clear_one_ok:
  assumes w: "weak_done g a"
  shows "fades {a} g (clear_one a g) \<and> (\<forall>r\<in>refs (clear_one a g) a. \<not> is_white (clear_one a g) r)"
proof -
  obtain h where h: "g_body g a = Some (GTable h)" "\<forall>r\<in>set_option (h_metatable h). \<not> is_white g r"
    "\<not> bit (g_marked g a) VALUEWEAKBIT \<Longrightarrow> \<forall>r\<in>vals_refs (h_array h). \<not> is_white g r" using w by (auto simp: weak_done_def)
  define g1 where "g1 = (if bit (g_marked g a) VALUEWEAKBIT then fold (clear_array a) (rev [0..<length (h_array h)]) g else g)"
  have tab: "is_table g x" if "x \<in> {a} \<union> {a}" for x using h(1) that by (simp add: is_table_def)
  have nth: "vals_refs vs = (\<Union>i\<in>{..<length vs}. val_refs (vs ! i))" for vs
    by (force simp: vals_refs_def in_set_conv_nth)
  have p1: "val_refs (h_array h' ! i) \<subseteq> val_refs (h_array h ! i)" if "table_fades h h'" "i < length (h_array h)" for h h' i
  proof -
    have "h_array h' ! i = h_array h ! i \<or> h_array h' ! i = GNil" using that by (simp add: table_fades_def)
    then show ?thesis by auto
  qed
  have p2: "node_refs (h_nodes h' ! i) \<subseteq> node_refs (h_nodes h ! i)" if "table_fades h h'" "i < length (h_nodes h)" for h h' i
  proof -
    have "h_nodes h' ! i = h_nodes h ! i \<or> snd (h_nodes h' ! i) = GNil" using that by (simp add: table_fades_def)
    then show ?thesis by (auto simp: node_refs_def)
  qed
  have 1: "fades {a} g g1 \<and> (\<exists>h'. g_body g1 a = Some (GTable h') \<and> table_fades h h' \<and> (\<forall>r\<in>vals_refs (h_array h'). \<not> is_white g1 r))"
  proof (cases "bit (g_marked g a) VALUEWEAKBIT")
    case False
    then show ?thesis using h by (simp add: g1_def)
  next
    case True
    have i: "set (rev [0..<length (h_array h)]) \<subseteq> {..<length (h_array h)}" by auto
    have "fades {a} g g1 \<and> (\<exists>h'. g_body g1 a = Some (GTable h') \<and> table_fades h h' \<and>
        (\<forall>i\<in>set (rev [0..<length (h_array h)]). \<forall>r\<in>val_refs (h_array h' ! i). \<not> is_white g1 r))"
      unfolding g1_def if_P [OF True]
      by (rule fold_clear [where part = h_array, OF clear_array_ok _ p1 h(1) i]) (simp_all add: table_fades_def)
    then show ?thesis by (auto simp: nth table_fades_def)
  qed
  then obtain h1 where h1: "fades {a} g g1" "g_body g1 a = Some (GTable h1)" "table_fades h h1" "\<forall>r\<in>vals_refs (h_array h1). \<not> is_white g1 r" by blast
  define g2 where "g2 = fold (clear_node a) (rev [0..<length (h_nodes h)]) g1"
  have i: "set (rev [0..<length (h_nodes h)]) \<subseteq> {..<length (h_nodes h1)}" using h1(3) by (auto simp: table_fades_def)
  have "fades {a} g1 g2 \<and> (\<exists>h'. g_body g2 a = Some (GTable h') \<and> table_fades h1 h' \<and>
      (\<forall>i\<in>set (rev [0..<length (h_nodes h)]). \<forall>r\<in>node_refs (h_nodes h' ! i). \<not> is_white g2 r))"
    unfolding g2_def by (rule fold_clear [where part = h_nodes, OF clear_node_ok _ p2 h1(2) i]) (simp_all add: table_fades_def)
  then obtain h2 where h2: "fades {a} g1 g2" "g_body g2 a = Some (GTable h2)" "table_fades h1 h2"
    "\<And>i. i < length (h_nodes h) \<Longrightarrow> \<forall>r\<in>node_refs (h_nodes h2 ! i). \<not> is_white g2 r" by auto
  have e: "clear_one a g = g2" by (simp add: clear_one_def with_table_def h(1) Let_def g1_def g2_def)
  have f: "fades {a} g g2" using fades_trans [OF h1(1) h2(1) tab] by simp
  have "\<forall>r\<in>vals_refs (h_array h2). \<not> is_white g2 r"
    using p1 [OF h2(3)] h1(4) h2(3) fadesD(4) [OF h2(1)] by (fastforce simp: nth table_fades_def)
  moreover have "\<forall>r\<in>nodes_refs (h_nodes h2). \<not> is_white g2 r"
    using h2(3,4) h1(3) by (auto simp: nodes_refs_nth table_fades_def)
  moreover have "\<forall>r\<in>set_option (h_metatable h2). \<not> is_white g2 r"
    using h(2) fadesD(4) [OF f] h1(3) h2(3) by (auto simp: table_fades_def)
  ultimately show ?thesis unfolding e using f by (auto simp: refs_def h2(2))
qed

lemma refs_table: "g_body g a = Some (GTable h) \<Longrightarrow> refs g a = set_option (h_metatable h) \<union> vals_refs (h_array h) \<union> nodes_refs (h_nodes h)"
  by (simp add: refs_def)

lemma table_fades_refs:
  assumes "table_fades h h'"
  shows "vals_refs (h_array h') \<subseteq> vals_refs (h_array h)" "nodes_refs (h_nodes h') \<subseteq> nodes_refs (h_nodes h)"
proof
  fix r assume "r \<in> vals_refs (h_array h')"
  then obtain i where i: "i < length (h_array h')" "r \<in> val_refs (h_array h' ! i)" by (auto simp: vals_refs_def in_set_conv_nth)
  then have "h_array h' ! i = h_array h ! i" using assms by (auto simp: table_fades_def)
  then show "r \<in> vals_refs (h_array h)" using i assms by (auto simp: vals_refs_def table_fades_def)
next
  have "node_refs (h_nodes h' ! i) \<subseteq> node_refs (h_nodes h ! i)" if "i < length (h_nodes h)" for i
  proof -
    have "h_nodes h' ! i = h_nodes h ! i \<or> snd (h_nodes h' ! i) = GNil" using assms that by (simp add: table_fades_def)
    then show ?thesis by (auto simp: node_refs_def)
  qed
  then show "nodes_refs (h_nodes h') \<subseteq> nodes_refs (h_nodes h)" using assms by (auto simp: nodes_refs_nth table_fades_def)
qed

lemma weak_done_fades:
  assumes w: "weak_done g t" and f: "fades A g g'"
  shows "weak_done g' t" "refs g' t \<subseteq> refs g t"
proof -
  note d = fadesD [OF f]
  obtain h where h: "g_body g t = Some (GTable h)" "\<forall>r\<in>set_option (h_metatable h). \<not> is_white g r"
    "\<not> bit (g_marked g t) VALUEWEAKBIT \<Longrightarrow> \<forall>r\<in>vals_refs (h_array h). \<not> is_white g r" using w by (auto simp: weak_done_def)
  obtain h' where h': "g_body g' t = Some (GTable h')" "table_fades h h'"
    using d(1,2) [of t] h(1) by (cases "t \<in> A") auto
  have "g_marked g' t = g_marked g t" using d(3) h(1) by (simp add: is_string_def)
  then show "weak_done g' t" unfolding weak_done_def
    using h h'(1) d(4) table_fades_refs(1) [OF h'(2)] h'(2) by (auto simp: table_fades_def)
  show "refs g' t \<subseteq> refs g t"
    using table_fades_refs [OF h'(2)] h'(2) by (auto simp: refs_table [OF h(1)] refs_table [OF h'(1)] table_fades_def)
qed

lemma cleartable_ok:
  assumes "\<And>t. t \<in> set l \<Longrightarrow> weak_done g t"
  shows "fades (set l) g (cleartable l g) \<and> (\<forall>t\<in>set l. \<forall>r\<in>refs (cleartable l g) t. \<not> is_white (cleartable l g) r)"
  using assms
proof (induction l arbitrary: g)
  case (Cons a l)
  define g1 where "g1 = clear_one a g"
  note one = clear_one_ok [OF Cons.prems, of a, folded g1_def]
  have f: "fades {a} g g1" and ra: "\<forall>r\<in>refs g1 a. \<not> is_white g1 r" using one by simp_all
  have wd: "weak_done g1 t" if "t \<in> set (a # l)" for t by (rule weak_done_fades(1) [OF Cons.prems [OF that] f])
  have 2: "fades (set l) g1 (cleartable l g1)" "\<forall>t\<in>set l. \<forall>r\<in>refs (cleartable l g1) t. \<not> is_white (cleartable l g1) r"
    using Cons.IH [of g1] wd by simp_all
  have tab: "is_table g x" if "x \<in> {a} \<union> set l" for x using Cons.prems [of x] that by (auto simp: weak_done_def is_table_def)
  have "fades ({a} \<union> set l) g (cleartable l g1)" by (rule fades_trans [OF f 2(1) tab])
  moreover have "\<forall>r\<in>refs (cleartable l g1) a. \<not> is_white (cleartable l g1) r"
    using weak_done_fades(2) [OF wd 2(1), of a] ra fadesD(4) [OF 2(1)] by auto
  moreover have "cleartable (a # l) g = cleartable l g1" by (simp add: cleartable_def g1_def)
  ultimately show ?case using 2(2) by simp
qed (simp add: cleartable_def)

subsection \<open>The whole step\<close>

text \<open>What a marked object refers to is marked.\<close>

definition gc_closed :: "gcglobal \<Rightarrow> bool" where
  "gc_closed g \<longleftrightarrow> (\<forall>a\<in>allocated g. \<not> is_white g a \<longrightarrow> (\<forall>r\<in>refs g a. r \<in> allocated g \<and> \<not> is_white g r))"

lemma closed_cleartable:
  assumes t: "tricolour {} g" "g_gray g = []" and d: "upvals_marked g" "weaks_done g" "agains_done g"
  shows "gc_closed (cleartable (g_weak g) g)" "fades (set (g_weak g)) g (cleartable (g_weak g) g)" "allocated (cleartable (g_weak g) g) = allocated g"
proof -
  define g' where "g' = cleartable (g_weak g) g"
  have c: "fades (set (g_weak g)) g g'" "\<And>t r. t \<in> set (g_weak g) \<Longrightarrow> r \<in> refs g' t \<Longrightarrow> \<not> is_white g' r"
    using cleartable_ok [of "g_weak g" g] d(2) by (auto simp: weaks_done_def g'_def)
  note f = fadesD [OF c(1)]
  have tab: "is_table g t" if "t \<in> set (g_weak g)" for t using d(2) that by (auto simp: weaks_done_def weak_done_def is_table_def)
  note st = fades_strings [OF c(1) tab]
  have al: "allocated g' = allocated g"
  proof -
    have "(g_body g' x = None) = (g_body g x = None)" for x
      using f(1) [of x] st(2) [of x] tab [of x] by (cases "x \<in> set (g_weak g)") (auto simp: is_table_def)
    then show ?thesis by (auto simp: dom_def)
  qed
  have uv: "uv_value g' p = uv_value g p" for p
  proof (cases p)
    case (UOpen th i)
    have "g_body g' th = g_body g th" if "is_thread g th \<or> is_thread g' th"
      using f(1) [of th] st(2) [of th] tab [of th] that by (cases "th \<in> set (g_weak g)") (auto simp: is_table_def is_thread_def)
    then show ?thesis by (auto simp: UOpen uv_value_def is_thread_def split: option.split gcbody.split)
  qed (simp add: uv_value_def)
  have rs: "refs g' a \<subseteq> refs g a" if "a \<in> allocated g" for a
  proof (cases "a \<in> set (g_weak g)")
    case True
    then show ?thesis using weak_done_fades(2) [OF _ c(1)] d(2) by (simp add: weaks_done_def)
  next
    case False
    obtain x where "g_body g a = Some x" using \<open>a \<in> allocated g\<close> by auto
    moreover have "body_refs g' x = body_refs g x" by (cases x) (simp_all add: uv)
    ultimately show ?thesis by (simp add: refs_def f(1) [OF False])
  qed
  have "\<not> is_white g' r" if a: "a \<in> allocated g" "\<not> is_white g' a" "r \<in> refs g' a" for a r
  proof (cases "a \<in> set (g_weak g)")
    case True
    then show ?thesis using c(2) a(3) by blast
  next
    case False
    have r: "r \<in> refs g a" using rs [OF a(1)] a(3) by blast
    then have ns: "\<not> is_string g a" by (auto simp: is_string_def refs_def)
    then have w: "\<not> is_white g a" using a(2) f(3) by simp
    have "\<not> is_white g r"
    proof (cases "is_black g a")
      case True
      then show ?thesis using tricolourD(6) [OF t(1) a(1)] r by blast
    next
      case False
      then have "a \<in> set (listed g) \<or> is_open g a" using tricolourD(7) [OF t(1) a(1)] w ns by (auto simp: isgray_def)
      then show ?thesis
        using d(1,3) r w t(2) \<open>a \<notin> set (g_weak g)\<close> unfolding listed_def upvals_marked_def agains_done_def by auto
    qed
    then show ?thesis by (rule f(4))
  qed
  moreover have "r \<in> allocated g" if "a \<in> allocated g" "r \<in> refs g' a" for a r using rs [OF that(1)] that(2) tricolourD(11) [OF t(1), of a] by blast
  ultimately show "gc_closed (cleartable (g_weak g) g)" unfolding g'_def [symmetric] gc_closed_def al by blast
  show "fades (set (g_weak g)) g (cleartable (g_weak g) g)" "allocated (cleartable (g_weak g) g) = allocated g"
    using c(1) al by (simp_all add: g'_def)
qed

text \<open>What holds while marks are propagated; \<open>l\<close> is the running thread.\<close>

definition gc_marking :: "gcaddr \<Rightarrow> gcglobal \<Rightarrow> bool" where
  "gc_marking l g \<longleftrightarrow>
     tricolour {} g \<and> (\<forall>u. is_open g u \<longrightarrow> u \<in> set (g_uvhead g)) \<and> (\<forall>u\<in>set (g_tmudata g). is_userdata u g) \<and>
     g_mainthread g \<in> set (g_rootgc g) \<and> \<not> is_white g (g_mainthread g) \<and>
     (\<forall>r\<in>val_refs (g_registry g). r \<in> allocated g \<and> \<not> is_white g r) \<and> opts_refs (g_mt g) \<subseteq> allocated g \<and> l \<in> allocated g"

definition gc_roots :: "gcaddr \<Rightarrow> gcglobal \<Rightarrow> gcaddr set" where
  "gc_roots l g = {g_mainthread g, l} \<union> val_refs (g_registry g) \<union> opts_refs (g_mt g) \<union> set (g_tmudata g)"

inductive gc_reachable :: "gcaddr \<Rightarrow> gcglobal \<Rightarrow> gcaddr \<Rightarrow> bool" for l g where
  root: "a \<in> gc_roots l g \<Longrightarrow> gc_reachable l g a"
| ref: "gc_reachable l g a \<Longrightarrow> r \<in> refs g a \<Longrightarrow> gc_reachable l g r"

lemma gc_markingD:
  assumes "gc_marking l g"
  shows "tricolour {} g" "is_open g u \<Longrightarrow> u \<in> set (g_uvhead g)" "u \<in> set (g_tmudata g) \<Longrightarrow> is_userdata u g"
    "g_mainthread g \<in> set (g_rootgc g)" "\<not> is_white g (g_mainthread g)" "g_mainthread g \<in> allocated g"
    "r \<in> val_refs (g_registry g) \<Longrightarrow> r \<in> allocated g \<and> \<not> is_white g r" "opts_refs (g_mt g) \<subseteq> allocated g" "l \<in> allocated g"
proof -
  show t: "tricolour {} g" and m: "g_mainthread g \<in> set (g_rootgc g)" using assms by (simp_all add: gc_marking_def)
  show "g_mainthread g \<in> allocated g" using tricolourD(2) [OF t] m by (simp add: gc_objects_def)
qed (use assms in \<open>auto simp: gc_marking_def\<close>)

lemma userdata_allocated: "is_userdata u g \<Longrightarrow> u \<in> allocated g"
  by (auto simp: is_userdata_def split: option.splits)

lemma atomic_mark_ok:
  assumes m: "gc_marking l g" and e: "atomic_mark l g = (n, g')"
  shows "gc_closed g'" "\<And>a. a \<in> gc_roots l g' \<Longrightarrow> a \<in> allocated g' \<and> \<not> is_white g' a"
    "g_currentwhite g' = g_currentwhite g"
proof -
  note d = gc_markingD [OF m]
  define gr where "gr = remarkupvals g"
  define g1 where "g1 = snd (propagateall gr)"
  define g2 where "g2 = g1\<lparr>g_gray := g_weak g1, g_weak := []\<rparr>"
  define g3 where "g3 = snd (propagateall (markmt (markobject l g2)))"
  define g4 where "g4 = g3\<lparr>g_gray := g_grayagain g3, g_grayagain := []\<rparr>"
  define g5 where "g5 = snd (propagateall g4)"
  obtain ud g6 where g6: "luaC_separateudata False g5 = (ud, g6)" by fastforce
  define g7 where "g7 = snd (propagateall (marktmu g6))"
  have p67: "propagateall (marktmu g6) = (fst (propagateall (marktmu g6)), g7)" by (simp add: g7_def)
  have g': "g' = cleartable (g_weak g7) g7"
    using e unfolding atomic_mark_def Let_def gr_def [symmetric] g1_def [symmetric] g2_def [symmetric] g3_def [symmetric] g4_def [symmetric]
        g5_def [symmetric] g6 prod.case by (subst (asm) p67) simp
  note r = remarkupvals_ok [OF d(1,2), folded gr_def]
  note p1 = propagateall_ok [OF marks_okD(1) [OF r(1)], folded g1_def]
  have a1: "advances g g1" and tmu1: "same_lists g g1"
    using goes_trans [OF goes_marks [OF r(1)] p1(2)] by (simp_all add: goes_def)
  have u1: "upvals_marked g1" by (rule goesD(7) [OF p1(2) r(2)])
  have t2: "tricolour {} g2"
    by (rule tricolour_cong [OF p1(1)]) (use tricolourD(3) [OF p1(1)] p1(3) in \<open>auto simp: g2_def listed_def gc_objects_def gc_isdead_def otherwhite_def\<close>)
  have b2: "g_body g2 = g_body g1" "is_white g2 = is_white g1" by (simp_all add: g2_def)
  have u2: "upvals_marked g2" "weaks_done g2"
    using u1 by (simp_all add: upvals_marked_def body_cong [OF b2(1)] weaks_done_def) (simp_all add: g2_def)
  have al2: "allocated g2 = allocated g" using advancesD(4) [OF a1] b2 by simp
  have mt2: "g_mt g2 = g_mt g" "g_mainthread g2 = g_mainthread g" "g_registry g2 = g_registry g"
    using advancesD(1-3) [OF a1] by (simp_all add: g2_def)
  have w2: "\<not> is_white g x \<Longrightarrow> \<not> is_white g2 x" for x using advancesD(5) [OF a1] fun_cong [OF b2(2)] by blast
  have l2: "l \<in> allocated g2" using d(9) al2 by simp
  have ml: "marks_ok {} g2 (markobject l g2) \<and> (\<forall>r\<in>{l}. \<not> is_white (markobject l g2) r)" by (rule markobject_one [OF t2 l2])
  have mm: "marks_ok {} g2 (markmt (markobject l g2)) \<and> (\<forall>r\<in>{l} \<union> opts_refs (g_mt g2). \<not> is_white (markmt (markobject l g2)) r)"
  proof (rule marks_then [OF ml])
    assume a: "tricolour {} (markobject l g2)" "g_body (markobject l g2) = g_body g2"
    have "g_mt (markobject l g2) = g_mt g2" using marks_on_lists [OF marks_okD(2) [OF conjunct1 [OF ml]]] by (simp add: same_lists_def)
    then show "marks_ok {} (markobject l g2) (markmt (markobject l g2)) \<and> (\<forall>r\<in>opts_refs (g_mt g2). \<not> is_white (markmt (markobject l g2)) r)"
      using markmt_ok [OF a(1)] d(8) al2 a(2) mt2 by simp
  qed
  note p3 = propagateall_ok [OF marks_okD(1) [OF conjunct1 [OF mm]], folded g3_def]
  have go3: "goes g2 g3" by (rule goes_trans [OF goes_marks [OF conjunct1 [OF mm]] p3(2)])
  have t4: "tricolour {} g4"
    by (rule tricolour_cong [OF p3(1)]) (use tricolourD(3) [OF p3(1)] p3(3) in \<open>auto simp: g4_def listed_def gc_objects_def gc_isdead_def otherwhite_def\<close>)
  have go4: "goes g3 g4"
    by (rule goes_steps [where A = "{}" and v = g4, OF _ steps_refl alike_refl]) (auto simp: g4_def alike_def same_lists_def)
  have ag4: "agains_done g4" by (simp add: agains_done_def g4_def)
  note p5 = propagateall_ok [OF t4, folded g5_def]
  have go25: "goes g2 g5" by (rule goes_trans [OF goes_trans [OF go3 go4] p5(2)])
  have i5: "upvals_marked g5" "weaks_done g5" "agains_done g5"
    using goesD(7,8) [OF go25] u2 goesD(9) [OF p5(2) ag4] by simp_all
  have sl5: "same_lists g g5" using same_lists_trans [OF tmu1] goesD(1) [OF go25] by (auto simp: same_lists_def g2_def)
  have al5: "allocated g5 = allocated g" using goesD(3) [OF go25] al2 by simp
  have ud5: "is_userdata x g5" if "x \<in> set (g_tmudata g5)" for x
  proof -
    have "is_userdata x g" using d(3) that sl5 by (simp add: same_lists_def)
    moreover have "is_userdata x g1 = is_userdata x g" by (rule advancesD(9) [OF a1])
    moreover have "is_userdata x g2 = is_userdata x g1" by (simp add: is_userdata_def b2)
    moreover have "is_userdata x g5 = is_userdata x g2" by (rule advancesD(9) [OF goesD(2) [OF go25]])
    ultimately show ?thesis by simp
  qed
  have main5: "g_mainthread g5 \<in> set (g_rootgc g5)" using d(4) sl5 by (simp add: same_lists_def)
  have s6: "tricolour {} g6" "advances g5 g6" "\<And>u. u \<in> set (g_tmudata g6) \<Longrightarrow> is_userdata u g6"
    using separateudata_ok [OF p5(1) main5 g6] ud5 by blast+
  have i6: "upvals_marked g6" "weaks_done g6" "agains_done g6" using advancesD(6-8) [OF s6(2)] i5 by simp_all
  have tm: "marks_ok {} g6 (marktmu g6) \<and> (\<forall>u\<in>set (g_tmudata g6). \<not> is_white (marktmu g6) u)"
    by (rule marktmu_ok [OF s6(1)]) (rule s6(3))
  note p7 = propagateall_ok [OF marks_okD(1) [OF conjunct1 [OF tm]], folded g7_def]
  have go67: "goes g6 g7" by (rule goes_trans [OF goes_marks [OF conjunct1 [OF tm]] p7(2)])
  have i7: "upvals_marked g7" "weaks_done g7" "agains_done g7" using goesD(7-9) [OF go67] i6 by simp_all
  note c = closed_cleartable [OF p7(1,3) i7, folded g']
  show "gc_closed g'" by (fact c(1))
  have "g_currentwhite g5 = g_currentwhite g" using advancesD(10) [OF a1] goesD(6) [OF go25] by (simp add: g2_def)
  then show "g_currentwhite g' = g_currentwhite g"
    using fadesD(6) [OF c(2)] goesD(6) [OF go67] advancesD(10) [OF s6(2)] by simp
  have sl7: "same_lists g7 g'" by (rule fadesD(5) [OF c(2)])
  have al7: "allocated g' = allocated g" using c(3) goesD(3) [OF go67] advancesD(4) [OF s6(2)] al5 by simp
  have w57: "\<not> is_white g5 x \<Longrightarrow> \<not> is_white g' x" for x
    by (rule fadesD(4) [OF c(2) goesD(4) [OF go67 advancesD(5) [OF s6(2)]]])
  have w35: "\<not> is_white g3 x \<Longrightarrow> \<not> is_white g' x" for x
    by (rule w57 [OF goesD(4) [OF p5(2) goesD(4) [OF go4]]])
  have w2': "\<not> is_white g2 x \<Longrightarrow> \<not> is_white g' x" for x by (rule w35 [OF goesD(4) [OF go3]])
  have rt: "g_mainthread g' = g_mainthread g" "g_registry g' = g_registry g" "g_mt g' = g_mt g" "g_tmudata g' = g_tmudata g6"
    using sl7 goesD(1) [OF go67] advancesD(1-3) [OF s6(2)] sl5 by (simp_all add: same_lists_def)
  show "a \<in> allocated g' \<and> \<not> is_white g' a" if "a \<in> gc_roots l g'" for a
  proof -
    from that consider "a = g_mainthread g" | "a = l" | "a \<in> val_refs (g_registry g)" | "a \<in> opts_refs (g_mt g)" | "a \<in> set (g_tmudata g6)"
      unfolding gc_roots_def rt by blast
    then show ?thesis
    proof cases
      case 1
      then show ?thesis using d(6) w2' [OF w2 [OF d(5)]] by (simp only: al7 simp_thms)
    next
      case 2
      have "\<not> is_white g3 l" by (rule goesD(4) [OF p3(2)]) (use mm in simp)
      then show ?thesis using 2 d(9) w35 by (simp only: al7 simp_thms)
    next
      case 3
      then have "a \<in> allocated g \<and> \<not> is_white g a" by (rule d(7))
      then show ?thesis using w2' [OF w2, of a] by (simp only: al7 simp_thms)
    next
      case 4
      then have "\<not> is_white g3 a" by (intro goesD(4) [OF p3(2)]) (use mm mt2 in simp)
      then show ?thesis using 4 d(8) w35 [of a] unfolding al7 by blast
    next
      case 5
      then have "\<not> is_white (marktmu g6) a" using tm by simp
      then have "\<not> is_white g' a" by (rule fadesD(4) [OF c(2) goesD(4) [OF p7(2)]])
      moreover have "a \<in> allocated g6" by (rule userdata_allocated [OF s6(3) [OF 5]])
      ultimately show ?thesis using advancesD(4) [OF s6(2)] al5 unfolding al7 by simp
    qed
  qed
qed

lemma reachable_marked:
  assumes "gc_closed g" "\<And>a. a \<in> gc_roots l g \<Longrightarrow> a \<in> allocated g \<and> \<not> is_white g a" "gc_reachable l g a"
  shows "a \<in> allocated g \<and> \<not> is_white g a"
  using assms(3)
proof induction
  case (root a)
  then show ?case by (rule assms(2))
next
  case (ref a r)
  then show ?case using assms(1) unfolding gc_closed_def by blast
qed

lemma not_white_not_dead: "\<not> is_white g a \<Longrightarrow> g_marked g' a = g_marked g a \<Longrightarrow> \<not> gc_isdead g' a"
proof -
  assume "\<not> is_white g a" "g_marked g' a = g_marked g a"
  then have "g_marked g' a AND w AND WHITEBITS = 0" for w
  proof (intro bit_word_eqI)
    fix n assume "n < LENGTH(8)"
    then show "bit (g_marked g' a AND w AND WHITEBITS) n = bit 0 n"
      using \<open>\<not> is_white g a\<close> \<open>g_marked g' a = g_marked g a\<close> by (cases "n = 0"; cases "n = 1") (simp_all add: bit_and_iff iswhite_bits)
  qed
  then show ?thesis by (simp add: gc_isdead_def)
qed

lemma reachable_live:
  assumes "gc_marking l g" "gc_reachable l (gc_atomic l g) a"
  shows "a \<in> allocated (gc_atomic l g) \<and> \<not> is_white (gc_atomic l g) a"
proof -
  obtain n g' where e: "atomic_mark l g = (n, g')" by fastforce
  define h where "h = gc_atomic l g"
  have h: "g_body h = g_body g'" "g_marked h = g_marked g'" "gc_roots l h = gc_roots l g'"
    by (simp_all add: h_def gc_atomic_def e gc_roots_def)
  note ok = atomic_mark_ok [OF assms(1) e]
  have "gc_closed h" using ok(1) unfolding gc_closed_def body_cong(3) [OF h(1)] h .
  moreover have "a \<in> allocated h \<and> \<not> is_white h a" if "a \<in> gc_roots l h" for a using ok(2) that unfolding h .
  ultimately show ?thesis using reachable_marked assms(2) unfolding h_def [symmetric] by blast
qed

lemma atomic_currentwhite: "gc_marking l g \<Longrightarrow> g_currentwhite (gc_atomic l g) = otherwhite g"
  using atomic_mark_ok(3) by (auto simp: gc_atomic_def otherwhite_def split: prod.split)

subsection \<open>A small heap\<close>

text \<open>A thread whose table of globals holds a table, and a table that nothing refers to: the state after \<open>markroot\<close>.\<close>

definition sample_table :: gctable where
  "sample_table = \<lparr>h_metatable = None, h_array = [], h_nodes = [], h_flags = 0\<rparr>"

definition sample_heap :: gcglobal where
  "sample_heap =
     \<lparr>g_body = [0 \<mapsto> GThread \<lparr>th_stack = [], th_top = 0, th_citops = [], th_size_ci = 8, th_gt = GRef 1, th_openupval = []\<rparr>,
        1 \<mapsto> GTable (sample_table\<lparr>h_array := [GRef 2]\<rparr>), 2 \<mapsto> GTable sample_table, 3 \<mapsto> GTable sample_table],
      g_marked = (\<lambda>_. 1)(0 := 0, 1 := 0), g_currentwhite = 33, g_state = GCSpropagate, g_strt = [[]], g_nuse = 0, g_sweepstr = 0,
      g_rootgc = [3, 2, 1, 0], g_sweepgc = None, g_gray = [1, 0], g_grayagain = [], g_weak = [], g_tmudata = [], g_uvhead = [],
      g_buffsize = 32, g_registry = GNil, g_mainthread = 0, g_mt = [], g_tmname = (\<lambda>_. 5),
      g_totalbytes = 1000, g_estimate = 0, g_threshold = 1000, g_gcdept = 0, g_pause = 200, g_stepmul = 200\<rparr>"

lemma sample_body:
  "g_body sample_heap = [0 \<mapsto> GThread \<lparr>th_stack = [], th_top = 0, th_citops = [], th_size_ci = 8, th_gt = GRef 1, th_openupval = []\<rparr>,
     1 \<mapsto> GTable (sample_table\<lparr>h_array := [GRef 2]\<rparr>), 2 \<mapsto> GTable sample_table, 3 \<mapsto> GTable sample_table]"
  by (simp add: sample_heap_def)

lemma sample_marks: "g_marked sample_heap 0 = 0" "g_marked sample_heap 1 = 0" "g_marked sample_heap (Suc 0) = 0" "g_marked sample_heap 2 = 1" "g_marked sample_heap 3 = 1"
    "iswhite 1" "\<not> iswhite 0" "\<not> isblack 1" "\<not> isblack 0" "(1 :: 8 word) AND (33 XOR WHITEBITS) AND WHITEBITS = 0"
  by (simp_all add: sample_heap_def) code_simp+

lemma sample_refs: "refs sample_heap a = (if a = 0 then {1} else if a = 1 then {2} else {})"
  by (auto simp: refs_def sample_body vals_refs_def nodes_refs_def sample_table_def)

lemma sample_marking: "gc_marking 0 sample_heap"
proof -
  have al: "allocated sample_heap = {0, 1, 2, 3}" by (auto simp: sample_body)
  have k: "\<not> is_string sample_heap a" "\<not> is_open sample_heap a" for a by (auto simp: is_string_def is_open_def sample_body split: if_splits)
  have w: "well_typed sample_heap" unfolding well_typed_def al
    by (auto simp: sample_refs) (auto simp: sample_body split: if_splits)
  have tr: "traversable sample_heap 0" "traversable sample_heap 1" by (simp_all add: traversable_def sample_body)
  have l: "listed sample_heap = [1, 0]" "set (gc_objects sample_heap) = {0, 1, 2, 3}"
    by (auto simp: sample_heap_def listed_def gc_objects_def)
  have d: "gc_isdead sample_heap a \<longleftrightarrow> g_marked sample_heap a AND (33 XOR WHITEBITS) AND WHITEBITS \<noteq> 0" for a
    by (simp add: gc_isdead_def otherwhite_def sample_heap_def)
  have "tricolour {} sample_heap" unfolding tricolour_def al l sample_refs d isgray_def
    using w k tr by (auto simp: sample_marks)
  then show ?thesis using k sample_marks by (simp add: gc_marking_def al) (simp add: sample_heap_def opts_refs_def)
qed

lemma sample_atomic:
  "(case g_body (gc_atomic 0 sample_heap) 0 of Some (GThread h) \<Rightarrow> th_gt h = GRef 1 | _ \<Rightarrow> False) \<and>
   (case g_body (gc_atomic 0 sample_heap) 1 of Some (GTable h) \<Rightarrow> h_array h = [GRef 2] | _ \<Rightarrow> False)"
  by code_simp

lemma sample_reachable: "gc_reachable 0 (gc_atomic 0 sample_heap) 2"
proof -
  let ?g = "gc_atomic 0 sample_heap"
  have "1 \<in> refs ?g 0" "2 \<in> refs ?g 1"
    using sample_atomic by (auto simp: refs_def vals_refs_def split: option.splits gcbody.splits)
  moreover have "gc_reachable 0 ?g 0" by (rule gc_reachable.root) (simp add: gc_roots_def)
  ultimately show ?thesis using gc_reachable.ref by blast
qed

text \<open>
  C15: The collector frees nothing that the program can still use. When the mark phase ends, the colours are switched
  and the white objects become the dead ones that the sweep will free: no object that can be reached from the roots
  (the main and the running thread, the registry, the metatables of the basic types, the userdata that wait for their
  finalizer) through any references, those that are left in weak tables included, is dead. This holds from every
  state of the incremental mark phase in which the tricolour invariant holds, whatever is still to be marked.
\<close>

theorem reachable_not_dead:
  assumes "gc_marking l g" "gc_reachable l (gc_atomic l g) a"
  shows "\<not> gc_isdead (gc_atomic l g) a"
  using reachable_live [OF assms] not_white_not_dead by blast

lemma reachable_not_dead_witness: "\<not> gc_isdead (gc_atomic 0 sample_heap) 2 \<and> gc_isdead (gc_atomic 0 sample_heap) 3"
proof
  show "\<not> gc_isdead (gc_atomic 0 sample_heap) 2" by (rule reachable_not_dead [OF sample_marking sample_reachable])
  show "gc_isdead (gc_atomic 0 sample_heap) 3" by code_simp
qed

end
