(* ===== verification/LuaGcLinks.thy ===== *)
theory LuaGcLinks
  imports LuaGcAtomic
begin

section \<open>Open upvalues and their threads\<close>

text \<open>
  An open upvalue is in the list of the thread whose stack holds its value, and in no list of objects of the sweep.
  The end of the mark phase does not touch these links; what the sweep does to them is the subject of
  \<^verbatim>\<open>LuaGcSweep\<close>.
\<close>

definition upvals_linked :: "gcglobal \<Rightarrow> bool" where
  "upvals_linked g \<longleftrightarrow>
     (\<forall>t th. g_body g t = Some (GThread th) \<longrightarrow>
        distinct (th_openupval th) \<and> (\<forall>u\<in>set (th_openupval th). \<exists>i. g_body g u = Some (GUpval (UOpen t i)))) \<and>
     (\<forall>u t i. g_body g u = Some (GUpval (UOpen t i)) \<longrightarrow>
        (\<exists>th. g_body g t = Some (GThread th) \<and> u \<in> set (th_openupval th))) \<and>
     (\<forall>c\<in>set (g_rootgc g) \<union> set (concat (g_strt g)). \<not> is_open g c)"

text \<open>All that this depends on.\<close>

definition links :: "gcglobal \<Rightarrow> gcaddr \<Rightarrow> gcaddr list option \<times> upplace option" where
  "links g a =
     (case g_body g a of
        Some (GThread th) \<Rightarrow> (Some (th_openupval th), None)
      | Some (GUpval p) \<Rightarrow> (None, Some p)
      | _ \<Rightarrow> (None, None))"

definition same_links :: "gcglobal \<Rightarrow> gcglobal \<Rightarrow> bool" where
  "same_links g g' \<longleftrightarrow>
     links g' = links g \<and> g_mainthread g' = g_mainthread g \<and>
     set (g_rootgc g') \<subseteq> insert (g_mainthread g) (set (g_rootgc g)) \<and> g_strt g' = g_strt g"

lemma links_thread: "fst (links g t) = Some us \<longleftrightarrow> (\<exists>th. g_body g t = Some (GThread th) \<and> us = th_openupval th)"
  by (auto simp: links_def split: option.splits gcbody.splits)

lemma links_upval: "snd (links g u) = Some p \<longleftrightarrow> g_body g u = Some (GUpval p)"
  by (auto simp: links_def split: option.splits gcbody.splits)

lemma upvals_linked_links:
  "upvals_linked g \<longleftrightarrow>
     (\<forall>t us. fst (links g t) = Some us \<longrightarrow> distinct us \<and> (\<forall>u\<in>set us. \<exists>i. snd (links g u) = Some (UOpen t i))) \<and>
     (\<forall>u t i. snd (links g u) = Some (UOpen t i) \<longrightarrow> (\<exists>us. fst (links g t) = Some us \<and> u \<in> set us)) \<and>
     (\<forall>c\<in>set (g_rootgc g) \<union> set (concat (g_strt g)). \<forall>t i. snd (links g c) \<noteq> Some (UOpen t i))"
  unfolding upvals_linked_def links_thread links_upval is_open_def by blast

lemma same_links_linked:
  assumes "upvals_linked g" "same_links g g'" "g_mainthread g \<in> set (g_rootgc g)"
  shows "upvals_linked g'"
proof -
  have l: "links g' = links g" "g_strt g' = g_strt g" and r: "set (g_rootgc g') \<subseteq> set (g_rootgc g)"
    using assms(2,3) by (auto simp: same_links_def)
  show ?thesis using assms(1) r unfolding upvals_linked_links l by blast
qed

lemma same_links_refl [simp]: "same_links g g"
  by (auto simp: same_links_def)

text \<open>The collection has the form of rules along a sequence of operations.\<close>

named_theorems lnk

lemma same_links_same [lnk]:
  assumes "same_links f g"
  shows "same_links f (g\<lparr>g_marked := m\<rparr>)" "same_links f (g\<lparr>g_gray := xs\<rparr>)" "same_links f (g\<lparr>g_grayagain := xs\<rparr>)"
    "same_links f (g\<lparr>g_weak := xs\<rparr>)" "same_links f (g\<lparr>g_tmudata := xs\<rparr>)" "same_links f (g\<lparr>g_totalbytes := n\<rparr>)"
    "same_links f (g\<lparr>g_currentwhite := w\<rparr>)" "same_links f (g\<lparr>g_sweepstr := k\<rparr>)" "same_links f (g\<lparr>g_sweepgc := p\<rparr>)"
    "same_links f (g\<lparr>g_state := s\<rparr>)" "same_links f (g\<lparr>g_estimate := n\<rparr>)"
  using assms by (simp_all add: same_links_def links_def fun_eq_iff)

lemma same_links_fold [lnk]:
  assumes "\<And>x g. same_links h g \<Longrightarrow> same_links h (f x g)" "same_links h g"
  shows "same_links h (fold f xs g)"
  using assms(2) by (induction xs arbitrary: g) (simp_all add: assms(1))

lemma same_links_set_table:
  assumes "same_links f g" "g_body g a = Some (GTable h)" shows "same_links f (set_body a (GTable h') g)"
proof -
  have "links (set_body a (GTable h') g) = links g" using assms(2) by (simp add: links_def set_body_def fun_eq_iff)
  then show ?thesis using assms(1) by (simp add: same_links_def) (simp add: set_body_def)
qed

lemma same_links_set_thread:
  assumes "same_links f g" "fst (links g a) = Some (th_openupval th)" shows "same_links f (set_body a (GThread th) g)"
proof -
  have "links (set_body a (GThread th) g) = links g"
    using assms(2) by (auto simp: links_def set_body_def fun_eq_iff split: option.splits gcbody.splits)
  then show ?thesis using assms(1) by (simp add: same_links_def) (simp add: set_body_def)
qed

lemma same_links_with_table:
  "same_links f g \<Longrightarrow> (\<And>h. g_body g a = Some (GTable h) \<Longrightarrow> same_links f (F h)) \<Longrightarrow> same_links f (with_table a g F)"
  by (simp add: with_table_def split: option.split gcbody.split)

lemma same_links_with_thread:
  "same_links f g \<Longrightarrow> (\<And>h. g_body g a = Some (GThread h) \<Longrightarrow> same_links f (F h)) \<Longrightarrow> same_links f (with_thread a g F)"
  by (simp add: with_thread_def split: option.split gcbody.split)

subsection \<open>Marking\<close>

lemma same_links_setmark [lnk]: "same_links f g \<Longrightarrow> same_links f (setmark a m g)" "same_links f g \<Longrightarrow> same_links f (push_gray a g)"
  by (simp_all add: setmark_def push_gray_def lnk)

lemma same_links_depth [lnk]: "same_links f g \<Longrightarrow> same_links f (mark_depth n a g)"
proof (induction n arbitrary: a g)
  case (Suc n)
  show ?case unfolding mark_depth.simps Let_def
    by (simp add: lnk Suc split: option.split gcbody.split upplace.split gcval.split)
qed simp

lemma same_links_mark [lnk]:
  assumes "same_links f g"
  shows "same_links f (reallymarkobject a g)" "same_links f (markobject a g)" "same_links f (markvalue v g)"
    "same_links f (markobject_opt t g)" "same_links f (stringmark_opt t g)" "same_links f (makewhite a g)"
  using assms
  by (simp_all add: reallymarkobject_def markobject_def markvalue_def markobject_opt_def stringmark_opt_def makewhite_def lnk
      split: gcval.split option.split)

lemma same_links_traverse [lnk]:
  assumes "same_links f g"
  shows "same_links f (traverseproto q g)" "same_links f (traverse_cclosure e us g)" "same_links f (traverse_lclosure e p ws g)"
  using assms by (simp_all add: traverseproto_def traverse_cclosure_def traverse_lclosure_def Let_def lnk)

lemma same_links_nodes [lnk]:
  assumes "same_links f g"
  shows "same_links f (set_node a i n g)" "same_links f (set_array a i v g)"
  using assms unfolding set_node_def set_array_def by (auto intro!: same_links_with_table same_links_set_table)

lemma same_links_gfasttm [lnk]: "same_links f g \<Longrightarrow> same_links f (snd (gfasttm t ev g))"
  by (auto simp: gfasttm_def intro: same_links_set_table split: option.split gcbody.split gcval.split)

lemma same_links_traverse_node [lnk]: "same_links f g \<Longrightarrow> same_links f (traverse_node wk wv a i g)"
  unfolding traverse_node_def Let_def by (rule same_links_with_table) (simp_all add: lnk)

lemma same_links_traversetable [lnk]: "same_links f g \<Longrightarrow> same_links f (snd (traversetable a g))"
  by (simp add: traversetable_def Let_def case_prod_beta lnk split: option.split gcbody.split)

lemma same_links_realloc [lnk]:
  assumes "same_links f g"
  shows "same_links f (gc_realloc m n g)" "same_links f (gc_reallocCI a k g)" "same_links f (gc_reallocstack a k g)"
proof -
  have r: "same_links f (gc_realloc m n g)" if "same_links f g" for m n g using that by (simp add: gc_realloc_def lnk)
  show "same_links f (gc_realloc m n g)" using assms by (rule r)
  show "same_links f (gc_reallocCI a k g)" "same_links f (gc_reallocstack a k g)"
    unfolding gc_reallocCI_def gc_reallocstack_def Let_def
    by (intro same_links_with_thread r same_links_set_thread assms; simp add: links_thread)+
qed

lemma same_links_checkstacksizes [lnk]: "same_links f g \<Longrightarrow> same_links f (checkstacksizes a m g)"
  unfolding checkstacksizes_def Let_def by (rule same_links_with_thread) (simp_all add: lnk)

lemma same_links_traversestack [lnk]:
  assumes "same_links f g" shows "same_links f (traversestack a g)"
  unfolding traversestack_def Let_def
proof (rule same_links_with_thread [OF assms])
  fix th assume th: "g_body g a = Some (GThread th)"
  let ?g = "fold markvalue (take (th_top th) (th_stack th)) (markvalue (th_gt th) g)"
  have "same_links g ?g" by (simp add: lnk)
  then have "links ?g a = links g a" by (simp add: same_links_def)
  then have "fst (links ?g a) = Some (th_openupval th)" using th links_thread [of g a] by simp
  then show "same_links f (checkstacksizes a m (set_body a (GThread (th\<lparr>th_stack := s\<rparr>)) ?g))" for m s
    by (intro same_links_checkstacksizes same_links_set_thread) (simp_all add: assms lnk)
qed

subsection \<open>The end of the mark phase\<close>

lemma same_links_propagatemark [lnk]: "same_links f g \<Longrightarrow> same_links f (snd (propagatemark g))"
  by (simp add: propagatemark_def Let_def case_prod_beta lnk split: list.split option.split gcbody.split)

lemma same_links_propagate_n: "same_links f g \<Longrightarrow> same_links f (snd (propagate_n n g))"
  by (induction n arbitrary: g) (simp_all add: case_prod_beta lnk)

lemma same_links_propagateall [lnk]: "same_links f g \<Longrightarrow> same_links f (snd (propagateall g))"
  by (simp add: propagateall_def same_links_propagate_n)

lemma same_links_roots [lnk]:
  assumes "same_links f g"
  shows "same_links f (remarkupvals g)" "same_links f (markmt g)" "same_links f (marktmu g)"
proof -
  have "same_links f (remark_upval u g)" if "same_links f g" for u g
    using that by (simp add: remark_upval_def lnk split: option.split gcbody.split)
  then show "same_links f (remarkupvals g)" using assms by (simp add: remarkupvals_def lnk)
  show "same_links f (markmt g)" "same_links f (marktmu g)" using assms by (simp_all add: markmt_def marktmu_def lnk)
qed

lemma separate_loop_links:
  assumes "same_links f g" "separate_loop w us g = (stay, sz, g')"
  shows "same_links f g' \<and> set stay \<subseteq> set us"
  using assms
proof (induction us arbitrary: g stay sz)
  case (Cons u us)
  have rest: ?case if t: "same_links f g1" and e: "separate_loop w (u # us) g = (case separate_loop w us g1 of (st, k, g2) \<Rightarrow> (e @ st, h k, g2))"
      and s: "set e \<subseteq> {u}" for g1 e h
  proof -
    obtain st k g2 where l: "separate_loop w us g1 = (st, k, g2)" by (metis prod_cases3)
    have d: "stay = e @ st" "g2 = g'" using e Cons.prems(2) by (simp_all add: l)
    show ?thesis using Cons.IH [OF t l [unfolded d(2)]] s by (auto simp: d(1))
  qed
  show ?case
  proof (cases "\<exists>mtab env len. g_body g u = Some (GUdata mtab env len)")
    case False
    then show ?thesis using Cons.prems(1)
      by (intro rest [where e = "[u]" and h = "\<lambda>k. k"]) (auto split: option.split gcbody.split)
  next
    case True
    then obtain mtab env len where x: "g_body g u = Some (GUdata mtab env len)" by blast
    obtain tm g1 where f: "gfasttm mtab GC_TM_GC g = (tm, g1)" by fastforce
    have "same_links f (snd (gfasttm mtab GC_TM_GC g))" using Cons.prems(1) by (rule same_links_gfasttm)
    then have m: "same_links f (setmark u markfinalized g1)" by (simp add: f lnk)
    show ?thesis
    proof (cases "\<not> (iswhite (g_marked g u) \<or> w) \<or> isfinalized (g_marked g u)")
      case True
      then show ?thesis using Cons.prems(1) x by (intro rest [where e = "[u]" and h = "\<lambda>k. k"]) simp_all
    next
      case False
      then show ?thesis
      proof (cases "tm = GNil")
        case True
        then show ?thesis using False x f by (intro rest [OF m, where e = "[u]" and h = "\<lambda>k. k"]) simp_all
      next
        case tm: False
        then show ?thesis using False x f
          by (intro rest [OF same_links_same(5) [OF m], where e = "[]" and h = "\<lambda>k. sizeof_Udata + len + k"]) simp_all
      qed
    qed
  qed
qed simp

lemma same_links_separateudata [lnk]:
  assumes "same_links f g" shows "same_links f (snd (luaC_separateudata w g))"
proof -
  obtain stay sz g' where l: "separate_loop w (udata_list g) g = (stay, sz, g')" by (metis prod_cases3)
  have s: "same_links f g'" "set stay \<subseteq> set (udata_list g)" using separate_loop_links [OF assms l] by simp_all
  have "set (before_udata g) \<subseteq> insert (g_mainthread g) (set (g_rootgc g))" "set (udata_list g) \<subseteq> set (g_rootgc g)"
    by (auto simp: before_udata_def udata_list_def dest: set_takeWhileD in_set_dropD set_dropWhileD)
  then show ?thesis using s assms
    by (auto simp: luaC_separateudata_def l same_links_def links_def fun_eq_iff)
qed

lemma same_links_iscleared [lnk]: "same_links f g \<Longrightarrow> same_links f (snd (iscleared v k g))"
  by (simp add: iscleared_def lnk split: gcval.split option.split gcbody.split)

lemma same_links_clear [lnk]:
  assumes "same_links f g"
  shows "same_links f (clear_array a i g)" "same_links f (clear_node a i g)"
  unfolding clear_array_def clear_node_def Let_def case_prod_beta
  by (rule same_links_with_table [OF assms]; simp add: lnk assms)+

lemma same_links_cleartable [lnk]: "same_links f g \<Longrightarrow> same_links f (cleartable ws g)"
proof -
  have "same_links f (clear_one a g)" if "same_links f g" for a g
    unfolding clear_one_def Let_def by (rule same_links_with_table [OF that]) (simp add: lnk that)
  then show "same_links f g \<Longrightarrow> same_links f (cleartable ws g)" by (simp add: cleartable_def lnk)
qed

lemma same_links_atomic: "same_links g (gc_atomic l g)"
  by (simp add: gc_atomic_def atomic_mark_def Let_def case_prod_beta lnk)

lemma atomic_linked:
  "upvals_linked g \<Longrightarrow> g_mainthread g \<in> set (g_rootgc g) \<Longrightarrow> upvals_linked (gc_atomic l g)"
  "g_strt (gc_atomic l g) = g_strt g"
  using same_links_linked [OF _ same_links_atomic] same_links_atomic [of g l] by (simp_all add: same_links_def)

end
