(* ===== verification/LuaGcSweep.thy ===== *)
theory LuaGcSweep
  imports LuaGcLinks "HOL-Library.Sublist"
begin

section \<open>The sweep\<close>

text \<open>
  The sweep frees dead objects only, and leaves the contents of the others as they are, but for two things: a dead
  upvalue leaves the list of its thread, and an open upvalue of a thread that is freed is closed with its value.
  Together with the mark phase: what the program can reach survives the collection unchanged.
\<close>

subsection \<open>Contents\<close>

text \<open>Exactly one of the two whites is the current one, except when the state is closed.\<close>

definition one_white :: "gcglobal \<Rightarrow> bool" where
  "one_white g \<longleftrightarrow> bit (g_currentwhite g) 0 \<noteq> bit (g_currentwhite g) 1"

text \<open>What the sweep may do to an object that it does not free: \<open>x\<close> before, \<open>x'\<close> after.\<close>

definition body_kept :: "gcglobal \<Rightarrow> gcbody \<Rightarrow> gcbody \<Rightarrow> bool" where
  "body_kept g x x' \<longleftrightarrow>
     x' = x \<or>
     (\<exists>th us. x = GThread th \<and> x' = GThread (th\<lparr>th_openupval := us\<rparr>) \<and> subseq us (th_openupval th)) \<or>
     (\<exists>t i. x = GUpval (UOpen t i) \<and> gc_isdead g t \<and> x' = GUpval (UClosed (uv_value g (UOpen t i))))"

definition kept_by :: "gcglobal \<Rightarrow> gcglobal \<Rightarrow> bool" where
  "kept_by g g' \<longleftrightarrow>
     upvals_linked g' \<and> g_currentwhite g' = g_currentwhite g \<and>
     (\<forall>a\<in>allocated g. \<not> gc_isdead g a \<longrightarrow> a \<in> allocated g' \<and> \<not> gc_isdead g' a) \<and>
     (\<forall>a x'. g_body g' a = Some x' \<longrightarrow> (\<exists>x. g_body g a = Some x \<and> body_kept g x x'))"

text \<open>During one phase the counters of the sweep stay as well.\<close>

definition tidies :: "gcglobal \<Rightarrow> gcglobal \<Rightarrow> bool" where
  "tidies g g' \<longleftrightarrow>
     kept_by g g' \<and> g_state g' = g_state g \<and> g_sweepstr g' = g_sweepstr g \<and> length (g_strt g') = length (g_strt g)"

definition sweepable :: "gcglobal \<Rightarrow> bool" where
  "sweepable g \<longleftrightarrow> upvals_linked g \<and> one_white g \<and> g_state g \<noteq> GCSpropagate"

lemma body_kept_refl [simp]: "body_kept g x x"
  by (simp add: body_kept_def)

lemma kept_byD:
  assumes "kept_by g g'"
  shows "upvals_linked g'" "g_currentwhite g' = g_currentwhite g" "a \<in> allocated g \<Longrightarrow> \<not> gc_isdead g a \<Longrightarrow> a \<in> allocated g'"
    "a \<in> allocated g \<Longrightarrow> \<not> gc_isdead g a \<Longrightarrow> \<not> gc_isdead g' a"
    "g_body g' a = Some x' \<Longrightarrow> \<exists>x. g_body g a = Some x \<and> body_kept g x x'"
  using assms by (simp_all add: kept_by_def)

lemma linkedD:
  assumes "upvals_linked g"
  shows "g_body g t = Some (GThread th) \<Longrightarrow> distinct (th_openupval th)"
    "g_body g t = Some (GThread th) \<Longrightarrow> u \<in> set (th_openupval th) \<Longrightarrow> \<exists>i. g_body g u = Some (GUpval (UOpen t i))"
    "g_body g u = Some (GUpval (UOpen t i)) \<Longrightarrow> \<exists>th. g_body g t = Some (GThread th) \<and> u \<in> set (th_openupval th)"
    "c \<in> set (g_rootgc g) \<Longrightarrow> \<not> is_open g c" "c \<in> set (concat (g_strt g)) \<Longrightarrow> \<not> is_open g c"
  using assms unfolding upvals_linked_def by blast+

lemma body_kept_thread:
  assumes "body_kept g x (GThread th')" obtains th us where "x = GThread th" "th' = th\<lparr>th_openupval := us\<rparr>" "subseq us (th_openupval th)"
proof (cases "x = GThread th'")
  case True
  then show ?thesis using that [of th' "th_openupval th'"] by simp
next
  case False
  then show ?thesis using assms that by (auto simp: body_kept_def)
qed

text \<open>An upvalue that is still open has the value it had.\<close>

lemma open_value:
  assumes "kept_by g g'" "g_body g' u = Some (GUpval (UOpen t i))"
  shows "uv_value g' (UOpen t i) = uv_value g (UOpen t i) \<and> t \<in> allocated g"
proof -
  obtain th' where t: "g_body g' t = Some (GThread th')" using linkedD(3) [OF kept_byD(1) [OF assms(1)] assms(2)] by blast
  then obtain x where x: "g_body g t = Some x" "body_kept g x (GThread th')" using kept_byD(5) [OF assms(1)] by blast
  from x(2) obtain th us where "x = GThread th" "th' = th\<lparr>th_openupval := us\<rparr>" by (rule body_kept_thread)
  then show ?thesis using t x(1) by (auto simp: uv_value_def)
qed

lemma kept_by_trans:
  assumes "kept_by g g1" "kept_by g1 g2" shows "kept_by g g2"
proof -
  have "\<exists>x. g_body g a = Some x \<and> body_kept g x y" if y: "g_body g2 a = Some y" for a y
  proof -
    obtain x1 where x1: "g_body g1 a = Some x1" "body_kept g1 x1 y" using kept_byD(5) [OF assms(2) y] by blast
    obtain x where x: "g_body g a = Some x" "body_kept g x x1" using kept_byD(5) [OF assms(1) x1(1)] by blast
    consider (same) "y = x1" | (thread) th us where "x1 = GThread th" "y = GThread (th\<lparr>th_openupval := us\<rparr>)" "subseq us (th_openupval th)"
      | (closed) t i where "x1 = GUpval (UOpen t i)" "gc_isdead g1 t" "y = GUpval (UClosed (uv_value g1 (UOpen t i)))"
      using x1(2) unfolding body_kept_def by blast
    then have "body_kept g x y"
    proof cases
      case same
      then show ?thesis using x(2) by simp
    next
      case thread
      from x(2) [unfolded thread(1)] obtain th0 vs where
        "x = GThread th0" "th = th0\<lparr>th_openupval := vs\<rparr>" "subseq vs (th_openupval th0)" by (rule body_kept_thread)
      then show ?thesis using thread(2,3) by (auto simp: body_kept_def intro: subseq_order.trans)
    next
      case closed
      have v: "uv_value g1 (UOpen t i) = uv_value g (UOpen t i)" "t \<in> allocated g"
        using open_value [OF assms(1)] x1(1) closed(1) by simp_all
      then have "gc_isdead g t" using kept_byD(4) [OF assms(1)] closed(2) by blast
      moreover have "x = GUpval (UOpen t i)" using x(2) closed(1) by (auto simp: body_kept_def)
      ultimately show ?thesis using closed(3) v(1) by (auto simp: body_kept_def)
    qed
    then show ?thesis using x(1) by blast
  qed
  then show ?thesis unfolding kept_by_def
    using kept_byD(1-4) [OF assms(1)] kept_byD(1-4) [OF assms(2)] by simp
qed

lemma tidies_trans: "tidies g g1 \<Longrightarrow> tidies g1 g2 \<Longrightarrow> tidies g g2"
  using kept_by_trans [of g g1 g2] by (simp add: tidies_def)

lemma tidies_sweepable: "sweepable g \<Longrightarrow> tidies g g' \<Longrightarrow> sweepable g'"
  by (simp add: sweepable_def tidies_def kept_by_def one_white_def)

text \<open>Nothing becomes open.\<close>

lemma tidies_not_open: "tidies g g' \<Longrightarrow> \<not> is_open g c \<Longrightarrow> \<not> is_open g' c"
  using kept_byD(5) by (fastforce simp: tidies_def is_open_def body_kept_def)

lemma kept_by_same:
  assumes "upvals_linked g" "g_body g' = g_body g" "\<And>x. gc_isdead g' x \<Longrightarrow> gc_isdead g x" "g_currentwhite g' = g_currentwhite g"
    and "set (g_rootgc g') \<subseteq> set (g_rootgc g)" "set (concat (g_strt g')) \<subseteq> set (concat (g_strt g))"
  shows "kept_by g g'"
proof -
  have "upvals_linked g'" using assms(1,5,6) unfolding upvals_linked_def is_open_def assms(2) by blast
  then show ?thesis using assms(2-4) by (auto simp: kept_by_def)
qed

lemma tidies_refl: "sweepable g \<Longrightarrow> tidies g g"
  unfolding tidies_def sweepable_def using kept_by_same [of g g] by simp

lemma gc_isdead_bits: "gc_isdead g a \<longleftrightarrow> (\<exists>n\<in>{0, 1}. bit (g_marked g a) n \<and> \<not> bit (g_currentwhite g) n)"
proof -
  have "gc_isdead g a \<longleftrightarrow> (\<exists>n. bit (g_marked g a AND otherwhite g AND WHITEBITS) n)"
    unfolding gc_isdead_def bit_eq_iff [of _ 0] by (simp only: bit_0_eq bot_fun_def bot_bool_def) (metis impossible_bit)
  also have "\<dots> \<longleftrightarrow> (\<exists>n\<in>{0, 1}. bit (g_marked g a) n \<and> \<not> bit (g_currentwhite g) n)"
    by (auto simp: bit_and_iff bit_xor_iff otherwhite_def)
  finally show ?thesis .
qed

lemma gc_isdead_same: "g_marked g' x = g_marked g x \<Longrightarrow> g_currentwhite g' = g_currentwhite g \<Longrightarrow> gc_isdead g' x = gc_isdead g x"
  by (simp add: gc_isdead_bits)

lemma makewhite_simps [simp]:
  "g_body (makewhite a g) = g_body g" "g_currentwhite (makewhite a g) = g_currentwhite g" "g_state (makewhite a g) = g_state g"
  "g_rootgc (makewhite a g) = g_rootgc g" "g_strt (makewhite a g) = g_strt g" "g_sweepstr (makewhite a g) = g_sweepstr g"
  by (simp_all add: makewhite_def setmark_def)

lemma makewhite_alive: "\<not> gc_isdead (makewhite a g) a" "x \<noteq> a \<Longrightarrow> gc_isdead (makewhite a g) x = gc_isdead g x"
proof -
  have "bit (g_marked (makewhite a g) a) n \<longleftrightarrow> bit (g_currentwhite g) n" if "n = 0 \<or> n = 1" for n
    using that by (auto simp: makewhite_def gc_white_def maskmarks_def BLACKBIT_def bit_and_iff bit_or_iff bit_not_iff)
  then show "\<not> gc_isdead (makewhite a g) a" by (auto simp: gc_isdead_bits)
  show "x \<noteq> a \<Longrightarrow> gc_isdead (makewhite a g) x = gc_isdead g x" by (simp add: gc_isdead_bits) (simp add: makewhite_def setmark_def)
qed

lemma tidies_makewhite:
  assumes "upvals_linked g" shows "tidies g (makewhite a g)"
proof -
  have "gc_isdead g x" if "gc_isdead (makewhite a g) x" for x using makewhite_alive that by (cases "x = a") auto
  then have "kept_by g (makewhite a g)" by (intro kept_by_same assms) simp_all
  then show ?thesis by (simp add: tidies_def)
qed

subsection \<open>Freeing an object\<close>

lemma tidies_free:
  assumes l: "upvals_linked g" and d: "gc_isdead g c" and op: "\<not> is_open g c"
    and th: "\<And>th. g_body g c = Some (GThread th) \<Longrightarrow> th_openupval th = []"
  shows "tidies g (free_bytes n c g)"
proof -
  let ?g = "free_bytes n c g"
  have e: "g_body ?g x = (if x = c then None else g_body g x)" "g_rootgc ?g = g_rootgc g" "g_strt ?g = g_strt g" for x
    by (simp_all add: free_bytes_def)
  have m: "gc_isdead ?g x = gc_isdead g x" "g_currentwhite ?g = g_currentwhite g" "g_state ?g = g_state g" "g_sweepstr ?g = g_sweepstr g" for x
    by (simp_all add: free_bytes_def gc_isdead_def otherwhite_def)
  have "u \<noteq> c" if "g_body g u = Some (GUpval (UOpen t i))" for u t i using op that by (auto simp: is_open_def)
  moreover have "t \<noteq> c" if "g_body g u = Some (GUpval (UOpen t i))" for u t i using linkedD(3) [OF l that] th by fastforce
  ultimately have "upvals_linked ?g" using l unfolding upvals_linked_def is_open_def e by (simp split: if_splits) metis
  then have "kept_by g ?g" using d by (auto simp: kept_by_def e m)
  then show ?thesis by (simp add: tidies_def m e)
qed

text \<open>The open upvalue \<open>u\<close> of the thread \<open>a\<close> leaves the list: it is freed, or closed because the thread is.\<close>

lemma tidies_unlink:
  assumes l: "upvals_linked g" and th: "g_body g a = Some (GThread th)" and u: "u \<in> set (th_openupval th)" "g_body g u = Some (GUpval (UOpen a i))"
    and y: "y = None \<and> gc_isdead g u \<or> y = Some (GUpval (UClosed (uv_value g (UOpen a i)))) \<and> gc_isdead g a"
    and x: "g_body g' = (g_body g)(a \<mapsto> GThread (th\<lparr>th_openupval := remove1 u (th_openupval th)\<rparr>), u := y)"
    and r: "set (g_rootgc g') \<subseteq> insert u (set (g_rootgc g))" "g_strt g' = g_strt g"
    and m: "g_currentwhite g' = g_currentwhite g" "g_state g' = g_state g" "g_sweepstr g' = g_sweepstr g" "\<And>x. gc_isdead g' x \<Longrightarrow> gc_isdead g x"
  shows "tidies g g'"
proof -
  have ua: "u \<noteq> a" using u(2) th by auto
  have cs: "g_body g' z = (if z = u then y else if z = a then Some (GThread (th\<lparr>th_openupval := remove1 u (th_openupval th)\<rparr>)) else g_body g z)" for z
    using x ua by auto
  have dis: "distinct (th_openupval th)" by (rule linkedD(1) [OF l th])
  have sub: "subseq (remove1 u us) us" for us by (induction us) auto
  have "upvals_linked g'" unfolding upvals_linked_def
  proof (intro conjI allI impI ballI)
    fix t th' assume t: "g_body g' t = Some (GThread th')"
    show "distinct (th_openupval th')" using t dis linkedD(1) [OF l] y by (auto simp: cs split: if_splits)
    fix v assume v: "v \<in> set (th_openupval th')"
    show "\<exists>i. g_body g' v = Some (GUpval (UOpen t i))"
    proof (cases "t = a")
      case True
      then have "v \<in> set (th_openupval th)" "v \<noteq> u" using t v dis ua by (auto simp: cs)
      moreover have "v \<noteq> a" using linkedD(2) [OF l th \<open>v \<in> set (th_openupval th)\<close>] th by auto
      ultimately show ?thesis using linkedD(2) [OF l th] True by (simp add: cs)
    next
      case False
      then have t': "g_body g t = Some (GThread th')" using t y by (auto simp: cs split: if_splits)
      from linkedD(2) [OF l t' v] obtain j where j: "g_body g v = Some (GUpval (UOpen t j))" by blast
      then have "v \<noteq> u" "v \<noteq> a" using u(2) False th by auto
      then show ?thesis using j by (simp add: cs)
    qed
  next
    fix v t j assume v: "g_body g' v = Some (GUpval (UOpen t j))"
    then have "v \<noteq> u" "g_body g v = Some (GUpval (UOpen t j))" using y by (auto simp: cs split: if_splits)
    with linkedD(3) [OF l this(2)] obtain th' where t: "g_body g t = Some (GThread th')" "v \<in> set (th_openupval th')" by blast
    moreover have "t \<noteq> u" using t(1) u(2) by auto
    ultimately show "\<exists>th. g_body g' t = Some (GThread th) \<and> v \<in> set (th_openupval th)"
      using \<open>v \<noteq> u\<close> th by (cases "t = a") (auto simp: cs in_set_remove1)
  next
    fix z assume "z \<in> set (g_rootgc g') \<union> set (concat (g_strt g'))"
    then have "z = u \<or> \<not> is_open g z" using r linkedD(4,5) [OF l, of z] by auto
    then show "\<not> is_open g' z" using y by (auto simp: is_open_def cs)
  qed
  moreover have "\<exists>w. g_body g z = Some w \<and> body_kept g w w'" if "g_body g' z = Some w'" for z w'
    using that y u(2) th sub [of "th_openupval th"] by (auto simp: cs body_kept_def split: if_splits)
  moreover have "z \<in> allocated g' \<and> \<not> gc_isdead g' z" if "z \<in> allocated g" "\<not> gc_isdead g z" for z
    using that y m(4) by (auto simp: cs split: if_splits)
  ultimately have "kept_by g g'" using m(1) by (simp add: kept_by_def)
  then show ?thesis using m r(2) by (simp add: tidies_def)
qed

lemma set_openupval_simps [simp]:
  "g_body g a = Some (GThread th) \<Longrightarrow> set_openupval a us g = set_body a (GThread (th\<lparr>th_openupval := us\<rparr>)) g"
  by (simp add: set_openupval_def with_thread_def)

lemma tidies_freeupval:
  assumes "upvals_linked g" "g_body g a = Some (GThread th)" "u \<in> set (th_openupval th)" "gc_isdead g u"
  shows "tidies g (gc_freeupval u (set_openupval a (remove1 u (th_openupval th)) g))"
proof -
  obtain i where u: "g_body g u = Some (GUpval (UOpen a i))" using linkedD(2) [OF assms(1-3)] by blast
  then have "u \<noteq> a" using assms(2) by auto
  then show ?thesis using assms(2,4) u
    by (intro tidies_unlink [OF assms(1-3) u])
      (auto simp: gc_freeupval_def unlinkupval_def free_bytes_def set_body_def gc_isdead_def otherwhite_def)
qed

lemma linkupval_unfold:
  "g_state g \<noteq> GCSpropagate \<Longrightarrow> luaC_linkupval u g = g\<lparr>g_rootgc := u # g_rootgc g\<rparr> \<or>
     luaC_linkupval u g = makewhite u (g\<lparr>g_rootgc := u # g_rootgc g\<rparr>)"
  by (simp add: luaC_linkupval_def Let_def)

text \<open>One round of \<^verbatim>\<open>luaF_close\<close> for a thread that is freed.\<close>

lemma tidies_close_round:
  assumes l: "sweepable g" and th: "g_body g a = Some (GThread th)" "th_openupval th = u # us" "gc_isdead g a"
    and u: "g_body g u = Some (GUpval (UOpen a i))"
    and e: "g1 = set_openupval a us g"
      "g2 = (if gc_isdead g1 u then gc_freeupval u g1
        else luaC_linkupval u (set_body u (GUpval (UClosed (uv_value g1 (UOpen a i)))) (unlinkupval u g1)))"
  shows "tidies g g2 \<and> g_body g2 a = Some (GThread (th\<lparr>th_openupval := us\<rparr>)) \<and> gc_isdead g2 a"
proof -
  have ua: "u \<noteq> a" using u th(1) by auto
  have ln: "upvals_linked g" and uin: "u \<in> set (th_openupval th)" and us: "us = remove1 u (th_openupval th)"
    using l th(2) by (simp_all add: sweepable_def)
  have g1: "g1 = set_body a (GThread (th\<lparr>th_openupval := us\<rparr>)) g" by (simp add: e(1) th(1))
  have d1: "gc_isdead g1 x = gc_isdead g x" for x by (rule gc_isdead_same) (simp_all add: g1 set_body_def)
  have v: "uv_value g1 (UOpen a i) = uv_value g (UOpen a i)" by (simp add: uv_value_def g1 set_body_def th(1))
  show ?thesis
  proof (cases "gc_isdead g u")
    case True
    then have f: "g2 = gc_freeupval u g1" by (simp add: e(2) d1)
    then have g2: "g2 = gc_freeupval u (set_openupval a (remove1 u (th_openupval th)) g)" by (simp only: e(1) us [symmetric])
    have b: "g_body g2 a = Some (GThread (th\<lparr>th_openupval := us\<rparr>))"
      using ua u by (simp add: f gc_freeupval_def unlinkupval_def free_bytes_def g1 set_body_def)
    have "gc_isdead g2 a = gc_isdead g a"
      by (rule gc_isdead_same) (use ua u in \<open>simp_all add: f gc_freeupval_def unlinkupval_def free_bytes_def g1 set_body_def\<close>)
    then show ?thesis using tidies_freeupval [OF ln th(1) uin True] b th(3) by (simp add: g2)
  next
    case False
    let ?g = "(set_body u (GUpval (UClosed (uv_value g (UOpen a i)))) (unlinkupval u g1))"
    have "g_state ?g \<noteq> GCSpropagate" using l by (simp add: sweepable_def set_body_def unlinkupval_def g1)
    from linkupval_unfold [OF this, of u]
    have c: "g2 = ?g\<lparr>g_rootgc := u # g_rootgc ?g\<rparr> \<or> g2 = makewhite u (?g\<lparr>g_rootgc := u # g_rootgc ?g\<rparr>)"
      by (simp add: e(2) False d1 v)
    have m: "gc_isdead (?g\<lparr>g_rootgc := u # g_rootgc ?g\<rparr>) x = gc_isdead g x" for x
      by (rule gc_isdead_same) (simp_all add: set_body_def unlinkupval_def g1)
    have ma: "gc_isdead g2 x = gc_isdead g x" if "x \<noteq> u" for x using c m makewhite_alive(2) [OF that] by auto
    have dd: "gc_isdead g x" if "gc_isdead g2 x" for x using c m ma makewhite_alive(1) that by (cases "x = u") auto
    have bd: "g_body g2 = (g_body g)(a \<mapsto> GThread (th\<lparr>th_openupval := remove1 u (th_openupval th)\<rparr>), u \<mapsto> GUpval (UClosed (uv_value g (UOpen a i))))"
      using c by (auto simp: set_body_def unlinkupval_def g1 us)
    have "tidies g g2"
      by (rule tidies_unlink [OF ln th(1) uin u disjI2 bd]) (use c dd th(3) in \<open>auto simp: set_body_def unlinkupval_def g1\<close>)
    then show ?thesis using bd ma [of a] ua th(3) us by simp
  qed
qed

lemma tidies_close:
  assumes "sweepable g" "g_body g a = Some (GThread th)" "th_openupval th = us" "gc_isdead g a"
  shows "tidies g (gc_close a 0 us g) \<and> g_body (gc_close a 0 us g) a = Some (GThread (th\<lparr>th_openupval := []\<rparr>)) \<and> gc_isdead (gc_close a 0 us g) a"
  using assms
proof (induction us arbitrary: g th)
  case Nil
  then show ?case by (simp add: tidies_refl)
next
  case (Cons u us)
  obtain i where u: "g_body g u = Some (GUpval (UOpen a i))" using linkedD(2) [of g a th u] Cons.prems by (auto simp: sweepable_def)
  define g1 where "g1 = set_openupval a us g"
  define g2 where "g2 = (if gc_isdead g1 u then gc_freeupval u g1
    else luaC_linkupval u (set_body u (GUpval (UClosed (uv_value g1 (UOpen a i)))) (unlinkupval u g1)))"
  from tidies_close_round [OF Cons.prems u g1_def g2_def]
  have r: "tidies g g2" "g_body g2 a = Some (GThread (th\<lparr>th_openupval := us\<rparr>))" "gc_isdead g2 a" by simp_all
  have "gc_close a 0 (u # us) g = gc_close a 0 us g2" by (simp add: u g1_def [symmetric] g2_def [symmetric] Let_def del: set_openupval_simps)
  then show ?case using Cons.IH [OF tidies_sweepable [OF Cons.prems(1) r(1)] r(2) _ r(3)] tidies_trans [OF r(1)] by simp
qed

lemma tidies_freeobj:
  assumes l: "sweepable g" and d: "gc_isdead g c" and op: "\<not> is_open g c"
  shows "tidies g (freeobj c g)"
proof (cases "g_body g c")
  case None
  then show ?thesis by (simp add: freeobj_def tidies_refl l)
next
  case (Some x)
  have ln: "upvals_linked g" using l by (simp add: sweepable_def)
  have free: "tidies g (free_bytes n c g)" if "\<And>th. x \<noteq> GThread th" for n
    by (rule tidies_free [OF ln d op]) (use Some that in simp)
  show ?thesis
  proof (cases x)
    case (GString h s)
    let ?g = "g\<lparr>g_nuse := g_nuse g - 1\<rparr>"
    have k: "kept_by g ?g" by (rule kept_by_same [OF ln]) (simp_all add: gc_isdead_def otherwhite_def)
    have "tidies ?g (free_bytes (sizestring s) c ?g)"
      by (rule tidies_free [OF kept_byD(1) [OF k]]) (use d op Some GString in \<open>simp_all add: gc_isdead_def otherwhite_def is_open_def\<close>)
    then show ?thesis using tidies_trans [of g ?g] k by (simp add: freeobj_def Some GString tidies_def)
  next
    case (GUpval p)
    then have "gc_freeupval c g = free_bytes sizeof_UpVal c g"
      using op Some by (cases p) (simp_all add: gc_freeupval_def is_open_def)
    then show ?thesis using free by (simp add: freeobj_def Some GUpval)
  next
    case (GThread th)
    from tidies_close [OF l Some [unfolded GThread] refl d] have
      r: "tidies g (gc_close c 0 (th_openupval th) g)" "gc_isdead (gc_close c 0 (th_openupval th) g) c"
        "g_body (gc_close c 0 (th_openupval th) g) c = Some (GThread (th\<lparr>th_openupval := []\<rparr>))" by simp_all
    have "tidies (gc_close c 0 (th_openupval th) g) (free_bytes n c (gc_close c 0 (th_openupval th) g))" for n
      by (rule tidies_free [OF _ r(2)]) (use r kept_byD(1) in \<open>auto simp: is_open_def tidies_def\<close>)
    then show ?thesis using tidies_trans [OF r(1)] by (simp add: freeobj_def Some GThread luaE_freethread_def with_thread_def)
  qed (use free in \<open>simp_all add: freeobj_def Some\<close>)
qed

subsection \<open>Sweeping a list\<close>

lemma sweep_test:
  assumes "one_white g" "(g_marked g c XOR WHITEBITS) AND otherwhite g = 0" shows "gc_isdead g c"
proof -
  have "\<not> bit ((g_marked g c XOR WHITEBITS) AND otherwhite g) n" for n by (simp add: assms(2))
  then have "\<not> bit (g_currentwhite g) n \<longrightarrow> bit (g_marked g c) n" if "n = 0 \<or> n = 1" for n
    using that by (auto simp: bit_and_iff bit_xor_iff otherwhite_def)
  then show ?thesis using assms(1) by (auto simp: gc_isdead_bits one_white_def)
qed

definition list_there :: "gclist \<Rightarrow> gcglobal \<Rightarrow> bool" where
  "list_there l g \<longleftrightarrow> (\<forall>i. l = LStr i \<longrightarrow> i < length (g_strt g))"

lemma list_not_open: "upvals_linked g \<Longrightarrow> list_there l g \<Longrightarrow> c \<in> set (get_list l g) \<Longrightarrow> (\<And>a. l \<noteq> LOpen a) \<Longrightarrow> \<not> is_open g c"
  using linkedD(4,5) [of g c] by (cases l) (auto simp: get_list_def list_there_def dest: nth_mem)

lemma concat_update: "set (concat (xs[i := y])) \<subseteq> set (concat xs) \<union> set y"
  using set_update_subset_insert [of xs i y] by auto

lemma tidies_set_list:
  assumes "sweepable g" "list_there l g" "\<And>a. l \<noteq> LOpen a" shows "tidies g (set_list l (remove1 c (get_list l g)) g)"
proof -
  have "set (concat ((g_strt g)[i := remove1 c (g_strt g ! i)])) \<subseteq> set (concat (g_strt g))" if "i < length (g_strt g)" for i
    using concat_update [of "g_strt g" i] set_remove1_subset [of c "g_strt g ! i"] nth_mem [OF that] by fastforce
  then have "kept_by g (set_list l (remove1 c (get_list l g)) g)"
    using assms by (cases l; intro kept_by_same)
      (simp_all add: sweepable_def list_there_def set_list_def get_list_def gc_isdead_def otherwhite_def set_remove1_subset del: set_concat)
  then show ?thesis using assms(3) by (cases l) (auto simp: tidies_def set_list_def)
qed

lemma tidies_round:
  assumes g: "sweepable g" "list_there l g" "c \<in> set (get_list l g)" and t: "\<And>a g. sweepable g \<Longrightarrow> tidies g (on_thread a g)"
  shows "tidies g (snd (sweep_round on_thread l p c g))"
proof -
  define g1 where "g1 = (case g_body g c of Some (GThread _) \<Rightarrow> on_thread c g | _ \<Rightarrow> g)"
  have f1: "tidies g g1" using t [OF g(1)] by (simp add: g1_def tidies_refl g(1) split: option.split gcbody.split)
  have s1: "sweepable g1" using tidies_sweepable [OF g(1) f1] .
  have w: "otherwhite g1 = otherwhite g" using f1 by (simp add: tidies_def kept_by_def otherwhite_def)
  let ?g = "set_list l (remove1 c (get_list l g1)) g1"
  show ?thesis
  proof (cases "(g_marked g1 c XOR WHITEBITS) AND otherwhite g \<noteq> 0")
    case True
    then have "snd (sweep_round on_thread l p c g) = makewhite c g1" by (simp add: sweep_round_def Let_def g1_def [symmetric])
    then show ?thesis using tidies_trans [OF f1 tidies_makewhite] s1 by (simp add: sweepable_def)
  next
    case False
    then have d: "gc_isdead g1 c" using sweep_test [of g1 c] s1 w by (simp add: sweepable_def)
    have e: "snd (sweep_round on_thread l p c g) = freeobj c ?g" using False by (simp add: sweep_round_def Let_def g1_def [symmetric])
    have "tidies g1 (freeobj c ?g)"
    proof (cases "\<exists>a. l = LOpen a")
      case True
      then obtain a where a: "l = LOpen a" by blast
      have "\<exists>th. Some (GThread th) = g_body g a \<and> c \<in> set (th_openupval th)"
        using g(3) by (simp add: a get_list_def split: option.splits gcbody.splits)
      then obtain th where th: "g_body g a = Some (GThread th)" "c \<in> set (th_openupval th)" by metis
      obtain i where c: "g_body g c = Some (GUpval (UOpen a i))" using linkedD(2) [OF _ th] g(1) by (auto simp: sweepable_def)
      then have "g1 = g" "c \<noteq> a" using th(1) by (auto simp: g1_def)
      moreover from this have "freeobj c ?g = gc_freeupval c (set_openupval a (remove1 c (th_openupval th)) g)"
        using th(1) c by (simp add: a set_list_def get_list_def freeobj_def set_body_def)
      ultimately show ?thesis using tidies_freeupval [OF _ th] d g(1) by (simp add: sweepable_def)
    next
      case False
      then have op: "\<not> is_open g1 c" using list_not_open [of g l c] g tidies_not_open [OF f1] by (auto simp: sweepable_def)
      have f2: "tidies g1 ?g"
        using tidies_set_list [OF s1] False g(2) f1 by (simp add: list_there_def tidies_def)
      have "gc_isdead ?g c = gc_isdead g1 c" by (rule gc_isdead_same) (use False in \<open>simp_all add: set_list_def split: gclist.split\<close>)
      moreover have "\<not> is_open ?g c" by (rule tidies_not_open [OF f2 op])
      ultimately show ?thesis using tidies_trans [OF f2 tidies_freeobj [OF tidies_sweepable [OF s1 f2]]] d by simp
    qed
    then show ?thesis using tidies_trans [OF f1] by (simp add: e)
  qed
qed

lemma next_at_mem: "next_at p xs = Some c \<Longrightarrow> c \<in> set xs"
proof -
  have "set (drop 1 (dropWhile P xs)) \<subseteq> set xs" for P using set_drop_subset [of 1 "dropWhile P xs"] set_dropWhileD [of _ P xs] by blast
  then show "next_at p xs = Some c \<Longrightarrow> c \<in> set xs"
    unfolding next_at_def by (cases p; auto split: list.splits; metis insert_subset list.simps(15))
qed

lemma tidies_loop:
  assumes "sweepable g" "list_there l g" and t: "\<And>a g. sweepable g \<Longrightarrow> tidies g (on_thread a g)"
  shows "tidies g (snd (sweep_loop on_thread n l p g))"
  using assms(1,2)
proof (induction n arbitrary: p g)
  case 0
  then show ?case by (simp add: tidies_refl)
next
  case (Suc n)
  show ?case
  proof (cases "next_at p (get_list l g)")
    case (Some c)
    obtain p' g' where e: "sweep_round on_thread l p c g = (p', g')" by fastforce
    have f: "tidies g g'" using tidies_round [where on_thread = on_thread and p = p, OF Suc.prems next_at_mem [OF Some] t] e by simp
    then have "sweepable g'" "list_there l g'" using tidies_sweepable Suc.prems by (auto simp: tidies_def list_there_def)
    from tidies_trans [OF f Suc.IH [OF this]] show ?thesis by (simp add: Some e)
  qed (simp add: tidies_refl Suc.prems)
qed

lemma tidies_sweep_upvals: "sweepable g \<Longrightarrow> tidies g (sweep_upvals a g)"
  unfolding sweep_upvals_def
  by (rule tidies_loop) (simp_all add: list_there_def tidies_refl)

lemma tidies_sweeplist: "sweepable g \<Longrightarrow> list_there l g \<Longrightarrow> tidies g (snd (sweeplist n l p g))"
  unfolding sweeplist_def by (rule tidies_loop [OF _ _ tidies_sweep_upvals])

lemma tidies_sweepwholelist: "sweepable g \<Longrightarrow> list_there l g \<Longrightarrow> tidies g (sweepwholelist l g)"
  unfolding sweepwholelist_def by (rule tidies_sweeplist)

subsection \<open>A collection\<close>

lemma resize_strings: "set (concat (fold (gc_chain_into g) xs t)) \<subseteq> set xs \<union> set (concat t)"
proof (induction xs arbitrary: t)
  case (Cons a xs)
  have "set (concat (gc_chain_into g a t)) \<subseteq> insert a (set (concat t))"
  proof -
    have "set (concat (t[i := a # t ! i])) \<subseteq> insert a (set (concat t))" for i
    proof (cases "i < length t")
      case True
      then show ?thesis using concat_update [of t i "a # t ! i"] nth_mem [OF True] by fastforce
    qed (simp add: list_update_beyond subset_insertI del: set_concat)
    then show ?thesis unfolding gc_chain_into_def Let_def by blast
  qed
  then show ?case using Cons.IH [of "gc_chain_into g a t"] by fastforce
qed simp

lemma kept_by_checkSizes:
  assumes "upvals_linked g" shows "kept_by g (checkSizes g)"
proof -
  have r: "kept_by g (gc_resize n g)" for n
    using resize_strings [of g "concat (g_strt g)" "replicate n []"]
    by (cases "g_state g = GCSsweepstring"; intro kept_by_same assms)
      (simp_all add: gc_resize_def gc_realloc_def gc_isdead_def otherwhite_def del: set_concat)
  have u: "kept_by f (gc_realloc m n (f\<lparr>g_buffsize := k\<rparr>))" if "upvals_linked f" for m n k f
    by (intro kept_by_same that) (simp_all add: gc_realloc_def gc_isdead_def otherwhite_def)
  have "kept_by g g" using kept_by_same [OF assms, of g] by simp
  then show ?thesis unfolding checkSizes_def Let_def
    using r u [OF assms] kept_by_trans [OF r u [OF kept_byD(1) [OF r]]] by simp
qed

text \<open>The sweep goes on in single steps, between which \<open>estimate\<close> and other counts change.\<close>

definition sweeping :: "gcglobal \<Rightarrow> bool" where
  "sweeping g \<longleftrightarrow> g_state g = GCSsweepstring \<or> g_state g = GCSsweep"

definition in_strings :: "gcglobal \<Rightarrow> bool" where
  "in_strings g \<longleftrightarrow> (g_state g = GCSsweepstring \<longrightarrow> g_sweepstr g < length (g_strt g))"

lemma kept_by_scalars:
  assumes "upvals_linked g" "g_body g' = g_body g" "g_marked g' = g_marked g" "g_currentwhite g' = g_currentwhite g"
    "g_rootgc g' = g_rootgc g" "g_strt g' = g_strt g"
  shows "kept_by g g'"
  by (rule kept_by_same) (use assms in \<open>simp_all add: gc_isdead_def otherwhite_def\<close>)

lemma singlestep_keeps:
  assumes "upvals_linked g" "one_white g" "sweeping g" "in_strings g"
  shows "kept_by g (snd (singlestep call l g)) \<and> in_strings (snd (singlestep call l g))"
proof (cases "g_state g = GCSsweepstring")
  case True
  define g1 where "g1 = sweepwholelist (LStr (g_sweepstr g)) g"
  have 1: "tidies g g1" unfolding g1_def
    by (rule tidies_sweepwholelist) (use assms True in \<open>simp_all add: sweepable_def list_there_def in_strings_def\<close>)
  then have "kept_by g1 (snd (singlestep call l g))"
    by (intro kept_by_scalars) (simp_all add: singlestep_def True Let_def g1_def tidies_def kept_by_def)
  moreover have "in_strings (snd (singlestep call l g))"
    by (simp add: singlestep_def True Let_def in_strings_def)
  ultimately show ?thesis using 1 kept_by_trans [of g g1] by (simp add: tidies_def)
next
  case False
  then have st: "g_state g = GCSsweep" using assms(3) by (simp add: sweeping_def)
  obtain p g1 where e: "sweeplist GCSWEEPMAX LRoot (g_sweepgc g) g = (p, g1)" by fastforce
  have 1: "tidies g g1"
    using tidies_sweeplist [of g LRoot GCSWEEPMAX "g_sweepgc g"] assms st by (simp add: e sweepable_def list_there_def)
  define g2 where "g2 = (if next_at p (g_rootgc g1) = None then checkSizes (g1\<lparr>g_sweepgc := p\<rparr>) else g1\<lparr>g_sweepgc := p\<rparr>)"
  have l1: "kept_by g g1" "upvals_linked g1" using 1 by (simp_all add: tidies_def kept_by_def)
  have p: "kept_by g1 (g1\<lparr>g_sweepgc := p\<rparr>)" by (rule kept_by_scalars) (simp_all add: l1)
  then have 2: "kept_by g1 g2" unfolding g2_def using kept_by_trans [OF p kept_by_checkSizes [OF kept_byD(1) [OF p]]] by simp
  have "kept_by g2 (snd (singlestep call l g))"
    by (rule kept_by_scalars [OF kept_byD(1) [OF 2]]) (simp_all add: singlestep_def st e Let_def g2_def)
  moreover have "g_state g1 = GCSsweep" using 1 st by (simp add: tidies_def)
  then have "in_strings (snd (singlestep call l g))" by (simp add: singlestep_def st e Let_def in_strings_def)
  ultimately show ?thesis using kept_by_trans [OF kept_by_trans [OF l1(1) 2]] by simp
qed

inductive sweeps :: "gccall \<Rightarrow> gcaddr \<Rightarrow> gcglobal \<Rightarrow> gcglobal \<Rightarrow> bool" for call l g where
  begins: "sweeps call l g g"
| step: "sweeps call l g g1 \<Longrightarrow> sweeping g1 \<Longrightarrow> sweeps call l g (snd (singlestep call l g1))"

lemma sweeps_keeps:
  assumes "sweeps call l g g'" "upvals_linked g" "one_white g" "in_strings g" shows "kept_by g g' \<and> in_strings g'"
  using assms(1)
proof induction
  case begins
  show ?case using kept_by_same [OF assms(2), of g] assms(4) by simp
next
  case (step g1)
  then have "one_white g1" "upvals_linked g1" using assms(3) by (simp_all add: kept_by_def one_white_def)
  from singlestep_keeps [OF this(2,1) step.hyps(2)] step.IH kept_by_trans [of g g1] show ?case by simp
qed

text \<open>
  What becomes of an object that is not freed. A thread keeps everything, its list of open upvalues without some that
  were dead; an upvalue keeps its value, in its own field when the thread with the slot was dead; any other
  object stays as it is.
\<close>

definition survives :: "gcglobal \<Rightarrow> gcglobal \<Rightarrow> gcaddr \<Rightarrow> bool" where
  "survives g g' a \<longleftrightarrow>
     \<not> gc_isdead g' a \<and>
     (\<exists>x x'. g_body g a = Some x \<and> g_body g' a = Some x' \<and>
        (case x of
           GThread th \<Rightarrow>
             \<exists>us. x' = GThread (th\<lparr>th_openupval := us\<rparr>) \<and> subseq us (th_openupval th) \<and>
                  (\<forall>u\<in>set (th_openupval th). gc_isdead g u \<or> u \<in> set us)
         | GUpval p \<Rightarrow>
             \<exists>q. x' = GUpval q \<and> uv_value g' q = uv_value g p \<and>
                 (q = p \<or> (\<exists>t i. p = UOpen t i \<and> gc_isdead g t \<and> q = UClosed (uv_value g p)))
         | _ \<Rightarrow> x' = x))"

lemma kept_by_survives:
  assumes l: "upvals_linked g" and k: "kept_by g g'" and a: "a \<in> allocated g" "\<not> gc_isdead g a"
  shows "survives g g' a"
proof -
  obtain x where x: "g_body g a = Some x" using a(1) by blast
  obtain x' where x': "g_body g' a = Some x'" using kept_byD(3) [OF k a] by blast
  have bk: "body_kept g x x'" using kept_byD(5) [OF k x'] x by simp
  have al: "\<not> gc_isdead g' a" by (rule kept_byD(4) [OF k a])
  show ?thesis
  proof (cases x)
    case (GThread th)
    then obtain us where us: "x' = GThread (th\<lparr>th_openupval := us\<rparr>)" "subseq us (th_openupval th)"
      using bk by (auto simp: body_kept_def intro: that [of "th_openupval th"])
    have "u \<in> set us" if u: "u \<in> set (th_openupval th)" "\<not> gc_isdead g u" for u
    proof -
      obtain i where i: "g_body g u = Some (GUpval (UOpen a i))" using linkedD(2) [OF l _ u(1)] x GThread by blast
      then obtain y where y: "g_body g' u = Some y" using kept_byD(3) [OF k _ u(2)] by blast
      then have "y = GUpval (UOpen a i)" using kept_byD(5) [OF k y] i a(2) by (auto simp: body_kept_def)
      then show ?thesis using linkedD(3) [OF kept_byD(1) [OF k], of u a i] y x' us(1) by auto
    qed
    then show ?thesis using al x x' us by (auto simp: survives_def GThread)
  next
    case (GUpval p)
    then consider "x' = GUpval p" | t i where "p = UOpen t i" "gc_isdead g t" "x' = GUpval (UClosed (uv_value g p))"
      using bk by (auto simp: body_kept_def)
    then show ?thesis
    proof cases
      case 1
      then have "uv_value g' p = uv_value g p" using open_value [OF k, of a] x' by (cases p) (simp_all add: uv_value_def)
      then show ?thesis using al x x' 1 by (simp add: survives_def GUpval)
    next
      case 2
      then have "uv_value g' (UClosed (uv_value g p)) = uv_value g p" by (simp add: uv_value_def [of g'])
      then show ?thesis using al x x' 2 by (auto simp: survives_def GUpval)
    qed
  qed (use bk al x x' in \<open>simp_all add: body_kept_def survives_def\<close>)
qed

text \<open>
  C16: A collection leaves alone what the program can reach: from the end of the mark phase to any point of the sweep,
  an object that could be reached when the marks were complete has not been freed, and it has the contents it had.
  Only the lists of open upvalues of a thread lose upvalues that are dead, and an open upvalue whose thread is dead is
  closed with the value of its slot. The open upvalues are in the lists of their threads at the start, and there is a
  table of strings.
\<close>

theorem reachable_survives:
  assumes "gc_marking l g" "one_white g" "upvals_linked g" "g_strt g \<noteq> []"
    and "gc_reachable l (gc_atomic l g) a" "sweeps call l (gc_atomic l g) g'"
  shows "survives (gc_atomic l g) g' a"
proof -
  have w: "one_white (gc_atomic l g)"
    using assms(2) by (auto simp: one_white_def atomic_currentwhite [OF assms(1)] otherwhite_def bit_xor_iff)
  have u: "upvals_linked (gc_atomic l g)" using atomic_linked(1) [OF assms(3)] gc_markingD(4) [OF assms(1)] by simp
  have s: "in_strings (gc_atomic l g)" unfolding in_strings_def atomic_linked(2)
    using assms(4) by (simp add: gc_atomic_def split: prod.split)
  show ?thesis
    using kept_by_survives [OF u] sweeps_keeps [OF assms(6) u w s] reachable_live [OF assms(1,5)]
      not_white_not_dead [of "gc_atomic l g" a "gc_atomic l g"] by simp
qed

lemma sample_one_white: "one_white sample_heap"
proof -
  have "g_currentwhite sample_heap = 33" by (simp add: sample_heap_def)
  moreover have "bit (33 :: 8 word) 0 \<noteq> bit (33 :: 8 word) 1" by code_simp
  ultimately show ?thesis by (simp add: one_white_def)
qed

lemma sample_linked: "upvals_linked sample_heap" "g_strt sample_heap \<noteq> []"
  by (auto simp: upvals_linked_def sample_body is_open_def split: if_splits) (simp add: sample_heap_def)

definition sample_swept :: gcglobal where
  "sample_swept = snd (singlestep (\<lambda>_ _ g. g) 0 (snd (singlestep (\<lambda>_ _ g. g) 0 (gc_atomic 0 sample_heap))))"

lemma sample_sweeps: "sweeps (\<lambda>_ _ g. g) 0 (gc_atomic 0 sample_heap) sample_swept"
proof -
  have "sweeping (gc_atomic 0 sample_heap)" by (simp add: sweeping_def gc_atomic_def split: prod.split)
  moreover have "g_state (snd (singlestep (\<lambda>_ _ g. g) 0 (gc_atomic 0 sample_heap))) = GCSsweep" by code_simp
  then have "sweeping (snd (singlestep (\<lambda>_ _ g. g) 0 (gc_atomic 0 sample_heap)))" by (simp add: sweeping_def)
  ultimately show ?thesis unfolding sample_swept_def by (intro sweeps.intros)
qed

lemma reachable_survives_witness: "survives (gc_atomic 0 sample_heap) sample_swept 2 \<and> g_body sample_swept 3 = None"
proof
  show "survives (gc_atomic 0 sample_heap) sample_swept 2"
    by (rule reachable_survives [OF sample_marking sample_one_white sample_linked sample_reachable sample_sweeps])
  show "g_body sample_swept 3 = None" by code_simp
qed

end
