(* ===== verification/HostPath.thy ===== *)
theory HostPath
  imports PathCore LuaAux
begin

section \<open>The path functions in Lua\<close>

text \<open>
  The C functions that scripts call as \<^verbatim>\<open>path.getabsolute\<close> and so on: they take their arguments from the
  Lua stack, run the algorithms of \<^verbatim>\<open>PathCore\<close> on their buffers, and push the result. Some take a table
  of paths and give a table of results. An overflow of a buffer is the error that \<open>PathCore\<close> gives.
\<close>

text \<open>
  The loops over a table of paths: the results get the indices from 1 on, in the order of the traversal. No field
  of the table changes, so that its number of slots bounds the rounds.
\<close>

fun each_path :: "callfun \<Rightarrow> (string \<Rightarrow> string res) \<Rightarrow> nat \<Rightarrow> int \<Rightarrow> unit lm" where
  "each_path call f 0 i = mfail OutOfFuel"
| "each_path call f (Suc fuel) i =
     mbind (lua_next 1) (\<lambda>more.
       if \<not> more then mret ()
       else
         mbind (luaL_checkstring call (- 1)) (\<lambda>value.
         mbind (mlift (f value)) (\<lambda>buffer.
         mseq (lua_pop 1)
         (mseq (lua_pushstring (Some buffer))
         (mseq (lua_rawseti (- 3) (i + 1))
           (each_path call f fuel (i + 1)))))))"

definition path_or_table :: "callfun \<Rightarrow> (string \<Rightarrow> string res) \<Rightarrow> int lm" where
  "path_or_table call f =
     mbind (lua_istable 1) (\<lambda>ist.
       if ist then
         mseq lua_newtable
         (mseq lua_pushnil
         (mbind (index_val 1) (\<lambda>v. mbind (tbl v) (\<lambda>(_, t).
          mseq (each_path call f (sizearray t + sizenode t + 1) 0) (mret 1)))))
       else
         mbind (luaL_checkstring call 1) (\<lambda>value.
         mbind (mlift (f value)) (\<lambda>buffer.
         mseq (lua_pushstring (Some buffer)) (mret 1))))"

definition path_getabsolute :: "getcwd \<Rightarrow> cfunction" where
  "path_getabsolute getcwd call =
     mbind lua_gettop (\<lambda>n.
     mbind (lua_isnil 2) (\<lambda>isnil.
     mbind (if n > 1 \<and> \<not> isnil then mbind (luaL_checkstring call 2) (\<lambda>s. mret (Some s)) else mret None) (\<lambda>relative_to.
       path_or_table call (\<lambda>value. do_getabsolute getcwd value relative_to))))"

definition path_getrelative :: "getcwd \<Rightarrow> cfunction" where
  "path_getrelative getcwd call =
     mbind (luaL_checkstring call 1) (\<lambda>p1.
     mbind (luaL_checkstring call 2) (\<lambda>p2.
     mbind (mlift (getrelative getcwd p1 p2)) (\<lambda>s.
     mseq (lua_pushstring (Some s)) (mret 1))))"

definition path_isabsolute :: cfunction where
  "path_isabsolute call =
     mbind (luaL_checkstring call (- 1)) (\<lambda>path.
     mseq (lua_pushboolean (do_isabsolute path)) (mret 1))"

text \<open>The arguments of \<^verbatim>\<open>path_join\<close> in order; a buffer is filled as they are checked.\<close>

primrec join_args :: "callfun \<Rightarrow> string \<Rightarrow> int list \<Rightarrow> string lm" where
  "join_args call buf [] = mret buf"
| "join_args call buf (i # is) =
     mbind (lua_isnil i) (\<lambda>isnil.
     mbind (if isnil then mret None else mbind (luaL_checkstring call i) (\<lambda>s. mret (Some s))) (\<lambda>part.
     mbind (mlift (join_part buf part)) (\<lambda>buf. join_args call buf is)))"

definition path_join :: cfunction where
  "path_join call =
     mbind lua_gettop (\<lambda>argc.
     mbind (join_args call [] [1..argc]) (\<lambda>buffer.
     mseq (lua_pushstring (Some buffer)) (mret 1)))"

definition path_normalize :: cfunction where
  "path_normalize call =
     mbind (luaL_checkstring call 1) (\<lambda>path.
     mbind (mlift (normalize path)) (\<lambda>s.
     mseq (lua_pushstring (Some s)) (mret 1)))"


text \<open>\<open>cap\<close> is the size of the caller's buffer.\<close>

definition do_normalize :: "callfun \<Rightarrow> nat \<Rightarrow> string \<Rightarrow> string lm" where
  "do_normalize call cap path =
     mbind lua_gettop (\<lambda>n.
     mseq (lua_getglobal call ''path'')
     (mseq (lua_getfield call (- 1) ''normalize'')
     (mseq (lua_pushstring (Some path))
     (mseq (lua_call call 1 1)
     (mbind (luaL_checkstring call (- 1)) (\<lambda>path.
      mbind (mlift (strcpy cap path)) (\<lambda>buffer.
      mseq (lua_settop n) (mret buffer))))))))"

text \<open>\<^verbatim>\<open>sep[0]\<close> is the terminator for an empty separator, which then ends the result.\<close>

definition path_translate :: cfunction where
  "path_translate call =
     mbind lua_gettop (\<lambda>n.
     mbind (if n = 1 then mret [backslash] else luaL_checkstring call 2) (\<lambda>sep.
       path_or_table call (\<lambda>value. translate value (char_at sep 0))))"

definition luaL_optstring :: "callfun \<Rightarrow> int \<Rightarrow> string option \<Rightarrow> string option lm" where
  "luaL_optstring call n d = mbind (luaL_optlstring call n d) (\<lambda>s. mret (map_option cstr s))"

definition string_endswith :: cfunction where
  "string_endswith call =
     mbind (luaL_optstring call 1 None) (\<lambda>haystack.
     mbind (luaL_optstring call 2 None) (\<lambda>needle.
       case endswith haystack needle of
         Some r \<Rightarrow> mseq (lua_pushboolean r) (mret 1)
       | None \<Rightarrow> mret 0))"

end
