(* ===== verification/HostOs.thy ===== *)
theory HostOs
  imports HostPath
begin

section \<open>The operating system functions\<close>

text \<open>
  \<^verbatim>\<open>os_*.c\<close> as they are compiled for Linux. What the operating system and the C library answer is the
  record \<open>os\<close>, an argument of the functions; the strings are C strings. The blocks of
  \<^verbatim>\<open>os_match.c\<close> are in a heap of their own.
\<close>

record stat =
  st_mode :: nat
  st_mtime :: int
  st_size :: int

text \<open>
  \<open>os_statf\<close> gives the number of the error or the result of \<^verbatim>\<open>stat\<close>; \<open>os_uname\<close> the system name and the
  release; \<open>os_opendir\<close> the names that \<^verbatim>\<open>readdir\<close> will give. \<open>os_link\<close> is what
  \<^verbatim>\<open>readlink\<close> puts into its buffer, and \<open>os_stackbytes\<close> what was in the buffer before.
\<close>

record os =
  os_cwd :: getcwd
  os_statf :: "string \<Rightarrow> int + stat"
  os_chdirf :: "string \<Rightarrow> bool"
  os_mkdirf :: "string \<Rightarrow> bool"
  os_rmdirf :: "string \<Rightarrow> bool"
  os_system :: "string \<Rightarrow> int"
  os_getenv :: "string \<Rightarrow> string option"
  os_urandom :: "string option"
  os_uname :: "(string \<times> string) option"
  os_opendir :: "string \<Rightarrow> string list option"
  os_fnmatch :: "string \<Rightarrow> string \<Rightarrow> bool"
  os_link :: "string option"
  os_stackbytes :: string

definition quote :: char where "quote = CHR 0x27"

text \<open>The pattern of the functions that do something: true, or nil and a message.\<close>

definition done_or :: "bool \<Rightarrow> string \<Rightarrow> string \<Rightarrow> int lm" where
  "done_or z msg path =
     (if \<not> z then mseq lua_pushnil (mseq (lua_pushfstring msg [FS (Some path)]) (mret 2))
      else mseq (lua_pushboolean True) (mret 1))"

definition os_chdir :: "os \<Rightarrow> cfunction" where
  "os_chdir os call =
     mbind (luaL_checkstring call 1) (\<lambda>path.
       done_or (os_chdirf os path) (''unable to switch to directory '' @ [quote] @ ''%s'' @ [quote]) path)"

definition os_copyfile :: "os \<Rightarrow> cfunction" where
  "os_copyfile os call =
     mbind (luaL_checkstring call 1) (\<lambda>src.
     mbind (luaL_checkstring call 2) (\<lambda>dst.
     mseq (lua_pushfstring ''cp %s %s'' [FS (Some src), FS (Some dst)])
     (mbind (lua_tostring (- 1)) (\<lambda>cmd.
       done_or (os_system os (the cmd) = 0) (''unable to copy file to '' @ [quote] @ ''%s'' @ [quote]) dst))))"

definition os_mkdir :: "os \<Rightarrow> cfunction" where
  "os_mkdir os call =
     mbind (luaL_checkstring call 1) (\<lambda>path.
       done_or (os_mkdirf os path) (''unable to create directory '' @ [quote] @ ''%s'' @ [quote]) path)"

definition os_rmdir :: "os \<Rightarrow> cfunction" where
  "os_rmdir os call =
     mbind (luaL_checkstring call 1) (\<lambda>path.
       done_or (os_rmdirf os path) (''unable to remove directory '' @ [quote] @ ''%s'' @ [quote]) path)"

definition do_getcwd :: "os \<Rightarrow> nat \<Rightarrow> bool \<times> string" where "do_getcwd os n = os_cwd os n"

definition os_getcwd :: "os \<Rightarrow> cfunction" where
  "os_getcwd os call =
     (case do_getcwd os 0x4000 of
        (ok, dir) \<Rightarrow> if ok then mseq (lua_pushstring (Some dir)) (mret 1) else mret 0)"

definition os_is64bit :: cfunction where "os_is64bit call = mseq (lua_pushboolean False) (mret 1)"

subsection \<open>Files\<close>

definition S_IFDIR :: nat where "S_IFDIR = 0x4000"
definition S_IFMT :: nat where "S_IFMT = 0xF000"
definition S_IFREG :: nat where "S_IFREG = 0x8000"
definition S_ISREG :: "nat \<Rightarrow> bool" where "S_ISREG m \<longleftrightarrow> and m S_IFMT = S_IFREG"

definition os_isdir :: "os \<Rightarrow> cfunction" where
  "os_isdir os call =
     mbind (luaL_checkstring call 1) (\<lambda>path.
       mseq (lua_pushboolean
               (if path = [] then True
                else case os_statf os path of Inr st \<Rightarrow> and (st_mode st) S_IFDIR \<noteq> 0 | Inl _ \<Rightarrow> False))
         (mret 1))"

definition do_isfile :: "os \<Rightarrow> string \<Rightarrow> bool" where
  "do_isfile os filename = (case os_statf os filename of Inr st \<Rightarrow> and (st_mode st) S_IFDIR = 0 | Inl _ \<Rightarrow> False)"

definition os_isfile :: "os \<Rightarrow> cfunction" where
  "os_isfile os call =
     mbind (luaL_checkstring call 1) (\<lambda>filename. mseq (lua_pushboolean (do_isfile os filename)) (mret 1))"

definition EACCES :: int where "EACCES = 13"
definition ENOENT :: int where "ENOENT = 2"

definition os_stat :: "os \<Rightarrow> cfunction" where
  "os_stat os call =
     mbind (luaL_checkstring call 1) (\<lambda>filename.
       case os_statf os filename of
         Inl errno \<Rightarrow>
           mseq lua_pushnil
           (mseq (if errno = EACCES then lua_pushfstring ([quote] @ ''%s'' @ [quote] @ '' could not be accessed'') [FS (Some filename)]
                  else if errno = ENOENT then lua_pushfstring ([quote] @ ''%s'' @ [quote] @ '' was not found'') [FS (Some filename)]
                  else lua_pushfstring (''An  unknown error %d occured while accessing '' @ [quote] @ ''%s'' @ [quote])
                         [FD errno, FS (Some filename)])
             (mret 2))
       | Inr s \<Rightarrow>
           mseq lua_newtable
           (mseq (lua_pushstring (Some ''mtime''))
           (mseq (lua_pushinteger (st_mtime s))
           (mseq (lua_settable call (- 3))
           (mseq (lua_pushstring (Some ''size''))
           (mseq (lua_pushnumber (int2num (st_size s)))
           (mseq (lua_settable call (- 3))
             (mret 1))))))))"

subsection \<open>Searching a path\<close>

text \<open>One argument: the directories between semicolons and colons, each tried in turn.\<close>

definition next_piece :: "string \<Rightarrow> string \<times> string option" where
  "next_piece path =
     (let p = takeWhile (\<lambda>c. c \<noteq> CHR '';'' \<and> c \<noteq> CHR '':'') path in
      (p, if length p < length path then Some (drop (length p + 1) path) else None))"

function search_pieces :: "os \<Rightarrow> callfun \<Rightarrow> string \<Rightarrow> bool lm" where
  "search_pieces os call path =
     (let (piece, rest) = next_piece path in
      mseq (lua_pushlstring piece)
      (mseq (lua_pushvalue (- 1))
      (mseq (lua_pushstring (Some ''/''))
      (mseq (lua_pushvalue 1)
      (mseq (lua_concat call 3)
      (mbind (lua_tostring (- 1)) (\<lambda>file.
       if do_isfile os (the file) then mseq (lua_pop 1) (mret True)
       else
         mseq (lua_pop 2)
           (case rest of None \<Rightarrow> mret False | Some path \<Rightarrow> search_pieces os call path)))))))) "
  by pat_completeness auto
termination
  by (relation "measure (\<lambda>(_, _, s). length s)") (auto simp: next_piece_def Let_def split: if_splits)

declare search_pieces.simps [simp del]

text \<open>
  The arguments from the second on. A search that finds nothing leaves the stack as it was, so that the number of
  arguments does not change; \<open>k\<close> counts them.
\<close>

fun search_args :: "os \<Rightarrow> callfun \<Rightarrow> nat \<Rightarrow> int \<Rightarrow> int lm" where
  "search_args os call 0 i = mret 0"
| "search_args os call (Suc k) i =
     mbind (lua_isnil i) (\<lambda>isnil.
       if isnil then search_args os call k (i + 1)
       else
         mbind (luaL_checkstring call i) (\<lambda>path.
         mbind (search_pieces os call path) (\<lambda>found.
           if found then mret 1 else search_args os call k (i + 1))))"

definition os_pathsearch :: "os \<Rightarrow> cfunction" where
  "os_pathsearch os call = mbind lua_gettop (\<lambda>n. search_args os call (nat (n - 1)) 2)"

subsection \<open>Versions and identifiers\<close>

record OsVersionInfo =
  majorversion :: int
  minorversion :: int
  revision :: int
  description :: string

definition PLATFORM_STRING :: string where "PLATFORM_STRING = ''linux''"

text \<open>\<^verbatim>\<open>atoi\<close>: white space, a sign and digits.\<close>

definition atoi :: "string \<Rightarrow> int" where
  "atoi s =
     (let s = dropWhile isspace s; neg = (char_at s 0 = CHR ''-'');
          s = (if char_at s 0 = CHR ''-'' \<or> char_at s 0 = CHR ''+'' then drop 1 s else s);
          n = int (digits_val 10 (takeWhile isdigit s)) in
      cast_int (if neg then - n else n))"

definition getversion :: "os \<Rightarrow> OsVersionInfo" where
  "getversion os =
     (let info = \<lparr>majorversion = 0, minorversion = 0, revision = 0, description = PLATFORM_STRING\<rparr> in
      case os_uname os of
        None \<Rightarrow> info
      | Some (sysname, release) \<Rightarrow>
          let info = info\<lparr>description := sysname\<rparr> in
          case strtok ''.-'' release of
            None \<Rightarrow> info
          | Some (ver, r) \<Rightarrow>
              let info = info\<lparr>majorversion := atoi ver\<rparr> in
              case strtok ''.-'' r of
                None \<Rightarrow> info
              | Some (ver, r) \<Rightarrow>
                  let info = info\<lparr>minorversion := atoi ver\<rparr> in
                  case strtok ''.-'' r of
                    None \<Rightarrow> info
                  | Some (ver, r) \<Rightarrow> info\<lparr>revision := atoi ver\<rparr>)"

definition os_getversion :: "os \<Rightarrow> cfunction" where
  "os_getversion os call =
     (let info = getversion os in
      mseq lua_newtable
      (mseq (lua_pushstring (Some ''majorversion'')) (mseq (lua_pushnumber (int2num (majorversion info))) (mseq (lua_settable call (- 3))
      (mseq (lua_pushstring (Some ''minorversion'')) (mseq (lua_pushnumber (int2num (minorversion info))) (mseq (lua_settable call (- 3))
      (mseq (lua_pushstring (Some ''revision'')) (mseq (lua_pushnumber (int2num (revision info))) (mseq (lua_settable call (- 3))
      (mseq (lua_pushstring (Some ''description'')) (mseq (lua_pushstring (Some (description info))) (mseq (lua_settable call (- 3))
        (mret 1))))))))))))))"

definition hex_digit :: "nat \<Rightarrow> char" where
  "hex_digit d = (if d < 10 then char_of (48 + d) else char_of (55 + d))"

definition hex_byte :: "char \<Rightarrow> string" where
  "hex_byte c = [hex_digit (uchar c div 16), hex_digit (uchar c mod 16)]"

definition uuid_text :: "string \<Rightarrow> string" where
  "uuid_text bytes =
     (let h = (\<lambda>i n. concat (map hex_byte (take n (drop i bytes)))) in
      h 0 4 @ ''-'' @ h 4 2 @ ''-'' @ h 6 2 @ ''-'' @ h 8 2 @ ''-'' @ h 10 6)"

text \<open>\<open>os_urandom\<close> is \<open>None\<close> when the device gives no 16 bytes.\<close>

definition os_uuid :: "os \<Rightarrow> cfunction" where
  "os_uuid os call =
     (case os_urandom os of
        None \<Rightarrow> mret 0
      | Some bytes \<Rightarrow>
          mbind (mlift (strcpy 38 (uuid_text (take 16 bytes)))) (\<lambda>uuid.
          mseq (lua_pushstring (Some uuid)) (mret 1)))"

subsection \<open>Matching files\<close>

text \<open>
  \<^verbatim>\<open>MatchInfo\<close>: the names still to come from the directory, if it could be opened, and the current
  one. The heap gives the block at an address; using a block that is not there has no meaning.
\<close>

record MatchInfo =
  m_handle :: "string list option"
  m_entry :: "string option"
  m_path :: string
  m_mask :: string

type_synonym match_heap = "nat \<Rightarrow> MatchInfo option"

text \<open>\<open>a\<close> is the address that \<^verbatim>\<open>malloc\<close> gives.\<close>

definition os_matchstart :: "os \<Rightarrow> nat \<Rightarrow> match_heap \<Rightarrow> callfun \<Rightarrow> (int \<times> match_heap) lm" where
  "os_matchstart os a h call =
     mbind (luaL_checkstring call 1) (\<lambda>mask.
       let (path, name) = (case strrchr mask slash of Some i \<Rightarrow> (take i mask, drop (i + 1) mask) | None \<Rightarrow> (''.'', mask)) in
       mseq (lua_pushlightuserdata a)
         (mret (1, h(a \<mapsto> \<lparr>m_handle = os_opendir os path, m_entry = None, m_path = path, m_mask = name\<rparr>))))"

definition match_info :: "match_heap \<Rightarrow> (nat \<times> MatchInfo) lm" where
  "match_info h =
     mbind (lua_touserdata 1) (\<lambda>p.
       case p of
         None \<Rightarrow> mfail UndefinedAccess
       | Some a \<Rightarrow> (case h a of None \<Rightarrow> mfail UndefinedAccess | Some m \<Rightarrow> mret (a, m)))"

definition os_matchdone :: "match_heap \<Rightarrow> (int \<times> match_heap) lm" where
  "os_matchdone h = mbind (match_info h) (\<lambda>(a, m). mret (0, h(a := None)))"

definition os_matchname :: "match_heap \<Rightarrow> int lm" where
  "os_matchname h =
     mbind (match_info h) (\<lambda>(a, m).
       case m_entry m of
         None \<Rightarrow> mfail UndefinedAccess
       | Some name \<Rightarrow> mseq (lua_pushstring (Some name)) (mret 1))"

definition os_matchisfile :: "os \<Rightarrow> match_heap \<Rightarrow> int lm" where
  "os_matchisfile os h =
     mbind (match_info h) (\<lambda>(a, m).
       case m_entry m of
         None \<Rightarrow> mfail UndefinedAccess
       | Some name \<Rightarrow>
           mseq (lua_pushfstring ''%s/%s'' [FS (Some (m_path m)), FS (Some name)])
           (mbind (lua_tostring (- 1)) (\<lambda>fname.
            mseq (lua_pop 1)
              (case os_statf os (the fname) of
                 Inr st \<Rightarrow> mseq (lua_pushboolean (S_ISREG (st_mode st))) (mret 1)
               | Inl _ \<Rightarrow> mret 0))))"

text \<open>The loop over \<^verbatim>\<open>readdir\<close>: the first name that matches, and those after it.\<close>

fun next_match :: "(string \<Rightarrow> bool) \<Rightarrow> string list \<Rightarrow> (string \<times> string list) option" where
  "next_match p [] = None"
| "next_match p (n # ns) = (if p n then Some (n, ns) else next_match p ns)"

definition os_matchnext :: "os \<Rightarrow> match_heap \<Rightarrow> (int \<times> match_heap) lm" where
  "os_matchnext os h =
     mbind (match_info h) (\<lambda>(a, m).
       case m_handle m of
         None \<Rightarrow> mret (0, h)
       | Some names \<Rightarrow>
           (case next_match (os_fnmatch os (m_mask m)) names of
              Some (name, rest) \<Rightarrow>
                mseq (lua_pushboolean True) (mret (1, h(a \<mapsto> m\<lparr>m_handle := Some rest, m_entry := Some name\<rparr>)))
            | None \<Rightarrow> mret (0, h(a \<mapsto> m\<lparr>m_handle := Some [], m_entry := None\<rparr>))))"

end
