(* ===== verification/HostMain.thy ===== *)
theory HostMain
  imports HostOs
begin

section \<open>The program\<close>

text \<open>
  \<^verbatim>\<open>premake.c\<close> and \<^verbatim>\<open>premake_main.c\<close>: the registration of the functions, the command line, and
  the start of the scripts. The static variable \<^verbatim>\<open>scripts_path\<close> and what has been printed are a state
  that the functions take and give back. \<open>ptr\<close> gives the pointers of the C functions by their names.
\<close>

record premake =
  scripts_path :: "string option"
  printed :: string

definition OKAY :: int where "OKAY = 0"
definition VERSION :: string where "VERSION = ''HEAD''"
definition COPYRIGHT :: string where "COPYRIGHT = ''Copyright (C) 2002-2013 Jason Perkins and the Premake Project''"
definition LUA_COPYRIGHT :: string where "LUA_COPYRIGHT = ''Copyright (C) 1994-2008 Lua.org, PUC-Rio''"


subsection \<open>Built-in functions\<close>

definition path_functions :: "(string \<Rightarrow> nat) \<Rightarrow> luaL_Reg list" where
  "path_functions ptr =
     [(''getabsolute'', ptr ''path_getabsolute''), (''getrelative'', ptr ''path_getrelative''),
      (''isabsolute'', ptr ''path_isabsolute''), (''join'', ptr ''path_join''), (''normalize'', ptr ''path_normalize''),
      (''translate'', ptr ''path_translate'')]"

definition os_functions :: "(string \<Rightarrow> nat) \<Rightarrow> luaL_Reg list" where
  "os_functions ptr =
     [(''chdir'', ptr ''os_chdir''), (''copyfile'', ptr ''os_copyfile''), (''_is64bit'', ptr ''os_is64bit''),
      (''isdir'', ptr ''os_isdir''), (''getcwd'', ptr ''os_getcwd''), (''getversion'', ptr ''os_getversion''),
      (''isfile'', ptr ''os_isfile''), (''matchdone'', ptr ''os_matchdone''), (''matchisfile'', ptr ''os_matchisfile''),
      (''matchname'', ptr ''os_matchname''), (''matchnext'', ptr ''os_matchnext''), (''matchstart'', ptr ''os_matchstart''),
      (''mkdir'', ptr ''os_mkdir''), (''pathsearch'', ptr ''os_pathsearch''), (''rmdir'', ptr ''os_rmdir''),
      (''stat'', ptr ''os_stat''), (''uuid'', ptr ''os_uuid'')]"

definition string_functions :: "(string \<Rightarrow> nat) \<Rightarrow> luaL_Reg list" where
  "string_functions ptr = [(''endswith'', ptr ''string_endswith'')]"

definition premake_init :: "(string \<Rightarrow> nat) \<Rightarrow> callfun \<Rightarrow> int lm" where
  "premake_init ptr call =
     mseq (luaL_register call (Some ''path'') (path_functions ptr))
     (mseq (luaL_register call (Some ''os'') (os_functions ptr))
     (mseq (luaL_register call (Some ''string'') (string_functions ptr))
     (mseq (lua_pushstring (Some LUA_COPYRIGHT))
     (mseq (lua_setglobal call ''_COPYRIGHT'')
     (mseq (lua_pushstring (Some VERSION))
     (mseq (lua_setglobal call ''_PREMAKE_VERSION'')
     (mseq (lua_pushstring (Some COPYRIGHT))
     (mseq (lua_setglobal call ''_PREMAKE_COPYRIGHT'')
     (mseq (lua_pushstring (Some PLATFORM_STRING))
     (mseq (lua_setglobal call ''_OS'')
       (mret OKAY)))))))))))"

text \<open>The standard libraries; \<open>ptr\<close> gives their functions that open them.\<close>

definition lualibs :: "(string \<Rightarrow> nat) \<Rightarrow> luaL_Reg list" where
  "lualibs ptr =
     [('''', ptr ''luaopen_base''), (''package'', ptr ''luaopen_package''), (''table'', ptr ''luaopen_table''),
      (''io'', ptr ''luaopen_io''), (''os'', ptr ''luaopen_os''), (''string'', ptr ''luaopen_string''),
      (''math'', ptr ''luaopen_math''), (''debug'', ptr ''luaopen_debug'')]"

primrec open_all :: "callfun \<Rightarrow> luaL_Reg list \<Rightarrow> unit lm" where
  "open_all call [] = mret ()"
| "open_all call (lib # libs) =
     mseq (lua_pushcfunction (snd lib)) (mseq (lua_pushstring (Some (fst lib))) (mseq (lua_call call 1 0) (open_all call libs)))"

definition luaL_openlibs :: "(string \<Rightarrow> nat) \<Rightarrow> callfun \<Rightarrow> unit lm" where
  "luaL_openlibs ptr call = open_all call (lualibs ptr)"

subsection \<open>The command line\<close>

text \<open>\<open>P\<close> is the state of the program.\<close>

definition process_option :: "callfun \<Rightarrow> string \<Rightarrow> premake \<Rightarrow> premake lm" where
  "process_option call arg P =
     mbind (case strchr arg (CHR ''='') of
              Some len \<Rightarrow> mret (take (min len 511) arg, drop (len + 1) arg)
            | None \<Rightarrow> mbind (mlift (strcpy 512 arg)) (\<lambda>key. mret (key, []))) (\<lambda>(key, val).
     mseq (lua_pushstring (Some val))
     (mseq (lua_setfield call (- 3) key)
       (mret (if key = ''scripts'' \<and> val \<noteq> []
              then P\<lparr>scripts_path := Some val, printed := printed P @ ''Scripts path: '' @ val @ [CHR 0x0A]\<rparr> else P))))"

text \<open>What follows the action: all of it goes into the list on the top.\<close>

primrec process_rest :: "string list \<Rightarrow> unit lm" where
  "process_rest [] = mret ()"
| "process_rest (a # as) =
     mseq (lua_pushstring (Some a))
     (mseq (mbind (mbind (lua_objlen (- 2)) (\<lambda>n. mret (cast_int (int n)))) (\<lambda>n. lua_rawseti (- 2) (n + 1)))
       (process_rest as))"

fun process_args :: "callfun \<Rightarrow> string list \<Rightarrow> premake \<Rightarrow> premake lm" where
  "process_args call [] P = mret P"
| "process_args call (a # as) P =
     (if char_at a 0 = CHR ''/'' then mbind (process_option call (drop 1 a) P) (process_args call as)
      else if char_at a 0 = CHR ''-'' \<and> char_at a 1 = CHR ''-'' then mbind (process_option call (drop 2 a) P) (process_args call as)
      else
        mseq (lua_pushstring (Some a))
        (mseq (lua_setglobal call ''_ACTION'')
        (mseq (process_rest as)
          (mret P))))"

definition process_arguments :: "callfun \<Rightarrow> string list \<Rightarrow> premake \<Rightarrow> (int \<times> premake) lm" where
  "process_arguments call argv P =
     mseq lua_newtable
     (mseq lua_newtable
     (mbind (process_args call (drop 1 argv) P) (\<lambda>P.
     mseq (lua_setglobal call ''_ARGS'')
     (mseq (lua_setglobal call ''_OPTIONS'')
       (mret (OKAY, P))))))"

subsection \<open>Starting the scripts\<close>

text \<open>\<^verbatim>\<open>printf (ERROR_MESSAGE, ...)\<close>; a null pointer is printed as glibc does.\<close>

definition print_error :: "string option \<Rightarrow> premake \<Rightarrow> premake" where
  "print_error s P = P\<lparr>printed := printed P @ (case s of Some s \<Rightarrow> s | None \<Rightarrow> ''(null)'') @ [CHR 0x0A]\<rparr>"

text \<open>\<^verbatim>\<open>luaL_dofile\<close> and \<^verbatim>\<open>luaL_dostring\<close>: whether there was an error.\<close>

definition luaL_dofile :: "files \<Rightarrow> callfun \<Rightarrow> LoadF parser \<Rightarrow> string \<Rightarrow> bool lm" where
  "luaL_dofile fs call parser fn =
     mbind (luaL_loadfile fs call parser (Some fn)) (\<lambda>z.
       if z \<noteq> 0 then mret True else mbind (lua_pcall call 0 LUA_MULTRET 0) (\<lambda>z. mret (z \<noteq> 0)))"

definition luaL_dostring :: "callfun \<Rightarrow> LoadS parser \<Rightarrow> string \<Rightarrow> bool lm" where
  "luaL_dostring call parser s =
     mbind (luaL_loadstring call parser s) (\<lambda>z.
       if z \<noteq> 0 then mret True else mbind (lua_pcall call 0 LUA_MULTRET 0) (\<lambda>z. mret (z \<noteq> 0)))"

text \<open>The end of both ways: the call of the main function, and its result.\<close>

definition run_main :: "callfun \<Rightarrow> nat \<Rightarrow> int \<Rightarrow> premake \<Rightarrow> (int \<times> premake) lm" where
  "run_main call nargs errf P =
     mbind (lua_pcall call nargs 1 errf) (\<lambda>z.
       if z \<noteq> OKAY then mbind (lua_tostring (- 1)) (\<lambda>s. mret (1, print_error s P))
       else mbind (lua_tonumber (- 1)) (\<lambda>d. mret (number2int d, P)))"

definition load_file_scripts :: "os \<Rightarrow> (string \<Rightarrow> nat) \<Rightarrow> files \<Rightarrow> LoadF parser \<Rightarrow> callfun \<Rightarrow> premake \<Rightarrow> (int \<times> premake) lm" where
  "load_file_scripts os ptr fs parser call P =
     mseq (lua_pushcfunction (ptr ''os_pathsearch''))
     (mseq (lua_pushstring (Some ''_premake_main.lua''))
     (mseq (lua_pushstring (scripts_path P))
     (mseq (lua_pushstring (os_getenv os ''PREMAKE_PATH''))
     (mseq (lua_call call 3 1)
     (mbind (lua_isnil (- 1)) (\<lambda>isnil.
       if isnil then
         mret (1, print_error (Some (''Unable to find _premake_main.lua; use /scripts option when in debug mode!'' @ [CHR 0x0A] @
           ''Please refer to the documentation (or build in release mode instead).'')) P)
       else
         mbind (lua_tostring (- 1)) (\<lambda>path.
         let P = P\<lparr>scripts_path := path\<rparr> in
         mseq (lua_pushfstring ''%s/_premake_main.lua'' [FS path])
         (mbind (lua_tostring (- 1)) (\<lambda>filename.
         mbind (luaL_dofile fs call parser (the filename)) (\<lambda>err.
           if err then mbind (lua_tostring (- 1)) (\<lambda>s. mret (1, print_error s P))
           else
             mseq (lua_getglobal call ''debug'')
             (mseq (lua_getfield call (- 1) ''traceback'')
             (mseq (lua_getglobal call ''_premake_main'')
             (mseq (lua_pushstring path)
               (run_main call 1 (- 3) P))))))))))))))"

text \<open>The chunks of \<^verbatim>\<open>builtin_scripts\<close>, up to the first with an error.\<close>

primrec do_chunks :: "callfun \<Rightarrow> LoadS parser \<Rightarrow> string list \<Rightarrow> bool lm" where
  "do_chunks call parser [] = mret False"
| "do_chunks call parser (s # ss) =
     mbind (luaL_dostring call parser s) (\<lambda>err. if err then mret True else do_chunks call parser ss)"

definition load_builtin_scripts :: "string list \<Rightarrow> LoadS parser \<Rightarrow> callfun \<Rightarrow> premake \<Rightarrow> (int \<times> premake) lm" where
  "load_builtin_scripts builtin_scripts parser call P =
     mbind (do_chunks call parser builtin_scripts) (\<lambda>err.
       if err then mbind (lua_tostring (- 1)) (\<lambda>s. mret (1, print_error s P))
       else mseq (lua_getglobal call ''_premake_main'') (run_main call 0 0 P))"

text \<open>\<open>debug\<close> is whether \<^verbatim>\<open>NDEBUG\<close> is not defined; \<open>chunks\<close> are the scripts in the program.\<close>

definition premake_execute ::
  "bool \<Rightarrow> os \<Rightarrow> (string \<Rightarrow> nat) \<Rightarrow> files \<Rightarrow> LoadF parser \<Rightarrow> LoadS parser \<Rightarrow> string list \<Rightarrow> callfun \<Rightarrow> string list \<Rightarrow> premake \<Rightarrow>
     (int \<times> premake) lm" where
  "premake_execute debug os ptr fs fparser sparser chunks call argv P =
     mbind (process_arguments call argv P) (\<lambda>(z, P).
       if z \<noteq> OKAY then mret (z, P)
       else if debug \<or> scripts_path P \<noteq> None then load_file_scripts os ptr fs fparser call P
       else load_builtin_scripts chunks sparser call P)"

subsection \<open>Where the program is\<close>

definition PATH_MAX :: nat where "PATH_MAX = 4096"

text \<open>
  \<^verbatim>\<open>readlink\<close> writes no terminator: the string in the buffer goes on with what the buffer held before.
\<close>

definition exe_path :: "os \<Rightarrow> string option res" where
  "exe_path os =
     (case os_link os of
        None \<Rightarrow> Inr None
      | Some link \<Rightarrow>
          if link = [] then Inr None
          else
            let len = min (length link) PATH_MAX; buf = take len link @ take (PATH_MAX - len) (drop len (os_stackbytes os)) in
            if NUL \<in> set buf then Inr (Some (cstr buf)) else Inl UndefinedAccess)"

definition premake_locate :: "os \<Rightarrow> (string \<Rightarrow> nat) \<Rightarrow> callfun \<Rightarrow> string \<Rightarrow> int lm" where
  "premake_locate os ptr call argv0 =
     mbind (mlift (exe_path os)) (\<lambda>path.
     mbind (case path of
              Some p \<Rightarrow> mret (Some p)
            | None \<Rightarrow>
                mseq (lua_pushcfunction (ptr ''os_pathsearch''))
                (mseq (lua_pushstring (Some argv0))
                (mseq (lua_pushstring (os_getenv os ''PATH''))
                (mbind (lua_pcall call 2 1 0) (\<lambda>z.
                 mbind (if z = OKAY then lua_isnil (- 1) else mret True) (\<lambda>isnil.
                   if isnil then mret None
                   else
                     mseq (lua_pushstring (Some ''/''))
                     (mseq (lua_pushstring (Some argv0))
                     (mseq (lua_concat call 3)
                       (lua_tostring (- 1)))))))))) (\<lambda>path.
     mbind (case path of
              Some p \<Rightarrow> mret (Some p)
            | None \<Rightarrow>
                mbind (os_getcwd os call) (\<lambda>_.
                mseq (lua_pushstring (Some ''/''))
                (mseq (lua_pushstring (Some argv0))
                (mbind (path_isabsolute call) (\<lambda>r.
                mseq (if r = 0 then lua_concat call 3 else lua_pop 1)
                  (lua_tostring (- 1))))))) (\<lambda>path.
     mseq (lua_pushstring path) (mret 1))))"

definition main ::
  "bool \<Rightarrow> os \<Rightarrow> (string \<Rightarrow> nat) \<Rightarrow> files \<Rightarrow> LoadF parser \<Rightarrow> LoadS parser \<Rightarrow> string list \<Rightarrow> callfun \<Rightarrow> string list \<Rightarrow>
     (int \<times> premake) lm" where
  "main debug os ptr fs fparser sparser chunks call argv =
     mseq (luaL_openlibs ptr call)
     (mbind (premake_init ptr call) (\<lambda>z.
      mbind (premake_locate os ptr call (argv ! 0)) (\<lambda>_.
      mseq (lua_setglobal call ''_PREMAKE_COMMAND'')
        (if z = OKAY
         then premake_execute debug os ptr fs fparser sparser chunks call argv \<lparr>scripts_path = None, printed = []\<rparr>
         else mret (z, \<lparr>scripts_path = None, printed = []\<rparr>)))))"

end
