(* ===== verification/Spec2Isabelle.thy ===== *)
theory Spec2Isabelle
  imports PathRelative PathJoin LuaTableMap LuaString LuaChecker LuaUndump LuaMetaFacts LuaVMFacts LuaAux LuaPatternFacts LuaStrlib LuaSort LuaLexEnds LuaBaselib LuaMathlib LuaGcSweep HostMain
begin

text \<open>
  Premake 4.x generates project files. Its program, \<^verbatim>\<open>src/old/src/host/\<close>, is a small C host
  (\<^verbatim>\<open>premake.c\<close>, \<^verbatim>\<open>path_*.c\<close>, \<^verbatim>\<open>os_*.c\<close>) around the Lua 5.1.4 virtual machine
  (\<^verbatim>\<open>lua-5.1.4/src/\<close>), which compiles and runs the scripts that do the rest. This development models the C code:
  the host, the compiler, the interpreter with its data structures, the API and the libraries of the machine.

  The parts and how they meet. \<^verbatim>\<open>main\<close> makes a state, registers the libraries of Lua and of the host through
  the API, reads the command line into Lua tables and runs the scripts. A script goes through a buffered stream
  (\<^verbatim>\<open>lzio.c\<close>) either to the loader of precompiled chunks (\<^verbatim>\<open>lundump.c\<close>, whose result the code checker of
  \<^verbatim>\<open>ldebug.c\<close> has to accept) or to the scanner, parser and code generator; both give a prototype, the code of a
  function. \<^verbatim>\<open>luaV_execute\<close> runs it on the stack of the state; tables, interned strings, upvalues and metamethods
  are what its instructions work on; \<^verbatim>\<open>ldo.c\<close> does the calls, from the interpreter and from C, and catches errors.
  The C functions that scripts call take their arguments from the stack through the API.

  Theories, bottom up:

  \<^item> \<^verbatim>\<open>Prelude\<close>: results of C code with its failures as values (\<open>fault\<close>: a write past a buffer, a read of
    unset memory), C strings and the functions of \<^verbatim>\<open>string.h\<close>, lemmas on lists.
  \<^item> \<^verbatim>\<open>PathCore\<close>, \<^verbatim>\<open>PathAbsolute\<close>, \<^verbatim>\<open>PathRelative\<close>, \<^verbatim>\<open>PathJoin\<close>: the algorithms of
    \<^verbatim>\<open>path_*.c\<close> on their buffers of 0x4000 bytes. \<open>do_getabsolute\<close> computes the resolution of the
    components of a path; \<open>getrelative\<close> inverts it; where the buffers hold and where they do not.
  \<^item> \<^verbatim>\<open>LuaObject\<close> (\<^verbatim>\<open>lobject.h\<close>, \<^verbatim>\<open>lobject.c\<close>): values. A number is the 64 bits of a double, a string
    value its bytes, other objects are addresses. \<^verbatim>\<open>LuaNumber\<close>, \<^verbatim>\<open>LuaArith\<close>: arithmetic, parsing and printing
    of doubles, exact and rounded to even, with the theorem that integers survive printing and reading.
    \<^verbatim>\<open>LuaText\<close>: messages and chunk names.
  \<^item> \<^verbatim>\<open>LuaString\<close> (\<^verbatim>\<open>lstring.c\<close>): interning; equal addresses are equal bytes, which is why a string value is
    its bytes everywhere else.
  \<^item> \<^verbatim>\<open>LuaTable\<close> (\<^verbatim>\<open>ltable.c\<close>) and \<^verbatim>\<open>LuaTableInv\<close>, \<^verbatim>\<open>LuaTableSet\<close>, \<^verbatim>\<open>LuaTableRehash\<close>,
    \<^verbatim>\<open>LuaTableSizes\<close>, \<^verbatim>\<open>LuaTableMap\<close>: the array and the scatter table with Brent's variation refine a map
    (\<open>amap\<close>); the locale \<open>value_map\<close> is what other parts use of it.
  \<^item> \<^verbatim>\<open>LuaOpcodes\<close>, \<^verbatim>\<open>LuaProto\<close>, \<^verbatim>\<open>LuaChecker\<close>: instructions, prototypes, \<^verbatim>\<open>symbexec\<close>; whatever
    the machine can reach in an accepted prototype is an instruction whose operands exist (with one hole, stated).
    \<^verbatim>\<open>LuaSymbexec\<close> is the checker once more, with each of its reads as a step that can fail, for the error
    messages that run it: it reads inside of its arrays, and answers as \<open>symbexec\<close> does.
  \<^item> \<^verbatim>\<open>LuaZio\<close>, \<^verbatim>\<open>LuaDump\<close>, \<^verbatim>\<open>LuaUndump\<close>: streams over any reader (locale \<open>byte_reader\<close>, with
    the readers of \<^verbatim>\<open>lauxlib.c\<close> as models), precompiled chunks over any writer (\<open>byte_writer\<close>), their round trip
    and the refusal of truncated ones.
  \<^item> \<^verbatim>\<open>LuaState\<close>, \<^verbatim>\<open>LuaApi\<close>, \<^verbatim>\<open>LuaDebug\<close>, \<^verbatim>\<open>LuaMeta\<close>, \<^verbatim>\<open>LuaDo\<close>, \<^verbatim>\<open>LuaVM\<close>
    (\<^verbatim>\<open>lstate.h\<close>, \<^verbatim>\<open>lapi.c\<close>, \<^verbatim>\<open>ldebug.c\<close>, \<^verbatim>\<open>ltm.c\<close> and \<^verbatim>\<open>lvm.c\<close>, \<^verbatim>\<open>lfunc.c\<close> and
    \<^verbatim>\<open>ldo.c\<close>, \<^verbatim>\<open>lvm.c\<close>): the state is the record \<open>lua_state\<close> with the stack, the call infos, the open upvalues
    and maps from addresses to objects; an operation is a function from it to a value or an error, with the state it
    leaves. \<^verbatim>\<open>LuaMetaFacts\<close>, \<^verbatim>\<open>LuaCallFacts\<close>, \<^verbatim>\<open>LuaUpvals\<close>, \<^verbatim>\<open>LuaVMFacts\<close> hold what is proved:
    chains and cache of metamethods, order of strings, concatenation, protected calls, bounded error handling,
    shared upvalues, control flow inside checked code, the numeric loop.
  \<^item> \<^verbatim>\<open>LuaAux\<close>, \<^verbatim>\<open>LuaPattern\<close>, \<^verbatim>\<open>LuaPatternFacts\<close>, \<^verbatim>\<open>LuaFormat\<close>, \<^verbatim>\<open>LuaStrlib\<close>,
    \<^verbatim>\<open>LuaTablib\<close>, \<^verbatim>\<open>LuaSort\<close>: \<^verbatim>\<open>lauxlib.c\<close>, \<^verbatim>\<open>lstrlib.c\<close>, \<^verbatim>\<open>ltablib.c\<close>; the matcher is sound and
    complete for the meaning of patterns, and \<^verbatim>\<open>table.sort\<close> sorts (locale \<open>sortable\<close>, with numbers and strings
    as models).
  \<^item> \<^verbatim>\<open>LuaLex\<close>, \<^verbatim>\<open>LuaCode\<close>, \<^verbatim>\<open>LuaParser\<close>: \<^verbatim>\<open>llex.c\<close>, \<^verbatim>\<open>lcode.c\<close>, \<^verbatim>\<open>lparser.c\<close>, the whole
    compiler, in a state monad over the record \<open>LexState\<close>; \<open>luaY_parser\<close> has the type of the parser that
    \<^verbatim>\<open>LuaDo\<close> takes as a parameter. \<^verbatim>\<open>LuaCompRules\<close> has triples for this monad; \<^verbatim>\<open>LuaLexFacts\<close> and
    \<^verbatim>\<open>LuaLexEnds\<close> show that the scanner reads back quoted strings and comes to the end of every source.
  \<^item> \<^verbatim>\<open>LuaBaselib\<close>, \<^verbatim>\<open>LuaMathlib\<close>: \<^verbatim>\<open>lbaselib.c\<close> and \<^verbatim>\<open>lmathlib.c\<close>.
  \<^item> \<^verbatim>\<open>LuaGc\<close> (\<^verbatim>\<open>lgc.c\<close> and \<^verbatim>\<open>lua_gc\<close>): the collector on a heap of objects of all types.
    \<^verbatim>\<open>LuaGcMark\<close> has the tricolour invariant and the primitive steps that keep it, \<^verbatim>\<open>LuaGcTrav\<close> the traversal
    of each type of object, \<^verbatim>\<open>LuaGcSafe\<close> the mark phase, \<^verbatim>\<open>LuaGcAtomic\<close> its end: what the program can reach
    is not dead. \<^verbatim>\<open>LuaGcLinks\<close>: open upvalues and the lists of their threads. \<^verbatim>\<open>LuaGcSweep\<close>: the
    sweep frees dead objects only and keeps the contents of the others, so what the program can reach survives.
  \<^item> \<^verbatim>\<open>HostPath\<close>, \<^verbatim>\<open>HostOs\<close>, \<^verbatim>\<open>HostMain\<close>: the Lua side of the path functions, \<^verbatim>\<open>os_*.c\<close> as compiled for
    Linux, and \<^verbatim>\<open>premake.c\<close>.

  Parameters. What the operating system and the C library answer (files, directories, \<^verbatim>\<open>fnmatch\<close>, \<^verbatim>\<open>pow\<close>)
  and the addresses of C functions are arguments of the definitions. The metamethod operations take
  \<open>call\<close>, the function \<^verbatim>\<open>luaD_call\<close>; \<^verbatim>\<open>LuaVM\<close> ties this knot.

  Fuel. Code that need not end takes a number of steps: the interpreter a number of instructions, because a script may
  loop; the scanner a number of rounds, for which \<open>scanner_reaches_end\<close> shows that more than the length of the source is
  enough; the sort and the traversal with a callback a number of rounds, because the callback may be inconsistent
  (\<open>sort_sorts\<close> shows that the fuel suffices when the order is one). The grammar nests at most 200 levels, the limit
  \<^verbatim>\<open>LUAI_MAXCCALLS\<close> of the code. Other loops have a measure.

  The interpreter and the collector are modelled on two heaps: in \<^verbatim>\<open>LuaVM\<close> objects are never freed and memory
  suffices; \<^verbatim>\<open>LuaGc\<close> keeps of every object its mark and the references that it holds.

  Not modelled: \<^verbatim>\<open>lmem.c\<close>; coroutines and hooks in \<^verbatim>\<open>ldo.c\<close> and \<^verbatim>\<open>ldebug.c\<close>; the libraries \<^verbatim>\<open>liolib.c\<close>,
  \<^verbatim>\<open>loslib.c\<close>, \<^verbatim>\<open>ldblib.c\<close> and \<^verbatim>\<open>loadlib.c\<close>, which are calls of the API and of the C library, and in
  \<^verbatim>\<open>lbaselib.c\<close> the functions on coroutines and \<^verbatim>\<open>load\<close>; the stand-alone programs \<^verbatim>\<open>lua.c\<close>, \<^verbatim>\<open>luac.c\<close> and
  \<^verbatim>\<open>print.c\<close>; the parts of the host for Windows and Mac OS X; the scripts, which are written in Lua.
\<close>

end
